(* ===== verification/Prelude.thy ===== *)
theory Prelude
  imports Complex_Main "HOL-Library.Word" "HOL-Library.Finite_Map"
begin

text \<open>
  Shared vocabulary of the development: byte strings and the big-endian codec of
  \<^verbatim>\<open>encoding/binary\<close>, IEEE double arithmetic, \<^verbatim>\<open>time.Time\<close> and \<^verbatim>\<open>time.Duration\<close>, and Go maps.

  \<^item> A Go \<^verbatim>\<open>[16]byte\<close> is a \<open>128 word\<close>, so that every value of the type is one identifier and
    comparison is equality; its byte image is the big-endian one.
  \<^item> An \<^verbatim>\<open>int64\<close> and a \<^verbatim>\<open>uint64\<close> are both a \<open>64 word\<close>; signed comparisons read it with \<open>sint\<close>.
  \<^item> A \<^verbatim>\<open>float64\<close> is the rational it denotes; every floating-point operation of the source is
    the exact operation followed by \<open>fl64\<close>, rounding to nearest, ties to even, with a 53-bit
    significand.  No operation of the modelled code leaves the normal exponent range.
  \<^item> A \<^verbatim>\<open>time.Time\<close> is the integer number of nanoseconds since the Unix epoch, a
    \<^verbatim>\<open>time.Duration\<close> the integer number of nanoseconds, saturated by \<^verbatim>\<open>Time.Sub\<close> at the
    bounds of \<^verbatim>\<open>int64\<close>.
  \<^item> A Go map is a finite map; its iteration order, which Go leaves open, is not observable in
    any modelled operation.
\<close>

unbundle bit_operations_syntax

named_theorems golen \<open>cardinalities of Go maps after an update\<close>
named_theorems fl64_facts \<open>rounding facts used by the rate limiters\<close>

type_synonym byte = "8 word"
type_synonym bytes = "8 word list"
type_synonym id16 = "128 word"
type_synonym int64 = "64 word"
type_synonym uint64 = "64 word"
type_synonym gotime = int
type_synonym duration = int

section \<open>Definitions\<close>

subsection \<open>Results of Go functions\<close>

text \<open>A call returns a value, returns a non-nil error, or panics (an index or slice bound is
  violated, or the code panics by itself).\<close>

datatype ('e, 'a) outcome = Return 'a | Fail 'e | Panic

definition outcome_bind :: "('e, 'a) outcome \<Rightarrow> ('a \<Rightarrow> ('e, 'b) outcome) \<Rightarrow> ('e, 'b) outcome" where
  "outcome_bind m f = (case m of Return a \<Rightarrow> f a | Fail e \<Rightarrow> Fail e | Panic \<Rightarrow> Panic)"

text \<open>A loop over a slice that returns at the first error.\<close>

fun fold_outcome :: "('s \<Rightarrow> 'a \<Rightarrow> ('e, 's) outcome) \<Rightarrow> 's \<Rightarrow> 'a list \<Rightarrow> ('e, 's) outcome" where
  "fold_outcome f s [] = Return s"
| "fold_outcome f s (x # xs) = outcome_bind (f s x) (\<lambda>s'. fold_outcome f s' xs)"

text \<open>\<^verbatim>\<open>p[:n]\<close> and \<^verbatim>\<open>p[n:]\<close>, which panic beyond the end of the slice.\<close>

definition slice_to :: "'a list \<Rightarrow> nat \<Rightarrow> 'a list option" where
  "slice_to p n = (if n \<le> length p then Some (take n p) else None)"

definition slice_from :: "'a list \<Rightarrow> nat \<Rightarrow> 'a list option" where
  "slice_from p n = (if n \<le> length p then Some (drop n p) else None)"

subsection \<open>Big-endian codec\<close>

fun be_bytes :: "nat \<Rightarrow> 'a::len word \<Rightarrow> bytes" where
  "be_bytes 0 w = []"
| "be_bytes (Suc n) w = be_bytes n (drop_bit 8 w) @ [ucast w]"

definition be_word :: "bytes \<Rightarrow> 'a::len word" where
  "be_word bs = foldl (\<lambda>w b. push_bit 8 w OR ucast b) 0 bs"

subsection \<open>Double precision\<close>

fun bit_length :: "int \<Rightarrow> int" where
  "bit_length n = (if n \<le> 0 then 0 else 1 + bit_length (n div 2))"

declare bit_length.simps [simp del]

definition flog2 :: "rat \<Rightarrow> int" where
  "flog2 x = (let (p, q) = quotient_of x;
                  k = bit_length p - bit_length q
              in if 2 powi k \<le> x then k else k - 1)"

definition round_even :: "rat \<Rightarrow> int" where
  "round_even x = (let f = \<lfloor>x\<rfloor>; d = x - of_int f
     in if d < 1/2 then f else if d > 1/2 then f + 1 else if even f then f else f + 1)"

definition fl64 :: "rat \<Rightarrow> rat" where
  "fl64 x = (if x = 0 then 0
             else let e = 52 - flog2 \<bar>x\<bar>
                  in of_int (round_even (x * 2 powi e)) * 2 powi (- e))"

subsection \<open>Time\<close>

definition max_int64 :: int where "max_int64 = 9223372036854775807"
definition min_int64 :: int where "min_int64 = - 9223372036854775808"

definition time_sub :: "gotime \<Rightarrow> gotime \<Rightarrow> duration" where
  "time_sub t u = max min_int64 (min max_int64 (t - u))"

definition unix_milli :: "gotime \<Rightarrow> int" where
  "unix_milli t = t div 1000000"

abbreviation (input) second :: duration where "second \<equiv> 1000000000"
abbreviation (input) millisecond :: duration where "millisecond \<equiv> 1000000"

text \<open>\<^verbatim>\<open>Duration.Seconds\<close>: whole seconds plus the rest divided by \<open>10\<^sup>9\<close>, Go's division
  truncating towards zero.\<close>

definition go_quot :: "int \<Rightarrow> int \<Rightarrow> int" where
  "go_quot a b = sgn a * sgn b * (\<bar>a\<bar> div \<bar>b\<bar>)"

definition go_rem :: "int \<Rightarrow> int \<Rightarrow> int" where
  "go_rem a b = a - go_quot a b * b"

definition dur_seconds :: "duration \<Rightarrow> rat" where
  "dur_seconds d =
     fl64 (fl64 (of_int (go_quot d second)) + fl64 (fl64 (of_int (go_rem d second)) / 1000000000))"

subsection \<open>Go maps\<close>

definition gm_len :: "('k, 'v) fmap \<Rightarrow> nat" where
  "gm_len m = fcard (fmdom m)"

definition gm_filter :: "('k \<Rightarrow> 'v \<Rightarrow> bool) \<Rightarrow> ('k, 'v) fmap \<Rightarrow> ('k, 'v) fmap" where
  "gm_filter P m = fmfilter (\<lambda>k. case fmlookup m k of None \<Rightarrow> False | Some v \<Rightarrow> P k v) m"

section \<open>Theorems\<close>

subsection \<open>Outcomes\<close>

lemma outcome_bind_simps [simp]:
  "outcome_bind (Return a) f = f a" "outcome_bind (Fail e) f = Fail e" "outcome_bind Panic f = Panic"
  by (simp_all add: outcome_bind_def)

lemma outcome_bind_Return: "outcome_bind m f = Return b \<longleftrightarrow> (\<exists>a. m = Return a \<and> f a = Return b)"
  by (cases m) auto

lemma fold_outcome_append:
  "fold_outcome f s (xs @ ys) = outcome_bind (fold_outcome f s xs) (\<lambda>s'. fold_outcome f s' ys)"
proof (induction xs arbitrary: s)
  case (Cons x xs)
  then show ?case by (cases "f s x") simp_all
qed simp

lemma fold_outcome_invariant:
  assumes "fold_outcome f s xs = Return s'" "P s" "\<And>s x s'. \<lbrakk>P s; x \<in> set xs; f s x = Return s'\<rbrakk> \<Longrightarrow> P s'"
  shows "P s'"
  using assms
proof (induction xs arbitrary: s)
  case (Cons x xs)
  from Cons.prems(1) obtain s1 where s1: "f s x = Return s1" "fold_outcome f s1 xs = Return s'"
    by (auto simp: outcome_bind_Return)
  have "P s1" using Cons.prems(2,3) s1(1) by (meson list.set_intros(1))
  then show ?case using Cons.IH [OF s1(2)] Cons.prems(3) by (meson list.set_intros(2))
qed simp

subsection \<open>Counters\<close>

lemma sum_list_update_group:
  "k < length xs \<Longrightarrow> sum_list (xs[k := x]) = sum_list xs + (x - xs ! k :: 'a::ab_group_add)"
  by (induction xs arbitrary: k) (auto split: nat.splits)

lemma succ_less:
  assumes "(w :: 'a::len word) \<noteq> - 1"
  shows "w < w + 1"
proof -
  have "1 + w \<noteq> 0" using assms by (metis add.commute eq_neg_iff_add_eq_0)
  then have "unat (1 + w) = Suc (unat w)" by (rule unatSuc)
  then show ?thesis by (simp add: word_less_nat_alt add.commute)
qed

subsection \<open>Big-endian codec\<close>

lemma length_be_bytes [simp]: "length (be_bytes n w) = n"
  by (induction n arbitrary: w) auto

lemma be_word_Nil [simp]: "be_word [] = 0"
  by (simp add: be_word_def)

lemma be_word_snoc: "be_word (bs @ [b]) = push_bit 8 (be_word bs) OR ucast b"
  by (simp add: be_word_def)

lemma bit_be_word_bound: "bit (be_word bs :: 'a::len word) k \<Longrightarrow> k < 8 * length bs"
proof (induction bs arbitrary: k rule: rev_induct)
  case Nil
  then show ?case by simp
next
  case (snoc b bs)
  then have "(k \<ge> 8 \<and> bit (be_word bs :: 'a word) (k - 8)) \<or> bit b k"
    by (auto simp: be_word_snoc bit_simps)
  then show ?case
  proof
    assume "k \<ge> 8 \<and> bit (be_word bs :: 'a word) (k - 8)"
    with snoc.IH [of "k - 8"] show ?thesis by auto
  next
    assume "bit b k"
    then have "k < 8" using bit_imp_le_length by fastforce
    then show ?thesis by simp
  qed
qed

lemma be_word_be_bytes: "be_word (be_bytes n w :: bytes) = take_bit (8 * n) (w :: 'a::len word)"
proof (induction n arbitrary: w)
  case 0
  then show ?case by simp
next
  case (Suc n)
  have "be_word (be_bytes (Suc n) w) = push_bit 8 (take_bit (8 * n) (drop_bit 8 w)) OR ucast (ucast w :: byte)"
    by (simp add: be_word_snoc Suc)
  also have "\<dots> = take_bit (8 * Suc n) w"
    by (rule bit_word_eqI) (auto simp: bit_simps)
  finally show ?case .
qed

corollary be_word_be_bytes_full [simp]:
  "LENGTH('a) = 8 * n \<Longrightarrow> be_word (be_bytes n w) = (w :: 'a::len word)"
  by (simp add: be_word_be_bytes) (metis take_bit_length_eq)

lemma be_bytes_be_word:
  "\<lbrakk>length bs = n; 8 * n \<le> LENGTH('a)\<rbrakk> \<Longrightarrow> be_bytes n (be_word bs :: 'a::len word) = bs"
proof (induction bs arbitrary: n rule: rev_induct)
  case Nil
  then show ?case by simp
next
  case (snoc b bs)
  then obtain m where n: "n = Suc m" and m: "length bs = m" "8 * m + 8 \<le> LENGTH('a)"
    by (cases n) auto
  have "drop_bit 8 (push_bit 8 (be_word bs) OR ucast b) = (be_word bs :: 'a word)"
    using m by (intro bit_word_eqI) (auto simp: bit_simps dest: bit_be_word_bound bit_imp_le_length)
  moreover have "ucast (push_bit 8 (be_word bs :: 'a word) OR ucast b) = b"
    using m by (intro bit_word_eqI) (auto simp: bit_simps)
  moreover have "be_bytes m (be_word bs :: 'a word) = bs"
    using snoc.IH [of m] m by simp
  ultimately show ?case by (simp add: n be_word_snoc)
qed

subsection \<open>Rounding\<close>

lemma bit_length_nonneg: "0 \<le> bit_length n"
  by (induction n rule: bit_length.induct) (subst bit_length.simps, simp)

lemma bit_length_bounds_int:
  "0 < p \<Longrightarrow> 2 ^ nat (bit_length p) \<le> 2 * p \<and> p < 2 ^ nat (bit_length p)"
proof (induction p rule: bit_length.induct)
  case (1 p)
  have b: "nat (bit_length p) = Suc (nat (bit_length (p div 2)))"
    using "1.prems" bit_length_nonneg [of "p div 2"]
    by (subst bit_length.simps) (simp add: nat_add_distrib)
  show ?case
  proof (cases "p div 2 > 0")
    case True
    then have "2 ^ nat (bit_length (p div 2)) \<le> 2 * (p div 2)" "p div 2 < 2 ^ nat (bit_length (p div 2))"
      using "1.IH" "1.prems" by auto
    then show ?thesis unfolding b power_Suc by linarith
  next
    case False
    with "1.prems" have "p = 1" by linarith
    then show ?thesis by (simp add: bit_length.simps)
  qed
qed

lemma bit_length_bounds:
  assumes "0 < p"
  shows "(2::rat) powi (bit_length p - 1) \<le> of_int p" and "of_int p < (2::rat) powi bit_length p"
proof -
  let ?b = "bit_length p"
  have b: "(2::rat) powi ?b = of_int (2 ^ nat ?b)"
    using bit_length_nonneg [of p] by (simp add: power_int_def)
  have "of_int (2 ^ nat ?b) \<le> (of_int (2 * p) :: rat)" "of_int p < (of_int (2 ^ nat ?b) :: rat)"
    using bit_length_bounds_int [OF assms] by (simp_all only: of_int_le_iff of_int_less_iff)
  then have "2 powi ?b \<le> 2 * (of_int p :: rat)" "of_int p < (2 powi ?b :: rat)"
    unfolding b by simp_all
  moreover have "(2::rat) powi ?b = 2 powi (?b - 1) * 2"
    using power_int_add_1 [of "2::rat" "?b - 1"] by simp
  ultimately show "(2::rat) powi (bit_length p - 1) \<le> of_int p" and "of_int p < (2::rat) powi bit_length p"
    by linarith+
qed

lemma flog2_bounds:
  assumes "0 < x"
  shows "2 powi flog2 x \<le> x" and "x < 2 powi (flog2 x + 1)"
proof -
  obtain p q where pq: "quotient_of x = (p, q)" by (cases "quotient_of x")
  then have x: "x = of_int p / of_int q" and q: "q > 0"
    by (auto simp: quotient_of_div quotient_of_denom_pos)
  with assms have p: "p > 0"
    by (simp add: zero_less_divide_iff)
  define bp where "bp = bit_length p"
  define bq where "bq = bit_length q"
  note P = bit_length_bounds [OF p, folded bp_def]
  note Q = bit_length_bounds [OF q, folded bq_def]
  have "x < 2 powi bp / 2 powi (bq - 1)"
    unfolding x using P Q q p by (intro frac_less) auto
  also have "\<dots> = 2 powi (bp - bq + 1)"
    by (simp add: power_int_diff [symmetric] algebra_simps)
  finally have hi: "x < 2 powi (bp - bq + 1)" .
  have "2 powi (bp - bq - 1) = 2 powi (bp - 1) / (2 powi bq :: rat)"
    by (simp add: power_int_diff [symmetric] algebra_simps)
  also have "\<dots> \<le> x"
    unfolding x using P Q q p by (intro frac_le) auto
  finally have lo: "2 powi (bp - bq - 1) \<le> x" .
  have "flog2 x = (if 2 powi (bp - bq) \<le> x then bp - bq else bp - bq - 1)"
    by (simp add: flog2_def pq bp_def bq_def)
  with hi lo show "2 powi flog2 x \<le> x" "x < 2 powi (flog2 x + 1)"
    by (simp_all split: if_splits)
qed

lemma round_even_error: "\<bar>of_int (round_even x) - x\<bar> \<le> 1/2"
  using floor_correct [of x] by (auto simp: round_even_def Let_def abs_le_iff)

lemma round_even_of_int [simp]: "round_even (of_int n) = n"
  by (simp add: round_even_def)

lemma fl64_0 [simp]: "fl64 0 = 0"
  by (simp add: fl64_def)

lemma fl64_error: "\<bar>fl64 x - x\<bar> \<le> \<bar>x\<bar> / 2 ^ 53"
proof (cases "x = 0")
  case False
  define e where "e = 52 - flog2 \<bar>x\<bar>"
  have "\<bar>fl64 x - x\<bar> = \<bar>of_int (round_even (x * 2 powi e)) - x * 2 powi e\<bar> * 2 powi (- e)"
  proof -
    have "fl64 x - x = (of_int (round_even (x * 2 powi e)) - x * 2 powi e) * 2 powi (- e)"
      using False by (simp add: fl64_def Let_def e_def [symmetric] left_diff_distrib
          mult.assoc power_int_minus)
    then show ?thesis by (simp add: abs_mult)
  qed
  also have "\<dots> \<le> 1/2 * 2 powi (- e)"
    by (intro mult_right_mono round_even_error) auto
  also have "\<dots> = 2 powi flog2 \<bar>x\<bar> / 2 ^ 53"
    by (simp add: e_def power_int_diff)
  also have "\<dots> \<le> \<bar>x\<bar> / 2 ^ 53"
    using flog2_bounds(1) [of "\<bar>x\<bar>"] False by (intro divide_right_mono) auto
  finally show ?thesis .
qed simp

lemma fl64_bounds: "0 \<le> x \<Longrightarrow> x - x / 2 ^ 53 \<le> fl64 x \<and> fl64 x \<le> x + x / 2 ^ 53"
  using fl64_error [of x] unfolding abs_le_iff by (simp add: field_simps)

lemma fl64_nonneg [simp]: "0 \<le> x \<Longrightarrow> 0 \<le> fl64 x"
  using fl64_bounds [of x] by simp

lemma fl64_pos [simp]: "0 < x \<Longrightarrow> 0 < fl64 x"
  using fl64_bounds [of x] by simp

lemma fl64_of_int [simp]:
  assumes "\<bar>n\<bar> \<le> 2 ^ 53"
  shows "fl64 (of_int n) = of_int n"
proof (cases "n = 0")
  case False
  define k where "k = flog2 \<bar>of_int n\<bar>"
  have k: "2 powi k \<le> \<bar>of_int n :: rat\<bar>" "\<bar>of_int n :: rat\<bar> < 2 powi (k + 1)"
    using flog2_bounds [of "\<bar>of_int n\<bar>"] False by (auto simp: k_def)
  have n53: "\<bar>of_int n :: rat\<bar> \<le> 2 powi 53"
    using assms by (metis of_int_abs of_int_le_iff of_int_numeral of_int_power power_int_numeral)
  have "\<exists>m. of_int n * 2 powi (52 - k) = (of_int m :: rat)"
  proof (cases "k \<le> 52")
    case True
    then have "of_int n * 2 powi (52 - k) = (of_int (n * 2 ^ nat (52 - k)) :: rat)"
      by (simp add: power_int_def)
    then show ?thesis by blast
  next
    case k52: False
    with k n53 have "2 powi k \<le> (2 powi 53 :: rat)" by linarith
    then have "k \<le> 53" 
      by (metis linorder_not_less numeral_One one_less_numeral_iff power_int_strict_increasing semiring_norm(76))
    with k52 have "k = 53" by simp
    with k n53 have "\<bar>of_int n\<bar> = (2 ^ 53 :: rat)" by simp
    then have "of_int \<bar>n\<bar> = (of_int (2 ^ 53) :: rat)" by simp
    then have "\<bar>n\<bar> = 2 ^ 53" by (simp only: of_int_eq_iff)
    then have "n = 2 ^ 53 \<or> n = - (2 ^ 53)" by linarith
    then show ?thesis using \<open>k = 53\<close>
      by (auto intro: exI [of _ "2 ^ 52"] exI [of _ "- (2 ^ 52)"] simp: power_int_minus)
  qed
  then obtain m where m: "of_int n * 2 powi (52 - k) = (of_int m :: rat)" ..
  then have "fl64 (of_int n) = of_int m * 2 powi (- (52 - k))"
    using False by (simp add: fl64_def Let_def k_def [symmetric])
  also have "\<dots> = of_int n * (2 powi (52 - k) * 2 powi (- (52 - k)))"
    by (simp flip: m)
  also have "\<dots> = of_int n"
    by (simp flip: power_int_add)
  finally show ?thesis .
qed simp

lemma round_even_ge: "of_int n \<le> x \<Longrightarrow> n \<le> round_even x"
proof -
  assume "of_int n \<le> x"
  then have "n \<le> \<lfloor>x\<rfloor>" by (simp add: le_floor_iff)
  then show ?thesis by (simp add: round_even_def Let_def)
qed

lemma fl64_ge_binade: "0 < x \<Longrightarrow> 2 powi flog2 x \<le> fl64 x"
proof -
  assume x: "0 < x"
  define e where "e = 52 - flog2 x"
  have "(2::rat) powi flog2 x * 2 powi e \<le> x * 2 powi e"
    using flog2_bounds(1) [OF x] by (intro mult_right_mono) auto
  moreover have p52: "(2::rat) powi flog2 x * 2 powi e = of_int (2 ^ 52)"
    by (simp add: e_def flip: power_int_add)
  ultimately have "(2 ^ 52 :: int) \<le> round_even (x * 2 powi e)"
    by (intro round_even_ge) simp
  then have "(of_int (2 ^ 52) :: rat) \<le> of_int (round_even (x * 2 powi e))"
    by (simp only: of_int_le_iff)
  then have "of_int (2 ^ 52) * 2 powi (- e) \<le> of_int (round_even (x * 2 powi e)) * (2 powi (- e) :: rat)"
    by (intro mult_right_mono) simp_all
  moreover have "of_int (2 ^ 52) * 2 powi (- e) = (2 powi flog2 x :: rat)"
    unfolding p52 [symmetric] by (simp add: mult.assoc flip: power_int_add)
  moreover have "fl64 x = of_int (round_even (x * 2 powi e)) * 2 powi (- e)"
    using x by (simp add: fl64_def Let_def e_def)
  ultimately show ?thesis by (simp only:)
qed

lemma fl64_ge_1: "1 \<le> x \<Longrightarrow> 1 \<le> fl64 x"
proof -
  assume x: "1 \<le> x"
  have "0 \<le> flog2 x"
  proof (rule ccontr)
    assume "\<not> 0 \<le> flog2 x"
    then have "(2::rat) powi (flog2 x + 1) \<le> 2 powi 0" by (intro power_int_increasing) auto
    with flog2_bounds(2) [of x] x show False by simp
  qed
  then have "(2::rat) powi 0 \<le> 2 powi flog2 x" by (intro power_int_increasing) auto
  with fl64_ge_binade [of x] x show ?thesis by simp
qed

lemma fl64_numeral [simp]: "numeral n \<le> (2::int) ^ 53 \<Longrightarrow> fl64 (numeral n) = numeral n"
  using fl64_of_int [of "numeral n"] by simp

lemma fl64_1 [simp]: "fl64 1 = 1"
  using fl64_of_int [of 1] by simp

lemma fl64_of_nat [simp]: "n \<le> 2 ^ 53 \<Longrightarrow> fl64 (of_nat n) = of_nat n"
  using fl64_of_int [of "int n"] by (simp add: of_nat_power_le_of_nat_cancel_iff)

lemma dur_seconds_nonneg: "0 \<le> d \<Longrightarrow> 0 \<le> dur_seconds d"
  by (cases "d = 0") (auto simp: dur_seconds_def go_rem_def go_quot_def sgn_if
      intro!: fl64_nonneg add_nonneg_nonneg divide_nonneg_nonneg
      simp: minus_div_mult_eq_mod)

subsection \<open>Lists\<close>

lemma length_filter_mono: "(\<And>x. P x \<Longrightarrow> Q x) \<Longrightarrow> length (filter P xs) \<le> length (filter Q xs)"
  by (induction xs) (auto simp: le_SucI)

subsection \<open>Go maps\<close>

lemma fmlookup_gm_filter [simp]:
  "fmlookup (gm_filter P m) k =
     (case fmlookup m k of None \<Rightarrow> None | Some v \<Rightarrow> if P k v then Some v else None)"
  by (simp add: gm_filter_def split: option.splits)

lemma gm_len_empty [simp]: "gm_len fmempty = 0"
  by (simp add: gm_len_def)

lemma gm_len_upd [golen]:
  "gm_len (fmupd k v m) = (if fmlookup m k = None then Suc (gm_len m) else gm_len m)"
  by (auto simp: gm_len_def fcard_finsert_disjoint fmlookup_dom_iff finsert_absorb)

lemma gm_len_filter_le [golen]: "gm_len (gm_filter P m) \<le> gm_len m"
  unfolding gm_len_def gm_filter_def by (intro fcard_mono) auto

lemma gm_len_drop_le [golen]: "gm_len (fmdrop k m) \<le> gm_len m"
  unfolding gm_len_def by (intro fcard_mono) auto

lemma gm_len_drop [golen]:
  "fmlookup m k = Some v \<Longrightarrow> gm_len m = Suc (gm_len (fmdrop k m))"
  unfolding gm_len_def
  by (metis fcard_Suc_fminus1 fmdomI fmdom_drop)

end
