(* ===== verification/Packet.thy ===== *)
theory Packet
  imports Prelude
begin

text \<open>
  The wire format of the voice protocol: \<^verbatim>\<open>internal/protocol/packet.go\<close>,
  \<^verbatim>\<open>internal/protocol/crypto.go\<close> and \<^verbatim>\<open>buildPacket\<close> of \<^verbatim>\<open>internal/protocol/udp.go\<close>.

  AES-256-GCM and HKDF are parameters: \<open>gcm\<close> maps a 32-byte key to its AEAD (an \<open>aead\<close>
  record of the two methods of \<^verbatim>\<open>cipher.AEAD\<close>), \<open>hkdf\<close> maps key, salt and label to 32 bytes.
  \<open>aead_ok\<close> collects what the code relies on: opening what was sealed under the same nonce
  and header gives the plaintext back, and the ciphertext is 16 bytes longer than the plaintext.
\<close>

section \<open>Definitions\<close>

subsection \<open>Constants and errors\<close>

definition Magic :: bytes where "Magic = [90, 86, 88, 49]"
definition ProtocolVersion :: byte where "ProtocolVersion = 1"
definition HeaderSize :: nat where "HeaderSize = 30"
definition ChannelHeaderSize :: nat where "ChannelHeaderSize = 12"
definition TagSize :: nat where "TagSize = 16"
definition MaxPacketSize :: nat where "MaxPacketSize = 1200"
definition MaxPayloadEncrypted :: nat where
  "MaxPayloadEncrypted = MaxPacketSize - HeaderSize - ChannelHeaderSize - TagSize"
definition MaxPayloadPlaintext :: nat where
  "MaxPayloadPlaintext = MaxPacketSize - HeaderSize - ChannelHeaderSize"
definition HeartbeatChannelType :: byte where "HeartbeatChannelType = 0"
definition masterKeySize :: nat where "masterKeySize = 32"

datatype proto_error =
    ErrInvalidKey | ErrSequenceZero | ErrOpenFailed | ErrBadAAD
  | ErrChannelTypeReserved | ErrChannelAlreadyRegistered | ErrChannelRegistrySealed
  | ErrSequenceExhausted | ErrInvalidUserID | ErrSessionNotFound | ErrSessionNotOwned
  | ErrNoKey | ErrNoPeer | ErrChannelNotRegistered | ErrInvalidSpeakerID
  | ErrPayloadTooLarge | ErrSessionPrecondition | ErrSessionExpired
  | ErrInvalidLimits | ErrRandom | ErrNilDependency | ErrNilPacketConn
  | ErrUDPServerStarted | ErrUDPServerClosed | ErrNetClosed | ErrWriteFailed

definition MaxPayload :: "bool \<Rightarrow> nat" where
  "MaxPayload encrypted = (if encrypted then MaxPayloadEncrypted else MaxPayloadPlaintext)"

definition MinPacketSize :: "bool \<Rightarrow> nat" where
  "MinPacketSize encrypted =
     (if encrypted then HeaderSize + ChannelHeaderSize + TagSize
      else HeaderSize + ChannelHeaderSize)"

lemmas size_consts =
  HeaderSize_def ChannelHeaderSize_def TagSize_def MaxPacketSize_def
  MaxPayloadEncrypted_def MaxPayloadPlaintext_def MaxPayload_def MinPacketSize_def

record ChannelHeader =
  ChannelType :: byte
  ChannelSeq :: "16 word"
  Flags :: byte
  SpeakerID :: int64

definition zeroChannelHeader :: ChannelHeader where
  "zeroChannelHeader = \<lparr>ChannelType = 0, ChannelSeq = 0, Flags = 0, SpeakerID = 0\<rparr>"

subsection \<open>Headers\<close>

definition putOuterHeader :: "bytes \<Rightarrow> id16 \<Rightarrow> uint64 \<Rightarrow> bytes option" where
  "putOuterHeader dst sessionID seq =
     (if length dst < HeaderSize then None
      else Some (Magic @ [ProtocolVersion, 0] @ be_bytes 16 sessionID @ be_bytes 8 seq
                 @ drop HeaderSize dst))"

definition parseOuterHeader :: "bytes \<Rightarrow> id16 \<times> uint64 \<times> bool" where
  "parseOuterHeader p =
     (if length p < HeaderSize \<or> length p > MaxPacketSize then (0, 0, False)
      else if take 4 p \<noteq> Magic \<or> p ! 4 \<noteq> ProtocolVersion \<or> p ! 5 \<noteq> 0 then (0, 0, False)
      else let sessionID = be_word (take 16 (drop 6 p));
               seq = be_word (take 8 (drop 22 p))
           in if seq = 0 then (sessionID, 0, False) else (sessionID, seq, True))"

definition putChannelHeader :: "bytes \<Rightarrow> ChannelHeader \<Rightarrow> bytes option" where
  "putChannelHeader dst ch =
     (if length dst < ChannelHeaderSize then None
      else Some ([ChannelType ch] @ be_bytes 2 (ChannelSeq ch) @ [Flags ch]
                 @ be_bytes 8 (SpeakerID ch) @ drop ChannelHeaderSize dst))"

definition parseChannelHeader :: "bytes \<Rightarrow> ChannelHeader \<times> bool" where
  "parseChannelHeader p =
     (if length p < ChannelHeaderSize then (zeroChannelHeader, False)
      else (\<lparr>ChannelType = p ! 0, ChannelSeq = be_word (take 2 (drop 1 p)), Flags = p ! 3,
             SpeakerID = be_word (take 8 (drop 4 p))\<rparr>, True))"

subsection \<open>Authenticated encryption\<close>

record aead =
  aead_seal :: "bytes \<Rightarrow> bytes \<Rightarrow> bytes \<Rightarrow> bytes"          \<comment> \<open>nonce, plaintext, additional data\<close>
  aead_open :: "bytes \<Rightarrow> bytes \<Rightarrow> bytes \<Rightarrow> bytes option"   \<comment> \<open>nonce, ciphertext, additional data\<close>

definition aead_ok :: "aead \<Rightarrow> bool" where
  "aead_ok a \<longleftrightarrow>
     (\<forall>n p h. aead_open a n (aead_seal a n p h) h = Some p) \<and>
     (\<forall>n p h. length (aead_seal a n p h) = length p + TagSize) \<and>
     (\<forall>n c h p. aead_open a n c h = Some p \<longrightarrow> length c = length p + TagSize)"

definition DeriveDirectionKeys ::
  "(bytes \<Rightarrow> bytes \<Rightarrow> bytes \<Rightarrow> bytes) \<Rightarrow> id16 \<Rightarrow> bytes \<Rightarrow> (proto_error, bytes \<times> bytes) outcome" where
  "DeriveDirectionKeys hkdf sessionID masterKey =
     (if length masterKey \<noteq> masterKeySize then Fail ErrInvalidKey
      else Return (hkdf masterKey (be_bytes 16 sessionID) (map (\<lambda>c. of_nat (of_char c)) ''zephyrvox-voice-c2s-v1''),
                   hkdf masterKey (be_bytes 16 sessionID) (map (\<lambda>c. of_nat (of_char c)) ''zephyrvox-voice-s2c-v1'')))"

definition NonceFor :: "uint64 \<Rightarrow> bytes" where
  "NonceFor seq = replicate 4 0 @ be_bytes 8 seq"

definition newGCM :: "(bytes \<Rightarrow> aead) \<Rightarrow> bytes \<Rightarrow> (proto_error, aead) outcome" where
  "newGCM gcm key = (if length key \<noteq> masterKeySize then Fail ErrInvalidKey else Return (gcm key))"

definition sealWithAEAD ::
  "aead option \<Rightarrow> uint64 \<Rightarrow> bytes \<Rightarrow> bytes \<Rightarrow> (proto_error, bytes) outcome" where
  "sealWithAEAD a seq header plaintext =
     (case a of None \<Rightarrow> Fail ErrNoKey
      | Some g \<Rightarrow>
          if seq = 0 then Fail ErrSequenceZero
          else if length header \<noteq> HeaderSize then Fail ErrBadAAD
          else Return (aead_seal g (NonceFor seq) plaintext header))"

definition openWithAEAD ::
  "aead option \<Rightarrow> uint64 \<Rightarrow> bytes \<Rightarrow> bytes \<Rightarrow> (proto_error, bytes) outcome" where
  "openWithAEAD a seq header ciphertext =
     (case a of None \<Rightarrow> Fail ErrNoKey
      | Some g \<Rightarrow>
          if seq = 0 then Fail ErrSequenceZero
          else if length header \<noteq> HeaderSize then Fail ErrBadAAD
          else (case aead_open g (NonceFor seq) ciphertext header of
                  None \<Rightarrow> Fail ErrOpenFailed
                | Some plaintext \<Rightarrow> Return plaintext))"

definition Seal ::
  "(bytes \<Rightarrow> aead) \<Rightarrow> bytes \<Rightarrow> uint64 \<Rightarrow> bytes \<Rightarrow> bytes \<Rightarrow> (proto_error, bytes) outcome" where
  "Seal gcm key seq header plaintext =
     (case newGCM gcm key of
        Return g \<Rightarrow> sealWithAEAD (Some g) seq header plaintext
      | Fail e \<Rightarrow> Fail e | Panic \<Rightarrow> Panic)"

definition Open ::
  "(bytes \<Rightarrow> aead) \<Rightarrow> bytes \<Rightarrow> uint64 \<Rightarrow> bytes \<Rightarrow> bytes \<Rightarrow> (proto_error, bytes) outcome" where
  "Open gcm key seq header ciphertext =
     (case newGCM gcm key of
        Return g \<Rightarrow> openWithAEAD (Some g) seq header ciphertext
      | Fail e \<Rightarrow> Fail e | Panic \<Rightarrow> Panic)"

subsection \<open>Datagrams\<close>

definition buildPacket ::
  "id16 \<Rightarrow> uint64 \<Rightarrow> bool \<Rightarrow> aead option \<Rightarrow> ChannelHeader \<Rightarrow> bytes \<Rightarrow> (proto_error, bytes) outcome" where
  "buildPacket sessionID seq encrypted a ch payload =
     (if seq = 0 then Fail ErrSequenceZero
      else if length payload > MaxPayload encrypted then Fail ErrPayloadTooLarge
      else case (putOuterHeader (replicate HeaderSize 0) sessionID seq,
                 putChannelHeader (replicate ChannelHeaderSize 0) ch) of
        (Some header, Some sub) \<Rightarrow>
          (let body = sub @ payload
           in if \<not> encrypted then Return (header @ body)
              else (case sealWithAEAD a seq header body of
                      Return ciphertext \<Rightarrow> Return (header @ ciphertext)
                    | Fail e \<Rightarrow> Fail e | Panic \<Rightarrow> Panic))
      | _ \<Rightarrow> Panic)"

text \<open>A nil key slice is \<open>None\<close>; its length is 0.\<close>

definition key_bytes :: "bytes option \<Rightarrow> bytes" where
  "key_bytes key = (case key of None \<Rightarrow> [] | Some k \<Rightarrow> k)"

definition EncodePacket ::
  "(bytes \<Rightarrow> aead) \<Rightarrow> id16 \<Rightarrow> uint64 \<Rightarrow> bool \<Rightarrow> bytes option \<Rightarrow> ChannelHeader \<Rightarrow> bytes
     \<Rightarrow> (proto_error, bytes) outcome" where
  "EncodePacket gcm sessionID seq encrypted key ch payload =
     (if seq = 0 then Fail ErrSequenceZero
      else if encrypted then
        (case newGCM gcm (key_bytes key) of
           Return g \<Rightarrow> buildPacket sessionID seq True (Some g) ch payload
         | Fail e \<Rightarrow> Fail e | Panic \<Rightarrow> Panic)
      else buildPacket sessionID seq False None ch payload)"

type_synonym decoded = "id16 \<times> uint64 \<times> ChannelHeader \<times> bytes \<times> bool"

text \<open>The last step shared by both modes: split the body into subheader and payload;
  \<open>None\<close> is a slice-bounds panic.\<close>

definition splitBody :: "id16 \<Rightarrow> uint64 \<Rightarrow> bytes \<Rightarrow> decoded option" where
  "splitBody sessionID seq body =
     (case (slice_to body ChannelHeaderSize, slice_from body ChannelHeaderSize) of
        (Some sub, Some payload) \<Rightarrow>
          (case parseChannelHeader sub of
             (ch, ok) \<Rightarrow> if \<not> ok then Some (sessionID, seq, ch, [], False)
                         else Some (sessionID, seq, ch, payload, True))
      | _ \<Rightarrow> None)"

definition DecodePacket ::
  "(bytes \<Rightarrow> aead) \<Rightarrow> bytes \<Rightarrow> bool \<Rightarrow> bytes option \<Rightarrow> decoded option" where
  "DecodePacket gcm packet encrypted key =
     (case parseOuterHeader packet of
        (sessionID, seq, ok) \<Rightarrow>
          if \<not> ok then Some (sessionID, seq, zeroChannelHeader, [], False)
          else if encrypted then
            (if key = None \<or> length packet < MinPacketSize True
             then Some (sessionID, seq, zeroChannelHeader, [], False)
             else (case Open gcm (key_bytes key) seq (take HeaderSize packet) (drop HeaderSize packet) of
                     Return plaintext \<Rightarrow> splitBody sessionID seq plaintext
                   | Fail e \<Rightarrow> Some (sessionID, seq, zeroChannelHeader, [], False)
                   | Panic \<Rightarrow> None))
          else if length packet < MinPacketSize False
          then Some (sessionID, seq, zeroChannelHeader, [], False)
          else splitBody sessionID seq (drop HeaderSize packet))"

section \<open>Theorems\<close>

lemma length_Magic [simp]: "length Magic = 4"
  by (simp add: Magic_def)

lemma length_NonceFor: "length (NonceFor seq) = 12"
  by (simp add: NonceFor_def)

lemma be_bytes_inj:
  "\<lbrakk>be_bytes n v = be_bytes n w; LENGTH('a) = 8 * n\<rbrakk> \<Longrightarrow> v = (w :: 'a::len word)"
  by (metis be_word_be_bytes_full)

text \<open>The two headers as values, what the writers leave in a fresh buffer.\<close>

definition outer_header :: "id16 \<Rightarrow> uint64 \<Rightarrow> bytes" where
  "outer_header sid seq = Magic @ [ProtocolVersion, 0] @ be_bytes 16 sid @ be_bytes 8 seq"

definition channel_header :: "ChannelHeader \<Rightarrow> bytes" where
  "channel_header ch = [ChannelType ch] @ be_bytes 2 (ChannelSeq ch) @ [Flags ch] @ be_bytes 8 (SpeakerID ch)"

lemma length_outer_header [simp]: "length (outer_header sid seq) = HeaderSize"
  by (simp add: outer_header_def HeaderSize_def)

lemma length_channel_header [simp]: "length (channel_header ch) = ChannelHeaderSize"
  by (simp add: channel_header_def ChannelHeaderSize_def)

lemma putOuterHeader_fresh [simp]:
  "putOuterHeader (replicate HeaderSize 0) sid seq = Some (outer_header sid seq)"
  by (simp add: putOuterHeader_def outer_header_def)

lemma putChannelHeader_fresh [simp]:
  "putChannelHeader (replicate ChannelHeaderSize 0) ch = Some (channel_header ch)"
  by (simp add: putChannelHeader_def channel_header_def)

lemma parse_outer_header:
  assumes "seq \<noteq> 0" and "HeaderSize + length rest \<le> MaxPacketSize"
  shows "parseOuterHeader (outer_header sid seq @ rest) = (sid, seq, True)"
proof -
  let ?p = "outer_header sid seq @ rest"
  have "drop 6 ?p = be_bytes 16 sid @ be_bytes 8 seq @ rest"
    and "drop 22 ?p = be_bytes 8 seq @ rest"
    and "take 4 ?p = Magic" and "?p ! 4 = ProtocolVersion" and "?p ! 5 = 0"
    by (simp_all add: outer_header_def Magic_def)
  then show ?thesis
    using assms by (simp add: parseOuterHeader_def Let_def)
qed

lemma parse_channel_header [simp]: "parseChannelHeader (channel_header ch) = (ch, True)"
proof -
  have "drop 1 (channel_header ch) = be_bytes 2 (ChannelSeq ch) @ [Flags ch] @ be_bytes 8 (SpeakerID ch)"
    and "drop 4 (channel_header ch) = be_bytes 8 (SpeakerID ch)"
    and "channel_header ch ! 3 = Flags ch" and "channel_header ch ! 0 = ChannelType ch"
    by (simp_all add: channel_header_def nth_Cons' nth_append)
  then show ?thesis
    by (simp add: parseChannelHeader_def)
qed

lemma splitBody_append [simp]:
  "splitBody sid seq (channel_header ch @ payload) = Some (sid, seq, ch, payload, True)"
  by (simp add: splitBody_def slice_to_def slice_from_def)

lemma splitBody_no_panic: "ChannelHeaderSize \<le> length body \<Longrightarrow> splitBody sid seq body \<noteq> None"
  by (auto simp: splitBody_def slice_to_def slice_from_def split: prod.splits)

lemma buildPacket_eq:
  "buildPacket sid seq encrypted a ch payload =
     (if seq = 0 then Fail ErrSequenceZero
      else if length payload > MaxPayload encrypted then Fail ErrPayloadTooLarge
      else if \<not> encrypted then Return (outer_header sid seq @ channel_header ch @ payload)
      else case a of None \<Rightarrow> Fail ErrNoKey
         | Some g \<Rightarrow> Return (outer_header sid seq @
             aead_seal g (NonceFor seq) (channel_header ch @ payload) (outer_header sid seq)))"
  by (simp add: buildPacket_def sealWithAEAD_def Let_def split: option.splits)

lemma aead_okD:
  assumes "aead_ok g"
  shows "aead_open g n (aead_seal g n p h) h = Some p"
    and "length (aead_seal g n p h) = length p + TagSize"
    and "aead_open g n c h = Some p \<Longrightarrow> length c = length p + TagSize"
  using assms by (auto simp: aead_ok_def)

lemma buildPacket_length:
  assumes "buildPacket sid seq encrypted a ch payload = Return pkt"
    and "\<And>g. \<lbrakk>encrypted; a = Some g\<rbrakk> \<Longrightarrow> aead_ok g"
  shows "length pkt = MinPacketSize encrypted + length payload" and "length pkt \<le> MaxPacketSize"
proof -
  from assms show len: "length pkt = MinPacketSize encrypted + length payload"
    by (auto simp: buildPacket_eq aead_okD(2) MinPacketSize_def split: if_splits option.splits)
  from assms(1) have "length payload \<le> MaxPayload encrypted"
    by (auto simp: buildPacket_eq split: if_splits)
  then show "length pkt \<le> MaxPacketSize"
    unfolding len by (auto simp: size_consts split: if_splits)
qed

lemma decode_buildPacket:
  assumes b: "buildPacket sid seq encrypted (if encrypted then Some (gcm key) else None) ch payload = Return pkt"
    and ok: "encrypted \<Longrightarrow> aead_ok (gcm key) \<and> length key = masterKeySize"
  shows "DecodePacket gcm pkt encrypted (Some key) = Some (sid, seq, ch, payload, True)"
proof -
  have len: "length pkt = MinPacketSize encrypted + length payload" and "length pkt \<le> MaxPacketSize"
    by (rule buildPacket_length [OF b]; use ok in \<open>auto split: if_splits\<close>)+
  moreover obtain body where pkt: "pkt = outer_header sid seq @ body" and seq: "seq \<noteq> 0"
    and pl: "\<not> encrypted \<Longrightarrow> body = channel_header ch @ payload"
    and en: "encrypted \<Longrightarrow> body = aead_seal (gcm key) (NonceFor seq) (channel_header ch @ payload) (outer_header sid seq)"
    using b by (auto simp: buildPacket_eq split: if_splits)
  ultimately have hdr: "parseOuterHeader pkt = (sid, seq, True)"
    using parse_outer_header [OF seq, of body sid] by simp
  have rest: "drop HeaderSize pkt = body" by (simp add: pkt)
  show ?thesis
  proof (cases encrypted)
    case True
    with ok seq have "Open gcm key seq (take HeaderSize pkt) (drop HeaderSize pkt) = Return (channel_header ch @ payload)"
      by (simp add: Open_def newGCM_def openWithAEAD_def pkt en aead_okD(1))
    with True len show ?thesis
      by (simp add: DecodePacket_def hdr key_bytes_def)
  next
    case False
    with len show ?thesis
      by (simp add: DecodePacket_def hdr rest pl)
  qed
qed

lemma parseOuterHeader_sound:
  assumes "parseOuterHeader p = (sid, seq, True)"
  shows "seq \<noteq> 0" and "HeaderSize \<le> length p" and "length p \<le> MaxPacketSize"
    and "p = outer_header sid seq @ drop HeaderSize p"
proof -
  from assms have len: "HeaderSize \<le> length p" "length p \<le> MaxPacketSize"
    and magic: "take 4 p = Magic" and v: "p ! 4 = ProtocolVersion" and f: "p ! 5 = 0"
    and sid: "sid = be_word (take 16 (drop 6 p))" and seq: "seq = be_word (take 8 (drop 22 p))" "seq \<noteq> 0"
    by (auto simp: parseOuterHeader_def Let_def split: if_splits)
  then show "seq \<noteq> 0" "HeaderSize \<le> length p" "length p \<le> MaxPacketSize" by simp_all
  have l30: "30 \<le> length p" using len(1) by (simp add: HeaderSize_def)
  have "p = take 4 p @ drop 4 p" by simp
  also have "drop 4 p = p ! 4 # p ! 5 # drop 6 p"
    using l30 Cons_nth_drop_Suc [of 4 p] Cons_nth_drop_Suc [of 5 p] by simp
  also have "drop 6 p = take 16 (drop 6 p) @ take 8 (drop 22 p) @ drop 30 p"
    using append_take_drop_id [of 16 "drop 6 p"] append_take_drop_id [of 8 "drop 22 p"] by simp
  also have "take 16 (drop 6 p) = be_bytes 16 sid"
    unfolding sid using l30 by (intro be_bytes_be_word [symmetric]) simp_all
  also have "take 8 (drop 22 p) = be_bytes 8 seq"
    unfolding seq using l30 by (intro be_bytes_be_word [symmetric]) simp_all
  finally show "p = outer_header sid seq @ drop HeaderSize p"
    by (simp add: outer_header_def magic v f HeaderSize_def)
qed

lemma parseChannelHeader_sound:
  assumes "length p = ChannelHeaderSize" and "parseChannelHeader p = (ch, True)"
  shows "p = channel_header ch"
proof -
  have l12: "length p = 12" using assms(1) by (simp add: ChannelHeaderSize_def)
  have ch: "ch = \<lparr>ChannelType = p ! 0, ChannelSeq = be_word (take 2 (drop 1 p)), Flags = p ! 3,
             SpeakerID = be_word (take 8 (drop 4 p))\<rparr>"
    using assms by (simp add: parseChannelHeader_def)
  have "p = p ! 0 # take 2 (drop 1 p) @ p ! 3 # take 8 (drop 4 p)"
    using l12 Cons_nth_drop_Suc [of 0 p] Cons_nth_drop_Suc [of 3 p]
      append_take_drop_id [of 2 "drop 1 p"] by simp
  moreover have "take 2 (drop 1 p) = be_bytes 2 (be_word (take 2 (drop 1 p)) :: 16 word)"
    and "take 8 (drop 4 p) = be_bytes 8 (be_word (take 8 (drop 4 p)) :: 64 word)"
    using l12 by (intro be_bytes_be_word [symmetric]; simp)+
  ultimately show ?thesis
    unfolding ch channel_header_def by simp
qed

lemma splitBody_sound:
  assumes "splitBody sid0 seq0 body = Some (sid, seq, ch, payload, True)"
  shows "sid0 = sid" and "seq0 = seq" and "body = channel_header ch @ payload"
proof -
  from assms have "ChannelHeaderSize \<le> length body" "sid0 = sid" "seq0 = seq"
    and "parseChannelHeader (take ChannelHeaderSize body) = (ch, True)"
    and "payload = drop ChannelHeaderSize body"
    by (auto simp: splitBody_def slice_to_def slice_from_def split: if_splits prod.splits)
  then show "sid0 = sid" "seq0 = seq" "body = channel_header ch @ payload"
    using parseChannelHeader_sound [of "take ChannelHeaderSize body" ch]
      append_take_drop_id [of ChannelHeaderSize body] by simp_all
qed

text \<open>Round trip of the wire format in both modes: for a non-zero sequence, a payload within
  the negotiated maximum and, in encrypted mode, a 32-byte key whose AEAD opens what it seals,
  \<^verbatim>\<open>EncodePacket\<close> succeeds, the datagram has exactly the minimum size plus the payload and never
  exceeds 1200 bytes, and \<^verbatim>\<open>DecodePacket\<close> recovers session id, sequence, subheader and payload.\<close>

theorem packet_roundtrip:
  assumes "seq \<noteq> 0" and "length payload \<le> MaxPayload encrypted"
    and "encrypted \<Longrightarrow> aead_ok (gcm key) \<and> length key = masterKeySize"
  shows "\<exists>pkt. EncodePacket gcm sid seq encrypted (Some key) ch payload = Return pkt \<and>
           length pkt = MinPacketSize encrypted + length payload \<and> length pkt \<le> MaxPacketSize \<and>
           DecodePacket gcm pkt encrypted (Some key) = Some (sid, seq, ch, payload, True)"
proof -
  let ?a = "if encrypted then Some (gcm key) else None"
  have e: "EncodePacket gcm sid seq encrypted (Some key) ch payload = buildPacket sid seq encrypted ?a ch payload"
    using assms(1,3) by (simp add: EncodePacket_def newGCM_def key_bytes_def)
  obtain pkt where pkt: "buildPacket sid seq encrypted ?a ch payload = Return pkt"
    using assms(1,2) by (cases encrypted) (auto simp: buildPacket_eq)
  have "length pkt = MinPacketSize encrypted + length payload" "length pkt \<le> MaxPacketSize"
    by (rule buildPacket_length [OF pkt]; use assms(3) in \<open>auto split: if_splits\<close>)+
  with pkt e decode_buildPacket [where gcm = gcm and key = key, OF pkt assms(3)] show ?thesis by simp
qed

definition toy_gcm :: "bytes \<Rightarrow> aead" where
  "toy_gcm key = \<lparr>aead_seal = (\<lambda>n p h. p @ replicate 16 7),
     aead_open = (\<lambda>n c h. if 16 \<le> length c \<and> drop (length c - 16) c = replicate 16 7
                           then Some (take (length c - 16) c) else None)\<rparr>"

lemma toy_gcm_ok: "aead_ok (toy_gcm key)"
  by (simp add: aead_ok_def toy_gcm_def TagSize_def)

theorem packet_roundtrip_witness:
  "\<exists>pkt. EncodePacket toy_gcm 77 5 True (Some (replicate 32 1))
            \<lparr>ChannelType = 1, ChannelSeq = 9, Flags = 0, SpeakerID = 0\<rparr> [1, 2, 3] = Return pkt \<and>
         length pkt = MinPacketSize True + length [1, 2, 3 :: byte] \<and> length pkt \<le> MaxPacketSize \<and>
         DecodePacket toy_gcm pkt True (Some (replicate 32 1)) =
           Some (77, 5, \<lparr>ChannelType = 1, ChannelSeq = 9, Flags = 0, SpeakerID = 0\<rparr>, [1, 2, 3], True)"
  by (rule packet_roundtrip) (simp_all add: toy_gcm_ok masterKeySize_def size_consts)

text \<open>In plaintext mode the decoder accepts only canonical datagrams: whatever it accepts is
  exactly what the encoder produces from the decoded fields, so no two different datagrams
  decode to the same frame and no accepted byte is ignored.\<close>

theorem plaintext_decode_canonical:
  assumes "DecodePacket gcm pkt False key = Some (sid, seq, ch, payload, True)"
  shows "EncodePacket gcm sid seq False key ch payload = Return pkt"
proof -
  obtain sid' seq' where o: "parseOuterHeader pkt = (sid', seq', True)"
    and body: "splitBody sid' seq' (drop HeaderSize pkt) = Some (sid, seq, ch, payload, True)"
    using assms by (auto simp: DecodePacket_def split: prod.splits if_splits)
  have pkt: "pkt = outer_header sid seq @ channel_header ch @ payload" and "seq \<noteq> 0"
    using parseOuterHeader_sound [OF o] splitBody_sound [OF body] by auto
  moreover have "length payload \<le> MaxPayload False"
    using parseOuterHeader_sound(3) [OF o] by (simp add: pkt size_consts)
  ultimately show ?thesis
    by (simp add: EncodePacket_def buildPacket_eq)
qed

theorem plaintext_decode_canonical_witness:
  "EncodePacket toy_gcm 77 5 False None
     \<lparr>ChannelType = 1, ChannelSeq = 9, Flags = 0, SpeakerID = 0\<rparr> [1, 2, 3] =
   Return (outer_header 77 5 @ channel_header \<lparr>ChannelType = 1, ChannelSeq = 9, Flags = 0, SpeakerID = 0\<rparr>
             @ [1, 2, 3])"
proof (rule plaintext_decode_canonical)
  show "DecodePacket toy_gcm (outer_header 77 5 @
      channel_header \<lparr>ChannelType = 1, ChannelSeq = 9, Flags = 0, SpeakerID = 0\<rparr> @ [1, 2, 3]) False None =
      Some (77, 5, \<lparr>ChannelType = 1, ChannelSeq = 9, Flags = 0, SpeakerID = 0\<rparr>, [1, 2, 3], True)"
    by (simp add: DecodePacket_def parse_outer_header size_consts)
qed

text \<open>Wire garbage never crashes the decoder: for every byte string, mode and key,
  \<^verbatim>\<open>DecodePacket\<close> returns (no slice is out of bounds), given that the AEAD's plaintext is 16
  bytes shorter than its ciphertext; and what it accepts is within the datagram size limits
  and has a non-zero sequence.\<close>

theorem decode_total:
  assumes "\<And>k. length k = masterKeySize \<Longrightarrow> aead_ok (gcm k)"
  shows "\<exists>sid seq ch payload ok. DecodePacket gcm pkt encrypted key = Some (sid, seq, ch, payload, ok) \<and>
           (ok \<longrightarrow> seq \<noteq> 0 \<and> MinPacketSize encrypted \<le> length pkt \<and> length pkt \<le> MaxPacketSize)"
proof -
  obtain sid seq ok where o: "parseOuterHeader pkt = (sid, seq, ok)"
    by (cases "parseOuterHeader pkt") auto
  show ?thesis
  proof (cases "ok \<and> MinPacketSize encrypted \<le> length pkt \<and> (encrypted \<longrightarrow> key \<noteq> None)")
    case False
    with o show ?thesis by (auto simp: DecodePacket_def)
  next
    case True
    note b = parseOuterHeader_sound(1,3) [of pkt sid seq]
    have split: "\<exists>sid' seq' ch payload ok. splitBody sid seq body = Some (sid', seq', ch, payload, ok) \<and>
        (ok \<longrightarrow> seq' = seq)" if "ChannelHeaderSize \<le> length body" for body
      using that by (auto simp: splitBody_def slice_to_def slice_from_def split: prod.splits)
    show ?thesis
    proof (cases "\<exists>plain. encrypted \<and> Open gcm (key_bytes key) seq (take HeaderSize pkt) (drop HeaderSize pkt) = Return plain")
      case enc: True
      then obtain plain where plain: "Open gcm (key_bytes key) seq (take HeaderSize pkt) (drop HeaderSize pkt) = Return plain"
        by blast
      then have "length (drop HeaderSize pkt) = length plain + TagSize"
        using aead_okD(3) [OF assms]
        by (auto simp: Open_def newGCM_def openWithAEAD_def simp del: length_drop split: if_splits option.splits)
      with True enc have "ChannelHeaderSize \<le> length plain"
        by (auto simp: size_consts)
      with True enc plain o b split [of plain] show ?thesis
        by (auto simp: DecodePacket_def)
    next
      case noenc: False
      have "ChannelHeaderSize \<le> length (drop HeaderSize pkt)"
        using True by (auto simp: size_consts split: if_splits)
      moreover have "Open gcm (key_bytes key) seq (take HeaderSize pkt) (drop HeaderSize pkt) \<noteq> Panic"
        by (auto simp: Open_def newGCM_def openWithAEAD_def split: if_splits option.splits)
      ultimately show ?thesis
        using True noenc o b split [of "drop HeaderSize pkt"]
        by (cases encrypted) (auto simp: DecodePacket_def split: outcome.splits)
    qed
  qed
qed

theorem decode_total_witness:
  "\<exists>sid seq ch payload ok. DecodePacket toy_gcm [90, 86] True (Some []) = Some (sid, seq, ch, payload, ok) \<and>
     (ok \<longrightarrow> seq \<noteq> 0 \<and> MinPacketSize True \<le> length [90, 86 :: byte] \<and> length [90, 86 :: byte] \<le> MaxPacketSize)"
  by (rule decode_total) (rule toy_gcm_ok)

end
