(* ===== verification/RateLimit.thy ===== *)
theory RateLimit
  imports Prelude
begin

text \<open>
  The token bucket of \<^verbatim>\<open>internal/protocol/ratelimit.go\<close> in double precision.  The injected
  clock is an argument of every operation that samples it.  The locale \<open>token_meter\<close> states
  what a rate limiter promises per call (admissions are paid for by level, elapsed time and a
  rounding slack) and derives the bound over a whole run of calls.
\<close>

section \<open>Definitions\<close>

definition SessionPacketsPerSec :: int where "SessionPacketsPerSec = 300"
definition SessionBurst :: int where "SessionBurst = 600"

record TokenBucket =
  rate :: rat
  burst :: rat
  tokens :: rat
  last_refill :: gotime

definition NewTokenBucket :: "rat \<Rightarrow> int \<Rightarrow> gotime \<Rightarrow> TokenBucket" where
  "NewTokenBucket r b now =
     \<lparr>rate = r, burst = fl64 (of_int b), tokens = fl64 (of_int b), last_refill = now\<rparr>"

definition refillLocked :: "TokenBucket \<Rightarrow> gotime \<Rightarrow> TokenBucket" where
  "refillLocked b now =
     (if now < last_refill b \<or> now = last_refill b then b
      else let t = fl64 (tokens b + fl64 (dur_seconds (time_sub now (last_refill b)) * rate b))
           in b\<lparr>tokens := (if t > burst b then burst b else t), last_refill := now\<rparr>)"

definition TakeAt :: "TokenBucket \<Rightarrow> gotime \<Rightarrow> bool \<times> TokenBucket" where
  "TakeAt b now =
     (let b1 = refillLocked b now
      in if tokens b1 < 1 then (False, b1) else (True, b1\<lparr>tokens := fl64 (tokens b1 - 1)\<rparr>))"

text \<open>\<^verbatim>\<open>Take\<close> samples the bucket's own clock.\<close>

definition Take :: "TokenBucket \<Rightarrow> gotime \<Rightarrow> bool \<times> TokenBucket" where
  "Take b clock_sample = TakeAt b clock_sample"

definition SetRate :: "TokenBucket \<Rightarrow> rat \<Rightarrow> int \<Rightarrow> gotime \<Rightarrow> TokenBucket" where
  "SetRate b r n now =
     (let r' = (if r < 1 then 1 else r); n' = (if n < 1 then 1 else n);
          b1 = refillLocked b now;
          b2 = b1\<lparr>rate := r', burst := fl64 (of_int n')\<rparr>
      in b2\<lparr>tokens := (if tokens b2 > burst b2 then burst b2 else tokens b2)\<rparr>)"

text \<open>Invariant: the level stays within the capacity, and the capacity is an exact integer
  range of doubles.\<close>

definition bucket_ok :: "TokenBucket \<Rightarrow> bool" where
  "bucket_ok b \<longleftrightarrow> 0 \<le> rate b \<and> 0 \<le> tokens b \<and> tokens b \<le> burst b \<and> burst b \<le> 2 ^ 53"

fun take_run :: "TokenBucket \<Rightarrow> gotime list \<Rightarrow> nat \<times> TokenBucket" where
  "take_run b [] = (0, b)"
| "take_run b (t # ts) =
     (case TakeAt b t of (ok, b') \<Rightarrow>
        case take_run b' ts of (n, b'') \<Rightarrow> ((if ok then Suc n else n), b''))"

section \<open>Theorems\<close>

subsection \<open>Rounding of elapsed time\<close>

lemma go_quot_nonneg: "0 \<le> d \<Longrightarrow> go_quot d second = d div second"
  by (cases "d = 0") (simp_all add: go_quot_def sgn_if)

lemma go_rem_nonneg: "0 \<le> d \<Longrightarrow> go_rem d second = d mod second"
  by (simp add: go_rem_def go_quot_nonneg minus_div_mult_eq_mod)

lemma dur_seconds_le:
  assumes "0 \<le> d" and "d \<le> max_int64"
  shows "dur_seconds d \<le> of_int d / 1000000000 * (1 + 1 / 2 ^ 53) ^ 2"
proof -
  let ?u = "1 / 2 ^ 53 :: rat"
  let ?s = "of_int (d div second) :: rat" and ?n = "of_int (d mod second) :: rat"
  have r: "d mod second < 1000000000" "0 \<le> d mod second" by simp_all
  have exact: "fl64 ?s = ?s" "fl64 ?n = ?n"
    using assms r by (intro fl64_of_int; simp add: max_int64_def abs_le_iff; linarith)+
  have sum: "?s + ?n / 1000000000 = of_int d / 1000000000"
  proof -
    have "(of_int d :: rat) = of_int (d div second * second + d mod second)" by simp
    also have "\<dots> = ?s * 1000000000 + ?n" by (simp only: of_int_add of_int_mult of_int_numeral)
    finally show ?thesis by (simp add: field_simps)
  qed
  have nn: "0 \<le> ?s" "0 \<le> ?n" using assms r by simp_all
  have "fl64 (?n / 1000000000) \<le> ?n / 1000000000 * (1 + ?u)"
    using fl64_bounds [of "?n / 1000000000"] nn by (simp add: field_simps)
  moreover have "?s \<le> ?s * (1 + ?u)" using nn by simp
  ultimately have "?s + fl64 (?n / 1000000000) \<le> (?s + ?n / 1000000000) * (1 + ?u)"
    by (simp add: algebra_simps)
  then have le: "?s + fl64 (?n / 1000000000) \<le> of_int d / 1000000000 * (1 + ?u)"
    by (simp only: sum)
  have "0 \<le> ?s + fl64 (?n / 1000000000)" using nn by simp
  then have "fl64 (?s + fl64 (?n / 1000000000)) \<le> (?s + fl64 (?n / 1000000000)) * (1 + ?u)"
    using fl64_bounds [of "?s + fl64 (?n / 1000000000)"] by (simp add: field_simps)
  also have "\<dots> \<le> of_int d / 1000000000 * (1 + ?u) * (1 + ?u)"
    by (rule mult_right_mono [OF le]) simp
  finally show ?thesis
    using assms(1) by (simp add: dur_seconds_def go_quot_nonneg go_rem_nonneg exact power2_eq_square mult.assoc)
qed

lemma time_sub_pos: "u < t \<Longrightarrow> 0 \<le> time_sub t u \<and> time_sub t u \<le> t - u \<and> time_sub t u \<le> max_int64"
  by (simp add: time_sub_def max_int64_def min_int64_def)

lemma refill_gain:
  assumes "u < t" and "0 \<le> r"
  shows "0 \<le> fl64 (dur_seconds (time_sub t u) * r)"
    and "fl64 (dur_seconds (time_sub t u) * r) \<le> of_int (t - u) / 1000000000 * r * (1 + 1 / 2 ^ 51)"
proof -
  let ?u = "1 / 2 ^ 53 :: rat"
  let ?d = "time_sub t u"
  note ts = time_sub_pos [OF assms(1)]
  have nn: "0 \<le> dur_seconds ?d" using ts by (simp add: dur_seconds_nonneg)
  with assms(2) show "0 \<le> fl64 (dur_seconds ?d * r)" by simp
  have "dur_seconds ?d \<le> of_int ?d / 1000000000 * (1 + ?u) ^ 2"
    using ts by (intro dur_seconds_le) auto
  also have "\<dots> \<le> of_int (t - u) / 1000000000 * (1 + ?u) ^ 2"
    using ts by (intro mult_right_mono divide_right_mono) auto
  finally have "dur_seconds ?d * r \<le> of_int (t - u) / 1000000000 * (1 + ?u) ^ 2 * r"
    using assms(2) by (intro mult_right_mono)
  moreover have "fl64 (dur_seconds ?d * r) \<le> dur_seconds ?d * r * (1 + ?u)"
    using fl64_bounds [of "dur_seconds ?d * r"] nn assms(2) by (simp add: field_simps)
  ultimately have "fl64 (dur_seconds ?d * r) \<le> of_int (t - u) / 1000000000 * (1 + ?u) ^ 2 * r * (1 + ?u)"
    by (meson add_nonneg_nonneg divide_nonneg_nonneg mult_right_mono order_trans zero_le_numeral zero_le_one zero_le_power)
  also have "\<dots> = of_int (t - u) / 1000000000 * r * (1 + ?u) ^ 3"
    by (simp only: power3_eq_cube power2_eq_square ac_simps)
  also have "\<dots> \<le> of_int (t - u) / 1000000000 * r * (1 + 1 / 2 ^ 51)"
    using assms by (intro mult_left_mono) (simp_all add: power3_eq_cube)
  finally show "fl64 (dur_seconds ?d * r) \<le> of_int (t - u) / 1000000000 * r * (1 + 1 / 2 ^ 51)" .
qed

subsection \<open>The contract of a rate limiter\<close>

text \<open>\<open>speed\<close> is the admission rate per nanosecond, \<open>slack\<close> the rounding error one call may add.\<close>

locale token_meter =
  fixes take :: "'b \<Rightarrow> gotime \<Rightarrow> bool \<times> 'b"
    and ok :: "'b \<Rightarrow> bool"
    and level :: "'b \<Rightarrow> rat"
    and clock :: "'b \<Rightarrow> gotime"
    and speed :: "'b \<Rightarrow> rat"
    and slack :: "'b \<Rightarrow> rat"
  assumes ok_take: "ok b \<Longrightarrow> ok (snd (take b t))"
    and level_nonneg: "ok b \<Longrightarrow> 0 \<le> level b"
    and speed_nonneg: "ok b \<Longrightarrow> 0 \<le> speed b"
    and speed_take: "speed (snd (take b t)) = speed b"
    and slack_take: "slack (snd (take b t)) = slack b"
    and clock_take: "clock (snd (take b t)) = max (clock b) t"
    and spend: "ok b \<Longrightarrow> of_bool (fst (take b t)) + level (snd (take b t))
                  \<le> level b + speed b * of_int (max (clock b) t - clock b) + slack b"
begin

fun meter_run :: "'b \<Rightarrow> gotime list \<Rightarrow> nat \<times> 'b" where
  "meter_run b [] = (0, b)"
| "meter_run b (t # ts) =
     (case meter_run (snd (take b t)) ts of (n, b') \<Rightarrow> ((if fst (take b t) then Suc n else n), b'))"

lemma run_bound_level:
  assumes "ok b" and "\<forall>t \<in> set ts. t \<le> T" and "clock b \<le> T"
  shows "of_nat (fst (meter_run b ts)) \<le> level b + speed b * of_int (T - clock b) + slack b * of_nat (length ts)"
  using assms
proof (induction ts arbitrary: b)
  case Nil
  then show ?case by (simp add: level_nonneg speed_nonneg)
next
  case (Cons t ts)
  let ?b = "snd (take b t)"
  have "of_nat (fst (meter_run ?b ts)) \<le> level ?b + speed b * of_int (T - max (clock b) t) + slack b * of_nat (length ts)"
    using Cons.IH [of ?b] Cons.prems by (simp add: ok_take speed_take slack_take clock_take)
  moreover have "of_bool (fst (take b t)) + level ?b
      \<le> level b + speed b * of_int (max (clock b) t - clock b) + slack b"
    using Cons.prems by (intro spend)
  moreover have "speed b * of_int (T - clock b) =
      speed b * of_int (T - max (clock b) t) + speed b * of_int (max (clock b) t - clock b)"
    by (simp add: algebra_simps)
  moreover have "(of_nat (fst (meter_run b (t # ts))) :: rat) = of_bool (fst (take b t)) + of_nat (fst (meter_run ?b ts))"
    by (simp split: prod.splits)
  ultimately show ?case by (simp add: algebra_simps)
qed

end

subsection \<open>The bucket meets the contract\<close>

lemma capped_sum_le:
  fixes A t c :: rat
  assumes "0 \<le> A" "t \<le> A + A / 2 ^ 53" "A - A / 2 ^ 53 \<le> t" "0 \<le> c"
  shows "(if t > c then c else t) \<le> A + c / 2 ^ 52"
proof (cases "t > c")
  case True
  show ?thesis
  proof (cases "A \<ge> c")
    case False
    with True assms show ?thesis by (simp add: field_simps)
  qed (use True assms in \<open>simp add: add_increasing2\<close>)
next
  case False
  with assms have "A \<le> 2 * c" by (simp add: field_simps)
  with False assms show ?thesis by (simp add: field_simps)
qed

lemma refill_level:
  assumes "bucket_ok b"
  shows "tokens (refillLocked b t) \<le> tokens b
           + rate b * (1 + 1 / 2 ^ 51) / 1000000000 * of_int (max (last_refill b) t - last_refill b) + burst b / 2 ^ 52"
proof (cases "t \<le> last_refill b")
  case True
  with assms show ?thesis by (auto simp: refillLocked_def bucket_ok_def max_def)
next
  case False
  let ?G = "fl64 (dur_seconds (time_sub t (last_refill b)) * rate b)"
  have G: "0 \<le> ?G" "?G \<le> of_int (t - last_refill b) / 1000000000 * rate b * (1 + 1 / 2 ^ 51)"
    using refill_gain [of "last_refill b" t "rate b"] False assms by (auto simp: bucket_ok_def)
  let ?A = "tokens b + ?G"
  have A: "0 \<le> ?A" using G assms by (simp add: bucket_ok_def)
  have "(if fl64 ?A > burst b then burst b else fl64 ?A) \<le> ?A + burst b / 2 ^ 52"
    using fl64_bounds [OF A] A assms by (intro capped_sum_le) (auto simp: bucket_ok_def)
  with False have "tokens (refillLocked b t) \<le> ?A + burst b / 2 ^ 52"
    by (simp add: refillLocked_def Let_def)
  also have "\<dots> \<le> tokens b + of_int (t - last_refill b) / 1000000000 * rate b * (1 + 1 / 2 ^ 51) + burst b / 2 ^ 52"
    using G by (simp only: add_le_cancel_left add_le_cancel_right)
  also have "of_int (t - last_refill b) / 1000000000 * rate b * (1 + 1 / 2 ^ 51) =
      rate b * (1 + 1 / 2 ^ 51) / 1000000000 * of_int (max (last_refill b) t - last_refill b)"
    using False by (simp add: max_def)
  finally show ?thesis .
qed

lemma refill_ok: "bucket_ok b \<Longrightarrow> bucket_ok (refillLocked b t)"
  using refill_gain(1) [of "last_refill b" t "rate b"]
  by (auto simp: refillLocked_def bucket_ok_def Let_def not_less intro!: fl64_nonneg add_nonneg_nonneg)

lemma refill_fields [simp]:
  "rate (refillLocked b t) = rate b" "burst (refillLocked b t) = burst b"
  "last_refill (refillLocked b t) = max (last_refill b) t"
  by (auto simp: refillLocked_def Let_def max_def)

lemma TakeAt_fields [simp]:
  "rate (snd (TakeAt b t)) = rate b" "burst (snd (TakeAt b t)) = burst b"
  "last_refill (snd (TakeAt b t)) = max (last_refill b) t"
  by (simp_all add: TakeAt_def Let_def)

lemma spend_one:
  assumes "bucket_ok b" and "1 \<le> tokens b"
  shows "0 \<le> fl64 (tokens b - 1)" and "fl64 (tokens b - 1) + 1 \<le> tokens b + burst b / 2 ^ 53"
    and "fl64 (tokens b - 1) \<le> burst b"
proof -
  show "0 \<le> fl64 (tokens b - 1)" using assms(2) by simp
  have "fl64 (tokens b - 1) \<le> tokens b - 1 + (tokens b - 1) / 2 ^ 53"
    using fl64_bounds [of "tokens b - 1"] assms(2) by simp
  moreover have "(tokens b - 1) / 2 ^ 53 \<le> burst b / 2 ^ 53" "burst b / 2 ^ 53 \<le> 1"
    using assms by (auto simp: bucket_ok_def intro!: divide_right_mono)
  moreover have "tokens b \<le> burst b" using assms(1) by (simp add: bucket_ok_def)
  ultimately show "fl64 (tokens b - 1) + 1 \<le> tokens b + burst b / 2 ^ 53"
    and "fl64 (tokens b - 1) \<le> burst b"
    by linarith+
qed

lemma TakeAt_ok: "bucket_ok b \<Longrightarrow> bucket_ok (snd (TakeAt b t))"
  using refill_ok [of b t] spend_one [of "refillLocked b t"]
  by (auto simp: TakeAt_def Let_def bucket_ok_def)

lemma TakeAt_spend:
  assumes "bucket_ok b"
  shows "of_bool (fst (TakeAt b t)) + tokens (snd (TakeAt b t)) \<le> tokens b
           + rate b * (1 + 1 / 2 ^ 51) / 1000000000 * of_int (max (last_refill b) t - last_refill b)
           + burst b * 3 / 2 ^ 53"
proof -
  have "of_bool (fst (TakeAt b t)) + tokens (snd (TakeAt b t)) \<le> tokens (refillLocked b t) + burst b / 2 ^ 53"
    using spend_one(2) [OF refill_ok [OF assms], of t] assms by (auto simp: TakeAt_def Let_def bucket_ok_def)
  also have "\<dots> \<le> tokens b + rate b * (1 + 1 / 2 ^ 51) / 1000000000 * of_int (max (last_refill b) t - last_refill b)
           + burst b / 2 ^ 52 + burst b / 2 ^ 53"
    using refill_level [OF assms, of t] by simp
  finally show ?thesis by simp
qed

interpretation bucket: token_meter TakeAt bucket_ok tokens last_refill
  "\<lambda>b. rate b * (1 + 1 / 2 ^ 51) / 1000000000" "\<lambda>b. burst b * 3 / 2 ^ 53"
proof
  show "bucket_ok b \<Longrightarrow> bucket_ok (snd (TakeAt b t))" for b t by (rule TakeAt_ok)
  show "bucket_ok b \<Longrightarrow> of_bool (fst (TakeAt b t)) + tokens (snd (TakeAt b t)) \<le> tokens b
           + rate b * (1 + 1 / 2 ^ 51) / 1000000000 * of_int (max (last_refill b) t - last_refill b)
           + burst b * 3 / 2 ^ 53" for b t by (rule TakeAt_spend)
qed (auto simp: bucket_ok_def)

lemma take_run_meter: "take_run b ts = bucket.meter_run b ts"
  by (induction ts arbitrary: b) (auto split: prod.splits)

lemma NewTokenBucket_ok: "\<lbrakk>0 \<le> r; 0 \<le> n; n \<le> 2 ^ 53\<rbrakk> \<Longrightarrow> bucket_ok (NewTokenBucket r n now)"
  using fl64_of_int [of n] by (simp add: bucket_ok_def NewTokenBucket_def)

lemma SetRate_ok: "\<lbrakk>bucket_ok b; n \<le> 2 ^ 53\<rbrakk> \<Longrightarrow> bucket_ok (SetRate b r n now)"
proof -
  assume a: "bucket_ok b" "n \<le> 2 ^ 53"
  define m where "m = (if n < 1 then 1 else n)"
  have m: "1 \<le> m" "m \<le> 2 ^ 53" using a(2) by (auto simp: m_def)
  then have f: "fl64 (of_int m) = of_int m" "of_int m \<le> (2 ^ 53 :: rat)"
    by auto
  have "bucket_ok (refillLocked b now)" by (rule refill_ok [OF a(1)])
  then show ?thesis
    using m f by (auto simp: SetRate_def Let_def bucket_ok_def m_def [symmetric])
qed

text \<open>Well-formedness of the token bucket: a bucket starts full, and \<^verbatim>\<open>TakeAt\<close> and \<^verbatim>\<open>SetRate\<close>
  keep the level between zero and the current burst for every clock reading, a backwards clock
  included, and every requested rate, non-positive ones included.\<close>

theorem bucket_ok_preserved:
  assumes "bucket_ok b"
  shows "bucket_ok (snd (TakeAt b now)) \<and> (n \<le> 2 ^ 53 \<longrightarrow> bucket_ok (SetRate b r n now)) \<and>
         (0 \<le> r \<longrightarrow> 0 \<le> n \<longrightarrow> n \<le> 2 ^ 53 \<longrightarrow> bucket_ok (NewTokenBucket r n now))"
  using TakeAt_ok [OF assms] SetRate_ok [OF assms] NewTokenBucket_ok by blast

theorem bucket_ok_preserved_witness:
  "bucket_ok (snd (TakeAt (NewTokenBucket 300 600 0) 5)) \<and>
   bucket_ok (SetRate (NewTokenBucket 300 600 0) 25 50 5) \<and> bucket_ok (NewTokenBucket 25 50 5)"
proof -
  have "bucket_ok (NewTokenBucket 300 600 0)"
    by (simp add: NewTokenBucket_ok)
  from bucket_ok_preserved [OF this, of 5 50 25] show ?thesis
    by simp
qed

text \<open>C30. The rate bound of the bucket over any run of calls: the number of admitted packets is at
  most the initial level, plus the refill rate times the elapsed time (with a relative error of
  \<open>2\<^sup>-\<^sup>5\<^sup>1\<close>), plus a rounding slack of three half-ulps of the burst per call.  It holds for any
  order of clock readings up to \<open>T\<close>.\<close>

theorem take_run_bound:
  assumes "bucket_ok b" and "\<forall>t \<in> set ts. t \<le> T" and "last_refill b \<le> T"
  shows "of_nat (fst (take_run b ts)) \<le> tokens b
           + rate b * (1 + 1 / 2 ^ 51) / 1000000000 * of_int (T - last_refill b)
           + burst b * 3 / 2 ^ 53 * of_nat (length ts)"
  unfolding take_run_meter by (rule bucket.run_bound_level [OF assms])

theorem take_run_bound_witness:
  "of_nat (fst (take_run (NewTokenBucket 300 600 0) [1000000000, 500000000])) \<le> tokens (NewTokenBucket 300 600 0)
     + rate (NewTokenBucket 300 600 0) * (1 + 1 / 2 ^ 51) / 1000000000
         * of_int (1000000000 - last_refill (NewTokenBucket 300 600 0))
     + burst (NewTokenBucket 300 600 0) * 3 / 2 ^ 53 * of_nat (length [1000000000, 500000000 :: gotime])"
  by (rule take_run_bound) (simp_all add: NewTokenBucket_ok, simp add: NewTokenBucket_def)

lemma dur_seconds_ge_1: "\<lbrakk>second \<le> d\<rbrakk> \<Longrightarrow> 1 \<le> dur_seconds d"
  unfolding dur_seconds_def
  by (intro fl64_ge_1 add_increasing2)
    (auto simp: go_quot_nonneg go_rem_nonneg intro!: fl64_ge_1 fl64_nonneg divide_nonneg_nonneg)

text \<open>The bucket recovers: after one second without a refill, a bucket with a rate and a
  burst of at least one admits a packet, whatever its level was.\<close>

theorem take_after_second:
  assumes "bucket_ok b" and "1 \<le> rate b" and "1 \<le> burst b" and "last_refill b + second \<le> now"
  shows "fst (TakeAt b now)"
proof -
  let ?d = "time_sub now (last_refill b)"
  have "second \<le> ?d" using assms(4) by (simp add: time_sub_def max_int64_def min_int64_def)
  then have "1 \<le> dur_seconds ?d" by (rule dur_seconds_ge_1)
  then have "1 \<le> dur_seconds ?d * rate b"
    using assms(2) mult_mono [of 1 "dur_seconds ?d" 1 "rate b"] by simp
  then have "1 \<le> tokens b + fl64 (dur_seconds ?d * rate b)"
    using assms(1) fl64_ge_1 [of "dur_seconds ?d * rate b"] by (simp add: bucket_ok_def)
  then have "1 \<le> fl64 (tokens b + fl64 (dur_seconds ?d * rate b))" by (rule fl64_ge_1)
  with assms(3,4) show ?thesis
    by (auto simp: TakeAt_def refillLocked_def Let_def)
qed

theorem take_after_second_witness:
  "fst (TakeAt \<lparr>rate = 1, burst = 2, tokens = 0, last_refill = 0\<rparr> 1000000000)"
  by (rule take_after_second) (simp_all add: bucket_ok_def)

end
