(* ===== verification/Ingress.thy ===== *)
theory Ingress
  imports Packet RateLimit
begin

text \<open>
  Admission of unauthenticated work: the UDP ingress limiter of
  \<^verbatim>\<open>internal/protocol/ingress.go\<close> and the WebSocket upgrade limiter of
  \<^verbatim>\<open>internal/realtime/upgrade_limiter.go\<close>.  Both keep one budget per normalised source address
  in a table of bounded size; the locale \<open>bounded_table\<close> is the size contract they share with
  the relay's soft admission.
\<close>

section \<open>Definitions\<close>

subsection \<open>Addresses (\<^verbatim>\<open>net/netip\<close>)\<close>

datatype netip_addr = InvalidAddr | Addr4 "32 word" | Addr6 "128 word" string

fun Unmap :: "netip_addr \<Rightarrow> netip_addr" where
  "Unmap (Addr6 w z) = (if drop_bit 32 w = 0xFFFF then Addr4 (ucast w) else Addr6 w z)"
| "Unmap a = a"

definition AddrFromSlice :: "bytes \<Rightarrow> netip_addr option" where
  "AddrFromSlice ip =
     (if length ip = 4 then Some (Addr4 (be_word ip))
      else if length ip = 16 then Some (Addr6 (be_word ip) [])
      else None)"

subsection \<open>UDP ingress\<close>

record IngressLimits =
  GlobalPacketsPerSec :: int
  GlobalBurst :: int
  SourcePacketsPerSec :: int
  SourceBurst :: int
  SourceEntryLimit :: int
  SourceEntryTTL :: duration

definition DefaultIngressLimits :: IngressLimits where
  "DefaultIngressLimits =
     \<lparr>GlobalPacketsPerSec = 20000, GlobalBurst = 40000, SourcePacketsPerSec = 1200,
      SourceBurst = 2400, SourceEntryLimit = 4096, SourceEntryTTL = 120 * second\<rparr>"

datatype IngressDecision =
  IngressAllowed | IngressDroppedGlobal | IngressDroppedSource | IngressDroppedTableFull

record sourceIngress =
  budget :: TokenBucket
  lastSeen :: gotime

record IngressLimiter =
  il_limits :: IngressLimits
  il_global :: TokenBucket
  il_sources :: "(netip_addr, sourceIngress) fmap"

definition NewIngressLimiter :: "IngressLimits \<Rightarrow> gotime \<Rightarrow> (proto_error, IngressLimiter) outcome" where
  "NewIngressLimiter limits clk =
     (if GlobalPacketsPerSec limits \<le> 0 \<or> GlobalBurst limits \<le> 0 \<or> SourcePacketsPerSec limits \<le> 0
         \<or> SourceBurst limits \<le> 0 \<or> SourceEntryLimit limits \<le> 0 \<or> SourceEntryTTL limits \<le> 0
      then Fail ErrInvalidLimits
      else Return \<lparr>il_limits = limits,
             il_global = NewTokenBucket (fl64 (of_int (GlobalPacketsPerSec limits))) (GlobalBurst limits) clk,
             il_sources = fmempty\<rparr>)"

definition ingressSweepLocked :: "IngressLimiter \<Rightarrow> gotime \<Rightarrow> int \<times> IngressLimiter" where
  "ingressSweepLocked l now =
     (let kept = gm_filter (\<lambda>_ s. \<not> time_sub now (lastSeen s) \<ge> SourceEntryTTL (il_limits l)) (il_sources l)
      in (int (gm_len (il_sources l)) - int (gm_len kept), l\<lparr>il_sources := kept\<rparr>))"

text \<open>\<open>now\<close> is the caller's sample, \<open>clk\<close> the limiter's own clock, read when a bucket is created.\<close>

definition ingressAllow ::
  "IngressLimiter \<Rightarrow> netip_addr \<Rightarrow> gotime \<Rightarrow> gotime \<Rightarrow> IngressDecision \<times> IngressLimiter" where
  "ingressAllow l addr0 now clk =
     (let addr = Unmap addr0;
          (ok, g) = TakeAt (il_global l) now;
          l1 = l\<lparr>il_global := g\<rparr>
      in if \<not> ok then (IngressDroppedGlobal, l1)
         else
           let charge = (\<lambda>l source.
                 let (got, bud) = TakeAt (budget source) now;
                     l' = l\<lparr>il_sources := fmupd addr \<lparr>budget = bud, lastSeen = now\<rparr> (il_sources l)\<rparr>
                 in (if \<not> got then IngressDroppedSource else IngressAllowed, l'))
           in case fmlookup (il_sources l1) addr of
                Some source \<Rightarrow> charge l1 source
              | None \<Rightarrow>
                  let full = (\<lambda>l. int (gm_len (il_sources l)) \<ge> SourceEntryLimit (il_limits l));
                      l2 = (if full l1 then snd (ingressSweepLocked l1 now) else l1)
                  in if full l1 \<and> full l2 then (IngressDroppedTableFull, l2)
                     else charge l2 \<lparr>budget = NewTokenBucket (fl64 (of_int (SourcePacketsPerSec (il_limits l2))))
                                       (SourceBurst (il_limits l2)) clk, lastSeen = 0\<rparr>)"

datatype ingress_op = IAllow netip_addr gotime gotime | ISweep gotime

fun ingress_step :: "IngressLimiter \<Rightarrow> ingress_op \<Rightarrow> IngressLimiter" where
  "ingress_step l (IAllow addr now clk) = snd (ingressAllow l addr now clk)"
| "ingress_step l (ISweep now) = snd (ingressSweepLocked l now)"

text \<open>Decisions of a run of \<^verbatim>\<open>Allow\<close> calls.\<close>

fun ingress_run :: "IngressLimiter \<Rightarrow> (netip_addr \<times> gotime \<times> gotime) list \<Rightarrow> IngressDecision list" where
  "ingress_run l [] = []"
| "ingress_run l ((a, now, clk) # xs) =
     (case ingressAllow l a now clk of (d, l') \<Rightarrow> d # ingress_run l' xs)"

subsection \<open>WebSocket upgrades\<close>

definition upgradeTokensPerSecond :: rat where "upgradeTokensPerSecond = 10"
definition upgradeBurst :: rat where "upgradeBurst = 20"
definition upgradeSourceTTL :: duration where "upgradeSourceTTL = 120 * second"
definition upgradeSourceLimit :: nat where "upgradeSourceLimit = 4096"

record upgradeSource =
  us_tokens :: rat
  us_last :: gotime

type_synonym UpgradeLimiter = "(netip_addr, upgradeSource) fmap"

definition NewUpgradeLimiter :: UpgradeLimiter where
  "NewUpgradeLimiter = fmempty"

definition pruneLocked :: "UpgradeLimiter \<Rightarrow> gotime \<Rightarrow> UpgradeLimiter" where
  "pruneLocked l now = gm_filter (\<lambda>_ s. \<not> time_sub now (us_last s) \<ge> upgradeSourceTTL) l"

definition upgradeTake :: "upgradeSource \<Rightarrow> gotime \<Rightarrow> bool \<times> upgradeSource" where
  "upgradeTake s now =
     (let elapsed = dur_seconds (time_sub now (us_last s));
          s1 = (if elapsed > 0
                then \<lparr>us_tokens = min upgradeBurst (fl64 (us_tokens s + fl64 (elapsed * upgradeTokensPerSecond))),
                      us_last = now\<rparr>
                else s)
      in if us_tokens s1 < 1 then (False, s1)
         else (True, s1\<lparr>us_tokens := fl64 (us_tokens s1 - 1)\<rparr>))"

definition upgradeAllow :: "UpgradeLimiter \<Rightarrow> netip_addr \<Rightarrow> gotime \<Rightarrow> bool \<times> UpgradeLimiter" where
  "upgradeAllow l sourceIP now =
     (if sourceIP = InvalidAddr then (False, l)
      else let ip = Unmap sourceIP; l1 = pruneLocked l now
           in case fmlookup l1 ip of
                Some s \<Rightarrow> (case upgradeTake s now of (ok, s') \<Rightarrow> (ok, fmupd ip s' l1))
              | None \<Rightarrow>
                  if gm_len l1 \<ge> upgradeSourceLimit then (False, l1)
                  else (case upgradeTake \<lparr>us_tokens = upgradeBurst, us_last = now\<rparr> now of
                          (ok, s') \<Rightarrow> (ok, fmupd ip s' l1)))"

fun upgrade_step :: "UpgradeLimiter \<Rightarrow> netip_addr \<times> gotime \<Rightarrow> UpgradeLimiter" where
  "upgrade_step l (ip, now) = snd (upgradeAllow l ip now)"

section \<open>Theorems\<close>

subsection \<open>Tables of bounded size\<close>

locale bounded_table =
  fixes table_size :: "'s \<Rightarrow> int"
    and limit :: "'s \<Rightarrow> int"
    and step :: "'s \<Rightarrow> 'op \<Rightarrow> 's"
  assumes limit_step: "limit (step s x) = limit s"
    and size_step: "table_size s \<le> limit s \<Longrightarrow> table_size (step s x) \<le> limit s"
begin

lemma run_size_bounded:
  "table_size s \<le> limit s \<Longrightarrow> table_size (foldl step s ops) \<le> limit s \<and> limit (foldl step s ops) = limit s"
proof (induction ops arbitrary: s)
  case (Cons x ops)
  from Cons.IH [of "step s x"] Cons.prems show ?case by (simp add: limit_step size_step)
qed simp

end

lemma sweep_limits [simp]: "il_limits (snd (ingressSweepLocked l now)) = il_limits l"
  by (simp add: ingressSweepLocked_def Let_def)

lemma sweep_size: "gm_len (il_sources (snd (ingressSweepLocked l now))) \<le> gm_len (il_sources l)"
  by (simp add: ingressSweepLocked_def Let_def gm_len_filter_le)

lemma Allow_limits [simp]: "il_limits (snd (ingressAllow l a now clk)) = il_limits l"
  by (auto simp: ingressAllow_def Let_def split: prod.splits option.splits)

lemma Allow_size:
  "int (gm_len (il_sources l)) \<le> SourceEntryLimit (il_limits l) \<Longrightarrow>
   int (gm_len (il_sources (snd (ingressAllow l a now clk)))) \<le> SourceEntryLimit (il_limits l)"
  using sweep_size [of "l\<lparr>il_global := snd (TakeAt (il_global l) now)\<rparr>" now]
  by (auto simp: ingressAllow_def Let_def gm_len_upd split: prod.splits option.splits)

interpretation ingress_table: bounded_table
  "\<lambda>l. int (gm_len (il_sources l))" "\<lambda>l. SourceEntryLimit (il_limits l)" ingress_step
proof
  fix l :: IngressLimiter and x
  show "SourceEntryLimit (il_limits (ingress_step l x)) = SourceEntryLimit (il_limits l)"
    by (cases x) auto
  assume "int (gm_len (il_sources l)) \<le> SourceEntryLimit (il_limits l)"
  then show "int (gm_len (il_sources (ingress_step l x))) \<le> SourceEntryLimit (il_limits l)"
    using Allow_size [of l] sweep_size [of l]
    by (cases x) (simp_all, meson of_nat_mono order_trans)
qed

lemma upgrade_size: "gm_len l \<le> upgradeSourceLimit \<Longrightarrow> gm_len (snd (upgradeAllow l ip now)) \<le> upgradeSourceLimit"
  using gm_len_filter_le [of "\<lambda>_ s. \<not> time_sub now (us_last s) \<ge> upgradeSourceTTL" l]
  unfolding upgradeAllow_def pruneLocked_def [symmetric] Let_def
  by (auto simp: gm_len_upd split: prod.splits option.splits)

interpretation upgrade_table: bounded_table "\<lambda>l. int (gm_len l)" "\<lambda>_. int upgradeSourceLimit" upgrade_step
proof
  fix l :: UpgradeLimiter and x
  assume "int (gm_len l) \<le> int upgradeSourceLimit"
  then show "int (gm_len (upgrade_step l x)) \<le> int upgradeSourceLimit"
    by (cases x) (simp add: upgrade_size)
qed simp

definition upgrade_ok :: "upgradeSource \<Rightarrow> bool" where
  "upgrade_ok s \<longleftrightarrow> 0 \<le> us_tokens s \<and> us_tokens s \<le> upgradeBurst"

text \<open>An upgrade source is a token bucket of rate 10 and burst 20.\<close>

definition upgrade_bucket :: "upgradeSource \<Rightarrow> TokenBucket" where
  "upgrade_bucket s = \<lparr>rate = upgradeTokensPerSecond, burst = upgradeBurst, tokens = us_tokens s, last_refill = us_last s\<rparr>"

lemma dur_seconds_pos_iff: "0 < dur_seconds (time_sub t u) \<longleftrightarrow> u < t"
proof
  assume "u < t"
  let ?d = "time_sub t u"
  have d: "0 < ?d" using \<open>u < t\<close> by (simp add: time_sub_def max_int64_def min_int64_def)
  then have "0 < ?d div second \<or> 0 < ?d mod second" by (cases "?d < second") auto
  moreover have "0 \<le> ?d div second" "0 \<le> ?d mod second" using d by auto
  ultimately show "0 < dur_seconds ?d"
  proof (elim disjE)
    assume "0 < ?d div second"
    then show ?thesis
      using d \<open>0 \<le> ?d mod second\<close> unfolding dur_seconds_def
      by (intro fl64_pos add_pos_nonneg) (simp_all add: go_quot_nonneg go_rem_nonneg)
  next
    assume "0 < ?d mod second"
    then show ?thesis
      using d \<open>0 \<le> ?d div second\<close> unfolding dur_seconds_def
      by (intro fl64_pos add_nonneg_pos) (simp_all add: go_quot_nonneg go_rem_nonneg)
  qed
next
  assume pos: "0 < dur_seconds (time_sub t u)"
  show "u < t"
  proof (rule ccontr)
    assume "\<not> u < t"
    then have d: "time_sub t u \<le> 0" by (simp add: time_sub_def max_int64_def min_int64_def)
    have neg: "fl64 x \<le> 0" if "x \<le> 0" for x
    proof -
      have "fl64 x \<le> x + \<bar>x\<bar> / 2 ^ 53" using fl64_error [of x] by linarith
      with that show ?thesis by (simp add: field_simps)
    qed
    have "go_quot (time_sub t u) second \<le> 0"
      using d by (cases "time_sub t u = 0") (auto simp: go_quot_def sgn_if pos_imp_zdiv_nonneg_iff)
    moreover have "go_rem (time_sub t u) second \<le> 0"
    proof (cases "time_sub t u = 0")
      case False
      define n where "n = - time_sub t u"
      have "0 < n" using d False by (simp add: n_def)
      then have "go_rem (time_sub t u) second = - (n mod second)"
        using minus_div_mult_eq_mod [of n second] d False
        by (simp add: go_rem_def go_quot_def n_def sgn_if)
      then show ?thesis by simp
    qed (simp add: go_rem_def go_quot_def)
    ultimately have "dur_seconds (time_sub t u) \<le> 0"
      unfolding dur_seconds_def by (intro neg add_nonpos_nonpos divide_nonpos_pos) auto
    with pos show False by simp
  qed
qed

lemma upgrade_bucket_fields [simp]:
  "tokens (upgrade_bucket s) = us_tokens s" "last_refill (upgrade_bucket s) = us_last s"
  "rate (upgrade_bucket s) = upgradeTokensPerSecond" "burst (upgrade_bucket s) = upgradeBurst"
  by (simp_all add: upgrade_bucket_def)

lemma upgradeTake_bucket:
  "fst (upgradeTake s now) = fst (TakeAt (upgrade_bucket s) now)"
  "upgrade_bucket (snd (upgradeTake s now)) = snd (TakeAt (upgrade_bucket s) now)"
  by (auto simp: upgradeTake_def TakeAt_def refillLocked_def upgrade_bucket_def Let_def
      dur_seconds_pos_iff min_def not_le)

lemma upgradeTake_fields:
  "us_tokens (snd (upgradeTake s now)) = tokens (snd (TakeAt (upgrade_bucket s) now))"
  "us_last (snd (upgradeTake s now)) = max (us_last s) now"
  by (simp_all flip: upgradeTake_bucket(2) upgrade_bucket_fields(1,2))
    (simp only: upgradeTake_bucket(2) TakeAt_fields)

lemma upgrade_ok_bucket: "upgrade_ok s \<longleftrightarrow> bucket_ok (upgrade_bucket s)"
  by (auto simp: upgrade_ok_def bucket_ok_def upgradeBurst_def upgradeTokensPerSecond_def)

interpretation upgrade_source: token_meter upgradeTake upgrade_ok us_tokens us_last
  "\<lambda>_. upgradeTokensPerSecond * (1 + 1 / 2 ^ 51) / 1000000000" "\<lambda>_. upgradeBurst * 3 / 2 ^ 53"
proof
  fix s t assume ok: "upgrade_ok s"
  show "upgrade_ok (snd (upgradeTake s t))"
    using TakeAt_ok [of "upgrade_bucket s" t] ok by (simp add: upgrade_ok_bucket upgradeTake_bucket)
  show "of_bool (fst (upgradeTake s t)) + us_tokens (snd (upgradeTake s t)) \<le> us_tokens s +
      upgradeTokensPerSecond * (1 + 1 / 2 ^ 51) / 1000000000 * of_int (max (us_last s) t - us_last s) + upgradeBurst * 3 / 2 ^ 53"
    unfolding upgradeTake_fields upgradeTake_bucket(1)
    using TakeAt_spend [of "upgrade_bucket s" t] ok by (simp only: upgrade_ok_bucket upgrade_bucket_fields)
qed (auto simp: upgrade_ok_def upgradeTokensPerSecond_def upgradeTake_fields)

subsection \<open>Properties of UDP ingress\<close>

lemma Allow_global: "il_global (snd (ingressAllow l a now clk)) = snd (TakeAt (il_global l) now)"
  by (auto simp: ingressAllow_def ingressSweepLocked_def Let_def split: prod.splits option.splits)

lemma Allow_dropped_global: "fst (ingressAllow l a now clk) = IngressDroppedGlobal \<longleftrightarrow> \<not> fst (TakeAt (il_global l) now)"
  by (auto simp: ingressAllow_def Let_def split: prod.splits option.splits if_splits)

lemma ingress_run_global:
  "length (filter (\<lambda>d. d \<noteq> IngressDroppedGlobal) (ingress_run l xs)) = fst (take_run (il_global l) (map (fst \<circ> snd) xs))"
proof (induction xs arbitrary: l)
  case (Cons x xs)
  obtain a now clk where x: "x = (a, now, clk)" by (cases x) auto
  show ?case
    using Cons.IH [of "snd (ingressAllow l a now clk)"] Allow_dropped_global [of l a now clk]
    by (auto simp: x Allow_global split: prod.splits)
qed simp

text \<open>The source table never outgrows its limit: from any limiter that \<^verbatim>\<open>NewIngressLimiter\<close>
  accepts, every sequence of \<^verbatim>\<open>Allow\<close> and \<^verbatim>\<open>Sweep\<close> calls, with any addresses and clock readings,
  leaves at most \<^verbatim>\<open>SourceEntryLimit\<close> tracked sources; and the upgrade limiter never tracks
  more than 4096.\<close>

theorem source_tables_bounded:
  assumes "NewIngressLimiter limits clk = Return l"
  shows "int (gm_len (il_sources (foldl ingress_step l ops))) \<le> SourceEntryLimit limits \<and>
         gm_len (foldl upgrade_step NewUpgradeLimiter us) \<le> upgradeSourceLimit"
proof -
  have "il_limits l = limits" "gm_len (il_sources l) = 0" "0 < SourceEntryLimit limits"
    using assms by (auto simp: NewIngressLimiter_def split: if_splits)
  then show ?thesis
    using ingress_table.run_size_bounded [of l ops] upgrade_table.run_size_bounded [of NewUpgradeLimiter us]
    by (simp add: NewUpgradeLimiter_def)
qed

theorem source_tables_bounded_witness:
  "int (gm_len (il_sources (foldl ingress_step
      \<lparr>il_limits = DefaultIngressLimits, il_global = NewTokenBucket (fl64 (of_int 20000)) 40000 0, il_sources = fmempty\<rparr>
      [IAllow (Addr4 1) 1 1, ISweep 2]))) \<le> SourceEntryLimit DefaultIngressLimits \<and>
   gm_len (foldl upgrade_step NewUpgradeLimiter [(Addr4 1, 5)]) \<le> upgradeSourceLimit"
  by (rule source_tables_bounded [where clk = 0]) (simp add: NewIngressLimiter_def DefaultIngressLimits_def)

text \<open>The global budget bounds all admitted datagrams: over any run of \<^verbatim>\<open>Allow\<close> calls, from any
  mix of sources, the number of datagrams let through to header parsing is at most the level of
  the global bucket plus its rate times the elapsed time, up to the rounding terms of the bucket.\<close>

theorem ingress_global_bound:
  assumes "bucket_ok (il_global l)" and "\<forall>(a, now, clk) \<in> set xs. now \<le> T" and "last_refill (il_global l) \<le> T"
  shows "of_nat (length (filter (\<lambda>d. d = IngressAllowed) (ingress_run l xs))) \<le> tokens (il_global l)
           + rate (il_global l) * (1 + 1 / 2 ^ 51) / 1000000000 * of_int (T - last_refill (il_global l))
           + burst (il_global l) * 3 / 2 ^ 53 * of_nat (length xs)"
proof -
  have "length (filter (\<lambda>d. d = IngressAllowed) (ingress_run l xs))
      \<le> length (filter (\<lambda>d. d \<noteq> IngressDroppedGlobal) (ingress_run l xs))"
    by (rule length_filter_mono) simp
  then have "(of_nat (length (filter (\<lambda>d. d = IngressAllowed) (ingress_run l xs))) :: rat)
      \<le> of_nat (fst (take_run (il_global l) (map (fst \<circ> snd) xs)))"
    by (simp only: ingress_run_global of_nat_le_iff)
  also have "\<dots> \<le> tokens (il_global l)
           + rate (il_global l) * (1 + 1 / 2 ^ 51) / 1000000000 * of_int (T - last_refill (il_global l))
           + burst (il_global l) * 3 / 2 ^ 53 * of_nat (length (map (fst \<circ> snd) xs))"
    unfolding take_run_meter using assms by (intro bucket.run_bound_level) auto
  finally show ?thesis by simp
qed

definition demo_limiter :: IngressLimiter where
  "demo_limiter = \<lparr>il_limits = DefaultIngressLimits, il_global = NewTokenBucket 20000 40000 0, il_sources = fmempty\<rparr>"

theorem ingress_global_bound_witness:
  "of_nat (length (filter (\<lambda>d. d = IngressAllowed) (ingress_run demo_limiter [(Addr4 1, 5, 5), (Addr4 2, 3, 3)])))
     \<le> tokens (il_global demo_limiter)
       + rate (il_global demo_limiter) * (1 + 1 / 2 ^ 51) / 1000000000 * of_int (5 - last_refill (il_global demo_limiter))
       + burst (il_global demo_limiter) * 3 / 2 ^ 53
           * of_nat (length [(Addr4 1, 5, 5 :: gotime), (Addr4 2, 3 :: gotime, 3)])"
  by (rule ingress_global_bound) (simp_all add: demo_limiter_def NewTokenBucket_ok, simp add: NewTokenBucket_def)

text \<open>Source isolation and the order of the checks: a datagram refused by the global budget
  touches no source entry; otherwise the call changes the budget of its own normalised address
  only.  Another source keeps its entry, or loses it when it has been idle for the table's TTL and
  the table was full.\<close>

theorem ingress_source_isolation:
  assumes "other \<noteq> Unmap addr"
  shows "let l' = snd (ingressAllow l addr now clk)
         in (\<not> fst (TakeAt (il_global l) now) \<longrightarrow> il_sources l' = il_sources l) \<and>
            (fmlookup (il_sources l') other = fmlookup (il_sources l) other \<or>
             int (gm_len (il_sources l)) \<ge> SourceEntryLimit (il_limits l) \<and> fmlookup (il_sources l') other = None \<and>
             (\<exists>s. fmlookup (il_sources l) other = Some s \<and> time_sub now (lastSeen s) \<ge> SourceEntryTTL (il_limits l)))"
  using assms
  by (auto simp: ingressAllow_def ingressSweepLocked_def Let_def split: prod.splits option.splits if_splits)

theorem ingress_source_isolation_witness:
  "let l' = snd (ingressAllow demo_limiter (Addr6 0xFFFF00000001 []) 5 5)
   in (\<not> fst (TakeAt (il_global demo_limiter) 5) \<longrightarrow> il_sources l' = il_sources demo_limiter) \<and>
      (fmlookup (il_sources l') (Addr4 2) = fmlookup (il_sources demo_limiter) (Addr4 2) \<or>
       int (gm_len (il_sources demo_limiter)) \<ge> SourceEntryLimit (il_limits demo_limiter) \<and> fmlookup (il_sources l') (Addr4 2) = None \<and>
       (\<exists>s. fmlookup (il_sources demo_limiter) (Addr4 2) = Some s \<and> time_sub 5 (lastSeen s) \<ge> SourceEntryTTL (il_limits demo_limiter)))"
proof (rule ingress_source_isolation)
  have "drop_bit 32 (0xFFFF00000001 :: 128 word) = 0xFFFF" and "(ucast (0xFFFF00000001 :: 128 word) :: 32 word) = 1"
    by code_simp+
  then show "Addr4 2 \<noteq> Unmap (Addr6 0xFFFF00000001 [])" by simp
qed

end
