(* ===== verification/Replay.thy ===== *)
theory Replay
  imports Prelude
begin

text \<open>
  The 128-packet sliding receive window of \<^verbatim>\<open>internal/protocol/replay.go\<close>, at the width of its
  fields: a 64-bit high-water mark and two 64-bit bitmap words.  The abstract window
  (\<open>replay_spec\<close>) keeps the set of all accepted sequence numbers; \<open>replay_rel\<close> relates the two,
  and every \<^verbatim>\<open>Accept\<close> refines the abstract step.  The locale \<open>replay_filter\<close> is the contract
  that \<^verbatim>\<open>Session.acceptPacket\<close> relies on.
\<close>

section \<open>Definitions\<close>

definition replayWindowSize :: nat where "replayWindowSize = 128"

record ReplayWindow =
  high :: uint64
  bits0 :: uint64
  bits1 :: uint64

definition emptyWindow :: ReplayWindow where
  "emptyWindow = \<lparr>high = 0, bits0 = 0, bits1 = 0\<rparr>"

text \<open>\<^verbatim>\<open>w.bits[word]\<close> for \<^verbatim>\<open>word = offset / 64\<close>, with \<^verbatim>\<open>offset < 128\<close>.\<close>

definition bits_at :: "ReplayWindow \<Rightarrow> nat \<Rightarrow> uint64" where
  "bits_at w word = (if word = 0 then bits0 w else bits1 w)"

definition set_bits_at :: "ReplayWindow \<Rightarrow> nat \<Rightarrow> uint64 \<Rightarrow> ReplayWindow" where
  "set_bits_at w word v = (if word = 0 then w\<lparr>bits0 := v\<rparr> else w\<lparr>bits1 := v\<rparr>)"

definition WouldAccept :: "ReplayWindow \<Rightarrow> uint64 \<Rightarrow> bool" where
  "WouldAccept w seq =
     (if seq = 0 then False
      else if seq > high w then True
      else let offset = unat (high w - seq)
           in if offset \<ge> replayWindowSize then False
              else bits_at w (offset div 64) AND push_bit (offset mod 64) 1 = 0)"

definition shiftLeft :: "ReplayWindow \<Rightarrow> nat \<Rightarrow> ReplayWindow" where
  "shiftLeft w n =
     (if n = 0 then w
      else if n < 64 then
        w\<lparr>bits1 := push_bit n (bits1 w) OR drop_bit (64 - n) (bits0 w),
          bits0 := push_bit n (bits0 w)\<rparr>
      else w\<lparr>bits1 := push_bit (n - 64) (bits0 w), bits0 := 0\<rparr>)"

definition Accept :: "ReplayWindow \<Rightarrow> uint64 \<Rightarrow> (bool \<times> bool) \<times> ReplayWindow" where
  "Accept w seq =
     (if seq = 0 then ((False, False), w)
      else if seq > high w then
        (let delta = unat (seq - high w);
             w1 = (if delta \<ge> replayWindowSize then w\<lparr>bits0 := 0, bits1 := 0\<rparr> else shiftLeft w delta);
             w2 = w1\<lparr>high := seq\<rparr>
         in ((True, True), w2\<lparr>bits0 := bits0 w2 OR 1\<rparr>))
      else
        (let offset = unat (high w - seq)
         in if offset \<ge> replayWindowSize then ((False, False), w)
            else let word = offset div 64; mask = push_bit (offset mod 64) 1
                 in if bits_at w word AND mask \<noteq> 0 then ((False, False), w)
                    else ((True, False), set_bits_at w word (bits_at w word OR mask))))"

subsection \<open>Abstract window\<close>

record replay_spec =
  spec_high :: nat
  spec_seen :: "nat set"

definition spec_accept :: "replay_spec \<Rightarrow> nat \<Rightarrow> (bool \<times> bool) \<times> replay_spec" where
  "spec_accept s n =
     (if n = 0 then ((False, False), s)
      else if n > spec_high s then ((True, True), s\<lparr>spec_high := n, spec_seen := insert n (spec_seen s)\<rparr>)
      else if spec_high s - n \<ge> replayWindowSize \<or> n \<in> spec_seen s then ((False, False), s)
      else ((True, False), s\<lparr>spec_seen := insert n (spec_seen s)\<rparr>))"

definition window_bit :: "ReplayWindow \<Rightarrow> nat \<Rightarrow> bool" where
  "window_bit w i = (if i < 64 then bit (bits0 w) i else bit (bits1 w) (i - 64))"

definition replay_rel :: "ReplayWindow \<Rightarrow> replay_spec \<Rightarrow> bool" where
  "replay_rel w s \<longleftrightarrow> spec_high s = unat (high w) \<and> 0 \<notin> spec_seen s \<and>
     (\<forall>n \<in> spec_seen s. n \<le> spec_high s) \<and>
     (\<forall>i < replayWindowSize. window_bit w i \<longleftrightarrow> i \<le> spec_high s \<and> spec_high s - i \<in> spec_seen s)"

text \<open>A receive loop over the window: the sequence numbers it accepts, in order.\<close>

fun accept_run :: "ReplayWindow \<Rightarrow> uint64 list \<Rightarrow> uint64 list" where
  "accept_run w [] = []"
| "accept_run w (s # ss) =
     (case Accept w s of ((ok, _), w') \<Rightarrow> if ok then s # accept_run w' ss else accept_run w' ss)"

section \<open>Theorems\<close>

lemma bits_at_window_bit:
  "i < replayWindowSize \<Longrightarrow> (bits_at w (i div 64) AND push_bit (i mod 64) 1 = 0) = (\<not> window_bit w i)"
proof -
  assume i: "i < replayWindowSize"
  have single: "(x AND push_bit k 1 = 0) = (\<not> bit x k)" for x :: uint64 and k
    by (simp add: push_bit_of_1 and_exp_eq_0_iff_not_bit)
  show ?thesis
    using i single [of _ "i mod 64"]
    by (auto simp: bits_at_def window_bit_def replayWindowSize_def le_div_geq div_eq_0_iff
        mod_if)
qed

lemma window_bit_shiftLeft:
  assumes "n < 128" and "i < 128"
  shows "window_bit (shiftLeft w n) i \<longleftrightarrow> n \<le> i \<and> window_bit w (i - n)"
  using assms
  by (auto simp: window_bit_def shiftLeft_def bit_simps add.commute dest: bit_imp_le_length)

lemma window_bit_set:
  assumes "k < 128" and "i < 128"
  shows "window_bit (set_bits_at w (k div 64) (bits_at w (k div 64) OR push_bit (k mod 64) 1)) i
           \<longleftrightarrow> i = k \<or> window_bit w i"
  using assms
  by (auto simp: window_bit_def set_bits_at_def bits_at_def bit_simps le_div_geq div_eq_0_iff mod_if)

lemma unat_sub_ge: "b \<le> a \<Longrightarrow> unat (a - b) = unat a - unat (b :: 'a::len word)"
  by (rule unat_sub)

lemma WouldAccept_iff_Accept: "fst (fst (Accept w seq)) = WouldAccept w seq"
  by (simp add: Accept_def WouldAccept_def Let_def)

lemma rel_advance:
  assumes "replay_rel w s" and "seq > high w"
  shows "replay_rel (snd (Accept w seq)) (s\<lparr>spec_high := unat seq, spec_seen := insert (unat seq) (spec_seen s)\<rparr>)"
proof -
  let ?d = "unat (seq - high w)"
  have d: "?d = unat seq - unat (high w)" "unat (high w) < unat seq"
    using unat_sub_ge [of "high w" seq] assms(2) by (simp_all add: word_less_nat_alt word_le_nat_alt)
  have seq0: "seq \<noteq> 0" using assms(2) by auto
  define w' where "w' = snd (Accept w seq)"
  have hi: "high w' = seq"
    using assms(2) seq0 by (simp add: w'_def Accept_def Let_def)
  have old: "window_bit w j \<longleftrightarrow> j \<le> unat (high w) \<and> unat (high w) - j \<in> spec_seen s" if "j < 128" for j
    using assms(1) that by (simp add: replay_rel_def replayWindowSize_def)
  have le: "n \<in> spec_seen s \<Longrightarrow> 0 < n \<and> n \<le> unat (high w)" for n
    using assms(1) by (cases "n = 0") (auto simp: replay_rel_def)
  have bits: "window_bit w' i \<longleftrightarrow> i = 0 \<or> (?d < 128 \<and> ?d \<le> i \<and> window_bit w (i - ?d))" if i: "i < 128" for i
  proof (cases "?d < 128")
    case True
    have "window_bit w' i = (i = 0 \<or> window_bit (shiftLeft w ?d) i)"
      using True assms(2) seq0
      by (auto simp: w'_def Accept_def Let_def window_bit_def replayWindowSize_def bit_simps)
    with True i show ?thesis by (simp add: window_bit_shiftLeft)
  next
    case False
    with assms(2) seq0 show ?thesis
      by (auto simp: w'_def Accept_def Let_def window_bit_def replayWindowSize_def bit_simps)
  qed
  have "window_bit w' i \<longleftrightarrow> i \<le> unat seq \<and> unat seq - i \<in> insert (unat seq) (spec_seen s)" if i: "i < 128" for i
  proof (cases "?d \<le> i")
    case True
    with d have "unat (high w) - (i - ?d) = unat seq - i" "i - ?d \<le> unat (high w) \<longleftrightarrow> i \<le> unat seq"
      by linarith+
    moreover have "i - ?d < 128" "?d < 128" "i \<noteq> 0" using i True d by linarith+
    ultimately show ?thesis
      using True d by (auto simp: bits [OF i] old)
  next
    case False
    then show ?thesis
      using d le by (fastforce simp: bits [OF i])
  qed
  moreover have "n \<in> spec_seen s \<Longrightarrow> 0 < n \<and> n \<le> unat seq" for n
    using le [of n] d by linarith
  ultimately show ?thesis
    using seq0 unfolding w'_def [symmetric]
    by (auto simp: replay_rel_def hi replayWindowSize_def unat_gt_0)
qed

lemma rel_bit:
  assumes "replay_rel w s" and "seq \<le> high w" and "unat (high w - seq) < 128" and "seq \<noteq> 0"
  shows "window_bit w (unat (high w - seq)) \<longleftrightarrow> unat seq \<in> spec_seen s"
proof -
  have "unat (high w) - unat (high w - seq) = unat seq" "unat (high w - seq) \<le> unat (high w)"
    using unat_sub_ge [OF assms(2)] assms(2) by (simp_all add: word_le_nat_alt)
  with assms(1,3) show ?thesis by (auto simp: replay_rel_def replayWindowSize_def)
qed

lemma rel_fill:
  assumes r: "replay_rel w s" and seq: "seq \<le> high w" "seq \<noteq> 0"
    and off: "unat (high w - seq) < 128"
  shows "replay_rel (set_bits_at w (unat (high w - seq) div 64)
      (bits_at w (unat (high w - seq) div 64) OR push_bit (unat (high w - seq) mod 64) 1))
      (s\<lparr>spec_seen := insert (unat seq) (spec_seen s)\<rparr>)" (is "replay_rel ?w' _")
proof -
  let ?o = "unat (high w - seq)"
  have o: "?o = unat (high w) - unat seq" "unat seq \<le> unat (high w)"
    using unat_sub_ge [OF seq(1)] seq(1) by (simp_all add: word_le_nat_alt)
  have "window_bit ?w' i \<longleftrightarrow> i \<le> unat (high w) \<and> unat (high w) - i \<in> insert (unat seq) (spec_seen s)"
    if i: "i < 128" for i
  proof -
    have "i = ?o \<longleftrightarrow> i \<le> unat (high w) \<and> unat (high w) - i = unat seq"
      using o seq(2) by (auto simp: unat_eq_zero)
    moreover have "window_bit ?w' i \<longleftrightarrow> i = ?o \<or> window_bit w i"
      by (rule window_bit_set [OF off i])
    ultimately show ?thesis
      using r i by (auto simp: replay_rel_def replayWindowSize_def)
  qed
  moreover have "high ?w' = high w" by (simp add: set_bits_at_def)
  ultimately show ?thesis
    using r o seq(2) by (auto simp: replay_rel_def replayWindowSize_def unat_gt_0)
qed

lemma replay_rel_init: "replay_rel emptyWindow \<lparr>spec_high = 0, spec_seen = {}\<rparr>"
  by (simp add: replay_rel_def emptyWindow_def window_bit_def)

lemma Accept_refines_spec:
  assumes r: "replay_rel w s"
  shows "fst (Accept w seq) = fst (spec_accept s (unat seq)) \<and>
         replay_rel (snd (Accept w seq)) (snd (spec_accept s (unat seq)))"
proof (cases "seq = 0 \<or> seq > high w")
  case True
  then show ?thesis
  proof (cases "seq = 0")
    case False
    with True have gt: "seq > high w" by simp
    then have "unat seq > spec_high s" using r by (simp add: replay_rel_def word_less_nat_alt)
    with False show ?thesis
      using rel_advance [OF r gt] gt by (simp add: spec_accept_def Accept_def Let_def)
  qed (simp add: Accept_def spec_accept_def r)
next
  case False
  then have seq: "seq \<le> high w" "seq \<noteq> 0" by auto
  then have h: "\<not> unat seq > spec_high s" "unat seq \<noteq> 0"
    and o: "unat (high w - seq) = spec_high s - unat seq"
    using r unat_sub_ge [OF seq(1)] by (simp_all add: replay_rel_def word_le_nat_alt unat_eq_zero)
  show ?thesis
  proof (cases "unat (high w - seq) < 128")
    case off: True
    note b = bits_at_window_bit [of "unat (high w - seq)" w, unfolded replayWindowSize_def, OF off]
      rel_bit [OF r seq(1) off seq(2)]
    from off seq h o b r rel_fill [OF r seq off] show ?thesis
      by (cases "unat seq \<in> spec_seen s")
        (simp_all add: Accept_def spec_accept_def Let_def replayWindowSize_def)
  next
    case False
    with seq h o r show ?thesis
      by (auto simp: Accept_def spec_accept_def Let_def replayWindowSize_def)
  qed
qed

subsection \<open>The contract of an anti-replay filter\<close>

text \<open>What the session layer relies on: \<open>rel w S\<close> says that the filter \<open>w\<close> has admitted
  exactly the numbers in \<open>S\<close>.\<close>

locale replay_filter =
  fixes init :: 'w
    and would :: "'w \<Rightarrow> uint64 \<Rightarrow> bool"
    and accept :: "'w \<Rightarrow> uint64 \<Rightarrow> (bool \<times> bool) \<times> 'w"
    and rel :: "'w \<Rightarrow> nat set \<Rightarrow> bool"
  assumes init_rel: "rel init {}"
    and would_accept: "fst (fst (accept w s)) = would w s"
    and admit_fresh: "\<lbrakk>rel w S; would w s\<rbrakk> \<Longrightarrow> unat s \<notin> S"
    and admit_rel: "\<lbrakk>rel w S; would w s\<rbrakk> \<Longrightarrow> rel (snd (accept w s)) (insert (unat s) S)"
    and reject_same: "\<not> would w s \<Longrightarrow> snd (accept w s) = w"
begin

fun filter_run :: "'w \<Rightarrow> uint64 list \<Rightarrow> uint64 list" where
  "filter_run w [] = []"
| "filter_run w (s # ss) =
     (if would w s then s # filter_run (snd (accept w s)) ss else filter_run (snd (accept w s)) ss)"

lemma run_fresh:
  "rel w S \<Longrightarrow> distinct (filter_run w ss) \<and> (\<forall>s \<in> set (filter_run w ss). unat s \<notin> S)"
proof (induction ss arbitrary: w S)
  case Nil
  then show ?case by simp
next
  case (Cons s ss)
  show ?case
  proof (cases "would w s")
    case True
    with Cons.prems have "rel (snd (accept w s)) (insert (unat s) S)" "unat s \<notin> S"
      by (auto intro: admit_rel dest: admit_fresh)
    with Cons.IH [of "snd (accept w s)" "insert (unat s) S"] True show ?thesis by auto
  next
    case False
    with Cons show ?thesis by (simp add: reject_same)
  qed
qed

lemma run_distinct: "distinct (filter_run init ss)"
  using run_fresh [OF init_rel] by blast

end

definition window_admitted :: "ReplayWindow \<Rightarrow> nat set \<Rightarrow> bool" where
  "window_admitted w S \<longleftrightarrow> (\<exists>h. replay_rel w \<lparr>spec_high = h, spec_seen = S\<rparr>)"

lemma admitted_step:
  assumes "window_admitted w S" and "WouldAccept w s"
  shows "unat s \<notin> S \<and> window_admitted (snd (Accept w s)) (insert (unat s) S)"
proof -
  obtain h where r: "replay_rel w \<lparr>spec_high = h, spec_seen = S\<rparr>"
    using assms(1) by (auto simp: window_admitted_def)
  moreover from r have "unat s > h \<Longrightarrow> unat s \<notin> S"
    by (auto simp: replay_rel_def)
  ultimately show ?thesis
    using Accept_refines_spec [OF r, of s] assms(2)
    by (auto simp: spec_accept_def window_admitted_def WouldAccept_iff_Accept [symmetric] split: if_splits)
qed

lemma rejected_unchanged: "\<not> WouldAccept w s \<Longrightarrow> snd (Accept w s) = w"
  by (auto simp: Accept_def WouldAccept_def Let_def)

interpretation replay_window: replay_filter emptyWindow WouldAccept Accept window_admitted
proof
  show "window_admitted emptyWindow {}"
    using replay_rel_init by (auto simp: window_admitted_def)
qed (use admitted_step rejected_unchanged WouldAccept_iff_Accept in auto)

lemma accept_run_filter_run: "accept_run w ss = replay_window.filter_run w ss"
  by (induction ss arbitrary: w)
    (auto simp: WouldAccept_iff_Accept [symmetric] split: prod.splits)

text \<open>C15. The bitmap window refines the abstract one: related to a window that remembers every
  accepted number, \<^verbatim>\<open>Accept\<close> gives the same verdict and the same high-water advance and stays
  related.  In particular a number is accepted exactly when it is non-zero, never accepted
  before, and not 128 or more below the high-water mark.\<close>

theorem Accept_refinement:
  assumes "replay_rel w s"
  shows "fst (Accept w seq) = fst (spec_accept s (unat seq)) \<and>
         replay_rel (snd (Accept w seq)) (snd (spec_accept s (unat seq))) \<and>
         (WouldAccept w seq \<longleftrightarrow> seq \<noteq> 0 \<and> unat seq \<notin> spec_seen s \<and> spec_high s < unat seq + replayWindowSize)"
proof -
  have "unat seq > spec_high s \<Longrightarrow> unat seq \<notin> spec_seen s"
    using assms by (auto simp: replay_rel_def)
  moreover have "WouldAccept w seq = fst (fst (spec_accept s (unat seq)))"
    using Accept_refines_spec [OF assms, of seq] by (simp add: WouldAccept_iff_Accept [symmetric])
  ultimately show ?thesis
    using Accept_refines_spec [OF assms, of seq]
    by (auto simp: spec_accept_def replayWindowSize_def unat_eq_zero)
qed

theorem Accept_refinement_witness:
  "fst (Accept emptyWindow 7) = fst (spec_accept \<lparr>spec_high = 0, spec_seen = {}\<rparr> (unat (7 :: uint64))) \<and>
   replay_rel (snd (Accept emptyWindow 7)) (snd (spec_accept \<lparr>spec_high = 0, spec_seen = {}\<rparr> (unat (7 :: uint64)))) \<and>
   (WouldAccept emptyWindow 7 \<longleftrightarrow> (7 :: uint64) \<noteq> 0 \<and>
      unat (7 :: uint64) \<notin> spec_seen \<lparr>spec_high = 0, spec_seen = {}\<rparr> \<and>
      spec_high \<lparr>spec_high = 0, spec_seen = {}\<rparr> < unat (7 :: uint64) + replayWindowSize)"
  by (rule Accept_refinement [OF replay_rel_init])

text \<open>No replay: over any sequence of received numbers, in any order and with any
  repetitions, the numbers accepted from a fresh window are pairwise distinct.\<close>

theorem no_replay: "distinct (accept_run emptyWindow seqs)"
  unfolding accept_run_filter_run by (rule replay_window.run_distinct)

end
