(* ===== verification/Session.thy ===== *)
theory Session
  imports Packet Replay RateLimit
begin

text \<open>
  The in-memory session registry of \<^verbatim>\<open>internal/protocol/session.go\<close>.  Go's session pointers
  survive their removal from the tables (prepared sessions, send barriers, in-flight sends), so
  session objects live in an explicit heap and the tables hold references.

  \<^item> Every operation that samples the manager clock takes the sample \<open>now\<close> as an argument.
  \<^item> Handlers are callbacks into other components: whether each is installed is a flag of the
    manager, and the calls an operation makes are the list of \<open>effect\<close>s it returns, in order.
  \<^item> A \<^verbatim>\<open>SessionSendDrain\<close> and a revocation cleanup are closures; they are values
    (\<open>drain\<close>, \<open>revocationWork\<close>) with their own \<open>run\<close> operation.  Waiting for \<^verbatim>\<open>sendMu\<close> has no
    effect on the state in a model whose operations are atomic.
\<close>

section \<open>Definitions\<close>

subsection \<open>State\<close>

definition SessionTTL :: duration where "SessionTTL = 90 * second"
definition PurgeInterval :: duration where "PurgeInterval = 30 * second"

record Limits =
  lim_packets_per_sec :: int
  lim_burst :: int

definition DefaultLimits :: Limits where
  "DefaultLimits = \<lparr>lim_packets_per_sec = SessionPacketsPerSec, lim_burst = SessionBurst\<rparr>"

datatype RevocationReason = RevocationReplaced | RevocationRevoked

fun reason_byte :: "RevocationReason \<Rightarrow> byte" where
  "reason_byte RevocationReplaced = 1"
| "reason_byte RevocationRevoked = 2"

record UDPAddr =
  udp_ip :: bytes
  udp_port :: int
  udp_zone :: string

record RevokedSessionSnapshot =
  snap_id :: id16
  snap_user :: int64
  snap_encrypted :: bool
  snap_s2c :: "aead option"
  snap_remote :: "UDPAddr option"
  snap_seq :: uint64

record SessionInfo =
  info_id :: id16
  info_user :: int64
  info_encrypted :: bool
  info_master_key :: "bytes option"
  info_expires_at :: int
  info_replaced :: bool

definition emptyInfo :: SessionInfo where
  "emptyInfo = \<lparr>info_id = 0, info_user = 0, info_encrypted = False, info_master_key = None,
     info_expires_at = 0, info_replaced = False\<rparr>"

record SessionSnapshot =
  ss_id :: id16
  ss_user :: int64
  ss_device :: string
  ss_created :: int
  ss_expires :: int
  ss_encrypted :: bool
  ss_remote_present :: bool

record Session =
  sID :: id16
  sUserID :: int64
  sDeviceID :: string
  sCreatedAt :: int
  sExpiresAt :: int
  sEncrypted :: bool
  sC2S :: "aead option"
  sS2C :: "aead option"
  sBudget :: TokenBucket
  sRemote :: "UDPAddr option"
  sReplay :: ReplayWindow
  sSendSeq :: uint64
  sActive :: bool

type_synonym sref = nat
type_synonym bref = nat

datatype drain = DrainSession sref | DrainBarrier bref

record expiryBarrier =
  eb_id :: id16
  eb_session :: sref
  eb_done :: bool

datatype effect =
    ExpiryCall int64 id16
  | ExpiryBarrierCall int64 id16 drain
  | RevokeCall RevocationReason RevokedSessionSnapshot

record Manager =
  mgr_id :: nat
  heap :: "(sref, Session) fmap"
  next_ref :: sref
  sessions :: "(id16, sref) fmap"
  byUser :: "(int64, id16) fmap"
  mlimits :: Limits
  onRevoke :: bool
  onExpire :: bool
  onExpireBarrier :: bool
  expiryBarriers :: "(id16, bref) fmap"
  barrier_heap :: "(bref, expiryBarrier) fmap"
  next_barrier :: bref

record PreparedSession =
  p_owner :: nat
  p_session :: "sref option"
  p_info :: SessionInfo
  p_used :: bool

subsection \<open>Construction and handlers\<close>

definition NewManagerWithLimits :: "nat \<Rightarrow> Limits \<Rightarrow> (proto_error, Manager) outcome" where
  "NewManagerWithLimits mid limits =
     (if lim_packets_per_sec limits \<le> 0 \<or> lim_burst limits \<le> 0 then Fail ErrInvalidLimits
      else Return \<lparr>mgr_id = mid, heap = fmempty, next_ref = 0, sessions = fmempty, byUser = fmempty,
             mlimits = limits, onRevoke = False, onExpire = False, onExpireBarrier = False,
             expiryBarriers = fmempty, barrier_heap = fmempty, next_barrier = 0\<rparr>)"

definition SetRevocationHandler :: "Manager \<Rightarrow> bool \<Rightarrow> Manager" where
  "SetRevocationHandler m h = m\<lparr>onRevoke := h\<rparr>"

definition SetExpiryHandler :: "Manager \<Rightarrow> bool \<Rightarrow> Manager" where
  "SetExpiryHandler m h = m\<lparr>onExpire := h, onExpireBarrier := False\<rparr>"

definition SetExpiryBarrierHandler :: "Manager \<Rightarrow> bool \<Rightarrow> Manager" where
  "SetExpiryBarrierHandler m h = m\<lparr>onExpireBarrier := h, onExpire := False\<rparr>"

definition upd_sess :: "Manager \<Rightarrow> sref \<Rightarrow> (Session \<Rightarrow> Session) \<Rightarrow> Manager" where
  "upd_sess m r f = (case fmlookup (heap m) r of None \<Rightarrow> m
                     | Some s \<Rightarrow> m\<lparr>heap := fmupd r (f s) (heap m)\<rparr>)"

text \<open>\<^verbatim>\<open>m.sessions[id]\<close>: the reference and the object it points to.\<close>

definition lookupSession :: "Manager \<Rightarrow> id16 \<Rightarrow> (sref \<times> Session) option" where
  "lookupSession m sid =
     Option.bind (fmlookup (sessions m) sid) (\<lambda>r. map_option (Pair r) (fmlookup (heap m) r))"

subsection \<open>Session methods\<close>

definition expiredLocked :: "Session \<Rightarrow> int \<Rightarrow> bool" where
  "expiredLocked s nowMS \<longleftrightarrow> nowMS \<ge> sExpiresAt s"

definition touchLocked :: "Session \<Rightarrow> int \<Rightarrow> Session" where
  "touchLocked s nowMS = s\<lparr>sExpiresAt := nowMS + SessionTTL div millisecond\<rparr>"

definition deactivateLocked :: "Session \<Rightarrow> Session" where
  "deactivateLocked s = s\<lparr>sActive := False\<rparr>"

definition newSession ::
  "id16 \<Rightarrow> int64 \<Rightarrow> string \<Rightarrow> bool \<Rightarrow> int \<Rightarrow> aead option \<Rightarrow> aead option \<Rightarrow> Limits \<Rightarrow> gotime \<Rightarrow> Session" where
  "newSession sid userID deviceID encrypted nowMS c2s s2c limits clk =
     \<lparr>sID = sid, sUserID = userID, sDeviceID = deviceID, sCreatedAt = nowMS,
      sExpiresAt = nowMS + SessionTTL div millisecond, sEncrypted = encrypted,
      sC2S = c2s, sS2C = s2c,
      sBudget = NewTokenBucket (fl64 (of_int (lim_packets_per_sec limits))) (lim_burst limits) clk,
      sRemote = None, sReplay = emptyWindow, sSendSeq = 0, sActive = True\<rparr>"

datatype receiveDecision =
  receiveAccepted | receiveDroppedReplay | receiveDroppedRateLimit | receiveDroppedInactive

definition acceptPacket ::
  "Session \<Rightarrow> uint64 \<Rightarrow> gotime \<Rightarrow> UDPAddr option \<Rightarrow> (proto_error, receiveDecision) outcome \<times> Session" where
  "acceptPacket s seq now remote =
     (if \<not> sActive s then (Return receiveDroppedInactive, s)
      else if \<not> WouldAccept (sReplay s) seq then (Return receiveDroppedReplay, s)
      else case TakeAt (sBudget s) now of (ok, b) \<Rightarrow>
        let s1 = s\<lparr>sBudget := b\<rparr>
        in if \<not> ok then (Return receiveDroppedRateLimit, s1)
           else case Accept (sReplay s1) seq of ((accepted, advanced), w) \<Rightarrow>
             let s2 = s1\<lparr>sReplay := w\<rparr>
             in if \<not> accepted then (Panic, s2)
                else let s3 = touchLocked s2 (unix_milli now)
                     in (Return receiveAccepted,
                         if advanced \<and> remote \<noteq> None then s3\<lparr>sRemote := remote\<rparr> else s3))"

definition reserveSendSeq ::
  "Session \<Rightarrow> (proto_error, uint64 \<times> bool \<times> aead option \<times> UDPAddr option) outcome \<times> Session" where
  "reserveSendSeq s =
     (if \<not> sActive s then (Fail ErrSessionNotFound, s)
      else if sSendSeq s = - 1 then (Fail ErrSequenceExhausted, s)
      else let s1 = s\<lparr>sSendSeq := sSendSeq s + 1\<rparr>
           in if sEncrypted s1 \<and> sS2C s1 = None then (Fail ErrNoKey, s1)
              else (Return (sSendSeq s1, sEncrypted s1, sS2C s1, sRemote s1), s1))"

definition newRevokedSnapshotLocked :: "Session \<Rightarrow> RevokedSessionSnapshot \<times> Session" where
  "newRevokedSnapshotLocked s =
     (let snap = \<lparr>snap_id = sID s, snap_user = sUserID s, snap_encrypted = sEncrypted s,
                  snap_s2c = sS2C s, snap_remote = sRemote s, snap_seq = 0\<rparr>
      in if sSendSeq s < - 1
         then (snap\<lparr>snap_seq := sSendSeq s + 1\<rparr>, s\<lparr>sSendSeq := sSendSeq s + 1\<rparr>)
         else (snap, s))"

definition sessionSnapshot :: "Session \<Rightarrow> SessionSnapshot" where
  "sessionSnapshot s =
     \<lparr>ss_id = sID s, ss_user = sUserID s, ss_device = sDeviceID s, ss_created = sCreatedAt s,
      ss_expires = sExpiresAt s, ss_encrypted = sEncrypted s, ss_remote_present = (sRemote s \<noteq> None)\<rparr>"

subsection \<open>Table helpers\<close>

definition deleteLocked :: "Manager \<Rightarrow> id16 \<Rightarrow> int64 \<Rightarrow> Manager" where
  "deleteLocked m sid userID =
     (let m1 = m\<lparr>sessions := fmdrop sid (sessions m)\<rparr>
      in if fmlookup (byUser m1) userID = Some sid
         then m1\<lparr>byUser := fmdrop userID (byUser m1)\<rparr> else m1)"

definition newExpiryDrainLocked :: "Manager \<Rightarrow> id16 \<Rightarrow> sref \<Rightarrow> drain \<times> Manager" where
  "newExpiryDrainLocked m sid r =
     (if \<not> onExpireBarrier m then (DrainSession r, m)
      else (DrainBarrier (next_barrier m),
            m\<lparr>barrier_heap := fmupd (next_barrier m) \<lparr>eb_id = sid, eb_session = r, eb_done = False\<rparr> (barrier_heap m),
              expiryBarriers := fmupd sid (next_barrier m) (expiryBarriers m),
              next_barrier := Suc (next_barrier m)\<rparr>))"

definition pendingExpiryDrainLocked :: "Manager \<Rightarrow> id16 \<Rightarrow> drain option" where
  "pendingExpiryDrainLocked m sid = map_option DrainBarrier (fmlookup (expiryBarriers m) sid)"

definition clearExpiryBarrier :: "Manager \<Rightarrow> id16 \<Rightarrow> bref \<Rightarrow> Manager" where
  "clearExpiryBarrier m sid b =
     (if fmlookup (expiryBarriers m) sid = Some b
      then m\<lparr>expiryBarriers := fmdrop sid (expiryBarriers m)\<rparr> else m)"

text \<open>\<^verbatim>\<open>expiryBarrier.drain\<close>: once, and then the manager forgets the barrier.\<close>

definition run_drain :: "Manager \<Rightarrow> drain \<Rightarrow> Manager" where
  "run_drain m d =
     (case d of DrainSession r \<Rightarrow> m
      | DrainBarrier b \<Rightarrow>
          (case fmlookup (barrier_heap m) b of None \<Rightarrow> m
           | Some eb \<Rightarrow>
               if eb_done eb then m
               else clearExpiryBarrier (m\<lparr>barrier_heap := fmupd b (eb\<lparr>eb_done := True\<rparr>) (barrier_heap m)\<rparr>)
                      (eb_id eb) b))"

definition expiry_calls :: "Manager \<Rightarrow> int64 \<Rightarrow> id16 \<Rightarrow> drain \<Rightarrow> effect list" where
  "expiry_calls m userID sid d =
     (if onExpireBarrier m then [ExpiryBarrierCall userID sid d]
      else if onExpire m then [ExpiryCall userID sid] else [])"

subsection \<open>Preparing and activating\<close>

definition Prepare ::
  "(bytes \<Rightarrow> aead) \<Rightarrow> (bytes \<Rightarrow> bytes \<Rightarrow> bytes \<Rightarrow> bytes) \<Rightarrow> Manager \<Rightarrow> int64 \<Rightarrow> string \<Rightarrow> bool
     \<Rightarrow> id16 option \<Rightarrow> bytes option \<Rightarrow> gotime \<Rightarrow> gotime \<Rightarrow> (proto_error, PreparedSession) outcome \<times> Manager" where
  "Prepare gcm hkdf m userID deviceID encrypted rnd_id rnd_key now clk =
     (if sint userID \<le> 0 then (Fail ErrInvalidUserID, m)
      else case rnd_id of None \<Rightarrow> (Fail ErrRandom, m)
      | Some sid \<Rightarrow>
          let publish = (\<lambda>masterKey c2s s2c.
                let s = newSession sid userID deviceID encrypted (unix_milli now) c2s s2c (mlimits m) clk;
                    r = next_ref m
                in (Return \<lparr>p_owner = mgr_id m, p_session = Some r,
                       p_info = \<lparr>info_id = sid, info_user = userID, info_encrypted = encrypted,
                                 info_master_key = masterKey, info_expires_at = sExpiresAt s, info_replaced = False\<rparr>,
                       p_used = False\<rparr>,
                    m\<lparr>heap := fmupd r s (heap m), next_ref := Suc r\<rparr>))
          in if \<not> encrypted then publish None None None
             else case rnd_key of None \<Rightarrow> (Fail ErrRandom, m)
                  | Some masterKey \<Rightarrow>
                      (case DeriveDirectionKeys hkdf sid masterKey of
                         Return (c2s, s2c) \<Rightarrow>
                           (case (newGCM gcm c2s, newGCM gcm s2c) of
                              (Return a, Return b) \<Rightarrow> publish (Some masterKey) (Some a) (Some b)
                            | (Fail e, _) \<Rightarrow> (Fail e, m)
                            | (_, Fail e) \<Rightarrow> (Fail e, m)
                            | _ \<Rightarrow> (Panic, m))
                       | Fail e \<Rightarrow> (Fail e, m)
                       | Panic \<Rightarrow> (Panic, m)))"

record revocationWork =
  rw_session :: "sref option"
  rw_reason :: RevocationReason
  rw_handler :: bool
  rw_notify :: bool

definition runRevocation :: "Manager \<Rightarrow> revocationWork \<Rightarrow> effect list \<times> Manager" where
  "runRevocation m work =
     (case rw_session work of None \<Rightarrow> ([], m)
      | Some r \<Rightarrow>
          (case fmlookup (heap m) r of None \<Rightarrow> ([], m)
           | Some s \<Rightarrow>
               if rw_notify work \<and> rw_handler work \<and> sRemote s \<noteq> None \<and> sSendSeq s < - 1
               then (case newRevokedSnapshotLocked s of
                       (snap, s') \<Rightarrow> ([RevokeCall (rw_reason work) snap], m\<lparr>heap := fmupd r s' (heap m)\<rparr>))
               else ([], m)))"

record activation =
  act_info :: SessionInfo
  act_drain :: "drain option"
  act_cleanup :: revocationWork

text \<open>The publication step of \<^verbatim>\<open>activatePreparedStaged\<close> (lines 441 to 479): consume the
  prepared session, deactivate and remove the user's current one, install the new one.\<close>

definition publishPrepared ::
  "Manager \<Rightarrow> PreparedSession \<Rightarrow> sref \<Rightarrow> Session \<Rightarrow> drain option \<Rightarrow> int
     \<Rightarrow> activation \<times> Manager \<times> PreparedSession" where
  "publishPrepared m p r s missingDrain nowMS =
     (let userID = sUserID s;
          (m1, replaced, removed) =
            (case fmlookup (byUser m) userID of
               None \<Rightarrow> (m, False, None)
             | Some oldID \<Rightarrow>
                 (case fmlookup (sessions m) oldID of
                    None \<Rightarrow> (m\<lparr>byUser := fmdrop userID (byUser m)\<rparr>, False, None)
                  | Some old \<Rightarrow>
                      ((upd_sess m old deactivateLocked)\<lparr>sessions := fmdrop oldID (sessions m),
                          byUser := fmdrop userID (byUser m)\<rparr>,
                       (case fmlookup (heap m) old of None \<Rightarrow> False | Some o1 \<Rightarrow> \<not> expiredLocked o1 nowMS),
                       Some old)));
          m2 = m1\<lparr>sessions := fmupd (sID s) r (sessions m1), byUser := fmupd userID (sID s) (byUser m1)\<rparr>
      in (\<lparr>act_info = (p_info p)\<lparr>info_replaced := replaced\<rparr>,
           act_drain = (case removed of None \<Rightarrow> missingDrain | Some old \<Rightarrow> Some (DrainSession old)),
           act_cleanup = \<lparr>rw_session = removed, rw_reason = RevocationReplaced,
                          rw_handler = onRevoke m, rw_notify = replaced\<rparr>\<rparr>,
          m2, p\<lparr>p_used := True\<rparr>))"

definition activatePreparedStaged ::
  "Manager \<Rightarrow> PreparedSession option \<Rightarrow> id16 option \<Rightarrow> bool \<Rightarrow> gotime
     \<Rightarrow> (proto_error, activation) outcome \<times> effect list \<times> Manager \<times> PreparedSession option" where
  "activatePreparedStaged m prepared expectedOldID allowMissingExpected now =
     (let fail = (\<lambda>e. (Fail e, [], m, prepared))
      in case prepared of None \<Rightarrow> fail ErrSessionPrecondition
      | Some p \<Rightarrow>
        (case p_session p of None \<Rightarrow> fail ErrSessionPrecondition
         | Some r \<Rightarrow>
           (case fmlookup (heap m) r of None \<Rightarrow> fail ErrSessionPrecondition
            | Some s \<Rightarrow>
              if p_owner p \<noteq> mgr_id m \<or> p_used p then fail ErrSessionPrecondition
              else
                let userID = sUserID s; nowMS = unix_milli now; current = fmlookup (byUser m) userID;
                    old = Option.bind current (lookupSession m)
                in if expectedOldID \<noteq> None \<and> current \<noteq> expectedOldID \<and> \<not> (allowMissingExpected \<and> current = None)
                   then fail ErrSessionPrecondition
                   else if expectedOldID \<noteq> None \<and> current \<noteq> None \<and> old = None
                   then fail ErrSessionPrecondition
                   else if expectedOldID \<noteq> None \<and> current \<noteq> None \<and> expiredLocked (snd (the old)) nowMS
                   then
                     let cid = the current;
                         m1 = (upd_sess m (fst (the old)) deactivateLocked)\<lparr>sessions := fmdrop cid (sessions m),
                                 byUser := fmdrop userID (byUser m)\<rparr>;
                         (d, m2) = newExpiryDrainLocked m1 cid (fst (the old))
                     in (Fail ErrSessionExpired, expiry_calls m userID cid d, m2, prepared)
                   else
                     let missingDrain = (if allowMissingExpected \<and> expectedOldID \<noteq> None \<and> current = None
                                         then pendingExpiryDrainLocked m (the expectedOldID) else None)
                     in if expiredLocked s nowMS then fail ErrSessionExpired
                        else case publishPrepared m p r s missingDrain nowMS of
                          (act, m', p') \<Rightarrow> (Return act, [], m', Some p'))))"

definition ActivatePreparedStaged where
  "ActivatePreparedStaged m prepared expectedOldID now =
     activatePreparedStaged m prepared expectedOldID False now"

definition ActivatePreparedStagedAfterNaturalExpiry where
  "ActivatePreparedStagedAfterNaturalExpiry m prepared expectedOldID now =
     activatePreparedStaged m prepared expectedOldID True now"

definition ActivatePrepared ::
  "Manager \<Rightarrow> PreparedSession option \<Rightarrow> id16 option \<Rightarrow> gotime
     \<Rightarrow> (proto_error, SessionInfo) outcome \<times> effect list \<times> Manager \<times> PreparedSession option" where
  "ActivatePrepared m prepared expectedOldID now =
     (case ActivatePreparedStaged m prepared expectedOldID now of
        (Return act, es, m1, p1) \<Rightarrow>
          (let m2 = (case act_drain act of None \<Rightarrow> m1 | Some d \<Rightarrow> run_drain m1 d);
               (es', m3) = runRevocation m2 (act_cleanup act)
           in (Return (act_info act), es @ es', m3, p1))
      | (Fail e, es, m1, p1) \<Rightarrow> (Fail e, es, m1, p1)
      | (Panic, es, m1, p1) \<Rightarrow> (Panic, es, m1, p1))"

definition Info :: "PreparedSession option \<Rightarrow> SessionInfo" where
  "Info p = (case p of None \<Rightarrow> emptyInfo | Some q \<Rightarrow> p_info q)"

subsection \<open>Lookup\<close>

text \<open>The common expiry path of the lookups: the session is deactivated, removed from both
  tables, and its send barrier and expiry callback are produced.\<close>

definition expireSession :: "Manager \<Rightarrow> id16 \<Rightarrow> sref \<Rightarrow> int64 \<Rightarrow> drain \<times> effect list \<times> Manager" where
  "expireSession m sid r userID =
     (let m1 = deleteLocked (upd_sess m r deactivateLocked) sid userID;
          (d, m2) = newExpiryDrainLocked m1 sid r
      in (d, expiry_calls m userID sid d, m2))"

definition getSessionStaged ::
  "Manager \<Rightarrow> id16 \<Rightarrow> gotime \<Rightarrow> sref option \<times> drain option \<times> effect list \<times> Manager" where
  "getSessionStaged m sid now =
     (case lookupSession m sid of
        None \<Rightarrow> (None, pendingExpiryDrainLocked m sid, [], m)
      | Some (r, s) \<Rightarrow>
          if \<not> expiredLocked s (unix_milli now) then (Some r, None, [], m)
          else (case expireSession m sid r (sUserID s) of (d, es, m') \<Rightarrow> (None, Some d, es, m')))"

definition getSession :: "Manager \<Rightarrow> id16 \<Rightarrow> gotime \<Rightarrow> sref option \<times> effect list \<times> Manager" where
  "getSession m sid now = (case getSessionStaged m sid now of (r, _, es, m') \<Rightarrow> (r, es, m'))"

definition GetStaged ::
  "Manager \<Rightarrow> id16 \<Rightarrow> gotime \<Rightarrow> SessionSnapshot option \<times> drain option \<times> effect list \<times> Manager" where
  "GetStaged m sid now =
     (case getSessionStaged m sid now of
        (None, d, es, m') \<Rightarrow> (None, d, es, m')
      | (Some r, d, es, m') \<Rightarrow>
          (case fmlookup (heap m') r of None \<Rightarrow> (None, None, es, m')
           | Some s \<Rightarrow> if \<not> sActive s then (None, None, es, m')
                       else (Some (sessionSnapshot s), None, es, m')))"

definition Get :: "Manager \<Rightarrow> id16 \<Rightarrow> gotime \<Rightarrow> SessionSnapshot option \<times> effect list \<times> Manager" where
  "Get m sid now =
     (case getSessionStaged m sid now of
        (None, _, es, m') \<Rightarrow> (None, es, m')
      | (Some r, _, es, m') \<Rightarrow>
          (case fmlookup (heap m') r of None \<Rightarrow> (None, es, m')
           | Some s \<Rightarrow> if \<not> sActive s then (None, es, m') else (Some (sessionSnapshot s), es, m')))"

definition SessionIDByUser :: "Manager \<Rightarrow> int64 \<Rightarrow> gotime \<Rightarrow> id16 option \<times> effect list \<times> Manager" where
  "SessionIDByUser m userID now =
     (case fmlookup (byUser m) userID of None \<Rightarrow> (None, [], m)
      | Some sid \<Rightarrow>
          (case lookupSession m sid of
             None \<Rightarrow> (None, [], m\<lparr>byUser := fmdrop userID (byUser m)\<rparr>)
           | Some (r, s) \<Rightarrow>
               if \<not> expiredLocked s (unix_milli now) then (Some sid, [], m)
               else (case expireSession m sid r (sUserID s) of (_, es, m') \<Rightarrow> (None, es, m'))))"

subsection \<open>Removal\<close>

definition InvalidateUser :: "Manager \<Rightarrow> int64 \<Rightarrow> gotime \<Rightarrow> nat \<times> effect list \<times> Manager" where
  "InvalidateUser m userID now =
     (case fmlookup (byUser m) userID of None \<Rightarrow> (0, [], m)
      | Some sid \<Rightarrow>
          (case lookupSession m sid of
             None \<Rightarrow> (0, [], m\<lparr>byUser := fmdrop userID (byUser m)\<rparr>)
           | Some (r, s) \<Rightarrow>
               let active = (\<not> expiredLocked s (unix_milli now));
                   m1 = (upd_sess m r deactivateLocked)\<lparr>sessions := fmdrop sid (sessions m),
                           byUser := fmdrop userID (byUser m)\<rparr>;
                   (es, m2) = runRevocation m1 \<lparr>rw_session = Some r, rw_reason = RevocationRevoked,
                                 rw_handler = onRevoke m, rw_notify = active\<rparr>
               in (1, es, m2)))"

definition DeleteStaged ::
  "Manager \<Rightarrow> id16 \<Rightarrow> int64 \<Rightarrow> gotime \<Rightarrow> drain option \<times> (proto_error, unit) outcome \<times> Manager" where
  "DeleteStaged m sid userID now =
     (case lookupSession m sid of
        None \<Rightarrow> (pendingExpiryDrainLocked m sid, Fail ErrSessionNotFound, m)
      | Some (r, s) \<Rightarrow>
          if sUserID s \<noteq> userID then (None, Fail ErrSessionNotOwned, m)
          else let expired = expiredLocked s (unix_milli now);
                   m1 = deleteLocked (upd_sess m r deactivateLocked) sid userID
               in (Some (DrainSession r), if expired then Fail ErrSessionNotFound else Return (), m1))"

definition Delete :: "Manager \<Rightarrow> id16 \<Rightarrow> int64 \<Rightarrow> gotime \<Rightarrow> (proto_error, unit) outcome \<times> Manager" where
  "Delete m sid userID now =
     (case DeleteStaged m sid userID now of (d, res, m1) \<Rightarrow>
        (res, case d of None \<Rightarrow> m1 | Some d' \<Rightarrow> run_drain m1 d'))"

definition revokeStaged ::
  "Manager \<Rightarrow> id16 \<Rightarrow> int64 \<Rightarrow> gotime \<Rightarrow> (proto_error, sref \<times> bool \<times> bool) outcome \<times> Manager" where
  "revokeStaged m sid userID now =
     (case lookupSession m sid of
        None \<Rightarrow> (Fail ErrSessionNotFound, m)
      | Some (r, s) \<Rightarrow>
          if sUserID s \<noteq> userID then (Fail ErrSessionNotOwned, m)
          else (Return (r, \<not> expiredLocked s (unix_milli now), onRevoke m),
                deleteLocked (upd_sess m r deactivateLocked) sid userID))"

definition revocationCleanup :: "sref \<Rightarrow> bool \<Rightarrow> bool \<Rightarrow> revocationWork" where
  "revocationCleanup r active handler =
     \<lparr>rw_session = Some r, rw_reason = RevocationRevoked, rw_handler = handler, rw_notify = active\<rparr>"

text \<open>A staged cleanup is either the revocation work or, for a session that natural expiry
  already removed, its pending drain.\<close>

datatype cleanup = CleanupRevocation revocationWork | CleanupDrain drain

definition run_cleanup :: "Manager \<Rightarrow> cleanup \<Rightarrow> effect list \<times> Manager" where
  "run_cleanup m c = (case c of CleanupRevocation w \<Rightarrow> runRevocation m w | CleanupDrain d \<Rightarrow> ([], run_drain m d))"

definition RevokeStaged ::
  "Manager \<Rightarrow> id16 \<Rightarrow> int64 \<Rightarrow> gotime \<Rightarrow> cleanup option \<times> (proto_error, unit) outcome \<times> Manager" where
  "RevokeStaged m sid userID now =
     (case revokeStaged m sid userID now of
        (Return (r, active, handler), m1) \<Rightarrow>
          (Some (CleanupRevocation (revocationCleanup r active handler)),
           if \<not> active then Fail ErrSessionNotFound else Return (), m1)
      | (Fail e, m1) \<Rightarrow>
          ((if e = ErrSessionNotFound then map_option CleanupDrain (pendingExpiryDrainLocked m1 sid) else None),
           Fail e, m1)
      | (Panic, m1) \<Rightarrow> (None, Panic, m1))"

definition RevokeStagedForPublication ::
  "Manager \<Rightarrow> id16 \<Rightarrow> int64 \<Rightarrow> gotime
     \<Rightarrow> drain option \<times> revocationWork option \<times> (proto_error, unit) outcome \<times> Manager" where
  "RevokeStagedForPublication m sid userID now =
     (case revokeStaged m sid userID now of
        (Return (r, active, handler), m1) \<Rightarrow>
          (Some (DrainSession r), Some (revocationCleanup r active handler),
           if \<not> active then Fail ErrSessionNotFound else Return (), m1)
      | (Fail e, m1) \<Rightarrow>
          ((if e = ErrSessionNotFound then pendingExpiryDrainLocked m1 sid else None), None, Fail e, m1)
      | (Panic, m1) \<Rightarrow> (None, None, Panic, m1))"

definition Revoke :: "Manager \<Rightarrow> id16 \<Rightarrow> int64 \<Rightarrow> gotime \<Rightarrow> (proto_error, unit) outcome \<times> effect list \<times> Manager" where
  "Revoke m sid userID now =
     (case RevokeStaged m sid userID now of
        (None, res, m1) \<Rightarrow> (res, [], m1)
      | (Some c, res, m1) \<Rightarrow> (case run_cleanup m1 c of (es, m2) \<Rightarrow> (res, es, m2)))"

text \<open>\<^verbatim>\<open>Purge\<close> scans the table; Go's iteration order is open, the model takes ascending ids.  The
  callbacks run after the scan.\<close>

fun purgeScan :: "Manager \<Rightarrow> int \<Rightarrow> id16 list \<Rightarrow> effect list \<times> nat \<times> Manager" where
  "purgeScan m nowMS [] = ([], 0, m)"
| "purgeScan m nowMS (sid # rest) =
     (case lookupSession m sid of
        None \<Rightarrow> purgeScan m nowMS rest
      | Some (r, s) \<Rightarrow>
          if \<not> expiredLocked s nowMS then purgeScan m nowMS rest
          else (case expireSession m sid r (sUserID s) of (_, es, m1) \<Rightarrow>
                  case purgeScan m1 nowMS rest of (es', n, m2) \<Rightarrow> (es @ es', Suc n, m2)))"

definition Purge :: "Manager \<Rightarrow> gotime \<Rightarrow> nat \<times> effect list \<times> Manager" where
  "Purge m now =
     (case purgeScan m (unix_milli now) (sorted_list_of_fset (fmdom (sessions m))) of
        (es, n, m') \<Rightarrow> (n, es, m'))"

definition LenSessions :: "Manager \<Rightarrow> nat" where
  "LenSessions m = gm_len (sessions m)"

subsection \<open>The running session layer\<close>

text \<open>Every operation of the session layer, issued in any order by the HTTP handlers, the UDP
  reader, the senders and the purge loop.  \<open>tokens_of\<close> are the prepared sessions that callers hold;
  the label of a step lists the (session id, sequence number) pairs it reserves for sealing.
  Freshness of a session id is the assumption on \<^verbatim>\<open>crypto/rand\<close>: 16 random bytes do not
  repeat an earlier id.\<close>

type_synonym nonce_use = "id16 \<times> uint64"

record SessionSystem =
  mgr_of :: Manager
  tokens_of :: "PreparedSession list"

fun effect_nonces :: "effect list \<Rightarrow> nonce_use list" where
  "effect_nonces [] = []"
| "effect_nonces (RevokeCall _ snap # es) = (snap_id snap, snap_seq snap) # effect_nonces es"
| "effect_nonces (_ # es) = effect_nonces es"

definition fresh_id :: "Manager \<Rightarrow> id16 \<Rightarrow> bool" where
  "fresh_id m sid \<longleftrightarrow> (\<forall>s \<in> fmran' (heap m). sID s \<noteq> sid)"

inductive sys_step :: "SessionSystem \<Rightarrow> nonce_use list \<Rightarrow> SessionSystem \<Rightarrow> bool" where
  prepare: "\<lbrakk>Prepare gcm hkdf m u d enc (Some sid) key now clk = (Return p, m'); fresh_id m sid\<rbrakk>
     \<Longrightarrow> sys_step \<lparr>mgr_of = m, tokens_of = ps\<rparr> [] \<lparr>mgr_of = m', tokens_of = ps @ [p]\<rparr>"
| activate: "\<lbrakk>i < length ps; activatePreparedStaged m (Some (ps ! i)) old allow now = (res, es, m', Some p')\<rbrakk>
     \<Longrightarrow> sys_step \<lparr>mgr_of = m, tokens_of = ps\<rparr> (effect_nonces es) \<lparr>mgr_of = m', tokens_of = ps[i := p']\<rparr>"
| lookup: "getSessionStaged m sid now = (r, d, es, m')
     \<Longrightarrow> sys_step \<lparr>mgr_of = m, tokens_of = ps\<rparr> (effect_nonces es) \<lparr>mgr_of = m', tokens_of = ps\<rparr>"
| by_user: "SessionIDByUser m u now = (r, es, m')
     \<Longrightarrow> sys_step \<lparr>mgr_of = m, tokens_of = ps\<rparr> (effect_nonces es) \<lparr>mgr_of = m', tokens_of = ps\<rparr>"
| invalidate: "InvalidateUser m u now = (n, es, m')
     \<Longrightarrow> sys_step \<lparr>mgr_of = m, tokens_of = ps\<rparr> (effect_nonces es) \<lparr>mgr_of = m', tokens_of = ps\<rparr>"
| delete: "DeleteStaged m sid u now = (d, res, m')
     \<Longrightarrow> sys_step \<lparr>mgr_of = m, tokens_of = ps\<rparr> [] \<lparr>mgr_of = m', tokens_of = ps\<rparr>"
| revoke: "revokeStaged m sid u now = (res, m')
     \<Longrightarrow> sys_step \<lparr>mgr_of = m, tokens_of = ps\<rparr> [] \<lparr>mgr_of = m', tokens_of = ps\<rparr>"
| cleanup: "run_cleanup m c = (es, m')
     \<Longrightarrow> sys_step \<lparr>mgr_of = m, tokens_of = ps\<rparr> (effect_nonces es) \<lparr>mgr_of = m', tokens_of = ps\<rparr>"
| drain: "sys_step \<lparr>mgr_of = m, tokens_of = ps\<rparr> [] \<lparr>mgr_of = run_drain m d, tokens_of = ps\<rparr>"
| purge: "Purge m now = (n, es, m')
     \<Longrightarrow> sys_step \<lparr>mgr_of = m, tokens_of = ps\<rparr> (effect_nonces es) \<lparr>mgr_of = m', tokens_of = ps\<rparr>"
| receive: "\<lbrakk>fmlookup (heap m) r = Some s; acceptPacket s seq now remote = (res, s')\<rbrakk>
     \<Longrightarrow> sys_step \<lparr>mgr_of = m, tokens_of = ps\<rparr> [] \<lparr>mgr_of = m\<lparr>heap := fmupd r s' (heap m)\<rparr>, tokens_of = ps\<rparr>"
| send: "\<lbrakk>fmlookup (heap m) r = Some s; reserveSendSeq s = (Return (seq, enc, key, remote), s')\<rbrakk>
     \<Longrightarrow> sys_step \<lparr>mgr_of = m, tokens_of = ps\<rparr> [(sID s, seq)] \<lparr>mgr_of = m\<lparr>heap := fmupd r s' (heap m)\<rparr>, tokens_of = ps\<rparr>"
| send_refused: "\<lbrakk>fmlookup (heap m) r = Some s; reserveSendSeq s = (Fail e, s')\<rbrakk>
     \<Longrightarrow> sys_step \<lparr>mgr_of = m, tokens_of = ps\<rparr> [] \<lparr>mgr_of = m\<lparr>heap := fmupd r s' (heap m)\<rparr>, tokens_of = ps\<rparr>"
| set_revocation: "sys_step \<lparr>mgr_of = m, tokens_of = ps\<rparr> [] \<lparr>mgr_of = SetRevocationHandler m h, tokens_of = ps\<rparr>"
| set_expiry: "sys_step \<lparr>mgr_of = m, tokens_of = ps\<rparr> [] \<lparr>mgr_of = SetExpiryHandler m h, tokens_of = ps\<rparr>"
| set_barrier: "sys_step \<lparr>mgr_of = m, tokens_of = ps\<rparr> [] \<lparr>mgr_of = SetExpiryBarrierHandler m h, tokens_of = ps\<rparr>"

inductive sys_run :: "SessionSystem \<Rightarrow> nonce_use list \<Rightarrow> SessionSystem \<Rightarrow> bool" where
  run_refl: "sys_run y [] y"
| run_step: "\<lbrakk>sys_run x us y; sys_step y vs z\<rbrakk> \<Longrightarrow> sys_run x (us @ vs) z"

subsection \<open>The abstract session table\<close>

text \<open>What the operations do to the registry, one primitive change at a time.\<close>

definition same_session :: "Session \<Rightarrow> Session \<Rightarrow> bool" where
  "same_session s t \<longleftrightarrow> sID t = sID s \<and> sUserID t = sUserID s \<and> sEncrypted t = sEncrypted s \<and>
     sC2S t = sC2S s \<and> sS2C t = sS2C s \<and> sActive t = sActive s"

definition remove_entry :: "Manager \<Rightarrow> id16 \<Rightarrow> sref \<Rightarrow> Session \<Rightarrow> Manager" where
  "remove_entry m sid r s = m\<lparr>heap := fmupd r (deactivateLocked s) (heap m),
     sessions := fmdrop sid (sessions m), byUser := fmdrop (sUserID s) (byUser m)\<rparr>"

definition publish_entry :: "Manager \<Rightarrow> sref \<Rightarrow> Session \<Rightarrow> Manager" where
  "publish_entry m r s = m\<lparr>sessions := fmupd (sID s) r (sessions m), byUser := fmupd (sUserID s) (sID s) (byUser m)\<rparr>"

definition same_tables :: "Manager \<Rightarrow> Manager \<Rightarrow> bool" where
  "same_tables m m' \<longleftrightarrow> heap m' = heap m \<and> next_ref m' = next_ref m \<and> sessions m' = sessions m \<and>
     byUser m' = byUser m \<and> mgr_id m' = mgr_id m"

definition table_ok :: "Manager \<Rightarrow> bool" where
  "table_ok m \<longleftrightarrow>
     (\<forall>sid r. fmlookup (sessions m) sid = Some r \<longrightarrow>
        (\<exists>s. fmlookup (heap m) r = Some s \<and> sID s = sid \<and> sActive s \<and> fmlookup (byUser m) (sUserID s) = Some sid)) \<and>
     (\<forall>u sid. fmlookup (byUser m) u = Some sid \<longrightarrow>
        (\<exists>r s. fmlookup (sessions m) sid = Some r \<and> fmlookup (heap m) r = Some s \<and> sUserID s = u)) \<and>
     (\<forall>r s. fmlookup (heap m) r = Some s \<longrightarrow> r < next_ref m) \<and>
     (\<forall>r s q t. fmlookup (heap m) r = Some s \<longrightarrow> fmlookup (heap m) q = Some t \<longrightarrow> sID s = sID t \<longrightarrow> r = q)"

definition token_ok :: "Manager \<Rightarrow> PreparedSession \<Rightarrow> bool" where
  "token_ok m p \<longleftrightarrow> p_owner p = mgr_id m \<and>
     (\<exists>r s. p_session p = Some r \<and> fmlookup (heap m) r = Some s \<and>
        (p_used p \<or> sActive s \<and> fmlookup (sessions m) (sID s) = None))"

text \<open>Every active session is published or still held by an unused token.\<close>

definition active_accounted :: "Manager \<Rightarrow> PreparedSession list \<Rightarrow> bool" where
  "active_accounted m ps \<longleftrightarrow> (\<forall>r s. fmlookup (heap m) r = Some s \<longrightarrow> sActive s \<longrightarrow>
     fmlookup (sessions m) (sID s) = Some r \<or> (\<exists>p \<in> set ps. \<not> p_used p \<and> p_session p = Some r))"

definition system_ok :: "SessionSystem \<Rightarrow> bool" where
  "system_ok x \<longleftrightarrow> table_ok (mgr_of x) \<and> (\<forall>p \<in> set (tokens_of x). token_ok (mgr_of x) p) \<and>
     distinct (map p_session (tokens_of x)) \<and> active_accounted (mgr_of x) (tokens_of x)"

inductive table_step :: "SessionSystem \<Rightarrow> nonce_use list \<Rightarrow> SessionSystem \<Rightarrow> bool" where
  frame: "same_tables m m' \<Longrightarrow> table_step \<lparr>mgr_of = m, tokens_of = ps\<rparr> [] \<lparr>mgr_of = m', tokens_of = ps\<rparr>"
| touch: "\<lbrakk>fmlookup (heap m) r = Some s; same_session s t; sSendSeq t = sSendSeq s\<rbrakk>
     \<Longrightarrow> table_step \<lparr>mgr_of = m, tokens_of = ps\<rparr> [] \<lparr>mgr_of = m\<lparr>heap := fmupd r t (heap m)\<rparr>, tokens_of = ps\<rparr>"
| reserve: "\<lbrakk>fmlookup (heap m) r = Some s; sSendSeq s \<noteq> - 1; us = [] \<or> us = [(sID s, sSendSeq s + 1)]\<rbrakk>
     \<Longrightarrow> table_step \<lparr>mgr_of = m, tokens_of = ps\<rparr> us
           \<lparr>mgr_of = m\<lparr>heap := fmupd r (s\<lparr>sSendSeq := sSendSeq s + 1\<rparr>) (heap m)\<rparr>, tokens_of = ps\<rparr>"
| remove: "\<lbrakk>fmlookup (sessions m) sid = Some r; fmlookup (heap m) r = Some s\<rbrakk>
     \<Longrightarrow> table_step \<lparr>mgr_of = m, tokens_of = ps\<rparr> [] \<lparr>mgr_of = remove_entry m sid r s, tokens_of = ps\<rparr>"
| alloc: "\<lbrakk>fresh_id m (sID s); sActive s; sSendSeq s = 0; p_owner p = mgr_id m; p_session p = Some (next_ref m); \<not> p_used p\<rbrakk>
     \<Longrightarrow> table_step \<lparr>mgr_of = m, tokens_of = ps\<rparr> []
           \<lparr>mgr_of = m\<lparr>heap := fmupd (next_ref m) s (heap m), next_ref := Suc (next_ref m)\<rparr>, tokens_of = ps @ [p]\<rparr>"
| publish: "\<lbrakk>i < length ps; \<not> p_used (ps ! i); p_session (ps ! i) = Some r; fmlookup (heap m) r = Some s;
             fmlookup (byUser m) (sUserID s) = None\<rbrakk>
     \<Longrightarrow> table_step \<lparr>mgr_of = m, tokens_of = ps\<rparr> []
           \<lparr>mgr_of = publish_entry m r s, tokens_of = ps[i := (ps ! i)\<lparr>p_used := True\<rparr>]\<rparr>"

inductive table_steps :: "SessionSystem \<Rightarrow> nonce_use list \<Rightarrow> SessionSystem \<Rightarrow> bool" where
  steps_done: "table_steps x [] x"
| steps_more: "\<lbrakk>table_step x us y; table_steps y vs z; ws = us @ vs\<rbrakk> \<Longrightarrow> table_steps x ws z"

section \<open>Theorems\<close>

lemma table_steps_trans:
  "\<lbrakk>table_steps x us y; table_steps y vs z\<rbrakk> \<Longrightarrow> table_steps x (us @ vs) z"
  by (induction rule: table_steps.induct) (auto intro: table_steps.steps_more)

lemma table_steps_one: "table_step x us y \<Longrightarrow> table_steps x us y"
  by (auto intro: table_steps.intros)

lemma table_steps_trans0:
  "\<lbrakk>table_steps x [] y; table_steps y us z\<rbrakk> \<Longrightarrow> table_steps x us z"
  using table_steps_trans [of x "[]"] by simp

subsection \<open>The table invariant\<close>

lemma table_okI:
  assumes "\<And>sid r. fmlookup (sessions m) sid = Some r \<Longrightarrow>
        \<exists>s. fmlookup (heap m) r = Some s \<and> sID s = sid \<and> sActive s \<and> fmlookup (byUser m) (sUserID s) = Some sid"
    and "\<And>u sid. fmlookup (byUser m) u = Some sid \<Longrightarrow>
        \<exists>r s. fmlookup (sessions m) sid = Some r \<and> fmlookup (heap m) r = Some s \<and> sUserID s = u"
    and "\<And>r s. fmlookup (heap m) r = Some s \<Longrightarrow> r < next_ref m"
    and "\<And>r s q t. \<lbrakk>fmlookup (heap m) r = Some s; fmlookup (heap m) q = Some t; sID s = sID t\<rbrakk> \<Longrightarrow> r = q"
  shows "table_ok m"
  unfolding table_ok_def using assms by blast

lemma table_okD:
  assumes "table_ok m"
  shows table_session: "fmlookup (sessions m) sid = Some r \<Longrightarrow>
        \<exists>s. fmlookup (heap m) r = Some s \<and> sID s = sid \<and> sActive s \<and> fmlookup (byUser m) (sUserID s) = Some sid"
    and table_user: "fmlookup (byUser m) u = Some sid \<Longrightarrow>
        \<exists>r s. fmlookup (sessions m) sid = Some r \<and> fmlookup (heap m) r = Some s \<and> sUserID s = u"
    and table_fresh: "fmlookup (heap m) r = Some s \<Longrightarrow> r < next_ref m"
    and table_inj: "\<lbrakk>fmlookup (heap m) r = Some s; fmlookup (heap m) q = Some t; sID s = sID t\<rbrakk> \<Longrightarrow> r = q"
  using assms unfolding table_ok_def by blast+

lemma table_user_ref:
  assumes "table_ok m" "fmlookup (byUser m) u = Some sid" "fmlookup (sessions m) sid = Some r" "fmlookup (heap m) r = Some s"
  shows "sUserID s = u"
  using table_user [OF assms(1,2)] assms(3,4) by auto

lemma table_session_ref:
  assumes "table_ok m" "fmlookup (sessions m) sid = Some r" "fmlookup (heap m) r = Some s"
  shows "sID s = sid \<and> sActive s \<and> fmlookup (byUser m) (sUserID s) = Some sid"
  using table_session [OF assms(1,2)] assms(3) by auto

text \<open>Writing an object in place keeps the invariant when its identity and activity stay.\<close>

lemma table_ok_touch:
  assumes "table_ok m" "fmlookup (heap m) r = Some s" "same_session s t"
  shows "table_ok (m\<lparr>heap := fmupd r t (heap m)\<rparr>)"
proof (rule table_okI)
  fix sid q assume "fmlookup (sessions (m\<lparr>heap := fmupd r t (heap m)\<rparr>)) sid = Some q"
  then show "\<exists>s. fmlookup (heap (m\<lparr>heap := fmupd r t (heap m)\<rparr>)) q = Some s \<and> sID s = sid \<and> sActive s \<and>
      fmlookup (byUser (m\<lparr>heap := fmupd r t (heap m)\<rparr>)) (sUserID s) = Some sid"
    using table_session [OF assms(1), of sid q] assms(2,3) by (auto simp: same_session_def)
next
  fix u sid assume "fmlookup (byUser (m\<lparr>heap := fmupd r t (heap m)\<rparr>)) u = Some sid"
  then show "\<exists>q s. fmlookup (sessions (m\<lparr>heap := fmupd r t (heap m)\<rparr>)) sid = Some q \<and>
      fmlookup (heap (m\<lparr>heap := fmupd r t (heap m)\<rparr>)) q = Some s \<and> sUserID s = u"
    using table_user [OF assms(1), of u sid] assms(2,3) by (auto simp: same_session_def)
qed (use table_fresh [OF assms(1)] table_inj [OF assms(1)] assms(2,3) in \<open>auto simp: same_session_def split: if_splits\<close>)

lemma table_ok_remove:
  assumes ok: "table_ok m" and r: "fmlookup (sessions m) sid = Some r" "fmlookup (heap m) r = Some s"
  shows "table_ok (remove_entry m sid r s)"
proof (rule table_okI)
  note s = table_session_ref [OF ok r]
  fix i q assume "fmlookup (sessions (remove_entry m sid r s)) i = Some q"
  then have i: "i \<noteq> sid" "fmlookup (sessions m) i = Some q" by (auto simp: remove_entry_def split: if_splits)
  then obtain t where t: "fmlookup (heap m) q = Some t" "sID t = i" "sActive t" "fmlookup (byUser m) (sUserID t) = Some i"
    using table_session [OF ok i(2)] by blast
  then have "q \<noteq> r" "sUserID t \<noteq> sUserID s" using s r i by auto
  then show "\<exists>s'. fmlookup (heap (remove_entry m sid r s)) q = Some s' \<and> sID s' = i \<and> sActive s' \<and>
      fmlookup (byUser (remove_entry m sid r s)) (sUserID s') = Some i"
    using t by (simp add: remove_entry_def)
next
  note s = table_session_ref [OF ok r]
  fix u i assume "fmlookup (byUser (remove_entry m sid r s)) u = Some i"
  then have u: "u \<noteq> sUserID s" "fmlookup (byUser m) u = Some i" by (auto simp: remove_entry_def split: if_splits)
  then obtain q t where q: "fmlookup (sessions m) i = Some q" "fmlookup (heap m) q = Some t" "sUserID t = u"
    using table_user [OF ok u(2)] by blast
  then have "i \<noteq> sid" "q \<noteq> r" using u r by auto
  then show "\<exists>q s'. fmlookup (sessions (remove_entry m sid r s)) i = Some q \<and>
      fmlookup (heap (remove_entry m sid r s)) q = Some s' \<and> sUserID s' = u"
    using q by (simp add: remove_entry_def)
qed (use table_fresh [OF ok] table_inj [OF ok] r in \<open>auto simp: remove_entry_def deactivateLocked_def split: if_splits\<close>)

lemma table_ok_alloc:
  assumes ok: "table_ok m" and "fresh_id m (sID s)"
  shows "table_ok (m\<lparr>heap := fmupd (next_ref m) s (heap m), next_ref := Suc (next_ref m)\<rparr>)"
proof (rule table_okI)
  have n: "fmlookup (heap m) r = Some t \<Longrightarrow> r \<noteq> next_ref m" for r t using table_fresh [OF ok] by fastforce
  let ?m = "m\<lparr>heap := fmupd (next_ref m) s (heap m), next_ref := Suc (next_ref m)\<rparr>"
  show "\<exists>s. fmlookup (heap ?m) r = Some s \<and> sID s = sid \<and> sActive s \<and> fmlookup (byUser ?m) (sUserID s) = Some sid"
    if "fmlookup (sessions ?m) sid = Some r" for sid r
    using table_session [OF ok, of sid r] that n by auto
  show "\<exists>r s. fmlookup (sessions ?m) sid = Some r \<and> fmlookup (heap ?m) r = Some s \<and> sUserID s = u"
    if "fmlookup (byUser ?m) u = Some sid" for u sid
    using table_user [OF ok, of u sid] that n by auto
qed (use table_fresh [OF ok] table_inj [OF ok] assms(2) in
      \<open>auto simp: fresh_id_def fmran'_def ran_def split: if_splits dest: less_SucI\<close>)

lemma table_ok_publish:
  assumes ok: "table_ok m" and r: "fmlookup (heap m) r = Some s" and a: "sActive s"
    and "fmlookup (byUser m) (sUserID s) = None" "fmlookup (sessions m) (sID s) = None"
  shows "table_ok (publish_entry m r s)"
proof (rule table_okI)
  show "\<exists>t. fmlookup (heap (publish_entry m r s)) q = Some t \<and> sID t = sid \<and> sActive t \<and>
      fmlookup (byUser (publish_entry m r s)) (sUserID t) = Some sid"
    if "fmlookup (sessions (publish_entry m r s)) sid = Some q" for sid q
  proof (cases "sid = sID s")
    case False
    with that obtain t where t: "fmlookup (heap m) q = Some t" "sID t = sid" "sActive t" "fmlookup (byUser m) (sUserID t) = Some sid"
      using table_session [OF ok, of sid q] by (auto simp: publish_entry_def)
    then have "sUserID t \<noteq> sUserID s" using assms by auto
    with t show ?thesis by (simp add: publish_entry_def)
  qed (use that assms in \<open>simp add: publish_entry_def\<close>)
  show "\<exists>q t. fmlookup (sessions (publish_entry m r s)) sid = Some q \<and>
      fmlookup (heap (publish_entry m r s)) q = Some t \<and> sUserID t = u"
    if "fmlookup (byUser (publish_entry m r s)) u = Some sid" for u sid
    using table_user [OF ok, of u sid] that assms by (auto simp: publish_entry_def split: if_splits)
qed (use table_fresh [OF ok] table_inj [OF ok] in \<open>auto simp: publish_entry_def\<close>)

subsection \<open>The system invariant\<close>

lemma system_okI:
  assumes "table_ok m" "\<And>p. p \<in> set ps \<Longrightarrow> token_ok m p" "distinct (map p_session ps)" "active_accounted m ps"
  shows "system_ok \<lparr>mgr_of = m, tokens_of = ps\<rparr>"
  using assms by (simp add: system_ok_def)

lemma system_okD:
  assumes "system_ok \<lparr>mgr_of = m, tokens_of = ps\<rparr>"
  shows "table_ok m" "\<And>p. p \<in> set ps \<Longrightarrow> token_ok m p" "distinct (map p_session ps)" "active_accounted m ps"
  using assms by (simp_all add: system_ok_def)

lemma table_ok_frame: "\<lbrakk>same_tables m m'; table_ok m\<rbrakk> \<Longrightarrow> table_ok m'"
  by (simp add: same_tables_def table_ok_def)

lemma token_ok_frame: "\<lbrakk>same_tables m m'; token_ok m p\<rbrakk> \<Longrightarrow> token_ok m' p"
  by (simp add: same_tables_def token_ok_def)

lemma token_ok_touch:
  "\<lbrakk>token_ok m p; fmlookup (heap m) r = Some s; same_session s t\<rbrakk> \<Longrightarrow> token_ok (m\<lparr>heap := fmupd r t (heap m)\<rparr>) p"
  by (auto simp: token_ok_def same_session_def)

lemma accounted_touch:
  "\<lbrakk>active_accounted m ps; fmlookup (heap m) r = Some s; same_session s t\<rbrakk>
   \<Longrightarrow> active_accounted (m\<lparr>heap := fmupd r t (heap m)\<rparr>) ps"
  by (auto simp: active_accounted_def same_session_def)

lemma system_ok_touch:
  assumes "system_ok \<lparr>mgr_of = m, tokens_of = ps\<rparr>" "fmlookup (heap m) r = Some s" "same_session s t"
  shows "system_ok \<lparr>mgr_of = m\<lparr>heap := fmupd r t (heap m)\<rparr>, tokens_of = ps\<rparr>"
  using system_okD [OF assms(1)] assms(2,3)
  by (intro system_okI table_ok_touch token_ok_touch accounted_touch)

lemma token_ok_remove:
  assumes "table_ok m" "token_ok m p" "fmlookup (sessions m) sid = Some r" "fmlookup (heap m) r = Some s"
  shows "token_ok (remove_entry m sid r s) p"
  using assms(2) table_session_ref [OF assms(1,3,4)] assms(3,4)
  by (auto simp: token_ok_def remove_entry_def deactivateLocked_def)

lemma accounted_remove:
  assumes "table_ok m" "active_accounted m ps" "fmlookup (sessions m) sid = Some r" "fmlookup (heap m) r = Some s"
  shows "active_accounted (remove_entry m sid r s) ps"
  unfolding active_accounted_def
proof (intro allI impI)
  fix q t assume "fmlookup (heap (remove_entry m sid r s)) q = Some t" "sActive t"
  then have t: "q \<noteq> r" "fmlookup (heap m) q = Some t" "sActive t"
    by (auto simp: remove_entry_def deactivateLocked_def split: if_splits)
  then have "sID t \<noteq> sid" using table_session_ref [OF assms(1,3,4)] table_inj [OF assms(1) _ assms(4), of q t] by auto
  with t assms(2) show "fmlookup (sessions (remove_entry m sid r s)) (sID t) = Some q \<or>
      (\<exists>p\<in>set ps. \<not> p_used p \<and> p_session p = Some q)"
    by (auto simp: active_accounted_def remove_entry_def)
qed

lemma token_ref_less:
  assumes "table_ok m" "token_ok m p" "p_session p = Some r"
  shows "r < next_ref m"
  using assms table_fresh [OF assms(1)] by (auto simp: token_ok_def)

lemma system_ok_alloc:
  assumes ok: "system_ok \<lparr>mgr_of = m, tokens_of = ps\<rparr>" and s: "fresh_id m (sID s)" "sActive s"
    and p: "p_owner p = mgr_id m" "p_session p = Some (next_ref m)" "\<not> p_used p"
  shows "system_ok \<lparr>mgr_of = m\<lparr>heap := fmupd (next_ref m) s (heap m), next_ref := Suc (next_ref m)\<rparr>, tokens_of = ps @ [p]\<rparr>"
    (is "system_ok \<lparr>mgr_of = ?m, tokens_of = _\<rparr>")
proof (rule system_okI)
  note ok = system_okD [OF ok]
  show "table_ok ?m" by (rule table_ok_alloc) (use ok s in auto)
  have "fmlookup (sessions m) (sID s) = None"
    using table_session [OF ok(1), of "sID s"] s(1) by (cases "fmlookup (sessions m) (sID s)") (auto simp: fresh_id_def fmran'I)
  then show "token_ok ?m q" if "q \<in> set (ps @ [p])" for q
    using that ok(2) [of q] token_ref_less [OF ok(1), of q] p s by (fastforce simp: token_ok_def)
  have "p_session q \<noteq> Some (next_ref m)" if "q \<in> set ps" for q
    using that ok(2) [of q] token_ref_less [OF ok(1), of q] by fastforce
  then have "Some (next_ref m) \<notin> p_session ` set ps" by (metis imageE)
  then show "distinct (map p_session (ps @ [p]))" using ok(3) p by simp
  show "active_accounted ?m (ps @ [p])"
    using ok(4) p by (auto simp: active_accounted_def)
qed

lemma system_ok_publish:
  assumes ok: "system_ok \<lparr>mgr_of = m, tokens_of = ps\<rparr>" and i: "i < length ps" "\<not> p_used (ps ! i)" "p_session (ps ! i) = Some r"
    and s: "fmlookup (heap m) r = Some s" "fmlookup (byUser m) (sUserID s) = None"
  shows "system_ok \<lparr>mgr_of = publish_entry m r s, tokens_of = ps[i := (ps ! i)\<lparr>p_used := True\<rparr>]\<rparr>"
proof (rule system_okI)
  note ok = system_okD [OF ok]
  have t: "token_ok m (ps ! i)" using ok(2) i by simp
  then have a: "sActive s" "fmlookup (sessions m) (sID s) = None" using i s by (auto simp: token_ok_def)
  show "table_ok (publish_entry m r s)" by (rule table_ok_publish) (use ok s a in auto)
  have other: "token_ok (publish_entry m r s) p" if p: "p \<in> set ps" "p_used p \<or> p_session p \<noteq> Some r" for p
  proof -
    obtain q t where q: "p_session p = Some q" "fmlookup (heap m) q = Some t" "p_used p \<or> sActive t \<and> fmlookup (sessions m) (sID t) = None"
      using ok(2) [OF p(1)] by (auto simp: token_ok_def)
    then have "p_used p \<or> sID t \<noteq> sID s" using table_inj [OF ok(1) q(2) s(1)] p by auto
    with q ok(2) [OF p(1)] show ?thesis by (auto simp: token_ok_def publish_entry_def)
  qed
  show "token_ok (publish_entry m r s) p" if "p \<in> set (ps[i := (ps ! i)\<lparr>p_used := True\<rparr>])" for p
  proof -
    from that obtain j where j: "j < length ps" "p = (if j = i then (ps ! i)\<lparr>p_used := True\<rparr> else ps ! j)"
      by (auto simp: in_set_conv_nth nth_list_update)
    then have "j = i \<or> p_session p \<noteq> Some r"
      using nth_eq_iff_index_eq [OF ok(3), of i j] i by auto
    then show ?thesis using j i t other [of p] by (auto simp: token_ok_def publish_entry_def split: if_splits)
  qed
  have "map p_session (ps[i := (ps ! i)\<lparr>p_used := True\<rparr>]) = map p_session ps"
    by (simp add: map_update) (metis i(1) list_update_id map_update nth_map)
  then show "distinct (map p_session (ps[i := (ps ! i)\<lparr>p_used := True\<rparr>]))" using ok(3) by simp
  show "active_accounted (publish_entry m r s) (ps[i := (ps ! i)\<lparr>p_used := True\<rparr>])"
    unfolding active_accounted_def
  proof (intro allI impI)
    fix q t assume qt: "fmlookup (heap (publish_entry m r s)) q = Some t" "sActive t"
    then have q: "fmlookup (heap m) q = Some t" by (simp add: publish_entry_def)
    show "fmlookup (sessions (publish_entry m r s)) (sID t) = Some q \<or>
        (\<exists>p\<in>set (ps[i := (ps ! i)\<lparr>p_used := True\<rparr>]). \<not> p_used p \<and> p_session p = Some q)"
    proof (cases "q = r")
      case True
      with q s show ?thesis by (simp add: publish_entry_def)
    next
      case False
      then have "sID t \<noteq> sID s" using table_inj [OF ok(1) q s(1)] by auto
      moreover have "p \<in> set (ps[i := (ps ! i)\<lparr>p_used := True\<rparr>])" if "p \<in> set ps" "p_session p = Some q" for p
      proof -
        from that(1) obtain j where "j < length ps" "p = ps ! j" by (auto simp: in_set_conv_nth)
        with that(2) False i show ?thesis by (auto simp: in_set_conv_nth nth_list_update intro!: exI [of _ j])
      qed
      ultimately show ?thesis using ok(4) q qt(2) by (fastforce simp: active_accounted_def publish_entry_def)
    qed
  qed
qed

lemma same_session_refl [simp]: "same_session s s"
  by (simp add: same_session_def)

lemma table_step_ok: "\<lbrakk>table_step x us y; system_ok x\<rbrakk> \<Longrightarrow> system_ok y"
proof (induction rule: table_step.induct)
  case (frame m m' ps)
  then show ?case
    using table_ok_frame token_ok_frame by (auto simp: system_ok_def active_accounted_def same_tables_def table_ok_def token_ok_def)
next
  case (touch m r s t ps)
  then show ?case by (auto intro: system_ok_touch)
next
  case (reserve m r s us ps)
  then show ?case by (intro system_ok_touch) (auto simp: same_session_def)
next
  case (remove m sid r s ps)
  then show ?case
    using system_okD [OF remove.prems]
    by (intro system_okI table_ok_remove token_ok_remove accounted_remove) auto
next
  case (alloc m s p ps)
  then show ?case by (intro system_ok_alloc)
next
  case (publish i ps r m s)
  then show ?case by (intro system_ok_publish)
qed

lemma table_steps_ok: "\<lbrakk>table_steps x us y; system_ok x\<rbrakk> \<Longrightarrow> system_ok y"
  by (induction rule: table_steps.induct) (auto dest: table_step_ok)

subsection \<open>The history of a session object\<close>

text \<open>An object never changes owner or keys, never becomes active again, and its send counter
  never goes down.\<close>

definition evolves :: "Session \<Rightarrow> Session \<Rightarrow> bool" where
  "evolves s t \<longleftrightarrow> sID t = sID s \<and> sUserID t = sUserID s \<and> sEncrypted t = sEncrypted s \<and>
     sC2S t = sC2S s \<and> sS2C t = sS2C s \<and> (sActive t \<longrightarrow> sActive s) \<and> sSendSeq s \<le> sSendSeq t"

lemma evolves_refl [simp]: "evolves s s"
  by (simp add: evolves_def)

lemma evolves_trans: "\<lbrakk>evolves s t; evolves t u\<rbrakk> \<Longrightarrow> evolves s u"
  unfolding evolves_def by (metis order_trans)

lemma table_step_history:
  "\<lbrakk>table_step x us y; system_ok x; fmlookup (heap (mgr_of x)) q = Some v\<rbrakk>
   \<Longrightarrow> \<exists>w. fmlookup (heap (mgr_of y)) q = Some w \<and> evolves v w"
proof (induction rule: table_step.induct)
  case (reserve m r s us ps)
  then show ?case using succ_less [of "sSendSeq s"] by (auto simp: evolves_def)
next
  case (alloc m s p ps)
  then have "q \<noteq> next_ref m" using table_fresh [of m q v] by (auto simp: system_ok_def)
  with alloc show ?case by auto
qed (auto simp: same_tables_def same_session_def evolves_def remove_entry_def deactivateLocked_def publish_entry_def)

lemma table_steps_history:
  "\<lbrakk>table_steps x us y; system_ok x; fmlookup (heap (mgr_of x)) q = Some v\<rbrakk>
   \<Longrightarrow> \<exists>w. fmlookup (heap (mgr_of y)) q = Some w \<and> evolves v w"
proof (induction arbitrary: v rule: table_steps.induct)
  case (steps_more x us y vs z ws)
  then obtain w where "fmlookup (heap (mgr_of y)) q = Some w" "evolves v w"
    using table_step_history by blast
  with steps_more show ?case by (meson evolves_trans table_step_ok)
qed simp

definition nonces_below :: "SessionSystem \<Rightarrow> nonce_use list \<Rightarrow> bool" where
  "nonces_below x us \<longleftrightarrow> (\<forall>(sid, seq) \<in> set us. 0 < seq \<and>
     (\<exists>r s. fmlookup (heap (mgr_of x)) r = Some s \<and> sID s = sid \<and> seq \<le> sSendSeq s))"

lemma nonces_below_step:
  assumes "table_step x vs y" "system_ok x" "nonces_below x us"
  shows "nonces_below y us"
  unfolding nonces_below_def
proof clarify
  fix sid seq assume "(sid, seq) \<in> set us"
  then obtain r s where s: "0 < seq" "fmlookup (heap (mgr_of x)) r = Some s" "sID s = sid" "seq \<le> sSendSeq s"
    using assms(3) by (auto simp: nonces_below_def)
  then obtain w where "fmlookup (heap (mgr_of y)) r = Some w" "evolves s w"
    using table_step_history [OF assms(1,2)] by blast
  with s show "0 < seq \<and> (\<exists>r s. fmlookup (heap (mgr_of y)) r = Some s \<and> sID s = sid \<and> seq \<le> sSendSeq s)"
    by (auto simp: evolves_def intro!: exI [of _ r] exI [of _ w] intro: order_trans)
qed

lemma nonces_step:
  assumes "table_step x vs y" "system_ok x" "nonces_below x us" "distinct us"
  shows "nonces_below y (us @ vs) \<and> distinct (us @ vs)"
  using assms(1)
proof cases
  case (reserve m r s ps)
  have "nonces_below y us" using nonces_below_step assms by blast
  moreover have "0 < sSendSeq s + 1" "sSendSeq s < sSendSeq s + 1"
    using succ_less [OF reserve(4)] by (auto intro: le_less_trans [OF word_zero_le])
  moreover have "(sID s, sSendSeq s + 1) \<notin> set us"
  proof
    assume "(sID s, sSendSeq s + 1) \<in> set us"
    then obtain q t where q: "fmlookup (heap m) q = Some t" "sID t = sID s" "sSendSeq s + 1 \<le> sSendSeq t"
      using assms(3) reserve by (auto simp: nonces_below_def)
    then have "q = r" using table_inj [of m q t r s] reserve(1,3) assms(2) by (auto simp: system_ok_def)
    with q reserve(3) succ_less [OF reserve(4)] show False by auto
  qed
  ultimately have "nonces_below y us" "nonces_below y vs" "distinct (us @ vs)"
    using reserve assms(4) by (auto simp: nonces_below_def)
  then show ?thesis by (auto simp: nonces_below_def)
qed (use nonces_below_step assms in auto)

lemma nonces_steps:
  "\<lbrakk>table_steps x vs y; system_ok x; nonces_below x us; distinct us\<rbrakk>
   \<Longrightarrow> nonces_below y (us @ vs) \<and> distinct (us @ vs)"
proof (induction arbitrary: us rule: table_steps.induct)
  case (steps_more x vs y ws z zs)
  from nonces_step [OF steps_more.hyps(1) steps_more.prems] steps_more.IH [of "us @ vs"] steps_more.hyps table_step_ok
  show ?case using steps_more.prems by auto
qed simp

subsection \<open>The operations implement the abstract table\<close>

lemma lookupSession_SomeD:
  "lookupSession m sid = Some (r, s) \<Longrightarrow> fmlookup (sessions m) sid = Some r \<and> fmlookup (heap m) r = Some s"
  by (auto simp: lookupSession_def bind_eq_Some_conv)

lemma lookupSession_NoneD: "\<lbrakk>table_ok m; lookupSession m sid = None\<rbrakk> \<Longrightarrow> fmlookup (sessions m) sid = None"
  using table_session [of m sid] by (cases "fmlookup (sessions m) sid") (auto simp: lookupSession_def)

lemma deleteLocked_remove:
  assumes "table_ok m" "lookupSession m sid = Some (r, s)"
  shows "deleteLocked (upd_sess m r deactivateLocked) sid (sUserID s) = remove_entry m sid r s"
  using lookupSession_SomeD [OF assms(2)] table_session_ref [OF assms(1)]
  by (simp add: deleteLocked_def upd_sess_def remove_entry_def Let_def)

lemma remove_steps:
  assumes "lookupSession m sid = Some (r, s)"
  shows "table_steps \<lparr>mgr_of = m, tokens_of = ps\<rparr> [] \<lparr>mgr_of = remove_entry m sid r s, tokens_of = ps\<rparr>"
  using lookupSession_SomeD [OF assms] by (auto intro: table_steps_one table_step.remove)

lemma frame_steps:
  "same_tables m m' \<Longrightarrow> table_steps \<lparr>mgr_of = m, tokens_of = ps\<rparr> [] \<lparr>mgr_of = m', tokens_of = ps\<rparr>"
  by (auto intro: table_steps_one table_step.frame)

lemma newExpiryDrain_frame: "same_tables m (snd (newExpiryDrainLocked m sid r))"
  by (simp add: newExpiryDrainLocked_def same_tables_def)

lemma run_drain_frame: "same_tables m (run_drain m d)"
  by (auto simp: run_drain_def clearExpiryBarrier_def same_tables_def split: drain.splits option.splits)

lemma expiry_calls_nonces [simp]: "effect_nonces (expiry_calls m u sid d) = []"
  by (simp add: expiry_calls_def)

lemma expireSession_steps:
  assumes "table_ok m" "lookupSession m sid = Some (r, s)" "expireSession m sid r (sUserID s) = (d, es, m')"
  shows "table_steps \<lparr>mgr_of = m, tokens_of = ps\<rparr> [] \<lparr>mgr_of = m', tokens_of = ps\<rparr>" "effect_nonces es = []"
    "same_tables (remove_entry m sid r s) m'"
proof -
  have "same_tables (remove_entry m sid r s) m'" "effect_nonces es = []"
    using assms newExpiryDrain_frame [of "remove_entry m sid r s" sid r]
    by (auto simp: expireSession_def deleteLocked_remove split: prod.splits)
  with remove_steps [OF assms(2)] show "table_steps \<lparr>mgr_of = m, tokens_of = ps\<rparr> [] \<lparr>mgr_of = m', tokens_of = ps\<rparr>"
    "effect_nonces es = []" "same_tables (remove_entry m sid r s) m'"
    by (auto intro: table_steps_trans0 frame_steps)
qed

lemma runRevocation_steps:
  assumes "runRevocation m w = (es, m')"
  shows "table_steps \<lparr>mgr_of = m, tokens_of = ps\<rparr> (effect_nonces es) \<lparr>mgr_of = m', tokens_of = ps\<rparr>"
  using assms
  by (auto simp: runRevocation_def newRevokedSnapshotLocked_def Let_def intro!: table_steps_one [OF table_step.reserve]
      intro: table_steps.steps_done split: option.splits if_splits)

lemma getSessionStaged_steps:
  assumes "table_ok m" "getSessionStaged m sid now = (r, d, es, m')"
  shows "table_steps \<lparr>mgr_of = m, tokens_of = ps\<rparr> (effect_nonces es) \<lparr>mgr_of = m', tokens_of = ps\<rparr>"
  using assms expireSession_steps [OF assms(1), of sid]
  by (auto simp: getSessionStaged_def intro: table_steps.steps_done split: option.splits if_splits prod.splits)

lemma dangling_user: "\<lbrakk>table_ok m; fmlookup (byUser m) u = Some sid\<rbrakk> \<Longrightarrow> \<exists>r s. lookupSession m sid = Some (r, s) \<and> sUserID s = u"
  using table_user [of m u sid] by (auto simp: lookupSession_def)

lemma SessionIDByUser_steps:
  assumes "table_ok m" "SessionIDByUser m u now = (r, es, m')"
  shows "table_steps \<lparr>mgr_of = m, tokens_of = ps\<rparr> (effect_nonces es) \<lparr>mgr_of = m', tokens_of = ps\<rparr>"
proof (cases "fmlookup (byUser m) u")
  case (Some sid)
  then obtain q s where "lookupSession m sid = Some (q, s)" using dangling_user assms(1) by blast
  with Some assms expireSession_steps [OF assms(1), of sid q s] show ?thesis
    by (auto simp: SessionIDByUser_def intro: table_steps.steps_done split: if_splits prod.splits)
qed (use assms in \<open>auto simp: SessionIDByUser_def intro: table_steps.steps_done\<close>)

lemma InvalidateUser_steps:
  assumes "table_ok m" "InvalidateUser m u now = (n, es, m')"
  shows "table_steps \<lparr>mgr_of = m, tokens_of = ps\<rparr> (effect_nonces es) \<lparr>mgr_of = m', tokens_of = ps\<rparr>"
proof (cases "fmlookup (byUser m) u")
  case (Some sid)
  then obtain q s where q: "lookupSession m sid = Some (q, s)" "sUserID s = u" using dangling_user assms(1) by blast
  then have "(upd_sess m q deactivateLocked)\<lparr>sessions := fmdrop sid (sessions m), byUser := fmdrop u (byUser m)\<rparr> = remove_entry m sid q s"
    using lookupSession_SomeD [OF q(1)] by (simp add: upd_sess_def remove_entry_def)
  with Some assms q show ?thesis
    by (auto simp: InvalidateUser_def Let_def intro: table_steps_trans0 [OF remove_steps [OF q(1)]] runRevocation_steps
        split: prod.splits)
qed (use assms in \<open>auto simp: InvalidateUser_def intro: table_steps.steps_done\<close>)

lemma DeleteStaged_steps:
  assumes "table_ok m" "DeleteStaged m sid u now = (d, res, m')"
  shows "table_steps \<lparr>mgr_of = m, tokens_of = ps\<rparr> [] \<lparr>mgr_of = m', tokens_of = ps\<rparr>"
  using assms
  by (auto simp: DeleteStaged_def Let_def deleteLocked_remove intro!: table_steps.steps_done remove_steps
      split: option.splits if_splits)

lemma revokeStaged_steps:
  assumes "table_ok m" "revokeStaged m sid u now = (res, m')"
  shows "table_steps \<lparr>mgr_of = m, tokens_of = ps\<rparr> [] \<lparr>mgr_of = m', tokens_of = ps\<rparr>"
  using assms
  by (auto simp: revokeStaged_def Let_def deleteLocked_remove intro!: table_steps.steps_done remove_steps
      split: option.splits if_splits)

lemma table_steps_table_ok:
  "\<lbrakk>table_steps \<lparr>mgr_of = m, tokens_of = ps\<rparr> us \<lparr>mgr_of = m', tokens_of = qs\<rparr>; system_ok \<lparr>mgr_of = m, tokens_of = ps\<rparr>\<rbrakk>
   \<Longrightarrow> table_ok m'"
  using table_steps_ok by (fastforce simp: system_ok_def)

lemma purgeScan_steps:
  assumes "system_ok \<lparr>mgr_of = m, tokens_of = ps\<rparr>" "purgeScan m now ids = (es, n, m')"
  shows "table_steps \<lparr>mgr_of = m, tokens_of = ps\<rparr> (effect_nonces es) \<lparr>mgr_of = m', tokens_of = ps\<rparr>"
  using assms
proof (induction m now ids arbitrary: es n rule: purgeScan.induct)
  case (1 m nowMS)
  then show ?case by (auto intro: table_steps.steps_done)
next
  case (2 m nowMS sid rest)
  show ?case
  proof (cases "lookupSession m sid")
    case (Some rs)
    obtain r s where rs: "rs = (r, s)" by force
    show ?thesis
    proof (cases "expiredLocked s nowMS")
      case True
      obtain d es1 m1 where e: "expireSession m sid r (sUserID s) = (d, es1, m1)" by (metis prod_cases3)
      obtain es2 n2 where p: "purgeScan m1 nowMS rest = (es2, n2, m')" "es = es1 @ es2"
        using "2.prems" Some rs True e by (auto split: prod.splits)
      have tok: "table_ok m" using "2.prems"(1) by (simp add: system_ok_def)
      note st = expireSession_steps [OF tok Some [unfolded rs] e]
      have "effect_nonces (es1 @ es2) = effect_nonces es2"
        using e by (auto simp: expireSession_def expiry_calls_def split: prod.splits if_splits)
      moreover have "table_steps \<lparr>mgr_of = m1, tokens_of = ps\<rparr> (effect_nonces es2) \<lparr>mgr_of = m', tokens_of = ps\<rparr>"
        by (rule "2.IH"(3)) (use Some rs True e p table_steps_ok [OF st(1) "2.prems"(1)] in auto)
      ultimately show ?thesis using st(1) p by (auto intro: table_steps_trans0)
    qed (use 2 Some rs in auto)
  qed (use 2 in auto)
qed

lemma publishPrepared_steps:
  assumes ok: "system_ok \<lparr>mgr_of = m, tokens_of = ps\<rparr>" and i: "i < length ps" "\<not> p_used (ps ! i)" "p_session (ps ! i) = Some r"
    and s: "fmlookup (heap m) r = Some s" and p: "publishPrepared m (ps ! i) r s missing nowMS = (act, m', p')"
  shows "table_steps \<lparr>mgr_of = m, tokens_of = ps\<rparr> [] \<lparr>mgr_of = m', tokens_of = ps[i := p']\<rparr>"
proof (cases "fmlookup (byUser m) (sUserID s)")
  case None
  then have "m' = publish_entry m r s" "p' = (ps ! i)\<lparr>p_used := True\<rparr>"
    using p by (auto simp: publishPrepared_def publish_entry_def)
  with None i s show ?thesis by (auto intro!: table_steps_one table_step.publish)
next
  case (Some sid)
  note ok' = system_okD [OF ok]
  obtain q t where q: "lookupSession m sid = Some (q, t)" "sUserID t = sUserID s" using dangling_user [OF ok'(1) Some] by blast
  note q' = lookupSession_SomeD [OF q(1)]
  let ?m = "remove_entry m sid q t"
  have eq: "m' = publish_entry ?m r s" "p' = (ps ! i)\<lparr>p_used := True\<rparr>"
    using p Some q q' by (auto simp: publishPrepared_def publish_entry_def remove_entry_def upd_sess_def Let_def)
  have "fmlookup (sessions m) (sID s) = None" using ok'(2) [of "ps ! i"] i s by (auto simp: token_ok_def)
  then have "q \<noteq> r" using table_session_ref [OF ok'(1)] q' s by auto
  then have "fmlookup (heap ?m) r = Some s" "fmlookup (byUser ?m) (sUserID s) = None"
    using s q by (auto simp: remove_entry_def)
  then show ?thesis unfolding eq
    using i by (intro table_steps_trans0 [OF remove_steps [OF q(1)]] table_steps_one table_step.publish)
qed

lemma activate_steps:
  assumes ok: "system_ok \<lparr>mgr_of = m, tokens_of = ps\<rparr>" and i: "i < length ps"
    and a: "activatePreparedStaged m (Some (ps ! i)) old allow now = (res, es, m', Some p')"
  shows "table_steps \<lparr>mgr_of = m, tokens_of = ps\<rparr> (effect_nonces es) \<lparr>mgr_of = m', tokens_of = ps[i := p']\<rparr>"
proof -
  note ok' = system_okD [OF ok]
  obtain r s where s: "p_session (ps ! i) = Some r" "fmlookup (heap m) r = Some s"
    using ok'(2) [of "ps ! i"] i by (auto simp: token_ok_def)
  show ?thesis
  proof (cases "m' = m \<and> es = [] \<and> p' = ps ! i")
    case True
    with i show ?thesis by (auto intro: table_steps.steps_done)
  next
    case False
    note a = a [unfolded activatePreparedStaged_def Let_def, simplified s option.case, simplified]
    show ?thesis
    proof (cases "old \<noteq> None \<and> fmlookup (byUser m) (sUserID s) \<noteq> None \<and>
                  expiredLocked (snd (the (Option.bind (fmlookup (byUser m) (sUserID s)) (lookupSession m)))) (unix_milli now)")
      case expired: True
      then obtain sid where sid: "fmlookup (byUser m) (sUserID s) = Some sid" by auto
      obtain q t where q: "lookupSession m sid = Some (q, t)" "sUserID t = sUserID s" using dangling_user [OF ok'(1) sid] by blast
      have "(upd_sess m q deactivateLocked)\<lparr>sessions := fmdrop sid (sessions m), byUser := fmdrop (sUserID s) (byUser m)\<rparr> = remove_entry m sid q t"
        using lookupSession_SomeD [OF q(1)] q(2) by (simp add: upd_sess_def remove_entry_def)
      then have "same_tables (remove_entry m sid q t) m'" "p' = ps ! i" "effect_nonces es = []"
        using a False expired sid q newExpiryDrain_frame [of "remove_entry m sid q t" sid q]
        by (auto split: if_splits prod.splits)
      then show ?thesis using remove_steps [OF q(1)] i by (auto intro: table_steps_trans0 frame_steps)
    next
      case fresh: False
      obtain act where "es = []" "\<not> p_used (ps ! i)" "publishPrepared m (ps ! i) r s
          (if allow \<and> old \<noteq> None \<and> fmlookup (byUser m) (sUserID s) = None then pendingExpiryDrainLocked m (the old) else None)
          (unix_milli now) = (act, m', p')"
        using a False fresh by (auto split: if_splits prod.splits)
      with publishPrepared_steps [OF ok i _ s] show ?thesis by auto
    qed
  qed
qed

lemma Prepare_Return:
  assumes "Prepare gcm hkdf m u d enc (Some sid) key now clk = (Return p, m')"
  obtains mk c2s s2c where "p_owner p = mgr_id m" "p_session p = Some (next_ref m)" "\<not> p_used p"
    "m' = m\<lparr>heap := fmupd (next_ref m) (newSession sid u d enc (unix_milli now) c2s s2c (mlimits m) clk) (heap m),
            next_ref := Suc (next_ref m)\<rparr>"
  using assms by (auto simp: Prepare_def Let_def split: if_splits option.splits outcome.splits prod.splits)

lemma newSession_fields [simp]:
  "sID (newSession sid u d enc t c2s s2c limits clk) = sid" "sUserID (newSession sid u d enc t c2s s2c limits clk) = u"
  "sActive (newSession sid u d enc t c2s s2c limits clk)" "sSendSeq (newSession sid u d enc t c2s s2c limits clk) = 0"
  by (simp_all add: newSession_def)

lemma Prepare_steps:
  assumes "Prepare gcm hkdf m u d enc (Some sid) key now clk = (Return p, m')" "fresh_id m sid"
  shows "table_steps \<lparr>mgr_of = m, tokens_of = ps\<rparr> [] \<lparr>mgr_of = m', tokens_of = ps @ [p]\<rparr>"
  using assms(1)
proof (rule Prepare_Return)
  fix c2s s2c
  assume "p_owner p = mgr_id m" "p_session p = Some (next_ref m)" "\<not> p_used p"
    and m': "m' = m\<lparr>heap := fmupd (next_ref m) (newSession sid u d enc (unix_milli now) c2s s2c (mlimits m) clk) (heap m),
            next_ref := Suc (next_ref m)\<rparr>"
  then show ?thesis unfolding m' using assms(2) by (intro table_steps_one table_step.alloc) auto
qed

lemma acceptPacket_same: "same_session s (snd (acceptPacket s seq now remote)) \<and> sSendSeq (snd (acceptPacket s seq now remote)) = sSendSeq s"
  by (simp add: acceptPacket_def touchLocked_def same_session_def Let_def split: prod.splits)

lemma handlers_frame:
  "same_tables m (SetRevocationHandler m h)" "same_tables m (SetExpiryHandler m h)" "same_tables m (SetExpiryBarrierHandler m h)"
  by (simp_all add: same_tables_def SetRevocationHandler_def SetExpiryHandler_def SetExpiryBarrierHandler_def)

lemma sys_step_table_steps: "\<lbrakk>sys_step x us y; system_ok x\<rbrakk> \<Longrightarrow> table_steps x us y"
proof (induction rule: sys_step.induct)
  case (receive m r s seq now remote res s' ps)
  then show ?case using acceptPacket_same [of s seq now remote] by (auto intro!: table_steps_one table_step.touch)
next
  case (send m r s seq enc key remote s' ps)
  then show ?case by (auto simp: reserveSendSeq_def Let_def split: if_splits intro!: table_steps_one table_step.reserve)
next
  case (send_refused m r s e s' ps)
  then have "s' = s \<or> sSendSeq s \<noteq> - 1 \<and> s' = s\<lparr>sSendSeq := sSendSeq s + 1\<rparr>"
    by (auto simp: reserveSendSeq_def Let_def split: if_splits)
  then show ?case
  proof
    assume "s' = s"
    with send_refused show ?thesis by (auto intro!: table_steps_one table_step.touch)
  next
    assume "sSendSeq s \<noteq> - 1 \<and> s' = s\<lparr>sSendSeq := sSendSeq s + 1\<rparr>"
    with send_refused show ?thesis by (auto intro!: table_steps_one table_step.reserve)
  qed
next
  case (cleanup m c es m' ps)
  then show ?case
    by (auto simp: run_cleanup_def split: cleanup.splits intro!: runRevocation_steps frame_steps run_drain_frame)
next
  case (purge m now n es m' ps)
  then show ?case by (auto simp: Purge_def split: prod.splits intro: purgeScan_steps)
qed (blast dest: system_okD(1) intro: Prepare_steps activate_steps getSessionStaged_steps SessionIDByUser_steps
      InvalidateUser_steps DeleteStaged_steps revokeStaged_steps frame_steps run_drain_frame handlers_frame)+

lemma sys_run_facts:
  assumes "sys_run x us y" "system_ok x"
  shows "system_ok y \<and> table_steps x us y"
  using assms
  by (induction rule: sys_run.induct)
    (auto intro: table_steps.steps_done table_steps_trans sys_step_table_steps table_steps_ok)

definition start_system :: "Manager \<Rightarrow> SessionSystem" where
  "start_system m = \<lparr>mgr_of = m, tokens_of = []\<rparr>"

lemma start_ok: "NewManagerWithLimits mid limits = Return m \<Longrightarrow> system_ok (start_system m)"
  by (auto simp: NewManagerWithLimits_def start_system_def system_ok_def table_ok_def active_accounted_def split: if_splits)

subsection \<open>Tokens, purge and packets\<close>

lemma unused_token_origin:
  "\<lbrakk>table_steps x us y; system_ok x; fmlookup (heap (mgr_of x)) r \<noteq> None; p \<in> set (tokens_of y); \<not> p_used p; p_session p = Some r\<rbrakk>
   \<Longrightarrow> \<exists>q \<in> set (tokens_of x). \<not> p_used q \<and> p_session q = Some r"
proof (induction rule: table_steps.induct)
  case (steps_more x us y vs z ws)
  have "fmlookup (heap (mgr_of y)) r \<noteq> None"
    using table_step_history [OF steps_more.hyps(1)] steps_more.prems by blast
  then obtain q where q: "q \<in> set (tokens_of y)" "\<not> p_used q" "p_session q = Some r"
    using steps_more table_step_ok by blast
  from steps_more.hyps(1) show ?case
  proof cases
    case (alloc m s p' ps)
    then have "r \<noteq> next_ref m" using steps_more.prems table_fresh [of m] by (auto simp: system_ok_def)
    with alloc q show ?thesis by auto
  next
    case (publish i ps r' m s)
    with q show ?thesis using set_update_subset_insert [of ps i "(ps ! i)\<lparr>p_used := True\<rparr>"] by auto
  qed (use q in auto)
qed auto

lemma inactive_rejects:
  assumes "\<not> sActive s"
  shows "acceptPacket s seq now remote = (Return receiveDroppedInactive, s)" "reserveSendSeq s = (Fail ErrSessionNotFound, s)"
  using assms by (simp_all add: acceptPacket_def reserveSendSeq_def)

lemma removed_inactive:
  assumes "table_steps x us y" "system_ok x" "fmlookup (sessions (mgr_of x)) sid = Some r" "fmlookup (sessions (mgr_of y)) sid \<noteq> Some r"
  shows "\<exists>t. fmlookup (heap (mgr_of y)) r = Some t \<and> \<not> sActive t"
proof -
  have ok: "table_ok (mgr_of x)" using assms(2) by (simp add: system_ok_def)
  obtain s where s: "fmlookup (heap (mgr_of x)) r = Some s" "sID s = sid" using table_session [OF ok assms(3)] by blast
  obtain t where t: "fmlookup (heap (mgr_of y)) r = Some t" "evolves s t"
    using table_steps_history [OF assms(1,2) s(1)] by blast
  have "\<not> sActive t"
  proof
    assume "sActive t"
    moreover have "active_accounted (mgr_of y) (tokens_of y)" "sID t = sid"
      using table_steps_ok [OF assms(1,2)] t s by (simp_all add: system_ok_def evolves_def)
    ultimately obtain p where "p \<in> set (tokens_of y)" "\<not> p_used p" "p_session p = Some r"
      using t(1) assms(4) unfolding active_accounted_def by blast
    then obtain q where "q \<in> set (tokens_of x)" "\<not> p_used q" "p_session q = Some r"
      using unused_token_origin [OF assms(1,2), of r] s by auto
    with assms(2,3) s show False by (auto simp: system_ok_def token_ok_def)
  qed
  with t show ?thesis by blast
qed

lemma expireSession_lookup:
  assumes "table_ok m" "lookupSession m sid = Some (r, s)" "expireSession m sid r (sUserID s) = (d, es, m')"
  shows "lookupSession m' i = (if i = sid then None else lookupSession m i)"
proof -
  note st = expireSession_steps(3) [OF assms] lookupSession_SomeD [OF assms(2)]
  have "q \<noteq> r" if "fmlookup (sessions m) i = Some q" "i \<noteq> sid" for q
    using that table_session_ref [OF assms(1), of i q s] table_session_ref [OF assms(1), of sid r s] st by auto
  then show ?thesis
    using st by (auto simp: lookupSession_def same_tables_def remove_entry_def split: bind_splits)
qed

lemma purgeScan_result:
  assumes "system_ok \<lparr>mgr_of = m, tokens_of = ps\<rparr>" "distinct ids" "purgeScan m nowMS ids = (es, n, m')"
  shows "(\<forall>i. lookupSession m' i =
            (case lookupSession m i of None \<Rightarrow> None
             | Some (r, s) \<Rightarrow> if i \<in> set ids \<and> expiredLocked s nowMS then None else Some (r, s))) \<and>
         n = length (filter (\<lambda>i. \<exists>r s. lookupSession m i = Some (r, s) \<and> expiredLocked s nowMS) ids)"
  using assms
proof (induction m nowMS ids arbitrary: es n rule: purgeScan.induct)
  case (1 m nowMS)
  then show ?case by (auto split: option.splits)
next
  case (2 m nowMS sid rest)
  show ?case
  proof (cases "\<exists>r s. lookupSession m sid = Some (r, s) \<and> expiredLocked s nowMS")
    case True
    then obtain r s where rs: "lookupSession m sid = Some (r, s)" "expiredLocked s nowMS" by auto
    obtain d es1 m1 where e: "expireSession m sid r (sUserID s) = (d, es1, m1)" by (metis prod_cases3)
    obtain es2 n2 where p: "purgeScan m1 nowMS rest = (es2, n2, m')" "n = Suc n2"
      using "2.prems" rs e by (auto split: prod.splits)
    have tok: "table_ok m" using "2.prems"(1) by (simp add: system_ok_def)
    note l = expireSession_lookup [OF tok rs(1) e]
    have "system_ok \<lparr>mgr_of = m1, tokens_of = ps\<rparr>"
      using table_steps_ok [OF expireSession_steps(1) [OF tok rs(1) e] "2.prems"(1)] .
    then have IH: "(\<forall>i. lookupSession m' i =
            (case lookupSession m1 i of None \<Rightarrow> None
             | Some (r, s) \<Rightarrow> if i \<in> set rest \<and> expiredLocked s nowMS then None else Some (r, s))) \<and>
         n2 = length (filter (\<lambda>i. \<exists>r s. lookupSession m1 i = Some (r, s) \<and> expiredLocked s nowMS) rest)"
      using "2.IH"(3) [OF rs(1) refl] e p(1) rs(2) "2.prems"(2) by auto
    have f: "filter (\<lambda>i. \<exists>r s. lookupSession m1 i = Some (r, s) \<and> expiredLocked s nowMS) rest
        = filter (\<lambda>i. \<exists>r s. lookupSession m i = Some (r, s) \<and> expiredLocked s nowMS) rest"
      using "2.prems"(2) by (intro filter_cong) (auto simp: l)
    show ?thesis using IH [unfolded f] "2.prems"(2) rs p(2) by (auto simp: l split: option.splits)
  next
    case False
    then have "purgeScan m nowMS rest = (es, n, m')" using "2.prems"(3) by (auto split: option.splits)
    moreover have "(\<forall>i. lookupSession m' i =
            (case lookupSession m i of None \<Rightarrow> None
             | Some (r, s) \<Rightarrow> if i \<in> set rest \<and> expiredLocked s nowMS then None else Some (r, s))) \<and>
         n = length (filter (\<lambda>i. \<exists>r s. lookupSession m i = Some (r, s) \<and> expiredLocked s nowMS) rest)"
      using 2 False calculation by (cases "lookupSession m sid") auto
    ultimately show ?thesis using False by (auto split: option.splits)
  qed
qed

subsection \<open>Properties\<close>

text \<open>A manager with the default limits, one prepared session and its run, for the witnesses.\<close>

definition demo_mgr :: Manager where
  "demo_mgr = \<lparr>mgr_id = 0, heap = fmempty, next_ref = 0, sessions = fmempty, byUser = fmempty,
             mlimits = DefaultLimits, onRevoke = False, onExpire = False, onExpireBarrier = False,
             expiryBarriers = fmempty, barrier_heap = fmempty, next_barrier = 0\<rparr>"

definition demo_session :: Session where
  "demo_session = newSession 1 7 [] False 0 None None DefaultLimits 0"

definition demo_token :: PreparedSession where
  "demo_token = \<lparr>p_owner = 0, p_session = Some 0,
     p_info = \<lparr>info_id = 1, info_user = 7, info_encrypted = False, info_master_key = None, info_expires_at = 90000, info_replaced = False\<rparr>,
     p_used = False\<rparr>"

definition demo_prepared :: SessionSystem where
  "demo_prepared = \<lparr>mgr_of = demo_mgr\<lparr>heap := fmupd 0 demo_session fmempty, next_ref := 1\<rparr>, tokens_of = [demo_token]\<rparr>"

definition demo_active :: SessionSystem where
  "demo_active = \<lparr>mgr_of = publish_entry (mgr_of demo_prepared) 0 demo_session, tokens_of = [demo_token\<lparr>p_used := True\<rparr>]\<rparr>"

lemma demo_new: "NewManagerWithLimits 0 DefaultLimits = Return demo_mgr"
  by (simp add: NewManagerWithLimits_def DefaultLimits_def SessionPacketsPerSec_def SessionBurst_def demo_mgr_def)

lemma demo_prepare: "sys_step (start_system demo_mgr) [] demo_prepared"
proof -
  have "Prepare (\<lambda>_. \<lparr>aead_seal = \<lambda>_ _ _. [], aead_open = \<lambda>_ _ _. None\<rparr>) (\<lambda>_ _ _. []) demo_mgr 7 [] False (Some 1) None 0 0
      = (Return demo_token, mgr_of demo_prepared)"
    by (simp add: Prepare_def demo_prepared_def demo_token_def demo_session_def demo_mgr_def newSession_def unix_milli_def SessionTTL_def)
  then have "sys_step \<lparr>mgr_of = demo_mgr, tokens_of = []\<rparr> [] \<lparr>mgr_of = mgr_of demo_prepared, tokens_of = [] @ [demo_token]\<rparr>"
    by (rule sys_step.prepare) (simp add: fresh_id_def demo_mgr_def fmran'_def)
  then show ?thesis by (simp add: start_system_def demo_prepared_def)
qed

lemma demo_activation:
  "activatePreparedStaged (mgr_of demo_prepared) (Some demo_token) None False 0 =
     (Return \<lparr>act_info = p_info demo_token, act_drain = None,
        act_cleanup = \<lparr>rw_session = None, rw_reason = RevocationReplaced, rw_handler = False, rw_notify = False\<rparr>\<rparr>,
      [], mgr_of demo_active, Some (demo_token\<lparr>p_used := True\<rparr>))"
  by (simp add: activatePreparedStaged_def publishPrepared_def publish_entry_def demo_active_def demo_prepared_def
      demo_token_def demo_mgr_def demo_session_def newSession_def expiredLocked_def unix_milli_def SessionTTL_def)

lemma demo_activate: "sys_step demo_prepared [] demo_active"
proof -
  have "sys_step \<lparr>mgr_of = mgr_of demo_prepared, tokens_of = [demo_token]\<rparr> (effect_nonces [])
      \<lparr>mgr_of = mgr_of demo_active, tokens_of = [demo_token][0 := demo_token\<lparr>p_used := True\<rparr>]\<rparr>"
    by (rule sys_step.activate [where now = 0 and old = None and allow = False]) (simp_all add: demo_activation)
  then show ?thesis by (simp add: demo_active_def demo_prepared_def)
qed

lemma demo_run: "sys_run (start_system demo_mgr) [] demo_active"
  using run_step [OF run_step [OF run_refl demo_prepare] demo_activate] by simp

lemma demo_active_eta: "\<lparr>mgr_of = mgr_of demo_active, tokens_of = tokens_of demo_active\<rparr> = demo_active"
  by simp

lemma demo_ok: "system_ok demo_active"
  using sys_run_facts [OF demo_run start_ok [OF demo_new]] by blast

text \<open>C14. The session tables stay consistent: in every state the running session layer reaches
  from a new manager, whatever the order of preparations, activations, lookups, deletions,
  revocations, purges, packets and sends, the two indices are inverse to each other, a user owns at
  most one published session, every published session is active under its own id, and a session
  that is neither published nor held by an unused token is inactive.\<close>

theorem session_tables_consistent:
  assumes "NewManagerWithLimits mid limits = Return m" and "sys_run (start_system m) us y"
  shows "table_ok (mgr_of y) \<and> active_accounted (mgr_of y) (tokens_of y) \<and>
    (\<forall>i j r q s t. lookupSession (mgr_of y) i = Some (r, s) \<longrightarrow> lookupSession (mgr_of y) j = Some (q, t) \<longrightarrow>
       sUserID s = sUserID t \<longrightarrow> i = j)"
proof -
  have ok: "system_ok y" using sys_run_facts [OF assms(2) start_ok [OF assms(1)]] by blast
  then have t: "table_ok (mgr_of y)" "active_accounted (mgr_of y) (tokens_of y)" by (simp_all add: system_ok_def)
  moreover have "i = j" if "lookupSession (mgr_of y) i = Some (r, s)" "lookupSession (mgr_of y) j = Some (q, v)" "sUserID s = sUserID v"
    for i j r q s v
    using table_session_ref [OF t(1), of i r s] table_session_ref [OF t(1), of j q v] that
      lookupSession_SomeD [OF that(1)] lookupSession_SomeD [OF that(2)] by simp
  ultimately show ?thesis by blast
qed

theorem session_tables_consistent_witness:
  "table_ok (mgr_of demo_active) \<and> active_accounted (mgr_of demo_active) (tokens_of demo_active) \<and>
   lookupSession (mgr_of demo_active) 1 = Some (0, demo_session)"
proof -
  have "lookupSession (mgr_of demo_active) 1 = Some (0, demo_session)"
    by (simp add: lookupSession_def demo_active_def publish_entry_def demo_prepared_def demo_session_def)
  with session_tables_consistent [OF demo_new demo_run] show ?thesis by blast
qed

lemma NonceFor_inj: "NonceFor a = NonceFor b \<longleftrightarrow> a = b"
  unfolding NonceFor_def by (auto dest: be_bytes_inj)

text \<open>C1. No nonce is ever used twice: over any run of the session layer, the (session, nonce)
  pairs reserved for sealing, by ordinary sends and by revocation notices, are pairwise distinct,
  and sequence number 0 is never used.  Keys are derived per session id, so no AES-GCM key sees a
  nonce twice.\<close>

theorem nonce_never_reused:
  assumes "NewManagerWithLimits mid limits = Return m" and "sys_run (start_system m) us y"
  shows "distinct (map (\<lambda>(sid, seq). (sid, NonceFor seq)) us) \<and> (\<forall>(sid, seq) \<in> set us. seq \<noteq> 0)"
proof -
  have "system_ok (start_system m)" "table_steps (start_system m) us y"
    using sys_run_facts [OF assms(2) start_ok [OF assms(1)]] start_ok [OF assms(1)] by auto
  then have "nonces_below y us" "distinct us"
    using nonces_steps [of "start_system m" us y "[]"] by (auto simp: nonces_below_def)
  moreover have "inj_on (\<lambda>(sid, seq). (sid, NonceFor seq)) (set us)"
    by (auto simp: inj_on_def NonceFor_inj)
  ultimately show ?thesis by (auto simp: distinct_map nonces_below_def)
qed

lemma demo_send: "\<exists>y. sys_run (start_system demo_mgr) [(1, 1)] y"
proof -
  have "sys_step \<lparr>mgr_of = mgr_of demo_active, tokens_of = tokens_of demo_active\<rparr> [(sID demo_session, 1)]
     \<lparr>mgr_of = (mgr_of demo_active)\<lparr>heap := fmupd 0 (demo_session\<lparr>sSendSeq := 1\<rparr>) (heap (mgr_of demo_active))\<rparr>, tokens_of = tokens_of demo_active\<rparr>"
    by (rule sys_step.send [where enc = False and key = None and remote = None])
      (simp_all add: demo_active_def demo_prepared_def publish_entry_def demo_session_def newSession_def reserveSendSeq_def)
  moreover have "sID demo_session = 1" by (simp add: demo_session_def)
  ultimately show ?thesis using run_step [OF demo_run, of "[(1, 1)]"] by (auto simp only: demo_active_eta append.simps)
qed

theorem nonce_never_reused_witness:
  "distinct (map (\<lambda>(sid, seq). (sid, NonceFor seq)) [(1, 1) :: nonce_use]) \<and> (1 :: uint64) \<noteq> 0"
proof -
  obtain y where "sys_run (start_system demo_mgr) [(1, 1)] y" using demo_send by blast
  from nonce_never_reused [OF demo_new this] show ?thesis by simp
qed

text \<open>C18. Removal is final: whatever operation takes a published session out of the table, its object
  is inactive from then on in every later state; it refuses every packet without changing, and no
  sequence number can be reserved on it, so nothing more is sealed with its keys by the send path.\<close>

theorem removed_session_is_dead:
  assumes "system_ok x" and "fmlookup (sessions (mgr_of x)) sid = Some r"
    and "sys_step x us y" and "fmlookup (sessions (mgr_of y)) sid \<noteq> Some r" and "sys_run y vs z"
  shows "\<exists>t. fmlookup (heap (mgr_of z)) r = Some t \<and>
           acceptPacket t seq now remote = (Return receiveDroppedInactive, t) \<and>
           reserveSendSeq t = (Fail ErrSessionNotFound, t)"
proof -
  note st = sys_step_table_steps [OF assms(3,1)]
  obtain s where s: "fmlookup (heap (mgr_of y)) r = Some s" "\<not> sActive s"
    using removed_inactive [OF st assms(1,2,4)] by blast
  have "system_ok y" using table_steps_ok [OF st assms(1)] .
  then obtain t where "fmlookup (heap (mgr_of z)) r = Some t" "evolves s t"
    using sys_run_facts [OF assms(5)] table_steps_history [OF _ _ s(1)] by blast
  with s show ?thesis by (auto simp: evolves_def inactive_rejects)
qed

lemma demo_delete:
  "sys_step demo_active [] \<lparr>mgr_of = remove_entry (mgr_of demo_active) 1 0 demo_session, tokens_of = tokens_of demo_active\<rparr>"
proof -
  have l: "lookupSession (mgr_of demo_active) 1 = Some (0, demo_session)"
    by (simp add: lookupSession_def demo_active_def publish_entry_def demo_prepared_def demo_session_def)
  have "deleteLocked (upd_sess (mgr_of demo_active) 0 deactivateLocked) 1 7 = remove_entry (mgr_of demo_active) 1 0 demo_session"
    using deleteLocked_remove [OF _ l] demo_ok by (simp add: system_ok_def demo_session_def)
  then have "DeleteStaged (mgr_of demo_active) 1 7 0
      = (Some (DrainSession 0), Return (), remove_entry (mgr_of demo_active) 1 0 demo_session)"
    by (simp add: DeleteStaged_def l expiredLocked_def demo_session_def newSession_def unix_milli_def SessionTTL_def)
  from sys_step.delete [OF this, of "tokens_of demo_active"] show ?thesis by (simp only: demo_active_eta)
qed

theorem removed_session_is_dead_witness:
  "\<exists>t. fmlookup (heap (remove_entry (mgr_of demo_active) 1 0 demo_session)) 0 = Some t \<and>
       acceptPacket t 5 0 None = (Return receiveDroppedInactive, t) \<and> reserveSendSeq t = (Fail ErrSessionNotFound, t)"
proof -
  have "fmlookup (sessions (mgr_of demo_active)) 1 = Some 0"
    by (simp add: demo_active_def publish_entry_def demo_session_def)
  from removed_session_is_dead [OF demo_ok this demo_delete _ run_refl, of 5 0 None] show ?thesis
    by (simp add: remove_entry_def)
qed

lemma acceptPacket_cases:
  "case acceptPacket s seq now remote of
     (Return receiveAccepted, t) \<Rightarrow>
       sActive s \<and> WouldAccept (sReplay s) seq \<and> fst (TakeAt (sBudget s) now) \<and>
       sReplay t = snd (Accept (sReplay s) seq) \<and> sExpiresAt t = unix_milli now + 90000 \<and>
       sRemote t = (if seq > high (sReplay s) \<and> remote \<noteq> None then remote else sRemote s)
   | (Return d, t) \<Rightarrow>
       sExpiresAt t = sExpiresAt s \<and> sRemote t = sRemote s \<and> sReplay t = sReplay s \<and> sActive t = sActive s \<and>
       (d = receiveDroppedReplay \<longrightarrow> t = s \<and> \<not> WouldAccept (sReplay s) seq) \<and>
       (d = receiveDroppedInactive \<longrightarrow> t = s \<and> \<not> sActive s) \<and>
       (d = receiveDroppedRateLimit \<longrightarrow> WouldAccept (sReplay s) seq \<and> \<not> fst (TakeAt (sBudget s) now))
   | (_, t) \<Rightarrow> False"
proof -
  have acc: "fst (fst (Accept (sReplay s) seq))" if "WouldAccept (sReplay s) seq"
    using that replay_window.would_accept by simp
  have adv: "snd (fst (Accept (sReplay s) seq)) = (seq > high (sReplay s))" if "WouldAccept (sReplay s) seq"
    using that by (auto simp: WouldAccept_def Accept_def Let_def)
  show ?thesis
    using acc adv
    by (auto simp: acceptPacket_def touchLocked_def Let_def SessionTTL_def split: prod.splits if_splits)
qed

text \<open>One packet, all branches: an admission decision never panics (the window that
  \<^verbatim>\<open>WouldAccept\<close> approved is approved by \<^verbatim>\<open>Accept\<close>); a dropped packet leaves the lifetime, the learned
  address, the replay window and the activity untouched, so a number dropped by the rate limit can
  still be accepted later; an accepted packet slides the deadline to 90 seconds after its receive
  time and moves the learned address exactly when it advances the high-water mark.\<close>

theorem acceptPacket_effect:
  "case acceptPacket s seq now remote of
     (Return receiveAccepted, t) \<Rightarrow>
       sActive s \<and> WouldAccept (sReplay s) seq \<and> fst (TakeAt (sBudget s) now) \<and>
       sReplay t = snd (Accept (sReplay s) seq) \<and> sExpiresAt t = unix_milli now + 90000 \<and>
       sRemote t = (if seq > high (sReplay s) \<and> remote \<noteq> None then remote else sRemote s)
   | (Return d, t) \<Rightarrow>
       sExpiresAt t = sExpiresAt s \<and> sRemote t = sRemote s \<and> sReplay t = sReplay s \<and> sActive t = sActive s \<and>
       (d = receiveDroppedReplay \<longrightarrow> t = s \<and> \<not> WouldAccept (sReplay s) seq) \<and>
       (d = receiveDroppedInactive \<longrightarrow> t = s \<and> \<not> sActive s) \<and>
       (d = receiveDroppedRateLimit \<longrightarrow> WouldAccept (sReplay s) seq \<and> \<not> fst (TakeAt (sBudget s) now))
   | (_, t) \<Rightarrow> False"
  by (rule acceptPacket_cases)

theorem acceptPacket_effect_witness:
  "case acceptPacket demo_session 5 0 None of
     (Return receiveAccepted, t) \<Rightarrow> sReplay t = snd (Accept (sReplay demo_session) 5) \<and> sExpiresAt t = unix_milli 0 + 90000
   | (_, t) \<Rightarrow> sExpiresAt t = sExpiresAt demo_session"
  using acceptPacket_effect [of demo_session 5 0 None] by (auto split: prod.splits outcome.splits receiveDecision.splits)

text \<open>Activation replaces: when \<^verbatim>\<open>ActivatePreparedStaged\<close> succeeds, the prepared session is the
  user's only published session; a session the user had before is inactive and out of the table, it
  is the one whose send barrier and revocation work are returned, and the replacement is reported
  exactly when it was still alive.  The token is consumed: activating it again fails with
  \<^verbatim>\<open>ErrSessionPrecondition\<close> and changes nothing.\<close>

theorem activation_replaces:
  assumes "system_ok \<lparr>mgr_of = m, tokens_of = ps\<rparr>" and "i < length ps" and "p_session (ps ! i) = Some r"
    and "fmlookup (heap m) r = Some s"
    and "activatePreparedStaged m (Some (ps ! i)) old allow now = (Return act, es, m', Some p')"
  shows "lookupSession m' (sID s) = Some (r, s) \<and> fmlookup (byUser m') (sUserID s) = Some (sID s) \<and> es = [] \<and>
    (case fmlookup (byUser m) (sUserID s) of
       None \<Rightarrow> rw_session (act_cleanup act) = None \<and> \<not> info_replaced (act_info act)
     | Some sid \<Rightarrow> (\<exists>q t. lookupSession m sid = Some (q, t) \<and> fmlookup (heap m') q = Some (deactivateLocked t) \<and>
          lookupSession m' sid = None \<and> act_drain act = Some (DrainSession q) \<and> rw_session (act_cleanup act) = Some q \<and>
          (info_replaced (act_info act) \<longleftrightarrow> \<not> expiredLocked t (unix_milli now)))) \<and>
    activatePreparedStaged m' (Some p') old2 allow2 now2 = (Fail ErrSessionPrecondition, [], m', Some p')"
proof -
  note ok = system_okD [OF assms(1)]
  let ?missing = "if allow \<and> old \<noteq> None \<and> fmlookup (byUser m) (sUserID s) = None then pendingExpiryDrainLocked m (the old) else None"
  have pub: "es = []" "\<not> p_used (ps ! i)" "publishPrepared m (ps ! i) r s ?missing (unix_milli now) = (act, m', p')"
    using assms(3-5) by (auto simp: activatePreparedStaged_def Let_def split: if_splits prod.splits)
  have tk: "fmlookup (sessions m) (sID s) = None" using ok(2) [of "ps ! i"] assms(2-4) pub(2) by (auto simp: token_ok_def)
  show ?thesis
  proof (cases "fmlookup (byUser m) (sUserID s)")
    case None
    with pub assms(3,4) show ?thesis
      by (auto simp: publishPrepared_def lookupSession_def activatePreparedStaged_def Let_def)
  next
    case (Some sid)
    obtain q t where q: "lookupSession m sid = Some (q, t)" "sUserID t = sUserID s" using dangling_user [OF ok(1) Some] by blast
    note q' = lookupSession_SomeD [OF q(1)]
    have "q \<noteq> r" "sid \<noteq> sID s" using table_session_ref [OF ok(1), of sid q t] q' tk assms(4) by auto
    with pub(3) q' Some assms(3,4) show ?thesis
      using q by (auto simp: pub(1) publishPrepared_def lookupSession_def activatePreparedStaged_def Let_def upd_sess_def)
  qed
qed

theorem activation_replaces_witness:
  "lookupSession (mgr_of demo_active) (sID demo_session) = Some (0, demo_session) \<and>
   activatePreparedStaged (mgr_of demo_active) (Some (demo_token\<lparr>p_used := True\<rparr>)) None False 0
     = (Fail ErrSessionPrecondition, [], mgr_of demo_active, Some (demo_token\<lparr>p_used := True\<rparr>))"
proof -
  have "sys_run (start_system demo_mgr) [] demo_prepared" using run_step [OF run_refl demo_prepare] by simp
  then have "system_ok demo_prepared" using sys_run_facts start_ok [OF demo_new] by blast
  then have ok: "system_ok \<lparr>mgr_of = mgr_of demo_prepared, tokens_of = [demo_token]\<rparr>"
    by (simp add: demo_prepared_def)
  have s: "p_session ([demo_token] ! 0) = Some 0" "fmlookup (heap (mgr_of demo_prepared)) 0 = Some demo_session"
    by (simp_all add: demo_token_def demo_prepared_def)
  have a: "activatePreparedStaged (mgr_of demo_prepared) (Some ([demo_token] ! 0)) None False 0 =
     (Return \<lparr>act_info = p_info demo_token, act_drain = None,
        act_cleanup = \<lparr>rw_session = None, rw_reason = RevocationReplaced, rw_handler = False, rw_notify = False\<rparr>\<rparr>,
      [], mgr_of demo_active, Some (demo_token\<lparr>p_used := True\<rparr>))"
    using demo_activation by simp
  from activation_replaces [OF ok _ s a, of None False 0] show ?thesis by simp
qed

text \<open>\<^verbatim>\<open>Purge\<close> removes exactly the expired sessions: afterwards an id is published exactly when it
  was published before and its session has not reached its deadline, survivors keep their object
  unchanged, and the returned count is the number of sessions removed.\<close>

theorem Purge_exact:
  assumes "system_ok \<lparr>mgr_of = m, tokens_of = ps\<rparr>" and "Purge m now = (n, es, m')"
  shows "(\<forall>sid. lookupSession m' sid =
            (case lookupSession m sid of None \<Rightarrow> None
             | Some (r, s) \<Rightarrow> if unix_milli now \<ge> sExpiresAt s then None else Some (r, s))) \<and>
         n = card {sid. \<exists>r s. lookupSession m sid = Some (r, s) \<and> unix_milli now \<ge> sExpiresAt s}"
proof -
  let ?ids = "sorted_list_of_fset (fmdom (sessions m))"
  have p: "purgeScan m (unix_milli now) ?ids = (es, n, m')" using assms(2) by (simp add: Purge_def split: prod.splits)
  have ids: "distinct ?ids" "\<And>sid r s. lookupSession m sid = Some (r, s) \<Longrightarrow> sid \<in> set ?ids"
    by (auto dest!: lookupSession_SomeD intro: fmdomI simp: sorted_list_of_fset.rep_eq)
  let ?old = "filter (\<lambda>i. \<exists>r s. lookupSession m i = Some (r, s) \<and> expiredLocked s (unix_milli now)) ?ids"
  have "{sid. \<exists>r s. lookupSession m sid = Some (r, s) \<and> unix_milli now \<ge> sExpiresAt s} = set ?old"
    using ids(2) by (auto simp: expiredLocked_def)
  moreover have "card (set ?old) = length ?old" by (rule distinct_card [OF distinct_filter [OF ids(1)]])
  ultimately have "n = card {sid. \<exists>r s. lookupSession m sid = Some (r, s) \<and> unix_milli now \<ge> sExpiresAt s}"
    using purgeScan_result [OF assms(1) ids(1) p, THEN conjunct2] by (simp only:)
  with purgeScan_result [OF assms(1) ids(1) p] ids(2) show ?thesis
    by (auto simp: expiredLocked_def split: option.splits)
qed

theorem Purge_exact_witness:
  "case Purge (mgr_of demo_active) 90000000000 of (n, es, m') \<Rightarrow>
    (\<forall>sid. lookupSession m' sid =
            (case lookupSession (mgr_of demo_active) sid of None \<Rightarrow> None
             | Some (r, s) \<Rightarrow> if unix_milli 90000000000 \<ge> sExpiresAt s then None else Some (r, s))) \<and>
         n = card {sid. \<exists>r s. lookupSession (mgr_of demo_active) sid = Some (r, s) \<and> unix_milli 90000000000 \<ge> sExpiresAt s}"
proof -
  have ok: "system_ok \<lparr>mgr_of = mgr_of demo_active, tokens_of = tokens_of demo_active\<rparr>"
    unfolding demo_active_eta by (rule demo_ok)
  obtain n es m' where p: "Purge (mgr_of demo_active) 90000000000 = (n, es, m')" by (metis prod_cases3)
  show ?thesis unfolding p using Purge_exact [OF ok p] by simp
qed

text \<open>Only the owner removes: \<^verbatim>\<open>Delete\<close> and \<^verbatim>\<open>Revoke\<close> of another user's session fail with
  \<^verbatim>\<open>ErrSessionNotOwned\<close>, leave the manager as it was and call nobody; on the owner's live session they
  succeed and unpublish it, and on an expired one they unpublish it and report \<^verbatim>\<open>ErrSessionNotFound\<close>.\<close>

theorem removal_needs_owner:
  assumes "table_ok m" and "lookupSession m sid = Some (r, s)"
  shows "(sUserID s \<noteq> u \<longrightarrow> Delete m sid u now = (Fail ErrSessionNotOwned, m) \<and> Revoke m sid u now = (Fail ErrSessionNotOwned, [], m)) \<and>
    (sUserID s = u \<longrightarrow>
       (let res = (if expiredLocked s (unix_milli now) then Fail ErrSessionNotFound else Return ())
        in fst (Delete m sid u now) = res \<and> fst (Revoke m sid u now) = res) \<and>
       fmlookup (sessions (snd (Delete m sid u now))) sid = None \<and>
       fmlookup (sessions (snd (snd (Revoke m sid u now)))) sid = None)"
  using assms deleteLocked_remove [OF assms]
  by (auto simp: Delete_def DeleteStaged_def Revoke_def RevokeStaged_def revokeStaged_def run_cleanup_def runRevocation_def
      revocationCleanup_def run_drain_def remove_entry_def Let_def split: prod.splits option.splits if_splits)

theorem removal_needs_owner_witness:
  "let m = mgr_of demo_active; u = 8; s = demo_session; now = 0; sid = 1 in
   (sUserID s \<noteq> u \<longrightarrow> Delete m sid u now = (Fail ErrSessionNotOwned, m) \<and> Revoke m sid u now = (Fail ErrSessionNotOwned, [], m)) \<and>
    (sUserID s = u \<longrightarrow>
       (let res = (if expiredLocked s (unix_milli now) then Fail ErrSessionNotFound else Return ())
        in fst (Delete m sid u now) = res \<and> fst (Revoke m sid u now) = res) \<and>
       fmlookup (sessions (snd (Delete m sid u now))) sid = None \<and>
       fmlookup (sessions (snd (snd (Revoke m sid u now)))) sid = None)"
proof -
  have "table_ok (mgr_of demo_active)" using demo_ok by (simp add: system_ok_def)
  moreover have "lookupSession (mgr_of demo_active) 1 = Some (0, demo_session)"
    by (simp add: lookupSession_def demo_active_def publish_entry_def demo_prepared_def demo_session_def)
  ultimately show ?thesis unfolding Let_def [of "mgr_of demo_active"] Let_def [of "8 :: int64"] Let_def [of demo_session]
      Let_def [of "0 :: int"] Let_def [of "1 :: id16"] by (rule removal_needs_owner)
qed

end
