(* ===== verification/Registry.thy ===== *)
theory Registry
  imports Packet
begin

text \<open>
  The table of business stream types of \<^verbatim>\<open>internal/protocol/channel.go\<close>.  Type 0 belongs to the
  protocol; types 1 to 255 are registered before the UDP server starts, and starting seals the table.
\<close>

section \<open>Definitions\<close>

record Capabilities =
  cap_Name :: string
  cap_MuteKind :: string
  cap_Fragmentable :: bool

record ChannelTypeRegistry =
  channels :: "(byte, Capabilities) fmap"
  sealed :: bool

definition NewChannelTypeRegistry :: ChannelTypeRegistry where
  "NewChannelTypeRegistry = \<lparr>channels = fmempty, sealed = False\<rparr>"

definition Register ::
  "ChannelTypeRegistry \<Rightarrow> byte \<Rightarrow> Capabilities \<Rightarrow> (proto_error, unit) outcome \<times> ChannelTypeRegistry" where
  "Register r channelType caps =
     (if channelType = HeartbeatChannelType then (Fail ErrChannelTypeReserved, r)
      else if sealed r then (Fail ErrChannelRegistrySealed, r)
      else if fmlookup (channels r) channelType \<noteq> None then (Fail ErrChannelAlreadyRegistered, r)
      else (Return (), r\<lparr>channels := fmupd channelType caps (channels r)\<rparr>))"

definition Registered :: "ChannelTypeRegistry \<Rightarrow> byte \<Rightarrow> bool" where
  "Registered r channelType \<longleftrightarrow> fmlookup (channels r) channelType \<noteq> None"

definition LookupChannel :: "ChannelTypeRegistry \<Rightarrow> byte \<Rightarrow> Capabilities option" where
  "LookupChannel r channelType = fmlookup (channels r) channelType"

definition SnapshotChannels :: "ChannelTypeRegistry option \<Rightarrow> (byte, Capabilities) fmap option" where
  "SnapshotChannels r = map_option channels r"

definition SealRegistry :: "ChannelTypeRegistry \<Rightarrow> ChannelTypeRegistry" where
  "SealRegistry r = r\<lparr>sealed := True\<rparr>"

datatype registry_op = RRegister byte Capabilities | RSeal

fun registry_step :: "ChannelTypeRegistry \<Rightarrow> registry_op \<Rightarrow> ChannelTypeRegistry" where
  "registry_step r (RRegister t c) = snd (Register r t c)"
| "registry_step r RSeal = SealRegistry r"

section \<open>Theorems\<close>

lemma Registered_nonzero_step:
  "\<not> Registered r HeartbeatChannelType \<Longrightarrow> \<not> Registered (registry_step r x) HeartbeatChannelType"
  by (cases x) (auto simp: Registered_def Register_def SealRegistry_def)

lemma Registered_nonzero: "\<not> Registered (foldl registry_step NewChannelTypeRegistry ops) HeartbeatChannelType"
proof (induction ops rule: rev_induct)
  case Nil
  show ?case by (simp add: Registered_def NewChannelTypeRegistry_def)
next
  case (snoc x ops)
  then show ?case using Registered_nonzero_step by simp
qed

lemma step_keeps:
  "LookupChannel r t = Some c \<Longrightarrow> LookupChannel (registry_step r x) t = Some c"
  "sealed r \<Longrightarrow> registry_step r x = r"
  by (cases x; auto simp: LookupChannel_def Register_def SealRegistry_def)+

lemma run_keeps: "LookupChannel r t = Some c \<Longrightarrow> LookupChannel (foldl registry_step r ops) t = Some c"
  by (induction ops arbitrary: r) (simp_all add: step_keeps)

lemma run_sealed: "sealed r \<Longrightarrow> foldl registry_step r ops = r"
  by (induction ops) (simp_all add: step_keeps)

text \<open>The registry is append-only and freezes: over any sequence of registrations and seals from a
  new registry, the heartbeat type is never registered, what was registered first keeps its
  capabilities, and once sealed nothing changes; a successful registration is what the lookup returns.\<close>

theorem registry_contract:
  "\<not> Registered (foldl registry_step NewChannelTypeRegistry ops) HeartbeatChannelType \<and>
   (LookupChannel (foldl registry_step NewChannelTypeRegistry ops) t = Some c \<longrightarrow>
      LookupChannel (foldl registry_step NewChannelTypeRegistry (ops @ later)) t = Some c) \<and>
   foldl registry_step NewChannelTypeRegistry (ops @ RSeal # later) = SealRegistry (foldl registry_step NewChannelTypeRegistry ops) \<and>
   (fst (Register r t c) = Return () \<longrightarrow> LookupChannel (snd (Register r t c)) t = Some c)"
proof (intro conjI impI)
  show "foldl registry_step NewChannelTypeRegistry (ops @ RSeal # later) = SealRegistry (foldl registry_step NewChannelTypeRegistry ops)"
    by (simp add: run_sealed SealRegistry_def)
qed (auto simp: Registered_nonzero run_keeps [unfolded LookupChannel_def] Register_def LookupChannel_def split: if_splits)

definition audio_caps :: Capabilities where
  "audio_caps = \<lparr>cap_Name = ''audio'', cap_MuteKind = ''voice'', cap_Fragmentable = False\<rparr>"

theorem registry_contract_witness:
  "LookupChannel (foldl registry_step NewChannelTypeRegistry [RRegister 1 audio_caps, RSeal, RRegister 2 audio_caps]) 1 = Some audio_caps \<and>
   fst (Register NewChannelTypeRegistry 1 audio_caps) = Return () \<and>
   LookupChannel (snd (Register NewChannelTypeRegistry 1 audio_caps)) 1 = Some audio_caps"
proof -
  have r: "fst (Register NewChannelTypeRegistry 1 audio_caps) = Return ()"
    by (simp add: Register_def NewChannelTypeRegistry_def HeartbeatChannelType_def)
  have "LookupChannel (foldl registry_step NewChannelTypeRegistry [RRegister 1 audio_caps]) 1 = Some audio_caps"
    by (simp add: Register_def NewChannelTypeRegistry_def HeartbeatChannelType_def LookupChannel_def)
  with r registry_contract [of "[RRegister 1 audio_caps]" 1 audio_caps "[RSeal, RRegister 2 audio_caps]" NewChannelTypeRegistry]
  show ?thesis by simp
qed

end
