(* ===== verification/Udp.thy ===== *)
theory Udp
  imports Ingress Session Registry
begin

text \<open>
  The UDP transport of \<^verbatim>\<open>internal/protocol/udp.go\<close>: the ordered read pipeline, the send path, the
  revocation notice, the purge tick, and the start/close life cycle.

  \<^item> Callbacks, statistics and socket writes are the \<open>udp_effect\<close>s an operation returns, in order;
    whether a socket write succeeds is an argument.
  \<^item> \<open>receiveSession\<close> is the part of \<^verbatim>\<open>handleDatagram\<close> after the session lookup: a concurrent
    teardown may run between the two, which is a step of another operation in between.
  \<^item> A slice bound that does not hold, and the panic of \<^verbatim>\<open>acceptPacket\<close>, are the outcome \<open>Panic\<close>.
  \<^item> The receive gate is a test hook that reads no server state and is left out.
\<close>

section \<open>Definitions\<close>

record InboundFrame =
  fr_UserID :: int64
  fr_SessionID :: id16
  fr_ChannelType :: byte
  fr_ChannelSeq :: "16 word"
  fr_TransportSeq :: uint64
  fr_Payload :: bytes

datatype StatsKind =
    StatsPacketReceived | StatsDroppedMalformed | StatsDroppedUnknownSession | StatsDroppedGlobalIngress
  | StatsDroppedSourceIngress | StatsDroppedSourceTableFull | StatsDroppedAuthentication | StatsDroppedChannel
  | StatsDroppedReplay | StatsDroppedSessionRateLimit | StatsHeartbeatReceived | StatsFrameDelivered
  | StatsSendSuccess | StatsSendError | StatsRevocationSent | StatsRevocationError

record StatsSample =
  st_Kind :: StatsKind
  st_SessionID :: id16
  st_UserID :: int64
  st_ChannelType :: byte
  st_Bytes :: nat

datatype udp_effect =
    UStats StatsSample
  | UFrame InboundFrame
  | UWrite bytes UDPAddr
  | UCloseConn nat
  | UManager effect

datatype net_addr = NetUDP UDPAddr | NetOther

record UDPServer =
  u_manager :: Manager
  u_registry :: ChannelTypeRegistry
  u_onFrame :: bool
  u_stats :: bool
  u_ingress :: IngressLimiter
  u_conn :: "nat option"
  u_started :: bool
  u_closed :: bool

subsection \<open>Life cycle\<close>

definition NewUDPServer ::
  "Manager option \<Rightarrow> ChannelTypeRegistry option \<Rightarrow> bool \<Rightarrow> bool \<Rightarrow> IngressLimits \<Rightarrow> gotime
     \<Rightarrow> (proto_error, UDPServer) outcome" where
  "NewUDPServer manager registry onFrame stats limits clk =
     (case (manager, registry) of
        (Some m, Some r) \<Rightarrow>
          (case NewIngressLimiter limits clk of
             Return l \<Rightarrow> Return \<lparr>u_manager = m, u_registry = r, u_onFrame = onFrame, u_stats = stats, u_ingress = l,
                                u_conn = None, u_started = False, u_closed = False\<rparr>
           | Fail e \<Rightarrow> Fail e | Panic \<Rightarrow> Panic)
      | _ \<Rightarrow> Fail ErrNilDependency)"

definition SetFrameHandler :: "UDPServer \<Rightarrow> bool \<Rightarrow> (proto_error, unit) outcome \<times> UDPServer" where
  "SetFrameHandler s handler =
     (if u_closed s then (Fail ErrUDPServerClosed, s)
      else if u_started s then (Fail ErrUDPServerStarted, s)
      else (Return (), s\<lparr>u_onFrame := handler\<rparr>))"

definition SetStatsHandler :: "UDPServer \<Rightarrow> bool \<Rightarrow> (proto_error, unit) outcome \<times> UDPServer" where
  "SetStatsHandler s handler =
     (if u_closed s then (Fail ErrUDPServerClosed, s)
      else if u_started s then (Fail ErrUDPServerStarted, s)
      else (Return (), s\<lparr>u_stats := handler\<rparr>))"

text \<open>\<^verbatim>\<open>Start\<close> takes ownership of the connection: it is closed on every refusal.\<close>

definition StartUDP :: "UDPServer \<Rightarrow> nat option \<Rightarrow> (proto_error, unit) outcome \<times> udp_effect list \<times> UDPServer" where
  "StartUDP s pc =
     (case pc of None \<Rightarrow> (Fail ErrNilPacketConn, [], s)
      | Some c \<Rightarrow>
          if u_closed s then (Fail ErrNetClosed, [UCloseConn c], s)
          else if u_started s then (Fail ErrUDPServerStarted, [UCloseConn c], s)
          else (Return (), [], s\<lparr>u_registry := SealRegistry (u_registry s), u_started := True, u_conn := Some c\<rparr>))"

text \<open>The deferred cleanup of \<^verbatim>\<open>serve\<close>, on every exit of the read loop.\<close>

definition serveExit :: "UDPServer \<Rightarrow> nat \<Rightarrow> udp_effect list \<times> UDPServer" where
  "serveExit s pc = ([UCloseConn pc], if u_conn s = Some pc then s\<lparr>u_conn := None\<rparr> else s)"

definition CloseUDP :: "UDPServer \<Rightarrow> udp_effect list \<times> UDPServer" where
  "CloseUDP s = ((case u_conn s of None \<Rightarrow> [] | Some c \<Rightarrow> [UCloseConn c]), s\<lparr>u_closed := True\<rparr>)"

definition packetConn :: "UDPServer \<Rightarrow> nat option" where
  "packetConn s = u_conn s"

definition reportStats :: "UDPServer \<Rightarrow> StatsSample \<Rightarrow> udp_effect list" where
  "reportStats s sample = (if u_stats s then [UStats sample] else [])"

text \<open>A Go composite literal leaves unnamed fields zero.\<close>

definition sample :: "StatsKind \<Rightarrow> id16 \<Rightarrow> int64 \<Rightarrow> byte \<Rightarrow> nat \<Rightarrow> StatsSample" where
  "sample kind sid user ch bytes =
     \<lparr>st_Kind = kind, st_SessionID = sid, st_UserID = user, st_ChannelType = ch, st_Bytes = bytes\<rparr>"

subsection \<open>Sending\<close>

definition Send ::
  "UDPServer \<Rightarrow> id16 \<Rightarrow> byte \<Rightarrow> int64 \<Rightarrow> 16 word \<Rightarrow> bytes \<Rightarrow> gotime \<Rightarrow> bool
     \<Rightarrow> (proto_error, unit) outcome \<times> udp_effect list \<times> UDPServer" where
  "Send srv sid channelType speakerID channelSeq payload now write_ok =
     (let err = (\<lambda>e pre srv'. (Fail e, pre @ reportStats srv (sample StatsSendError sid 0 channelType (length payload)), srv'))
      in if channelType = HeartbeatChannelType then err ErrChannelTypeReserved [] srv
         else if sint speakerID \<le> 0 then err ErrInvalidSpeakerID [] srv
         else if \<not> Registered (u_registry srv) channelType then err ErrChannelNotRegistered [] srv
         else case getSession (u_manager srv) sid now of
           (found, es, m1) \<Rightarrow>
             let srv1 = srv\<lparr>u_manager := m1\<rparr>; pre = map UManager es
             in case Option.bind found (\<lambda>r. map_option (Pair r) (fmlookup (heap m1) r)) of
                  None \<Rightarrow> err ErrSessionNotFound pre srv1
                | Some (r, s) \<Rightarrow>
                    (case reserveSendSeq s of
                       (Return (seq, encrypted, a, remote), s') \<Rightarrow>
                         let srv2 = srv1\<lparr>u_manager := m1\<lparr>heap := fmupd r s' (heap m1)\<rparr>\<rparr>
                         in (case remote of None \<Rightarrow> err ErrNoPeer pre srv2
                             | Some peer \<Rightarrow>
                                 if length payload > MaxPayload encrypted then err ErrPayloadTooLarge pre srv2
                                 else (case buildPacket sid seq encrypted a
                                          \<lparr>ChannelType = channelType, ChannelSeq = channelSeq, Flags = 0, SpeakerID = speakerID\<rparr> payload of
                                    Return packet \<Rightarrow>
                                      if packetConn srv = None then err ErrNetClosed pre srv2
                                      else if \<not> write_ok then err ErrWriteFailed pre srv2
                                      else (Return (), pre @ [UWrite packet peer] @
                                              reportStats srv (sample StatsSendSuccess sid (sUserID s) channelType (length packet)), srv2)
                                  | Fail e \<Rightarrow> err e pre srv2
                                  | Panic \<Rightarrow> (Panic, pre, srv2)))
                     | (Fail e, s') \<Rightarrow> err e pre (srv1\<lparr>u_manager := m1\<lparr>heap := fmupd r s' (heap m1)\<rparr>\<rparr>)
                     | (Panic, s') \<Rightarrow> (Panic, pre, srv1)))"

definition sendRevoked ::
  "UDPServer \<Rightarrow> RevocationReason \<Rightarrow> RevokedSessionSnapshot \<Rightarrow> bool \<Rightarrow> (proto_error, unit) outcome \<times> udp_effect list" where
  "sendRevoked srv reason snap write_ok =
     (let err = (\<lambda>e. (Fail e, reportStats srv (sample StatsRevocationError (snap_id snap) (snap_user snap) 0 0)))
      in case snap_remote snap of None \<Rightarrow> err ErrNoPeer
         | Some peer \<Rightarrow>
             if snap_seq snap = 0 then err ErrSequenceExhausted
             else (case buildPacket (snap_id snap) (snap_seq snap) (snap_encrypted snap) (snap_s2c snap)
                          zeroChannelHeader [reason_byte reason] of
                     Return packet \<Rightarrow>
                       if packetConn srv = None then err ErrNetClosed
                       else if \<not> write_ok then err ErrWriteFailed
                       else (Return (), [UWrite packet peer] @
                               reportStats srv (sample StatsRevocationSent (snap_id snap) (snap_user snap) 0 (length packet)))
                   | Fail e \<Rightarrow> err e
                   | Panic \<Rightarrow> (Panic, [])))"

text \<open>\<^verbatim>\<open>HandleRevocation\<close>, the handler installed on the manager: the result is discarded.\<close>

definition HandleRevocation :: "UDPServer \<Rightarrow> RevocationReason \<Rightarrow> RevokedSessionSnapshot \<Rightarrow> bool \<Rightarrow> udp_effect list" where
  "HandleRevocation srv reason snap write_ok = snd (sendRevoked srv reason snap write_ok)"

subsection \<open>Receiving\<close>

definition validInboundChannel :: "UDPServer \<Rightarrow> ChannelHeader \<Rightarrow> bytes \<Rightarrow> bool \<Rightarrow> bool" where
  "validInboundChannel srv ch payload encrypted =
     (if Flags ch \<noteq> 0 then False
      else if ChannelType ch = HeartbeatChannelType then ChannelSeq ch = 0 \<and> SpeakerID ch = 0 \<and> length payload = 0
      else if SpeakerID ch \<noteq> 0 then False
      else if \<not> Registered (u_registry srv) (ChannelType ch) then False
      else length payload \<le> MaxPayload encrypted)"

definition cryptoSnapshot :: "Session \<Rightarrow> bool \<times> aead option" where
  "cryptoSnapshot s = (sEncrypted s, sC2S s)"

text \<open>Authentication and parsing of the body: the drop classification, or the channel header and the
  payload.\<close>

definition openBody :: "Session \<Rightarrow> uint64 \<Rightarrow> bytes \<Rightarrow> (StatsKind, ChannelHeader \<times> bytes) outcome" where
  "openBody s seq p =
     (case cryptoSnapshot s of (encrypted, a) \<Rightarrow>
        if encrypted then
          (if a = None \<or> length p < MinPacketSize True then Fail StatsDroppedAuthentication
           else (case (slice_to p HeaderSize, slice_from p HeaderSize) of
                   (Some hdr, Some body) \<Rightarrow>
                     (case openWithAEAD a seq hdr body of
                        Return plaintext \<Rightarrow>
                          (case (slice_to plaintext ChannelHeaderSize, slice_from plaintext ChannelHeaderSize) of
                             (Some sub, Some payload) \<Rightarrow>
                               (case parseChannelHeader sub of (ch, ok) \<Rightarrow>
                                  if \<not> ok then Fail StatsDroppedChannel else Return (ch, payload))
                           | _ \<Rightarrow> Panic)
                      | Fail e \<Rightarrow> Fail StatsDroppedAuthentication
                      | Panic \<Rightarrow> Panic)
                 | _ \<Rightarrow> Panic))
        else
          (if length p < MinPacketSize False then Fail StatsDroppedMalformed
           else (case slice_from p HeaderSize of
                   Some body \<Rightarrow>
                     (case (slice_to body ChannelHeaderSize, slice_from body ChannelHeaderSize) of
                        (Some sub, Some payload) \<Rightarrow>
                          (case parseChannelHeader sub of (ch, ok) \<Rightarrow>
                             if \<not> ok then Fail StatsDroppedChannel else Return (ch, payload))
                      | _ \<Rightarrow> Panic)
                 | None \<Rightarrow> Panic)))"

definition receiveSession ::
  "UDPServer \<Rightarrow> sref \<Rightarrow> id16 \<Rightarrow> uint64 \<Rightarrow> bytes \<Rightarrow> UDPAddr \<Rightarrow> gotime
     \<Rightarrow> (proto_error, udp_effect list) outcome \<times> UDPServer" where
  "receiveSession srv r sid seq p udpAddr now =
     (case fmlookup (heap (u_manager srv)) r of None \<Rightarrow> (Panic, srv)
      | Some s \<Rightarrow>
          (case openBody s seq p of
             Panic \<Rightarrow> (Panic, srv)
           | Fail kind \<Rightarrow> (Return (reportStats srv (sample kind sid (sUserID s) 0 (length p))), srv)
           | Return (ch, payload) \<Rightarrow>
               if \<not> validInboundChannel srv ch payload (sEncrypted s)
               then (Return (reportStats srv (sample StatsDroppedChannel sid (sUserID s) (ChannelType ch) (length p))), srv)
               else (case acceptPacket s seq now (Some udpAddr) of (d, s') \<Rightarrow>
                  let srv' = srv\<lparr>u_manager := (u_manager srv)\<lparr>heap := fmupd r s' (heap (u_manager srv))\<rparr>\<rparr>
                  in (case d of
                        Return receiveDroppedReplay \<Rightarrow>
                          (Return (reportStats srv (sample StatsDroppedReplay sid (sUserID s) (ChannelType ch) (length p))), srv')
                      | Return receiveDroppedRateLimit \<Rightarrow>
                          (Return (reportStats srv (sample StatsDroppedSessionRateLimit sid (sUserID s) (ChannelType ch) (length p))), srv')
                      | Return receiveDroppedInactive \<Rightarrow> (Return [], srv')
                      | Return receiveAccepted \<Rightarrow>
                          if ChannelType ch = HeartbeatChannelType
                          then (Return (reportStats srv (sample StatsHeartbeatReceived sid (sUserID s) 0 (length p))), srv')
                          else (Return ((if u_onFrame srv
                                         then [UFrame \<lparr>fr_UserID = sUserID s, fr_SessionID = sid, fr_ChannelType = ChannelType ch,
                                                  fr_ChannelSeq = ChannelSeq ch, fr_TransportSeq = seq, fr_Payload = payload\<rparr>]
                                         else []) @
                                        reportStats srv (sample StatsFrameDelivered sid (sUserID s) (ChannelType ch) (length p))), srv')
                      | _ \<Rightarrow> (Panic, srv')))))"

text \<open>\<open>now\<close> is the receive time, \<open>clk\<close> the reading of a bucket created for a new source, \<open>now2\<close> the
  reading of the session lookup.\<close>

definition handleDatagram ::
  "UDPServer \<Rightarrow> bytes \<Rightarrow> net_addr \<Rightarrow> gotime \<Rightarrow> gotime \<Rightarrow> gotime
     \<Rightarrow> (proto_error, udp_effect list) outcome \<times> UDPServer" where
  "handleDatagram srv p addr now clk now2 =
     (let received = reportStats srv (sample StatsPacketReceived 0 0 0 (length p));
          drop = (\<lambda>kind sid pre srv'. (Return (received @ pre @ reportStats srv (sample kind sid 0 0 (length p))), srv'))
      in case addr of NetOther \<Rightarrow> drop StatsDroppedMalformed 0 [] srv
      | NetUDP udpAddr \<Rightarrow>
         (case AddrFromSlice (udp_ip udpAddr) of None \<Rightarrow> drop StatsDroppedMalformed 0 [] srv
          | Some addrIP \<Rightarrow>
             (case ingressAllow (u_ingress srv) addrIP now clk of (decision, l') \<Rightarrow>
                let srv1 = srv\<lparr>u_ingress := l'\<rparr>
                in (case decision of
                      IngressDroppedGlobal \<Rightarrow> drop StatsDroppedGlobalIngress 0 [] srv1
                    | IngressDroppedSource \<Rightarrow> drop StatsDroppedSourceIngress 0 [] srv1
                    | IngressDroppedTableFull \<Rightarrow> drop StatsDroppedSourceTableFull 0 [] srv1
                    | IngressAllowed \<Rightarrow>
                       (case parseOuterHeader p of (sid, seq, ok) \<Rightarrow>
                          if \<not> ok then drop StatsDroppedMalformed 0 [] srv1
                          else (case getSession (u_manager srv1) sid now2 of (found, es, m1) \<Rightarrow>
                             let srv2 = srv1\<lparr>u_manager := m1\<rparr>
                             in (case found of
                                   None \<Rightarrow> drop StatsDroppedUnknownSession sid (map UManager es) srv2
                                 | Some r \<Rightarrow>
                                     (case receiveSession srv2 r sid seq p udpAddr now of
                                        (Return es', srv3) \<Rightarrow> (Return (received @ map UManager es @ es'), srv3)
                                      | (Fail e, srv3) \<Rightarrow> (Fail e, srv3)
                                      | (Panic, srv3) \<Rightarrow> (Panic, srv3)))))))))"

text \<open>One tick of \<^verbatim>\<open>PurgeLoop\<close>.\<close>

definition purgeTick :: "UDPServer \<Rightarrow> gotime \<Rightarrow> gotime \<Rightarrow> udp_effect list \<times> UDPServer" where
  "purgeTick srv now now2 =
     (case Purge (u_manager srv) now of (n, es, m1) \<Rightarrow>
        (map UManager es, srv\<lparr>u_manager := m1, u_ingress := snd (ingressSweepLocked (u_ingress srv) now2)\<rparr>))"

section \<open>Theorems\<close>

subsection \<open>The body of a datagram\<close>

definition keys_ok :: "Manager \<Rightarrow> bool" where
  "keys_ok m \<longleftrightarrow> (\<forall>r s a. fmlookup (heap m) r = Some s \<longrightarrow> sC2S s = Some a \<longrightarrow> aead_ok a)"

text \<open>What a body that passes authentication and parsing is.\<close>

definition authentic :: "Session \<Rightarrow> uint64 \<Rightarrow> bytes \<Rightarrow> ChannelHeader \<Rightarrow> bytes \<Rightarrow> bool" where
  "authentic s seq p ch payload \<longleftrightarrow>
     (if sEncrypted s
      then openWithAEAD (sC2S s) seq (take HeaderSize p) (drop HeaderSize p) = Return (channel_header ch @ payload)
      else drop HeaderSize p = channel_header ch @ payload)"

lemma openBody_no_panic:
  assumes "\<And>a. sC2S s = Some a \<Longrightarrow> aead_ok a"
  shows "openBody s seq p \<noteq> Panic"
proof -
  have "ChannelHeaderSize \<le> length plaintext"
    if "sC2S s = Some a" "MinPacketSize True \<le> length p" "openWithAEAD (Some a) seq (take HeaderSize p) (drop HeaderSize p) = Return plaintext"
    for a plaintext
  proof -
    have "aead_open a (NonceFor seq) (drop HeaderSize p) (take HeaderSize p) = Some plaintext"
      using that(3) by (auto simp: openWithAEAD_def split: if_splits option.splits)
    from aead_okD(3) [OF assms [OF that(1)] this] that(2) show ?thesis by (simp add: size_consts)
  qed
  then show ?thesis
    by (auto simp: openBody_def cryptoSnapshot_def slice_to_def slice_from_def size_consts openWithAEAD_def
        split: option.splits outcome.splits prod.splits if_splits)
qed

lemma openBody_authentic:
  assumes "openBody s seq p = Return (ch, payload)"
  shows "authentic s seq p ch payload"
proof -
  have body: "body = channel_header ch @ payload"
    if "ChannelHeaderSize \<le> length body" "parseChannelHeader (take ChannelHeaderSize body) = (ch, True)" "payload = drop ChannelHeaderSize body" for body
    using that parseChannelHeader_sound [of "take ChannelHeaderSize body" ch]
      append_take_drop_id [of ChannelHeaderSize body] by simp
  show ?thesis
    using assms body
    by (auto simp: openBody_def authentic_def cryptoSnapshot_def slice_to_def slice_from_def
        split: option.splits outcome.splits prod.splits if_splits)
qed

subsection \<open>The read pipeline\<close>

lemma acceptPacket_no_panic: "\<exists>d. fst (acceptPacket s seq now remote) = Return d"
  using acceptPacket_cases [of s seq now remote] by (auto split: prod.splits outcome.splits)

lemma acceptPacket_dropped:
  assumes "acceptPacket s seq now remote = (Return d, t)" and "d \<noteq> receiveAccepted"
  shows "sExpiresAt t = sExpiresAt s \<and> sRemote t = sRemote s \<and> sReplay t = sReplay s"
  using acceptPacket_cases [of s seq now remote] assms by (cases d) auto

lemma acceptPacket_accepted:
  assumes "acceptPacket s seq now remote = (Return receiveAccepted, t)"
  shows "sActive s \<and> WouldAccept (sReplay s) seq"
  using acceptPacket_cases [of s seq now remote] assms by auto

text \<open>When the session a datagram was looked up for moves, and what is delivered.\<close>

definition admitted :: "UDPServer \<Rightarrow> Session \<Rightarrow> uint64 \<Rightarrow> bytes \<Rightarrow> ChannelHeader \<Rightarrow> bytes \<Rightarrow> bool" where
  "admitted srv s seq p ch payload \<longleftrightarrow> authentic s seq p ch payload \<and> validInboundChannel srv ch payload (sEncrypted s) \<and>
     sActive s \<and> WouldAccept (sReplay s) seq"

lemma receiveSession_effect:
  assumes s: "fmlookup (heap (u_manager srv)) r = Some s"
    and rs: "receiveSession srv r sid seq p a now = (out, srv')"
  shows "\<exists>t. heap (u_manager srv') = fmupd r t (heap (u_manager srv)) \<and>
      ((sExpiresAt t = sExpiresAt s \<and> sRemote t = sRemote s \<and> sReplay t = sReplay s) \<or> (\<exists>ch payload. admitted srv s seq p ch payload))"
    and "\<lbrakk>out = Return es; UFrame f \<in> set es\<rbrakk> \<Longrightarrow> \<exists>ch payload. admitted srv s seq p ch payload \<and>
      ChannelType ch \<noteq> HeartbeatChannelType \<and> f = \<lparr>fr_UserID = sUserID s, fr_SessionID = sid, fr_ChannelType = ChannelType ch,
        fr_ChannelSeq = ChannelSeq ch, fr_TransportSeq = seq, fr_Payload = payload\<rparr>"
    and "\<lbrakk>\<And>a. sC2S s = Some a \<Longrightarrow> aead_ok a\<rbrakk> \<Longrightarrow> \<exists>es. out = Return es"
proof -
  have same: "fmupd r s (heap (u_manager srv)) = heap (u_manager srv)"
    by (rule fmap_ext) (use s in auto)
  obtain d t where dt: "acceptPacket s seq now (Some a) = (Return d, t)"
    using acceptPacket_no_panic [of s seq now "Some a"] by (metis prod.collapse)
  note defs = receiveSession_def s dt option.case outcome.case
  show "\<exists>t. heap (u_manager srv') = fmupd r t (heap (u_manager srv)) \<and>
      ((sExpiresAt t = sExpiresAt s \<and> sRemote t = sRemote s \<and> sReplay t = sReplay s) \<or> (\<exists>ch payload. admitted srv s seq p ch payload))"
  proof (cases "\<exists>ch payload. openBody s seq p = Return (ch, payload) \<and> validInboundChannel srv ch payload (sEncrypted s)")
    case False
    then have "srv' = srv" using rs by (auto simp: defs split: outcome.splits prod.splits if_splits)
    with same show ?thesis by (intro exI [of _ s]) simp
  next
    case True
    then obtain ch payload where o: "openBody s seq p = Return (ch, payload)" "validInboundChannel srv ch payload (sEncrypted s)" by blast
    then have "heap (u_manager srv') = fmupd r t (heap (u_manager srv))"
      using rs by (auto simp: defs Let_def split: receiveDecision.splits if_splits)
    moreover have "d = receiveAccepted \<Longrightarrow> admitted srv s seq p ch payload"
      using o dt acceptPacket_accepted openBody_authentic by (auto simp: admitted_def)
    ultimately show ?thesis using acceptPacket_dropped [OF dt] by blast
  qed
  show "\<exists>es. out = Return es" if "\<And>a. sC2S s = Some a \<Longrightarrow> aead_ok a"
    using rs openBody_no_panic [OF that] by (auto simp: defs Let_def split: outcome.splits prod.splits if_splits receiveDecision.splits)
  show "\<exists>ch payload. admitted srv s seq p ch payload \<and>
      ChannelType ch \<noteq> HeartbeatChannelType \<and> f = \<lparr>fr_UserID = sUserID s, fr_SessionID = sid, fr_ChannelType = ChannelType ch,
        fr_ChannelSeq = ChannelSeq ch, fr_TransportSeq = seq, fr_Payload = payload\<rparr>" if fr: "out = Return es" "UFrame f \<in> set es"
  proof -
    obtain ch payload where "openBody s seq p = Return (ch, payload)" "validInboundChannel srv ch payload (sEncrypted s)"
      "d = receiveAccepted" "ChannelType ch \<noteq> HeartbeatChannelType" "f = \<lparr>fr_UserID = sUserID s, fr_SessionID = sid, fr_ChannelType = ChannelType ch,
        fr_ChannelSeq = ChannelSeq ch, fr_TransportSeq = seq, fr_Payload = payload\<rparr>"
      using rs fr by (auto simp: defs Let_def reportStats_def split: outcome.splits prod.splits if_splits receiveDecision.splits)
    with dt show ?thesis using acceptPacket_accepted openBody_authentic unfolding admitted_def by blast
  qed
qed

lemma getSession_found:
  assumes "getSession m sid now = (Some r, es, m')"
  shows "m' = m \<and> es = [] \<and> (\<exists>s. lookupSession m sid = Some (r, s) \<and> \<not> expiredLocked s (unix_milli now))"
  using assms by (auto simp: getSession_def getSessionStaged_def split: option.splits prod.splits if_splits)

lemma getSession_missing:
  assumes "table_ok m" "getSession m sid now = (None, es, m')" "fmlookup (heap m) q = Some s"
  shows "\<exists>t. fmlookup (heap m') q = Some t \<and> sExpiresAt t = sExpiresAt s \<and> sRemote t = sRemote s \<and> sReplay t = sReplay s"
proof (cases "lookupSession m sid")
  case (Some rs)
  obtain r v where rs: "rs = (r, v)" by force
  obtain d es2 m2 where e: "expireSession m sid r (sUserID v) = (d, es2, m2)" by (metis prod_cases3)
  then have "m' = m2" using assms(2) Some rs by (auto simp: getSession_def getSessionStaged_def split: if_splits prod.splits)
  moreover note expireSession_steps(3) [OF assms(1) Some [unfolded rs] e] lookupSession_SomeD [OF Some [unfolded rs]]
  ultimately show ?thesis using assms(3) by (auto simp: same_tables_def remove_entry_def deactivateLocked_def)
qed (use assms in \<open>auto simp: getSession_def getSessionStaged_def\<close>)

lemma valid_ingress_irrelevant [simp]: "validInboundChannel (srv\<lparr>u_manager := m, u_ingress := l\<rparr>) = validInboundChannel srv"
  "admitted (srv\<lparr>u_manager := m, u_ingress := l\<rparr>) = admitted srv"
  "validInboundChannel (srv\<lparr>u_ingress := l\<rparr>) = validInboundChannel srv" "admitted (srv\<lparr>u_ingress := l\<rparr>) = admitted srv"
  by (intro ext; simp add: validInboundChannel_def admitted_def)+

text \<open>A datagram either ends before a live session is found, or goes on to \<open>receiveSession\<close> with only
  the ingress state changed.\<close>

definition stops_early :: "UDPServer \<Rightarrow> (proto_error, udp_effect list) outcome \<Rightarrow> UDPServer \<Rightarrow> bool" where
  "stops_early srv out srv' \<longleftrightarrow>
     (\<exists>es. out = Return es \<and> (\<forall>f. UFrame f \<notin> set es)) \<and>
     (\<forall>q s. fmlookup (heap (u_manager srv)) q = Some s \<longrightarrow>
        (\<exists>t. fmlookup (heap (u_manager srv')) q = Some t \<and> sExpiresAt t = sExpiresAt s \<and> sRemote t = sRemote s \<and> sReplay t = sReplay s))"

lemma stops_early_same: "u_manager srv' = u_manager srv \<Longrightarrow> stops_early srv (Return (reportStats srv a @ es @ reportStats srv b)) srv'
    \<longleftrightarrow> (\<forall>f. UFrame f \<notin> set es)"
  by (auto simp: stops_early_def reportStats_def)

lemma stops_early_missing:
  assumes "table_ok (u_manager srv)" "getSession (u_manager srv) sid now = (None, es, m')" "u_manager srv' = m'"
  shows "stops_early srv (Return (reportStats srv a @ map UManager es @ reportStats srv b)) srv'"
  using getSession_missing [OF assms(1,2)] assms(3) by (auto simp: stops_early_def reportStats_def)

lemma handleDatagram_path:
  assumes ok: "table_ok (u_manager srv)" and h: "handleDatagram srv p addr now clk now2 = (out, srv')"
  obtains (early) "stops_early srv out srv'"
  | (session) a l sid seq r s out' where "addr = NetUDP a" "parseOuterHeader p = (sid, seq, True)"
      "lookupSession (u_manager srv) sid = Some (r, s)" "\<not> expiredLocked s (unix_milli now2)"
      "receiveSession (srv\<lparr>u_ingress := l\<rparr>) r sid seq p a now = (out', srv')"
      "\<And>es. out' = Return es \<Longrightarrow> \<exists>pre. out = Return (pre @ es) \<and> (\<forall>f. UFrame f \<notin> set pre)"
      "out' = Panic \<Longrightarrow> out = Panic"
proof (cases "\<exists>a ip l. addr = NetUDP a \<and> AddrFromSlice (udp_ip a) = Some ip \<and> ingressAllow (u_ingress srv) ip now clk = (IngressAllowed, l)")
  case False
  then have "stops_early srv out srv'"
    using h by (auto simp: handleDatagram_def Let_def stops_early_same [where es = "[]", simplified]
        split: net_addr.splits option.splits prod.splits IngressDecision.splits)
  then show ?thesis by (rule early)
next
  case True
  then obtain a ip l where a: "addr = NetUDP a" "AddrFromSlice (udp_ip a) = Some ip" "ingressAllow (u_ingress srv) ip now clk = (IngressAllowed, l)"
    by blast
  obtain sid seq ok where p: "parseOuterHeader p = (sid, seq, ok)" by (metis prod_cases3)
  obtain found es m' where g: "getSession (u_manager srv) sid now2 = (found, es, m')" by (metis prod_cases3)
  show ?thesis
  proof (cases "ok \<and> found \<noteq> None")
    case False
    then have "stops_early srv out srv'"
      using h a p g stops_early_missing [OF assms(1)]
      by (auto simp: handleDatagram_def Let_def stops_early_same [where es = "[]", simplified] split: if_splits)
    then show ?thesis by (rule early)
  next
    case True
    then obtain r where r: "found = Some r" "ok" by auto
    note f = getSession_found [OF g [unfolded r]]
    obtain out' srv3 where rs: "receiveSession (srv\<lparr>u_ingress := l\<rparr>) r sid seq p a now = (out', srv3)" by force
    have m: "srv\<lparr>u_ingress := l, u_manager := u_manager srv\<rparr> = srv\<lparr>u_ingress := l\<rparr>" by simp
    have "srv' = srv3" "\<forall>es. out' = Return es \<longrightarrow> (\<exists>pre. out = Return (pre @ es) \<and> (\<forall>f. UFrame f \<notin> set pre))" "out' = Panic \<longrightarrow> out = Panic"
      using h a p g f r rs
      by (auto simp: handleDatagram_def Let_def m reportStats_def split: outcome.splits intro: exI [of _ "[]"])
    moreover have "parseOuterHeader p = (sid, seq, True)" using p r by simp
    ultimately show ?thesis using session a(1) f rs by blast
  qed
qed

text \<open>C29. The read loop cannot be crashed: whatever bytes arrive from whatever address at whatever time,
  the pipeline returns without a panic, no slice bound fails and the replay check stays consistent,
  provided the session tables are consistent and the session ciphers obey the AEAD contract.\<close>

theorem datagram_never_panics:
  assumes "table_ok (u_manager srv)" and "keys_ok (u_manager srv)"
  shows "\<exists>es. fst (handleDatagram srv p addr now clk now2) = Return es"
proof -
  obtain out srv' where h: "handleDatagram srv p addr now clk now2 = (out, srv')" by force
  from assms(1) h show ?thesis
  proof (cases rule: handleDatagram_path)
    case early
    with h show ?thesis by (auto simp: stops_early_def)
  next
    case (session a l sid seq r s out')
    have s: "fmlookup (heap (u_manager (srv\<lparr>u_ingress := l\<rparr>))) r = Some s" using lookupSession_SomeD [OF session(3)] by simp
    then have "\<And>a. sC2S s = Some a \<Longrightarrow> aead_ok a" using assms(2) by (auto simp: keys_ok_def)
    from receiveSession_effect(3) [OF s session(5) this] session(6) h show ?thesis by auto
  qed
qed

text \<open>A server over the demonstration manager with one registered stream.\<close>

definition demo_server :: UDPServer where
  "demo_server = \<lparr>u_manager = mgr_of demo_active, u_registry = snd (Register NewChannelTypeRegistry 1 audio_caps),
     u_onFrame = True, u_stats = True, u_ingress = demo_limiter, u_conn = Some 3, u_started = True, u_closed = False\<rparr>"

definition demo_addr :: UDPAddr where
  "demo_addr = \<lparr>udp_ip = [10, 0, 0, 1], udp_port = 4000, udp_zone = []\<rparr>"

lemma demo_server_ok: "table_ok (u_manager demo_server)" "keys_ok (u_manager demo_server)"
  using demo_ok
  by (auto simp: demo_server_def system_ok_def keys_ok_def demo_active_def publish_entry_def demo_prepared_def
      demo_mgr_def demo_session_def newSession_def split: if_splits)

text \<open>C8. Only authenticated, valid, fresh traffic moves a session: when a datagram changes the lifetime, the
  learned address or the replay window of any session, then the datagram names that session, the
  session was published and not past its deadline, the body authenticates under its client key
  (or the session is plaintext), the channel header is legal, and the sequence number is fresh.
  Every other datagram leaves all three untouched in every session.\<close>

theorem only_admitted_traffic_moves_session:
  assumes "table_ok (u_manager srv)" and "handleDatagram srv p addr now clk now2 = (out, srv')"
    and "fmlookup (heap (u_manager srv)) q = Some s"
  shows "\<exists>t. fmlookup (heap (u_manager srv')) q = Some t \<and>
    ((sExpiresAt t = sExpiresAt s \<and> sRemote t = sRemote s \<and> sReplay t = sReplay s) \<or>
     (\<exists>a seq ch payload. addr = NetUDP a \<and> parseOuterHeader p = (sID s, seq, True) \<and>
        fmlookup (sessions (u_manager srv)) (sID s) = Some q \<and> unix_milli now2 < sExpiresAt s \<and>
        authentic s seq p ch payload \<and> validInboundChannel srv ch payload (sEncrypted s) \<and>
        sActive s \<and> WouldAccept (sReplay s) seq))"
  using assms(1,2)
proof (cases rule: handleDatagram_path)
  case early
  then show ?thesis using assms(3) unfolding stops_early_def by blast
next
  case (session a l sid seq r v out')
  note v = lookupSession_SomeD [OF session(3)]
  then have hv: "fmlookup (heap (u_manager (srv\<lparr>u_ingress := l\<rparr>))) r = Some v" by simp
  obtain t where t: "heap (u_manager srv') = fmupd r t (heap (u_manager srv))"
    "(sExpiresAt t = sExpiresAt v \<and> sRemote t = sRemote v \<and> sReplay t = sReplay v) \<or> (\<exists>ch payload. admitted srv v seq p ch payload)"
    using receiveSession_effect(1) [OF hv session(5)] by auto
  show ?thesis
  proof (cases "q = r")
    case True
    with v assms(3) have "v = s" by simp
    moreover have "sID v = sid" using table_session_ref [OF assms(1)] v by blast
    ultimately show ?thesis using t True session v by (auto simp: admitted_def expiredLocked_def)
  qed (use t assms(3) in auto)
qed

theorem only_admitted_traffic_moves_session_witness:
  "case handleDatagram demo_server [90, 86] (NetUDP demo_addr) 0 0 0 of (out, srv') \<Rightarrow>
   \<exists>t. fmlookup (heap (u_manager srv')) 0 = Some t \<and>
    ((sExpiresAt t = sExpiresAt demo_session \<and> sRemote t = sRemote demo_session \<and> sReplay t = sReplay demo_session) \<or>
     (\<exists>a seq ch payload. NetUDP demo_addr = NetUDP a \<and> parseOuterHeader [90, 86] = (sID demo_session, seq, True) \<and>
        fmlookup (sessions (u_manager demo_server)) (sID demo_session) = Some 0 \<and> unix_milli 0 < sExpiresAt demo_session \<and>
        authentic demo_session seq [90, 86] ch payload \<and> validInboundChannel demo_server ch payload (sEncrypted demo_session) \<and>
        sActive demo_session \<and> WouldAccept (sReplay demo_session) seq))"
proof -
  obtain out srv' where h: "handleDatagram demo_server [90, 86] (NetUDP demo_addr) 0 0 0 = (out, srv')" by force
  have "fmlookup (heap (u_manager demo_server)) 0 = Some demo_session"
    by (simp add: demo_server_def demo_active_def publish_entry_def demo_prepared_def)
  from only_admitted_traffic_moves_session [OF demo_server_ok(1) h this] show ?thesis unfolding h by simp
qed

text \<open>What reaches the relay: a delivered frame carries the owner of a published live session, a
  registered non-heartbeat stream type, the channel sequence and payload that the datagram
  authenticates to, with no channel flag and no speaker id set, and its transport sequence was
  fresh for that session.\<close>

theorem delivered_frame_sound:
  assumes "table_ok (u_manager srv)" and "handleDatagram srv p addr now clk now2 = (Return es, srv')" and "UFrame f \<in> set es"
  shows "\<exists>r s ch. lookupSession (u_manager srv) (fr_SessionID f) = Some (r, s) \<and> unix_milli now2 < sExpiresAt s \<and>
     fr_UserID f = sUserID s \<and> fmlookup (byUser (u_manager srv)) (fr_UserID f) = Some (fr_SessionID f) \<and>
     parseOuterHeader p = (fr_SessionID f, fr_TransportSeq f, True) \<and>
     authentic s (fr_TransportSeq f) p ch (fr_Payload f) \<and>
     ch = \<lparr>ChannelType = fr_ChannelType f, ChannelSeq = fr_ChannelSeq f, Flags = 0, SpeakerID = 0\<rparr> \<and>
     fr_ChannelType f \<noteq> HeartbeatChannelType \<and> Registered (u_registry srv) (fr_ChannelType f) \<and>
     WouldAccept (sReplay s) (fr_TransportSeq f)"
  using assms(1,2)
proof (cases rule: handleDatagram_path)
  case early
  then show ?thesis using assms(3) by (auto simp: stops_early_def)
next
  case (session a l sid seq r v out')
  note v = lookupSession_SomeD [OF session(3)]
  then have hv: "fmlookup (heap (u_manager (srv\<lparr>u_ingress := l\<rparr>))) r = Some v" by simp
  have "out' \<noteq> Panic" using session(7) by auto
  moreover have "out' \<noteq> Fail e" for e
    using session(5) by (auto simp: receiveSession_def Let_def split: option.splits outcome.splits prod.splits if_splits receiveDecision.splits)
  ultimately obtain es' where es': "out' = Return es'" by (cases out') auto
  then have fr: "UFrame f \<in> set es'" using session(6) [OF es'] assms(3) by auto
  obtain ch payload where c: "admitted srv v seq p ch payload" "ChannelType ch \<noteq> HeartbeatChannelType"
    "f = \<lparr>fr_UserID = sUserID v, fr_SessionID = sid, fr_ChannelType = ChannelType ch,
        fr_ChannelSeq = ChannelSeq ch, fr_TransportSeq = seq, fr_Payload = payload\<rparr>"
    using receiveSession_effect(2) [OF hv session(5) es' fr] by auto
  moreover have "fmlookup (byUser (u_manager srv)) (sUserID v) = Some sid" using table_session_ref [OF assms(1)] v by blast
  ultimately show ?thesis using session
    by (intro exI [of _ r] exI [of _ v] exI [of _ ch])
      (auto simp: admitted_def validInboundChannel_def expiredLocked_def split: if_splits)
qed

subsection \<open>Delivery\<close>

lemma openBody_buildPacket:
  assumes b: "buildPacket sid seq (sEncrypted s) (sC2S s) ch payload = Return p"
    and ok: "\<And>a. sC2S s = Some a \<Longrightarrow> aead_ok a"
  shows "parseOuterHeader p = (sid, seq, True)" "openBody s seq p = Return (ch, payload)" "length payload \<le> MaxPayload (sEncrypted s)"
proof -
  have len: "length p = MinPacketSize (sEncrypted s) + length payload" "length p \<le> MaxPacketSize"
    by (rule buildPacket_length [OF b]; use ok in auto)+
  obtain body where p: "p = outer_header sid seq @ body" and seq: "seq \<noteq> 0" "length payload \<le> MaxPayload (sEncrypted s)"
    and pl: "\<not> sEncrypted s \<Longrightarrow> body = channel_header ch @ payload"
    and en: "sEncrypted s \<Longrightarrow> \<exists>g. sC2S s = Some g \<and> body = aead_seal g (NonceFor seq) (channel_header ch @ payload) (outer_header sid seq)"
    using b by (auto simp: buildPacket_eq split: if_splits option.splits)
  show "parseOuterHeader p = (sid, seq, True)" using parse_outer_header [OF seq(1), of body sid] len p by simp
  have rest: "take HeaderSize p = outer_header sid seq" "drop HeaderSize p = body" "HeaderSize \<le> length p" by (simp_all add: p)
  show "openBody s seq p = Return (ch, payload)"
  proof (cases "sEncrypted s")
    case True
    then obtain g where g: "sC2S s = Some g" "body = aead_seal g (NonceFor seq) (channel_header ch @ payload) (outer_header sid seq)"
      using en by blast
    with True len rest seq aead_okD(1) [OF ok [OF g(1)]] show ?thesis
      by (simp add: openBody_def cryptoSnapshot_def slice_to_def slice_from_def openWithAEAD_def)
  next
    case False
    with len rest pl show ?thesis
      by (simp add: openBody_def cryptoSnapshot_def slice_to_def slice_from_def)
  qed
  show "length payload \<le> MaxPayload (sEncrypted s)" by (rule seq(2))
qed

lemma acceptPacket_accepts:
  assumes "sActive s" "WouldAccept (sReplay s) seq" "fst (TakeAt (sBudget s) now)"
  shows "\<exists>t. acceptPacket s seq now remote = (Return receiveAccepted, t)"
  using assms replay_window.would_accept [of "sReplay s" seq]
  by (auto simp: acceptPacket_def Let_def split: prod.splits)

lemma handleDatagram_delivers:
  assumes "table_ok (u_manager srv)" "u_onFrame srv"
    and "lookupSession (u_manager srv) sid = Some (r, s)" "unix_milli now2 < sExpiresAt s"
    and "AddrFromSlice (udp_ip a) = Some ip" "fst (ingressAllow (u_ingress srv) ip now clk) = IngressAllowed"
    and "\<And>g. sC2S s = Some g \<Longrightarrow> aead_ok g"
    and "buildPacket sid seq (sEncrypted s) (sC2S s) \<lparr>ChannelType = ct, ChannelSeq = cs, Flags = 0, SpeakerID = 0\<rparr> payload = Return p"
    and "ct \<noteq> HeartbeatChannelType" "Registered (u_registry srv) ct"
    and "WouldAccept (sReplay s) seq" "fst (TakeAt (sBudget s) now)"
  shows "\<exists>es. fst (handleDatagram srv p (NetUDP a) now clk now2) = Return es \<and>
    UFrame \<lparr>fr_UserID = sUserID s, fr_SessionID = sid, fr_ChannelType = ct, fr_ChannelSeq = cs, fr_TransportSeq = seq, fr_Payload = payload\<rparr> \<in> set es"
proof -
  note s = lookupSession_SomeD [OF assms(3)]
  note o = openBody_buildPacket [OF assms(8,7)]
  obtain l where l: "ingressAllow (u_ingress srv) ip now clk = (IngressAllowed, l)" using assms(6) by (metis prod.collapse)
  have g: "getSession (u_manager srv) sid now2 = (Some r, [], u_manager srv)"
    using assms(3,4) by (simp add: getSession_def getSessionStaged_def expiredLocked_def)
  have "sActive s" using table_session_ref [OF assms(1)] s by blast
  then obtain t where t: "acceptPacket s seq now (Some a) = (Return receiveAccepted, t)"
    using acceptPacket_accepts assms(11,12) by blast
  show ?thesis
    using assms(2,5,9,10) s o l g t
    by (simp add: handleDatagram_def receiveSession_def validInboundChannel_def Let_def)
qed

text \<open>Delivery: a client that builds its datagram with the session's client key, a fresh non-zero
  sequence number and a registered stream type has its payload delivered to the relay unchanged,
  under its own user id, whenever the session is live and the source and session budgets allow it.\<close>

theorem client_frame_delivered:
  assumes "table_ok (u_manager srv)" and "u_onFrame srv"
    and "lookupSession (u_manager srv) sid = Some (r, s)" and "unix_milli now2 < sExpiresAt s"
    and "AddrFromSlice (udp_ip a) = Some ip" and "fst (ingressAllow (u_ingress srv) ip now clk) = IngressAllowed"
    and "\<And>g. sC2S s = Some g \<Longrightarrow> aead_ok g"
    and "buildPacket sid seq (sEncrypted s) (sC2S s) \<lparr>ChannelType = ct, ChannelSeq = cs, Flags = 0, SpeakerID = 0\<rparr> payload = Return p"
    and "ct \<noteq> HeartbeatChannelType" and "Registered (u_registry srv) ct"
    and "WouldAccept (sReplay s) seq" and "fst (TakeAt (sBudget s) now)"
  shows "\<exists>es. fst (handleDatagram srv p (NetUDP a) now clk now2) = Return es \<and>
    UFrame \<lparr>fr_UserID = sUserID s, fr_SessionID = sid, fr_ChannelType = ct, fr_ChannelSeq = cs, fr_TransportSeq = seq, fr_Payload = payload\<rparr> \<in> set es"
  using assms by (rule handleDatagram_delivers)

definition demo_packet :: bytes where
  "demo_packet = outer_header 1 5 @ channel_header \<lparr>ChannelType = 1, ChannelSeq = 9, Flags = 0, SpeakerID = 0\<rparr> @ [1, 2, 3]"

definition demo_frame :: InboundFrame where
  "demo_frame = \<lparr>fr_UserID = 7, fr_SessionID = 1, fr_ChannelType = 1, fr_ChannelSeq = 9, fr_TransportSeq = 5, fr_Payload = [1, 2, 3]\<rparr>"

lemma TakeAt_now: "tokens b \<ge> 1 \<Longrightarrow> fst (TakeAt b (last_refill b))"
  by (simp add: TakeAt_def refillLocked_def time_sub_def dur_seconds_def go_quot_def go_rem_def max_int64_def min_int64_def
      fl64_def Let_def)

lemma NewTokenBucket_take: "n \<ge> 1 \<Longrightarrow> fst (TakeAt (NewTokenBucket x n t) t)"
  using TakeAt_now [of "NewTokenBucket x n t"] fl64_ge_1 [of "of_int n"] by (simp add: NewTokenBucket_def)

lemma demo_ingress: "fst (ingressAllow demo_limiter ip 0 0) = IngressAllowed"
proof -
  have "fst (TakeAt (il_global demo_limiter) 0)" unfolding demo_limiter_def by (simp add: NewTokenBucket_take)
  moreover have "fst (TakeAt (NewTokenBucket 1200 2400 0) 0)" by (rule NewTokenBucket_take) simp
  ultimately show ?thesis
    by (auto simp: ingressAllow_def Let_def demo_limiter_def DefaultIngressLimits_def split: prod.splits)
qed

lemma demo_session_facts:
  "lookupSession (u_manager demo_server) 1 = Some (0, demo_session)" "sEncrypted demo_session = False" "sC2S demo_session = None"
  "sUserID demo_session = 7" "unix_milli 0 < sExpiresAt demo_session" "WouldAccept (sReplay demo_session) 5"
  "fst (TakeAt (sBudget demo_session) 0)"
  "buildPacket 1 5 False None \<lparr>ChannelType = 1, ChannelSeq = 9, Flags = 0, SpeakerID = 0\<rparr> [1, 2, 3] = Return demo_packet"
  "Registered (u_registry demo_server) 1" "AddrFromSlice (udp_ip demo_addr) \<noteq> None" "u_onFrame demo_server" "u_ingress demo_server = demo_limiter"
  by (simp_all add: lookupSession_def demo_server_def demo_active_def publish_entry_def demo_prepared_def demo_session_def newSession_def
      unix_milli_def SessionTTL_def WouldAccept_def emptyWindow_def NewTokenBucket_take DefaultLimits_def SessionBurst_def
      buildPacket_eq demo_packet_def size_consts Registered_def Register_def NewChannelTypeRegistry_def HeartbeatChannelType_def
      AddrFromSlice_def demo_addr_def)

lemma demo_delivery:
  "\<exists>es. fst (handleDatagram demo_server demo_packet (NetUDP demo_addr) 0 0 0) = Return es \<and> UFrame demo_frame \<in> set es"
proof -
  obtain ip where "AddrFromSlice (udp_ip demo_addr) = Some ip" using demo_session_facts by auto
  from handleDatagram_delivers [OF demo_server_ok(1) _ demo_session_facts(1) _ this, of 0 0 0 5 1 9 "[1, 2, 3]" demo_packet]
  show ?thesis
    by (simp add: demo_session_facts demo_ingress demo_frame_def HeartbeatChannelType_def)
qed

text \<open>The same server with an encrypted session: its two ciphers obey the AEAD contract and its peer address is known.\<close>

definition demo_key :: bytes where "demo_key = replicate 32 1"

definition keyed_session :: Session where
  "keyed_session = (newSession 1 7 [] True 0 (Some (toy_gcm demo_key)) (Some (toy_gcm demo_key)) DefaultLimits 0)\<lparr>sRemote := Some demo_addr\<rparr>"

definition keyed_server :: UDPServer where
  "keyed_server = demo_server\<lparr>u_manager := (mgr_of demo_active)\<lparr>heap := fmupd 0 keyed_session fmempty\<rparr>\<rparr>"

definition sealed_packet :: bytes where
  "sealed_packet = outer_header 1 5 @ channel_header \<lparr>ChannelType = 1, ChannelSeq = 9, Flags = 0, SpeakerID = 0\<rparr> @ [1, 2, 3] @ replicate 16 7"

lemma keyed_manager:
  "sessions (u_manager keyed_server) = fmupd 1 0 fmempty" "byUser (u_manager keyed_server) = fmupd 7 1 fmempty"
  "heap (u_manager keyed_server) = fmupd 0 keyed_session fmempty" "next_ref (u_manager keyed_server) = 1"
  "sID keyed_session = 1" "sUserID keyed_session = 7" "sActive keyed_session" "sC2S keyed_session = Some (toy_gcm demo_key)"
  by (simp_all add: keyed_server_def keyed_session_def demo_active_def publish_entry_def demo_prepared_def demo_mgr_def demo_session_def newSession_def)

lemma keyed_server_ok: "table_ok (u_manager keyed_server)" "keys_ok (u_manager keyed_server)"
  by (auto simp: table_ok_def keys_ok_def keyed_manager toy_gcm_ok split: if_splits)

lemma keyed_session_facts:
  "lookupSession (u_manager keyed_server) 1 = Some (0, keyed_session)" "sEncrypted keyed_session" "sC2S keyed_session = Some (toy_gcm demo_key)"
  "sUserID keyed_session = 7" "unix_milli 0 < sExpiresAt keyed_session" "WouldAccept (sReplay keyed_session) 5"
  "fst (TakeAt (sBudget keyed_session) 0)"
  "buildPacket 1 5 True (Some (toy_gcm demo_key)) \<lparr>ChannelType = 1, ChannelSeq = 9, Flags = 0, SpeakerID = 0\<rparr> [1, 2, 3] = Return sealed_packet"
  "Registered (u_registry keyed_server) 1" "u_onFrame keyed_server" "u_ingress keyed_server = demo_limiter"
  by (simp_all add: lookupSession_def keyed_server_def demo_server_def demo_active_def publish_entry_def demo_prepared_def demo_session_def keyed_session_def newSession_def
      unix_milli_def SessionTTL_def WouldAccept_def emptyWindow_def NewTokenBucket_take DefaultLimits_def SessionBurst_def
      buildPacket_eq sealed_packet_def size_consts Registered_def Register_def NewChannelTypeRegistry_def HeartbeatChannelType_def toy_gcm_def)

lemma sealed_delivery:
  "\<exists>es. fst (handleDatagram keyed_server sealed_packet (NetUDP demo_addr) 0 0 0) = Return es \<and> UFrame demo_frame \<in> set es"
proof -
  obtain ip where "AddrFromSlice (udp_ip demo_addr) = Some ip" using demo_session_facts by auto
  from handleDatagram_delivers [OF keyed_server_ok(1) _ keyed_session_facts(1) _ this, of 0 0 0 5 1 9 "[1, 2, 3]" sealed_packet]
  show ?thesis
    by (simp add: keyed_session_facts demo_ingress demo_frame_def HeartbeatChannelType_def toy_gcm_ok)
qed

text \<open>A datagram of full length that decrypts and is delivered, and one of the same length whose tag is wrong.\<close>

theorem datagram_never_panics_witness:
  "\<exists>s a. lookupSession (u_manager keyed_server) 1 = Some (0, s) \<and> sEncrypted s \<and> sC2S s = Some a \<and> aead_ok a \<and>
     MinPacketSize True \<le> length sealed_packet \<and> parseOuterHeader sealed_packet = (1, 5, True) \<and>
     (\<exists>es. fst (handleDatagram keyed_server sealed_packet (NetUDP demo_addr) 0 0 0) = Return es \<and> UFrame demo_frame \<in> set es) \<and>
     (\<exists>es. fst (handleDatagram keyed_server (butlast sealed_packet @ [8]) (NetUDP demo_addr) 0 0 0) = Return es)"
proof -
  have ok: "\<And>a. sC2S keyed_session = Some a \<Longrightarrow> aead_ok a" using keyed_session_facts(3) toy_gcm_ok by auto
  have "buildPacket 1 5 (sEncrypted keyed_session) (sC2S keyed_session) \<lparr>ChannelType = 1, ChannelSeq = 9, Flags = 0, SpeakerID = 0\<rparr> [1, 2, 3] = Return sealed_packet"
    using keyed_session_facts(2,3,8) by simp
  from openBody_buildPacket(1) [OF this ok] buildPacket_length(1) [OF this ok]
  have "parseOuterHeader sealed_packet = (1, 5, True)" "MinPacketSize True \<le> length sealed_packet" using keyed_session_facts(2) by simp_all
  moreover note keyed_session_facts(1-3) toy_gcm_ok sealed_delivery
    datagram_never_panics [OF keyed_server_ok, of "butlast sealed_packet @ [8]" "NetUDP demo_addr" 0 0 0]
  ultimately show ?thesis by blast
qed

theorem delivered_frame_sound_witness:
  "\<exists>r s ch. lookupSession (u_manager demo_server) (fr_SessionID demo_frame) = Some (r, s) \<and> unix_milli 0 < sExpiresAt s \<and>
     fr_UserID demo_frame = sUserID s \<and> fmlookup (byUser (u_manager demo_server)) (fr_UserID demo_frame) = Some (fr_SessionID demo_frame) \<and>
     parseOuterHeader demo_packet = (fr_SessionID demo_frame, fr_TransportSeq demo_frame, True) \<and>
     authentic s (fr_TransportSeq demo_frame) demo_packet ch (fr_Payload demo_frame) \<and>
     ch = \<lparr>ChannelType = fr_ChannelType demo_frame, ChannelSeq = fr_ChannelSeq demo_frame, Flags = 0, SpeakerID = 0\<rparr> \<and>
     fr_ChannelType demo_frame \<noteq> HeartbeatChannelType \<and> Registered (u_registry demo_server) (fr_ChannelType demo_frame) \<and>
     WouldAccept (sReplay s) (fr_TransportSeq demo_frame)"
proof -
  obtain es srv' where h: "handleDatagram demo_server demo_packet (NetUDP demo_addr) 0 0 0 = (Return es, srv')" "UFrame demo_frame \<in> set es"
    using demo_delivery by (metis prod.collapse)
  show ?thesis by (rule delivered_frame_sound [OF demo_server_ok(1) h])
qed

theorem client_frame_delivered_witness:
  "\<exists>es. fst (handleDatagram demo_server demo_packet (NetUDP demo_addr) 0 0 0) = Return es \<and> UFrame demo_frame \<in> set es"
proof -
  obtain ip where "AddrFromSlice (udp_ip demo_addr) = Some ip" using demo_session_facts by auto
  from client_frame_delivered [OF demo_server_ok(1) _ demo_session_facts(1) _ this, of 0 0 0 5 1 9 "[1, 2, 3]" demo_packet]
  show ?thesis
    by (simp add: demo_session_facts demo_ingress demo_frame_def HeartbeatChannelType_def)
qed

subsection \<open>Sending\<close>

fun writes :: "udp_effect list \<Rightarrow> (bytes \<times> UDPAddr) list" where
  "writes [] = []"
| "writes (UWrite p a # es) = (p, a) # writes es"
| "writes (_ # es) = writes es"

lemma writes_append [simp]: "writes (xs @ ys) = writes xs @ writes ys"
  by (induction xs rule: writes.induct) auto

lemma writes_silent [simp]: "writes (map UManager es) = []" "writes (reportStats srv x) = []"
  by (induction es) (auto simp: reportStats_def)

lemma reserveSendSeq_Return:
  assumes "reserveSendSeq s = (Return (seq, enc, a, remote), s')"
  shows "seq = sSendSeq s + 1 \<and> sSendSeq s \<noteq> - 1 \<and> sActive s \<and> enc = sEncrypted s \<and> a = sS2C s \<and> remote = sRemote s \<and>
    s' = s\<lparr>sSendSeq := sSendSeq s + 1\<rparr>"
  using assms by (auto simp: reserveSendSeq_def Let_def split: if_splits)

lemma Send_result:
  assumes "Send srv sid ct speaker cs payload now write_ok = (res, es, srv')"
  shows "case res of
      Return _ \<Rightarrow> \<exists>r s pkt peer. lookupSession (u_manager srv) sid = Some (r, s) \<and> unix_milli now < sExpiresAt s \<and> sActive s \<and>
        sRemote s = Some peer \<and> writes es = [(pkt, peer)] \<and> sSendSeq s + 1 \<noteq> 0 \<and>
        fmlookup (heap (u_manager srv')) r = Some (s\<lparr>sSendSeq := sSendSeq s + 1\<rparr>) \<and>
        (\<forall>gcm key. (sEncrypted s \<longrightarrow> sS2C s = Some (gcm key) \<and> aead_ok (gcm key) \<and> length key = masterKeySize) \<longrightarrow>
           DecodePacket gcm pkt (sEncrypted s) (Some key) =
             Some (sid, sSendSeq s + 1, \<lparr>ChannelType = ct, ChannelSeq = cs, Flags = 0, SpeakerID = speaker\<rparr>, payload, True))
    | _ \<Rightarrow> writes es = []"
proof (cases res)
  case (Return u)
  obtain found es0 m1 where g: "getSession (u_manager srv) sid now = (found, es0, m1)" by (metis prod_cases3)
  with assms Return obtain r where r: "found = Some r"
    by (cases found) (auto simp: Send_def Let_def split: if_splits)
  note f = getSession_found [OF g [unfolded r]]
  then obtain s where s: "lookupSession (u_manager srv) sid = Some (r, s)" "\<not> expiredLocked s (unix_milli now)" by blast
  note hs = lookupSession_SomeD [OF s(1)]
  obtain seq enc a remote s' where rv: "reserveSendSeq s = (Return (seq, enc, a, remote), s')"
    using assms Return g r f hs by (auto simp: Send_def Let_def split: if_splits outcome.splits prod.splits)
  note rv' = reserveSendSeq_Return [OF rv]
  have seq: "sSendSeq s + 1 \<noteq> 0" using rv' succ_less [of "sSendSeq s"] by auto
  obtain peer pkt where pkt: "remote = Some peer" "buildPacket sid seq enc a \<lparr>ChannelType = ct, ChannelSeq = cs, Flags = 0, SpeakerID = speaker\<rparr> payload = Return pkt"
    "es = [] @ [UWrite pkt peer] @ reportStats srv (sample StatsSendSuccess sid (sUserID s) ct (length pkt))"
    "srv' = srv\<lparr>u_manager := (u_manager srv)\<lparr>heap := fmupd r s' (heap (u_manager srv))\<rparr>\<rparr>"
    using assms Return g r f hs rv by (auto simp: Send_def Let_def split: if_splits option.splits outcome.splits)
  have "DecodePacket gcm pkt (sEncrypted s) (Some key) =
      Some (sid, sSendSeq s + 1, \<lparr>ChannelType = ct, ChannelSeq = cs, Flags = 0, SpeakerID = speaker\<rparr>, payload, True)"
    if "sEncrypted s \<longrightarrow> sS2C s = Some (gcm key) \<and> aead_ok (gcm key) \<and> length key = masterKeySize" for gcm key
  proof (rule decode_buildPacket)
    show "buildPacket sid (sSendSeq s + 1) (sEncrypted s) (if sEncrypted s then Some (gcm key) else None)
        \<lparr>ChannelType = ct, ChannelSeq = cs, Flags = 0, SpeakerID = speaker\<rparr> payload = Return pkt"
      using pkt(2) rv' that by (cases "sEncrypted s") (simp_all add: buildPacket_eq split: if_splits)
  qed (use that in blast)
  with Return s pkt rv' seq show ?thesis by (auto simp: expiredLocked_def)
next
  case (Fail e)
  with assms show ?thesis
    by (auto simp: Send_def Let_def split: if_splits option.splits outcome.splits prod.splits)
next
  case Panic
  with assms show ?thesis
    by (auto simp: Send_def Let_def split: if_splits option.splits outcome.splits prod.splits)
qed

text \<open>The send path, all outcomes: a successful \<^verbatim>\<open>Send\<close> writes exactly one datagram, to the address
  learned from the client, for a published live session; it carries the next sequence number of the
  session and is what a client holding the server key decodes back to the same stream type, channel
  sequence, speaker and payload.  A failed \<^verbatim>\<open>Send\<close> writes nothing.\<close>

theorem Send_outcome:
  assumes "Send srv sid ct speaker cs payload now write_ok = (res, es, srv')"
  shows "case res of
      Return _ \<Rightarrow> \<exists>r s pkt peer. lookupSession (u_manager srv) sid = Some (r, s) \<and> unix_milli now < sExpiresAt s \<and> sActive s \<and>
        sRemote s = Some peer \<and> writes es = [(pkt, peer)] \<and> sSendSeq s + 1 \<noteq> 0 \<and>
        fmlookup (heap (u_manager srv')) r = Some (s\<lparr>sSendSeq := sSendSeq s + 1\<rparr>) \<and>
        (\<forall>gcm key. (sEncrypted s \<longrightarrow> sS2C s = Some (gcm key) \<and> aead_ok (gcm key) \<and> length key = masterKeySize) \<longrightarrow>
           DecodePacket gcm pkt (sEncrypted s) (Some key) =
             Some (sid, sSendSeq s + 1, \<lparr>ChannelType = ct, ChannelSeq = cs, Flags = 0, SpeakerID = speaker\<rparr>, payload, True))
    | _ \<Rightarrow> writes es = []"
  using assms by (rule Send_result)

theorem Send_outcome_witness:
  "case Send demo_server 1 1 7 9 [1] 0 True of (res, es, srv') \<Rightarrow>
    (case res of
      Return _ \<Rightarrow> \<exists>r s pkt peer. lookupSession (u_manager demo_server) 1 = Some (r, s) \<and> unix_milli 0 < sExpiresAt s \<and> sActive s \<and>
        sRemote s = Some peer \<and> writes es = [(pkt, peer)] \<and> sSendSeq s + 1 \<noteq> 0 \<and>
        fmlookup (heap (u_manager srv')) r = Some (s\<lparr>sSendSeq := sSendSeq s + 1\<rparr>) \<and>
        (\<forall>gcm key. (sEncrypted s \<longrightarrow> sS2C s = Some (gcm key) \<and> aead_ok (gcm key) \<and> length key = masterKeySize) \<longrightarrow>
           DecodePacket gcm pkt (sEncrypted s) (Some key) =
             Some (1, sSendSeq s + 1, \<lparr>ChannelType = 1, ChannelSeq = 9, Flags = 0, SpeakerID = 7\<rparr>, [1], True))
    | _ \<Rightarrow> writes es = [])"
proof -
  obtain res es srv' where h: "Send demo_server 1 1 7 9 [1] 0 True = (res, es, srv')" by (metis prod_cases3)
  show ?thesis unfolding h using Send_outcome [OF h] by simp
qed

subsection \<open>Life cycle\<close>

datatype life_op = LSetFrame bool | LSetStats bool | LStart "nat option" | LClose | LServeExit nat | LRegister byte Capabilities

fun life_step :: "UDPServer \<Rightarrow> life_op \<Rightarrow> UDPServer" where
  "life_step s (LSetFrame h) = snd (SetFrameHandler s h)"
| "life_step s (LSetStats h) = snd (SetStatsHandler s h)"
| "life_step s (LStart pc) = snd (snd (StartUDP s pc))"
| "life_step s LClose = snd (CloseUDP s)"
| "life_step s (LServeExit pc) = snd (serveExit s pc)"
| "life_step s (LRegister t c) = s\<lparr>u_registry := snd (Register (u_registry s) t c)\<rparr>"

lemmas life_defs = SetFrameHandler_def SetStatsHandler_def StartUDP_def CloseUDP_def serveExit_def Register_def SealRegistry_def

lemma life_step_started:
  "\<lbrakk>u_started s; sealed (u_registry s)\<rbrakk> \<Longrightarrow> u_started (life_step s x) \<and> u_registry (life_step s x) = u_registry s \<and>
     u_onFrame (life_step s x) = u_onFrame s \<and> u_stats (life_step s x) = u_stats s \<and>
     (u_conn (life_step s x) = u_conn s \<or> u_conn (life_step s x) = None) \<and> (u_closed s \<longrightarrow> u_closed (life_step s x))"
  by (cases x) (auto simp: life_defs split: option.splits)

lemma life_run_started:
  "\<lbrakk>u_started s; sealed (u_registry s)\<rbrakk> \<Longrightarrow> u_started (foldl life_step s ops) \<and> u_registry (foldl life_step s ops) = u_registry s \<and>
     u_onFrame (foldl life_step s ops) = u_onFrame s \<and> u_stats (foldl life_step s ops) = u_stats s \<and>
     (u_conn (foldl life_step s ops) = u_conn s \<or> u_conn (foldl life_step s ops) = None)"
proof (induction ops arbitrary: s)
  case (Cons x ops)
  note l = life_step_started [OF Cons.prems, of x]
  from Cons.IH [of "life_step s x"] Cons.prems l show ?case by auto
qed simp

lemma life_run_closed: "u_closed s \<Longrightarrow> u_closed (foldl life_step s ops)"
proof (induction ops arbitrary: s)
  case (Cons x ops)
  then have "u_closed (life_step s x)" by (cases x) (auto simp: life_defs split: option.splits)
  with Cons show ?case by simp
qed simp

text \<open>One start, one end: after a successful \<^verbatim>\<open>Start\<close> every later \<^verbatim>\<open>Start\<close> fails and closes the connection it was
  given, the stream registry and the handlers never change again, and the served connection is the
  one given to \<^verbatim>\<open>Start\<close> or none; after \<^verbatim>\<open>Close\<close> no \<^verbatim>\<open>Start\<close> succeeds.\<close>

theorem udp_lifecycle:
  "(StartUDP s (Some c) = (Return (), es, s') \<longrightarrow>
     (let z = foldl life_step s' ops in
       fst (StartUDP z (Some d)) \<noteq> Return () \<and> fst (snd (StartUDP z (Some d))) = [UCloseConn d] \<and> snd (snd (StartUDP z (Some d))) = z \<and>
       u_registry z = u_registry s' \<and> fst (Register (u_registry z) t caps) \<noteq> Return () \<and>
       u_onFrame z = u_onFrame s \<and> u_stats z = u_stats s \<and> (u_conn z = Some c \<or> u_conn z = None))) \<and>
   (fst (StartUDP (foldl life_step (snd (CloseUDP s)) ops) pc) \<noteq> Return ())"
proof (intro conjI impI)
  assume st: "StartUDP s (Some c) = (Return (), es, s')"
  then have s': "u_started s'" "sealed (u_registry s')" "u_onFrame s' = u_onFrame s" "u_stats s' = u_stats s" "u_conn s' = Some c"
    by (auto simp: StartUDP_def SealRegistry_def split: if_splits)
  from life_run_started [OF s'(1,2), of ops] s'
  show "let z = foldl life_step s' ops in
       fst (StartUDP z (Some d)) \<noteq> Return () \<and> fst (snd (StartUDP z (Some d))) = [UCloseConn d] \<and> snd (snd (StartUDP z (Some d))) = z \<and>
       u_registry z = u_registry s' \<and> fst (Register (u_registry z) t caps) \<noteq> Return () \<and>
       u_onFrame z = u_onFrame s \<and> u_stats z = u_stats s \<and> (u_conn z = Some c \<or> u_conn z = None)"
    by (auto simp: StartUDP_def Register_def Let_def)
next
  have "u_closed (foldl life_step (snd (CloseUDP s)) ops)" by (rule life_run_closed) (simp add: CloseUDP_def)
  then show "fst (StartUDP (foldl life_step (snd (CloseUDP s)) ops) pc) \<noteq> Return ()"
    by (auto simp: StartUDP_def split: option.splits)
qed

definition idle_server :: UDPServer where
  "idle_server = demo_server\<lparr>u_conn := None, u_started := False\<rparr>"

theorem udp_lifecycle_witness:
  "StartUDP idle_server (Some 1) = (Return (), [], snd (snd (StartUDP idle_server (Some 1)))) \<and>
   fst (StartUDP (foldl life_step (snd (snd (StartUDP idle_server (Some 1)))) [LServeExit 1]) (Some 2)) \<noteq> Return ()"
proof -
  have s: "StartUDP idle_server (Some 1) = (Return (), [], snd (snd (StartUDP idle_server (Some 1))))"
    by (simp add: StartUDP_def idle_server_def demo_server_def)
  with udp_lifecycle [of idle_server 1 "[]" "snd (snd (StartUDP idle_server (Some 1)))" "[LServeExit 1]" 2]
  show ?thesis by (simp add: Let_def)
qed

subsection \<open>What a send does to the registry\<close>

text \<open>A send leaves every session's keys and learned address alone, and only ever removes entries.\<close>

definition send_evolves :: "Manager \<Rightarrow> Manager \<Rightarrow> bool" where
  "send_evolves m m' \<longleftrightarrow>
     (\<forall>sid r. fmlookup (sessions m') sid = Some r \<longrightarrow> fmlookup (sessions m) sid = Some r) \<and>
     (\<forall>r t. fmlookup (heap m') r = Some t \<longrightarrow> (\<exists>s. fmlookup (heap m) r = Some s \<and> sEncrypted t = sEncrypted s \<and> sS2C t = sS2C s \<and> sRemote t = sRemote s))"

lemma send_evolves_refl [simp]: "send_evolves m m"
  by (auto simp: send_evolves_def)

lemma send_evolves_trans: "\<lbrakk>send_evolves a b; send_evolves b c\<rbrakk> \<Longrightarrow> send_evolves a c"
  unfolding send_evolves_def by (elim conjE, intro conjI) (blast, fastforce)

lemma getSession_evolves:
  assumes "table_ok m" "getSession m sid now = (found, es, m')"
  shows "table_ok m' \<and> send_evolves m m'"
proof (cases "\<exists>r s. lookupSession m sid = Some (r, s) \<and> expiredLocked s (unix_milli now)")
  case True
  then obtain r s where rs: "lookupSession m sid = Some (r, s)" "expiredLocked s (unix_milli now)" by blast
  obtain d es' m1 where e: "expireSession m sid r (sUserID s) = (d, es', m1)" by (metis prod_cases3)
  have "m' = m1" using assms(2) rs e by (auto simp: getSession_def getSessionStaged_def)
  moreover note st = expireSession_steps(3) [OF assms(1) rs(1) e] lookupSession_SomeD [OF rs(1)]
  moreover have "table_ok m1"
    using table_ok_frame [OF st(1)] table_ok_remove [OF assms(1)] st(2) by blast
  ultimately show ?thesis
    by (auto simp: same_tables_def send_evolves_def remove_entry_def deactivateLocked_def split: if_splits)
qed (use assms in \<open>auto simp: getSession_def getSessionStaged_def split: option.splits prod.splits if_splits\<close>)

lemma reserve_evolves:
  assumes "table_ok m" "fmlookup (heap m) r = Some s" "reserveSendSeq s = (res, s')"
  shows "table_ok (m\<lparr>heap := fmupd r s' (heap m)\<rparr>) \<and> send_evolves m (m\<lparr>heap := fmupd r s' (heap m)\<rparr>)"
proof -
  have s': "s' = s \<or> s' = s\<lparr>sSendSeq := sSendSeq s + 1\<rparr>"
    using assms(3) by (auto simp: reserveSendSeq_def Let_def split: if_splits)
  then have "same_session s s'" by (auto simp: same_session_def)
  with s' table_ok_touch [OF assms(1,2)] assms(2) show ?thesis by (auto simp: send_evolves_def)
qed

lemma Send_evolves:
  assumes "table_ok (u_manager srv)" "Send srv sid ct speaker cs payload now write_ok = (res, es, srv')"
  shows "table_ok (u_manager srv') \<and> send_evolves (u_manager srv) (u_manager srv')"
proof -
  obtain found es0 m1 where g: "getSession (u_manager srv) sid now = (found, es0, m1)" by (metis prod_cases3)
  note m1 = getSession_evolves [OF assms(1) g]
  show ?thesis
  proof (cases "\<exists>r s. found = Some r \<and> fmlookup (heap m1) r = Some s")
    case False
    then have "u_manager srv' = u_manager srv \<or> u_manager srv' = m1"
      using assms(2) g by (auto simp: Send_def Let_def bind_eq_Some_conv split: if_splits option.splits)
    with assms(1) m1 show ?thesis by auto
  next
    case True
    then obtain r s where rs: "found = Some r" "fmlookup (heap m1) r = Some s" by blast
    obtain rv s' where rv: "reserveSendSeq s = (rv, s')" by force
    have "u_manager srv' = u_manager srv \<or> u_manager srv' = m1 \<or> u_manager srv' = m1\<lparr>heap := fmupd r s' (heap m1)\<rparr>"
      using assms(2) g rs rv by (auto simp: Send_def Let_def split: if_splits option.splits outcome.splits)
    with assms(1) m1 reserve_evolves [OF conjunct1 [OF m1] rs(2) rv] send_evolves_trans show ?thesis by auto
  qed
qed

end
