(* ===== verification/RelayQueue.thy ===== *)
theory RelayQueue
  imports Prelude
begin

text \<open>
  The bounded queue between the UDP read callback and the relay workers, of
  \<^verbatim>\<open>internal/relay/queue.go\<close>.  Eight shards hold owned copies of frames under item and byte caps;
  the global admission lock makes each of \<^verbatim>\<open>Enqueue\<close>, \<^verbatim>\<open>Pop\<close>, \<^verbatim>\<open>Close\<close> one atomic step.

  \<^item> \<^verbatim>\<open>Pop\<close> loops: one pass under the locks (\<open>popPass\<close>), then a wait for the one-slot \<^verbatim>\<open>ready\<close>
    channel (\<open>popWake\<close>).  The channel is the flag \<open>qs_ready\<close>.
  \<^item> Counters are \<open>int\<close>, as in the source, so that an underflow would show.
\<close>

section \<open>Definitions\<close>

definition ShardCount :: int where "ShardCount = 8"
definition MaxQueueItems :: int where "MaxQueueItems = 4096"
definition MaxQueueBytes :: int where "MaxQueueBytes = 16777216"
definition MaxShardItems :: int where "MaxShardItems = MaxQueueItems div ShardCount"
definition MaxShardBytes :: int where "MaxShardBytes = MaxQueueBytes div ShardCount"

lemmas queue_consts = ShardCount_def MaxQueueItems_def MaxQueueBytes_def MaxShardItems_def MaxShardBytes_def

record Source =
  src_UserID :: int64
  src_SessionID :: id16
  src_ChannelID :: int64
  src_ControlConnectionID :: id16
  src_ConnectionGeneration :: uint64
  src_VoiceAuthorityGeneration :: uint64

definition SourceValid :: "Source \<Rightarrow> bool" where
  "SourceValid s \<longleftrightarrow> sint (src_UserID s) > 0 \<and> src_SessionID s \<noteq> 0 \<and> sint (src_ChannelID s) > 0 \<and>
     src_ControlConnectionID s \<noteq> 0 \<and> src_ConnectionGeneration s > 0 \<and> src_VoiceAuthorityGeneration s > 0"

record Frame =
  f_Source :: Source
  f_ChannelType :: byte
  f_ChannelSeq :: "16 word"
  f_TransportSeq :: uint64
  f_Payload :: bytes

record queueShard =
  qs_items :: int
  qs_bytes :: int
  qs_queue :: "Frame list"
  qs_ready :: bool
  qs_closed :: bool

record Queue =
  q_shards :: "queueShard list"
  q_items :: int
  q_bytes :: int
  q_closed :: bool

record QueueStats =
  st_Items :: int
  st_QBytes :: int
  st_ItemCapacity :: int
  st_ByteCapacity :: int
  st_Utilization :: rat
  st_ShardItems :: "int list"
  st_ShardBytes :: "int list"
  st_ShardUtilization :: "rat list"

definition NewQueue :: Queue where
  "NewQueue = \<lparr>q_shards = replicate (nat ShardCount) \<lparr>qs_items = 0, qs_bytes = 0, qs_queue = [], qs_ready = False, qs_closed = False\<rparr>,
     q_items = 0, q_bytes = 0, q_closed = False\<rparr>"

definition ShardFor :: "int64 \<Rightarrow> byte \<Rightarrow> int" where
  "ShardFor userID channelType =
     (let v0 = userID XOR (ucast channelType * 0x9e3779b97f4a7c15);
          v1 = v0 XOR drop_bit 30 v0;
          v2 = v1 * 0xbf58476d1ce4e5b9;
          v3 = v2 XOR drop_bit 27 v2;
          v4 = v3 * 0x94d049bb133111eb;
          v5 = v4 XOR drop_bit 31 v4
      in uint (v5 mod 8))"

text \<open>The payload copy; values are immutable here.\<close>

definition cloneFrame :: "Frame \<Rightarrow> Frame" where
  "cloneFrame frame = frame\<lparr>f_Payload := [] @ f_Payload frame\<rparr>"

definition signalLocked :: "queueShard \<Rightarrow> queueShard" where
  "signalLocked s = s\<lparr>qs_ready := True\<rparr>"

definition payloadLen :: "Frame \<Rightarrow> int" where
  "payloadLen frame = int (length (f_Payload frame))"

definition Enqueue :: "Queue \<Rightarrow> int \<Rightarrow> Frame \<Rightarrow> bool \<times> Queue" where
  "Enqueue q shard frame =
     (if shard < 0 \<or> shard \<ge> ShardCount \<or> sint (src_UserID (f_Source frame)) \<le> 0 \<or> length (f_Payload frame) = 0 then (False, q)
      else if payloadLen frame > MaxShardBytes \<or> payloadLen frame > MaxQueueBytes then (False, q)
      else let owned = cloneFrame frame
           in if q_closed q \<or> q_items q \<ge> MaxQueueItems \<or> q_bytes q + payloadLen owned > MaxQueueBytes then (False, q)
              else let item = q_shards q ! nat shard
                   in if qs_closed item \<or> qs_items item \<ge> MaxShardItems \<or> qs_bytes item + payloadLen owned > MaxShardBytes
                      then (False, q)
                      else let item' = signalLocked (item\<lparr>qs_queue := qs_queue item @ [owned], qs_items := qs_items item + 1,
                                                         qs_bytes := qs_bytes item + payloadLen owned\<rparr>)
                           in (True, q\<lparr>q_shards := (q_shards q)[nat shard := item'], q_items := q_items q + 1,
                                       q_bytes := q_bytes q + payloadLen owned\<rparr>))"

datatype pop_result = Popped Frame | PopRefused | PopWait

definition popPass :: "Queue \<Rightarrow> int \<Rightarrow> pop_result \<times> Queue" where
  "popPass q shard =
     (if shard < 0 \<or> shard \<ge> ShardCount then (PopRefused, q)
      else let item = q_shards q ! nat shard
           in case qs_queue item of
                frame # rest \<Rightarrow>
                  let item1 = item\<lparr>qs_queue := rest, qs_items := qs_items item - 1, qs_bytes := qs_bytes item - payloadLen frame\<rparr>;
                      item2 = (if rest \<noteq> [] then signalLocked item1 else item1)
                  in (Popped frame, q\<lparr>q_shards := (q_shards q)[nat shard := item2], q_items := q_items q - 1,
                                     q_bytes := q_bytes q - payloadLen frame\<rparr>)
              | [] \<Rightarrow> if qs_closed item then (PopRefused, q) else (PopWait, q))"

text \<open>\<^verbatim>\<open>case <-ready\<close> of the select: possible when the slot holds a signal, which it consumes.\<close>

definition popWake :: "Queue \<Rightarrow> int \<Rightarrow> Queue option" where
  "popWake q shard =
     (if qs_ready (q_shards q ! nat shard)
      then Some (q\<lparr>q_shards := (q_shards q)[nat shard := (q_shards q ! nat shard)\<lparr>qs_ready := False\<rparr>]\<rparr>) else None)"

definition closeShard :: "queueShard \<Rightarrow> queueShard" where
  "closeShard item = signalLocked (item\<lparr>qs_closed := True, qs_items := 0, qs_bytes := 0, qs_queue := []\<rparr>)"

definition CloseQueue :: "Queue \<Rightarrow> Queue" where
  "CloseQueue q =
     (if q_closed q then q
      else q\<lparr>q_closed := True, q_items := 0, q_bytes := 0, q_shards := map closeShard (q_shards q)\<rparr>)"

definition maxRatio :: "rat \<Rightarrow> rat \<Rightarrow> rat" where
  "maxRatio left right = (if left > right then left else right)"

definition ratio :: "int \<Rightarrow> int \<Rightarrow> rat" where
  "ratio x cap = fl64 (fl64 (of_int x) / of_int cap)"

definition StatsQueue :: "Queue \<Rightarrow> QueueStats" where
  "StatsQueue q =
     (let stats = \<lparr>st_Items = q_items q, st_QBytes = q_bytes q, st_ItemCapacity = MaxQueueItems, st_ByteCapacity = MaxQueueBytes,
                   st_Utilization = 0, st_ShardItems = replicate (nat ShardCount) 0, st_ShardBytes = replicate (nat ShardCount) 0,
                   st_ShardUtilization = replicate (nat ShardCount) 0\<rparr>
      in if q_closed q then stats
         else stats\<lparr>st_Utilization := maxRatio (ratio (q_items q) MaxQueueItems) (ratio (q_bytes q) MaxQueueBytes),
                    st_ShardItems := map qs_items (q_shards q), st_ShardBytes := map qs_bytes (q_shards q),
                    st_ShardUtilization := map (\<lambda>s. maxRatio (ratio (qs_items s) MaxShardItems) (ratio (qs_bytes s) MaxShardBytes)) (q_shards q)\<rparr>)"

subsection \<open>The queue with its workers\<close>

text \<open>One worker per shard: it is either running (about to make a pass, or processing) or blocked in
  the select of \<^verbatim>\<open>Pop\<close>.  The log of a shard records what was admitted and what was handed out.\<close>

record QueueSystem =
  qsys_queue :: Queue
  qsys_waiting :: "int \<Rightarrow> bool"
  qsys_in :: "int \<Rightarrow> Frame list"
  qsys_out :: "int \<Rightarrow> Frame list"

inductive queue_step :: "QueueSystem \<Rightarrow> QueueSystem \<Rightarrow> bool" where
  offer: "Enqueue (qsys_queue x) k f = (ok, q') \<Longrightarrow>
     queue_step x (x\<lparr>qsys_queue := q', qsys_in := (qsys_in x)(k := qsys_in x k @ (if ok then [f] else []))\<rparr>)"
| take_frame: "\<lbrakk>\<not> qsys_waiting x k; popPass (qsys_queue x) k = (Popped f, q')\<rbrakk> \<Longrightarrow>
     queue_step x (x\<lparr>qsys_queue := q', qsys_out := (qsys_out x)(k := qsys_out x k @ [f])\<rparr>)"
| block: "\<lbrakk>\<not> qsys_waiting x k; popPass (qsys_queue x) k = (PopWait, q')\<rbrakk> \<Longrightarrow>
     queue_step x (x\<lparr>qsys_queue := q', qsys_waiting := (qsys_waiting x)(k := True)\<rparr>)"
| wake: "\<lbrakk>qsys_waiting x k; popWake (qsys_queue x) k = Some q'\<rbrakk> \<Longrightarrow>
     queue_step x (x\<lparr>qsys_queue := q', qsys_waiting := (qsys_waiting x)(k := False)\<rparr>)"
| shut: "queue_step x (x\<lparr>qsys_queue := CloseQueue (qsys_queue x)\<rparr>)"

definition queue_init :: QueueSystem where
  "queue_init = \<lparr>qsys_queue = NewQueue, qsys_waiting = (\<lambda>_. False), qsys_in = (\<lambda>_. []), qsys_out = (\<lambda>_. [])\<rparr>"

definition queue_reachable :: "QueueSystem \<Rightarrow> bool" where
  "queue_reachable = queue_step\<^sup>*\<^sup>* queue_init"

section \<open>Theorems\<close>

subsection \<open>Occupancy\<close>

definition shard_ok :: "queueShard \<Rightarrow> bool" where
  "shard_ok s \<longleftrightarrow> qs_items s = int (length (qs_queue s)) \<and> qs_bytes s = sum_list (map payloadLen (qs_queue s)) \<and>
     qs_items s \<le> MaxShardItems \<and> qs_bytes s \<le> MaxShardBytes"

definition queue_ok :: "Queue \<Rightarrow> bool" where
  "queue_ok q \<longleftrightarrow> length (q_shards q) = nat ShardCount \<and> (\<forall>s \<in> set (q_shards q). shard_ok s \<and> qs_closed s = q_closed q) \<and>
     (q_closed q \<longrightarrow> (\<forall>s \<in> set (q_shards q). qs_queue s = [])) \<and>
     q_items q = sum_list (map qs_items (q_shards q)) \<and> q_bytes q = sum_list (map qs_bytes (q_shards q))"

lemma cloneFrame_id [simp]: "cloneFrame f = f"
  by (simp add: cloneFrame_def)

lemma signalLocked_fields [simp]:
  "qs_items (signalLocked s) = qs_items s" "qs_bytes (signalLocked s) = qs_bytes s" "qs_queue (signalLocked s) = qs_queue s"
  "qs_closed (signalLocked s) = qs_closed s" "qs_ready (signalLocked s)"
  by (simp_all add: signalLocked_def)

lemma queue_ok_shard: "\<lbrakk>queue_ok q; 0 \<le> k; k < ShardCount\<rbrakk> \<Longrightarrow> nat k < length (q_shards q) \<and> q_shards q ! nat k \<in> set (q_shards q)"
  by (auto simp: queue_ok_def ShardCount_def)

text \<open>Replacing one shard keeps the totals exact.\<close>

lemma queue_ok_update:
  assumes ok: "queue_ok q" and k: "0 \<le> k" "k < ShardCount" and s: "shard_ok s" "qs_closed s = q_closed q" "q_closed q \<longrightarrow> qs_queue s = []"
    and d: "i = q_items q + (qs_items s - qs_items (q_shards q ! nat k))" "b = q_bytes q + (qs_bytes s - qs_bytes (q_shards q ! nat k))"
  shows "queue_ok (q\<lparr>q_shards := (q_shards q)[nat k := s], q_items := i, q_bytes := b\<rparr>)"
proof -
  have n: "nat k < length (q_shards q)" using queue_ok_shard [OF ok k] by simp
  have "sum_list (map f ((q_shards q)[nat k := s])) = sum_list (map f (q_shards q)) + (f s - f (q_shards q ! nat k))"
    for f :: "queueShard \<Rightarrow> int"
    using n by (simp add: map_update sum_list_update_group)
  moreover have "\<forall>t \<in> set ((q_shards q)[nat k := s]). t = s \<or> t \<in> set (q_shards q)"
    using set_update_subset_insert [of "q_shards q" "nat k" s] by blast
  ultimately show ?thesis using ok s d by (auto simp: queue_ok_def)
qed

lemma NewQueue_ok: "queue_ok NewQueue"
  by (simp add: NewQueue_def queue_ok_def shard_ok_def queue_consts sum_list_replicate)

lemma Enqueue_ok:
  assumes ok: "queue_ok q" and e: "Enqueue q k f = (res, q')"
  shows "queue_ok q'"
proof (cases res)
  case True
  let ?s = "q_shards q ! nat k"
  from True e have k: "0 \<le> k" "k < ShardCount" and c: "\<not> q_closed q" "qs_items ?s < MaxShardItems" "qs_bytes ?s + payloadLen f \<le> MaxShardBytes"
    and q': "q' = q\<lparr>q_shards := (q_shards q)[nat k := signalLocked (?s\<lparr>qs_queue := qs_queue ?s @ [f], qs_items := qs_items ?s + 1,
        qs_bytes := qs_bytes ?s + payloadLen f\<rparr>)], q_items := q_items q + 1, q_bytes := q_bytes q + payloadLen f\<rparr>"
    by (auto simp: Enqueue_def Let_def split: if_splits)
  have "shard_ok ?s" "qs_closed ?s = q_closed q" using ok queue_ok_shard [OF ok k] by (auto simp: queue_ok_def)
  then show ?thesis unfolding q' using c
    by (intro queue_ok_update [OF ok k]) (auto simp: shard_ok_def)
qed (use assms in \<open>auto simp: Enqueue_def Let_def split: if_splits\<close>)

lemma popPass_ok:
  assumes ok: "queue_ok q" and p: "popPass q k = (res, q')"
  shows "queue_ok q'"
proof (cases "0 \<le> k \<and> k < ShardCount \<and> qs_queue (q_shards q ! nat k) \<noteq> []")
  case True
  let ?s = "q_shards q ! nat k"
  from True obtain f rest where f: "qs_queue ?s = f # rest" by (auto simp: neq_Nil_conv)
  define t where "t = ?s\<lparr>qs_queue := rest, qs_items := qs_items ?s - 1, qs_bytes := qs_bytes ?s - payloadLen f\<rparr>"
  have q': "q' = q\<lparr>q_shards := (q_shards q)[nat k := if rest \<noteq> [] then signalLocked t else t],
      q_items := q_items q - 1, q_bytes := q_bytes q - payloadLen f\<rparr>"
    using p True f by (auto simp: popPass_def Let_def t_def)
  have s: "shard_ok ?s" "qs_closed ?s = q_closed q" "q_closed q \<longrightarrow> qs_queue ?s = []"
    using ok queue_ok_shard [OF ok] True by (auto simp: queue_ok_def)
  then have t: "shard_ok t" "qs_closed t = q_closed q" "\<not> q_closed q"
    using f by (auto simp: shard_ok_def t_def payloadLen_def queue_consts)
  then have "shard_ok (if rest \<noteq> [] then signalLocked t else t)" by (simp add: shard_ok_def)
  then show ?thesis unfolding q' using True t by (intro queue_ok_update [OF ok]) (auto simp: t_def)
qed (use assms in \<open>auto simp: popPass_def Let_def split: if_splits list.splits\<close>)

lemma popWake_ok:
  assumes ok: "queue_ok q" and k: "0 \<le> k" "k < ShardCount" and p: "popWake q k = Some q'"
  shows "queue_ok q'"
proof -
  let ?s = "q_shards q ! nat k"
  have q': "q' = q\<lparr>q_shards := (q_shards q)[nat k := ?s\<lparr>qs_ready := False\<rparr>], q_items := q_items q, q_bytes := q_bytes q\<rparr>"
    using p by (auto simp: popWake_def split: if_splits)
  have "shard_ok ?s" "qs_closed ?s = q_closed q" "q_closed q \<longrightarrow> qs_queue ?s = []"
    using ok queue_ok_shard [OF ok k] by (auto simp: queue_ok_def)
  then show ?thesis unfolding q' by (intro queue_ok_update [OF ok k]) (auto simp: shard_ok_def)
qed

lemma closeShard_fields [simp]:
  "qs_queue (closeShard s) = []" "qs_items (closeShard s) = 0" "qs_bytes (closeShard s) = 0" "qs_closed (closeShard s)" "qs_ready (closeShard s)"
  by (simp_all add: closeShard_def)

lemma CloseQueue_ok:
  assumes "queue_ok q"
  shows "queue_ok (CloseQueue q)"
proof -
  have "sum_list (map (qs_items \<circ> closeShard) xs) = 0" "sum_list (map (qs_bytes \<circ> closeShard) xs) = 0" for xs
    by (induction xs) auto
  with assms show ?thesis
    by (auto simp: CloseQueue_def queue_ok_def shard_ok_def queue_consts)
qed

subsection \<open>The contract of a keyed FIFO queue\<close>

locale keyed_fifo =
  fixes push :: "'q \<Rightarrow> int \<Rightarrow> 'a \<Rightarrow> bool \<times> 'q"
    and pop :: "'q \<Rightarrow> int \<Rightarrow> 'a option \<times> 'q"
    and content :: "'q \<Rightarrow> int \<Rightarrow> 'a list"
    and inv :: "'q \<Rightarrow> bool"
  assumes push_inv: "\<lbrakk>inv q; push q k x = (ok, q')\<rbrakk> \<Longrightarrow> inv q'"
    and push_content: "\<lbrakk>inv q; push q k x = (ok, q')\<rbrakk> \<Longrightarrow> content q' j = content q j @ (if j = k \<and> ok then [x] else [])"
    and pop_inv: "\<lbrakk>inv q; pop q k = (r, q')\<rbrakk> \<Longrightarrow> inv q'"
    and pop_content: "\<lbrakk>inv q; pop q k = (r, q')\<rbrakk> \<Longrightarrow>
          content q j = (case r of Some x \<Rightarrow> if j = k then [x] else [] | None \<Rightarrow> []) @ content q' j"
begin

text \<open>Any interleaving of offers and removals: per key, what came out followed by what is left is
  what was there followed by what was admitted.\<close>

fun fifo_run :: "'q \<Rightarrow> (int \<times> 'a option) list \<Rightarrow> int \<Rightarrow> 'a list \<times> 'a list \<times> 'q" where
  "fifo_run q [] j = ([], [], q)"
| "fifo_run q ((k, Some x) # ops) j =
     (case push q k x of (ok, q') \<Rightarrow> case fifo_run q' ops j of (ins, outs, z) \<Rightarrow> ((if j = k \<and> ok then [x] else []) @ ins, outs, z))"
| "fifo_run q ((k, None) # ops) j =
     (case pop q k of (r, q') \<Rightarrow> case fifo_run q' ops j of (ins, outs, z) \<Rightarrow>
        (ins, (case r of Some x \<Rightarrow> if j = k then [x] else [] | None \<Rightarrow> []) @ outs, z))"

lemma run_order:
  "\<lbrakk>inv q; fifo_run q ops j = (ins, outs, z)\<rbrakk> \<Longrightarrow> content q j @ ins = outs @ content z j"
proof (induction q ops j arbitrary: ins outs rule: fifo_run.induct)
  case (2 q k x ops j)
  obtain ok q' where p: "push q k x = (ok, q')" by force
  obtain i o1 where f: "fifo_run q' ops j = (i, o1, z)" using "2.prems"(2) p by (auto split: prod.splits)
  from "2.IH" [OF p [symmetric] push_inv [OF "2.prems"(1) p] f] push_content [OF "2.prems"(1) p, of j] "2.prems"(2) p f
  show ?case by auto
next
  case (3 q k ops j)
  obtain r q' where p: "pop q k = (r, q')" by force
  obtain i o1 where f: "fifo_run q' ops j = (i, o1, z)" using "3.prems"(2) p by (auto split: prod.splits)
  from "3.IH" [OF p [symmetric] pop_inv [OF "3.prems"(1) p] f] pop_content [OF "3.prems"(1) p, of j] "3.prems"(2) p f
  show ?case by auto
qed auto

end

definition shard_content :: "Queue \<Rightarrow> int \<Rightarrow> Frame list" where
  "shard_content q k = (if 0 \<le> k \<and> k < ShardCount then qs_queue (q_shards q ! nat k) else [])"

definition tryPop :: "Queue \<Rightarrow> int \<Rightarrow> Frame option \<times> Queue" where
  "tryPop q k = (case popPass q k of (Popped f, q') \<Rightarrow> (Some f, q') | (_, q') \<Rightarrow> (None, q'))"

lemma nth_update_shard:
  "\<lbrakk>queue_ok q; 0 \<le> k; k < ShardCount; 0 \<le> j; j < ShardCount\<rbrakk>
   \<Longrightarrow> (q_shards q)[nat k := s] ! nat j = (if j = k then s else q_shards q ! nat j)"
  using queue_ok_shard [of q k] by (auto simp: nth_list_update)

lemma Enqueue_content:
  assumes ok: "queue_ok q" and e: "Enqueue q k f = (res, q')"
  shows "shard_content q' j = shard_content q j @ (if j = k \<and> res then [f] else [])"
  using e nth_update_shard [OF ok, of k j]
  by (auto simp: Enqueue_def Let_def shard_content_def split: if_splits)

lemma popPass_content:
  assumes ok: "queue_ok q" and p: "popPass q k = (r, q')"
  shows "shard_content q j = (case r of Popped f \<Rightarrow> if j = k then [f] else [] | _ \<Rightarrow> []) @ shard_content q' j"
  using p nth_update_shard [OF ok, of k j]
  by (auto simp: popPass_def Let_def shard_content_def split: if_splits list.splits)

interpretation shard_queue: keyed_fifo Enqueue tryPop shard_content queue_ok
proof
  fix q k r q' j assume "queue_ok q" "tryPop q k = (r, q')"
  then show "queue_ok q'" "shard_content q j = (case r of Some x \<Rightarrow> if j = k then [x] else [] | None \<Rightarrow> []) @ shard_content q' j"
    using popPass_ok [of q k] popPass_content [of q k _ _ j] by (auto simp: tryPop_def split: prod.splits pop_result.splits)
qed (blast intro: Enqueue_ok Enqueue_content)+

subsection \<open>Reachable states\<close>

definition wake_ok :: "QueueSystem \<Rightarrow> int \<Rightarrow> bool" where
  "wake_ok x k \<longleftrightarrow> (qsys_waiting x k \<longrightarrow> 0 \<le> k \<and> k < ShardCount \<and>
     (shard_content (qsys_queue x) k \<noteq> [] \<or> q_closed (qsys_queue x) \<longrightarrow> qs_ready (q_shards (qsys_queue x) ! nat k)))"

definition log_ok :: "QueueSystem \<Rightarrow> int \<Rightarrow> bool" where
  "log_ok x k \<longleftrightarrow> (\<exists>lost. qsys_in x k = qsys_out x k @ shard_content (qsys_queue x) k @ lost \<and> (\<not> q_closed (qsys_queue x) \<longrightarrow> lost = []) \<and>
     (q_closed (qsys_queue x) \<longrightarrow> shard_content (qsys_queue x) k = []))"

definition qsystem_ok :: "QueueSystem \<Rightarrow> bool" where
  "qsystem_ok x \<longleftrightarrow> queue_ok (qsys_queue x) \<and> (\<forall>k. wake_ok x k) \<and> (\<forall>k. log_ok x k)"

lemma Enqueue_closed: "Enqueue q k f = (res, q') \<Longrightarrow> q_closed q' = q_closed q \<and> (q_closed q \<longrightarrow> \<not> res)"
  by (auto simp: Enqueue_def Let_def split: if_splits)

lemma popPass_closed: "popPass q k = (r, q') \<Longrightarrow> q_closed q' = q_closed q"
  by (auto simp: popPass_def Let_def split: if_splits list.splits)

lemma Enqueue_ready:
  assumes ok: "queue_ok q" and e: "Enqueue q k f = (res, q')" and j: "0 \<le> j" "j < ShardCount"
  shows "qs_ready (q_shards q' ! nat j) = (qs_ready (q_shards q ! nat j) \<or> res \<and> j = k)"
  using e j nth_update_shard [OF ok, of k j] by (auto simp: Enqueue_def Let_def split: if_splits)

lemma popPass_other:
  assumes ok: "queue_ok q" and p: "popPass q k = (r, q')" and j: "0 \<le> j" "j < ShardCount" "j \<noteq> k"
  shows "q_shards q' ! nat j = q_shards q ! nat j"
  using p j nth_update_shard [OF ok, of k j] by (auto simp: popPass_def Let_def split: if_splits list.splits)

lemma popPass_wait: "popPass q k = (PopWait, q') \<Longrightarrow>
    q' = q \<and> 0 \<le> k \<and> k < ShardCount \<and> shard_content q k = [] \<and> \<not> qs_closed (q_shards q ! nat k)"
  by (auto simp: popPass_def Let_def shard_content_def split: if_splits list.splits)

lemma log_ok_closed: "\<lbrakk>log_ok x k; q_closed (qsys_queue x)\<rbrakk> \<Longrightarrow> shard_content (qsys_queue x) k = []"
  by (auto simp: log_ok_def)

lemma qsystem_okD:
  assumes "qsystem_ok x"
  shows "queue_ok (qsys_queue x)" "wake_ok x k" "log_ok x k"
  using assms by (auto simp: qsystem_ok_def)

lemma offer_ok:
  assumes x: "qsystem_ok x" and e: "Enqueue (qsys_queue x) k f = (ok, q')"
  shows "qsystem_ok (x\<lparr>qsys_queue := q', qsys_in := (qsys_in x)(k := qsys_in x k @ (if ok then [f] else []))\<rparr>)"
proof -
  note q = qsystem_okD [OF x]
  note c = Enqueue_closed [OF e]
  have "wake_ok (x\<lparr>qsys_queue := q', qsys_in := (qsys_in x)(k := qsys_in x k @ (if ok then [f] else []))\<rparr>) j" for j
    using q(2) [of j] c Enqueue_content [OF q(1) e, of j] Enqueue_ready [OF q(1) e, of j]
    by (cases "j = k \<and> ok") (auto simp: wake_ok_def)
  moreover have "log_ok (x\<lparr>qsys_queue := q', qsys_in := (qsys_in x)(k := qsys_in x k @ (if ok then [f] else []))\<rparr>) j" for j
    using q(3) [of j] c Enqueue_content [OF q(1) e, of j] by (cases "ok \<and> j = k") (auto simp: log_ok_def)
  ultimately show ?thesis using Enqueue_ok [OF q(1) e] by (simp add: qsystem_ok_def)
qed

lemma take_ok:
  assumes x: "qsystem_ok x" and w: "\<not> qsys_waiting x k" and p: "popPass (qsys_queue x) k = (Popped f, q')"
  shows "qsystem_ok (x\<lparr>qsys_queue := q', qsys_out := (qsys_out x)(k := qsys_out x k @ [f])\<rparr>)"
proof -
  note q = qsystem_okD [OF x]
  note c = popPass_closed [OF p] popPass_content [OF q(1) p]
  have "\<not> q_closed (qsys_queue x)" using log_ok_closed [OF q(3) [of k]] c(2) [of k] by auto
  moreover have "wake_ok (x\<lparr>qsys_queue := q', qsys_out := (qsys_out x)(k := qsys_out x k @ [f])\<rparr>) j" for j
    using q(2) [of j] w c(1) c(2) [of j] popPass_other [OF q(1) p, of j] by (cases "j = k") (auto simp: wake_ok_def)
  moreover have "log_ok (x\<lparr>qsys_queue := q', qsys_out := (qsys_out x)(k := qsys_out x k @ [f])\<rparr>) j" for j
    using q(3) [of j] c(1) c(2) [of j] calculation(1) by (cases "j = k") (simp_all add: log_ok_def)
  ultimately show ?thesis using popPass_ok [OF q(1) p] by (simp add: qsystem_ok_def)
qed

lemma wake_step_ok:
  assumes x: "qsystem_ok x" and w: "qsys_waiting x k" and p: "popWake (qsys_queue x) k = Some q'"
  shows "qsystem_ok (x\<lparr>qsys_queue := q', qsys_waiting := (qsys_waiting x)(k := False)\<rparr>)"
proof -
  note q = qsystem_okD [OF x]
  have k: "0 \<le> k" "k < ShardCount" using q(2) [of k] w by (auto simp: wake_ok_def)
  have q': "q' = (qsys_queue x)\<lparr>q_shards := (q_shards (qsys_queue x))[nat k := (q_shards (qsys_queue x) ! nat k)\<lparr>qs_ready := False\<rparr>]\<rparr>"
    using p by (auto simp: popWake_def split: if_splits)
  have c: "shard_content q' j = shard_content (qsys_queue x) j" "q_closed q' = q_closed (qsys_queue x)"
    and other: "\<lbrakk>0 \<le> j; j < ShardCount; j \<noteq> k\<rbrakk> \<Longrightarrow> q_shards q' ! nat j = q_shards (qsys_queue x) ! nat j" for j
    using nth_update_shard [OF q(1) k, of j] by (auto simp: q' shard_content_def)
  have "wake_ok (x\<lparr>qsys_queue := q', qsys_waiting := (qsys_waiting x)(k := False)\<rparr>) j" for j
    using q(2) [of j] c other [of j] by (auto simp: wake_ok_def)
  with popWake_ok [OF q(1) k p] q(3) c show ?thesis by (simp add: qsystem_ok_def log_ok_def)
qed

lemma close_step_ok:
  assumes x: "qsystem_ok x"
  shows "qsystem_ok (x\<lparr>qsys_queue := CloseQueue (qsys_queue x)\<rparr>)"
proof (cases "q_closed (qsys_queue x)")
  case False
  note q = qsystem_okD [OF x]
  have n: "\<lbrakk>0 \<le> k; k < ShardCount\<rbrakk> \<Longrightarrow> map closeShard (q_shards (qsys_queue x)) ! nat k = closeShard (q_shards (qsys_queue x) ! nat k)" for k
    using queue_ok_shard [OF q(1), of k] by simp
  then have "shard_content (CloseQueue (qsys_queue x)) k = []" for k
    using False by (simp add: shard_content_def CloseQueue_def)
  moreover have "wake_ok (x\<lparr>qsys_queue := CloseQueue (qsys_queue x)\<rparr>) k" for k
    using q(2) [of k] n [of k] False by (auto simp: wake_ok_def CloseQueue_def)
  moreover have "\<exists>lost. qsys_in x k = qsys_out x k @ lost" for k using q(3) [of k] by (auto simp: log_ok_def)
  moreover have "q_closed (CloseQueue (qsys_queue x))" by (simp add: CloseQueue_def)
  ultimately show ?thesis
    using CloseQueue_ok [OF q(1)] by (simp add: qsystem_ok_def log_ok_def)
qed (use x in \<open>simp add: CloseQueue_def\<close>)

lemma queue_step_ok: "\<lbrakk>queue_step x y; qsystem_ok x\<rbrakk> \<Longrightarrow> qsystem_ok y"
proof (induction rule: queue_step.induct)
  case (block x k q')
  note q = qsystem_okD [OF block.prems]
  note p = popPass_wait [OF block.hyps(2)]
  then have "\<not> q_closed (qsys_queue x)" using q(1) queue_ok_shard [OF q(1), of k] by (auto simp: queue_ok_def)
  with block p q show ?case by (auto simp: qsystem_ok_def wake_ok_def log_ok_def)
qed (blast intro: offer_ok take_ok wake_step_ok close_step_ok)+

lemma NewQueue_content: "shard_content NewQueue k = []"
proof (cases "0 \<le> k \<and> k < ShardCount")
  case True
  then have "nat k < nat ShardCount" by simp
  then show ?thesis by (simp add: shard_content_def NewQueue_def del: nat_less_eq_zless)
qed (auto simp: shard_content_def)

lemma reachable_ok: "queue_reachable x \<Longrightarrow> qsystem_ok x"
proof -
  have "queue_step\<^sup>*\<^sup>* y x \<Longrightarrow> qsystem_ok y \<Longrightarrow> qsystem_ok x" for y
    by (induction rule: rtranclp_induct) (auto intro: queue_step_ok)
  moreover have "qsystem_ok queue_init"
    using NewQueue_ok by (simp add: qsystem_ok_def queue_init_def wake_ok_def log_ok_def NewQueue_content)
  ultimately show "queue_reachable x \<Longrightarrow> qsystem_ok x" by (simp add: queue_reachable_def)
qed

subsection \<open>Properties\<close>

lemma sum_list_bound: "(\<And>x. x \<in> set xs \<Longrightarrow> f x \<le> (b :: int)) \<Longrightarrow> sum_list (map f xs) \<le> int (length xs) * b"
  by (induction xs) (auto simp: algebra_simps intro: add_mono)

lemma ShardFor_range: "0 \<le> ShardFor u c \<and> ShardFor u c < ShardCount"
proof -
  have "uint (v mod 8 :: uint64) < 8" for v by (simp add: uint_mod)
  then show ?thesis by (simp add: ShardFor_def Let_def ShardCount_def)
qed

definition demo_source :: Source where
  "demo_source = \<lparr>src_UserID = 7, src_SessionID = 1, src_ChannelID = 3, src_ControlConnectionID = 4,
     src_ConnectionGeneration = 1, src_VoiceAuthorityGeneration = 1\<rparr>"

definition demo_media :: Frame where
  "demo_media = \<lparr>f_Source = demo_source, f_ChannelType = 1, f_ChannelSeq = 9, f_TransportSeq = 5, f_Payload = [1, 2, 3]\<rparr>"

definition demo_queue :: QueueSystem where
  "demo_queue = queue_init\<lparr>qsys_queue := snd (Enqueue NewQueue 2 demo_media), qsys_in := (qsys_in queue_init)(2 := [demo_media])\<rparr>"

lemma demo_enqueue: "0 \<le> k \<Longrightarrow> k < ShardCount \<Longrightarrow> fst (Enqueue NewQueue k demo_media)"
  by (simp add: Enqueue_def NewQueue_def demo_media_def demo_source_def payloadLen_def queue_consts cloneFrame_def)

lemma demo_queue_reachable: "queue_reachable demo_queue"
proof -
  obtain q' where e: "Enqueue (qsys_queue queue_init) 2 demo_media = (True, q')" "q' = snd (Enqueue NewQueue 2 demo_media)"
    using demo_enqueue [of 2] by (simp add: queue_init_def prod_eq_iff ShardCount_def)
  from queue_step.offer [OF e(1)] have "queue_step queue_init demo_queue"
    by (simp add: demo_queue_def e(2)) (simp add: queue_init_def)
  then show ?thesis by (simp add: queue_reachable_def)
qed

text \<open>Exact bounded occupancy: in every reachable state the global counters are exactly the number and
  the payload bytes of the waiting frames, each shard holds at most 512 frames and 2 MiB, and the
  process at most 4096 frames and 16 MiB.  No counter can drift or go negative.\<close>

theorem queue_occupancy_exact:
  assumes "queue_reachable x"
  shows "let q = qsys_queue x in
    q_items q = (\<Sum>s \<leftarrow> q_shards q. int (length (qs_queue s))) \<and>
    q_bytes q = (\<Sum>s \<leftarrow> q_shards q. \<Sum>f \<leftarrow> qs_queue s. int (length (f_Payload f))) \<and>
    0 \<le> q_items q \<and> q_items q \<le> MaxQueueItems \<and> 0 \<le> q_bytes q \<and> q_bytes q \<le> MaxQueueBytes \<and>
    (\<forall>s \<in> set (q_shards q). int (length (qs_queue s)) \<le> MaxShardItems \<and> qs_bytes s \<le> MaxShardBytes)"
proof -
  let ?q = "qsys_queue x"
  have ok: "queue_ok ?q" using reachable_ok [OF assms] by (simp add: qsystem_ok_def)
  then have s: "s \<in> set (q_shards ?q) \<Longrightarrow> qs_items s = int (length (qs_queue s)) \<and> qs_bytes s = (\<Sum>f \<leftarrow> qs_queue s. int (length (f_Payload f))) \<and>
      qs_items s \<le> MaxShardItems \<and> qs_bytes s \<le> MaxShardBytes" for s
    by (auto simp: queue_ok_def shard_ok_def payloadLen_def [abs_def])
  have sums: "q_items ?q = (\<Sum>s \<leftarrow> q_shards ?q. int (length (qs_queue s)))"
    "q_bytes ?q = (\<Sum>s \<leftarrow> q_shards ?q. \<Sum>f \<leftarrow> qs_queue s. int (length (f_Payload f)))"
    using ok s by (auto simp: queue_ok_def intro!: arg_cong [where f = sum_list])
  have len: "int (length (q_shards ?q)) = 8" using ok by (simp add: queue_ok_def ShardCount_def)
  have "q_items ?q \<le> MaxQueueItems" "q_bytes ?q \<le> MaxQueueBytes"
  proof -
    have "sum_list (map qs_items (q_shards ?q)) \<le> int (length (q_shards ?q)) * MaxShardItems"
      "sum_list (map qs_bytes (q_shards ?q)) \<le> int (length (q_shards ?q)) * MaxShardBytes"
      by (intro sum_list_bound; use s in blast)+
    then show "q_items ?q \<le> MaxQueueItems" "q_bytes ?q \<le> MaxQueueBytes"
      using ok unfolding len by (simp_all add: queue_ok_def queue_consts)
  qed
  moreover have "0 \<le> q_items ?q" "0 \<le> q_bytes ?q" unfolding sums by (auto intro!: sum_list_nonneg)
  moreover have "\<forall>s \<in> set (q_shards ?q). int (length (qs_queue s)) \<le> MaxShardItems \<and> qs_bytes s \<le> MaxShardBytes"
    using s by metis
  ultimately show ?thesis unfolding Let_def using sums by blast
qed

theorem queue_occupancy_exact_witness:
  "let q = qsys_queue demo_queue in
    q_items q = (\<Sum>s \<leftarrow> q_shards q. int (length (qs_queue s))) \<and>
    q_bytes q = (\<Sum>s \<leftarrow> q_shards q. \<Sum>f \<leftarrow> qs_queue s. int (length (f_Payload f))) \<and>
    0 \<le> q_items q \<and> q_items q \<le> MaxQueueItems \<and> 0 \<le> q_bytes q \<and> q_bytes q \<le> MaxQueueBytes \<and>
    (\<forall>s \<in> set (q_shards q). int (length (qs_queue s)) \<le> MaxShardItems \<and> qs_bytes s \<le> MaxShardBytes)"
  by (rule queue_occupancy_exact [OF demo_queue_reachable])

text \<open>First in, first out: in every reachable state the frames handed to the worker of a shard are a prefix, in order and without
  duplication, of the frames admitted to that shard; until the queue is closed the rest are exactly the waiting ones.\<close>

lemma queue_fifo:
  assumes "queue_reachable x"
  shows "(\<exists>rest. qsys_in x k = qsys_out x k @ rest) \<and>
    (\<not> q_closed (qsys_queue x) \<longrightarrow> qsys_in x k = qsys_out x k @ shard_content (qsys_queue x) k)"
  using reachable_ok [OF assms] by (fastforce simp: qsystem_ok_def log_ok_def)

text \<open>No lost wake-up: a worker that is blocked in \<^verbatim>\<open>Pop\<close> while its shard holds a frame, or while the
  queue is closed, can always be woken; after the wake-up its next pass returns a frame or ends the
  worker, so no admitted frame is stranded and \<^verbatim>\<open>Close\<close> never leaves a worker hanging.\<close>

theorem no_lost_wakeup:
  assumes "queue_reachable x" and "qsys_waiting x k"
    and "shard_content (qsys_queue x) k \<noteq> [] \<or> q_closed (qsys_queue x)"
  shows "\<exists>q'. popWake (qsys_queue x) k = Some q' \<and> fst (popPass q' k) \<noteq> PopWait"
proof -
  note ok = reachable_ok [OF assms(1)]
  have q: "queue_ok (qsys_queue x)" and w: "wake_ok x k" using ok by (simp_all add: qsystem_ok_def)
  then have k: "0 \<le> k" "k < ShardCount" and r: "qs_ready (q_shards (qsys_queue x) ! nat k)" using assms by (auto simp: wake_ok_def)
  have c: "qs_closed (q_shards (qsys_queue x) ! nat k) = q_closed (qsys_queue x)"
    using q queue_ok_shard [OF q k] by (auto simp: queue_ok_def)
  from r k c assms(3) nth_update_shard [OF q k k] show ?thesis
    by (auto simp: popWake_def popPass_def shard_content_def Let_def split: list.splits)
qed

definition demo_blocked :: QueueSystem where
  "demo_blocked = demo_queue\<lparr>qsys_waiting := (qsys_waiting queue_init)(2 := True)\<rparr>"

lemma demo_blocked_reachable: "queue_reachable demo_blocked"
proof -
  let ?y = "queue_init\<lparr>qsys_waiting := (qsys_waiting queue_init)(2 := True)\<rparr>"
  have w: "popPass (qsys_queue queue_init) 2 = (PopWait, NewQueue)"
    by (simp add: popPass_def queue_init_def NewQueue_def ShardCount_def)
  have "queue_step queue_init (queue_init\<lparr>qsys_queue := NewQueue, qsys_waiting := (qsys_waiting queue_init)(2 := True)\<rparr>)"
    by (rule queue_step.block) (use w in \<open>simp_all add: queue_init_def\<close>)
  moreover have "queue_init\<lparr>qsys_queue := NewQueue, qsys_waiting := (qsys_waiting queue_init)(2 := True)\<rparr> = ?y"
    by (simp add: queue_init_def)
  moreover have "queue_step ?y demo_blocked"
  proof -
    have e: "Enqueue (qsys_queue ?y) 2 demo_media = (True, snd (Enqueue NewQueue 2 demo_media))"
      using demo_enqueue [of 2] by (simp add: queue_init_def prod_eq_iff ShardCount_def)
    from queue_step.offer [OF e] show ?thesis by (simp add: demo_blocked_def demo_queue_def queue_init_def)
  qed
  ultimately show ?thesis by (simp add: queue_reachable_def converse_rtranclp_into_rtranclp)
qed

theorem no_lost_wakeup_witness:
  "\<exists>q'. popWake (qsys_queue demo_blocked) 2 = Some q' \<and> fst (popPass q' 2) \<noteq> PopWait"
proof (rule no_lost_wakeup [OF demo_blocked_reachable])
  show "qsys_waiting demo_blocked 2" by (simp add: demo_blocked_def)
  have "Enqueue NewQueue 2 demo_media = (True, snd (Enqueue NewQueue 2 demo_media))"
    using demo_enqueue [of 2] by (simp add: prod_eq_iff ShardCount_def)
  from Enqueue_content [OF NewQueue_ok this, of 2]
  show "shard_content (qsys_queue demo_blocked) 2 \<noteq> [] \<or> q_closed (qsys_queue demo_blocked)"
    by (simp add: demo_blocked_def demo_queue_def)
qed

end
