(* ===== verification/RelayLoad.thy ===== *)
theory RelayLoad
  imports Prelude
begin

text \<open>
  The elastic rate controller of \<^verbatim>\<open>internal/relay/load.go\<close>: one pressure sample per second lowers the
  soft limits at once, and a clean run of samples raises them again step by step.  Ratios are
  \<open>float64\<close> values; a decimal constant of the source is the double nearest to it, \<open>fl64 (4/5)\<close>.
\<close>

section \<open>Definitions\<close>

definition LoadRecoveryTicks :: int where "LoadRecoveryTicks = 30"

record HardLimits =
  hl_Global :: int
  hl_Session :: int

record SoftLimits =
  sl_Global :: int
  sl_Session :: int
  sl_Interval :: duration

record LoadInput =
  QueueUtilization :: rat
  RelayDropRatio :: rat
  UDPDropRatio :: rat
  UDPGlobalDropRatio :: rat
  UDPSourceDropRatio :: rat
  UDPSessionDropRatio :: rat
  RelayP95Latency :: duration
  StatePublicationLag :: duration

record LoadController =
  lc_hard :: HardLimits
  lc_current :: SoftLimits
  lc_overloaded :: bool
  lc_recoveryTicks :: int
  lc_cleanTicks :: int
  lc_lastInput :: LoadInput
  lc_onUpdate :: bool

record LoadSnapshot =
  ls_Hard :: HardLimits
  ls_Soft :: SoftLimits
  ls_Overloaded :: bool
  ls_RecoveryTicks :: int
  ls_LastInput :: LoadInput

datatype load_error = ErrInvalidHardLimits

definition zeroInput :: LoadInput where
  "zeroInput = \<lparr>QueueUtilization = 0, RelayDropRatio = 0, UDPDropRatio = 0, UDPGlobalDropRatio = 0,
     UDPSourceDropRatio = 0, UDPSessionDropRatio = 0, RelayP95Latency = 0, StatePublicationLag = 0\<rparr>"

definition NewLoadController :: "HardLimits \<Rightarrow> (load_error, LoadController) outcome" where
  "NewLoadController hard =
     (if hl_Global hard \<le> 0 \<or> hl_Session hard \<le> 0 then Fail ErrInvalidHardLimits
      else Return \<lparr>lc_hard = hard,
             lc_current = \<lparr>sl_Global = hl_Global hard, sl_Session = hl_Session hard, sl_Interval = 5 * second\<rparr>,
             lc_overloaded = False, lc_recoveryTicks = 0, lc_cleanTicks = 0, lc_lastInput = zeroInput, lc_onUpdate = False\<rparr>)"

definition SetUpdateFunc :: "LoadController \<Rightarrow> bool \<Rightarrow> LoadController" where
  "SetUpdateFunc c update = c\<lparr>lc_onUpdate := update\<rparr>"

definition Current :: "LoadController \<Rightarrow> SoftLimits" where
  "Current c = lc_current c"

definition SnapshotLoad :: "LoadController \<Rightarrow> LoadSnapshot" where
  "SnapshotLoad c = \<lparr>ls_Hard = lc_hard c, ls_Soft = Current c, ls_Overloaded = lc_overloaded c,
     ls_RecoveryTicks = lc_recoveryTicks c, ls_LastInput = lc_lastInput c\<rparr>"

definition pressureHigh :: "LoadInput \<Rightarrow> bool" where
  "pressureHigh input \<longleftrightarrow> QueueUtilization input \<ge> fl64 (3/4) \<or> RelayDropRatio input \<ge> fl64 (1/20) \<or>
     RelayP95Latency input \<ge> 100 * millisecond \<or> StatePublicationLag input \<ge> 250 * millisecond"

definition nextStatsInterval :: "duration \<Rightarrow> bool \<Rightarrow> duration" where
  "nextStatsInterval current0 overloaded =
     (let current = (if current0 \<le> 0 then 5 * second else current0)
      in if overloaded
         then (if current < 10 * second then 10 * second else if current < 20 * second then 20 * second else 30 * second)
         else (if current \<ge> 30 * second then 20 * second else if current \<ge> 20 * second then 10 * second
               else if current \<ge> 10 * second then 5 * second else 5 * second))"

definition maxInt :: "int \<Rightarrow> int \<Rightarrow> int" where
  "maxInt left right = (if left > right then left else right)"

definition minInt :: "int \<Rightarrow> int \<Rightarrow> int" where
  "minInt left right = (if left < right then left else right)"

text \<open>\<^verbatim>\<open>int(math.Floor(float64(x)*c))\<close>.\<close>

definition scale :: "int \<Rightarrow> rat \<Rightarrow> int" where
  "scale x c = \<lfloor>fl64 (fl64 (of_int x) * fl64 c)\<rfloor>"

text \<open>The result of a tick, and the value handed to the observer when one is installed.\<close>

definition Tick :: "LoadController \<Rightarrow> LoadInput \<Rightarrow> SoftLimits \<times> SoftLimits option \<times> LoadController" where
  "Tick c input =
     (let hard = lc_hard c;
          c0 = c\<lparr>lc_lastInput := input\<rparr>;
          current = Current c;
          (cur, c1) =
            (if pressureHigh input then
               (let globalFloor = maxInt 1 (scale (hl_Global hard) (1/4));
                    sessionFloor = maxInt 1 (minInt (hl_Session hard) 50)
                in (\<lparr>sl_Global = maxInt globalFloor (scale (sl_Global current) (4/5)),
                     sl_Session = maxInt sessionFloor (scale (sl_Session current) (4/5)),
                     sl_Interval = nextStatsInterval (sl_Interval current) True\<rparr>,
                    c0\<lparr>lc_overloaded := True, lc_cleanTicks := 0, lc_recoveryTicks := 0\<rparr>))
             else
               (let clean = lc_cleanTicks c0 + 1; c1 = c0\<lparr>lc_cleanTicks := clean\<rparr>
                in if \<not> lc_overloaded c1 then (current, c1)
                   else
                     let (cur, c2) =
                           (if clean \<ge> LoadRecoveryTicks then
                              (let rec = lc_recoveryTicks c1 + 1; c2 = c1\<lparr>lc_recoveryTicks := rec\<rparr>
                               in if rec mod 10 = 0
                                  then (\<lparr>sl_Global = minInt (hl_Global hard) (sl_Global current + maxInt 1 (scale (hl_Global hard) (1/20))),
                                         sl_Session = minInt (hl_Session hard) (sl_Session current + maxInt 1 (scale (hl_Session hard) (1/20))),
                                         sl_Interval = nextStatsInterval (sl_Interval current) False\<rparr>, c2)
                                  else (current, c2))
                            else (current, c1))
                     in (cur, if sl_Global cur \<ge> hl_Global hard \<and> sl_Session cur \<ge> hl_Session hard \<and> sl_Interval cur \<le> 5 * second
                              then c2\<lparr>lc_overloaded := False, lc_recoveryTicks := 0\<rparr> else c2)));
          final = cur\<lparr>sl_Global := minInt (hl_Global hard) (maxInt 1 (sl_Global cur)),
                      sl_Session := minInt (hl_Session hard) (maxInt 1 (sl_Session cur))\<rparr>
      in (final, if lc_onUpdate c1 then Some final else None, c1\<lparr>lc_current := final\<rparr>))"

fun tick_run :: "LoadController \<Rightarrow> LoadInput list \<Rightarrow> LoadController" where
  "tick_run c [] = c"
| "tick_run c (i # is) = tick_run (snd (snd (Tick c i))) is"

section \<open>Theorems\<close>

definition intervals :: "duration set" where
  "intervals = {5 * second, 10 * second, 20 * second, 30 * second}"

definition load_ok :: "LoadController \<Rightarrow> bool" where
  "load_ok c \<longleftrightarrow> (let h = lc_hard c; s = lc_current c in
     1 \<le> sl_Global s \<and> sl_Global s \<le> hl_Global h \<and> 1 \<le> sl_Session s \<and> sl_Session s \<le> hl_Session h \<and>
     sl_Interval s \<in> intervals \<and> 0 \<le> lc_cleanTicks c \<and> 0 \<le> lc_recoveryTicks c \<and>
     (\<not> lc_overloaded c \<longleftrightarrow> sl_Global s = hl_Global h \<and> sl_Session s = hl_Session h \<and> sl_Interval s = 5 * second))"

lemma minmax_Int: "maxInt a b = max a b" "minInt a b = min a b"
  by (auto simp: maxInt_def minInt_def)

lemma nextStatsInterval_mem: "nextStatsInterval d b \<in> intervals"
  by (simp add: nextStatsInterval_def intervals_def Let_def)

lemma NewLoadController_ok: "NewLoadController hard = Return c \<Longrightarrow> load_ok c \<and> lc_hard c = hard"
  by (auto simp: NewLoadController_def load_ok_def intervals_def split: if_splits)

text \<open>The three kinds of tick.\<close>

lemma Tick_high:
  assumes "pressureHigh i"
  shows "snd (snd (Tick c i)) = c\<lparr>lc_lastInput := i, lc_overloaded := True, lc_cleanTicks := 0, lc_recoveryTicks := 0,
    lc_current := \<lparr>sl_Global = min (hl_Global (lc_hard c)) (max 1 (max (max 1 (scale (hl_Global (lc_hard c)) (1/4))) (scale (sl_Global (lc_current c)) (4/5)))),
                   sl_Session = min (hl_Session (lc_hard c)) (max 1 (max (max 1 (min (hl_Session (lc_hard c)) 50)) (scale (sl_Session (lc_current c)) (4/5)))),
                   sl_Interval = nextStatsInterval (sl_Interval (lc_current c)) True\<rparr>\<rparr>"
  using assms by (simp add: Tick_def Let_def Current_def minmax_Int)

lemma Tick_idle:
  assumes "\<not> pressureHigh i" "\<not> lc_overloaded c" "load_ok c"
  shows "snd (snd (Tick c i)) = c\<lparr>lc_lastInput := i, lc_cleanTicks := lc_cleanTicks c + 1\<rparr>"
  using assms by (simp add: Tick_def Let_def Current_def minmax_Int load_ok_def)

definition raised :: "LoadController \<Rightarrow> SoftLimits" where
  "raised c = (if lc_cleanTicks c + 1 \<ge> LoadRecoveryTicks \<and> (lc_recoveryTicks c + 1) mod 10 = 0
     then \<lparr>sl_Global = min (hl_Global (lc_hard c)) (sl_Global (lc_current c) + max 1 (scale (hl_Global (lc_hard c)) (1/20))),
           sl_Session = min (hl_Session (lc_hard c)) (sl_Session (lc_current c) + max 1 (scale (hl_Session (lc_hard c)) (1/20))),
           sl_Interval = nextStatsInterval (sl_Interval (lc_current c)) False\<rparr>
     else lc_current c)"

lemma Tick_clean:
  assumes "\<not> pressureHigh i" "lc_overloaded c" "load_ok c"
  defines "back \<equiv> sl_Global (raised c) \<ge> hl_Global (lc_hard c) \<and> sl_Session (raised c) \<ge> hl_Session (lc_hard c) \<and> sl_Interval (raised c) \<le> 5 * second"
  shows "snd (snd (Tick c i)) = c\<lparr>lc_lastInput := i, lc_cleanTicks := lc_cleanTicks c + 1, lc_overloaded := \<not> back,
     lc_recoveryTicks := (if back then 0 else if lc_cleanTicks c + 1 \<ge> LoadRecoveryTicks then lc_recoveryTicks c + 1 else lc_recoveryTicks c),
     lc_current := raised c\<rparr>"
proof -
  have ok: "1 \<le> sl_Global (lc_current c)" "sl_Global (lc_current c) \<le> hl_Global (lc_hard c)"
    "1 \<le> sl_Session (lc_current c)" "sl_Session (lc_current c) \<le> hl_Session (lc_hard c)"
    using assms(3) by (simp_all add: load_ok_def Let_def)
  show ?thesis
  proof (cases "lc_cleanTicks c + 1 \<ge> LoadRecoveryTicks \<and> (lc_recoveryTicks c + 1) mod 10 = 0")
    case True
    have r: "raised c = \<lparr>sl_Global = min (hl_Global (lc_hard c)) (sl_Global (lc_current c) + max 1 (scale (hl_Global (lc_hard c)) (1/20))),
           sl_Session = min (hl_Session (lc_hard c)) (sl_Session (lc_current c) + max 1 (scale (hl_Session (lc_hard c)) (1/20))),
           sl_Interval = nextStatsInterval (sl_Interval (lc_current c)) False\<rparr>"
      unfolding raised_def using True by (rule if_P)
    define g where "g = max 1 (scale (hl_Global (lc_hard c)) (1/20))"
    define h where "h = max 1 (scale (hl_Session (lc_hard c)) (1/20))"
    have "0 < g" "0 < h" by (simp_all add: g_def h_def)
    then show ?thesis
      using assms(1,2) ok True unfolding back_def r
      unfolding g_def [symmetric] h_def [symmetric]
      by (simp add: Tick_def Let_def Current_def minmax_Int g_def [symmetric] h_def [symmetric])
  next
    case False
    then have r: "raised c = lc_current c" by (simp only: raised_def if_False)
    show ?thesis
      using assms(1,2) ok False unfolding back_def r
      by (auto simp: Tick_def Let_def Current_def minmax_Int)
  qed
qed

lemma load_ok_raised: "load_ok c \<Longrightarrow> 1 \<le> sl_Global (raised c) \<and> sl_Global (lc_current c) \<le> sl_Global (raised c) \<and> sl_Global (raised c) \<le> hl_Global (lc_hard c) \<and>
   sl_Session (lc_current c) \<le> sl_Session (raised c) \<and> 1 \<le> sl_Session (raised c) \<and> sl_Session (raised c) \<le> hl_Session (lc_hard c) \<and>
   sl_Interval (raised c) \<in> intervals"
  using nextStatsInterval_mem by (auto simp: raised_def load_ok_def Let_def)

lemma Tick_hard [simp]: "lc_hard (snd (snd (Tick c i))) = lc_hard c"
  by (simp add: Tick_def Let_def)

lemma clamp: "1 \<le> (h::int) \<Longrightarrow> 1 \<le> min h (max (max 1 x) y)" "min h (max 1 x) \<le> (h::int)"
  by simp_all

lemma intervals_le: "d \<in> intervals \<Longrightarrow> d \<le> 5 * second \<longleftrightarrow> d = 5 * second"
  by (auto simp: intervals_def)

lemma Tick_ok:
  assumes "load_ok c"
  shows "load_ok (snd (snd (Tick c i)))"
proof (cases "pressureHigh i")
  case True
  have "1 \<le> hl_Global (lc_hard c)" "1 \<le> hl_Session (lc_hard c)" using assms by (simp_all add: load_ok_def Let_def)
  note h = clamp(1) [OF this(1)] clamp(1) [OF this(2)] clamp(2)
  have "nextStatsInterval d True \<noteq> 5 * second" for d by (simp add: nextStatsInterval_def Let_def)
  then show ?thesis
    unfolding Tick_high [OF True] load_ok_def Let_def LoadController.simps SoftLimits.simps
    using h nextStatsInterval_mem by (simp del: min.bounded_iff max.bounded_iff min_le_iff_disj le_max_iff_disj)
next
  case False
  show ?thesis
  proof (cases "lc_overloaded c")
    case True
    have "0 \<le> lc_cleanTicks c" "0 \<le> lc_recoveryTicks c" using assms by (simp_all add: load_ok_def Let_def)
    with load_ok_raised [OF assms] intervals_le show ?thesis
      unfolding Tick_clean [OF False True assms] load_ok_def Let_def
      by auto
  qed (use assms False in \<open>auto simp: Tick_idle load_ok_def Let_def\<close>)
qed

lemma tick_run_ok: "load_ok c \<Longrightarrow> load_ok (tick_run c is) \<and> lc_hard (tick_run c is) = lc_hard c"
  by (induction "is" arbitrary: c) (simp_all add: Tick_ok)

subsection \<open>Backing off\<close>

lemma scale_less:
  assumes "1 \<le> x"
  shows "scale x (4/5) < x"
proof -
  define y where "y = (of_int x :: rat)"
  define u where "u = (1 + 1 / 2 ^ 53 :: rat)"
  have y: "1 \<le> y" "0 \<le> y" and u: "0 < u" using assms by (simp_all add: y_def u_def)
  have up: "fl64 z \<le> z * u" if "0 \<le> z" for z
    using fl64_bounds [OF that] by (simp add: u_def distrib_left)
  have "fl64 y * fl64 (4/5) \<le> (y * u) * (4/5 * u)"
    using up [OF y(2)] up [of "4/5"] y u by (intro mult_mono) (auto intro!: mult_nonneg_nonneg)
  from mult_right_mono [OF this less_imp_le [OF u]] up [of "fl64 y * fl64 (4/5)"] y(2)
  have "fl64 (fl64 y * fl64 (4/5)) \<le> (y * u) * (4/5 * u) * u"
    by (meson fl64_nonneg mult_nonneg_nonneg order_trans zero_le_divide_iff zero_le_numeral)
  also have "\<dots> = y * (4/5 * u * u * u)" by (simp add: ac_simps)
  also have "\<dots> < y * 1" using y by (intro mult_strict_left_mono) (simp_all add: u_def)
  finally show ?thesis by (simp add: scale_def floor_less_iff y_def)
qed

text \<open>The soft limits are always usable and never above the hard caps: after any sequence of pressure
  samples both rates lie between 1 and their hard limit, the telemetry interval is one of 5, 10, 20 or
  30 seconds, and a controller that does not report overload is back at the hard limits.\<close>

theorem soft_limits_bounded:
  assumes "NewLoadController hard = Return c"
  shows "let z = tick_run c is; s = Current z in
    1 \<le> sl_Global s \<and> sl_Global s \<le> hl_Global hard \<and> 1 \<le> sl_Session s \<and> sl_Session s \<le> hl_Session hard \<and>
    sl_Interval s \<in> {5 * second, 10 * second, 20 * second, 30 * second} \<and>
    (\<not> lc_overloaded z \<longrightarrow> sl_Global s = hl_Global hard \<and> sl_Session s = hl_Session hard \<and> sl_Interval s = 5 * second)"
proof -
  have c: "load_ok c" "lc_hard c = hard" using NewLoadController_ok [OF assms] by auto
  show ?thesis using tick_run_ok [OF c(1), of "is"] c(2) by (auto simp: load_ok_def Let_def Current_def intervals_def)
qed

definition demo_hard :: HardLimits where
  "demo_hard = \<lparr>hl_Global = 20000, hl_Session = 300\<rparr>"

definition demo_load :: LoadController where
  "demo_load = \<lparr>lc_hard = demo_hard, lc_current = \<lparr>sl_Global = 20000, sl_Session = 300, sl_Interval = 5 * second\<rparr>,
     lc_overloaded = False, lc_recoveryTicks = 0, lc_cleanTicks = 0, lc_lastInput = zeroInput, lc_onUpdate = False\<rparr>"

lemma demo_load_new: "NewLoadController demo_hard = Return demo_load"
  by (simp add: NewLoadController_def demo_load_def demo_hard_def)

theorem soft_limits_bounded_witness:
  "let z = tick_run demo_load [zeroInput\<lparr>RelayDropRatio := 1\<rparr>, zeroInput]; s = Current z in
    1 \<le> sl_Global s \<and> sl_Global s \<le> hl_Global demo_hard \<and> 1 \<le> sl_Session s \<and> sl_Session s \<le> hl_Session demo_hard \<and>
    sl_Interval s \<in> {5 * second, 10 * second, 20 * second, 30 * second} \<and>
    (\<not> lc_overloaded z \<longrightarrow> sl_Global s = hl_Global demo_hard \<and> sl_Session s = hl_Session demo_hard \<and> sl_Interval s = 5 * second)"
  by (rule soft_limits_bounded [OF demo_load_new])

text \<open>Pressure lowers, never raises: under a high-pressure sample each soft rate strictly decreases until
  it reaches its floor (a quarter of the hard global rate, 50 packets per second for a session) and
  never goes above its previous value, the telemetry interval does not get shorter, and the
  controller reports overload.  A clean sample never lowers a rate.\<close>

theorem pressure_backs_off:
  assumes "load_ok c"
  shows "let z = snd (snd (Tick c i)); s = Current c; s' = Current z;
             gf = max 1 (scale (hl_Global (lc_hard c)) (1/4)); sf = max 1 (min (hl_Session (lc_hard c)) 50)
         in if pressureHigh i
            then lc_overloaded z \<and> sl_Interval s' \<ge> sl_Interval s \<and>
                 (if sl_Global s > gf then sl_Global s' < sl_Global s else sl_Global s' \<le> gf) \<and>
                 (if sl_Session s > sf then sl_Session s' < sl_Session s else sl_Session s' \<le> sf)
            else sl_Global s' \<ge> sl_Global s \<and> sl_Session s' \<ge> sl_Session s"
proof (cases "pressureHigh i")
  case True
  have s: "1 \<le> sl_Global (lc_current c)" "1 \<le> sl_Session (lc_current c)" "sl_Interval (lc_current c) \<in> intervals"
    using assms by (simp_all add: load_ok_def Let_def)
  then have "nextStatsInterval (sl_Interval (lc_current c)) True \<ge> sl_Interval (lc_current c)"
    by (auto simp: intervals_def nextStatsInterval_def)
  with True scale_less [OF s(1)] scale_less [OF s(2)] show ?thesis
    by (auto simp: Tick_high Current_def Let_def)
next
  case False
  show ?thesis
  proof (cases "lc_overloaded c")
    case True
    show ?thesis using load_ok_raised [OF assms] False
      by (simp add: Tick_clean [OF False True assms] Current_def Let_def)
  qed (use False assms in \<open>simp add: Tick_idle Current_def Let_def\<close>)
qed

lemma demo_load_ok: "load_ok demo_load"
  using NewLoadController_ok [OF demo_load_new] by simp

theorem pressure_backs_off_witness:
  "let i = zeroInput\<lparr>RelayDropRatio := 1\<rparr>; z = snd (snd (Tick demo_load i)); s = Current demo_load; s' = Current z;
             gf = max 1 (scale (hl_Global (lc_hard demo_load)) (1/4)); sf = max 1 (min (hl_Session (lc_hard demo_load)) 50)
         in if pressureHigh i
            then lc_overloaded z \<and> sl_Interval s' \<ge> sl_Interval s \<and>
                 (if sl_Global s > gf then sl_Global s' < sl_Global s else sl_Global s' \<le> gf) \<and>
                 (if sl_Session s > sf then sl_Session s' < sl_Session s else sl_Session s' \<le> sf)
            else sl_Global s' \<ge> sl_Global s \<and> sl_Session s' \<ge> sl_Session s"
  unfolding Let_def [of "zeroInput\<lparr>RelayDropRatio := 1\<rparr>"] by (rule pressure_backs_off [OF demo_load_ok])

subsection \<open>Recovery\<close>

text \<open>How many clean ticks are left: the rest of the clean window, then ten per step of the largest
  deficit.\<close>

definition interval_rank :: "duration \<Rightarrow> int" where
  "interval_rank d = (if d = 30 * second then 3 else if d = 20 * second then 2 else if d = 10 * second then 1 else 0)"

definition steps_left :: "LoadController \<Rightarrow> int" where
  "steps_left c = (let h = lc_hard c; s = lc_current c in
     max (max (hl_Global h - sl_Global s) (hl_Session h - sl_Session s)) (interval_rank (sl_Interval s)))"

definition ticks_left :: "LoadController \<Rightarrow> int" where
  "ticks_left c = (if \<not> lc_overloaded c then 0
     else max 0 (LoadRecoveryTicks - lc_cleanTicks c) + 10 * steps_left c - lc_recoveryTicks c mod 10)"

lemma steps_left_nonneg: "load_ok c \<Longrightarrow> 0 \<le> steps_left c"
  by (auto simp: load_ok_def steps_left_def Let_def)

lemma max_step:
  "\<lbrakk>1 \<le> a; 1 \<le> b; j \<le> max 0 (i - 1); 0 < max (max (hg - g) (hs - s)) i\<rbrakk>
   \<Longrightarrow> max (max (hg - min hg (g + a)) (hs - min hs (s + b))) j \<le> max (max (hg - g) (hs - s)) i - (1::int)"
  by linarith

lemma steps_left_upd:
  "steps_left (c\<lparr>lc_current := s\<rparr>) = max (max (hl_Global (lc_hard c) - sl_Global s) (hl_Session (lc_hard c) - sl_Session s))
     (interval_rank (sl_Interval s))"
  by (simp add: steps_left_def Let_def)

lemma raised_steps:
  assumes "load_ok c" "lc_cleanTicks c + 1 \<ge> LoadRecoveryTicks" "(lc_recoveryTicks c + 1) mod 10 = 0" "0 < steps_left c"
  shows "steps_left (c\<lparr>lc_current := raised c\<rparr>) \<le> steps_left c - 1"
proof -
  have "sl_Interval (lc_current c) \<in> intervals" using assms(1) by (simp add: load_ok_def Let_def)
  then have "interval_rank (nextStatsInterval (sl_Interval (lc_current c)) False) \<le> max 0 (interval_rank (sl_Interval (lc_current c)) - 1)"
    by (auto simp: intervals_def nextStatsInterval_def interval_rank_def)
  from max_step [OF _ _ this, of "max 1 (scale (hl_Global (lc_hard c)) (1/20))" "max 1 (scale (hl_Session (lc_hard c)) (1/20))"
      "hl_Global (lc_hard c)" "sl_Global (lc_current c)" "hl_Session (lc_hard c)" "sl_Session (lc_current c)"] assms(4)
  have "max (max (hl_Global (lc_hard c) - sl_Global (raised c)) (hl_Session (lc_hard c) - sl_Session (raised c)))
      (interval_rank (sl_Interval (raised c))) \<le> steps_left c - 1"
    unfolding raised_def if_P [OF conjI [OF assms(2,3)]] steps_left_def Let_def SoftLimits.simps
    by (metis max.cobounded1)
  then show ?thesis by (simp only: steps_left_upd)
qed

lemma steps_left_zero:
  assumes "load_ok c" "steps_left c \<le> 0"
  shows "sl_Global (lc_current c) = hl_Global (lc_hard c)" "sl_Session (lc_current c) = hl_Session (lc_hard c)" "sl_Interval (lc_current c) = 5 * second"
  using assms by (auto simp: load_ok_def steps_left_def Let_def intervals_def interval_rank_def split: if_splits)

lemma overloaded_steps:
  assumes "load_ok c" "lc_overloaded c"
  shows "1 \<le> steps_left c"
proof (rule ccontr)
  assume "\<not> 1 \<le> steps_left c"
  then have "steps_left c \<le> 0" by simp
  from steps_left_zero [OF assms(1) this] assms show False by (simp add: load_ok_def Let_def)
qed

lemma ticks_left_pos:
  assumes "load_ok c" "lc_overloaded c"
  shows "0 < ticks_left c"
proof -
  have "lc_recoveryTicks c mod 10 < 10" by simp
  with overloaded_steps [OF assms] assms(2) show ?thesis unfolding ticks_left_def by simp
qed

lemma mod_succ_10: "(r + 1) mod 10 = (if r mod 10 = 9 then 0 else r mod 10 + (1::int))"
proof -
  have "(r + 1) mod 10 = (r mod 10 + 1) mod 10" by (simp only: mod_add_left_eq)
  moreover have "0 \<le> r mod 10" "r mod 10 < 10" by simp_all
  ultimately show ?thesis by (cases "r mod 10 = 9") simp_all
qed

lemma Tick_progress:
  assumes ok: "load_ok c" and i: "\<not> pressureHigh i" and o: "lc_overloaded c"
  shows "ticks_left (snd (snd (Tick c i))) < ticks_left c"
proof -
  define z where "z = snd (snd (Tick c i))"
  have zok: "load_ok z" unfolding z_def by (rule Tick_ok [OF ok])
  note pos = ticks_left_pos [OF ok o]
  note t = Tick_clean [OF i o ok, folded z_def]
  show ?thesis
  proof (cases "lc_overloaded z")
    case False
    then show ?thesis using pos by (simp add: z_def [symmetric] ticks_left_def)
  next
    case over: True
    have z: "lc_cleanTicks z = lc_cleanTicks c + 1" "steps_left z = steps_left (c\<lparr>lc_current := raised c\<rparr>)"
      "lc_recoveryTicks z = (if lc_cleanTicks c + 1 \<ge> LoadRecoveryTicks then lc_recoveryTicks c + 1 else lc_recoveryTicks c)"
      using over unfolding t by (auto simp: steps_left_def Let_def)
    have s1: "0 < steps_left c" using overloaded_steps [OF ok o] by simp
    show ?thesis
    proof (cases "lc_cleanTicks c + 1 \<ge> LoadRecoveryTicks")
      case False
      then have "raised c = lc_current c" by (simp add: raised_def)
      then show ?thesis using z over o False by (simp add: z_def [symmetric] ticks_left_def)
    next
      case True
      show ?thesis
      proof (cases "(lc_recoveryTicks c + 1) mod 10 = 0")
        case wrap: True
        from raised_steps [OF ok True wrap s1] mod_succ_10 [of "lc_recoveryTicks c"] z over o True wrap
        show ?thesis by (simp add: z_def [symmetric] ticks_left_def)
      next
        case False
        then have "raised c = lc_current c" by (simp add: raised_def)
        moreover have "(lc_recoveryTicks c + 1) mod 10 = lc_recoveryTicks c mod 10 + 1"
          using mod_succ_10 [of "lc_recoveryTicks c"] False by (simp split: if_splits)
        ultimately show ?thesis using z over o True by (simp add: z_def [symmetric] ticks_left_def)
      qed
    qed
  qed
qed

lemma idle_run: "\<lbrakk>load_ok c; \<not> lc_overloaded c; \<forall>i \<in> set is. \<not> pressureHigh i\<rbrakk> \<Longrightarrow> \<not> lc_overloaded (tick_run c is)"
proof (induction "is" arbitrary: c)
  case (Cons i "is")
  then have "\<not> lc_overloaded (snd (snd (Tick c i)))" by (simp add: Tick_idle)
  with Cons show ?case by (simp add: Tick_ok)
qed simp

lemma clean_run:
  "\<lbrakk>load_ok c; \<forall>i \<in> set is. \<not> pressureHigh i; ticks_left c \<le> int (length is)\<rbrakk> \<Longrightarrow> \<not> lc_overloaded (tick_run c is)"
proof (induction "is" arbitrary: c)
  case Nil
  then show ?case using ticks_left_pos [of c] by auto
next
  case (Cons i "is")
  show ?case
  proof (cases "lc_overloaded c")
    case True
    with Tick_progress [of c i] Cons show ?thesis by (simp add: Tick_ok)
  next
    case False
    with Cons.prems idle_run [of c "i # is"] show ?thesis by simp
  qed
qed

text \<open>Recovery: from any reachable state of the controller, a run of clean samples restores the hard limits
  and ends the overload.  The run need not be longer than the 30-tick window plus ten ticks per
  packet per second of the larger hard limit (at least three steps), since every tenth recovery tick
  raises each rate by at least one.\<close>

theorem load_recovers:
  assumes "load_ok c" and "\<forall>i \<in> set is. \<not> pressureHigh i"
    and "30 + 10 * max 3 (max (hl_Global (lc_hard c)) (hl_Session (lc_hard c))) \<le> int (length is)"
  shows "\<not> lc_overloaded (tick_run c is) \<and>
    Current (tick_run c is) = \<lparr>sl_Global = hl_Global (lc_hard c), sl_Session = hl_Session (lc_hard c), sl_Interval = 5 * second\<rparr>"
proof -
  have "steps_left c \<le> max 3 (max (hl_Global (lc_hard c)) (hl_Session (lc_hard c)))"
    using assms(1) by (auto simp: load_ok_def Let_def steps_left_def interval_rank_def)
  moreover have "max 0 (LoadRecoveryTicks - lc_cleanTicks c) \<le> 30" "0 \<le> lc_recoveryTicks c mod 10"
    using assms(1) by (auto simp: load_ok_def Let_def LoadRecoveryTicks_def)
  ultimately have "ticks_left c \<le> int (length is)"
    using assms(3) unfolding ticks_left_def by (cases "lc_overloaded c") simp_all
  then have "\<not> lc_overloaded (tick_run c is)" by (rule clean_run [OF assms(1,2)])
  with tick_run_ok [OF assms(1), of "is"] show ?thesis by (simp add: load_ok_def Let_def Current_def)
qed

theorem load_recovers_witness:
  "\<not> lc_overloaded (tick_run demo_load (replicate 200030 zeroInput)) \<and>
    Current (tick_run demo_load (replicate 200030 zeroInput)) =
      \<lparr>sl_Global = hl_Global (lc_hard demo_load), sl_Session = hl_Session (lc_hard demo_load), sl_Interval = 5 * second\<rparr>"
proof (rule load_recovers [OF demo_load_ok])
  have "\<not> pressureHigh zeroInput" by (simp add: pressureHigh_def zeroInput_def not_le)
  then show "\<forall>i \<in> set (replicate 200030 zeroInput). \<not> pressureHigh i" by auto
  show "30 + 10 * max 3 (max (hl_Global (lc_hard demo_load)) (hl_Session (lc_hard demo_load))) \<le> int (length (replicate 200030 zeroInput))"
    by (simp add: demo_load_def demo_hard_def)
qed

end
