(* ===== verification/RelayCore.thy ===== *)
theory RelayCore
  imports Udp RelayQueue RelayLoad
begin

text \<open>
  The media relay of \<^verbatim>\<open>internal/relay/relay.go\<close> and its soft admission of
  \<^verbatim>\<open>internal/relay/admission.go\<close>: the read-side \<^verbatim>\<open>Handle\<close>, the worker-side \<^verbatim>\<open>process\<close> with its two
  authority checks around the voice gate, counters, latency samples and limits.

  \<^item> The adapters of \<^verbatim>\<open>Config\<close> are arguments: the source, membership and mute resolvers are
    functions, and the sender is a state-passing function, so that the UDP transport can be plugged in.
  \<^item> \<^verbatim>\<open>process\<close> asks the source resolver twice, before and after it holds the gate; the two answers are
    two arguments, because an authority change may happen in between.
  \<^item> A pair of cumulative and interval counters is one \<open>counter\<close> key of two tables.
\<close>

section \<open>Definitions\<close>

subsection \<open>Soft admission\<close>

definition MaxTrackedSessions :: nat where "MaxTrackedSessions = 4096"
definition MaxLatencySamples :: nat where "MaxLatencySamples = 4096"
definition MaxFanout :: nat where "MaxFanout = 256"

record sessionBucket =
  sb_bucket :: TokenBucket
  sb_lastSeen :: gotime

record softAdmission =
  sa_global :: TokenBucket
  sa_sessions :: "(id16, sessionBucket) fmap"
  sa_globalRate :: int
  sa_sessionRate :: int

definition newSoftAdmission :: "int \<Rightarrow> int \<Rightarrow> gotime \<Rightarrow> softAdmission" where
  "newSoftAdmission globalRate sessionRate clk =
     \<lparr>sa_global = NewTokenBucket (fl64 (of_int globalRate)) (globalRate * 2) clk, sa_sessions = fmempty,
      sa_globalRate = globalRate, sa_sessionRate = sessionRate\<rparr>"

definition softSweep :: "softAdmission \<Rightarrow> gotime \<Rightarrow> softAdmission" where
  "softSweep a now = a\<lparr>sa_sessions := gm_filter (\<lambda>_ s. \<not> time_sub now (sb_lastSeen s) > 120 * second) (sa_sessions a)\<rparr>"

definition softSet :: "softAdmission \<Rightarrow> SoftLimits \<Rightarrow> gotime \<Rightarrow> softAdmission" where
  "softSet a limits now =
     (let globalRate = (if sl_Global limits < 1 then 1 else sl_Global limits);
          sessionRate = (if sl_Session limits < 1 then 1 else sl_Session limits);
          a1 = a\<lparr>sa_globalRate := globalRate, sa_sessionRate := sessionRate,
                 sa_global := SetRate (sa_global a) (fl64 (of_int globalRate)) (globalRate * 2) now\<rparr>;
          a2 = softSweep a1 now
      in a2\<lparr>sa_sessions := fmmap (\<lambda>s. s\<lparr>sb_bucket := SetRate (sb_bucket s) (fl64 (of_int sessionRate)) (sessionRate * 2) now\<rparr>) (sa_sessions a2)\<rparr>)"

definition softAllow :: "softAdmission \<Rightarrow> id16 \<Rightarrow> gotime \<Rightarrow> gotime \<Rightarrow> bool \<times> softAdmission" where
  "softAllow a sessionID now clk =
     (if sessionID = 0 then (False, a)
      else case TakeAt (sa_global a) now of (ok, g) \<Rightarrow>
        let a1 = a\<lparr>sa_global := g\<rparr>;
            charge = (\<lambda>a session. case TakeAt (sb_bucket session) now of (got, b) \<Rightarrow>
                        (got, a\<lparr>sa_sessions := fmupd sessionID \<lparr>sb_bucket = b, sb_lastSeen = now\<rparr> (sa_sessions a)\<rparr>))
        in if \<not> ok then (False, a1)
           else case fmlookup (sa_sessions a1) sessionID of
                  Some session \<Rightarrow> charge a1 session
                | None \<Rightarrow>
                    let full = (\<lambda>a. gm_len (sa_sessions a) \<ge> MaxTrackedSessions);
                        a2 = (if full a1 then softSweep a1 now else a1)
                    in if full a1 \<and> full a2 then (False, a2)
                       else charge a2 \<lparr>sb_bucket = NewTokenBucket (fl64 (of_int (sa_sessionRate a2))) (sa_sessionRate a2 * 2) clk,
                                       sb_lastSeen = 0\<rparr>)"

subsection \<open>The relay\<close>

record Recipient =
  rc_UserID :: int64
  rc_SessionID :: id16

record MembershipSnapshot =
  ms_ChannelID :: int64
  ms_Members :: "Recipient list"

datatype counter =
    CEnqueued | CDroppedOverload | CDroppedSoftLimit | CDroppedNoAuthority | CDroppedStaleAuthority
  | CDroppedMuted | CDroppedNoMembership | CDroppedInvalidChannel | CSent | CSendErrors

datatype relay_error = ErrInvalidRelay | ErrRelayAlreadyStarted | ErrRelayNotStarted | ErrWorkerPanic | ErrContext

record Relay =
  r_queue :: Queue
  r_soft :: softAdmission
  r_hardGlobal :: int
  r_hardSession :: int
  r_started :: bool
  r_stopped :: bool
  r_err :: "relay_error option"
  r_total :: "counter \<Rightarrow> uint64"
  r_interval :: "counter \<Rightarrow> uint64"
  r_latencies :: "duration list"

record MetricsSnapshot =
  mt_count :: "counter \<Rightarrow> uint64"
  mt_queue :: QueueStats
  mt_p95 :: duration
  mt_p95_ms :: int

record IntervalSample =
  is_Enqueued :: uint64
  is_Dropped :: uint64
  is_SendErrors :: uint64
  is_QueueUtilization :: rat
  is_P95 :: duration

definition NewRelay :: "bool \<Rightarrow> int \<Rightarrow> int \<Rightarrow> gotime \<Rightarrow> (relay_error, Relay) outcome" where
  "NewRelay adapters_present globalPps sessionPps clk =
     (if \<not> adapters_present \<or> globalPps \<le> 0 \<or> sessionPps \<le> 0 then Fail ErrInvalidRelay
      else Return \<lparr>r_queue = NewQueue, r_soft = newSoftAdmission globalPps sessionPps clk, r_hardGlobal = globalPps,
             r_hardSession = sessionPps, r_started = False, r_stopped = False, r_err = None,
             r_total = (\<lambda>_. 0), r_interval = (\<lambda>_. 0), r_latencies = []\<rparr>)"

definition bump :: "counter \<Rightarrow> Relay \<Rightarrow> Relay" where
  "bump c r = r\<lparr>r_total := (r_total r)(c := r_total r c + 1), r_interval := (r_interval r)(c := r_interval r c + 1)\<rparr>"

definition Handle ::
  "(int64 \<Rightarrow> Source option) \<Rightarrow> ChannelTypeRegistry \<Rightarrow> Relay \<Rightarrow> InboundFrame \<Rightarrow> gotime \<Rightarrow> gotime \<Rightarrow> Relay" where
  "Handle resolve caps r frame now clk =
     (if \<not> r_started r \<or> sint (fr_UserID frame) \<le> 0 \<or> fr_SessionID frame = 0 \<or> length (fr_Payload frame) = 0 then r
      else case resolve (fr_UserID frame) of
        None \<Rightarrow> bump CDroppedNoAuthority r
      | Some source \<Rightarrow>
          if \<not> SourceValid source \<or> src_SessionID source \<noteq> fr_SessionID frame then bump CDroppedNoAuthority r
          else if (case LookupChannel caps (fr_ChannelType frame) of None \<Rightarrow> True | Some cap \<Rightarrow> cap_MuteKind cap = []) then bump CDroppedInvalidChannel r
          else case softAllow (r_soft r) (fr_SessionID frame) now clk of (ok, soft') \<Rightarrow>
            let r1 = r\<lparr>r_soft := soft'\<rparr>
            in if \<not> ok then bump CDroppedSoftLimit r1
               else case Enqueue (r_queue r1) (ShardFor (src_UserID source) (fr_ChannelType frame))
                           \<lparr>f_Source = source, f_ChannelType = fr_ChannelType frame, f_ChannelSeq = fr_ChannelSeq frame,
                            f_TransportSeq = fr_TransportSeq frame, f_Payload = fr_Payload frame\<rparr> of
                      (got, q') \<Rightarrow>
                        let r2 = r1\<lparr>r_queue := q'\<rparr>
                        in if \<not> got then bump CDroppedOverload r2 else bump CEnqueued r2)"

definition StartRelay :: "Relay \<Rightarrow> (relay_error, unit) outcome \<times> Relay" where
  "StartRelay r = (if r_started r then (Fail ErrRelayAlreadyStarted, r) else (Return (), r\<lparr>r_started := True\<rparr>))"

definition CloseRelay :: "Relay \<Rightarrow> bool \<Rightarrow> (relay_error, unit) outcome \<times> Relay" where
  "CloseRelay r workers_done =
     (if \<not> r_started r then (Fail ErrRelayNotStarted, r)
      else let r1 = r\<lparr>r_stopped := True\<rparr>
           in if workers_done then (case r_err r1 of None \<Rightarrow> Return () | Some e \<Rightarrow> Fail e, r1) else (Fail ErrContext, r1))"

definition minPositive :: "int \<Rightarrow> int \<Rightarrow> int" where
  "minPositive value hard = (let v = (if value < 1 then 1 else value) in if v > hard then hard else v)"

definition SetSoftLimits :: "Relay \<Rightarrow> SoftLimits \<Rightarrow> gotime \<Rightarrow> Relay" where
  "SetSoftLimits r limits now =
     r\<lparr>r_soft := softSet (r_soft r) \<lparr>sl_Global = minPositive (sl_Global limits) (r_hardGlobal r),
                    sl_Session = minPositive (sl_Session limits) (r_hardSession r), sl_Interval = 0\<rparr> now\<rparr>"

definition percentile95 :: "duration list \<Rightarrow> duration" where
  "percentile95 values =
     (if length values = 0 then 0
      else let copyValues = sort values;
               position = (length copyValues * 95 + 99) div 100;
               position' = (if position > 0 then position - 1 else position)
           in copyValues ! position')"

definition TotalDropped :: "(counter \<Rightarrow> uint64) \<Rightarrow> uint64" where
  "TotalDropped m = m CDroppedOverload + m CDroppedSoftLimit + m CDroppedNoAuthority + m CDroppedStaleAuthority
     + m CDroppedMuted + m CDroppedNoMembership + m CDroppedInvalidChannel"

definition SnapshotRelay :: "Relay \<Rightarrow> MetricsSnapshot" where
  "SnapshotRelay r = (let p = percentile95 (r_latencies r) in
     \<lparr>mt_count = r_total r, mt_queue = StatsQueue (r_queue r), mt_p95 = p, mt_p95_ms = go_quot p millisecond\<rparr>)"

definition takeInterval :: "Relay \<Rightarrow> IntervalSample \<times> Relay" where
  "takeInterval r =
     (\<lparr>is_Enqueued = r_interval r CEnqueued, is_Dropped = TotalDropped (r_interval r), is_SendErrors = r_interval r CSendErrors,
       is_QueueUtilization = st_Utilization (StatsQueue (r_queue r)), is_P95 = percentile95 (r_latencies r)\<rparr>,
      r\<lparr>r_interval := (\<lambda>_. 0), r_latencies := []\<rparr>)"

definition recordLatency :: "Relay \<Rightarrow> duration \<Rightarrow> Relay" where
  "recordLatency r latency =
     (let kept = (if length (r_latencies r) \<ge> MaxLatencySamples then take (MaxLatencySamples - 1) (drop 1 (r_latencies r)) else r_latencies r)
      in r\<lparr>r_latencies := kept @ [latency]\<rparr>)"

definition setFailure :: "Relay \<Rightarrow> relay_error option \<Rightarrow> Relay" where
  "setFailure r err = (case err of None \<Rightarrow> r | Some e \<Rightarrow> (case r_err r of None \<Rightarrow> r\<lparr>r_err := Some e\<rparr> | Some _ \<Rightarrow> r))"

subsection \<open>Workers\<close>

type_synonym 's sender = "'s \<Rightarrow> id16 \<Rightarrow> byte \<Rightarrow> int64 \<Rightarrow> 16 word \<Rightarrow> bytes \<Rightarrow> bool \<times> 's"

definition skipped :: "Frame \<Rightarrow> Recipient \<Rightarrow> bool" where
  "skipped frame m \<longleftrightarrow> sint (rc_UserID m) \<le> 0 \<or> rc_SessionID m = 0 \<or> rc_SessionID m = src_SessionID (f_Source frame)"

text \<open>The recipient loop; the first result is the list of sessions a send was attempted for.\<close>

fun fanoutLoop :: "'s sender \<Rightarrow> Frame \<Rightarrow> nat \<Rightarrow> Recipient list \<Rightarrow> Relay \<Rightarrow> 's \<Rightarrow> id16 list \<times> Relay \<times> 's" where
  "fanoutLoop send frame fanout [] r st = ([], r, st)"
| "fanoutLoop send frame fanout (m # ms) r st =
     (if skipped frame m then fanoutLoop send frame fanout ms r st
      else if fanout \<ge> MaxFanout then ([], r, st)
      else case send st (rc_SessionID m) (f_ChannelType frame) (src_UserID (f_Source frame)) (f_ChannelSeq frame) (f_Payload frame) of
        (ok, st1) \<Rightarrow>
          (case fanoutLoop send frame (Suc fanout) ms (bump (if ok then CSent else CSendErrors) r) st1 of
             (sends, r', st') \<Rightarrow> (rc_SessionID m # sends, r', st')))"

definition process ::
  "'s sender \<Rightarrow> (Source \<Rightarrow> byte \<Rightarrow> bool) \<Rightarrow> (int64 \<Rightarrow> MembershipSnapshot) \<Rightarrow> Source option \<Rightarrow> Source option
     \<Rightarrow> Frame \<Rightarrow> Relay \<Rightarrow> 's \<Rightarrow> id16 list \<times> Relay \<times> 's" where
  "process send mute members before held frame r st =
     (if before \<noteq> Some (f_Source frame) then ([], bump CDroppedStaleAuthority r, st)
      else if held \<noteq> Some (f_Source frame) then ([], bump CDroppedStaleAuthority r, st)
      else if mute (f_Source frame) (f_ChannelType frame) then ([], bump CDroppedMuted r, st)
      else let ms = members (src_ChannelID (f_Source frame))
           in if ms_ChannelID ms \<noteq> src_ChannelID (f_Source frame) \<or> length (ms_Members ms) = 0
              then ([], bump CDroppedNoMembership r, st)
              else fanoutLoop send frame 0 (ms_Members ms) r st)"

text \<open>One iteration of a worker: pop, process, record the latency.\<close>

definition runShardStep ::
  "'s sender \<Rightarrow> (Source \<Rightarrow> byte \<Rightarrow> bool) \<Rightarrow> (int64 \<Rightarrow> MembershipSnapshot) \<Rightarrow> (int64 \<Rightarrow> Source option) \<Rightarrow> (int64 \<Rightarrow> Source option)
     \<Rightarrow> int \<Rightarrow> gotime \<Rightarrow> gotime \<Rightarrow> Relay \<Rightarrow> 's \<Rightarrow> pop_result \<times> id16 list \<times> Relay \<times> 's" where
  "runShardStep send mute members before held shard started finished r st =
     (case popPass (r_queue r) shard of (res, q') \<Rightarrow>
        let r1 = r\<lparr>r_queue := q'\<rparr>
        in (case res of
              Popped frame \<Rightarrow>
                (case process send mute members (before (src_UserID (f_Source frame))) (held (src_UserID (f_Source frame))) frame r1 st of
                   (sends, r2, st') \<Rightarrow> (res, sends, recordLatency r2 (time_sub finished started), st'))
            | _ \<Rightarrow> (res, [], r1, st)))"

section \<open>Theorems\<close>

subsection \<open>Fan-out\<close>

lemma bump_fields [simp]:
  "r_queue (bump c r) = r_queue r" "r_soft (bump c r) = r_soft r" "r_started (bump c r) = r_started r"
  "r_total (bump c r) d = (if d = c then r_total r c + 1 else r_total r d)"
  by (simp_all add: bump_def)

lemma fanoutLoop_sends:
  "fst (fanoutLoop send frame n ms r st) = take (MaxFanout - n) (map rc_SessionID (filter (\<lambda>m. \<not> skipped frame m) ms))"
  by (induction send frame n ms r st rule: fanoutLoop.induct) (auto simp: take_Cons' Suc_diff_le split: prod.splits)

text \<open>Every attempt passes the frame on unchanged, in order.\<close>

lemma fanoutLoop_state:
  "snd (snd (fanoutLoop send frame n ms r st)) =
     foldl (\<lambda>st sid. snd (send st sid (f_ChannelType frame) (src_UserID (f_Source frame)) (f_ChannelSeq frame) (f_Payload frame)))
       st (fst (fanoutLoop send frame n ms r st))"
  by (induction send frame n ms r st rule: fanoutLoop.induct) (auto split: prod.splits)

lemma fanoutLoop_counters:
  "r_total (fst (snd (fanoutLoop send frame n ms r st))) CSent + r_total (fst (snd (fanoutLoop send frame n ms r st))) CSendErrors
     = r_total r CSent + r_total r CSendErrors + of_nat (length (fst (fanoutLoop send frame n ms r st)))"
  by (induction send frame n ms r st rule: fanoutLoop.induct) (auto split: prod.splits)

text \<open>Who hears a frame: \<^verbatim>\<open>process\<close> attempts exactly the sends it should.  If the authority captured at admission
  is still current both before and under the voice gate, the source is not muted for the stream
  and the membership view is of the source's channel, the frame goes, in membership order, to the
  first 256 members with a valid user and session other than the speaker's own session; otherwise to nobody.
  Every attempt carries the original stream type, channel sequence and payload with the speaker's id,
  and counts once as sent or failed.\<close>

theorem process_fanout:
  "let res = process send mute members before held frame r st; sends = fst res;
       src = f_Source frame; view = members (src_ChannelID src)
   in sends = (if before = Some src \<and> held = Some src \<and> \<not> mute src (f_ChannelType frame) \<and> ms_ChannelID view = src_ChannelID src
               then take 256 (map rc_SessionID (filter (\<lambda>m. sint (rc_UserID m) > 0 \<and> rc_SessionID m \<noteq> 0 \<and> rc_SessionID m \<noteq> src_SessionID src)
                                (ms_Members view)))
               else []) \<and>
      src_SessionID src \<notin> set sends \<and> length sends \<le> 256 \<and>
      snd (snd res) = foldl (\<lambda>st sid. snd (send st sid (f_ChannelType frame) (src_UserID src) (f_ChannelSeq frame) (f_Payload frame))) st sends \<and>
      r_total (fst (snd res)) CSent + r_total (fst (snd res)) CSendErrors = r_total r CSent + r_total r CSendErrors + of_nat (length sends)"
proof -
  let ?ok = "\<lambda>m. sint (rc_UserID m) > 0 \<and> rc_SessionID m \<noteq> 0 \<and> rc_SessionID m \<noteq> src_SessionID (f_Source frame)"
  have sk: "(\<lambda>m. \<not> skipped frame m) = ?ok" by (auto simp: skipped_def)
  have own: "src_SessionID (f_Source frame) \<notin> set (take k (map rc_SessionID (filter ?ok ms)))" for k ms
    by (auto dest!: in_set_takeD)
  show ?thesis
    using fanoutLoop_state [of send frame 0 _ r st] fanoutLoop_counters [of send frame 0 _ r st] own
    by (auto simp: process_def Let_def fanoutLoop_sends sk MaxFanout_def simp del: fun_upd_apply)
qed

subsection \<open>Admission\<close>

text \<open>Admission of a frame: \<^verbatim>\<open>Handle\<close> either ignores a frame, or counts it exactly once.  It changes the queue only
  by appending the frame, with its payload, to the shard of its stream, and only if the relay is
  started, the user's current authority is valid and belongs to the very session the frame came
  from, and the stream type is registered with a mute kind.\<close>

theorem Handle_admission:
  assumes "queue_ok (r_queue r)"
  shows "let r' = Handle resolve caps r f now clk in
     queue_ok (r_queue r') \<and>
     (r' = r \<or> (\<exists>c. c \<notin> {CSent, CSendErrors, CDroppedStaleAuthority, CDroppedMuted, CDroppedNoMembership} \<and>
        r_total r' = (r_total r)(c := r_total r c + 1) \<and>
        (c \<noteq> CEnqueued \<longrightarrow> r_queue r' = r_queue r) \<and>
        (c = CEnqueued \<longrightarrow> (\<exists>src cap. r_started r \<and> resolve (fr_UserID f) = Some src \<and> SourceValid src \<and> src_SessionID src = fr_SessionID f \<and>
           LookupChannel caps (fr_ChannelType f) = Some cap \<and> cap_MuteKind cap \<noteq> [] \<and>
           (\<forall>k. shard_content (r_queue r') k = shard_content (r_queue r) k @
              (if k = ShardFor (src_UserID src) (fr_ChannelType f)
               then [\<lparr>f_Source = src, f_ChannelType = fr_ChannelType f, f_ChannelSeq = fr_ChannelSeq f,
                      f_TransportSeq = fr_TransportSeq f, f_Payload = fr_Payload f\<rparr>] else []))))))"
proof -
  define r' where "r' = Handle resolve caps r f now clk"
  show ?thesis
  proof (cases "r_started r \<and> sint (fr_UserID f) > 0 \<and> fr_SessionID f \<noteq> 0 \<and> fr_Payload f \<noteq> []")
    case False
    then have "r' = r" by (auto simp: r'_def Handle_def)
    with assms show ?thesis by (simp add: r'_def [symmetric] Let_def)
  next
    case go: True
    show ?thesis
    proof (cases "\<exists>src cap. resolve (fr_UserID f) = Some src \<and> SourceValid src \<and> src_SessionID src = fr_SessionID f \<and>
                    LookupChannel caps (fr_ChannelType f) = Some cap \<and> cap_MuteKind cap \<noteq> []")
      case False
      then have "\<exists>c. c \<in> {CDroppedNoAuthority, CDroppedInvalidChannel} \<and> r' = bump c r"
        using go by (auto simp: r'_def Handle_def split: option.splits)
      then obtain c where "c \<in> {CDroppedNoAuthority, CDroppedInvalidChannel}" "r' = bump c r" by blast
      with assms show ?thesis unfolding r'_def [symmetric] Let_def by (intro conjI disjI2 exI [of _ c]) (auto simp: bump_def)
    next
      case True
      then obtain src cap where s: "resolve (fr_UserID f) = Some src" "SourceValid src" "src_SessionID src = fr_SessionID f"
        "LookupChannel caps (fr_ChannelType f) = Some cap" "cap_MuteKind cap \<noteq> []" by blast
      let ?k = "ShardFor (src_UserID src) (fr_ChannelType f)"
      let ?f = "\<lparr>f_Source = src, f_ChannelType = fr_ChannelType f, f_ChannelSeq = fr_ChannelSeq f,
                 f_TransportSeq = fr_TransportSeq f, f_Payload = fr_Payload f\<rparr>"
      obtain ok soft' where a: "softAllow (r_soft r) (fr_SessionID f) now clk = (ok, soft')" by force
      obtain got q' where e: "Enqueue (r_queue r) ?k ?f = (got, q')" by force
      have r': "r' = (if \<not> ok then bump CDroppedSoftLimit (r\<lparr>r_soft := soft'\<rparr>)
                      else bump (if got then CEnqueued else CDroppedOverload) (r\<lparr>r_soft := soft', r_queue := q'\<rparr>))"
        using go s a e by (auto simp: r'_def Handle_def Let_def)
      have q: "queue_ok q'" "\<not> got \<Longrightarrow> q' = r_queue r" "shard_content q' k = shard_content (r_queue r) k @ (if k = ?k \<and> got then [?f] else [])" for k
        using Enqueue_ok [OF assms e] Enqueue_content [OF assms e] e by (auto simp: Enqueue_def Let_def split: if_splits)
      show ?thesis unfolding r'_def [symmetric] Let_def
      proof (intro conjI disjI2 exI [of _ "if \<not> ok then CDroppedSoftLimit else if got then CEnqueued else CDroppedOverload"])
      qed (use assms q s go in \<open>auto simp: r' bump_def\<close>)
    qed
  qed
qed

definition demo_relay :: Relay where
  "demo_relay = \<lparr>r_queue = NewQueue, r_soft = newSoftAdmission 20000 300 0, r_hardGlobal = 20000, r_hardSession = 300,
     r_started = True, r_stopped = False, r_err = None, r_total = (\<lambda>_. 0), r_interval = (\<lambda>_. 0), r_latencies = []\<rparr>"

theorem Handle_admission_witness:
  "let r' = Handle (\<lambda>_. Some demo_source) NewChannelTypeRegistry demo_relay demo_frame 0 0 in
     queue_ok (r_queue r') \<and>
     (r' = demo_relay \<or> (\<exists>c. c \<notin> {CSent, CSendErrors, CDroppedStaleAuthority, CDroppedMuted, CDroppedNoMembership} \<and>
        r_total r' = (r_total demo_relay)(c := r_total demo_relay c + 1) \<and>
        (c \<noteq> CEnqueued \<longrightarrow> r_queue r' = r_queue demo_relay) \<and>
        (c = CEnqueued \<longrightarrow> (\<exists>src cap. r_started demo_relay \<and> Some demo_source = Some src \<and> SourceValid src \<and> src_SessionID src = fr_SessionID demo_frame \<and>
           LookupChannel NewChannelTypeRegistry (fr_ChannelType demo_frame) = Some cap \<and> cap_MuteKind cap \<noteq> [] \<and>
           (\<forall>k. shard_content (r_queue r') k = shard_content (r_queue demo_relay) k @
              (if k = ShardFor (src_UserID src) (fr_ChannelType demo_frame)
               then [\<lparr>f_Source = src, f_ChannelType = fr_ChannelType demo_frame, f_ChannelSeq = fr_ChannelSeq demo_frame,
                      f_TransportSeq = fr_TransportSeq demo_frame, f_Payload = fr_Payload demo_frame\<rparr>] else []))))))"
  by (rule Handle_admission) (simp add: demo_relay_def NewQueue_ok)

subsection \<open>Soft limits\<close>

datatype soft_op = SAllow id16 gotime gotime | SSet SoftLimits gotime

fun soft_step :: "softAdmission \<Rightarrow> soft_op \<Rightarrow> softAdmission" where
  "soft_step a (SAllow sid now clk) = snd (softAllow a sid now clk)"
| "soft_step a (SSet limits now) = softSet a limits now"

lemma softSweep_size: "gm_len (sa_sessions (softSweep a now)) \<le> gm_len (sa_sessions a)"
  by (simp add: softSweep_def gm_len_filter_le)

lemma softAllow_size:
  "gm_len (sa_sessions a) \<le> MaxTrackedSessions \<Longrightarrow> gm_len (sa_sessions (snd (softAllow a sid now clk))) \<le> MaxTrackedSessions"
  using softSweep_size [of "a\<lparr>sa_global := snd (TakeAt (sa_global a) now)\<rparr>" now]
  by (auto simp: softAllow_def Let_def gm_len_upd split: prod.splits option.splits)

lemma softSet_size: "gm_len (sa_sessions (softSet a limits now)) \<le> gm_len (sa_sessions a)"
  by (simp add: softSet_def Let_def softSweep_def gm_len_def fmdom_map [simplified] gm_len_filter_le [unfolded gm_len_def])

interpretation soft_table: bounded_table "\<lambda>a. int (gm_len (sa_sessions a))" "\<lambda>_. int MaxTrackedSessions" soft_step
proof
  fix a :: softAdmission and x
  assume "int (gm_len (sa_sessions a)) \<le> int MaxTrackedSessions"
  then show "int (gm_len (sa_sessions (soft_step a x))) \<le> int MaxTrackedSessions"
    using softAllow_size [of a] order_trans [OF softSet_size [of a]] by (cases x) auto
qed simp

lemma softAllow_rates: "sa_globalRate (snd (softAllow a s n c)) = sa_globalRate a \<and> sa_sessionRate (snd (softAllow a s n c)) = sa_sessionRate a"
  by (auto simp: softAllow_def softSweep_def Let_def split: prod.splits option.splits)

lemma softSet_rates: "sa_globalRate (softSet a l now) = max 1 (sl_Global l) \<and> sa_sessionRate (softSet a l now) = max 1 (sl_Session l)"
  by (auto simp: softSet_def softSweep_def Let_def)

datatype relay_op =
    RHandle "int64 \<Rightarrow> Source option" ChannelTypeRegistry InboundFrame gotime gotime
  | RSetLimits SoftLimits gotime

fun relay_step :: "Relay \<Rightarrow> relay_op \<Rightarrow> Relay" where
  "relay_step r (RHandle resolve caps f now clk) = Handle resolve caps r f now clk"
| "relay_step r (RSetLimits limits now) = SetSoftLimits r limits now"

definition soft_ok :: "Relay \<Rightarrow> bool" where
  "soft_ok r \<longleftrightarrow> gm_len (sa_sessions (r_soft r)) \<le> MaxTrackedSessions \<and> 1 \<le> r_hardGlobal r \<and> 1 \<le> r_hardSession r \<and>
     1 \<le> sa_globalRate (r_soft r) \<and> sa_globalRate (r_soft r) \<le> r_hardGlobal r \<and>
     1 \<le> sa_sessionRate (r_soft r) \<and> sa_sessionRate (r_soft r) \<le> r_hardSession r"

lemma Handle_soft:
  "\<exists>sid. (r_soft (Handle resolve caps r f now clk) = r_soft r \<or> r_soft (Handle resolve caps r f now clk) = snd (softAllow (r_soft r) sid now clk)) \<and>
     r_hardGlobal (Handle resolve caps r f now clk) = r_hardGlobal r \<and> r_hardSession (Handle resolve caps r f now clk) = r_hardSession r"
  by (rule exI [of _ "fr_SessionID f"]) (auto simp: Handle_def Let_def bump_def split: option.splits prod.splits)

lemma soft_ok_step:
  assumes "soft_ok r"
  shows "soft_ok (relay_step r x) \<and> r_hardGlobal (relay_step r x) = r_hardGlobal r \<and> r_hardSession (relay_step r x) = r_hardSession r"
proof (cases x)
  case (RHandle resolve caps f now clk)
  obtain sid where h: "r_soft (relay_step r x) = r_soft r \<or> r_soft (relay_step r x) = soft_step (r_soft r) (SAllow sid now clk)"
    "r_hardGlobal (relay_step r x) = r_hardGlobal r" "r_hardSession (relay_step r x) = r_hardSession r"
    using Handle_soft [of resolve caps r f now clk] RHandle by auto
  have "int (gm_len (sa_sessions (soft_step (r_soft r) (SAllow sid now clk)))) \<le> int MaxTrackedSessions"
    by (rule soft_table.size_step) (use assms in \<open>simp add: soft_ok_def\<close>)
  with h assms softAllow_rates [of "r_soft r" sid now clk] show ?thesis by (auto simp: soft_ok_def)
next
  case (RSetLimits limits now)
  let ?l = "\<lparr>sl_Global = minPositive (sl_Global limits) (r_hardGlobal r), sl_Session = minPositive (sl_Session limits) (r_hardSession r), sl_Interval = 0\<rparr>"
  have "gm_len (sa_sessions (softSet (r_soft r) ?l now)) \<le> MaxTrackedSessions"
    using order_trans [OF softSet_size [of "r_soft r" ?l now]] assms by (simp add: soft_ok_def)
  with RSetLimits assms softSet_rates [of "r_soft r" ?l now] show ?thesis
    by (auto simp: soft_ok_def SetSoftLimits_def minPositive_def Let_def)
qed

lemma soft_ok_run: "soft_ok r \<Longrightarrow> soft_ok (foldl relay_step r xs) \<and> r_hardGlobal (foldl relay_step r xs) = r_hardGlobal r \<and>
    r_hardSession (foldl relay_step r xs) = r_hardSession r"
  by (induction xs arbitrary: r) (simp_all add: soft_ok_step)

text \<open>Soft limits respect the hard caps and the session table is bounded: over any sequence of handled frames
  and controller updates, with any values, from a new relay, both admission rates stay between 1 and
  the configured hard rates and at most 4096 sessions are tracked.\<close>

theorem relay_soft_limits_bounded:
  assumes "NewRelay True g s clk = Return r"
  shows "let a = r_soft (foldl relay_step r xs) in
    1 \<le> sa_globalRate a \<and> sa_globalRate a \<le> g \<and> 1 \<le> sa_sessionRate a \<and> sa_sessionRate a \<le> s \<and>
    gm_len (sa_sessions a) \<le> MaxTrackedSessions"
proof -
  have "soft_ok r" "r_hardGlobal r = g" "r_hardSession r = s"
    using assms by (auto simp: NewRelay_def newSoftAdmission_def soft_ok_def split: if_splits)
  with soft_ok_run [of r xs] show ?thesis by (simp add: soft_ok_def Let_def)
qed

theorem relay_soft_limits_bounded_witness:
  "let a = r_soft (foldl relay_step (demo_relay\<lparr>r_started := False\<rparr>) [RSetLimits \<lparr>sl_Global = 50000, sl_Session = 0, sl_Interval = 0\<rparr> 7]) in
    1 \<le> sa_globalRate a \<and> sa_globalRate a \<le> 20000 \<and> 1 \<le> sa_sessionRate a \<and> sa_sessionRate a \<le> 300 \<and>
    gm_len (sa_sessions a) \<le> MaxTrackedSessions"
  by (rule relay_soft_limits_bounded [where clk = 0]) (simp add: NewRelay_def demo_relay_def)

subsection \<open>The order of a stream\<close>

text \<open>The relay at work: frames arrive, workers take frames from their shards and process them, the controller sets limits, the
  relay starts and stops, and stopping closes the queue.  Two logs record the frames that a \<^verbatim>\<open>Handle\<close> appended to a shard and the frames
  the workers took, each in the order in which that happened.\<close>

record 's relay_system =
  ry_relay :: Relay
  ry_sender :: 's
  ry_admitted :: "Frame list"
  ry_processed :: "Frame list"

definition shards :: "int list" where "shards = [0..ShardCount - 1]"

definition appended :: "Relay \<Rightarrow> Relay \<Rightarrow> Frame list" where
  "appended r r' = concat (map (\<lambda>k. drop (length (shard_content (r_queue r) k)) (shard_content (r_queue r') k)) shards)"

inductive media_step :: "'s relay_system \<Rightarrow> 's relay_system \<Rightarrow> bool" where
  arrive: "Handle resolve caps (ry_relay y) f now clk = r' \<Longrightarrow>
     media_step y (y\<lparr>ry_relay := r', ry_admitted := ry_admitted y @ appended (ry_relay y) r'\<rparr>)"
| work: "runShardStep send mute members before held k started finished (ry_relay y) (ry_sender y) = (res, sends, r', st') \<Longrightarrow>
     media_step y (y\<lparr>ry_relay := r', ry_sender := st', ry_processed := ry_processed y @ (case res of Popped f \<Rightarrow> [f] | _ \<Rightarrow> [])\<rparr>)"
| wake: "0 \<le> k \<Longrightarrow> k < ShardCount \<Longrightarrow> popWake (r_queue (ry_relay y)) k = Some q' \<Longrightarrow> media_step y (y\<lparr>ry_relay := (ry_relay y)\<lparr>r_queue := q'\<rparr>\<rparr>)"
| limits: "media_step y (y\<lparr>ry_relay := SetSoftLimits (ry_relay y) l now\<rparr>)"
| sample: "media_step y (y\<lparr>ry_relay := snd (takeInterval (ry_relay y))\<rparr>)"
| start: "media_step y (y\<lparr>ry_relay := snd (StartRelay (ry_relay y))\<rparr>)"
| stop: "media_step y (y\<lparr>ry_relay := snd (CloseRelay (ry_relay y) done)\<rparr>)"
| failure: "media_step y (y\<lparr>ry_relay := setFailure (ry_relay y) err\<rparr>)"
| drain: "media_step y (y\<lparr>ry_relay := (ry_relay y)\<lparr>r_queue := CloseQueue (r_queue (ry_relay y))\<rparr>\<rparr>)"

definition shard_of :: "Frame \<Rightarrow> int" where
  "shard_of f = ShardFor (src_UserID (f_Source f)) (f_ChannelType f)"

definition stream_log :: "'s relay_system \<Rightarrow> int \<Rightarrow> bool" where
  "stream_log y k \<longleftrightarrow> (\<exists>lost. filter (\<lambda>f. shard_of f = k) (ry_admitted y) =
       filter (\<lambda>f. shard_of f = k) (ry_processed y) @ shard_content (r_queue (ry_relay y)) k @ lost \<and>
     (\<not> q_closed (r_queue (ry_relay y)) \<longrightarrow> lost = []))"

definition streams_ok :: "'s relay_system \<Rightarrow> bool" where
  "streams_ok y \<longleftrightarrow> queue_ok (r_queue (ry_relay y)) \<and> (\<forall>k. stream_log y k) \<and>
     r_total (ry_relay y) CEnqueued = of_nat (length (ry_admitted y))"

lemma shards_set: "set shards = {0..<ShardCount}" "distinct shards"
  by (auto simp: shards_def)

lemma concat_single: "distinct ks \<Longrightarrow> K \<in> set ks \<Longrightarrow> concat (map (\<lambda>k. if k = K then [x] else []) ks) = [x]"
proof (induction ks)
  case (Cons k ks)
  have "concat (map (\<lambda>k. if k = K then [x] else []) ks) = []" if "K \<notin> set ks" using that by (induction ks) auto
  with Cons show ?case by auto
qed simp

lemma appended_same: "r_queue r' = r_queue r \<Longrightarrow> appended r r' = []"
  by (simp add: appended_def)

lemma queue_closed_empty: "queue_ok q \<Longrightarrow> q_closed q \<Longrightarrow> shard_content q k = []"
  using queue_ok_shard [of q k] by (auto simp: queue_ok_def shard_content_def)

lemma streams_frame:
  assumes "streams_ok y" "r_queue r' = r_queue (ry_relay y)" "r_total r' CEnqueued = r_total (ry_relay y) CEnqueued"
  shows "streams_ok (y\<lparr>ry_relay := r'\<rparr>)"
  using assms by (simp add: streams_ok_def stream_log_def)

lemma Handle_closed: "q_closed (r_queue (Handle resolve caps r f now clk)) = q_closed (r_queue r)"
  by (auto simp: Handle_def Let_def dest: Enqueue_closed split: option.splits prod.splits)

lemma streams_arrive:
  assumes "streams_ok y" and h: "Handle resolve caps (ry_relay y) f now clk = r'"
  shows "streams_ok (y\<lparr>ry_relay := r', ry_admitted := ry_admitted y @ appended (ry_relay y) r'\<rparr>)"
proof -
  have q: "queue_ok (r_queue (ry_relay y))" and log: "stream_log y k" for k using assms(1) by (auto simp: streams_ok_def)
  note a = Handle_admission [OF q, of resolve caps f now clk, unfolded Let_def h]
  have closed: "q_closed (r_queue r') = q_closed (r_queue (ry_relay y))" using Handle_closed h by metis
  consider "r_queue r' = r_queue (ry_relay y)" "r_total r' CEnqueued = r_total (ry_relay y) CEnqueued"
    | g where "\<forall>k. shard_content (r_queue r') k = shard_content (r_queue (ry_relay y)) k @ (if k = shard_of g then [g] else [])"
        "r_total r' CEnqueued = r_total (ry_relay y) CEnqueued + 1"
  proof (cases "r_queue r' = r_queue (ry_relay y) \<and> r_total r' CEnqueued = r_total (ry_relay y) CEnqueued")
    case False
    with a obtain c where c: "r_total r' = (r_total (ry_relay y))(c := r_total (ry_relay y) c + 1)" "c \<noteq> CEnqueued \<longrightarrow> r_queue r' = r_queue (ry_relay y)"
      "c = CEnqueued \<longrightarrow> (\<exists>src. \<forall>k. shard_content (r_queue r') k = shard_content (r_queue (ry_relay y)) k @
              (if k = ShardFor (src_UserID src) (fr_ChannelType f)
               then [\<lparr>f_Source = src, f_ChannelType = fr_ChannelType f, f_ChannelSeq = fr_ChannelSeq f,
                      f_TransportSeq = fr_TransportSeq f, f_Payload = fr_Payload f\<rparr>] else []))" by blast
    with False have "c = CEnqueued" by (cases "c = CEnqueued") auto
    with c obtain src where "\<forall>k. shard_content (r_queue r') k = shard_content (r_queue (ry_relay y)) k @
              (if k = ShardFor (src_UserID src) (fr_ChannelType f)
               then [\<lparr>f_Source = src, f_ChannelType = fr_ChannelType f, f_ChannelSeq = fr_ChannelSeq f,
                      f_TransportSeq = fr_TransportSeq f, f_Payload = fr_Payload f\<rparr>] else [])" by blast
    then show thesis
      by (intro that(2) [of "\<lparr>f_Source = src, f_ChannelType = fr_ChannelType f, f_ChannelSeq = fr_ChannelSeq f,
                      f_TransportSeq = fr_TransportSeq f, f_Payload = fr_Payload f\<rparr>"]) (simp_all add: shard_of_def c(1) \<open>c = CEnqueued\<close>)
  qed auto
  then show ?thesis
  proof cases
    case 1
    then show ?thesis using streams_frame [OF assms(1), of r'] by (simp add: appended_same)
  next
    case (2 g)
    have "shard_of g \<in> set shards" using ShardFor_range by (simp add: shards_set shard_of_def)
    moreover have "(\<lambda>k. drop (length (shard_content (r_queue (ry_relay y)) k)) (shard_content (r_queue r') k)) = (\<lambda>k. if k = shard_of g then [g] else [])"
      using 2(1) by (intro ext) simp
    ultimately have new: "appended (ry_relay y) r' = [g]" using concat_single [OF shards_set(2)] by (simp add: appended_def)
    have "shard_content (r_queue r') (shard_of g) \<noteq> []" using 2(1) by simp
    then have open': "\<not> q_closed (r_queue (ry_relay y))" using queue_closed_empty a closed by metis
    have "stream_log (y\<lparr>ry_relay := r', ry_admitted := ry_admitted y @ [g]\<rparr>) k" for k
      using log [of k] open' 2(1) by (auto simp: stream_log_def closed)
    then show ?thesis using a assms(1) 2(2) by (simp add: streams_ok_def new)
  qed
qed

lemma fanoutLoop_quiet: "r_queue (fst (snd (fanoutLoop send frame n ms r st))) = r_queue r \<and>
    r_total (fst (snd (fanoutLoop send frame n ms r st))) CEnqueued = r_total r CEnqueued"
  by (induction send frame n ms r st rule: fanoutLoop.induct) (auto split: prod.splits)

lemma process_quiet:
  assumes "process send mute members before held frame r st = (sends, r', st')"
  shows "r_queue r' = r_queue r \<and> r_total r' CEnqueued = r_total r CEnqueued"
  using assms fanoutLoop_quiet [of send frame 0 _ r st] by (auto simp: process_def Let_def split: if_splits) (metis fst_conv snd_conv)+

lemma streams_work:
  assumes "streams_ok y" and w: "runShardStep send mute members before held k started finished (ry_relay y) (ry_sender y) = (res, sends, r', st')"
  shows "streams_ok (y\<lparr>ry_relay := r', ry_sender := st', ry_processed := ry_processed y @ (case res of Popped f \<Rightarrow> [f] | _ \<Rightarrow> [])\<rparr>)"
proof -
  let ?q = "r_queue (ry_relay y)"
  have q: "queue_ok ?q" and log: "stream_log y j" for j using assms(1) by (auto simp: streams_ok_def)
  obtain q' where p: "popPass ?q k = (res, q')" and r': "r_queue r' = q'" "r_total r' CEnqueued = r_total (ry_relay y) CEnqueued"
  proof (cases "popPass ?q k")
    case (Pair res1 q1)
    then show thesis using w that
      by (cases res1) (auto simp: runShardStep_def recordLatency_def Let_def split: prod.splits dest!: process_quiet)
  qed
  have c: "shard_content ?q j = (case res of Popped f \<Rightarrow> if j = k then [f] else [] | _ \<Rightarrow> []) @ shard_content q' j" "q_closed q' = q_closed ?q" for j
    using popPass_content [OF q p] popPass_closed [OF p] by auto
  have "stream_log (y\<lparr>ry_relay := r', ry_sender := st', ry_processed := ry_processed y @ (case res of Popped f \<Rightarrow> [f] | _ \<Rightarrow> [])\<rparr>) j" for j
  proof (cases res)
    case (Popped f)
    have "f \<in> set (shard_content ?q k)" using c(1) [of k] Popped by simp
    then have "f \<in> set (filter (\<lambda>f. shard_of f = k) (ry_admitted y))" using log [of k] unfolding stream_log_def by (metis Un_iff set_append)
    then have "shard_of f = k" by simp
    then show ?thesis using log [of j] c(1) [of j] c(2) Popped r' by (auto simp: stream_log_def split: if_splits)
  qed (use log [of j] c(1) [of j] c(2) r' in \<open>simp_all add: stream_log_def\<close>)
  then show ?thesis using popPass_ok [OF q p] r' assms(1) by (simp add: streams_ok_def)
qed

lemma streams_close:
  assumes "streams_ok y"
  shows "streams_ok (y\<lparr>ry_relay := (ry_relay y)\<lparr>r_queue := CloseQueue (r_queue (ry_relay y))\<rparr>\<rparr>)"
proof -
  let ?q = "CloseQueue (r_queue (ry_relay y))"
  have ok: "queue_ok ?q" "q_closed ?q" using CloseQueue_ok assms by (auto simp: streams_ok_def CloseQueue_def)
  have "stream_log y k" for k using assms by (simp add: streams_ok_def)
  then have "stream_log (y\<lparr>ry_relay := (ry_relay y)\<lparr>r_queue := ?q\<rparr>\<rparr>) k" for k
    using ok queue_closed_empty [OF ok] by (auto simp: stream_log_def)
  then show ?thesis using ok assms by (simp add: streams_ok_def)
qed

lemma streams_wake:
  assumes "streams_ok y" "0 \<le> k" "k < ShardCount" and p: "popWake (r_queue (ry_relay y)) k = Some q'"
  shows "streams_ok (y\<lparr>ry_relay := (ry_relay y)\<lparr>r_queue := q'\<rparr>\<rparr>)"
proof -
  have q: "queue_ok (r_queue (ry_relay y))" using assms(1) by (simp add: streams_ok_def)
  have "shard_content q' j = shard_content (r_queue (ry_relay y)) j" "q_closed q' = q_closed (r_queue (ry_relay y))" for j
    using p nth_update_shard [OF q assms(2,3), of j] by (auto simp: popWake_def shard_content_def split: if_splits)
  then show ?thesis using popWake_ok [OF q assms(2,3) p] assms(1) by (simp add: streams_ok_def stream_log_def)
qed

lemma media_step_ok: "media_step y y' \<Longrightarrow> streams_ok y \<Longrightarrow> streams_ok y'"
proof (induction rule: media_step.induct)
  case (wake k y q')
  then show ?case using streams_wake by blast
qed (auto intro: streams_arrive streams_work streams_close streams_frame
    simp: SetSoftLimits_def takeInterval_def StartRelay_def CloseRelay_def setFailure_def Let_def split: option.splits)

definition relay_start :: "Relay \<Rightarrow> 's \<Rightarrow> 's relay_system" where
  "relay_start r st = \<lparr>ry_relay = r, ry_sender = st, ry_admitted = [], ry_processed = []\<rparr>"

lemma media_run_ok:
  assumes "media_step\<^sup>*\<^sup>* (relay_start r st) y" "NewRelay True g s clk = Return r"
  shows "streams_ok y"
  using assms(1)
proof (induction rule: rtranclp_induct)
  case base
  then show ?case using assms(2)
    by (auto simp: NewRelay_def relay_start_def streams_ok_def stream_log_def NewQueue_ok NewQueue_content split: if_splits)
qed (rule media_step_ok)

abbreviation of_stream :: "int64 \<Rightarrow> byte \<Rightarrow> Frame list \<Rightarrow> Frame list" where
  "of_stream u c \<equiv> filter (\<lambda>f. src_UserID (f_Source f) = u \<and> f_ChannelType f = c)"

lemma of_stream_shard: "of_stream u c (filter (\<lambda>f. shard_of f = k) xs) = (if k = ShardFor u c then of_stream u c xs else [])"
  by (induction xs) (auto simp: shard_of_def)

text \<open>C28. Voice keeps its order: however arriving frames, the eight workers, wake-ups, limit changes and shutdown interleave from a new
  relay, the frames of one stream (one user and channel type) that the workers have taken are a prefix, in order and without
  duplication, of the frames of that stream the relay admitted.  Until the queue is closed the remaining ones are exactly those
  waiting in the stream's one shard; closing discards the waiting frames.  No frame of the stream is ever in another shard, and the
  enqueue counter counts the admitted frames.\<close>

theorem stream_order:
  assumes "media_step\<^sup>*\<^sup>* (relay_start r st) y" "NewRelay True g s clk = Return r"
  shows "(\<exists>rest. of_stream u c (ry_admitted y) = of_stream u c (ry_processed y) @ rest \<and>
       (\<not> q_closed (r_queue (ry_relay y)) \<longrightarrow> rest = of_stream u c (shard_content (r_queue (ry_relay y)) (ShardFor u c)))) \<and>
    (\<forall>k. k \<noteq> ShardFor u c \<longrightarrow> of_stream u c (shard_content (r_queue (ry_relay y)) k) = []) \<and>
    r_total (ry_relay y) CEnqueued = of_nat (length (ry_admitted y))"
proof -
  have ok: "streams_ok y" by (rule media_run_ok [OF assms])
  have split: "\<exists>lost. (if k = ShardFor u c then of_stream u c (ry_admitted y) else []) =
      (if k = ShardFor u c then of_stream u c (ry_processed y) else []) @ of_stream u c (shard_content (r_queue (ry_relay y)) k) @ lost \<and>
      (\<not> q_closed (r_queue (ry_relay y)) \<longrightarrow> lost = [])" for k
  proof -
    obtain lost where l: "filter (\<lambda>f. shard_of f = k) (ry_admitted y) =
       filter (\<lambda>f. shard_of f = k) (ry_processed y) @ shard_content (r_queue (ry_relay y)) k @ lost" "\<not> q_closed (r_queue (ry_relay y)) \<longrightarrow> lost = []"
      using ok by (auto simp: streams_ok_def stream_log_def)
    from arg_cong [OF l(1), of "of_stream u c"] show ?thesis
      unfolding filter_append of_stream_shard using l(2) by (intro exI [of _ "of_stream u c lost"]) auto
  qed
  from split [of "ShardFor u c"] have "\<exists>rest. of_stream u c (ry_admitted y) = of_stream u c (ry_processed y) @ rest \<and>
      (\<not> q_closed (r_queue (ry_relay y)) \<longrightarrow> rest = of_stream u c (shard_content (r_queue (ry_relay y)) (ShardFor u c)))" by auto
  moreover have "of_stream u c (shard_content (r_queue (ry_relay y)) k) = []" if "k \<noteq> ShardFor u c" for k
    using split [of k] that by auto
  ultimately show ?thesis using ok by (simp add: streams_ok_def)
qed

lemma demo_soft: "fst (softAllow (newSoftAdmission 20000 300 0) 1 0 0)"
proof -
  have "fst (TakeAt (NewTokenBucket (fl64 (of_int 20000)) 40000 0) 0)" "fst (TakeAt (NewTokenBucket (fl64 (of_int 300)) 600 0) 0)"
    by (intro NewTokenBucket_take; simp)+
  then show ?thesis
    by (auto simp: softAllow_def newSoftAdmission_def MaxTrackedSessions_def gm_len_def fcard_fempty Let_def split: prod.splits)
qed

abbreviation demo_caps :: ChannelTypeRegistry where "demo_caps \<equiv> snd (Register NewChannelTypeRegistry 1 audio_caps)"

definition demo_arrived :: Relay where
  "demo_arrived = Handle (\<lambda>_. Some demo_source) demo_caps demo_relay demo_frame 0 0"

lemma demo_arrived_content: "shard_content (r_queue demo_arrived) k = (if k = ShardFor 7 1 then [demo_media] else [])"
proof -
  obtain soft where soft: "softAllow (newSoftAdmission 20000 300 0) 1 0 0 = (True, soft)" using demo_soft by (metis (full_types) prod.collapse)
  obtain q' where e: "Enqueue NewQueue (ShardFor 7 1) demo_media = (True, q')"
    using demo_enqueue [OF ShardFor_range [THEN conjunct1] ShardFor_range [THEN conjunct2], of 7 1] by (metis (full_types) prod.collapse)
  have "LookupChannel demo_caps 1 = Some audio_caps" "cap_MuteKind audio_caps \<noteq> []"
    by (simp_all add: LookupChannel_def Register_def NewChannelTypeRegistry_def audio_caps_def HeartbeatChannelType_def)
  then have "r_queue demo_arrived = q'"
    using soft e by (simp add: demo_arrived_def Handle_def demo_relay_def demo_frame_def demo_source_def demo_media_def SourceValid_def Let_def)
  then show ?thesis using Enqueue_content [OF NewQueue_ok e, of k] by (simp add: NewQueue_content)
qed

definition demo_stream :: "unit relay_system" where
  "demo_stream = \<lparr>ry_relay = demo_arrived, ry_sender = (), ry_admitted = appended demo_relay demo_arrived, ry_processed = []\<rparr>"

lemma demo_stream_reached: "media_step\<^sup>*\<^sup>* (relay_start (demo_relay\<lparr>r_started := False\<rparr>) ()) demo_stream"
proof -
  let ?a = "relay_start (demo_relay\<lparr>r_started := False\<rparr>) ()" and ?b = "relay_start demo_relay ()"
  have "media_step ?a ?b" using media_step.start [of ?a] by (simp add: relay_start_def StartRelay_def demo_relay_def)
  moreover have "media_step ?b demo_stream"
    using media_step.arrive [of "\<lambda>_. Some demo_source" demo_caps ?b demo_frame 0 0 demo_arrived]
    by (simp add: relay_start_def demo_stream_def demo_arrived_def)
  ultimately show ?thesis by (meson converse_rtranclp_into_rtranclp rtranclp.rtrancl_refl)
qed

text \<open>The frame waits in the shard of its stream, the fifth, and is then taken by the worker of that shard.\<close>

theorem stream_order_witness:
  "ShardFor 7 1 = 5 \<and> of_stream 7 1 (ry_admitted demo_stream) = [demo_media] \<and> shard_content (r_queue (ry_relay demo_stream)) 5 = [demo_media] \<and>
   (\<exists>y. media_step demo_stream y \<and> of_stream 7 1 (ry_processed y) = [demo_media] \<and> of_stream 7 1 (ry_admitted y) = [demo_media])"
proof -
  let ?r = "demo_relay\<lparr>r_started := False\<rparr>"
  have new: "NewRelay True 20000 300 0 = Return ?r" by (simp add: NewRelay_def demo_relay_def)
  note order = stream_order [OF _ new]
  have five: "ShardFor 7 1 = 5" by code_simp
  have stream: "of_stream 7 1 [demo_media] = [demo_media]" by (simp add: demo_media_def demo_source_def)
  have q: "shard_content (r_queue (ry_relay demo_stream)) k = (if k = 5 then [demo_media] else [])" for k
    by (simp add: demo_stream_def demo_arrived_content five)
  have open': "\<not> q_closed (r_queue (ry_relay demo_stream))"
    using Handle_closed [of "\<lambda>_. Some demo_source" demo_caps demo_relay demo_frame 0 0] by (simp add: demo_stream_def demo_arrived_def) (simp add: demo_relay_def NewQueue_def)
  have adm: "of_stream 7 1 (ry_admitted demo_stream) = [demo_media]"
    using order [OF demo_stream_reached, of 7 1] open' q stream by (auto simp: five demo_stream_def)
  obtain res sends r' st' where w: "runShardStep (\<lambda>st _ _ _ _ _. (True, st)) (\<lambda>_ _. False) (\<lambda>c. \<lparr>ms_ChannelID = c, ms_Members = []\<rparr>) (\<lambda>_. None) (\<lambda>_. None) 5 0 0
      (ry_relay demo_stream) (ry_sender demo_stream) = (res, sends, r', st')" by (metis prod_cases4)
  have "fst (popPass (r_queue (ry_relay demo_stream)) 5) = Popped demo_media"
    using q [of 5] by (simp add: popPass_def shard_content_def Let_def ShardCount_def)
  then have res: "res = Popped demo_media" using w by (auto simp: runShardStep_def Let_def split: prod.splits pop_result.splits)
  let ?y = "demo_stream\<lparr>ry_relay := r', ry_sender := st', ry_processed := ry_processed demo_stream @ (case res of Popped f \<Rightarrow> [f] | _ \<Rightarrow> [])\<rparr>"
  have step: "media_step demo_stream ?y" by (rule media_step.work [OF w])
  have "of_stream 7 1 (ry_processed ?y) = [demo_media]" "of_stream 7 1 (ry_admitted ?y) = [demo_media]"
    using adm by (simp_all add: res stream, simp add: demo_stream_def demo_media_def demo_source_def)
  with five adm q step show ?thesis by auto
qed

subsection \<open>Latency\<close>

lemma sorted_filter_le:
  assumes "sorted xs" "k < length xs"
  shows "k < length (filter (\<lambda>x. x \<le> xs ! k) xs)" "length (filter (\<lambda>x. x < xs ! k) xs) \<le> k"
proof -
  have "filter (\<lambda>x. x \<le> xs ! k) (take (Suc k) xs) = take (Suc k) xs"
    using assms by (auto simp: filter_id_conv in_set_conv_nth sorted_nth_mono)
  then have "length (filter (\<lambda>x. x \<le> xs ! k) (take (Suc k) xs)) = Suc k" using assms(2) by simp
  moreover have "length (filter (\<lambda>x. x \<le> xs ! k) xs) \<ge> length (filter (\<lambda>x. x \<le> xs ! k) (take (Suc k) xs))"
    by (metis append_take_drop_id filter_append length_append le_add1)
  ultimately show "k < length (filter (\<lambda>x. x \<le> xs ! k) xs)" by simp
  have "filter (\<lambda>x. x < xs ! k) (drop k xs) = []"
    using assms by (auto simp: filter_empty_conv in_set_conv_nth not_less sorted_nth_mono)
  then have "length (filter (\<lambda>x. x < xs ! k) xs) = length (filter (\<lambda>x. x < xs ! k) (take k xs))"
    by (metis append_Nil2 append_take_drop_id filter_append)
  also have "\<dots> \<le> k" by (metis length_filter_le length_take min.bounded_iff order_trans min.cobounded2)
  finally show "length (filter (\<lambda>x. x < xs ! k) xs) \<le> k" .
qed

lemma length_filter_sort: "length (filter P (sort xs)) = length (filter P xs)"
  by (simp add: filter_sort)

text \<open>The latency signal: \<^verbatim>\<open>percentile95\<close> returns one of the samples, at least 95 percent of the samples are at
  or below it and fewer than 95 percent are strictly below it (the nearest-rank percentile), without an
  index fault for any sample count; and \<^verbatim>\<open>recordLatency\<close> keeps exactly the most recent 4096 samples.\<close>

theorem percentile95_nearest_rank:
  "(values \<noteq> [] \<longrightarrow>
     percentile95 values \<in> set values \<and>
     95 * length values \<le> 100 * length (filter (\<lambda>v. v \<le> percentile95 values) values) \<and>
     100 * length (filter (\<lambda>v. v < percentile95 values) values) < 95 * length values) \<and>
   (length (r_latencies r) \<le> MaxLatencySamples \<longrightarrow>
      r_latencies (recordLatency r d) = drop (Suc (length (r_latencies r)) - MaxLatencySamples) (r_latencies r @ [d]) \<and>
      length (r_latencies (recordLatency r d)) \<le> MaxLatencySamples)"
proof (intro conjI impI)
  assume ne: "values \<noteq> []"
  define n where "n = length values"
  define k where "k = (n * 95 + 99) div 100 - 1"
  have n: "0 < n" using ne by (simp add: n_def)
  then have c: "1 \<le> (n * 95 + 99) div 100" "100 * ((n * 95 + 99) div 100) \<le> n * 95 + 99" "n * 95 \<le> 100 * ((n * 95 + 99) div 100)" by auto
  then have k: "k < length (sort values)" using n by (simp add: k_def n_def [symmetric])
  have p: "percentile95 values = sort values ! k" using ne c by (simp add: percentile95_def Let_def k_def n_def)
  note f = sorted_filter_le [OF sorted_sort k, unfolded length_filter_sort, folded p]
  show "percentile95 values \<in> set values" using nth_mem [OF k] by (simp add: p)
  show "95 * length values \<le> 100 * length (filter (\<lambda>v. v \<le> percentile95 values) values)"
    using f(1) c n by (simp add: k_def n_def [symmetric])
  show "100 * length (filter (\<lambda>v. v < percentile95 values) values) < 95 * length values"
    using f(2) c n by (simp add: k_def n_def [symmetric])
next
  assume l: "length (r_latencies r) \<le> MaxLatencySamples"
  show "r_latencies (recordLatency r d) = drop (Suc (length (r_latencies r)) - MaxLatencySamples) (r_latencies r @ [d])"
    using l by (cases "length (r_latencies r) = MaxLatencySamples") (simp_all add: recordLatency_def Let_def MaxLatencySamples_def drop_Suc)
  show "length (r_latencies (recordLatency r d)) \<le> MaxLatencySamples"
    using l by (simp add: recordLatency_def Let_def MaxLatencySamples_def)
qed

theorem percentile95_nearest_rank_witness:
  "percentile95 [30, 10, 20] \<in> set [30, 10, 20] \<and>
   95 * length [30, 10, 20 :: int] \<le> 100 * length (filter (\<lambda>v. v \<le> percentile95 [30, 10, 20]) [30, 10, 20]) \<and>
   length (r_latencies (recordLatency demo_relay 5)) \<le> MaxLatencySamples"
proof -
  have "length (r_latencies demo_relay) \<le> MaxLatencySamples" by (simp add: demo_relay_def)
  with percentile95_nearest_rank [of "[30, 10, 20]" demo_relay 5] show ?thesis by blast
qed

subsection \<open>The contract of the sender\<close>

text \<open>What the relay needs of \<^verbatim>\<open>Sender\<close>: a send keeps the sender's own invariant.  Then a whole fan-out does.\<close>

locale media_sender =
  fixes send :: "'s sender"
    and inv :: "'s \<Rightarrow> bool"
  assumes send_inv: "inv st \<Longrightarrow> inv (snd (send st sid ct speaker cs payload))"
begin

lemma fanout_inv: "inv st \<Longrightarrow> inv (snd (snd (fanoutLoop send frame n ms r st)))"
proof (induction ms arbitrary: n r st)
  case (Cons m ms)
  then show ?case
    using send_inv [of st "rc_SessionID m" "f_ChannelType frame" "src_UserID (f_Source frame)" "f_ChannelSeq frame" "f_Payload frame"]
    by (auto split: prod.splits) (metis snd_conv)+
qed simp

lemma process_inv: "inv st \<Longrightarrow> inv (snd (snd (process send mute members before held frame r st)))"
  using fanout_inv by (auto simp: process_def Let_def)

lemma runShardStep_inv: "inv st \<Longrightarrow> inv (snd (snd (snd (runShardStep send mute members before held k t0 t1 r st))))"
proof -
  assume i: "inv st"
  have "inv st'" if "process send mute members b h f r1 st = (sends, r2, st')" for b h f r1 sends r2 st'
    using process_inv [OF i, of mute members b h f r1] that by simp
  then show ?thesis using i by (auto simp: runShardStep_def Let_def split: prod.splits pop_result.splits)
qed

end

end
