(* ===== verification/Snowflake.thy ===== *)
theory Snowflake
  imports Prelude
begin

text \<open>
  The identifier generator of \<^verbatim>\<open>internal/snowflake/snowflake.go\<close>.  \<^verbatim>\<open>next_pass\<close> is one pass of the
  loop of \<^verbatim>\<open>Next\<close> up to its compare-and-swap: a function of the loaded state word and the clock
  reading.  \<^verbatim>\<open>nextRun\<close> is the loop as one goroutine runs it alone, over the clock readings it gets;
  \<^verbatim>\<open>snow_step\<close> interleaves any number of goroutines at the granularity of the atomic operations on the
  state word.  The clock is an argument everywhere and is not assumed to be monotonic.
\<close>

section \<open>Definitions\<close>

definition timestampBits :: nat where "timestampBits = 43"
definition sequenceBits :: nat where "sequenceBits = 20"
definition sequenceMask :: int64 where "sequenceMask = push_bit sequenceBits 1 - 1"
definition maxSequence :: int64 where "maxSequence = sequenceMask"
definition maxTimestamp :: int64 where "maxTimestamp = push_bit timestampBits 1 - 1"

datatype snow_error = ErrClockBeforeEpoch | ErrTimestampOverflow | ErrNilClock

record IDGenerator =
  sg_state :: int64
  sg_epoch :: int64

text \<open>\<^verbatim>\<open>New\<close> after its options: the epoch in Unix milliseconds, and whether the clock and the sleep
  function are set.\<close>

definition NewIDGenerator :: "int64 \<Rightarrow> bool \<Rightarrow> bool \<Rightarrow> (snow_error, IDGenerator) outcome" where
  "NewIDGenerator epoch clock sleep =
     (if \<not> clock \<or> \<not> sleep then Fail ErrNilClock else Return \<lparr>sg_state = 0, sg_epoch = epoch\<rparr>)"

text \<open>What a pass does after it has loaded the state word and read the clock.\<close>

datatype next_action = NextFail snow_error | NextSleep duration | NextCAS int64

definition next_pass :: "int64 \<Rightarrow> int64 \<Rightarrow> int64 \<Rightarrow> next_action" where
  "next_pass epoch old now =
     (let ts = signed_drop_bit sequenceBits old; seq = old AND sequenceMask; rel = now - epoch
      in if sint rel < 0 then NextFail ErrClockBeforeEpoch
         else if sint rel > sint maxTimestamp then NextFail ErrTimestampOverflow
         else if sint rel < sint ts then NextSleep (sint ((ts - rel) * 1000000))
         else if sint rel > sint ts then NextCAS (push_bit sequenceBits rel)
         else if sint seq \<ge> sint maxSequence then NextSleep millisecond
         else NextCAS (old + 1))"

definition CompareAndSwap :: "int64 \<Rightarrow> int64 \<Rightarrow> int64 \<Rightarrow> bool \<times> int64" where
  "CompareAndSwap cell old new = (if cell = old then (True, new) else (False, cell))"

text \<open>\<^verbatim>\<open>Next\<close> of a goroutine that runs alone: one clock reading per pass; \<open>None\<close> when the readings end
  before the call returns.  The result carries the number of passes taken.\<close>

fun nextRun :: "IDGenerator \<Rightarrow> int64 list \<Rightarrow> ((snow_error, int64) outcome \<times> IDGenerator \<times> nat) option" where
  "nextRun g [] = None"
| "nextRun g (now # clock) =
     (case next_pass (sg_epoch g) (sg_state g) now of
        NextFail e \<Rightarrow> Some (Fail e, g, 1)
      | NextSleep d \<Rightarrow> map_option (\<lambda>(r, g', n). (r, g', Suc n)) (nextRun g clock)
      | NextCAS next \<Rightarrow>
          (case CompareAndSwap (sg_state g) (sg_state g) next of
             (True, cell) \<Rightarrow> Some (Return next, g\<lparr>sg_state := cell\<rparr>, 1)
           | (False, cell) \<Rightarrow> map_option (\<lambda>(r, g', n). (r, g', Suc n)) (nextRun g clock)))"

definition TimestampMS :: "int64 \<Rightarrow> int64" where
  "TimestampMS w = signed_drop_bit sequenceBits w"

text \<open>Concurrent calls.  A goroutine is between calls or about to load (\<^verbatim>\<open>SIdle\<close>), has loaded the word
  (\<^verbatim>\<open>SLoaded\<close>), or is about to swap (\<^verbatim>\<open>SCas\<close>).  \<open>issued\<close> lists the identifiers returned so far, in the
  order of their successful swaps.\<close>

datatype snow_pc = SIdle | SLoaded int64 | SCas int64 int64

record snow_sys =
  ss_gen :: IDGenerator
  ss_pc :: "nat \<Rightarrow> snow_pc"
  ss_issued :: "int64 list"

inductive snow_step :: "snow_sys \<Rightarrow> snow_sys \<Rightarrow> bool" where
  Load: "ss_pc s t = SIdle \<Longrightarrow> snow_step s (s\<lparr>ss_pc := (ss_pc s)(t := SLoaded (sg_state (ss_gen s)))\<rparr>)"
| Pass_Fail: "\<lbrakk>ss_pc s t = SLoaded old; next_pass (sg_epoch (ss_gen s)) old now = NextFail e\<rbrakk>
    \<Longrightarrow> snow_step s (s\<lparr>ss_pc := (ss_pc s)(t := SIdle)\<rparr>)"
| Pass_Sleep: "\<lbrakk>ss_pc s t = SLoaded old; next_pass (sg_epoch (ss_gen s)) old now = NextSleep d\<rbrakk>
    \<Longrightarrow> snow_step s (s\<lparr>ss_pc := (ss_pc s)(t := SIdle)\<rparr>)"
| Pass_Swap: "\<lbrakk>ss_pc s t = SLoaded old; next_pass (sg_epoch (ss_gen s)) old now = NextCAS next\<rbrakk>
    \<Longrightarrow> snow_step s (s\<lparr>ss_pc := (ss_pc s)(t := SCas old next)\<rparr>)"
| Swap_Ok: "\<lbrakk>ss_pc s t = SCas old next; CompareAndSwap (sg_state (ss_gen s)) old next = (True, cell)\<rbrakk>
    \<Longrightarrow> snow_step s (s\<lparr>ss_gen := (ss_gen s)\<lparr>sg_state := cell\<rparr>, ss_pc := (ss_pc s)(t := SIdle),
                      ss_issued := ss_issued s @ [next]\<rparr>)"
| Swap_Fail: "\<lbrakk>ss_pc s t = SCas old next; CompareAndSwap (sg_state (ss_gen s)) old next = (False, cell)\<rbrakk>
    \<Longrightarrow> snow_step s (s\<lparr>ss_gen := (ss_gen s)\<lparr>sg_state := cell\<rparr>, ss_pc := (ss_pc s)(t := SIdle)\<rparr>)"

inductive snow_reach :: "int64 \<Rightarrow> snow_sys \<Rightarrow> bool" for epoch where
  Start: "NewIDGenerator epoch True True = Return g \<Longrightarrow> snow_reach epoch \<lparr>ss_gen = g, ss_pc = (\<lambda>_. SIdle), ss_issued = []\<rparr>"
| Step: "\<lbrakk>snow_reach epoch s; snow_step s s'\<rbrakk> \<Longrightarrow> snow_reach epoch s'"

section \<open>Theorems\<close>

subsection \<open>The bit layout\<close>

lemma layout_consts [simp]:
  "sint maxTimestamp = 2 ^ 43 - 1" "sint maxSequence = 2 ^ 20 - 1"
  by (simp_all add: maxTimestamp_def maxSequence_def sequenceMask_def timestampBits_def sequenceBits_def)

lemma sint_nonneg_uint: "0 \<le> sint (w :: int64) \<Longrightarrow> uint w = sint w"
  using sint_lt [of w] by (simp add: uint_sint take_bit_int_eq_self)

lemma sint_of_uint: "uint (w :: int64) < 2 ^ 63 \<Longrightarrow> sint w = uint w"
  by (simp add: sint_uint signed_take_bit_int_eq_self order_trans [OF _ uint_ge_0])

lemma sint_timestamp: "0 \<le> sint w \<Longrightarrow> sint (signed_drop_bit sequenceBits (w :: int64)) = sint w div 2 ^ 20"
  by (simp add: sint_signed_drop_bit_eq drop_bit_eq_div sequenceBits_def)

lemma sint_sequence:
  assumes "0 \<le> sint (w :: int64)"
  shows "sint (w AND sequenceMask) = sint w mod 2 ^ 20"
proof -
  have "uint (w AND sequenceMask) = uint w AND mask 20"
    by (simp add: sequenceMask_def sequenceBits_def uint_and mask_eq_exp_minus_1)
  then have u: "uint (w AND sequenceMask) = uint w mod 2 ^ 20"
    by (simp only: take_bit_eq_mask [symmetric] take_bit_eq_mod)
  have "uint w mod 2 ^ 20 < 2 ^ 63"
    by (rule less_trans [OF pos_mod_bound]) simp_all
  then have "sint (w AND sequenceMask) = uint w mod 2 ^ 20"
    unfolding u [symmetric] by (rule sint_of_uint)
  then show ?thesis by (simp only: sint_nonneg_uint [OF assms])
qed

lemma sint_shift:
  assumes "0 \<le> sint (rel :: int64)" "sint rel \<le> 2 ^ 43 - 1"
  shows "sint (push_bit sequenceBits rel) = sint rel * 2 ^ 20"
proof -
  have u: "uint rel = sint rel" using assms(1) by (rule sint_nonneg_uint)
  have "uint (push_bit sequenceBits rel) = uint rel * 2 ^ 20 mod 2 ^ 64"
    by (simp add: push_bit_eq_mult sequenceBits_def uint_word_ariths)
  also have "\<dots> = sint rel * 2 ^ 20" using assms u by simp
  finally show ?thesis using assms by (simp add: sint_of_uint)
qed

lemma sint_succ:
  assumes "0 \<le> sint (w :: int64)" "sint w < 2 ^ 63 - 1"
  shows "sint (w + 1) = sint w + 1"
proof -
  have "uint (w + 1) = (uint w + 1) mod 2 ^ 64" by (simp add: uint_word_ariths)
  also have "\<dots> = sint w + 1" using assms by (simp add: sint_nonneg_uint)
  finally show ?thesis using assms by (simp add: sint_of_uint)
qed

lemma quot_layout: "\<lbrakk>0 \<le> r; r < 2 ^ 20\<rbrakk> \<Longrightarrow> (q * 2 ^ 20 + r) div 2 ^ 20 = (q :: int)"
  by (simp add: div_mult_self3)

text \<open>A pass that goes on to swap proposes a word above the one it loaded, of the current
  millisecond.\<close>

lemma next_pass_swap:
  assumes "0 \<le> sint old" "next_pass epoch old now = NextCAS next"
  shows "sint old < sint next" "sint next div 2 ^ 20 = sint (now - epoch)"
proof -
  define rel where "rel = now - epoch"
  have rel: "0 \<le> sint rel" "sint rel \<le> 2 ^ 43 - 1" "sint rel \<ge> sint old div 2 ^ 20"
    using assms by (auto simp: next_pass_def Let_def rel_def sint_timestamp split: if_splits)
  have "sint old < sint next \<and> sint next div 2 ^ 20 = sint rel"
  proof (cases "sint rel > sint old div 2 ^ 20")
    case True
    then have "next = push_bit sequenceBits rel"
      using assms rel by (auto simp: next_pass_def Let_def rel_def sint_timestamp split: if_splits)
    then have "sint next = sint rel * 2 ^ 20" using rel by (simp add: sint_shift)
    with True show ?thesis by auto
  next
    case False
    then have eq: "sint rel = sint old div 2 ^ 20" using rel by simp
    then have n: "next = old + 1" and s: "sint old mod 2 ^ 20 < 2 ^ 20 - 1"
      using assms rel by (auto simp: next_pass_def Let_def rel_def sint_timestamp sint_sequence split: if_splits)
    have old: "sint old = sint rel * 2 ^ 20 + sint old mod 2 ^ 20"
      unfolding eq by simp
    moreover have "0 \<le> sint old mod 2 ^ 20" by simp
    ultimately have "sint old < 2 ^ 63 - 1" using rel s by simp
    then have "sint next = sint rel * 2 ^ 20 + (sint old mod 2 ^ 20 + 1)"
      using n assms old by (simp add: sint_succ)
    moreover have "(sint rel * 2 ^ 20 + (sint old mod 2 ^ 20 + 1)) div 2 ^ 20 = sint rel"
      using s by (intro quot_layout) simp_all
    ultimately show ?thesis using old by simp
  qed
  then show "sint old < sint next" "sint next div 2 ^ 20 = sint (now - epoch)"
    by (auto simp: rel_def)
qed

text \<open>A sleep is positive: the product of the milliseconds to wait with a million does not leave
  \<^verbatim>\<open>int64\<close>.\<close>

lemma next_pass_sleep:
  assumes "0 \<le> sint old" "next_pass epoch old now = NextSleep d"
  shows "0 < d"
proof (cases "sint (now - epoch) < sint old div 2 ^ 20")
  case True
  define rel where "rel = now - epoch"
  define ts where "ts = (signed_drop_bit sequenceBits old :: int64)"
  have rel: "0 \<le> sint rel" "d = sint ((ts - rel) * 1000000)" and lt: "sint rel < sint ts"
    using assms True by (auto simp: next_pass_def Let_def rel_def ts_def sint_timestamp split: if_splits)
  have ts: "sint ts < 2 ^ 43"
    using assms sint_less [of old] by (simp add: ts_def sint_timestamp)
  have u: "uint (ts - rel) = sint ts - sint rel"
    using rel lt ts by (simp add: uint_word_ariths sint_nonneg_uint [of ts] sint_nonneg_uint [of rel])
  have "uint ((ts - rel) * 1000000) = uint (ts - rel) * 1000000 mod 2 ^ 64"
    by (simp only: uint_word_ariths) simp
  also have "\<dots> = (sint ts - sint rel) * 1000000"
    unfolding u using rel lt ts by (intro mod_pos_pos_trivial) auto
  finally have "sint ((ts - rel) * 1000000) = (sint ts - sint rel) * 1000000"
    using rel lt ts by (intro trans [OF sint_of_uint]) auto
  then show ?thesis using rel lt by simp
next
  case False
  with assms show ?thesis by (auto simp: next_pass_def Let_def sint_timestamp split: if_splits)
qed

subsection \<open>Concurrent calls\<close>

definition pc_ok :: "int64 \<Rightarrow> snow_pc \<Rightarrow> bool" where
  "pc_ok cell p = (case p of SIdle \<Rightarrow> True
     | SLoaded old \<Rightarrow> 0 \<le> sint old \<and> sint old \<le> sint cell
     | SCas old next \<Rightarrow> 0 \<le> sint old \<and> sint old \<le> sint cell \<and> sint old < sint next)"

definition snow_ok :: "snow_sys \<Rightarrow> bool" where
  "snow_ok s \<longleftrightarrow> sg_state (ss_gen s) = last (0 # ss_issued s) \<and> 0 \<le> sint (sg_state (ss_gen s)) \<and>
     sorted_wrt (\<lambda>a b. sint a < sint b) (0 # ss_issued s) \<and> (\<forall>t. pc_ok (sg_state (ss_gen s)) (ss_pc s t))"

lemma sorted_le_last:
  assumes "sorted_wrt (\<lambda>a b. sint a < sint b) (x # xs)" "a \<in> set (x # xs)"
  shows "sint a \<le> sint (last (x # xs))"
proof -
  have e: "x # xs = butlast (x # xs) @ [last (x # xs)]" by simp
  have "a \<in> set (butlast (x # xs)) \<or> a = last (x # xs)" using assms(2) by (subst (asm) e) auto
  moreover have "sorted_wrt (\<lambda>a b. sint a < sint b) (butlast (x # xs) @ [last (x # xs)])"
    using assms(1) by simp
  ultimately show ?thesis by (force simp: sorted_wrt_append)
qed

lemma pc_ok_mono: "pc_ok cell p \<Longrightarrow> sint cell \<le> sint cell' \<Longrightarrow> pc_ok cell' p"
  by (auto simp: pc_ok_def split: snow_pc.splits)

lemma snow_ok_pc: "\<lbrakk>snow_ok s; ss_pc s t = p\<rbrakk> \<Longrightarrow> pc_ok (sg_state (ss_gen s)) p"
  by (auto simp: snow_ok_def)

lemma snow_ok_upd: "\<lbrakk>snow_ok s; pc_ok (sg_state (ss_gen s)) p\<rbrakk> \<Longrightarrow> snow_ok (s\<lparr>ss_pc := (ss_pc s)(t := p)\<rparr>)"
  by (auto simp: snow_ok_def)

lemma snow_step_ok:
  assumes "snow_step s s'" "snow_ok s"
  shows "snow_ok s'"
  using assms(1)
proof (cases rule: snow_step.cases)
  case (Load t)
  have "0 \<le> sint (sg_state (ss_gen s))" using assms(2) unfolding snow_ok_def by blast
  with Load show ?thesis using assms(2) by (auto intro!: snow_ok_upd simp: pc_ok_def)
next
  case (Pass_Swap t old now "next")
  note pc = snow_ok_pc [OF assms(2) Pass_Swap(2)]
  have "sint old < sint next"
    using pc by (intro next_pass_swap(1) [OF _ Pass_Swap(3)]) (simp add: pc_ok_def)
  then show ?thesis unfolding Pass_Swap(1) using pc by (intro snow_ok_upd [OF assms(2)]) (simp add: pc_ok_def)
next
  case (Swap_Ok t old "next" cell)
  then have c: "sg_state (ss_gen s) = old" "cell = next"
    by (auto simp: CompareAndSwap_def split: if_splits)
  have lt: "sint (sg_state (ss_gen s)) < sint next" "0 \<le> sint old"
    using snow_ok_pc [OF assms(2) Swap_Ok(2)] c by (auto simp: pc_ok_def)
  have "sint a < sint next" if "a \<in> set (0 # ss_issued s)" for a
    using that lt sorted_le_last [of 0 "ss_issued s" a] assms(2) by (force simp: snow_ok_def)
  moreover have "sint (0 :: int64) < sint next" using calculation by (metis list.set_intros(1))
  ultimately have "sorted_wrt (\<lambda>a b. sint a < sint b) (0 # ss_issued s @ [next])"
    using assms(2) by (auto simp: snow_ok_def sorted_wrt_append)
  moreover have "pc_ok next (ss_pc s u)" for u
    using assms(2) lt by (auto simp: snow_ok_def intro: pc_ok_mono)
  ultimately show ?thesis unfolding Swap_Ok(1) c(2)
    using lt c by (simp add: snow_ok_def) (simp add: pc_ok_def)
next
  case (Swap_Fail t old "next" cell)
  then have "s' = s\<lparr>ss_pc := (ss_pc s)(t := SIdle)\<rparr>"
    by (auto simp: CompareAndSwap_def split: if_splits)
  then show ?thesis using assms(2) by (auto intro!: snow_ok_upd simp: pc_ok_def)
qed (use assms(2) in \<open>auto intro!: snow_ok_upd simp: pc_ok_def\<close>)

lemma snow_reach_ok: "snow_reach epoch s \<Longrightarrow> snow_ok s"
proof (induction rule: snow_reach.induct)
  case (Start g)
  then show ?case by (auto simp: snow_ok_def pc_ok_def NewIDGenerator_def)
qed (rule snow_step_ok)

text \<open>C25. Identifiers are unique and increasing: however the calls of any number of goroutines
  interleave and whatever the clock does, the identifiers returned by \<^verbatim>\<open>Next\<close> are positive and
  strictly increasing in the order of their swaps.  The generator is lock-free: a goroutine about to
  lose its swap loses it to an identifier issued after it loaded the word.\<close>

theorem snowflake_unique:
  assumes "snow_reach epoch s"
  shows "sorted_wrt (\<lambda>a b. sint a < sint b) (ss_issued s) \<and> (\<forall>a \<in> set (ss_issued s). 0 < sint a) \<and>
    (\<forall>t old next. ss_pc s t = SCas old next \<and> sg_state (ss_gen s) \<noteq> old \<longrightarrow>
       sg_state (ss_gen s) \<in> set (ss_issued s) \<and> sint old < sint (sg_state (ss_gen s)))"
proof -
  have ok: "snow_ok s" using assms by (rule snow_reach_ok)
  have "sg_state (ss_gen s) \<in> set (ss_issued s) \<and> sint old < sint (sg_state (ss_gen s))"
    if "ss_pc s t = SCas old next" "sg_state (ss_gen s) \<noteq> old" for t old "next"
  proof -
    have o: "0 \<le> sint old" "sint old \<le> sint (sg_state (ss_gen s))"
      using ok that(1) by (auto simp: snow_ok_def pc_ok_def dest: spec [of _ t])
    then have lt: "sint old < sint (sg_state (ss_gen s))"
      using that(2) by (metis order_le_less signed_word_eqI)
    moreover have "ss_issued s \<noteq> []" using ok o lt by (auto simp: snow_ok_def)
    ultimately show ?thesis using ok by (simp add: snow_ok_def)
  qed
  with ok show ?thesis by (auto simp: snow_ok_def)
qed

definition demo_snow :: snow_sys where
  "demo_snow = \<lparr>ss_gen = \<lparr>sg_state = 5 * 1048576, sg_epoch = 0\<rparr>,
     ss_pc = (\<lambda>_. SIdle)(1 := SLoaded 0, 1 := SCas 0 1, 0 := SLoaded 0, 0 := SCas 0 5242880, 0 := SIdle), ss_issued = [5 * 1048576]\<rparr>"

lemma demo_snow_reach: "snow_reach 0 demo_snow"
proof -
  let ?g = "\<lparr>sg_state = 0, sg_epoch = 0\<rparr>" and ?p = "(\<lambda>_. SIdle)(1 := SLoaded 0, 1 := SCas 0 1, 0 := SLoaded 0)"
  have "snow_reach 0 \<lparr>ss_gen = ?g, ss_pc = \<lambda>_. SIdle, ss_issued = []\<rparr>"
    by (rule Start) (simp add: NewIDGenerator_def)
  from Step [OF this Load [of _ 1]]
  have "snow_reach 0 \<lparr>ss_gen = ?g, ss_pc = (\<lambda>_. SIdle)(1 := SLoaded 0), ss_issued = []\<rparr>" by simp
  from Step [OF this Pass_Swap [of _ 1 0 0 1]]
  have "snow_reach 0 \<lparr>ss_gen = ?g, ss_pc = (\<lambda>_. SIdle)(1 := SLoaded 0, 1 := SCas 0 1), ss_issued = []\<rparr>"
    by (simp add: next_pass_def Let_def sequenceBits_def)
  from Step [OF this Load [of _ 0]]
  have "snow_reach 0 \<lparr>ss_gen = ?g, ss_pc = ?p, ss_issued = []\<rparr>" by simp
  from Step [OF this Pass_Swap [of _ 0 0 5 "5 * 1048576"]]
  have "snow_reach 0 \<lparr>ss_gen = ?g, ss_pc = ?p(0 := SCas 0 (5 * 1048576)), ss_issued = []\<rparr>"
    by (simp add: next_pass_def Let_def sequenceBits_def)
  from Step [OF this Swap_Ok [of _ 0 0 "5 * 1048576" "5 * 1048576"]]
  show ?thesis by (simp add: CompareAndSwap_def demo_snow_def)
qed

theorem snowflake_unique_witness:
  "ss_pc demo_snow 1 = SCas 0 1 \<and> sint (0 :: int64) < sint (sg_state (ss_gen demo_snow)) \<and> 0 < sint (5 * 1048576 :: int64)"
proof -
  have p: "ss_pc demo_snow 1 = SCas 0 1" "ss_issued demo_snow = [5 * 1048576]" "sg_state (ss_gen demo_snow) \<noteq> 0"
    by (simp_all add: demo_snow_def)
  then show ?thesis using snowflake_unique [OF demo_snow_reach] by force
qed

subsection \<open>A call returns\<close>

lemma next_pass_in_range:
  assumes "0 \<le> sint old" "0 \<le> sint (now - epoch)" "sint (now - epoch) \<le> 2 ^ 43 - 1"
  shows "(\<exists>next. next_pass epoch old now = NextCAS next) \<or>
         (\<exists>d. next_pass epoch old now = NextSleep d) \<and> sint (now - epoch) \<le> sint old div 2 ^ 20"
  using assms by (auto simp: next_pass_def Let_def sint_timestamp)

text \<open>Termination: a call that meets no contention returns an identifier as soon as the clock, in
  range, reads a millisecond later than the last identifier, and possibly earlier; the identifier is
  above the last one and carries the millisecond of the reading that produced it.  No hypothesis on the
  other readings but their range: they may go backwards.\<close>

theorem next_returns:
  assumes "0 \<le> sint (sg_state g)" and "k < length clock"
    and "\<forall>now \<in> set clock. 0 \<le> sint (now - sg_epoch g) \<and> sint (now - sg_epoch g) \<le> sint maxTimestamp"
    and "sint (TimestampMS (sg_state g)) < sint (clock ! k - sg_epoch g)"
  shows "\<exists>w n. nextRun g clock = Some (Return w, g\<lparr>sg_state := w\<rparr>, Suc n) \<and> n \<le> k \<and>
    sint (sg_state g) < sint w \<and> sint (TimestampMS w) = sint (clock ! n - sg_epoch g)"
  using assms(2-)
proof (induction clock arbitrary: k)
  case (Cons now clock)
  let ?rel = "sint (now - sg_epoch g)"
  have range: "0 \<le> ?rel" "?rel \<le> 2 ^ 43 - 1" using Cons.prems(2) by simp_all
  show ?case
  proof (cases "\<exists>next. next_pass (sg_epoch g) (sg_state g) now = NextCAS next")
    case True
    then obtain w where w: "next_pass (sg_epoch g) (sg_state g) now = NextCAS w" by blast
    note sw = next_pass_swap [OF assms(1) w]
    have "sint (TimestampMS w) = ?rel"
      using sw assms(1) by (simp add: TimestampMS_def sint_timestamp)
    with w sw(1) show ?thesis by (auto simp: CompareAndSwap_def intro!: exI [of _ 0])
  next
    case False
    then obtain d where d: "next_pass (sg_epoch g) (sg_state g) now = NextSleep d"
      and le: "?rel \<le> sint (sg_state g) div 2 ^ 20"
      using next_pass_in_range [OF assms(1) range] by blast
    obtain j where k: "k = Suc j"
      using Cons.prems(3) le assms(1) by (cases k) (auto simp: TimestampMS_def sint_timestamp)
    obtain w n where "nextRun g clock = Some (Return w, g\<lparr>sg_state := w\<rparr>, Suc n)" "n \<le> j"
      "sint (sg_state g) < sint w" "sint (TimestampMS w) = sint (clock ! n - sg_epoch g)"
      using Cons.IH [of j] Cons.prems k by auto
    then show ?thesis using d k by (intro exI [of _ w] exI [of _ "Suc n"]) simp
  qed
qed simp

theorem next_returns_witness:
  "\<exists>w n. nextRun \<lparr>sg_state = 7 * 1048576 + 1048575, sg_epoch = 100\<rparr> [107, 103, 108] =
           Some (Return w, \<lparr>sg_state = w, sg_epoch = 100\<rparr>, Suc n) \<and> n \<le> 2 \<and> sint (8388607 :: int64) < sint w"
  using next_returns [of "\<lparr>sg_state = 7 * 1048576 + 1048575, sg_epoch = 100\<rparr>" 2 "[107, 103, 108]"]
  by (auto simp: TimestampMS_def sequenceBits_def sint_signed_drop_bit_eq drop_bit_eq_div)

end
