(* ===== verification/Cache.thy ===== *)
theory Cache
  imports Prelude
begin

text \<open>
  The in-process TTL cache of \<^verbatim>\<open>internal/cache/cache.go\<close>: entries with a FIFO insertion order and a
  size limit, lazy expiry, explicit invalidation, and loads of one key coalesced into a single call of
  the loader.  The objects of type \<^verbatim>\<open>inflight\<close> live in a heap of call records, because a goroutine keeps
  the pointer to its call after the table has dropped it and compares pointers when it completes.

  Each critical section of the source is one definition.  \<^verbatim>\<open>cache_step\<close> runs them in any order for any
  number of goroutines; the loader's result is an argument of the completing step, the clock an
  argument of every section that reads it.  A zero \<^verbatim>\<open>expiresAt\<close> is \<open>None\<close>.
\<close>

section \<open>Definitions\<close>

record 'v entry =
  e_value :: 'v
  e_expiresAt :: "gotime option"

record ('v, 'e) inflight =
  if_ready :: bool
  if_value :: "'v option"
  if_err :: "'e option"
  if_generation :: uint64
  if_invalidated :: bool

type_synonym callref = nat

record ('k, 'v, 'e) Cache =
  c_entries :: "('k, 'v entry) fmap"
  c_tombstones :: "('k, uint64) fmap"
  c_order :: "'k list"
  c_inflight :: "('k, callref) fmap"
  c_calls :: "(callref, ('v, 'e) inflight) fmap"
  c_next :: callref
  c_ttl :: duration
  c_loader :: bool
  c_maxSize :: int
  c_hits :: uint64
  c_misses :: uint64

definition NewCache :: "duration \<Rightarrow> bool \<Rightarrow> int \<Rightarrow> ('k, 'v, 'e) Cache" where
  "NewCache ttl loader maxSize =
     \<lparr>c_entries = fmempty, c_tombstones = fmempty, c_order = [], c_inflight = fmempty, c_calls = fmempty, c_next = 0,
      c_ttl = ttl, c_loader = loader, c_maxSize = maxSize, c_hits = 0, c_misses = 0\<rparr>"

definition tombstone :: "('k, 'v, 'e) Cache \<Rightarrow> 'k \<Rightarrow> uint64" where
  "tombstone c key = (case fmlookup (c_tombstones c) key of None \<Rightarrow> 0 | Some n \<Rightarrow> n)"

text \<open>The first block of \<^verbatim>\<open>Set\<close> and \<^verbatim>\<open>Delete\<close>: take the call of \<open>key\<close> out of the table and mark it.\<close>

definition detachCall :: "('k, 'v, 'e) Cache \<Rightarrow> 'k \<Rightarrow> ('k, 'v, 'e) Cache" where
  "detachCall c key =
     (case fmlookup (c_inflight c) key of None \<Rightarrow> c
      | Some r \<Rightarrow>
          c\<lparr>c_calls := (case fmlookup (c_calls c) r of None \<Rightarrow> c_calls c
                        | Some call \<Rightarrow> fmupd r (call\<lparr>if_invalidated := True\<rparr>) (c_calls c)),
            c_tombstones := fmupd key (tombstone c key + 1) (c_tombstones c),
            c_inflight := fmdrop key (c_inflight c)\<rparr>)"

definition deadlineAt :: "('k, 'v, 'e) Cache \<Rightarrow> gotime \<Rightarrow> gotime option" where
  "deadlineAt c now = (if c_ttl c > 0 then Some (now + c_ttl c) else None)"

definition storeLocked :: "('k, 'v, 'e) Cache \<Rightarrow> 'k \<Rightarrow> 'v \<Rightarrow> gotime \<Rightarrow> ('k, 'v, 'e) Cache" where
  "storeLocked c key value now =
     (let c1 = (if fmlookup (c_entries c) key \<noteq> None then c
                else let order = c_order c @ [key]
                     in if c_maxSize c > 0 \<and> int (length order) > c_maxSize c
                        then c\<lparr>c_order := tl order, c_entries := fmdrop (hd order) (c_entries c)\<rparr>
                        else c\<lparr>c_order := order\<rparr>)
      in c1\<lparr>c_entries := fmupd key \<lparr>e_value = value, e_expiresAt = deadlineAt c now\<rparr> (c_entries c1)\<rparr>)"

definition SetEntry :: "('k, 'v, 'e) Cache \<Rightarrow> 'k \<Rightarrow> 'v \<Rightarrow> gotime \<Rightarrow> ('k, 'v, 'e) Cache" where
  "SetEntry c key value now = storeLocked (detachCall c key) key value now"

definition DeleteEntry :: "('k, 'v, 'e) Cache \<Rightarrow> 'k \<Rightarrow> ('k, 'v, 'e) Cache" where
  "DeleteEntry c key =
     (let c1 = detachCall c key
      in if fmlookup (c_entries c1) key = None then c1
         else c1\<lparr>c_entries := fmdrop key (c_entries c1), c_order := remove1 key (c_order c1)\<rparr>)"

definition ClearAll :: "('k, 'v, 'e) Cache \<Rightarrow> ('k, 'v, 'e) Cache" where
  "ClearAll c =
     c\<lparr>c_calls := fmmap_keys (\<lambda>r call. if r |\<in>| fmran (c_inflight c) then call\<lparr>if_invalidated := True\<rparr> else call) (c_calls c),
       c_tombstones := c_tombstones c ++\<^sub>f fmmap_keys (\<lambda>key _. tombstone c key + 1) (c_inflight c),
       c_inflight := fmempty, c_entries := fmempty, c_order := []\<rparr>"

definition expiredEntry :: "'v entry \<Rightarrow> gotime \<Rightarrow> bool" where
  "expiredEntry e now = (case e_expiresAt e of None \<Rightarrow> False | Some t \<Rightarrow> \<not> now < t)"

definition purgeExpiredLocked :: "('k, 'v, 'e) Cache \<Rightarrow> gotime \<Rightarrow> nat \<times> ('k, 'v, 'e) Cache" where
  "purgeExpiredLocked c now =
     (let kept = gm_filter (\<lambda>_ e. \<not> expiredEntry e now) (c_entries c);
          n = gm_len (c_entries c) - gm_len kept
      in (n, c\<lparr>c_entries := kept,
              c_order := (if n > 0 then filter (\<lambda>key. fmlookup kept key \<noteq> None) (c_order c) else c_order c)\<rparr>))"

definition DeleteExpired :: "('k, 'v, 'e) Cache \<Rightarrow> gotime \<Rightarrow> nat \<times> ('k, 'v, 'e) Cache" where
  "DeleteExpired c now = purgeExpiredLocked c now"

definition SnapshotEntries :: "('k, 'v, 'e) Cache \<Rightarrow> gotime \<Rightarrow> ('k, 'v) fmap \<times> ('k, 'v, 'e) Cache" where
  "SnapshotEntries c now = (let c1 = snd (purgeExpiredLocked c now) in (fmmap e_value (c_entries c1), c1))"

definition LenEntries :: "('k, 'v, 'e) Cache \<Rightarrow> nat" where
  "LenEntries c = gm_len (c_entries c)"

definition StatsCache :: "('k, 'v, 'e) Cache \<Rightarrow> uint64 \<times> uint64" where
  "StatsCache c = (c_hits c, c_misses c)"

text \<open>\<^verbatim>\<open>get\<close> reads under the read lock, and when it met an expired entry looks again under the write
  lock before it removes the key.\<close>

definition get_read :: "('k, 'v, 'e) Cache \<Rightarrow> 'k \<Rightarrow> gotime \<Rightarrow> 'v option" where
  "get_read c key now =
     (case fmlookup (c_entries c) key of None \<Rightarrow> None
      | Some e \<Rightarrow> if expiredEntry e now then None else Some (e_value e))"

definition get_purge :: "('k, 'v, 'e) Cache \<Rightarrow> 'k \<Rightarrow> gotime \<Rightarrow> ('k, 'v, 'e) Cache" where
  "get_purge c key now =
     (case fmlookup (c_entries c) key of None \<Rightarrow> c
      | Some e \<Rightarrow> if expiredEntry e now then c\<lparr>c_entries := fmdrop key (c_entries c), c_order := remove1 key (c_order c)\<rparr> else c)"

definition get :: "('k, 'v, 'e) Cache \<Rightarrow> 'k \<Rightarrow> gotime \<Rightarrow> gotime \<Rightarrow> 'v option \<times> ('k, 'v, 'e) Cache" where
  "get c key now now' =
     (case get_read c key now of Some v \<Rightarrow> (Some v, c)
      | None \<Rightarrow> (None, if fmlookup (c_entries c) key = None then c else get_purge c key now'))"

text \<open>\<^verbatim>\<open>Get\<close> up to the call of \<^verbatim>\<open>load\<close>.\<close>

datatype 'v get_result = GetHit 'v | GetMiss | GetLoad

definition GetCounted :: "('k, 'v, 'e) Cache \<Rightarrow> 'v option \<Rightarrow> 'v get_result \<times> ('k, 'v, 'e) Cache" where
  "GetCounted c found =
     (case found of Some v \<Rightarrow> (GetHit v, c\<lparr>c_hits := c_hits c + 1\<rparr>)
      | None \<Rightarrow> (if c_loader c then GetLoad else GetMiss, c\<lparr>c_misses := c_misses c + 1\<rparr>))"

text \<open>\<^verbatim>\<open>loadOnce\<close> to the point where it waits, returns or runs the loader.\<close>

datatype 'v begin_result = BeginJoin callref | BeginHit 'v | BeginRun callref

definition loadBegin :: "('k, 'v, 'e) Cache \<Rightarrow> 'k \<Rightarrow> gotime \<Rightarrow> 'v begin_result \<times> ('k, 'v, 'e) Cache" where
  "loadBegin c key now =
     (case fmlookup (c_inflight c) key of Some r \<Rightarrow> (BeginJoin r, c)
      | None \<Rightarrow>
          (case get_read c key now of Some v \<Rightarrow> (BeginHit v, c)
           | None \<Rightarrow>
               let r = c_next c;
                   call = \<lparr>if_ready = False, if_value = None, if_err = None, if_generation = tombstone c key, if_invalidated = False\<rparr>
               in (BeginRun r, c\<lparr>c_inflight := fmupd key r (c_inflight c), c_calls := fmupd r call (c_calls c), c_next := Suc r\<rparr>)))"

text \<open>What a goroutine gets from a completed call: a value, an error, or another round.\<close>

datatype ('v, 'e) load_result = LoadValue 'v | LoadError 'e | LoadRetry

definition callResult :: "('v, 'e) inflight \<Rightarrow> ('v, 'e) load_result option" where
  "callResult call =
     (if if_invalidated call then Some LoadRetry
      else case if_err call of Some e \<Rightarrow> Some (LoadError e) | None \<Rightarrow> map_option LoadValue (if_value call))"

text \<open>What a goroutine waiting on a call gets when it looks at it: nothing while the call is not ready.\<close>

definition loadWake :: "('k, 'v, 'e) Cache \<Rightarrow> callref \<Rightarrow> ('v, 'e) load_result option" where
  "loadWake c r =
     (case fmlookup (c_calls c) r of None \<Rightarrow> None
      | Some call \<Rightarrow>
          if \<not> if_ready call then None
          else if if_invalidated call then Some LoadRetry
          else case if_err call of Some e \<Rightarrow> Some (LoadError e) | None \<Rightarrow> map_option LoadValue (if_value call))"

text \<open>\<^verbatim>\<open>loadOnce\<close> from the return of the loader: publish if this call still owns the key, else mark it.
  \<open>None\<close> stands for a call that is not in the heap, which does not happen.\<close>

definition loadFinish ::
  "('k, 'v, 'e) Cache \<Rightarrow> 'k \<Rightarrow> callref \<Rightarrow> ('e, 'v) sum \<Rightarrow> gotime \<Rightarrow> (('v, 'e) load_result \<times> ('k, 'v, 'e) Cache) option" where
  "loadFinish c key r res now =
     (case fmlookup (c_calls c) r of None \<Rightarrow> None
      | Some call \<Rightarrow>
          let current = fmlookup (c_inflight c) key;
              (call1, c1) =
                (if current = Some r \<and> \<not> if_invalidated call \<and> tombstone c key = if_generation call
                 then (case res of
                         Inr v \<Rightarrow> (call\<lparr>if_value := Some v\<rparr>, storeLocked c key v now)
                       | Inl e \<Rightarrow> (call\<lparr>if_err := Some e\<rparr>, c))
                 else (call\<lparr>if_invalidated := True\<rparr>, c));
              c2 = (if current = Some r \<and> \<not> if_invalidated call \<and> tombstone c key = if_generation call
                    then c1\<lparr>c_inflight := fmdrop key (c_inflight c1), c_tombstones := fmdrop key (c_tombstones c1)\<rparr>
                    else if current = None then c1\<lparr>c_tombstones := fmdrop key (c_tombstones c1)\<rparr> else c1);
              call2 = call1\<lparr>if_ready := True\<rparr>
          in map_option (\<lambda>lr. (lr, c2\<lparr>c_calls := fmupd r call2 (c_calls c2)\<rparr>)) (callResult call2))"

text \<open>Goroutines: outside the cache, at the head of the loop of \<^verbatim>\<open>load\<close>, waiting on a call, or running the
  loader for the call they registered.\<close>

datatype 'k cache_pc = CIdle | CLoad 'k | CWait 'k callref | CRun 'k callref

record ('k, 'v, 'e) cache_sys =
  cs_cache :: "('k, 'v, 'e) Cache"
  cs_pc :: "nat \<Rightarrow> 'k cache_pc"

definition after_load :: "'k \<Rightarrow> ('v, 'e) load_result \<Rightarrow> 'k cache_pc" where
  "after_load key lr = (case lr of LoadRetry \<Rightarrow> CLoad key | _ \<Rightarrow> CIdle)"

inductive cache_step :: "('k, 'v, 'e) cache_sys \<Rightarrow> ('k, 'v, 'e) cache_sys \<Rightarrow> bool" where
  S_Get: "\<lbrakk>cs_pc s t = CIdle; GetCounted (cs_cache s) (get_read (cs_cache s) key now) = (g, c')\<rbrakk>
    \<Longrightarrow> cache_step s \<lparr>cs_cache = c', cs_pc = (cs_pc s)(t := (case g of GetLoad \<Rightarrow> CLoad key | _ \<Rightarrow> CIdle))\<rparr>"
| S_Purge: "cache_step s (s\<lparr>cs_cache := get_purge (cs_cache s) key now\<rparr>)"
| S_Begin: "\<lbrakk>cs_pc s t = CLoad key; loadBegin (cs_cache s) key now = (b, c')\<rbrakk>
    \<Longrightarrow> cache_step s \<lparr>cs_cache = c', cs_pc = (cs_pc s)(t := (case b of BeginJoin r \<Rightarrow> CWait key r | BeginHit v \<Rightarrow> CIdle | BeginRun r \<Rightarrow> CRun key r))\<rparr>"
| S_Finish: "\<lbrakk>cs_pc s t = CRun key r; loadFinish (cs_cache s) key r res now = Some (lr, c')\<rbrakk>
    \<Longrightarrow> cache_step s \<lparr>cs_cache = c', cs_pc = (cs_pc s)(t := after_load key lr)\<rparr>"
| S_Wake: "\<lbrakk>cs_pc s t = CWait key r; loadWake (cs_cache s) r = Some lr\<rbrakk>
    \<Longrightarrow> cache_step s (s\<lparr>cs_pc := (cs_pc s)(t := after_load key lr)\<rparr>)"
| S_Cancel: "cs_pc s t = CLoad key \<or> cs_pc s t = CWait key r \<Longrightarrow> cache_step s (s\<lparr>cs_pc := (cs_pc s)(t := CIdle)\<rparr>)"
| S_Set: "cache_step s (s\<lparr>cs_cache := SetEntry (cs_cache s) key v now\<rparr>)"
| S_Delete: "cache_step s (s\<lparr>cs_cache := DeleteEntry (cs_cache s) key\<rparr>)"
| S_Clear: "cache_step s (s\<lparr>cs_cache := ClearAll (cs_cache s)\<rparr>)"
| S_DeleteExpired: "cache_step s (s\<lparr>cs_cache := snd (DeleteExpired (cs_cache s) now)\<rparr>)"
| S_Snapshot: "cache_step s (s\<lparr>cs_cache := snd (SnapshotEntries (cs_cache s) now)\<rparr>)"

abbreviation cache_start :: "duration \<Rightarrow> bool \<Rightarrow> int \<Rightarrow> ('k, 'v, 'e) cache_sys" where
  "cache_start ttl loader maxSize \<equiv> \<lparr>cs_cache = NewCache ttl loader maxSize, cs_pc = (\<lambda>_. CIdle)\<rparr>"

section \<open>Theorems\<close>

subsection \<open>Entries, order and size\<close>

definition cache_ok :: "('k, 'v, 'e) Cache \<Rightarrow> bool" where
  "cache_ok c \<longleftrightarrow> distinct (c_order c) \<and> set (c_order c) = fset (fmdom (c_entries c)) \<and>
     (c_maxSize c > 0 \<longrightarrow> int (length (c_order c)) \<le> c_maxSize c)"

lemma cache_ok_mem: "cache_ok c \<Longrightarrow> key \<in> set (c_order c) \<longleftrightarrow> fmlookup (c_entries c) key \<noteq> None"
  by (simp add: cache_ok_def fmlookup_dom_iff)

lemma cache_ok_len: "cache_ok c \<Longrightarrow> gm_len (c_entries c) = length (c_order c)"
  by (metis cache_ok_def distinct_card fcard.rep_eq gm_len_def)

lemma detachCall_fields [simp]:
  "c_entries (detachCall c key) = c_entries c" "c_order (detachCall c key) = c_order c"
  "c_maxSize (detachCall c key) = c_maxSize c" "c_ttl (detachCall c key) = c_ttl c" "c_next (detachCall c key) = c_next c"
  by (simp_all add: detachCall_def split: option.splits)

lemma storeLocked_fields [simp]:
  "c_inflight (storeLocked c key v now) = c_inflight c" "c_calls (storeLocked c key v now) = c_calls c"
  "c_tombstones (storeLocked c key v now) = c_tombstones c" "c_next (storeLocked c key v now) = c_next c"
  "c_maxSize (storeLocked c key v now) = c_maxSize c" "c_ttl (storeLocked c key v now) = c_ttl c"
  by (simp_all add: storeLocked_def Let_def)

lemma cache_ok_frame:
  "\<lbrakk>cache_ok c; c_entries c' = c_entries c; c_order c' = c_order c; c_maxSize c' = c_maxSize c\<rbrakk> \<Longrightarrow> cache_ok c'"
  by (simp add: cache_ok_def)

lemma storeLocked_ok:
  assumes "cache_ok c"
  shows "cache_ok (storeLocked c key v now)"
proof (cases "fmlookup (c_entries c) key")
  case None
  then have new: "key \<notin> set (c_order c)" using assms by (simp add: cache_ok_mem)
  show ?thesis
  proof (cases "c_maxSize c > 0 \<and> int (length (c_order c @ [key])) > c_maxSize c")
    case True
    then obtain old rest where o: "c_order c = old # rest" using assms by (cases "c_order c") (auto simp: cache_ok_def)
    then show ?thesis using None True new assms by (auto simp: storeLocked_def cache_ok_def Let_def)
  next
    case False
    have "storeLocked c key v now =
        c\<lparr>c_order := c_order c @ [key], c_entries := fmupd key \<lparr>e_value = v, e_expiresAt = deadlineAt c now\<rparr> (c_entries c)\<rparr>"
      unfolding storeLocked_def Let_def using None False by auto
    moreover have "set (c_order c @ [key]) = insert key (fset (fmdom (c_entries c)))"
      using assms by (simp add: cache_ok_def)
    moreover have "distinct (c_order c @ [key])" using new assms by (simp add: cache_ok_def)
    ultimately show ?thesis using False by (simp add: cache_ok_def) linarith
  qed
next
  case (Some e)
  then have "finsert key (fmdom (c_entries c)) = fmdom (c_entries c)" by (simp add: fmlookup_dom_iff finsert_absorb)
  then show ?thesis using Some assms by (simp add: storeLocked_def cache_ok_def)
qed

lemma remove_key_ok: "cache_ok c \<Longrightarrow> cache_ok (c\<lparr>c_entries := fmdrop key (c_entries c), c_order := remove1 key (c_order c)\<rparr>)"
  by (auto simp: cache_ok_def length_remove1)

lemma get_purge_ok: "cache_ok c \<Longrightarrow> cache_ok (get_purge c key now)"
  by (auto simp: get_purge_def remove_key_ok split: option.splits)

lemma purge_ok:
  assumes "cache_ok c"
  shows "cache_ok (snd (purgeExpiredLocked c now))"
proof -
  let ?kept = "gm_filter (\<lambda>_ e. \<not> expiredEntry e now) (c_entries c)"
  have mem: "key |\<in>| fmdom ?kept \<longleftrightarrow> fmlookup ?kept key \<noteq> None" for key by (simp add: fmlookup_dom_iff)
  have sub: "fmdom ?kept |\<subseteq>| fmdom (c_entries c)"
    by (auto simp: fmlookup_dom_iff split: option.splits if_splits)
  have "fmdom ?kept = fmdom (c_entries c)" if "gm_len (c_entries c) \<le> gm_len ?kept"
    using that sub by (simp add: gm_len_def fcard_seteq)
  moreover have "int (length (filter P (c_order c))) \<le> c_maxSize c" if "c_maxSize c > 0" for P
    using assms that length_filter_le [of P "c_order c"] unfolding cache_ok_def by linarith
  moreover have "set (filter (\<lambda>key. fmlookup ?kept key \<noteq> None) (c_order c)) = fset (fmdom ?kept)"
    using assms sub mem by (auto simp: cache_ok_def)
  ultimately show ?thesis using assms by (auto simp: purgeExpiredLocked_def Let_def cache_ok_def)
qed

lemma ClearAll_ok: "cache_ok (ClearAll c)"
  by (simp add: ClearAll_def cache_ok_def)

lemma loadBegin_fields:
  "loadBegin c key now = (b, c') \<Longrightarrow> c_entries c' = c_entries c \<and> c_order c' = c_order c \<and> c_maxSize c' = c_maxSize c"
  by (auto simp: loadBegin_def Let_def split: option.splits)

lemma loadFinish_entries:
  assumes "loadFinish c key r res now = Some (lr, c')"
  shows "\<exists>c1. (c1 = c \<or> (\<exists>v. res = Inr v \<and> c1 = storeLocked c key v now)) \<and>
    c_entries c' = c_entries c1 \<and> c_order c' = c_order c1 \<and> c_maxSize c' = c_maxSize c1"
  using assms by (auto simp: loadFinish_def Let_def split: option.splits sum.splits if_splits)

lemma cache_step_entries_ok: "cache_step s s' \<Longrightarrow> cache_ok (cs_cache s) \<Longrightarrow> cache_ok (cs_cache s')"
proof (induction rule: cache_step.induct)
  case (S_Get s t key now g c')
  then show ?case by (auto simp: GetCounted_def elim!: cache_ok_frame split: option.splits if_splits)
next
  case (S_Begin s t key now b c')
  then show ?case using loadBegin_fields [OF S_Begin(2)] by (simp add: cache_ok_def)
next
  case (S_Finish s t key r res now lr c')
  from loadFinish_entries [OF S_Finish(2)] obtain c1
    where c1: "c1 = cs_cache s \<or> (\<exists>v. res = Inr v \<and> c1 = storeLocked (cs_cache s) key v now)"
      "c_entries c' = c_entries c1" "c_order c' = c_order c1" "c_maxSize c' = c_maxSize c1" by blast
  from c1(1) S_Finish(3) have "cache_ok c1" by (elim disjE exE conjE) (simp_all add: storeLocked_ok)
  from cache_ok_frame [OF this c1(2-4)] show ?case by simp
next
  case (S_Set s key v now)
  have "cache_ok (detachCall (cs_cache s) key)" by (rule cache_ok_frame [OF S_Set]) simp_all
  then show ?case by (simp add: SetEntry_def storeLocked_ok)
next
  case (S_Delete s key)
  have "cache_ok (detachCall (cs_cache s) key)" by (rule cache_ok_frame [OF S_Delete]) simp_all
  from this remove_key_ok [OF this] show ?case by (simp add: DeleteEntry_def Let_def)
qed (simp_all add: get_purge_ok purge_ok DeleteExpired_def SnapshotEntries_def Let_def ClearAll_ok)

subsection \<open>Loads in flight\<close>

text \<open>The part of the cache the loads use, and its relation to the goroutines: a running goroutine has
  an unfinished call, which owns its key unless it was invalidated; an owner is running and its
  generation is the current tombstone; a call runs once; an unfinished call is being run; a finished
  one has a result; a tombstone lives only as long as some load of its key runs.\<close>

definition call_ok :: "('k, 'v, 'e) Cache \<Rightarrow> (nat \<Rightarrow> 'k cache_pc) \<Rightarrow> callref \<Rightarrow> ('v, 'e) inflight \<Rightarrow> bool" where
  "call_ok c pc r call \<longleftrightarrow> r < c_next c \<and>
     (if if_ready call then callResult call \<noteq> None
      else if_value call = None \<and> if_err call = None \<and>
        (\<exists>t key. pc t = CRun key r \<and> (if if_invalidated call then fmlookup (c_inflight c) key \<noteq> Some r
                                       else fmlookup (c_inflight c) key = Some r \<and> if_generation call = tombstone c key)))"

definition pc_calls_ok :: "('k, 'v, 'e) Cache \<Rightarrow> 'k cache_pc \<Rightarrow> bool" where
  "pc_calls_ok c p = (case p of
     CRun key r \<Rightarrow> (case fmlookup (c_calls c) r of None \<Rightarrow> False | Some call \<Rightarrow> \<not> if_ready call)
   | CWait key r \<Rightarrow> fmlookup (c_calls c) r \<noteq> None | _ \<Rightarrow> True)"

definition flight_ok :: "('k, 'v, 'e) Cache \<Rightarrow> (nat \<Rightarrow> 'k cache_pc) \<Rightarrow> bool" where
  "flight_ok c pc \<longleftrightarrow>
     (\<forall>r call. fmlookup (c_calls c) r = Some call \<longrightarrow> call_ok c pc r call) \<and>
     (\<forall>t. pc_calls_ok c (pc t)) \<and>
     (\<forall>t t' key key' r. pc t = CRun key r \<and> pc t' = CRun key' r \<longrightarrow> t = t') \<and>
     (\<forall>key r. fmlookup (c_inflight c) key = Some r \<longrightarrow>
        (\<exists>t call. pc t = CRun key r \<and> fmlookup (c_calls c) r = Some call \<and> \<not> if_invalidated call)) \<and>
     (\<forall>key. fmlookup (c_tombstones c) key \<noteq> None \<longrightarrow> (\<exists>t r. pc t = CRun key r))"

lemma flight_okD:
  assumes "flight_ok c pc"
  shows "fmlookup (c_calls c) r = Some call \<Longrightarrow> call_ok c pc r call"
    and "pc_calls_ok c (pc t)"
    and "pc t = CRun key r \<Longrightarrow> pc t' = CRun key' r \<Longrightarrow> t = t'"
    and "fmlookup (c_inflight c) key = Some r \<Longrightarrow>
           \<exists>t call. pc t = CRun key r \<and> fmlookup (c_calls c) r = Some call \<and> \<not> if_invalidated call"
    and "fmlookup (c_tombstones c) key \<noteq> None \<Longrightarrow> \<exists>t r. pc t = CRun key r"
  using assms unfolding flight_ok_def by blast+

text \<open>What is known of the call a goroutine runs.\<close>

lemma running_call:
  assumes "flight_ok c pc" "pc t = CRun key r"
  obtains call where "fmlookup (c_calls c) r = Some call" "\<not> if_ready call" "if_value call = None" "if_err call = None"
    "if if_invalidated call then fmlookup (c_inflight c) key \<noteq> Some r
     else fmlookup (c_inflight c) key = Some r \<and> if_generation call = tombstone c key"
proof -
  from flight_okD(2) [OF assms(1), of t] assms(2) obtain call
    where call: "fmlookup (c_calls c) r = Some call" "\<not> if_ready call"
    by (auto simp: pc_calls_ok_def split: option.splits)
  from flight_okD(1) [OF assms(1) call(1)] call(2) obtain t' key'
    where "if_value call = None" "if_err call = None" "pc t' = CRun key' r"
      "if if_invalidated call then fmlookup (c_inflight c) key' \<noteq> Some r
       else fmlookup (c_inflight c) key' = Some r \<and> if_generation call = tombstone c key'"
    by (auto simp: call_ok_def)
  moreover from this flight_okD(3) [OF assms(1,2)] assms(2) have "key' = key" by fastforce
  ultimately show ?thesis using that call by blast
qed

lemma flight_frame:
  assumes "flight_ok c pc" "c_inflight c' = c_inflight c" "c_calls c' = c_calls c" "c_tombstones c' = c_tombstones c"
    "c_next c' = c_next c"
  shows "flight_ok c' pc"
proof -
  have "tombstone c' = tombstone c" by (rule ext) (simp only: tombstone_def assms(4))
  then have eq: "call_ok c' = call_ok c" "pc_calls_ok c' = pc_calls_ok c"
    by (intro ext; simp only: call_ok_def pc_calls_ok_def assms(2-))+
  show ?thesis using assms(1) unfolding flight_ok_def assms(2-) eq .
qed

lemma flight_pc:
  assumes "flight_ok c pc" "\<forall>key r. pc t \<noteq> CRun key r" "\<forall>key r. p \<noteq> CRun key r" "pc_calls_ok c p"
  shows "flight_ok c (pc(t := p))"
proof -
  have run: "(pc(t := p)) u = CRun key r \<longleftrightarrow> pc u = CRun key r" for u key r using assms(2,3) by auto
  have "call_ok c (pc(t := p)) = call_ok c pc" by (intro ext) (simp only: call_ok_def run)
  moreover have "\<forall>u. pc_calls_ok c ((pc(t := p)) u)" using flight_okD(2) [OF assms(1)] assms(4) by simp
  ultimately show ?thesis using assms(1) unfolding flight_ok_def run by simp
qed

lemma flight_idle:
  "\<lbrakk>flight_ok c pc; \<forall>key r. pc t \<noteq> CRun key r; p = CIdle \<or> p = CLoad key\<rbrakk> \<Longrightarrow> flight_ok c (\<lambda>u. if u = t then p else pc u)"
  unfolding fun_upd_def [symmetric] by (rule flight_pc) (auto simp: pc_calls_ok_def)

text \<open>\<^verbatim>\<open>Set\<close>, \<^verbatim>\<open>Delete\<close> and \<^verbatim>\<open>Clear\<close> take the calls of a set of keys out of the table.\<close>

lemma flight_owner_unique:
  assumes "flight_ok c pc" "fmlookup (c_inflight c) key = Some r" "fmlookup (c_inflight c) key' = Some r"
  shows "key = key'"
proof -
  obtain t t' where t: "pc t = CRun key r" "pc t' = CRun key' r"
    using flight_okD(4) [OF assms(1,2)] flight_okD(4) [OF assms(1,3)] by blast
  with flight_okD(3) [OF assms(1) t] show ?thesis by simp
qed

lemma call_ok_runI:
  assumes "r < c_next c" "\<not> if_ready call" "if_value call = None" "if_err call = None" "pc t = CRun key r"
    "if if_invalidated call then fmlookup (c_inflight c) key \<noteq> Some r
     else fmlookup (c_inflight c) key = Some r \<and> if_generation call = tombstone c key"
  shows "call_ok c pc r call"
  unfolding call_ok_def if_not_P [OF assms(2)] using assms by blast

lemma flight_invalidate:
  assumes ok: "flight_ok c pc"
    and infl: "\<And>key. fmlookup (c_inflight c') key = (if key \<in> K then None else fmlookup (c_inflight c) key)"
    and calls: "\<And>r. fmlookup (c_calls c') r =
      map_option (\<lambda>call. if \<exists>key \<in> K. fmlookup (c_inflight c) key = Some r then call\<lparr>if_invalidated := True\<rparr> else call) (fmlookup (c_calls c) r)"
    and tomb: "\<And>key. fmlookup (c_tombstones c') key =
      (if key \<in> K \<and> fmlookup (c_inflight c) key \<noteq> None then Some (tombstone c key + 1) else fmlookup (c_tombstones c) key)"
    and "next": "c_next c' = c_next c"
  shows "flight_ok c' pc"
proof -
  have tk: "key \<notin> K \<Longrightarrow> tombstone c' key = tombstone c key" for key by (simp add: tombstone_def tomb)
  have "call_ok c' pc r call'" if "fmlookup (c_calls c') r = Some call'" for r call'
  proof -
    define marked where "marked \<longleftrightarrow> (\<exists>key \<in> K. fmlookup (c_inflight c) key = Some r)"
    from that calls obtain call where call: "fmlookup (c_calls c) r = Some call"
      "call' = (if marked then call\<lparr>if_invalidated := True\<rparr> else call)" by (auto simp: marked_def)
    note old = flight_okD(1) [OF ok call(1)]
    show ?thesis
    proof (cases "if_ready call")
      case True
      then show ?thesis using old call(2) "next" by (auto simp: call_ok_def callResult_def)
    next
      case False
      then obtain t key where t: "pc t = CRun key r" "if_value call = None" "if_err call = None" "r < c_next c"
        using old by (auto simp: call_ok_def)
      from running_call [OF ok t(1)] call(1) have o: "if if_invalidated call then fmlookup (c_inflight c) key \<noteq> Some r
          else fmlookup (c_inflight c) key = Some r \<and> if_generation call = tombstone c key" by (metis option.inject)
      have "if if_invalidated call' then fmlookup (c_inflight c') key \<noteq> Some r
          else fmlookup (c_inflight c') key = Some r \<and> if_generation call' = tombstone c' key"
      proof (cases marked)
        case True
        then have "fmlookup (c_inflight c') key \<noteq> Some r"
          using flight_owner_unique [OF ok] by (auto simp: marked_def infl)
        with True call(2) show ?thesis by simp
      next
        case False
        then show ?thesis using call(2) o tk [of key] by (auto simp: infl marked_def split: if_splits)
      qed
      with t(1) show ?thesis
        by (rule call_ok_runI [rotated 4]) (use t False call(2) "next" in auto)
    qed
  qed
  moreover have "pc_calls_ok c' (pc t)" for t
    using flight_okD(2) [OF ok, of t]
    by (auto simp: pc_calls_ok_def calls split: cache_pc.splits option.splits)
  moreover have "\<exists>t call. pc t = CRun key r \<and> fmlookup (c_calls c') r = Some call \<and> \<not> if_invalidated call"
    if "fmlookup (c_inflight c') key = Some r" for key r
  proof -
    from that have k: "key \<notin> K" "fmlookup (c_inflight c) key = Some r" by (auto simp: infl split: if_splits)
    then have "\<not> (\<exists>key' \<in> K. fmlookup (c_inflight c) key' = Some r)" using flight_owner_unique [OF ok] by blast
    with flight_okD(4) [OF ok k(2)] show ?thesis by (auto simp: calls)
  qed
  moreover have "\<exists>t r. pc t = CRun key r" if "fmlookup (c_tombstones c') key \<noteq> None" for key
    using that flight_okD(4,5) [OF ok, of key] by (auto simp: tomb split: if_splits)
  ultimately show ?thesis using ok unfolding flight_ok_def by blast
qed

lemma detachCall_calls:
  "fmlookup (c_calls (detachCall c key)) r =
    map_option (\<lambda>call. if fmlookup (c_inflight c) key = Some r then call\<lparr>if_invalidated := True\<rparr> else call) (fmlookup (c_calls c) r)"
  by (cases "fmlookup (c_calls c) r") (auto simp: detachCall_def split: option.splits)

lemma flight_detach: "flight_ok c pc \<Longrightarrow> flight_ok (detachCall c key) pc"
  by (rule flight_invalidate [where c = c and K = "{key}"])
    (simp_all add: detachCall_calls, auto simp: detachCall_def split: option.splits)

lemma flight_clear: "flight_ok c pc \<Longrightarrow> flight_ok (ClearAll c) pc"
  by (rule flight_invalidate [where c = c and K = UNIV])
    (auto simp: ClearAll_def fmlookup_ran_iff option.map_ident split: option.splits)

text \<open>The two outcomes of a completing load: an invalidated one leaves entries and table alone and asks
  for another round, the owner of the key always publishes.\<close>

definition finished :: "('v, 'e) inflight \<Rightarrow> ('e, 'v) sum \<Rightarrow> ('v, 'e) inflight" where
  "finished call res = (case res of Inr v \<Rightarrow> call\<lparr>if_value := Some v, if_ready := True\<rparr> | Inl e \<Rightarrow> call\<lparr>if_err := Some e, if_ready := True\<rparr>)"

lemma loadFinish_stale:
  assumes "flight_ok c pc" "pc t = CRun key r" "fmlookup (c_calls c) r = Some call" "if_invalidated call"
  shows "fmlookup (c_inflight c) key \<noteq> Some r"
    and "loadFinish c key r res now = Some (LoadRetry,
      c\<lparr>c_tombstones := (if fmlookup (c_inflight c) key = None then fmdrop key (c_tombstones c) else c_tombstones c),
        c_calls := fmupd r (call\<lparr>if_ready := True\<rparr>) (c_calls c)\<rparr>)"
proof -
  show n: "fmlookup (c_inflight c) key \<noteq> Some r"
    by (rule running_call [OF assms(1,2)]) (use assms(3,4) in simp)
  show "loadFinish c key r res now = Some (LoadRetry,
      c\<lparr>c_tombstones := (if fmlookup (c_inflight c) key = None then fmdrop key (c_tombstones c) else c_tombstones c),
        c_calls := fmupd r (call\<lparr>if_ready := True\<rparr>) (c_calls c)\<rparr>)"
    using n assms(3,4) by (cases call) (auto simp: loadFinish_def callResult_def)
qed

lemma loadFinish_owner:
  assumes "flight_ok c pc" "pc t = CRun key r" "fmlookup (c_calls c) r = Some call" "\<not> if_invalidated call"
  shows "fmlookup (c_inflight c) key = Some r"
    and "loadFinish c key r res now = Some (case res of Inr v \<Rightarrow> LoadValue v | Inl e \<Rightarrow> LoadError e,
      (case res of Inr v \<Rightarrow> storeLocked c key v now | Inl e \<Rightarrow> c)
        \<lparr>c_inflight := fmdrop key (c_inflight c), c_tombstones := fmdrop key (c_tombstones c),
         c_calls := fmupd r (finished call res) (c_calls c)\<rparr>)"
proof -
  have o: "fmlookup (c_inflight c) key = Some r \<and> if_generation call = tombstone c key \<and> if_err call = None"
    by (rule running_call [OF assms(1,2)]) (use assms(3,4) in simp)
  then show "fmlookup (c_inflight c) key = Some r" ..
  show "loadFinish c key r res now = Some (case res of Inr v \<Rightarrow> LoadValue v | Inl e \<Rightarrow> LoadError e,
      (case res of Inr v \<Rightarrow> storeLocked c key v now | Inl e \<Rightarrow> c)
        \<lparr>c_inflight := fmdrop key (c_inflight c), c_tombstones := fmdrop key (c_tombstones c),
         c_calls := fmupd r (finished call res) (c_calls c)\<rparr>)"
    using o assms(3,4) by (cases res) (simp_all add: loadFinish_def callResult_def finished_def)
qed

lemma flight_finish:
  assumes ok: "flight_ok c pc" and run: "pc t = CRun key r" and fin: "loadFinish c key r res now = Some (lr, c')"
    and p: "p = CIdle \<or> p = CLoad key"
  shows "flight_ok c' (pc(t := p))"
proof -
  obtain call where call: "fmlookup (c_calls c) r = Some call" "\<not> if_ready call" "if_value call = None" "if_err call = None"
    by (rule running_call [OF ok run]) blast
  define call' where "call' = (if if_invalidated call then call\<lparr>if_ready := True\<rparr> else finished call res)"
  have "c_calls c' = fmupd r call' (c_calls c) \<and> c_next c' = c_next c \<and>
    c_inflight c' = (if if_invalidated call then c_inflight c else fmdrop key (c_inflight c)) \<and>
    c_tombstones c' = (if if_invalidated call \<and> fmlookup (c_inflight c) key \<noteq> None then c_tombstones c else fmdrop key (c_tombstones c))"
  proof (cases "if_invalidated call")
    case True
    from fin loadFinish_stale(2) [OF ok run call(1) True, of res now] True show ?thesis by (auto simp: call'_def)
  next
    case False
    from fin loadFinish_owner(2) [OF ok run call(1) False, of res now] False show ?thesis
      by (auto simp: call'_def split: sum.splits)
  qed
  then have c': "c_calls c' = fmupd r call' (c_calls c)" "c_next c' = c_next c"
    "c_inflight c' = (if if_invalidated call then c_inflight c else fmdrop key (c_inflight c))"
    "c_tombstones c' = (if if_invalidated call \<and> fmlookup (c_inflight c) key \<noteq> None then c_tombstones c else fmdrop key (c_tombstones c))"
    by blast+
  have infl: "fmlookup (c_inflight c') k = Some r' \<longleftrightarrow> fmlookup (c_inflight c) k = Some r' \<and> r' \<noteq> r" for k r'
  proof (cases "if_invalidated call")
    case True
    have "fmlookup (c_inflight c) k \<noteq> Some r"
      using flight_okD(4) [OF ok, of k r] True call(1) by auto
    with True show ?thesis by (auto simp: c')
  next
    case False
    have o: "fmlookup (c_inflight c) key = Some r" by (rule loadFinish_owner(1) [OF ok run call(1) False])
    have "key = k" if "fmlookup (c_inflight c) k = Some r" using flight_owner_unique [OF ok o that] .
    with False o show ?thesis by (cases "k = key") (auto simp: c')
  qed
  have runs: "(pc(t := p)) u = CRun k r' \<longleftrightarrow> pc u = CRun k r' \<and> u \<noteq> t" for u k r' using p by auto
  have other: "u \<noteq> t" if "pc u = CRun k r'" "r' \<noteq> r" for u k r' using that run by auto
  have tomb: "tombstone c' k = tombstone c k" if "fmlookup (c_inflight c) k = Some r'" "r' \<noteq> r" for k r'
    using that loadFinish_owner(1) [OF ok run call(1)] by (auto simp: tombstone_def c')
  have "call_ok c' (pc(t := p)) r' call2" if "fmlookup (c_calls c') r' = Some call2" for r' call2
  proof (cases "r' = r")
    case True
    then have "call2 = call'" using that by (simp add: c')
    moreover have "if_ready call' \<and> callResult call' \<noteq> None"
      using call by (auto simp: call'_def finished_def callResult_def split: sum.splits)
    ultimately show ?thesis using True flight_okD(1) [OF ok call(1)] by (simp add: call_ok_def c')
  next
    case False
    with that have old: "fmlookup (c_calls c) r' = Some call2" by (simp add: c')
    note o = flight_okD(1) [OF ok old]
    show ?thesis
    proof (cases "if_ready call2")
      case True
      with o show ?thesis by (simp add: call_ok_def c')
    next
      case nr: False
      then obtain u k where u: "pc u = CRun k r'" "r' < c_next c" "if_value call2 = None" "if_err call2 = None"
        "if if_invalidated call2 then fmlookup (c_inflight c) k \<noteq> Some r' else fmlookup (c_inflight c) k = Some r' \<and> if_generation call2 = tombstone c k"
        using o unfolding call_ok_def by (auto split: if_splits)
      from u(1) False have "(pc(t := p)) u = CRun k r'" by (simp add: runs other)
      then show ?thesis
        by (rule call_ok_runI [rotated 4]) (use u nr False tomb in \<open>auto simp: c'(2) infl split: if_splits\<close>)
    qed
  qed
  moreover have "pc_calls_ok c' ((pc(t := p)) u)" for u
  proof (cases "u = t")
    case False
    have "pc u \<noteq> CRun k r" for k using flight_okD(3) [OF ok run, of u k] False by blast
    then show ?thesis using False flight_okD(2) [OF ok, of u]
      by (auto simp: pc_calls_ok_def c' split: cache_pc.splits)
  qed (use p in \<open>auto simp: pc_calls_ok_def\<close>)
  moreover have "\<exists>u call2. (pc(t := p)) u = CRun k r' \<and> fmlookup (c_calls c') r' = Some call2 \<and> \<not> if_invalidated call2"
    if "fmlookup (c_inflight c') k = Some r'" for k r'
  proof -
    from that have k: "fmlookup (c_inflight c) k = Some r'" "r' \<noteq> r" unfolding infl by auto
    from flight_okD(4) [OF ok k(1)] obtain u call2
      where "pc u = CRun k r'" "fmlookup (c_calls c) r' = Some call2" "\<not> if_invalidated call2" by blast
    with k(2) other show ?thesis unfolding runs c'(1) by auto
  qed
  moreover have "\<exists>u r'. (pc(t := p)) u = CRun k r'" if k: "fmlookup (c_tombstones c') k \<noteq> None" for k
  proof (cases "k = key")
    case True
    with k have "if_invalidated call" "fmlookup (c_inflight c) key \<noteq> None" by (auto simp: c' split: if_splits)
    then obtain r' where "fmlookup (c_inflight c) key = Some r'" "r' \<noteq> r"
      using loadFinish_stale(1) [OF ok run call(1)] by auto
    then obtain u where "pc u = CRun key r'" "u \<noteq> t" using flight_okD(4) [OF ok, of key r'] other by blast
    then show ?thesis unfolding True runs by blast
  next
    case False
    with k obtain u r' where "pc u = CRun k r'" using flight_okD(5) [OF ok, of k] by (auto simp: c' split: if_splits)
    moreover from this False run have "u \<noteq> t" by auto
    ultimately show ?thesis unfolding runs by blast
  qed
  ultimately show ?thesis using flight_okD(3) [OF ok] unfolding flight_ok_def runs by blast
qed

lemma flight_begin:
  assumes ok: "flight_ok c pc" and pc: "pc t = CLoad key" and beg: "loadBegin c key now = (b, c')"
  shows "flight_ok c' (pc(t := (case b of BeginJoin r \<Rightarrow> CWait key r | BeginHit v \<Rightarrow> CIdle | BeginRun r \<Rightarrow> CRun key r)))"
proof (cases b)
  case (BeginJoin r)
  then have "c' = c" "fmlookup (c_inflight c) key = Some r"
    using beg by (auto simp: loadBegin_def Let_def split: option.splits)
  then show ?thesis using BeginJoin ok pc flight_okD(4) [OF ok, of key r]
    by (auto intro!: flight_pc simp: pc_calls_ok_def)
next
  case (BeginHit v)
  then have "c' = c" using beg by (auto simp: loadBegin_def Let_def split: option.splits)
  then show ?thesis using BeginHit ok pc by (auto intro!: flight_pc simp: pc_calls_ok_def)
next
  case (BeginRun r)
  define call :: "('b, 'c) inflight" where
    "call = \<lparr>if_ready = False, if_value = None, if_err = None, if_generation = tombstone c key, if_invalidated = False\<rparr>"
  have r: "r = c_next c" and c': "c_inflight c' = fmupd key r (c_inflight c)" "c_calls c' = fmupd r call (c_calls c)"
    "c_next c' = Suc r" "c_tombstones c' = c_tombstones c" and free: "fmlookup (c_inflight c) key = None"
    using beg BeginRun by (auto simp: loadBegin_def Let_def call_def split: option.splits)
  have fresh: "fmlookup (c_calls c) r = None"
    using flight_okD(1) [OF ok, of r] by (cases "fmlookup (c_calls c) r") (auto simp: call_ok_def r)
  let ?pc = "pc(t := CRun key r)"
  have notr: "pc u \<noteq> CRun k r" for u k using flight_okD(2) [OF ok, of u] fresh by (auto simp: pc_calls_ok_def)
  have runs: "?pc u = CRun k r' \<longleftrightarrow> (if u = t then k = key \<and> r' = r else pc u = CRun k r')" for u k r' by auto
  have other: "?pc u = CRun k r'" if "pc u = CRun k r'" for u k r' using that pc by auto
  have tomb: "tombstone c' = tombstone c" by (rule ext) (simp add: tombstone_def c')
  have "call_ok c' ?pc r' call2" if "fmlookup (c_calls c') r' = Some call2" for r' call2
  proof (cases "r' = r")
    case True
    then have "call2 = call" using that by (simp add: c')
    then show ?thesis unfolding True by (intro call_ok_runI [where t = t and key = key]) (simp_all add: call_def c' tomb)
  next
    case False
    with that have old: "fmlookup (c_calls c) r' = Some call2" by (simp add: c')
    note o = flight_okD(1) [OF ok old]
    show ?thesis
    proof (cases "if_ready call2")
      case True
      with o show ?thesis by (simp add: call_ok_def c' r)
    next
      case nr: False
      then obtain u k where u: "pc u = CRun k r'" "r' < c_next c" "if_value call2 = None" "if_err call2 = None"
        "if if_invalidated call2 then fmlookup (c_inflight c) k \<noteq> Some r' else fmlookup (c_inflight c) k = Some r' \<and> if_generation call2 = tombstone c k"
        using o unfolding call_ok_def by (auto split: if_splits)
      have "fmlookup (c_inflight c') k = Some r' \<longleftrightarrow> fmlookup (c_inflight c) k = Some r'"
        using free False by (auto simp: c')
      with u nr other [OF u(1)] show ?thesis by (intro call_ok_runI [where t = u and key = k]) (simp_all add: c'(3) r tomb)
    qed
  qed
  moreover have "pc_calls_ok c' (?pc u)" for u
    using flight_okD(2) [OF ok, of u] notr [of u] by (auto simp: pc_calls_ok_def c' call_def split: cache_pc.splits)
  moreover have "u = u'" if "?pc u = CRun k r'" "?pc u' = CRun k' r'" for u u' k k' r'
    using that notr flight_okD(3) [OF ok, of u k r' u' k'] unfolding runs by (auto split: if_splits)
  moreover have "\<exists>u call2. ?pc u = CRun k r' \<and> fmlookup (c_calls c') r' = Some call2 \<and> \<not> if_invalidated call2"
    if i: "fmlookup (c_inflight c') k = Some r'" for k r'
  proof (cases "k = key")
    case True
    with i show ?thesis by (intro exI [of _ t] exI [of _ call]) (auto simp: c' call_def)
  next
    case False
    with i have "fmlookup (c_inflight c) k = Some r'" by (simp add: c')
    from flight_okD(4) [OF ok this] obtain u call2
      where u: "pc u = CRun k r'" "fmlookup (c_calls c) r' = Some call2" "\<not> if_invalidated call2" by blast
    have "r' \<noteq> r" using u(2) fresh by auto
    with u other [OF u(1)] show ?thesis unfolding c'(2) by (intro exI [of _ u] exI [of _ call2]) simp
  qed
  moreover have "\<exists>u r'. ?pc u = CRun k r'" if "fmlookup (c_tombstones c') k \<noteq> None" for k
    using that flight_okD(5) [OF ok, of k] other unfolding c'(4) by blast
  ultimately have "flight_ok c' ?pc" unfolding flight_ok_def by blast
  then show ?thesis unfolding BeginRun by simp
qed

lemma cache_step_flight_ok:
  assumes "cache_step s s'" "flight_ok (cs_cache s) (cs_pc s)"
  shows "flight_ok (cs_cache s') (cs_pc s')"
  using assms
proof (induction rule: cache_step.induct)
  case (S_Get s t key now g c')
  have "flight_ok c' (cs_pc s)"
    using S_Get by (intro flight_frame [OF S_Get(3)]) (auto simp: GetCounted_def split: option.splits if_splits)
  then show ?case using S_Get(1) by (auto intro!: flight_idle [where key = key] simp: fun_upd_def split: get_result.splits)
next
  case (S_Begin s t key now b c')
  from flight_begin [OF S_Begin(3,1,2)] show ?case by (simp add: fun_upd_def)
next
  case (S_Finish s t key r res now lr c')
  have "after_load key lr = CIdle \<or> after_load key lr = CLoad key"
    by (simp add: after_load_def split: load_result.splits)
  from flight_finish [OF S_Finish(3,1,2) this] show ?case by (simp add: fun_upd_def)
next
  case (S_Wake s t key r lr)
  then show ?case by (auto intro!: flight_idle [where key = key] simp: fun_upd_def after_load_def split: load_result.splits)
next
  case (S_Cancel s t key r)
  then show ?case by (auto intro!: flight_idle [where key = key] simp: fun_upd_def)
next
  case (S_Set s key v now)
  from flight_detach [OF S_Set, of key] show ?case
    unfolding SetEntry_def by (auto elim: flight_frame)
next
  case (S_Delete s key)
  from flight_detach [OF S_Delete, of key] show ?case
    unfolding DeleteEntry_def by (auto simp: Let_def elim: flight_frame)
next
  case (S_Clear s)
  from flight_clear [OF S_Clear] show ?case by simp
next
  case (S_Purge s key now)
  then show ?case by (auto simp: get_purge_def elim!: flight_frame split: option.splits)
qed (auto simp: DeleteExpired_def SnapshotEntries_def purgeExpiredLocked_def Let_def elim: flight_frame)

lemma cache_step_config: "cache_step s s' \<Longrightarrow> c_maxSize (cs_cache s') = c_maxSize (cs_cache s) \<and> c_ttl (cs_cache s') = c_ttl (cs_cache s)"
proof (induction rule: cache_step.induct)
  case (S_Begin s t key now b c')
  then show ?case by (auto simp: loadBegin_def Let_def split: option.splits)
next
  case (S_Finish s t key r res now lr c')
  then show ?case by (auto simp: loadFinish_def Let_def split: option.splits sum.splits if_splits)
qed (auto simp: GetCounted_def get_purge_def SetEntry_def DeleteEntry_def ClearAll_def DeleteExpired_def SnapshotEntries_def
    purgeExpiredLocked_def Let_def split: option.splits if_splits)

lemma cache_reach:
  assumes "cache_step\<^sup>*\<^sup>* (cache_start ttl l m) s"
  shows "cache_ok (cs_cache s)" "flight_ok (cs_cache s) (cs_pc s)" "c_maxSize (cs_cache s) = m"
proof -
  have "cache_ok (cs_cache s) \<and> flight_ok (cs_cache s) (cs_pc s) \<and> c_maxSize (cs_cache s) = m"
    using assms
  proof (induction rule: rtranclp_induct)
    case base
    then show ?case by (simp add: NewCache_def cache_ok_def flight_ok_def pc_calls_ok_def)
  next
    case (step s s')
    then show ?case using cache_step_entries_ok cache_step_flight_ok cache_step_config by metis
  qed
  then show "cache_ok (cs_cache s)" "flight_ok (cs_cache s) (cs_pc s)" "c_maxSize (cs_cache s) = m" by auto
qed

text \<open>A call stays invalidated.\<close>

definition dead_call :: "('k, 'v, 'e) Cache \<Rightarrow> callref \<Rightarrow> bool" where
  "dead_call c r = (case fmlookup (c_calls c) r of None \<Rightarrow> False | Some call \<Rightarrow> if_invalidated call)"

lemma detachCall_dead: "dead_call c r \<Longrightarrow> dead_call (detachCall c key) r"
  by (auto simp: dead_call_def detachCall_calls split: option.splits)

lemma dead_frame: "dead_call c r \<Longrightarrow> c_calls c' = c_calls c \<Longrightarrow> dead_call c' r"
  by (simp add: dead_call_def)

lemma dead_step:
  assumes "cache_step s s'" "flight_ok (cs_cache s) (cs_pc s)" "dead_call (cs_cache s) r"
  shows "dead_call (cs_cache s') r"
  using assms
proof (induction rule: cache_step.induct)
  case (S_Begin s t key now b c')
  obtain call where call: "fmlookup (c_calls (cs_cache s)) r = Some call" "if_invalidated call"
    using S_Begin(4) by (auto simp: dead_call_def split: option.splits)
  then have "r < c_next (cs_cache s)" using flight_okD(1) [OF S_Begin(3) call(1)] by (simp add: call_ok_def)
  with S_Begin(2) call show ?case by (auto simp: loadBegin_def Let_def dead_call_def split: option.splits)
next
  case (S_Finish s t key r' res now lr c')
  then show ?case by (auto simp: loadFinish_def Let_def dead_call_def split: option.splits sum.splits if_splits)
next
  case (S_Set s key v now)
  then show ?case by (auto simp: SetEntry_def intro: dead_frame [OF detachCall_dead])
next
  case (S_Delete s key)
  then show ?case by (auto simp: DeleteEntry_def Let_def intro: dead_frame [OF detachCall_dead])
next
  case (S_Clear s)
  then show ?case by (auto simp: ClearAll_def dead_call_def split: option.splits)
qed (auto simp: GetCounted_def get_purge_def DeleteExpired_def SnapshotEntries_def purgeExpiredLocked_def Let_def
    elim!: dead_frame split: option.splits if_splits)

lemma dead_steps:
  assumes "cache_step\<^sup>*\<^sup>* s s'" "flight_ok (cs_cache s) (cs_pc s)" "dead_call (cs_cache s) r"
  shows "flight_ok (cs_cache s') (cs_pc s') \<and> dead_call (cs_cache s') r"
  using assms(1)
proof (induction rule: rtranclp_induct)
  case base
  then show ?case using assms(2,3) by simp
next
  case (step s s')
  then show ?case using cache_step_flight_ok dead_step by metis
qed

text \<open>The operations that invalidate a key.\<close>

inductive invalidates :: "'k \<Rightarrow> ('k, 'v, 'e) cache_sys \<Rightarrow> ('k, 'v, 'e) cache_sys \<Rightarrow> bool" for key where
  "invalidates key s (s\<lparr>cs_cache := SetEntry (cs_cache s) key v now\<rparr>)"
| "invalidates key s (s\<lparr>cs_cache := DeleteEntry (cs_cache s) key\<rparr>)"
| "invalidates key s (s\<lparr>cs_cache := ClearAll (cs_cache s)\<rparr>)"

lemma invalidates_step: "invalidates key s s' \<Longrightarrow> cache_step s s'"
  by (induction rule: invalidates.induct) (auto intro: cache_step.intros)

lemma invalidates_free: "invalidates key s s' \<Longrightarrow> cs_pc s' = cs_pc s \<and> fmlookup (c_inflight (cs_cache s')) key = None"
  by (induction rule: invalidates.induct)
    (auto simp: SetEntry_def DeleteEntry_def ClearAll_def detachCall_def Let_def split: option.splits)

lemma dead_wake: "dead_call c r \<Longrightarrow> loadWake c r = None \<or> loadWake c r = Some LoadRetry"
  by (auto simp: dead_call_def loadWake_def split: option.splits)

lemma dead_unreachable: "flight_ok c pc \<Longrightarrow> dead_call c r \<Longrightarrow> fmlookup (c_inflight c) k \<noteq> Some r"
  using flight_okD(4) by (fastforce simp: dead_call_def)

text \<open>C24. No stale result: when \<^verbatim>\<open>Set\<close>, \<^verbatim>\<open>Delete\<close> or \<^verbatim>\<open>Clear\<close> touches a key while a goroutine runs the
  loader for it, then in every state the goroutines can reach from there: if that loader still runs, its
  completion stores nothing and sends the goroutine back to look again; a goroutine that waits on the call is
  woken with the order to look again and never with the call's value or error; and no key of the table
  leads to the call, so no later caller joins it.\<close>

theorem cache_no_stale_publish:
  assumes "cache_step\<^sup>*\<^sup>* (cache_start ttl l m) s" and "cs_pc s t = CRun key r"
    and "invalidates key s s1" and "cache_step\<^sup>*\<^sup>* s1 s2"
  shows "(cs_pc s2 t = CRun key r \<longrightarrow>
      (\<exists>c'. loadFinish (cs_cache s2) key r res now = Some (LoadRetry, c') \<and>
         c_entries c' = c_entries (cs_cache s2) \<and> c_order c' = c_order (cs_cache s2))) \<and>
    (\<forall>lr. loadWake (cs_cache s2) r = Some lr \<longrightarrow> lr = LoadRetry) \<and>
    (\<forall>k. fmlookup (c_inflight (cs_cache s2)) k \<noteq> Some r)"
proof -
  have ok1: "flight_ok (cs_cache s1) (cs_pc s1)"
    using cache_step_flight_ok [OF invalidates_step [OF assms(3)] cache_reach(2) [OF assms(1)]] .
  have run1: "cs_pc s1 t = CRun key r" and free: "fmlookup (c_inflight (cs_cache s1)) key = None"
    using invalidates_free [OF assms(3)] assms(2) by auto
  have "dead_call (cs_cache s1) r"
    by (rule running_call [OF ok1 run1]) (use free in \<open>auto simp: dead_call_def split: if_splits\<close>)
  with dead_steps [OF assms(4) ok1] have ok2: "flight_ok (cs_cache s2) (cs_pc s2)"
    and dead: "dead_call (cs_cache s2) r" by auto
  then obtain call where call: "fmlookup (c_calls (cs_cache s2)) r = Some call" "if_invalidated call"
    by (auto simp: dead_call_def split: option.splits)
  show ?thesis using loadFinish_stale(2) [OF ok2 _ call] dead_wake [OF dead] dead_unreachable [OF ok2 dead] by auto
qed

definition demo_loading :: "(nat, nat, nat) cache_sys" where
  "demo_loading = \<lparr>cs_cache = (NewCache 60 True 2)\<lparr>c_inflight := fmupd 7 0 fmempty,
       c_calls := fmupd 0 \<lparr>if_ready = False, if_value = None, if_err = None, if_generation = 0, if_invalidated = False\<rparr> fmempty,
       c_next := 1, c_misses := 1\<rparr>,
     cs_pc = (\<lambda>_. CIdle)(0 := CLoad 7, 0 := CRun 7 0)\<rparr>"

lemma demo_loading_reach: "cache_step\<^sup>*\<^sup>* (cache_start 60 True 2) demo_loading"
proof -
  let ?s = "\<lparr>cs_cache = (NewCache 60 True 2)\<lparr>c_misses := 1\<rparr>, cs_pc = (\<lambda>_. CIdle)(0 := CLoad 7)\<rparr> :: (nat, nat, nat) cache_sys"
  have "cache_step (cache_start 60 True 2) ?s"
    using S_Get [of "cache_start 60 True 2" 0 7 0 GetLoad "(NewCache 60 True 2)\<lparr>c_misses := 1\<rparr>"]
    by (simp add: GetCounted_def get_read_def NewCache_def)
  moreover have "cache_step ?s demo_loading"
    using S_Begin [of ?s 0 7 0 "BeginRun 0" "cs_cache demo_loading"]
    by (simp add: loadBegin_def get_read_def NewCache_def demo_loading_def tombstone_def)
  ultimately show ?thesis by (meson converse_rtranclp_into_rtranclp rtranclp.rtrancl_refl)
qed

text \<open>A second goroutine joins the load, the key is deleted, and the loader returns 5.\<close>

definition demo_waiting :: "(nat, nat, nat) cache_sys" where
  "demo_waiting = \<lparr>cs_cache = (cs_cache demo_loading)\<lparr>c_misses := 2\<rparr>, cs_pc = (cs_pc demo_loading)(1 := CLoad 7, 1 := CWait 7 0)\<rparr>"

lemma demo_waiting_reach: "cache_step\<^sup>*\<^sup>* (cache_start 60 True 2) demo_waiting"
proof -
  let ?s = "\<lparr>cs_cache = (cs_cache demo_loading)\<lparr>c_misses := 2\<rparr>, cs_pc = (cs_pc demo_loading)(1 := CLoad 7)\<rparr>"
  have "cache_step demo_loading ?s"
    using S_Get [of demo_loading 1 7 0 GetLoad "(cs_cache demo_loading)\<lparr>c_misses := 2\<rparr>"]
    by (simp add: GetCounted_def get_read_def NewCache_def demo_loading_def)
  moreover have "cache_step ?s demo_waiting"
    using S_Begin [of ?s 1 7 0 "BeginJoin 0" "cs_cache demo_waiting"]
    by (simp add: loadBegin_def demo_loading_def demo_waiting_def)
  ultimately show ?thesis using demo_loading_reach by (meson rtranclp.rtrancl_into_rtrancl)
qed

theorem cache_no_stale_publish_witness:
  "\<exists>c'. loadFinish (DeleteEntry (cs_cache demo_waiting) 7) 7 0 (Inr 5) 3 = Some (LoadRetry, c') \<and>
    c_entries c' = c_entries (DeleteEntry (cs_cache demo_waiting) 7) \<and> cs_pc demo_waiting 1 = CWait 7 0 \<and> loadWake c' 0 = Some LoadRetry"
proof -
  let ?s1 = "demo_waiting\<lparr>cs_cache := DeleteEntry (cs_cache demo_waiting) 7\<rparr>"
  have inv: "invalidates 7 demo_waiting ?s1" by (rule invalidates.intros)
  have run: "cs_pc demo_waiting 0 = CRun 7 0" "cs_pc ?s1 0 = CRun 7 0" "cs_pc demo_waiting 1 = CWait 7 0"
    by (simp_all add: demo_waiting_def demo_loading_def)
  note stale = cache_no_stale_publish [OF demo_waiting_reach run(1) inv]
  obtain c' where fin: "loadFinish (DeleteEntry (cs_cache demo_waiting) 7) 7 0 (Inr 5) 3 = Some (LoadRetry, c')"
    "c_entries c' = c_entries (DeleteEntry (cs_cache demo_waiting) 7)"
    using stale [OF rtranclp.rtrancl_refl, of "Inr 5" 3] run(2) by auto
  have "cache_step ?s1 \<lparr>cs_cache = c', cs_pc = (cs_pc ?s1)(0 := CLoad 7)\<rparr>"
    using S_Finish [OF run(2), of "Inr 5" 3 LoadRetry c'] fin(1) by (simp add: after_load_def)
  from stale [OF r_into_rtranclp [of cache_step, OF this]] have "\<forall>lr. loadWake c' 0 = Some lr \<longrightarrow> lr = LoadRetry" by simp
  moreover have "loadWake c' 0 \<noteq> None"
    using fin(1) by (auto simp: loadFinish_def loadWake_def callResult_def Let_def demo_waiting_def demo_loading_def NewCache_def DeleteEntry_def
        detachCall_def split: if_splits option.splits)
  ultimately show ?thesis using fin run(3) by auto
qed

lemma live_owner:
  assumes "flight_ok c pc" "pc t = CRun key r" "\<not> dead_call c r"
  shows "fmlookup (c_inflight c) key = Some r"
    and "\<exists>c'. loadFinish c key r (Inr v) now = Some (LoadValue v, c') \<and> c_entries c' = c_entries (storeLocked c key v now)"
proof -
  obtain call where call: "fmlookup (c_calls c) r = Some call" "\<not> if_invalidated call"
    by (rule running_call [OF assms(1,2)]) (use assms(3) in \<open>auto simp: dead_call_def\<close>)
  show "fmlookup (c_inflight c) key = Some r" by (rule loadFinish_owner(1) [OF assms(1,2) call])
  show "\<exists>c'. loadFinish c key r (Inr v) now = Some (LoadValue v, c') \<and> c_entries c' = c_entries (storeLocked c key v now)"
    using loadFinish_owner(2) [OF assms(1,2) call, of "Inr v" now] by simp
qed

text \<open>Coalesced loads: in every reachable state at most one goroutine runs a loader that still owns a
  key; a goroutine waiting on a call will be released, because the call is completed with a result or
  some goroutine still runs it; a running call can always complete, and if it was not invalidated it
  hands its value to the caller, and to every later read before the deadline; and a tombstone is kept
  only while some load of its key runs, so the table does not grow.\<close>

theorem cache_singleflight:
  assumes "cache_step\<^sup>*\<^sup>* (cache_start ttl l m) s"
  shows "(\<forall>t t' key r r'. cs_pc s t = CRun key r \<and> cs_pc s t' = CRun key r' \<and> \<not> dead_call (cs_cache s) r \<and>
            \<not> dead_call (cs_cache s) r' \<longrightarrow> t = t') \<and>
    (\<forall>t key r. cs_pc s t = CWait key r \<longrightarrow>
       (\<exists>call. fmlookup (c_calls (cs_cache s)) r = Some call \<and>
          (if if_ready call then callResult call \<noteq> None else \<exists>t' key'. cs_pc s t' = CRun key' r))) \<and>
    (\<forall>t key r v now now'. cs_pc s t = CRun key r \<and> \<not> dead_call (cs_cache s) r \<and> (now' < now + c_ttl (cs_cache s) \<or> c_ttl (cs_cache s) \<le> 0) \<longrightarrow>
       (\<exists>c'. loadFinish (cs_cache s) key r (Inr v) now = Some (LoadValue v, c') \<and> get_read c' key now' = Some v)) \<and>
    (\<forall>key. fmlookup (c_tombstones (cs_cache s)) key \<noteq> None \<longrightarrow> (\<exists>t r. cs_pc s t = CRun key r))"
proof (intro conjI allI impI; (elim conjE)?)
  note ok = cache_reach(2) [OF assms]
  show "t = t'" if "cs_pc s t = CRun key r" "cs_pc s t' = CRun key r'" "\<not> dead_call (cs_cache s) r" "\<not> dead_call (cs_cache s) r'"
    for t t' key r r'
    using live_owner(1) [OF ok that(1,3)] live_owner(1) [OF ok that(2,4)] flight_okD(3) [OF ok that(1)] that(2) by simp
  show "\<exists>call. fmlookup (c_calls (cs_cache s)) r = Some call \<and>
      (if if_ready call then callResult call \<noteq> None else \<exists>t' key'. cs_pc s t' = CRun key' r)"
    if wait: "cs_pc s t = CWait key r" for t key r
  proof -
    obtain call where call: "fmlookup (c_calls (cs_cache s)) r = Some call"
      using flight_okD(2) [OF ok, of t] wait by (auto simp: pc_calls_ok_def)
    from flight_okD(1) [OF ok call] show ?thesis
      by (cases "if_ready call") (auto simp: call_ok_def call)
  qed
  show "\<exists>c'. loadFinish (cs_cache s) key r (Inr v) now = Some (LoadValue v, c') \<and> get_read c' key now' = Some v"
    if "cs_pc s t = CRun key r" "\<not> dead_call (cs_cache s) r" "now' < now + c_ttl (cs_cache s) \<or> c_ttl (cs_cache s) \<le> 0"
    for t key r v now now'
    using live_owner(2) [OF ok that(1,2), of v now] that(3)
    by (auto simp: get_read_def storeLocked_def Let_def expiredEntry_def deadlineAt_def)
  show "\<exists>t r. cs_pc s t = CRun key r" if "fmlookup (c_tombstones (cs_cache s)) key \<noteq> None" for key
    using flight_okD(5) [OF ok that] .
qed

theorem cache_singleflight_witness:
  "\<exists>c'. loadFinish (cs_cache demo_loading) 7 0 (Inr 5) 3 = Some (LoadValue 5, c') \<and> get_read c' 7 62 = Some 5"
  using cache_singleflight [OF demo_loading_reach, THEN conjunct2, THEN conjunct2, THEN conjunct1,
      THEN spec [of _ 0], THEN spec [of _ 7], THEN spec [of _ 0], THEN spec [of _ 5], THEN spec [of _ 3], THEN spec [of _ 62]]
  by (simp add: demo_loading_def dead_call_def NewCache_def)

text \<open>The entries form a bounded FIFO table: in every reachable state the insertion order lists each
  cached key once and nothing else, and a positive size limit bounds the number of entries.  A \<^verbatim>\<open>Set\<close>
  makes the value readable until its deadline and evicts, when a new key exceeds the limit, exactly the
  oldest key; every other key reads as before.  A \<^verbatim>\<open>Delete\<close> removes its key and no other.\<close>

theorem cache_contents:
  assumes "cache_step\<^sup>*\<^sup>* (cache_start ttl l m) s"
  shows "let c = cs_cache s in
    distinct (c_order c) \<and> set (c_order c) = fset (fmdom (c_entries c)) \<and> (m > 0 \<longrightarrow> int (LenEntries c) \<le> m) \<and>
    get_read (SetEntry c key v now) key' now' =
      (if key' = key then if c_ttl c > 0 \<and> now + c_ttl c \<le> now' then None else Some v
       else if key \<notin> set (c_order c) \<and> m > 0 \<and> int (LenEntries c) = m \<and> key' = hd (c_order c) then None
       else get_read c key' now') \<and>
    get_read (DeleteEntry c key) key' now' = (if key' = key then None else get_read c key' now')"
proof -
  define c where "c = cs_cache s"
  have ok: "cache_ok c" and m: "c_maxSize c = m" using cache_reach [OF assms] by (auto simp: c_def)
  have len: "LenEntries c = length (c_order c)" unfolding LenEntries_def using ok by (rule cache_ok_len)
  have full: "int (length (c_order c @ [key])) > c_maxSize c \<longleftrightarrow> int (LenEntries c) = m" if "m > 0"
    using ok m that len by (auto simp: cache_ok_def)
  have hd: "hd (c_order c @ [key]) = hd (c_order c)" if "m > 0" "int (LenEntries c) = m"
    using that len by (cases "c_order c") auto
  have "get_read (SetEntry c key v now) key' now' =
      (if key' = key then if c_ttl c > 0 \<and> now + c_ttl c \<le> now' then None else Some v
       else if key \<notin> set (c_order c) \<and> m > 0 \<and> int (LenEntries c) = m \<and> key' = hd (c_order c) then None
       else get_read c key' now')"
  proof (cases "key \<in> set (c_order c)")
    case True
    then have "fmlookup (c_entries c) key \<noteq> None" using cache_ok_mem [OF ok] by blast
    with True show ?thesis
      by (auto simp: SetEntry_def storeLocked_def get_read_def expiredEntry_def deadlineAt_def Let_def)
  next
    case False
    then have "fmlookup (c_entries c) key = None" using cache_ok_mem [OF ok] by blast
    with False show ?thesis using full hd m
      by (auto simp: SetEntry_def storeLocked_def get_read_def expiredEntry_def deadlineAt_def Let_def)
  qed
  moreover have "get_read (DeleteEntry c key) key' now' = (if key' = key then None else get_read c key' now')"
    by (auto simp: DeleteEntry_def get_read_def Let_def)
  ultimately show ?thesis using ok m len unfolding Let_def c_def [symmetric] by (auto simp: cache_ok_def)
qed

theorem cache_contents_witness:
  "let c = cs_cache demo_loading in get_read (SetEntry c 1 9 0) 1 59 = Some 9 \<and> get_read (DeleteEntry c 7) 7 0 = None"
  using cache_contents [OF demo_loading_reach, of 1 9 0 1 59] cache_contents [OF demo_loading_reach, of 7 0 0 7 0]
  by (simp add: Let_def demo_loading_def NewCache_def)

end
