(* ===== verification/Text.thy ===== *)
theory Text
  imports Prelude "HOL-Library.List_Lexorder" "HOL-Library.Char_ord"
begin

text \<open>
  Strings as the realtime packages use them: decimal text of identifiers (\<^verbatim>\<open>strconv.FormatInt\<close>,
  \<^verbatim>\<open>FormatUint\<close>, \<^verbatim>\<open>ParseInt\<close>, \<^verbatim>\<open>ParseUint\<close> in base 10), lowercase hexadecimal, the order of strings, and
  lists sorted by a key.  A Go string is a list of bytes, here \<open>char list\<close>; \<^verbatim>\<open><\<close> on strings is the
  lexicographic order of the bytes, the instance of the library.
\<close>

section \<open>Definitions\<close>

definition digit :: "nat \<Rightarrow> char" where
  "digit n = char_of (48 + n)"

definition digit_value :: "char \<Rightarrow> nat option" where
  "digit_value ch = (let n = of_char ch in if 48 \<le> n \<and> n \<le> 57 then Some (n - 48) else None)"

fun decimal :: "nat \<Rightarrow> string" where
  "decimal n = (if n < 10 then [digit n] else decimal (n div 10) @ [digit (n mod 10)])"

declare decimal.simps [simp del]

definition FormatUint :: "uint64 \<Rightarrow> string" where
  "FormatUint w = decimal (unat w)"

definition FormatInt :: "int64 \<Rightarrow> string" where
  "FormatInt w = (if sint w < 0 then ''-'' @ decimal (nat (- sint w)) else decimal (nat (sint w)))"

fun parse_digits :: "nat \<Rightarrow> string \<Rightarrow> nat option" where
  "parse_digits acc [] = Some acc"
| "parse_digits acc (ch # s) = (case digit_value ch of None \<Rightarrow> None | Some d \<Rightarrow> parse_digits (10 * acc + d) s)"

definition ParseUint :: "string \<Rightarrow> uint64 option" where
  "ParseUint s = (if s = [] then None
     else case parse_digits 0 s of None \<Rightarrow> None | Some n \<Rightarrow> if n < 2 ^ 64 then Some (of_nat n) else None)"

definition ParseInt :: "string \<Rightarrow> int64 option" where
  "ParseInt s =
     (let neg = (s \<noteq> [] \<and> hd s = CHR ''-''); body = (if s \<noteq> [] \<and> (hd s = CHR ''-'' \<or> hd s = CHR ''+'') then tl s else s)
      in if body = [] then None
         else case parse_digits 0 body of None \<Rightarrow> None
              | Some n \<Rightarrow> if neg then (if n \<le> 2 ^ 63 then Some (- of_nat n) else None)
                          else (if n < 2 ^ 63 then Some (of_nat n) else None))"

text \<open>\<^verbatim>\<open>fmt.Sprintf("%x", id)\<close> and \<^verbatim>\<open>hex.EncodeToString\<close> of 16 bytes: two lowercase digits a byte.\<close>

definition hex_digit :: "nat \<Rightarrow> char" where
  "hex_digit n = (if n < 10 then char_of (48 + n) else char_of (87 + n))"

fun hex_string :: "bytes \<Rightarrow> string" where
  "hex_string [] = []"
| "hex_string (b # bs) = hex_digit (unat b div 16) # hex_digit (unat b mod 16) # hex_string bs"

definition hex_id :: "id16 \<Rightarrow> string" where
  "hex_id w = hex_string (be_bytes 16 w)"

text \<open>Slices sorted by a key that is unique in them, and the keys of a Go map in ascending order.\<close>

definition sort_by :: "('a \<Rightarrow> 'k::linorder) \<Rightarrow> 'a list \<Rightarrow> 'a list" where
  "sort_by f xs = sort_key f xs"

definition sortedIntKeys :: "(int64, 'v) fmap \<Rightarrow> int64 list" where
  "sortedIntKeys m = sort_by sint (sorted_list_of_fset (fmdom m))"

definition map_values :: "('k::linorder, 'v) fmap \<Rightarrow> 'v list" where
  "map_values m = map (\<lambda>k. the (fmlookup m k)) (sorted_list_of_fset (fmdom m))"

section \<open>Theorems\<close>

lemma digit_value_digit [simp]: "n < 10 \<Longrightarrow> digit_value (digit n) = Some n"
  by (simp add: digit_value_def digit_def)

lemma decimal_small: "n < 10 \<Longrightarrow> decimal n = [digit n]"
  by (subst decimal.simps) simp

lemma decimal_nonempty [simp]: "decimal n \<noteq> []"
  by (subst decimal.simps) simp

lemma parse_digits_append:
  "parse_digits acc (s @ t) = (case parse_digits acc s of None \<Rightarrow> None | Some a \<Rightarrow> parse_digits a t)"
  by (induction s arbitrary: acc) (auto split: option.splits)

lemma parse_decimal: "parse_digits 0 (decimal n) = Some n"
proof (induction n rule: decimal.induct)
  case (1 n)
  show ?case
  proof (cases "n < 10")
    case True
    then show ?thesis by (simp add: decimal_small)
  next
    case False
    with 1 have "parse_digits 0 (decimal (n div 10)) = Some (n div 10)" by simp
    then show ?thesis unfolding decimal.simps [of n] using False by (simp add: parse_digits_append)
  qed
qed

lemma decimal_inj: "decimal m = decimal n \<Longrightarrow> m = n"
  by (metis option.inject parse_decimal)

lemma parse_digits_all: "parse_digits acc s = Some n \<Longrightarrow> list_all (\<lambda>ch. digit_value ch \<noteq> None) s"
  by (induction s arbitrary: acc) (auto split: option.splits)

lemma decimal_digits: "ch \<in> set (decimal n) \<Longrightarrow> digit_value ch \<noteq> None"
  using parse_digits_all [OF parse_decimal, of n] by (auto simp: list_all_iff)

lemma length_decimal: "n < 10 ^ k \<Longrightarrow> 0 < k \<Longrightarrow> length (decimal n) \<le> k"
proof (induction k arbitrary: n)
  case (Suc k)
  show ?case
  proof (cases "n < 10")
    case True
    then show ?thesis by (simp add: decimal_small)
  next
    case False
    then have "k \<noteq> 0" using Suc.prems by (cases k) auto
    moreover have "n div 10 < 10 ^ k" using Suc.prems by (simp add: less_mult_imp_div_less mult.commute)
    ultimately have "length (decimal (n div 10)) \<le> k" using Suc.IH by simp
    then show ?thesis unfolding decimal.simps [of n] using False by simp
  qed
qed simp

lemma FormatUint_inj: "FormatUint a = FormatUint b \<Longrightarrow> a = b"
  by (simp add: FormatUint_def) (metis decimal_inj word_unat_eq_iff)

lemma ParseUint_FormatUint [simp]: "ParseUint (FormatUint w) = Some w"
  using unsigned_less [of w, where 'a = nat] by (simp add: ParseUint_def FormatUint_def parse_decimal)

lemma length_FormatUint: "length (FormatUint w) \<le> 20"
  unfolding FormatUint_def by (rule length_decimal) (use unsigned_less [of w, where 'a = nat] in simp_all)

lemma sign_no_digit: "digit_value (CHR ''-'') = None" "digit_value (CHR ''+'') = None" "digit_value (CHR '':'') = None"
  "digit_value (CHR ''\"'') = None"
  by (simp_all add: digit_value_def)

lemma hd_decimal: "hd (decimal n) \<noteq> CHR ''-''" "hd (decimal n) \<noteq> CHR ''+''"
  using decimal_digits [of "hd (decimal n)" n] sign_no_digit by (metis decimal_nonempty hd_in_set)+

lemma FormatInt_nonneg: "0 \<le> sint w \<Longrightarrow> FormatInt w = decimal (nat (sint w))"
  by (simp add: FormatInt_def)

lemma FormatInt_inj:
  assumes "FormatInt a = FormatInt b"
  shows "a = b"
proof -
  have "sint a = sint b"
    using assms hd_decimal(1) [of "nat (sint a)"] hd_decimal(1) [of "nat (sint b)"]
    by (auto simp: FormatInt_def dest: decimal_inj split: if_splits) (metis list.sel(1) append_Cons)+
  then show ?thesis by (rule signed_word_eqI)
qed

lemma ParseInt_FormatInt [simp]: "0 \<le> sint w \<Longrightarrow> ParseInt (FormatInt w) = Some w"
  using hd_decimal [of "nat (sint w)"] sint_lt [of w]
  by (simp add: FormatInt_nonneg ParseInt_def parse_decimal Let_def nat_less_iff)

lemma length_FormatInt: "0 \<le> sint w \<Longrightarrow> length (FormatInt w) \<le> 19"
  unfolding FormatInt_nonneg by (rule length_decimal) (use sint_lt [of w] in \<open>simp_all add: nat_less_iff\<close>)

lemma set_sort_by [simp]: "set (sort_by f xs) = set xs"
  by (simp add: sort_by_def)

lemma distinct_sort_by [simp]: "distinct (sort_by f xs) = distinct xs"
  by (simp add: sort_by_def distinct_sort)

lemma sorted_sort_by [simp]: "sorted (map f (sort_by f xs))"
  by (simp add: sort_by_def)

lemma length_sort_by [simp]: "length (sort_by f xs) = length xs"
  by (simp add: sort_by_def)

lemma set_sortedIntKeys [simp]: "set (sortedIntKeys m) = fset (fmdom m)"
  by (simp add: sortedIntKeys_def)

lemma distinct_sortedIntKeys [simp]: "distinct (sortedIntKeys m)"
  by (simp add: sortedIntKeys_def sorted_list_of_fset.rep_eq)

lemma sorted_sortedIntKeys: "sorted_wrt (\<lambda>a b. sint a < sint b) (sortedIntKeys m)"
proof -
  have "sorted (map sint (sortedIntKeys m))" unfolding sortedIntKeys_def by (rule sorted_sort_by)
  moreover have "distinct (map sint (sortedIntKeys m))"
    by (simp add: distinct_map inj_on_def signed_word_eqI)
  ultimately have "sorted_wrt (<) (map sint (sortedIntKeys m))" by (simp add: strict_sorted_iff)
  then show ?thesis by (simp add: sorted_wrt_map)
qed

lemma set_map_values: "v \<in> set (map_values m) \<longleftrightarrow> (\<exists>k. fmlookup m k = Some v)"
proof
  assume "\<exists>k. fmlookup m k = Some v"
  then obtain k where k: "fmlookup m k = Some v" ..
  then have "k \<in> set (sorted_list_of_fset (fmdom m))" by (simp add: fmlookup_dom_iff)
  with k show "v \<in> set (map_values m)" unfolding map_values_def by force
qed (auto simp: map_values_def fmlookup_dom_iff)

lemma takeWhile_split: "x \<notin> set xs \<Longrightarrow> takeWhile (\<lambda>y. y \<noteq> x) (xs @ x # ys) = xs"
  by (induction xs) auto

end
