(* ===== verification/StateStore.thy ===== *)
theory StateStore
  imports Text
begin

text \<open>
  The immutable state projection of \<^verbatim>\<open>internal/realtime/state.go\<close>: the rows of the database
  (\<^verbatim>\<open>internal/db/models.go\<close>, as \<^verbatim>\<open>store.StateProjection\<close> hands them over), their conversion into a
  persistent state, the runtime state kept beside it, the accessors of a published version, and the
  operations on an unpublished candidate.  Optional pointers and \<^verbatim>\<open>sql.Null\<close> values are options.  The
  copies the accessors make have no counterpart: values here are immutable.  Methods are modelled on
  non-nil receivers.
\<close>

section \<open>Definitions\<close>

subsection \<open>Data\<close>

datatype state_error = ErrInvalidProjection | ErrInvalidStreamEpoch | ErrNilLoader | ErrLoad

record Scope =
  sc_Type :: string
  sc_ID :: int64

abbreviation server_scope :: Scope where "server_scope \<equiv> \<lparr>sc_Type = ''server'', sc_ID = 0\<rparr>"

definition ScopeKey :: "Scope \<Rightarrow> string" where
  "ScopeKey s = (if sc_Type s = ''server'' then ''server'' else sc_Type s @ '':'' @ FormatInt (sc_ID s))"

definition ScopeValid :: "Scope \<Rightarrow> bool" where
  "ScopeValid s = (if sc_Type s = ''server'' then sc_ID s = 0
                   else (sc_Type s = ''group'' \<or> sc_Type s = ''channel'') \<and> sint (sc_ID s) > 0)"

record Checkpoint =
  cp_StreamEpoch :: string
  cp_GEID :: uint64

record User =
  usr_ID :: int64
  usr_Username :: string
  usr_Nickname :: string
  usr_Avatar :: "string option"
  usr_AuthVersion :: int64
  usr_Banned :: bool
  usr_CreatedAt :: int64
  usr_UpdatedAt :: int64

record Role =
  role_Key :: string
  role_DisplayName :: string
  role_Rank :: int64
  role_Builtin :: bool
  role_Immutable :: bool
  role_CreatedAt :: int64
  role_UpdatedAt :: int64
  role_Version :: int64

record Group =
  grp_ID :: int64
  grp_Name :: string
  grp_Position :: int64
  grp_Visibility :: string
  grp_CreatedAt :: int64
  grp_UpdatedAt :: int64
  grp_Version :: int64

record Channel =
  ch_ID :: int64
  ch_GroupID :: "int64 option"
  ch_Name :: string
  ch_Mode :: string
  ch_Temporary :: bool
  ch_Visibility :: string
  ch_Capacity :: int64
  ch_Position :: int64
  ch_Pinned :: bool
  ch_CreatedBy :: "int64 option"
  ch_CreatedAt :: int64
  ch_UpdatedAt :: int64
  ch_Version :: int64

record AccessEntry =
  ac_ID :: int64
  ac_PrincipalType :: string
  ac_UserID :: "int64 option"
  ac_RoleKey :: "string option"
  ac_CreatedAt :: int64

record RoleBinding =
  rb_ID :: int64
  rb_RoleKey :: string
  rb_Scope :: Scope
  rb_CreatedAt :: int64

record PermissionConfig =
  pc_Scope :: Scope
  pc_Config :: string
  pc_UpdatedAt :: int64
  pc_Version :: int64

record Mute =
  mt_ID :: int64
  mt_Scope :: Scope
  mt_UserID :: int64
  mt_Kind :: string
  mt_ExpiresAt :: "int64 option"
  mt_CreatedBy :: "int64 option"
  mt_Reason :: string
  mt_CreatedAt :: int64
  mt_Version :: int64

record PresenceActivity =
  pa_Type :: string
  pa_Name :: string
  pa_Privacy :: string

record Presence =
  pr_Status :: string
  pr_Activity :: "PresenceActivity option"

record VoiceAuthority =
  va_UserID :: int64
  va_ChannelID :: int64
  va_ControlConnectionID :: id16
  va_ConnectionGeneration :: uint64
  va_VoiceSessionID :: id16
  va_VoiceAuthorityGeneration :: uint64
  va_JoinedAt :: int64

definition VoiceAuthorityValid :: "VoiceAuthority \<Rightarrow> bool" where
  "VoiceAuthorityValid a = (sint (va_UserID a) > 0 \<and> sint (va_ChannelID a) > 0 \<and> va_ControlConnectionID a \<noteq> 0 \<and>
     va_ConnectionGeneration a > 0 \<and> va_VoiceSessionID a \<noteq> 0 \<and> va_VoiceAuthorityGeneration a > 0 \<and> sint (va_JoinedAt a) \<ge> 0)"

record ExpirySchedule =
  es_Generation :: uint64
  es_Deadline :: int64

record persistentState =
  ps_users :: "(int64, User) fmap"
  ps_roles :: "(string, Role) fmap"
  ps_groups :: "(int64, Group) fmap"
  ps_channels :: "(int64, Channel) fmap"
  ps_groupAccess :: "(int64, AccessEntry list) fmap"
  ps_channelAccess :: "(int64, AccessEntry list) fmap"
  ps_bindings :: "(int64, RoleBinding list) fmap"
  ps_configs :: "(Scope, PermissionConfig) fmap"
  ps_mutes :: "(int64, Mute) fmap"
  ps_mutesByUser :: "(int64, Mute list) fmap"

record runtimeState =
  rt_visibilityEpochs :: "(int64, uint64) fmap"
  rt_moderationEpoch :: uint64
  rt_presences :: "(int64, Presence) fmap"
  rt_voiceAuthorities :: "(int64, VoiceAuthority) fmap"
  rt_voiceByChannel :: "(int64, VoiceAuthority list) fmap"
  rt_temporaryExpiry :: "(int64, ExpirySchedule) fmap"
  rt_muteExpiry :: "(int64, ExpirySchedule) fmap"

record StateVersion =
  sv_number :: uint64
  sv_checkpoint :: Checkpoint
  sv_persistent :: persistentState
  sv_runtime :: runtimeState

record StateCandidate =
  sd_base :: StateVersion
  sd_version :: StateVersion

text \<open>Reading a Go map of slices, or of integers, at an absent key.\<close>

definition rows_at :: "('k, 'a list) fmap \<Rightarrow> 'k \<Rightarrow> 'a list" where
  "rows_at m k = (case fmlookup m k of None \<Rightarrow> [] | Some xs \<Rightarrow> xs)"

definition count_at :: "('k, uint64) fmap \<Rightarrow> 'k \<Rightarrow> uint64" where
  "count_at m k = (case fmlookup m k of None \<Rightarrow> 0 | Some n \<Rightarrow> n)"

definition push_row :: "('k, 'a list) fmap \<Rightarrow> 'k \<Rightarrow> 'a \<Rightarrow> ('k, 'a list) fmap" where
  "push_row m k x = fmupd k (rows_at m k @ [x]) m"

subsection \<open>Database rows\<close>

record db_User =
  dbu_ID :: int64
  dbu_Username :: string
  dbu_PasswordHash :: string
  dbu_Nickname :: string
  dbu_Avatar :: "string option"
  dbu_AuthVersion :: int64
  dbu_BannedAt :: "int64 option"
  dbu_LastLoginAt :: "int64 option"
  dbu_CreatedAt :: int64
  dbu_UpdatedAt :: int64

record db_Role =
  dbr_Key :: string
  dbr_DisplayName :: string
  dbr_Rank :: int64
  dbr_Builtin :: int64
  dbr_Immutable :: int64
  dbr_CreatedAt :: int64
  dbr_UpdatedAt :: int64
  dbr_Version :: int64

record db_ChannelGroup =
  dbg_ID :: int64
  dbg_Name :: string
  dbg_Position :: int64
  dbg_Visibility :: string
  dbg_CreatedAt :: int64
  dbg_UpdatedAt :: int64
  dbg_Version :: int64

record db_Channel =
  dbc_ID :: int64
  dbc_GroupID :: "int64 option"
  dbc_Name :: string
  dbc_Mode :: string
  dbc_Temporary :: int64
  dbc_Visibility :: string
  dbc_Capacity :: int64
  dbc_Position :: int64
  dbc_Pinned :: int64
  dbc_CreatedBy :: "int64 option"
  dbc_CreatedAt :: int64
  dbc_UpdatedAt :: int64
  dbc_Version :: int64

text \<open>The rows of \<^verbatim>\<open>GroupAccess\<close> and \<^verbatim>\<open>ChannelAccess\<close>, which differ in the name of their owner column.\<close>

record db_Access =
  dba_ID :: int64
  dba_OwnerID :: int64
  dba_PrincipalType :: string
  dba_UserID :: "int64 option"
  dba_RoleKey :: "string option"
  dba_CreatedAt :: int64

record db_UserRoleBinding =
  dbb_ID :: int64
  dbb_UserID :: int64
  dbb_RoleKey :: string
  dbb_ScopeType :: string
  dbb_GroupID :: "int64 option"
  dbb_ChannelID :: "int64 option"
  dbb_CreatedAt :: int64

record db_ScopePermissionConfig =
  dbp_ScopeType :: string
  dbp_GroupID :: "int64 option"
  dbp_ChannelID :: "int64 option"
  dbp_Config :: string
  dbp_UpdatedAt :: int64
  dbp_Version :: int64

record db_ModerationMute =
  dbm_ID :: int64
  dbm_ScopeType :: string
  dbm_GroupID :: "int64 option"
  dbm_ChannelID :: "int64 option"
  dbm_UserID :: int64
  dbm_Kind :: string
  dbm_ExpiresAt :: "int64 option"
  dbm_CreatedBy :: "int64 option"
  dbm_Reason :: string
  dbm_CreatedAt :: int64
  dbm_Version :: int64

record StateProjection =
  sp_Users :: "db_User list"
  sp_Roles :: "db_Role list"
  sp_Groups :: "db_ChannelGroup list"
  sp_Channels :: "db_Channel list"
  sp_GroupAccess :: "db_Access list"
  sp_ChannelAccess :: "db_Access list"
  sp_Bindings :: "db_UserRoleBinding list"
  sp_Configs :: "db_ScopePermissionConfig list"
  sp_Mutes :: "db_ModerationMute list"

definition userFromDB :: "db_User \<Rightarrow> User" where
  "userFromDB row = \<lparr>usr_ID = dbu_ID row, usr_Username = dbu_Username row, usr_Nickname = dbu_Nickname row, usr_Avatar = dbu_Avatar row,
     usr_AuthVersion = dbu_AuthVersion row, usr_Banned = (dbu_BannedAt row \<noteq> None), usr_CreatedAt = dbu_CreatedAt row, usr_UpdatedAt = dbu_UpdatedAt row\<rparr>"

definition roleFromDB :: "db_Role \<Rightarrow> Role" where
  "roleFromDB row = \<lparr>role_Key = dbr_Key row, role_DisplayName = dbr_DisplayName row, role_Rank = dbr_Rank row, role_Builtin = (dbr_Builtin row \<noteq> 0),
     role_Immutable = (dbr_Immutable row \<noteq> 0), role_CreatedAt = dbr_CreatedAt row, role_UpdatedAt = dbr_UpdatedAt row, role_Version = dbr_Version row\<rparr>"

definition groupFromDB :: "db_ChannelGroup \<Rightarrow> Group" where
  "groupFromDB row = \<lparr>grp_ID = dbg_ID row, grp_Name = dbg_Name row, grp_Position = dbg_Position row, grp_Visibility = dbg_Visibility row,
     grp_CreatedAt = dbg_CreatedAt row, grp_UpdatedAt = dbg_UpdatedAt row, grp_Version = dbg_Version row\<rparr>"

definition channelFromDB :: "db_Channel \<Rightarrow> Channel" where
  "channelFromDB row = \<lparr>ch_ID = dbc_ID row, ch_GroupID = dbc_GroupID row, ch_Name = dbc_Name row, ch_Mode = dbc_Mode row,
     ch_Temporary = (dbc_Temporary row \<noteq> 0), ch_Visibility = dbc_Visibility row, ch_Capacity = dbc_Capacity row, ch_Position = dbc_Position row,
     ch_Pinned = (dbc_Pinned row \<noteq> 0), ch_CreatedBy = dbc_CreatedBy row, ch_CreatedAt = dbc_CreatedAt row, ch_UpdatedAt = dbc_UpdatedAt row,
     ch_Version = dbc_Version row\<rparr>"

definition accessFromDB :: "db_Access \<Rightarrow> AccessEntry" where
  "accessFromDB row = \<lparr>ac_ID = dba_ID row, ac_PrincipalType = dba_PrincipalType row, ac_UserID = dba_UserID row, ac_RoleKey = dba_RoleKey row,
     ac_CreatedAt = dba_CreatedAt row\<rparr>"

definition scopeFromNullable :: "string \<Rightarrow> int64 option \<Rightarrow> int64 option \<Rightarrow> (state_error, Scope) outcome" where
  "scopeFromNullable scopeType groupID channelID =
     (if scopeType = ''server'' \<and> groupID = None \<and> channelID = None then Return server_scope
      else case (groupID, channelID) of
        (Some g, None) \<Rightarrow> if scopeType = ''group'' \<and> sint g > 0 then Return \<lparr>sc_Type = ''group'', sc_ID = g\<rparr> else Fail ErrInvalidProjection
      | (None, Some c) \<Rightarrow> if scopeType = ''channel'' \<and> sint c > 0 then Return \<lparr>sc_Type = ''channel'', sc_ID = c\<rparr> else Fail ErrInvalidProjection
      | _ \<Rightarrow> Fail ErrInvalidProjection)"

definition bindingFromDB :: "db_UserRoleBinding \<Rightarrow> (state_error, RoleBinding) outcome" where
  "bindingFromDB row =
     (case scopeFromNullable (dbb_ScopeType row) (dbb_GroupID row) (dbb_ChannelID row) of
        Return scope \<Rightarrow> Return \<lparr>rb_ID = dbb_ID row, rb_RoleKey = dbb_RoleKey row, rb_Scope = scope, rb_CreatedAt = dbb_CreatedAt row\<rparr>
      | Fail e \<Rightarrow> Fail e | Panic \<Rightarrow> Panic)"

definition configFromDB :: "db_ScopePermissionConfig \<Rightarrow> (state_error, PermissionConfig) outcome" where
  "configFromDB row =
     (case scopeFromNullable (dbp_ScopeType row) (dbp_GroupID row) (dbp_ChannelID row) of
        Return scope \<Rightarrow> Return \<lparr>pc_Scope = scope, pc_Config = dbp_Config row, pc_UpdatedAt = dbp_UpdatedAt row, pc_Version = dbp_Version row\<rparr>
      | Fail e \<Rightarrow> Fail e | Panic \<Rightarrow> Panic)"

definition muteFromDB :: "db_ModerationMute \<Rightarrow> (state_error, Mute) outcome" where
  "muteFromDB row =
     (case scopeFromNullable (dbm_ScopeType row) (dbm_GroupID row) (dbm_ChannelID row) of
        Return scope \<Rightarrow> Return \<lparr>mt_ID = dbm_ID row, mt_Scope = scope, mt_UserID = dbm_UserID row, mt_Kind = dbm_Kind row, mt_ExpiresAt = dbm_ExpiresAt row,
          mt_CreatedBy = dbm_CreatedBy row, mt_Reason = dbm_Reason row, mt_CreatedAt = dbm_CreatedAt row, mt_Version = dbm_Version row\<rparr>
      | Fail e \<Rightarrow> Fail e | Panic \<Rightarrow> Panic)"

subsection \<open>Building the persistent state\<close>

definition emptyPersistent :: persistentState where
  "emptyPersistent = \<lparr>ps_users = fmempty, ps_roles = fmempty, ps_groups = fmempty, ps_channels = fmempty, ps_groupAccess = fmempty,
     ps_channelAccess = fmempty, ps_bindings = fmempty, ps_configs = fmempty, ps_mutes = fmempty, ps_mutesByUser = fmempty\<rparr>"

definition addUser :: "persistentState \<Rightarrow> db_User \<Rightarrow> (state_error, persistentState) outcome" where
  "addUser st row = (if fmlookup (ps_users st) (dbu_ID row) \<noteq> None then Fail ErrInvalidProjection
     else Return (st\<lparr>ps_users := fmupd (dbu_ID row) (userFromDB row) (ps_users st)\<rparr>))"

definition addRole :: "persistentState \<Rightarrow> db_Role \<Rightarrow> (state_error, persistentState) outcome" where
  "addRole st row = (if fmlookup (ps_roles st) (dbr_Key row) \<noteq> None then Fail ErrInvalidProjection
     else Return (st\<lparr>ps_roles := fmupd (dbr_Key row) (roleFromDB row) (ps_roles st)\<rparr>))"

definition addGroup :: "persistentState \<Rightarrow> db_ChannelGroup \<Rightarrow> (state_error, persistentState) outcome" where
  "addGroup st row = (if fmlookup (ps_groups st) (dbg_ID row) \<noteq> None then Fail ErrInvalidProjection
     else Return (st\<lparr>ps_groups := fmupd (dbg_ID row) (groupFromDB row) (ps_groups st)\<rparr>))"

definition addChannel :: "persistentState \<Rightarrow> db_Channel \<Rightarrow> (state_error, persistentState) outcome" where
  "addChannel st row = (if fmlookup (ps_channels st) (dbc_ID row) \<noteq> None then Fail ErrInvalidProjection
     else Return (st\<lparr>ps_channels := fmupd (dbc_ID row) (channelFromDB row) (ps_channels st)\<rparr>))"

definition addGroupAccess :: "persistentState \<Rightarrow> db_Access \<Rightarrow> (state_error, persistentState) outcome" where
  "addGroupAccess st row = Return (st\<lparr>ps_groupAccess := push_row (ps_groupAccess st) (dba_OwnerID row) (accessFromDB row)\<rparr>)"

definition addChannelAccess :: "persistentState \<Rightarrow> db_Access \<Rightarrow> (state_error, persistentState) outcome" where
  "addChannelAccess st row = Return (st\<lparr>ps_channelAccess := push_row (ps_channelAccess st) (dba_OwnerID row) (accessFromDB row)\<rparr>)"

definition addBinding :: "persistentState \<Rightarrow> db_UserRoleBinding \<Rightarrow> (state_error, persistentState) outcome" where
  "addBinding st row = outcome_bind (bindingFromDB row) (\<lambda>b. Return (st\<lparr>ps_bindings := push_row (ps_bindings st) (dbb_UserID row) b\<rparr>))"

definition addConfig :: "persistentState \<Rightarrow> db_ScopePermissionConfig \<Rightarrow> (state_error, persistentState) outcome" where
  "addConfig st row = outcome_bind (configFromDB row) (\<lambda>c.
     if fmlookup (ps_configs st) (pc_Scope c) \<noteq> None then Fail ErrInvalidProjection
     else Return (st\<lparr>ps_configs := fmupd (pc_Scope c) c (ps_configs st)\<rparr>))"

definition addMute :: "persistentState \<Rightarrow> db_ModerationMute \<Rightarrow> (state_error, persistentState) outcome" where
  "addMute st row = outcome_bind (muteFromDB row) (\<lambda>m.
     if fmlookup (ps_mutes st) (mt_ID m) \<noteq> None then Fail ErrInvalidProjection
     else Return (st\<lparr>ps_mutes := fmupd (mt_ID m) m (ps_mutes st), ps_mutesByUser := push_row (ps_mutesByUser st) (mt_UserID m) m\<rparr>))"

definition sortRows :: "persistentState \<Rightarrow> persistentState" where
  "sortRows st = st\<lparr>ps_bindings := fmmap (sort_by (\<lambda>b. sint (rb_ID b))) (ps_bindings st),
     ps_groupAccess := fmmap (sort_by (\<lambda>a. sint (ac_ID a))) (ps_groupAccess st),
     ps_channelAccess := fmmap (sort_by (\<lambda>a. sint (ac_ID a))) (ps_channelAccess st),
     ps_mutesByUser := fmmap (sort_by (\<lambda>m. sint (mt_ID m))) (ps_mutesByUser st)\<rparr>"

definition newPersistentState :: "StateProjection option \<Rightarrow> (state_error, persistentState) outcome" where
  "newPersistentState projection =
     (case projection of None \<Rightarrow> Fail ErrInvalidProjection
      | Some p \<Rightarrow>
          outcome_bind (fold_outcome addUser emptyPersistent (sp_Users p)) (\<lambda>s1.
          outcome_bind (fold_outcome addRole s1 (sp_Roles p)) (\<lambda>s2.
          outcome_bind (fold_outcome addGroup s2 (sp_Groups p)) (\<lambda>s3.
          outcome_bind (fold_outcome addChannel s3 (sp_Channels p)) (\<lambda>s4.
          outcome_bind (fold_outcome addGroupAccess s4 (sp_GroupAccess p)) (\<lambda>s5.
          outcome_bind (fold_outcome addChannelAccess s5 (sp_ChannelAccess p)) (\<lambda>s6.
          outcome_bind (fold_outcome addBinding s6 (sp_Bindings p)) (\<lambda>s7.
          outcome_bind (fold_outcome addConfig s7 (sp_Configs p)) (\<lambda>s8.
          outcome_bind (fold_outcome addMute s8 (sp_Mutes p)) (\<lambda>s9. Return (sortRows s9)))))))))))"

text \<open>A stream epoch is 32 lowercase hexadecimal digits.\<close>

definition hex_lower :: "char \<Rightarrow> bool" where
  "hex_lower ch = (let n = of_char ch :: nat in (48 \<le> n \<and> n \<le> 57) \<or> (97 \<le> n \<and> n \<le> 102))"

definition streamEpochBytes :: nat where "streamEpochBytes = 16"

definition validateStreamEpoch :: "string \<Rightarrow> (state_error, unit) outcome" where
  "validateStreamEpoch epoch =
     (if length epoch \<noteq> streamEpochBytes * 2 \<or> \<not> list_all hex_lower epoch then Fail ErrInvalidStreamEpoch else Return ())"

definition emptyRuntime :: runtimeState where
  "emptyRuntime = \<lparr>rt_visibilityEpochs = fmempty, rt_moderationEpoch = 0, rt_presences = fmempty, rt_voiceAuthorities = fmempty,
     rt_voiceByChannel = fmempty, rt_temporaryExpiry = fmempty, rt_muteExpiry = fmempty\<rparr>"

text \<open>\<^verbatim>\<open>NewStateStoreWithEpoch\<close>: \<open>loaded\<close> is what the projection loader returns, \<open>None\<close> an absent loader.\<close>

definition NewStateStoreWithEpoch :: "(state_error, StateProjection option) outcome option \<Rightarrow> string \<Rightarrow> (state_error, StateVersion) outcome" where
  "NewStateStoreWithEpoch loaded epoch =
     (case loaded of None \<Rightarrow> Fail ErrNilLoader
      | Some load \<Rightarrow>
          outcome_bind (validateStreamEpoch epoch) (\<lambda>_.
          outcome_bind load (\<lambda>projection.
          outcome_bind (newPersistentState projection) (\<lambda>persistent.
            Return \<lparr>sv_number = 0, sv_checkpoint = \<lparr>cp_StreamEpoch = epoch, cp_GEID = 0\<rparr>, sv_persistent = persistent, sv_runtime = emptyRuntime\<rparr>))))"

subsection \<open>Candidates\<close>

definition BuildRuntimeCandidate :: "StateVersion \<Rightarrow> StateCandidate" where
  "BuildRuntimeCandidate base = \<lparr>sd_base = base, sd_version = base\<lparr>sv_number := sv_number base + 1\<rparr>\<rparr>"

definition BuildPersistentCandidateFrom ::
  "StateVersion \<Rightarrow> (state_error, StateProjection option) outcome option \<Rightarrow> (state_error, StateCandidate) outcome" where
  "BuildPersistentCandidateFrom base loaded =
     (case loaded of None \<Rightarrow> Fail ErrInvalidProjection
      | Some load \<Rightarrow>
          outcome_bind load (\<lambda>projection.
          outcome_bind (newPersistentState projection) (\<lambda>persistent.
            let runtime = (sv_runtime base)
                  \<lparr>rt_temporaryExpiry := fmfilter (\<lambda>c. fmlookup (ps_channels persistent) c \<noteq> None) (rt_temporaryExpiry (sv_runtime base)),
                   rt_muteExpiry := fmfilter (\<lambda>m. fmlookup (ps_mutes persistent) m \<noteq> None) (rt_muteExpiry (sv_runtime base))\<rparr>
            in Return \<lparr>sd_base = base, sd_version = \<lparr>sv_number = sv_number base + 1, sv_checkpoint = sv_checkpoint base,
                        sv_persistent = persistent, sv_runtime = runtime\<rparr>\<rparr>)))"

definition upd_runtime :: "StateCandidate \<Rightarrow> (runtimeState \<Rightarrow> runtimeState) \<Rightarrow> StateCandidate" where
  "upd_runtime c f = c\<lparr>sd_version := (sd_version c)\<lparr>sv_runtime := f (sv_runtime (sd_version c))\<rparr>\<rparr>"

definition validPresence :: "Presence \<Rightarrow> bool" where
  "validPresence p =
     (pr_Status p \<in> set [''online'', ''dnd'', ''afk'', ''offline'', ''invisible''] \<and>
      (case pr_Activity p of None \<Rightarrow> True
       | Some a \<Rightarrow> pa_Type a \<noteq> [] \<and> pa_Name a \<noteq> [] \<and> (pa_Privacy a = ''public'' \<or> pa_Privacy a = ''private'')))"

definition SetPresence :: "StateCandidate \<Rightarrow> int64 \<Rightarrow> Presence \<Rightarrow> (state_error, StateCandidate) outcome" where
  "SetPresence c userID presence =
     (if fmlookup (ps_users (sv_persistent (sd_version c))) userID = None \<or> \<not> validPresence presence then Fail ErrInvalidProjection
      else Return (upd_runtime c (\<lambda>r. r\<lparr>rt_presences := fmupd userID presence (rt_presences r)\<rparr>)))"

definition ClearPresence :: "StateCandidate \<Rightarrow> int64 \<Rightarrow> (state_error, StateCandidate) outcome" where
  "ClearPresence c userID =
     (if sint userID \<le> 0 then Fail ErrInvalidProjection
      else Return (upd_runtime c (\<lambda>r. r\<lparr>rt_presences := fmdrop userID (rt_presences r)\<rparr>)))"

definition IncrementModerationEpoch :: "StateCandidate \<Rightarrow> StateCandidate" where
  "IncrementModerationEpoch c = upd_runtime c (\<lambda>r. r\<lparr>rt_moderationEpoch := rt_moderationEpoch r + 1\<rparr>)"

definition schedule_at :: "(int64, ExpirySchedule) fmap \<Rightarrow> int64 \<Rightarrow> ExpirySchedule" where
  "schedule_at m k = (case fmlookup m k of None \<Rightarrow> \<lparr>es_Generation = 0, es_Deadline = 0\<rparr> | Some s \<Rightarrow> s)"

definition ScheduleTemporaryExpiry :: "StateCandidate \<Rightarrow> int64 \<Rightarrow> int64 \<Rightarrow> (state_error, ExpirySchedule \<times> StateCandidate) outcome" where
  "ScheduleTemporaryExpiry c channelID deadline =
     (if sint deadline \<le> 0 then Fail ErrInvalidProjection
      else case fmlookup (ps_channels (sv_persistent (sd_version c))) channelID of None \<Rightarrow> Fail ErrInvalidProjection
        | Some channel \<Rightarrow>
            if \<not> ch_Temporary channel then Fail ErrInvalidProjection
            else let previous = schedule_at (rt_temporaryExpiry (sv_runtime (sd_version c))) channelID;
                     schedule = \<lparr>es_Generation = es_Generation previous + 1, es_Deadline = deadline\<rparr>
                 in Return (schedule, upd_runtime c (\<lambda>r. r\<lparr>rt_temporaryExpiry := fmupd channelID schedule (rt_temporaryExpiry r)\<rparr>)))"

definition ClearTemporaryExpiry :: "StateCandidate \<Rightarrow> int64 \<Rightarrow> (ExpirySchedule \<times> bool) \<times> StateCandidate" where
  "ClearTemporaryExpiry c channelID =
     (let found = fmlookup (rt_temporaryExpiry (sv_runtime (sd_version c))) channelID;
          previous = schedule_at (rt_temporaryExpiry (sv_runtime (sd_version c))) channelID;
          live = (case fmlookup (ps_channels (sv_persistent (sd_version c))) channelID of None \<Rightarrow> False
                  | Some channel \<Rightarrow> ch_Temporary channel \<and> ch_Mode channel = ''voice'');
          armed = (es_Generation previous > 0 \<and> sint (es_Deadline previous) > 0)
      in if \<not> live
         then ((previous, found \<noteq> None \<and> armed), upd_runtime c (\<lambda>r. r\<lparr>rt_temporaryExpiry := fmdrop channelID (rt_temporaryExpiry r)\<rparr>))
         else if found = None then ((\<lparr>es_Generation = 0, es_Deadline = 0\<rparr>, False), c)
         else ((previous, armed),
               upd_runtime c (\<lambda>r. r\<lparr>rt_temporaryExpiry := fmupd channelID \<lparr>es_Generation = es_Generation previous + 1, es_Deadline = 0\<rparr> (rt_temporaryExpiry r)\<rparr>)))"

definition ScheduleMuteExpiry :: "StateCandidate \<Rightarrow> int64 \<Rightarrow> int64 \<Rightarrow> (state_error, ExpirySchedule \<times> StateCandidate) outcome" where
  "ScheduleMuteExpiry c muteID deadline =
     (if sint deadline \<le> 0 then Fail ErrInvalidProjection
      else case fmlookup (ps_mutes (sv_persistent (sd_version c))) muteID of None \<Rightarrow> Fail ErrInvalidProjection
        | Some mute \<Rightarrow>
            if mt_ExpiresAt mute \<noteq> Some deadline then Fail ErrInvalidProjection
            else let previous = schedule_at (rt_muteExpiry (sv_runtime (sd_version c))) muteID;
                     schedule = \<lparr>es_Generation = es_Generation previous + 1, es_Deadline = deadline\<rparr>
                 in Return (schedule, upd_runtime c (\<lambda>r. r\<lparr>rt_muteExpiry := fmupd muteID schedule (rt_muteExpiry r)\<rparr>)))"

definition ClearMuteExpiry :: "StateCandidate \<Rightarrow> int64 \<Rightarrow> StateCandidate" where
  "ClearMuteExpiry c muteID =
     (let previous = schedule_at (rt_muteExpiry (sv_runtime (sd_version c))) muteID
      in upd_runtime c (\<lambda>r. r\<lparr>rt_muteExpiry := fmupd muteID \<lparr>es_Generation = es_Generation previous + 1, es_Deadline = 0\<rparr> (rt_muteExpiry r)\<rparr>))"

definition addVoiceAuthorityIndex :: "runtimeState \<Rightarrow> VoiceAuthority \<Rightarrow> runtimeState" where
  "addVoiceAuthorityIndex r a =
     r\<lparr>rt_voiceByChannel := fmupd (va_ChannelID a) (sort_by (\<lambda>m. sint (va_UserID m)) (rows_at (rt_voiceByChannel r) (va_ChannelID a) @ [a])) (rt_voiceByChannel r)\<rparr>"

definition removeVoiceAuthorityIndex :: "runtimeState \<Rightarrow> VoiceAuthority \<Rightarrow> runtimeState" where
  "removeVoiceAuthorityIndex r a =
     (let members = rows_at (rt_voiceByChannel r) (va_ChannelID a);
          filtered = filter (\<lambda>m. va_UserID m \<noteq> va_UserID a) members
      in if members = [] then r
         else if filtered = [] then r\<lparr>rt_voiceByChannel := fmdrop (va_ChannelID a) (rt_voiceByChannel r)\<rparr>
         else r\<lparr>rt_voiceByChannel := fmupd (va_ChannelID a) filtered (rt_voiceByChannel r)\<rparr>)"

definition SetVoiceAuthority :: "StateCandidate \<Rightarrow> int64 \<Rightarrow> VoiceAuthority option \<Rightarrow> (state_error, StateCandidate) outcome" where
  "SetVoiceAuthority c userID authority =
     (let invalid = (case authority of None \<Rightarrow> False
            | Some a \<Rightarrow> va_UserID a \<noteq> userID \<or> \<not> VoiceAuthorityValid a \<or> fmlookup (ps_users (sv_persistent (sd_version c))) userID = None \<or>
                        fmlookup (ps_channels (sv_persistent (sd_version c))) (va_ChannelID a) = None)
      in if sint userID \<le> 0 \<or> invalid then Fail ErrInvalidProjection
         else Return (upd_runtime c (\<lambda>r.
           let r1 = (case fmlookup (rt_voiceAuthorities r) userID of None \<Rightarrow> r | Some previous \<Rightarrow> removeVoiceAuthorityIndex r previous);
               r2 = r1\<lparr>rt_voiceAuthorities := fmdrop userID (rt_voiceAuthorities r1)\<rparr>
           in case authority of None \<Rightarrow> r2
              | Some a \<Rightarrow> addVoiceAuthorityIndex (r2\<lparr>rt_voiceAuthorities := fmupd userID a (rt_voiceAuthorities r2)\<rparr>) a)))"

definition TransitionVoiceAuthority ::
  "StateCandidate \<Rightarrow> VoiceAuthority option \<Rightarrow> VoiceAuthority option \<Rightarrow> (state_error, bool \<times> StateCandidate) outcome" where
  "TransitionVoiceAuthority c previous current =
     (let userID = (case current of Some a \<Rightarrow> va_UserID a | None \<Rightarrow> (case previous of Some a \<Rightarrow> va_UserID a | None \<Rightarrow> 0));
          bad = (\<lambda>x. case x of None \<Rightarrow> False | Some a \<Rightarrow> \<not> VoiceAuthorityValid a)
      in if sint userID \<le> 0 \<or> bad previous \<or> bad current then Fail ErrInvalidProjection
         else if fmlookup (rt_voiceAuthorities (sv_runtime (sd_version c))) userID \<noteq> previous then Return (False, c)
         else outcome_bind (SetVoiceAuthority c userID current) (\<lambda>c'. Return (True, c')))"

subsection \<open>Accessors of a published version\<close>

definition UserOf :: "StateVersion \<Rightarrow> int64 \<Rightarrow> User option" where
  "UserOf v i = fmlookup (ps_users (sv_persistent v)) i"

definition Users :: "StateVersion \<Rightarrow> User list" where
  "Users v = List.map_filter (UserOf v) (sortedIntKeys (ps_users (sv_persistent v)))"

definition RoleOf :: "StateVersion \<Rightarrow> string \<Rightarrow> Role option" where
  "RoleOf v key = fmlookup (ps_roles (sv_persistent v)) key"

definition Roles :: "StateVersion \<Rightarrow> Role list" where
  "Roles v = sort_by role_Key (map_values (ps_roles (sv_persistent v)))"

definition GroupOf :: "StateVersion \<Rightarrow> int64 \<Rightarrow> Group option" where
  "GroupOf v i = fmlookup (ps_groups (sv_persistent v)) i"

definition Groups :: "StateVersion \<Rightarrow> Group list" where
  "Groups v = sort_by (\<lambda>g. [sint (grp_Position g), sint (grp_ID g)]) (map_values (ps_groups (sv_persistent v)))"

definition ChannelOf :: "StateVersion \<Rightarrow> int64 \<Rightarrow> Channel option" where
  "ChannelOf v i = fmlookup (ps_channels (sv_persistent v)) i"

definition Channels :: "StateVersion \<Rightarrow> Channel list" where
  "Channels v = sort_by (\<lambda>c. [sint (ch_Position c), sint (ch_ID c)]) (map_values (ps_channels (sv_persistent v)))"

definition GroupAccess :: "StateVersion \<Rightarrow> int64 \<Rightarrow> AccessEntry list" where
  "GroupAccess v g = rows_at (ps_groupAccess (sv_persistent v)) g"

definition ChannelAccess :: "StateVersion \<Rightarrow> int64 \<Rightarrow> AccessEntry list" where
  "ChannelAccess v c = rows_at (ps_channelAccess (sv_persistent v)) c"

definition Bindings :: "StateVersion \<Rightarrow> int64 \<Rightarrow> RoleBinding list" where
  "Bindings v u = rows_at (ps_bindings (sv_persistent v)) u"

definition ConfigOf :: "StateVersion \<Rightarrow> Scope \<Rightarrow> PermissionConfig option" where
  "ConfigOf v scope = fmlookup (ps_configs (sv_persistent v)) scope"

definition MuteOf :: "StateVersion \<Rightarrow> int64 \<Rightarrow> Mute option" where
  "MuteOf v i = fmlookup (ps_mutes (sv_persistent v)) i"

definition Mutes :: "StateVersion \<Rightarrow> Mute list" where
  "Mutes v = List.map_filter (MuteOf v) (sortedIntKeys (ps_mutes (sv_persistent v)))"

definition muteCovers :: "Channel \<Rightarrow> int64 \<Rightarrow> Mute \<Rightarrow> bool" where
  "muteCovers channel channelID m =
     (if sc_Type (mt_Scope m) = ''server'' then sc_ID (mt_Scope m) = 0
      else if sc_Type (mt_Scope m) = ''group'' then ch_GroupID channel = Some (sc_ID (mt_Scope m))
      else if sc_Type (mt_Scope m) = ''channel'' then sc_ID (mt_Scope m) = channelID
      else False)"

definition muteLapsed :: "int64 \<Rightarrow> Mute \<Rightarrow> bool" where
  "muteLapsed nowMillis m = (case mt_ExpiresAt m of None \<Rightarrow> False | Some t \<Rightarrow> sint t \<le> sint nowMillis)"

definition EffectiveMute :: "StateVersion \<Rightarrow> int64 \<Rightarrow> int64 \<Rightarrow> string \<Rightarrow> int64 \<Rightarrow> bool" where
  "EffectiveMute v userID channelID kind nowMillis =
     (if sint userID \<le> 0 \<or> sint channelID \<le> 0 \<or> kind = [] \<or> sint nowMillis \<le> 0 then False
      else case fmlookup (ps_channels (sv_persistent v)) channelID of None \<Rightarrow> False
        | Some channel \<Rightarrow>
            list_ex (\<lambda>m. \<not> (mt_Kind m \<noteq> kind \<or> muteLapsed nowMillis m) \<and> muteCovers channel channelID m)
              (rows_at (ps_mutesByUser (sv_persistent v)) userID))"

definition VisibilityEpoch :: "StateVersion \<Rightarrow> int64 \<Rightarrow> uint64" where
  "VisibilityEpoch v u = count_at (rt_visibilityEpochs (sv_runtime v)) u"

definition ModerationEpoch :: "StateVersion \<Rightarrow> uint64" where
  "ModerationEpoch v = rt_moderationEpoch (sv_runtime v)"

definition TemporaryExpiry :: "StateVersion \<Rightarrow> int64 \<Rightarrow> ExpirySchedule option" where
  "TemporaryExpiry v c = fmlookup (rt_temporaryExpiry (sv_runtime v)) c"

definition MuteExpiry :: "StateVersion \<Rightarrow> int64 \<Rightarrow> ExpirySchedule option" where
  "MuteExpiry v m = fmlookup (rt_muteExpiry (sv_runtime v)) m"

definition PresenceOf :: "StateVersion \<Rightarrow> int64 \<Rightarrow> Presence" where
  "PresenceOf v u = (case fmlookup (rt_presences (sv_runtime v)) u of None \<Rightarrow> \<lparr>pr_Status = ''offline'', pr_Activity = None\<rparr> | Some p \<Rightarrow> p)"

definition VoiceAuthorityOf :: "StateVersion \<Rightarrow> int64 \<Rightarrow> VoiceAuthority option" where
  "VoiceAuthorityOf v u = fmlookup (rt_voiceAuthorities (sv_runtime v)) u"

definition VoiceAuthorities :: "StateVersion \<Rightarrow> VoiceAuthority list" where
  "VoiceAuthorities v = List.map_filter (VoiceAuthorityOf v) (sortedIntKeys (rt_voiceAuthorities (sv_runtime v)))"

definition VoiceChannelAuthorities :: "StateVersion \<Rightarrow> int64 \<Rightarrow> VoiceAuthority list" where
  "VoiceChannelAuthorities v c = (if sint c \<le> 0 then [] else rows_at (rt_voiceByChannel (sv_runtime v)) c)"

subsection \<open>A small concrete version\<close>

text \<open>Two users, of whom the first is a member; a private group with a public channel, and a public channel outside
  every group.  The examples of the theories above this one are evaluated on it.\<close>

definition example_user :: "int64 \<Rightarrow> User" where
  "example_user i = \<lparr>usr_ID = i, usr_Username = ''u'', usr_Nickname = ''n'', usr_Avatar = None, usr_AuthVersion = 1, usr_Banned = False,
     usr_CreatedAt = 0, usr_UpdatedAt = 0\<rparr>"

definition example_channel :: "int64 \<Rightarrow> int64 option \<Rightarrow> Channel" where
  "example_channel i g = \<lparr>ch_ID = i, ch_GroupID = g, ch_Name = ''c'', ch_Mode = ''voice'', ch_Temporary = False, ch_Visibility = ''public'',
     ch_Capacity = 0, ch_Position = 0, ch_Pinned = False, ch_CreatedBy = None, ch_CreatedAt = 0, ch_UpdatedAt = 0, ch_Version = 1\<rparr>"

definition example_persistent :: persistentState where
  "example_persistent = emptyPersistent
     \<lparr>ps_users := fmupd 1 (example_user 1) (fmupd 2 (example_user 2) fmempty),
      ps_roles := fmupd ''member'' \<lparr>role_Key = ''member'', role_DisplayName = ''Member'', role_Rank = 0, role_Builtin = True, role_Immutable = False,
        role_CreatedAt = 0, role_UpdatedAt = 0, role_Version = 1\<rparr> fmempty,
      ps_groups := fmupd 10 \<lparr>grp_ID = 10, grp_Name = ''g'', grp_Position = 0, grp_Visibility = ''private'', grp_CreatedAt = 0, grp_UpdatedAt = 0,
        grp_Version = 1\<rparr> fmempty,
      ps_channels := fmupd 20 (example_channel 20 (Some 10)) (fmupd 21 (example_channel 21 None) fmempty),
      ps_bindings := fmupd 1 [\<lparr>rb_ID = 1, rb_RoleKey = ''member'', rb_Scope = server_scope, rb_CreatedAt = 0\<rparr>] fmempty,
      ps_configs := fmupd server_scope \<lparr>pc_Scope = server_scope, pc_Config = ''{}'', pc_UpdatedAt = 0, pc_Version = 1\<rparr> fmempty\<rparr>"

definition example_version :: StateVersion where
  "example_version = \<lparr>sv_number = 0, sv_checkpoint = \<lparr>cp_StreamEpoch = ''00000000000000000000000000000000'', cp_GEID = 0\<rparr>,
     sv_persistent = example_persistent, sv_runtime = emptyRuntime\<rparr>"

lemmas example_defs = example_version_def example_persistent_def example_user_def example_channel_def emptyPersistent_def emptyRuntime_def

section \<open>Theorems\<close>

subsection \<open>Maps of rows\<close>

lemma rows_at_simps [simp]:
  "rows_at fmempty k = []"
  "rows_at (fmupd k xs m) k' = (if k' = k then xs else rows_at m k')"
  "rows_at (fmdrop k m) k' = (if k' = k then [] else rows_at m k')"
  by (simp_all add: rows_at_def)

lemma rows_at_push [simp]: "rows_at (push_row m k x) k' = (if k' = k then rows_at m k @ [x] else rows_at m k')"
  by (simp add: push_row_def)

lemma rows_at_sort [simp]: "rows_at (fmmap (sort_by f) m) k = sort_by f (rows_at m k)"
  by (auto simp: rows_at_def sort_by_def split: option.splits)

subsection \<open>The persistent state\<close>

lemma scopeFromNullable_valid: "scopeFromNullable t g c = Return s \<Longrightarrow> ScopeValid s"
  by (auto simp: scopeFromNullable_def ScopeValid_def split: if_splits option.splits)

text \<open>What holds of a state built from rows: maps are keyed by the identity of their values, every scope is
  well formed, and the mutes listed by user are the mutes of the table.\<close>

definition keyed_by :: "('v \<Rightarrow> 'k) \<Rightarrow> ('k, 'v) fmap \<Rightarrow> bool" where
  "keyed_by key m \<longleftrightarrow> (\<forall>k v. fmlookup m k = Some v \<longrightarrow> key v = k)"

definition mutes_ok :: "persistentState \<Rightarrow> bool" where
  "mutes_ok st \<longleftrightarrow> (\<forall>u m. m \<in> set (rows_at (ps_mutesByUser st) u) \<longleftrightarrow> mt_UserID m = u \<and> fmlookup (ps_mutes st) (mt_ID m) = Some m) \<and>
     (\<forall>u. distinct (rows_at (ps_mutesByUser st) u)) \<and> (\<forall>i m. fmlookup (ps_mutes st) i = Some m \<longrightarrow> ScopeValid (mt_Scope m))"

definition persistent_ok :: "persistentState \<Rightarrow> bool" where
  "persistent_ok st \<longleftrightarrow> keyed_by usr_ID (ps_users st) \<and> keyed_by role_Key (ps_roles st) \<and> keyed_by grp_ID (ps_groups st) \<and>
     keyed_by ch_ID (ps_channels st) \<and> keyed_by pc_Scope (ps_configs st) \<and> keyed_by mt_ID (ps_mutes st) \<and>
     (\<forall>scope c. fmlookup (ps_configs st) scope = Some c \<longrightarrow> ScopeValid scope) \<and>
     (\<forall>u b. b \<in> set (rows_at (ps_bindings st) u) \<longrightarrow> ScopeValid (rb_Scope b)) \<and> mutes_ok st"

lemma keyed_by_upd: "\<lbrakk>keyed_by key m; key v = k\<rbrakk> \<Longrightarrow> keyed_by key (fmupd k v m)"
  by (auto simp: keyed_by_def)

lemmas persistent_steps = addUser_def addRole_def addGroup_def addChannel_def addGroupAccess_def addChannelAccess_def
  addBinding_def addConfig_def

lemmas from_db_defs = userFromDB_def roleFromDB_def groupFromDB_def channelFromDB_def accessFromDB_def

lemma persistent_ok_empty: "persistent_ok emptyPersistent"
  by (simp add: persistent_ok_def emptyPersistent_def keyed_by_def mutes_ok_def)

lemma persistent_ok_rows:
  assumes "persistent_ok st"
  shows "addUser st r1 = Return st' \<Longrightarrow> persistent_ok st'" "addRole st r2 = Return st' \<Longrightarrow> persistent_ok st'"
    "addGroup st r3 = Return st' \<Longrightarrow> persistent_ok st'" "addChannel st r4 = Return st' \<Longrightarrow> persistent_ok st'"
    "addGroupAccess st r5 = Return st' \<Longrightarrow> persistent_ok st'" "addChannelAccess st r6 = Return st' \<Longrightarrow> persistent_ok st'"
  using assms
  by (auto simp: persistent_steps persistent_ok_def mutes_ok_def from_db_defs intro!: keyed_by_upd split: if_splits)

lemma persistent_ok_binding:
  assumes "persistent_ok st" "addBinding st r = Return st'"
  shows "persistent_ok st'"
proof -
  obtain b where b: "bindingFromDB r = Return b" "st' = st\<lparr>ps_bindings := push_row (ps_bindings st) (dbb_UserID r) b\<rparr>"
    using assms(2) by (auto simp: addBinding_def outcome_bind_Return)
  then have "ScopeValid (rb_Scope b)" by (auto simp: bindingFromDB_def split: outcome.splits intro: scopeFromNullable_valid)
  with b assms(1) show ?thesis by (auto simp: persistent_ok_def mutes_ok_def split: if_splits)
qed

lemma persistent_ok_config:
  assumes "persistent_ok st" "addConfig st r = Return st'"
  shows "persistent_ok st'"
proof -
  obtain c where c: "configFromDB r = Return c" "st' = st\<lparr>ps_configs := fmupd (pc_Scope c) c (ps_configs st)\<rparr>"
    using assms(2) by (auto simp: addConfig_def outcome_bind_Return split: if_splits)
  then have "ScopeValid (pc_Scope c)" by (auto simp: configFromDB_def split: outcome.splits intro: scopeFromNullable_valid)
  with c assms(1) show ?thesis by (auto simp: persistent_ok_def mutes_ok_def intro!: keyed_by_upd split: if_splits)
qed

lemma mutes_ok_add:
  assumes "mutes_ok st" "fmlookup (ps_mutes st) (mt_ID m) = None" "ScopeValid (mt_Scope m)"
  shows "mutes_ok (st\<lparr>ps_mutes := fmupd (mt_ID m) m (ps_mutes st), ps_mutesByUser := push_row (ps_mutesByUser st) (mt_UserID m) m\<rparr>)"
  unfolding mutes_ok_def
proof (intro conjI allI)
  fix u x
  show "x \<in> set (rows_at (ps_mutesByUser (st\<lparr>ps_mutes := fmupd (mt_ID m) m (ps_mutes st), ps_mutesByUser := push_row (ps_mutesByUser st) (mt_UserID m) m\<rparr>)) u) \<longleftrightarrow>
    mt_UserID x = u \<and> fmlookup (ps_mutes (st\<lparr>ps_mutes := fmupd (mt_ID m) m (ps_mutes st), ps_mutesByUser := push_row (ps_mutesByUser st) (mt_UserID m) m\<rparr>)) (mt_ID x) = Some x"
    using assms(1,2) by (cases "mt_ID x = mt_ID m") (auto simp: mutes_ok_def)
qed (use assms in \<open>auto simp: mutes_ok_def\<close>)

lemma persistent_ok_mute:
  assumes "persistent_ok st" "addMute st r = Return st'"
  shows "persistent_ok st'"
proof -
  obtain m where m: "muteFromDB r = Return m" "fmlookup (ps_mutes st) (mt_ID m) = None"
    "st' = st\<lparr>ps_mutes := fmupd (mt_ID m) m (ps_mutes st), ps_mutesByUser := push_row (ps_mutesByUser st) (mt_UserID m) m\<rparr>"
    using assms(2) by (auto simp: addMute_def outcome_bind_Return split: if_splits)
  have "ScopeValid (mt_Scope m)" using m(1) by (auto simp: muteFromDB_def split: outcome.splits intro: scopeFromNullable_valid)
  then have "mutes_ok st'" unfolding m(3) using assms(1) m(2) by (intro mutes_ok_add) (simp_all add: persistent_ok_def)
  then show ?thesis using assms(1) m(3) unfolding persistent_ok_def by (auto intro!: keyed_by_upd)
qed

lemma persistent_ok_sort: "persistent_ok st \<Longrightarrow> persistent_ok (sortRows st)"
  by (auto simp: persistent_ok_def mutes_ok_def sortRows_def)

definition keeps_ok :: "(persistentState \<Rightarrow> 'r \<Rightarrow> (state_error, persistentState) outcome) \<Rightarrow> bool" where
  "keeps_ok f \<longleftrightarrow> (\<forall>st r st'. persistent_ok st \<and> f st r = Return st' \<longrightarrow> persistent_ok st')"

lemma keeps_ok_rows: "keeps_ok addUser" "keeps_ok addRole" "keeps_ok addGroup" "keeps_ok addChannel" "keeps_ok addGroupAccess"
  "keeps_ok addChannelAccess" "keeps_ok addBinding" "keeps_ok addConfig" "keeps_ok addMute"
  unfolding keeps_ok_def by (metis persistent_ok_rows(1), metis persistent_ok_rows(2), metis persistent_ok_rows(3),
      metis persistent_ok_rows(4), metis persistent_ok_rows(5), metis persistent_ok_rows(6), metis persistent_ok_binding,
      metis persistent_ok_config, metis persistent_ok_mute)

lemma persistent_fold: "\<lbrakk>fold_outcome f st xs = Return st'; keeps_ok f; persistent_ok st\<rbrakk> \<Longrightarrow> persistent_ok st'"
  by (rule fold_outcome_invariant [where P = persistent_ok]) (auto simp: keeps_ok_def)

lemma newPersistentState_ok:
  assumes "newPersistentState p = Return st"
  shows "persistent_ok st"
  using assms
  by (auto simp: newPersistentState_def outcome_bind_Return split: option.splits
      intro!: persistent_ok_sort) (((erule persistent_fold, rule keeps_ok_rows)+), rule persistent_ok_empty)

lemma EffectiveMute_iff:
  assumes "persistent_ok (sv_persistent v)"
  shows "EffectiveMute v u c kind now \<longleftrightarrow> 0 < sint u \<and> 0 < sint c \<and> kind \<noteq> [] \<and> 0 < sint now \<and>
    (\<exists>channel m. ChannelOf v c = Some channel \<and> MuteOf v (mt_ID m) = Some m \<and> mt_UserID m = u \<and> mt_Kind m = kind \<and>
       (case mt_ExpiresAt m of None \<Rightarrow> True | Some t \<Rightarrow> sint now < sint t) \<and>
       mt_Scope m \<in> {server_scope, \<lparr>sc_Type = ''channel'', sc_ID = c\<rparr>} \<union> (\<lambda>g. \<lparr>sc_Type = ''group'', sc_ID = g\<rparr>) ` set_option (ch_GroupID channel))"
proof -
  have rows: "m \<in> set (rows_at (ps_mutesByUser (sv_persistent v)) u) \<longleftrightarrow> mt_UserID m = u \<and> MuteOf v (mt_ID m) = Some m" for m
    using assms by (auto simp: persistent_ok_def mutes_ok_def MuteOf_def)
  define covered where "covered channel m \<longleftrightarrow>
      mt_Scope m \<in> {server_scope, \<lparr>sc_Type = ''channel'', sc_ID = c\<rparr>} \<union> (\<lambda>g. \<lparr>sc_Type = ''group'', sc_ID = g\<rparr>) ` set_option (ch_GroupID channel)"
    for channel :: Channel and m :: Mute
  define live where "live m \<longleftrightarrow> (case mt_ExpiresAt m of None \<Rightarrow> True | Some t \<Rightarrow> sint now < sint t)" for m :: Mute
  have covers: "muteCovers channel c m \<longleftrightarrow> covered channel m" for channel m
    by (cases "mt_Scope m") (auto simp: muteCovers_def covered_def)
  have lapsed: "muteLapsed now m \<longleftrightarrow> \<not> live m" for m
    by (auto simp: muteLapsed_def live_def split: option.splits)
  show ?thesis
    unfolding EffectiveMute_def list_ex_iff covers lapsed covered_def [symmetric] live_def [symmetric] ChannelOf_def [symmetric] Bex_def rows
    by (cases "ChannelOf v c") (auto simp: not_le)
qed

subsection \<open>The runtime state\<close>

text \<open>The index of voice authorities by channel lists exactly the authorities of the table, ordered by user.\<close>

definition runtime_ok :: "runtimeState \<Rightarrow> bool" where
  "runtime_ok r \<longleftrightarrow>
     (\<forall>u a. fmlookup (rt_voiceAuthorities r) u = Some a \<longrightarrow> va_UserID a = u \<and> VoiceAuthorityValid a) \<and>
     (\<forall>c. sorted_wrt (\<lambda>a b. sint (va_UserID a) < sint (va_UserID b)) (rows_at (rt_voiceByChannel r) c)) \<and>
     (\<forall>c a. a \<in> set (rows_at (rt_voiceByChannel r) c) \<longleftrightarrow> va_ChannelID a = c \<and> fmlookup (rt_voiceAuthorities r) (va_UserID a) = Some a)"

lemma sort_by_strict:
  assumes "distinct (map f xs)"
  shows "sorted_wrt (\<lambda>a b. f a < f b) (sort_by f xs)"
proof -
  have "distinct (map f (sort_by f xs))" using assms by (simp add: distinct_map)
  then have "sorted_wrt (<) (map f (sort_by f xs))" by (simp add: strict_sorted_iff)
  then show ?thesis by (simp add: sorted_wrt_map)
qed

lemma strict_distinct: "sorted_wrt (\<lambda>a b. f a < (f b :: 'k::linorder)) xs \<Longrightarrow> distinct (map f xs)"
  using strict_sorted_iff [of "map f xs"] by (simp add: sorted_wrt_map)

lemma removeVoice_rows:
  "rows_at (rt_voiceByChannel (removeVoiceAuthorityIndex r a)) c =
     (if c = va_ChannelID a then filter (\<lambda>m. va_UserID m \<noteq> va_UserID a) (rows_at (rt_voiceByChannel r) c) else rows_at (rt_voiceByChannel r) c)"
  "rt_voiceAuthorities (removeVoiceAuthorityIndex r a) = rt_voiceAuthorities r"
  by (auto simp: removeVoiceAuthorityIndex_def Let_def)

lemma runtime_ok_remove:
  assumes "runtime_ok r" "fmlookup (rt_voiceAuthorities r) u = Some p"
  shows "runtime_ok ((removeVoiceAuthorityIndex r p)\<lparr>rt_voiceAuthorities := fmdrop u (rt_voiceAuthorities r)\<rparr>)"
proof -
  have p: "va_UserID p = u" using assms by (auto simp: runtime_ok_def)
  have "sorted_wrt (\<lambda>a b. sint (va_UserID a) < sint (va_UserID b)) (filter P (rows_at (rt_voiceByChannel r) c))" for P c
    using assms(1) by (auto simp: runtime_ok_def intro: sorted_wrt_filter)
  then show ?thesis using assms p unfolding runtime_ok_def by (auto simp: removeVoice_rows)
qed

lemma runtime_ok_clear:
  assumes "runtime_ok r"
  shows "runtime_ok (let r1 = (case fmlookup (rt_voiceAuthorities r) u of None \<Rightarrow> r | Some previous \<Rightarrow> removeVoiceAuthorityIndex r previous)
    in r1\<lparr>rt_voiceAuthorities := fmdrop u (rt_voiceAuthorities r1)\<rparr>)"
proof (cases "fmlookup (rt_voiceAuthorities r) u")
  case None
  then have "fmdrop u (rt_voiceAuthorities r) = rt_voiceAuthorities r" by (intro fmap_ext) auto
  then show ?thesis using None assms by simp
next
  case (Some p)
  then show ?thesis using runtime_ok_remove [OF assms Some] by (simp add: removeVoice_rows(2))
qed

lemma runtime_ok_add:
  assumes ok: "runtime_ok r" and free: "fmlookup (rt_voiceAuthorities r) u = None" and a: "va_UserID a = u" "VoiceAuthorityValid a"
  shows "runtime_ok (addVoiceAuthorityIndex (r\<lparr>rt_voiceAuthorities := fmupd u a (rt_voiceAuthorities r)\<rparr>) a)"
proof -
  let ?rows = "rows_at (rt_voiceByChannel r)" and ?f = "\<lambda>m. sint (va_UserID m)"
  have mem: "x \<in> set (?rows c) \<longleftrightarrow> va_ChannelID x = c \<and> fmlookup (rt_voiceAuthorities r) (va_UserID x) = Some x" for c x
    using ok by (simp add: runtime_ok_def)
  have "\<forall>x \<in> set (?rows c). va_UserID x \<noteq> u" for c using free by (auto simp: mem)
  then have "?f a \<notin> ?f ` set (?rows c)" for c using a(1) signed_word_eqI by (metis (no_types, lifting) imageE)
  then have "distinct (map ?f (?rows c @ [a]))" for c
    using ok strict_distinct [of ?f "?rows c"] by (simp add: runtime_ok_def)
  note strict = sort_by_strict [OF this]
  let ?r' = "addVoiceAuthorityIndex (r\<lparr>rt_voiceAuthorities := fmupd u a (rt_voiceAuthorities r)\<rparr>) a"
  have rows': "rows_at (rt_voiceByChannel ?r') c = (if c = va_ChannelID a then sort_by ?f (?rows c @ [a]) else ?rows c)" for c
    by (simp add: addVoiceAuthorityIndex_def)
  have auth': "rt_voiceAuthorities ?r' = fmupd u a (rt_voiceAuthorities r)" by (simp add: addVoiceAuthorityIndex_def)
  have "sorted_wrt (\<lambda>x y. ?f x < ?f y) (?rows c)" for c using ok by (simp add: runtime_ok_def)
  with strict have "sorted_wrt (\<lambda>x y. ?f x < ?f y) (rows_at (rt_voiceByChannel ?r') c)" for c unfolding rows' by simp
  moreover have "x \<in> set (rows_at (rt_voiceByChannel ?r') c) \<longleftrightarrow> va_ChannelID x = c \<and> fmlookup (rt_voiceAuthorities ?r') (va_UserID x) = Some x" for c x
    unfolding rows' auth' using a free by (cases "x = a") (auto simp: mem)
  moreover have "va_UserID x = v \<and> VoiceAuthorityValid x" if "fmlookup (rt_voiceAuthorities ?r') v = Some x" for v x
    using that ok a unfolding auth' by (auto simp: runtime_ok_def split: if_splits)
  ultimately show ?thesis unfolding runtime_ok_def by blast
qed

lemma SetVoiceAuthority_ok:
  assumes "runtime_ok (sv_runtime (sd_version c))" "SetVoiceAuthority c u x = Return c'"
  shows "runtime_ok (sv_runtime (sd_version c'))"
proof -
  define r where "r = sv_runtime (sd_version c)"
  define r2 where "r2 = (let r1 = (case fmlookup (rt_voiceAuthorities r) u of None \<Rightarrow> r | Some previous \<Rightarrow> removeVoiceAuthorityIndex r previous)
    in r1\<lparr>rt_voiceAuthorities := fmdrop u (rt_voiceAuthorities r1)\<rparr>)"
  have r2: "runtime_ok r2" unfolding r2_def using assms(1) by (intro runtime_ok_clear) (simp add: r_def)
  have free: "fmlookup (rt_voiceAuthorities r2) u = None" by (simp add: r2_def Let_def split: option.splits)
  have c': "sv_runtime (sd_version c') =
      (case x of None \<Rightarrow> r2 | Some a \<Rightarrow> addVoiceAuthorityIndex (r2\<lparr>rt_voiceAuthorities := fmupd u a (rt_voiceAuthorities r2)\<rparr>) a)"
    using assms(2) unfolding r2_def r_def by (cases x) (auto simp: SetVoiceAuthority_def upd_runtime_def Let_def split: if_splits)
  show ?thesis
  proof (cases x)
    case (Some a)
    then have "va_UserID a = u" "VoiceAuthorityValid a" using assms(2) by (auto simp: SetVoiceAuthority_def Let_def split: if_splits)
    then show ?thesis using runtime_ok_add [OF r2 free] Some by (simp add: c')
  qed (simp add: c' r2)
qed

lemma runtime_ok_frame:
  "\<lbrakk>runtime_ok r; rt_voiceAuthorities r' = rt_voiceAuthorities r; rt_voiceByChannel r' = rt_voiceByChannel r\<rbrakk> \<Longrightarrow> runtime_ok r'"
  by (simp add: runtime_ok_def)

text \<open>The operations services apply to a candidate before it is published.\<close>

inductive candidate_step :: "StateCandidate \<Rightarrow> StateCandidate \<Rightarrow> bool" where
  "SetPresence c u p = Return c' \<Longrightarrow> candidate_step c c'"
| "ClearPresence c u = Return c' \<Longrightarrow> candidate_step c c'"
| "candidate_step c (IncrementModerationEpoch c)"
| "ScheduleTemporaryExpiry c ch d = Return (s, c') \<Longrightarrow> candidate_step c c'"
| "ClearTemporaryExpiry c ch = (x, c') \<Longrightarrow> candidate_step c c'"
| "ScheduleMuteExpiry c m d = Return (s, c') \<Longrightarrow> candidate_step c c'"
| "candidate_step c (ClearMuteExpiry c m)"
| "SetVoiceAuthority c u a = Return c' \<Longrightarrow> candidate_step c c'"
| "TransitionVoiceAuthority c prev cur = Return (b, c') \<Longrightarrow> candidate_step c c'"

text \<open>A candidate keeps its base, its number, its checkpoint, its persistent state and its visibility epochs;
  the voice index stays exact.\<close>

definition same_frame :: "StateCandidate \<Rightarrow> StateCandidate \<Rightarrow> bool" where
  "same_frame c c' \<longleftrightarrow> sd_base c' = sd_base c \<and> sv_number (sd_version c') = sv_number (sd_version c) \<and>
     sv_checkpoint (sd_version c') = sv_checkpoint (sd_version c) \<and> sv_persistent (sd_version c') = sv_persistent (sd_version c) \<and>
     rt_visibilityEpochs (sv_runtime (sd_version c')) = rt_visibilityEpochs (sv_runtime (sd_version c))"

lemma removeVoice_epochs [simp]:
  "rt_visibilityEpochs (removeVoiceAuthorityIndex r a) = rt_visibilityEpochs r"
  "rt_visibilityEpochs (addVoiceAuthorityIndex r a) = rt_visibilityEpochs r"
  by (simp_all add: removeVoiceAuthorityIndex_def addVoiceAuthorityIndex_def Let_def)

lemma SetVoiceAuthority_frame: "SetVoiceAuthority c u x = Return c' \<Longrightarrow> same_frame c c'"
  by (auto simp: SetVoiceAuthority_def same_frame_def upd_runtime_def Let_def split: if_splits option.splits)

lemma candidate_step_ok:
  assumes "candidate_step c c'"
  shows "same_frame c c' \<and> (runtime_ok (sv_runtime (sd_version c)) \<longrightarrow> runtime_ok (sv_runtime (sd_version c')))"
  using assms
proof (induction rule: candidate_step.induct)
  case (8 c u a c')
  then show ?case using SetVoiceAuthority_ok SetVoiceAuthority_frame by blast
next
  case (9 c prev cur b c')
  then have "c' = c \<or> (\<exists>u. SetVoiceAuthority c u cur = Return c')"
    by (auto simp: TransitionVoiceAuthority_def Let_def outcome_bind_Return split: if_splits)
  then show ?case using SetVoiceAuthority_ok SetVoiceAuthority_frame by (auto simp: same_frame_def)
qed (auto simp: SetPresence_def ClearPresence_def IncrementModerationEpoch_def ScheduleTemporaryExpiry_def ClearTemporaryExpiry_def
    ScheduleMuteExpiry_def ClearMuteExpiry_def upd_runtime_def same_frame_def Let_def
    intro: runtime_ok_frame split: if_splits option.splits)

end
