(* ===== verification/Visibility.thy ===== *)
theory Visibility
  imports StateStore
begin

text \<open>
  The visibility rules of \<^verbatim>\<open>internal/realtime/visibility.go\<close> over one published version: who sees a group,
  who may access a channel, the visible scopes of a user in key order, and the difference of two
  versions.  The resolver is stateless, so its methods are functions of the version.
\<close>

section \<open>Definitions\<close>

definition knownUser :: "int64 \<Rightarrow> StateVersion \<Rightarrow> bool" where
  "knownUser userID v = (fmlookup (ps_users (sv_persistent v)) userID \<noteq> None)"

definition isOwner :: "int64 \<Rightarrow> StateVersion \<Rightarrow> bool" where
  "isOwner userID v =
     list_ex (\<lambda>b. rb_RoleKey b = ''owner'' \<and> sc_Type (rb_Scope b) = ''server'') (rows_at (ps_bindings (sv_persistent v)) userID)"

definition hasRoleAtGroup :: "int64 \<Rightarrow> string \<Rightarrow> int64 \<Rightarrow> StateVersion \<Rightarrow> bool" where
  "hasRoleAtGroup userID roleKey groupID v =
     list_ex (\<lambda>b. rb_RoleKey b = roleKey \<and>
        (sc_Type (rb_Scope b) = ''server'' \<or> sc_Type (rb_Scope b) = ''group'' \<and> sc_ID (rb_Scope b) = groupID))
       (rows_at (ps_bindings (sv_persistent v)) userID)"

definition hasRoleAtChannel :: "int64 \<Rightarrow> string \<Rightarrow> Channel \<Rightarrow> StateVersion \<Rightarrow> bool" where
  "hasRoleAtChannel userID roleKey channel v =
     list_ex (\<lambda>b. rb_RoleKey b = roleKey \<and>
        (sc_Type (rb_Scope b) = ''server'' \<or> sc_Type (rb_Scope b) = ''channel'' \<and> sc_ID (rb_Scope b) = ch_ID channel \<or>
         (case ch_GroupID channel of None \<Rightarrow> False | Some g \<Rightarrow> sc_Type (rb_Scope b) = ''group'' \<and> sc_ID (rb_Scope b) = g)))
       (rows_at (ps_bindings (sv_persistent v)) userID)"

definition matchesGroupAccess :: "int64 \<Rightarrow> int64 \<Rightarrow> StateVersion \<Rightarrow> bool" where
  "matchesGroupAccess userID groupID v =
     list_ex (\<lambda>e. ac_UserID e = Some userID \<or> (case ac_RoleKey e of None \<Rightarrow> False | Some k \<Rightarrow> hasRoleAtGroup userID k groupID v))
       (rows_at (ps_groupAccess (sv_persistent v)) groupID)"

definition matchesChannelAccess :: "int64 \<Rightarrow> Channel \<Rightarrow> StateVersion \<Rightarrow> bool" where
  "matchesChannelAccess userID channel v =
     list_ex (\<lambda>e. ac_UserID e = Some userID \<or> (case ac_RoleKey e of None \<Rightarrow> False | Some k \<Rightarrow> hasRoleAtChannel userID k channel v))
       (rows_at (ps_channelAccess (sv_persistent v)) (ch_ID channel))"

definition CanSeeGroup :: "int64 \<Rightarrow> int64 \<Rightarrow> StateVersion \<Rightarrow> bool" where
  "CanSeeGroup userID groupID v =
     (case fmlookup (ps_groups (sv_persistent v)) groupID of None \<Rightarrow> False
      | Some grp \<Rightarrow>
          if \<not> knownUser userID v then False
          else if isOwner userID v \<or> grp_Visibility grp = ''public'' then True
          else matchesGroupAccess userID groupID v)"

definition CanAccessChannel :: "int64 \<Rightarrow> int64 \<Rightarrow> StateVersion \<Rightarrow> bool" where
  "CanAccessChannel userID channelID v =
     (case fmlookup (ps_channels (sv_persistent v)) channelID of None \<Rightarrow> False
      | Some channel \<Rightarrow>
          if \<not> knownUser userID v then False
          else if (case ch_GroupID channel of None \<Rightarrow> False | Some g \<Rightarrow> \<not> CanSeeGroup userID g v) then False
          else if isOwner userID v \<or> ch_Visibility channel = ''public'' then True
          else matchesChannelAccess userID channel v)"

definition VisibleScopeIDs :: "int64 \<Rightarrow> StateVersion \<Rightarrow> Scope list" where
  "VisibleScopeIDs userID v =
     (if \<not> knownUser userID v then []
      else sort_by ScopeKey
        (map (\<lambda>g. \<lparr>sc_Type = ''group'', sc_ID = g\<rparr>) (filter (\<lambda>g. CanSeeGroup userID g v) (sorted_list_of_fset (fmdom (ps_groups (sv_persistent v))))) @
         map (\<lambda>c. \<lparr>sc_Type = ''channel'', sc_ID = c\<rparr>) (filter (\<lambda>c. CanAccessChannel userID c v) (sorted_list_of_fset (fmdom (ps_channels (sv_persistent v)))))))"

record VisibilityChange =
  vc_Granted :: "Scope list"
  vc_Revoked :: "Scope list"

definition Changed :: "VisibilityChange \<Rightarrow> bool" where
  "Changed c = (vc_Granted c \<noteq> [] \<or> vc_Revoked c \<noteq> [])"

definition DiffScopes :: "int64 \<Rightarrow> StateVersion \<Rightarrow> StateVersion \<Rightarrow> VisibilityChange" where
  "DiffScopes userID before after =
     (let b = VisibleScopeIDs userID before; a = VisibleScopeIDs userID after
      in \<lparr>vc_Granted = sort_by ScopeKey (filter (\<lambda>s. s \<notin> set b) a), vc_Revoked = sort_by ScopeKey (filter (\<lambda>s. s \<notin> set a) b)\<rparr>)"

section \<open>Theorems\<close>

lemma set_VisibleScopeIDs:
  "s \<in> set (VisibleScopeIDs u v) \<longleftrightarrow>
     sc_Type s = ''group'' \<and> CanSeeGroup u (sc_ID s) v \<or> sc_Type s = ''channel'' \<and> CanAccessChannel u (sc_ID s) v"
proof -
  have k: "CanSeeGroup u g v \<Longrightarrow> knownUser u v \<and> g |\<in>| fmdom (ps_groups (sv_persistent v))"
    "CanAccessChannel u c v \<Longrightarrow> knownUser u v \<and> c |\<in>| fmdom (ps_channels (sv_persistent v))" for g c
    by (auto simp: CanSeeGroup_def CanAccessChannel_def fmlookup_dom_iff split: option.splits if_splits)
  show ?thesis
    by (cases s) (auto simp: VisibleScopeIDs_def dest: k)
qed

lemma distinct_VisibleScopeIDs: "distinct (VisibleScopeIDs u v)"
  by (auto simp: VisibleScopeIDs_def distinct_map inj_on_def sorted_list_of_fset.rep_eq)

lemma Diff_sets:
  "set (vc_Granted (DiffScopes u b a)) = set (VisibleScopeIDs u a) - set (VisibleScopeIDs u b)"
  "set (vc_Revoked (DiffScopes u b a)) = set (VisibleScopeIDs u b) - set (VisibleScopeIDs u a)"
  by (auto simp: DiffScopes_def Let_def)

lemma Diff_same: "VisibleScopeIDs u b = VisibleScopeIDs u a \<Longrightarrow> \<not> Changed (DiffScopes u b a)"
  by (simp add: DiffScopes_def Changed_def Let_def sort_by_def)

lemma ScopeKey_inj:
  assumes "ScopeValid s" "ScopeValid t" "ScopeKey s = ScopeKey t"
  shows "s = t"
proof -
  have colon: "CHR '':'' \<notin> set (FormatInt w)" if "0 < sint w" for w
    using that decimal_digits [of "CHR '':''" "nat (sint w)"] sign_no_digit by (auto simp: FormatInt_nonneg)
  have "sc_Type s = sc_Type t \<and> (sc_Type s \<noteq> ''server'' \<longrightarrow> FormatInt (sc_ID s) = FormatInt (sc_ID t))"
    using assms by (auto simp: ScopeKey_def ScopeValid_def split: if_splits)
  then have "sc_Type s = sc_Type t" "sc_ID s = sc_ID t"
    using assms(1,2) FormatInt_inj by (auto simp: ScopeValid_def split: if_splits)
  then show ?thesis by (cases s, cases t) simp
qed

lemma owner_sees_all:
  assumes "isOwner u v" "knownUser u v"
  shows "CanSeeGroup u g v \<longleftrightarrow> GroupOf v g \<noteq> None"
    and "CanAccessChannel u c v \<longleftrightarrow>
      (case ChannelOf v c of None \<Rightarrow> False | Some ch \<Rightarrow> (case ch_GroupID ch of None \<Rightarrow> True | Some g \<Rightarrow> GroupOf v g \<noteq> None))"
  using assms by (auto simp: CanSeeGroup_def CanAccessChannel_def GroupOf_def ChannelOf_def split: option.splits)

lemma sort_filter_idem: "sort_by f (filter P (sort_by f xs)) = filter P (sort_by f xs)"
  by (simp add: sort_by_def sort_key_id_if_sorted sorted_filter)

text \<open>The difference of two versions is exact for every user: the scopes visible after are those
  visible before, less the revoked and with the granted ones; nothing is both granted and revoked, no
  scope is listed twice, the lists are in key order, and the change is empty exactly when the visible
  sets agree.  The visibility epoch, which advances when \<^verbatim>\<open>Changed\<close> holds, therefore advances exactly when
  the set a client may cache has changed.\<close>

theorem visibility_diff_exact:
  "let d = DiffScopes u b a; before = set (VisibleScopeIDs u b); after = set (VisibleScopeIDs u a) in
   after = (before - set (vc_Revoked d)) \<union> set (vc_Granted d) \<and> set (vc_Granted d) \<inter> before = {} \<and> set (vc_Revoked d) \<subseteq> before \<and>
   set (vc_Revoked d) \<inter> after = {} \<and> distinct (vc_Granted d) \<and> distinct (vc_Revoked d) \<and>
   sorted (map ScopeKey (vc_Granted d)) \<and> sorted (map ScopeKey (vc_Revoked d)) \<and> Changed d = (before \<noteq> after)"
proof -
  have d: "distinct (vc_Granted (DiffScopes u b a))" "distinct (vc_Revoked (DiffScopes u b a))"
    by (simp_all add: DiffScopes_def Let_def distinct_VisibleScopeIDs)
  have s: "sorted (map ScopeKey (vc_Granted (DiffScopes u b a)))" "sorted (map ScopeKey (vc_Revoked (DiffScopes u b a)))"
    by (simp_all add: DiffScopes_def Let_def)
  have c: "Changed (DiffScopes u b a) \<longleftrightarrow> set (vc_Granted (DiffScopes u b a)) \<noteq> {} \<or> set (vc_Revoked (DiffScopes u b a)) \<noteq> {}"
    by (simp add: Changed_def)
  show ?thesis unfolding Let_def using d s unfolding c Diff_sets by blast
qed

end
