(* ===== verification/Rbac.thy ===== *)
theory Rbac
  imports Visibility
begin

text \<open>
  Authorization: the permission registry (\<^verbatim>\<open>internal/rbac/permissions.go\<close>), the deny-by-default server
  authorizer (\<^verbatim>\<open>internal/rbac/rbac.go\<close>) and the resource-scoped authorizer
  (\<^verbatim>\<open>internal/rbac/scope/authorizer.go\<close>).  Permission configurations are JSON texts; \<^verbatim>\<open>json.Unmarshal\<close> into
  a map of string lists is the parameter \<open>unmarshal\<close>, which yields \<open>None\<close> for an error and for \<^verbatim>\<open>null\<close>.
\<close>

section \<open>Definitions\<close>

type_synonym Permission = string

definition Wildcard :: Permission where "Wildcard = ''*''"

definition PermServerManage :: Permission where "PermServerManage = ''server.manage''"
definition PermServerMetrics :: Permission where "PermServerMetrics = ''server.metrics''"
definition PermRoleManage :: Permission where "PermRoleManage = ''role.manage''"
definition PermUserRead :: Permission where "PermUserRead = ''user:read''"
definition PermUserUpdate :: Permission where "PermUserUpdate = ''user:update''"
definition PermUserDelete :: Permission where "PermUserDelete = ''user:delete''"
definition PermUserKick :: Permission where "PermUserKick = ''user:kick''"
definition PermInviteManage :: Permission where "PermInviteManage = ''invite.manage''"
definition PermGroupCreate :: Permission where "PermGroupCreate = ''group.create''"
definition PermGroupManage :: Permission where "PermGroupManage = ''group.manage''"
definition PermChannelCreate :: Permission where "PermChannelCreate = ''channel.create''"
definition PermChannelCreateTemp :: Permission where "PermChannelCreateTemp = ''channel.create_temporary''"
definition PermChannelManage :: Permission where "PermChannelManage = ''channel.manage''"
definition PermChannelInvite :: Permission where "PermChannelInvite = ''channel.invite''"
definition PermChannelAnnounce :: Permission where "PermChannelAnnounce = ''channel.announce''"
definition PermMemberMute :: Permission where "PermMemberMute = ''member.mute''"

lemmas perm_defs = Wildcard_def PermServerManage_def PermServerMetrics_def PermRoleManage_def PermUserRead_def PermUserUpdate_def PermUserDelete_def
  PermUserKick_def PermInviteManage_def PermGroupCreate_def PermGroupManage_def PermChannelCreate_def PermChannelCreateTemp_def
  PermChannelManage_def PermChannelInvite_def PermChannelAnnounce_def PermMemberMute_def

definition AllPermissions :: "Permission list" where
  "AllPermissions = [PermServerManage, PermServerMetrics, PermRoleManage, PermUserRead, PermUserUpdate, PermUserDelete, PermUserKick,
     PermInviteManage, PermGroupCreate, PermGroupManage, PermChannelCreate, PermChannelCreateTemp, PermChannelManage, PermChannelInvite,
     PermChannelAnnounce, PermMemberMute]"

definition IsKnown :: "Permission \<Rightarrow> bool" where
  "IsKnown p = (p \<in> set AllPermissions)"

definition AllowedAtScope :: "string \<Rightarrow> Permission \<Rightarrow> bool" where
  "AllowedAtScope scopeType p =
     (if scopeType = ''server'' then IsKnown p
      else if scopeType = ''group''
      then p \<in> set [PermGroupManage, PermChannelCreate, PermChannelCreateTemp, PermChannelManage, PermChannelInvite, PermChannelAnnounce, PermMemberMute]
      else if scopeType = ''channel'' then p \<in> set [PermChannelManage, PermChannelInvite, PermChannelAnnounce, PermMemberMute]
      else False)"

definition defaultServerPermissions :: "(string \<times> Permission list) list" where
  "defaultServerPermissions = [(''owner'', [Wildcard]), (''admin'', AllPermissions), (''member'', [PermChannelCreateTemp])]"

subsection \<open>The server authorizer\<close>

record ServerBinding =
  sb_RoleKey :: string
  sb_ScopeType :: string
  sb_GroupID :: "int64 option"
  sb_ChannelID :: "int64 option"

record Principal =
  pp_UserID :: int64
  pp_Bindings :: "ServerBinding list"

record CheckDecision =
  dc_Allow :: bool
  dc_Reason :: string

text \<open>A permission store answers with an error, with no such role, or with the permissions of the role.\<close>

type_synonym permission_store = "string \<Rightarrow> Permission list option option"

fun collectPermissions :: "permission_store \<Rightarrow> Permission list \<Rightarrow> ServerBinding list \<Rightarrow> Permission list option" where
  "collectPermissions store acc [] = Some acc"
| "collectPermissions store acc (b # bs) =
     (if sb_ScopeType b \<noteq> ''server'' then collectPermissions store acc bs
      else case store (sb_RoleKey b) of None \<Rightarrow> None
        | Some None \<Rightarrow> collectPermissions store acc bs
        | Some (Some granted) \<Rightarrow>
            collectPermissions store (foldl (\<lambda>ps p. if p \<in> set ps then ps else ps @ [p]) acc granted) bs)"

definition effectivePermissions :: "permission_store \<Rightarrow> Principal \<Rightarrow> Permission list option" where
  "effectivePermissions store p = map_option sort (collectPermissions store [] (pp_Bindings p))"

definition Check :: "permission_store \<Rightarrow> Principal \<Rightarrow> Permission \<Rightarrow> CheckDecision" where
  "Check store p perm =
     (case effectivePermissions store p of None \<Rightarrow> \<lparr>dc_Allow = False, dc_Reason = ''denied: permission lookup failed''\<rparr>
      | Some ps \<Rightarrow>
          if list_ex (\<lambda>granted. granted = Wildcard \<or> granted = perm) ps then \<lparr>dc_Allow = True, dc_Reason = ''allowed''\<rparr>
          else \<lparr>dc_Allow = False, dc_Reason = ''denied: missing permission '' @ perm\<rparr>)"

subsection \<open>The scoped authorizer\<close>

record Authority =
  au_Owner :: bool
  au_Rank :: int
  au_Permissions :: "Permission list"

record ScopeDecision =
  sd_Allow :: bool
  sd_Visible :: bool
  sd_Authority :: Authority
  sd_Reason :: string

datatype rbac_error = ErrInvalidState

abbreviation zeroAuthority :: Authority where "zeroAuthority \<equiv> \<lparr>au_Owner = False, au_Rank = 0, au_Permissions = []\<rparr>"

definition targetExists :: "Scope \<Rightarrow> StateVersion \<Rightarrow> bool" where
  "targetExists target v =
     (if sc_Type target = ''server'' then True
      else if sc_Type target = ''group'' then GroupOf v (sc_ID target) \<noteq> None
      else ChannelOf v (sc_ID target) \<noteq> None)"

definition visibleAt :: "int64 \<Rightarrow> Scope \<Rightarrow> StateVersion \<Rightarrow> bool" where
  "visibleAt userID target v =
     (if sc_Type target = ''server'' then True
      else if sc_Type target = ''group'' then CanSeeGroup userID (sc_ID target) v
      else CanAccessChannel userID (sc_ID target) v)"

definition bindingApplies :: "RoleBinding \<Rightarrow> Scope \<Rightarrow> StateVersion \<Rightarrow> bool" where
  "bindingApplies b target v =
     (if sc_Type (rb_Scope b) = ''server'' then True
      else if sc_Type target = ''server'' then False
      else if sc_Type target = ''group'' then sc_Type (rb_Scope b) = ''group'' \<and> sc_ID (rb_Scope b) = sc_ID target
      else case ChannelOf v (sc_ID target) of None \<Rightarrow> False
        | Some channel \<Rightarrow>
            if sc_Type (rb_Scope b) = ''channel'' then sc_ID (rb_Scope b) = sc_ID target
            else sc_Type (rb_Scope b) = ''group'' \<and> ch_GroupID channel = Some (sc_ID (rb_Scope b)))"

definition effectiveConfig :: "Scope \<Rightarrow> StateVersion \<Rightarrow> (rbac_error, PermissionConfig) outcome" where
  "effectiveConfig target v =
     (case ConfigOf v target of Some config \<Rightarrow> Return config
      | None \<Rightarrow>
          let root = (case ConfigOf v server_scope of None \<Rightarrow> Fail ErrInvalidState | Some config \<Rightarrow> Return config)
          in if sc_Type target = ''channel''
             then (case ChannelOf v (sc_ID target) of None \<Rightarrow> Fail ErrInvalidState
                   | Some channel \<Rightarrow>
                       (case ch_GroupID channel of None \<Rightarrow> root
                        | Some g \<Rightarrow> (case ConfigOf v \<lparr>sc_Type = ''group'', sc_ID = g\<rparr> of Some config \<Rightarrow> Return config | None \<Rightarrow> root)))
             else root)"

type_synonym unmarshal = "string \<Rightarrow> (string, string list) fmap option"

definition addGrants :: "Scope \<Rightarrow> Permission list \<Rightarrow> string list \<Rightarrow> Permission list" where
  "addGrants target = foldl (\<lambda>ps p. if \<not> IsKnown p \<or> \<not> AllowedAtScope (sc_Type target) p then ps else if p \<in> set ps then ps else ps @ [p])"

fun authorityLoop :: "(string, string list) fmap \<Rightarrow> Scope \<Rightarrow> StateVersion \<Rightarrow> Authority \<Rightarrow> RoleBinding list \<Rightarrow> (rbac_error, Authority) outcome" where
  "authorityLoop grants target v a [] = Return a"
| "authorityLoop grants target v a (b # bs) =
     (if \<not> bindingApplies b target v then authorityLoop grants target v a bs
      else case RoleOf v (rb_RoleKey b) of None \<Rightarrow> Fail ErrInvalidState
        | Some role \<Rightarrow>
            let a1 = a\<lparr>au_Rank := max (au_Rank a) (sint (role_Rank role))\<rparr>
            in if rb_RoleKey b = ''owner'' \<and> rb_Scope b = server_scope
               then authorityLoop grants target v (a1\<lparr>au_Owner := True\<rparr>) bs
               else authorityLoop grants target v (a1\<lparr>au_Permissions := addGrants target (au_Permissions a1) (rows_at grants (rb_RoleKey b))\<rparr>) bs)"

definition AuthorityOf :: "unmarshal \<Rightarrow> int64 \<Rightarrow> Scope \<Rightarrow> StateVersion \<Rightarrow> (rbac_error, Authority) outcome" where
  "AuthorityOf unmarshal userID target v =
     (if sint userID \<le> 0 \<or> \<not> ScopeValid target then Fail ErrInvalidState
      else if UserOf v userID = None \<or> \<not> targetExists target v then Return (zeroAuthority\<lparr>au_Rank := - 1\<rparr>)
      else outcome_bind (effectiveConfig target v) (\<lambda>config.
        case unmarshal (pc_Config config) of None \<Rightarrow> Fail ErrInvalidState
        | Some grants \<Rightarrow>
            outcome_bind (authorityLoop grants target v (zeroAuthority\<lparr>au_Rank := - 1\<rparr>) (Bindings v userID))
              (\<lambda>a. Return (a\<lparr>au_Permissions := sort (au_Permissions a)\<rparr>))))"

definition Decide :: "unmarshal \<Rightarrow> int64 \<Rightarrow> Scope \<Rightarrow> Permission \<Rightarrow> StateVersion \<Rightarrow> (rbac_error, ScopeDecision) outcome" where
  "Decide unmarshal userID target permission v =
     (let deny = (\<lambda>visible a reason. Return \<lparr>sd_Allow = False, sd_Visible = visible, sd_Authority = a, sd_Reason = reason\<rparr>)
      in if sint userID \<le> 0 \<or> \<not> ScopeValid target \<or> \<not> AllowedAtScope (sc_Type target) permission
         then deny False zeroAuthority ''invalid authorization target''
         else if UserOf v userID = None then deny False zeroAuthority ''unknown user''
         else if \<not> targetExists target v then deny False zeroAuthority ''target not found''
         else outcome_bind (AuthorityOf unmarshal userID target v) (\<lambda>a.
           if \<not> (au_Owner a \<or> visibleAt userID target v) then deny False a ''target not visible''
           else if au_Owner a \<or> permission \<in> set (au_Permissions a)
           then Return \<lparr>sd_Allow = True, sd_Visible = True, sd_Authority = a, sd_Reason = ''allowed''\<rparr>
           else deny True a (''missing permission '' @ permission)))"

section \<open>Theorems\<close>

lemma foldl_dedup:
  "set (foldl (\<lambda>ps p. if \<not> P p then ps else if p \<in> set ps then ps else ps @ [p]) acc xs) = set acc \<union> {p \<in> set xs. P p}"
  "distinct acc \<Longrightarrow> distinct (foldl (\<lambda>ps p. if \<not> P p then ps else if p \<in> set ps then ps else ps @ [p]) acc xs)"
  by (induction xs arbitrary: acc) auto

subsection \<open>The server authorizer\<close>

lemma collectPermissions_spec:
  assumes "collectPermissions store acc bs = Some ps"
  shows "set ps = set acc \<union> {p. \<exists>b granted. b \<in> set bs \<and> sb_ScopeType b = ''server'' \<and> store (sb_RoleKey b) = Some (Some granted) \<and> p \<in> set granted} \<and>
    (distinct acc \<longrightarrow> distinct ps) \<and> (\<forall>b \<in> set bs. sb_ScopeType b = ''server'' \<longrightarrow> store (sb_RoleKey b) \<noteq> None)"
  using assms
proof (induction bs arbitrary: acc)
  case (Cons b bs)
  show ?case
  proof (cases "sb_ScopeType b = ''server''")
    case True
    with Cons.prems obtain granted where g: "store (sb_RoleKey b) = Some granted"
      "collectPermissions store (case granted of None \<Rightarrow> acc | Some xs \<Rightarrow> foldl (\<lambda>ps p. if p \<in> set ps then ps else ps @ [p]) acc xs) bs = Some ps"
      by (auto split: option.splits)
    from Cons.IH [OF g(2)] True g(1) show ?thesis
      using foldl_dedup [where P = "\<lambda>_. True" and acc = acc, simplified] by (cases granted) auto
  next
    case False
    then show ?thesis using Cons.IH [of acc] Cons.prems by auto
  qed
qed simp

lemma collectPermissions_total:
  "\<forall>b \<in> set bs. sb_ScopeType b = ''server'' \<longrightarrow> store (sb_RoleKey b) \<noteq> None \<Longrightarrow> \<exists>ps. collectPermissions store acc bs = Some ps"
  by (induction store acc bs rule: collectPermissions.induct) (auto split: option.splits)

subsection \<open>The scoped authorizer\<close>

definition ownerBinding :: "RoleBinding \<Rightarrow> bool" where
  "ownerBinding b = (rb_RoleKey b = ''owner'' \<and> rb_Scope b = server_scope)"

lemma addGrants_spec:
  "set (addGrants target acc xs) = set acc \<union> {p \<in> set xs. IsKnown p \<and> AllowedAtScope (sc_Type target) p}"
  "distinct acc \<Longrightarrow> distinct (addGrants target acc xs)"
  using foldl_dedup [where P = "\<lambda>p. IsKnown p \<and> AllowedAtScope (sc_Type target) p"] by (simp_all add: addGrants_def)

text \<open>One binding of the loop, and the whole of it.\<close>

definition grantStep :: "(string, string list) fmap \<Rightarrow> Scope \<Rightarrow> Authority \<Rightarrow> int64 \<Rightarrow> RoleBinding \<Rightarrow> Authority" where
  "grantStep grants target a rank b =
     (let a1 = a\<lparr>au_Rank := max (au_Rank a) (sint rank)\<rparr>
      in if ownerBinding b then a1\<lparr>au_Owner := True\<rparr>
         else a1\<lparr>au_Permissions := addGrants target (au_Permissions a1) (rows_at grants (rb_RoleKey b))\<rparr>)"

lemma authorityLoop_Cons:
  "authorityLoop grants target v a (b # bs) =
     (if \<not> bindingApplies b target v then authorityLoop grants target v a bs
      else case RoleOf v (rb_RoleKey b) of None \<Rightarrow> Fail ErrInvalidState
        | Some role \<Rightarrow> authorityLoop grants target v (grantStep grants target a (role_Rank role) b) bs)"
  by (cases "RoleOf v (rb_RoleKey b)") (auto simp: grantStep_def ownerBinding_def Let_def)

lemma authorityLoop_spec:
  assumes "authorityLoop grants target v a bs = Return a'"
  shows "(au_Owner a' \<longleftrightarrow> au_Owner a \<or> (\<exists>b \<in> set bs. bindingApplies b target v \<and> ownerBinding b)) \<and>
    set (au_Permissions a') = set (au_Permissions a) \<union>
      {p. \<exists>b \<in> set bs. bindingApplies b target v \<and> \<not> ownerBinding b \<and> p \<in> set (rows_at grants (rb_RoleKey b)) \<and>
            IsKnown p \<and> AllowedAtScope (sc_Type target) p} \<and>
    (distinct (au_Permissions a) \<longrightarrow> distinct (au_Permissions a'))"
  using assms
proof (induction bs arbitrary: a)
  case (Cons b bs)
  show ?case
  proof (cases "bindingApplies b target v")
    case True
    obtain role :: Role where loop: "authorityLoop grants target v (grantStep grants target a (role_Rank role) b) bs = Return a'"
    proof (cases "RoleOf v (rb_RoleKey b)")
      case None
      then show ?thesis using Cons.prems True by simp
    next
      case (Some role)
      then show ?thesis using Cons.prems True that [of role] unfolding authorityLoop_Cons by simp
    qed
    note ih = Cons.IH [OF loop]
    have "au_Owner (grantStep grants target a (role_Rank role) b) \<longleftrightarrow> au_Owner a \<or> ownerBinding b"
      "set (au_Permissions (grantStep grants target a (role_Rank role) b)) = set (au_Permissions a) \<union>
         {p. \<not> ownerBinding b \<and> p \<in> set (rows_at grants (rb_RoleKey b)) \<and> IsKnown p \<and> AllowedAtScope (sc_Type target) p}"
      "distinct (au_Permissions a) \<Longrightarrow> distinct (au_Permissions (grantStep grants target a (role_Rank role) b))"
      by (auto simp: grantStep_def Let_def addGrants_spec)
    with ih True show ?thesis by auto
  next
    case False
    then show ?thesis using Cons.IH [of a] Cons.prems by simp
  qed
qed simp

lemma authorityLoop_filter:
  "authorityLoop grants target v a bs = authorityLoop grants target v a (filter (\<lambda>b. bindingApplies b target v) bs)"
  by (induction grants target v a bs rule: authorityLoop.induct) (auto simp: Let_def split: option.splits)

lemma ownerBinding_applies: "ownerBinding b \<Longrightarrow> bindingApplies b target v"
  by (simp add: ownerBinding_def bindingApplies_def)

text \<open>The configuration that governs a scope names the grants; every applicable binding's role must exist.\<close>

lemma authorityLoop_total:
  "\<forall>b \<in> set bs. bindingApplies b target v \<longrightarrow> RoleOf v (rb_RoleKey b) \<noteq> None \<Longrightarrow> \<exists>a'. authorityLoop grants target v a bs = Return a'"
  by (induction grants target v a bs rule: authorityLoop.induct) (auto simp: Let_def split: option.splits)

definition granted :: "(string, string list) fmap \<Rightarrow> int64 \<Rightarrow> Scope \<Rightarrow> StateVersion \<Rightarrow> Permission \<Rightarrow> bool" where
  "granted grants userID target v p =
     (\<exists>b \<in> set (Bindings v userID). bindingApplies b target v \<and> \<not> ownerBinding b \<and> p \<in> set (rows_at grants (rb_RoleKey b)))"

lemma AuthorityOf_spec:
  assumes "AuthorityOf unmarshal userID target v = Return a" "UserOf v userID \<noteq> None" "targetExists target v"
  obtains config grants where "effectiveConfig target v = Return config" "unmarshal (pc_Config config) = Some grants"
    "au_Owner a \<longleftrightarrow> (\<exists>b \<in> set (Bindings v userID). ownerBinding b)"
    "set (au_Permissions a) = {p. granted grants userID target v p \<and> IsKnown p \<and> AllowedAtScope (sc_Type target) p}"
    "distinct (au_Permissions a)" "sorted (au_Permissions a)"
proof -
  obtain config where config: "effectiveConfig target v = Return config"
    using assms by (cases "effectiveConfig target v") (auto simp: AuthorityOf_def split: if_splits)
  obtain grants where grants: "unmarshal (pc_Config config) = Some grants"
    using assms config by (cases "unmarshal (pc_Config config)") (auto simp: AuthorityOf_def split: if_splits)
  obtain a0 where a0: "authorityLoop grants target v (zeroAuthority\<lparr>au_Rank := - 1\<rparr>) (Bindings v userID) = Return a0"
    "a = a0\<lparr>au_Permissions := sort (au_Permissions a0)\<rparr>"
    using assms config grants
    by (cases "authorityLoop grants target v (zeroAuthority\<lparr>au_Rank := - 1\<rparr>) (Bindings v userID)") (auto simp: AuthorityOf_def split: if_splits)
  show ?thesis
    using authorityLoop_spec [OF a0(1)] ownerBinding_applies
    by (intro that [OF config grants]) (auto simp: a0(2) granted_def)
qed

subsection \<open>Properties\<close>

lemma AllowedAtScope_known: "AllowedAtScope ty p \<Longrightarrow> IsKnown p"
  unfolding AllowedAtScope_def IsKnown_def AllPermissions_def by (auto split: if_splits)

lemma Decide_cases:
  assumes "Decide unmarshal userID target permission v = Return d"
  shows "sd_Allow d \<longleftrightarrow>
    sint userID > 0 \<and> ScopeValid target \<and> AllowedAtScope (sc_Type target) permission \<and> UserOf v userID \<noteq> None \<and> targetExists target v \<and>
    (\<exists>a. AuthorityOf unmarshal userID target v = Return a \<and>
       (au_Owner a \<or> visibleAt userID target v \<and> permission \<in> set (au_Permissions a)))"
  using assms by (cases "AuthorityOf unmarshal userID target v") (auto simp: Decide_def Let_def split: if_splits)

text \<open>The declarative side: the scopes around a target from the inside out, the configuration row nearest to the target, and the bindings
  that are made at one of those scopes.\<close>

definition enclosing :: "StateVersion \<Rightarrow> Scope \<Rightarrow> Scope list" where
  "enclosing v target =
     target #
     (if sc_Type target = ''channel''
      then (case ChannelOf v (sc_ID target) of None \<Rightarrow> [] | Some c \<Rightarrow> (case ch_GroupID c of None \<Rightarrow> [] | Some g \<Rightarrow> [\<lparr>sc_Type = ''group'', sc_ID = g\<rparr>]))
      else []) @
     (if target = server_scope then [] else [server_scope])"

definition nearestConfig :: "StateVersion \<Rightarrow> Scope list \<Rightarrow> PermissionConfig option" where
  "nearestConfig v chain = (case List.map_filter (ConfigOf v) chain of [] \<Rightarrow> None | config # _ \<Rightarrow> Some config)"

definition madeAround :: "StateVersion \<Rightarrow> Scope \<Rightarrow> RoleBinding \<Rightarrow> bool" where
  "madeAround v target b \<longleftrightarrow> sc_Type (rb_Scope b) = ''server'' \<or> rb_Scope b \<in> set (enclosing v target)"

lemma server_scope_iff: "ScopeValid target \<Longrightarrow> sc_Type target = ''server'' \<longleftrightarrow> target = server_scope"
  by (cases target) (auto simp: ScopeValid_def)

lemma targetExists_iff:
  assumes "ScopeValid target"
  shows "targetExists target v \<longleftrightarrow> target = server_scope \<or> sc_Type target = ''group'' \<and> GroupOf v (sc_ID target) \<noteq> None \<or>
    sc_Type target = ''channel'' \<and> ChannelOf v (sc_ID target) \<noteq> None"
  using assms by (cases target) (auto simp: targetExists_def ScopeValid_def split: if_splits)

lemma visibleAt_iff: "ScopeValid target \<Longrightarrow> visibleAt u target v \<longleftrightarrow> target = server_scope \<or> target \<in> set (VisibleScopeIDs u v)"
  unfolding set_VisibleScopeIDs by (cases target) (auto simp: visibleAt_def ScopeValid_def split: if_splits)

lemma enclosing_simps:
  "enclosing v server_scope = [server_scope]"
  "enclosing v \<lparr>sc_Type = ''group'', sc_ID = g\<rparr> = [\<lparr>sc_Type = ''group'', sc_ID = g\<rparr>, server_scope]"
  "ChannelOf v c = Some ch \<Longrightarrow> enclosing v \<lparr>sc_Type = ''channel'', sc_ID = c\<rparr> =
     \<lparr>sc_Type = ''channel'', sc_ID = c\<rparr> # (case ch_GroupID ch of None \<Rightarrow> [] | Some g \<Rightarrow> [\<lparr>sc_Type = ''group'', sc_ID = g\<rparr>]) @ [server_scope]"
  by (simp_all add: enclosing_def)

lemma scope_cases:
  assumes "ScopeValid target" "targetExists target v"
  obtains "target = server_scope" | g where "target = \<lparr>sc_Type = ''group'', sc_ID = g\<rparr>"
    | c ch where "target = \<lparr>sc_Type = ''channel'', sc_ID = c\<rparr>" "ChannelOf v c = Some ch"
proof (cases target)
  case (fields ty n)
  then show thesis using assms that by (cases "ty = ''server''"; cases "ty = ''group''") (auto simp: ScopeValid_def targetExists_def)
qed

lemma bindingApplies_iff:
  assumes "ScopeValid target" "targetExists target v"
  shows "bindingApplies b target v \<longleftrightarrow> madeAround v target b"
proof (cases "rb_Scope b")
  case (fields ty n)
  from assms show ?thesis
    by (cases rule: scope_cases)
      (auto simp: bindingApplies_def madeAround_def enclosing_simps fields split: option.splits)
qed

lemma effectiveConfig_nearest:
  assumes "ScopeValid target" "targetExists target v"
  shows "effectiveConfig target v = Return config \<longleftrightarrow> nearestConfig v (enclosing v target) = Some config"
  using assms
  by (cases rule: scope_cases)
    (auto simp: effectiveConfig_def nearestConfig_def enclosing_simps map_filter_simps Let_def split: option.splits)

text \<open>C19. The scoped authorizer allows a request exactly when the user and the target exist, the permission may be granted at the target's kind
  of scope, and either the user holds an owner binding at the server scope, or the user sees the target (it is the server, or one of the scopes the
  visibility rules list for the user) and one of the user's bindings made at the target, at the group of a target channel or at the server has a role to which the
  permission configuration nearest to the target (its own row, else the row of its channel's group, else the server's) grants the permission.\<close>

theorem decide_allows_iff:
  assumes "Decide unmarshal userID target permission v = Return d"
  shows "sd_Allow d \<longleftrightarrow>
    sint userID > 0 \<and> ScopeValid target \<and> AllowedAtScope (sc_Type target) permission \<and> UserOf v userID \<noteq> None \<and>
    (target = server_scope \<or> sc_Type target = ''group'' \<and> GroupOf v (sc_ID target) \<noteq> None \<or>
     sc_Type target = ''channel'' \<and> ChannelOf v (sc_ID target) \<noteq> None) \<and>
    ((\<exists>b \<in> set (Bindings v userID). rb_RoleKey b = ''owner'' \<and> rb_Scope b = server_scope) \<or>
     (target = server_scope \<or> target \<in> set (VisibleScopeIDs userID v)) \<and>
     (\<exists>config grants. nearestConfig v (enclosing v target) = Some config \<and> unmarshal (pc_Config config) = Some grants \<and>
        (\<exists>b \<in> set (Bindings v userID). madeAround v target b \<and> permission \<in> set (rows_at grants (rb_RoleKey b)))))"
    (is "_ \<longleftrightarrow> ?pre \<and> ?scope \<and> ?at \<and> ?user \<and> ?target \<and> ?grant")
proof (cases "?pre \<and> ?scope \<and> ?at \<and> ?user \<and> ?target")
  case True
  then have ok: "ScopeValid target" "targetExists target v" "UserOf v userID \<noteq> None" using targetExists_iff by auto
  have known: "IsKnown permission" using True AllowedAtScope_known by blast
  obtain a where a: "AuthorityOf unmarshal userID target v = Return a"
    using assms True ok by (cases "AuthorityOf unmarshal userID target v") (auto simp: Decide_def)
  obtain config grants where spec: "effectiveConfig target v = Return config" "unmarshal (pc_Config config) = Some grants"
    "au_Owner a \<longleftrightarrow> (\<exists>b \<in> set (Bindings v userID). ownerBinding b)"
    "set (au_Permissions a) = {p. granted grants userID target v p \<and> IsKnown p \<and> AllowedAtScope (sc_Type target) p}"
    "distinct (au_Permissions a)" "sorted (au_Permissions a)"
    by (rule AuthorityOf_spec [OF a ok(3,2)])
  have near: "nearestConfig v (enclosing v target) = Some config" using spec(1) effectiveConfig_nearest [OF ok(1,2)] by simp
  have "au_Owner a \<or> visibleAt userID target v \<and> permission \<in> set (au_Permissions a) \<longleftrightarrow> ?grant"
    using True known near spec(2-4) bindingApplies_iff [OF ok(1,2)]
    by (auto simp: granted_def ownerBinding_def visibleAt_iff [OF ok(1)])
  then show ?thesis unfolding Decide_cases [OF assms] using True ok a by auto
next
  case False
  then show ?thesis using Decide_cases [OF assms] targetExists_iff by blast
qed

text \<open>A member of the private group 10, whose configuration lets members manage channels; channel 20 is in the group, channel 21 is not.\<close>

abbreviation group_scope :: Scope where "group_scope \<equiv> \<lparr>sc_Type = ''group'', sc_ID = 10\<rparr>"
abbreviation channel_scope :: "int64 \<Rightarrow> Scope" where "channel_scope c \<equiv> \<lparr>sc_Type = ''channel'', sc_ID = c\<rparr>"

definition scoped_version :: StateVersion where
  "scoped_version = example_version\<lparr>sv_persistent := example_persistent
     \<lparr>ps_bindings := fmupd 1 [\<lparr>rb_ID = 1, rb_RoleKey = ''member'', rb_Scope = group_scope, rb_CreatedAt = 0\<rparr>] fmempty,
      ps_groupAccess := fmupd 10 [\<lparr>ac_ID = 1, ac_PrincipalType = ''role'', ac_UserID = None, ac_RoleKey = Some ''member'', ac_CreatedAt = 0\<rparr>] fmempty,
      ps_configs := fmupd group_scope \<lparr>pc_Scope = group_scope, pc_Config = ''g'', pc_UpdatedAt = 0, pc_Version = 1\<rparr> (ps_configs example_persistent)\<rparr>\<rparr>"

definition scoped_unmarshal :: unmarshal where
  "scoped_unmarshal text = Some (if text = ''g'' then fmupd ''member'' [PermChannelManage] fmempty else fmempty)"

lemma scoped_facts:
  "UserOf scoped_version 1 \<noteq> None" "ChannelOf scoped_version 20 = Some (example_channel 20 (Some 10))" "ChannelOf scoped_version 21 = Some (example_channel 21 None)"
  "Bindings scoped_version 1 = [\<lparr>rb_ID = 1, rb_RoleKey = ''member'', rb_Scope = group_scope, rb_CreatedAt = 0\<rparr>]"
  "CanAccessChannel 1 20 scoped_version" "CanAccessChannel 1 21 scoped_version" "RoleOf scoped_version ''member'' \<noteq> None"
  "ConfigOf scoped_version (channel_scope c) = None" "ConfigOf scoped_version group_scope = Some \<lparr>pc_Scope = group_scope, pc_Config = ''g'', pc_UpdatedAt = 0, pc_Version = 1\<rparr>"
  "ConfigOf scoped_version server_scope \<noteq> None" "AllowedAtScope ''channel'' PermChannelManage"
  by (simp_all add: UserOf_def ChannelOf_def Bindings_def CanAccessChannel_def CanSeeGroup_def knownUser_def matchesGroupAccess_def hasRoleAtGroup_def RoleOf_def
      ConfigOf_def scoped_version_def example_defs AllowedAtScope_def)

theorem decide_allows_iff_witness:
  "(\<exists>d. Decide scoped_unmarshal 1 (channel_scope 20) PermChannelManage scoped_version = Return d \<and> sd_Allow d) \<and>
   (\<exists>d. Decide scoped_unmarshal 1 (channel_scope 21) PermChannelManage scoped_version = Return d \<and> \<not> sd_Allow d)"
proof -
  have loop: "\<exists>a. authorityLoop grants target scoped_version (zeroAuthority\<lparr>au_Rank := - 1\<rparr>) (Bindings scoped_version 1) = Return a" for grants target
    by (rule authorityLoop_total) (simp add: scoped_facts)
  have "\<exists>d. Decide scoped_unmarshal 1 (channel_scope c) PermChannelManage scoped_version = Return d" if "c = 20 \<or> c = 21" for c
    using that loop [of _ "channel_scope c"] scoped_facts
    by (auto simp: Decide_def AuthorityOf_def effectiveConfig_def targetExists_def ScopeValid_def scoped_unmarshal_def example_channel_def Let_def)
  then obtain d e where d: "Decide scoped_unmarshal 1 (channel_scope 20) PermChannelManage scoped_version = Return d"
    "Decide scoped_unmarshal 1 (channel_scope 21) PermChannelManage scoped_version = Return e" by blast
  have near: "enclosing scoped_version (channel_scope 20) = [channel_scope 20, group_scope, server_scope]"
    "enclosing scoped_version (channel_scope 21) = [channel_scope 21, server_scope]"
    by (simp_all add: enclosing_simps(3) [OF scoped_facts(2)] enclosing_simps(3) [OF scoped_facts(3)] example_channel_def)
  have "sd_Allow d"
    unfolding decide_allows_iff [OF d(1)] set_VisibleScopeIDs
    using scoped_facts by (simp add: near ScopeValid_def nearestConfig_def map_filter_simps madeAround_def scoped_unmarshal_def)
  moreover have "\<not> sd_Allow e"
    unfolding decide_allows_iff [OF d(2)] by (simp add: near scoped_facts madeAround_def)
  ultimately show ?thesis using d by blast
qed

text \<open>The server authorizer denies by default: it allows a permission exactly when no lookup of a server-scoped
  binding fails and one of those bindings' roles holds the permission or the wildcard.
\<close>

theorem check_allows_iff:
  "dc_Allow (Check store p perm) \<longleftrightarrow>
     (\<forall>b \<in> set (pp_Bindings p). sb_ScopeType b = ''server'' \<longrightarrow> store (sb_RoleKey b) \<noteq> None) \<and>
     (\<exists>b \<in> set (pp_Bindings p). sb_ScopeType b = ''server'' \<and>
        (\<exists>ps. store (sb_RoleKey b) = Some (Some ps) \<and> (Wildcard \<in> set ps \<or> perm \<in> set ps)))"
    (is "_ \<longleftrightarrow> ?found \<and> ?holds")
proof (cases ?found)
  case True
  then obtain ps where ps: "collectPermissions store [] (pp_Bindings p) = Some ps"
    using collectPermissions_total by blast
  have "dc_Allow (Check store p perm) \<longleftrightarrow> Wildcard \<in> set ps \<or> perm \<in> set ps"
    by (auto simp: Check_def effectivePermissions_def ps list_ex_iff)
  also have "\<dots> \<longleftrightarrow> ?holds"
    using collectPermissions_spec [OF ps] by auto
  finally show ?thesis using True by blast
next
  case False
  then have "collectPermissions store [] (pp_Bindings p) = None"
    using collectPermissions_spec [of store "[]" "pp_Bindings p"] by (cases "collectPermissions store [] (pp_Bindings p)") blast+
  then show ?thesis using False by (simp add: Check_def effectivePermissions_def)
qed

theorem check_allows_iff_witness:
  "dc_Allow (Check (\<lambda>k. Some (if k = ''owner'' then Some [Wildcard] else None))
     \<lparr>pp_UserID = 1, pp_Bindings = [\<lparr>sb_RoleKey = ''owner'', sb_ScopeType = ''server'', sb_GroupID = None, sb_ChannelID = None\<rparr>]\<rparr> PermUserKick)"
  by (subst check_allows_iff) simp

end
