(* ===== verification/Snapshot.thy ===== *)
theory Snapshot
  imports Rbac
begin

text \<open>
  The replacement state a recipient is served (\<^verbatim>\<open>internal/realtime/sync.go\<close>): the snapshot documents, the
  privacy projection of presence, and the projection of one published version for one user.  The version
  string comes from the \<^verbatim>\<open>VERSION\<close> file.
\<close>

section \<open>Definitions\<close>

record SnapshotServer =
  ss_Name :: string
  ss_Version :: string

record SnapshotUser =
  su_ID :: string
  su_Username :: string
  su_Nickname :: string
  su_Avatar :: "string option"

record SnapshotPresence =
  sp_Status :: string
  sp_Activity :: "PresenceActivity option"

record SnapshotUserPresence =
  sup_UserID :: string
  sup_Nickname :: string
  sup_Avatar :: "string option"
  sup_Presence :: SnapshotPresence

record SnapshotRole =
  sr_Key :: string
  sr_DisplayName :: string
  sr_Rank :: int64
  sr_Builtin :: bool

record SnapshotGroup =
  sg_ID :: string
  sg_Name :: string
  sg_Position :: int64
  sg_Visibility :: string
  sg_Version :: string

record SnapshotChannel =
  sch_ID :: string
  sch_GroupID :: "string option"
  sch_Name :: string
  sch_Mode :: string
  sch_Temporary :: bool
  sch_Visibility :: string
  sch_Capacity :: int64
  sch_Position :: int64
  sch_Pinned :: bool
  sch_Version :: string

record SnapshotVoiceMembership =
  svm_UserID :: string
  svm_ChannelID :: string
  svm_JoinedAt :: int64

record SnapshotVoiceAuthority =
  sva_ChannelID :: string
  sva_ControlConnectionID :: string
  sva_VoiceSessionID :: string
  sva_VoiceAuthorityGeneration :: string

record SnapshotSelf =
  self_User :: SnapshotUser
  self_ServerRoleKeys :: "string list"
  self_ServerPermissions :: "string list"
  self_Presence :: SnapshotPresence
  self_VoiceAuthority :: "SnapshotVoiceAuthority option"

record SnapshotState =
  st_Server :: SnapshotServer
  st_Self :: SnapshotSelf
  st_Users :: "SnapshotUserPresence list"
  st_Roles :: "SnapshotRole list"
  st_Groups :: "SnapshotGroup list"
  st_Channels :: "SnapshotChannel list"
  st_VoiceMemberships :: "SnapshotVoiceMembership list"

record eventSubjectState =
  ess_user :: User
  ess_presence :: Presence

text \<open>The zero value an accessor returns beside \<^verbatim>\<open>false\<close>.\<close>

definition zeroUser :: User where
  "zeroUser = \<lparr>usr_ID = 0, usr_Username = [], usr_Nickname = [], usr_Avatar = None, usr_AuthVersion = 0, usr_Banned = False, usr_CreatedAt = 0, usr_UpdatedAt = 0\<rparr>"

definition user_or_zero :: "StateVersion \<Rightarrow> int64 \<Rightarrow> User" where
  "user_or_zero v i = (case UserOf v i of None \<Rightarrow> zeroUser | Some u \<Rightarrow> u)"

definition server_version :: string where "server_version = ''0.0.0''"

definition snapshotUser :: "User \<Rightarrow> SnapshotUser" where
  "snapshotUser u = \<lparr>su_ID = FormatInt (usr_ID u), su_Username = usr_Username u, su_Nickname = usr_Nickname u, su_Avatar = usr_Avatar u\<rparr>"

definition snapshotPresenceValue :: "int64 \<Rightarrow> int64 \<Rightarrow> Presence \<Rightarrow> SnapshotPresence" where
  "snapshotPresenceValue recipientID subjectID presence =
     (if recipientID \<noteq> subjectID \<and> pr_Status presence = ''invisible'' then \<lparr>sp_Status = ''offline'', sp_Activity = None\<rparr>
      else \<lparr>sp_Status = pr_Status presence,
            sp_Activity = (case pr_Activity presence of None \<Rightarrow> None
              | Some a \<Rightarrow> if recipientID = subjectID \<or> pa_Privacy a = ''public'' then Some a else None)\<rparr>)"

definition snapshotPresenceFor :: "int64 \<Rightarrow> int64 \<Rightarrow> StateVersion \<Rightarrow> SnapshotPresence" where
  "snapshotPresenceFor recipientID subjectID v = snapshotPresenceValue recipientID subjectID (PresenceOf v subjectID)"

definition snapshotUserPresenceFromState :: "int64 \<Rightarrow> eventSubjectState \<Rightarrow> SnapshotUserPresence" where
  "snapshotUserPresenceFromState recipientID st =
     \<lparr>sup_UserID = FormatInt (usr_ID (ess_user st)), sup_Nickname = usr_Nickname (ess_user st), sup_Avatar = usr_Avatar (ess_user st),
      sup_Presence = snapshotPresenceValue recipientID (usr_ID (ess_user st)) (ess_presence st)\<rparr>"

definition snapshotUserPresenceFor :: "int64 \<Rightarrow> int64 \<Rightarrow> StateVersion \<Rightarrow> SnapshotUserPresence" where
  "snapshotUserPresenceFor recipientID subjectID v =
     snapshotUserPresenceFromState recipientID \<lparr>ess_user = user_or_zero v subjectID, ess_presence = PresenceOf v subjectID\<rparr>"

definition snapshotVoiceAuthorityValue :: "VoiceAuthority \<Rightarrow> SnapshotVoiceAuthority" where
  "snapshotVoiceAuthorityValue a = \<lparr>sva_ChannelID = FormatInt (va_ChannelID a), sva_ControlConnectionID = hex_id (va_ControlConnectionID a),
     sva_VoiceSessionID = hex_id (va_VoiceSessionID a), sva_VoiceAuthorityGeneration = FormatUint (va_VoiceAuthorityGeneration a)\<rparr>"

definition snapshotVoiceAuthorityFor :: "int64 \<Rightarrow> StateVersion \<Rightarrow> SnapshotVoiceAuthority option" where
  "snapshotVoiceAuthorityFor userID v = map_option snapshotVoiceAuthorityValue (VoiceAuthorityOf v userID)"

definition snapshotServerPermissions :: "unmarshal \<Rightarrow> string list \<Rightarrow> StateVersion \<Rightarrow> string list" where
  "snapshotServerPermissions unmarshal roleKeys v =
     (if ''owner'' \<in> set roleKeys then [''*'']
      else case ConfigOf v server_scope of None \<Rightarrow> []
        | Some config \<Rightarrow>
            (case unmarshal (pc_Config config) of None \<Rightarrow> []
             | Some grants \<Rightarrow>
                 sort (foldl (\<lambda>ps key. foldl (\<lambda>ps p. if p \<in> set ps then ps else ps @ [p]) ps (rows_at grants key)) [] roleKeys)))"

definition snapshotGroup :: "Group \<Rightarrow> SnapshotGroup" where
  "snapshotGroup g = \<lparr>sg_ID = FormatInt (grp_ID g), sg_Name = grp_Name g, sg_Position = grp_Position g, sg_Visibility = grp_Visibility g,
     sg_Version = FormatInt (grp_Version g)\<rparr>"

definition snapshotChannel :: "Channel \<Rightarrow> SnapshotChannel" where
  "snapshotChannel c = \<lparr>sch_ID = FormatInt (ch_ID c), sch_GroupID = map_option FormatInt (ch_GroupID c), sch_Name = ch_Name c, sch_Mode = ch_Mode c,
     sch_Temporary = ch_Temporary c, sch_Visibility = ch_Visibility c, sch_Capacity = ch_Capacity c, sch_Position = ch_Position c,
     sch_Pinned = ch_Pinned c, sch_Version = FormatInt (ch_Version c)\<rparr>"

definition snapshotMembership :: "VoiceAuthority \<Rightarrow> SnapshotVoiceMembership" where
  "snapshotMembership a = \<lparr>svm_UserID = FormatInt (va_UserID a), svm_ChannelID = FormatInt (va_ChannelID a), svm_JoinedAt = va_JoinedAt a\<rparr>"

definition snapshotRole :: "Role \<Rightarrow> SnapshotRole" where
  "snapshotRole r = \<lparr>sr_Key = role_Key r, sr_DisplayName = role_DisplayName r, sr_Rank = role_Rank r, sr_Builtin = role_Builtin r\<rparr>"

definition snapshotSelf :: "unmarshal \<Rightarrow> int64 \<Rightarrow> StateVersion \<Rightarrow> SnapshotSelf" where
  "snapshotSelf unmarshal userID v =
     (let roleKeys = sort (map rb_RoleKey (filter (\<lambda>b. sc_Type (rb_Scope b) = ''server'') (Bindings v userID)))
      in \<lparr>self_User = snapshotUser (user_or_zero v userID), self_ServerRoleKeys = roleKeys,
          self_ServerPermissions = snapshotServerPermissions unmarshal roleKeys v, self_Presence = snapshotPresenceFor userID userID v,
          self_VoiceAuthority = snapshotVoiceAuthorityFor userID v\<rparr>)"

definition visibleGroups :: "int64 \<Rightarrow> StateVersion \<Rightarrow> Group list" where
  "visibleGroups userID v = filter (\<lambda>g. CanSeeGroup userID (grp_ID g) v) (sort_by (\<lambda>g. sint (grp_ID g)) (Groups v))"

definition visibleChannels :: "int64 \<Rightarrow> StateVersion \<Rightarrow> Channel list" where
  "visibleChannels userID v = filter (\<lambda>c. CanAccessChannel userID (ch_ID c) v) (sort_by (\<lambda>c. sint (ch_ID c)) (Channels v))"

definition visibleMemberships :: "int64 \<Rightarrow> StateVersion \<Rightarrow> VoiceAuthority list" where
  "visibleMemberships userID v = filter (\<lambda>a. CanAccessChannel userID (va_ChannelID a) v) (VoiceAuthorities v)"

definition snapshotStateFor :: "unmarshal \<Rightarrow> int64 \<Rightarrow> StateVersion \<Rightarrow> SnapshotState" where
  "snapshotStateFor unmarshal userID v =
     \<lparr>st_Server = \<lparr>ss_Name = ''ZephyrVox'', ss_Version = server_version\<rparr>,
      st_Self = snapshotSelf unmarshal userID v,
      st_Users = map (\<lambda>u. snapshotUserPresenceFor userID (usr_ID u) v) (Users v),
      st_Roles = map snapshotRole (Roles v),
      st_Groups = map snapshotGroup (visibleGroups userID v),
      st_Channels = map snapshotChannel (visibleChannels userID v),
      st_VoiceMemberships = map snapshotMembership (visibleMemberships userID v)\<rparr>"

section \<open>Theorems\<close>

subsection \<open>Sorted listings\<close>

text \<open>A listing that is strictly ascending in a key is determined by its set.\<close>

lemma strict_list_unique:
  fixes f :: "'a \<Rightarrow> 'k::linorder"
  assumes "sorted_wrt (\<lambda>a b. f a < f b) xs" "sorted_wrt (\<lambda>a b. f a < f b) ys" "set xs = set ys"
  shows "xs = ys"
  using assms
proof (induction xs arbitrary: ys)
  case (Cons x xs)
  then obtain y ys' where ys: "ys = y # ys'" by (cases ys) auto
  have "x = y"
  proof (rule ccontr)
    assume "x \<noteq> y"
    then have "x \<in> set ys'" "y \<in> set xs" using Cons.prems unfolding ys by auto
    then have "f y < f x" "f x < f y" using Cons.prems unfolding ys by auto
    then show False by simp
  qed
  moreover have "set xs = set ys'"
    using Cons.prems \<open>x = y\<close> unfolding ys by (auto dest: less_imp_neq)
  ultimately show ?case using Cons.IH [of ys'] Cons.prems ys by auto
qed auto

lemma distinct_map_values: "keyed_by key m \<Longrightarrow> distinct (map key (map_values m))"
proof -
  assume "keyed_by key m"
  then have "map key (map_values m) = sorted_list_of_fset (fmdom m)"
    by (auto simp: map_values_def keyed_by_def fmlookup_dom_iff intro!: map_idI)
  then show ?thesis by (simp add: sorted_list_of_fset.rep_eq)
qed

lemma inj_sint: "inj (sint :: int64 \<Rightarrow> int)"
  by (rule injI) (rule signed_word_eqI)

lemma distinct_sint: "distinct (map (\<lambda>x. sint (f x :: int64)) xs) \<longleftrightarrow> distinct (map f xs)"
  using distinct_map [of sint "map f xs"] inj_on_subset [OF inj_sint] by (auto simp: comp_def)

lemma set_map_filter: "set (List.map_filter f xs) = {y. \<exists>x \<in> set xs. f x = Some y}"
  by (force simp: List.map_filter_def)

lemma visibleGroups_listing:
  assumes "keyed_by grp_ID (ps_groups (sv_persistent v))"
  shows "sorted_wrt (\<lambda>a b. sint (grp_ID a) < sint (grp_ID b)) (visibleGroups u v)"
    "set (visibleGroups u v) = {g. \<exists>k. GroupOf v k = Some g \<and> CanSeeGroup u k v}"
proof -
  have "distinct (map grp_ID (Groups v))"
    using distinct_map_values [OF assms] by (simp add: Groups_def distinct_map)
  then have "distinct (map (\<lambda>g. sint (grp_ID g)) (Groups v))" by (simp add: distinct_sint)
  from sort_by_strict [OF this] show "sorted_wrt (\<lambda>a b. sint (grp_ID a) < sint (grp_ID b)) (visibleGroups u v)"
    by (auto simp: visibleGroups_def intro: sorted_wrt_filter)
  show "set (visibleGroups u v) = {g. \<exists>k. GroupOf v k = Some g \<and> CanSeeGroup u k v}"
    using assms by (auto simp: visibleGroups_def Groups_def set_map_values GroupOf_def keyed_by_def)
qed

lemma visibleChannels_listing:
  assumes "keyed_by ch_ID (ps_channels (sv_persistent v))"
  shows "sorted_wrt (\<lambda>a b. sint (ch_ID a) < sint (ch_ID b)) (visibleChannels u v)"
    "set (visibleChannels u v) = {c. \<exists>k. ChannelOf v k = Some c \<and> CanAccessChannel u k v}"
proof -
  have "distinct (map ch_ID (Channels v))"
    using distinct_map_values [OF assms] by (simp add: Channels_def distinct_map)
  then have "distinct (map (\<lambda>c. sint (ch_ID c)) (Channels v))" by (simp add: distinct_sint)
  from sort_by_strict [OF this] show "sorted_wrt (\<lambda>a b. sint (ch_ID a) < sint (ch_ID b)) (visibleChannels u v)"
    by (auto simp: visibleChannels_def intro: sorted_wrt_filter)
  show "set (visibleChannels u v) = {c. \<exists>k. ChannelOf v k = Some c \<and> CanAccessChannel u k v}"
    using assms by (auto simp: visibleChannels_def Channels_def set_map_values ChannelOf_def keyed_by_def)
qed

lemma map_filter_strict:
  assumes "sorted_wrt (\<lambda>a b. g a < g b) ks" "\<forall>k x. f k = Some x \<longrightarrow> h x = g k"
  shows "sorted_wrt (\<lambda>a b. h a < h b) (List.map_filter f ks)"
  using assms by (induction ks) (auto simp: List.map_filter_simps set_map_filter split: option.splits)

lemma visibleMemberships_listing:
  assumes "runtime_ok (sv_runtime v)"
  shows "sorted_wrt (\<lambda>a b. sint (va_UserID a) < sint (va_UserID b)) (visibleMemberships u v)"
    "set (visibleMemberships u v) = {a. (\<exists>k. VoiceAuthorityOf v k = Some a) \<and> CanAccessChannel u (va_ChannelID a) v}"
proof -
  have "distinct (map sint (sorted_list_of_fset (fmdom (rt_voiceAuthorities (sv_runtime v)))))"
    using distinct_sint [of "\<lambda>x. x"] by (simp add: sorted_list_of_fset.rep_eq)
  note strict = sort_by_strict [OF this, folded sortedIntKeys_def]
  have "sorted_wrt (\<lambda>a b. sint (va_UserID a) < sint (va_UserID b)) (VoiceAuthorities v)"
    unfolding VoiceAuthorities_def
    by (rule map_filter_strict [OF strict]) (use assms in \<open>auto simp: runtime_ok_def VoiceAuthorityOf_def\<close>)
  then show "sorted_wrt (\<lambda>a b. sint (va_UserID a) < sint (va_UserID b)) (visibleMemberships u v)"
    by (auto simp: visibleMemberships_def intro: sorted_wrt_filter)
  show "set (visibleMemberships u v) = {a. (\<exists>k. VoiceAuthorityOf v k = Some a) \<and> CanAccessChannel u (va_ChannelID a) v}"
    by (auto simp: visibleMemberships_def VoiceAuthorities_def set_map_filter sortedIntKeys_def VoiceAuthorityOf_def fmlookup_dom_iff)
qed

subsection \<open>What a snapshot may depend on\<close>

text \<open>What another user may learn of a presence: an invisible user is offline, and private activity is absent.\<close>

definition conceal :: "Presence \<Rightarrow> Presence" where
  "conceal p = (if pr_Status p = ''invisible'' then \<lparr>pr_Status = ''offline'', pr_Activity = None\<rparr>
     else p\<lparr>pr_Activity := (case pr_Activity p of None \<Rightarrow> None | Some a \<Rightarrow> if pa_Privacy a = ''public'' then Some a else None)\<rparr>)"

definition same_accounts :: "int64 \<Rightarrow> StateVersion \<Rightarrow> StateVersion \<Rightarrow> bool" where
  "same_accounts r v w \<longleftrightarrow> ps_users (sv_persistent v) = ps_users (sv_persistent w) \<and> ps_roles (sv_persistent v) = ps_roles (sv_persistent w) \<and>
     Bindings v r = Bindings w r \<and> ConfigOf v server_scope = ConfigOf w server_scope"

definition same_scopes :: "int64 \<Rightarrow> StateVersion \<Rightarrow> StateVersion \<Rightarrow> bool" where
  "same_scopes r v w \<longleftrightarrow>
     (\<forall>g. CanSeeGroup r g v = CanSeeGroup r g w \<and> (CanSeeGroup r g v \<longrightarrow> GroupOf v g = GroupOf w g)) \<and>
     (\<forall>c. CanAccessChannel r c v = CanAccessChannel r c w \<and> (CanAccessChannel r c v \<longrightarrow> ChannelOf v c = ChannelOf w c))"

definition same_runtime :: "int64 \<Rightarrow> StateVersion \<Rightarrow> StateVersion \<Rightarrow> bool" where
  "same_runtime r v w \<longleftrightarrow> PresenceOf v r = PresenceOf w r \<and> (\<forall>u. u \<noteq> r \<longrightarrow> conceal (PresenceOf v u) = conceal (PresenceOf w u)) \<and>
     VoiceAuthorityOf v r = VoiceAuthorityOf w r \<and>
     (\<forall>u a. CanAccessChannel r (va_ChannelID a) v \<longrightarrow> (VoiceAuthorityOf v u = Some a \<longleftrightarrow> VoiceAuthorityOf w u = Some a))"

lemma snapshotPresence_conceal:
  "recipient \<noteq> subject \<Longrightarrow> snapshotPresenceValue recipient subject p = snapshotPresenceValue recipient subject (conceal p)"
  by (auto simp: snapshotPresenceValue_def conceal_def split: option.splits)

lemma snapshotUserPresence_same:
  assumes "same_accounts r v w" "same_runtime r v w" "keyed_by usr_ID (ps_users (sv_persistent v))" "UserOf v u \<noteq> None"
  shows "snapshotUserPresenceFor r u v = snapshotUserPresenceFor r u w"
proof -
  obtain x where x: "UserOf v u = Some x" "UserOf w u = Some x" "usr_ID x = u"
    using assms by (auto simp: same_accounts_def UserOf_def keyed_by_def)
  have "snapshotPresenceValue r u (PresenceOf v u) = snapshotPresenceValue r u (PresenceOf w u)"
    using assms(2) snapshotPresence_conceal [of r u] by (cases "u = r") (auto simp: same_runtime_def, metis)
  then show ?thesis by (simp add: snapshotUserPresenceFor_def snapshotUserPresenceFromState_def user_or_zero_def x)
qed

lemma snapshotSelf_same:
  assumes "same_accounts r v w" "same_runtime r v w"
  shows "snapshotSelf unmarshal r v = snapshotSelf unmarshal r w"
  using assms
  by (simp add: same_accounts_def same_runtime_def snapshotSelf_def Let_def user_or_zero_def UserOf_def snapshotPresenceFor_def
      snapshotVoiceAuthorityFor_def snapshotServerPermissions_def)

lemma visible_same:
  assumes "persistent_ok (sv_persistent v)" "persistent_ok (sv_persistent w)" "runtime_ok (sv_runtime v)" "runtime_ok (sv_runtime w)"
    and same: "same_scopes r v w" "same_runtime r v w"
  shows "visibleGroups r v = visibleGroups r w" "visibleChannels r v = visibleChannels r w" "visibleMemberships r v = visibleMemberships r w"
proof -
  have keys: "keyed_by grp_ID (ps_groups (sv_persistent x))" "keyed_by ch_ID (ps_channels (sv_persistent x))" if "x = v \<or> x = w" for x
    using assms that by (auto simp: persistent_ok_def)
  have "set (visibleGroups r v) = set (visibleGroups r w)" "set (visibleChannels r v) = set (visibleChannels r w)"
    using same(1) by (auto simp: visibleGroups_listing visibleChannels_listing keys same_scopes_def) (metis)+
  then show "visibleGroups r v = visibleGroups r w" "visibleChannels r v = visibleChannels r w"
    using strict_list_unique [OF visibleGroups_listing(1) visibleGroups_listing(1)]
      strict_list_unique [OF visibleChannels_listing(1) visibleChannels_listing(1)] keys by blast+
  have "set (visibleMemberships r v) = set (visibleMemberships r w)"
    using same by (auto simp: visibleMemberships_listing assms same_scopes_def same_runtime_def)
  then show "visibleMemberships r v = visibleMemberships r w"
    using strict_list_unique [OF visibleMemberships_listing(1) visibleMemberships_listing(1)] assms by blast
qed

text \<open>C9. A snapshot discloses to its recipient nothing beyond its view: two versions in which the recipient sees the same
  accounts, the same groups and channels, its own presence and voice session, the concealed presences of the
  others and the same members of accessible channels yield the same snapshot, whatever the hidden
  groups, channels, access lists, private activities and invisible users are.
\<close>

theorem snapshot_noninterference:
  assumes "persistent_ok (sv_persistent v)" "persistent_ok (sv_persistent w)" "runtime_ok (sv_runtime v)" "runtime_ok (sv_runtime w)"
    and "same_accounts r v w" "same_scopes r v w" "same_runtime r v w"
  shows "snapshotStateFor unmarshal r v = snapshotStateFor unmarshal r w"
proof -
  have users: "Users v = Users w" "Roles v = Roles w"
    using assms(5) by (simp_all add: Users_def UserOf_def [abs_def] Roles_def same_accounts_def)
  have "snapshotUserPresenceFor r (usr_ID x) v = snapshotUserPresenceFor r (usr_ID x) w" if "x \<in> set (Users v)" for x
  proof (rule snapshotUserPresence_same)
    show "UserOf v (usr_ID x) \<noteq> None"
      using that assms(1) by (auto simp: Users_def set_map_filter UserOf_def persistent_ok_def keyed_by_def)
  qed (use assms in \<open>auto simp: persistent_ok_def\<close>)
  then show ?thesis
    using visible_same [of v w r] snapshotSelf_same [of r v w unmarshal] assms users by (simp add: snapshotStateFor_def)
qed

text \<open>The version of the example with the hidden group renamed and the other user invisible.\<close>

definition example_hidden :: StateVersion where
  "example_hidden = example_version\<lparr>
     sv_persistent := example_persistent\<lparr>ps_groups := fmupd 10 \<lparr>grp_ID = 10, grp_Name = ''secret'', grp_Position = 3, grp_Visibility = ''private'',
       grp_CreatedAt = 0, grp_UpdatedAt = 0, grp_Version = 2\<rparr> fmempty\<rparr>,
     sv_runtime := emptyRuntime\<lparr>rt_presences := fmupd 2 \<lparr>pr_Status = ''invisible'', pr_Activity = None\<rparr> fmempty\<rparr>\<rparr>"

lemma example_view:
  "CanSeeGroup 1 g example_version = False" "CanSeeGroup 1 g example_hidden = False"
  "CanAccessChannel 1 c example_version = (c = 21)" "CanAccessChannel 1 c example_hidden = (c = 21)"
  by (auto simp: CanSeeGroup_def CanAccessChannel_def knownUser_def isOwner_def matchesGroupAccess_def matchesChannelAccess_def
      example_hidden_def example_defs split: if_splits)

theorem snapshot_noninterference_witness:
  "example_version \<noteq> example_hidden \<and> snapshotStateFor (\<lambda>_. None) 1 example_version = snapshotStateFor (\<lambda>_. None) 1 example_hidden"
proof
  show "example_version \<noteq> example_hidden"
    by (simp add: example_hidden_def example_version_def example_persistent_def emptyRuntime_def)
  have "same_scopes 1 example_version example_hidden"
    unfolding same_scopes_def example_view by (simp add: ChannelOf_def example_hidden_def example_defs)
  moreover have "same_runtime 1 example_version example_hidden"
    unfolding same_runtime_def example_view
    by (simp add: PresenceOf_def VoiceAuthorityOf_def conceal_def example_hidden_def example_defs)
  moreover have "same_accounts 1 example_version example_hidden"
    by (simp add: same_accounts_def Bindings_def ConfigOf_def example_hidden_def example_defs)
  moreover have "persistent_ok (sv_persistent v) \<and> runtime_ok (sv_runtime v)" if "v = example_version \<or> v = example_hidden" for v
    using that by (elim disjE)
      (auto simp: persistent_ok_def keyed_by_def mutes_ok_def runtime_ok_def ScopeValid_def example_hidden_def example_defs split: if_splits)
  ultimately show "snapshotStateFor (\<lambda>_. None) 1 example_version = snapshotStateFor (\<lambda>_. None) 1 example_hidden"
    by (intro snapshot_noninterference) simp_all
qed

end
