(* ===== verification/Ring.thy ===== *)
theory Ring
  imports Snapshot
begin

text \<open>
  The replay ring of \<^verbatim>\<open>internal/realtime/ring.go\<close>: state events, their validation and encoding, and the
  bounded ring of the newest contiguous events.  \<^verbatim>\<open>encoding/json\<close> is a parameter, the record \<open>codec\<close>: the
  structs the packages marshal are the constructors of \<open>wire\<close>, a marshalling error is \<open>None\<close>.  Event
  bodies are Go byte slices, here strings, and a nil \<^verbatim>\<open>RawMessage\<close> is \<open>None\<close>.  The copies made on the way in
  and out have no counterpart.
\<close>

section \<open>Definitions\<close>

datatype stream_error = ErrInvalidStateRingLimits | ErrInvalidStateEvent | ErrStateEventTooLarge | ErrStateRingSequence | ErrEncode
  | ErrInvalidCursor | ErrCursorPrincipal | ErrCursorEpoch | ErrCursorSchema | ErrCursorKey | ErrStreamEpoch
  | ErrInvalidPublication | ErrStaleStateCandidate | ErrCanceled | ErrRuntimeCommit
  | ErrInvalidEventBus | ErrEventBusClosed | ErrSyncConnectionExists | ErrSyncAttemptClosed | ErrEventConsumerSlow
  | ErrInvalidConnection | ErrInvalidStateSync

definition MaxStateRingEntries :: int where "MaxStateRingEntries = 1024"
definition MaxStateRingBytes :: int where "MaxStateRingBytes = 16 * 2 ^ 20"
definition MaxStateEventBytes :: int where "MaxStateEventBytes = 192 * 2 ^ 10"
definition MaxStateEventCursorBytes :: int where "MaxStateEventCursorBytes = 256"
definition stateEventCursorEnvelopeBytes :: int where "stateEventCursorEnvelopeBytes = 12"
definition maxStateEventRingBytes :: int where
  "maxStateEventRingBytes = MaxStateEventBytes - MaxStateEventCursorBytes - stateEventCursorEnvelopeBytes"

subsection \<open>Wire documents\<close>

record eventScope =
  ev_Type :: string
  ev_ID :: string

record stateEventEnvelope =
  env_Type :: string
  env_GEID :: string
  env_Cursor :: string
  env_Class :: string
  env_Scope :: eventScope
  env_EventType :: string
  env_CausationID :: string
  env_ServerTime :: int64
  env_Data :: string

record cursorPayload =
  cur_UserID :: string
  cur_StreamEpoch :: string
  cur_GEID :: string
  cur_VisibilityEpoch :: string
  cur_SchemaVersion :: "16 word"

datatype wire =
    WEvent stateEventEnvelope
  | WScope eventScope
  | WFragment string eventScope nat nat string
  | WDigest string
  | WChannel "SnapshotGroup option" SnapshotChannel "SnapshotVoiceMembership list"
  | WGroup SnapshotGroup "string list"
  | WUser SnapshotUserPresence
  | WReplay string string "string list"
  | WComplete string
  | WCursor cursorPayload

record codec =
  js_marshal :: "wire \<Rightarrow> string option"
  js_valid :: "string \<Rightarrow> bool"
  js_grants :: unmarshal
  js_cursor :: "string \<Rightarrow> cursorPayload option"

subsection \<open>Events\<close>

datatype StateDeliveryPolicy = StateDeliveryUnset | StateDeliveryControl | StateDeliveryVisibleAfter | StateDeliveryVisibleBefore
  | StateDeliveryDirectTransition | StateDeliveryUserTargeted

record StateEventTemplate =
  tp_EventType :: string
  tp_Scope :: Scope
  tp_CausationID :: int64
  tp_Data :: "string option"
  tp_DeliveryPolicy :: StateDeliveryPolicy
  tp_VisibleBeforeUserIDs :: "int64 list"
  tp_RecipientUserID :: int64
  tp_SubjectUserID :: int64
  tp_CursorVisibilityEpoch :: uint64
  tp_HasCursorVisibilityEpoch :: bool

record StateEvent =
  se_GEID :: uint64
  se_EventType :: string
  se_Scope :: Scope
  se_CausationID :: int64
  se_ServerTime :: int64
  se_Data :: "string option"
  se_DeliveryPolicy :: StateDeliveryPolicy
  se_VisibleBeforeUserIDs :: "int64 list"
  se_RecipientUserID :: int64
  se_SubjectUserID :: int64
  se_CursorVisibilityEpoch :: uint64
  se_HasCursorVisibilityEpoch :: bool
  se_cursorVisibilityEpochs :: "(int64 \<times> uint64) list"
  se_subjectState :: "eventSubjectState option"
  se_encoded :: string

definition stateEventScope :: "Scope \<Rightarrow> eventScope" where
  "stateEventScope scope = \<lparr>ev_Type = sc_Type scope, ev_ID = (if sc_ID scope \<noteq> 0 then FormatInt (sc_ID scope) else [])\<rparr>"

definition commandIDText :: "int64 \<Rightarrow> string" where
  "commandIDText commandID = (if commandID = 0 then [] else FormatInt commandID)"

definition stateEventEnvelopeFromEventWithData :: "StateEvent \<Rightarrow> string \<Rightarrow> string \<Rightarrow> stateEventEnvelope" where
  "stateEventEnvelopeFromEventWithData e data cursor =
     \<lparr>env_Type = ''state.event'', env_GEID = FormatUint (se_GEID e), env_Cursor = cursor, env_Class = ''state'', env_Scope = stateEventScope (se_Scope e),
      env_EventType = se_EventType e, env_CausationID = commandIDText (se_CausationID e), env_ServerTime = se_ServerTime e, env_Data = data\<rparr>"

definition data_text :: "string option \<Rightarrow> string" where
  "data_text d = (case d of None \<Rightarrow> [] | Some s \<Rightarrow> s)"

definition stateEventEnvelopeFromEvent :: "StateEvent \<Rightarrow> string \<Rightarrow> stateEventEnvelope" where
  "stateEventEnvelopeFromEvent e cursor = stateEventEnvelopeFromEventWithData e (data_text (se_Data e)) cursor"

definition cursor_char :: "char \<Rightarrow> bool" where
  "cursor_char ch = (let n = of_char ch :: nat in (97 \<le> n \<and> n \<le> 122) \<or> (65 \<le> n \<and> n \<le> 90) \<or> (48 \<le> n \<and> n \<le> 57) \<or> n = 45 \<or> n = 95)"

definition validStateEventCursor :: "string \<Rightarrow> bool" where
  "validStateEventCursor cursor = (cursor \<noteq> [] \<and> int (length cursor) \<le> MaxStateEventCursorBytes \<and> list_all cursor_char cursor)"

definition EncodedWithDataAndCursor :: "codec \<Rightarrow> StateEvent \<Rightarrow> string option \<Rightarrow> string \<Rightarrow> (stream_error, string) outcome" where
  "EncodedWithDataAndCursor js e data cursor =
     (if \<not> validStateEventCursor cursor \<or> \<not> js_valid js (data_text data) then Fail ErrInvalidStateEvent
      else case js_marshal js (WEvent (stateEventEnvelopeFromEventWithData e (data_text data) cursor)) of None \<Rightarrow> Fail ErrEncode
        | Some encoded \<Rightarrow> if int (length encoded) > MaxStateEventBytes then Fail ErrStateEventTooLarge else Return encoded)"

definition EncodedWithCursor :: "codec \<Rightarrow> StateEvent \<Rightarrow> string \<Rightarrow> (stream_error, string) outcome" where
  "EncodedWithCursor js e cursor =
     (if \<not> validStateEventCursor cursor then Fail ErrInvalidStateEvent else EncodedWithDataAndCursor js e (se_Data e) cursor)"

definition text_size :: "string option \<Rightarrow> int" where
  "text_size t = (case t of None \<Rightarrow> 0 | Some s \<Rightarrow> int (length s))"

definition retainedSize :: "StateEvent \<Rightarrow> int" where
  "retainedSize e =
     int (length (se_encoded e)) + int (length (se_cursorVisibilityEpochs e)) * 16 + int (length (se_VisibleBeforeUserIDs e)) * 8 +
     (case se_subjectState e of None \<Rightarrow> 0
      | Some st \<Rightarrow>
          64 + int (length (usr_Username (ess_user st))) + int (length (usr_Nickname (ess_user st))) + text_size (usr_Avatar (ess_user st)) +
          (case pr_Activity (ess_presence st) of None \<Rightarrow> 0
           | Some a \<Rightarrow> int (length (pa_Type a)) + int (length (pa_Name a)) + int (length (pa_Privacy a))))"

definition isVisibilityTransitionEvent :: "string \<Rightarrow> bool" where
  "isVisibilityTransitionEvent eventType =
     (eventType \<in> set [''visibility.tombstone'', ''visibility.revoked'', ''visibility.grant.begin'', ''visibility.fragment'', ''visibility.granted'',
        ''visibility.transition.complete''])"

definition tombstoneEvent :: "string \<Rightarrow> bool" where
  "tombstoneEvent eventType =
     (eventType \<in> set [''group.deleted'', ''channel.deleted'', ''channel.member.left'', ''moderation.mute.removed''])"

fun ascendingUserIDs :: "int64 list \<Rightarrow> bool" where
  "ascendingUserIDs [] = True"
| "ascendingUserIDs [u] = (sint u > 0)"
| "ascendingUserIDs (u # u' # us) = (sint u > 0 \<and> sint u < sint u' \<and> ascendingUserIDs (u' # us))"

definition normalizeStateEvent :: "codec \<Rightarrow> StateEvent \<Rightarrow> (stream_error, StateEvent) outcome" where
  "normalizeStateEvent js e =
     (if se_GEID e = 0 \<or> se_EventType e = [] \<or> \<not> ScopeValid (se_Scope e) \<or> sint (se_CausationID e) < 0 then Fail ErrInvalidStateEvent
      else if se_DeliveryPolicy e = StateDeliveryControl then Fail ErrInvalidStateEvent
      else if (if se_DeliveryPolicy e = StateDeliveryVisibleBefore
               then \<not> tombstoneEvent (se_EventType e) \<or> \<not> ascendingUserIDs (se_VisibleBeforeUserIDs e)
               else se_VisibleBeforeUserIDs e \<noteq> []) then Fail ErrInvalidStateEvent
      else if (se_DeliveryPolicy e = StateDeliveryDirectTransition \<or> se_DeliveryPolicy e = StateDeliveryUserTargeted) \<and> sint (se_RecipientUserID e) \<le> 0
      then Fail ErrInvalidStateEvent
      else if se_DeliveryPolicy e = StateDeliveryDirectTransition \<and> \<not> isVisibilityTransitionEvent (se_EventType e) then Fail ErrInvalidStateEvent
      else if sint (se_SubjectUserID e) < 0 then Fail ErrInvalidStateEvent
      else let data = (case se_Data e of None \<Rightarrow> ''null'' | Some d \<Rightarrow> d); e1 = e\<lparr>se_Data := Some data\<rparr>
           in if \<not> js_valid js data then Fail ErrInvalidStateEvent
              else case js_marshal js (WEvent (stateEventEnvelopeFromEvent e1 [])) of None \<Rightarrow> Fail ErrEncode
                | Some encoded \<Rightarrow> Return (e1\<lparr>se_encoded := encoded\<rparr>))"

definition stateEventFromTemplate :: "codec \<Rightarrow> StateEventTemplate \<Rightarrow> uint64 \<Rightarrow> int64 \<Rightarrow> (stream_error, StateEvent) outcome" where
  "stateEventFromTemplate js t geid serverTime =
     normalizeStateEvent js \<lparr>se_GEID = geid, se_EventType = tp_EventType t, se_Scope = tp_Scope t, se_CausationID = tp_CausationID t,
       se_ServerTime = serverTime, se_Data = (case tp_Data t of None \<Rightarrow> None | Some d \<Rightarrow> if d = [] then None else Some d), se_DeliveryPolicy = tp_DeliveryPolicy t,
       se_VisibleBeforeUserIDs = tp_VisibleBeforeUserIDs t, se_RecipientUserID = tp_RecipientUserID t, se_SubjectUserID = tp_SubjectUserID t,
       se_CursorVisibilityEpoch = tp_CursorVisibilityEpoch t, se_HasCursorVisibilityEpoch = tp_HasCursorVisibilityEpoch t,
       se_cursorVisibilityEpochs = [], se_subjectState = None, se_encoded = []\<rparr>"

subsection \<open>The ring\<close>

record StateRing =
  rg_events :: "StateEvent list"
  rg_bytes :: int
  rg_highWater :: uint64
  rg_maxEvents :: int
  rg_maxBytes :: int

definition NewStateRingWithLimits :: "int \<Rightarrow> int \<Rightarrow> (stream_error, StateRing) outcome" where
  "NewStateRingWithLimits maxEvents maxBytes =
     (if maxEvents \<le> 0 \<or> maxBytes \<le> 0 then Fail ErrInvalidStateRingLimits
      else Return \<lparr>rg_events = [], rg_bytes = 0, rg_highWater = 0, rg_maxEvents = maxEvents, rg_maxBytes = maxBytes\<rparr>)"

definition NewStateRing :: "(stream_error, StateRing) outcome" where
  "NewStateRing = (case NewStateRingWithLimits MaxStateRingEntries MaxStateRingBytes of Return r \<Rightarrow> Return r | _ \<Rightarrow> Panic)"

fun validate_batch :: "codec \<Rightarrow> int \<Rightarrow> uint64 \<Rightarrow> StateEvent list \<Rightarrow> (stream_error, StateEvent list) outcome" where
  "validate_batch js maxBytes expected [] = Return []"
| "validate_batch js maxBytes expected (e # es) =
     (if se_GEID e \<noteq> expected then Fail ErrStateRingSequence
      else outcome_bind (normalizeStateEvent js e) (\<lambda>n.
        if int (length (se_encoded n)) > maxStateEventRingBytes \<or> int (length (se_encoded n)) > maxBytes then Fail ErrStateEventTooLarge
        else if retainedSize n > maxBytes then Fail ErrStateEventTooLarge
        else outcome_bind (validate_batch js maxBytes (expected + 1) es) (\<lambda>ns. Return (n # ns))))"

definition validateAppendLocked :: "codec \<Rightarrow> StateRing \<Rightarrow> StateEvent list \<Rightarrow> (stream_error, StateEvent list) outcome" where
  "validateAppendLocked js r events = validate_batch js (rg_maxBytes r) (rg_highWater r + 1) events"

text \<open>The eviction loop; indexing an empty ring panics.\<close>

fun evict :: "int \<Rightarrow> int \<Rightarrow> StateEvent list \<Rightarrow> int \<Rightarrow> (stream_error, StateEvent list \<times> int) outcome" where
  "evict maxEvents maxBytes [] bytes = (if 0 > maxEvents \<or> bytes > maxBytes then Panic else Return ([], bytes))"
| "evict maxEvents maxBytes (e # es) bytes =
     (if int (length (e # es)) > maxEvents \<or> bytes > maxBytes then evict maxEvents maxBytes es (bytes - retainedSize e)
      else Return (e # es, bytes))"

definition push_event :: "StateRing \<Rightarrow> StateEvent \<Rightarrow> (stream_error, StateRing) outcome" where
  "push_event r e =
     outcome_bind (evict (rg_maxEvents r) (rg_maxBytes r) (rg_events r @ [e]) (rg_bytes r + retainedSize e))
       (\<lambda>(events, bytes). Return (r\<lparr>rg_events := events, rg_bytes := bytes, rg_highWater := se_GEID e\<rparr>))"

definition appendLocked :: "codec \<Rightarrow> StateRing \<Rightarrow> StateEvent list \<Rightarrow> (stream_error, StateRing) outcome" where
  "appendLocked js r events = outcome_bind (validateAppendLocked js r events) (\<lambda>prepared. fold_outcome push_event r prepared)"

definition ValidateAppend :: "codec \<Rightarrow> StateRing \<Rightarrow> StateEvent list \<Rightarrow> (stream_error, unit) outcome" where
  "ValidateAppend js r events = outcome_bind (validateAppendLocked js r events) (\<lambda>_. Return ())"

definition EventsAfter :: "StateRing \<Rightarrow> uint64 \<Rightarrow> StateEvent list \<times> bool" where
  "EventsAfter r geid =
     (if geid > rg_highWater r then ([], False)
      else case rg_events r of [] \<Rightarrow> ([], geid = rg_highWater r)
        | oldest # _ \<Rightarrow> if geid < se_GEID oldest - 1 then ([], False)
            else (dropWhile (\<lambda>e. \<not> se_GEID e > geid) (rg_events r), True))"

definition RingSnapshot :: "StateRing \<Rightarrow> StateEvent list \<times> uint64" where
  "RingSnapshot r = (rg_events r, rg_highWater r)"

section \<open>Theorems\<close>

subsection \<open>Sizes and eviction\<close>

definition total_size :: "StateEvent list \<Rightarrow> int" where
  "total_size es = sum_list (map retainedSize es)"

lemma total_size_simps [simp]: "total_size [] = 0" "total_size (e # es) = retainedSize e + total_size es"
  "total_size (xs @ ys) = total_size xs + total_size ys"
  by (simp_all add: total_size_def)

lemma retainedSize_nonneg: "0 \<le> retainedSize e"
  by (auto simp: retainedSize_def text_size_def split: option.splits)

definition fits :: "int \<Rightarrow> int \<Rightarrow> StateEvent list \<Rightarrow> bool" where
  "fits maxEvents maxBytes es \<longleftrightarrow> int (length es) \<le> maxEvents \<and> total_size es \<le> maxBytes"

text \<open>Eviction keeps the longest suffix that fits.\<close>

lemma evict_spec:
  assumes "0 \<le> maxEvents" "0 \<le> maxBytes"
  shows "\<exists>k \<le> length es. evict maxEvents maxBytes es (total_size es) = Return (drop k es, total_size (drop k es)) \<and>
    fits maxEvents maxBytes (drop k es) \<and> (\<forall>j < k. \<not> fits maxEvents maxBytes (drop j es))"
proof (induction es)
  case Nil
  then show ?case using assms by (simp add: fits_def)
next
  case (Cons e es)
  then obtain k where k: "k \<le> length es" "evict maxEvents maxBytes es (total_size es) = Return (drop k es, total_size (drop k es))"
    "fits maxEvents maxBytes (drop k es)" "\<forall>j < k. \<not> fits maxEvents maxBytes (drop j es)" by blast
  show ?case
  proof (cases "fits maxEvents maxBytes (e # es)")
    case True
    then show ?thesis by (intro exI [of _ 0]) (auto simp: fits_def)
  next
    case False
    then have "\<forall>j < Suc k. \<not> fits maxEvents maxBytes (drop j (e # es))"
      using k(4) by (auto simp: less_Suc_eq_0_disj)
    moreover have "evict maxEvents maxBytes (e # es) (total_size (e # es)) = Return (drop k es, total_size (drop k es))"
      using False k(2) by (auto simp: fits_def)
    ultimately show ?thesis using k(1,3) by (intro exI [of _ "Suc k"]) auto
  qed
qed

subsection \<open>The ring and the log of everything appended\<close>

definition numbered :: "StateEvent list \<Rightarrow> bool" where
  "numbered hist \<longleftrightarrow> (\<forall>i < length hist. unat (se_GEID (hist ! i)) = Suc i)"

text \<open>The abstract specification is an append-only log whose entries carry the numbers from one on; a ring holds the
  newest part of it that fits its limits.\<close>

definition ring_log :: "StateRing \<Rightarrow> StateEvent list \<Rightarrow> bool" where
  "ring_log r hist \<longleftrightarrow> numbered hist \<and> unat (rg_highWater r) = length hist \<and>
     (\<exists>k \<le> length hist. rg_events r = drop k hist) \<and> rg_bytes r = total_size (rg_events r) \<and>
     fits (rg_maxEvents r) (rg_maxBytes r) (rg_events r) \<and> rg_maxEvents r > 0 \<and> rg_maxBytes r > 0"

lemma numbered_snoc: "numbered (hist @ [e]) \<longleftrightarrow> numbered hist \<and> unat (se_GEID e) = Suc (length hist)"
  by (auto simp: numbered_def nth_append less_Suc_eq)

lemma push_event_log:
  assumes ok: "ring_log r hist" and e: "unat (se_GEID e) = Suc (length hist)"
  shows "\<exists>r'. push_event r e = Return r' \<and> ring_log r' (hist @ [e]) \<and> rg_maxEvents r' = rg_maxEvents r \<and> rg_maxBytes r' = rg_maxBytes r"
proof -
  obtain k where k: "k \<le> length hist" "rg_events r = drop k hist" using ok by (auto simp: ring_log_def)
  have "rg_bytes r + retainedSize e = total_size (rg_events r @ [e])" using ok by (simp add: ring_log_def)
  then obtain j where j: "j \<le> length (rg_events r @ [e])"
    "evict (rg_maxEvents r) (rg_maxBytes r) (rg_events r @ [e]) (rg_bytes r + retainedSize e) =
       Return (drop j (rg_events r @ [e]), total_size (drop j (rg_events r @ [e])))"
    "fits (rg_maxEvents r) (rg_maxBytes r) (drop j (rg_events r @ [e]))"
    using evict_spec [of "rg_maxEvents r" "rg_maxBytes r" "rg_events r @ [e]"] ok by (auto simp: ring_log_def)
  have suffix: "drop j (rg_events r @ [e]) = drop (j + k) (hist @ [e])" "j + k \<le> length (hist @ [e])"
    using k j(1) by (auto simp: add.commute)
  let ?r' = "r\<lparr>rg_events := drop j (rg_events r @ [e]), rg_bytes := total_size (drop j (rg_events r @ [e])), rg_highWater := se_GEID e\<rparr>"
  have "push_event r e = Return ?r'" by (simp only: push_event_def j(2) outcome_bind_simps prod.case)
  moreover have "ring_log ?r' (hist @ [e])"
    using ok e j(3) suffix by (auto simp: ring_log_def numbered_snoc simp del: drop_append)
  ultimately show ?thesis by auto
qed

lemma normalize_geid:
  assumes "normalizeStateEvent js e = Return n"
  shows "se_GEID n = se_GEID e" "se_GEID e \<noteq> 0"
  using assms by (auto simp: normalizeStateEvent_def Let_def split: if_splits option.splits)

lemma unat_succ: "x + 1 \<noteq> 0 \<Longrightarrow> unat (x + 1) = Suc (unat (x :: uint64))"
  by (simp add: unatSuc add.commute)

lemma validate_batch_spec:
  assumes "validate_batch js maxBytes (hw + 1) es = Return ns"
  shows "\<forall>i < length ns. unat (se_GEID (ns ! i)) = Suc (unat hw + i) \<and> int (length (se_encoded (ns ! i))) \<le> maxStateEventRingBytes \<and>
    retainedSize (ns ! i) \<le> maxBytes"
  using assms
proof (induction es arbitrary: hw ns)
  case (Cons e es)
  from Cons.prems obtain n ns' where n: "se_GEID e = hw + 1" "normalizeStateEvent js e = Return n" "ns = n # ns'"
    "int (length (se_encoded n)) \<le> maxStateEventRingBytes" "retainedSize n \<le> maxBytes"
    "validate_batch js maxBytes (hw + 1 + 1) es = Return ns'"
    by (auto simp: outcome_bind_Return split: if_splits)
  have geid: "unat (se_GEID n) = Suc (unat hw)" using normalize_geid [OF n(2)] n(1) unat_succ [of hw] by simp
  show ?case using Cons.IH [OF n(6)] n geid normalize_geid [OF n(2)] by (auto simp: nth_Cons split: nat.splits)
qed simp

lemma fold_push_log:
  assumes "ring_log r hist" "\<forall>i < length ns. unat (se_GEID (ns ! i)) = Suc (length hist + i)"
  shows "\<exists>r'. fold_outcome push_event r ns = Return r' \<and> ring_log r' (hist @ ns) \<and> rg_maxEvents r' = rg_maxEvents r \<and> rg_maxBytes r' = rg_maxBytes r"
  using assms
proof (induction ns arbitrary: r hist)
  case (Cons n ns)
  have "unat (se_GEID n) = Suc (length hist)" using Cons.prems(2) by auto
  from push_event_log [OF Cons.prems(1) this] obtain r1 where r1: "push_event r n = Return r1" "ring_log r1 (hist @ [n])"
    "rg_maxEvents r1 = rg_maxEvents r" "rg_maxBytes r1 = rg_maxBytes r" by blast
  have "\<forall>i < length ns. unat (se_GEID (ns ! i)) = Suc (length (hist @ [n]) + i)"
    using Cons.prems(2) by (auto dest: spec [of _ "Suc i" for i])
  from Cons.IH [OF r1(2) this] show ?case using r1 by auto
qed simp

lemma append_log:
  assumes ok: "ring_log r hist" and v: "validateAppendLocked js r es = Return ps"
  shows "\<exists>r'. appendLocked js r es = Return r' \<and> ring_log r' (hist @ ps) \<and> rg_maxEvents r' = rg_maxEvents r \<and> rg_maxBytes r' = rg_maxBytes r"
proof -
  have "\<forall>i < length ps. unat (se_GEID (ps ! i)) = Suc (length hist + i)"
    using validate_batch_spec [OF v [unfolded validateAppendLocked_def]] ok by (auto simp: ring_log_def)
  from fold_push_log [OF ok this] show ?thesis by (simp add: appendLocked_def v)
qed

lemma append_fails: "validateAppendLocked js r es = Fail e \<Longrightarrow> appendLocked js r es = Fail e"
  by (simp add: appendLocked_def)

subsection \<open>Reachable rings\<close>

inductive ring_reach :: "codec \<Rightarrow> int \<Rightarrow> int \<Rightarrow> StateRing \<Rightarrow> StateEvent list \<Rightarrow> bool" for js maxEvents maxBytes where
  start: "NewStateRingWithLimits maxEvents maxBytes = Return r \<Longrightarrow> ring_reach js maxEvents maxBytes r []"
| append: "\<lbrakk>ring_reach js maxEvents maxBytes r hist; validateAppendLocked js r es = Return ps; appendLocked js r es = Return r'\<rbrakk>
    \<Longrightarrow> ring_reach js maxEvents maxBytes r' (hist @ ps)"

lemma ring_reach_log:
  "ring_reach js maxEvents maxBytes r hist \<Longrightarrow> ring_log r hist \<and> rg_maxEvents r = maxEvents \<and> rg_maxBytes r = maxBytes"
proof (induction rule: ring_reach.induct)
  case (start r)
  then show ?case by (auto simp: NewStateRingWithLimits_def ring_log_def numbered_def fits_def split: if_splits)
next
  case (append r hist es ps r')
  then show ?case using append_log [of r hist js es ps] by auto
qed

lemma dropWhile_numbered:
  assumes "numbered hist" "k \<le> length hist" "k \<le> unat g" "unat g \<le> length hist"
  shows "dropWhile (\<lambda>e. \<not> se_GEID e > g) (drop k hist) = drop (unat g) hist"
proof -
  have "drop k hist = take (unat g - k) (drop k hist) @ drop (unat g) hist"
    using assms append_take_drop_id [of "unat g - k" "drop k hist"] by simp
  moreover have "\<forall>e \<in> set (take (unat g - k) (drop k hist)). \<not> se_GEID e > g"
    using assms by (auto simp: in_set_conv_nth numbered_def word_less_nat_alt)
  moreover have "dropWhile (\<lambda>e. \<not> se_GEID e > g) (drop (unat g) hist) = drop (unat g) hist"
  proof (cases "unat g < length hist")
    case True
    then have "hd (drop (unat g) hist) = hist ! unat g" by (simp add: hd_drop_conv_nth)
    then have "se_GEID (hd (drop (unat g) hist)) > g" using assms(1) True by (simp add: numbered_def word_less_nat_alt)
    then show ?thesis by (cases "drop (unat g) hist") auto
  qed simp
  ultimately show ?thesis by (metis (no_types, lifting) dropWhile_append2)
qed

lemma filter_numbered: "numbered hist \<Longrightarrow> filter (\<lambda>e. se_GEID e > g) hist = drop (unat g) hist"
proof (induction hist rule: rev_induct)
  case (snoc e hist)
  then show ?case by (auto simp: numbered_snoc word_less_nat_alt)
qed simp

lemma EventsAfter_log:
  assumes "ring_log r hist"
  shows "EventsAfter r g = (if length hist - length (rg_events r) \<le> unat g \<and> unat g \<le> length hist then (drop (unat g) hist, True) else ([], False))"
proof -
  obtain k where k: "k \<le> length hist" "rg_events r = drop k hist" "unat (rg_highWater r) = length hist" "numbered hist"
    using assms by (auto simp: ring_log_def)
  show ?thesis
  proof (cases "k = length hist")
    case True
    then show ?thesis using k by (auto simp: EventsAfter_def word_less_nat_alt word_unat_eq_iff)
  next
    case False
    then obtain o' rest where o': "rg_events r = o' # rest" "o' = hist ! k" using k by (metis Cons_nth_drop_Suc le_neq_implies_less)
    have geid: "unat (se_GEID o') = Suc k" using k False o' by (simp add: numbered_def)
    then have "se_GEID o' \<noteq> 0" by auto
    then have "unat (se_GEID o' - 1) = k" using geid by (simp add: unat_minus_one)
    then have "EventsAfter r g = (if unat g > length hist then ([], False) else if unat g < k then ([], False)
        else (dropWhile (\<lambda>e. \<not> se_GEID e > g) (drop k hist), True))"
      by (simp add: EventsAfter_def word_less_nat_alt k(3) k(2) [symmetric] o'(1))
    then show ?thesis using dropWhile_numbered [OF k(4,1), of g] k(1,2) by simp
  qed
qed

text \<open>C16. The ring refines the append-only log of every event ever appended: asked for the events after a position, it
  either returns exactly the log entries with a greater number, in order, or reports that the interval
  cannot be replayed; and it reports so only when the position lies beyond the log or an entry after it was evicted.
\<close>

theorem ring_replay_complete:
  assumes "ring_reach js maxEvents maxBytes r hist" "EventsAfter r g = (es, replayable)"
  shows "(replayable \<longrightarrow> es = filter (\<lambda>e. se_GEID e > g) hist) \<and>
    (replayable \<longleftrightarrow> unat g \<le> length hist \<and> set (filter (\<lambda>e. se_GEID e > g) hist) \<subseteq> set (rg_events r))"
proof -
  have ok: "ring_log r hist" using ring_reach_log [OF assms(1)] by blast
  then obtain k where k: "k \<le> length hist" "rg_events r = drop k hist" "numbered hist" by (auto simp: ring_log_def)
  have len: "length hist - length (rg_events r) = k" using k by simp
  have "\<not> set (drop (unat g) hist) \<subseteq> set (drop k hist)" if "unat g < k"
  proof -
    have "hist ! unat g \<in> set (drop (unat g) hist)" using that k(1) by (simp add: Cons_nth_drop_Suc [symmetric])
    moreover have "hist ! unat g \<notin> set (drop k hist)"
    proof
      assume "hist ! unat g \<in> set (drop k hist)"
      then obtain i where i: "i < length hist - k" "hist ! (k + i) = hist ! unat g" by (auto simp: in_set_conv_nth)
      moreover have "unat g < length hist" "k + i < length hist" using that k(1) i(1) by simp_all
      ultimately have "Suc (k + i) = Suc (unat g)" using k(3) unfolding numbered_def by metis
      then show False using that by simp
    qed
    ultimately show ?thesis by blast
  qed
  moreover have "set (drop (unat g) hist) \<subseteq> set (drop k hist)" if "k \<le> unat g" using that by (rule set_drop_subset_set_drop)
  moreover have "EventsAfter r g = (if k \<le> unat g \<and> unat g \<le> length hist then (drop (unat g) hist, True) else ([], False))"
    using EventsAfter_log [OF ok, of g] unfolding len .
  ultimately show ?thesis
    using assms(2) unfolding filter_numbered [OF k(3)] k(2) by (auto split: if_splits)
qed

text \<open>An event and an encoder for the examples.\<close>

definition example_codec :: codec where
  "example_codec = \<lparr>js_marshal = (\<lambda>_. Some ''{}''), js_valid = (\<lambda>_. True), js_grants = (\<lambda>_. Some fmempty), js_cursor = (\<lambda>_. None)\<rparr>"

definition example_event :: "uint64 \<Rightarrow> StateEvent" where
  "example_event g = \<lparr>se_GEID = g, se_EventType = ''e'', se_Scope = server_scope, se_CausationID = 0, se_ServerTime = 0, se_Data = Some ''1'',
     se_DeliveryPolicy = StateDeliveryUnset, se_VisibleBeforeUserIDs = [], se_RecipientUserID = 0, se_SubjectUserID = 0,
     se_CursorVisibilityEpoch = 0, se_HasCursorVisibilityEpoch = False, se_cursorVisibilityEpochs = [], se_subjectState = None, se_encoded = ''{}''\<rparr>"

lemma example_normalize: "g \<noteq> 0 \<Longrightarrow> normalizeStateEvent example_codec (example_event g) = Return (example_event g)"
  by (simp add: normalizeStateEvent_def example_codec_def example_event_def ScopeValid_def Let_def)

lemma example_retained: "retainedSize (example_event g) = 2" "length (se_encoded (example_event g)) = 2" "se_GEID (example_event g) = g"
  by (simp_all add: retainedSize_def example_event_def)

text \<open>A ring of one entry that received two events.\<close>

definition example_ring :: StateRing where
  "example_ring = \<lparr>rg_events = [example_event 2], rg_bytes = 2, rg_highWater = 2, rg_maxEvents = 1, rg_maxBytes = 100\<rparr>"

lemma example_reach: "ring_reach example_codec 1 100 example_ring [example_event 1, example_event 2]"
proof -
  have new: "NewStateRingWithLimits 1 100 = Return \<lparr>rg_events = [], rg_bytes = 0, rg_highWater = 0, rg_maxEvents = 1, rg_maxBytes = 100\<rparr>" (is "_ = Return ?r")
    by (simp add: NewStateRingWithLimits_def)
  have val: "validateAppendLocked example_codec ?r [example_event 1, example_event 2] = Return [example_event 1, example_event 2]"
    by (simp add: validateAppendLocked_def example_normalize example_retained maxStateEventRingBytes_def MaxStateEventBytes_def
        MaxStateEventCursorBytes_def stateEventCursorEnvelopeBytes_def)
  have "appendLocked example_codec ?r [example_event 1, example_event 2] = Return example_ring"
    by (simp add: appendLocked_def val push_event_def example_retained example_ring_def)
  from ring_reach.append [OF ring_reach.start [OF new] val this] show ?thesis by simp
qed

theorem ring_replay_complete_witness:
  "EventsAfter example_ring 1 = ([example_event 2], True) \<and> [example_event 2] = filter (\<lambda>e. se_GEID e > 1) [example_event 1, example_event 2] \<and>
   (\<exists>es. EventsAfter example_ring 0 = (es, False))"
proof -
  have "EventsAfter example_ring 1 = ([example_event 2], True)" by (simp add: EventsAfter_def example_ring_def example_retained)
  moreover note ring_replay_complete [OF example_reach this]
  moreover have "EventsAfter example_ring 0 = ([], False)" by (simp add: EventsAfter_def example_ring_def example_retained)
  ultimately show ?thesis by blast
qed

subsection \<open>Room for the cursor\<close>

lemma validated_encoding:
  assumes "normalizeStateEvent js e = Return n"
  shows "js_marshal js (WEvent (stateEventEnvelopeFromEvent n [])) = Some (se_encoded n) \<and> js_valid js (data_text (se_Data n))"
  using assms by (auto simp: normalizeStateEvent_def Let_def stateEventEnvelopeFromEvent_def stateEventEnvelopeFromEventWithData_def data_text_def
      split: if_splits option.splits)

lemma validate_batch_normalized:
  "\<lbrakk>validate_batch js maxBytes k es = Return ps; e \<in> set ps\<rbrakk> \<Longrightarrow> \<exists>x. normalizeStateEvent js x = Return e"
  by (induction js maxBytes k es arbitrary: ps rule: validate_batch.induct) (auto simp: outcome_bind_Return split: if_splits)

text \<open>Room for the recipient's cursor is reserved when an event enters the ring: every event a validated batch holds
  can be sent with any valid cursor, and is never refused as too large, provided the encoder adds to an event
  no more than the cursor field's fixed text and the cursor itself.
\<close>

theorem ring_reserves_cursor:
  assumes "validateAppendLocked js r es = Return ps" "e \<in> set ps" "validStateEventCursor cursor"
    and "\<forall>env body. env_Cursor env = [] \<longrightarrow> js_marshal js (WEvent env) = Some body \<longrightarrow>
      (\<exists>body'. js_marshal js (WEvent (env\<lparr>env_Cursor := cursor\<rparr>)) = Some body' \<and> int (length body') \<le> int (length body) + 12 + int (length cursor))"
  shows "\<exists>body. EncodedWithCursor js e cursor = Return body \<and> int (length body) \<le> MaxStateEventBytes"
proof -
  have "\<forall>e \<in> set ps. int (length (se_encoded e)) \<le> maxStateEventRingBytes"
    using validate_batch_spec [OF assms(1) [unfolded validateAppendLocked_def]] by (auto simp: in_set_conv_nth)
  moreover have "\<exists>x. normalizeStateEvent js x = Return e"
    using validate_batch_normalized [OF assms(1) [unfolded validateAppendLocked_def] assms(2)] .
  ultimately have e: "int (length (se_encoded e)) \<le> maxStateEventRingBytes"
    "js_marshal js (WEvent (stateEventEnvelopeFromEvent e [])) = Some (se_encoded e)" "js_valid js (data_text (se_Data e))"
    using validated_encoding assms(2) by blast+
  have "\<exists>body'. js_marshal js (WEvent (stateEventEnvelopeFromEvent e cursor)) = Some body' \<and>
      int (length body') \<le> int (length (se_encoded e)) + 12 + int (length cursor)"
    using assms(4) [rule_format, OF _ e(2)] by (simp add: stateEventEnvelopeFromEvent_def stateEventEnvelopeFromEventWithData_def)
  then show ?thesis
    using e(1,3) assms(3)
    by (auto simp: EncodedWithCursor_def EncodedWithDataAndCursor_def stateEventEnvelopeFromEvent_def validStateEventCursor_def maxStateEventRingBytes_def
        stateEventCursorEnvelopeBytes_def)
qed

theorem ring_reserves_cursor_witness:
  "\<exists>body. EncodedWithCursor example_codec (example_event 1) ''abc'' = Return body \<and> int (length body) \<le> MaxStateEventBytes"
proof -
  let ?r = "\<lparr>rg_events = [], rg_bytes = 0, rg_highWater = 0, rg_maxEvents = 1, rg_maxBytes = 100\<rparr>"
  have "validateAppendLocked example_codec ?r [example_event 1] = Return [example_event 1]"
    by (simp add: validateAppendLocked_def example_normalize example_retained maxStateEventRingBytes_def MaxStateEventBytes_def
        MaxStateEventCursorBytes_def stateEventCursorEnvelopeBytes_def)
  moreover have "validStateEventCursor ''abc''"
    by (simp add: validStateEventCursor_def cursor_char_def MaxStateEventCursorBytes_def Let_def)
  moreover have "\<forall>env body. env_Cursor env = [] \<longrightarrow> js_marshal example_codec (WEvent env) = Some body \<longrightarrow>
      (\<exists>body'. js_marshal example_codec (WEvent (env\<lparr>env_Cursor := ''abc''\<rparr>)) = Some body' \<and> int (length body') \<le> int (length body) + 12 + int (length ''abc''))"
    by (simp add: example_codec_def)
  ultimately show ?thesis
    using ring_reserves_cursor [of example_codec ?r "[example_event 1]" "[example_event 1]" "example_event 1" "''abc''"] by simp
qed

end
