(* ===== verification/Cursor.thy ===== *)
theory Cursor
  imports Ring
begin

text \<open>
  Opaque replay cursors (\<^verbatim>\<open>internal/realtime/cursor.go\<close>).  A cursor is the JSON of its payload followed by an
  HMAC-SHA256 tag, in unpadded URL-safe base64.  Base64 is modelled as the standard library implements it: the
  decoder skips line breaks and ignores surplus trailing bits.  JSON comes from the \<open>codec\<close>, and the
  tag function is the parameter \<open>hmac\<close>, taking the key and the message.
\<close>

section \<open>Definitions\<close>

subsection \<open>Unpadded URL-safe base64\<close>

definition b64_char :: "nat \<Rightarrow> char" where
  "b64_char n = (if n < 26 then char_of (65 + n) else if n < 52 then char_of (71 + n) else if n < 62 then char_of (n - 4)
     else if n = 62 then CHR ''-'' else CHR ''_'')"

definition b64_value :: "char \<Rightarrow> nat option" where
  "b64_value ch = (let n = of_char ch in
     if 65 \<le> n \<and> n \<le> 90 then Some (n - 65) else if 97 \<le> n \<and> n \<le> 122 then Some (n - 71) else if 48 \<le> n \<and> n \<le> 57 then Some (n + 4)
     else if n = 45 then Some 62 else if n = 95 then Some 63 else None)"

fun b64_sextets :: "nat list \<Rightarrow> nat list" where
  "b64_sextets [] = []"
| "b64_sextets [a] = [a div 4, a mod 4 * 16]"
| "b64_sextets [a, b] = [a div 4, a mod 4 * 16 + b div 16, b mod 16 * 4]"
| "b64_sextets (a # b # c # rest) = a div 4 # (a mod 4 * 16 + b div 16) # (b mod 16 * 4 + c div 64) # c mod 64 # b64_sextets rest"

fun b64_octets :: "nat list \<Rightarrow> nat list option" where
  "b64_octets [] = Some []"
| "b64_octets [x] = None"
| "b64_octets [x, y] = Some [x * 4 + y div 16]"
| "b64_octets [x, y, z] = Some [x * 4 + y div 16, y mod 16 * 16 + z div 4]"
| "b64_octets (w # x # y # z # rest) =
     map_option (\<lambda>os. (w * 4 + x div 16) # (x mod 16 * 16 + y div 4) # (y mod 4 * 64 + z) # os) (b64_octets rest)"

definition EncodeToString :: "string \<Rightarrow> string" where
  "EncodeToString s = map b64_char (b64_sextets (map of_char s))"

definition DecodeString :: "string \<Rightarrow> string option" where
  "DecodeString s =
     (let body = filter (\<lambda>ch. ch \<noteq> CHR 0x0A \<and> ch \<noteq> CHR 0x0D) s
      in case those (map b64_value body) of None \<Rightarrow> None
         | Some vs \<Rightarrow> map_option (map char_of) (b64_octets vs))"

subsection \<open>The signer\<close>

definition SnapshotSchemaVersion :: "16 word" where "SnapshotSchemaVersion = 1"
definition cursorKeyBytes :: nat where "cursorKeyBytes = 32"
definition sha256_Size :: nat where "sha256_Size = 32"

record Cursor =
  cu_Checkpoint :: Checkpoint
  cu_VisibilityEpoch :: uint64
  cu_SchemaVersion :: "16 word"

record CursorSigner =
  cs_streamEpoch :: string
  cs_key :: string

type_synonym tag_function = "string \<Rightarrow> string \<Rightarrow> string"

definition NewCursorSignerWithKey :: "string \<Rightarrow> string \<Rightarrow> (stream_error, CursorSigner) outcome" where
  "NewCursorSignerWithKey streamEpoch key =
     (case validateStreamEpoch streamEpoch of
        Return _ \<Rightarrow> if length key \<noteq> cursorKeyBytes then Fail ErrCursorKey else Return \<lparr>cs_streamEpoch = streamEpoch, cs_key = key\<rparr>
      | _ \<Rightarrow> Fail ErrStreamEpoch)"

definition cursor_payload :: "int64 \<Rightarrow> Checkpoint \<Rightarrow> uint64 \<Rightarrow> cursorPayload" where
  "cursor_payload userID checkpoint visibilityEpoch =
     \<lparr>cur_UserID = FormatInt userID, cur_StreamEpoch = cp_StreamEpoch checkpoint, cur_GEID = FormatUint (cp_GEID checkpoint),
      cur_VisibilityEpoch = FormatUint visibilityEpoch, cur_SchemaVersion = SnapshotSchemaVersion\<rparr>"

definition Issue :: "codec \<Rightarrow> tag_function \<Rightarrow> CursorSigner \<Rightarrow> int64 \<Rightarrow> Checkpoint \<Rightarrow> uint64 \<Rightarrow> (stream_error, string) outcome" where
  "Issue js hmac s userID checkpoint visibilityEpoch =
     (if sint userID \<le> 0 \<or> cp_StreamEpoch checkpoint \<noteq> cs_streamEpoch s then Fail ErrInvalidCursor
      else case js_marshal js (WCursor (cursor_payload userID checkpoint visibilityEpoch)) of None \<Rightarrow> Fail ErrEncode
        | Some payload \<Rightarrow>
            let encoded = EncodeToString (payload @ hmac (cs_key s) payload)
            in if int (length encoded) > MaxStateEventCursorBytes then Fail ErrInvalidCursor else Return encoded)"

definition splitCursor :: "string \<Rightarrow> (stream_error, string \<times> string) outcome" where
  "splitCursor token =
     (case DecodeString token of None \<Rightarrow> Fail ErrInvalidCursor
      | Some encoded \<Rightarrow>
          if length encoded \<le> sha256_Size then Fail ErrInvalidCursor
          else Return (take (length encoded - sha256_Size) encoded, drop (length encoded - sha256_Size) encoded))"

definition Parse :: "codec \<Rightarrow> tag_function \<Rightarrow> CursorSigner \<Rightarrow> int64 \<Rightarrow> string \<Rightarrow> (stream_error, Cursor) outcome" where
  "Parse js hmac s userID token =
     outcome_bind (splitCursor token) (\<lambda>(payload, signature).
       if signature \<noteq> hmac (cs_key s) payload then Fail ErrInvalidCursor
       else case js_cursor js payload of None \<Rightarrow> Fail ErrInvalidCursor
         | Some decoded \<Rightarrow>
             (case ParseInt (cur_UserID decoded) of None \<Rightarrow> Fail ErrInvalidCursor
              | Some parsedUserID \<Rightarrow>
                  if sint parsedUserID \<le> 0 then Fail ErrInvalidCursor
                  else if parsedUserID \<noteq> userID then Fail ErrCursorPrincipal
                  else if cur_StreamEpoch decoded \<noteq> cs_streamEpoch s then Fail ErrCursorEpoch
                  else if cur_SchemaVersion decoded \<noteq> SnapshotSchemaVersion then Fail ErrCursorSchema
                  else case (ParseUint (cur_GEID decoded), ParseUint (cur_VisibilityEpoch decoded)) of
                    (Some geid, Some visibilityEpoch) \<Rightarrow>
                      Return \<lparr>cu_Checkpoint = \<lparr>cp_StreamEpoch = cur_StreamEpoch decoded, cp_GEID = geid\<rparr>, cu_VisibilityEpoch = visibilityEpoch,
                              cu_SchemaVersion = cur_SchemaVersion decoded\<rparr>
                  | _ \<Rightarrow> Fail ErrInvalidCursor))"

section \<open>Theorems\<close>

subsection \<open>Base64\<close>

lemma b64_value_char [simp]: "n < 64 \<Longrightarrow> b64_value (b64_char n) = Some n"
  by (auto simp: b64_char_def b64_value_def Let_def)

lemma cursor_char_b64 [simp]: "n < 64 \<Longrightarrow> cursor_char (b64_char n)"
  by (auto simp: b64_char_def cursor_char_def Let_def)

lemma b64_char_break [simp]: "n < 64 \<Longrightarrow> b64_char n \<noteq> CHR 0x0A" "n < 64 \<Longrightarrow> b64_char n \<noteq> CHR 0x0D"
  using b64_value_char [of n] by (auto simp: b64_value_def simp del: b64_value_char)

lemma b64_sextets_bound: "\<forall>n \<in> set ns. n < 256 \<Longrightarrow> \<forall>n \<in> set (b64_sextets ns). n < 64"
  by (induction ns rule: b64_sextets.induct) (auto simp: less_mult_imp_div_less)

lemma b64_octets_sextets: "\<forall>n \<in> set ns. n < 256 \<Longrightarrow> b64_octets (b64_sextets ns) = Some ns"
  by (induction ns rule: b64_sextets.induct) auto

lemma those_map_Some: "(\<forall>x \<in> set xs. f x = Some (g x)) \<Longrightarrow> those (map f xs) = Some (map g xs)"
  by (induction xs) auto

lemma chars_bound: "\<forall>n \<in> set (map of_char (s :: string)). n < (256 :: nat)"
  by auto

lemma DecodeString_EncodeToString: "DecodeString (EncodeToString s) = Some s"
proof -
  let ?v = "b64_sextets (map of_char s)"
  have v: "\<forall>n \<in> set ?v. n < 64" by (rule b64_sextets_bound [OF chars_bound])
  then have "filter (\<lambda>ch. ch \<noteq> CHR 0x0A \<and> ch \<noteq> CHR 0x0D) (map b64_char ?v) = map b64_char ?v" by (auto simp: filter_id_conv)
  moreover have "those (map b64_value (map b64_char ?v)) = Some ?v"
    using those_map_Some [of ?v "b64_value \<circ> b64_char" id] v by simp
  ultimately show ?thesis
    using b64_octets_sextets [OF chars_bound, of s] by (simp add: DecodeString_def EncodeToString_def comp_def)
qed

lemma EncodeToString_alphabet: "list_all cursor_char (EncodeToString s)"
  using b64_sextets_bound [OF chars_bound, of s] by (auto simp: EncodeToString_def list_all_iff)

lemma length_EncodeToString: "length (EncodeToString s) = (4 * length s + 2) div 3"
proof -
  have "length (b64_sextets ns) = (4 * length ns + 2) div 3" for ns
    by (induction ns rule: b64_sextets.induct) auto
  then show ?thesis by (simp add: EncodeToString_def)
qed

lemma EncodeToString_nonempty: "s \<noteq> [] \<Longrightarrow> EncodeToString s \<noteq> []"
  by (cases "map of_char s :: nat list" rule: b64_sextets.cases) (auto simp: EncodeToString_def)

subsection \<open>Issuing and parsing\<close>

lemma splitCursor_token:
  assumes "length sig = sha256_Size" "payload \<noteq> []"
  shows "splitCursor (EncodeToString (payload @ sig)) = Return (payload, sig)"
  using assms by (simp add: splitCursor_def DecodeString_EncodeToString)

lemma splitCursor_Return:
  assumes "splitCursor token = Return (payload, sig)"
  shows "DecodeString token = Some (payload @ sig)"
  using assms by (auto simp: splitCursor_def split: option.splits if_splits)

lemma Issue_Return:
  assumes "Issue js hmac s userID checkpoint ve = Return token"
  obtains payload where "js_marshal js (WCursor (cursor_payload userID checkpoint ve)) = Some payload"
    "token = EncodeToString (payload @ hmac (cs_key s) payload)" "sint userID > 0" "cp_StreamEpoch checkpoint = cs_streamEpoch s"
    "int (length token) \<le> MaxStateEventCursorBytes"
  using assms by (auto simp: Issue_def Let_def split: if_splits option.splits)

text \<open>A cursor a signer issues is a well-formed event cursor, and parsing it returns the checkpoint and visibility epoch it
  was issued for; presented by another user it is refused as a principal mismatch, and to a signer of another
  stream epoch with the same key as an epoch mismatch.
\<close>

theorem cursor_roundtrip:
  assumes "Issue js hmac s userID checkpoint ve = Return token"
    and "\<forall>p t. js_marshal js (WCursor p) = Some t \<longrightarrow> js_cursor js t = Some p \<and> t \<noteq> []"
    and "\<forall>k m. length (hmac k m) = sha256_Size"
  shows "validStateEventCursor token \<and>
    Parse js hmac s userID token = Return \<lparr>cu_Checkpoint = checkpoint, cu_VisibilityEpoch = ve, cu_SchemaVersion = SnapshotSchemaVersion\<rparr> \<and>
    (\<forall>other. other \<noteq> userID \<longrightarrow> Parse js hmac s other token = Fail ErrCursorPrincipal) \<and>
    (\<forall>s'. cs_key s' = cs_key s \<longrightarrow> cs_streamEpoch s' \<noteq> cs_streamEpoch s \<longrightarrow> Parse js hmac s' userID token = Fail ErrCursorEpoch)"
proof -
  obtain payload where p: "js_marshal js (WCursor (cursor_payload userID checkpoint ve)) = Some payload"
    "token = EncodeToString (payload @ hmac (cs_key s) payload)" "sint userID > 0" "cp_StreamEpoch checkpoint = cs_streamEpoch s"
    "int (length token) \<le> MaxStateEventCursorBytes" using Issue_Return [OF assms(1)] .
  have j: "js_cursor js payload = Some (cursor_payload userID checkpoint ve)" "payload \<noteq> []" using assms(2) p(1) by auto
  have split: "splitCursor token = Return (payload, hmac (cs_key s) payload)"
    unfolding p(2) using assms(3) j(2) by (intro splitCursor_token) auto
  have "validStateEventCursor token"
    unfolding validStateEventCursor_def using p(5) j(2)
    by (auto simp: p(2) EncodeToString_alphabet EncodeToString_nonempty)
  then show ?thesis using p(3,4) j(1) split by (auto simp: Parse_def cursor_payload_def)
qed

text \<open>An encoder of one cursor and a constant tag.\<close>

definition example_cursor_codec :: codec where
  "example_cursor_codec = example_codec\<lparr>js_marshal := \<lambda>w. if w = WCursor (cursor_payload 1 (sv_checkpoint example_version) 0) then Some ''{}'' else None,
     js_cursor := \<lambda>_. Some (cursor_payload 1 (sv_checkpoint example_version) 0)\<rparr>"

definition example_tag :: tag_function where
  "example_tag k m = replicate 32 (CHR ''a'')"

definition example_signer :: CursorSigner where
  "example_signer = \<lparr>cs_streamEpoch = cp_StreamEpoch (sv_checkpoint example_version), cs_key = replicate 32 (CHR ''k'')\<rparr>"

lemma example_split: "splitCursor (EncodeToString (''{}'' @ example_tag k m)) = Return (''{}'', replicate 32 (CHR ''a''))"
  using splitCursor_token [of "replicate 32 (CHR ''a'')" "''{}''"] by (simp add: example_tag_def sha256_Size_def)

theorem cursor_roundtrip_witness:
  "\<exists>token. Issue example_cursor_codec example_tag example_signer 1 (sv_checkpoint example_version) 0 = Return token \<and>
     Parse example_cursor_codec example_tag example_signer 1 token =
       Return \<lparr>cu_Checkpoint = sv_checkpoint example_version, cu_VisibilityEpoch = 0, cu_SchemaVersion = SnapshotSchemaVersion\<rparr>"
proof -
  let ?token = "EncodeToString (''{}'' @ example_tag (cs_key example_signer) ''{}'')"
  have "length ?token = 46" by (simp add: length_EncodeToString example_tag_def)
  then have issue: "Issue example_cursor_codec example_tag example_signer 1 (sv_checkpoint example_version) 0 = Return ?token"
    by (simp add: Issue_def MaxStateEventCursorBytes_def Let_def example_cursor_codec_def example_signer_def)
  have "\<forall>p t. js_marshal example_cursor_codec (WCursor p) = Some t \<longrightarrow> js_cursor example_cursor_codec t = Some p \<and> t \<noteq> []"
    by (auto simp: example_cursor_codec_def split: if_splits)
  moreover have "\<forall>k m. length (example_tag k m) = sha256_Size" by (simp add: example_tag_def sha256_Size_def)
  ultimately show ?thesis using cursor_roundtrip [OF issue] issue by blast
qed

text \<open>C26. Whatever a signer accepts carries the tag of its own key over exactly the payload it read, and that payload names
  the presenting user, the signer's stream epoch and the current schema version.
\<close>

theorem cursor_authenticated:
  assumes "Parse js hmac s userID token = Return c"
  shows "\<exists>payload decoded. DecodeString token = Some (payload @ hmac (cs_key s) payload) \<and> js_cursor js payload = Some decoded \<and>
    sint userID > 0 \<and> ParseInt (cur_UserID decoded) = Some userID \<and> cur_StreamEpoch decoded = cs_streamEpoch s \<and>
    cur_SchemaVersion decoded = SnapshotSchemaVersion \<and> cp_StreamEpoch (cu_Checkpoint c) = cs_streamEpoch s \<and>
    ParseUint (cur_GEID decoded) = Some (cp_GEID (cu_Checkpoint c)) \<and> ParseUint (cur_VisibilityEpoch decoded) = Some (cu_VisibilityEpoch c)"
proof -
  obtain payload sig where split: "splitCursor token = Return (payload, sig)"
    using assms by (cases "splitCursor token") (auto simp: Parse_def)
  then show ?thesis using assms splitCursor_Return [OF split]
    by (auto simp: Parse_def split: if_splits option.splits)
qed

theorem cursor_authenticated_witness:
  "let token = EncodeToString (''{}'' @ example_tag [] [])
   in \<exists>c. Parse example_cursor_codec example_tag example_signer 1 token = Return c \<and> (\<exists>payload. DecodeString token = Some (payload @ example_tag [] []))"
proof -
  let ?token = "EncodeToString (''{}'' @ example_tag [] [])"
  have "\<exists>c. Parse example_cursor_codec example_tag example_signer 1 ?token = Return c"
    unfolding Parse_def example_split by (simp add: example_tag_def example_cursor_codec_def cursor_payload_def example_signer_def)
  then obtain c where c: "Parse example_cursor_codec example_tag example_signer 1 ?token = Return c" ..
  from cursor_authenticated [OF c] show ?thesis using c by (auto simp: Let_def example_tag_def)
qed

end
