(* ===== verification/Lane.thy ===== *)
theory Lane
  imports Ring "HOL-Library.Sublist"
begin

text \<open>
  The bounded outbound lanes of one control connection (\<^verbatim>\<open>internal/realtime/websocket.go\<close>): the state lane the event bus
  fills and the writer drains, the latest-only telemetry slot, and the tracker of outstanding request
  identifiers; and the queue items of \<^verbatim>\<open>internal/realtime/eventbus.go\<close> with their pruning.  Each operation
  runs under its lane's mutex and is one step.  The wake-up channels have capacity one and are booleans.
\<close>

section \<open>Definitions\<close>

definition MaxWebSocketStateItems :: int where "MaxWebSocketStateItems = 256"
definition MaxWebSocketStateBytes :: int where "MaxWebSocketStateBytes = 2 ^ 20"
definition MaxWebSocketTelemetryBytes :: int where "MaxWebSocketTelemetryBytes = 16 * 2 ^ 10"
definition MaxWebSocketResponseItems :: nat where "MaxWebSocketResponseItems = 16"

record StateQueueItem =
  qi_Frame :: string
  qi_Scope :: Scope
  qi_GEID :: uint64
  qi_Policy :: StateDeliveryPolicy
  qi_RecipientUserID :: int64
  qi_ConnectionGeneration :: uint64
  qi_CursorVisibilityEpoch :: uint64

definition frame_size :: "StateQueueItem \<Rightarrow> int" where
  "frame_size item = int (length (qi_Frame item))"

definition stateQueueItemBytes :: "StateQueueItem list \<Rightarrow> int" where
  "stateQueueItemBytes items = sum_list (map frame_size items)"

fun batch_fits :: "int \<Rightarrow> StateQueueItem list \<Rightarrow> bool" where
  "batch_fits bytes [] = True"
| "batch_fits bytes (item # items) =
     (if qi_Frame item = [] \<or> frame_size item > MaxWebSocketStateBytes then False
      else if bytes + frame_size item > MaxWebSocketStateBytes then False
      else batch_fits (bytes + frame_size item) items)"

definition stateItemBatchWithinLimits :: "StateQueueItem list \<Rightarrow> bool" where
  "stateItemBatchWithinLimits items =
     (if items = [] \<or> int (length items) > MaxWebSocketStateItems then False else batch_fits 0 items)"

definition prunable :: "Scope list \<Rightarrow> StateQueueItem \<Rightarrow> bool" where
  "prunable revoked item = (qi_Policy item = StateDeliveryVisibleAfter \<and> qi_Scope item \<in> set revoked)"

definition pruneStateQueueItems :: "StateQueueItem list \<Rightarrow> Scope list \<Rightarrow> StateQueueItem list" where
  "pruneStateQueueItems items revoked = (if items = [] \<or> revoked = [] then items else filter (\<lambda>i. \<not> prunable revoked i) items)"

subsection \<open>The state lane\<close>

record webSocketStateFrame =
  wf_item :: StateQueueItem
  wf_bytes :: int

record webSocketStateLane =
  wl_items :: int
  wl_bytes :: int
  wl_queue :: "webSocketStateFrame list"
  wl_ready :: bool
  wl_closed :: bool

definition newWebSocketStateLane :: webSocketStateLane where
  "newWebSocketStateLane = \<lparr>wl_items = 0, wl_bytes = 0, wl_queue = [], wl_ready = False, wl_closed = False\<rparr>"

definition signal_lane :: "webSocketStateLane \<Rightarrow> webSocketStateLane" where
  "signal_lane l = l\<lparr>wl_ready := True\<rparr>"

fun prune_frames :: "Scope list \<Rightarrow> webSocketStateFrame list \<Rightarrow> int \<Rightarrow> int \<Rightarrow> webSocketStateFrame list \<times> int \<times> int" where
  "prune_frames revoked [] items bytes = ([], items, bytes)"
| "prune_frames revoked (f # fs) items bytes =
     (if prunable revoked (wf_item f) then prune_frames revoked fs (items - 1) (bytes - wf_bytes f)
      else let (kept, items', bytes') = prune_frames revoked fs items bytes in (f # kept, items', bytes'))"

definition prune_lane :: "webSocketStateLane \<Rightarrow> Scope list \<Rightarrow> webSocketStateLane" where
  "prune_lane l revoked =
     (if revoked = [] \<or> wl_queue l = [] then l
      else let (kept, items, bytes) = prune_frames revoked (wl_queue l) (wl_items l) (wl_bytes l)
           in l\<lparr>wl_queue := kept, wl_items := items, wl_bytes := bytes\<rparr>)"

definition lane_frame :: "StateQueueItem \<Rightarrow> webSocketStateFrame" where
  "lane_frame item = \<lparr>wf_item = item, wf_bytes = frame_size item\<rparr>"

definition applyBatch :: "webSocketStateLane \<Rightarrow> Scope list \<Rightarrow> StateQueueItem list \<Rightarrow> bool \<times> webSocketStateLane" where
  "applyBatch l revoked items =
     (if items \<noteq> [] \<and> \<not> stateItemBatchWithinLimits items then (False, l)
      else if wl_closed l then (False, l)
      else let batch = map lane_frame items; batchBytes = stateQueueItemBytes items; l1 = prune_lane l revoked
           in if wl_items l1 + int (length batch) > MaxWebSocketStateItems \<or> wl_bytes l1 + batchBytes > MaxWebSocketStateBytes then (False, l1)
              else (True, signal_lane (l1\<lparr>wl_queue := wl_queue l1 @ batch, wl_items := wl_items l1 + int (length batch), wl_bytes := wl_bytes l1 + batchBytes\<rparr>)))"

definition enqueue_control :: "webSocketStateLane \<Rightarrow> string \<Rightarrow> bool \<times> webSocketStateLane" where
  "enqueue_control l frame =
     applyBatch l [] [\<lparr>qi_Frame = frame, qi_Scope = \<lparr>sc_Type = [], sc_ID = 0\<rparr>, qi_GEID = 0, qi_Policy = StateDeliveryControl, qi_RecipientUserID = 0,
       qi_ConnectionGeneration = 0, qi_CursorVisibilityEpoch = 0\<rparr>]"

definition claim_frame :: "webSocketStateLane \<Rightarrow> webSocketStateFrame option \<times> webSocketStateLane" where
  "claim_frame l =
     (if wl_closed l then (None, l)
      else case wl_queue l of [] \<Rightarrow> (None, l)
        | f # rest \<Rightarrow> (Some f, if rest \<noteq> [] then signal_lane (l\<lparr>wl_queue := rest\<rparr>) else l\<lparr>wl_queue := rest\<rparr>))"

definition release_frame :: "webSocketStateLane \<Rightarrow> webSocketStateFrame \<Rightarrow> webSocketStateLane" where
  "release_frame l f = l\<lparr>wl_items := wl_items l - 1, wl_bytes := wl_bytes l - wf_bytes f\<rparr>"

definition stop_lane :: "webSocketStateLane \<Rightarrow> webSocketStateLane" where
  "stop_lane l =
     (if wl_closed l then l
      else l\<lparr>wl_closed := True, wl_items := foldl (\<lambda>n _. n - 1) (wl_items l) (wl_queue l),
             wl_bytes := foldl (\<lambda>n f. n - wf_bytes f) (wl_bytes l) (wl_queue l), wl_queue := []\<rparr>)"

definition close_lane :: "webSocketStateLane \<Rightarrow> webSocketStateLane" where
  "close_lane l = (stop_lane l)\<lparr>wl_items := 0, wl_bytes := 0\<rparr>"

subsection \<open>The telemetry slot and the request tracker\<close>

record webSocketTelemetryLane =
  tl_frame :: string
  tl_ready :: bool
  tl_closed :: bool

definition store_telemetry :: "webSocketTelemetryLane \<Rightarrow> string \<Rightarrow> bool \<times> webSocketTelemetryLane" where
  "store_telemetry l frame =
     (if frame = [] \<or> int (length frame) > MaxWebSocketTelemetryBytes then (False, l)
      else if tl_closed l then (False, l)
      else (True, l\<lparr>tl_frame := frame, tl_ready := True\<rparr>))"

definition claim_telemetry :: "webSocketTelemetryLane \<Rightarrow> string option \<times> webSocketTelemetryLane" where
  "claim_telemetry l = (if tl_closed l \<or> tl_frame l = [] then (None, l) else (Some (tl_frame l), l\<lparr>tl_frame := []\<rparr>))"

definition close_telemetry :: "webSocketTelemetryLane \<Rightarrow> webSocketTelemetryLane" where
  "close_telemetry l = l\<lparr>tl_closed := True, tl_frame := []\<rparr>"

definition ReserveRequest :: "string fset \<Rightarrow> string \<Rightarrow> bool \<times> string fset" where
  "ReserveRequest used requestID =
     (if fcard used \<ge> MaxWebSocketResponseItems then (False, used)
      else if requestID |\<in>| used then (False, used)
      else (True, finsert requestID used))"

definition ReleaseRequest :: "string fset \<Rightarrow> string \<Rightarrow> string fset" where
  "ReleaseRequest used requestID = used |-| {|requestID|}"

section \<open>Theorems\<close>

subsection \<open>Batches and pruning\<close>

lemma bytes_simps [simp]: "stateQueueItemBytes [] = 0" "stateQueueItemBytes (i # is) = frame_size i + stateQueueItemBytes is"
  "stateQueueItemBytes (xs @ ys) = stateQueueItemBytes xs + stateQueueItemBytes ys"
  by (simp_all add: stateQueueItemBytes_def)

lemma frame_size_nonneg [simp]: "0 \<le> frame_size i"
  by (simp add: frame_size_def)

lemma batch_fits_iff:
  "0 \<le> bytes \<Longrightarrow> bytes \<le> MaxWebSocketStateBytes \<Longrightarrow>
   batch_fits bytes items \<longleftrightarrow> (\<forall>i \<in> set items. qi_Frame i \<noteq> []) \<and> bytes + stateQueueItemBytes items \<le> MaxWebSocketStateBytes"
proof (induction bytes items rule: batch_fits.induct)
  case (2 bytes item items)
  have "0 \<le> stateQueueItemBytes items" by (induction items) simp_all
  then show ?case using 2 by auto
qed simp

lemma stateItemBatchWithinLimits_iff:
  "stateItemBatchWithinLimits items \<longleftrightarrow> items \<noteq> [] \<and> int (length items) \<le> MaxWebSocketStateItems \<and> (\<forall>i \<in> set items. qi_Frame i \<noteq> []) \<and>
     stateQueueItemBytes items \<le> MaxWebSocketStateBytes"
  by (simp add: stateItemBatchWithinLimits_def batch_fits_iff MaxWebSocketStateBytes_def)

definition frame_total :: "webSocketStateFrame list \<Rightarrow> int" where
  "frame_total fs = sum_list (map wf_bytes fs)"

lemma frame_total_simps [simp]: "frame_total [] = 0" "frame_total (f # fs) = wf_bytes f + frame_total fs"
  "frame_total (xs @ ys) = frame_total xs + frame_total ys" "frame_total (map lane_frame items) = stateQueueItemBytes items"
  by (simp_all add: frame_total_def stateQueueItemBytes_def lane_frame_def comp_def)

lemma prune_frames_spec:
  "prune_frames revoked fs items bytes =
     (let kept = filter (\<lambda>f. \<not> prunable revoked (wf_item f)) fs
      in (kept, items - (int (length fs) - int (length kept)), bytes - (frame_total fs - frame_total kept)))"
  by (induction revoked fs items bytes rule: prune_frames.induct) (auto simp: Let_def)

lemma prune_lane_spec:
  "prune_lane l revoked =
     (let kept = filter (\<lambda>f. \<not> prunable revoked (wf_item f)) (wl_queue l)
      in l\<lparr>wl_queue := kept, wl_items := wl_items l - (int (length (wl_queue l)) - int (length kept)),
           wl_bytes := wl_bytes l - (frame_total (wl_queue l) - frame_total kept)\<rparr>)"
  by (auto simp: prune_lane_def prune_frames_spec Let_def prunable_def)

subsection \<open>The lane under any interleaving of its users\<close>

text \<open>A lane with the frames the writer claimed and has not released, and three ghosts: every frame admitted, every
  frame claimed, and every scope revoked.\<close>

record lane_sys =
  ls_lane :: webSocketStateLane
  ls_claimed :: "webSocketStateFrame list"
  ls_admitted :: "webSocketStateFrame list"
  ls_taken :: "webSocketStateFrame list"
  ls_revoked :: "Scope set"

definition lane_start :: lane_sys where
  "lane_start = \<lparr>ls_lane = newWebSocketStateLane, ls_claimed = [], ls_admitted = [], ls_taken = [], ls_revoked = {}\<rparr>"

inductive lane_step :: "lane_sys \<Rightarrow> lane_sys \<Rightarrow> bool" where
  apply_batch: "applyBatch (ls_lane s) revoked items = (admit, l) \<Longrightarrow>
    lane_step s (s\<lparr>ls_lane := l, ls_admitted := ls_admitted s @ (if admit then map lane_frame items else []), ls_revoked := ls_revoked s \<union> set revoked\<rparr>)"
| claim: "claim_frame (ls_lane s) = (Some f, l) \<Longrightarrow>
    lane_step s (s\<lparr>ls_lane := l, ls_claimed := f # ls_claimed s, ls_taken := ls_taken s @ [f]\<rparr>)"
| release: "f \<in> set (ls_claimed s) \<Longrightarrow> lane_step s (s\<lparr>ls_lane := release_frame (ls_lane s) f, ls_claimed := remove1 f (ls_claimed s)\<rparr>)"
| stop: "lane_step s (s\<lparr>ls_lane := stop_lane (ls_lane s)\<rparr>)"
| close: "lane_step s (s\<lparr>ls_lane := close_lane (ls_lane s)\<rparr>)"

definition lane_account :: "lane_sys \<Rightarrow> bool" where
  "lane_account s \<longleftrightarrow> wl_items (ls_lane s) = int (length (wl_queue (ls_lane s))) + int (length (ls_claimed s)) \<and>
     wl_bytes (ls_lane s) = frame_total (wl_queue (ls_lane s)) + frame_total (ls_claimed s) \<and>
     wl_items (ls_lane s) \<le> MaxWebSocketStateItems \<and> wl_bytes (ls_lane s) \<le> MaxWebSocketStateBytes"

definition lane_order :: "lane_sys \<Rightarrow> bool" where
  "lane_order s \<longleftrightarrow> subseq (ls_taken s @ wl_queue (ls_lane s)) (ls_admitted s) \<and>
     (\<not> wl_closed (ls_lane s) \<longrightarrow>
       (\<forall>f \<in> set (ls_admitted s). f \<in> set (ls_taken s @ wl_queue (ls_lane s)) \<or>
          qi_Policy (wf_item f) = StateDeliveryVisibleAfter \<and> qi_Scope (wf_item f) \<in> ls_revoked s))"

definition lane_inv :: "lane_sys \<Rightarrow> bool" where
  "lane_inv s \<longleftrightarrow> lane_order s \<and> (\<forall>f \<in> set (ls_claimed s). 0 \<le> wf_bytes f) \<and> (\<forall>f \<in> set (wl_queue (ls_lane s)). 0 \<le> wf_bytes f) \<and>
     (if wl_closed (ls_lane s) then wl_queue (ls_lane s) = [] else lane_account s)"

lemma frame_total_nonneg: "\<forall>f \<in> set fs. 0 \<le> wf_bytes f \<Longrightarrow> 0 \<le> frame_total fs"
  by (induction fs) auto

lemma frame_total_filter: "\<forall>f \<in> set fs. 0 \<le> wf_bytes f \<Longrightarrow> frame_total (filter P fs) \<le> frame_total fs"
  by (induction fs) auto

lemma frame_total_remove1: "f \<in> set fs \<Longrightarrow> frame_total (remove1 f fs) = frame_total fs - wf_bytes f"
  by (induction fs) auto

lemma applyBatch_cases:
  assumes "applyBatch l revoked items = (admit, l')"
  obtains "l' = l" "\<not> admit"
  | "\<not> wl_closed l" "\<not> admit" "l' = prune_lane l revoked"
  | "\<not> wl_closed l" "admit" "wl_queue l' = wl_queue (prune_lane l revoked) @ map lane_frame items" "\<not> wl_closed l'"
      "wl_items l' = wl_items (prune_lane l revoked) + int (length items)" "wl_bytes l' = wl_bytes (prune_lane l revoked) + stateQueueItemBytes items"
      "wl_items l' \<le> MaxWebSocketStateItems" "wl_bytes l' \<le> MaxWebSocketStateBytes"
proof (cases "items \<noteq> [] \<and> \<not> stateItemBatchWithinLimits items \<or> wl_closed l")
  case True
  then have "applyBatch l revoked items = (False, l)" by (auto simp: applyBatch_def)
  then show thesis using assms that(1) by simp
next
  case False
  let ?l = "prune_lane l revoked"
  have closed: "wl_closed ?l = wl_closed l" by (simp add: prune_lane_spec Let_def)
  show thesis
  proof (cases "wl_items ?l + int (length items) > MaxWebSocketStateItems \<or> wl_bytes ?l + stateQueueItemBytes items > MaxWebSocketStateBytes")
    case True
    then show thesis using False assms that(2) by (auto simp: applyBatch_def Let_def)
  next
    case fit: False
    then have "applyBatch l revoked items = (True, signal_lane (?l\<lparr>wl_queue := wl_queue ?l @ map lane_frame items,
        wl_items := wl_items ?l + int (length items), wl_bytes := wl_bytes ?l + stateQueueItemBytes items\<rparr>))"
      using False by (auto simp: applyBatch_def Let_def)
    then show thesis using assms False fit closed by (intro that(3)) (auto simp: signal_lane_def)
  qed
qed

lemma lane_inv_prune:
  assumes "lane_inv s" "\<not> wl_closed (ls_lane s)"
  shows "lane_inv (s\<lparr>ls_lane := prune_lane (ls_lane s) revoked, ls_revoked := ls_revoked s \<union> set revoked\<rparr>)"
proof -
  let ?q = "wl_queue (ls_lane s)"
  define kept where "kept = filter (\<lambda>f. \<not> prunable revoked (wf_item f)) ?q"
  have prune: "prune_lane (ls_lane s) revoked = (ls_lane s)\<lparr>wl_queue := kept, wl_items := wl_items (ls_lane s) - (int (length ?q) - int (length kept)),
      wl_bytes := wl_bytes (ls_lane s) - (frame_total ?q - frame_total kept)\<rparr>"
    by (simp add: prune_lane_spec kept_def Let_def)
  have "subseq kept ?q" by (simp add: kept_def)
  then have "subseq (ls_taken s @ kept) (ls_taken s @ ?q)" by (intro list_emb_append_mono) auto
  then have "subseq (ls_taken s @ kept) (ls_admitted s)"
    using assms(1) by (auto simp: lane_inv_def lane_order_def intro: subseq_order.trans)
  moreover have "\<forall>f \<in> set ?q. f \<in> set kept \<or> qi_Policy (wf_item f) = StateDeliveryVisibleAfter \<and> qi_Scope (wf_item f) \<in> set revoked"
    "set kept \<subseteq> set ?q" by (auto simp: kept_def prunable_def)
  moreover have "frame_total kept \<le> frame_total ?q" "int (length kept) \<le> int (length ?q)"
    using assms(1) frame_total_filter by (auto simp: lane_inv_def kept_def)
  ultimately show ?thesis
    using assms unfolding prune by (auto simp: lane_inv_def lane_order_def lane_account_def)
qed

lemma subseq_left: "subseq (xs @ ys) zs \<Longrightarrow> subseq xs zs"
  using list_emb_append_mono [of "(=)" xs xs "[]" ys] by (auto intro: subseq_order.trans)

lemma lane_inv_step:
  assumes "lane_step s t" "lane_inv s"
  shows "lane_inv t"
  using assms
proof cases
  case (apply_batch revoked items admit l)
  from apply_batch(2) show ?thesis
  proof (cases rule: applyBatch_cases)
    case 1
    then show ?thesis using assms(2) apply_batch(1) by (auto simp: lane_inv_def lane_order_def lane_account_def)
  next
    case 2
    then show ?thesis using lane_inv_prune [OF assms(2), of revoked] apply_batch(1) by simp
  next
    case 3
    let ?p = "s\<lparr>ls_lane := prune_lane (ls_lane s) revoked, ls_revoked := ls_revoked s \<union> set revoked\<rparr>"
    have "lane_inv ?p" by (rule lane_inv_prune [OF assms(2) 3(1)])
    then have "subseq (ls_taken s @ wl_queue (prune_lane (ls_lane s) revoked)) (ls_admitted s)" by (simp add: lane_inv_def lane_order_def)
    then have "subseq (ls_taken s @ wl_queue (prune_lane (ls_lane s) revoked) @ map lane_frame items) (ls_admitted s @ map lane_frame items)"
      by (metis append.assoc list_emb_append_mono subseq_order.refl)
    with \<open>lane_inv ?p\<close> 3 show ?thesis
      unfolding apply_batch(1) by (auto simp: lane_inv_def lane_order_def lane_account_def lane_frame_def prune_lane_spec Let_def)
  qed
next
  case (claim f l)
  then show ?thesis using assms(2)
    by (auto simp: claim_frame_def lane_inv_def lane_order_def lane_account_def signal_lane_def split: if_splits list.splits)
next
  case (release f)
  then have "int (length (ls_claimed s) - Suc 0) = int (length (ls_claimed s)) - 1" by (cases "ls_claimed s") auto
  with release show ?thesis using assms(2)
    by (auto simp: release_frame_def lane_inv_def lane_order_def lane_account_def frame_total_remove1 length_remove1 dest: in_set_remove1 split: if_splits)
next
  case stop
  then show ?thesis using assms(2)
    by (auto simp: stop_lane_def lane_inv_def lane_order_def dest: subseq_left)
next
  case close
  then show ?thesis using assms(2)
    by (auto simp: close_lane_def stop_lane_def lane_inv_def lane_order_def dest: subseq_left)
qed

inductive lane_reach :: "lane_sys \<Rightarrow> bool" where
  start: "lane_reach lane_start"
| step: "\<lbrakk>lane_reach s; lane_step s t\<rbrakk> \<Longrightarrow> lane_reach t"

lemma lane_reach_inv: "lane_reach s \<Longrightarrow> lane_inv s"
proof (induction rule: lane_reach.induct)
  case start
  show ?case
    by (simp add: lane_start_def newWebSocketStateLane_def lane_inv_def lane_order_def lane_account_def MaxWebSocketStateItems_def MaxWebSocketStateBytes_def)
qed (rule lane_inv_step)

text \<open>C27. Under any interleaving of batches, claims, releases and closing, the state lane delivers in admission order and
  loses nothing but revoked payload: what the writer took and what is queued is a subsequence of what was
  admitted, and while the lane is open every missing frame is an ordinary item of a revoked scope.  The
  frames queued and those claimed but unreleased never exceed the item and byte limits.
\<close>

theorem lane_delivers_in_order:
  assumes "lane_reach s"
  shows "subseq (ls_taken s @ wl_queue (ls_lane s)) (ls_admitted s) \<and>
    (\<not> wl_closed (ls_lane s) \<longrightarrow>
      (\<forall>f \<in> set (ls_admitted s) - set (ls_taken s @ wl_queue (ls_lane s)).
         qi_Policy (wf_item f) = StateDeliveryVisibleAfter \<and> qi_Scope (wf_item f) \<in> ls_revoked s) \<and>
      int (length (wl_queue (ls_lane s)) + length (ls_claimed s)) \<le> MaxWebSocketStateItems \<and>
      frame_total (wl_queue (ls_lane s)) + frame_total (ls_claimed s) \<le> MaxWebSocketStateBytes)"
  using lane_reach_inv [OF assms] by (auto simp: lane_inv_def lane_order_def lane_account_def)

definition example_item :: "int64 \<Rightarrow> StateQueueItem" where
  "example_item i = \<lparr>qi_Frame = ''f'', qi_Scope = \<lparr>sc_Type = ''channel'', sc_ID = i\<rparr>, qi_GEID = 1, qi_Policy = StateDeliveryVisibleAfter,
     qi_RecipientUserID = 1, qi_ConnectionGeneration = 1, qi_CursorVisibilityEpoch = 0\<rparr>"

theorem lane_delivers_in_order_witness:
  "\<exists>s. lane_reach s \<and> map wf_item (wl_queue (ls_lane s)) = [example_item 2] \<and> map wf_item (ls_admitted s) = [example_item 1, example_item 2] \<and>
     subseq (ls_taken s @ wl_queue (ls_lane s)) (ls_admitted s)"
proof -
  let ?f = "lane_frame (example_item 1)" and ?g = "lane_frame (example_item 2)"
  let ?l1 = "\<lparr>wl_items = 2, wl_bytes = 2, wl_queue = [?f, ?g], wl_ready = True, wl_closed = False\<rparr>"
  let ?l2 = "\<lparr>wl_items = 1, wl_bytes = 1, wl_queue = [?g], wl_ready = True, wl_closed = False\<rparr>"
  let ?s1 = "\<lparr>ls_lane = ?l1, ls_claimed = [], ls_admitted = [?f, ?g], ls_taken = [], ls_revoked = {}\<rparr>"
  let ?s2 = "\<lparr>ls_lane = ?l2, ls_claimed = [], ls_admitted = [?f, ?g], ls_taken = [], ls_revoked = {\<lparr>sc_Type = ''channel'', sc_ID = 1\<rparr>}\<rparr>"
  have size: "frame_size (example_item i) = 1" for i by (simp add: frame_size_def example_item_def)
  have "applyBatch (ls_lane lane_start) [] [example_item 1, example_item 2] = (True, ?l1)"
    by (simp add: lane_start_def newWebSocketStateLane_def applyBatch_def stateItemBatchWithinLimits_def size MaxWebSocketStateItems_def
        MaxWebSocketStateBytes_def prune_lane_def signal_lane_def) (simp add: example_item_def)
  from lane_step.apply_batch [OF this] have one: "lane_step lane_start ?s1" by (simp add: lane_start_def)
  have "applyBatch (ls_lane ?s1) [\<lparr>sc_Type = ''channel'', sc_ID = 1\<rparr>] [] = (True, ?l2)"
    by (simp add: applyBatch_def MaxWebSocketStateItems_def MaxWebSocketStateBytes_def prune_lane_def prunable_def signal_lane_def
        lane_frame_def example_item_def frame_size_def)
  from lane_step.apply_batch [OF this] have two: "lane_step ?s1 ?s2" by simp
  have "lane_reach ?s2" by (rule lane_reach.step [OF lane_reach.step [OF lane_reach.start one] two])
  from lane_delivers_in_order [OF this] this show ?thesis by (intro exI [of _ ?s2]) (simp add: lane_frame_def)
qed

end
