(* ===== verification/EventBus.thy ===== *)
theory EventBus
  imports Cursor Lane
begin

text \<open>
  Live delivery (\<^verbatim>\<open>internal/realtime/eventbus.go\<close>, and the recipient projection of \<^verbatim>\<open>internal/realtime/sync.go\<close>): who an
  event is delivered to, the queue items it becomes for one recipient, and the registry of
  subscriptions that carries a connection from replay to live delivery.  Subscriptions are pointers in
  the code, compared by identity; here they live in a store under a number, and the registry holds
  numbers.  The sink of a connection is its state lane, found by the connection's reference; the
  requests to disconnect a slow consumer are recorded in order.  Operations run under the bus mutex and the gates
  they take, and are one step each.
\<close>

section \<open>Definitions\<close>

record ControlConnectionRef =
  cr_ControlConnectionID :: id16
  cr_UserID :: int64
  cr_Generation :: uint64
  cr_LoginSessionID :: int64

definition validConnectionRef :: "ControlConnectionRef \<Rightarrow> bool" where
  "validConnectionRef ref = (sint (cr_UserID ref) > 0 \<and> cr_Generation ref > 0 \<and> sint (cr_LoginSessionID ref) > 0 \<and> cr_ControlConnectionID ref \<noteq> 0)"

definition IDHex :: "ControlConnectionRef \<Rightarrow> string" where
  "IDHex ref = hex_id (cr_ControlConnectionID ref)"

subsection \<open>One event for one recipient\<close>

definition eventVisibleTo :: "int64 \<Rightarrow> StateEvent \<Rightarrow> StateVersion \<Rightarrow> bool" where
  "eventVisibleTo userID e v =
     (if se_DeliveryPolicy e = StateDeliveryDirectTransition \<or> se_DeliveryPolicy e = StateDeliveryUserTargeted then se_RecipientUserID e = userID
      else if se_DeliveryPolicy e = StateDeliveryVisibleBefore then list_ex (\<lambda>u. u = userID) (se_VisibleBeforeUserIDs e)
      else if sc_Type (se_Scope e) = ''server'' then UserOf v userID \<noteq> None
      else if sc_Type (se_Scope e) = ''group'' then CanSeeGroup userID (sc_ID (se_Scope e)) v
      else if sc_Type (se_Scope e) = ''channel'' then CanAccessChannel userID (sc_ID (se_Scope e)) v
      else False)"

text \<open>\<^verbatim>\<open>sort.Search\<close> over entries in ascending user order finds the first one not below the user.\<close>

definition cursorEpochForEvent :: "StateEvent \<Rightarrow> int64 \<Rightarrow> StateVersion \<Rightarrow> uint64" where
  "cursorEpochForEvent e userID v =
     (if se_HasCursorVisibilityEpoch e then se_CursorVisibilityEpoch e
      else case dropWhile (\<lambda>(u, _). \<not> sint u \<ge> sint userID) (se_cursorVisibilityEpochs e) of
        (u, epoch) # _ \<Rightarrow> if u = userID then epoch else VisibilityEpoch v userID
      | [] \<Rightarrow> VisibilityEpoch v userID)"

definition projectedEvent :: "StateEvent \<Rightarrow> bool" where
  "projectedEvent e = (sint (se_SubjectUserID e) > 0 \<and>
     (se_EventType e = ''user.created'' \<or> se_EventType e = ''user.updated'' \<or> se_EventType e = ''presence.updated''))"

definition encodeEventForRecipient :: "codec \<Rightarrow> StateEvent \<Rightarrow> int64 \<Rightarrow> StateVersion \<Rightarrow> string \<Rightarrow> (stream_error, string) outcome" where
  "encodeEventForRecipient js e recipientID v cursor =
     (if projectedEvent e
      then let projectedUser = (case se_subjectState e of Some st \<Rightarrow> snapshotUserPresenceFromState recipientID st
                                | None \<Rightarrow> snapshotUserPresenceFor recipientID (se_SubjectUserID e) v)
           in case js_marshal js (WUser projectedUser) of None \<Rightarrow> Fail ErrEncode
              | Some projected \<Rightarrow> EncodedWithDataAndCursor js e (Some projected) cursor
      else EncodedWithDataAndCursor js e (se_Data e) cursor)"

definition item_policy :: "StateDeliveryPolicy \<Rightarrow> StateDeliveryPolicy" where
  "item_policy p =
     (case p of StateDeliveryVisibleBefore \<Rightarrow> StateDeliveryVisibleBefore | StateDeliveryDirectTransition \<Rightarrow> StateDeliveryDirectTransition
      | StateDeliveryUserTargeted \<Rightarrow> StateDeliveryUserTargeted | _ \<Rightarrow> StateDeliveryVisibleAfter)"

text \<open>The queue item an event becomes.\<close>

definition live_item :: "codec \<Rightarrow> tag_function \<Rightarrow> CursorSigner \<Rightarrow> ControlConnectionRef \<Rightarrow> StateVersion \<Rightarrow> StateEvent \<Rightarrow> (stream_error, StateQueueItem) outcome" where
  "live_item js hmac s ref v e =
     (let cursorEpoch = cursorEpochForEvent e (cr_UserID ref) v
      in outcome_bind (Issue js hmac s (cr_UserID ref) \<lparr>cp_StreamEpoch = cp_StreamEpoch (sv_checkpoint v), cp_GEID = se_GEID e\<rparr> cursorEpoch) (\<lambda>cursor.
         outcome_bind (encodeEventForRecipient js e (cr_UserID ref) v cursor) (\<lambda>frame.
           Return \<lparr>qi_Frame = frame, qi_Scope = se_Scope e, qi_GEID = se_GEID e, qi_Policy = item_policy (se_DeliveryPolicy e),
                   qi_RecipientUserID = cr_UserID ref, qi_ConnectionGeneration = cr_Generation ref, qi_CursorVisibilityEpoch = cursorEpoch\<rparr>)))"

fun live_loop :: "codec \<Rightarrow> tag_function \<Rightarrow> CursorSigner \<Rightarrow> ControlConnectionRef \<Rightarrow> StateVersion \<Rightarrow> StateQueueItem list \<Rightarrow> int \<Rightarrow> StateEvent list
    \<Rightarrow> (stream_error, StateQueueItem list \<times> bool) outcome" where
  "live_loop js hmac s ref v items bytes [] = Return (items, False)"
| "live_loop js hmac s ref v items bytes (e # es) =
     (if \<not> eventVisibleTo (cr_UserID ref) e v then live_loop js hmac s ref v items bytes es
      else outcome_bind (live_item js hmac s ref v e) (\<lambda>item.
        if int (length items) + 1 > MaxWebSocketStateItems \<or> bytes + frame_size item > MaxWebSocketStateBytes then Return ([], True)
        else live_loop js hmac s ref v (items @ [item]) (bytes + frame_size item) es))"

definition liveItems :: "codec \<Rightarrow> tag_function \<Rightarrow> CursorSigner \<Rightarrow> ControlConnectionRef \<Rightarrow> StateVersion \<Rightarrow> StateEvent list
    \<Rightarrow> (stream_error, StateQueueItem list \<times> bool) outcome" where
  "liveItems js hmac s ref v events = live_loop js hmac s ref v [] 0 events"

definition controlQueueItems :: "string list \<Rightarrow> ControlConnectionRef \<Rightarrow> uint64 \<Rightarrow> StateQueueItem list" where
  "controlQueueItems frames ref visibilityEpoch =
     map (\<lambda>frame. \<lparr>qi_Frame = frame, qi_Scope = \<lparr>sc_Type = [], sc_ID = 0\<rparr>, qi_GEID = 0, qi_Policy = StateDeliveryControl,
       qi_RecipientUserID = cr_UserID ref, qi_ConnectionGeneration = cr_Generation ref, qi_CursorVisibilityEpoch = visibilityEpoch\<rparr>) frames"

subsection \<open>Subscriptions\<close>

datatype eventSubscriptionPhase = eventSubscriptionSyncing | eventSubscriptionLive

record eventSubscription =
  sub_ref :: ControlConnectionRef
  sub_active :: bool
  sub_phase :: eventSubscriptionPhase
  sub_pending :: "StateQueueItem list"
  sub_pendingBytes :: int
  sub_visibilityEpoch :: uint64
  sub_visibleScopes :: "Scope list"

record EventBus =
  eb_signer :: CursorSigner
  eb_closed :: bool
  eb_subscriptions :: "(ControlConnectionRef, nat) fmap"
  eb_store :: "(nat, eventSubscription) fmap"
  eb_fresh :: nat
  eb_lanes :: "(ControlConnectionRef, webSocketStateLane) fmap"
  eb_disconnects :: "ControlConnectionRef list"

definition NewEventBus :: "CursorSigner \<Rightarrow> EventBus" where
  "NewEventBus signer = \<lparr>eb_signer = signer, eb_closed = False, eb_subscriptions = fmempty, eb_store = fmempty, eb_fresh = 0, eb_lanes = fmempty,
     eb_disconnects = []\<rparr>"

definition put_sub :: "EventBus \<Rightarrow> nat \<Rightarrow> eventSubscription \<Rightarrow> EventBus" where
  "put_sub b i x = b\<lparr>eb_store := fmupd i x (eb_store b)\<rparr>"

definition ApplyStateBatch :: "EventBus \<Rightarrow> ControlConnectionRef \<Rightarrow> Scope list \<Rightarrow> StateQueueItem list \<Rightarrow> bool \<times> EventBus" where
  "ApplyStateBatch b ref revoked items =
     (case fmlookup (eb_lanes b) ref of None \<Rightarrow> (False, b)
      | Some l \<Rightarrow> (let (admit, l') = applyBatch l revoked items in (admit, b\<lparr>eb_lanes := fmupd ref l' (eb_lanes b)\<rparr>)))"

definition DisconnectSlowConsumer :: "EventBus \<Rightarrow> ControlConnectionRef \<Rightarrow> EventBus" where
  "DisconnectSlowConsumer b ref = b\<lparr>eb_disconnects := eb_disconnects b @ [ref]\<rparr>"

definition remove_sub :: "EventBus \<Rightarrow> nat \<Rightarrow> EventBus" where
  "remove_sub b i =
     (case fmlookup (eb_store b) i of None \<Rightarrow> b
      | Some x \<Rightarrow> if fmlookup (eb_subscriptions b) (sub_ref x) = Some i then b\<lparr>eb_subscriptions := fmdrop (sub_ref x) (eb_subscriptions b)\<rparr> else b)"

definition deactivated :: "eventSubscription \<Rightarrow> eventSubscription" where
  "deactivated x = x\<lparr>sub_active := False, sub_pending := [], sub_pendingBytes := 0\<rparr>"

text \<open>The registered subscriptions in the canonical order of their gates.\<close>

definition ref_key :: "ControlConnectionRef \<Rightarrow> int list" where
  "ref_key ref = [uint (cr_ControlConnectionID ref), uint (cr_Generation ref), sint (cr_UserID ref)]"

definition registered :: "EventBus \<Rightarrow> nat \<Rightarrow> bool" where
  "registered b i = (case fmlookup (eb_store b) i of None \<Rightarrow> False | Some x \<Rightarrow> fmlookup (eb_subscriptions b) (sub_ref x) = Some i)"

definition sub_key :: "EventBus \<Rightarrow> nat \<Rightarrow> int list" where
  "sub_key b i = (case fmlookup (eb_store b) i of None \<Rightarrow> [] | Some x \<Rightarrow> ref_key (sub_ref x))"

definition sortSubscriptions :: "EventBus \<Rightarrow> nat list" where
  "sortSubscriptions b = sort_by (sub_key b) (filter (registered b) (sorted_list_of_fset (fmdom (eb_store b))))"

definition snapshotSubscriptions :: "EventBus \<Rightarrow> nat list" where
  "snapshotSubscriptions b = (if eb_closed b then [] else sortSubscriptions b)"

definition CloseBus :: "EventBus \<Rightarrow> EventBus" where
  "CloseBus b =
     (if eb_closed b then b
      else let subs = sortSubscriptions b; b1 = b\<lparr>eb_closed := True, eb_subscriptions := fmempty\<rparr>
           in foldl (\<lambda>b i. case fmlookup (eb_store b) i of None \<Rightarrow> b | Some x \<Rightarrow> put_sub b i (deactivated x)) b1 subs)"

definition beginSync :: "EventBus \<Rightarrow> ControlConnectionRef \<Rightarrow> StateVersion \<Rightarrow> (stream_error, nat \<times> EventBus) outcome" where
  "beginSync b ref v =
     (if \<not> validConnectionRef ref then Fail ErrInvalidConnection
      else if eb_closed b then Fail ErrEventBusClosed
      else if fmlookup (eb_subscriptions b) ref \<noteq> None then Fail ErrSyncConnectionExists
      else let i = eb_fresh b;
               x = \<lparr>sub_ref = ref, sub_active = True, sub_phase = eventSubscriptionSyncing, sub_pending = [], sub_pendingBytes = 0,
                    sub_visibilityEpoch = VisibilityEpoch v (cr_UserID ref), sub_visibleScopes = VisibleScopeIDs (cr_UserID ref) v\<rparr>
           in Return (i, (put_sub b i x)\<lparr>eb_subscriptions := fmupd ref i (eb_subscriptions b), eb_fresh := i + 1\<rparr>))"

definition completeSync :: "EventBus \<Rightarrow> nat \<Rightarrow> string list \<Rightarrow> stream_error option \<times> EventBus" where
  "completeSync b i handoff =
     (case fmlookup (eb_store b) i of None \<Rightarrow> (Some ErrInvalidEventBus, b)
      | Some x \<Rightarrow>
          if \<not> sub_active x \<or> sub_phase x \<noteq> eventSubscriptionSyncing then (Some ErrSyncAttemptClosed, b)
          else let combined = controlQueueItems handoff (sub_ref x) (sub_visibilityEpoch x) @ sub_pending x;
                   (admit, b1) = (if stateItemBatchWithinLimits combined then ApplyStateBatch b (sub_ref x) [] combined else (False, b))
               in if \<not> admit
                  then (Some ErrEventConsumerSlow, DisconnectSlowConsumer (remove_sub (put_sub b1 i (deactivated x)) i) (sub_ref x))
                  else (None, put_sub b1 i (x\<lparr>sub_phase := eventSubscriptionLive, sub_pending := [], sub_pendingBytes := 0\<rparr>)))"

definition abortSync :: "EventBus \<Rightarrow> nat \<Rightarrow> EventBus" where
  "abortSync b i =
     (case fmlookup (eb_store b) i of None \<Rightarrow> b
      | Some x \<Rightarrow> remove_sub (if sub_phase x = eventSubscriptionSyncing then put_sub b i (deactivated x) else b) i)"

definition unsubscribe :: "EventBus \<Rightarrow> ControlConnectionRef \<Rightarrow> EventBus" where
  "unsubscribe b ref =
     (if \<not> validConnectionRef ref then b
      else case fmlookup (eb_subscriptions b) ref of None \<Rightarrow> b
        | Some i \<Rightarrow>
            (let b1 = b\<lparr>eb_subscriptions := fmdrop ref (eb_subscriptions b)\<rparr>
             in case fmlookup (eb_store b1) i of None \<Rightarrow> b1 | Some x \<Rightarrow> put_sub b1 i (deactivated x)))"

fun pending_fits :: "int \<Rightarrow> int \<Rightarrow> StateQueueItem list \<Rightarrow> int option" where
  "pending_fits itemCount bytes [] = Some bytes"
| "pending_fits itemCount bytes (item # items) =
     (if qi_Frame item = [] then None
      else if itemCount + 1 > MaxWebSocketStateItems \<or> bytes + frame_size item > MaxWebSocketStateBytes then None
      else pending_fits (itemCount + 1) (bytes + frame_size item) items)"

definition appendPending :: "eventSubscription \<Rightarrow> Scope list \<Rightarrow> StateQueueItem list \<Rightarrow> bool \<times> eventSubscription" where
  "appendPending x revoked items =
     (if \<not> sub_active x \<or> sub_phase x \<noteq> eventSubscriptionSyncing then (False, x)
      else let pruned = pruneStateQueueItems (sub_pending x) revoked;
               x1 = x\<lparr>sub_pending := pruned, sub_pendingBytes := stateQueueItemBytes pruned\<rparr>
           in case pending_fits (int (length pruned)) (stateQueueItemBytes pruned) items of None \<Rightarrow> (False, x1)
              | Some bytes \<Rightarrow> (True, x1\<lparr>sub_pending := pruned @ items, sub_pendingBytes := bytes\<rparr>))"

definition change_of :: "(int64, VisibilityChange) fmap \<Rightarrow> int64 \<Rightarrow> VisibilityChange" where
  "change_of changes u = (case fmlookup changes u of None \<Rightarrow> \<lparr>vc_Granted = [], vc_Revoked = []\<rparr> | Some c \<Rightarrow> c)"

text \<open>The work of \<^verbatim>\<open>fanout\<close> for one locked subscription, whose visibility fields are up to date: whether it
  turned out slow, and the bus after it.\<close>

definition deliver :: "EventBus \<Rightarrow> nat \<Rightarrow> eventSubscription \<Rightarrow> Scope list \<Rightarrow> StateQueueItem list \<Rightarrow> bool \<Rightarrow> bool \<times> EventBus" where
  "deliver b i x revoked items oversized =
     (if oversized
      then (True, put_sub (if revoked \<noteq> [] then snd (ApplyStateBatch b (sub_ref x) revoked []) else b) i (x\<lparr>sub_active := False\<rparr>))
      else if items = [] \<and> revoked = [] then (False, put_sub b i x)
      else case sub_phase x of
        eventSubscriptionSyncing \<Rightarrow>
          (let (admit, x') = appendPending x revoked items
           in if admit then (False, put_sub b i x') else (True, put_sub b i (x'\<lparr>sub_active := False\<rparr>)))
      | eventSubscriptionLive \<Rightarrow>
          (let (admit, b') = ApplyStateBatch b (sub_ref x) revoked items
           in if admit then (False, put_sub b' i x) else (True, put_sub b' i (x\<lparr>sub_active := False\<rparr>))))"

definition refresh_visibility :: "StateVersion \<Rightarrow> VisibilityChange \<Rightarrow> eventSubscription \<Rightarrow> eventSubscription" where
  "refresh_visibility v change x =
     (if Changed change
      then x\<lparr>sub_visibilityEpoch := VisibilityEpoch v (cr_UserID (sub_ref x)), sub_visibleScopes := VisibleScopeIDs (cr_UserID (sub_ref x)) v\<rparr>
      else x)"

definition fanout_one :: "codec \<Rightarrow> tag_function \<Rightarrow> StateVersion \<Rightarrow> StateEvent list \<Rightarrow> (int64, VisibilityChange) fmap \<Rightarrow> EventBus \<Rightarrow> nat
    \<Rightarrow> (stream_error, bool \<times> EventBus) outcome" where
  "fanout_one js hmac v events changes b i =
     (case fmlookup (eb_store b) i of None \<Rightarrow> Return (False, b)
      | Some x \<Rightarrow>
          if \<not> sub_active x then Return (False, b)
          else let change = change_of changes (cr_UserID (sub_ref x))
               in outcome_bind (liveItems js hmac (eb_signer b) (sub_ref x) v events) (\<lambda>(items, oversized).
                  Return (deliver b i (refresh_visibility v change x) (vc_Revoked change) items oversized)))"

fun fanout_loop :: "codec \<Rightarrow> tag_function \<Rightarrow> StateVersion \<Rightarrow> StateEvent list \<Rightarrow> (int64, VisibilityChange) fmap \<Rightarrow> EventBus \<Rightarrow> nat list \<Rightarrow> nat list
    \<Rightarrow> stream_error option \<times> nat list \<times> EventBus" where
  "fanout_loop js hmac v events changes b slow [] = (None, slow, b)"
| "fanout_loop js hmac v events changes b slow (i # is) =
     (case fanout_one js hmac v events changes b i of
        Return (isSlow, b') \<Rightarrow> fanout_loop js hmac v events changes b' (if isSlow then slow @ [i] else slow) is
      | Fail e \<Rightarrow> (Some e, [], b) | Panic \<Rightarrow> (Some ErrInvalidEventBus, [], b))"

definition sub_ref_of :: "EventBus \<Rightarrow> nat \<Rightarrow> ControlConnectionRef list" where
  "sub_ref_of b i = (case fmlookup (eb_store b) i of None \<Rightarrow> [] | Some x \<Rightarrow> [sub_ref x])"

text \<open>\<^verbatim>\<open>fanout\<close> returns the connections to disconnect once the publication lock is released.\<close>

definition fanout :: "codec \<Rightarrow> tag_function \<Rightarrow> EventBus \<Rightarrow> StateVersion \<Rightarrow> StateEvent list \<Rightarrow> (int64, VisibilityChange) fmap
    \<Rightarrow> stream_error option \<times> ControlConnectionRef list \<times> EventBus" where
  "fanout js hmac b v events changes =
     (case fanout_loop js hmac v events changes b [] (snapshotSubscriptions b) of
        (Some e, _, b') \<Rightarrow> (Some e, [], b')
      | (None, slow, b') \<Rightarrow> (None, concat (map (sub_ref_of b') slow), foldl remove_sub b' slow))"

section \<open>Theorems\<close>

subsection \<open>Items of one publication\<close>

lemma live_loop_spec:
  assumes "live_loop js hmac s ref v items bytes es = Return (items', False)"
  shows "\<exists>new. items' = items @ new \<and> list_all2 (\<lambda>e it. live_item js hmac s ref v e = Return it) (filter (\<lambda>e. eventVisibleTo (cr_UserID ref) e v) es) new"
  using assms
proof (induction es arbitrary: items bytes)
  case (Cons e es)
  show ?case
  proof (cases "eventVisibleTo (cr_UserID ref) e v")
    case True
    then obtain item where item: "live_item js hmac s ref v e = Return item"
      "live_loop js hmac s ref v (items @ [item]) (bytes + frame_size item) es = Return (items', False)"
      using Cons.prems by (auto simp: outcome_bind_Return split: if_splits)
    from Cons.IH [OF item(2)] show ?thesis using item(1) True by auto
  next
    case False
    then show ?thesis using Cons by simp
  qed
qed simp

lemma liveItems_spec:
  "liveItems js hmac s ref v es = Return (items, False) \<Longrightarrow>
   list_all2 (\<lambda>e it. live_item js hmac s ref v e = Return it) (filter (\<lambda>e. eventVisibleTo (cr_UserID ref) e v) es) items"
  using live_loop_spec [of js hmac s ref v "[]" 0 es items] by (simp add: liveItems_def)

lemma list_all2_right: "\<lbrakk>list_all2 P xs ys; y \<in> set ys\<rbrakk> \<Longrightarrow> \<exists>x \<in> set xs. P x y"
  by (induction rule: list_all2_induct) auto

lemma live_item_fields:
  "live_item js hmac s ref v e = Return it \<Longrightarrow> qi_GEID it = se_GEID e \<and> qi_Scope it = se_Scope e \<and> qi_RecipientUserID it = cr_UserID ref \<and>
     qi_Policy it = item_policy (se_DeliveryPolicy e) \<and> qi_CursorVisibilityEpoch it = cursorEpochForEvent e (cr_UserID ref) v"
  by (auto simp: live_item_def outcome_bind_Return Let_def)

lemma pending_fits_spec:
  "pending_fits n bytes items = Some m \<Longrightarrow> m = bytes + stateQueueItemBytes items"
  by (induction n bytes items rule: pending_fits.induct) (auto split: if_splits)

subsection \<open>Fan-out to one subscription\<close>

lemmas bus_defs = put_sub_def ApplyStateBatch_def Let_def

lemma ApplyStateBatch_frame:
  assumes "ApplyStateBatch b ref revoked items = (admit, b')"
  shows "eb_store b' = eb_store b \<and> eb_subscriptions b' = eb_subscriptions b \<and> eb_closed b' = eb_closed b \<and> eb_fresh b' = eb_fresh b \<and>
    eb_signer b' = eb_signer b \<and> (\<forall>r. r \<noteq> ref \<longrightarrow> fmlookup (eb_lanes b') r = fmlookup (eb_lanes b) r)"
  using assms by (auto simp: ApplyStateBatch_def split: option.splits prod.splits)

definition touches :: "EventBus \<Rightarrow> nat \<Rightarrow> eventSubscription \<Rightarrow> EventBus \<Rightarrow> bool" where
  "touches b i x b' \<longleftrightarrow> eb_subscriptions b' = eb_subscriptions b \<and> eb_closed b' = eb_closed b \<and> eb_fresh b' = eb_fresh b \<and> eb_signer b' = eb_signer b \<and>
     (\<forall>j. j \<noteq> i \<longrightarrow> fmlookup (eb_store b') j = fmlookup (eb_store b) j) \<and>
     (\<forall>r. r \<noteq> sub_ref x \<longrightarrow> fmlookup (eb_lanes b') r = fmlookup (eb_lanes b) r) \<and>
     (\<exists>x'. fmlookup (eb_store b') i = Some x' \<and> sub_ref x' = sub_ref x)"

lemma touches_put:
  "\<lbrakk>sub_ref x' = sub_ref x\<rbrakk> \<Longrightarrow> touches b i x (put_sub b i x')"
  by (simp add: touches_def put_sub_def)

lemma touches_apply:
  assumes "ApplyStateBatch b (sub_ref x) revoked items = (admit, b')" "sub_ref x' = sub_ref x"
  shows "touches b i x (put_sub b' i x')"
  using ApplyStateBatch_frame [OF assms(1)] assms(2) by (auto simp: touches_def put_sub_def)

lemma appendPending_ref: "appendPending x revoked items = (admit, x') \<Longrightarrow> sub_ref x' = sub_ref x"
  by (auto simp: appendPending_def Let_def split: if_splits option.splits)

lemma deliver_touches:
  assumes "deliver b i x revoked items over = (slow, b')"
  shows "touches b i x b'"
proof -
  obtain admit b1 where b1: "ApplyStateBatch b (sub_ref x) revoked items = (admit, b1)" by fastforce
  obtain admit' b2 where b2: "ApplyStateBatch b (sub_ref x) revoked [] = (admit', b2)" by fastforce
  obtain admit'' x' where x': "appendPending x revoked items = (admit'', x')" by fastforce
  show ?thesis
    using assms touches_apply [OF b1] touches_apply [OF b2] appendPending_ref [OF x'] touches_put [of _ x b i]
    by (cases "sub_phase x") (auto simp: deliver_def b1 b2 x' split: if_splits)
qed

lemma refresh_visibility_fields [simp]:
  "sub_ref (refresh_visibility v c x) = sub_ref x" "sub_active (refresh_visibility v c x) = sub_active x"
  "sub_phase (refresh_visibility v c x) = sub_phase x" "sub_pending (refresh_visibility v c x) = sub_pending x"
  by (simp_all add: refresh_visibility_def)

lemma fanout_one_Return:
  assumes "fanout_one js hmac v es ch b i = Return (slow, b')" "fmlookup (eb_store b) i = Some x" "sub_active x"
  obtains items over where "liveItems js hmac (eb_signer b) (sub_ref x) v es = Return (items, over)"
    "deliver b i (refresh_visibility v (change_of ch (cr_UserID (sub_ref x))) x) (vc_Revoked (change_of ch (cr_UserID (sub_ref x)))) items over = (slow, b')"
  using assms by (auto simp: fanout_one_def Let_def outcome_bind_Return)

lemma fanout_one_touches:
  assumes "fanout_one js hmac v es ch b i = Return (slow, b')" "fmlookup (eb_store b) i = Some x"
  shows "touches b i x b'"
proof (cases "sub_active x")
  case False
  then show ?thesis using assms by (simp add: fanout_one_def touches_def)
next
  case True
  then obtain items over where "deliver b i (refresh_visibility v (change_of ch (cr_UserID (sub_ref x))) x)
      (vc_Revoked (change_of ch (cr_UserID (sub_ref x)))) items over = (slow, b')"
    using fanout_one_Return [OF assms] by blast
  from deliver_touches [OF this] show ?thesis by (simp add: touches_def)
qed

text \<open>What an admitted delivery leaves behind.\<close>

lemma deliver_admitted:
  assumes "deliver b i x revoked items over = (False, b')" "sub_active x"
  shows "\<not> over \<and> (\<exists>x'. fmlookup (eb_store b') i = Some x' \<and> sub_active x' \<and> sub_phase x' = sub_phase x \<and>
    (case sub_phase x of
       eventSubscriptionSyncing \<Rightarrow> sub_pending x' = pruneStateQueueItems (sub_pending x) revoked @ items \<and> eb_lanes b' = eb_lanes b
     | eventSubscriptionLive \<Rightarrow> sub_pending x' = sub_pending x \<and>
         (if items = [] \<and> revoked = [] then eb_lanes b' = eb_lanes b
          else \<exists>l l'. fmlookup (eb_lanes b) (sub_ref x) = Some l \<and> applyBatch l revoked items = (True, l') \<and> eb_lanes b' = fmupd (sub_ref x) l' (eb_lanes b))))"
proof (cases "sub_phase x")
  case eventSubscriptionSyncing
  obtain admit x' where x': "appendPending x revoked items = (admit, x')" by fastforce
  then have "admit \<Longrightarrow> sub_pending x' = pruneStateQueueItems (sub_pending x) revoked @ items \<and> sub_active x' \<and> sub_phase x' = eventSubscriptionSyncing"
    using assms(2) eventSubscriptionSyncing by (auto simp: appendPending_def Let_def split: option.splits)
  moreover have "pruneStateQueueItems (sub_pending x) [] = sub_pending x" by (simp add: pruneStateQueueItems_def)
  ultimately show ?thesis
    using assms eventSubscriptionSyncing x' by (auto simp: deliver_def put_sub_def split: if_splits)
next
  case eventSubscriptionLive
  then show ?thesis
    using assms by (auto simp: deliver_def ApplyStateBatch_def put_sub_def split: if_splits option.splits prod.splits)
qed

lemma deliver_slow:
  assumes "deliver b i x revoked items over = (True, b')"
  shows "\<exists>x'. fmlookup (eb_store b') i = Some x' \<and> \<not> sub_active x'"
  using assms by (cases "sub_phase x") (auto simp: deliver_def put_sub_def split: if_splits prod.splits)

subsection \<open>Fan-out to all of them\<close>

text \<open>Registered subscriptions of one bus have different references.\<close>

definition refs_apart :: "EventBus \<Rightarrow> nat list \<Rightarrow> nat \<Rightarrow> bool" where
  "refs_apart b is i \<longleftrightarrow> (\<forall>j \<in> set is. \<forall>x y. j \<noteq> i \<longrightarrow> fmlookup (eb_store b) i = Some x \<longrightarrow> fmlookup (eb_store b) j = Some y \<longrightarrow> sub_ref y \<noteq> sub_ref x)"

lemma fanout_one_keeps:
  assumes "fanout_one js hmac v es ch b j = Return (slow, b')" "j \<noteq> i" "fmlookup (eb_store b) i = Some x"
    and apart: "\<forall>y. fmlookup (eb_store b) j = Some y \<longrightarrow> sub_ref y \<noteq> sub_ref x"
  shows "fmlookup (eb_store b') i = Some x" "fmlookup (eb_lanes b') (sub_ref x) = fmlookup (eb_lanes b) (sub_ref x)" "eb_signer b' = eb_signer b"
    "refs_apart b is i \<Longrightarrow> refs_apart b' is i"
proof -
  have "(\<exists>y. fmlookup (eb_store b) j = Some y \<and> touches b j y b') \<or> fmlookup (eb_store b) j = None \<and> b' = b"
    using fanout_one_touches [OF assms(1)] assms(1) by (cases "fmlookup (eb_store b) j") (auto simp: fanout_one_def)
  then show "fmlookup (eb_store b') i = Some x" "fmlookup (eb_lanes b') (sub_ref x) = fmlookup (eb_lanes b) (sub_ref x)" "eb_signer b' = eb_signer b"
    using assms(2,3) apart by (auto simp: touches_def)
  assume "refs_apart b is i"
  then show "refs_apart b' is i"
    using \<open>_ \<or> _\<close> assms(2,3) unfolding refs_apart_def touches_def by (metis option.inject)
qed

lemma fanout_one_self_apart:
  assumes "fanout_one js hmac v es ch b i = Return (slow, b')" "fmlookup (eb_store b) i = Some x" "refs_apart b is i"
  shows "refs_apart b' is i"
  using fanout_one_touches [OF assms(1,2)] assms(2,3) unfolding refs_apart_def touches_def by (metis option.inject)

lemma fanout_loop_others:
  assumes "fanout_loop js hmac v es ch b slow is = (None, slow', b')" "i \<notin> set is" "fmlookup (eb_store b) i = Some x" "refs_apart b is i"
  shows "fmlookup (eb_store b') i = Some x \<and> fmlookup (eb_lanes b') (sub_ref x) = fmlookup (eb_lanes b) (sub_ref x) \<and> (i \<in> set slow' \<longleftrightarrow> i \<in> set slow)"
  using assms
proof (induction "is" arbitrary: b slow)
  case (Cons j js')
  then obtain sl b1 where one: "fanout_one js hmac v es ch b j = Return (sl, b1)"
    "fanout_loop js hmac v es ch b1 (if sl then slow @ [j] else slow) js' = (None, slow', b')"
    by (auto split: outcome.splits prod.splits)
  have apart: "\<forall>y. fmlookup (eb_store b) j = Some y \<longrightarrow> sub_ref y \<noteq> sub_ref x" "refs_apart b js' i"
    using Cons.prems by (auto simp: refs_apart_def)
  note keeps = fanout_one_keeps [OF one(1) _ Cons.prems(3) apart(1)]
  show ?case using Cons.IH [OF one(2)] Cons.prems(2) keeps apart(2) by auto
qed simp

lemma fanout_loop_one:
  assumes "fanout_loop js hmac v es ch b slow is = (None, slow', b')" "i \<in> set is" "distinct is" "i \<notin> set slow"
    "fmlookup (eb_store b) i = Some x" "refs_apart b is i"
  shows "\<exists>b1 b2 sl. fanout_one js hmac v es ch b1 i = Return (sl, b2) \<and> fmlookup (eb_store b1) i = Some x \<and>
    fmlookup (eb_lanes b1) (sub_ref x) = fmlookup (eb_lanes b) (sub_ref x) \<and> eb_signer b1 = eb_signer b \<and>
    fmlookup (eb_store b') i = fmlookup (eb_store b2) i \<and> fmlookup (eb_lanes b') (sub_ref x) = fmlookup (eb_lanes b2) (sub_ref x) \<and>
    (i \<in> set slow' \<longleftrightarrow> sl)"
  using assms
proof (induction "is" arbitrary: b slow)
  case (Cons j js')
  then obtain sl b1 where one: "fanout_one js hmac v es ch b j = Return (sl, b1)"
    "fanout_loop js hmac v es ch b1 (if sl then slow @ [j] else slow) js' = (None, slow', b')"
    by (auto split: outcome.splits prod.splits)
  show ?case
  proof (cases "j = i")
    case True
    obtain x' where x': "fmlookup (eb_store b1) i = Some x'" "sub_ref x' = sub_ref x"
      using fanout_one_touches [OF one(1)] Cons.prems(5) True by (auto simp: touches_def)
    have "refs_apart b1 js' i"
      using fanout_one_self_apart [of js hmac v es ch b i sl b1 x "j # js'"] one(1) Cons.prems True by (auto simp: refs_apart_def)
    from fanout_loop_others [OF one(2) _ x'(1) this] show ?thesis
      using one(1) True Cons.prems x' by (intro exI [of _ b] exI [of _ b1] exI [of _ sl]) auto
  next
    case False
    have apart: "\<forall>y. fmlookup (eb_store b) j = Some y \<longrightarrow> sub_ref y \<noteq> sub_ref x" "refs_apart b js' i"
      using Cons.prems False by (auto simp: refs_apart_def)
    note keeps = fanout_one_keeps [OF one(1) False Cons.prems(5) apart(1)]
    have "i \<in> set js'" "distinct js'" "i \<notin> set (if sl then slow @ [j] else slow)" using Cons.prems False by auto
    from Cons.IH [OF one(2) this keeps(1) keeps(4) [OF apart(2)]] keeps(2,3) show ?thesis by simp
  qed
qed simp

text \<open>The registry holds numbers of subscriptions stored under their own reference.\<close>

definition bus_ok :: "EventBus \<Rightarrow> bool" where
  "bus_ok b \<longleftrightarrow> (\<forall>i x. fmlookup (eb_store b) i = Some x \<longrightarrow> i < eb_fresh b) \<and>
     (\<forall>r i. fmlookup (eb_subscriptions b) r = Some i \<longrightarrow> (\<exists>x. fmlookup (eb_store b) i = Some x \<and> sub_ref x = r))"

lemma registered_apart:
  "\<lbrakk>registered b i; \<forall>j \<in> set is. registered b j\<rbrakk> \<Longrightarrow> refs_apart b is i"
  by (fastforce simp: refs_apart_def registered_def split: option.splits)

lemma set_snapshotSubscriptions: "\<not> eb_closed b \<Longrightarrow> set (snapshotSubscriptions b) = {i. registered b i}"
  by (auto simp: snapshotSubscriptions_def sortSubscriptions_def registered_def fmlookup_dom_iff split: option.splits)

lemma distinct_snapshotSubscriptions: "distinct (snapshotSubscriptions b)"
  by (simp add: snapshotSubscriptions_def sortSubscriptions_def sorted_list_of_fset.rep_eq)

lemma remove_sub_keeps [simp]:
  "eb_store (remove_sub b i) = eb_store b" "eb_lanes (remove_sub b i) = eb_lanes b" "eb_closed (remove_sub b i) = eb_closed b"
  "eb_fresh (remove_sub b i) = eb_fresh b" "eb_signer (remove_sub b i) = eb_signer b"
  by (simp_all add: remove_sub_def split: option.split)

lemma foldl_remove_sub [simp]:
  "eb_store (foldl remove_sub b is) = eb_store b" "eb_lanes (foldl remove_sub b is) = eb_lanes b"
  "eb_closed (foldl remove_sub b is) = eb_closed b" "eb_fresh (foldl remove_sub b is) = eb_fresh b" "eb_signer (foldl remove_sub b is) = eb_signer b"
  by (induction "is" arbitrary: b) simp_all

lemma registered_iff: "registered b i \<longleftrightarrow> (\<exists>x. fmlookup (eb_store b) i = Some x \<and> fmlookup (eb_subscriptions b) (sub_ref x) = Some i)"
  by (auto simp: registered_def split: option.splits)

lemma registered_remove: "registered (remove_sub b j) i \<longleftrightarrow> registered b i \<and> i \<noteq> j"
  by (auto simp: registered_def remove_sub_def split: option.splits)

lemma registered_foldl_remove: "registered (foldl remove_sub b is) i \<longleftrightarrow> registered b i \<and> i \<notin> set is"
  by (induction "is" arbitrary: b) (auto simp: registered_remove)

lemma fanout_loop_frame:
  assumes "fanout_loop js hmac v es ch b slow is = (None, slow', b')"
  shows "eb_subscriptions b' = eb_subscriptions b \<and> eb_closed b' = eb_closed b \<and> eb_fresh b' = eb_fresh b \<and> eb_signer b' = eb_signer b \<and>
    (\<forall>k. map_option sub_ref (fmlookup (eb_store b') k) = map_option sub_ref (fmlookup (eb_store b) k))"
  using assms
proof (induction "is" arbitrary: b slow)
  case (Cons j js')
  then obtain sl b1 where one: "fanout_one js hmac v es ch b j = Return (sl, b1)"
    "fanout_loop js hmac v es ch b1 (if sl then slow @ [j] else slow) js' = (None, slow', b')"
    by (auto split: outcome.splits prod.splits)
  have "eb_subscriptions b1 = eb_subscriptions b \<and> eb_closed b1 = eb_closed b \<and> eb_fresh b1 = eb_fresh b \<and> eb_signer b1 = eb_signer b \<and>
      (\<forall>k. map_option sub_ref (fmlookup (eb_store b1) k) = map_option sub_ref (fmlookup (eb_store b) k))"
  proof (cases "fmlookup (eb_store b) j")
    case None
    then show ?thesis using one(1) by (simp add: fanout_one_def)
  next
    case (Some y)
    note t = fanout_one_touches [OF one(1) Some]
    have "map_option sub_ref (fmlookup (eb_store b1) k) = map_option sub_ref (fmlookup (eb_store b) k)" for k
      using t Some by (cases "k = j") (auto simp: touches_def)
    then show ?thesis using t by (simp add: touches_def)
  qed
  then show ?case using Cons.IH [OF one(2)] by simp
qed simp

lemma registered_cong:
  assumes "eb_subscriptions b' = eb_subscriptions b" "map_option sub_ref (fmlookup (eb_store b') i) = map_option sub_ref (fmlookup (eb_store b) i)"
  shows "registered b' i \<longleftrightarrow> registered b i"
  using assms by (auto simp: registered_def split: option.splits)

lemma fanout_Return:
  assumes "fanout js hmac b v es ch = (None, gone, b')"
  obtains slow b1 where "fanout_loop js hmac v es ch b [] (snapshotSubscriptions b) = (None, slow, b1)" "b' = foldl remove_sub b1 slow"
  using assms by (auto simp: fanout_def split: prod.splits option.splits)

text \<open>The items a publication becomes for a connection, when none is refused.\<close>

definition live_list :: "codec \<Rightarrow> tag_function \<Rightarrow> CursorSigner \<Rightarrow> ControlConnectionRef \<Rightarrow> StateVersion \<Rightarrow> StateEvent list \<Rightarrow> StateQueueItem list" where
  "live_list js hmac s ref v es = (case liveItems js hmac s ref v es of Return (items, False) \<Rightarrow> items | _ \<Rightarrow> [])"

lemma fanout_effect:
  assumes fan: "fanout js hmac b v es ch = (None, gone, b')" and open_bus: "\<not> eb_closed b" and reg: "registered b i"
    and x: "fmlookup (eb_store b) i = Some x" "sub_active x" and x': "fmlookup (eb_store b') i = Some x'" "sub_active x'"
  shows "registered b' i \<and> sub_ref x' = sub_ref x \<and> sub_phase x' = sub_phase x \<and>
    liveItems js hmac (eb_signer b) (sub_ref x) v es = Return (live_list js hmac (eb_signer b) (sub_ref x) v es, False) \<and>
    (let revoked = vc_Revoked (change_of ch (cr_UserID (sub_ref x))); items = live_list js hmac (eb_signer b) (sub_ref x) v es;
         lane = fmlookup (eb_lanes b) (sub_ref x); lane' = fmlookup (eb_lanes b') (sub_ref x)
     in case sub_phase x of
          eventSubscriptionSyncing \<Rightarrow> sub_pending x' = pruneStateQueueItems (sub_pending x) revoked @ items \<and> lane' = lane
        | eventSubscriptionLive \<Rightarrow>
            if items = [] \<and> revoked = [] then lane' = lane
            else \<exists>l l'. lane = Some l \<and> applyBatch l revoked items = (True, l') \<and> lane' = Some l')"
proof -
  obtain slow b0 where loop: "fanout_loop js hmac v es ch b [] (snapshotSubscriptions b) = (None, slow, b0)" and b': "b' = foldl remove_sub b0 slow"
    using fanout_Return [OF fan] .
  have mem: "i \<in> set (snapshotSubscriptions b)" "refs_apart b (snapshotSubscriptions b) i"
    using reg registered_apart [OF reg] by (auto simp: set_snapshotSubscriptions [OF open_bus])
  obtain b1 b2 sl where one: "fanout_one js hmac v es ch b1 i = Return (sl, b2)" "fmlookup (eb_store b1) i = Some x"
    "fmlookup (eb_lanes b1) (sub_ref x) = fmlookup (eb_lanes b) (sub_ref x)" "eb_signer b1 = eb_signer b"
    "fmlookup (eb_store b0) i = fmlookup (eb_store b2) i" "fmlookup (eb_lanes b0) (sub_ref x) = fmlookup (eb_lanes b2) (sub_ref x)" "i \<in> set slow \<longleftrightarrow> sl"
    using fanout_loop_one [OF loop mem(1) distinct_snapshotSubscriptions _ x(1) mem(2)] by auto
  let ?rev = "vc_Revoked (change_of ch (cr_UserID (sub_ref x)))"
  let ?x = "refresh_visibility v (change_of ch (cr_UserID (sub_ref x))) x"
  obtain items over where live: "liveItems js hmac (eb_signer b) (sub_ref x) v es = Return (items, over)" and del: "deliver b1 i ?x ?rev items over = (sl, b2)"
    using fanout_one_Return [OF one(1,2) x(2)] one(4) by metis
  have x2: "fmlookup (eb_store b2) i = Some x'" using x'(1) one(5) b' by simp
  then have "\<not> sl" using deliver_slow x'(2) del by (cases sl) force+
  then have del': "deliver b1 i ?x ?rev items over = (False, b2)" using del by simp
  have adm: "\<not> over" "sub_phase x' = sub_phase x"
    "case sub_phase x of
       eventSubscriptionSyncing \<Rightarrow> sub_pending x' = pruneStateQueueItems (sub_pending x) ?rev @ items \<and> eb_lanes b2 = eb_lanes b1
     | eventSubscriptionLive \<Rightarrow> sub_pending x' = sub_pending x \<and>
         (if items = [] \<and> ?rev = [] then eb_lanes b2 = eb_lanes b1
          else \<exists>l l'. fmlookup (eb_lanes b1) (sub_ref x) = Some l \<and> applyBatch l ?rev items = (True, l') \<and> eb_lanes b2 = fmupd (sub_ref x) l' (eb_lanes b1))"
    using deliver_admitted [OF del', unfolded refresh_visibility_fields, OF x(2)] unfolding x2 by simp_all
  have items: "live_list js hmac (eb_signer b) (sub_ref x) v es = items" using live adm(1) by (simp add: live_list_def)
  have ref: "sub_ref x' = sub_ref x" using fanout_one_touches [OF one(1,2)] x2 by (simp add: touches_def)
  note frame = fanout_loop_frame [OF loop]
  have "registered b0 i" using registered_cong [of b0 b i] frame reg by simp
  then have "registered b' i" using \<open>\<not> sl\<close> one(7) by (simp add: b' registered_foldl_remove)
  moreover have "fmlookup (eb_lanes b') (sub_ref x) = fmlookup (eb_lanes b2) (sub_ref x)" using one(6) b' by simp
  ultimately show ?thesis
    using ref adm live one(3) unfolding items Let_def by (cases "sub_phase x") auto
qed

subsection \<open>From replay to live delivery\<close>

text \<open>A publication as the bus sees it: the version, its events and its visibility changes.\<close>

type_synonym bus_publication = "StateVersion \<times> StateEvent list \<times> (int64, VisibilityChange) fmap"

text \<open>What happens to a bus while subscription \<open>i\<close> encodes its replay: publications, recorded in order, every operation
  on other subscriptions, and whatever the writers do to the lanes.\<close>

inductive sync_run :: "codec \<Rightarrow> tag_function \<Rightarrow> nat \<Rightarrow> EventBus \<Rightarrow> EventBus \<Rightarrow> bus_publication list \<Rightarrow> bool" for js hmac i b where
  start: "sync_run js hmac i b b []"
| publish: "\<lbrakk>sync_run js hmac i b b1 pubs; fanout js hmac b1 v es ch = (None, gone, b2)\<rbrakk> \<Longrightarrow> sync_run js hmac i b b2 (pubs @ [(v, es, ch)])"
| begin_other: "\<lbrakk>sync_run js hmac i b b1 pubs; beginSync b1 ref v = Return (j, b2)\<rbrakk> \<Longrightarrow> sync_run js hmac i b b2 pubs"
| complete_other: "\<lbrakk>sync_run js hmac i b b1 pubs; j \<noteq> i; completeSync b1 j frames = (e, b2)\<rbrakk> \<Longrightarrow> sync_run js hmac i b b2 pubs"
| abort_other: "\<lbrakk>sync_run js hmac i b b1 pubs; j \<noteq> i\<rbrakk> \<Longrightarrow> sync_run js hmac i b (abortSync b1 j) pubs"
| unsubscribe: "sync_run js hmac i b b1 pubs \<Longrightarrow> sync_run js hmac i b (unsubscribe b1 ref) pubs"
| lanes: "sync_run js hmac i b b1 pubs \<Longrightarrow> sync_run js hmac i b (b1\<lparr>eb_lanes := m\<rparr>) pubs"

definition pending_of :: "codec \<Rightarrow> tag_function \<Rightarrow> CursorSigner \<Rightarrow> ControlConnectionRef \<Rightarrow> bus_publication list \<Rightarrow> StateQueueItem list" where
  "pending_of js hmac s ref pubs =
     foldl (\<lambda>q (v, es, ch). pruneStateQueueItems q (vc_Revoked (change_of ch (cr_UserID ref))) @ live_list js hmac s ref v es) [] pubs"

definition syncing :: "codec \<Rightarrow> tag_function \<Rightarrow> CursorSigner \<Rightarrow> ControlConnectionRef \<Rightarrow> nat \<Rightarrow> EventBus \<Rightarrow> bus_publication list \<Rightarrow> bool" where
  "syncing js hmac s ref i b pubs \<longleftrightarrow> i < eb_fresh b \<and> \<not> eb_closed b \<and> eb_signer b = s \<and>
     (\<exists>x. fmlookup (eb_store b) i = Some x \<and> sub_ref x = ref \<and> (sub_active x \<longrightarrow>
        registered b i \<and> sub_phase x = eventSubscriptionSyncing \<and> sub_pending x = pending_of js hmac s ref pubs))"

lemma beginSync_syncing:
  "beginSync b0 ref v = Return (i, b) \<Longrightarrow> syncing js hmac (eb_signer b0) ref i b []"
  by (auto simp: beginSync_def Let_def syncing_def put_sub_def registered_def pending_of_def split: if_splits)

lemma fanout_one_inactive:
  assumes "fanout_one js hmac v es ch b j = Return (slow, b')" "fmlookup (eb_store b) i = Some x" "\<not> sub_active x"
  shows "fmlookup (eb_store b') i = Some x"
proof (cases "j = i")
  case True
  then show ?thesis using assms by (simp add: fanout_one_def)
next
  case False
  then show ?thesis
    using assms fanout_one_touches [OF assms(1)] by (cases "fmlookup (eb_store b) j") (auto simp: fanout_one_def touches_def)
qed

lemma inactive_stays:
  assumes "fanout_loop js hmac v es ch b slow is = (None, slow', b')" "fmlookup (eb_store b) i = Some x" "\<not> sub_active x"
  shows "fmlookup (eb_store b') i = Some x"
  using assms
proof (induction "is" arbitrary: b slow)
  case (Cons j js')
  then obtain sl b1 where one: "fanout_one js hmac v es ch b j = Return (sl, b1)"
    "fanout_loop js hmac v es ch b1 (if sl then slow @ [j] else slow) js' = (None, slow', b')"
    by (auto split: outcome.splits prod.splits)
  show ?case using Cons.IH [OF one(2) fanout_one_inactive [OF one(1) Cons.prems(2,3)] Cons.prems(3)] .
qed simp

lemma fanout_syncing:
  assumes "syncing js hmac s ref i b pubs" "fanout js hmac b v es ch = (None, gone, b')"
  shows "syncing js hmac s ref i b' (pubs @ [(v, es, ch)])"
proof -
  obtain slow b0 where loop: "fanout_loop js hmac v es ch b [] (snapshotSubscriptions b) = (None, slow, b0)" and b': "b' = foldl remove_sub b0 slow"
    using fanout_Return [OF assms(2)] .
  note frame = fanout_loop_frame [OF loop]
  obtain x where x: "fmlookup (eb_store b) i = Some x" "sub_ref x = ref" "sub_active x \<Longrightarrow>
      registered b i \<and> sub_phase x = eventSubscriptionSyncing \<and> sub_pending x = pending_of js hmac s ref pubs" "\<not> eb_closed b" "eb_signer b = s" "i < eb_fresh b"
    using assms(1) by (auto simp: syncing_def)
  obtain x' where x': "fmlookup (eb_store b') i = Some x'" "sub_ref x' = ref"
    using frame x(1,2) unfolding b' by (metis (no_types, lifting) foldl_remove_sub(1) map_option_eq_Some)
  have "registered b' i \<and> sub_phase x' = eventSubscriptionSyncing \<and> sub_pending x' = pending_of js hmac s ref (pubs @ [(v, es, ch)])" if act: "sub_active x'"
  proof (cases "sub_active x")
    case True
    from fanout_effect [OF assms(2) x(4) _ x(1) True x'(1) act] show ?thesis using x(2,3,5) True by (simp add: pending_of_def Let_def)
  next
    case False
    then have "fmlookup (eb_store b') i = Some x" using inactive_stays [OF loop x(1)] b' by simp
    then show ?thesis using False act x'(1) by simp
  qed
  then show ?thesis using x x' frame unfolding syncing_def b' by auto
qed

text \<open>An operation on another subscription leaves this one alone.\<close>

definition keeps_sub :: "nat \<Rightarrow> EventBus \<Rightarrow> EventBus \<Rightarrow> bool" where
  "keeps_sub i b b' \<longleftrightarrow> eb_fresh b \<le> eb_fresh b' \<and> eb_closed b' = eb_closed b \<and> eb_signer b' = eb_signer b \<and>
     fmlookup (eb_store b') i = fmlookup (eb_store b) i \<and> (registered b i \<longrightarrow> registered b' i)"

lemma keeps_sub_syncing: "\<lbrakk>syncing js hmac s ref i b pubs; keeps_sub i b b'\<rbrakk> \<Longrightarrow> syncing js hmac s ref i b' pubs"
  by (auto simp: syncing_def keeps_sub_def)

lemma keeps_sub_put: "j \<noteq> i \<Longrightarrow> keeps_sub i b (put_sub b j y)"
  by (auto simp: keeps_sub_def put_sub_def registered_iff)

lemma keeps_sub_remove: "j \<noteq> i \<Longrightarrow> keeps_sub i b (remove_sub b j)"
  by (simp add: keeps_sub_def registered_remove)

lemma keeps_sub_apply: "ApplyStateBatch b ref revoked items = (admit, b') \<Longrightarrow> keeps_sub i b b'"
  using ApplyStateBatch_frame [of b ref revoked items admit b'] by (auto simp: keeps_sub_def registered_iff)

lemma keeps_sub_trans: "\<lbrakk>keeps_sub i b b1; keeps_sub i b1 b2\<rbrakk> \<Longrightarrow> keeps_sub i b b2"
  by (auto simp: keeps_sub_def)

lemma keeps_sub_disconnect: "keeps_sub i b (DisconnectSlowConsumer b ref)"
  by (auto simp: keeps_sub_def DisconnectSlowConsumer_def registered_iff)

lemma keeps_sub_refl: "keeps_sub i b b"
  by (simp add: keeps_sub_def)

lemma keeps_sub_begin: "\<lbrakk>beginSync b ref v = Return (j, b'); i < eb_fresh b\<rbrakk> \<Longrightarrow> keeps_sub i b b'"
  by (auto simp: beginSync_def Let_def keeps_sub_def put_sub_def registered_iff split: if_splits option.splits)

lemma keeps_sub_complete:
  assumes "completeSync b j frames = (e, b')" "j \<noteq> i"
  shows "keeps_sub i b b'"
proof (cases "fmlookup (eb_store b) j")
  case None
  then show ?thesis using assms by (simp add: completeSync_def keeps_sub_refl)
next
  case (Some x)
  obtain admit b1 where b1: "(if stateItemBatchWithinLimits (controlQueueItems frames (sub_ref x) (sub_visibilityEpoch x) @ sub_pending x)
      then ApplyStateBatch b (sub_ref x) [] (controlQueueItems frames (sub_ref x) (sub_visibilityEpoch x) @ sub_pending x) else (False, b)) = (admit, b1)"
    by fastforce
  have "keeps_sub i b b1" using b1 by (auto simp: keeps_sub_refl intro: keeps_sub_apply split: if_splits)
  then have "keeps_sub i b (put_sub b1 j y)" "keeps_sub i b (DisconnectSlowConsumer (remove_sub (put_sub b1 j y) j) r)" for y r
    by (rule keeps_sub_trans [OF _ keeps_sub_put [OF assms(2)]],
        rule keeps_sub_trans [OF keeps_sub_trans [OF keeps_sub_trans [OF _ keeps_sub_put [OF assms(2)]] keeps_sub_remove [OF assms(2)]] keeps_sub_disconnect])
  moreover have "completeSync b j frames = (if \<not> sub_active x \<or> sub_phase x \<noteq> eventSubscriptionSyncing then (Some ErrSyncAttemptClosed, b)
      else if \<not> admit then (Some ErrEventConsumerSlow, DisconnectSlowConsumer (remove_sub (put_sub b1 j (deactivated x)) j) (sub_ref x))
      else (None, put_sub b1 j (x\<lparr>sub_phase := eventSubscriptionLive, sub_pending := [], sub_pendingBytes := 0\<rparr>)))"
    by (simp add: completeSync_def Some Let_def b1)
  ultimately show ?thesis
    using assms(1) keeps_sub_refl by (auto split: if_splits)
qed

lemma keeps_sub_abort: "j \<noteq> i \<Longrightarrow> keeps_sub i b (abortSync b j)"
  using keeps_sub_put [of j i b] keeps_sub_remove [of j i] keeps_sub_trans [of i b]
  by (auto simp: abortSync_def keeps_sub_refl split: option.splits)

lemma unsubscribe_syncing:
  assumes "syncing js hmac s ref i b pubs"
  shows "syncing js hmac s ref i (unsubscribe b r) pubs"
proof -
  obtain x where x: "fmlookup (eb_store b) i = Some x" "sub_ref x = ref" using assms by (auto simp: syncing_def)
  show ?thesis
  proof (cases "validConnectionRef r \<and> fmlookup (eb_subscriptions b) r \<noteq> None")
    case False
    then have "unsubscribe b r = b" by (auto simp: unsubscribe_def)
    then show ?thesis using assms by simp
  next
    case True
    then obtain k where k: "fmlookup (eb_subscriptions b) r = Some k" by blast
    have 2: "fmlookup (eb_subscriptions b) r = Some k" "unsubscribe b r =
      (case fmlookup (eb_store b) k of None \<Rightarrow> b\<lparr>eb_subscriptions := fmdrop r (eb_subscriptions b)\<rparr>
       | Some y \<Rightarrow> put_sub (b\<lparr>eb_subscriptions := fmdrop r (eb_subscriptions b)\<rparr>) k (deactivated y))"
      using True k by (simp_all add: unsubscribe_def Let_def)
    show ?thesis
    proof (cases "k = i")
      case True
      then show ?thesis using assms x 2 by (auto simp: syncing_def put_sub_def deactivated_def)
    next
      case False
      then have "fmlookup (eb_store (unsubscribe b r)) i = Some x" using x 2 by (simp add: put_sub_def split: option.split)
      moreover have "registered (unsubscribe b r) i" if "registered b i"
        using that x 2 False by (auto simp: registered_iff put_sub_def split: option.splits)
      moreover have "eb_fresh (unsubscribe b r) = eb_fresh b" "eb_closed (unsubscribe b r) = eb_closed b" "eb_signer (unsubscribe b r) = eb_signer b"
        using 2 by (simp_all add: put_sub_def split: option.split)
      ultimately show ?thesis using assms x by (auto simp: syncing_def)
    qed
  qed
qed

lemma sync_run_syncing: "\<lbrakk>sync_run js hmac i b b' pubs; syncing js hmac s ref i b []\<rbrakk> \<Longrightarrow> syncing js hmac s ref i b' pubs"
proof (induction rule: sync_run.induct)
  case (publish b1 pubs v es ch gone b2)
  then show ?case using fanout_syncing by blast
next
  case (begin_other b1 pubs ref' v j b2)
  then have "i < eb_fresh b1" by (simp add: syncing_def)
  then show ?case using begin_other keeps_sub_begin keeps_sub_syncing by blast
next
  case (complete_other b1 pubs j frames e b2)
  then show ?case using keeps_sub_complete keeps_sub_syncing by blast
next
  case (abort_other b1 pubs j)
  then show ?case using keeps_sub_abort keeps_sub_syncing by blast
next
  case (unsubscribe b1 pubs r)
  then show ?case using unsubscribe_syncing by blast
next
  case (lanes b1 pubs m)
  then show ?case by (auto simp: syncing_def registered_iff)
qed

text \<open>C11. Handing a connection from replay to live delivery loses and duplicates nothing: when the synchronization completes,
  the connection's lane holds, after what it held, the replay frames and then exactly the items of every
  publication made since registration, in order, less ordinary items whose scope a later one of them revoked; and
  the subscription is live.
\<close>

theorem handoff_exact:
  assumes "beginSync b0 ref v0 = Return (i, b)" "sync_run js hmac i b b' pubs" "completeSync b' i frames = (None, b'')"
  shows "\<exists>l l' epoch. fmlookup (eb_lanes b') ref = Some l \<and> fmlookup (eb_lanes b'') ref = Some l' \<and>
    map wf_item (wl_queue l') = map wf_item (wl_queue l) @ controlQueueItems frames ref epoch @ pending_of js hmac (eb_signer b0) ref pubs \<and>
    registered b'' i \<and> (\<exists>x. fmlookup (eb_store b'') i = Some x \<and> sub_active x \<and> sub_phase x = eventSubscriptionLive \<and> sub_pending x = [])"
proof -
  have "syncing js hmac (eb_signer b0) ref i b' pubs"
    by (rule sync_run_syncing [OF assms(2) beginSync_syncing [OF assms(1)]])
  then obtain x where x: "fmlookup (eb_store b') i = Some x" "sub_ref x = ref"
    "sub_active x \<Longrightarrow> registered b' i \<and> sub_phase x = eventSubscriptionSyncing \<and> sub_pending x = pending_of js hmac (eb_signer b0) ref pubs"
    by (auto simp: syncing_def)
  let ?batch = "controlQueueItems frames (sub_ref x) (sub_visibilityEpoch x) @ sub_pending x"
  have act: "sub_active x" using assms(3) x(1) by (auto simp: completeSync_def split: if_splits)
  then obtain b1 where b1: "ApplyStateBatch b' ref [] ?batch = (True, b1)"
    "b'' = put_sub b1 i (x\<lparr>sub_phase := eventSubscriptionLive, sub_pending := [], sub_pendingBytes := 0\<rparr>)"
    using assms(3) x by (auto simp: completeSync_def Let_def split: if_splits prod.splits)
  obtain l l' where l: "fmlookup (eb_lanes b') ref = Some l" "applyBatch l [] ?batch = (True, l')" "fmlookup (eb_lanes b1) ref = Some l'"
    using b1(1) by (auto simp: ApplyStateBatch_def split: option.splits prod.splits)
  have "wl_queue l' = wl_queue l @ map lane_frame ?batch"
    using l(2) by (cases rule: applyBatch_cases) (auto simp: prune_lane_def)
  then have "map wf_item (wl_queue l') = map wf_item (wl_queue l) @ ?batch" by (simp add: lane_frame_def comp_def)
  moreover have "registered b'' i"
    using x(3) [OF act] x(1) ApplyStateBatch_frame [OF b1(1)] by (auto simp: b1(2) registered_iff put_sub_def)
  ultimately show ?thesis
    using l x act b1(2) by (intro exI [of _ l] exI [of _ l'] exI [of _ "sub_visibilityEpoch x"]) (simp add: put_sub_def)
qed

subsection \<open>A concrete handoff\<close>

definition example_ref :: ControlConnectionRef where
  "example_ref = \<lparr>cr_ControlConnectionID = 7, cr_UserID = 1, cr_Generation = 1, cr_LoginSessionID = 1\<rparr>"

definition example_bus :: EventBus where
  "example_bus = (NewEventBus example_signer)\<lparr>eb_lanes := fmupd example_ref newWebSocketStateLane fmempty\<rparr>"

definition example_sub :: "StateQueueItem list \<Rightarrow> eventSubscription" where
  "example_sub q = \<lparr>sub_ref = example_ref, sub_active = True, sub_phase = eventSubscriptionSyncing, sub_pending = q,
     sub_pendingBytes = stateQueueItemBytes q, sub_visibilityEpoch = 0, sub_visibleScopes = VisibleScopeIDs 1 example_version\<rparr>"

definition example_syncing :: "StateQueueItem list \<Rightarrow> EventBus" where
  "example_syncing q = example_bus\<lparr>eb_subscriptions := fmupd example_ref 0 fmempty, eb_store := fmupd 0 (example_sub q) fmempty, eb_fresh := 1\<rparr>"

definition example_live_item :: "uint64 \<Rightarrow> StateQueueItem" where
  "example_live_item g = \<lparr>qi_Frame = ''{}'', qi_Scope = server_scope, qi_GEID = g, qi_Policy = StateDeliveryVisibleAfter, qi_RecipientUserID = 1,
     qi_ConnectionGeneration = 1, qi_CursorVisibilityEpoch = 0\<rparr>"

lemma example_begin: "beginSync example_bus example_ref example_version = Return (0, example_syncing [])"
  by (simp add: beginSync_def example_bus_def NewEventBus_def validConnectionRef_def example_ref_def Let_def put_sub_def example_syncing_def
      example_sub_def VisibilityEpoch_def count_at_def example_version_def emptyRuntime_def)

lemma example_live: "live_item example_codec example_tag example_signer example_ref example_version (example_event g) = Return (example_live_item g)"
proof -
  let ?token = "EncodeToString (''{}'' @ example_tag (cs_key example_signer) ''{}'')"
  have len: "length ?token = 46" by (simp add: length_EncodeToString example_tag_def)
  then have valid: "validStateEventCursor ?token"
    by (auto simp: validStateEventCursor_def EncodeToString_alphabet MaxStateEventCursorBytes_def)
  have issue: "Issue example_codec example_tag example_signer 1 \<lparr>cp_StreamEpoch = cp_StreamEpoch (sv_checkpoint example_version), cp_GEID = g\<rparr> 0 = Return ?token"
    using len by (simp add: Issue_def MaxStateEventCursorBytes_def Let_def example_codec_def example_signer_def)
  have "encodeEventForRecipient example_codec (example_event g) 1 example_version ?token = Return ''{}''"
    using valid by (simp add: encodeEventForRecipient_def projectedEvent_def example_event_def EncodedWithDataAndCursor_def example_codec_def MaxStateEventBytes_def)
  moreover have "cursorEpochForEvent (example_event g) 1 example_version = 0"
    by (simp add: cursorEpochForEvent_def example_event_def VisibilityEpoch_def count_at_def example_version_def emptyRuntime_def)
  moreover have "cr_UserID example_ref = 1" "cr_Generation example_ref = 1" by (simp_all add: example_ref_def)
  ultimately show ?thesis
    using issue by (simp add: live_item_def Let_def example_live_item_def) (simp add: example_event_def item_policy_def)
qed

lemma example_fanout:
  "fanout example_codec example_tag (example_syncing []) example_version [example_event 1] fmempty = (None, [], example_syncing [example_live_item 1])"
proof -
  have "eventVisibleTo (cr_UserID example_ref) (example_event 1) example_version"
    by (simp add: eventVisibleTo_def example_event_def example_ref_def UserOf_def example_defs)
  then have live: "liveItems example_codec example_tag example_signer example_ref example_version [example_event 1] = Return ([example_live_item 1], False)"
    by (simp add: liveItems_def example_live frame_size_def example_live_item_def MaxWebSocketStateItems_def MaxWebSocketStateBytes_def)
  have subs: "snapshotSubscriptions (example_syncing []) = [0]"
    by (simp add: snapshotSubscriptions_def sortSubscriptions_def registered_def sub_key_def example_syncing_def example_sub_def example_bus_def NewEventBus_def
        sorted_list_of_fset.rep_eq sort_by_def)
  have app: "appendPending (example_sub []) [] [example_live_item 1] = (True, example_sub [example_live_item 1])"
    by (simp add: appendPending_def Let_def example_sub_def pruneStateQueueItems_def frame_size_def example_live_item_def MaxWebSocketStateItems_def MaxWebSocketStateBytes_def)
  have look: "fmlookup (eb_store (example_syncing [])) 0 = Some (example_sub [])" "eb_signer (example_syncing []) = example_signer"
    "sub_active (example_sub [])" "sub_ref (example_sub []) = example_ref" "sub_phase (example_sub []) = eventSubscriptionSyncing"
    by (simp_all add: example_syncing_def example_bus_def NewEventBus_def example_sub_def)
  have change: "change_of fmempty u = \<lparr>vc_Granted = [], vc_Revoked = []\<rparr>" for u by (simp add: change_of_def)
  have "fanout_one example_codec example_tag example_version [example_event 1] fmempty (example_syncing []) 0 =
      Return (False, put_sub (example_syncing []) 0 (example_sub [example_live_item 1]))"
    using live app by (simp add: fanout_one_def Let_def look change refresh_visibility_def Changed_def deliver_def)
  moreover have "put_sub (example_syncing []) 0 (example_sub [example_live_item 1]) = example_syncing [example_live_item 1]"
    by (simp add: put_sub_def example_syncing_def fmap_ext)
  ultimately show ?thesis by (simp add: fanout_def subs)
qed

theorem handoff_exact_witness:
  "\<exists>b'' l'. completeSync (example_syncing [example_live_item 1]) 0 [''r'', ''c''] = (None, b'') \<and> fmlookup (eb_lanes b'') example_ref = Some l' \<and>
     map (\<lambda>f. (qi_Policy (wf_item f), qi_GEID (wf_item f))) (wl_queue l') =
       [(StateDeliveryControl, 0), (StateDeliveryControl, 0), (StateDeliveryVisibleAfter, 1)]"
proof -
  have "sync_run example_codec example_tag 0 (example_syncing []) (example_syncing [example_live_item 1]) ([] @ [(example_version, [example_event 1], fmempty)])"
    by (rule sync_run.publish [OF sync_run.start example_fanout])
  moreover have "\<exists>b''. completeSync (example_syncing [example_live_item 1]) 0 [''r'', ''c''] = (None, b'')"
    by (simp add: completeSync_def example_syncing_def example_sub_def example_bus_def Let_def stateItemBatchWithinLimits_def controlQueueItems_def
        example_live_item_def frame_size_def MaxWebSocketStateItems_def MaxWebSocketStateBytes_def ApplyStateBatch_def applyBatch_def newWebSocketStateLane_def
        prune_lane_def NewEventBus_def)
  then obtain b'' where c: "completeSync (example_syncing [example_live_item 1]) 0 [''r'', ''c''] = (None, b'')" ..
  ultimately obtain l l' epoch where l: "fmlookup (eb_lanes (example_syncing [example_live_item 1])) example_ref = Some l" "fmlookup (eb_lanes b'') example_ref = Some l'"
    "map wf_item (wl_queue l') = map wf_item (wl_queue l) @ controlQueueItems [''r'', ''c''] example_ref epoch @
       pending_of example_codec example_tag (eb_signer example_bus) example_ref [(example_version, [example_event 1], fmempty)]"
    using handoff_exact [OF example_begin _ c] by fastforce
  have "wl_queue l = []" using l(1) by (auto simp: example_syncing_def example_bus_def newWebSocketStateLane_def)
  have "eventVisibleTo (cr_UserID example_ref) (example_event 1) example_version"
    by (simp add: eventVisibleTo_def example_event_def example_ref_def UserOf_def example_defs)
  then have "pending_of example_codec example_tag (eb_signer example_bus) example_ref [(example_version, [example_event 1], fmempty)] = [example_live_item 1]"
    by (simp add: pending_of_def live_list_def liveItems_def example_live frame_size_def example_live_item_def MaxWebSocketStateItems_def MaxWebSocketStateBytes_def
        pruneStateQueueItems_def example_bus_def NewEventBus_def)
  then have "map (\<lambda>i. (qi_Policy i, qi_GEID i)) (map wf_item (wl_queue l')) = [(StateDeliveryControl, 0), (StateDeliveryControl, 0), (StateDeliveryVisibleAfter, 1)]"
    using l(3) \<open>wl_queue l = []\<close> by (simp add: controlQueueItems_def example_live_item_def)
  then show ?thesis using c l(2) by (auto simp: comp_def)
qed

end
