(* ===== verification/Publication.thy ===== *)
theory Publication
  imports EventBus
begin

text \<open>
  The state commit boundary (\<^verbatim>\<open>internal/realtime/publication.go\<close>).  A publication holds the current version, the
  replay ring and the bound event bus.  Reserving computes the successor version, its visibility epochs and its numbered
  events; publishing appends the events, swaps the version and fans out.  Both run under one lock, held from
  the reservation to its completion, so a commit is one step.  SHA-256 is the parameter \<open>sha256\<close>, JSON the
  \<open>codec\<close>; the clock reading is an argument.  Test hooks and latency counters are left out.  Candidates are compared with the current version by identity in the code;
  here by value, which agrees because every version has its own number.
\<close>

section \<open>Definitions\<close>

definition maxVisibilityFragmentBytes :: int where "maxVisibilityFragmentBytes = 128 * 2 ^ 10"

type_synonym digest_function = "string \<Rightarrow> bytes"

subsection \<open>Visibility transitions\<close>

definition directTransitionTemplate :: "string \<Rightarrow> Scope \<Rightarrow> int64 \<Rightarrow> uint64 \<Rightarrow> int64 \<Rightarrow> string option \<Rightarrow> StateEventTemplate" where
  "directTransitionTemplate eventType scope userID epoch causationID data =
     \<lparr>tp_EventType = eventType, tp_Scope = scope, tp_CausationID = causationID, tp_Data = data, tp_DeliveryPolicy = StateDeliveryDirectTransition,
      tp_VisibleBeforeUserIDs = [], tp_RecipientUserID = userID, tp_SubjectUserID = 0, tp_CursorVisibilityEpoch = epoch, tp_HasCursorVisibilityEpoch = True\<rparr>"

definition marshalVisibilityScope :: "codec \<Rightarrow> Scope \<Rightarrow> (stream_error, string) outcome" where
  "marshalVisibilityScope js scope = (case js_marshal js (WScope (stateEventScope scope)) of None \<Rightarrow> Fail ErrEncode | Some data \<Rightarrow> Return data)"

definition mustMarshalVisibilityScope :: "codec \<Rightarrow> Scope \<Rightarrow> string option" where
  "mustMarshalVisibilityScope js scope = js_marshal js (WScope (stateEventScope scope))"

definition visibilityChangeDigest :: "digest_function \<Rightarrow> VisibilityChange \<Rightarrow> string" where
  "visibilityChangeDigest sha256 change =
     (let lines = sort (map (\<lambda>s. ScopeKey s @ [CHR 0x0A]) (vc_Granted change @ vc_Revoked change)) in hex_string (sha256 (concat lines)))"

subsubsection \<open>Fragments\<close>

definition encodeGroup :: "codec \<Rightarrow> SnapshotGroup \<Rightarrow> string list \<Rightarrow> string option" where
  "encodeGroup js grp ids = js_marshal js (WGroup grp ids)"

text \<open>The inner loop: the part grows by one identifier until it is too long or none is left.\<close>

fun fragment_scan :: "codec \<Rightarrow> SnapshotGroup \<Rightarrow> string list \<Rightarrow> string list \<Rightarrow> (stream_error, string list \<times> string) outcome" where
  "fragment_scan js grp taken rest =
     (case encodeGroup js grp taken of None \<Rightarrow> Fail ErrEncode
      | Some data \<Rightarrow>
          if int (length data) > maxVisibilityFragmentBytes
          then (if length taken = 1 then Fail ErrStateEventTooLarge
                else case encodeGroup js grp (butlast taken) of None \<Rightarrow> Fail ErrEncode | Some data' \<Rightarrow> Return (butlast taken, data'))
          else case rest of [] \<Rightarrow> Return (taken, data) | r # rs \<Rightarrow> fragment_scan js grp (taken @ [r]) rs)"

declare fragment_scan.simps [simp del]

function split_parts :: "codec \<Rightarrow> SnapshotGroup \<Rightarrow> string list \<Rightarrow> (stream_error, string list) outcome" where
  "split_parts js grp ids =
     (case ids of [] \<Rightarrow> Return []
      | i # rest \<Rightarrow>
          (case fragment_scan js grp [i] rest of
             Return (part, data) \<Rightarrow>
               (case split_parts js grp (drop (length part) ids) of Return parts \<Rightarrow> Return (data # parts) | Fail e \<Rightarrow> Fail e | Panic \<Rightarrow> Panic)
           | Fail e \<Rightarrow> Fail e | Panic \<Rightarrow> Panic))"
  by pat_completeness auto

termination
proof (relation "measure (\<lambda>(js, grp, ids). length ids)")
  fix js :: codec and grp :: SnapshotGroup and ids i rest part data x
  assume scan: "ids = i # rest" "fragment_scan js grp [i] rest = Return x" "(part, data) = x"
  have "\<lbrakk>fragment_scan js grp taken rest = Return (part, data); taken \<noteq> []\<rbrakk> \<Longrightarrow> part \<noteq> []" for taken rest
  proof (induction rest arbitrary: taken)
    case Nil
    then show ?case
      by (cases taken rule: rev_cases) (auto simp: fragment_scan.simps [where rest = "[]"] split: option.splits if_splits)
  next
    case (Cons r rs)
    then show ?case
      by (cases taken rule: rev_cases) (auto simp: fragment_scan.simps [where rest = "r # rs"] split: option.splits if_splits)
  qed
  from this [of "[i]" rest] scan have "part \<noteq> []" by simp
  then show "((js, grp, drop (length part) ids), js, grp, ids) \<in> measure (\<lambda>(js, grp, ids). length ids)" using scan by simp
qed simp

declare split_parts.simps [simp del]

definition splitGroupFragment :: "codec \<Rightarrow> SnapshotGroup \<Rightarrow> string list \<Rightarrow> (stream_error, string list) outcome" where
  "splitGroupFragment js grp childIDs =
     (if childIDs = []
      then (case encodeGroup js grp [] of None \<Rightarrow> Fail ErrStateEventTooLarge
            | Some data \<Rightarrow> if int (length data) > maxVisibilityFragmentBytes then Fail ErrStateEventTooLarge else Return [data])
      else split_parts js grp childIDs)"

definition visibilityFragmentPayloads :: "codec \<Rightarrow> int64 \<Rightarrow> Scope \<Rightarrow> StateVersion \<Rightarrow> (stream_error, string list) outcome" where
  "visibilityFragmentPayloads js userID scope v =
     (let st = snapshotStateFor (js_grants js) userID v
      in if sc_Type scope = ''group''
         then (case find (\<lambda>g. sg_ID g = FormatInt (sc_ID scope)) (st_Groups st) of None \<Rightarrow> Fail ErrInvalidPublication
               | Some grp \<Rightarrow> splitGroupFragment js grp (sort (map sch_ID (filter (\<lambda>c. sch_GroupID c = Some (sg_ID grp)) (st_Channels st)))))
         else if sc_Type scope = ''channel''
         then (case find (\<lambda>c. sch_ID c = FormatInt (sc_ID scope)) (st_Channels st) of None \<Rightarrow> Fail ErrInvalidPublication
               | Some channel \<Rightarrow>
                   let parent = (case sch_GroupID channel of None \<Rightarrow> None | Some g \<Rightarrow> find (\<lambda>grp. sg_ID grp = g) (st_Groups st));
                       members = filter (\<lambda>m. svm_ChannelID m = sch_ID channel) (st_VoiceMemberships st)
                   in case js_marshal js (WChannel parent channel members) of None \<Rightarrow> Fail ErrStateEventTooLarge
                      | Some data \<Rightarrow> if int (length data) > maxVisibilityFragmentBytes then Fail ErrStateEventTooLarge else Return [data])
         else Fail ErrInvalidPublication)"

fun fragment_templates :: "codec \<Rightarrow> string \<Rightarrow> Scope \<Rightarrow> int64 \<Rightarrow> uint64 \<Rightarrow> int64 \<Rightarrow> nat \<Rightarrow> nat \<Rightarrow> string list \<Rightarrow> (stream_error, StateEventTemplate list) outcome" where
  "fragment_templates js fragmentID scope userID epoch causationID n index [] = Return []"
| "fragment_templates js fragmentID scope userID epoch causationID n index (fragment # fragments) =
     (case js_marshal js (WFragment fragmentID (stateEventScope scope) index n fragment) of None \<Rightarrow> Fail ErrStateEventTooLarge
      | Some data \<Rightarrow>
          if int (length data) > maxVisibilityFragmentBytes then Fail ErrStateEventTooLarge
          else outcome_bind (fragment_templates js fragmentID scope userID epoch causationID n (index + 1) fragments) (\<lambda>ts.
            Return (directTransitionTemplate ''visibility.fragment'' scope userID epoch causationID (Some data) # ts)))"

subsubsection \<open>The transition of one user\<close>

definition revoked_templates :: "codec \<Rightarrow> int64 \<Rightarrow> uint64 \<Rightarrow> int64 \<Rightarrow> Scope \<Rightarrow> (stream_error, StateEventTemplate list) outcome" where
  "revoked_templates js userID oldEpoch causationID scope =
     outcome_bind (marshalVisibilityScope js scope) (\<lambda>data.
       Return [directTransitionTemplate ''visibility.tombstone'' scope userID oldEpoch causationID (Some data),
               directTransitionTemplate ''visibility.revoked'' scope userID oldEpoch causationID (Some data)])"

definition granted_templates :: "codec \<Rightarrow> StateVersion \<Rightarrow> int64 \<Rightarrow> uint64 \<Rightarrow> int64 \<Rightarrow> Scope \<Rightarrow> (stream_error, StateEventTemplate list) outcome" where
  "granted_templates js after userID oldEpoch causationID scope =
     outcome_bind (marshalVisibilityScope js scope) (\<lambda>data.
     outcome_bind (visibilityFragmentPayloads js userID scope after) (\<lambda>fragments.
     outcome_bind (fragment_templates js (FormatInt userID @ ''-'' @ FormatUint (sv_number after) @ ''-'' @ ScopeKey scope) scope userID oldEpoch causationID
         (length fragments) 0 fragments) (\<lambda>ts.
       Return ([directTransitionTemplate ''visibility.grant.begin'' scope userID oldEpoch causationID (Some data)] @ ts @
               [directTransitionTemplate ''visibility.granted'' scope userID oldEpoch causationID (mustMarshalVisibilityScope js scope)]))))"

fun concat_outcomes :: "('a \<Rightarrow> (stream_error, 'b list) outcome) \<Rightarrow> 'a list \<Rightarrow> (stream_error, 'b list) outcome" where
  "concat_outcomes f [] = Return []"
| "concat_outcomes f (x # xs) = outcome_bind (f x) (\<lambda>ys. outcome_bind (concat_outcomes f xs) (\<lambda>zs. Return (ys @ zs)))"

definition complete_template :: "codec \<Rightarrow> digest_function \<Rightarrow> int64 \<Rightarrow> uint64 \<Rightarrow> int64 \<Rightarrow> VisibilityChange \<Rightarrow> (stream_error, StateEventTemplate) outcome" where
  "complete_template js sha256 userID newEpoch causationID change =
     (case js_marshal js (WDigest (visibilityChangeDigest sha256 change)) of None \<Rightarrow> Fail ErrEncode
      | Some data \<Rightarrow> Return (directTransitionTemplate ''visibility.transition.complete'' server_scope userID newEpoch causationID (Some data)))"

definition user_transition :: "codec \<Rightarrow> digest_function \<Rightarrow> StateVersion \<Rightarrow> StateVersion \<Rightarrow> (int64, VisibilityChange) fmap \<Rightarrow> int64 \<Rightarrow> int64
    \<Rightarrow> (stream_error, StateEventTemplate list) outcome" where
  "user_transition js sha256 before after changes causationID userID =
     (let change = change_of changes userID; oldEpoch = VisibilityEpoch before userID; newEpoch = VisibilityEpoch after userID
      in outcome_bind (concat_outcomes (revoked_templates js userID oldEpoch causationID) (vc_Revoked change)) (\<lambda>rs.
         outcome_bind (concat_outcomes (granted_templates js after userID oldEpoch causationID) (vc_Granted change)) (\<lambda>gs.
         outcome_bind (complete_template js sha256 userID newEpoch causationID change) (\<lambda>c. Return (rs @ gs @ [c])))))"

definition appendVisibilityTransitions :: "codec \<Rightarrow> digest_function \<Rightarrow> StateEventTemplate list \<Rightarrow> StateVersion \<Rightarrow> StateVersion \<Rightarrow> (int64, VisibilityChange) fmap
    \<Rightarrow> (stream_error, StateEventTemplate list) outcome" where
  "appendVisibilityTransitions js sha256 templates before after changes =
     (let causationID = (case find (\<lambda>t. tp_CausationID t \<noteq> 0) templates of None \<Rightarrow> 0 | Some t \<Rightarrow> tp_CausationID t)
      in outcome_bind (concat_outcomes (user_transition js sha256 before after changes causationID) (sortedIntKeys changes)) (\<lambda>ts. Return (templates @ ts)))"

subsection \<open>Reserving and publishing\<close>

definition sortedUniqueUserIDs :: "int64 list \<Rightarrow> int64 list" where
  "sortedUniqueUserIDs userIDs = remdups_adj (sort_by sint userIDs)"

fun visibility_loop :: "StateVersion \<Rightarrow> StateVersion \<Rightarrow> int64 list \<Rightarrow> (int64, VisibilityChange) fmap \<Rightarrow> (int64, uint64) fmap
    \<Rightarrow> (stream_error, (int64, VisibilityChange) fmap \<times> (int64, uint64) fmap) outcome" where
  "visibility_loop before after [] changes epochs = Return (changes, epochs)"
| "visibility_loop before after (u # us) changes epochs =
     (if sint u \<le> 0 then Fail ErrInvalidPublication
      else let change = DiffScopes u before after
           in if \<not> Changed change then visibility_loop before after us changes epochs
              else visibility_loop before after us (fmupd u change changes) (fmupd u (count_at (rt_visibilityEpochs (sv_runtime before)) u + 1) epochs))"

definition visibilityChanges :: "StateVersion \<Rightarrow> StateVersion \<Rightarrow> int64 list \<Rightarrow> (stream_error, (int64, VisibilityChange) fmap \<times> (int64, uint64) fmap) outcome" where
  "visibilityChanges before after userIDs = visibility_loop before after (sortedUniqueUserIDs userIDs) fmempty fmempty"

fun materialize_loop :: "codec \<Rightarrow> StateEventTemplate list \<Rightarrow> uint64 \<Rightarrow> int64 \<Rightarrow> StateVersion \<Rightarrow> (stream_error, StateEvent list) outcome" where
  "materialize_loop js [] geid serverTime v = Return []"
| "materialize_loop js (t # ts) geid serverTime v =
     outcome_bind (stateEventFromTemplate js t (geid + 1) serverTime) (\<lambda>e.
       let e1 = (if sint (tp_SubjectUserID t) > 0
                 then (case UserOf v (tp_SubjectUserID t) of None \<Rightarrow> e
                       | Some user \<Rightarrow> e\<lparr>se_subjectState := Some \<lparr>ess_user = user, ess_presence = PresenceOf v (tp_SubjectUserID t)\<rparr>\<rparr>)
                 else e)
       in outcome_bind (materialize_loop js ts (geid + 1) serverTime v) (\<lambda>es. Return (e1 # es)))"

definition materializeEvents :: "codec \<Rightarrow> int64 \<Rightarrow> StateEventTemplate list \<Rightarrow> uint64 \<Rightarrow> StateVersion \<Rightarrow> (stream_error, StateEvent list) outcome" where
  "materializeEvents js now templates baseGEID v = materialize_loop js templates baseGEID now v"

record PublicationRequest =
  rq_Candidate :: "StateCandidate option"
  rq_Events :: "StateEventTemplate list"
  rq_VisibilityUserIDs :: "int64 list"
  rq_CommitRuntime :: "stream_error option"

record PublicationResult =
  rs_Version :: StateVersion
  rs_Checkpoint :: Checkpoint
  rs_Events :: "StateEvent list"
  rs_VisibilityChanges :: "(int64, VisibilityChange) fmap"

record StatePublication =
  pb_state :: StateVersion
  pb_ring :: StateRing
  pb_eventBus :: "EventBus option"

definition NewStatePublication :: "StateVersion \<Rightarrow> StateRing \<Rightarrow> (stream_error, StatePublication) outcome" where
  "NewStatePublication v r =
     (if rg_highWater r \<noteq> cp_GEID (sv_checkpoint v) then Fail ErrInvalidPublication else Return \<lparr>pb_state = v, pb_ring = r, pb_eventBus = None\<rparr>)"

definition apply_epochs :: "(int64, uint64) fmap \<Rightarrow> StateVersion \<Rightarrow> StateVersion" where
  "apply_epochs epochs v = v\<lparr>sv_runtime := (sv_runtime v)\<lparr>rt_visibilityEpochs := rt_visibilityEpochs (sv_runtime v) ++\<^sub>f epochs\<rparr>\<rparr>"

definition with_overrides :: "StateVersion \<Rightarrow> (int64, VisibilityChange) fmap \<Rightarrow> StateEvent \<Rightarrow> StateEvent" where
  "with_overrides before changes e =
     (if se_HasCursorVisibilityEpoch e \<or> changes = fmempty then e
      else e\<lparr>se_cursorVisibilityEpochs := map (\<lambda>u. (u, VisibilityEpoch before u)) (sortedIntKeys changes)\<rparr>)"

definition reserveLocked :: "codec \<Rightarrow> digest_function \<Rightarrow> int64 \<Rightarrow> StatePublication \<Rightarrow> PublicationRequest \<Rightarrow> (stream_error, PublicationResult) outcome" where
  "reserveLocked js sha256 now p request =
     (case rq_Candidate request of None \<Rightarrow> Fail ErrInvalidPublication
      | Some candidate \<Rightarrow>
          let before = pb_state p; after = sd_version candidate
          in if sd_base candidate \<noteq> before then Fail ErrStaleStateCandidate
             else if sv_number after \<noteq> sv_number before + 1 \<or> cp_StreamEpoch (sv_checkpoint after) \<noteq> cp_StreamEpoch (sv_checkpoint before) \<or>
                     rg_highWater (pb_ring p) \<noteq> cp_GEID (sv_checkpoint before) then Fail ErrInvalidPublication
             else outcome_bind (visibilityChanges before after (rq_VisibilityUserIDs request)) (\<lambda>(changes, epochs).
                  let after1 = apply_epochs epochs after
                  in outcome_bind (appendVisibilityTransitions js sha256 (rq_Events request) before after1 changes) (\<lambda>templates.
                     outcome_bind (materializeEvents js now templates (cp_GEID (sv_checkpoint before)) after1) (\<lambda>events.
                       let events1 = map (with_overrides before changes) events;
                           after2 = (if events1 \<noteq> [] then after1\<lparr>sv_checkpoint := (sv_checkpoint after1)\<lparr>cp_GEID := se_GEID (last events1)\<rparr>\<rparr> else after1)
                       in outcome_bind (ValidateAppend js (pb_ring p) events1) (\<lambda>_.
                            Return \<lparr>rs_Version = after2, rs_Checkpoint = sv_checkpoint after2, rs_Events = events1, rs_VisibilityChanges = changes\<rparr>)))))"

text \<open>Completing a reservation: \<open>canceled\<close> is the state of the context, \<open>commit\<close> the error of the staged coordinator transition.
  A failing append or fan-out is returned; the caller treats it as fatal.\<close>

definition publish :: "codec \<Rightarrow> tag_function \<Rightarrow> bool \<Rightarrow> stream_error option \<Rightarrow> StatePublication \<Rightarrow> PublicationResult \<Rightarrow> stream_error option \<times> StatePublication" where
  "publish js hmac canceled commit p result =
     (if canceled then (Some ErrCanceled, p)
      else case commit of Some e \<Rightarrow> (Some e, p)
        | None \<Rightarrow>
            (case appendLocked js (pb_ring p) (rs_Events result) of
               Return ring \<Rightarrow>
                 (let p1 = p\<lparr>pb_ring := ring, pb_state := rs_Version result\<rparr>
                  in case pb_eventBus p1 of None \<Rightarrow> (None, p1)
                     | Some bus \<Rightarrow>
                         (case fanout js hmac bus (rs_Version result) (rs_Events result) (rs_VisibilityChanges result) of
                            (Some e, _, bus') \<Rightarrow> (Some e, p1\<lparr>pb_eventBus := Some bus'\<rparr>)
                          | (None, slow, bus') \<Rightarrow> (None, p1\<lparr>pb_eventBus := Some (foldl DisconnectSlowConsumer bus' slow)\<rparr>)))
             | Fail e \<Rightarrow> (Some e, p) | Panic \<Rightarrow> (Some ErrInvalidPublication, p)))"

definition CommitPublication :: "codec \<Rightarrow> tag_function \<Rightarrow> digest_function \<Rightarrow> int64 \<Rightarrow> StatePublication \<Rightarrow> PublicationRequest
    \<Rightarrow> (stream_error option \<times> StatePublication) \<times> PublicationResult option" where
  "CommitPublication js hmac sha256 now p request =
     (case reserveLocked js sha256 now p request of
        Return result \<Rightarrow> (publish js hmac False (rq_CommitRuntime request) p result, Some result)
      | Fail e \<Rightarrow> ((Some e, p), None) | Panic \<Rightarrow> ((Some ErrInvalidPublication, p), None))"

section \<open>Theorems\<close>

subsection \<open>Fragments\<close>

definition fragment_ok :: "codec \<Rightarrow> SnapshotGroup \<Rightarrow> string list \<Rightarrow> string \<Rightarrow> bool" where
  "fragment_ok js grp part data \<longleftrightarrow> encodeGroup js grp part = Some data \<and> int (length data) \<le> maxVisibilityFragmentBytes"

lemma fragment_back:
  assumes "taken \<noteq> []" "length taken \<noteq> 1" "fragment_ok js grp (butlast taken) d" "encodeGroup js grp (butlast taken) = Some data"
  shows "butlast taken \<noteq> [] \<and> (\<exists>tail. butlast taken @ tail = taken @ rest) \<and> fragment_ok js grp (butlast taken) data"
  using assms by (cases taken rule: rev_cases) (auto simp: fragment_ok_def)

lemma fragment_scan_spec:
  assumes "fragment_scan js grp taken rest = Return (part, data)" "taken \<noteq> []"
    "length taken = 1 \<or> (\<exists>d. fragment_ok js grp (butlast taken) d)"
  shows "part \<noteq> [] \<and> (\<exists>tail. part @ tail = taken @ rest) \<and> fragment_ok js grp part data"
  using assms
proof (induction rest arbitrary: taken)
  case Nil
  obtain d where d: "encodeGroup js grp taken = Some d"
    using Nil.prems(1) by (cases "encodeGroup js grp taken") (auto simp: fragment_scan.simps [where rest = "[]"])
  show ?case
  proof (cases "int (length d) > maxVisibilityFragmentBytes")
    case True
    then have step: "length taken \<noteq> 1" "part = butlast taken" "encodeGroup js grp (butlast taken) = Some data"
      using Nil.prems(1) d by (auto simp: fragment_scan.simps [where rest = "[]"] split: if_splits option.splits)
    then obtain d' where "fragment_ok js grp (butlast taken) d'" using Nil.prems(3) by blast
    from fragment_back [OF Nil.prems(2) step(1) this step(3), of "[]"] show ?thesis using step(2) by simp
  next
    case False
    then show ?thesis using Nil.prems d by (auto simp: fragment_scan.simps [where rest = "[]"] fragment_ok_def)
  qed
next
  case (Cons r rs)
  obtain d where d: "encodeGroup js grp taken = Some d"
    using Cons.prems(1) by (cases "encodeGroup js grp taken") (auto simp: fragment_scan.simps [where rest = "r # rs"])
  show ?case
  proof (cases "int (length d) > maxVisibilityFragmentBytes")
    case True
    then have step: "length taken \<noteq> 1" "part = butlast taken" "encodeGroup js grp (butlast taken) = Some data"
      using Cons.prems(1) d by (auto simp: fragment_scan.simps [where rest = "r # rs"] split: if_splits option.splits)
    then obtain d' where "fragment_ok js grp (butlast taken) d'" using Cons.prems(3) by blast
    from fragment_back [OF Cons.prems(2) step(1) this step(3), of "r # rs"] show ?thesis using step(2) by simp
  next
    case False
    then have "fragment_scan js grp (taken @ [r]) rs = Return (part, data)" "fragment_ok js grp taken d"
      using Cons.prems(1) d by (auto simp: fragment_scan.simps [where rest = "r # rs"] fragment_ok_def)
    from Cons.IH [OF this(1)] this(2) show ?thesis by auto
  qed
qed

lemma split_parts_spec:
  "split_parts js grp ids = Return parts \<Longrightarrow> \<exists>chunks. concat chunks = ids \<and> list_all2 (fragment_ok js grp) chunks parts"
proof (induction js grp ids arbitrary: parts rule: split_parts.induct)
  case (1 js grp ids)
  show ?case
  proof (cases ids)
    case Nil
    then show ?thesis using 1(2) by (intro exI [of _ "[]"]) (simp add: split_parts.simps [of js grp "[]"])
  next
    case (Cons i rest)
    obtain part data parts' where step: "fragment_scan js grp [i] rest = Return (part, data)"
      "split_parts js grp (drop (length part) ids) = Return parts'" "parts = data # parts'"
      using 1(2) unfolding split_parts.simps [of js grp ids] by (auto simp: Cons split: outcome.splits)
    from fragment_scan_spec [OF step(1)] obtain tail where part: "part @ tail = ids" "fragment_ok js grp part data" using Cons by auto
    from 1(1) [OF Cons step(1) refl step(2)] obtain chunks where "concat chunks = drop (length part) ids" "list_all2 (fragment_ok js grp) chunks parts'" by blast
    then show ?thesis using part step(3) by (intro exI [of _ "part # chunks"]) auto
  qed
qed

text \<open>The fragments of a granted group are complete and bounded: the visible children are cut into consecutive parts that
  together are exactly the children in order, and each encoded part stays within 128 KiB.
\<close>

theorem fragments_cover_children:
  assumes "splitGroupFragment js grp ids = Return parts"
  shows "parts \<noteq> [] \<and> (\<exists>chunks. concat chunks = ids \<and>
    list_all2 (\<lambda>chunk part. encodeGroup js grp chunk = Some part \<and> int (length part) \<le> maxVisibilityFragmentBytes) chunks parts)"
proof (cases "ids = []")
  case True
  then show ?thesis using assms by (auto simp: splitGroupFragment_def split: option.splits if_splits intro!: exI [of _ "[[]]"])
next
  case False
  then have "split_parts js grp ids = Return parts" using assms by (simp add: splitGroupFragment_def)
  from split_parts_spec [OF this] obtain chunks where c: "concat chunks = ids" "list_all2 (fragment_ok js grp) chunks parts" by blast
  then show ?thesis using False by (auto simp: fragment_ok_def [abs_def])
qed

definition example_group :: SnapshotGroup where
  "example_group = \<lparr>sg_ID = ''10'', sg_Name = ''g'', sg_Position = 0, sg_Visibility = ''public'', sg_Version = ''1''\<rparr>"

theorem fragments_cover_children_witness:
  "\<exists>parts chunks. splitGroupFragment example_codec example_group [''20'', ''21''] = Return parts \<and> concat chunks = [''20'', ''21''] \<and> length parts = length chunks"
proof -
  have enc: "encodeGroup example_codec example_group ids = Some ''{}''" for ids by (simp add: encodeGroup_def example_codec_def)
  have "fragment_scan example_codec example_group [''20''] [''21''] = Return ([''20'', ''21''], ''{}'')"
    by (simp add: fragment_scan.simps [where rest = "[]"] fragment_scan.simps [where rest = "[''21'']"] enc maxVisibilityFragmentBytes_def)
  then have "splitGroupFragment example_codec example_group [''20'', ''21''] = Return [''{}'']"
    by (simp add: splitGroupFragment_def split_parts.simps [of _ _ "[''20'', ''21'']"] split_parts.simps [of _ _ "[]"])
  moreover from fragments_cover_children [OF this] obtain chunks where "concat chunks = [''20'', ''21'']" "length chunks = length [''{}'']"
    by (auto dest: list_all2_lengthD)
  ultimately show ?thesis by (intro exI [of _ "[''{}'']"] exI [of _ chunks]) simp
qed

subsection \<open>Coherence of the version and the ring\<close>

definition pub_ok :: "StatePublication \<Rightarrow> StateEvent list \<Rightarrow> bool" where
  "pub_ok p hist \<longleftrightarrow> ring_log (pb_ring p) hist \<and> rg_highWater (pb_ring p) = cp_GEID (sv_checkpoint (pb_state p))"

lemma concat_outcomes_Return:
  "concat_outcomes f xs = Return ys \<Longrightarrow> \<exists>yss. list_all2 (\<lambda>x y. f x = Return y) xs yss \<and> ys = concat yss"
proof (induction xs arbitrary: ys)
  case (Cons x xs)
  then obtain y zs where "f x = Return y" "concat_outcomes f xs = Return zs" "ys = y @ zs" by (auto simp: outcome_bind_Return)
  moreover from Cons.IH [OF this(2)] obtain yss where "list_all2 (\<lambda>x y. f x = Return y) xs yss" "zs = concat yss" by blast
  ultimately show ?case by (intro exI [of _ "y # yss"]) simp
qed simp

text \<open>What a materialized event takes from its template.\<close>

definition from_template :: "StateEventTemplate \<Rightarrow> StateEvent \<Rightarrow> bool" where
  "from_template t e \<longleftrightarrow> se_EventType e = tp_EventType t \<and> se_Scope e = tp_Scope t \<and> se_DeliveryPolicy e = tp_DeliveryPolicy t \<and>
     se_RecipientUserID e = tp_RecipientUserID t \<and> se_HasCursorVisibilityEpoch e = tp_HasCursorVisibilityEpoch t \<and>
     se_CursorVisibilityEpoch e = tp_CursorVisibilityEpoch t"

lemma stateEventFromTemplate_Return:
  "stateEventFromTemplate js t g now = Return e \<Longrightarrow> from_template t e \<and> se_GEID e = g"
  by (auto simp: stateEventFromTemplate_def normalizeStateEvent_def Let_def from_template_def split: if_splits option.splits)

lemma materialize_loop_Return:
  "materialize_loop js ts g now v = Return es \<Longrightarrow> list_all2 from_template ts es"
proof (induction js ts g now v arbitrary: es rule: materialize_loop.induct)
  case (2 js t ts geid now v)
  then obtain e es' where e: "stateEventFromTemplate js t (geid + 1) now = Return e" "materialize_loop js ts (geid + 1) now v = Return es'"
    "es = (if sint (tp_SubjectUserID t) > 0
           then (case UserOf v (tp_SubjectUserID t) of None \<Rightarrow> e
                 | Some user \<Rightarrow> e\<lparr>se_subjectState := Some \<lparr>ess_user = user, ess_presence = PresenceOf v (tp_SubjectUserID t)\<rparr>\<rparr>)
           else e) # es'"
    by (auto simp: outcome_bind_Return Let_def)
  have "list_all2 from_template ts es'" using 2(1) [OF refl e(2)] .
  moreover have "from_template t (e\<lparr>se_subjectState := x\<rparr>)" "from_template t e" for x
    using stateEventFromTemplate_Return [OF e(1)] by (auto simp: from_template_def)
  ultimately show ?case unfolding e(3) by (simp split: option.split)
qed simp

lemma reserveLocked_Return:
  assumes "reserveLocked js sha256 now p request = Return res"
  obtains candidate changes epochs templates events where "rq_Candidate request = Some candidate" "sd_base candidate = pb_state p"
    "sv_number (sd_version candidate) = sv_number (pb_state p) + 1"
    "cp_StreamEpoch (sv_checkpoint (sd_version candidate)) = cp_StreamEpoch (sv_checkpoint (pb_state p))"
    "visibilityChanges (pb_state p) (sd_version candidate) (rq_VisibilityUserIDs request) = Return (changes, epochs)"
    "appendVisibilityTransitions js sha256 (rq_Events request) (pb_state p) (apply_epochs epochs (sd_version candidate)) changes = Return templates"
    "materializeEvents js now templates (cp_GEID (sv_checkpoint (pb_state p))) (apply_epochs epochs (sd_version candidate)) = Return events"
    "rs_Events res = map (with_overrides (pb_state p) changes) events" "rs_VisibilityChanges res = changes"
    "rs_Version res = (if rs_Events res \<noteq> []
       then (apply_epochs epochs (sd_version candidate))\<lparr>sv_checkpoint := (sv_checkpoint (sd_version candidate))\<lparr>cp_GEID := se_GEID (last (rs_Events res))\<rparr>\<rparr>
       else apply_epochs epochs (sd_version candidate))"
    "ValidateAppend js (pb_ring p) (rs_Events res) = Return ()"
proof -
  obtain candidate where c: "rq_Candidate request = Some candidate"
    using assms by (cases "rq_Candidate request") (auto simp: reserveLocked_def)
  then have ok: "sd_base candidate = pb_state p" "sv_number (sd_version candidate) = sv_number (pb_state p) + 1"
    "cp_StreamEpoch (sv_checkpoint (sd_version candidate)) = cp_StreamEpoch (sv_checkpoint (pb_state p))"
    using assms by (auto simp: reserveLocked_def Let_def split: if_splits)
  have "outcome_bind (visibilityChanges (pb_state p) (sd_version candidate) (rq_VisibilityUserIDs request)) (\<lambda>(changes, epochs).
          let after1 = apply_epochs epochs (sd_version candidate)
          in outcome_bind (appendVisibilityTransitions js sha256 (rq_Events request) (pb_state p) after1 changes) (\<lambda>templates.
             outcome_bind (materializeEvents js now templates (cp_GEID (sv_checkpoint (pb_state p))) after1) (\<lambda>events.
               let events1 = map (with_overrides (pb_state p) changes) events;
                   after2 = (if events1 \<noteq> [] then after1\<lparr>sv_checkpoint := (sv_checkpoint after1)\<lparr>cp_GEID := se_GEID (last events1)\<rparr>\<rparr> else after1)
               in outcome_bind (ValidateAppend js (pb_ring p) events1) (\<lambda>_.
                    Return \<lparr>rs_Version = after2, rs_Checkpoint = sv_checkpoint after2, rs_Events = events1, rs_VisibilityChanges = changes\<rparr>)))) = Return res"
    using assms c by (auto simp: reserveLocked_def Let_def split: if_splits)
  then obtain changes epochs templates events where run:
    "visibilityChanges (pb_state p) (sd_version candidate) (rq_VisibilityUserIDs request) = Return (changes, epochs)"
    "appendVisibilityTransitions js sha256 (rq_Events request) (pb_state p) (apply_epochs epochs (sd_version candidate)) changes = Return templates"
    "materializeEvents js now templates (cp_GEID (sv_checkpoint (pb_state p))) (apply_epochs epochs (sd_version candidate)) = Return events"
    "ValidateAppend js (pb_ring p) (map (with_overrides (pb_state p) changes) events) = Return ()"
    "res = (let events1 = map (with_overrides (pb_state p) changes) events; after1 = apply_epochs epochs (sd_version candidate);
                after2 = (if events1 \<noteq> [] then after1\<lparr>sv_checkpoint := (sv_checkpoint after1)\<lparr>cp_GEID := se_GEID (last events1)\<rparr>\<rparr> else after1)
            in \<lparr>rs_Version = after2, rs_Checkpoint = sv_checkpoint after2, rs_Events = events1, rs_VisibilityChanges = changes\<rparr>)"
    by (auto simp: outcome_bind_Return Let_def)
  show thesis
    by (rule that [OF c ok run(1-3)]) (use run(4) in \<open>simp_all add: run(5) Let_def apply_epochs_def\<close>)
qed

end
