(* ===== verification/Commit.thy ===== *)
theory Commit
  imports Publication
begin

text \<open>
  What a commit of \<^verbatim>\<open>internal/realtime/publication.go\<close> leaves behind: the version and the ring stay coherent on every
  outcome, and the events of a visibility change end with the one that proves its completion.
\<close>

section \<open>Theorems\<close>

subsection \<open>Which users change\<close>

lemma visibility_loop_spec:
  "visibility_loop before after us changes epochs = Return (changes', epochs') \<Longrightarrow>
   fmlookup changes' u = (if u \<in> set us \<and> Changed (DiffScopes u before after) then Some (DiffScopes u before after) else fmlookup changes u) \<and>
   fmlookup epochs' u = (if u \<in> set us \<and> Changed (DiffScopes u before after) then Some (VisibilityEpoch before u + 1) else fmlookup epochs u)"
  by (induction before after us changes epochs rule: visibility_loop.induct) (auto simp: Let_def VisibilityEpoch_def split: if_splits)

lemma set_sortedUniqueUserIDs [simp]: "set (sortedUniqueUserIDs us) = set us"
  by (simp add: sortedUniqueUserIDs_def)

lemma visibilityChanges_spec:
  "visibilityChanges before after us = Return (changes, epochs) \<Longrightarrow>
   fmlookup changes u = (if u \<in> set us \<and> Changed (DiffScopes u before after) then Some (DiffScopes u before after) else None) \<and>
   fmlookup epochs u = (if u \<in> set us \<and> Changed (DiffScopes u before after) then Some (VisibilityEpoch before u + 1) else None)"
  unfolding visibilityChanges_def by (drule visibility_loop_spec [of _ _ _ _ _ _ _ u]) simp

lemma apply_epochs_simps [simp]:
  "sv_number (apply_epochs epochs v) = sv_number v" "sv_checkpoint (apply_epochs epochs v) = sv_checkpoint v"
  "sv_persistent (apply_epochs epochs v) = sv_persistent v"
  "VisibilityEpoch (apply_epochs epochs v) u = (case fmlookup epochs u of None \<Rightarrow> VisibilityEpoch v u | Some n \<Rightarrow> n)"
  by (auto simp: apply_epochs_def VisibilityEpoch_def count_at_def split: option.split)

subsection \<open>Materialized events are already normal\<close>

text \<open>The checks of \<open>normalizeStateEvent\<close> that do not look at the payload.\<close>

definition refused :: "StateEvent \<Rightarrow> bool" where
  "refused e \<longleftrightarrow> se_GEID e = 0 \<or> se_EventType e = [] \<or> \<not> ScopeValid (se_Scope e) \<or> sint (se_CausationID e) < 0 \<or> se_DeliveryPolicy e = StateDeliveryControl \<or>
     (if se_DeliveryPolicy e = StateDeliveryVisibleBefore then \<not> tombstoneEvent (se_EventType e) \<or> \<not> ascendingUserIDs (se_VisibleBeforeUserIDs e)
      else se_VisibleBeforeUserIDs e \<noteq> []) \<or>
     (se_DeliveryPolicy e = StateDeliveryDirectTransition \<or> se_DeliveryPolicy e = StateDeliveryUserTargeted) \<and> sint (se_RecipientUserID e) \<le> 0 \<or>
     se_DeliveryPolicy e = StateDeliveryDirectTransition \<and> \<not> isVisibilityTransitionEvent (se_EventType e) \<or> sint (se_SubjectUserID e) < 0"

definition payload_of :: "StateEvent \<Rightarrow> string" where
  "payload_of e = (case se_Data e of None \<Rightarrow> ''null'' | Some d \<Rightarrow> d)"

lemma normalize_eq:
  "normalizeStateEvent js e =
     (if refused e \<or> \<not> js_valid js (payload_of e) then Fail ErrInvalidStateEvent
      else case js_marshal js (WEvent (stateEventEnvelopeFromEventWithData e (payload_of e) [])) of None \<Rightarrow> Fail ErrEncode
        | Some encoded \<Rightarrow> Return (e\<lparr>se_Data := Some (payload_of e), se_encoded := encoded\<rparr>))"
proof -
  have env: "stateEventEnvelopeFromEvent (e\<lparr>se_Data := Some (payload_of e)\<rparr>) [] = stateEventEnvelopeFromEventWithData e (payload_of e) []"
    by (simp add: stateEventEnvelopeFromEvent_def stateEventEnvelopeFromEventWithData_def data_text_def)
  have merge: "(if a then x else if b then x else y) = (if a \<or> b then x else y)" for a b and x y :: "(stream_error, StateEvent) outcome" by simp
  show ?thesis
    unfolding normalizeStateEvent_def Let_def payload_of_def [symmetric] env refused_def by (simp only: merge disj_assoc)
qed

lemma refused_upd [simp]:
  "refused (e\<lparr>se_Data := d\<rparr>) = refused e" "refused (e\<lparr>se_encoded := c\<rparr>) = refused e"
  "refused (e\<lparr>se_subjectState := a\<rparr>) = refused e" "refused (e\<lparr>se_cursorVisibilityEpochs := b\<rparr>) = refused e"
  by (simp_all add: refused_def)

lemma envelope_upd [simp]:
  "stateEventEnvelopeFromEventWithData (e\<lparr>se_Data := d\<rparr>) = stateEventEnvelopeFromEventWithData e"
  "stateEventEnvelopeFromEventWithData (e\<lparr>se_encoded := c\<rparr>) = stateEventEnvelopeFromEventWithData e"
  "stateEventEnvelopeFromEventWithData (e\<lparr>se_subjectState := a\<rparr>) = stateEventEnvelopeFromEventWithData e"
  "stateEventEnvelopeFromEventWithData (e\<lparr>se_cursorVisibilityEpochs := b\<rparr>) = stateEventEnvelopeFromEventWithData e"
  by (simp_all add: stateEventEnvelopeFromEventWithData_def [abs_def])

lemma normalize_again:
  assumes "normalizeStateEvent js x = Return e"
  shows "normalizeStateEvent js (e\<lparr>se_subjectState := a, se_cursorVisibilityEpochs := b\<rparr>) = Return (e\<lparr>se_subjectState := a, se_cursorVisibilityEpochs := b\<rparr>)"
proof -
  obtain c where "\<not> refused x" "js_valid js (payload_of x)"
    "js_marshal js (WEvent (stateEventEnvelopeFromEventWithData x (payload_of x) [])) = Some c" "e = x\<lparr>se_Data := Some (payload_of x), se_encoded := c\<rparr>"
    using assms by (auto simp: normalize_eq split: if_splits option.splits)
  then show ?thesis by (simp add: normalize_eq payload_of_def)
qed

definition settled :: "codec \<Rightarrow> StateEvent \<Rightarrow> bool" where
  "settled js e \<longleftrightarrow> (\<forall>b. normalizeStateEvent js (e\<lparr>se_cursorVisibilityEpochs := b\<rparr>) = Return (e\<lparr>se_cursorVisibilityEpochs := b\<rparr>))"

lemma settled_from_template:
  assumes "stateEventFromTemplate js t g now = Return e"
  shows "settled js e" "settled js (e\<lparr>se_subjectState := a\<rparr>)"
proof -
  have e: "normalizeStateEvent js (e\<lparr>se_subjectState := a, se_cursorVisibilityEpochs := b\<rparr>) = Return (e\<lparr>se_subjectState := a, se_cursorVisibilityEpochs := b\<rparr>)" for a b
    by (rule normalize_again [OF assms [unfolded stateEventFromTemplate_def]])
  show "settled js (e\<lparr>se_subjectState := a\<rparr>)" using e by (simp add: settled_def)
  show "settled js e" using e [where a = "se_subjectState e"] by (simp add: settled_def)
qed

lemma materialize_settled: "materialize_loop js ts g now v = Return es \<Longrightarrow> \<forall>e \<in> set es. settled js e"
proof (induction js ts g now v arbitrary: es rule: materialize_loop.induct)
  case (2 js t ts geid now v)
  then obtain e es' where e: "stateEventFromTemplate js t (geid + 1) now = Return e" "materialize_loop js ts (geid + 1) now v = Return es'"
    "es = (if sint (tp_SubjectUserID t) > 0
           then (case UserOf v (tp_SubjectUserID t) of None \<Rightarrow> e
                 | Some user \<Rightarrow> e\<lparr>se_subjectState := Some \<lparr>ess_user = user, ess_presence = PresenceOf v (tp_SubjectUserID t)\<rparr>\<rparr>)
           else e) # es'"
    by (auto simp: outcome_bind_Return Let_def)
  have "\<forall>e \<in> set es'. settled js e" using 2(1) [OF refl e(2)] .
  then show ?case unfolding e(3) using settled_from_template [OF e(1)] by (auto split: option.split)
qed simp

lemma settled_overrides: "settled js e \<Longrightarrow> normalizeStateEvent js (with_overrides before changes e) = Return (with_overrides before changes e)"
  using spec [of "\<lambda>b. normalizeStateEvent js (e\<lparr>se_cursorVisibilityEpochs := b\<rparr>) = Return (e\<lparr>se_cursorVisibilityEpochs := b\<rparr>)" "se_cursorVisibilityEpochs e"]
  by (auto simp: settled_def with_overrides_def)

lemma validate_settled:
  "\<lbrakk>validate_batch js maxBytes k es = Return ps; \<forall>e \<in> set es. normalizeStateEvent js e = Return e\<rbrakk> \<Longrightarrow> ps = es"
  by (induction js maxBytes k es arbitrary: ps rule: validate_batch.induct) (auto simp: outcome_bind_Return split: if_splits)

subsection \<open>Coherence of the version and the ring\<close>

text \<open>What a successful reservation promises.\<close>

definition reserved :: "StatePublication \<Rightarrow> PublicationRequest \<Rightarrow> PublicationResult \<Rightarrow> bool" where
  "reserved p request res \<longleftrightarrow>
     (\<exists>candidate. rq_Candidate request = Some candidate \<and> sd_base candidate = pb_state p \<and>
        sv_persistent (rs_Version res) = sv_persistent (sd_version candidate) \<and>
        (\<forall>u. VisibilityEpoch (rs_Version res) u =
           (if u \<in> set (rq_VisibilityUserIDs request) \<and> Changed (DiffScopes u (pb_state p) (sd_version candidate))
            then VisibilityEpoch (pb_state p) u + 1 else VisibilityEpoch (sd_version candidate) u))) \<and>
     sv_number (rs_Version res) = sv_number (pb_state p) + 1 \<and>
     cp_StreamEpoch (sv_checkpoint (rs_Version res)) = cp_StreamEpoch (sv_checkpoint (pb_state p))"

lemma VisibilityEpoch_checkpoint [simp]: "VisibilityEpoch (v\<lparr>sv_checkpoint := c\<rparr>) u = VisibilityEpoch v u"
  by (simp add: VisibilityEpoch_def)

lemma reserve_reserved:
  assumes "reserveLocked js sha256 now p request = Return res"
  shows "reserved p request res"
proof -
  from assms obtain candidate changes epochs templates events where
    r: "rq_Candidate request = Some candidate" "sd_base candidate = pb_state p" "sv_number (sd_version candidate) = sv_number (pb_state p) + 1"
      "cp_StreamEpoch (sv_checkpoint (sd_version candidate)) = cp_StreamEpoch (sv_checkpoint (pb_state p))"
    and v: "visibilityChanges (pb_state p) (sd_version candidate) (rq_VisibilityUserIDs request) = Return (changes, epochs)"
    and w: "rs_Version res = (if rs_Events res \<noteq> []
       then (apply_epochs epochs (sd_version candidate))\<lparr>sv_checkpoint := (sv_checkpoint (sd_version candidate))\<lparr>cp_GEID := se_GEID (last (rs_Events res))\<rparr>\<rparr>
       else apply_epochs epochs (sd_version candidate))"
    by (rule reserveLocked_Return)
  then show ?thesis using visibilityChanges_spec [OF v] by (auto simp: reserved_def)
qed

lemma reserve_append:
  assumes ok: "pub_ok p hist" and res: "reserveLocked js sha256 now p request = Return res"
    and base: "\<And>candidate. rq_Candidate request = Some candidate \<Longrightarrow> sv_checkpoint (sd_version candidate) = sv_checkpoint (pb_state p)"
  shows "\<exists>r. appendLocked js (pb_ring p) (rs_Events res) = Return r \<and> ring_log r (hist @ rs_Events res) \<and> rg_highWater r = cp_GEID (sv_checkpoint (rs_Version res))"
proof -
  from res obtain candidate changes epochs templates events where
    c: "rq_Candidate request = Some candidate" and
    m: "materializeEvents js now templates (cp_GEID (sv_checkpoint (pb_state p))) (apply_epochs epochs (sd_version candidate)) = Return events"
    and e: "rs_Events res = map (with_overrides (pb_state p) changes) events"
    and w: "rs_Version res = (if rs_Events res \<noteq> []
       then (apply_epochs epochs (sd_version candidate))\<lparr>sv_checkpoint := (sv_checkpoint (sd_version candidate))\<lparr>cp_GEID := se_GEID (last (rs_Events res))\<rparr>\<rparr>
       else apply_epochs epochs (sd_version candidate))"
    and val: "ValidateAppend js (pb_ring p) (rs_Events res) = Return ()"
    by (rule reserveLocked_Return)
  obtain ps where ps: "validateAppendLocked js (pb_ring p) (rs_Events res) = Return ps"
    using val by (auto simp: ValidateAppend_def outcome_bind_Return)
  have "\<forall>e \<in> set (rs_Events res). normalizeStateEvent js e = Return e"
    using materialize_settled [OF m [unfolded materializeEvents_def]] settled_overrides by (auto simp: e)
  then have "ps = rs_Events res" using ps validate_settled by (auto simp: validateAppendLocked_def)
  moreover from ok have "ring_log (pb_ring p) hist" by (simp add: pub_ok_def)
  ultimately obtain r where r: "appendLocked js (pb_ring p) (rs_Events res) = Return r" "ring_log r (hist @ rs_Events res)"
    using append_log ps by blast
  have last: "unat (se_GEID (last (rs_Events res))) = length (hist @ rs_Events res)" if "rs_Events res \<noteq> []"
    using r(2) that numbered_snoc [of "hist @ butlast (rs_Events res)" "last (rs_Events res)"] by (simp add: ring_log_def append_butlast_last_id)
  have "rg_highWater r = cp_GEID (sv_checkpoint (rs_Version res))"
  proof (cases "rs_Events res = []")
    case True
    then have "r = pb_ring p" using r(1) by (simp add: appendLocked_def validateAppendLocked_def)
    then show ?thesis using True w ok base c by (simp add: pub_ok_def)
  next
    case False
    then have "unat (rg_highWater r) = unat (se_GEID (last (rs_Events res)))" using last r(2) by (simp add: ring_log_def)
    then show ?thesis using False w by (simp add: word_unat_eq_iff)
  qed
  with r show ?thesis by blast
qed

text \<open>The candidates services commit: built from a published version and changed only by the candidate operations.\<close>

inductive built :: "StateVersion \<Rightarrow> StateCandidate \<Rightarrow> bool" for base where
  runtime: "built base (BuildRuntimeCandidate base)"
| persistent: "BuildPersistentCandidateFrom base loaded = Return c \<Longrightarrow> built base c"
| change: "\<lbrakk>built base c; candidate_step c c'\<rbrakk> \<Longrightarrow> built base c'"

definition version_ok :: "StateVersion \<Rightarrow> bool" where
  "version_ok v \<longleftrightarrow> persistent_ok (sv_persistent v) \<and> runtime_ok (sv_runtime v)"

lemma built_ok:
  "built base c \<Longrightarrow> sd_base c = base \<and> sv_checkpoint (sd_version c) = sv_checkpoint base \<and>
     (version_ok base \<longrightarrow> version_ok (sd_version c)) \<and> rt_visibilityEpochs (sv_runtime (sd_version c)) = rt_visibilityEpochs (sv_runtime base)"
proof (induction rule: built.induct)
  case (persistent loaded c)
  then obtain projection ps where "newPersistentState projection = Return ps" "sd_base c = base" "sv_checkpoint (sd_version c) = sv_checkpoint base"
    "sv_persistent (sd_version c) = ps" "rt_voiceAuthorities (sv_runtime (sd_version c)) = rt_voiceAuthorities (sv_runtime base)"
    "rt_voiceByChannel (sv_runtime (sd_version c)) = rt_voiceByChannel (sv_runtime base)"
    "rt_visibilityEpochs (sv_runtime (sd_version c)) = rt_visibilityEpochs (sv_runtime base)"
    by (auto simp: BuildPersistentCandidateFrom_def Let_def outcome_bind_Return split: option.splits)
  then show ?case using newPersistentState_ok runtime_ok_frame by (auto simp: version_ok_def)
next
  case (change c c')
  then show ?case using candidate_step_ok [OF change.hyps(2)] by (auto simp: same_frame_def version_ok_def)
qed (simp add: BuildRuntimeCandidate_def version_ok_def)

text \<open>What a commit adds to the log.\<close>

definition committed :: "PublicationRequest \<Rightarrow> PublicationResult option \<Rightarrow> StateEvent list" where
  "committed request result = (case result of None \<Rightarrow> [] | Some res \<Rightarrow> if rq_CommitRuntime request = None then rs_Events res else [])"

lemma publish_appended:
  assumes "appendLocked js (pb_ring p) (rs_Events res) = Return r"
  shows "\<exists>err bus. publish js hmac False commit p res =
    (if commit = None then (err, p\<lparr>pb_ring := r, pb_state := rs_Version res, pb_eventBus := bus\<rparr>) else (commit, p)) \<and>
    (pb_eventBus p = None \<longrightarrow> err = None)"
proof (cases commit)
  case None
  show ?thesis
  proof (cases "pb_eventBus p")
    case None
    then show ?thesis using assms \<open>commit = None\<close> by (auto simp: publish_def intro: exI [of _ "None"])
  next
    case (Some bus)
    obtain e slow bus' where "fanout js hmac bus (rs_Version res) (rs_Events res) (rs_VisibilityChanges res) = (e, slow, bus')"
      by (metis prod_cases3)
    then show ?thesis using assms \<open>commit = None\<close> Some by (cases e) (auto simp: publish_def)
  qed
qed (simp add: publish_def)

lemma commit_outcomes:
  assumes ok: "pub_ok p hist" and c: "built base candidate" "rq_Candidate request = Some candidate"
    and run: "CommitPublication js hmac sha256 now p request = ((err, p'), result)"
  shows "pub_ok p' (hist @ committed request result) \<and>
    (case result of
       None \<Rightarrow> err \<noteq> None \<and> p' = p
     | Some res \<Rightarrow> reserved p request res \<and>
         (if rq_CommitRuntime request = None then pb_state p' = rs_Version res \<and> (pb_eventBus p = None \<longrightarrow> err = None)
          else err = rq_CommitRuntime request \<and> p' = p))"
proof (cases "reserveLocked js sha256 now p request")
  case (Return res)
  then have "sd_base candidate = pb_state p" using reserve_reserved [OF Return] c(2) by (auto simp: reserved_def)
  then have "sv_checkpoint (sd_version candidate) = sv_checkpoint (pb_state p)" using built_ok [OF c(1)] by auto
  with reserve_append [OF ok Return] c(2) obtain r where
    r: "appendLocked js (pb_ring p) (rs_Events res) = Return r" "ring_log r (hist @ rs_Events res)" "rg_highWater r = cp_GEID (sv_checkpoint (rs_Version res))"
    by auto
  from publish_appended [OF r(1), of hmac "rq_CommitRuntime request"] obtain e bus where
    pub: "publish js hmac False (rq_CommitRuntime request) p res =
      (if rq_CommitRuntime request = None then (e, p\<lparr>pb_ring := r, pb_state := rs_Version res, pb_eventBus := bus\<rparr>) else (rq_CommitRuntime request, p))"
    "pb_eventBus p = None \<longrightarrow> e = None" by metis
  have "((err, p'), result) = (publish js hmac False (rq_CommitRuntime request) p res, Some res)" using run Return by (simp add: CommitPublication_def)
  then have "(err, p') = publish js hmac False (rq_CommitRuntime request) p res" "result = Some res" by simp_all
  then show ?thesis using pub r reserve_reserved [OF Return] ok by (auto simp: committed_def pub_ok_def split: if_splits)
qed (use run ok in \<open>auto simp: CommitPublication_def committed_def\<close>)

text \<open>The life of the state layer: it starts from a loaded projection and an empty ring, an event bus may be bound at any time,
  and services commit candidates built from any version they once read.\<close>

inductive state_run :: "codec \<Rightarrow> tag_function \<Rightarrow> digest_function \<Rightarrow> string \<Rightarrow> StatePublication \<Rightarrow> StateEvent list \<Rightarrow> bool" for js hmac sha256 epoch where
  start: "\<lbrakk>NewStateStoreWithEpoch loaded epoch = Return v; NewStateRing = Return r; NewStatePublication v r = Return p\<rbrakk> \<Longrightarrow> state_run js hmac sha256 epoch p []"
| bind_bus: "state_run js hmac sha256 epoch p hist \<Longrightarrow> state_run js hmac sha256 epoch (p\<lparr>pb_eventBus := Some bus\<rparr>) hist"
| commit: "\<lbrakk>state_run js hmac sha256 epoch p hist; built base candidate; rq_Candidate request = Some candidate;
     CommitPublication js hmac sha256 now p request = ((err, p'), result)\<rbrakk> \<Longrightarrow> state_run js hmac sha256 epoch p' (hist @ committed request result)"

lemma version_ok_runtime: "version_ok v \<Longrightarrow> version_ok (apply_epochs epochs v)" "version_ok v \<Longrightarrow> version_ok (v\<lparr>sv_checkpoint := c\<rparr>)"
  by (auto simp: version_ok_def apply_epochs_def intro: runtime_ok_frame)

lemma reserve_version_ok:
  assumes "reserveLocked js sha256 now p request = Return res" "rq_Candidate request = Some candidate" "version_ok (sd_version candidate)"
  shows "version_ok (rs_Version res)"
proof -
  from assms(1) obtain c changes epochs templates events where "rq_Candidate request = Some c"
    and w: "rs_Version res = (if rs_Events res \<noteq> []
       then (apply_epochs epochs (sd_version c))\<lparr>sv_checkpoint := (sv_checkpoint (sd_version c))\<lparr>cp_GEID := se_GEID (last (rs_Events res))\<rparr>\<rparr>
       else apply_epochs epochs (sd_version c))"
    by (rule reserveLocked_Return)
  then show ?thesis using assms version_ok_runtime by simp
qed

lemma commit_version_ok:
  assumes "version_ok (pb_state p)" "built base candidate" "rq_Candidate request = Some candidate" "pub_ok p hist"
    and run: "CommitPublication js hmac sha256 now p request = ((err, p'), result)"
  shows "version_ok (pb_state p')"
proof (cases result)
  case None
  then show ?thesis using commit_outcomes [OF assms(4,2,3) run] assms(1) by simp
next
  case (Some res)
  then have res: "reserveLocked js sha256 now p request = Return res" using run by (auto simp: CommitPublication_def split: outcome.splits)
  have "sd_base candidate = pb_state p" using reserve_reserved [OF res] assms(3) by (auto simp: reserved_def)
  then have "version_ok (sd_version candidate)" using built_ok [OF assms(2)] assms(1) by auto
  from reserve_version_ok [OF res assms(3) this] show ?thesis using commit_outcomes [OF assms(4,2,3) run] Some assms(1) by (auto split: if_splits)
qed

lemma commit_epoch:
  assumes "pub_ok p hist" "built base candidate" "rq_Candidate request = Some candidate"
    and "CommitPublication js hmac sha256 now p request = ((err, p'), result)"
  shows "cp_StreamEpoch (sv_checkpoint (pb_state p')) = cp_StreamEpoch (sv_checkpoint (pb_state p))"
  using commit_outcomes [OF assms] by (auto simp: reserved_def split: option.splits if_splits)

lemma start_version:
  assumes "NewStateStoreWithEpoch loaded epoch = Return v"
  shows "version_ok v \<and> sv_checkpoint v = \<lparr>cp_StreamEpoch = epoch, cp_GEID = 0\<rparr> \<and> sv_number v = 0"
proof -
  from assms obtain projection ps where "newPersistentState projection = Return ps"
    "v = \<lparr>sv_number = 0, sv_checkpoint = \<lparr>cp_StreamEpoch = epoch, cp_GEID = 0\<rparr>, sv_persistent = ps, sv_runtime = emptyRuntime\<rparr>"
    by (auto simp: NewStateStoreWithEpoch_def outcome_bind_Return split: option.splits)
  moreover have "runtime_ok emptyRuntime" by (simp add: runtime_ok_def emptyRuntime_def)
  ultimately show ?thesis using newPersistentState_ok by (auto simp: version_ok_def)
qed

lemma start_pub_ok:
  assumes "NewStateRing = Return r" "NewStatePublication v r = Return p"
  shows "pub_ok p [] \<and> pb_state p = v"
proof -
  have "ring_reach js MaxStateRingEntries MaxStateRingBytes r []" for js
    using assms(1) by (intro ring_reach.start) (auto simp: NewStateRing_def split: outcome.splits)
  then have "ring_log r []" using ring_reach_log by blast
  then show ?thesis using assms(2) by (auto simp: NewStatePublication_def pub_ok_def split: if_splits)
qed

text \<open>C3. The published state is always well formed and in step with the ring: from start-up on, whatever candidates are committed and
  whichever commits fail, the current version has consistent keys and mute index, its voice index by channel lists exactly the voice
  authorities in user order, its stream epoch is the one the process started with, and its checkpoint is the number of the last
  event appended to the ring, which holds the newest part of the log of all committed events.\<close>

theorem published_state_invariant:
  assumes "state_run js hmac sha256 epoch p hist"
  shows "persistent_ok (sv_persistent (pb_state p)) \<and> runtime_ok (sv_runtime (pb_state p)) \<and>
    cp_StreamEpoch (sv_checkpoint (pb_state p)) = epoch \<and> ring_log (pb_ring p) hist \<and>
    unat (cp_GEID (sv_checkpoint (pb_state p))) = length hist"
proof -
  have "version_ok (pb_state p) \<and> cp_StreamEpoch (sv_checkpoint (pb_state p)) = epoch \<and> pub_ok p hist"
    using assms
  proof (induction rule: state_run.induct)
    case (start loaded v r p)
    then show ?case using start_version start_pub_ok by fastforce
  next
    case (commit p hist base candidate request now err p' result)
    then show ?case
      using commit_version_ok [OF _ commit.hyps(2,3) _ commit.hyps(4)] commit_epoch [OF _ commit.hyps(2-4)] commit_outcomes [OF _ commit.hyps(2-4)] by auto
  qed (simp add: pub_ok_def)
  then show ?thesis by (auto simp: version_ok_def pub_ok_def ring_log_def)
qed

subsection \<open>The events of a visibility change\<close>

text \<open>A transition event of one user.\<close>

definition transition_for :: "int64 \<Rightarrow> uint64 \<Rightarrow> StateEventTemplate \<Rightarrow> bool" where
  "transition_for u epoch t \<longleftrightarrow> tp_DeliveryPolicy t = StateDeliveryDirectTransition \<and> tp_RecipientUserID t = u \<and> tp_HasCursorVisibilityEpoch t \<and>
     tp_CursorVisibilityEpoch t = epoch"

lemma transition_for_direct [simp]: "transition_for u epoch (directTransitionTemplate eventType scope u epoch causationID data)"
  by (simp add: transition_for_def directTransitionTemplate_def)

lemma fragment_templates_for:
  "fragment_templates js fid scope u epoch causationID n i frags = Return ts \<Longrightarrow> \<forall>t \<in> set ts. transition_for u epoch t"
  by (induction js fid scope u epoch causationID n i frags arbitrary: ts rule: fragment_templates.induct)
     (auto simp: outcome_bind_Return split: option.splits if_splits)

lemma concat_outcomes_all:
  "\<lbrakk>concat_outcomes f xs = Return ys; \<And>x zs. f x = Return zs \<Longrightarrow> \<forall>z \<in> set zs. P z\<rbrakk> \<Longrightarrow> \<forall>y \<in> set ys. P y"
  by (induction xs arbitrary: ys) (fastforce simp: outcome_bind_Return)+

lemma user_transition_shape:
  assumes "user_transition js sha256 before after changes causationID u = Return ts"
  shows "\<exists>xs c. ts = xs @ [c] \<and> (\<forall>t \<in> set xs. transition_for u (VisibilityEpoch before u) t) \<and>
    transition_for u (VisibilityEpoch after u) c \<and> tp_EventType c = ''visibility.transition.complete''"
proof -
  let ?old = "VisibilityEpoch before u" and ?new = "VisibilityEpoch after u" and ?change = "change_of changes u"
  obtain rs gs c where ts: "concat_outcomes (revoked_templates js u ?old causationID) (vc_Revoked ?change) = Return rs"
    "concat_outcomes (granted_templates js after u ?old causationID) (vc_Granted ?change) = Return gs"
    "complete_template js sha256 u ?new causationID ?change = Return c" "ts = (rs @ gs) @ [c]"
    using assms by (auto simp: user_transition_def Let_def outcome_bind_Return)
  have "\<forall>t \<in> set rs. transition_for u ?old t"
    by (rule concat_outcomes_all [OF ts(1)]) (auto simp: revoked_templates_def outcome_bind_Return)
  moreover have "\<forall>t \<in> set gs. transition_for u ?old t"
    by (rule concat_outcomes_all [OF ts(2)]) (auto simp: granted_templates_def outcome_bind_Return dest!: fragment_templates_for)
  moreover have "transition_for u ?new c \<and> tp_EventType c = ''visibility.transition.complete''"
    using ts(3) by (auto simp: complete_template_def directTransitionTemplate_def transition_for_def split: option.splits)
  ultimately show ?thesis unfolding ts(4) by (intro exI [of _ "rs @ gs"] exI [of _ c]) auto
qed

text \<open>The templates of a publication that changes user \<open>u\<close>: everything after the completion of \<open>u\<close> is for other users.\<close>

lemma transitions_split:
  assumes "appendVisibilityTransitions js sha256 ts before after changes = Return templates" "u |\<in>| fmdom changes"
  shows "\<exists>pre xs c post. templates = ts @ pre @ xs @ [c] @ post \<and>
    (\<forall>t \<in> set (pre @ post). \<exists>w epoch. w \<noteq> u \<and> transition_for w epoch t) \<and> (\<forall>t \<in> set xs. transition_for u (VisibilityEpoch before u) t) \<and>
    transition_for u (VisibilityEpoch after u) c \<and> tp_EventType c = ''visibility.transition.complete''"
proof -
  obtain causationID zs where zs: "concat_outcomes (user_transition js sha256 before after changes causationID) (sortedIntKeys changes) = Return zs"
    "templates = ts @ zs"
    using assms(1) by (auto simp: appendVisibilityTransitions_def Let_def outcome_bind_Return)
  obtain before_u after_u where keys: "sortedIntKeys changes = before_u @ u # after_u" "u \<notin> set before_u" "u \<notin> set after_u"
    using assms(2) distinct_sortedIntKeys [of changes] split_list [of u "sortedIntKeys changes"] by fastforce
  obtain yss where yss: "list_all2 (\<lambda>w y. user_transition js sha256 before after changes causationID w = Return y) (sortedIntKeys changes) yss" "zs = concat yss"
    using concat_outcomes_Return [OF zs(1)] by blast
  then obtain ps us qs where parts: "yss = ps @ us # qs"
    "list_all2 (\<lambda>w y. user_transition js sha256 before after changes causationID w = Return y) before_u ps"
    "user_transition js sha256 before after changes causationID u = Return us"
    "list_all2 (\<lambda>w y. user_transition js sha256 before after changes causationID w = Return y) after_u qs"
    unfolding keys(1) by (auto simp: list_all2_append1 list_all2_Cons1)
  have other: "\<exists>w epoch. w \<noteq> u \<and> transition_for w epoch t"
    if l: "list_all2 (\<lambda>w y. user_transition js sha256 before after changes causationID w = Return y) ws rows" "u \<notin> set ws" "t \<in> set (concat rows)" for ws rows t
  proof -
    obtain row where row: "row \<in> set rows" "t \<in> set row" using l(3) by auto
    from list_all2_right [OF l(1) row(1)] obtain w where w: "w \<in> set ws" "user_transition js sha256 before after changes causationID w = Return row" by blast
    have "\<exists>epoch. transition_for w epoch t" using user_transition_shape [OF w(2)] row(2) by (elim exE conjE) (auto intro: exI [of _ "VisibilityEpoch before w"] exI [of _ "VisibilityEpoch after w"])
    then show ?thesis using w(1) l(2) by metis
  qed
  obtain xs c where u: "us = xs @ [c]" "\<forall>t \<in> set xs. transition_for u (VisibilityEpoch before u) t" "transition_for u (VisibilityEpoch after u) c"
    "tp_EventType c = ''visibility.transition.complete''"
    using user_transition_shape [OF parts(3)] by blast
  have "templates = ts @ concat ps @ xs @ [c] @ concat qs" using zs(2) yss(2) parts(1) u(1) by simp
  moreover have "\<forall>t \<in> set (concat ps @ concat qs). \<exists>w epoch. w \<noteq> u \<and> transition_for w epoch t"
    using other [OF parts(2) keys(2)] other [OF parts(4) keys(3)] by (simp only: set_append ball_Un) blast
  ultimately show ?thesis using u by blast
qed

text \<open>The cursor epoch an event carries for a user the publication changes.\<close>

lemma override_epoch:
  assumes "u |\<in>| fmdom changes" "\<not> se_HasCursorVisibilityEpoch e"
  shows "cursorEpochForEvent (with_overrides before changes e) u v = VisibilityEpoch before u"
proof -
  obtain xs ys where keys: "sortedIntKeys changes = xs @ u # ys" using assms(1) split_list [of u "sortedIntKeys changes"] by auto
  have "\<forall>x \<in> set xs. sint x < sint u" using sorted_sortedIntKeys [of changes] unfolding keys by (auto simp: sorted_wrt_append)
  then have drop: "dropWhile (\<lambda>(w, _). \<not> sint w \<ge> sint u) (map (\<lambda>w. (w, VisibilityEpoch before w)) (sortedIntKeys changes)) =
      (u, VisibilityEpoch before u) # map (\<lambda>w. (w, VisibilityEpoch before w)) ys"
    unfolding keys by (subst map_append, subst dropWhile_append2) auto
  have "changes \<noteq> fmempty" using assms(1) by auto
  then show ?thesis using assms(2) drop by (simp add: with_overrides_def cursorEpochForEvent_def)
qed

lemma override_keeps [simp]:
  "se_DeliveryPolicy (with_overrides before changes e) = se_DeliveryPolicy e" "se_RecipientUserID (with_overrides before changes e) = se_RecipientUserID e"
  "se_HasCursorVisibilityEpoch (with_overrides before changes e) = se_HasCursorVisibilityEpoch e" "se_EventType (with_overrides before changes e) = se_EventType e"
  "se_CursorVisibilityEpoch (with_overrides before changes e) = se_CursorVisibilityEpoch e"
  by (simp_all add: with_overrides_def)

lemma transition_event:
  assumes "transition_for w epoch t" "from_template t e"
  shows "eventVisibleTo u (with_overrides before changes e) v \<longleftrightarrow> u = w" "cursorEpochForEvent (with_overrides before changes e) u v = epoch"
  using assms by (auto simp: transition_for_def from_template_def eventVisibleTo_def cursorEpochForEvent_def)

lemma filter_events_none:
  assumes "list_all2 from_template ts es" "\<forall>t \<in> set ts. \<exists>w epoch. w \<noteq> u \<and> transition_for w epoch t"
  shows "filter (\<lambda>e. eventVisibleTo u e v) (map (with_overrides before changes) es) = []"
  using assms
proof (induction rule: list_all2_induct)
  case (Cons t ts e es)
  then obtain w epoch where "w \<noteq> u" "transition_for w epoch t" by auto
  then show ?case using Cons transition_event(1) by auto
qed simp

text \<open>C7. The new cursor epoch proves that a visibility change arrived in full: when a publication changes what user \<open>u\<close> can see, the
  events of the publication that \<open>u\<close> receives end with \<^verbatim>\<open>visibility.transition.complete\<close>, whose cursor carries the old epoch plus one, and
  every event before it, the ordinary events of the same publication included, carries the old epoch.  (The
  services' own events leave the epoch to the publication and are not transition events.)\<close>

theorem transition_complete_last:
  assumes res: "reserveLocked js sha256 now p request = Return res" and u: "u |\<in>| fmdom (rs_VisibilityChanges res)"
    and plain: "\<forall>t \<in> set (rq_Events request). \<not> tp_HasCursorVisibilityEpoch t \<and> tp_DeliveryPolicy t \<noteq> StateDeliveryDirectTransition"
  shows "\<exists>xs c. filter (\<lambda>e. eventVisibleTo u e (rs_Version res)) (rs_Events res) = xs @ [c] \<and> se_EventType c = ''visibility.transition.complete'' \<and>
    cursorEpochForEvent c u (rs_Version res) = VisibilityEpoch (pb_state p) u + 1 \<and>
    (\<forall>e \<in> set xs. cursorEpochForEvent e u (rs_Version res) = VisibilityEpoch (pb_state p) u)"
proof -
  from res obtain candidate changes epochs templates events where
    "rq_Candidate request = Some candidate" and vis: "visibilityChanges (pb_state p) (sd_version candidate) (rq_VisibilityUserIDs request) = Return (changes, epochs)"
    and tr: "appendVisibilityTransitions js sha256 (rq_Events request) (pb_state p) (apply_epochs epochs (sd_version candidate)) changes = Return templates"
    and mat: "materializeEvents js now templates (cp_GEID (sv_checkpoint (pb_state p))) (apply_epochs epochs (sd_version candidate)) = Return events"
    and ev: "rs_Events res = map (with_overrides (pb_state p) changes) events" "rs_VisibilityChanges res = changes"
    by (rule reserveLocked_Return)
  let ?old = "VisibilityEpoch (pb_state p) u" and ?after = "apply_epochs epochs (sd_version candidate)" and ?w = "with_overrides (pb_state p) changes"
  let ?vis = "\<lambda>e. eventVisibleTo u e (rs_Version res)" and ?epoch = "\<lambda>e. cursorEpochForEvent e u (rs_Version res)"
  have uc: "u |\<in>| fmdom changes" using u ev(2) by simp
  have "fmlookup epochs u = Some (?old + 1)" using visibilityChanges_spec [OF vis, of u] uc by (auto simp: fmdom_notI split: if_splits)
  then have new: "VisibilityEpoch ?after u = ?old + 1" by simp
  obtain pre xs c post where shape: "templates = rq_Events request @ pre @ xs @ [c] @ post"
    "\<forall>t \<in> set pre. \<exists>w epoch. w \<noteq> u \<and> transition_for w epoch t" "\<forall>t \<in> set post. \<exists>w epoch. w \<noteq> u \<and> transition_for w epoch t"
    "\<forall>t \<in> set xs. transition_for u ?old t" "transition_for u (?old + 1) c" "tp_EventType c = ''visibility.transition.complete''"
    using transitions_split [OF tr uc] new by auto
  from materialize_loop_Return [OF mat [unfolded materializeEvents_def]] obtain es0 esp esx ec esq where
    es: "events = es0 @ esp @ esx @ ec # esq" "list_all2 from_template (rq_Events request) es0" "list_all2 from_template pre esp"
    "list_all2 from_template xs esx" "from_template c ec" "list_all2 from_template post esq"
    unfolding shape(1) by (auto simp: list_all2_append1 list_all2_Cons1)
  have old0: "?epoch (?w e) = ?old" if "e \<in> set es0" for e
    using list_all2_right [OF es(2) that] plain override_epoch [OF uc] by (auto simp: from_template_def)
  have oldx: "?epoch (?w e) = ?old" if "e \<in> set esx" for e
    using list_all2_right [OF es(4) that] shape(4) transition_event(2) by blast
  have last: "?vis (?w ec)" "?epoch (?w ec) = ?old + 1" "se_EventType (?w ec) = ''visibility.transition.complete''"
    using transition_event [OF shape(5) es(5)] shape(6) es(5) by (simp_all add: from_template_def)
  have "filter ?vis (rs_Events res) = filter ?vis (map ?w (es0 @ esx)) @ [?w ec]"
    using filter_events_none [OF es(3) shape(2)] filter_events_none [OF es(6) shape(3)] last(1) by (simp add: ev(1) es(1))
  then show ?thesis using last old0 oldx by (intro exI [of _ "filter ?vis (map ?w (es0 @ esx))"] exI [of _ "?w ec"]) auto
qed

subsection \<open>A concrete commit\<close>

text \<open>A server with one user and one public channel deletes the channel: the deletion is announced to the user, who then loses
  the scope.\<close>

definition example_rows :: "db_Channel list \<Rightarrow> StateProjection" where
  "example_rows channels = \<lparr>sp_Users = [\<lparr>dbu_ID = 1, dbu_Username = ''u'', dbu_PasswordHash = [], dbu_Nickname = ''n'', dbu_Avatar = None, dbu_AuthVersion = 1,
       dbu_BannedAt = None, dbu_LastLoginAt = None, dbu_CreatedAt = 0, dbu_UpdatedAt = 0\<rparr>],
     sp_Roles = [], sp_Groups = [], sp_Channels = channels, sp_GroupAccess = [], sp_ChannelAccess = [], sp_Bindings = [], sp_Configs = [], sp_Mutes = []\<rparr>"

definition example_channel_row :: db_Channel where
  "example_channel_row = \<lparr>dbc_ID = 21, dbc_GroupID = None, dbc_Name = ''c'', dbc_Mode = ''voice'', dbc_Temporary = 0, dbc_Visibility = ''public'', dbc_Capacity = 0,
     dbc_Position = 0, dbc_Pinned = 0, dbc_CreatedBy = None, dbc_CreatedAt = 0, dbc_UpdatedAt = 0, dbc_Version = 1\<rparr>"

definition example_state :: "uint64 \<Rightarrow> (int64, Channel) fmap \<Rightarrow> StateVersion" where
  "example_state n channels = \<lparr>sv_number = n, sv_checkpoint = sv_checkpoint example_version,
     sv_persistent = emptyPersistent\<lparr>ps_users := fmupd 1 (example_user 1) fmempty, ps_channels := channels\<rparr>, sv_runtime = emptyRuntime\<rparr>"

definition example_candidate :: StateCandidate where
  "example_candidate = \<lparr>sd_base = example_state 0 (fmupd 21 (example_channel 21 None) fmempty), sd_version = example_state 1 fmempty\<rparr>"

definition example_publication :: StatePublication where
  "example_publication = \<lparr>pb_state = example_state 0 (fmupd 21 (example_channel 21 None) fmempty),
     pb_ring = \<lparr>rg_events = [], rg_bytes = 0, rg_highWater = 0, rg_maxEvents = MaxStateRingEntries, rg_maxBytes = MaxStateRingBytes\<rparr>, pb_eventBus = None\<rparr>"

definition example_request :: PublicationRequest where
  "example_request = \<lparr>rq_Candidate = Some example_candidate,
     rq_Events = [\<lparr>tp_EventType = ''channel.deleted'', tp_Scope = \<lparr>sc_Type = ''channel'', sc_ID = 21\<rparr>, tp_CausationID = 0, tp_Data = None,
       tp_DeliveryPolicy = StateDeliveryVisibleBefore, tp_VisibleBeforeUserIDs = [1], tp_RecipientUserID = 0, tp_SubjectUserID = 0,
       tp_CursorVisibilityEpoch = 0, tp_HasCursorVisibilityEpoch = False\<rparr>],
     rq_VisibilityUserIDs = [1], rq_CommitRuntime = None\<rparr>"

lemma example_loads:
  "newPersistentState (Some (example_rows [example_channel_row])) = Return (sv_persistent (example_state 0 (fmupd 21 (example_channel 21 None) fmempty)))"
  "newPersistentState (Some (example_rows [])) = Return (sv_persistent (example_state 1 fmempty))"
  by (simp_all add: newPersistentState_def example_rows_def addUser_def addChannel_def example_channel_row_def example_state_def userFromDB_def
      channelFromDB_def example_user_def example_channel_def sortRows_def emptyPersistent_def)

lemma example_start: "state_run js hmac sha256 ''00000000000000000000000000000000'' example_publication []"
proof (rule state_run.start)
  show "NewStateStoreWithEpoch (Some (Return (Some (example_rows [example_channel_row])))) ''00000000000000000000000000000000'' =
      Return (example_state 0 (fmupd 21 (example_channel 21 None) fmempty))"
    by (simp add: NewStateStoreWithEpoch_def validateStreamEpoch_def streamEpochBytes_def hex_lower_def example_loads) (simp add: example_state_def example_version_def)
  show "NewStateRing = Return (pb_ring example_publication)"
    by (simp add: NewStateRing_def NewStateRingWithLimits_def MaxStateRingEntries_def MaxStateRingBytes_def example_publication_def)
  show "NewStatePublication (example_state 0 (fmupd 21 (example_channel 21 None) fmempty)) (pb_ring example_publication) = Return example_publication"
    by (simp add: NewStatePublication_def example_publication_def example_state_def example_version_def)
qed

lemma example_built: "built (example_state 0 (fmupd 21 (example_channel 21 None) fmempty)) example_candidate"
proof (rule built.persistent)
  have run: "rt_temporaryExpiry (sv_runtime (example_state n cs)) = fmempty" "rt_muteExpiry (sv_runtime (example_state n cs)) = fmempty" for n cs
    by (simp_all add: example_state_def emptyRuntime_def)
  show "BuildPersistentCandidateFrom (example_state 0 (fmupd 21 (example_channel 21 None) fmempty)) (Some (Return (Some (example_rows [])))) = Return example_candidate"
    unfolding BuildPersistentCandidateFrom_def by (simp add: example_loads run cong del: fmfilter_cong) (simp add: example_candidate_def example_state_def emptyRuntime_def)
qed

lemma example_scopes:
  "VisibleScopeIDs 1 (example_state 0 (fmupd 21 (example_channel 21 None) fmempty)) = [\<lparr>sc_Type = ''channel'', sc_ID = 21\<rparr>]"
  "VisibleScopeIDs 1 (example_state n fmempty) = []"
  by (simp_all add: VisibleScopeIDs_def knownUser_def CanAccessChannel_def example_state_def example_user_def example_channel_def emptyPersistent_def
      sorted_list_of_fset.rep_eq sort_by_def)

lemma example_diff:
  "DiffScopes 1 (example_state 0 (fmupd 21 (example_channel 21 None) fmempty)) (example_state n fmempty) =
     \<lparr>vc_Granted = [], vc_Revoked = [\<lparr>sc_Type = ''channel'', sc_ID = 21\<rparr>]\<rparr>"
  by (simp add: DiffScopes_def Let_def example_scopes sort_by_def)

lemma example_transitions:
  "visibilityChanges (pb_state example_publication) (sd_version example_candidate) [1] =
     Return (fmupd 1 \<lparr>vc_Granted = [], vc_Revoked = [\<lparr>sc_Type = ''channel'', sc_ID = 21\<rparr>]\<rparr> fmempty, fmupd 1 1 fmempty)"
  by (simp add: visibilityChanges_def sortedUniqueUserIDs_def sort_by_def example_publication_def example_candidate_def example_diff Changed_def Let_def)
     (simp add: example_state_def emptyRuntime_def count_at_def)

text \<open>The four events of the commit.\<close>

definition example_template :: "string \<Rightarrow> Scope \<Rightarrow> uint64 \<Rightarrow> StateEventTemplate" where
  "example_template eventType scope epoch = directTransitionTemplate eventType scope 1 epoch 0 (Some ''{}'')"

lemma example_append:
  "appendVisibilityTransitions example_codec (\<lambda>_. []) (rq_Events example_request) (pb_state example_publication) (apply_epochs (fmupd 1 1 fmempty) (sd_version example_candidate))
     (fmupd 1 \<lparr>vc_Granted = [], vc_Revoked = [\<lparr>sc_Type = ''channel'', sc_ID = 21\<rparr>]\<rparr> fmempty) =
   Return (rq_Events example_request @ [example_template ''visibility.tombstone'' \<lparr>sc_Type = ''channel'', sc_ID = 21\<rparr> 0,
     example_template ''visibility.revoked'' \<lparr>sc_Type = ''channel'', sc_ID = 21\<rparr> 0, example_template ''visibility.transition.complete'' server_scope 1])"
proof -
  have keys: "sortedIntKeys (fmupd 1 c fmempty) = [1]" for c :: VisibilityChange by (simp add: sortedIntKeys_def sort_by_def sorted_list_of_fset.rep_eq)
  have old: "VisibilityEpoch (pb_state example_publication) 1 = 0" by (simp add: VisibilityEpoch_def example_publication_def example_state_def emptyRuntime_def count_at_def)
  have find: "find (\<lambda>t. tp_CausationID t \<noteq> 0) (rq_Events example_request) = None" by (simp add: example_request_def)
  show ?thesis
    unfolding appendVisibilityTransitions_def find
    by (simp add: keys user_transition_def change_of_def old revoked_templates_def marshalVisibilityScope_def
        complete_template_def example_template_def example_codec_def Let_def)
qed

text \<open>The event a template becomes under the example encoder.\<close>

definition example_made :: "StateEventTemplate \<Rightarrow> uint64 \<Rightarrow> StateEvent" where
  "example_made t g = \<lparr>se_GEID = g, se_EventType = tp_EventType t, se_Scope = tp_Scope t, se_CausationID = 0, se_ServerTime = 0,
     se_Data = Some (case tp_Data t of None \<Rightarrow> ''null'' | Some d \<Rightarrow> d), se_DeliveryPolicy = tp_DeliveryPolicy t, se_VisibleBeforeUserIDs = tp_VisibleBeforeUserIDs t,
     se_RecipientUserID = tp_RecipientUserID t, se_SubjectUserID = 0, se_CursorVisibilityEpoch = tp_CursorVisibilityEpoch t,
     se_HasCursorVisibilityEpoch = tp_HasCursorVisibilityEpoch t, se_cursorVisibilityEpochs = [], se_subjectState = None, se_encoded = ''{}''\<rparr>"

definition example_templates :: "StateEventTemplate list" where
  "example_templates = rq_Events example_request @ [example_template ''visibility.tombstone'' \<lparr>sc_Type = ''channel'', sc_ID = 21\<rparr> 0,
     example_template ''visibility.revoked'' \<lparr>sc_Type = ''channel'', sc_ID = 21\<rparr> 0, example_template ''visibility.transition.complete'' server_scope 1]"

lemma example_count: "length example_templates = 4"
  by (simp add: example_templates_def example_request_def)

lemma example_template_facts:
  assumes "t \<in> set example_templates"
  shows "sint (tp_SubjectUserID t) = 0" "tp_SubjectUserID t = 0" "tp_CausationID t = 0" "tp_Data t \<noteq> Some []"
    "g \<noteq> 0 \<Longrightarrow> \<not> refused (example_made t g)"
proof -
  have t: "t = hd (rq_Events example_request) \<or> t = example_template ''visibility.tombstone'' \<lparr>sc_Type = ''channel'', sc_ID = 21\<rparr> 0 \<or>
      t = example_template ''visibility.revoked'' \<lparr>sc_Type = ''channel'', sc_ID = 21\<rparr> 0 \<or> t = example_template ''visibility.transition.complete'' server_scope 1"
    using assms by (simp add: example_templates_def example_request_def)
  show "tp_SubjectUserID t = 0" "tp_CausationID t = 0" "tp_Data t \<noteq> Some []"
    using t by (elim disjE; simp add: example_request_def example_template_def directTransitionTemplate_def)+
  then show "sint (tp_SubjectUserID t) = 0" by simp
  show "\<not> refused (example_made t g)" if "g \<noteq> 0"
    using t that by (elim disjE; simp add: refused_def example_made_def example_request_def example_template_def directTransitionTemplate_def ScopeValid_def
      tombstoneEvent_def isVisibilityTransitionEvent_def)
qed

lemma example_from_template:
  assumes "t \<in> set example_templates" "g \<noteq> 0"
  shows "stateEventFromTemplate example_codec t g 0 = Return (example_made t g)"
proof -
  let ?x = "\<lparr>se_GEID = g, se_EventType = tp_EventType t, se_Scope = tp_Scope t, se_CausationID = tp_CausationID t, se_ServerTime = 0,
       se_Data = (case tp_Data t of None \<Rightarrow> None | Some d \<Rightarrow> if d = [] then None else Some d), se_DeliveryPolicy = tp_DeliveryPolicy t,
       se_VisibleBeforeUserIDs = tp_VisibleBeforeUserIDs t, se_RecipientUserID = tp_RecipientUserID t, se_SubjectUserID = tp_SubjectUserID t,
       se_CursorVisibilityEpoch = tp_CursorVisibilityEpoch t, se_HasCursorVisibilityEpoch = tp_HasCursorVisibilityEpoch t,
       se_cursorVisibilityEpochs = [], se_subjectState = None, se_encoded = []\<rparr>"
  note f = example_template_facts [OF assms(1)]
  have "refused ?x = refused (example_made t g)" by (simp add: refused_def example_made_def f)
  then have "\<not> refused ?x" using f(5) [OF assms(2)] by simp
  moreover have "payload_of ?x = (case tp_Data t of None \<Rightarrow> ''null'' | Some d \<Rightarrow> d)" using f(4) by (auto simp: payload_of_def split: option.splits)
  ultimately show ?thesis
    unfolding stateEventFromTemplate_def normalize_eq by (simp add: example_codec_def example_made_def f(2,3))
qed

lemma example_materialize:
  "materializeEvents example_codec 0 example_templates 0 v =
     Return [example_made (example_templates ! 0) 1, example_made (example_templates ! 1) 2, example_made (example_templates ! 2) 3, example_made (example_templates ! 3) 4]"
proof -
  obtain a b c d where ts: "example_templates = [a, b, c, d]" using example_count by (auto simp: length_Suc_conv eval_nat_numeral)
  have "sint (tp_SubjectUserID a) = 0" "sint (tp_SubjectUserID b) = 0" "sint (tp_SubjectUserID c) = 0" "sint (tp_SubjectUserID d) = 0"
    and "stateEventFromTemplate example_codec a 1 0 = Return (example_made a 1)" "stateEventFromTemplate example_codec b 2 0 = Return (example_made b 2)"
      "stateEventFromTemplate example_codec c 3 0 = Return (example_made c 3)" "stateEventFromTemplate example_codec d 4 0 = Return (example_made d 4)"
    using example_from_template [of a 1] example_from_template [of b 2] example_from_template [of c 3] example_from_template [of d 4]
      example_template_facts(1) by (simp_all add: ts)
  then show ?thesis unfolding ts by (simp add: materializeEvents_def)
qed

definition example_changes :: "(int64, VisibilityChange) fmap" where
  "example_changes = fmupd 1 \<lparr>vc_Granted = [], vc_Revoked = [\<lparr>sc_Type = ''channel'', sc_ID = 21\<rparr>]\<rparr> fmempty"

lemma example_valid:
  assumes "t \<in> set example_templates" "g \<noteq> 0"
  shows "normalizeStateEvent example_codec (with_overrides before changes (example_made t g)) = Return (with_overrides before changes (example_made t g))"
proof -
  have "settled example_codec (example_made t g)" using settled_from_template(1) [OF example_from_template [OF assms]] .
  then show ?thesis by (rule settled_overrides)
qed

lemma example_sizes:
  assumes "t \<in> set example_templates"
  shows "retainedSize (with_overrides before example_changes (example_made t g)) \<le> 26"
    "se_GEID (with_overrides before changes (example_made t g)) = g" "length (se_encoded (with_overrides before changes (example_made t g))) = 2"
proof -
  have keys: "sortedIntKeys example_changes = [1]" by (simp add: sortedIntKeys_def sort_by_def sorted_list_of_fset.rep_eq example_changes_def)
  have "length (tp_VisibleBeforeUserIDs t) \<le> 1"
    using assms by (auto simp: example_templates_def example_request_def example_template_def directTransitionTemplate_def)
  then show "retainedSize (with_overrides before example_changes (example_made t g)) \<le> 26"
    by (simp add: retainedSize_def with_overrides_def example_made_def keys)
qed (simp_all add: with_overrides_def example_made_def)

lemma example_reserve:
  "\<exists>res. reserveLocked example_codec (\<lambda>_. []) 0 example_publication example_request = Return res \<and> rs_VisibilityChanges res = example_changes \<and>
     length (rs_Events res) = 4"
proof -
  let ?before = "pb_state example_publication" and ?after = "apply_epochs (fmupd 1 1 fmempty) (sd_version example_candidate)"
  let ?made = "\<lambda>i g. example_made (example_templates ! i) g" and ?w = "with_overrides ?before example_changes"
  let ?events = "[?w (?made 0 1), ?w (?made 1 2), ?w (?made 2 3), ?w (?made 3 4)]"
  have fields: "rq_Candidate example_request = Some example_candidate" "sd_base example_candidate = ?before" "rq_VisibilityUserIDs example_request = [1]"
    "sv_number (sd_version example_candidate) = sv_number ?before + 1" "sv_checkpoint (sd_version example_candidate) = sv_checkpoint ?before"
    "rg_highWater (pb_ring example_publication) = cp_GEID (sv_checkpoint ?before)" "cp_GEID (sv_checkpoint ?before) = 0"
    by (simp_all add: example_request_def example_candidate_def example_publication_def example_state_def example_version_def)
  have tr: "appendVisibilityTransitions example_codec (\<lambda>_. []) (rq_Events example_request) ?before ?after example_changes = Return example_templates"
    using example_append by (simp add: example_changes_def example_templates_def)
  have "rg_maxBytes (pb_ring example_publication) = 16777216" "rg_highWater (pb_ring example_publication) = 0"
    by (simp_all add: example_publication_def MaxStateRingBytes_def)
  moreover have "maxStateEventRingBytes = 196340"
    by (simp add: maxStateEventRingBytes_def MaxStateEventBytes_def MaxStateEventCursorBytes_def stateEventCursorEnvelopeBytes_def)
  moreover have "retainedSize (?w (?made i g)) \<le> 16777216" if "i < 4" for i g using example_sizes(1) [of "example_templates ! i" ?before g] that example_count by simp
  ultimately have "validateAppendLocked example_codec (pb_ring example_publication) ?events = Return ?events"
    using example_count by (simp add: validateAppendLocked_def example_valid example_sizes not_less)
  then have "ValidateAppend example_codec (pb_ring example_publication) ?events = Return ()" by (simp add: ValidateAppend_def)
  with example_transitions tr example_materialize show ?thesis
    by (simp add: reserveLocked_def fields Let_def example_changes_def [symmetric])
qed

theorem transition_complete_last_witness:
  "\<exists>res xs c. reserveLocked example_codec (\<lambda>_. []) 0 example_publication example_request = Return res \<and>
     filter (\<lambda>e. eventVisibleTo 1 e (rs_Version res)) (rs_Events res) = xs @ [c] \<and> se_EventType c = ''visibility.transition.complete'' \<and>
     cursorEpochForEvent c 1 (rs_Version res) = 1"
proof -
  obtain res where res: "reserveLocked example_codec (\<lambda>_. []) 0 example_publication example_request = Return res" "rs_VisibilityChanges res = example_changes"
    using example_reserve by blast
  have "1 |\<in>| fmdom (rs_VisibilityChanges res)" by (simp add: res(2) example_changes_def)
  moreover have "\<forall>t \<in> set (rq_Events example_request). \<not> tp_HasCursorVisibilityEpoch t \<and> tp_DeliveryPolicy t \<noteq> StateDeliveryDirectTransition"
    by (simp add: example_request_def)
  moreover have "VisibilityEpoch (pb_state example_publication) 1 = 0"
    by (simp add: VisibilityEpoch_def example_publication_def example_state_def emptyRuntime_def count_at_def)
  ultimately show ?thesis using transition_complete_last [OF res(1), of 1] res(1) by auto
qed

lemma example_commit:
  "\<exists>p' res. CommitPublication example_codec example_tag (\<lambda>_. []) 0 example_publication example_request = ((None, p'), Some res) \<and>
     pub_ok p' (rs_Events res) \<and> length (rs_Events res) = 4"
proof -
  obtain res where res: "reserveLocked example_codec (\<lambda>_. []) 0 example_publication example_request = Return res" "length (rs_Events res) = 4"
    using example_reserve by blast
  obtain err p' where run: "CommitPublication example_codec example_tag (\<lambda>_. []) 0 example_publication example_request = ((err, p'), Some res)"
    using res(1) by (cases "publish example_codec example_tag False (rq_CommitRuntime example_request) example_publication res") (simp add: CommitPublication_def)
  have "pub_ok example_publication []"
    by (simp add: pub_ok_def ring_log_def numbered_def fits_def example_publication_def MaxStateRingEntries_def MaxStateRingBytes_def example_state_def example_version_def)
  moreover have "rq_CommitRuntime example_request = None" "pb_eventBus example_publication = None" "rq_Candidate example_request = Some example_candidate"
    by (simp_all add: example_request_def example_publication_def)
  ultimately show ?thesis using commit_outcomes [of _ "[]", OF _ example_built _ run] res(2) run by (auto simp: committed_def)
qed

theorem published_state_invariant_witness:
  "\<exists>p hist. state_run example_codec example_tag (\<lambda>_. []) ''00000000000000000000000000000000'' p hist \<and> length hist = 4 \<and>
     unat (cp_GEID (sv_checkpoint (pb_state p))) = 4 \<and> runtime_ok (sv_runtime (pb_state p))"
proof -
  obtain p' res where run: "CommitPublication example_codec example_tag (\<lambda>_. []) 0 example_publication example_request = ((None, p'), Some res)"
    "length (rs_Events res) = 4" using example_commit by blast
  have "rq_Candidate example_request = Some example_candidate" "rq_CommitRuntime example_request = None" by (simp_all add: example_request_def)
  with state_run.commit [OF example_start example_built _ run(1)]
  have reach: "state_run example_codec example_tag (\<lambda>_. []) ''00000000000000000000000000000000'' p' (rs_Events res)" by (simp add: committed_def)
  from published_state_invariant [OF this] reach run(2) show ?thesis by auto
qed

text \<open>C20. Every outcome of a commit: a request refused while it is reserved returns an error and changes nothing; a staged coordinator
  transition that fails returns its error and changes nothing; otherwise the new version is published with the next version number, the
  same stream epoch, exactly the candidate's persistent state, and a visibility epoch raised by one for exactly the requested users
  whose visible scopes changed, and its events extend the log.  Without an event bus such a commit cannot fail.\<close>

theorem commit_all_outcomes:
  assumes "pub_ok p hist" "built base candidate" "rq_Candidate request = Some candidate"
    and "CommitPublication js hmac sha256 now p request = ((err, p'), result)"
  shows "(result = None \<and> err \<noteq> None \<and> p' = p) \<or> (rq_CommitRuntime request \<noteq> None \<and> err = rq_CommitRuntime request \<and> p' = p) \<or>
    (\<exists>res. result = Some res \<and> rq_CommitRuntime request = None \<and> pb_state p' = rs_Version res \<and> pub_ok p' (hist @ rs_Events res) \<and>
       (pb_eventBus p \<noteq> None \<or> err = None) \<and>
       sv_number (pb_state p') = sv_number (pb_state p) + 1 \<and>
       cp_StreamEpoch (sv_checkpoint (pb_state p')) = cp_StreamEpoch (sv_checkpoint (pb_state p)) \<and>
       sv_persistent (pb_state p') = sv_persistent (sd_version candidate) \<and>
       (\<forall>u. VisibilityEpoch (pb_state p') u =
          (if u \<in> set (rq_VisibilityUserIDs request) \<and> Changed (DiffScopes u (pb_state p) (sd_version candidate))
           then VisibilityEpoch (pb_state p) u + 1 else VisibilityEpoch (pb_state p) u)))"
proof (cases result)
  case (Some res)
  show ?thesis
  proof (cases "rq_CommitRuntime request")
    case None
    have "sd_base candidate = pb_state p" "reserved p request res" using commit_outcomes [OF assms] Some assms(3) by (auto simp: reserved_def)
    moreover have "VisibilityEpoch (sd_version candidate) u = VisibilityEpoch (pb_state p) u" for u
      using built_ok [OF assms(2)] calculation(1) by (auto simp: VisibilityEpoch_def)
    ultimately show ?thesis using commit_outcomes [OF assms] Some None assms(3) by (auto simp: reserved_def committed_def)
  qed (use commit_outcomes [OF assms] Some in simp)
qed (use commit_outcomes [OF assms] in simp)

theorem commit_all_outcomes_witness:
  "\<exists>p' res. CommitPublication example_codec example_tag (\<lambda>_. []) 0 example_publication example_request = ((None, p'), Some res) \<and>
     sv_number (pb_state p') = 1 \<and> VisibilityEpoch (pb_state p') 1 = 1 \<and> VisibilityEpoch (pb_state p') 2 = 0"
proof -
  obtain p' res where run: "CommitPublication example_codec example_tag (\<lambda>_. []) 0 example_publication example_request = ((None, p'), Some res)"
    using example_commit by blast
  have ok: "pub_ok example_publication []"
    by (simp add: pub_ok_def ring_log_def numbered_def fits_def example_publication_def MaxStateRingEntries_def MaxStateRingBytes_def example_state_def example_version_def)
  have r: "rq_Candidate example_request = Some example_candidate" "rq_CommitRuntime example_request = None" "rq_VisibilityUserIDs example_request = [1]"
    by (simp_all add: example_request_def)
  have "sv_number (pb_state example_publication) = 0" "VisibilityEpoch (pb_state example_publication) u = 0" for u
    by (simp_all add: example_publication_def example_state_def VisibilityEpoch_def emptyRuntime_def count_at_def)
  moreover have "Changed (DiffScopes 1 (pb_state example_publication) (sd_version example_candidate))"
    by (simp add: example_publication_def example_candidate_def example_diff Changed_def)
  ultimately show ?thesis using commit_all_outcomes [OF ok example_built r(1) run] r run by auto
qed

end
