(* ===== verification/Delivery.thy ===== *)
theory Delivery
  imports Commit
begin

text \<open>
  What waits for delivery after a publication: the event bus of \<^verbatim>\<open>internal/realtime/eventbus.go\<close> bound to the publication of
  \<^verbatim>\<open>internal/realtime/publication.go\<close>, with its connections synchronizing, live, slow or gone and their writers draining the lanes
  of \<^verbatim>\<open>internal/realtime/websocket.go\<close>.  Whatever the order of these steps, ordinary payload that still waits lies within what the
  recipient may see in the current version.
\<close>

section \<open>Theorems\<close>

subsection \<open>Visible payload\<close>

text \<open>A scope is visible by the access rules themselves; server scope is open to every recipient.\<close>

definition scope_visible :: "int64 \<Rightarrow> StateVersion \<Rightarrow> Scope \<Rightarrow> bool" where
  "scope_visible u v scope \<longleftrightarrow> sc_Type scope = ''server'' \<or> sc_Type scope = ''group'' \<and> CanSeeGroup u (sc_ID scope) v \<or>
     sc_Type scope = ''channel'' \<and> CanAccessChannel u (sc_ID scope) v"

definition ordinary :: "StateQueueItem \<Rightarrow> bool" where
  "ordinary it \<longleftrightarrow> qi_Policy it = StateDeliveryVisibleAfter"

definition items_visible :: "int64 \<Rightarrow> StateVersion \<Rightarrow> StateQueueItem list \<Rightarrow> bool" where
  "items_visible u v items \<longleftrightarrow> (\<forall>it \<in> set items. ordinary it \<longrightarrow> scope_visible u v (qi_Scope it))"

definition lane_items :: "webSocketStateLane \<Rightarrow> StateQueueItem list" where
  "lane_items l = map wf_item (wl_queue l)"

lemma scope_visible_iff: "scope_visible u v scope \<longleftrightarrow> sc_Type scope = ''server'' \<or> scope \<in> set (VisibleScopeIDs u v)"
  by (simp add: scope_visible_def set_VisibleScopeIDs)

lemma items_visible_simps [simp]:
  "items_visible u v []" "items_visible u v (xs @ ys) \<longleftrightarrow> items_visible u v xs \<and> items_visible u v ys"
  "items_visible u v (controlQueueItems frames ref epoch)"
  by (auto simp: items_visible_def controlQueueItems_def ordinary_def)

lemma live_item_visible:
  assumes "live_item js hmac s ref v e = Return it" "eventVisibleTo (cr_UserID ref) e v" "ordinary it"
  shows "scope_visible (cr_UserID ref) v (qi_Scope it)"
proof -
  have "item_policy (se_DeliveryPolicy e) = StateDeliveryVisibleAfter" "qi_Scope it = se_Scope e"
    using live_item_fields [OF assms(1)] assms(3) by (simp_all add: ordinary_def)
  then show ?thesis
    using assms(2) by (auto simp: eventVisibleTo_def scope_visible_def item_policy_def split: if_splits StateDeliveryPolicy.splits)
qed

lemma liveItems_visible:
  assumes "liveItems js hmac s ref v es = Return (items, False)"
  shows "items_visible (cr_UserID ref) v items"
  unfolding items_visible_def
proof (intro ballI impI)
  fix it
  assume it: "it \<in> set items" "ordinary it"
  from list_all2_right [OF liveItems_spec [OF assms] it(1)] obtain e where
    "e \<in> set (filter (\<lambda>e. eventVisibleTo (cr_UserID ref) e v) es)" "live_item js hmac s ref v e = Return it" by blast
  then show "scope_visible (cr_UserID ref) v (qi_Scope it)" using live_item_visible it(2) by auto
qed

text \<open>Pruning by the difference of two versions carries visibility from one to the other.\<close>

lemma visible_after_prune:
  assumes "items_visible u before items" "set (VisibleScopeIDs u before) - set (VisibleScopeIDs u after) \<subseteq> set revoked"
  shows "items_visible u after (filter (\<lambda>it. \<not> prunable revoked it) items)"
  using assms by (fastforce simp: items_visible_def scope_visible_iff prunable_def ordinary_def)

lemma pruneStateQueueItems_filter: "pruneStateQueueItems items revoked = filter (\<lambda>it. \<not> prunable revoked it) items"
  by (auto simp: pruneStateQueueItems_def prunable_def)

lemma applyBatch_items:
  assumes "applyBatch l revoked items = (True, l')"
  shows "lane_items l' = filter (\<lambda>it. \<not> prunable revoked it) (lane_items l) @ items"
  using assms by (cases rule: applyBatch_cases) (auto simp: prune_lane_spec Let_def lane_items_def lane_frame_def comp_def filter_map)

lemma applyBatch_refused_items:
  assumes "applyBatch l [] items = (False, l')"
  shows "l' = l"
  using assms by (cases rule: applyBatch_cases) (auto simp: prune_lane_def)

subsection \<open>The bus and its connections\<close>

text \<open>What the owner of a lane does to it: control frames are queued, the writer claims and releases frames, the connection stops
  and closes the lane.\<close>

inductive lane_use :: "webSocketStateLane \<Rightarrow> webSocketStateLane \<Rightarrow> bool" where
  control: "enqueue_control l frame = (admit, l') \<Longrightarrow> lane_use l l'"
| claim: "claim_frame l = (f, l') \<Longrightarrow> lane_use l l'"
| release: "lane_use l (release_frame l f)"
| stop: "lane_use l (stop_lane l)"
| close: "lane_use l (close_lane l)"

text \<open>The steps of a bus between two publications.  A connection synchronizes once, before any payload is in its lane; the attempt is
  registered with the version current at that moment.\<close>

inductive bus_step :: "StateVersion \<Rightarrow> EventBus \<Rightarrow> EventBus \<Rightarrow> bool" for v where
  connect: "fmlookup (eb_lanes b) ref = None \<Longrightarrow> bus_step v b (b\<lparr>eb_lanes := fmupd ref newWebSocketStateLane (eb_lanes b)\<rparr>)"
| lane: "\<lbrakk>fmlookup (eb_lanes b) ref = Some l; lane_use l l'\<rbrakk> \<Longrightarrow> bus_step v b (b\<lparr>eb_lanes := fmupd ref l' (eb_lanes b)\<rparr>)"
| begin_sync: "\<lbrakk>beginSync b ref v = Return (i, b'); \<forall>l. fmlookup (eb_lanes b) ref = Some l \<longrightarrow> \<not> list_ex ordinary (lane_items l)\<rbrakk> \<Longrightarrow> bus_step v b b'"
| complete_sync: "completeSync b i handoff = (err, b') \<Longrightarrow> bus_step v b b'"
| abort_sync: "bus_step v b (abortSync b i)"
| unsubscribe: "bus_step v b (unsubscribe b ref)"
| close_bus: "bus_step v b (CloseBus b)"

text \<open>The life of a publication with its bus.  A request lists every user whose visibility it may change, as
  \<^verbatim>\<open>PublicationRequest.VisibilityUserIDs\<close> asks of its callers; a commit that fails to fan out is fatal to the process and ends the run.\<close>

definition lists_affected :: "StatePublication \<Rightarrow> PublicationRequest \<Rightarrow> bool" where
  "lists_affected p request \<longleftrightarrow> (\<forall>candidate u. rq_Candidate request = Some candidate \<longrightarrow> Changed (DiffScopes u (pb_state p) (sd_version candidate)) \<longrightarrow>
     u \<in> set (rq_VisibilityUserIDs request))"

inductive delivery_run :: "codec \<Rightarrow> tag_function \<Rightarrow> digest_function \<Rightarrow> StatePublication \<Rightarrow> bool" for js hmac sha256 where
  start: "pb_eventBus p = Some (NewEventBus signer) \<Longrightarrow> delivery_run js hmac sha256 p"
| bus: "\<lbrakk>delivery_run js hmac sha256 p; pb_eventBus p = Some b; bus_step (pb_state p) b b'\<rbrakk> \<Longrightarrow> delivery_run js hmac sha256 (p\<lparr>pb_eventBus := Some b'\<rparr>)"
| commit: "\<lbrakk>delivery_run js hmac sha256 p; lists_affected p request; CommitPublication js hmac sha256 now p request = ((None, p'), result)\<rbrakk>
    \<Longrightarrow> delivery_run js hmac sha256 p'"

subsection \<open>The invariant\<close>

definition lane_ok :: "StateVersion \<Rightarrow> eventSubscription \<Rightarrow> webSocketStateLane \<Rightarrow> bool" where
  "lane_ok v x l \<longleftrightarrow>
     (if sub_phase x = eventSubscriptionSyncing then \<not> list_ex ordinary (lane_items l) else items_visible (cr_UserID (sub_ref x)) v (lane_items l))"

definition sub_ok :: "StateVersion \<Rightarrow> EventBus \<Rightarrow> nat \<Rightarrow> eventSubscription \<Rightarrow> bool" where
  "sub_ok v b i x \<longleftrightarrow>
     (sub_phase x = eventSubscriptionSyncing \<longrightarrow> registered b i \<and> items_visible (cr_UserID (sub_ref x)) v (sub_pending x)) \<and>
     (registered b i \<longrightarrow> pred_option (lane_ok v x) (fmlookup (eb_lanes b) (sub_ref x)))"

definition bus_inv :: "StateVersion \<Rightarrow> EventBus \<Rightarrow> bool" where
  "bus_inv v b \<longleftrightarrow> bus_ok b \<and> (eb_closed b \<longrightarrow> eb_subscriptions b = fmempty) \<and>
     (\<forall>i x. fmlookup (eb_store b) i = Some x \<longrightarrow> sub_active x \<longrightarrow> sub_ok v b i x)"

lemma lane_use_items:
  assumes "lane_use l l'"
  shows "\<forall>it \<in> set (lane_items l'). it \<in> set (lane_items l) \<or> \<not> ordinary it"
  using assms
proof cases
  case (control frame admit)
  then show ?thesis
    unfolding enqueue_control_def
    by (cases rule: applyBatch_cases) (auto simp: prune_lane_def lane_items_def lane_frame_def ordinary_def)
next
  case (claim f)
  then show ?thesis by (auto simp: claim_frame_def lane_items_def signal_lane_def split: if_splits list.splits)
qed (auto simp: release_frame_def stop_lane_def close_lane_def lane_items_def)

lemma lane_ok_use: "\<lbrakk>lane_use l l'; lane_ok v x l\<rbrakk> \<Longrightarrow> lane_ok v x l'"
  using lane_use_items [of l l'] by (auto simp: lane_ok_def items_visible_def list_ex_iff)

lemma lane_ok_new [simp]: "lane_ok v x newWebSocketStateLane"
  by (simp add: lane_ok_def lane_items_def newWebSocketStateLane_def)

text \<open>A change of one lane.\<close>

lemma bus_inv_lane:
  assumes "bus_inv v b" "\<And>x. pred_option (lane_ok v x) (fmlookup (eb_lanes b) ref) \<Longrightarrow> lane_ok v x l'"
  shows "bus_inv v (b\<lparr>eb_lanes := fmupd ref l' (eb_lanes b)\<rparr>)"
proof -
  have reg: "registered (b\<lparr>eb_lanes := m\<rparr>) i \<longleftrightarrow> registered b i" for m i by (simp add: registered_iff)
  show ?thesis using assms by (auto simp: bus_inv_def bus_ok_def sub_ok_def reg)
qed

lemma bus_ok_stored: "\<lbrakk>bus_ok b; fmlookup (eb_subscriptions b) r = Some i\<rbrakk> \<Longrightarrow> \<exists>x. fmlookup (eb_store b) i = Some x \<and> sub_ref x = r"
  by (simp add: bus_ok_def)

lemma bus_ok_fresh: "\<lbrakk>bus_ok b; fmlookup (eb_store b) i = Some x\<rbrakk> \<Longrightarrow> i < eb_fresh b"
  by (auto simp: bus_ok_def)

lemma bus_okI:
  assumes "\<And>i x. fmlookup (eb_store b) i = Some x \<Longrightarrow> i < eb_fresh b"
    "\<And>r i. fmlookup (eb_subscriptions b) r = Some i \<Longrightarrow> \<exists>x. fmlookup (eb_store b) i = Some x \<and> sub_ref x = r"
  shows "bus_ok b"
  using assms by (auto simp: bus_ok_def)

lemma bus_inv_begin:
  assumes "bus_inv v b" "beginSync b ref v = Return (i, b')" "\<forall>l. fmlookup (eb_lanes b) ref = Some l \<longrightarrow> \<not> list_ex ordinary (lane_items l)"
  shows "bus_inv v b'"
proof -
  let ?x = "\<lparr>sub_ref = ref, sub_active = True, sub_phase = eventSubscriptionSyncing, sub_pending = [], sub_pendingBytes = 0,
    sub_visibilityEpoch = VisibilityEpoch v (cr_UserID ref), sub_visibleScopes = VisibleScopeIDs (cr_UserID ref) v\<rparr>"
  have b: "\<not> eb_closed b" "fmlookup (eb_subscriptions b) ref = None" "i = eb_fresh b"
    "b' = (put_sub b i ?x)\<lparr>eb_subscriptions := fmupd ref i (eb_subscriptions b), eb_fresh := i + 1\<rparr>"
    using assms(2) by (auto simp: beginSync_def Let_def split: if_splits)
  have ok: "bus_ok b" using assms(1) by (simp add: bus_inv_def)
  have fresh: "fmlookup (eb_store b) i = None" using bus_ok_fresh [OF ok, of i] b(3) by (cases "fmlookup (eb_store b) i") auto
  then have reg: "registered b' j \<longleftrightarrow> j = i \<or> registered b j" for j
    using b(2) by (auto simp: b(4) registered_iff put_sub_def split: if_splits) (metis option.distinct(1))
  have "sub_ok v b' j x" if x: "fmlookup (eb_store b') j = Some x" "sub_active x" for j x
  proof (cases "j = i")
    case True
    then have "x = ?x" using x(1) by (simp add: b(4) put_sub_def)
    then show ?thesis
      using assms(3) True reg by (auto simp: sub_ok_def b(4) put_sub_def lane_ok_def pred_option_def)
  next
    case False
    then have "sub_ok v b j x" using x assms(1) by (auto simp: b(4) put_sub_def bus_inv_def)
    then show ?thesis using False by (auto simp: sub_ok_def reg) (auto simp: b(4) put_sub_def)
  qed
  moreover have "\<not> eb_closed b'" using b(1) by (simp add: b(4) put_sub_def)
  moreover have "bus_ok b'"
  proof (rule bus_okI)
    fix j x
    assume "fmlookup (eb_store b') j = Some x"
    then show "j < eb_fresh b'" using bus_ok_fresh ok b(3) by (auto simp: b(4) put_sub_def less_Suc_eq split: if_splits)
  next
    fix r j
    assume "fmlookup (eb_subscriptions b') r = Some j"
    then have "r = ref \<and> j = i \<or> fmlookup (eb_subscriptions b) r = Some j" by (auto simp: b(4) split: if_splits)
    then show "\<exists>x. fmlookup (eb_store b') j = Some x \<and> sub_ref x = r"
    proof
      assume "fmlookup (eb_subscriptions b) r = Some j"
      then obtain x where "fmlookup (eb_store b) j = Some x" "sub_ref x = r" using bus_ok_stored [OF ok] by blast
      moreover have "j \<noteq> i" using calculation(1) fresh by auto
      ultimately show ?thesis by (simp add: b(4) put_sub_def)
    qed (simp add: b(4) put_sub_def)
  qed
  ultimately show ?thesis by (simp add: bus_inv_def)
qed

lemma bus_ok_put:
  assumes "bus_ok b" "fmlookup (eb_store b) i = Some x" "sub_ref x' = sub_ref x"
  shows "bus_ok (put_sub b i x')"
proof (rule bus_okI)
  fix r j
  assume "fmlookup (eb_subscriptions (put_sub b i x')) r = Some j"
  then obtain y where "fmlookup (eb_store b) j = Some y" "sub_ref y = r" using bus_ok_stored [OF assms(1), of r j] by (auto simp: put_sub_def)
  then show "\<exists>y. fmlookup (eb_store (put_sub b i x')) j = Some y \<and> sub_ref y = r" using assms(2,3) by (auto simp: put_sub_def)
qed (use bus_ok_fresh [OF assms(1)] assms(2) in \<open>auto simp: put_sub_def split: if_splits\<close>)

lemma bus_ok_remove: "bus_ok b \<Longrightarrow> bus_ok (remove_sub b i)"
  by (auto simp: bus_ok_def remove_sub_def split: option.split)

text \<open>Replacing a stored subscription by a deactivated one, and removing it from the registry.\<close>

lemma bus_inv_deactivate:
  assumes "bus_inv v b" "fmlookup (eb_store b) i = Some x"
  shows "bus_inv v (remove_sub (put_sub b i (deactivated x)) i)"
proof -
  let ?b = "remove_sub (put_sub b i (deactivated x)) i"
  have ref: "sub_ref (deactivated x) = sub_ref x" "\<not> sub_active (deactivated x)" by (simp_all add: deactivated_def)
  have "registered (put_sub b i (deactivated x)) j \<longleftrightarrow> registered b j" for j
    using assms(2) ref by (auto simp: registered_iff put_sub_def)
  then have reg: "registered ?b j \<longleftrightarrow> registered b j \<and> j \<noteq> i" for j by (simp add: registered_remove)
  have "sub_ok v ?b j y" if y: "fmlookup (eb_store ?b) j = Some y" "sub_active y" for j y
  proof -
    have "j \<noteq> i" using y ref by (auto simp: put_sub_def)
    then have "sub_ok v b j y" using y assms(1) by (auto simp: put_sub_def bus_inv_def)
    then show ?thesis using \<open>j \<noteq> i\<close> by (auto simp: sub_ok_def reg) (auto simp: put_sub_def)
  qed
  moreover have "bus_ok (put_sub b i (deactivated x))"
    using bus_ok_put [OF _ assms(2) ref(1)] assms(1) by (simp add: bus_inv_def)
  then have "bus_ok ?b" by (rule bus_ok_remove)
  moreover have "eb_closed ?b \<longrightarrow> eb_subscriptions ?b = fmempty"
    using assms(1) by (auto simp: bus_inv_def remove_sub_def put_sub_def split: option.split)
  ultimately show ?thesis by (simp add: bus_inv_def)
qed

lemma bus_inv_remove_live:
  assumes "bus_inv v b" "fmlookup (eb_store b) i = Some x" "sub_phase x = eventSubscriptionLive"
  shows "bus_inv v (remove_sub b i)"
proof -
  have "sub_ok v (remove_sub b i) j y" if y: "fmlookup (eb_store b) j = Some y" "sub_active y" for j y
  proof -
    have "sub_ok v b j y" using y assms(1) by (auto simp: bus_inv_def)
    then show ?thesis using y assms by (auto simp: sub_ok_def registered_remove)
  qed
  moreover have "bus_ok (remove_sub b i)" using assms(1) bus_ok_remove by (simp add: bus_inv_def)
  moreover have "eb_closed b \<longrightarrow> eb_subscriptions (remove_sub b i) = fmempty"
    using assms(1) by (auto simp: bus_inv_def remove_sub_def split: option.split)
  ultimately show ?thesis by (simp add: bus_inv_def)
qed

lemma bus_inv_abort: "bus_inv v b \<Longrightarrow> bus_inv v (abortSync b i)"
  using bus_inv_deactivate [of v b i] bus_inv_remove_live [of v b i]
  by (auto simp: abortSync_def split: option.split) (metis eventSubscriptionPhase.exhaust)

lemma bus_inv_unsubscribe:
  assumes "bus_inv v b"
  shows "bus_inv v (unsubscribe b ref)"
proof (cases "validConnectionRef ref \<and> fmlookup (eb_subscriptions b) ref \<noteq> None")
  case True
  then obtain i where i: "fmlookup (eb_subscriptions b) ref = Some i" by auto
  then obtain x where x: "fmlookup (eb_store b) i = Some x" "sub_ref x = ref" using bus_ok_stored [of b ref i] assms unfolding bus_inv_def by blast
  then have "unsubscribe b ref = remove_sub (put_sub b i (deactivated x)) i"
    using True i by (auto simp: unsubscribe_def remove_sub_def put_sub_def deactivated_def)
  then show ?thesis using bus_inv_deactivate [OF assms x(1)] by simp
qed (use assms in \<open>auto simp: unsubscribe_def\<close>)

lemma bus_inv_disconnect [simp]: "bus_inv v (DisconnectSlowConsumer b ref) \<longleftrightarrow> bus_inv v b"
  by (simp add: bus_inv_def bus_ok_def sub_ok_def registered_iff DisconnectSlowConsumer_def)

lemma bus_inv_disconnects [simp]: "bus_inv v (foldl DisconnectSlowConsumer b refs) \<longleftrightarrow> bus_inv v b"
  by (induction refs arbitrary: b) simp_all

lemma bus_inv_complete:
  assumes inv: "bus_inv v b" and run: "completeSync b i handoff = (err, b')"
  shows "bus_inv v b'"
proof (cases "\<exists>x. fmlookup (eb_store b) i = Some x \<and> sub_active x \<and> sub_phase x = eventSubscriptionSyncing")
  case False
  then have "b' = b" using run by (auto simp: completeSync_def split: option.splits if_splits)
  then show ?thesis using inv by simp
next
  case True
  then obtain x where x: "fmlookup (eb_store b) i = Some x" "sub_active x" "sub_phase x = eventSubscriptionSyncing" by blast
  let ?batch = "controlQueueItems handoff (sub_ref x) (sub_visibilityEpoch x) @ sub_pending x"
  let ?live = "x\<lparr>sub_phase := eventSubscriptionLive, sub_pending := [], sub_pendingBytes := 0\<rparr>"
  have ok: "sub_ok v b i x" "registered b i" using inv x by (auto simp: bus_inv_def sub_ok_def)
  obtain admit b1 where b1: "(if stateItemBatchWithinLimits ?batch then ApplyStateBatch b (sub_ref x) [] ?batch else (False, b)) = (admit, b1)" by fastforce
  have b': "b' = (if admit then put_sub b1 i ?live else DisconnectSlowConsumer (remove_sub (put_sub b1 i (deactivated x)) i) (sub_ref x))"
    using run x by (auto simp: completeSync_def Let_def b1)
  show ?thesis
  proof (cases admit)
    case False
    then have same: "b1 = b \<or> (\<exists>l. fmlookup (eb_lanes b) (sub_ref x) = Some l \<and> b1 = b\<lparr>eb_lanes := fmupd (sub_ref x) l (eb_lanes b)\<rparr>)"
      using b1 by (auto simp: ApplyStateBatch_def dest: applyBatch_refused_items split: if_splits option.splits prod.splits)
    have "bus_inv v b1" using same inv bus_inv_lane [OF inv, of "sub_ref x"] by auto
    moreover have "fmlookup (eb_store b1) i = Some x" using same x(1) by auto
    ultimately show ?thesis using bus_inv_deactivate False b' by simp
  next
    case True
    then obtain l l' where l: "fmlookup (eb_lanes b) (sub_ref x) = Some l" "applyBatch l [] ?batch = (True, l')"
      "b1 = b\<lparr>eb_lanes := fmupd (sub_ref x) l' (eb_lanes b)\<rparr>"
      using b1 by (auto simp: ApplyStateBatch_def split: if_splits option.splits prod.splits)
    have "lane_ok v ?live l'"
      using ok l(1) x(3) by (auto simp: lane_ok_def sub_ok_def applyBatch_items [OF l(2)] prunable_def items_visible_def list_ex_iff
        controlQueueItems_def ordinary_def)
    moreover have reg: "registered b' j \<longleftrightarrow> registered b j" for j using True x(1) by (auto simp: b' l(3) registered_iff put_sub_def)
    moreover have apart: "sub_ref y \<noteq> sub_ref x" if "registered b j" "fmlookup (eb_store b) j = Some y" "j \<noteq> i" for j y
      using that ok(2) x(1) by (auto simp: registered_iff)
    ultimately have sub: "sub_ok v b' j y" if y: "fmlookup (eb_store b') j = Some y" "sub_active y" for j y
    proof (cases "j = i")
      case True
      then have "y = ?live" using y(1) \<open>admit\<close> by (simp add: b' put_sub_def)
      then show ?thesis using \<open>lane_ok v ?live l'\<close> \<open>admit\<close> by (simp add: sub_ok_def b' l(3) put_sub_def)
    next
      case False
      then have y0: "fmlookup (eb_store b) j = Some y" using y(1) \<open>admit\<close> by (simp add: b' l(3) put_sub_def)
      then have "sub_ok v b j y" using inv y(2) by (simp add: bus_inv_def)
      moreover have "registered b j \<Longrightarrow> fmlookup (eb_lanes b') (sub_ref y) = fmlookup (eb_lanes b) (sub_ref y)"
        using apart [OF _ y0 False] \<open>admit\<close> by (simp add: b' l(3) put_sub_def)
      ultimately show ?thesis by (auto simp: sub_ok_def reg)
    qed
    have "bus_ok b1" using inv by (simp add: bus_inv_def bus_ok_def l(3))
    then have "bus_ok b'" using bus_ok_put [of b1 i x ?live] x(1) True by (simp add: b' l(3))
    moreover have "eb_closed b' = eb_closed b" "eb_subscriptions b' = eb_subscriptions b" using True by (simp_all add: l(3) b' put_sub_def)
    ultimately show ?thesis using inv sub by (simp add: bus_inv_def)
  qed
qed

lemma CloseBus_effect:
  fixes b :: EventBus and subs :: "nat list"
  defines "b' \<equiv> foldl (\<lambda>b i. case fmlookup (eb_store b) i of None \<Rightarrow> b | Some x \<Rightarrow> put_sub b i (deactivated x)) b subs"
  shows "eb_subscriptions b' = eb_subscriptions b \<and> eb_closed b' = eb_closed b \<and> eb_lanes b' = eb_lanes b \<and> eb_fresh b' = eb_fresh b \<and>
    (\<forall>i. fmlookup (eb_store b') i = (if i \<in> set subs then map_option deactivated (fmlookup (eb_store b) i) else fmlookup (eb_store b) i))"
  unfolding b'_def
proof (induction subs arbitrary: b)
  case (Cons j subs)
  have "deactivated (deactivated x) = deactivated x" for x by (simp add: deactivated_def)
  then show ?case using Cons.IH by (auto simp: put_sub_def comp_def option.map_comp split: option.split)
qed simp

lemma bus_inv_close:
  assumes "bus_inv v b"
  shows "bus_inv v (CloseBus b)"
proof (cases "eb_closed b")
  case False
  note eff = CloseBus_effect [of "b\<lparr>eb_closed := True, eb_subscriptions := fmempty\<rparr>" "sortSubscriptions b"]
  have c: "CloseBus b = foldl (\<lambda>b i. case fmlookup (eb_store b) i of None \<Rightarrow> b | Some x \<Rightarrow> put_sub b i (deactivated x))
      (b\<lparr>eb_closed := True, eb_subscriptions := fmempty\<rparr>) (sortSubscriptions b)"
    using False by (simp add: CloseBus_def Let_def)
  have subs: "set (sortSubscriptions b) = {i. registered b i}" using set_snapshotSubscriptions False by (simp add: snapshotSubscriptions_def)
  have store: "fmlookup (eb_store (CloseBus b)) i = (if registered b i then map_option deactivated (fmlookup (eb_store b) i) else fmlookup (eb_store b) i)" for i
    using eff subs unfolding c by simp
  have empty: "eb_subscriptions (CloseBus b) = fmempty" "eb_fresh (CloseBus b) = eb_fresh b" using eff unfolding c by simp_all
  have ok: "bus_ok b" using assms by (simp add: bus_inv_def)
  have "bus_ok (CloseBus b)"
    using bus_ok_fresh [OF ok] by (intro bus_okI) (auto simp: store empty split: if_splits)
  moreover have "\<not> registered (CloseBus b) i" for i by (simp add: registered_iff empty)
  then have "sub_ok v (CloseBus b) i x" if "fmlookup (eb_store (CloseBus b)) i = Some x" "sub_active x" for i x
    using that assms by (auto simp: store sub_ok_def bus_inv_def deactivated_def split: if_splits)
  ultimately show ?thesis by (simp add: bus_inv_def empty)
qed (use assms in \<open>simp add: CloseBus_def\<close>)

lemma bus_inv_step: "\<lbrakk>bus_step v b b'; bus_inv v b\<rbrakk> \<Longrightarrow> bus_inv v b'"
proof (induction rule: bus_step.induct)
  case (connect b ref)
  then show ?case by (intro bus_inv_lane) simp_all
next
  case (lane b ref l l')
  then show ?case using lane_ok_use by (intro bus_inv_lane) auto
next
  case (begin_sync b ref i b')
  then show ?case using bus_inv_begin by blast
qed (simp_all add: bus_inv_complete bus_inv_abort bus_inv_unsubscribe bus_inv_close)

subsection \<open>Publications\<close>

lemma fanout_loop_outside:
  assumes "fanout_loop js hmac v es ch b slow is = (None, slow', b')" "i \<notin> set is"
  shows "fmlookup (eb_store b') i = fmlookup (eb_store b) i"
  using assms
proof (induction "is" arbitrary: b slow)
  case (Cons j js')
  then obtain sl b1 where one: "fanout_one js hmac v es ch b j = Return (sl, b1)"
    "fanout_loop js hmac v es ch b1 (if sl then slow @ [j] else slow) js' = (None, slow', b')"
    by (auto split: outcome.splits prod.splits)
  have "fmlookup (eb_store b1) i = fmlookup (eb_store b) i"
    using one(1) fanout_one_touches [OF one(1)] Cons.prems(2) by (cases "fmlookup (eb_store b) j") (auto simp: fanout_one_def touches_def)
  then show ?case using Cons.IH [OF one(2)] Cons.prems(2) by simp
qed simp

lemma fanout_bus_ok:
  assumes "bus_ok b" "fanout_loop js hmac v es ch b [] is = (None, slow, b0)"
  shows "bus_ok (foldl remove_sub b0 slow)"
proof -
  note frame = fanout_loop_frame [OF assms(2)]
  have "bus_ok b0"
  proof (rule bus_okI)
    fix i x
    assume "fmlookup (eb_store b0) i = Some x"
    then have "fmlookup (eb_store b) i \<noteq> None" using frame by (metis map_option_is_None option.distinct(1))
    then show "i < eb_fresh b0" using bus_ok_fresh [OF assms(1)] frame by auto
  next
    fix r i
    assume "fmlookup (eb_subscriptions b0) r = Some i"
    then obtain x where "fmlookup (eb_store b) i = Some x" "sub_ref x = r" using bus_ok_stored [OF assms(1), of r i] frame by auto
    then have "map_option sub_ref (fmlookup (eb_store b0) i) = Some r" using frame by simp
    then show "\<exists>x. fmlookup (eb_store b0) i = Some x \<and> sub_ref x = r" by auto
  qed
  then show ?thesis by (induction slow arbitrary: b0) (simp_all add: bus_ok_remove)
qed

text \<open>The work of a fan-out for one registered subscription that stays active.\<close>

lemma fanout_sub_ok:
  assumes fan: "fanout js hmac b v' es ch = (None, gone, b')" and open_bus: "\<not> eb_closed b" and reg: "registered b i"
    and x: "fmlookup (eb_store b) i = Some x" "sub_active x" "sub_ok v b i x" and x': "fmlookup (eb_store b') i = Some x'" "sub_active x'"
    and revoked: "set (VisibleScopeIDs (cr_UserID (sub_ref x)) v) - set (VisibleScopeIDs (cr_UserID (sub_ref x)) v')
      \<subseteq> set (vc_Revoked (change_of ch (cr_UserID (sub_ref x))))"
  shows "sub_ok v' b' i x'"
proof -
  let ?u = "cr_UserID (sub_ref x)" and ?rev = "vc_Revoked (change_of ch (cr_UserID (sub_ref x)))" and ?items = "live_list js hmac (eb_signer b) (sub_ref x) v' es"
  note eff = fanout_effect [OF fan open_bus reg x(1,2) x', unfolded Let_def]
  have new: "items_visible ?u v' ?items" using eff liveItems_visible by blast
  have kept: "items_visible ?u v' (filter (\<lambda>it. \<not> prunable ?rev it) items)" if "items_visible ?u v items" for items
    using visible_after_prune [OF that revoked] .
  have old: "pred_option (lane_ok v x) (fmlookup (eb_lanes b) (sub_ref x))" using x(3) reg by (simp add: sub_ok_def)
  show ?thesis
  proof (cases "sub_phase x")
    case eventSubscriptionSyncing
    then have "sub_pending x' = filter (\<lambda>it. \<not> prunable ?rev it) (sub_pending x) @ ?items" "fmlookup (eb_lanes b') (sub_ref x) = fmlookup (eb_lanes b) (sub_ref x)"
      using eff by (simp_all add: pruneStateQueueItems_filter)
    moreover have "lane_ok v' x' l" if "lane_ok v x l" for l using that eff eventSubscriptionSyncing by (simp add: lane_ok_def)
    moreover have "items_visible ?u v (sub_pending x)" using x(3) eventSubscriptionSyncing by (simp add: sub_ok_def)
    ultimately show ?thesis using eff eventSubscriptionSyncing old new kept [of "sub_pending x"] by (auto simp: sub_ok_def pred_option_def)
  next
    case eventSubscriptionLive
    have "items_visible ?u v' (lane_items l')" if "fmlookup (eb_lanes b') (sub_ref x) = Some l'" for l'
    proof (cases "?items = [] \<and> ?rev = []")
      case True
      then have "fmlookup (eb_lanes b) (sub_ref x) = Some l'" using that eff eventSubscriptionLive by simp
      then have "items_visible ?u v (lane_items l')" using old eventSubscriptionLive by (simp add: lane_ok_def)
      from kept [OF this] show ?thesis using True by (simp add: prunable_def)
    next
      case False
      then obtain l l2 where l: "fmlookup (eb_lanes b) (sub_ref x) = Some l" "applyBatch l ?rev ?items = (True, l2)" "fmlookup (eb_lanes b') (sub_ref x) = Some l2"
        using eff eventSubscriptionLive by auto
      then have "l2 = l'" using that by simp
      then show ?thesis using l old kept new eventSubscriptionLive by (simp add: applyBatch_items lane_ok_def)
    qed
    then show ?thesis using eff eventSubscriptionLive by (auto simp: sub_ok_def lane_ok_def pred_option_def)
  qed
qed

lemma bus_inv_fanout:
  assumes inv: "bus_inv v b" and fan: "fanout js hmac b v' es ch = (None, gone, b')"
    and revoked: "\<And>u. set (VisibleScopeIDs u v) - set (VisibleScopeIDs u v') \<subseteq> set (vc_Revoked (change_of ch u))"
  shows "bus_inv v' b'"
proof -
  obtain slow b0 where loop: "fanout_loop js hmac v' es ch b [] (snapshotSubscriptions b) = (None, slow, b0)" and b': "b' = foldl remove_sub b0 slow"
    using fanout_Return [OF fan] .
  note frame = fanout_loop_frame [OF loop]
  have ok: "bus_ok b" "eb_closed b \<longrightarrow> eb_subscriptions b = fmempty" using inv by (simp_all add: bus_inv_def)
  have reg: "registered b' i \<Longrightarrow> registered b i" for i using registered_cong [of b0 b i] frame by (simp add: b' registered_foldl_remove)
  have "sub_ok v' b' i x'" if x': "fmlookup (eb_store b') i = Some x'" "sub_active x'" for i x'
  proof -
    have "map_option sub_ref (fmlookup (eb_store b0) i) = map_option sub_ref (fmlookup (eb_store b) i)" using frame by blast
    then have "map_option sub_ref (fmlookup (eb_store b) i) = Some (sub_ref x')" using x'(1) by (simp add: b')
    then obtain x where x: "fmlookup (eb_store b) i = Some x" by auto
    have act: "sub_active x" using inactive_stays [OF loop x] x' by (auto simp: b')
    have sub: "sub_ok v b i x" using inv x act by (simp add: bus_inv_def)
    show ?thesis
    proof (cases "registered b i \<and> \<not> eb_closed b")
      case True
      then show ?thesis using fanout_sub_ok [OF fan _ _ x act sub x' revoked] by blast
    next
      case False
      then have off: "\<not> registered b i" using ok(2) by (auto simp: registered_iff)
      then have "i \<notin> set (snapshotSubscriptions b)" using set_snapshotSubscriptions [of b] by (cases "eb_closed b") (auto simp: snapshotSubscriptions_def)
      then have "x' = x" using fanout_loop_outside [OF loop] x x'(1) by (simp add: b')
      then show ?thesis using sub off reg by (auto simp: sub_ok_def)
    qed
  qed
  moreover have "eb_closed b' \<longrightarrow> eb_subscriptions b' = fmempty"
  proof
    assume "eb_closed b'"
    then have "eb_closed b" using frame by (simp add: b')
    then have "b' = b" using loop by (auto simp: b' snapshotSubscriptions_def)
    then show "eb_subscriptions b' = fmempty" using ok(2) \<open>eb_closed b\<close> by simp
  qed
  moreover have "bus_ok b'" using fanout_bus_ok [OF ok(1) loop] by (simp add: b')
  ultimately show ?thesis by (simp add: bus_inv_def)
qed

lemma VisibleScopeIDs_cong:
  assumes "sv_persistent v = sv_persistent w"
  shows "VisibleScopeIDs u v = VisibleScopeIDs u w"
proof -
  have "knownUser u v = knownUser u w" "isOwner u v = isOwner u w" using assms by (simp_all add: knownUser_def isOwner_def)
  moreover have "hasRoleAtGroup u k g v = hasRoleAtGroup u k g w" "hasRoleAtChannel u k c v = hasRoleAtChannel u k c w" for k g c
    using assms by (simp_all add: hasRoleAtGroup_def hasRoleAtChannel_def)
  moreover from this have "matchesGroupAccess u g v = matchesGroupAccess u g w" "matchesChannelAccess u c v = matchesChannelAccess u c w" for g c
    using assms by (simp_all only: matchesGroupAccess_def matchesChannelAccess_def)
  ultimately have see: "CanSeeGroup u g v = CanSeeGroup u g w" and access: "CanAccessChannel u c v = CanAccessChannel u c w" for g c
    using assms by (simp_all only: CanSeeGroup_def CanAccessChannel_def)
  show ?thesis unfolding VisibleScopeIDs_def see access knownUser_def assms ..
qed

lemma reserve_revoked:
  assumes "reserveLocked js sha256 now p request = Return res" "lists_affected p request"
  shows "set (VisibleScopeIDs u (pb_state p)) - set (VisibleScopeIDs u (rs_Version res)) \<subseteq> set (vc_Revoked (change_of (rs_VisibilityChanges res) u))"
proof -
  from assms(1) obtain candidate changes epochs templates events where
    c: "rq_Candidate request = Some candidate" and v: "visibilityChanges (pb_state p) (sd_version candidate) (rq_VisibilityUserIDs request) = Return (changes, epochs)"
    and ch: "rs_VisibilityChanges res = changes"
    by (rule reserveLocked_Return)
  have "sv_persistent (rs_Version res) = sv_persistent (sd_version candidate)" using reserve_reserved [OF assms(1)] c by (auto simp: reserved_def)
  then have after: "VisibleScopeIDs u (rs_Version res) = VisibleScopeIDs u (sd_version candidate)" by (rule VisibleScopeIDs_cong)
  let ?d = "DiffScopes u (pb_state p) (sd_version candidate)"
  have "vc_Revoked (change_of changes u) = vc_Revoked ?d"
  proof (cases "Changed ?d")
    case True
    then have "u \<in> set (rq_VisibilityUserIDs request)" using assms(2) c by (simp add: lists_affected_def)
    then show ?thesis using visibilityChanges_spec [OF v, of u] True by (simp add: change_of_def)
  next
    case False
    then show ?thesis using visibilityChanges_spec [OF v, of u] by (simp add: change_of_def Changed_def)
  qed
  then show ?thesis using Diff_sets(2) [of u "pb_state p" "sd_version candidate"] by (simp add: ch after)
qed

lemma commit_fanout:
  assumes "CommitPublication js hmac sha256 now p request = ((None, p'), result)" "pb_eventBus p = Some b"
  obtains res gone b' where "reserveLocked js sha256 now p request = Return res" "pb_state p' = rs_Version res"
    "fanout js hmac b (rs_Version res) (rs_Events res) (rs_VisibilityChanges res) = (None, gone, b')"
    "pb_eventBus p' = Some (foldl DisconnectSlowConsumer b' gone)"
  using assms by (auto simp: CommitPublication_def publish_def Let_def split: outcome.splits option.splits prod.splits)

lemma delivery_run_inv: "delivery_run js hmac sha256 p \<Longrightarrow> \<exists>b. pb_eventBus p = Some b \<and> bus_inv (pb_state p) b"
proof (induction rule: delivery_run.induct)
  case (start p signer)
  then show ?case by (simp add: NewEventBus_def bus_inv_def bus_ok_def)
next
  case (bus p b b')
  then show ?case using bus_inv_step by auto
next
  case (commit p request now p' result)
  then obtain b where b: "pb_eventBus p = Some b" "bus_inv (pb_state p) b" by blast
  from commit.hyps(3) b(1) obtain res gone b' where r: "reserveLocked js sha256 now p request = Return res" "pb_state p' = rs_Version res"
    "fanout js hmac b (rs_Version res) (rs_Events res) (rs_VisibilityChanges res) = (None, gone, b')"
    "pb_eventBus p' = Some (foldl DisconnectSlowConsumer b' gone)" by (rule commit_fanout)
  have "bus_inv (rs_Version res) b'" using bus_inv_fanout [OF b(2) r(3)] reserve_revoked [OF r(1) commit.hyps(2)] by blast
  then show ?case using r by simp
qed

text \<open>C10. Whatever connections come, synchronize, fall behind and leave, and whatever is published, ordinary payload that still waits
  for an active subscription lies in a scope its user may see in the version that is current now: both the items held back while
  it synchronizes and those in the lane its writer takes from.  Payload of a scope a publication takes away is withdrawn by that
  publication, so the next frame the writer claims is never ordinary payload of a revoked scope.\<close>

theorem delivery_respects_revocation:
  assumes "delivery_run js hmac sha256 p" "pb_eventBus p = Some b" "registered b i" "fmlookup (eb_store b) i = Some x" "sub_active x"
  shows "(sub_phase x = eventSubscriptionSyncing \<longrightarrow> items_visible (cr_UserID (sub_ref x)) (pb_state p) (sub_pending x)) \<and>
    (\<forall>l. fmlookup (eb_lanes b) (sub_ref x) = Some l \<longrightarrow>
       items_visible (cr_UserID (sub_ref x)) (pb_state p) (map wf_item (wl_queue l)) \<and>
       (\<forall>f l'. claim_frame l = (Some f, l') \<longrightarrow> qi_Policy (wf_item f) = StateDeliveryVisibleAfter \<longrightarrow>
          scope_visible (cr_UserID (sub_ref x)) (pb_state p) (qi_Scope (wf_item f))))"
proof -
  have sub: "sub_ok (pb_state p) b i x" using delivery_run_inv [OF assms(1)] assms(2,4,5) by (auto simp: bus_inv_def)
  have "items_visible (cr_UserID (sub_ref x)) (pb_state p) (lane_items l)" if "fmlookup (eb_lanes b) (sub_ref x) = Some l" for l
    using sub assms(3) that by (auto simp: sub_ok_def lane_ok_def items_visible_def list_ex_iff split: if_splits)
  moreover have "f \<in> set (wl_queue l)" if "claim_frame l = (Some f, l')" for l f l'
    using that by (auto simp: claim_frame_def split: if_splits list.splits)
  ultimately show ?thesis using sub by (auto simp: sub_ok_def lane_items_def items_visible_def ordinary_def)
qed

subsection \<open>A channel disappears while its news waits\<close>

text \<open>A user connects and synchronizes; an ordinary event of channel 21 is published and waits in the lane; then the channel is deleted.\<close>

definition news_channel :: Scope where
  "news_channel = \<lparr>sc_Type = ''channel'', sc_ID = 21\<rparr>"

definition news_with :: "EventBus \<Rightarrow> StatePublication" where
  "news_with b = example_publication\<lparr>pb_eventBus := Some b\<rparr>"

definition news_begun :: EventBus where
  "news_begun = (case beginSync example_bus example_ref (pb_state example_publication) of Return (_, b) \<Rightarrow> b | _ \<Rightarrow> example_bus)"

definition news_live :: EventBus where
  "news_live = snd (completeSync news_begun 0 [''r''])"

definition news_update :: PublicationRequest where
  "news_update = \<lparr>rq_Candidate = Some (BuildRuntimeCandidate (pb_state example_publication)),
     rq_Events = [\<lparr>tp_EventType = ''channel.updated'', tp_Scope = news_channel, tp_CausationID = 0, tp_Data = None,
       tp_DeliveryPolicy = StateDeliveryVisibleAfter, tp_VisibleBeforeUserIDs = [], tp_RecipientUserID = 0, tp_SubjectUserID = 0,
       tp_CursorVisibilityEpoch = 0, tp_HasCursorVisibilityEpoch = False\<rparr>],
     rq_VisibilityUserIDs = [], rq_CommitRuntime = None\<rparr>"

definition news_commit :: "StatePublication \<Rightarrow> PublicationRequest \<Rightarrow> StatePublication" where
  "news_commit p request = snd (fst (CommitPublication example_codec example_tag (\<lambda>_. []) 0 p request))"

definition news_updated :: StatePublication where
  "news_updated = news_commit (news_with news_live) news_update"

definition news_version :: "uint64 \<Rightarrow> (int64, Channel) fmap \<Rightarrow> StateVersion" where
  "news_version n channels = (example_state n channels)\<lparr>sv_checkpoint := (sv_checkpoint example_version)\<lparr>cp_GEID := 1\<rparr>\<rparr>"

definition news_delete :: PublicationRequest where
  "news_delete = example_request\<lparr>rq_Candidate :=
     Some \<lparr>sd_base = news_version 1 (fmupd 21 (example_channel 21 None) fmempty), sd_version = news_version 2 fmempty\<rparr>\<rparr>"

definition news_deleted :: StatePublication where
  "news_deleted = news_commit news_updated news_delete"

definition news_queue :: "StatePublication \<Rightarrow> (StateDeliveryPolicy \<times> Scope) list" where
  "news_queue p = (case pb_eventBus p of None \<Rightarrow> [] | Some b \<Rightarrow> (case fmlookup (eb_lanes b) example_ref of None \<Rightarrow> []
     | Some l \<Rightarrow> map (\<lambda>it. (qi_Policy it, qi_Scope it)) (lane_items l)))"

lemma news_bus_steps:
  "beginSync example_bus example_ref (pb_state (news_with example_bus)) = Return (0, news_begun)"
  "fmlookup (eb_lanes example_bus) example_ref = Some newWebSocketStateLane"
  "completeSync news_begun 0 [''r''] = (None, news_live)"
  by code_simp+

lemma news_first_commit:
  "fst (fst (CommitPublication example_codec example_tag (\<lambda>_. []) 0 (news_with news_live) news_update)) = None"
  "pb_state news_updated = news_version 1 (fmupd 21 (example_channel 21 None) fmempty)"
  "news_queue news_updated = [(StateDeliveryControl, \<lparr>sc_Type = [], sc_ID = 0\<rparr>), (StateDeliveryVisibleAfter, news_channel)]"
  by code_simp+

text \<open>What is observed after a commit: its error, the queue, whether the subscription is registered and active, and the user's access.\<close>

definition news_active :: "StatePublication \<Rightarrow> bool" where
  "news_active p = (case pb_eventBus p of None \<Rightarrow> False | Some b \<Rightarrow> registered b 0 \<and> fmlookup (eb_lanes b) example_ref \<noteq> None \<and>
     (case fmlookup (eb_store b) 0 of None \<Rightarrow> False | Some x \<Rightarrow> sub_active x \<and> sub_ref x = example_ref))"

definition news_observe :: "(stream_error option \<times> StatePublication) \<times> PublicationResult option \<Rightarrow> stream_error option \<times> (StateDeliveryPolicy \<times> Scope) list \<times> bool \<times> bool" where
  "news_observe r = (case r of ((err, p), _) \<Rightarrow> (err, news_queue p, news_active p, CanAccessChannel 1 21 (pb_state p)))"

lemma news_second_commit:
  "news_observe (CommitPublication example_codec example_tag (\<lambda>_. []) 0 news_updated news_delete) =
     (None, [(StateDeliveryControl, \<lparr>sc_Type = [], sc_ID = 0\<rparr>), (StateDeliveryVisibleBefore, news_channel), (StateDeliveryDirectTransition, news_channel),
        (StateDeliveryDirectTransition, news_channel), (StateDeliveryDirectTransition, server_scope)], True, False)"
  by code_simp

lemma news_deleted_facts:
  "fst (fst (CommitPublication example_codec example_tag (\<lambda>_. []) 0 news_updated news_delete)) = None"
  "(StateDeliveryVisibleAfter, news_channel) \<notin> set (news_queue news_deleted)" "news_active news_deleted" "\<not> CanAccessChannel 1 21 (pb_state news_deleted)"
  using news_second_commit by (auto simp: news_observe_def news_deleted_def news_commit_def split: prod.splits)

lemma news_commit_step: "\<lbrakk>delivery_run example_codec example_tag (\<lambda>_. []) p; lists_affected p request;
     fst (fst (CommitPublication example_codec example_tag (\<lambda>_. []) 0 p request)) = None\<rbrakk>
   \<Longrightarrow> delivery_run example_codec example_tag (\<lambda>_. []) (news_commit p request)"
  unfolding news_commit_def by (metis delivery_run.commit prod.collapse)

lemma news_affected: "lists_affected (news_with news_live) news_update" "lists_affected news_updated news_delete"
proof -
  have "\<not> Changed (DiffScopes u (pb_state example_publication) (sd_version (BuildRuntimeCandidate (pb_state example_publication))))" for u
    by (intro Diff_same VisibleScopeIDs_cong) (simp add: BuildRuntimeCandidate_def)
  then show "lists_affected (news_with news_live) news_update" by (simp add: lists_affected_def news_update_def news_with_def)
  have "\<not> Changed (DiffScopes u (news_version 1 channels) (news_version 2 fmempty))" if "u \<noteq> 1" for u channels
    using that by (intro Diff_same) (simp add: VisibleScopeIDs_def knownUser_def news_version_def example_state_def)
  then show "lists_affected news_updated news_delete"
    by (auto simp: lists_affected_def news_delete_def example_request_def news_first_commit(2))
qed

lemma news_run:
  "delivery_run example_codec example_tag (\<lambda>_. []) news_updated" "delivery_run example_codec example_tag (\<lambda>_. []) news_deleted"
proof -
  let ?run = "delivery_run example_codec example_tag (\<lambda>_. [])"
  have bus: "pb_eventBus (news_with b) = Some b" "(news_with b)\<lparr>pb_eventBus := Some b'\<rparr> = news_with b'" "pb_state (news_with b) = pb_state example_publication" for b b'
    by (simp_all add: news_with_def)
  note step = delivery_run.bus [where p = "news_with b" and b = b for b, OF _ bus(1), unfolded bus(2)]
  have "?run (news_with (NewEventBus example_signer))" by (rule delivery_run.start) (simp add: news_with_def)
  then have "?run (news_with example_bus)"
    unfolding example_bus_def by (rule step) (use bus_step.connect [of "NewEventBus example_signer" example_ref] in \<open>simp add: NewEventBus_def\<close>)
  then have "?run (news_with news_begun)"
    by (rule step) (use bus_step.begin_sync [OF news_bus_steps(1)] news_bus_steps(2) in \<open>simp add: bus(3) lane_items_def newWebSocketStateLane_def\<close>)
  then have "?run (news_with news_live)" by (rule step) (rule bus_step.complete_sync [OF news_bus_steps(3)])
  then show updated: "?run news_updated" unfolding news_updated_def by (rule news_commit_step [OF _ news_affected(1) news_first_commit(1)])
  show "?run news_deleted" unfolding news_deleted_def by (rule news_commit_step [OF updated news_affected(2) news_deleted_facts(1)])
qed

theorem delivery_respects_revocation_witness:
  "\<exists>b x l. pb_eventBus news_deleted = Some b \<and> fmlookup (eb_store b) 0 = Some x \<and> fmlookup (eb_lanes b) (sub_ref x) = Some l \<and>
     items_visible 1 (pb_state news_deleted) (map wf_item (wl_queue l)) \<and> \<not> scope_visible 1 (pb_state news_deleted) news_channel \<and>
     (StateDeliveryVisibleAfter, news_channel) \<in> set (news_queue news_updated) \<and> (StateDeliveryVisibleAfter, news_channel) \<notin> set (news_queue news_deleted)"
proof -
  obtain b x l where b: "pb_eventBus news_deleted = Some b" "registered b 0" "fmlookup (eb_store b) 0 = Some x" "sub_active x" "sub_ref x = example_ref"
    "fmlookup (eb_lanes b) example_ref = Some l"
    using news_deleted_facts(3) by (auto simp: news_active_def split: option.splits)
  have "\<not> scope_visible 1 (pb_state news_deleted) news_channel" using news_deleted_facts(4) by (simp add: scope_visible_def news_channel_def)
  moreover have "cr_UserID example_ref = 1" by (simp add: example_ref_def)
  ultimately show ?thesis
    using delivery_respects_revocation [OF news_run(2) b(1-4)] b news_first_commit(3) news_deleted_facts(2) by (intro exI [of _ b] exI [of _ x] exI [of _ l]) simp
qed

end
