(* ===== verification/Sequencer.thy ===== *)
theory Sequencer
  imports Commit
begin

text \<open>
  The post-commit sequencer (\<^verbatim>\<open>internal/realtime/sequencer.go\<close>): the single writer between database
  transactions and state publication.  The callbacks of a command belong to its submitter.  Here a command
  carries what its callbacks do: the calls \<^verbatim>\<open>Execute\<close> makes on its execution, in order and with the
  result of each transaction commit, and how each callback ends.  A callback that reacts to what it is told is one such
  list in each of its runs, so a statement about every list covers it.  \<^verbatim>\<open>Execute\<close> is taken to use
  its execution from one goroutine.  The publication lock, held from a reservation to its completion, is part
  of the state, as \<open>sq_lock\<close>; a call that would wait for it is \<open>None\<close>.
\<close>

section \<open>Definitions\<close>

subsection \<open>Commands\<close>

definition MaxSequencerQueueItems :: nat where "MaxSequencerQueueItems = 1024"
definition MaxSequencerQueueBytes :: int where "MaxSequencerQueueBytes = 4 * 2 ^ 20"
definition MaxControlTeardownQueueItems :: nat where "MaxControlTeardownQueueItems = 1024"
definition MaxControlPlansPerItem :: nat where "MaxControlPlansPerItem = 64"

datatype seq_error = ErrInvalidSequencer | ErrCommandQueueFull | ErrSequencerClosed | ErrSequencerFailed seq_error | ErrCommandPanic
  | ErrCommandNotCommitted | PublicationError stream_error | CallbackError nat | ContextError | NextIDError

datatype tx_outcome = TxCommitted | TxFailed nat | TxPanicked

datatype exec_call = CallReserve int64 PublicationRequest | CallReservedResult | CallCommit tx_outcome | CallCommitNoop tx_outcome
  | CallMarkRuntimeReady | CallMarkNoop | CallCompletionContext

datatype callback = CallbackReturns | CallbackFails nat | CallbackPanics

datatype acquire_outcome = AcquireFails nat | AcquireNil | AcquirePanics | Acquired bool

record CommandOutput =
  co_Value :: nat
  co_BeforePublish :: "callback option"
  co_AfterPublish :: "callback option"

datatype execute_end = ExecuteReturns CommandOutput | ExecuteFails nat | ExecutePanics

record PostCommitCommand =
  pc_QueueBytes :: int
  pc_CommandID :: int64
  pc_Acquire :: "acquire_outcome option"
  pc_calls :: "exec_call list"
  pc_end :: execute_end

text \<open>The identifier of a queued command stands for its completion channel.\<close>

record queuedCommand =
  qc_id :: nat
  qc_command :: PostCommitCommand

record controlBatch =
  cb_commands :: "queuedCommand list"
  cb_bytes :: int

record CommandCompletion =
  cc_CommandID :: int64
  cc_Publication :: "PublicationResult option"
  cc_Value :: nat

text \<open>What the outside decides while a command runs: the context at its three checks and the next identifier.\<close>

record command_env =
  ce_startCanceled :: bool
  ce_nextID :: "int64 option"
  ce_readyCanceled :: bool
  ce_publishCanceled :: bool

subsection \<open>The execution of one command\<close>

record PublicationReservation =
  rv_result :: PublicationResult
  rv_runtimeCommit :: "stream_error option"
  rv_completed :: bool

record CommandExecution =
  ex_commandID :: int64
  ex_reservation :: "PublicationReservation option"
  ex_committing :: bool
  ex_persistent :: bool
  ex_runtimeReady :: bool
  ex_noop :: bool
  ex_published :: bool

record PostCommitSequencer =
  sq_publication :: StatePublication
  sq_lock :: bool
  sq_commands :: "queuedCommand list"
  sq_controls :: "controlBatch list"
  sq_accepting :: bool
  sq_closed :: bool
  sq_failure :: "seq_error option"
  sq_queuedBytes :: int
  sq_controlBytes :: int
  sq_progress :: bool
  sq_fatal :: "seq_error list"

definition with_causation :: "int64 \<Rightarrow> PublicationRequest \<Rightarrow> PublicationRequest" where
  "with_causation commandID request = request\<lparr>rq_Events := map (\<lambda>t. t\<lparr>tp_CausationID := commandID\<rparr>) (rq_Events request)\<rparr>"

definition ReserveExecution :: "codec \<Rightarrow> digest_function \<Rightarrow> int64 \<Rightarrow> PostCommitSequencer \<Rightarrow> CommandExecution \<Rightarrow> PublicationRequest
    \<Rightarrow> ((seq_error, PublicationResult) outcome \<times> PostCommitSequencer \<times> CommandExecution) option" where
  "ReserveExecution js sha256 now s e request =
     (if ex_reservation e \<noteq> None \<or> ex_persistent e \<or> ex_runtimeReady e \<or> ex_published e then Some (Fail ErrInvalidSequencer, s, e)
      else if sq_lock s then None
      else case reserveLocked js sha256 now (sq_publication s) (with_causation (ex_commandID e) request) of
             Return result \<Rightarrow> Some (Return result, s\<lparr>sq_lock := True\<rparr>,
               e\<lparr>ex_reservation := Some \<lparr>rv_result = result, rv_runtimeCommit = rq_CommitRuntime request, rv_completed = False\<rparr>\<rparr>)
           | Fail err \<Rightarrow> Some (Fail (PublicationError err), s, e)
           | Panic \<Rightarrow> Some (Panic, s\<lparr>sq_lock := True\<rparr>, e))"

definition ReservedResult :: "CommandExecution \<Rightarrow> (seq_error, PublicationResult) outcome" where
  "ReservedResult e =
     (case ex_reservation e of None \<Rightarrow> Fail ErrCommandNotCommitted
      | Some r \<Rightarrow> if ex_committing e \<or> ex_persistent e \<or> ex_runtimeReady e \<or> ex_published e then Fail ErrCommandNotCommitted else Return (rv_result r))"

definition CommitExecution :: "tx_outcome \<Rightarrow> CommandExecution \<Rightarrow> (seq_error, unit) outcome \<times> CommandExecution" where
  "CommitExecution tx e =
     (if ex_reservation e = None \<or> ex_committing e \<or> ex_persistent e \<or> ex_runtimeReady e \<or> ex_published e then (Fail ErrCommandNotCommitted, e)
      else let e1 = e\<lparr>ex_committing := True\<rparr>
           in case tx of TxFailed err \<Rightarrow> (Fail (CallbackError err), e1\<lparr>ex_committing := False\<rparr>)
              | TxPanicked \<Rightarrow> (Panic, e1)
              | TxCommitted \<Rightarrow> (Return (), e1\<lparr>ex_committing := False, ex_persistent := True\<rparr>))"

definition CommitNoop :: "tx_outcome \<Rightarrow> CommandExecution \<Rightarrow> (seq_error, unit) outcome \<times> CommandExecution" where
  "CommitNoop tx e =
     (if ex_reservation e \<noteq> None \<or> ex_committing e \<or> ex_persistent e \<or> ex_runtimeReady e \<or> ex_noop e \<or> ex_published e then (Fail ErrCommandNotCommitted, e)
      else let e1 = e\<lparr>ex_committing := True\<rparr>
           in case tx of TxFailed err \<Rightarrow> (Fail (CallbackError err), e1\<lparr>ex_committing := False\<rparr>)
              | TxPanicked \<Rightarrow> (Panic, e1)
              | TxCommitted \<Rightarrow> (Return (), e1\<lparr>ex_committing := False, ex_noop := True\<rparr>))"

definition MarkRuntimeReady :: "CommandExecution \<Rightarrow> (seq_error, unit) outcome \<times> CommandExecution" where
  "MarkRuntimeReady e =
     (if ex_reservation e = None \<or> ex_committing e \<or> ex_persistent e \<or> ex_runtimeReady e \<or> ex_published e then (Fail ErrCommandNotCommitted, e)
      else (Return (), e\<lparr>ex_runtimeReady := True\<rparr>))"

definition MarkNoop :: "CommandExecution \<Rightarrow> (seq_error, unit) outcome \<times> CommandExecution" where
  "MarkNoop e =
     (if ex_reservation e \<noteq> None \<or> ex_committing e \<or> ex_persistent e \<or> ex_runtimeReady e \<or> ex_noop e \<or> ex_published e then (Fail ErrCommandNotCommitted, e)
      else (Return (), e\<lparr>ex_noop := True\<rparr>))"

definition CompletionContext :: "CommandExecution \<Rightarrow> (seq_error, unit) outcome" where
  "CompletionContext e = (if \<not> ex_persistent e then Fail ErrCommandNotCommitted else Return ())"

definition AbortReservation :: "PostCommitSequencer \<Rightarrow> PublicationReservation \<Rightarrow> PostCommitSequencer \<times> PublicationReservation" where
  "AbortReservation s r = (if rv_completed r then (s, r) else (s\<lparr>sq_lock := False\<rparr>, r\<lparr>rv_completed := True\<rparr>))"

definition abort_execution :: "PostCommitSequencer \<Rightarrow> CommandExecution \<Rightarrow> PostCommitSequencer \<times> CommandExecution" where
  "abort_execution s e =
     (case ex_reservation e of None \<Rightarrow> (s, e)
      | Some r \<Rightarrow>
          if ex_committing e \<or> ex_persistent e \<and> ex_published e then (s, e)
          else let (s', r') = AbortReservation s r in (s', e\<lparr>ex_reservation := Some r'\<rparr>))"

text \<open>The calls of \<^verbatim>\<open>Execute\<close>; the boolean says that one of them panicked, which ends the callback.\<close>

definition exec_call :: "codec \<Rightarrow> digest_function \<Rightarrow> PostCommitSequencer \<Rightarrow> CommandExecution \<Rightarrow> exec_call
    \<Rightarrow> (bool \<times> PostCommitSequencer \<times> CommandExecution) option" where
  "exec_call js sha256 s e call =
     (case call of
        CallReserve now request \<Rightarrow> (case ReserveExecution js sha256 now s e request of None \<Rightarrow> None | Some (r, s', e') \<Rightarrow> Some (r = Panic, s', e'))
      | CallReservedResult \<Rightarrow> Some (ReservedResult e = Panic, s, e)
      | CallCommit tx \<Rightarrow> (let (r, e') = CommitExecution tx e in Some (r = Panic, s, e'))
      | CallCommitNoop tx \<Rightarrow> (let (r, e') = CommitNoop tx e in Some (r = Panic, s, e'))
      | CallMarkRuntimeReady \<Rightarrow> Some (False, s, snd (MarkRuntimeReady e))
      | CallMarkNoop \<Rightarrow> Some (False, s, snd (MarkNoop e))
      | CallCompletionContext \<Rightarrow> Some (CompletionContext e = Panic, s, e))"

fun exec_calls :: "codec \<Rightarrow> digest_function \<Rightarrow> PostCommitSequencer \<Rightarrow> CommandExecution \<Rightarrow> exec_call list
    \<Rightarrow> (bool \<times> PostCommitSequencer \<times> CommandExecution) option" where
  "exec_calls js sha256 s e [] = Some (False, s, e)"
| "exec_calls js sha256 s e (call # calls) =
     (case exec_call js sha256 s e call of None \<Rightarrow> None
      | Some (True, s', e') \<Rightarrow> Some (True, s', e')
      | Some (False, s', e') \<Rightarrow> exec_calls js sha256 s' e' calls)"

subsection \<open>Running a command\<close>

definition fail_sequencer :: "seq_error \<Rightarrow> PostCommitSequencer \<Rightarrow> PostCommitSequencer" where
  "fail_sequencer err s =
     (if sq_failure s \<noteq> None then s
      else s\<lparr>sq_failure := Some err, sq_accepting := False, sq_closed := True, sq_fatal := sq_fatal s @ [err]\<rparr>)"

type_synonym exec_result = "(seq_error, CommandCompletion) outcome \<times> PostCommitSequencer \<times> CommandExecution"

definition fatal :: "seq_error \<Rightarrow> PostCommitSequencer \<Rightarrow> CommandExecution \<Rightarrow> exec_result" where
  "fatal err s e = (Fail (ErrSequencerFailed err), fail_sequencer (ErrSequencerFailed err) s, e)"

definition aborted :: "seq_error \<Rightarrow> PostCommitSequencer \<Rightarrow> CommandExecution \<Rightarrow> exec_result" where
  "aborted err s e = (let (s', e') = abort_execution s e in (Fail err, s', e'))"

definition publish_reservation :: "codec \<Rightarrow> tag_function \<Rightarrow> bool \<Rightarrow> PostCommitSequencer \<Rightarrow> PublicationReservation
    \<Rightarrow> stream_error option \<times> PostCommitSequencer \<times> PublicationReservation" where
  "publish_reservation js hmac canceled s r =
     (if rv_completed r then (Some ErrInvalidPublication, s, r)
      else let (err, p) = publish js hmac canceled (rv_runtimeCommit r) (sq_publication s) (rv_result r)
           in (err, s\<lparr>sq_publication := p, sq_lock := False\<rparr>, r\<lparr>rv_completed := True\<rparr>))"

text \<open>From the publication to the return of \<^verbatim>\<open>execute\<close>.\<close>

definition publish_phase :: "codec \<Rightarrow> tag_function \<Rightarrow> command_env \<Rightarrow> PostCommitSequencer \<Rightarrow> CommandExecution \<Rightarrow> CommandOutput \<Rightarrow> PublicationReservation
    \<Rightarrow> exec_result" where
  "publish_phase js hmac env s e output r =
     (let runtime = (ex_runtimeReady e \<and> \<not> ex_persistent e);
          (err, s1, r1) = publish_reservation js hmac (runtime \<and> ce_publishCanceled env) s r;
          e1 = e\<lparr>ex_reservation := Some r1\<rparr>
      in case err of
           Some x \<Rightarrow> if runtime \<and> x = ErrCanceled then (Fail (PublicationError x), s1, e1) else fatal (PublicationError x) s1 e1
         | None \<Rightarrow>
             let e2 = e1\<lparr>ex_published := True\<rparr>
             in case co_AfterPublish output of
                  Some (CallbackFails n) \<Rightarrow> fatal (CallbackError n) s1 e2
                | Some CallbackPanics \<Rightarrow> (Panic, s1, e2)
                | _ \<Rightarrow> (Return \<lparr>cc_CommandID = ex_commandID e, cc_Publication = Some (rv_result r), cc_Value = co_Value output\<rparr>, s1, e2))"

text \<open>From the return of \<^verbatim>\<open>Execute\<close> without an error.\<close>

definition complete_phase :: "codec \<Rightarrow> tag_function \<Rightarrow> command_env \<Rightarrow> PostCommitSequencer \<Rightarrow> CommandExecution \<Rightarrow> CommandOutput \<Rightarrow> exec_result" where
  "complete_phase js hmac env s e output =
     (if ex_noop e
      then (if ex_reservation e \<noteq> None \<or> ex_persistent e \<or> ex_runtimeReady e then aborted ErrCommandNotCommitted s e
            else (Return \<lparr>cc_CommandID = ex_commandID e, cc_Publication = None, cc_Value = co_Value output\<rparr>, s, e))
      else case ex_reservation e of None \<Rightarrow> aborted ErrCommandNotCommitted s e
        | Some r \<Rightarrow>
            if \<not> ex_persistent e \<and> \<not> ex_runtimeReady e then aborted ErrCommandNotCommitted s e
            else if ex_runtimeReady e \<and> \<not> ex_persistent e \<and> ce_readyCanceled env then aborted ContextError s e
            else if co_BeforePublish output \<noteq> None \<and> \<not> ex_persistent e then aborted ErrCommandNotCommitted s e
            else case co_BeforePublish output of
                   Some (CallbackFails n) \<Rightarrow> (let (s', e') = abort_execution s e in fatal (CallbackError n) s' e')
                 | Some CallbackPanics \<Rightarrow> (Panic, s, e)
                 | _ \<Rightarrow> publish_phase js hmac env s e output r)"

definition execute_phase :: "codec \<Rightarrow> tag_function \<Rightarrow> digest_function \<Rightarrow> command_env \<Rightarrow> PostCommitSequencer \<Rightarrow> CommandExecution \<Rightarrow> PostCommitCommand
    \<Rightarrow> exec_result option" where
  "execute_phase js hmac sha256 env s e c =
     (case exec_calls js sha256 s e (pc_calls c) of None \<Rightarrow> None
      | Some (True, s1, e1) \<Rightarrow> Some (Panic, s1, e1)
      | Some (False, s1, e1) \<Rightarrow>
          (case pc_end c of ExecutePanics \<Rightarrow> Some (Panic, s1, e1)
           | ExecuteFails n \<Rightarrow> Some (if ex_persistent e1 then fatal (CallbackError n) s1 e1 else aborted (CallbackError n) s1 e1)
           | ExecuteReturns output \<Rightarrow> Some (complete_phase js hmac env s1 e1 output)))"

text \<open>The body after \<^verbatim>\<open>Acquire\<close>: the identifier and the command itself.\<close>

definition new_execution :: CommandExecution where
  "new_execution = \<lparr>ex_commandID = 0, ex_reservation = None, ex_committing = False, ex_persistent = False, ex_runtimeReady = False, ex_noop = False,
     ex_published = False\<rparr>"

definition command_id :: "command_env \<Rightarrow> PostCommitCommand \<Rightarrow> int64 option" where
  "command_id env c = (if pc_CommandID c = 0 then ce_nextID env else Some (pc_CommandID c))"

definition identified_phase :: "codec \<Rightarrow> tag_function \<Rightarrow> digest_function \<Rightarrow> command_env \<Rightarrow> PostCommitSequencer \<Rightarrow> PostCommitCommand \<Rightarrow> exec_result option" where
  "identified_phase js hmac sha256 env s c =
     (case command_id env c of
        None \<Rightarrow> Some (Fail NextIDError, s, new_execution)
      | Some commandID \<Rightarrow> execute_phase js hmac sha256 env s (new_execution\<lparr>ex_commandID := commandID\<rparr>) c)"

text \<open>The deferred recovery of a panic.\<close>

definition recovered :: "exec_result \<Rightarrow> (seq_error, CommandCompletion) outcome \<times> PostCommitSequencer" where
  "recovered = (\<lambda>(r, s, e). case r of Panic \<Rightarrow> (Fail ErrCommandPanic, fail_sequencer ErrCommandPanic (fst (abort_execution s e))) | _ \<Rightarrow> (r, s))"

text \<open>A release function that panics turns any result into a panic.\<close>

definition released :: "bool \<Rightarrow> exec_result \<Rightarrow> exec_result" where
  "released panics = (\<lambda>(r, s, e). (if panics then Panic else r, s, e))"

definition execute :: "codec \<Rightarrow> tag_function \<Rightarrow> digest_function \<Rightarrow> command_env \<Rightarrow> PostCommitSequencer \<Rightarrow> queuedCommand
    \<Rightarrow> ((seq_error, CommandCompletion) outcome \<times> PostCommitSequencer) option" where
  "execute js hmac sha256 env s q =
     (let c = qc_command q
      in if ce_startCanceled env then Some (Fail ContextError, s)
         else case pc_Acquire c of
                Some (AcquireFails n) \<Rightarrow> Some (Fail (CallbackError n), s)
              | Some AcquireNil \<Rightarrow> Some (Fail ErrInvalidSequencer, s)
              | Some AcquirePanics \<Rightarrow> Some (recovered (Panic, s, new_execution))
              | Some (Acquired panics) \<Rightarrow> map_option (\<lambda>x. recovered (released panics x)) (identified_phase js hmac sha256 env s c)
              | None \<Rightarrow> map_option recovered (identified_phase js hmac sha256 env s c))"

definition signalProgress :: "PostCommitSequencer \<Rightarrow> PostCommitSequencer" where
  "signalProgress s = s\<lparr>sq_progress := True\<rparr>"

definition executeAndReply :: "codec \<Rightarrow> tag_function \<Rightarrow> digest_function \<Rightarrow> command_env \<Rightarrow> PostCommitSequencer \<Rightarrow> queuedCommand
    \<Rightarrow> ((seq_error, CommandCompletion) outcome \<times> PostCommitSequencer) option" where
  "executeAndReply js hmac sha256 env s q =
     (case sq_failure s of Some failure \<Rightarrow> Some (Fail failure, s)
      | None \<Rightarrow> map_option (\<lambda>(r, s'). (r, signalProgress s')) (execute js hmac sha256 env s q))"

subsection \<open>Admission\<close>

definition NewPostCommitSequencer :: "StatePublication \<Rightarrow> PostCommitSequencer" where
  "NewPostCommitSequencer p =
     \<lparr>sq_publication = p, sq_lock = False, sq_commands = [], sq_controls = [], sq_accepting = True, sq_closed = False, sq_failure = None,
      sq_queuedBytes = 0, sq_controlBytes = 0, sq_progress = False, sq_fatal = []\<rparr>"

definition refusal :: "PostCommitSequencer \<Rightarrow> seq_error" where
  "refusal s = (case sq_failure s of Some failure \<Rightarrow> failure | None \<Rightarrow> ErrSequencerClosed)"

definition enqueueCommand :: "PostCommitSequencer \<Rightarrow> queuedCommand \<Rightarrow> (seq_error, unit) outcome \<times> PostCommitSequencer" where
  "enqueueCommand s q =
     (if \<not> sq_accepting s then (Fail (refusal s), s)
      else if sq_queuedBytes s + pc_QueueBytes (qc_command q) > MaxSequencerQueueBytes then (Fail ErrCommandQueueFull, s)
      else if sq_closed s then (Panic, s)
      else if length (sq_commands s) < MaxSequencerQueueItems
      then (Return (), s\<lparr>sq_commands := sq_commands s @ [q], sq_queuedBytes := sq_queuedBytes s + pc_QueueBytes (qc_command q)\<rparr>)
      else (Fail ErrCommandQueueFull, s))"

definition enqueueControl :: "PostCommitSequencer \<Rightarrow> controlBatch \<Rightarrow> (seq_error, unit) outcome \<times> PostCommitSequencer" where
  "enqueueControl s b =
     (if \<not> sq_accepting s then (Fail (refusal s), s)
      else if sq_controlBytes s + cb_bytes b > MaxSequencerQueueBytes then (Fail ErrCommandQueueFull, s)
      else if sq_closed s then (Panic, s)
      else if length (sq_controls s) < MaxControlTeardownQueueItems
      then (Return (), s\<lparr>sq_controls := sq_controls s @ [b], sq_controlBytes := sq_controlBytes s + cb_bytes b\<rparr>)
      else (Fail ErrCommandQueueFull, s))"

definition command_valid :: "PostCommitCommand \<Rightarrow> bool" where
  "command_valid c = (pc_QueueBytes c > 0 \<and> pc_QueueBytes c \<le> MaxSequencerQueueBytes \<and> sint (pc_CommandID c) \<ge> 0)"

text \<open>The admission part of \<^verbatim>\<open>Submit\<close> and \<^verbatim>\<open>SubmitControlBatch\<close>; then the caller waits for its reply.\<close>

definition SubmitCommand :: "PostCommitSequencer \<Rightarrow> queuedCommand \<Rightarrow> (seq_error, unit) outcome \<times> PostCommitSequencer" where
  "SubmitCommand s q = (if \<not> command_valid (qc_command q) then (Fail ErrInvalidSequencer, s) else enqueueCommand s q)"

definition SubmitControlBatch :: "PostCommitSequencer \<Rightarrow> queuedCommand list \<Rightarrow> (seq_error, unit) outcome \<times> PostCommitSequencer" where
  "SubmitControlBatch s qs =
     (if qs = [] \<or> length qs > MaxControlPlansPerItem then (Fail ErrInvalidSequencer, s)
      else if \<not> list_all (\<lambda>q. command_valid (qc_command q)) qs then (Fail ErrInvalidSequencer, s)
      else enqueueControl s \<lparr>cb_commands = qs, cb_bytes = (\<Sum>q\<leftarrow>qs. pc_QueueBytes (qc_command q))\<rparr>)"

text \<open>What \<^verbatim>\<open>SubmitControlBatch\<close> returns once every command of the batch has its reply: all completions, or the first error.\<close>

fun batch_result :: "(seq_error, CommandCompletion) outcome list \<Rightarrow> (seq_error, CommandCompletion list) outcome" where
  "batch_result [] = Return []"
| "batch_result (r # rs) = outcome_bind r (\<lambda>c. outcome_bind (batch_result rs) (\<lambda>cs. Return (c # cs)))"

definition CloseSequencer :: "PostCommitSequencer \<Rightarrow> PostCommitSequencer" where
  "CloseSequencer s = s\<lparr>sq_accepting := False, sq_closed := True\<rparr>"

definition QueueDepth :: "PostCommitSequencer \<Rightarrow> nat" where "QueueDepth s = length (sq_commands s)"
definition QueuedBytes :: "PostCommitSequencer \<Rightarrow> int" where "QueuedBytes s = sq_queuedBytes s"

subsection \<open>The worker\<close>

text \<open>
  \<^verbatim>\<open>run\<close> step by step: a receive, the byte accounting under the mutex, one \<^verbatim>\<open>executeAndReply\<close>.  The two
  booleans are the local channel variables that the loop sets to nil.  A closed channel still delivers what it
  holds.  The choice is the ready case \<^verbatim>\<open>select\<close> takes.  Other goroutines act between the steps; they only
  touch the queues, the counters and the failure, so running one command is one step.
\<close>

datatype choice = Tick | TakeControl | TakeCommand

datatype worker = WIdle | WGot queuedCommand | WGotBatch controlBatch | WRun bool "queuedCommand list" | WDone

record sequencer_system =
  sy_seq :: PostCommitSequencer
  sy_worker :: worker
  sy_commandsOpen :: bool
  sy_controlsOpen :: bool
  sy_admittedCommands :: "queuedCommand list"
  sy_admittedControls :: "queuedCommand list"
  sy_replies :: "(bool \<times> queuedCommand \<times> (seq_error, CommandCompletion) outcome) list"

definition take_control :: "sequencer_system \<Rightarrow> sequencer_system option" where
  "take_control y =
     (if \<not> sy_controlsOpen y then None
      else case sq_controls (sy_seq y) of
             b # bs \<Rightarrow> Some (y\<lparr>sy_seq := (sy_seq y)\<lparr>sq_controls := bs\<rparr>, sy_worker := WGotBatch b\<rparr>)
           | [] \<Rightarrow> if sq_closed (sy_seq y) then Some (y\<lparr>sy_controlsOpen := False\<rparr>) else None)"

definition take_command :: "sequencer_system \<Rightarrow> sequencer_system option" where
  "take_command y =
     (if \<not> sy_commandsOpen y then None
      else case sq_commands (sy_seq y) of
             q # qs \<Rightarrow> Some (y\<lparr>sy_seq := (sy_seq y)\<lparr>sq_commands := qs\<rparr>, sy_worker := WGot q\<rparr>)
           | [] \<Rightarrow> if sq_closed (sy_seq y) then Some (y\<lparr>sy_commandsOpen := False\<rparr>) else None)"

definition run_step :: "codec \<Rightarrow> tag_function \<Rightarrow> digest_function \<Rightarrow> command_env \<Rightarrow> choice \<Rightarrow> sequencer_system \<Rightarrow> sequencer_system option" where
  "run_step js hmac sha256 env choice y =
     (let s = sy_seq y
      in case sy_worker y of
           WIdle \<Rightarrow>
             if \<not> sy_commandsOpen y \<and> \<not> sy_controlsOpen y then Some (y\<lparr>sy_worker := WDone\<rparr>)
             else (case choice of Tick \<Rightarrow> Some (y\<lparr>sy_seq := signalProgress s\<rparr>) | TakeControl \<Rightarrow> take_control y | TakeCommand \<Rightarrow> take_command y)
         | WGot q \<Rightarrow> Some (y\<lparr>sy_seq := s\<lparr>sq_queuedBytes := sq_queuedBytes s - pc_QueueBytes (qc_command q)\<rparr>, sy_worker := WRun False [q]\<rparr>)
         | WGotBatch b \<Rightarrow> Some (y\<lparr>sy_seq := s\<lparr>sq_controlBytes := sq_controlBytes s - cb_bytes b\<rparr>, sy_worker := WRun True (cb_commands b)\<rparr>)
         | WRun control [] \<Rightarrow> Some (y\<lparr>sy_worker := WIdle\<rparr>)
         | WRun control (q # qs) \<Rightarrow>
             (case executeAndReply js hmac sha256 env s q of None \<Rightarrow> None
              | Some (r, s') \<Rightarrow> Some (y\<lparr>sy_seq := s', sy_worker := WRun control qs, sy_replies := sy_replies y @ [(control, q, r)]\<rparr>))
         | WDone \<Rightarrow> None)"

definition start_sequencer :: "StatePublication \<Rightarrow> sequencer_system" where
  "start_sequencer p =
     \<lparr>sy_seq = NewPostCommitSequencer p, sy_worker = WIdle, sy_commandsOpen = True, sy_controlsOpen = True, sy_admittedCommands = [],
      sy_admittedControls = [], sy_replies = []\<rparr>"

definition submit_step :: "queuedCommand \<Rightarrow> sequencer_system \<Rightarrow> (seq_error, unit) outcome \<times> sequencer_system" where
  "submit_step q y =
     (let (r, s') = SubmitCommand (sy_seq y) q
      in (r, y\<lparr>sy_seq := s', sy_admittedCommands := sy_admittedCommands y @ (if r = Return () then [q] else [])\<rparr>))"

definition control_step :: "queuedCommand list \<Rightarrow> sequencer_system \<Rightarrow> (seq_error, unit) outcome \<times> sequencer_system" where
  "control_step qs y =
     (let (r, s') = SubmitControlBatch (sy_seq y) qs
      in (r, y\<lparr>sy_seq := s', sy_admittedControls := sy_admittedControls y @ (if r = Return () then qs else [])\<rparr>))"

section \<open>Theorems\<close>

subsection \<open>One command\<close>

lemma fail_sequencer_simps [simp]:
  "sq_publication (fail_sequencer err s) = sq_publication s" "sq_lock (fail_sequencer err s) = sq_lock s"
  "sq_commands (fail_sequencer err s) = sq_commands s" "sq_controls (fail_sequencer err s) = sq_controls s"
  "sq_queuedBytes (fail_sequencer err s) = sq_queuedBytes s" "sq_controlBytes (fail_sequencer err s) = sq_controlBytes s"
  by (simp_all add: fail_sequencer_def)

text \<open>What the calls of a callback establish: the execution has at most one reservation, made from the publication the
  command started with, and the lock is held exactly for it, unless the last call panicked.\<close>

definition made_by :: "codec \<Rightarrow> digest_function \<Rightarrow> StatePublication \<Rightarrow> exec_call list \<Rightarrow> int64 \<Rightarrow> PublicationReservation \<Rightarrow> bool" where
  "made_by js sha256 p calls commandID r \<longleftrightarrow> (\<exists>now request. CallReserve now request \<in> set calls \<and> rv_runtimeCommit r = rq_CommitRuntime request \<and>
     reserveLocked js sha256 now p (with_causation commandID request) = Return (rv_result r))"

lemma made_by_more: "made_by js sha256 p calls i r \<Longrightarrow> set calls \<subseteq> set calls' \<Longrightarrow> made_by js sha256 p calls' i r"
  unfolding made_by_def by blast

definition exec_ok :: "codec \<Rightarrow> digest_function \<Rightarrow> StatePublication \<Rightarrow> exec_call list \<Rightarrow> bool \<Rightarrow> bool \<Rightarrow> CommandExecution \<Rightarrow> bool" where
  "exec_ok js sha256 p calls panicked lock e \<longleftrightarrow> \<not> ex_published e \<and> (ex_committing e \<longrightarrow> panicked) \<and> \<not> (ex_persistent e \<and> ex_runtimeReady e) \<and>
     (\<not> panicked \<longrightarrow> lock = (ex_reservation e \<noteq> None)) \<and>
     (case ex_reservation e of None \<Rightarrow> \<not> ex_persistent e \<and> \<not> ex_runtimeReady e
      | Some r \<Rightarrow> \<not> rv_completed r \<and> made_by js sha256 p calls (ex_commandID e) r)"

lemma exec_ok_more: "exec_ok js sha256 p calls b l e \<Longrightarrow> set calls \<subseteq> set calls' \<Longrightarrow> exec_ok js sha256 p calls' b l e"
  using made_by_more by (fastforce simp: exec_ok_def split: option.splits)

lemma exec_call_same:
  assumes "exec_ok js sha256 p calls False l e" "case call of CallReserve now request \<Rightarrow> False | _ \<Rightarrow> True" "exec_call js sha256 s e call = Some (b, s', e')"
  shows "s' = s \<and> ex_commandID e' = ex_commandID e \<and> exec_ok js sha256 p calls b l e'"
  using assms by (cases call) (auto simp: exec_call_def exec_ok_def ReservedResult_def CommitExecution_def CommitNoop_def MarkRuntimeReady_def MarkNoop_def
    CompletionContext_def Let_def split: option.splits tx_outcome.splits if_splits)

lemma exec_reserve:
  assumes ok: "exec_ok js sha256 (sq_publication s) calls False (sq_lock s) e"
  obtains r l e' where "ReserveExecution js sha256 now s e request = Some (r, s\<lparr>sq_lock := l\<rparr>, e')" "ex_commandID e' = ex_commandID e"
    "exec_ok js sha256 (sq_publication s) (calls @ [CallReserve now request]) (r = Panic) l e'"
proof (cases "ex_reservation e \<noteq> None \<or> ex_persistent e \<or> ex_runtimeReady e \<or> ex_published e")
  case True
  then show ?thesis using that [of "Fail ErrInvalidSequencer" "sq_lock s" e] exec_ok_more [OF ok] by (simp add: ReserveExecution_def subset_insertI)
next
  case False
  then have free: "\<not> sq_lock s" using ok by (simp add: exec_ok_def)
  show ?thesis
  proof (cases "reserveLocked js sha256 now (sq_publication s) (with_causation (ex_commandID e) request)")
    case (Return result)
    show ?thesis
      by (rule that [of "Return result" True "e\<lparr>ex_reservation := Some \<lparr>rv_result = result, rv_runtimeCommit = rq_CommitRuntime request, rv_completed = False\<rparr>\<rparr>"])
        (use False free Return ok in \<open>auto simp: ReserveExecution_def exec_ok_def made_by_def\<close>)
  next
    case (Fail err)
    show ?thesis
      by (rule that [of "Fail (PublicationError err)" "sq_lock s" e]) (use False free Fail exec_ok_more [OF ok, of "calls @ [CallReserve now request]"] in \<open>auto simp: ReserveExecution_def\<close>)
  next
    case Panic
    show ?thesis by (rule that [of Panic True e]) (use False free Panic ok in \<open>auto simp: ReserveExecution_def exec_ok_def\<close>)
  qed
qed

lemma exec_call_ok:
  assumes ok: "exec_ok js sha256 (sq_publication s) calls False (sq_lock s) e"
  obtains b l e' where "exec_call js sha256 s e call = Some (b, s\<lparr>sq_lock := l\<rparr>, e')" "ex_commandID e' = ex_commandID e"
    "exec_ok js sha256 (sq_publication s) (calls @ [call]) b l e'"
proof (cases "\<exists>now request. call = CallReserve now request")
  case True
  then obtain now request where call: "call = CallReserve now request" by blast
  from ok show ?thesis by (rule exec_reserve [where now = now and request = request]) (use that call in \<open>simp add: exec_call_def\<close>)
next
  case False
  then have call: "case call of CallReserve now request \<Rightarrow> False | _ \<Rightarrow> True" by (cases call) auto
  obtain b s' e' where step: "exec_call js sha256 s e call = Some (b, s', e')"
    by (cases "exec_call js sha256 s e call") (use call in \<open>auto simp: exec_call_def Let_def split: prod.splits exec_call.splits\<close>)
  from exec_call_same [OF ok call step] that [of b "sq_lock s" e'] step
    exec_ok_more [of js sha256 "sq_publication s" calls b "sq_lock s" e' "calls @ [call]"] show ?thesis by (simp add: subset_insertI)
qed

lemma exec_calls_ok:
  assumes "exec_ok js sha256 (sq_publication s) earlier False (sq_lock s) e"
  obtains b l e' where "exec_calls js sha256 s e calls = Some (b, s\<lparr>sq_lock := l\<rparr>, e')" "ex_commandID e' = ex_commandID e"
    "exec_ok js sha256 (sq_publication s) (earlier @ calls) b l e'"
  using assms
proof (induction calls arbitrary: s e earlier thesis)
  case Nil
  then show ?case using Nil.prems(1) [of False "sq_lock s" e] by simp
next
  case (Cons call calls)
  obtain b l e1 where step: "exec_call js sha256 s e call = Some (b, s\<lparr>sq_lock := l\<rparr>, e1)" "ex_commandID e1 = ex_commandID e"
    "exec_ok js sha256 (sq_publication s) (earlier @ [call]) b l e1" by (rule exec_call_ok [OF Cons.prems(2)])
  show ?case
  proof (cases b)
    case True
    have "exec_ok js sha256 (sq_publication s) (earlier @ call # calls) True l e1" using exec_ok_more [OF step(3), of "earlier @ call # calls"] True by auto
    then show ?thesis using Cons.prems(1) [of True l e1] step True by simp
  next
    case False
    have ok1: "exec_ok js sha256 (sq_publication (s\<lparr>sq_lock := l\<rparr>)) (earlier @ [call]) False (sq_lock (s\<lparr>sq_lock := l\<rparr>)) e1" using step(3) False by simp
    obtain b2 l2 e2 where "exec_calls js sha256 (s\<lparr>sq_lock := l\<rparr>) e1 calls = Some (b2, s\<lparr>sq_lock := l2\<rparr>, e2)" "ex_commandID e2 = ex_commandID e1"
      "exec_ok js sha256 (sq_publication s) (earlier @ call # calls) b2 l2 e2" using Cons.IH [OF _ ok1] by auto
    then show ?thesis using Cons.prems(1) [of b2 l2 e2] step False by simp
  qed
qed

text \<open>A canceled publication has changed nothing: the fan-out itself never reports a cancellation.\<close>

lemma bind_Fail: "outcome_bind m f = Fail e \<longleftrightarrow> m = Fail e \<or> (\<exists>a. m = Return a \<and> f a = Fail e)"
  by (cases m) (simp_all add: outcome_bind_def)

lemma live_item_not_canceled: "live_item js hmac sg ref v e \<noteq> Fail ErrCanceled"
proof -
  have "Issue js hmac sg u c n \<noteq> Fail ErrCanceled" for u c n by (auto simp: Issue_def Let_def split: option.splits if_splits)
  moreover have "encodeEventForRecipient js e u v c \<noteq> Fail ErrCanceled" for u c
    by (auto simp: encodeEventForRecipient_def EncodedWithDataAndCursor_def EncodedWithCursor_def bind_Fail Let_def split: option.splits if_splits)
  ultimately show ?thesis by (simp add: live_item_def Let_def bind_Fail)
qed

lemma live_loop_not_canceled: "live_loop js hmac sg ref v items bytes es \<noteq> Fail ErrCanceled"
  by (induction js hmac sg ref v items bytes es rule: live_loop.induct) (auto simp: bind_Fail live_item_not_canceled split: if_splits)

lemma fanout_loop_not_canceled: "fst (fanout_loop js hmac v events changes b slow is) \<noteq> Some ErrCanceled"
proof (induction "is" arbitrary: b slow)
  case (Cons i "is")
  have "fanout_one js hmac v events changes b i \<noteq> Fail ErrCanceled"
    by (auto simp: fanout_one_def liveItems_def bind_Fail live_loop_not_canceled Let_def split: option.splits if_splits)
  then show ?case using Cons by (auto split: outcome.splits)
qed simp

lemma publish_canceled:
  assumes "publish js hmac canceled commit p res = (Some ErrCanceled, p')"
  shows "p' = p"
proof -
  have "fanout js hmac bus v es changes \<noteq> (Some ErrCanceled, slow, bus')" for bus v es changes slow bus'
    using fanout_loop_not_canceled [of js hmac v es changes bus "[]" "snapshotSubscriptions bus"] by (auto simp: fanout_def split: prod.splits option.splits)
  then show ?thesis using assms by (auto simp: publish_def Let_def split: if_splits option.splits outcome.splits prod.splits)
qed

definition same_queues :: "PostCommitSequencer \<Rightarrow> PostCommitSequencer \<Rightarrow> bool" where
  "same_queues s s' \<longleftrightarrow> sq_commands s' = sq_commands s \<and> sq_controls s' = sq_controls s \<and> sq_queuedBytes s' = sq_queuedBytes s \<and> sq_controlBytes s' = sq_controlBytes s"

definition same_health :: "PostCommitSequencer \<Rightarrow> PostCommitSequencer \<Rightarrow> bool" where
  "same_health s s' \<longleftrightarrow> sq_failure s' = sq_failure s \<and> sq_accepting s' = sq_accepting s \<and> sq_closed s' = sq_closed s \<and> sq_fatal s' = sq_fatal s"

definition failed_with :: "seq_error \<Rightarrow> PostCommitSequencer \<Rightarrow> PostCommitSequencer \<Rightarrow> bool" where
  "failed_with err s s' \<longleftrightarrow> sq_failure s' = Some err \<and> \<not> sq_accepting s' \<and> sq_closed s' \<and> sq_fatal s' = sq_fatal s @ [err]"

text \<open>A publication moved by one of the reservations of the command.\<close>

definition moved :: "codec \<Rightarrow> tag_function \<Rightarrow> digest_function \<Rightarrow> exec_call list \<Rightarrow> int64 \<Rightarrow> stream_error option \<Rightarrow> PublicationResult \<Rightarrow> StatePublication \<Rightarrow> StatePublication \<Rightarrow> bool" where
  "moved js hmac sha256 calls commandID err res p p' \<longleftrightarrow>
     (\<exists>now request. CallReserve now request \<in> set calls \<and> CommitPublication js hmac sha256 now p (with_causation commandID request) = ((err, p'), Some res))"

text \<open>The shape of every result of the body of \<^verbatim>\<open>execute\<close>, before a panic is recovered.\<close>

definition body_ok :: "codec \<Rightarrow> tag_function \<Rightarrow> digest_function \<Rightarrow> exec_call list \<Rightarrow> PostCommitSequencer \<Rightarrow> exec_result \<Rightarrow> bool" where
  "body_ok js hmac sha256 calls s x \<longleftrightarrow> (case x of (r, s', e') \<Rightarrow> same_queues s s' \<and>
     (sq_publication s' = sq_publication s \<or> (\<exists>i err res. moved js hmac sha256 calls i err res (sq_publication s) (sq_publication s'))) \<and>
     (case r of
        Panic \<Rightarrow> same_health s s'
      | Return c \<Rightarrow> same_health s s' \<and> \<not> sq_lock s' \<and>
          (case cc_Publication c of None \<Rightarrow> sq_publication s' = sq_publication s
           | Some res \<Rightarrow> moved js hmac sha256 calls (cc_CommandID c) None res (sq_publication s) (sq_publication s'))
      | Fail err \<Rightarrow> (same_health s s' \<and> \<not> sq_lock s' \<and> sq_publication s' = sq_publication s) \<or> (\<exists>f. failed_with f s s')))"

lemma same_lock [simp]:
  "same_queues s (s'\<lparr>sq_lock := l\<rparr>) = same_queues s s'" "same_health s (s'\<lparr>sq_lock := l\<rparr>) = same_health s s'"
  "same_queues (s\<lparr>sq_lock := l\<rparr>) s' = same_queues s s'" "same_health (s\<lparr>sq_lock := l\<rparr>) s' = same_health s s'"
  "failed_with err (s\<lparr>sq_lock := l\<rparr>) s' = failed_with err s s'"
  "same_queues s (s'\<lparr>sq_publication := p\<rparr>) = same_queues s s'" "same_health s (s'\<lparr>sq_publication := p\<rparr>) = same_health s s'"
  by (simp_all add: same_queues_def same_health_def failed_with_def)

lemma same_refl [simp]: "same_queues s s" "same_health s s"
  by (simp_all add: same_queues_def same_health_def)

lemma failed_with_fail: "sq_failure s = None \<Longrightarrow> same_health s s' \<Longrightarrow> failed_with err s (fail_sequencer err s')"
  by (simp add: failed_with_def fail_sequencer_def same_health_def)

lemma same_queues_fail [simp]: "same_queues s (fail_sequencer err s') = same_queues s s'"
  by (simp add: same_queues_def)

lemma body_lock [simp]: "body_ok js hmac sha256 calls (s\<lparr>sq_lock := l\<rparr>) x = body_ok js hmac sha256 calls s x"
  by (simp add: body_ok_def split: prod.split outcome.split option.split)

lemma abort_ok:
  assumes "exec_ok js sha256 p calls False (sq_lock s) e"
  shows "\<exists>e'. abort_execution s e = (s\<lparr>sq_lock := False\<rparr>, e')"
  using assms by (auto simp: exec_ok_def abort_execution_def AbortReservation_def split: option.splits intro: exI [of _ e])

lemma aborted_ok:
  assumes "exec_ok js sha256 p calls False (sq_lock s) e"
  shows "body_ok js hmac sha256 calls s (aborted err s e)"
  using abort_ok [OF assms] by (auto simp: aborted_def body_ok_def)

lemma fatal_ok:
  assumes "sq_failure s = None" "same_queues s s'" "same_health s s'"
    "sq_publication s' = sq_publication s \<or> (\<exists>i err res. moved js hmac sha256 calls i err res (sq_publication s) (sq_publication s'))"
  shows "body_ok js hmac sha256 calls s (fatal err s' e)"
  using assms failed_with_fail [OF assms(1,3)] by (auto simp: fatal_def body_ok_def)

lemma moved_publish:
  assumes "made_by js sha256 p calls i r" "publish js hmac False (rv_runtimeCommit r) p (rv_result r) = (err, p')"
  shows "moved js hmac sha256 calls i err (rv_result r) p p'"
proof -
  obtain now request where "CallReserve now request \<in> set calls" "rv_runtimeCommit r = rq_CommitRuntime request"
    "reserveLocked js sha256 now p (with_causation i request) = Return (rv_result r)" using assms(1) by (auto simp: made_by_def)
  then have "CommitPublication js hmac sha256 now p (with_causation i request) = ((err, p'), Some (rv_result r))" "CallReserve now request \<in> set calls"
    using assms(2) by (simp_all add: CommitPublication_def with_causation_def)
  then show ?thesis unfolding moved_def by blast
qed

lemma publish_phase_ok:
  assumes ok: "exec_ok js sha256 (sq_publication s) calls False (sq_lock s) e" and healthy: "sq_failure s = None" and r: "ex_reservation e = Some r"
  shows "body_ok js hmac sha256 calls s (publish_phase js hmac env s e output r)"
proof -
  let ?runtime = "ex_runtimeReady e \<and> \<not> ex_persistent e"
  obtain err p' where pub: "publish js hmac (?runtime \<and> ce_publishCanceled env) (rv_runtimeCommit r) (sq_publication s) (rv_result r) = (err, p')" by fastforce
  have r1: "\<not> rv_completed r" "made_by js sha256 (sq_publication s) calls (ex_commandID e) r" using ok r by (auto simp: exec_ok_def)
  let ?s1 = "s\<lparr>sq_publication := p', sq_lock := False\<rparr>"
  have step: "publish_reservation js hmac (?runtime \<and> ce_publishCanceled env) s r = (err, ?s1, r\<lparr>rv_completed := True\<rparr>)"
    using r1 pub by (simp add: publish_reservation_def)
  have mv: "p' = sq_publication s \<or> moved js hmac sha256 calls (ex_commandID e) err (rv_result r) (sq_publication s) p'"
  proof (cases "?runtime \<and> ce_publishCanceled env")
    case True
    then show ?thesis using pub by (simp add: publish_def)
  next
    case False
    then have "publish js hmac False (rv_runtimeCommit r) (sq_publication s) (rv_result r) = (err, p')" using pub by (simp only: False)
    from moved_publish [OF r1(2) this] show ?thesis by simp
  qed
  show ?thesis
  proof (cases err)
    case (Some x)
    show ?thesis
    proof (cases "?runtime \<and> x = ErrCanceled")
      case True
      then have "p' = sq_publication s" using publish_canceled pub Some by simp
      then show ?thesis using step Some True by (simp add: publish_phase_def body_ok_def)
    next
      case False
      have "body_ok js hmac sha256 calls s (fatal (PublicationError x) ?s1 (e\<lparr>ex_reservation := Some (r\<lparr>rv_completed := True\<rparr>)\<rparr>))"
        by (rule fatal_ok) (use healthy mv in auto)
      then show ?thesis using step Some False by (auto simp: publish_phase_def Let_def)
    qed
  next
    case None
    then have "\<not> (?runtime \<and> ce_publishCanceled env)" using pub by (auto simp: publish_def)
    then have "publish js hmac False (rv_runtimeCommit r) (sq_publication s) (rv_result r) = (err, p')" using pub by (metis (full_types))
    then have m: "moved js hmac sha256 calls (ex_commandID e) None (rv_result r) (sq_publication s) p'" using moved_publish [OF r1(2)] None by blast
    have "body_ok js hmac sha256 calls s (fatal (CallbackError n) ?s1 e')" for n e' by (rule fatal_ok) (use healthy m in auto)
    moreover have "body_ok js hmac sha256 calls s (Panic, ?s1, e')"
      "body_ok js hmac sha256 calls s (Return \<lparr>cc_CommandID = ex_commandID e, cc_Publication = Some (rv_result r), cc_Value = n\<rparr>, ?s1, e')" for e' n
      using m by (auto simp: body_ok_def)
    ultimately show ?thesis using step None by (auto simp: publish_phase_def Let_def split: option.split callback.split)
  qed
qed

lemma complete_phase_ok:
  assumes ok: "exec_ok js sha256 (sq_publication s) calls False (sq_lock s) e" and healthy: "sq_failure s = None"
  shows "body_ok js hmac sha256 calls s (complete_phase js hmac env s e output)"
proof -
  note ab = aborted_ok [OF ok]
  have "body_ok js hmac sha256 calls s (Return \<lparr>cc_CommandID = i, cc_Publication = None, cc_Value = n\<rparr>, s, e)" if "ex_reservation e = None" for i n
    using ok that by (simp add: body_ok_def exec_ok_def)
  moreover have "body_ok js hmac sha256 calls s (let (s', e') = abort_execution s e in fatal err s' e')" for err
    using abort_ok [OF ok] fatal_ok [OF healthy] by auto
  moreover have "body_ok js hmac sha256 calls s (Panic, s, e)" by (simp add: body_ok_def)
  ultimately show ?thesis using publish_phase_ok [OF ok healthy] ab
    by (auto simp: complete_phase_def split: option.split callback.split)
qed

lemma execute_phase_ok:
  assumes "\<not> sq_lock s" "sq_failure s = None"
  obtains x where "execute_phase js hmac sha256 env s (new_execution\<lparr>ex_commandID := i\<rparr>) c = Some x" "body_ok js hmac sha256 (pc_calls c) s x"
proof -
  have "exec_ok js sha256 (sq_publication s) [] False (sq_lock s) (new_execution\<lparr>ex_commandID := i\<rparr>)"
    using assms by (simp add: exec_ok_def new_execution_def)
  then obtain b l e where calls: "exec_calls js sha256 s (new_execution\<lparr>ex_commandID := i\<rparr>) (pc_calls c) = Some (b, s\<lparr>sq_lock := l\<rparr>, e)"
    and ok: "exec_ok js sha256 (sq_publication s) (pc_calls c) b l e" by (rule exec_calls_ok [where calls = "pc_calls c"]) simp
  let ?s1 = "s\<lparr>sq_lock := l\<rparr>"
  have panic: "body_ok js hmac sha256 (pc_calls c) s (Panic, ?s1, e)" by (simp add: body_ok_def)
  show thesis
  proof (cases b)
    case True
    then show thesis using that calls panic by (simp add: execute_phase_def)
  next
    case False
    then have ok1: "exec_ok js sha256 (sq_publication ?s1) (pc_calls c) False (sq_lock ?s1) e" using ok by simp
    have "body_ok js hmac sha256 (pc_calls c) s (complete_phase js hmac env ?s1 e out)" for out
      using complete_phase_ok [OF ok1, of hmac env out] assms(2) by simp
    moreover have "body_ok js hmac sha256 (pc_calls c) s (aborted err ?s1 e)" for err using aborted_ok [OF ok1] by simp
    moreover have "body_ok js hmac sha256 (pc_calls c) s (fatal err ?s1 e)" for err by (rule fatal_ok) (use assms(2) in auto)
    ultimately show thesis using that calls False panic by (cases "pc_end c") (auto simp: execute_phase_def)
  qed
qed

text \<open>What the caller of an admitted command can rely on.\<close>

definition reply_ok :: "codec \<Rightarrow> tag_function \<Rightarrow> digest_function \<Rightarrow> exec_call list \<Rightarrow> PostCommitSequencer \<Rightarrow> (seq_error, CommandCompletion) outcome \<Rightarrow> PostCommitSequencer \<Rightarrow> bool" where
  "reply_ok js hmac sha256 calls s r s' \<longleftrightarrow> r \<noteq> Panic \<and> body_ok js hmac sha256 calls s (r, s', new_execution)"

lemma body_execution: "body_ok js hmac sha256 calls s (r, s', e) \<longleftrightarrow> body_ok js hmac sha256 calls s (r, s', e')"
  by (simp add: body_ok_def)

lemma abort_lock:
  obtains l where "fst (abort_execution s e) = s\<lparr>sq_lock := l\<rparr>"
proof (cases "fst (abort_execution s e) = s")
  case True
  then show ?thesis using that [of "sq_lock s"] by simp
next
  case False
  then show ?thesis using that [of False] by (auto simp: abort_execution_def AbortReservation_def split: option.splits if_splits)
qed

lemma recovered_ok:
  assumes "sq_failure s = None" "body_ok js hmac sha256 calls s x"
  shows "reply_ok js hmac sha256 calls s (fst (recovered x)) (snd (recovered x))"
proof -
  obtain r s' e where x: "x = (r, s', e)" by (cases x)
  show ?thesis
  proof (cases "r = Panic")
    case True
    obtain l where "fst (abort_execution s' e) = s'\<lparr>sq_lock := l\<rparr>" by (rule abort_lock)
    then show ?thesis using assms True x failed_with_fail [of s "s'\<lparr>sq_lock := l\<rparr>" ErrCommandPanic]
      by (auto simp: recovered_def reply_ok_def body_ok_def)
  next
    case False
    then show ?thesis using assms(2) x body_execution [of js hmac sha256 calls s r s' e new_execution]
      by (auto simp: recovered_def reply_ok_def split: outcome.split)
  qed
qed

lemma released_ok:
  assumes "sq_failure s = None" "body_ok js hmac sha256 calls s x"
  shows "reply_ok js hmac sha256 calls s (fst (recovered (released panics x))) (snd (recovered (released panics x)))"
proof (cases panics)
  case False
  then show ?thesis using recovered_ok [OF assms] by (cases x) (simp add: released_def)
next
  case True
  obtain r s' e where x: "x = (r, s', e)" by (cases x)
  show ?thesis
  proof (cases "\<exists>f. failed_with f s s'")
    case True
    obtain l where a: "fst (abort_execution s' e) = s'\<lparr>sq_lock := l\<rparr>" by (rule abort_lock)
    have "recovered (released panics x) = (Fail ErrCommandPanic, s'\<lparr>sq_lock := l\<rparr>)"
      using True a \<open>panics\<close> x by (auto simp: recovered_def released_def fail_sequencer_def failed_with_def)
    moreover have "failed_with f s (s'\<lparr>sq_lock := l\<rparr>) = failed_with f s s'" for f by (simp add: failed_with_def)
    ultimately show ?thesis using True x assms(2) by (auto simp: reply_ok_def body_ok_def)
  next
    case False
    then have "body_ok js hmac sha256 calls s (Panic, s', e)" using assms(2) x by (auto simp: body_ok_def split: outcome.splits)
    from recovered_ok [OF assms(1) this] show ?thesis using \<open>panics\<close> x by (simp add: released_def)
  qed
qed

lemma executeAndReply_ok:
  assumes "\<not> sq_lock s" "sq_failure s = None"
  obtains r s' where "executeAndReply js hmac sha256 env s q = Some (r, s')" "reply_ok js hmac sha256 (pc_calls (qc_command q)) s r s'"
proof -
  let ?c = "qc_command q"
  have plain: "reply_ok js hmac sha256 (pc_calls ?c) s (Fail err) s" for err using assms by (simp add: reply_ok_def body_ok_def)
  obtain x where x: "identified_phase js hmac sha256 env s ?c = Some x" "body_ok js hmac sha256 (pc_calls ?c) s x"
  proof (cases "command_id env ?c")
    case None
    then show ?thesis using that plain body_execution by (simp add: identified_phase_def reply_ok_def)
  next
    case (Some i)
    from assms obtain x where "execute_phase js hmac sha256 env s (new_execution\<lparr>ex_commandID := i\<rparr>) ?c = Some x" "body_ok js hmac sha256 (pc_calls ?c) s x"
      by (rule execute_phase_ok)
    then show ?thesis using that Some by (simp add: identified_phase_def)
  qed
  have panic: "body_ok js hmac sha256 (pc_calls ?c) s (Panic, s, new_execution)" by (simp add: body_ok_def)
  obtain r s1 where ex: "execute js hmac sha256 env s q = Some (r, s1)" "reply_ok js hmac sha256 (pc_calls ?c) s r s1"
  proof (cases "execute js hmac sha256 env s q")
    case None
    then show ?thesis using x(1) by (auto simp: execute_def Let_def split: if_splits option.splits acquire_outcome.splits)
  next
    case (Some y)
    have "reply_ok js hmac sha256 (pc_calls ?c) s (fst y) (snd y)"
      using Some x(1) plain recovered_ok [OF assms(2) x(2)] recovered_ok [OF assms(2) panic] released_ok [OF assms(2) x(2)]
      by (auto simp: execute_def Let_def split: if_splits option.splits acquire_outcome.splits)
    then show ?thesis using that [of "fst y" "snd y"] Some by simp
  qed
  have "reply_ok js hmac sha256 (pc_calls ?c) s r (signalProgress s1)"
    using ex(2) by (auto simp: reply_ok_def body_ok_def signalProgress_def same_queues_def same_health_def failed_with_def split: outcome.splits option.splits)
  then show thesis using that ex(1) assms(2) by (simp add: executeAndReply_def)
qed

text \<open>Whether the calls of a started command committed its database transaction.\<close>

definition command_started :: "command_env \<Rightarrow> PostCommitCommand \<Rightarrow> bool" where
  "command_started env c \<longleftrightarrow> \<not> ce_startCanceled env \<and> (case pc_Acquire c of None \<Rightarrow> True | Some (Acquired panics) \<Rightarrow> True | _ \<Rightarrow> False)"

fun commits :: "CommandExecution \<Rightarrow> exec_call \<Rightarrow> bool" where
  "commits e (CallCommit tx) = (fst (CommitExecution tx e) = Return ())"
| "commits e (CallCommitNoop tx) = (fst (CommitNoop tx e) = Return ())"
| "commits e call = False"

fun calls_commit :: "codec \<Rightarrow> digest_function \<Rightarrow> PostCommitSequencer \<Rightarrow> CommandExecution \<Rightarrow> exec_call list \<Rightarrow> bool" where
  "calls_commit js sha256 s e [] = False"
| "calls_commit js sha256 s e (call # calls) =
     (commits e call \<or> (case exec_call js sha256 s e call of Some (False, s', e') \<Rightarrow> calls_commit js sha256 s' e' calls | _ \<Rightarrow> False))"

definition transaction_committed :: "codec \<Rightarrow> digest_function \<Rightarrow> command_env \<Rightarrow> PostCommitSequencer \<Rightarrow> PostCommitCommand \<Rightarrow> bool" where
  "transaction_committed js sha256 env s c \<longleftrightarrow> command_started env c \<and>
     (case command_id env c of None \<Rightarrow> False | Some i \<Rightarrow> calls_commit js sha256 s (new_execution\<lparr>ex_commandID := i\<rparr>) (pc_calls c))"

text \<open>A command that declares itself a no-op, by \<^verbatim>\<open>MarkNoop\<close> or \<^verbatim>\<open>CommitNoop\<close>.\<close>

fun noop_call :: "exec_call \<Rightarrow> bool" where
  "noop_call CallMarkNoop = True" | "noop_call (CallCommitNoop tx) = True" | "noop_call call = False"

definition declares_noop :: "PostCommitCommand \<Rightarrow> bool" where
  "declares_noop c = list_ex noop_call (pc_calls c)"

lemma exec_call_flags:
  assumes "exec_call js sha256 s e call = Some (b, s', e')"
  shows "ex_persistent e \<Longrightarrow> ex_persistent e'" "\<not> noop_call call \<Longrightarrow> ex_noop e' = ex_noop e"
    "\<not> noop_call call \<Longrightarrow> commits e call \<Longrightarrow> ex_persistent e' \<and> \<not> b"
  using assms
  by (cases call; auto simp: exec_call_def ReserveExecution_def CommitExecution_def CommitNoop_def MarkRuntimeReady_def MarkNoop_def Let_def
      split: option.splits outcome.splits if_splits tx_outcome.splits)+

lemma exec_calls_flags:
  assumes "exec_calls js sha256 s e calls = Some (b, s', e')" "\<not> list_ex noop_call calls"
  shows "(ex_persistent e \<or> calls_commit js sha256 s e calls \<longrightarrow> ex_persistent e') \<and> ex_noop e' = ex_noop e"
  using assms
proof (induction js sha256 s e calls rule: exec_calls.induct)
  case (2 js sha256 s e call calls)
  then obtain b1 s1 e1 where c: "exec_call js sha256 s e call = Some (b1, s1, e1)" by (cases "exec_call js sha256 s e call") auto
  show ?case using "2.prems" "2.IH" [OF c] exec_call_flags [OF c] c by (cases b1) auto
qed simp

lemma fatal_failure: "fatal err s e = (r, s', e') \<Longrightarrow> sq_failure s' \<noteq> None"
  by (auto simp: fatal_def fail_sequencer_def)

lemma complete_persistent:
  assumes "ex_persistent e" "\<not> ex_noop e" "ex_reservation e \<noteq> None" "complete_phase js hmac env s e out = (Fail err, s', e')"
  shows "sq_failure s' \<noteq> None"
  using assms fatal_failure by (fastforce simp: complete_phase_def publish_phase_def Let_def split: option.splits callback.splits prod.splits)

lemma recovered_failure:
  assumes "recovered (r, s, e) = (Fail err, s')" "\<And>err. r = Fail err \<Longrightarrow> sq_failure s \<noteq> None"
  shows "sq_failure s' \<noteq> None"
  using assms by (auto simp: recovered_def fail_sequencer_def split: outcome.splits)

lemma committed_not_ordinary:
  assumes free: "\<not> sq_lock s" "sq_failure s = None" and tx: "transaction_committed js sha256 env s (qc_command q)" "\<not> declares_noop (qc_command q)"
    and run: "executeAndReply js hmac sha256 env s q = Some (Fail err, s')"
  shows "sq_failure s' \<noteq> None"
proof -
  let ?c = "qc_command q"
  obtain i where id: "command_id env ?c = Some i" and cc: "calls_commit js sha256 s (new_execution\<lparr>ex_commandID := i\<rparr>) (pc_calls ?c)"
    and start: "command_started env ?c" using tx(1) by (auto simp: transaction_committed_def split: option.splits)
  have "exec_ok js sha256 (sq_publication s) [] False (sq_lock s) (new_execution\<lparr>ex_commandID := i\<rparr>)"
    using free by (simp add: exec_ok_def new_execution_def)
  then obtain b' l e' where "exec_calls js sha256 s (new_execution\<lparr>ex_commandID := i\<rparr>) (pc_calls ?c) = Some (b', s\<lparr>sq_lock := l\<rparr>, e')"
    "exec_ok js sha256 (sq_publication s) ([] @ pc_calls ?c) b' l e'" by (rule exec_calls_ok)
  then obtain b s1 e1 where calls: "exec_calls js sha256 s (new_execution\<lparr>ex_commandID := i\<rparr>) (pc_calls ?c) = Some (b, s1, e1)"
    and ok: "exec_ok js sha256 (sq_publication s) (pc_calls ?c) b (sq_lock s1) e1" by auto
  have e1: "ex_persistent e1" "\<not> ex_noop e1"
    using exec_calls_flags [OF calls] cc tx(2) by (simp_all add: declares_noop_def new_execution_def)
  then have res: "ex_reservation e1 \<noteq> None" using ok by (auto simp: exec_ok_def)
  obtain r s2 e2 where x: "execute_phase js hmac sha256 env s (new_execution\<lparr>ex_commandID := i\<rparr>) ?c = Some (r, s2, e2)"
    by (cases "execute_phase js hmac sha256 env s (new_execution\<lparr>ex_commandID := i\<rparr>) ?c")
      (use calls in \<open>auto simp: execute_phase_def split: execute_end.splits bool.splits\<close>)
  have fails: "sq_failure s2 \<noteq> None" if "r = Fail f" for f
  proof (cases "b \<or> pc_end ?c = ExecutePanics")
    case True
    then show ?thesis using x calls that by (cases b) (auto simp: execute_phase_def)
  next
    case False
    show ?thesis
    proof (cases "pc_end ?c")
      case (ExecuteReturns out)
      then have "complete_phase js hmac env s1 e1 out = (Fail f, s2, e2)" using False x calls that by (simp add: execute_phase_def)
      from complete_persistent [OF e1 res this] show ?thesis .
    next
      case (ExecuteFails n)
      then have "fatal (CallbackError n) s1 e1 = (Fail f, s2, e2)" using False x calls that e1 by (simp add: execute_phase_def)
      from fatal_failure [OF this] show ?thesis .
    qed (use False in simp)
  qed
  have body: "identified_phase js hmac sha256 env s ?c = Some (r, s2, e2)" using id x by (simp add: identified_phase_def)
  obtain panics where ex: "execute js hmac sha256 env s q = Some (recovered (if panics then Panic else r, s2, e2))"
  proof (cases "pc_Acquire ?c")
    case None
    then show ?thesis using that [of False] start body by (simp add: execute_def command_started_def)
  next
    case (Some a)
    then show ?thesis using start body that by (cases a) (auto simp: execute_def command_started_def released_def)
  qed
  obtain s3 where s3: "recovered (if panics then Panic else r, s2, e2) = (Fail err, s3)" "s' = signalProgress s3"
    using run free(2) ex by (cases "recovered (if panics then Panic else r, s2, e2)") (auto simp: executeAndReply_def)
  have "sq_failure s3 \<noteq> None" by (rule recovered_failure [OF s3(1)]) (use fails in \<open>auto split: if_splits\<close>)
  then show ?thesis using s3(2) by (simp add: signalProgress_def)
qed

subsection \<open>The sequencer at work\<close>

fun hand_commands :: "worker \<Rightarrow> queuedCommand list" where
  "hand_commands (WGot q) = [q]" | "hand_commands (WRun control qs) = (if control then [] else qs)" | "hand_commands _ = []"

fun hand_controls :: "worker \<Rightarrow> queuedCommand list" where
  "hand_controls (WGotBatch b) = cb_commands b" | "hand_controls (WRun control qs) = (if control then qs else [])" | "hand_controls _ = []"

fun hand_bytes :: "worker \<Rightarrow> int" where
  "hand_bytes (WGot q) = pc_QueueBytes (qc_command q)" | "hand_bytes _ = 0"

fun hand_control_bytes :: "worker \<Rightarrow> int" where
  "hand_control_bytes (WGotBatch b) = cb_bytes b" | "hand_control_bytes _ = 0"

definition replied :: "bool \<Rightarrow> sequencer_system \<Rightarrow> queuedCommand list" where
  "replied control y = map (\<lambda>(_, q, _). q) (filter (\<lambda>(c, _, _). c = control) (sy_replies y))"

definition order_inv :: "sequencer_system \<Rightarrow> bool" where
  "order_inv y \<longleftrightarrow>
     sy_admittedCommands y = replied False y @ hand_commands (sy_worker y) @ sq_commands (sy_seq y) \<and>
     sy_admittedControls y = replied True y @ hand_controls (sy_worker y) @ concat (map cb_commands (sq_controls (sy_seq y)))"

definition account_inv :: "sequencer_system \<Rightarrow> bool" where
  "account_inv y \<longleftrightarrow> (let s = sy_seq y in
     sq_queuedBytes s = (\<Sum>q\<leftarrow>sq_commands s. pc_QueueBytes (qc_command q)) + hand_bytes (sy_worker y) \<and> sq_queuedBytes s \<le> MaxSequencerQueueBytes \<and>
     sq_controlBytes s = (\<Sum>b\<leftarrow>sq_controls s. cb_bytes b) + hand_control_bytes (sy_worker y) \<and> sq_controlBytes s \<le> MaxSequencerQueueBytes \<and>
     length (sq_commands s) \<le> MaxSequencerQueueItems \<and> length (sq_controls s) \<le> MaxControlTeardownQueueItems \<and>
     (\<forall>q \<in> set (sq_commands s). pc_QueueBytes (qc_command q) > 0) \<and> (\<forall>b \<in> set (sq_controls s). cb_bytes b > 0) \<and>
     hand_bytes (sy_worker y) \<ge> 0 \<and> hand_control_bytes (sy_worker y) \<ge> 0)"

definition health_inv :: "sequencer_system \<Rightarrow> bool" where
  "health_inv y \<longleftrightarrow> (let s = sy_seq y in
     (sq_accepting s \<longrightarrow> \<not> sq_closed s) \<and> (sq_failure s \<noteq> None \<longrightarrow> sq_closed s \<and> \<not> sq_accepting s) \<and> (sq_lock s \<longrightarrow> sq_failure s \<noteq> None) \<and>
     sq_fatal s = (case sq_failure s of None \<Rightarrow> [] | Some f \<Rightarrow> [f]) \<and>
     (\<not> sy_commandsOpen y \<longrightarrow> sq_closed s \<and> sq_commands s = []) \<and> (\<not> sy_controlsOpen y \<longrightarrow> sq_closed s \<and> sq_controls s = []) \<and>
     (sy_worker y = WDone \<longrightarrow> \<not> sy_commandsOpen y \<and> \<not> sy_controlsOpen y) \<and> (\<forall>x \<in> set (sy_replies y). snd (snd x) \<noteq> Panic))"

definition seq_inv :: "sequencer_system \<Rightarrow> bool" where
  "seq_inv y \<longleftrightarrow> order_inv y \<and> account_inv y \<and> health_inv y"

lemma start_inv: "seq_inv (start_sequencer p)"
  by (simp add: seq_inv_def order_inv_def account_inv_def health_inv_def start_sequencer_def NewPostCommitSequencer_def replied_def
      MaxSequencerQueueBytes_def)

text \<open>An admission either appends or leaves the sequencer alone, and never sends on a closed channel.\<close>

lemma submit_cases:
  assumes "seq_inv y"
  obtains (refused) err where "SubmitCommand (sy_seq y) q = (Fail err, sy_seq y)"
  | (admitted) "SubmitCommand (sy_seq y) q = (Return (), (sy_seq y)\<lparr>sq_commands := sq_commands (sy_seq y) @ [q],
        sq_queuedBytes := sq_queuedBytes (sy_seq y) + pc_QueueBytes (qc_command q)\<rparr>)" "sq_accepting (sy_seq y)"
      "sq_queuedBytes (sy_seq y) + pc_QueueBytes (qc_command q) \<le> MaxSequencerQueueBytes" "length (sq_commands (sy_seq y)) < MaxSequencerQueueItems"
      "command_valid (qc_command q)"
proof (cases "fst (SubmitCommand (sy_seq y) q) = Return ()")
  case True
  then show thesis by (intro admitted) (auto simp: SubmitCommand_def enqueueCommand_def split: if_splits)
next
  case False
  have accepting: "sq_accepting (sy_seq y) \<longrightarrow> \<not> sq_closed (sy_seq y)" using assms by (simp add: seq_inv_def health_inv_def Let_def)
  obtain r s' where r: "SubmitCommand (sy_seq y) q = (r, s')" by fastforce
  then have "s' = sy_seq y \<and> (\<exists>err. r = Fail err)" using False accepting by (auto simp: SubmitCommand_def enqueueCommand_def split: if_splits)
  then show thesis using refused r by auto
qed

lemma control_cases:
  assumes "seq_inv y"
  obtains (refused) err where "SubmitControlBatch (sy_seq y) qs = (Fail err, sy_seq y)"
  | (admitted) b where "SubmitControlBatch (sy_seq y) qs = (Return (), (sy_seq y)\<lparr>sq_controls := sq_controls (sy_seq y) @ [b],
        sq_controlBytes := sq_controlBytes (sy_seq y) + cb_bytes b\<rparr>)" "sq_accepting (sy_seq y)" "cb_commands b = qs" "cb_bytes b > 0"
      "sq_controlBytes (sy_seq y) + cb_bytes b \<le> MaxSequencerQueueBytes" "length (sq_controls (sy_seq y)) < MaxControlTeardownQueueItems"
proof -
  let ?b = "\<lparr>cb_commands = qs, cb_bytes = (\<Sum>q\<leftarrow>qs. pc_QueueBytes (qc_command q))\<rparr>"
  have pos: "0 < cb_bytes ?b" if "qs \<noteq> []" "list_all (\<lambda>q. command_valid (qc_command q)) qs"
    using that
  proof (induction qs)
    case (Cons q qs)
    then show ?case by (cases "qs = []") (auto simp: command_valid_def)
  qed simp
  show thesis
  proof (cases "fst (SubmitControlBatch (sy_seq y) qs) = Return ()")
    case True
    then show thesis using admitted [of ?b] pos by (auto simp: SubmitControlBatch_def enqueueControl_def split: if_splits)
  next
    case False
    have accepting: "sq_accepting (sy_seq y) \<longrightarrow> \<not> sq_closed (sy_seq y)" using assms by (simp add: seq_inv_def health_inv_def Let_def)
    obtain r s' where r: "SubmitControlBatch (sy_seq y) qs = (r, s')" by fastforce
    then have "s' = sy_seq y \<and> (\<exists>err. r = Fail err)" using False accepting by (auto simp: SubmitControlBatch_def enqueueControl_def split: if_splits)
    then show thesis using refused r by auto
  qed
qed

lemmas seq_inv_defs = seq_inv_def order_inv_def account_inv_def health_inv_def replied_def Let_def

lemma submit_inv:
  assumes "seq_inv y"
  shows "seq_inv (snd (submit_step q y))"
  using assms
proof (cases rule: submit_cases [of y q])
  case (refused err)
  then show ?thesis using assms by (simp add: submit_step_def seq_inv_defs)
next
  case admitted
  then show ?thesis using assms by (simp add: submit_step_def seq_inv_defs command_valid_def ball_Un) (auto split: option.splits)
qed

lemma control_inv:
  assumes "seq_inv y"
  shows "seq_inv (snd (control_step qs y))"
  using assms
proof (cases rule: control_cases [of y qs])
  case (refused err)
  then show ?thesis using assms by (simp add: control_step_def seq_inv_defs)
next
  case (admitted b)
  then show ?thesis using assms by (simp add: control_step_def seq_inv_defs ball_Un) (auto split: option.splits)
qed

lemma reply_step:
  assumes inv: "seq_inv y" and run: "executeAndReply js hmac sha256 env (sy_seq y) q = Some (r, s')"
  shows "same_queues (sy_seq y) s' \<and> r \<noteq> Panic \<and> (sq_accepting s' \<longrightarrow> \<not> sq_closed s') \<and> (sq_failure s' \<noteq> None \<longrightarrow> sq_closed s' \<and> \<not> sq_accepting s') \<and>
    (sq_lock s' \<longrightarrow> sq_failure s' \<noteq> None) \<and> sq_fatal s' = (case sq_failure s' of None \<Rightarrow> [] | Some f \<Rightarrow> [f]) \<and> (sq_closed (sy_seq y) \<longrightarrow> sq_closed s')"
proof (cases "sq_failure (sy_seq y)")
  case (Some f)
  then show ?thesis using run inv by (auto simp: executeAndReply_def seq_inv_def health_inv_def Let_def)
next
  case None
  then have free: "\<not> sq_lock (sy_seq y)" "sq_accepting (sy_seq y) \<longrightarrow> \<not> sq_closed (sy_seq y)" "sq_fatal (sy_seq y) = []"
    using inv by (auto simp: seq_inv_def health_inv_def Let_def)
  from executeAndReply_ok [OF free(1) None] run have "reply_ok js hmac sha256 (pc_calls (qc_command q)) (sy_seq y) r s'" by (metis option.inject prod.inject)
  then have "same_queues (sy_seq y) s' \<and> r \<noteq> Panic \<and> ((same_health (sy_seq y) s' \<and> \<not> sq_lock s') \<or> (\<exists>f. failed_with f (sy_seq y) s'))"
    by (cases r) (auto simp: reply_ok_def body_ok_def)
  then show ?thesis using free None by (auto simp: same_health_def failed_with_def)
qed

lemma run_step_exec:
  assumes "sy_worker y = WRun control (q # qs)" "run_step js hmac sha256 env choice y = Some y'"
  obtains r s' where "executeAndReply js hmac sha256 env (sy_seq y) q = Some (r, s')"
    "y' = y\<lparr>sy_seq := s', sy_worker := WRun control qs, sy_replies := sy_replies y @ [(control, q, r)]\<rparr>"
  using assms by (auto simp: run_step_def Let_def split: option.splits)

lemma seq_inv_idle:
  assumes "seq_inv y"
  shows "sy_worker y = WIdle \<Longrightarrow> order_inv (y\<lparr>sy_worker := WDone\<rparr>) \<and> account_inv (y\<lparr>sy_worker := WDone\<rparr>)"
    "order_inv (y\<lparr>sy_commandsOpen := b\<rparr>) \<and> account_inv (y\<lparr>sy_commandsOpen := b\<rparr>)"
    "order_inv (y\<lparr>sy_controlsOpen := b\<rparr>) \<and> account_inv (y\<lparr>sy_controlsOpen := b\<rparr>)"
proof -
  have inv: "order_inv y" "account_inv y" using assms by (simp_all add: seq_inv_def)
  from inv show "sy_worker y = WIdle \<Longrightarrow> order_inv (y\<lparr>sy_worker := WDone\<rparr>) \<and> account_inv (y\<lparr>sy_worker := WDone\<rparr>)"
    by (simp add: order_inv_def account_inv_def replied_def)
  from inv show "order_inv (y\<lparr>sy_commandsOpen := b\<rparr>) \<and> account_inv (y\<lparr>sy_commandsOpen := b\<rparr>)"
    "order_inv (y\<lparr>sy_controlsOpen := b\<rparr>) \<and> account_inv (y\<lparr>sy_controlsOpen := b\<rparr>)"
    by (simp_all add: order_inv_def account_inv_def replied_def)
qed

lemma take_inv:
  assumes "seq_inv y" "sy_worker y = WIdle" "take_command y = Some y' \<or> take_control y = Some y'"
  shows "seq_inv y'"
  using assms(3)
proof
  assume t: "take_command y = Some y'"
  then have o: "sy_commandsOpen y" by (auto simp: take_command_def split: if_splits)
  show ?thesis
  proof (cases "sq_commands (sy_seq y)")
    case Nil
    then have "y' = y\<lparr>sy_commandsOpen := False\<rparr>" "sq_closed (sy_seq y)" using t o by (auto simp: take_command_def split: if_splits)
    then show ?thesis using seq_inv_idle(2,3) [OF assms(1)] Nil assms(1,2) by (auto simp: seq_inv_def health_inv_def Let_def)
  next
    case (Cons q qs)
    then have "y' = y\<lparr>sy_seq := (sy_seq y)\<lparr>sq_commands := qs\<rparr>, sy_worker := WGot q\<rparr>" using t o by (simp add: take_command_def)
    then show ?thesis using Cons assms(1,2) o by (simp add: seq_inv_defs)
  qed
next
  assume t: "take_control y = Some y'"
  then have o: "sy_controlsOpen y" by (auto simp: take_control_def split: if_splits)
  show ?thesis
  proof (cases "sq_controls (sy_seq y)")
    case Nil
    then have "y' = y\<lparr>sy_controlsOpen := False\<rparr>" "sq_closed (sy_seq y)" using t o by (auto simp: take_control_def split: if_splits)
    then show ?thesis using seq_inv_idle(2,3) [OF assms(1)] Nil assms(1,2) by (auto simp: seq_inv_def health_inv_def Let_def)
  next
    case (Cons b bs)
    then have "y' = y\<lparr>sy_seq := (sy_seq y)\<lparr>sq_controls := bs\<rparr>, sy_worker := WGotBatch b\<rparr>" using t o by (simp add: take_control_def)
    then show ?thesis using Cons assms(1,2) o by (simp add: seq_inv_defs)
  qed
qed

lemma run_inv:
  assumes inv: "seq_inv y" and run: "run_step js hmac sha256 env choice y = Some y'"
  shows "seq_inv y'"
proof (cases "sy_worker y")
  case WIdle
  show ?thesis
  proof (cases "\<not> sy_commandsOpen y \<and> \<not> sy_controlsOpen y")
    case True
    then have "y' = y\<lparr>sy_worker := WDone\<rparr>" using run WIdle by (simp add: run_step_def Let_def)
    then show ?thesis using seq_inv_idle(1) [OF inv WIdle] True inv by (auto simp: seq_inv_def health_inv_def Let_def)
  next
    case False
    then have "y' = y\<lparr>sy_seq := signalProgress (sy_seq y)\<rparr> \<or> take_command y = Some y' \<or> take_control y = Some y'"
      using run WIdle by (cases choice) (auto simp: run_step_def)
    moreover have "seq_inv (y\<lparr>sy_seq := signalProgress (sy_seq y)\<rparr>)" using inv by (simp add: signalProgress_def seq_inv_defs)
    ultimately show ?thesis using take_inv [OF inv WIdle] by blast
  qed
next
  case (WGot q)
  then have y': "y' = y\<lparr>sy_seq := (sy_seq y)\<lparr>sq_queuedBytes := sq_queuedBytes (sy_seq y) - pc_QueueBytes (qc_command q)\<rparr>, sy_worker := WRun False [q]\<rparr>"
    using run by (simp add: run_step_def Let_def)
  have "account_inv y'" using inv WGot by (simp add: y' seq_inv_def account_inv_def Let_def)
  moreover have "order_inv y'" using inv WGot by (simp add: y' seq_inv_def order_inv_def replied_def)
  moreover have "health_inv y'" using inv by (simp add: y' seq_inv_def health_inv_def Let_def)
  ultimately show ?thesis by (simp add: seq_inv_def)
next
  case (WGotBatch b)
  then have y': "y' = y\<lparr>sy_seq := (sy_seq y)\<lparr>sq_controlBytes := sq_controlBytes (sy_seq y) - cb_bytes b\<rparr>, sy_worker := WRun True (cb_commands b)\<rparr>"
    using run by (simp add: run_step_def Let_def)
  have "account_inv y'" using inv WGotBatch by (simp add: y' seq_inv_def account_inv_def Let_def)
  moreover have "order_inv y'" using inv WGotBatch by (simp add: y' seq_inv_def order_inv_def replied_def)
  moreover have "health_inv y'" using inv by (simp add: y' seq_inv_def health_inv_def Let_def)
  ultimately show ?thesis by (simp add: seq_inv_def)
next
  case (WRun control qs)
  show ?thesis
  proof (cases qs)
    case Nil
    then have "y' = y\<lparr>sy_worker := WIdle\<rparr>" using run WRun by (simp add: run_step_def Let_def)
    then show ?thesis using inv WRun Nil by (simp add: seq_inv_defs)
  next
    case (Cons q rest)
    obtain r s' where r: "executeAndReply js hmac sha256 env (sy_seq y) q = Some (r, s')"
      and y': "y' = y\<lparr>sy_seq := s', sy_worker := WRun control rest, sy_replies := sy_replies y @ [(control, q, r)]\<rparr>"
      by (rule run_step_exec [OF WRun [unfolded Cons] run])
    note step = reply_step [OF inv r, unfolded same_queues_def]
    have "order_inv y'" using inv step WRun Cons by (cases control) (simp_all add: seq_inv_def order_inv_def replied_def y')
    moreover have "account_inv y'" using inv step WRun Cons by (simp add: seq_inv_def account_inv_def y' Let_def)
    moreover have "health_inv y'" using inv step WRun by (simp add: seq_inv_def health_inv_def y' Let_def)
    ultimately show ?thesis by (simp add: seq_inv_def)
  qed
qed (use run in \<open>simp add: run_step_def\<close>)

text \<open>Everything that can happen: submissions, closing, an external failure, the event bus of the publication, and the worker.
  Commands reserve candidates that were built from a published version.\<close>

definition command_built :: "PostCommitCommand \<Rightarrow> bool" where
  "command_built c \<longleftrightarrow> (\<forall>now request. CallReserve now request \<in> set (pc_calls c) \<longrightarrow> (\<exists>base candidate. built base candidate \<and> rq_Candidate request = Some candidate))"

inductive seq_step :: "codec \<Rightarrow> tag_function \<Rightarrow> digest_function \<Rightarrow> sequencer_system \<Rightarrow> sequencer_system \<Rightarrow> bool" for js hmac sha256 where
  submit: "command_built (qc_command q) \<Longrightarrow> seq_step js hmac sha256 y (snd (submit_step q y))"
| control: "(\<And>q. q \<in> set qs \<Longrightarrow> command_built (qc_command q)) \<Longrightarrow> seq_step js hmac sha256 y (snd (control_step qs y))"
| close: "seq_step js hmac sha256 y (y\<lparr>sy_seq := CloseSequencer (sy_seq y)\<rparr>)"
| failing: "seq_step js hmac sha256 y (y\<lparr>sy_seq := fail_sequencer err (sy_seq y)\<rparr>)"
| bus: "seq_step js hmac sha256 y (y\<lparr>sy_seq := (sy_seq y)\<lparr>sq_publication := (sq_publication (sy_seq y))\<lparr>pb_eventBus := Some b\<rparr>\<rparr>\<rparr>)"
| work: "run_step js hmac sha256 env choice y = Some y' \<Longrightarrow> seq_step js hmac sha256 y y'"

inductive_cases seq_stepE: "seq_step js hmac sha256 y y'"

lemma frame_inv:
  assumes "order_inv y" "account_inv y" "sq_commands s = sq_commands (sy_seq y)" "sq_controls s = sq_controls (sy_seq y)"
    "sq_queuedBytes s = sq_queuedBytes (sy_seq y)" "sq_controlBytes s = sq_controlBytes (sy_seq y)"
  shows "order_inv (y\<lparr>sy_seq := s\<rparr>) \<and> account_inv (y\<lparr>sy_seq := s\<rparr>)"
  using assms by (simp add: order_inv_def account_inv_def replied_def Let_def)

lemma close_inv: "seq_inv y \<Longrightarrow> seq_inv (y\<lparr>sy_seq := CloseSequencer (sy_seq y)\<rparr>)"
  unfolding seq_inv_def using frame_inv [of y "CloseSequencer (sy_seq y)"] by (auto simp: CloseSequencer_def health_inv_def Let_def)

lemma fail_inv:
  assumes "seq_inv y"
  shows "seq_inv (y\<lparr>sy_seq := fail_sequencer err (sy_seq y)\<rparr>)"
proof -
  let ?y = "y\<lparr>sy_seq := fail_sequencer err (sy_seq y)\<rparr>"
  have "order_inv ?y \<and> account_inv ?y" using assms by (intro frame_inv) (simp_all add: seq_inv_def)
  moreover have "health_inv ?y"
    using assms by (cases "sq_failure (sy_seq y)") (auto simp: seq_inv_def health_inv_def fail_sequencer_def Let_def)
  ultimately show ?thesis by (simp add: seq_inv_def)
qed

lemma bus_inv: "seq_inv y \<Longrightarrow> seq_inv (y\<lparr>sy_seq := (sy_seq y)\<lparr>sq_publication := p\<rparr>\<rparr>)"
  unfolding seq_inv_def using frame_inv [of y "(sy_seq y)\<lparr>sq_publication := p\<rparr>"] by (auto simp: health_inv_def Let_def)

lemma seq_step_inv: "seq_step js hmac sha256 y y' \<Longrightarrow> seq_inv y \<Longrightarrow> seq_inv y'"
  by (induction rule: seq_step.induct) (simp_all add: submit_inv control_inv close_inv fail_inv bus_inv run_inv)

lemma seq_run_inv: "(seq_step js hmac sha256)\<^sup>*\<^sup>* y y' \<Longrightarrow> seq_inv y \<Longrightarrow> seq_inv y'"
  by (induction rule: rtranclp_induct) (simp_all add: seq_step_inv)

subsubsection \<open>Everything admitted is built, and the published state stays in a run of the publication\<close>

definition all_built :: "sequencer_system \<Rightarrow> bool" where
  "all_built y \<longleftrightarrow> (\<forall>q \<in> set (sy_admittedCommands y) \<union> set (sy_admittedControls y). command_built (qc_command q))"

lemma admitted_grows:
  "run_step js hmac sha256 env choice y = Some y' \<Longrightarrow> sy_admittedCommands y' = sy_admittedCommands y \<and> sy_admittedControls y' = sy_admittedControls y"
  by (auto simp: run_step_def take_command_def take_control_def Let_def split: worker.splits list.splits if_splits option.splits choice.splits)

lemma seq_step_built: "seq_step js hmac sha256 y y' \<Longrightarrow> all_built y \<Longrightarrow> all_built y'"
proof (induction rule: seq_step.induct)
  case (work env choice y y')
  then show ?case using admitted_grows [OF work.hyps] by (simp add: all_built_def)
qed (auto simp: all_built_def submit_step_def control_step_def split: prod.splits if_splits)

definition publishing :: "codec \<Rightarrow> tag_function \<Rightarrow> digest_function \<Rightarrow> string \<Rightarrow> sequencer_system \<Rightarrow> bool" where
  "publishing js hmac sha256 epoch y \<longleftrightarrow> (\<exists>hist. state_run js hmac sha256 epoch (sq_publication (sy_seq y)) hist)"

lemma moved_run:
  assumes "moved js hmac sha256 (pc_calls c) i err res p p'" "command_built c" "state_run js hmac sha256 epoch p hist"
  shows "\<exists>hist. state_run js hmac sha256 epoch p' hist"
proof -
  from assms(1) obtain now request where r: "CallReserve now request \<in> set (pc_calls c)"
    "CommitPublication js hmac sha256 now p (with_causation i request) = ((err, p'), Some res)" by (auto simp: moved_def)
  then obtain base candidate where "built base candidate" "rq_Candidate (with_causation i request) = Some candidate"
    using assms(2) by (fastforce simp: command_built_def with_causation_def)
  from state_run.commit [OF assms(3) this r(2)] show ?thesis by blast
qed

lemma reply_publication:
  assumes inv: "seq_inv y" and run: "executeAndReply js hmac sha256 env (sy_seq y) q = Some (r, s')"
  shows "sq_publication s' = sq_publication (sy_seq y) \<or>
    (sq_failure (sy_seq y) = None \<and> (\<exists>i err res. moved js hmac sha256 (pc_calls (qc_command q)) i err res (sq_publication (sy_seq y)) (sq_publication s')))"
proof (cases "sq_failure (sy_seq y)")
  case (Some f)
  then show ?thesis using run by (simp add: executeAndReply_def)
next
  case None
  then have "\<not> sq_lock (sy_seq y)" using inv by (auto simp: seq_inv_def health_inv_def Let_def)
  from executeAndReply_ok [OF this None] run have "reply_ok js hmac sha256 (pc_calls (qc_command q)) (sy_seq y) r s'" by (metis option.inject prod.inject)
  then show ?thesis using None by (auto simp: reply_ok_def body_ok_def)
qed

lemma run_step_publication:
  assumes inv: "seq_inv y" and run: "run_step js hmac sha256 env choice y = Some y'"
  shows "sq_publication (sy_seq y') = sq_publication (sy_seq y) \<or>
    (sq_failure (sy_seq y) = None \<and> (\<exists>q i err res. q \<in> set (hand_commands (sy_worker y)) \<union> set (hand_controls (sy_worker y)) \<and>
       moved js hmac sha256 (pc_calls (qc_command q)) i err res (sq_publication (sy_seq y)) (sq_publication (sy_seq y'))))"
proof (cases "\<exists>control q qs. sy_worker y = WRun control (q # qs)")
  case True
  then obtain control q qs where w: "sy_worker y = WRun control (q # qs)" by blast
  obtain r s' where r: "executeAndReply js hmac sha256 env (sy_seq y) q = Some (r, s')"
    and y': "y' = y\<lparr>sy_seq := s', sy_worker := WRun control qs, sy_replies := sy_replies y @ [(control, q, r)]\<rparr>" by (rule run_step_exec [OF w run])
  have "q \<in> set (hand_commands (sy_worker y)) \<union> set (hand_controls (sy_worker y))" using w by simp
  then show ?thesis using reply_publication [OF inv r] y' by auto
next
  case False
  then show ?thesis using run
    by (auto simp: run_step_def take_command_def take_control_def signalProgress_def Let_def split: worker.splits list.splits if_splits choice.splits)
qed

lemma seq_step_publishing:
  assumes "seq_step js hmac sha256 y y'" "seq_inv y" "all_built y" "publishing js hmac sha256 epoch y"
  shows "publishing js hmac sha256 epoch y'"
  using assms
proof (induction rule: seq_step.induct)
  case (submit q y)
  from submit.prems(1) show ?case
    by (cases rule: submit_cases [of y q]) (use submit.prems(3) in \<open>auto simp: submit_step_def publishing_def\<close>)
next
  case (control qs y)
  from control.prems(1) show ?case
    by (cases rule: control_cases [of y qs]) (use control.prems(3) in \<open>auto simp: control_step_def publishing_def\<close>)
next
  case (bus y b)
  then show ?case by (auto simp: publishing_def intro: state_run.bind_bus)
next
  case (work env choice y y')
  have "command_built (qc_command q)" if "q \<in> set (hand_commands (sy_worker y)) \<union> set (hand_controls (sy_worker y))" for q
    using that work.prems(1,2) by (auto simp: seq_inv_def order_inv_def all_built_def)
  then show ?case using run_step_publication [OF work.prems(1) work.hyps] work.prems(3) moved_run by (fastforce simp: publishing_def)
qed (auto simp: publishing_def CloseSequencer_def)

lemma seq_run_publishing:
  assumes "(seq_step js hmac sha256)\<^sup>*\<^sup>* y y'" "seq_inv y" "all_built y" "publishing js hmac sha256 epoch y"
  shows "publishing js hmac sha256 epoch y' \<and> all_built y'"
  using assms
proof (induction rule: rtranclp_induct)
  case (step y1 y2)
  then show ?case using seq_step_publishing [OF step.hyps(2) seq_run_inv [OF step.hyps(1)]] seq_step_built [OF step.hyps(2)] by blast
qed simp

subsubsection \<open>After a failure\<close>

lemma run_step_failed:
  assumes inv: "seq_inv y" and run: "run_step js hmac sha256 env choice y = Some y'" and f: "sq_failure (sy_seq y) = Some f"
  shows "sq_failure (sy_seq y') = Some f \<and> sq_publication (sy_seq y') = sq_publication (sy_seq y) \<and>
    (\<exists>new. sy_replies y' = sy_replies y @ new \<and> (\<forall>x \<in> set new. snd (snd x) = Fail f))"
proof (cases "\<exists>control q qs. sy_worker y = WRun control (q # qs)")
  case True
  then obtain control q qs where "sy_worker y = WRun control (q # qs)" by blast
  then show ?thesis using run f by (auto simp: run_step_def executeAndReply_def)
next
  case False
  then show ?thesis using run f
    by (auto simp: run_step_def take_command_def take_control_def signalProgress_def Let_def split: worker.splits list.splits if_splits choice.splits)
qed

lemma seq_step_failed:
  assumes "seq_step js hmac sha256 y y'" "seq_inv y" "sq_failure (sy_seq y) = Some f"
  shows "sq_failure (sy_seq y') = Some f \<and> pb_state (sq_publication (sy_seq y')) = pb_state (sq_publication (sy_seq y)) \<and>
    pb_ring (sq_publication (sy_seq y')) = pb_ring (sq_publication (sy_seq y)) \<and>
    (\<exists>new. sy_replies y' = sy_replies y @ new \<and> (\<forall>x \<in> set new. snd (snd x) = Fail f))"
  using assms
proof (induction rule: seq_step.induct)
  case (submit q y)
  from submit.prems(1) show ?case by (cases rule: submit_cases [of y q]) (use submit.prems(2) in \<open>auto simp: submit_step_def\<close>)
next
  case (control qs y)
  from control.prems(1) show ?case by (cases rule: control_cases [of y qs]) (use control.prems(2) in \<open>auto simp: control_step_def\<close>)
next
  case (work env choice y y')
  from run_step_failed [OF work.prems(1) work.hyps work.prems(2)] show ?case by simp
qed (auto simp: CloseSequencer_def fail_sequencer_def)

subsubsection \<open>Draining\<close>

definition work_step :: "codec \<Rightarrow> tag_function \<Rightarrow> digest_function \<Rightarrow> sequencer_system \<Rightarrow> sequencer_system \<Rightarrow> bool" where
  "work_step js hmac sha256 y y' \<longleftrightarrow> (\<exists>env choice. choice \<noteq> Tick \<and> run_step js hmac sha256 env choice y = Some y')"

fun worker_left :: "worker \<Rightarrow> nat" where
  "worker_left WDone = 0" | "worker_left WIdle = 1" | "worker_left (WRun control qs) = length qs + 2" | "worker_left (WGot q) = 4"
| "worker_left (WGotBatch b) = length (cb_commands b) + 3"

definition work_left :: "sequencer_system \<Rightarrow> nat" where
  "work_left y = worker_left (sy_worker y) + 4 * length (sq_commands (sy_seq y)) + (\<Sum>b\<leftarrow>sq_controls (sy_seq y). length (cb_commands b) + 3) +
     of_bool (sy_commandsOpen y) + of_bool (sy_controlsOpen y)"

lemma work_step_decreases:
  assumes inv: "seq_inv y" and step: "work_step js hmac sha256 y y'"
  shows "work_left y' < work_left y"
proof -
  obtain env choice where run: "choice \<noteq> Tick" "run_step js hmac sha256 env choice y = Some y'" using step by (auto simp: work_step_def)
  show ?thesis
  proof (cases "\<exists>control q qs. sy_worker y = WRun control (q # qs)")
    case True
    then obtain control q qs where w: "sy_worker y = WRun control (q # qs)" by blast
    obtain r s' where r: "executeAndReply js hmac sha256 env (sy_seq y) q = Some (r, s')"
      and y': "y' = y\<lparr>sy_seq := s', sy_worker := WRun control qs, sy_replies := sy_replies y @ [(control, q, r)]\<rparr>" by (rule run_step_exec [OF w run(2)])
    then show ?thesis using reply_step [OF inv r] w by (simp add: work_left_def same_queues_def)
  next
    case False
    then show ?thesis using run
      by (cases "sy_worker y"; cases choice)
        (auto simp: run_step_def take_command_def take_control_def work_left_def Let_def split: worker.splits list.splits if_splits)
  qed
qed

lemma work_step_enabled:
  assumes inv: "seq_inv y" and closed: "sq_closed (sy_seq y)" and busy: "sy_worker y \<noteq> WDone"
  shows "\<exists>y'. work_step js hmac sha256 y y'"
proof -
  have go: "run_step js hmac sha256 env TakeCommand y \<noteq> None \<Longrightarrow> ?thesis" "run_step js hmac sha256 env TakeControl y \<noteq> None \<Longrightarrow> ?thesis" for env
    by (auto simp: work_step_def)
  show ?thesis
  proof (cases "sy_worker y")
    case WIdle
    then show ?thesis using closed go [of undefined]
      by (cases "sy_commandsOpen y"; cases "sq_commands (sy_seq y)"; cases "sq_controls (sy_seq y)") (auto simp: run_step_def take_command_def take_control_def Let_def)
  next
    case (WRun control qs)
    show ?thesis
    proof (cases qs)
      case Nil
      then show ?thesis using WRun go(1) [of undefined] by (simp add: run_step_def Let_def)
    next
      case (Cons q rest)
      have "executeAndReply js hmac sha256 env (sy_seq y) q \<noteq> None" for env
      proof (cases "sq_failure (sy_seq y)")
        case None
        then have "\<not> sq_lock (sy_seq y)" using inv by (auto simp: seq_inv_def health_inv_def Let_def)
        from executeAndReply_ok [OF this None] show ?thesis by (metis option.distinct(1))
      qed (simp add: executeAndReply_def)
      then obtain r s' where "executeAndReply js hmac sha256 undefined (sy_seq y) q = Some (r, s')" by fastforce
      then show ?thesis using WRun Cons go(1) [of undefined] by (simp add: run_step_def Let_def)
    qed
  qed (use busy go(1) [of undefined] in \<open>auto simp: run_step_def Let_def\<close>)
qed

lemma work_is_step: "work_step js hmac sha256 y y' \<Longrightarrow> seq_step js hmac sha256 y y'"
  unfolding work_step_def by (blast intro: seq_step.work)

lemma work_admits: "work_step js hmac sha256 y y' \<Longrightarrow> sy_admittedCommands y' = sy_admittedCommands y \<and> sy_admittedControls y' = sy_admittedControls y"
  unfolding work_step_def using admitted_grows by blast

lemma work_keeps_closed:
  assumes "work_step js hmac sha256 y y'" "seq_inv y" "sq_closed (sy_seq y)"
  shows "sq_closed (sy_seq y')"
proof -
  obtain env choice where run: "run_step js hmac sha256 env choice y = Some y'" using assms(1) by (auto simp: work_step_def)
  show ?thesis
  proof (cases "\<exists>control q qs. sy_worker y = WRun control (q # qs)")
    case True
    then obtain control q qs where w: "sy_worker y = WRun control (q # qs)" by blast
    obtain r s' where r: "executeAndReply js hmac sha256 env (sy_seq y) q = Some (r, s')"
      and y': "y' = y\<lparr>sy_seq := s', sy_worker := WRun control qs, sy_replies := sy_replies y @ [(control, q, r)]\<rparr>" by (rule run_step_exec [OF w run])
    then show ?thesis using reply_step [OF assms(2) r] assms(3) by simp
  next
    case False
    then show ?thesis using run assms(3)
      by (auto simp: run_step_def take_command_def take_control_def signalProgress_def Let_def split: worker.splits list.splits if_splits choice.splits)
  qed
qed

lemma work_run:
  assumes "(work_step js hmac sha256 ^^ n) y y'" "seq_inv y" "sq_closed (sy_seq y)"
  shows "seq_inv y' \<and> sq_closed (sy_seq y') \<and> work_left y' + n \<le> work_left y \<and> sy_admittedCommands y' = sy_admittedCommands y \<and>
    sy_admittedControls y' = sy_admittedControls y"
  using assms
proof (induction n arbitrary: y')
  case (Suc n)
  then obtain y1 where y1: "(work_step js hmac sha256 ^^ n) y y1" "work_step js hmac sha256 y1 y'" by auto
  note ih = Suc.IH [OF y1(1) Suc.prems(2,3)]
  then show ?case using work_step_decreases [OF _ y1(2)] work_keeps_closed [OF y1(2)] work_admits [OF y1(2)] seq_step_inv [OF work_is_step [OF y1(2)]] by auto
qed simp

section \<open>Properties\<close>

text \<open>C2. What one sequenced command does, whatever its callbacks do: running it always ends, and there are three outcomes.  It completes, and
  then either nothing changed or exactly one reservation of the command was committed, with the command's identifier on its events.  Or it
  fails as an ordinary error, and then nothing was published, the publication lock is free, and none of its database transactions was
  committed unless the command declared itself a no-op, by \<^verbatim>\<open>MarkNoop\<close> or \<^verbatim>\<open>CommitNoop\<close>.  Or the sequencer fails for good: it stops admission, closes its queues and notifies the supervisor once.\<close>

theorem sequenced_command_outcomes:
  assumes "\<not> sq_lock s" "sq_failure s = None"
  shows "\<exists>r s'. executeAndReply js hmac sha256 env s q = Some (r, s') \<and> same_queues s s' \<and>
    ((\<exists>c. r = Return c \<and> same_health s s' \<and> \<not> sq_lock s' \<and>
        (case cc_Publication c of None \<Rightarrow> sq_publication s' = sq_publication s
         | Some res \<Rightarrow> \<exists>now request. CallReserve now request \<in> set (pc_calls (qc_command q)) \<and>
             CommitPublication js hmac sha256 now (sq_publication s) (with_causation (cc_CommandID c) request) = ((None, sq_publication s'), Some res))) \<or>
     (\<exists>err. r = Fail err \<and> same_health s s' \<and> \<not> sq_lock s' \<and> sq_publication s' = sq_publication s \<and>
        (transaction_committed js sha256 env s (qc_command q) \<longrightarrow> declares_noop (qc_command q))) \<or>
     (\<exists>err f. r = Fail err \<and> failed_with f s s'))"
proof -
  obtain r s' where run: "executeAndReply js hmac sha256 env s q = Some (r, s')" "reply_ok js hmac sha256 (pc_calls (qc_command q)) s r s'"
    using executeAndReply_ok [OF assms] by metis
  show ?thesis
  proof (cases r)
    case (Return c)
    then show ?thesis using run by (intro exI [of _ r] exI [of _ s']) (auto simp: reply_ok_def body_ok_def moved_def split: option.splits)
  next
    case (Fail err)
    have "declares_noop (qc_command q)" if "same_health s s'" "transaction_committed js sha256 env s (qc_command q)"
      using committed_not_ordinary [OF assms that(2) _ run(1) [unfolded Fail]] that assms(2) by (auto simp: same_health_def)
    then show ?thesis using run Fail by (intro exI [of _ r] exI [of _ s']) (auto simp: reply_ok_def body_ok_def)
  qed (use run in \<open>simp add: reply_ok_def\<close>)
qed

text \<open>C13. The sequencer keeps its promises to every submitter, over any interleaving of submissions, worker steps, closing and failures: each
  queue is served in order and every admitted command is answered at most once; the queues and their byte counters stay within their limits and
  count exactly the waiting commands; the failure callback runs at most once; and the published state is always one that successful or
  refused commits can produce.\<close>

theorem sequencer_invariant:
  assumes "(seq_step js hmac sha256)\<^sup>*\<^sup>* (start_sequencer p) y" "state_run js hmac sha256 epoch p hist"
  shows "(\<exists>waiting. sy_admittedCommands y = replied False y @ waiting) \<and> (\<exists>waiting. sy_admittedControls y = replied True y @ waiting) \<and>
    (\<forall>x \<in> set (sy_replies y). snd (snd x) \<noteq> Panic) \<and>
    (\<Sum>q\<leftarrow>sq_commands (sy_seq y). pc_QueueBytes (qc_command q)) + hand_bytes (sy_worker y) = QueuedBytes (sy_seq y) \<and>
    0 \<le> QueuedBytes (sy_seq y) \<and> QueuedBytes (sy_seq y) \<le> MaxSequencerQueueBytes \<and> QueueDepth (sy_seq y) \<le> MaxSequencerQueueItems \<and>
    0 \<le> sq_controlBytes (sy_seq y) \<and> sq_controlBytes (sy_seq y) \<le> MaxSequencerQueueBytes \<and> length (sq_controls (sy_seq y)) \<le> MaxControlTeardownQueueItems \<and>
    length (sq_fatal (sy_seq y)) \<le> 1 \<and> (\<exists>hist'. state_run js hmac sha256 epoch (sq_publication (sy_seq y)) hist')"
proof -
  have inv: "seq_inv y" by (rule seq_run_inv [OF assms(1) start_inv])
  have "all_built (start_sequencer p)" by (simp add: all_built_def start_sequencer_def)
  moreover have "publishing js hmac sha256 epoch (start_sequencer p)" using assms(2) by (auto simp: publishing_def start_sequencer_def NewPostCommitSequencer_def)
  ultimately have pub: "publishing js hmac sha256 epoch y" using seq_run_publishing [OF assms(1) start_inv] by blast
  have acc: "account_inv y" "order_inv y" "health_inv y" using inv by (simp_all add: seq_inv_def)
  have "0 \<le> (\<Sum>q\<leftarrow>sq_commands (sy_seq y). pc_QueueBytes (qc_command q))" "0 \<le> (\<Sum>b\<leftarrow>sq_controls (sy_seq y). cb_bytes b)"
    using acc(1) by (auto intro!: sum_list_nonneg simp: account_inv_def Let_def less_imp_le)
  moreover have "length (sq_fatal (sy_seq y)) \<le> 1" "\<forall>x \<in> set (sy_replies y). snd (snd x) \<noteq> Panic"
    using acc(3) by (auto simp: health_inv_def Let_def split: option.splits)
  ultimately show ?thesis using acc(1,2) pub by (auto simp: account_inv_def order_inv_def publishing_def QueuedBytes_def QueueDepth_def Let_def)
qed

text \<open>After a fatal failure nothing is executed any more: whatever happens later, the failure stays the same, the published version and the
  replay log stay as they were, and every reply given from then on is that failure.\<close>

theorem sequencer_fails_fast:
  assumes "(seq_step js hmac sha256)\<^sup>*\<^sup>* (start_sequencer p) y" "sq_failure (sy_seq y) = Some f" "(seq_step js hmac sha256)\<^sup>*\<^sup>* y y'"
  shows "sq_failure (sy_seq y') = Some f \<and> pb_state (sq_publication (sy_seq y')) = pb_state (sq_publication (sy_seq y)) \<and>
    pb_ring (sq_publication (sy_seq y')) = pb_ring (sq_publication (sy_seq y)) \<and>
    (\<exists>new. sy_replies y' = sy_replies y @ new \<and> (\<forall>x \<in> set new. snd (snd x) = Fail f))"
  using assms(3)
proof (induction rule: rtranclp_induct)
  case base
  then show ?case using assms(2) by simp
next
  case (step y1 y2)
  have "seq_inv y1" using seq_run_inv [OF _ start_inv] assms(1) step.hyps(1) by (metis rtranclp_trans)
  from seq_step_failed [OF step.hyps(2) this] step.IH show ?case by auto
qed

text \<open>C33. Closing drains: once admission is closed, by a shutdown or by a failure, the worker is never stuck before it is finished, it
  finishes within a bounded number of steps, and when it is finished every admitted command has its reply, in admission order.\<close>

theorem sequencer_drains:
  assumes "(seq_step js hmac sha256)\<^sup>*\<^sup>* (start_sequencer p) y" "sq_closed (sy_seq y)"
  shows "\<forall>n y'. (work_step js hmac sha256 ^^ n) y y' \<longrightarrow> n \<le> work_left y \<and>
    (if sy_worker y' = WDone then replied False y' = sy_admittedCommands y \<and> replied True y' = sy_admittedControls y
     else \<exists>y''. work_step js hmac sha256 y' y'')"
proof (intro allI impI)
  fix n y' assume w: "(work_step js hmac sha256 ^^ n) y y'"
  have "seq_inv y" by (rule seq_run_inv [OF assms(1) start_inv])
  from work_run [OF w this assms(2)]
  have r: "seq_inv y'" "sq_closed (sy_seq y')" "work_left y' + n \<le> work_left y" "sy_admittedCommands y' = sy_admittedCommands y"
    "sy_admittedControls y' = sy_admittedControls y" by simp_all
  have "replied False y' = sy_admittedCommands y \<and> replied True y' = sy_admittedControls y" if "sy_worker y' = WDone"
    using r(1,4,5) that by (auto simp: seq_inv_def order_inv_def health_inv_def Let_def)
  then show "n \<le> work_left y \<and>
    (if sy_worker y' = WDone then replied False y' = sy_admittedCommands y \<and> replied True y' = sy_admittedControls y
     else \<exists>y''. work_step js hmac sha256 y' y'')"
    using work_step_enabled [OF r(1,2)] r(3) by auto
qed

subsection \<open>A concrete command\<close>

definition quiet_request :: PublicationRequest where
  "quiet_request = \<lparr>rq_Candidate = Some (BuildRuntimeCandidate (pb_state example_publication)), rq_Events = [], rq_VisibilityUserIDs = [], rq_CommitRuntime = None\<rparr>"

definition quiet_command :: "exec_call list \<Rightarrow> execute_end \<Rightarrow> queuedCommand" where
  "quiet_command calls fin = \<lparr>qc_id = 0, qc_command = \<lparr>pc_QueueBytes = 10, pc_CommandID = 9, pc_Acquire = None, pc_calls = calls, pc_end = fin\<rparr>\<rparr>"

definition quiet_calls :: "exec_call list" where "quiet_calls = [CallReserve 0 quiet_request, CallCommit TxCommitted]"
definition quiet_end :: execute_end where "quiet_end = ExecuteReturns \<lparr>co_Value = 5, co_BeforePublish = None, co_AfterPublish = None\<rparr>"

definition quiet_env :: command_env where
  "quiet_env = \<lparr>ce_startCanceled = False, ce_nextID = None, ce_readyCanceled = False, ce_publishCanceled = False\<rparr>"

definition quiet_result :: PublicationResult where
  "quiet_result = \<lparr>rs_Version = sd_version (BuildRuntimeCandidate (pb_state example_publication)), rs_Checkpoint = sv_checkpoint (pb_state example_publication),
     rs_Events = [], rs_VisibilityChanges = fmempty\<rparr>"

lemma quiet_reserve: "reserveLocked js sha256 now example_publication (with_causation i quiet_request) = Return quiet_result"
proof -
  have "rg_highWater (pb_ring example_publication) = cp_GEID (sv_checkpoint (pb_state example_publication))"
    by (simp add: example_publication_def example_state_def example_version_def)
  moreover have "sortedIntKeys (fmempty :: (int64, VisibilityChange) fmap) = []" by (simp add: sortedIntKeys_def sort_by_def sorted_list_of_fset.rep_eq)
  ultimately show ?thesis
    by (simp add: reserveLocked_def quiet_request_def with_causation_def BuildRuntimeCandidate_def visibilityChanges_def sortedUniqueUserIDs_def sort_by_def Let_def
        appendVisibilityTransitions_def materializeEvents_def ValidateAppend_def validateAppendLocked_def apply_epochs_def outcome_bind_def
        quiet_result_def)
qed

lemma quiet_built: "command_built (qc_command (quiet_command quiet_calls fin))"
  by (auto simp: command_built_def quiet_command_def quiet_calls_def quiet_request_def intro: built.runtime)

lemma quiet_exec:
  "exec_calls js sha256 (NewPostCommitSequencer example_publication) (new_execution\<lparr>ex_commandID := 9\<rparr>) quiet_calls =
     Some (False, (NewPostCommitSequencer example_publication)\<lparr>sq_lock := True\<rparr>,
       \<lparr>ex_commandID = 9, ex_reservation = Some \<lparr>rv_result = quiet_result, rv_runtimeCommit = None, rv_completed = False\<rparr>, ex_committing = False,
        ex_persistent = True, ex_runtimeReady = False, ex_noop = False, ex_published = False\<rparr>)"
  by (simp add: quiet_calls_def exec_call_def ReserveExecution_def new_execution_def NewPostCommitSequencer_def quiet_reserve CommitExecution_def)
    (simp add: quiet_request_def)

lemma quiet_committed:
  "transaction_committed js sha256 quiet_env (NewPostCommitSequencer example_publication) (qc_command (quiet_command quiet_calls fin)) \<and>
   \<not> declares_noop (qc_command (quiet_command quiet_calls fin))"
  by (simp add: transaction_committed_def command_started_def command_id_def quiet_command_def quiet_env_def quiet_calls_def declares_noop_def exec_call_def
      ReserveExecution_def new_execution_def NewPostCommitSequencer_def quiet_reserve CommitExecution_def)

theorem sequenced_command_outcomes_witness:
  "\<not> sq_lock (NewPostCommitSequencer example_publication) \<and> sq_failure (NewPostCommitSequencer example_publication) = None \<and>
   (\<exists>c s'. executeAndReply example_codec example_tag (\<lambda>_. []) quiet_env (NewPostCommitSequencer example_publication) (quiet_command quiet_calls quiet_end) = Some (Return c, s') \<and>
      sv_number (pb_state (sq_publication s')) = 1 \<and> same_health (NewPostCommitSequencer example_publication) s') \<and>
   (\<exists>err f s'. executeAndReply example_codec example_tag (\<lambda>_. []) quiet_env (NewPostCommitSequencer example_publication)
        (quiet_command quiet_calls (ExecuteFails 4)) = Some (Fail err, s') \<and> failed_with f (NewPostCommitSequencer example_publication) s')"
proof -
  let ?s = "NewPostCommitSequencer example_publication" and ?q = "quiet_command quiet_calls quiet_end" and ?e = "quiet_command quiet_calls (ExecuteFails 4)"
  have free: "\<not> sq_lock ?s" "sq_failure ?s = None" by (simp_all add: NewPostCommitSequencer_def)
  have "\<exists>c s'. executeAndReply example_codec example_tag (\<lambda>_. []) quiet_env ?s ?q = Some (Return c, s') \<and> sv_number (pb_state (sq_publication s')) = 1"
    by (simp add: executeAndReply_def NewPostCommitSequencer_def execute_def quiet_command_def identified_phase_def command_id_def execute_phase_def
        quiet_exec [unfolded NewPostCommitSequencer_def] quiet_env_def quiet_end_def complete_phase_def publish_phase_def publish_reservation_def publish_def
        appendLocked_def validateAppendLocked_def quiet_result_def recovered_def signalProgress_def)
      (simp add: example_publication_def BuildRuntimeCandidate_def example_state_def)
  then obtain c s' where run: "executeAndReply example_codec example_tag (\<lambda>_. []) quiet_env ?s ?q = Some (Return c, s')" "sv_number (pb_state (sq_publication s')) = 1" by blast
  have "\<exists>err s'. executeAndReply example_codec example_tag (\<lambda>_. []) quiet_env ?s ?e = Some (Fail err, s')"
    by (simp add: executeAndReply_def NewPostCommitSequencer_def execute_def quiet_command_def identified_phase_def command_id_def execute_phase_def
        quiet_exec [unfolded NewPostCommitSequencer_def] quiet_env_def fatal_def recovered_def)
  then obtain err s2 where bad: "executeAndReply example_codec example_tag (\<lambda>_. []) quiet_env ?s ?e = Some (Fail err, s2)" by blast
  have "\<exists>f. failed_with f ?s s2"
    using sequenced_command_outcomes [OF free, of example_codec example_tag "\<lambda>_. []" quiet_env ?e] bad
      quiet_committed [of example_codec "\<lambda>_. []" "ExecuteFails 4"] by auto
  with sequenced_command_outcomes [OF free, of example_codec example_tag "\<lambda>_. []" quiet_env ?q] run free bad show ?thesis by auto
qed

abbreviation quiet_epoch :: string where "quiet_epoch \<equiv> ''00000000000000000000000000000000''"

definition quiet_system :: sequencer_system where
  "quiet_system = snd (submit_step (quiet_command quiet_calls quiet_end) (start_sequencer example_publication))"

lemma quiet_system_reached: "(seq_step js hmac sha256)\<^sup>*\<^sup>* (start_sequencer example_publication) quiet_system"
  unfolding quiet_system_def by (intro r_into_rtranclp seq_step.submit quiet_built)

lemma quiet_submit:
  "SubmitCommand (NewPostCommitSequencer p) (quiet_command calls fin) =
     (Return (), (NewPostCommitSequencer p)\<lparr>sq_commands := [quiet_command calls fin], sq_queuedBytes := 10\<rparr>)"
  by (simp add: SubmitCommand_def command_valid_def quiet_command_def enqueueCommand_def NewPostCommitSequencer_def MaxSequencerQueueBytes_def
      MaxSequencerQueueItems_def)

lemma quiet_system_fields:
  "sy_admittedCommands quiet_system = [quiet_command quiet_calls quiet_end]" "sy_admittedControls quiet_system = []"
  "sy_seq quiet_system = (NewPostCommitSequencer example_publication)\<lparr>sq_commands := [quiet_command quiet_calls quiet_end], sq_queuedBytes := 10\<rparr>"
  "sy_worker quiet_system = WIdle" "sy_replies quiet_system = []"
  by (simp_all add: quiet_system_def submit_step_def start_sequencer_def quiet_submit)

theorem sequencer_invariant_witness:
  "(seq_step example_codec example_tag (\<lambda>_. []))\<^sup>*\<^sup>* (start_sequencer example_publication) quiet_system \<and>
   state_run example_codec example_tag (\<lambda>_. []) quiet_epoch example_publication [] \<and>
   QueueDepth (sy_seq quiet_system) = 1 \<and> QueuedBytes (sy_seq quiet_system) = 10 \<and> QueuedBytes (sy_seq quiet_system) \<le> MaxSequencerQueueBytes"
proof -
  have "QueueDepth (sy_seq quiet_system) = 1" "QueuedBytes (sy_seq quiet_system) = 10" by (simp_all add: QueueDepth_def QueuedBytes_def quiet_system_fields)
  then show ?thesis using sequencer_invariant [OF quiet_system_reached example_start] quiet_system_reached example_start by blast
qed

definition failed_system :: sequencer_system where
  "failed_system = quiet_system\<lparr>sy_seq := fail_sequencer (CallbackError 1) (sy_seq quiet_system)\<rparr>"

lemma failed_system_reached: "(seq_step js hmac sha256)\<^sup>*\<^sup>* (start_sequencer example_publication) failed_system"
  unfolding failed_system_def using quiet_system_reached seq_step.failing by (rule rtranclp.rtrancl_into_rtrancl)

lemma failed_system_failure: "sq_failure (sy_seq failed_system) = Some (CallbackError 1)" "sq_closed (sy_seq failed_system)"
  by (simp_all add: failed_system_def quiet_system_fields fail_sequencer_def NewPostCommitSequencer_def)

theorem sequencer_fails_fast_witness:
  "sq_failure (sy_seq failed_system) = Some (CallbackError 1) \<and>
   (\<exists>y'. seq_step example_codec example_tag (\<lambda>_. []) failed_system y' \<and> sy_worker y' = WGot (quiet_command quiet_calls quiet_end) \<and>
      sq_failure (sy_seq y') = Some (CallbackError 1))"
proof -
  have "sy_commandsOpen failed_system" "sy_worker failed_system = WIdle" "sq_commands (sy_seq failed_system) = [quiet_command quiet_calls quiet_end]"
    by (simp_all add: failed_system_def quiet_system_fields) (simp add: quiet_system_def submit_step_def start_sequencer_def quiet_submit)
  then obtain y' where y': "run_step example_codec example_tag (\<lambda>_. []) quiet_env TakeCommand failed_system = Some y'" "sy_worker y' = WGot (quiet_command quiet_calls quiet_end)"
    by (auto simp: run_step_def take_command_def Let_def)
  have step: "seq_step example_codec example_tag (\<lambda>_. []) failed_system y'" using y'(1) by (rule seq_step.work)
  from sequencer_fails_fast [OF failed_system_reached failed_system_failure(1) r_into_rtranclp [of "seq_step example_codec example_tag (\<lambda>_. [])", OF step]] y'(2) step
  show ?thesis using failed_system_failure(1) by blast
qed

theorem sequencer_drains_witness:
  "sq_closed (sy_seq failed_system) \<and>
   (\<exists>n y'. (work_step example_codec example_tag (\<lambda>_. []) ^^ n) failed_system y' \<and> sy_worker y' = WDone \<and> replied False y' = [quiet_command quiet_calls quiet_end])"
proof -
  let ?w = "work_step example_codec example_tag (\<lambda>_. [])"
  have drains: "n \<le> work_left failed_system \<and>
    (if sy_worker y' = WDone then replied False y' = sy_admittedCommands failed_system \<and> replied True y' = sy_admittedControls failed_system else \<exists>y''. ?w y' y'')"
    if "(?w ^^ n) failed_system y'" for n y'
    using sequencer_drains [OF failed_system_reached failed_system_failure(2)] that by blast
  have "\<exists>n y'. (?w ^^ n) failed_system y' \<and> sy_worker y' = WDone"
  proof (rule ccontr)
    assume never: "\<not> ?thesis"
    have "\<exists>y'. (?w ^^ n) failed_system y'" for n
    proof (induction n)
      case (Suc n)
      then obtain y1 where y1: "(?w ^^ n) failed_system y1" by blast
      with drains never have "\<exists>y2. ?w y1 y2" by metis
      with y1 show ?case by auto
    qed simp
    then have "Suc (work_left failed_system) \<le> work_left failed_system" using drains by blast
    then show False by simp
  qed
  moreover have "sy_admittedCommands failed_system = [quiet_command quiet_calls quiet_end]" by (simp add: failed_system_def quiet_system_fields)
  ultimately show ?thesis using drains failed_system_failure(2) by metis
qed

text \<open>A command that declares itself a no-op and then still reserves and commits a transaction is answered with an ordinary error although its
  transaction is in the database: \<^verbatim>\<open>Reserve\<close> and \<^verbatim>\<open>Commit\<close> do not look at the no-op flag.\<close>

lemma noop_then_commit_is_ordinary:
  "\<exists>s' e. executeAndReply js hmac sha256 quiet_env (NewPostCommitSequencer example_publication) (quiet_command (CallMarkNoop # quiet_calls) quiet_end) =
       Some (Fail ErrCommandNotCommitted, s') \<and> sq_failure s' = None \<and> sq_publication s' = example_publication \<and>
     exec_calls js sha256 (NewPostCommitSequencer example_publication) (new_execution\<lparr>ex_commandID := 9\<rparr>) (CallMarkNoop # quiet_calls) =
       Some (False, (NewPostCommitSequencer example_publication)\<lparr>sq_lock := True\<rparr>, e) \<and> ex_persistent e"
proof -
  let ?s = "NewPostCommitSequencer example_publication"
  have calls: "exec_calls js sha256 ?s (new_execution\<lparr>ex_commandID := 9\<rparr>) (CallMarkNoop # quiet_calls) = Some (False, ?s\<lparr>sq_lock := True\<rparr>,
       \<lparr>ex_commandID = 9, ex_reservation = Some \<lparr>rv_result = quiet_result, rv_runtimeCommit = None, rv_completed = False\<rparr>, ex_committing = False,
        ex_persistent = True, ex_runtimeReady = False, ex_noop = True, ex_published = False\<rparr>)"
    by (simp add: quiet_calls_def exec_call_def ReserveExecution_def new_execution_def NewPostCommitSequencer_def quiet_reserve CommitExecution_def MarkNoop_def)
      (simp add: quiet_request_def)
  then show ?thesis
    by (simp add: executeAndReply_def execute_def identified_phase_def command_id_def execute_phase_def quiet_env_def quiet_end_def complete_phase_def aborted_def
        quiet_command_def abort_execution_def AbortReservation_def recovered_def signalProgress_def NewPostCommitSequencer_def)
qed

end
