(* ===== verification/Coordinator.thy ===== *)
theory Coordinator
  imports Ingress Session EventBus
begin

text \<open>
  The owner of control connections and of each user's one voice authority (\<^verbatim>\<open>internal/realtime/connection.go\<close>, with the
  diagnostics of \<^verbatim>\<open>internal/realtime/relay_gate.go\<close>).  A user's registry is retained by every operation that touches it and
  pruned when it is empty and nobody retains it.  Operations hold the user lock and are one step each;
  what they do after releasing it (close requests, observers, the deactivation of a voice session) is the
  list of effects they return, in order.  The random connection id is an argument, \<open>None\<close> a failing
  random source.  Go's open map order is the ascending one.  Voice operations run on the session manager
  of \<open>Session\<close>; the relay gates that serialize them are in \<open>Gates\<close>.
\<close>

section \<open>Definitions\<close>

definition MaxActiveControlConnections :: int where "MaxActiveControlConnections = 4096"
definition MaxControlConnectionsPerUser :: int where "MaxControlConnectionsPerUser = 8"
definition MaxControlConnectionsPerSource :: int where "MaxControlConnectionsPerSource = 64"

datatype coord_error = ErrInvalidControl | ErrControlConnectionLimit | ErrSourceConnectionLimit | ErrConnectionAdmissionClosed
  | ErrConnectionNotOpening | ErrConnectionNotActive | ErrVoiceAuthorityPrecondition | ErrRandomSource | ErrProtocol proto_error

datatype ConnectionState = ConnectionOpening | ConnectionActive | ConnectionClosing

record AuthLease =
  al_Revision :: uint64
  al_ExpiresAt :: int64

text \<open>A transport is the write pump of one socket; the two flags say which optional interfaces it implements.\<close>

record Transport =
  tr_id :: nat
  tr_authRevocation :: bool
  tr_voiceStats :: bool

record connectionRecord =
  cn_ref :: ControlConnectionRef
  cn_state :: ConnectionState
  cn_admitted :: bool
  cn_sourceIP :: netip_addr
  cn_lease :: AuthLease
  cn_transport :: "Transport option"

record connectionUser =
  cu_refs :: int
  cu_connections :: "(id16, connectionRecord) fmap"
  cu_nextGen :: uint64
  cu_admitted :: int
  cu_live :: int
  cu_voice :: "VoiceAuthority option"
  cu_voiceTombstone :: "(VoiceAuthority \<times> string) option"
  cu_nextVoice :: uint64

record ConnectionCoordinator =
  cc_users :: "(int64, connectionUser) fmap"
  cc_accepting :: bool
  cc_admitted :: int
  cc_sources :: "(netip_addr, int) fmap"
  cc_wg :: int
  cc_voiceAuthorityStop :: bool
  cc_voiceObserver :: bool
  cc_closeObserver :: bool

record connectionClosePlan =
  cp_transport :: "Transport option"
  cp_status :: int
  cp_reason :: string
  cp_voiceAuthority :: "VoiceAuthority option"
  cp_stop :: bool
  cp_observer :: bool
  cp_authRevoked :: bool

datatype coord_effect = StopVoice VoiceAuthority string | ObserveVoice "VoiceAuthority option" "VoiceAuthority option" string
  | RequestClose nat int string | RequestAuthRevoked nat string int | ForceClose nat | ObserveClosed ControlConnectionRef
  | EnqueueVoiceStats nat string

definition NewConnectionCoordinator :: ConnectionCoordinator where
  "NewConnectionCoordinator = \<lparr>cc_users = fmempty, cc_accepting = True, cc_admitted = 0, cc_sources = fmempty, cc_wg = 0,
     cc_voiceAuthorityStop = False, cc_voiceObserver = False, cc_closeObserver = False\<rparr>"

definition SetVoiceAuthorityDeactivator :: "ConnectionCoordinator \<Rightarrow> bool \<Rightarrow> ConnectionCoordinator" where
  "SetVoiceAuthorityDeactivator c stop = c\<lparr>cc_voiceAuthorityStop := stop\<rparr>"

definition SetVoiceAuthorityObserver :: "ConnectionCoordinator \<Rightarrow> bool \<Rightarrow> ConnectionCoordinator" where
  "SetVoiceAuthorityObserver c observer = c\<lparr>cc_voiceObserver := observer\<rparr>"

definition SetCloseObserver :: "ConnectionCoordinator \<Rightarrow> bool \<Rightarrow> ConnectionCoordinator" where
  "SetCloseObserver c observer = c\<lparr>cc_closeObserver := observer\<rparr>"

subsection \<open>Registries\<close>

definition emptyUser :: connectionUser where
  "emptyUser = \<lparr>cu_refs = 0, cu_connections = fmempty, cu_nextGen = 0, cu_admitted = 0, cu_live = 0, cu_voice = None, cu_voiceTombstone = None, cu_nextVoice = 0\<rparr>"

definition user_at :: "ConnectionCoordinator \<Rightarrow> int64 \<Rightarrow> connectionUser" where
  "user_at c u = (case fmlookup (cc_users c) u of None \<Rightarrow> emptyUser | Some x \<Rightarrow> x)"

definition put_user :: "ConnectionCoordinator \<Rightarrow> int64 \<Rightarrow> connectionUser \<Rightarrow> ConnectionCoordinator" where
  "put_user c u x = c\<lparr>cc_users := fmupd u x (cc_users c)\<rparr>"

definition acquireUser :: "ConnectionCoordinator \<Rightarrow> int64 \<Rightarrow> ConnectionCoordinator" where
  "acquireUser c u = put_user c u ((user_at c u)\<lparr>cu_refs := cu_refs (user_at c u) + 1\<rparr>)"

definition releaseUser :: "ConnectionCoordinator \<Rightarrow> int64 \<Rightarrow> ConnectionCoordinator" where
  "releaseUser c u =
     (let x = (user_at c u)\<lparr>cu_refs := cu_refs (user_at c u) - 1\<rparr>
      in if cu_refs x = 0 \<and> cu_live x = 0 then c\<lparr>cc_users := fmdrop u (cc_users c)\<rparr> else put_user c u x)"

text \<open>An operation retains the registry of its user while it runs.\<close>

definition with_user :: "ConnectionCoordinator \<Rightarrow> int64 \<Rightarrow> (ConnectionCoordinator \<Rightarrow> 'r \<times> ConnectionCoordinator) \<Rightarrow> 'r \<times> ConnectionCoordinator" where
  "with_user c u body = (let (r, c') = body (acquireUser c u) in (r, releaseUser c' u))"

definition record_at :: "ConnectionCoordinator \<Rightarrow> ControlConnectionRef \<Rightarrow> connectionRecord option" where
  "record_at c ref =
     (case fmlookup (cu_connections (user_at c (cr_UserID ref))) (cr_ControlConnectionID ref) of None \<Rightarrow> None
      | Some r \<Rightarrow> if cn_ref r = ref then Some r else None)"

definition put_record :: "ConnectionCoordinator \<Rightarrow> ControlConnectionRef \<Rightarrow> connectionRecord \<Rightarrow> ConnectionCoordinator" where
  "put_record c ref r =
     (let x = user_at c (cr_UserID ref)
      in put_user c (cr_UserID ref) (x\<lparr>cu_connections := fmupd (cr_ControlConnectionID ref) r (cu_connections x)\<rparr>))"

subsection \<open>Admission\<close>

definition source_count :: "ConnectionCoordinator \<Rightarrow> netip_addr \<Rightarrow> int" where
  "source_count c ip = (case fmlookup (cc_sources c) ip of None \<Rightarrow> 0 | Some n \<Rightarrow> n)"

definition reserveAdmission :: "ConnectionCoordinator \<Rightarrow> netip_addr \<Rightarrow> (coord_error, ConnectionCoordinator) outcome" where
  "reserveAdmission c ip =
     (if \<not> cc_accepting c then Fail ErrConnectionAdmissionClosed
      else if cc_admitted c \<ge> MaxActiveControlConnections then Fail ErrControlConnectionLimit
      else if ip \<noteq> InvalidAddr \<and> source_count c ip \<ge> MaxControlConnectionsPerSource then Fail ErrSourceConnectionLimit
      else Return (c\<lparr>cc_admitted := cc_admitted c + 1, cc_wg := cc_wg c + 1,
             cc_sources := (if ip \<noteq> InvalidAddr then fmupd ip (source_count c ip + 1) (cc_sources c) else cc_sources c)\<rparr>))"

definition releaseAdmissionLocked :: "ConnectionCoordinator \<Rightarrow> connectionRecord \<Rightarrow> ConnectionCoordinator" where
  "releaseAdmissionLocked c r =
     (if \<not> cn_admitted r then c
      else let u = cr_UserID (cn_ref r); x = user_at c u; ip = cn_sourceIP r;
               c1 = put_user c u (x\<lparr>cu_admitted := cu_admitted x - 1\<rparr>)
           in c1\<lparr>cc_admitted := cc_admitted c1 - 1,
                  cc_sources := (if ip = InvalidAddr then cc_sources c1
                                 else if source_count c1 ip - 1 = 0 then fmdrop ip (cc_sources c1) else fmupd ip (source_count c1 ip - 1) (cc_sources c1))\<rparr>)"

definition removeLocked :: "ConnectionCoordinator \<Rightarrow> connectionRecord \<Rightarrow> ConnectionCoordinator" where
  "removeLocked c r =
     (let c1 = releaseAdmissionLocked c r; u = cr_UserID (cn_ref r); x = user_at c1 u
      in (put_user c1 u (x\<lparr>cu_connections := fmdrop (cr_ControlConnectionID (cn_ref r)) (cu_connections x), cu_live := cu_live x - 1\<rparr>))
           \<lparr>cc_wg := cc_wg c1 - 1\<rparr>)"

definition ReserveConnectFrom :: "ConnectionCoordinator \<Rightarrow> id16 option \<Rightarrow> int64 \<Rightarrow> int64 \<Rightarrow> netip_addr
    \<Rightarrow> (coord_error, ControlConnectionRef) outcome \<times> ConnectionCoordinator" where
  "ReserveConnectFrom c rnd userID loginSessionID source =
     (if sint userID \<le> 0 \<or> sint loginSessionID \<le> 0 then (Fail ErrInvalidControl, c)
      else case rnd of None \<Rightarrow> (Fail ErrRandomSource, c)
        | Some i \<Rightarrow>
            with_user c userID (\<lambda>c.
              let x = user_at c userID; ip = Unmap source
              in if cu_admitted x \<ge> MaxControlConnectionsPerUser then (Fail ErrControlConnectionLimit, c)
                 else case reserveAdmission c ip of
                   Return c1 \<Rightarrow>
                     (let ref = \<lparr>cr_ControlConnectionID = i, cr_UserID = userID, cr_Generation = cu_nextGen x + 1, cr_LoginSessionID = loginSessionID\<rparr>;
                          r = \<lparr>cn_ref = ref, cn_state = ConnectionOpening, cn_admitted = True, cn_sourceIP = ip,
                               cn_lease = \<lparr>al_Revision = 0, al_ExpiresAt = 0\<rparr>, cn_transport = None\<rparr>
                      in (Return ref, put_user c1 userID (x\<lparr>cu_admitted := cu_admitted x + 1, cu_nextGen := cu_nextGen x + 1,
                            cu_connections := fmupd i r (cu_connections x), cu_live := cu_live x + 1\<rparr>)))
                 | Fail e \<Rightarrow> (Fail e, c) | Panic \<Rightarrow> (Panic, c)))"

definition StopAdmission :: "ConnectionCoordinator \<Rightarrow> ConnectionCoordinator" where
  "StopAdmission c = c\<lparr>cc_accepting := False\<rparr>"

definition activate :: "ConnectionCoordinator \<Rightarrow> ControlConnectionRef \<Rightarrow> Transport \<Rightarrow> int64
    \<Rightarrow> (coord_error, ControlConnectionRef \<times> AuthLease) outcome \<times> ConnectionCoordinator" where
  "activate c ref transport accessExpiresAt =
     (if \<not> validConnectionRef ref \<or> sint accessExpiresAt \<le> 0 then (Fail ErrInvalidControl, c)
      else with_user c (cr_UserID ref) (\<lambda>c.
        case record_at c ref of None \<Rightarrow> (Fail ErrConnectionNotOpening, c)
        | Some r \<Rightarrow>
            if cn_state r \<noteq> ConnectionOpening then (Fail ErrConnectionNotOpening, c)
            else let lease = \<lparr>al_Revision = 1, al_ExpiresAt = accessExpiresAt\<rparr>
                 in (Return (ref, lease), put_record c ref (r\<lparr>cn_transport := Some transport, cn_state := ConnectionActive, cn_lease := lease\<rparr>))))"

text \<open>The record of an active connection.\<close>

definition active_at :: "ConnectionCoordinator \<Rightarrow> ControlConnectionRef \<Rightarrow> connectionRecord option" where
  "active_at c ref = (case record_at c ref of None \<Rightarrow> None | Some r \<Rightarrow> if cn_state r = ConnectionActive then Some r else None)"

definition AuthLeaseOf :: "ConnectionCoordinator \<Rightarrow> ControlConnectionRef \<Rightarrow> AuthLease option \<times> ConnectionCoordinator" where
  "AuthLeaseOf c ref =
     (if \<not> validConnectionRef ref then (None, c) else with_user c (cr_UserID ref) (\<lambda>c. (map_option cn_lease (active_at c ref), c)))"

definition LeaseActive :: "ConnectionCoordinator \<Rightarrow> ControlConnectionRef \<Rightarrow> int64 \<Rightarrow> bool \<times> ConnectionCoordinator" where
  "LeaseActive c ref nowMillis =
     (if \<not> validConnectionRef ref \<or> sint nowMillis \<le> 0 then (False, c)
      else with_user c (cr_UserID ref) (\<lambda>c.
        ((case active_at c ref of None \<Rightarrow> False | Some r \<Rightarrow> sint (al_ExpiresAt (cn_lease r)) > sint nowMillis), c)))"

definition LeaseMatches :: "ConnectionCoordinator \<Rightarrow> ControlConnectionRef \<Rightarrow> AuthLease \<Rightarrow> int64 \<Rightarrow> bool \<times> ConnectionCoordinator" where
  "LeaseMatches c ref expected nowMillis =
     (if \<not> validConnectionRef ref \<or> al_Revision expected = 0 \<or> sint (al_ExpiresAt expected) \<le> sint nowMillis \<or> sint nowMillis \<le> 0 then (False, c)
      else with_user c (cr_UserID ref) (\<lambda>c. ((case active_at c ref of None \<Rightarrow> False | Some r \<Rightarrow> cn_lease r = expected), c)))"

definition RenewAuthLease :: "ConnectionCoordinator \<Rightarrow> ControlConnectionRef \<Rightarrow> int64 \<Rightarrow> int64 \<Rightarrow> (coord_error, AuthLease) outcome \<times> ConnectionCoordinator" where
  "RenewAuthLease c ref accessExpiresAt nowMillis =
     (if \<not> validConnectionRef ref \<or> sint accessExpiresAt \<le> 0 \<or> sint nowMillis \<le> 0 then (Fail ErrInvalidControl, c)
      else with_user c (cr_UserID ref) (\<lambda>c.
        case active_at c ref of None \<Rightarrow> (Fail ErrConnectionNotActive, c)
        | Some r \<Rightarrow>
            if sint (al_ExpiresAt (cn_lease r)) \<le> sint nowMillis then (Fail ErrConnectionNotActive, c)
            else let lease = \<lparr>al_Revision = al_Revision (cn_lease r) + 1, al_ExpiresAt = accessExpiresAt\<rparr>
                 in (Return lease, put_record c ref (r\<lparr>cn_lease := lease\<rparr>))))"

subsection \<open>Voice authority\<close>

definition CoordVoiceAuthority :: "ConnectionCoordinator \<Rightarrow> int64 \<Rightarrow> VoiceAuthority option \<times> ConnectionCoordinator" where
  "CoordVoiceAuthority c userID = (if sint userID \<le> 0 then (None, c) else with_user c userID (\<lambda>c. (cu_voice (user_at c userID), c)))"

definition PendingVoiceAuthorityTombstone :: "ConnectionCoordinator \<Rightarrow> int64 \<Rightarrow> (VoiceAuthority \<times> string) option \<times> ConnectionCoordinator" where
  "PendingVoiceAuthorityTombstone c userID =
     (if sint userID \<le> 0 then (None, c) else with_user c userID (\<lambda>c. (cu_voiceTombstone (user_at c userID), c)))"

definition clearPendingVoiceAuthorityTombstone :: "ConnectionCoordinator \<Rightarrow> VoiceAuthority \<Rightarrow> ConnectionCoordinator" where
  "clearPendingVoiceAuthorityTombstone c a =
     snd (with_user c (va_UserID a) (\<lambda>c.
       let x = user_at c (va_UserID a)
       in ((), if map_option fst (cu_voiceTombstone x) = Some a then put_user c (va_UserID a) (x\<lparr>cu_voiceTombstone := None\<rparr>) else c)))"

definition ActiveConnection :: "ConnectionCoordinator \<Rightarrow> int64 \<Rightarrow> id16 \<Rightarrow> ControlConnectionRef option \<times> ConnectionCoordinator" where
  "ActiveConnection c userID controlConnectionID =
     (if sint userID \<le> 0 \<or> controlConnectionID = 0 then (None, c)
      else with_user c userID (\<lambda>c.
        ((case fmlookup (cu_connections (user_at c userID)) controlConnectionID of None \<Rightarrow> None
          | Some r \<Rightarrow> if cn_state r = ConnectionActive then Some (cn_ref r) else None), c)))"

record VoiceAuthorityStage =
  vs_owner :: ControlConnectionRef
  vs_expected :: "VoiceAuthority option"
  vs_channelID :: int64
  vs_prepared :: "PreparedSession option"
  vs_generation :: uint64
  vs_joinedAt :: int64

record VoiceAuthorityCommit =
  vm_Previous :: "VoiceAuthority option"
  vm_Current :: VoiceAuthority
  vm_Drain :: "drain option"
  vm_Cleanup :: "revocationWork option"

definition StageVoiceReplacement :: "ConnectionCoordinator \<Rightarrow> ControlConnectionRef \<Rightarrow> VoiceAuthority option \<Rightarrow> int64 \<Rightarrow> PreparedSession option \<Rightarrow> int64
    \<Rightarrow> (coord_error, VoiceAuthorityStage) outcome \<times> ConnectionCoordinator" where
  "StageVoiceReplacement c owner expected channelID prepared joinedAt =
     (let refuse = Fail ErrVoiceAuthorityPrecondition
      in if \<not> validConnectionRef owner \<or> sint channelID \<le> 0 \<or> sint joinedAt < 0 then (refuse, c)
         else if (case expected of None \<Rightarrow> False | Some a \<Rightarrow> \<not> VoiceAuthorityValid a \<or> va_UserID a \<noteq> cr_UserID owner) then (refuse, c)
         else if prepared = None \<and> expected = None then (refuse, c)
         else if prepared \<noteq> None \<and> (info_id (Info prepared) = 0 \<or> info_user (Info prepared) \<noteq> cr_UserID owner) then (refuse, c)
         else with_user c (cr_UserID owner) (\<lambda>c.
           let x = user_at c (cr_UserID owner)
           in if active_at c owner = None \<or> cu_voice x \<noteq> expected then (refuse, c)
              else if prepared = None \<and> (case expected of None \<Rightarrow> False
                     | Some a \<Rightarrow> va_ControlConnectionID a \<noteq> cr_ControlConnectionID owner \<or> va_ConnectionGeneration a \<noteq> cr_Generation owner) then (refuse, c)
              else (Return \<lparr>vs_owner = owner, vs_expected = expected, vs_channelID = channelID, vs_prepared = prepared,
                      vs_generation = cu_nextVoice x + 1, vs_joinedAt = joinedAt\<rparr>, c)))"

definition staged_authority :: "VoiceAuthorityStage \<Rightarrow> id16 \<Rightarrow> VoiceAuthority" where
  "staged_authority s sid =
     \<lparr>va_UserID = cr_UserID (vs_owner s), va_ChannelID = vs_channelID s, va_ControlConnectionID = cr_ControlConnectionID (vs_owner s),
      va_ConnectionGeneration = cr_Generation (vs_owner s), va_VoiceSessionID = sid, va_VoiceAuthorityGeneration = vs_generation s, va_JoinedAt = vs_joinedAt s\<rparr>"

definition ProposedAuthority :: "VoiceAuthorityStage \<Rightarrow> (coord_error, VoiceAuthority) outcome" where
  "ProposedAuthority s =
     (if \<not> validConnectionRef (vs_owner s) \<or> sint (vs_channelID s) \<le> 0 \<or> vs_generation s = 0 \<or> sint (vs_joinedAt s) < 0 then Fail ErrVoiceAuthorityPrecondition
      else if vs_prepared s \<noteq> None \<and> (info_id (Info (vs_prepared s)) = 0 \<or> info_user (Info (vs_prepared s)) \<noteq> cr_UserID (vs_owner s))
      then Fail ErrVoiceAuthorityPrecondition
      else let sid = (if vs_prepared s \<noteq> None then info_id (Info (vs_prepared s)) else case vs_expected s of None \<Rightarrow> 0 | Some a \<Rightarrow> va_VoiceSessionID a);
               proposed = staged_authority s sid
           in if VoiceAuthorityValid proposed then Return proposed else Fail ErrVoiceAuthorityPrecondition)"

text \<open>The commit point.  The prepared session is a token the manager marks used, so the token after the call is returned too.\<close>

definition install_voice :: "ConnectionCoordinator \<Rightarrow> VoiceAuthorityStage \<Rightarrow> id16 \<Rightarrow> ConnectionCoordinator" where
  "install_voice c s sid =
     (let x = user_at c (cr_UserID (vs_owner s))
      in put_user c (cr_UserID (vs_owner s)) (x\<lparr>cu_nextVoice := vs_generation s, cu_voice := Some (staged_authority s sid), cu_voiceTombstone := None\<rparr>))"

definition applyStage :: "ConnectionCoordinator \<Rightarrow> VoiceAuthorityStage \<Rightarrow> Manager \<Rightarrow> bool \<Rightarrow> gotime
    \<Rightarrow> ((coord_error, VoiceAuthorityCommit) outcome \<times> effect list \<times> Manager \<times> PreparedSession option) \<times> ConnectionCoordinator" where
  "applyStage c s m allowNaturalExpiry now =
     (let refuse = (Fail ErrVoiceAuthorityPrecondition, [], m, vs_prepared s); owner = vs_owner s
      in if \<not> validConnectionRef owner \<or> (vs_prepared s = None \<and> vs_expected s = None) then (refuse, c)
         else with_user c (cr_UserID owner) (\<lambda>c.
           let x = user_at c (cr_UserID owner)
           in if active_at c owner = None \<or> cu_voice x \<noteq> vs_expected s \<or> cu_nextVoice x + 1 \<noteq> vs_generation s then (refuse, c)
              else if vs_prepared s \<noteq> None
              then (case activatePreparedStaged m (vs_prepared s) (map_option va_VoiceSessionID (vs_expected s)) allowNaturalExpiry now of
                      (Return act, es, m', p') \<Rightarrow>
                        ((Return \<lparr>vm_Previous = cu_voice x, vm_Current = staged_authority s (info_id (act_info act)), vm_Drain = act_drain act,
                            vm_Cleanup = Some (act_cleanup act)\<rparr>, es, m', p'), install_voice c s (info_id (act_info act)))
                    | (Fail e, es, m', p') \<Rightarrow> ((Fail (ErrProtocol e), es, m', p'), c)
                    | (Panic, es, m', p') \<Rightarrow> ((Panic, es, m', p'), c))
              else (case vs_expected s of None \<Rightarrow> (refuse, c)
                    | Some a \<Rightarrow>
                        (case Get m (va_VoiceSessionID a) now of
                           (Some snap, es, m') \<Rightarrow>
                             if ss_user snap \<noteq> cr_UserID owner then ((Fail (ErrProtocol ErrSessionPrecondition), es, m', None), c)
                             else ((Return \<lparr>vm_Previous = cu_voice x, vm_Current = staged_authority s (va_VoiceSessionID a), vm_Drain = None,
                                      vm_Cleanup = None\<rparr>, es, m', None), install_voice c s (va_VoiceSessionID a))
                         | (None, es, m') \<Rightarrow> ((Fail (ErrProtocol ErrSessionPrecondition), es, m', None), c)))))"

definition notifyVoiceAuthority :: "ConnectionCoordinator \<Rightarrow> VoiceAuthority option \<Rightarrow> VoiceAuthority option \<Rightarrow> string \<Rightarrow> coord_effect list" where
  "notifyVoiceAuthority c previous current reason = (if cc_voiceObserver c then [ObserveVoice previous current reason] else [])"

definition ApplyVoice :: "ConnectionCoordinator \<Rightarrow> VoiceAuthorityStage \<Rightarrow> Manager \<Rightarrow> gotime
    \<Rightarrow> ((coord_error, VoiceAuthorityCommit) outcome \<times> effect list \<times> Manager \<times> PreparedSession option) \<times> coord_effect list \<times> ConnectionCoordinator" where
  "ApplyVoice c s m now =
     (case applyStage c s m True now of
        ((Return commit, es, m1, p'), c') \<Rightarrow>
          ((Return commit, es, (case vm_Drain commit of None \<Rightarrow> m1 | Some d \<Rightarrow> run_drain m1 d), p'),
           notifyVoiceAuthority c' (vm_Previous commit) (Some (vm_Current commit)) ''session_replaced'', c')
      | (r, c') \<Rightarrow> (r, [], c'))"

text \<open>Clearing an authority: \<open>None\<close> in place of the manager skips the session.  A session the manager no longer has is already inactive.\<close>

definition session_gone :: "(proto_error, unit) outcome \<Rightarrow> bool" where
  "session_gone r = (r = Return () \<or> r = Fail ErrSessionNotFound)"

definition lift_proto :: "(proto_error, unit) outcome \<Rightarrow> (coord_error, 'a) outcome" where
  "lift_proto r = (case r of Fail e \<Rightarrow> Fail (ErrProtocol e) | _ \<Rightarrow> Panic)"

definition beginVoiceDisconnectForPublication :: "ConnectionCoordinator \<Rightarrow> VoiceAuthority \<Rightarrow> Manager option \<Rightarrow> gotime
    \<Rightarrow> ((coord_error, (VoiceAuthority \<times> drain option) option) outcome \<times> Manager option) \<times> ConnectionCoordinator" where
  "beginVoiceDisconnectForPublication c expected manager now =
     (if \<not> VoiceAuthorityValid expected then ((Fail ErrVoiceAuthorityPrecondition, manager), c)
      else with_user c (va_UserID expected) (\<lambda>c.
        let x = user_at c (va_UserID expected); cleared = put_user c (va_UserID expected) (x\<lparr>cu_voice := None\<rparr>)
        in if cu_voice x \<noteq> Some expected then ((Return None, manager), c)
           else case manager of None \<Rightarrow> ((Return (Some (expected, None)), None), cleared)
             | Some m \<Rightarrow>
                 (case DeleteStaged m (va_VoiceSessionID expected) (va_UserID expected) now of
                    (d, res, m') \<Rightarrow> if session_gone res then ((Return (Some (expected, d)), Some m'), cleared) else ((lift_proto res, Some m'), c))))"

definition beginVoiceRevokeForPublication :: "ConnectionCoordinator \<Rightarrow> VoiceAuthority \<Rightarrow> Manager \<Rightarrow> gotime
    \<Rightarrow> ((coord_error, (VoiceAuthority \<times> drain option \<times> revocationWork option) option) outcome \<times> Manager) \<times> ConnectionCoordinator" where
  "beginVoiceRevokeForPublication c expected m now =
     (if \<not> VoiceAuthorityValid expected then ((Fail ErrVoiceAuthorityPrecondition, m), c)
      else with_user c (va_UserID expected) (\<lambda>c.
        let x = user_at c (va_UserID expected); cleared = put_user c (va_UserID expected) (x\<lparr>cu_voice := None\<rparr>)
        in if cu_voice x \<noteq> Some expected then ((Return None, m), c)
           else (case RevokeStagedForPublication m (va_VoiceSessionID expected) (va_UserID expected) now of
                   (d, w, res, m') \<Rightarrow> if session_gone res then ((Return (Some (expected, d, w)), m'), cleared) else ((lift_proto res, m'), c))))"

definition BeginVoiceDisconnectReason :: "ConnectionCoordinator \<Rightarrow> VoiceAuthority \<Rightarrow> Manager option \<Rightarrow> string \<Rightarrow> gotime
    \<Rightarrow> ((coord_error, VoiceAuthority option) outcome \<times> Manager option) \<times> coord_effect list \<times> ConnectionCoordinator" where
  "BeginVoiceDisconnectReason c expected manager reason now =
     (if \<not> VoiceAuthorityValid expected then ((Fail ErrVoiceAuthorityPrecondition, manager), [], c)
      else case with_user c (va_UserID expected) (\<lambda>c.
          let x = user_at c (va_UserID expected);
              cleared = put_user c (va_UserID expected) (x\<lparr>cu_voice := None, cu_voiceTombstone := Some (expected, reason)\<rparr>)
          in if cu_voice x \<noteq> Some expected then ((Return None, manager), c)
             else case manager of None \<Rightarrow> ((Return (Some expected), None), cleared)
               | Some m \<Rightarrow>
                   (case DeleteStaged m (va_VoiceSessionID expected) (va_UserID expected) now of
                      (d, res, m') \<Rightarrow>
                        if session_gone res then ((Return (Some expected), Some (case d of None \<Rightarrow> m' | Some d' \<Rightarrow> run_drain m' d')), cleared)
                        else ((lift_proto res, Some m'), c)))
        of ((r, manager'), c') \<Rightarrow>
             ((r, manager'), (case r of Return (Some a) \<Rightarrow> notifyVoiceAuthority c' (Some a) None reason | _ \<Rightarrow> []), c'))"

subsection \<open>Closing\<close>

definition beginDisconnectLocked :: "ConnectionCoordinator \<Rightarrow> ControlConnectionRef \<Rightarrow> int \<Rightarrow> string \<Rightarrow> connectionClosePlan option \<times> ConnectionCoordinator" where
  "beginDisconnectLocked c ref statusCode reason =
     (case record_at c ref of None \<Rightarrow> (None, c)
      | Some r \<Rightarrow>
          if cn_state r = ConnectionClosing then (None, c)
          else let c1 = put_record c ref (r\<lparr>cn_state := ConnectionClosing\<rparr>); x = user_at c1 (cr_UserID ref);
                   plan = \<lparr>cp_transport = cn_transport r, cp_status = statusCode, cp_reason = reason, cp_voiceAuthority = None, cp_stop = False,
                           cp_observer = False, cp_authRevoked = False\<rparr>
               in case cu_voice x of None \<Rightarrow> (Some plan, c1)
                  | Some a \<Rightarrow>
                      if va_ControlConnectionID a = cr_ControlConnectionID ref \<and> va_ConnectionGeneration a = cr_Generation ref
                      then (Some (plan\<lparr>cp_voiceAuthority := Some a, cp_stop := cc_voiceAuthorityStop c, cp_observer := cc_voiceObserver c\<rparr>),
                            put_user c1 (cr_UserID ref) (x\<lparr>cu_voice := None, cu_voiceTombstone := Some (a, reason)\<rparr>))
                      else (Some plan, c1))"

definition runClosePlan :: "connectionClosePlan \<Rightarrow> coord_effect list" where
  "runClosePlan plan =
     (case cp_voiceAuthority plan of None \<Rightarrow> [] | Some a \<Rightarrow> if cp_stop plan then [StopVoice a (cp_reason plan)] else []) @
     (if cp_observer plan then [ObserveVoice (cp_voiceAuthority plan) None (cp_reason plan)] else []) @
     (case cp_transport plan of None \<Rightarrow> []
      | Some t \<Rightarrow> if cp_authRevoked plan \<and> tr_authRevocation t then [RequestAuthRevoked (tr_id t) (cp_reason plan) (cp_status plan)]
                  else [RequestClose (tr_id t) (cp_status plan) (cp_reason plan)])"

definition notifyClosed :: "ConnectionCoordinator \<Rightarrow> ControlConnectionRef \<Rightarrow> coord_effect list" where
  "notifyClosed c ref = (if cc_closeObserver c then [ObserveClosed ref] else [])"

definition close_result :: "ControlConnectionRef \<Rightarrow> connectionClosePlan option \<times> ConnectionCoordinator \<Rightarrow> (bool \<times> coord_effect list) \<times> ConnectionCoordinator" where
  "close_result ref r = (case r of (None, c) \<Rightarrow> ((False, []), c) | (Some plan, c) \<Rightarrow> ((True, runClosePlan plan @ notifyClosed c ref), c))"

definition ExpireAuthLease :: "ConnectionCoordinator \<Rightarrow> ControlConnectionRef \<Rightarrow> AuthLease \<Rightarrow> int64 \<Rightarrow> (bool \<times> coord_effect list) \<times> ConnectionCoordinator" where
  "ExpireAuthLease c ref expected nowMillis =
     (if \<not> validConnectionRef ref \<or> al_Revision expected = 0 \<or> sint (al_ExpiresAt expected) \<le> 0 \<or> sint nowMillis < sint (al_ExpiresAt expected)
      then ((False, []), c)
      else with_user c (cr_UserID ref) (\<lambda>c.
        if map_option cn_lease (active_at c ref) \<noteq> Some expected then ((False, []), c)
        else close_result ref (beginDisconnectLocked c ref 4001 ''token expired'')))"

definition BeginDisconnect :: "ConnectionCoordinator \<Rightarrow> ControlConnectionRef \<Rightarrow> int \<Rightarrow> string \<Rightarrow> (bool \<times> coord_effect list) \<times> ConnectionCoordinator" where
  "BeginDisconnect c ref statusCode reason =
     (if \<not> validConnectionRef ref then ((False, []), c)
      else with_user c (cr_UserID ref) (\<lambda>c. close_result ref (beginDisconnectLocked c ref statusCode reason)))"

definition FinishDisconnect :: "ConnectionCoordinator \<Rightarrow> ControlConnectionRef \<Rightarrow> ConnectionCoordinator" where
  "FinishDisconnect c ref =
     (if \<not> validConnectionRef ref then c
      else snd (with_user c (cr_UserID ref) (\<lambda>c.
        ((), case record_at c ref of None \<Rightarrow> c | Some r \<Rightarrow> if cn_state r = ConnectionClosing then removeLocked c r else c))))"

definition abortReservation :: "ConnectionCoordinator \<Rightarrow> ControlConnectionRef \<Rightarrow> ConnectionCoordinator" where
  "abortReservation c ref =
     snd (with_user c (cr_UserID ref) (\<lambda>c.
       ((), case record_at c ref of None \<Rightarrow> c | Some r \<Rightarrow> if cn_transport r = None then removeLocked c r else c)))"

text \<open>Closing the records of one user that match; \<open>revoked\<close> marks the plans of an authentication revocation.\<close>

fun close_loop :: "ConnectionCoordinator \<Rightarrow> int \<Rightarrow> string \<Rightarrow> bool \<Rightarrow> ControlConnectionRef list \<Rightarrow> (connectionClosePlan \<times> ControlConnectionRef) list \<times> ConnectionCoordinator" where
  "close_loop c statusCode reason revoked [] = ([], c)"
| "close_loop c statusCode reason revoked (ref # refs) =
     (case beginDisconnectLocked c ref statusCode reason of
        (None, c1) \<Rightarrow> close_loop c1 statusCode reason revoked refs
      | (Some plan, c1) \<Rightarrow>
          (case close_loop c1 statusCode reason revoked refs of (plans, c2) \<Rightarrow> ((plan\<lparr>cp_authRevoked := revoked\<rparr>, ref) # plans, c2)))"

definition user_refs :: "ConnectionCoordinator \<Rightarrow> int64 \<Rightarrow> ControlConnectionRef list" where
  "user_refs c u = map cn_ref (map_values (cu_connections (user_at c u)))"

definition close_user :: "ConnectionCoordinator \<Rightarrow> int64 \<Rightarrow> int \<Rightarrow> string \<Rightarrow> bool \<Rightarrow> (ControlConnectionRef \<Rightarrow> bool) \<Rightarrow> coord_effect list \<times> ConnectionCoordinator" where
  "close_user c u statusCode reason revoked match =
     with_user c u (\<lambda>c.
       case close_loop c statusCode reason revoked (filter match (user_refs c u)) of
         (plans, c1) \<Rightarrow> (concat (map (runClosePlan \<circ> fst) plans) @ concat (map (notifyClosed c1 \<circ> snd) plans), c1))"

definition DisconnectLoginSession :: "ConnectionCoordinator \<Rightarrow> int64 \<Rightarrow> int64 \<Rightarrow> string \<Rightarrow> coord_effect list \<times> ConnectionCoordinator" where
  "DisconnectLoginSession c userID loginSessionID reason =
     (if sint userID \<le> 0 \<or> sint loginSessionID \<le> 0 then ([], c)
      else close_user c userID 4002 reason True (\<lambda>ref. cr_LoginSessionID ref = loginSessionID))"

definition DisconnectUser :: "ConnectionCoordinator \<Rightarrow> int64 \<Rightarrow> string \<Rightarrow> coord_effect list \<times> ConnectionCoordinator" where
  "DisconnectUser c userID reason = (if sint userID \<le> 0 then ([], c) else close_user c userID 4002 reason True (\<lambda>_. True))"

text \<open>A pass over all users retains every registry first.\<close>

definition acquireAllUsers :: "ConnectionCoordinator \<Rightarrow> ConnectionCoordinator" where
  "acquireAllUsers c = c\<lparr>cc_users := fmmap (\<lambda>x. x\<lparr>cu_refs := cu_refs x + 1\<rparr>) (cc_users c)\<rparr>"

fun close_users :: "ConnectionCoordinator \<Rightarrow> int \<Rightarrow> string \<Rightarrow> int64 list \<Rightarrow> coord_effect list \<times> ConnectionCoordinator" where
  "close_users c statusCode reason [] = ([], c)"
| "close_users c statusCode reason (u # us) =
     (case close_loop c statusCode reason False (user_refs c u) of
        (plans, c1) \<Rightarrow>
          (case close_users (releaseUser c1 u) statusCode reason us of
             (es, c2) \<Rightarrow> ((concat (map (runClosePlan \<circ> fst) plans) @ concat (map (notifyClosed c1 \<circ> snd) plans)) @ es, c2)))"

definition DisconnectAll :: "ConnectionCoordinator \<Rightarrow> int \<Rightarrow> string \<Rightarrow> coord_effect list \<times> ConnectionCoordinator" where
  "DisconnectAll c statusCode reason = close_users (acquireAllUsers c) statusCode reason (sorted_list_of_fset (fmdom (cc_users c)))"

definition ForceCloseAll :: "ConnectionCoordinator \<Rightarrow> coord_effect list" where
  "ForceCloseAll c =
     concat (map (\<lambda>x. concat (map (\<lambda>r. case cn_transport r of None \<Rightarrow> [] | Some t \<Rightarrow> [ForceClose (tr_id t)]) (map_values (cu_connections x)))) (map_values (cc_users c)))"

subsection \<open>Diagnostics\<close>

definition StateOf :: "ConnectionCoordinator \<Rightarrow> ControlConnectionRef \<Rightarrow> ConnectionState option \<times> ConnectionCoordinator" where
  "StateOf c ref = (if \<not> validConnectionRef ref then (None, c) else with_user c (cr_UserID ref) (\<lambda>c. (map_option cn_state (record_at c ref), c)))"

definition UserActiveCount :: "ConnectionCoordinator \<Rightarrow> int64 \<Rightarrow> nat \<times> ConnectionCoordinator" where
  "UserActiveCount c userID =
     (if sint userID \<le> 0 then (0, c)
      else with_user c userID (\<lambda>c. (length (filter (\<lambda>r. cn_state r = ConnectionActive) (map_values (cu_connections (user_at c userID)))), c)))"

definition SourceCount :: "ConnectionCoordinator \<Rightarrow> netip_addr \<Rightarrow> int" where
  "SourceCount c source = (if source = InvalidAddr then 0 else source_count c (Unmap source))"

definition CoordVoiceAuthorities :: "ConnectionCoordinator \<Rightarrow> VoiceAuthority list" where
  "CoordVoiceAuthorities c = sort_by (\<lambda>a. sint (va_UserID a)) (List.map_filter cu_voice (map_values (cc_users c)))"

definition ActiveConnectionCount :: "ConnectionCoordinator \<Rightarrow> nat" where
  "ActiveConnectionCount c =
     sum_list (map (\<lambda>x. length (filter (\<lambda>r. cn_state r = ConnectionActive) (map_values (cu_connections x)))) (map_values (cc_users c)))"

definition PublishVoiceStats :: "ConnectionCoordinator \<Rightarrow> int64 \<Rightarrow> id16 \<Rightarrow> string \<Rightarrow> coord_effect list \<times> ConnectionCoordinator" where
  "PublishVoiceStats c userID sessionID frame =
     (if sint userID \<le> 0 \<or> sessionID = 0 \<or> frame = [] then ([], c)
      else with_user c userID (\<lambda>c.
        let x = user_at c userID
        in if map_option va_VoiceSessionID (cu_voice x) \<noteq> Some sessionID then ([], c)
           else (List.map_filter (\<lambda>r. case cn_transport r of None \<Rightarrow> None
                   | Some t \<Rightarrow> if cn_state r = ConnectionActive \<and> tr_voiceStats t then Some (EnqueueVoiceStats (tr_id t) frame) else None)
                   (map_values (cu_connections x)), c)))"

section \<open>Theorems\<close>

subsection \<open>Sums over finite maps\<close>

definition fmap_sum :: "('v \<Rightarrow> int) \<Rightarrow> ('k, 'v) fmap \<Rightarrow> int" where
  "fmap_sum w m = (\<Sum>k \<in> fset (fmdom m). w (the (fmlookup m k)))"

lemma fmap_sum_empty [simp]: "fmap_sum w fmempty = 0"
  by (simp add: fmap_sum_def)

lemma fmap_sum_drop: "fmap_sum w (fmdrop k m) = fmap_sum w m - (case fmlookup m k of None \<Rightarrow> 0 | Some v \<Rightarrow> w v)"
proof (cases "fmlookup m k")
  case None
  then have "fmdrop k m = m" by (intro fmap_ext) auto
  then show ?thesis using None by simp
next
  case (Some v)
  have "fmap_sum w m = w v + (\<Sum>i \<in> fset (fmdom m) - {k}. w (the (fmlookup m i)))"
    unfolding fmap_sum_def using Some by (subst sum.remove [of _ k]) (auto simp: fmlookup_dom_iff)
  moreover have "fset (fmdom (fmdrop k m)) = fset (fmdom m) - {k}" by auto
  moreover have "(\<Sum>i \<in> fset (fmdom m) - {k}. w (the (fmlookup (fmdrop k m) i))) = (\<Sum>i \<in> fset (fmdom m) - {k}. w (the (fmlookup m i)))"
    by (rule sum.cong) auto
  ultimately show ?thesis using Some by (simp add: fmap_sum_def)
qed

lemma fmap_sum_upd: "fmap_sum w (fmupd k v m) = fmap_sum w m - (case fmlookup m k of None \<Rightarrow> 0 | Some v' \<Rightarrow> w v') + w v"
proof -
  have "fmdrop k (fmupd k v m) = fmdrop k m" by (intro fmap_ext) auto
  then show ?thesis using fmap_sum_drop [of w k "fmupd k v m"] fmap_sum_drop [of w k m] by simp
qed

lemma fmap_sum_fmmap: "fmap_sum w (fmmap f m) = fmap_sum (w \<circ> f) m"
  unfolding fmap_sum_def by (rule sum.cong) (auto simp: fmlookup_dom_iff)

lemma fmap_sum_nonneg: "(\<And>v. 0 \<le> w v) \<Longrightarrow> 0 \<le> fmap_sum w m"
  unfolding fmap_sum_def by (rule sum_nonneg) simp

lemma fmap_sum_one: "fmap_sum (\<lambda>_. 1) m = int (gm_len m)"
  by (simp add: fmap_sum_def gm_len_def fcard.rep_eq)

subsection \<open>The invariant\<close>

text \<open>One user's registry: it is retained or not empty, its counters count its records, every record is filed under its own
  identity and is admitted, sockets are attached exactly while a record is past opening, and the voice authority belongs to
  an active connection.\<close>

definition record_ok :: "int64 \<Rightarrow> id16 \<Rightarrow> connectionRecord \<Rightarrow> bool" where
  "record_ok u i r \<longleftrightarrow> cr_ControlConnectionID (cn_ref r) = i \<and> cr_UserID (cn_ref r) = u \<and> cn_admitted r \<and>
     (cn_state r = ConnectionOpening \<longrightarrow> cn_transport r = None) \<and> (cn_state r = ConnectionActive \<longrightarrow> cn_transport r \<noteq> None)"

definition voice_ok :: "int64 \<Rightarrow> connectionUser \<Rightarrow> bool" where
  "voice_ok u x \<longleftrightarrow> (\<forall>a. cu_voice x = Some a \<longrightarrow> va_UserID a = u \<and>
     (\<exists>r. fmlookup (cu_connections x) (va_ControlConnectionID a) = Some r \<and> cn_state r = ConnectionActive \<and>
        cr_Generation (cn_ref r) = va_ConnectionGeneration a))"

definition user_ok :: "int64 \<Rightarrow> connectionUser \<Rightarrow> bool" where
  "user_ok u x \<longleftrightarrow> 0 \<le> cu_refs x \<and> (cu_refs x = 0 \<longrightarrow> cu_live x \<noteq> 0) \<and> cu_live x = fmap_sum (\<lambda>_. 1) (cu_connections x) \<and>
     cu_admitted x = fmap_sum (\<lambda>_. 1) (cu_connections x) \<and> cu_admitted x \<le> MaxControlConnectionsPerUser \<and>
     (\<forall>i r. fmlookup (cu_connections x) i = Some r \<longrightarrow> record_ok u i r) \<and> voice_ok u x"

definition total_by :: "(connectionRecord \<Rightarrow> int) \<Rightarrow> ConnectionCoordinator \<Rightarrow> int" where
  "total_by w c = fmap_sum (\<lambda>x. fmap_sum w (cu_connections x)) (cc_users c)"

definition from_source :: "netip_addr \<Rightarrow> connectionRecord \<Rightarrow> int" where
  "from_source ip r = (if cn_sourceIP r = ip then 1 else 0)"

definition counts_ok :: "ConnectionCoordinator \<Rightarrow> bool" where
  "counts_ok c \<longleftrightarrow> cc_admitted c = total_by (\<lambda>_. 1) c \<and> cc_wg c = total_by (\<lambda>_. 1) c \<and> total_by (\<lambda>_. 1) c \<le> MaxActiveControlConnections \<and>
     (\<forall>ip. ip \<noteq> InvalidAddr \<longrightarrow> source_count c ip = total_by (from_source ip) c \<and> total_by (from_source ip) c \<le> MaxControlConnectionsPerSource)"

definition coord_ok :: "ConnectionCoordinator \<Rightarrow> bool" where
  "coord_ok c \<longleftrightarrow> (\<forall>u x. fmlookup (cc_users c) u = Some x \<longrightarrow> user_ok u x) \<and> counts_ok c"

definition user_held :: "ConnectionCoordinator \<Rightarrow> int64 \<Rightarrow> bool" where
  "user_held c u \<longleftrightarrow> (\<exists>x. fmlookup (cc_users c) u = Some x \<and> 1 \<le> cu_refs x)"

lemma total_by_put: "total_by w (put_user c u x) = total_by w c - fmap_sum w (cu_connections (user_at c u)) + fmap_sum w (cu_connections x)"
  by (simp add: total_by_def put_user_def fmap_sum_upd user_at_def emptyUser_def split: option.split)

lemma total_by_drop: "total_by w (c\<lparr>cc_users := fmdrop u (cc_users c)\<rparr>) = total_by w c - fmap_sum w (cu_connections (user_at c u))"
  by (simp add: total_by_def fmap_sum_drop user_at_def emptyUser_def split: option.split)

lemma user_at_put [simp]: "user_at (put_user c u x) v = (if v = u then x else user_at c v)"
  by (simp add: user_at_def put_user_def)

lemma put_user_fields [simp]:
  "cc_admitted (put_user c u x) = cc_admitted c" "cc_wg (put_user c u x) = cc_wg c" "source_count (put_user c u x) ip = source_count c ip"
  "cc_accepting (put_user c u x) = cc_accepting c" "cc_sources (put_user c u x) = cc_sources c"
  "fmlookup (cc_users (put_user c u x)) v = (if v = u then Some x else fmlookup (cc_users c) v)"
  by (simp_all add: put_user_def source_count_def)

lemma user_held_put [simp]: "user_held (put_user c u x) u \<longleftrightarrow> 1 \<le> cu_refs x"
  by (simp add: user_held_def)

text \<open>Replacing a registry by one with the same connections in number and source.\<close>

lemma put_user_ok:
  assumes "coord_ok c" "user_ok u x" "\<And>w. (\<forall>r s. cn_sourceIP r = cn_sourceIP s \<longrightarrow> w r = w s) \<Longrightarrow>
    fmap_sum w (cu_connections x) = fmap_sum w (cu_connections (user_at c u))"
  shows "coord_ok (put_user c u x)"
proof -
  have "total_by w (put_user c u x) = total_by w c" if "\<forall>r s. cn_sourceIP r = cn_sourceIP s \<longrightarrow> w r = w s" for w
    using assms(3) [OF that] by (simp add: total_by_put)
  then have "total_by (\<lambda>_. 1) (put_user c u x) = total_by (\<lambda>_. 1) c" "total_by (from_source ip) (put_user c u x) = total_by (from_source ip) c" for ip
    by (simp_all add: from_source_def)
  then show ?thesis using assms(1,2) by (simp add: coord_ok_def counts_ok_def)
qed

lemma acquire_ok: "coord_ok c \<Longrightarrow> coord_ok (acquireUser c u) \<and> user_held (acquireUser c u) u"
  unfolding acquireUser_def
proof (intro conjI put_user_ok)
  assume ok: "coord_ok c"
  then have x: "fmlookup (cc_users c) u = Some x \<Longrightarrow> user_ok u x" for x by (simp add: coord_ok_def)
  show "user_ok u ((user_at c u)\<lparr>cu_refs := cu_refs (user_at c u) + 1\<rparr>)"
    using x by (cases "fmlookup (cc_users c) u") (auto simp: user_at_def emptyUser_def user_ok_def voice_ok_def MaxControlConnectionsPerUser_def)
  show "user_held (put_user c u ((user_at c u)\<lparr>cu_refs := cu_refs (user_at c u) + 1\<rparr>)) u"
    using x by (cases "fmlookup (cc_users c) u") (auto simp: user_at_def emptyUser_def user_ok_def)
qed simp_all

lemma conns_empty: "fmap_sum (\<lambda>_. 1) m = 0 \<Longrightarrow> m = fmempty"
proof (rule fmap_ext)
  fix k assume "fmap_sum (\<lambda>_. 1) m = 0"
  then have "k |\<notin>| fmdom m" by (auto simp: fmap_sum_one gm_len_def fcard.rep_eq)
  then show "fmlookup m k = fmlookup fmempty k" by (simp add: fmdom_notD)
qed

lemma release_ok:
  assumes ok: "coord_ok c" and h: "user_held c u"
  shows "coord_ok (releaseUser c u)"
proof -
  obtain x where x: "fmlookup (cc_users c) u = Some x" "1 \<le> cu_refs x" "user_ok u x" using assms by (auto simp: user_held_def coord_ok_def)
  have at: "user_at c u = x" using x(1) by (simp add: user_at_def)
  show ?thesis
  proof (cases "cu_refs x = 1 \<and> cu_live x = 0")
    case True
    then have "cu_connections x = fmempty" using x(3) conns_empty [of "cu_connections x"] by (auto simp: user_ok_def)
    then have "total_by w (c\<lparr>cc_users := fmdrop u (cc_users c)\<rparr>) = total_by w c" for w by (simp add: total_by_drop at)
    then show ?thesis using ok True by (simp add: releaseUser_def at coord_ok_def counts_ok_def source_count_def)
  next
    case False
    have "coord_ok (put_user c u (x\<lparr>cu_refs := cu_refs x - 1\<rparr>))"
      by (rule put_user_ok [OF ok]) (use x(2,3) False in \<open>auto simp: user_ok_def voice_ok_def at\<close>)
    then show ?thesis using False by (auto simp: releaseUser_def at Let_def)
  qed
qed

lemma with_user_ok:
  assumes "coord_ok c" "\<And>c. \<lbrakk>coord_ok c; user_held c u\<rbrakk> \<Longrightarrow> coord_ok (snd (body c)) \<and> user_held (snd (body c)) u"
  shows "coord_ok (snd (with_user c u body))"
  using release_ok assms(2) acquire_ok [OF assms(1), of u] by (simp add: with_user_def split_def Let_def)

subsection \<open>The steps the operations are made of\<close>

lemma user_held_user:
  assumes "coord_ok c" "user_held c u"
  shows "user_ok u (user_at c u)" "1 \<le> cu_refs (user_at c u)"
  using assms by (auto simp: user_held_def coord_ok_def user_at_def)

lemma record_at_Some:
  assumes "record_at c ref = Some r"
  shows "fmlookup (cu_connections (user_at c (cr_UserID ref))) (cr_ControlConnectionID ref) = Some r" "cn_ref r = ref"
  using assms by (auto simp: record_at_def split: option.splits if_splits)

lemma active_at_Some: "active_at c ref = Some r \<longleftrightarrow> record_at c ref = Some r \<and> cn_state r = ConnectionActive"
  by (auto simp: active_at_def split: option.splits if_splits)

lemma put_record_ok:
  assumes ok: "coord_ok c" and h: "user_held c (cr_UserID ref)" and r: "record_at c ref = Some r"
    and r': "cn_ref r' = ref" "cn_sourceIP r' = cn_sourceIP r" "cn_admitted r'"
      "cn_state r' = ConnectionOpening \<longrightarrow> cn_transport r' = None" "cn_state r' = ConnectionActive \<longrightarrow> cn_transport r' \<noteq> None"
    and voice: "cn_state r' = ConnectionActive \<or> cn_state r \<noteq> ConnectionActive"
  shows "coord_ok (put_record c ref r') \<and> user_held (put_record c ref r') (cr_UserID ref)"
proof -
  let ?u = "cr_UserID ref" and ?i = "cr_ControlConnectionID ref"
  let ?x = "user_at c ?u"
  note x = user_held_user [OF ok h] and look = record_at_Some [OF r]
  have sums: "fmap_sum w (fmupd ?i r' (cu_connections ?x)) = fmap_sum w (cu_connections ?x)" if "w r' = w r" for w
    using look(1) that by (simp add: fmap_sum_upd)
  have "voice_ok ?u (?x\<lparr>cu_connections := fmupd ?i r' (cu_connections ?x)\<rparr>)"
    using x(1) look voice r' by (fastforce simp: user_ok_def voice_ok_def split: if_splits)
  moreover have "record_ok ?u ?i r'" using r' by (simp add: record_ok_def)
  ultimately have "user_ok ?u (?x\<lparr>cu_connections := fmupd ?i r' (cu_connections ?x)\<rparr>)"
    using x(1) sums [of "\<lambda>_. 1"] by (auto simp: user_ok_def)
  then show ?thesis unfolding put_record_def Let_def using r'(2) x(2) by (intro conjI put_user_ok [OF ok]) (auto intro: sums)
qed

text \<open>Updates of the voice fields.\<close>

lemma put_voice_ok:
  assumes ok: "coord_ok c" and h: "user_held c u" and x': "x' = (user_at c u)\<lparr>cu_voice := v, cu_voiceTombstone := t, cu_nextVoice := n\<rparr>" and v: "voice_ok u x'"
  shows "coord_ok (put_user c u x') \<and> user_held (put_user c u x') u"
  using user_held_user [OF ok h] v unfolding x' by (intro conjI put_user_ok [OF ok]) (auto simp: user_ok_def)

lemma put_voice_fields:
  "(x\<lparr>cu_voice := v\<rparr>) = x\<lparr>cu_voice := v, cu_voiceTombstone := cu_voiceTombstone x, cu_nextVoice := cu_nextVoice x\<rparr>"
  "(x\<lparr>cu_voiceTombstone := t\<rparr>) = x\<lparr>cu_voice := cu_voice x, cu_voiceTombstone := t, cu_nextVoice := cu_nextVoice x\<rparr>"
  "(x\<lparr>cu_voice := v, cu_voiceTombstone := t\<rparr>) = x\<lparr>cu_voice := v, cu_voiceTombstone := t, cu_nextVoice := cu_nextVoice x\<rparr>"
  "(x\<lparr>cu_nextVoice := n, cu_voice := v, cu_voiceTombstone := t\<rparr>) = x\<lparr>cu_voice := v, cu_voiceTombstone := t, cu_nextVoice := n\<rparr>"
  by simp_all

lemma clear_voice_ok:
  assumes "coord_ok c" "user_held c u"
  shows "coord_ok (put_user c u ((user_at c u)\<lparr>cu_voice := None, cu_voiceTombstone := t\<rparr>)) \<and> user_held (put_user c u ((user_at c u)\<lparr>cu_voice := None, cu_voiceTombstone := t\<rparr>)) u"
    "coord_ok (put_user c u ((user_at c u)\<lparr>cu_voice := None\<rparr>)) \<and> user_held (put_user c u ((user_at c u)\<lparr>cu_voice := None\<rparr>)) u"
  by (rule put_voice_ok [OF assms put_voice_fields(3)], simp add: voice_ok_def) (rule put_voice_ok [OF assms put_voice_fields(1)], simp add: voice_ok_def)

text \<open>Removing a record.\<close>

lemma removeLocked_view:
  assumes "cn_admitted r"
  defines "u \<equiv> cr_UserID (cn_ref r)"
  shows "user_at (removeLocked c r) v = (if v = u then (user_at c u)\<lparr>cu_admitted := cu_admitted (user_at c u) - 1,
       cu_connections := fmdrop (cr_ControlConnectionID (cn_ref r)) (cu_connections (user_at c u)), cu_live := cu_live (user_at c u) - 1\<rparr> else user_at c v)"
    "fmlookup (cc_users (removeLocked c r)) v = (if v = u then Some (user_at (removeLocked c r) u) else fmlookup (cc_users c) v)"
    "cc_admitted (removeLocked c r) = cc_admitted c - 1" "cc_wg (removeLocked c r) = cc_wg c - 1"
    "source_count (removeLocked c r) ip = source_count c ip - (if ip \<noteq> InvalidAddr \<and> cn_sourceIP r = ip then 1 else 0)"
  using assms by (auto simp: removeLocked_def releaseAdmissionLocked_def Let_def user_at_def source_count_def put_user_def split: option.splits)

lemma total_by_users: "\<lbrakk>\<And>v. fmlookup (cc_users c') v = (if v = u then Some x else fmlookup (cc_users c) v)\<rbrakk> \<Longrightarrow>
    total_by w c' = total_by w c - fmap_sum w (cu_connections (user_at c u)) + fmap_sum w (cu_connections x)"
proof -
  assume "\<And>v. fmlookup (cc_users c') v = (if v = u then Some x else fmlookup (cc_users c) v)"
  then have "cc_users c' = cc_users (put_user c u x)" by (intro fmap_ext) simp
  then show ?thesis using total_by_put [of w c u x] by (simp add: total_by_def)
qed

lemma removeLocked_ok:
  assumes ok: "coord_ok c" and h: "user_held c (cr_UserID ref)" and r: "record_at c ref = Some r" and dead: "cn_state r \<noteq> ConnectionActive"
  shows "coord_ok (removeLocked c r) \<and> user_held (removeLocked c r) (cr_UserID ref)"
proof -
  let ?u = "cr_UserID ref" and ?i = "cr_ControlConnectionID ref"
  let ?x = "user_at c ?u"
  note x = user_held_user [OF ok h] and look = record_at_Some [OF r]
  have adm: "cn_admitted r" using x(1) look by (auto simp: user_ok_def record_ok_def)
  note view = removeLocked_view [OF adm, of c, unfolded look(2)]
  let ?x' = "?x\<lparr>cu_admitted := cu_admitted ?x - 1, cu_connections := fmdrop ?i (cu_connections ?x), cu_live := cu_live ?x - 1\<rparr>"
  have at: "user_at (removeLocked c r) ?u = ?x'" unfolding view(1) by simp
  have sums: "fmap_sum w (cu_connections ?x') = fmap_sum w (cu_connections ?x) - w r" for w using look(1) by (simp add: fmap_sum_drop)
  have "voice_ok ?u ?x'" using x(1) look dead by (fastforce simp: user_ok_def voice_ok_def)
  then have "user_ok ?u ?x'" using x sums [of "\<lambda>_. 1"] by (auto simp: user_ok_def)
  moreover have tot: "total_by w (removeLocked c r) = total_by w c - w r" for w
    using total_by_users [of "removeLocked c r" ?u ?x' c w] sums [of w] unfolding view(2) at by simp
  then have "counts_ok (removeLocked c r)"
    using ok unfolding coord_ok_def counts_ok_def tot view(3-5) by (auto simp: from_source_def)
  ultimately have "coord_ok (removeLocked c r)" using ok unfolding coord_ok_def view(2) at by auto
  moreover have "user_held (removeLocked c r) ?u" unfolding user_held_def view(2) at using x(2) by simp
  ultimately show ?thesis ..
qed

text \<open>Adding a record under a fresh identity.\<close>

lemma reserveAdmission_Return:
  assumes "reserveAdmission c ip = Return c'"
  shows "cc_users c' = cc_users c" "cc_admitted c' = cc_admitted c + 1" "cc_wg c' = cc_wg c + 1" "cc_admitted c < MaxActiveControlConnections"
    "source_count c' ip' = source_count c ip' + (if ip' \<noteq> InvalidAddr \<and> ip = ip' then 1 else 0)"
    "ip \<noteq> InvalidAddr \<Longrightarrow> source_count c ip < MaxControlConnectionsPerSource"
  using assms by (auto simp: reserveAdmission_def source_count_def split: if_splits)

lemma reserve_ok:
  assumes ok: "coord_ok c" and h: "user_held c u" and adm: "reserveAdmission c ip = Return c1" and room: "cu_admitted (user_at c u) < MaxControlConnectionsPerUser"
    and fresh: "fmlookup (cu_connections (user_at c u)) i = None"
    and r: "record_ok u i r" "cn_sourceIP r = ip" "cn_state r = ConnectionOpening"
    and x': "x' = (user_at c u)\<lparr>cu_admitted := cu_admitted (user_at c u) + 1, cu_nextGen := g, cu_connections := fmupd i r (cu_connections (user_at c u)),
      cu_live := cu_live (user_at c u) + 1\<rparr>"
  shows "coord_ok (put_user c1 u x') \<and> user_held (put_user c1 u x') u"
proof -
  let ?x = "user_at c u"
  note x = user_held_user [OF ok h] and a = reserveAdmission_Return [OF adm]
  have at1: "user_at c1 v = user_at c v" for v by (simp add: user_at_def a(1))
  have sums: "fmap_sum w (cu_connections x') = fmap_sum w (cu_connections ?x) + w r" for w using fresh by (simp add: x' fmap_sum_upd)
  have "voice_ok u x'" using x(1) fresh by (fastforce simp: user_ok_def voice_ok_def x')
  then have "user_ok u x'" using x sums [of "\<lambda>_. 1"] r room by (auto simp: user_ok_def x' fmap_sum_one)
  moreover have tot: "total_by w (put_user c1 u x') = total_by w c + w r" for w
    using sums [of w] by (simp add: total_by_put at1) (simp add: total_by_def a(1))
  then have "counts_ok (put_user c1 u x')"
    using ok a(4,6) unfolding coord_ok_def counts_ok_def tot put_user_fields a(2,3,5) by (auto simp: from_source_def r(2))
  ultimately show ?thesis using ok x(2) unfolding coord_ok_def by (auto simp: a(1) x')
qed

subsection \<open>Every operation keeps the invariant\<close>

definition ready :: "ConnectionCoordinator \<Rightarrow> int64 \<Rightarrow> bool" where
  "ready c u \<longleftrightarrow> coord_ok c \<and> user_held c u"

lemma with_user_ready:
  assumes "coord_ok c" "\<And>c. ready c u \<Longrightarrow> ready (snd (body c)) u"
  shows "coord_ok (snd (with_user c u body))"
  using assms(2) by (intro with_user_ok [OF assms(1)]) (simp add: ready_def)

lemma ready_record:
  assumes "ready c (cr_UserID ref)" "record_at c ref = Some r"
  shows "cn_ref r = ref" "cn_admitted r" "cn_state r = ConnectionOpening \<Longrightarrow> cn_transport r = None" "cn_state r = ConnectionActive \<Longrightarrow> cn_transport r \<noteq> None"
  using assms user_held_user(1) [of c "cr_UserID ref"] record_at_Some [OF assms(2)] by (auto simp: ready_def user_ok_def record_ok_def)

lemma ready_put_record:
  assumes "ready c (cr_UserID ref)" "record_at c ref = Some r" "cn_ref r' = ref" "cn_sourceIP r' = cn_sourceIP r" "cn_admitted r'"
    "cn_state r' = ConnectionOpening \<longrightarrow> cn_transport r' = None" "cn_state r' = ConnectionActive \<longrightarrow> cn_transport r' \<noteq> None"
    "cn_state r' = ConnectionActive \<or> cn_state r \<noteq> ConnectionActive"
  shows "ready (put_record c ref r') (cr_UserID ref)"
  using put_record_ok [OF _ _ assms(2-)] assms(1) by (simp add: ready_def)

lemma with_user_read: "coord_ok c \<Longrightarrow> coord_ok (snd (with_user c u (\<lambda>c. (f c, c))))"
  by (rule with_user_ready) simp_all

lemma ReserveConnectFrom_ok:
  assumes "coord_ok c" "\<And>i. rnd = Some i \<Longrightarrow> fmlookup (cu_connections (user_at c u)) i = None"
  shows "coord_ok (snd (ReserveConnectFrom c rnd u l source))"
proof (cases "sint u \<le> 0 \<or> sint l \<le> 0 \<or> rnd = None")
  case False
  then obtain i where i: "rnd = Some i" by auto
  let ?c = "acquireUser c u"
  let ?x = "user_at ?c u"
  have fresh: "fmlookup (cu_connections ?x) i = None" using assms(2) [OF i] by (simp add: acquireUser_def)
  have ok: "coord_ok ?c" "user_held ?c u" using acquire_ok [OF assms(1)] by simp_all
  show ?thesis
  proof (cases "cu_admitted ?x \<ge> MaxControlConnectionsPerUser")
    case True
    then show ?thesis using False ok by (simp add: ReserveConnectFrom_def i with_user_def Let_def release_ok)
  next
    case room: False
    show ?thesis
    proof (cases "reserveAdmission ?c (Unmap source)")
      case (Return c1)
      let ?r = "\<lparr>cn_ref = \<lparr>cr_ControlConnectionID = i, cr_UserID = u, cr_Generation = cu_nextGen ?x + 1, cr_LoginSessionID = l\<rparr>, cn_state = ConnectionOpening,
          cn_admitted = True, cn_sourceIP = Unmap source, cn_lease = \<lparr>al_Revision = 0, al_ExpiresAt = 0\<rparr>, cn_transport = None\<rparr>"
      have "record_ok u i ?r" by (simp add: record_ok_def)
      from reserve_ok [OF ok Return _ fresh this _ _ refl] room
      show ?thesis using False room Return by (simp add: ReserveConnectFrom_def i with_user_def Let_def release_ok)
    qed (use False room ok in \<open>simp_all add: ReserveConnectFrom_def i with_user_def Let_def release_ok\<close>)
  qed
qed (use assms(1) in \<open>auto simp: ReserveConnectFrom_def split: option.splits\<close>)

lemma activate_ok:
  assumes "coord_ok c"
  shows "coord_ok (snd (activate c ref transport expires))"
proof -
  have "ready (snd (case record_at c ref of None \<Rightarrow> (Fail ErrConnectionNotOpening, c) | Some r \<Rightarrow>
          if cn_state r \<noteq> ConnectionOpening then (Fail ErrConnectionNotOpening, c)
          else let lease = \<lparr>al_Revision = 1, al_ExpiresAt = expires\<rparr>
               in (Return (ref, lease), put_record c ref (r\<lparr>cn_transport := Some transport, cn_state := ConnectionActive, cn_lease := lease\<rparr>)))) (cr_UserID ref)"
    if "ready c (cr_UserID ref)" for c
  proof (cases "record_at c ref")
    case (Some r)
    from ready_put_record [OF that Some] ready_record [OF that Some] that show ?thesis by (simp add: Some Let_def)
  qed (use that in simp)
  then show ?thesis unfolding activate_def using assms by (auto intro!: with_user_ready)
qed

lemma RenewAuthLease_ok:
  assumes "coord_ok c"
  shows "coord_ok (snd (RenewAuthLease c ref expires now))"
proof -
  have "ready (snd (case active_at c ref of None \<Rightarrow> (Fail ErrConnectionNotActive, c) | Some r \<Rightarrow>
          if sint (al_ExpiresAt (cn_lease r)) \<le> sint now then (Fail ErrConnectionNotActive, c)
          else let lease = \<lparr>al_Revision = al_Revision (cn_lease r) + 1, al_ExpiresAt = expires\<rparr>
               in (Return lease, put_record c ref (r\<lparr>cn_lease := lease\<rparr>)))) (cr_UserID ref)"
    if "ready c (cr_UserID ref)" for c
  proof (cases "active_at c ref")
    case (Some r)
    then have r: "record_at c ref = Some r" "cn_state r = ConnectionActive" by (simp_all add: active_at_Some)
    from ready_put_record [OF that r(1)] ready_record [OF that r(1)] r(2) that show ?thesis by (simp add: Some Let_def)
  qed (use that in simp)
  then show ?thesis unfolding RenewAuthLease_def using assms by (auto intro!: with_user_ready)
qed

lemma ready_install:
  assumes "ready c (cr_UserID (vs_owner s))" "active_at c (vs_owner s) = Some r"
  shows "ready (install_voice c s sid) (cr_UserID (vs_owner s))"
proof -
  have "fmlookup (cu_connections (user_at c (cr_UserID (vs_owner s)))) (cr_ControlConnectionID (vs_owner s)) = Some r" "cn_ref r = vs_owner s"
    "cn_state r = ConnectionActive" using assms(2) record_at_Some [of c "vs_owner s" r] by (simp_all add: active_at_Some)
  then have "voice_ok (cr_UserID (vs_owner s)) ((user_at c (cr_UserID (vs_owner s)))\<lparr>cu_nextVoice := vs_generation s, cu_voice := Some (staged_authority s sid),
      cu_voiceTombstone := None\<rparr>)" by (simp add: voice_ok_def staged_authority_def)
  with assms(1) show ?thesis
    unfolding install_voice_def Let_def ready_def by (intro put_voice_ok [OF _ _ put_voice_fields(4)]) simp_all
qed

lemma applyStage_ok:
  assumes "coord_ok c"
  shows "coord_ok (snd (applyStage c s m allow now))"
  unfolding applyStage_def Let_def using assms
  by (auto intro!: with_user_ready split: option.split prod.split outcome.split) (auto intro: ready_install)

lemma ApplyVoice_ok: "coord_ok c \<Longrightarrow> coord_ok (snd (snd (ApplyVoice c s m now)))"
  using applyStage_ok [of c s m True now] by (auto simp: ApplyVoice_def split: prod.split outcome.split)

lemma ready_clear:
  "ready c u \<Longrightarrow> ready (put_user c u ((user_at c u)\<lparr>cu_voice := None, cu_voiceTombstone := t\<rparr>)) u"
  "ready c u \<Longrightarrow> ready (put_user c u ((user_at c u)\<lparr>cu_voice := None\<rparr>)) u"
  using clear_voice_ok [of c u] by (simp_all add: ready_def)

lemma ready_tombstone: "ready c u \<Longrightarrow> ready (put_user c u ((user_at c u)\<lparr>cu_voiceTombstone := t\<rparr>)) u"
  unfolding ready_def using user_held_user(1) [of c u]
  by (intro put_voice_ok [OF _ _ put_voice_fields(2)]) (auto simp: user_ok_def voice_ok_def)

lemma voice_ops_ok:
  assumes "coord_ok c"
  shows "coord_ok (snd (StageVoiceReplacement c owner expected channelID prepared joinedAt))"
    "coord_ok (clearPendingVoiceAuthorityTombstone c a)"
    "coord_ok (snd (beginVoiceDisconnectForPublication c a manager now))"
    "coord_ok (snd (beginVoiceRevokeForPublication c a m now))"
    "coord_ok (snd (snd (BeginVoiceDisconnectReason c a manager reason now)))"
proof -
  show "coord_ok (snd (StageVoiceReplacement c owner expected channelID prepared joinedAt))"
    unfolding StageVoiceReplacement_def Let_def using assms by (auto intro!: with_user_ready split: option.split)
  show "coord_ok (clearPendingVoiceAuthorityTombstone c a)"
    unfolding clearPendingVoiceAuthorityTombstone_def Let_def using assms by (auto intro!: with_user_ready intro: ready_tombstone)
  show "coord_ok (snd (beginVoiceDisconnectForPublication c a manager now))"
    unfolding beginVoiceDisconnectForPublication_def Let_def using assms
    by (auto intro!: with_user_ready intro: ready_clear split: option.split prod.split)
  show "coord_ok (snd (beginVoiceRevokeForPublication c a m now))"
    unfolding beginVoiceRevokeForPublication_def Let_def using assms
    by (auto intro!: with_user_ready intro: ready_clear split: option.split prod.split)
  have "coord_ok (snd (with_user c (va_UserID a) (\<lambda>c.
          let x = user_at c (va_UserID a);
              cleared = put_user c (va_UserID a) (x\<lparr>cu_voice := None, cu_voiceTombstone := Some (a, reason)\<rparr>)
          in if cu_voice x \<noteq> Some a then ((Return None, manager), c)
             else case manager of None \<Rightarrow> ((Return (Some a), None), cleared)
               | Some m \<Rightarrow>
                   (case DeleteStaged m (va_VoiceSessionID a) (va_UserID a) now of
                      (d, res, m') \<Rightarrow>
                        if session_gone res then ((Return (Some a), Some (case d of None \<Rightarrow> m' | Some d' \<Rightarrow> run_drain m' d')), cleared)
                        else ((lift_proto res, Some m'), c)))))"
    unfolding Let_def using assms by (auto intro!: with_user_ready intro: ready_clear split: option.split prod.split)
  then show "coord_ok (snd (snd (BeginVoiceDisconnectReason c a manager reason now)))"
    unfolding BeginVoiceDisconnectReason_def using assms by (auto split: prod.split)
qed

text \<open>Closing a record clears the voice authority it owns in the same step.\<close>

lemma ready_close:
  assumes "ready c (cr_UserID ref)"
  shows "ready (snd (beginDisconnectLocked c ref statusCode reason)) (cr_UserID ref)"
proof (cases "record_at c ref")
  case (Some r)
  let ?u = "cr_UserID ref" and ?i = "cr_ControlConnectionID ref"
  let ?x = "user_at c ?u" and ?r = "r\<lparr>cn_state := ConnectionClosing\<rparr>"
  note x = user_held_user [of c ?u] and look = record_at_Some [OF Some]
  have ok: "coord_ok c" "user_ok ?u ?x" "1 \<le> cu_refs ?x" using assms x by (simp_all add: ready_def)
  have sums: "fmap_sum w (fmupd ?i ?r (cu_connections ?x)) = fmap_sum w (cu_connections ?x)" if "w ?r = w r" for w
    using look(1) that by (simp add: fmap_sum_upd)
  have "record_ok ?u ?i r" using ok(2) look(1) by (simp add: user_ok_def)
  then have "record_ok ?u ?i ?r" by (simp add: record_ok_def)
  then have filed: "\<forall>j r'. fmlookup (fmupd ?i ?r (cu_connections ?x)) j = Some r' \<longrightarrow> record_ok ?u j r'"
    using ok(2) by (simp add: user_ok_def)
  have close: "ready (put_user c ?u (?x\<lparr>cu_connections := fmupd ?i ?r (cu_connections ?x), cu_voice := v, cu_voiceTombstone := t\<rparr>)) ?u"
    if "voice_ok ?u (?x\<lparr>cu_connections := fmupd ?i ?r (cu_connections ?x), cu_voice := v, cu_voiceTombstone := t\<rparr>)" for v t
  proof -
    have "user_ok ?u (?x\<lparr>cu_connections := fmupd ?i ?r (cu_connections ?x), cu_voice := v, cu_voiceTombstone := t\<rparr>)"
      using ok(2,3) sums [of "\<lambda>_. 1"] that filed unfolding user_ok_def by simp
    note user = this
    have same: "fmap_sum w (cu_connections (?x\<lparr>cu_connections := fmupd ?i ?r (cu_connections ?x), cu_voice := v, cu_voiceTombstone := t\<rparr>)) = fmap_sum w (cu_connections ?x)"
      if "\<forall>r s. cn_sourceIP r = cn_sourceIP s \<longrightarrow> w r = w s" for w
    proof -
      have "w ?r = w r" by (rule that [rule_format]) simp
      then show ?thesis using sums by simp
    qed
    have "coord_ok (put_user c ?u (?x\<lparr>cu_connections := fmupd ?i ?r (cu_connections ?x), cu_voice := v, cu_voiceTombstone := t\<rparr>))"
      by (rule put_user_ok [OF ok(1) user]) (rule same)
    then show ?thesis unfolding ready_def using ok(3) by simp
  qed
  have keep: "voice_ok ?u (?x\<lparr>cu_connections := fmupd ?i ?r (cu_connections ?x), cu_voice := cu_voice ?x, cu_voiceTombstone := t\<rparr>)"
    if "\<not> (\<exists>a. cu_voice ?x = Some a \<and> va_ControlConnectionID a = ?i \<and> va_ConnectionGeneration a = cr_Generation ref)" for t
    unfolding voice_ok_def
  proof (intro allI impI)
    fix a assume "cu_voice (?x\<lparr>cu_connections := fmupd ?i ?r (cu_connections ?x), cu_voice := cu_voice ?x, cu_voiceTombstone := t\<rparr>) = Some a"
    then have a: "cu_voice ?x = Some a" by simp
    with ok(2) obtain r0 where r0: "va_UserID a = ?u" "fmlookup (cu_connections ?x) (va_ControlConnectionID a) = Some r0" "cn_state r0 = ConnectionActive"
      "cr_Generation (cn_ref r0) = va_ConnectionGeneration a" by (auto simp: user_ok_def voice_ok_def)
    then have "va_ControlConnectionID a \<noteq> ?i" using that a look by auto
    then show "va_UserID a = ?u \<and> (\<exists>r'. fmlookup (cu_connections (?x\<lparr>cu_connections := fmupd ?i ?r (cu_connections ?x), cu_voice := cu_voice ?x,
        cu_voiceTombstone := t\<rparr>)) (va_ControlConnectionID a) = Some r' \<and> cn_state r' = ConnectionActive \<and> cr_Generation (cn_ref r') = va_ConnectionGeneration a)"
      using r0 by simp
  qed
  have twice: "put_user (put_user c ?u y) ?u z = put_user c ?u z" for y z by (simp add: put_user_def fmap_ext)
  have none: "voice_ok ?u (?x\<lparr>cu_connections := fmupd ?i ?r (cu_connections ?x), cu_voice := None, cu_voiceTombstone := t\<rparr>)" for t by (simp add: voice_ok_def)
  have same: "?x\<lparr>cu_connections := y, cu_voice := cu_voice ?x, cu_voiceTombstone := cu_voiceTombstone ?x\<rparr> = ?x\<lparr>cu_connections := y\<rparr>" for y by simp
  consider (closing) "cn_state r = ConnectionClosing"
    | (owned) a where "cn_state r \<noteq> ConnectionClosing" "cu_voice ?x = Some a" "va_ControlConnectionID a = ?i" "va_ConnectionGeneration a = cr_Generation ref"
    | (other) "cn_state r \<noteq> ConnectionClosing" "\<not> (\<exists>a. cu_voice ?x = Some a \<and> va_ControlConnectionID a = ?i \<and> va_ConnectionGeneration a = cr_Generation ref)"
    by blast
  then show ?thesis
  proof cases
    case closing
    then show ?thesis using assms by (simp add: beginDisconnectLocked_def Some)
  next
    case owned
    then have "snd (beginDisconnectLocked c ref statusCode reason) =
        put_user c ?u (?x\<lparr>cu_connections := fmupd ?i ?r (cu_connections ?x), cu_voice := None, cu_voiceTombstone := Some (a, reason)\<rparr>)"
      by (simp add: beginDisconnectLocked_def Some put_record_def Let_def twice)
    then show ?thesis using close [OF none] by simp
  next
    case other
    then have "snd (beginDisconnectLocked c ref statusCode reason) = put_user c ?u (?x\<lparr>cu_connections := fmupd ?i ?r (cu_connections ?x)\<rparr>)"
      by (cases "cu_voice ?x") (auto simp: beginDisconnectLocked_def Some put_record_def Let_def)
    then show ?thesis using close [OF keep [OF other(2)], where t = "cu_voiceTombstone ?x"] same by simp
  qed
qed (use assms in \<open>simp add: beginDisconnectLocked_def\<close>)

lemma ready_close_result: "ready c (cr_UserID ref) \<Longrightarrow> ready (snd (close_result ref (beginDisconnectLocked c ref statusCode reason))) (cr_UserID ref)"
  using ready_close [of c ref statusCode reason] by (auto simp: close_result_def split: prod.splits option.splits)

lemma removal_ops_ok:
  assumes "coord_ok c"
  shows "coord_ok (FinishDisconnect c ref)" "coord_ok (abortReservation c ref)"
proof -
  have finish: "ready (case record_at c ref of None \<Rightarrow> c | Some r \<Rightarrow> if cn_state r = ConnectionClosing then removeLocked c r else c) (cr_UserID ref)"
    and abort: "ready (case record_at c ref of None \<Rightarrow> c | Some r \<Rightarrow> if cn_transport r = None then removeLocked c r else c) (cr_UserID ref)"
    if "ready c (cr_UserID ref)" for c
  proof -
    have dead: "ready (removeLocked c r) (cr_UserID ref)" if "record_at c ref = Some r" "cn_state r \<noteq> ConnectionActive" for r
      using \<open>ready c (cr_UserID ref)\<close> removeLocked_ok [OF _ _ that] by (simp add: ready_def)
    show "ready (case record_at c ref of None \<Rightarrow> c | Some r \<Rightarrow> if cn_state r = ConnectionClosing then removeLocked c r else c) (cr_UserID ref)"
      using that dead by (cases "record_at c ref") auto
    show "ready (case record_at c ref of None \<Rightarrow> c | Some r \<Rightarrow> if cn_transport r = None then removeLocked c r else c) (cr_UserID ref)"
    proof (cases "record_at c ref")
      case (Some r)
      then show ?thesis using that dead [OF Some] ready_record(4) [OF that Some] by (cases "cn_state r = ConnectionActive") auto
    qed (use that in simp)
  qed
  show "coord_ok (FinishDisconnect c ref)"
    unfolding FinishDisconnect_def using assms with_user_ready [OF assms, of "cr_UserID ref" "\<lambda>c. ((), case record_at c ref of None \<Rightarrow> c
      | Some r \<Rightarrow> if cn_state r = ConnectionClosing then removeLocked c r else c)"] finish by simp
  show "coord_ok (abortReservation c ref)"
    unfolding abortReservation_def using with_user_ready [OF assms, of "cr_UserID ref" "\<lambda>c. ((), case record_at c ref of None \<Rightarrow> c
      | Some r \<Rightarrow> if cn_transport r = None then removeLocked c r else c)"] abort by simp
qed

lemma close_ops_ok:
  assumes "coord_ok c"
  shows "coord_ok (snd (BeginDisconnect c ref statusCode reason))" "coord_ok (snd (ExpireAuthLease c ref lease now))"
  using assms by (auto simp: BeginDisconnect_def ExpireAuthLease_def intro!: with_user_ready intro: ready_close_result)

lemma ready_close_loop:
  "\<lbrakk>ready c u; \<forall>ref \<in> set refs. cr_UserID ref = u\<rbrakk> \<Longrightarrow> ready (snd (close_loop c statusCode reason revoked refs)) u"
proof (induction refs arbitrary: c)
  case (Cons ref refs)
  from ready_close [of c ref statusCode reason] Cons.prems have "ready (snd (beginDisconnectLocked c ref statusCode reason)) u" by simp
  from Cons.IH [OF this] Cons.prems show ?case by (auto split: prod.split option.split)
qed simp

lemma user_refs_own:
  assumes "ready c u"
  shows "\<forall>ref \<in> set (user_refs c u). cr_UserID ref = u"
  using user_held_user(1) [of c u] assms by (auto simp: user_refs_def set_map_values ready_def user_ok_def record_ok_def)

lemma close_user_ok:
  assumes "coord_ok c"
  shows "coord_ok (snd (close_user c u statusCode reason revoked match))"
  unfolding close_user_def
proof (rule with_user_ready [OF assms])
  fix c assume r: "ready c u"
  have "\<forall>ref \<in> set (filter match (user_refs c u)). cr_UserID ref = u" using user_refs_own [OF r] by simp
  from ready_close_loop [OF r this, of statusCode reason revoked] show "ready (snd (case close_loop c statusCode reason revoked (filter match (user_refs c u)) of
      (plans, c1) \<Rightarrow> (concat (map (runClosePlan \<circ> fst) plans) @ concat (map (notifyClosed c1 \<circ> snd) plans), c1))) u"
    by (cases "close_loop c statusCode reason revoked (filter match (user_refs c u))") simp
qed

text \<open>A pass over all users.\<close>

lemma close_others: "v \<noteq> cr_UserID ref \<Longrightarrow> fmlookup (cc_users (snd (beginDisconnectLocked c ref statusCode reason))) v = fmlookup (cc_users c) v"
  by (auto simp: beginDisconnectLocked_def put_record_def Let_def split: option.split)

lemma close_loop_others:
  "\<forall>ref \<in> set refs. cr_UserID ref \<noteq> v \<Longrightarrow> fmlookup (cc_users (snd (close_loop c statusCode reason revoked refs))) v = fmlookup (cc_users c) v"
proof (induction refs arbitrary: c)
  case (Cons ref refs)
  then have "fmlookup (cc_users (snd (close_loop (snd (beginDisconnectLocked c ref statusCode reason)) statusCode reason revoked refs))) v = fmlookup (cc_users c) v"
    using close_others [of v ref c statusCode reason] by fastforce
  then show ?case by (auto split: prod.split option.split)
qed simp

lemma release_others: "v \<noteq> u \<Longrightarrow> fmlookup (cc_users (releaseUser c u)) v = fmlookup (cc_users c) v"
  by (simp add: releaseUser_def Let_def)

lemma close_users_ok:
  "\<lbrakk>coord_ok c; distinct us; \<forall>u \<in> set us. user_held c u\<rbrakk> \<Longrightarrow> coord_ok (snd (close_users c statusCode reason us))"
proof (induction us arbitrary: c)
  case (Cons u us)
  let ?c1 = "snd (close_loop c statusCode reason False (user_refs c u))"
  have r: "ready c u" using Cons.prems by (simp add: ready_def)
  note own = user_refs_own [OF r]
  from ready_close_loop [OF r own] have r1: "ready ?c1 u" .
  have "user_held (releaseUser ?c1 u) v" if "v \<in> set us" for v
  proof -
    have "v \<noteq> u" using that Cons.prems(2) by auto
    then have "fmlookup (cc_users ?c1) v = fmlookup (cc_users c) v" using own by (intro close_loop_others) auto
    then show ?thesis using Cons.prems(3) that \<open>v \<noteq> u\<close> release_others [OF \<open>v \<noteq> u\<close>] by (simp add: user_held_def)
  qed
  with Cons.IH [of "releaseUser ?c1 u"] release_ok [of ?c1 u] r1 Cons.prems(2) have "coord_ok (snd (close_users (releaseUser ?c1 u) statusCode reason us))"
    by (simp add: ready_def)
  then show ?case by (auto split: prod.split)
qed simp

lemma acquireAll_ok:
  assumes "coord_ok c"
  shows "coord_ok (acquireAllUsers c)" "u |\<in>| fmdom (cc_users c) \<Longrightarrow> user_held (acquireAllUsers c) u"
proof -
  have ok: "fmlookup (cc_users c) u = Some x \<Longrightarrow> user_ok u x" for u x using assms by (simp add: coord_ok_def)
  have "total_by w (acquireAllUsers c) = total_by w c" for w by (simp add: total_by_def acquireAllUsers_def fmap_sum_fmmap comp_def)
  then have "counts_ok (acquireAllUsers c)" using assms by (simp add: coord_ok_def counts_ok_def acquireAllUsers_def source_count_def)
  moreover have "user_ok u x" if look: "fmlookup (cc_users (acquireAllUsers c)) u = Some x" for u x
  proof -
    obtain y where y: "fmlookup (cc_users c) u = Some y" "x = y\<lparr>cu_refs := cu_refs y + 1\<rparr>" using look by (auto simp: acquireAllUsers_def)
    from ok [OF y(1)] show ?thesis unfolding y(2) by (auto simp: user_ok_def voice_ok_def)
  qed
  ultimately show "coord_ok (acquireAllUsers c)" by (simp add: coord_ok_def)
  show "user_held (acquireAllUsers c) u" if "u |\<in>| fmdom (cc_users c)"
    using that ok [of u] by (auto simp: user_held_def acquireAllUsers_def user_ok_def fmlookup_dom_iff)
qed

lemma DisconnectAll_ok: "coord_ok c \<Longrightarrow> coord_ok (snd (DisconnectAll c statusCode reason))"
  unfolding DisconnectAll_def
  by (intro close_users_ok acquireAll_ok ballI) (auto simp: sorted_list_of_fset.rep_eq intro: acquireAll_ok)

subsection \<open>The running coordinator\<close>

text \<open>The operations, in any order and on any arguments, and the moments at which a concurrent operation has retained a registry or
  lets go of it.  A reservation draws an identity none of the user's connections has.\<close>

inductive coord_step :: "ConnectionCoordinator \<Rightarrow> ConnectionCoordinator \<Rightarrow> bool" where
  "(\<And>i. rnd = Some i \<Longrightarrow> fmlookup (cu_connections (user_at c u)) i = None) \<Longrightarrow> coord_step c (snd (ReserveConnectFrom c rnd u l source))"
| "coord_step c (snd (activate c ref transport expires))"
| "coord_step c (abortReservation c ref)"
| "coord_step c (snd (RenewAuthLease c ref expires now))"
| "coord_step c (snd (ExpireAuthLease c ref lease now))"
| "coord_step c (snd (StageVoiceReplacement c owner expected channelID prepared joinedAt))"
| "coord_step c (snd (applyStage c s m allow clock))"
| "coord_step c (snd (snd (ApplyVoice c s m clock)))"
| "coord_step c (snd (beginVoiceDisconnectForPublication c a manager clock))"
| "coord_step c (snd (beginVoiceRevokeForPublication c a m clock))"
| "coord_step c (snd (snd (BeginVoiceDisconnectReason c a manager reason clock)))"
| "coord_step c (clearPendingVoiceAuthorityTombstone c a)"
| "coord_step c (snd (BeginDisconnect c ref statusCode reason))"
| "coord_step c (FinishDisconnect c ref)"
| "coord_step c (snd (DisconnectLoginSession c u l reason))"
| "coord_step c (snd (DisconnectUser c u reason))"
| "coord_step c (snd (DisconnectAll c statusCode reason))"
| "coord_step c (StopAdmission c)"
| "coord_step c (acquireUser c u)"
| "user_held c u \<Longrightarrow> coord_step c (releaseUser c u)"

lemma coord_step_ok: "coord_step c c' \<Longrightarrow> coord_ok c \<Longrightarrow> coord_ok c'"
proof (induction rule: coord_step.induct)
  case (1 rnd c u l source)
  then show ?case using ReserveConnectFrom_ok by blast
next
  case (15 c u l reason)
  then show ?case using close_user_ok by (simp add: DisconnectLoginSession_def)
next
  case (16 c u reason)
  then show ?case using close_user_ok by (simp add: DisconnectUser_def)
next
  case (18 c)
  then show ?case by (simp add: StopAdmission_def coord_ok_def counts_ok_def total_by_def source_count_def)
qed (simp_all add: activate_ok removal_ops_ok RenewAuthLease_ok close_ops_ok voice_ops_ok applyStage_ok ApplyVoice_ok DisconnectAll_ok acquire_ok release_ok)

lemma coord_start_ok: "coord_ok NewConnectionCoordinator"
  by (simp add: coord_ok_def counts_ok_def NewConnectionCoordinator_def total_by_def source_count_def MaxActiveControlConnections_def MaxControlConnectionsPerSource_def)

text \<open>C31. Admission and ownership: from an empty coordinator, whatever operations run in whatever order, the process admits exactly as
  many sockets as there are records, at most 4096 of them, at most 8 of one user and at most 64 of one source address, the per-source
  counters are exact, every record is filed under its own identity and user, and a voice authority always belongs to a connection of that
  user that is active now, in the same generation.\<close>

theorem coordinator_invariant:
  assumes "coord_step\<^sup>*\<^sup>* NewConnectionCoordinator c"
  shows "cc_admitted c = total_by (\<lambda>_. 1) c \<and> cc_wg c = cc_admitted c \<and> cc_admitted c \<le> 4096 \<and>
    (\<forall>ip. ip = InvalidAddr \<or> source_count c ip = total_by (from_source ip) c \<and> source_count c ip \<le> 64) \<and>
    (\<forall>u x. fmlookup (cc_users c) u = Some x \<longrightarrow> int (gm_len (cu_connections x)) \<le> 8 \<and>
       (\<forall>i r. fmlookup (cu_connections x) i = Some r \<longrightarrow> cr_ControlConnectionID (cn_ref r) = i \<and> cr_UserID (cn_ref r) = u) \<and>
       (\<forall>a. cu_voice x = Some a \<longrightarrow> va_UserID a = u \<and>
          (\<exists>r. fmlookup (cu_connections x) (va_ControlConnectionID a) = Some r \<and> cn_state r = ConnectionActive \<and>
             cr_Generation (cn_ref r) = va_ConnectionGeneration a)))"
proof -
  have "coord_ok c" using assms by (induction rule: rtranclp_induct) (auto intro: coord_step_ok coord_start_ok)
  then have ok: "counts_ok c" "fmlookup (cc_users c) u = Some x \<Longrightarrow> user_ok u x" for u x by (simp_all add: coord_ok_def)
  have counts: "cc_admitted c = total_by (\<lambda>_. 1) c \<and> cc_wg c = cc_admitted c \<and> cc_admitted c \<le> 4096 \<and>
      (\<forall>ip. ip = InvalidAddr \<or> source_count c ip = total_by (from_source ip) c \<and> source_count c ip \<le> 64)"
    using ok(1) by (auto simp: counts_ok_def MaxActiveControlConnections_def MaxControlConnectionsPerSource_def)
  show ?thesis
  proof (intro conjI allI impI)
    fix u x assume "fmlookup (cc_users c) u = Some x"
    from ok(2) [OF this] have x: "user_ok u x" .
    show "int (gm_len (cu_connections x)) \<le> 8" using x by (simp add: user_ok_def fmap_sum_one MaxControlConnectionsPerUser_def)
    show "cr_ControlConnectionID (cn_ref r) = i" "cr_UserID (cn_ref r) = u" if "fmlookup (cu_connections x) i = Some r" for i r
      using x that by (auto simp: user_ok_def record_ok_def)
    show "va_UserID a = u" "\<exists>r. fmlookup (cu_connections x) (va_ControlConnectionID a) = Some r \<and> cn_state r = ConnectionActive \<and>
        cr_Generation (cn_ref r) = va_ConnectionGeneration a" if "cu_voice x = Some a" for a
      using x that by (auto simp: user_ok_def voice_ok_def)
  qed (use counts in blast)+
qed

subsection \<open>Voice transitions\<close>

lemma user_at_acquire [simp]:
  "cu_connections (user_at (acquireUser c u) v) = cu_connections (user_at c v)" "cu_voice (user_at (acquireUser c u) v) = cu_voice (user_at c v)"
  "cu_nextVoice (user_at (acquireUser c u) v) = cu_nextVoice (user_at c v)" "cu_voiceTombstone (user_at (acquireUser c u) v) = cu_voiceTombstone (user_at c v)"
  by (simp_all add: acquireUser_def)

lemma at_acquire [simp]: "record_at (acquireUser c u) ref = record_at c ref" "active_at (acquireUser c u) ref = active_at c ref"
  by (simp_all add: record_at_def active_at_def)

text \<open>An operation that changes nothing leaves no trace of the registry it retained.\<close>

lemma release_acquire:
  assumes "coord_ok c"
  shows "releaseUser (acquireUser c u) u = c"
proof (cases "fmlookup (cc_users c) u")
  case None
  have "fmdrop u (fmupd u x (cc_users c)) = cc_users c" for x using None by (intro fmap_ext) auto
  then show ?thesis using None by (simp add: releaseUser_def acquireUser_def user_at_def emptyUser_def put_user_def Let_def)
next
  case (Some x)
  then have "user_ok u x" using assms by (simp add: coord_ok_def)
  then have "\<not> (cu_refs x = 0 \<and> cu_live x = 0)" unfolding user_ok_def by blast
  moreover have "fmupd u x (fmupd u y (cc_users c)) = cc_users c" for y using Some by (intro fmap_ext) auto
  ultimately show ?thesis using Some by (auto simp: releaseUser_def acquireUser_def user_at_def put_user_def Let_def)
qed

lemma with_user_same: "\<lbrakk>coord_ok c; body (acquireUser c u) = (r, acquireUser c u)\<rbrakk> \<Longrightarrow> with_user c u body = (r, c)"
  by (simp add: with_user_def release_acquire)

lemma user_at_release:
  assumes "cu_live (user_at c u) \<noteq> 0"
  shows "user_at (releaseUser c u) v = (if v = u then (user_at c u)\<lparr>cu_refs := cu_refs (user_at c u) - 1\<rparr> else user_at c v)"
  using assms by (auto simp: releaseUser_def Let_def)

lemma active_live:
  assumes "coord_ok c" "active_at c ref \<noteq> None"
  shows "cu_live (user_at c (cr_UserID ref)) \<noteq> 0"
proof -
  obtain r where r: "fmlookup (cu_connections (user_at c (cr_UserID ref))) (cr_ControlConnectionID ref) = Some r"
    using assms(2) record_at_Some(1) by (auto simp: active_at_Some)
  then obtain x where x: "fmlookup (cc_users c) (cr_UserID ref) = Some x" by (cases "fmlookup (cc_users c) (cr_UserID ref)") (auto simp: user_at_def emptyUser_def)
  then have "cu_live x = int (gm_len (cu_connections x))" using assms(1) by (auto simp: coord_ok_def user_ok_def fmap_sum_one)
  moreover have "cr_ControlConnectionID ref |\<in>| fmdom (cu_connections x)" using r x by (auto simp: user_at_def intro: fmdomI)
  then have "gm_len (cu_connections x) \<noteq> 0" by (auto simp: gm_len_def)
  ultimately show ?thesis using x by (simp add: user_at_def)
qed

lemma install_release:
  assumes "coord_ok c" "active_at c (vs_owner s) \<noteq> None" and u: "u = cr_UserID (vs_owner s)"
    and c': "c' = releaseUser (install_voice (acquireUser c u) s sid) u"
  shows "cu_voice (user_at c' u) = Some (staged_authority s sid)" "cu_connections (user_at c' u) = cu_connections (user_at c u)"
    "cu_nextVoice (user_at c' u) = vs_generation s" "v \<noteq> u \<Longrightarrow> user_at c' v = user_at c v"
proof -
  have live: "cu_live (user_at (install_voice (acquireUser c u) s sid) u) \<noteq> 0"
    using active_live [OF assms(1,2)] by (simp add: install_voice_def acquireUser_def u Let_def)
  show "cu_voice (user_at c' u) = Some (staged_authority s sid)" "cu_connections (user_at c' u) = cu_connections (user_at c u)"
    "cu_nextVoice (user_at c' u) = vs_generation s" "v \<noteq> u \<Longrightarrow> user_at c' v = user_at c v"
    unfolding c' user_at_release [OF live] by (simp_all add: install_voice_def u Let_def acquireUser_def)
qed

text \<open>A stage applies only to the state it was made for.\<close>

definition stage_current :: "ConnectionCoordinator \<Rightarrow> VoiceAuthorityStage \<Rightarrow> bool" where
  "stage_current c s \<longleftrightarrow> validConnectionRef (vs_owner s) \<and> (vs_prepared s \<noteq> None \<or> vs_expected s \<noteq> None) \<and> active_at c (vs_owner s) \<noteq> None \<and>
     cu_voice (user_at c (cr_UserID (vs_owner s))) = vs_expected s \<and> cu_nextVoice (user_at c (cr_UserID (vs_owner s))) + 1 = vs_generation s"

lemma apply_stale:
  assumes "coord_ok c" "\<not> stage_current c s"
  shows "applyStage c s m allow now = ((Fail ErrVoiceAuthorityPrecondition, [], m, vs_prepared s), c)"
proof (cases "\<not> validConnectionRef (vs_owner s) \<or> (vs_prepared s = None \<and> vs_expected s = None)")
  case False
  then have "active_at c (vs_owner s) = None \<or> cu_voice (user_at c (cr_UserID (vs_owner s))) \<noteq> vs_expected s \<or>
      cu_nextVoice (user_at c (cr_UserID (vs_owner s))) + 1 \<noteq> vs_generation s" using assms(2) by (auto simp: stage_current_def)
  then show ?thesis using False unfolding applyStage_def Let_def by (simp add: with_user_same [OF assms(1)] if_distrib)
qed (auto simp: applyStage_def)

lemma apply_current:
  assumes ok: "coord_ok c" and cur: "stage_current c s" and run: "applyStage c s m allow now = ((r, es, m', p'), c')"
  shows "(\<exists>commit. r = Return commit \<and> vm_Previous commit = vs_expected s \<and> vm_Current commit = staged_authority s (va_VoiceSessionID (vm_Current commit)) \<and>
      c' = releaseUser (install_voice (acquireUser c (cr_UserID (vs_owner s))) s (va_VoiceSessionID (vm_Current commit))) (cr_UserID (vs_owner s))) \<or>
    ((\<forall>commit. r \<noteq> Return commit) \<and> c' = c)"
proof -
  let ?u = "cr_UserID (vs_owner s)"
  let ?c = "acquireUser c ?u"
  have guard: "validConnectionRef (vs_owner s)" "\<not> (vs_prepared s = None \<and> vs_expected s = None)" "active_at ?c (vs_owner s) \<noteq> None"
    "cu_voice (user_at ?c ?u) = vs_expected s" "cu_nextVoice (user_at ?c ?u) + 1 = vs_generation s"
    using cur by (auto simp: stage_current_def)
  have sid: "va_VoiceSessionID (staged_authority s i) = i" for i by (simp add: staged_authority_def)
  show ?thesis
  proof (cases "vs_prepared s")
    case (Some p)
    obtain res es0 m0 p0 where act: "activatePreparedStaged m (Some p) (map_option va_VoiceSessionID (vs_expected s)) allow now = (res, es0, m0, p0)"
      by (metis prod_cases4)
    show ?thesis using run guard act
      by (cases res) (auto simp: applyStage_def Let_def Some with_user_def release_acquire [OF ok] sid)
  next
    case None
    then obtain a where a: "vs_expected s = Some a" using guard(2) by auto
    obtain snap es0 m0 where got: "Get m (va_VoiceSessionID a) now = (snap, es0, m0)" by (metis prod_cases3)
    show ?thesis using run guard got
      by (cases snap) (auto simp: applyStage_def Let_def None a with_user_def release_acquire [OF ok] sid split: if_splits)
  qed
qed

lemma coord_reachable: "coord_step\<^sup>*\<^sup>* NewConnectionCoordinator c \<Longrightarrow> coord_ok c"
  by (induction rule: rtranclp_induct) (auto intro: coord_step_ok coord_start_ok)

lemma install_blocks:
  assumes "coord_ok c" "active_at c (vs_owner s) \<noteq> None" "u = cr_UserID (vs_owner s)" "c' = releaseUser (install_voice (acquireUser c u) s sid) u"
    "cr_UserID (vs_owner s2) = u" "vs_generation s2 = vs_generation s"
  shows "\<not> stage_current c' s2"
  using install_release(3) [OF assms(1-4)] assms(5,6) by (simp add: stage_current_def)


subsection \<open>Examples\<close>

definition example_ref :: ControlConnectionRef where
  "example_ref = \<lparr>cr_ControlConnectionID = 5, cr_UserID = 7, cr_Generation = 1, cr_LoginSessionID = 3\<rparr>"

definition example_transport :: Transport where
  "example_transport = \<lparr>tr_id = 0, tr_authRevocation = False, tr_voiceStats = False\<rparr>"

definition example_coord :: ConnectionCoordinator where
  "example_coord = snd (activate (snd (ReserveConnectFrom NewConnectionCoordinator (Some 5) 7 3 InvalidAddr)) example_ref example_transport 1000)"

lemma example_coord_run: "coord_step\<^sup>*\<^sup>* NewConnectionCoordinator example_coord"
proof -
  have "coord_step NewConnectionCoordinator (snd (ReserveConnectFrom NewConnectionCoordinator (Some 5) 7 3 InvalidAddr))"
    by (rule coord_step.intros(1)) (simp add: NewConnectionCoordinator_def user_at_def emptyUser_def)
  then show ?thesis unfolding example_coord_def by (meson coord_step.intros(2) r_into_rtranclp rtranclp.rtrancl_into_rtrancl)
qed

definition example_record :: connectionRecord where
  "example_record = \<lparr>cn_ref = example_ref, cn_state = ConnectionActive, cn_admitted = True, cn_sourceIP = InvalidAddr,
     cn_lease = \<lparr>al_Revision = 1, al_ExpiresAt = 1000\<rparr>, cn_transport = Some example_transport\<rparr>"

lemma fmupd_twice [simp]: "fmupd k v (fmupd k w m) = fmupd k v m"
  by (intro fmap_ext) auto

lemma example_coord_eq:
  "example_coord = NewConnectionCoordinator\<lparr>cc_users := fmupd 7 (emptyUser\<lparr>cu_connections := fmupd 5 example_record fmempty, cu_nextGen := 1,
     cu_admitted := 1, cu_live := 1\<rparr>) fmempty, cc_admitted := 1, cc_wg := 1\<rparr>"
  by (simp add: example_coord_def example_record_def ReserveConnectFrom_def activate_def with_user_def user_at_def put_user_def put_record_def
      record_at_def acquireUser_def releaseUser_def emptyUser_def NewConnectionCoordinator_def reserveAdmission_def Let_def example_ref_def
      validConnectionRef_def MaxControlConnectionsPerUser_def MaxActiveControlConnections_def)

theorem coordinator_invariant_witness:
  "coord_step\<^sup>*\<^sup>* NewConnectionCoordinator example_coord \<and> cc_admitted example_coord = 1 \<and> cc_admitted example_coord = total_by (\<lambda>_. 1) example_coord"
  using coordinator_invariant [OF example_coord_run] example_coord_run by (simp add: example_coord_eq)

definition example_stage :: VoiceAuthorityStage where
  "example_stage = \<lparr>vs_owner = example_ref, vs_expected = None, vs_channelID = 2, vs_prepared = Some demo_token, vs_generation = 1, vs_joinedAt = 0\<rparr>"

definition example_commit :: VoiceAuthorityCommit where
  "example_commit = \<lparr>vm_Previous = None, vm_Current = staged_authority example_stage 1, vm_Drain = None,
     vm_Cleanup = Some \<lparr>rw_session = None, rw_reason = RevocationReplaced, rw_handler = False, rw_notify = False\<rparr>\<rparr>"

definition example_in_voice :: ConnectionCoordinator where
  "example_in_voice = snd (applyStage example_coord example_stage (mgr_of demo_prepared) False 0)"

lemma example_apply:
  "applyStage example_coord example_stage (mgr_of demo_prepared) False 0 =
     ((Return example_commit, [], mgr_of demo_active, Some (demo_token\<lparr>p_used := True\<rparr>)), example_in_voice)"
proof -
  have "active_at example_coord example_ref = Some example_record" "cu_voice (user_at example_coord 7) = None" "cu_nextVoice (user_at example_coord 7) = 0"
    by (simp_all add: example_coord_eq active_at_def record_at_def user_at_def example_ref_def example_record_def emptyUser_def)
  moreover have "vs_owner example_stage = example_ref" "vs_prepared example_stage = Some demo_token" "vs_expected example_stage = None"
      "vs_generation example_stage = 1" "cr_UserID example_ref = 7" "validConnectionRef example_ref" "info_id (p_info demo_token) = 1"
    by (simp_all add: example_stage_def example_ref_def demo_token_def validConnectionRef_def)
  ultimately show ?thesis unfolding example_in_voice_def
    by (simp add: applyStage_def with_user_def example_commit_def demo_activation Let_def)
qed


text \<open>Ending a voice authority.\<close>

lemma delete_staged_gone:
  assumes "DeleteStaged m sid u now = (d, res, m')" "session_gone res"
  shows "lookupSession m' sid = None"
  using assms by (auto simp: DeleteStaged_def session_gone_def Let_def lookupSession_def deleteLocked_def upd_sess_def split: option.splits if_splits)

lemma lookup_frame: "same_tables m m' \<Longrightarrow> lookupSession m' sid = lookupSession m sid"
  by (simp add: same_tables_def lookupSession_def)

lemma voice_live:
  assumes "coord_ok c" "cu_voice (user_at c u) = Some a"
  shows "cu_live (user_at c u) \<noteq> 0"
proof -
  obtain x where x: "fmlookup (cc_users c) u = Some x" "user_at c u = x"
    using assms(2) by (cases "fmlookup (cc_users c) u") (auto simp: user_at_def emptyUser_def)
  then have ok: "user_ok u x" using assms(1) by (simp add: coord_ok_def)
  then obtain r where "fmlookup (cu_connections x) (va_ControlConnectionID a) = Some r"
    using assms(2) x(2) unfolding user_ok_def voice_ok_def by blast
  then have "va_ControlConnectionID a |\<in>| fmdom (cu_connections x)" by (rule fmdomI)
  then have "gm_len (cu_connections x) \<noteq> 0" by (auto simp: gm_len_def)
  moreover have "cu_live x = int (gm_len (cu_connections x))" using ok by (simp add: user_ok_def fmap_sum_one)
  ultimately show ?thesis using x(2) by simp
qed

definition clear_voice :: "ConnectionCoordinator \<Rightarrow> VoiceAuthority \<Rightarrow> string \<Rightarrow> ConnectionCoordinator" where
  "clear_voice c a reason = (let x = user_at c (va_UserID a) in
     put_user c (va_UserID a) (x\<lparr>cu_voice := None, cu_voiceTombstone := Some (a, reason)\<rparr>))"

lemma clear_voice_release:
  assumes "coord_ok c" "cu_voice (user_at c u) = Some a" and u: "u = va_UserID a"
    and c': "c' = releaseUser (clear_voice (acquireUser c u) a reason) u"
  shows "cu_voice (user_at c' u) = None" "cu_voiceTombstone (user_at c' u) = Some (a, reason)"
    "cu_connections (user_at c' u) = cu_connections (user_at c u)" "v \<noteq> u \<Longrightarrow> user_at c' v = user_at c v"
proof -
  have live: "cu_live (user_at (clear_voice (acquireUser c u) a reason) u) \<noteq> 0"
    using voice_live [OF assms(1,2)] by (simp add: clear_voice_def acquireUser_def u Let_def)
  show "cu_voice (user_at c' u) = None" "cu_voiceTombstone (user_at c' u) = Some (a, reason)"
    "cu_connections (user_at c' u) = cu_connections (user_at c u)" "v \<noteq> u \<Longrightarrow> user_at c' v = user_at c v"
    unfolding c' user_at_release [OF live] by (simp_all add: clear_voice_def u Let_def acquireUser_def)
qed

lemma disconnect_other:
  assumes "coord_ok c" "VoiceAuthorityValid a" "cu_voice (user_at c (va_UserID a)) \<noteq> Some a"
  shows "BeginVoiceDisconnectReason c a manager reason now = ((Return None, manager), [], c)"
  using assms(2,3) by (simp add: BeginVoiceDisconnectReason_def with_user_def release_acquire [OF assms(1)])

lemma disconnect_held:
  assumes ok: "coord_ok c" and v: "VoiceAuthorityValid a" "cu_voice (user_at c (va_UserID a)) = Some a"
    and del: "DeleteStaged m (va_VoiceSessionID a) (va_UserID a) now = (d, res, m1)"
    and run: "BeginVoiceDisconnectReason c a (Some m) reason now = ((r, mo), es, c')"
  shows "if session_gone res
    then r = Return (Some a) \<and> mo = Some (case d of None \<Rightarrow> m1 | Some d' \<Rightarrow> run_drain m1 d') \<and>
      c' = releaseUser (clear_voice (acquireUser c (va_UserID a)) a reason) (va_UserID a) \<and> es = notifyVoiceAuthority c' (Some a) None reason
    else r = lift_proto res \<and> mo = Some m1 \<and> c' = c \<and> es = []"
proof (cases "session_gone res")
  case False
  then obtain e where "res = Fail e \<or> res = Panic" by (cases res) (auto simp: session_gone_def)
  then have "\<forall>b. (lift_proto res :: (coord_error, VoiceAuthority option) outcome) \<noteq> Return b" by (auto simp: lift_proto_def)
  then show ?thesis using run v del False
    by (cases "lift_proto res :: (coord_error, VoiceAuthority option) outcome") (auto simp: BeginVoiceDisconnectReason_def with_user_def release_acquire [OF ok])
next
  case True
  then show ?thesis using run v del by (auto simp: BeginVoiceDisconnectReason_def with_user_def clear_voice_def Let_def)
qed

lemma delete_staged_fails:
  assumes "DeleteStaged m sid u now = (d, res, m')" "\<not> session_gone res"
  shows "res = Fail ErrSessionNotOwned" "m' = m"
  using assms by (auto simp: DeleteStaged_def session_gone_def Let_def split: option.splits if_splits)

text \<open>Ending a voice authority: at any moment of any run, a request to end an authority that is not the user's current one
  does nothing.  For the current one the session and the authority go together: when the request succeeds the manager no longer has the
  session, the user has no authority but a tombstone that carries the reason, and the observer is told; the only failure is a session that
  belongs to someone else, and then the session manager and the coordinator are exactly as before.\<close>

theorem voice_disconnect_ends_session:
  assumes run: "coord_step\<^sup>*\<^sup>* NewConnectionCoordinator c" and valid: "VoiceAuthorityValid a"
    and disc: "BeginVoiceDisconnectReason c a (Some m) reason now = ((r, mo), es, c')"
  shows "if cu_voice (user_at c (va_UserID a)) \<noteq> Some a then r = Return None \<and> mo = Some m \<and> es = [] \<and> c' = c
    else r = Return (Some a) \<and> Option.bind mo (\<lambda>m'. lookupSession m' (va_VoiceSessionID a)) = None \<and> mo \<noteq> None \<and>
        cu_voice (user_at c' (va_UserID a)) = None \<and> cu_voiceTombstone (user_at c' (va_UserID a)) = Some (a, reason) \<and>
        cu_connections (user_at c' (va_UserID a)) = cu_connections (user_at c (va_UserID a)) \<and>
        es = notifyVoiceAuthority c' (Some a) None reason
      \<or> r = Fail (ErrProtocol ErrSessionNotOwned) \<and> mo = Some m \<and> es = [] \<and> c' = c"
proof (cases "cu_voice (user_at c (va_UserID a)) = Some a")
  case False
  then show ?thesis using disconnect_other [OF coord_reachable [OF run] valid] disc by simp
next
  case True
  obtain d res m1 where del: "DeleteStaged m (va_VoiceSessionID a) (va_UserID a) now = (d, res, m1)" by (metis prod_cases3)
  note h = disconnect_held [OF coord_reachable [OF run] valid True del disc]
  show ?thesis
  proof (cases "session_gone res")
    case False
    then show ?thesis using h True delete_staged_fails [OF del] by (simp add: lift_proto_def)
  next
    case gone: True
    then have c': "c' = releaseUser (clear_voice (acquireUser c (va_UserID a)) a reason) (va_UserID a)" using h by simp
    have "lookupSession (case d of None \<Rightarrow> m1 | Some d' \<Rightarrow> run_drain m1 d') (va_VoiceSessionID a) = None"
      using delete_staged_gone [OF del gone] lookup_frame [OF run_drain_frame] by (cases d) auto
    then show ?thesis using h gone True clear_voice_release(1-3) [OF coord_reachable [OF run] True refl c'] by auto
  qed
qed

lemma example_in_voice_run: "coord_step\<^sup>*\<^sup>* NewConnectionCoordinator example_in_voice"
  unfolding example_in_voice_def using example_coord_run by (meson coord_step.intros(7) rtranclp.rtrancl_into_rtrancl)

lemma example_in_voice_authority: "cu_voice (user_at example_in_voice 7) = Some (staged_authority example_stage 1)"
proof -
  have ref: "cr_UserID (vs_owner example_stage) = 7" by (simp add: example_stage_def example_ref_def)
  have act: "active_at example_coord (vs_owner example_stage) \<noteq> None"
    by (simp add: example_coord_eq active_at_def record_at_def user_at_def example_stage_def example_ref_def example_record_def emptyUser_def)
  have cur: "stage_current example_coord example_stage"
    using act by (simp add: stage_current_def) (simp add: example_stage_def example_ref_def example_coord_eq validConnectionRef_def user_at_def emptyUser_def)
  have id: "va_VoiceSessionID (vm_Current example_commit) = 1" by (simp add: example_commit_def staged_authority_def)
  from apply_current [OF coord_reachable [OF example_coord_run] cur example_apply]
  have "example_in_voice = releaseUser (install_voice (acquireUser example_coord 7) example_stage 1) 7" using ref id by auto
  from install_release(1) [OF coord_reachable [OF example_coord_run] act refl this [folded ref]] show ?thesis by (simp add: ref)
qed

theorem voice_disconnect_ends_session_witness:
  "coord_step\<^sup>*\<^sup>* NewConnectionCoordinator example_in_voice \<and> VoiceAuthorityValid (staged_authority example_stage 1) \<and>
   (\<exists>r mo es c'. BeginVoiceDisconnectReason example_in_voice (staged_authority example_stage 1) (Some (mgr_of demo_active)) ''left'' 0 = ((r, mo), es, c') \<and>
      (cu_voice (user_at c' 7) = None \<and> r = Return (Some (staged_authority example_stage 1)) \<or> r = Fail (ErrProtocol ErrSessionNotOwned)))"
proof -
  let ?a = "staged_authority example_stage 1"
  have v: "VoiceAuthorityValid ?a" "va_UserID ?a = 7"
    by (simp_all add: VoiceAuthorityValid_def staged_authority_def example_stage_def example_ref_def)
  obtain r mo es c' where run: "BeginVoiceDisconnectReason example_in_voice ?a (Some (mgr_of demo_active)) ''left'' 0 = ((r, mo), es, c')"
    by (metis prod.exhaust)
  show ?thesis using voice_disconnect_ends_session [OF example_in_voice_run v(1) run] example_in_voice_authority example_in_voice_run v run by auto
qed

end
