(* ===== verification/Lifecycle.thy ===== *)
theory Lifecycle
  imports Sequencer Coordinator Ingress
begin

text \<open>
  The connection state publisher (\<^verbatim>\<open>internal/realtime/lifecycle.go\<close>): presence and voice authority of
  the runtime projection follow the connection coordinator through the sequencer.  The callbacks of its commands
  read the published version when they run; here they are functions of that version.  The JSON of the event
  payloads and the application's voice projection are arguments.  Connections and disconnections of one user, the offline
  queue and its worker interleave step by step; of the coordinator they use the number of active
  connections of a user.
\<close>

section \<open>Definitions\<close>

datatype publisher_error = ErrInvalidConnectionPublisher | ErrInvalidPresence | ErrPresenceRateLimited | ErrConnectionUnauthorized
  | PublisherNotActive | PublisherInvalidConnection | PublisherSequencer seq_error | PublisherAdmission

record lifecycle_codec =
  lj_user :: "string \<Rightarrow> string option"
  lj_authority :: "SnapshotVoiceAuthority option \<Rightarrow> string \<Rightarrow> string \<Rightarrow> string option"
  lj_session :: "string \<Rightarrow> string \<Rightarrow> string \<Rightarrow> string option"

subsection \<open>Events\<close>

definition lifecycle_template :: "string \<Rightarrow> string \<Rightarrow> StateDeliveryPolicy \<Rightarrow> int64 \<Rightarrow> int64 \<Rightarrow> StateEventTemplate" where
  "lifecycle_template eventType data policy recipient subject =
     \<lparr>tp_EventType = eventType, tp_Scope = server_scope, tp_CausationID = 0, tp_Data = Some data, tp_DeliveryPolicy = policy, tp_VisibleBeforeUserIDs = [],
      tp_RecipientUserID = recipient, tp_SubjectUserID = subject, tp_CursorVisibilityEpoch = 0, tp_HasCursorVisibilityEpoch = False\<rparr>"

definition voiceRevocationReason :: "string \<Rightarrow> string" where
  "voiceRevocationReason reason =
     (if reason = ''udp_timeout'' then ''udp_timeout''
      else if reason = ''eof'' \<or> reason = ''closed'' \<or> reason = ''token expired'' then ''owner_ws_closed''
      else if reason = ''logged_out'' \<or> reason = ''refresh_reused'' \<or> reason = ''password_changed'' \<or> reason = ''password_reset'' then ''logged_out''
      else if reason = ''kicked'' then ''kicked''
      else if reason = ''banned'' then ''banned''
      else if reason = ''account_deleted'' then ''account_deleted''
      else if reason = ''channel_access_lost'' then ''channel_access_lost''
      else if reason = ''channel_deleted'' then ''channel_deleted''
      else ''owner_ws_closed'')"

definition session_changed :: "VoiceAuthority option \<Rightarrow> VoiceAuthority option \<Rightarrow> bool" where
  "session_changed previous current =
     (case (previous, current) of (Some p, Some c) \<Rightarrow> va_VoiceSessionID p \<noteq> va_VoiceSessionID c | _ \<Rightarrow> False)"

definition authorityReason :: "VoiceAuthority option \<Rightarrow> VoiceAuthority option \<Rightarrow> string \<Rightarrow> string" where
  "authorityReason previous current reason =
     (if reason \<noteq> []
      then (if reason = ''left'' \<or> reason = ''channel_moved'' \<or> reason = ''joined'' \<or> reason = ''session_replaced'' then reason else voiceRevocationReason reason)
      else if session_changed previous current then ''session_replaced'' else [])"

definition previousVoiceSessionID :: "VoiceAuthority option \<Rightarrow> string" where
  "previousVoiceSessionID previous = (case previous of None \<Rightarrow> [] | Some a \<Rightarrow> hex_id (va_VoiceSessionID a))"

definition currentUserID :: "VoiceAuthority option \<Rightarrow> VoiceAuthority option \<Rightarrow> int64" where
  "currentUserID previous current = (case current of Some a \<Rightarrow> va_UserID a | None \<Rightarrow> (case previous of Some a \<Rightarrow> va_UserID a | None \<Rightarrow> 0))"

definition session_event :: "lifecycle_codec \<Rightarrow> string \<Rightarrow> VoiceAuthority \<Rightarrow> string \<Rightarrow> int64 \<Rightarrow> (stream_error, StateEventTemplate) outcome" where
  "session_event lj eventType previous reason userID =
     (case lj_session lj (hex_id (va_VoiceSessionID previous)) (FormatInt (va_ChannelID previous)) reason of None \<Rightarrow> Fail ErrEncode
      | Some data \<Rightarrow> Return (lifecycle_template eventType data StateDeliveryUserTargeted userID 0))"

definition voiceAuthorityEventTemplates :: "lifecycle_codec \<Rightarrow> VoiceAuthority option \<Rightarrow> VoiceAuthority option \<Rightarrow> string
    \<Rightarrow> (stream_error, StateEventTemplate list) outcome" where
  "voiceAuthorityEventTemplates lj previous current reason =
     (if previous = None \<and> current = None then Return []
      else let userID = currentUserID previous current
           in case lj_authority lj (map_option snapshotVoiceAuthorityValue current) (previousVoiceSessionID previous) (authorityReason previous current reason) of
                None \<Rightarrow> Fail ErrEncode
              | Some authorityData \<Rightarrow>
                  outcome_bind
                    (case previous of None \<Rightarrow> Return []
                     | Some p \<Rightarrow>
                         if current = None
                         then (if reason = ''left'' then Return []
                               else outcome_bind (session_event lj (if voiceRevocationReason reason = ''udp_timeout'' then ''voice.disconnected'' else ''voice.revoked'')
                                      p (voiceRevocationReason reason) userID) (\<lambda>e. Return [e]))
                         else if session_changed previous current then outcome_bind (session_event lj ''voice.revoked'' p ''session_replaced'' userID) (\<lambda>e. Return [e])
                         else Return [])
                    (\<lambda>events. Return (events @ [lifecycle_template ''voice.authority.updated'' authorityData StateDeliveryUserTargeted userID 0])))"

definition presenceEventTemplates :: "lifecycle_codec \<Rightarrow> int64 \<Rightarrow> bool \<Rightarrow> (stream_error, StateEventTemplate list) outcome" where
  "presenceEventTemplates lj userID changed =
     (if \<not> changed then Return []
      else case lj_user lj (FormatInt userID) of None \<Rightarrow> Fail ErrEncode
        | Some data \<Rightarrow> Return [lifecycle_template ''presence.updated'' data StateDeliveryUnset 0 userID])"

subsection \<open>Presence\<close>

definition offline_presence :: Presence where "offline_presence = \<lparr>pr_Status = ''offline'', pr_Activity = None\<rparr>"
definition online_presence :: Presence where "online_presence = \<lparr>pr_Status = ''online'', pr_Activity = None\<rparr>"

definition samePresence :: "Presence \<Rightarrow> Presence \<Rightarrow> bool" where
  "samePresence left right =
     (if pr_Status left \<noteq> pr_Status right then False
      else case (pr_Activity left, pr_Activity right) of (Some a, Some b) \<Rightarrow> a = b | (None, None) \<Rightarrow> True | _ \<Rightarrow> False)"

definition validClientPresence :: "string \<Rightarrow> PresenceActivity option \<Rightarrow> bool" where
  "validClientPresence status activity =
     (if status \<noteq> ''online'' \<and> status \<noteq> ''dnd'' \<and> status \<noteq> ''afk'' \<and> status \<noteq> ''invisible'' then False
      else validPresence \<lparr>pr_Status = status, pr_Activity = activity\<rparr>)"

definition presenceSetRate :: rat where "presenceSetRate = 2"
definition presenceSetBurst :: rat where "presenceSetBurst = 4"

record presenceRateState =
  prs_tokens :: rat
  prs_last :: gotime

definition allowPresence :: "(int64, presenceRateState) fmap \<Rightarrow> int64 \<Rightarrow> gotime \<Rightarrow> bool \<times> (int64, presenceRateState) fmap" where
  "allowPresence rates userID now =
     (let st = (case fmlookup rates userID of None \<Rightarrow> \<lparr>prs_tokens = presenceSetBurst, prs_last = now\<rparr> | Some st \<Rightarrow> st);
          elapsed = dur_seconds (time_sub now (prs_last st));
          st1 = (if elapsed > 0 then \<lparr>prs_tokens = min presenceSetBurst (fl64 (prs_tokens st + fl64 (elapsed * presenceSetRate))), prs_last = now\<rparr> else st)
      in if prs_tokens st1 < 1 then (False, fmupd userID st1 rates)
         else (True, fmupd userID (st1\<lparr>prs_tokens := fl64 (prs_tokens st1 - 1)\<rparr>) rates))"

subsection \<open>Commands\<close>

text \<open>A runtime command that reserves one request and is ready, or returns the error of the reservation.  \<open>i\<close> is its identifier, \<open>p\<close>
  the publication it runs against.\<close>

definition runtime_command :: "codec \<Rightarrow> digest_function \<Rightarrow> int64 \<Rightarrow> int64 \<Rightarrow> StatePublication \<Rightarrow> nat \<Rightarrow> callback option \<Rightarrow> PublicationRequest \<Rightarrow> PostCommitCommand" where
  "runtime_command js sha256 now i p value after request =
     (let reserved = (case reserveLocked js sha256 now p (with_causation i request) of Return _ \<Rightarrow> True | _ \<Rightarrow> False)
      in \<lparr>pc_QueueBytes = 1, pc_CommandID = 0, pc_Acquire = None,
          pc_calls = CallReserve now request # (if reserved then [CallMarkRuntimeReady] else []),
          pc_end = (if reserved then ExecuteReturns \<lparr>co_Value = value, co_BeforePublish = None, co_AfterPublish = after\<rparr> else ExecuteFails 0)\<rparr>)"

definition refused_command :: PostCommitCommand where
  "refused_command = \<lparr>pc_QueueBytes = 1, pc_CommandID = 0, pc_Acquire = None, pc_calls = [], pc_end = ExecuteFails 0\<rparr>"

definition presence_request :: "StateCandidate \<Rightarrow> StateEventTemplate list \<Rightarrow> stream_error option \<Rightarrow> PublicationRequest" where
  "presence_request candidate events commit = \<lparr>rq_Candidate = Some candidate, rq_Events = events, rq_VisibilityUserIDs = [], rq_CommitRuntime = commit\<rparr>"

text \<open>The candidate of the offline command and whether it changes the presence: \<open>active\<close> is \<^verbatim>\<open>UserActiveCount\<close>.\<close>

definition offline_candidate :: "StateVersion \<Rightarrow> nat \<Rightarrow> int64 \<Rightarrow> (state_error, bool \<times> StateCandidate) outcome" where
  "offline_candidate v active userID =
     (let candidate = BuildRuntimeCandidate v
      in if UserOf (sd_version candidate) userID = None \<or> active \<noteq> 0 then Return (False, candidate)
         else outcome_bind (SetPresence candidate userID offline_presence) (\<lambda>c.
           Return (\<not> samePresence (PresenceOf (sd_version candidate) userID) offline_presence, c)))"

definition offlineCommand :: "codec \<Rightarrow> lifecycle_codec \<Rightarrow> digest_function \<Rightarrow> int64 \<Rightarrow> int64 \<Rightarrow> StatePublication \<Rightarrow> nat \<Rightarrow> int64 \<Rightarrow> PostCommitCommand" where
  "offlineCommand js lj sha256 now i p active userID =
     (case offline_candidate (pb_state p) active userID of
        Return (changed, candidate) \<Rightarrow>
          (case presenceEventTemplates lj userID changed of
             Return events \<Rightarrow> runtime_command js sha256 now i p 0 None (presence_request candidate events None)
           | _ \<Rightarrow> refused_command)
      | _ \<Rightarrow> refused_command)"

text \<open>Activation: the first active connection of a user makes the user online; the coordinator activates the reservation inside
  the publication.\<close>

definition activate_candidate :: "StateVersion \<Rightarrow> nat \<Rightarrow> int64 \<Rightarrow> (state_error, bool \<times> StateCandidate) outcome" where
  "activate_candidate v active userID =
     (let candidate = BuildRuntimeCandidate v
      in if active \<noteq> 0 then Return (False, candidate)
         else let previous = PresenceOf (sd_version candidate) userID
              in outcome_bind (SetPresence candidate userID online_presence) (\<lambda>c. Return (pr_Status previous \<noteq> ''online'' \<or> pr_Activity previous \<noteq> None, c)))"

definition commit_error :: "('e, 'a) outcome \<Rightarrow> stream_error option" where
  "commit_error r = (case r of Return _ \<Rightarrow> None | _ \<Rightarrow> Some ErrRuntimeCommit)"

definition ActivateConnection :: "codec \<Rightarrow> lifecycle_codec \<Rightarrow> digest_function \<Rightarrow> int64 \<Rightarrow> int64 \<Rightarrow> StatePublication \<Rightarrow> ConnectionCoordinator
    \<Rightarrow> ControlConnectionRef \<Rightarrow> Transport \<Rightarrow> int64 \<Rightarrow> PostCommitCommand" where
  "ActivateConnection js lj sha256 now i p coord ref transport accessExpiresAt =
     (case activate_candidate (pb_state p) (fst (UserActiveCount coord (cr_UserID ref))) (cr_UserID ref) of
        Return (changed, candidate) \<Rightarrow>
          (case presenceEventTemplates lj (cr_UserID ref) changed of
             Return events \<Rightarrow> runtime_command js sha256 now i p 0 None
               (presence_request candidate events (commit_error (fst (activate coord ref transport accessExpiresAt))))
           | _ \<Rightarrow> refused_command)
      | _ \<Rightarrow> refused_command)"

text \<open>\<^verbatim>\<open>presence.set\<close>: the checks before admission, and the command; \<open>match\<close> and \<open>match'\<close> are the lease checks when the command runs
  and inside the publication.\<close>

definition set_presence_admit :: "bool \<Rightarrow> string \<Rightarrow> PresenceActivity option \<Rightarrow> ConnectionState option \<Rightarrow> (int64, presenceRateState) fmap \<Rightarrow> int64 \<Rightarrow> gotime
    \<Rightarrow> (publisher_error, unit) outcome \<times> (int64, presenceRateState) fmap" where
  "set_presence_admit validRef status activity state rates userID now =
     (if \<not> validRef then (Fail ErrInvalidConnectionPublisher, rates)
      else if \<not> validClientPresence status activity then (Fail ErrInvalidPresence, rates)
      else if state \<noteq> Some ConnectionActive then (Fail PublisherNotActive, rates)
      else case allowPresence rates userID now of (True, rates') \<Rightarrow> (Return (), rates') | (False, rates') \<Rightarrow> (Fail ErrPresenceRateLimited, rates'))"

definition SetPresenceCommand :: "codec \<Rightarrow> lifecycle_codec \<Rightarrow> digest_function \<Rightarrow> int64 \<Rightarrow> int64 \<Rightarrow> StatePublication \<Rightarrow> bool \<Rightarrow> bool \<Rightarrow> int64 \<Rightarrow> Presence \<Rightarrow> PostCommitCommand" where
  "SetPresenceCommand js lj sha256 now i p match match' userID presence =
     (if \<not> match then refused_command
      else let candidate = BuildRuntimeCandidate (pb_state p); changed = (\<not> samePresence (PresenceOf (sd_version candidate) userID) presence)
           in case SetPresence candidate userID presence of
                Return c \<Rightarrow>
                  (case presenceEventTemplates lj userID changed of
                     Return events \<Rightarrow> runtime_command js sha256 now i p (of_bool changed) None
                       (presence_request c events (if match' then None else Some ErrInvalidConnection))
                   | _ \<Rightarrow> refused_command)
              | _ \<Rightarrow> refused_command)"

text \<open>The projection of a voice authority transition; the application's own projection is an argument.\<close>

type_synonym voice_projection = "StateCandidate \<Rightarrow> VoiceAuthority option \<Rightarrow> VoiceAuthority option \<Rightarrow> string \<Rightarrow> (stream_error, StateCandidate \<times> StateEventTemplate list) outcome"

definition voiceCommand :: "codec \<Rightarrow> lifecycle_codec \<Rightarrow> digest_function \<Rightarrow> int64 \<Rightarrow> int64 \<Rightarrow> StatePublication \<Rightarrow> voice_projection option
    \<Rightarrow> VoiceAuthority option \<Rightarrow> VoiceAuthority option \<Rightarrow> string \<Rightarrow> PostCommitCommand" where
  "voiceCommand js lj sha256 now i p projection previous current reason =
     (case TransitionVoiceAuthority (BuildRuntimeCandidate (pb_state p)) previous current of
        Return (False, candidate) \<Rightarrow> runtime_command js sha256 now i p 0 (Some CallbackReturns) (presence_request candidate [] None)
      | Return (True, candidate) \<Rightarrow>
          (case (case projection of None \<Rightarrow> Return (candidate, []) | Some f \<Rightarrow> f candidate previous current reason) of
             Return (candidate', applicationEvents) \<Rightarrow>
               (case voiceAuthorityEventTemplates lj previous current reason of
                  Return events \<Rightarrow> runtime_command js sha256 now i p 1 (Some CallbackReturns) (presence_request candidate' (events @ applicationEvents) None)
                | _ \<Rightarrow> refused_command)
           | _ \<Rightarrow> refused_command)
      | _ \<Rightarrow> refused_command)"

subsection \<open>Following the connections\<close>

text \<open>
  \<^verbatim>\<open>connectionClosed\<close> in its three critical sections (the count, the pending set, the queue), and the worker
  \<^verbatim>\<open>runOfflineBatches\<close> from the first queued user to the clearing of the pending set.  The mutation gate is
  held by an activation or by a batch.  An activation and a command are one step each, as the sequencer runs
  them.  Events and checkpoints are left out of the version here.
\<close>

datatype closing = ClCount int64 | ClPending int64 | ClSend int64

datatype offline_worker = OwWait | OwCollect "int64 list" | OwGate "int64 list" | OwRun "int64 list" "int64 list" | OwClear "int64 list"

record lifecycle =
  lf_version :: StateVersion
  lf_active :: "int64 \<Rightarrow> nat"
  lf_gate :: bool
  lf_pending :: "int64 list"
  lf_queue :: "int64 list"
  lf_closing :: "closing list"
  lf_worker :: offline_worker
  lf_failed :: bool

definition lifecycle_start :: "StateVersion \<Rightarrow> lifecycle" where
  "lifecycle_start v = \<lparr>lf_version = v, lf_active = (\<lambda>_. 0), lf_gate = False, lf_pending = [], lf_queue = [], lf_closing = [], lf_worker = OwWait, lf_failed = False\<rparr>"

definition connect :: "int64 \<Rightarrow> lifecycle \<Rightarrow> lifecycle option" where
  "connect u y =
     (if lf_gate y then None
      else case activate_candidate (lf_version y) (lf_active y u) u of
             Return (_, candidate) \<Rightarrow> Some (y\<lparr>lf_version := sd_version candidate, lf_active := (lf_active y)(u := Suc (lf_active y u))\<rparr>)
           | _ \<Rightarrow> None)"

definition disconnect :: "int64 \<Rightarrow> lifecycle \<Rightarrow> lifecycle option" where
  "disconnect u y =
     (if lf_active y u = 0 then None else Some (y\<lparr>lf_active := (lf_active y)(u := lf_active y u - 1), lf_closing := lf_closing y @ [ClCount u]\<rparr>))"

definition set_presence :: "int64 \<Rightarrow> Presence \<Rightarrow> lifecycle \<Rightarrow> lifecycle option" where
  "set_presence u presence y =
     (if lf_gate y \<or> lf_active y u = 0 then None
      else case SetPresence (BuildRuntimeCandidate (lf_version y)) u presence of Return c \<Rightarrow> Some (y\<lparr>lf_version := sd_version c\<rparr>) | _ \<Rightarrow> None)"

definition connectionClosed :: "nat \<Rightarrow> lifecycle \<Rightarrow> lifecycle option" where
  "connectionClosed k y =
     (if length (lf_closing y) \<le> k then None
      else let others = take k (lf_closing y) @ drop (Suc k) (lf_closing y)
           in case lf_closing y ! k of
                ClCount u \<Rightarrow> Some (y\<lparr>lf_closing := (if lf_active y u \<noteq> 0 then others else others @ [ClPending u])\<rparr>)
              | ClPending u \<Rightarrow>
                  Some (if u \<in> set (lf_pending y) then y\<lparr>lf_closing := others\<rparr> else y\<lparr>lf_pending := u # lf_pending y, lf_closing := others @ [ClSend u]\<rparr>)
              | ClSend u \<Rightarrow>
                  Some (if length (lf_queue y) < MaxControlTeardownQueueItems then y\<lparr>lf_queue := lf_queue y @ [u], lf_closing := others\<rparr>
                        else y\<lparr>lf_pending := filter (\<lambda>i. i \<noteq> u) (lf_pending y), lf_failed := True, lf_closing := others\<rparr>))"

definition run_offline :: "int64 \<Rightarrow> lifecycle \<Rightarrow> lifecycle" where
  "run_offline u y =
     (case offline_candidate (lf_version y) (lf_active y u) u of Return (_, candidate) \<Rightarrow> y\<lparr>lf_version := sd_version candidate\<rparr> | _ \<Rightarrow> y\<lparr>lf_failed := True\<rparr>)"

text \<open>\<open>another\<close> says that another user arrived before the batch timer.\<close>

definition runOfflineBatches :: "bool \<Rightarrow> lifecycle \<Rightarrow> lifecycle option" where
  "runOfflineBatches another y =
     (case lf_worker y of
        OwWait \<Rightarrow> (case lf_queue y of [] \<Rightarrow> None | u # us \<Rightarrow> Some (y\<lparr>lf_queue := us, lf_worker := OwCollect [u]\<rparr>))
      | OwCollect batch \<Rightarrow>
          (if another \<and> length batch < MaxControlPlansPerItem
           then (case lf_queue y of [] \<Rightarrow> None | u # us \<Rightarrow> Some (y\<lparr>lf_queue := us, lf_worker := OwCollect (batch @ [u])\<rparr>))
           else Some (y\<lparr>lf_worker := OwGate batch\<rparr>))
      | OwGate batch \<Rightarrow> (if lf_gate y then None else Some (y\<lparr>lf_gate := True, lf_worker := OwRun batch batch\<rparr>))
      | OwRun batch (u # us) \<Rightarrow> Some ((run_offline u y)\<lparr>lf_worker := OwRun batch us\<rparr>)
      | OwRun batch [] \<Rightarrow> Some (y\<lparr>lf_gate := False, lf_worker := OwClear batch\<rparr>)
      | OwClear batch \<Rightarrow> Some (y\<lparr>lf_pending := filter (\<lambda>u. u \<notin> set batch) (lf_pending y), lf_worker := OwWait\<rparr>))"

section \<open>Theorems\<close>

lemma samePresence_eq: "samePresence a b \<longleftrightarrow> a = b"
  by (cases a; cases b) (auto simp: samePresence_def split: option.splits)

subsection \<open>The presence budget is a token bucket\<close>

definition presence_bucket :: "(int64, presenceRateState) fmap \<Rightarrow> int64 \<Rightarrow> gotime \<Rightarrow> TokenBucket" where
  "presence_bucket rates u now =
     (let st = (case fmlookup rates u of None \<Rightarrow> \<lparr>prs_tokens = presenceSetBurst, prs_last = now\<rparr> | Some st \<Rightarrow> st)
      in \<lparr>rate = presenceSetRate, burst = presenceSetBurst, tokens = prs_tokens st, last_refill = prs_last st\<rparr>)"

lemma allowPresence_bucket:
  assumes "allowPresence rates u now = (ok, rates')"
  shows "TakeAt (presence_bucket rates u now) now = (ok, presence_bucket rates' u now)"
    "\<And>w. w \<noteq> u \<Longrightarrow> fmlookup rates' w = fmlookup rates w"
proof -
  let ?st = "case fmlookup rates u of None \<Rightarrow> \<lparr>prs_tokens = presenceSetBurst, prs_last = now\<rparr> | Some st \<Rightarrow> st"
  have pos: "0 < dur_seconds (time_sub now (prs_last ?st)) \<longleftrightarrow> \<not> (now < prs_last ?st \<or> now = prs_last ?st)"
    by (auto simp: dur_seconds_pos_iff)
  show "TakeAt (presence_bucket rates u now) now = (ok, presence_bucket rates' u now)"
    using assms pos by (auto simp: allowPresence_def TakeAt_def refillLocked_def presence_bucket_def Let_def min_def split: if_splits)
  show "\<And>w. w \<noteq> u \<Longrightarrow> fmlookup rates' w = fmlookup rates w" using assms by (auto simp: allowPresence_def Let_def split: if_splits)
qed

subsection \<open>Voice events\<close>

text \<open>The authority update comes last and every event goes to the user concerned only.\<close>

lemma voice_events_targeted:
  assumes "voiceAuthorityEventTemplates lj previous current reason = Return events" "previous \<noteq> None \<or> current \<noteq> None"
  shows "events \<noteq> [] \<and> tp_EventType (last events) = ''voice.authority.updated'' \<and>
    (\<forall>e \<in> set events. tp_DeliveryPolicy e = StateDeliveryUserTargeted \<and> tp_RecipientUserID e = currentUserID previous current)"
proof -
  obtain data pre where pre: "events = pre @ [lifecycle_template ''voice.authority.updated'' data StateDeliveryUserTargeted (currentUserID previous current) 0]"
    "\<forall>e \<in> set pre. tp_DeliveryPolicy e = StateDeliveryUserTargeted \<and> tp_RecipientUserID e = currentUserID previous current"
    using assms by (fastforce simp: voiceAuthorityEventTemplates_def session_event_def lifecycle_template_def Let_def outcome_bind_Return split: option.splits if_splits)
  then show ?thesis by (simp add: lifecycle_template_def)
qed

subsection \<open>Runtime commands\<close>

lemma runtime_command_runs:
  assumes free: "\<not> sq_lock s" "sq_failure s = None" and env: "\<not> ce_startCanceled env" "\<not> ce_readyCanceled env" "\<not> ce_publishCanceled env" "ce_nextID env = Some i"
    and q: "qc_command q = runtime_command js sha256 now i (sq_publication s) value after request" "after \<in> {None, Some CallbackReturns}"
  shows "executeAndReply js hmac sha256 env s q =
    (case CommitPublication js hmac sha256 now (sq_publication s) (with_causation i request) of
       ((None, p), Some res) \<Rightarrow> Some (Return \<lparr>cc_CommandID = i, cc_Publication = Some res, cc_Value = value\<rparr>, s\<lparr>sq_publication := p, sq_lock := False, sq_progress := True\<rparr>)
     | ((Some x, p), Some res) \<Rightarrow>
         if x = ErrCanceled then Some (Fail (PublicationError x), s\<lparr>sq_publication := p, sq_lock := False, sq_progress := True\<rparr>)
         else Some (Fail (ErrSequencerFailed (PublicationError x)),
                (fail_sequencer (ErrSequencerFailed (PublicationError x)) (s\<lparr>sq_publication := p, sq_lock := False\<rparr>))\<lparr>sq_progress := True\<rparr>)
     | (_, None) \<Rightarrow> executeAndReply js hmac sha256 env s q)"
proof (cases "reserveLocked js sha256 now (sq_publication s) (with_causation i request)")
  case (Return res)
  let ?e = "\<lparr>ex_commandID = i, ex_reservation = Some \<lparr>rv_result = res, rv_runtimeCommit = rq_CommitRuntime request, rv_completed = False\<rparr>, ex_committing = False,
        ex_persistent = False, ex_runtimeReady = True, ex_noop = False, ex_published = False\<rparr>"
  have calls: "exec_calls js sha256 s (new_execution\<lparr>ex_commandID := i\<rparr>) (pc_calls (qc_command q)) = Some (False, s\<lparr>sq_lock := True\<rparr>, ?e)"
    using Return free q by (simp add: runtime_command_def exec_call_def ReserveExecution_def new_execution_def MarkRuntimeReady_def)
  have cmd: "command_id env (qc_command q) = Some i" "pc_Acquire (qc_command q) = None"
    "pc_end (qc_command q) = ExecuteReturns \<lparr>co_Value = value, co_BeforePublish = None, co_AfterPublish = after\<rparr>"
    using Return q env by (simp_all add: runtime_command_def command_id_def)
  obtain err p where pub: "publish js hmac False (rq_CommitRuntime request) (sq_publication s) res = (err, p)" by fastforce
  have commit: "CommitPublication js hmac sha256 now (sq_publication s) (with_causation i request) = ((err, p), Some res)"
    using Return pub by (simp add: CommitPublication_def with_causation_def)
  show ?thesis
    using commit pub free env q(2) calls cmd
    by (cases err) (auto simp: executeAndReply_def execute_def identified_phase_def execute_phase_def complete_phase_def publish_phase_def publish_reservation_def
        recovered_def signalProgress_def fatal_def Let_def)
qed (simp_all add: CommitPublication_def)

lemma SetPresence_built: "built base c \<Longrightarrow> SetPresence c u p = Return c' \<Longrightarrow> built base c'"
  by (rule built.change) (auto intro: candidate_step.intros)

lemma offline_built:
  assumes "offline_candidate v active u = Return (changed, c)"
  shows "built v c \<and> sv_persistent (sd_version c) = sv_persistent v \<and>
    (\<forall>w. PresenceOf (sd_version c) w = (if w = u \<and> active = 0 \<and> UserOf v u \<noteq> None then offline_presence else PresenceOf v w)) \<and>
    (changed \<longleftrightarrow> active = 0 \<and> UserOf v u \<noteq> None \<and> PresenceOf v u \<noteq> offline_presence)"
proof (cases "UserOf v u = None \<or> active \<noteq> 0")
  case True
  then have "c = BuildRuntimeCandidate v" "\<not> changed" using assms by (auto simp: offline_candidate_def BuildRuntimeCandidate_def UserOf_def split: if_splits)
  then show ?thesis using True built.runtime [of v] by (auto simp: BuildRuntimeCandidate_def PresenceOf_def)
next
  case False
  then have r: "SetPresence (BuildRuntimeCandidate v) u offline_presence = Return c" "changed = (PresenceOf v u \<noteq> offline_presence)"
    using assms by (auto simp: offline_candidate_def BuildRuntimeCandidate_def UserOf_def outcome_bind_Return samePresence_eq PresenceOf_def)
  have "built v c" by (rule SetPresence_built [OF built.runtime r(1)])
  moreover have "c = upd_runtime (BuildRuntimeCandidate v) (\<lambda>x. x\<lparr>rt_presences := fmupd u offline_presence (rt_presences x)\<rparr>)"
    using r(1) by (auto simp: SetPresence_def split: if_splits)
  ultimately show ?thesis using False r(2) by (auto simp: BuildRuntimeCandidate_def upd_runtime_def PresenceOf_def)
qed

lemma activate_built:
  assumes "activate_candidate v active u = Return (changed, c)"
  shows "built v c \<and> sv_persistent (sd_version c) = sv_persistent v \<and>
    (\<forall>w. PresenceOf (sd_version c) w = (if w = u \<and> active = 0 then online_presence else PresenceOf v w)) \<and>
    (changed \<longleftrightarrow> active = 0 \<and> PresenceOf v u \<noteq> online_presence)"
proof (cases "active \<noteq> 0")
  case True
  then have "c = BuildRuntimeCandidate v" "\<not> changed" using assms by (auto simp: activate_candidate_def split: if_splits)
  then show ?thesis using True built.runtime [of v] by (auto simp: BuildRuntimeCandidate_def PresenceOf_def)
next
  case False
  have eq: "(pr_Status p \<noteq> ''online'' \<or> pr_Activity p \<noteq> None) \<longleftrightarrow> p \<noteq> online_presence" for p by (cases p) (simp add: online_presence_def)
  have r: "SetPresence (BuildRuntimeCandidate v) u online_presence = Return c" "changed = (PresenceOf v u \<noteq> online_presence)"
    using assms False eq [of "PresenceOf v u"]
    by (auto simp: activate_candidate_def BuildRuntimeCandidate_def outcome_bind_Return PresenceOf_def Let_def)
  have "built v c" by (rule SetPresence_built [OF built.runtime r(1)])
  moreover have "c = upd_runtime (BuildRuntimeCandidate v) (\<lambda>x. x\<lparr>rt_presences := fmupd u online_presence (rt_presences x)\<rparr>)"
    using r(1) by (auto simp: SetPresence_def split: if_splits)
  ultimately show ?thesis using False r(2) by (auto simp: BuildRuntimeCandidate_def upd_runtime_def PresenceOf_def)
qed

lemma reserve_presence:
  assumes "reserveLocked js sha256 now p request = Return res" "rq_Candidate request = Some candidate"
  shows "PresenceOf (rs_Version res) w = PresenceOf (sd_version candidate) w"
proof -
  from assms(1) obtain c changes epochs templates events where "rq_Candidate request = Some c"
    and w: "rs_Version res = (if rs_Events res \<noteq> []
       then (apply_epochs epochs (sd_version c))\<lparr>sv_checkpoint := (sv_checkpoint (sd_version c))\<lparr>cp_GEID := se_GEID (last (rs_Events res))\<rparr>\<rparr>
       else apply_epochs epochs (sd_version c))"
    by (rule reserveLocked_Return)
  then show ?thesis using assms(2) by (simp add: PresenceOf_def apply_epochs_def)
qed

text \<open>The reservation an activation makes, if its request can be prepared and reserved.\<close>

definition activation_plan :: "codec \<Rightarrow> lifecycle_codec \<Rightarrow> digest_function \<Rightarrow> int64 \<Rightarrow> int64 \<Rightarrow> StatePublication \<Rightarrow> ConnectionCoordinator
    \<Rightarrow> ControlConnectionRef \<Rightarrow> Transport \<Rightarrow> int64 \<Rightarrow> (StateCandidate \<times> PublicationRequest \<times> PublicationResult) option" where
  "activation_plan js lj sha256 now i p coord ref transport accessExpiresAt =
     (case activate_candidate (pb_state p) (fst (UserActiveCount coord (cr_UserID ref))) (cr_UserID ref) of
        Return (changed, candidate) \<Rightarrow>
          (case presenceEventTemplates lj (cr_UserID ref) changed of
             Return events \<Rightarrow>
               (let request = presence_request candidate events (commit_error (fst (activate coord ref transport accessExpiresAt)))
                in case reserveLocked js sha256 now p (with_causation i request) of Return res \<Rightarrow> Some (candidate, request, res) | _ \<Rightarrow> None)
           | _ \<Rightarrow> None)
      | _ \<Rightarrow> None)"

text \<open>A command that makes no reservation fails and publishes nothing.\<close>

lemma unreserved_command:
  assumes free: "\<not> sq_lock s" "sq_failure s = None" and env: "\<not> ce_startCanceled env" "ce_nextID env = Some i"
    and q: "qc_command q = refused_command \<or>
      (\<exists>request. qc_command q = runtime_command js sha256 now i (sq_publication s) value after request \<and>
         (\<forall>res. reserveLocked js sha256 now (sq_publication s) (with_causation i request) \<noteq> Return res))"
  shows "\<exists>err s'. executeAndReply js hmac sha256 env s q = Some (Fail err, s') \<and> sq_publication s' = sq_publication s"
  using q
proof (elim disjE exE conjE)
  assume "qc_command q = refused_command"
  then show ?thesis using free env
    by (simp add: executeAndReply_def execute_def identified_phase_def command_id_def refused_command_def execute_phase_def aborted_def abort_execution_def
        new_execution_def recovered_def signalProgress_def)
next
  fix request assume c: "qc_command q = runtime_command js sha256 now i (sq_publication s) value after request"
    and "\<forall>res. reserveLocked js sha256 now (sq_publication s) (with_causation i request) \<noteq> Return res"
  then show ?thesis using free env
    by (cases "reserveLocked js sha256 now (sq_publication s) (with_causation i request)")
      (simp_all add: executeAndReply_def execute_def identified_phase_def command_id_def runtime_command_def execute_phase_def exec_call_def ReserveExecution_def
        aborted_def abort_execution_def new_execution_def recovered_def signalProgress_def)
qed

text \<open>A command that makes its reservation.\<close>

lemma reserved_command:
  assumes free: "\<not> sq_lock s" "sq_failure s = None" and env: "\<not> ce_startCanceled env" "\<not> ce_readyCanceled env" "\<not> ce_publishCanceled env" "ce_nextID env = Some i"
    and q: "qc_command q = runtime_command js sha256 now i (sq_publication s) value None request"
    and pub: "pub_ok (sq_publication s) hist"
    and res: "reserveLocked js sha256 now (sq_publication s) (with_causation i request) = Return res"
    and c: "built base candidate" "rq_Candidate request = Some candidate"
  shows "\<exists>r s'. executeAndReply js hmac sha256 env s q = Some (r, s') \<and>
    (case rq_CommitRuntime request of
       None \<Rightarrow> pb_state (sq_publication s') = rs_Version res \<and> pub_ok (sq_publication s') (hist @ rs_Events res) \<and>
         (r = Return \<lparr>cc_CommandID = i, cc_Publication = Some res, cc_Value = value\<rparr> \<and> same_health s s' \<or>
          pb_eventBus (sq_publication s) \<noteq> None \<and> (\<exists>f. r = Fail f \<and> failed_with f s s'))
     | Some x \<Rightarrow> sq_publication s' = sq_publication s \<and>
         (x \<noteq> ErrCanceled \<longrightarrow> r = Fail (ErrSequencerFailed (PublicationError x)) \<and> failed_with (ErrSequencerFailed (PublicationError x)) s s'))"
proof -
  let ?req = "with_causation i request"
  have rq: "rq_Candidate ?req = Some candidate" "rq_CommitRuntime ?req = rq_CommitRuntime request" using c(2) by (simp_all add: with_causation_def)
  obtain err p' where p': "publish js hmac False (rq_CommitRuntime ?req) (sq_publication s) res = (err, p')" by fastforce
  then have run: "CommitPublication js hmac sha256 now (sq_publication s) ?req = ((err, p'), Some res)" using res by (simp add: CommitPublication_def)
  note out = commit_outcomes [OF pub c(1) rq(1) run]
  have exec: "executeAndReply js hmac sha256 env s q = (case err of
      None \<Rightarrow> Some (Return \<lparr>cc_CommandID = i, cc_Publication = Some res, cc_Value = value\<rparr>, s\<lparr>sq_publication := p', sq_lock := False, sq_progress := True\<rparr>)
    | Some x \<Rightarrow> if x = ErrCanceled then Some (Fail (PublicationError x), s\<lparr>sq_publication := p', sq_lock := False, sq_progress := True\<rparr>)
        else Some (Fail (ErrSequencerFailed (PublicationError x)),
               (fail_sequencer (ErrSequencerFailed (PublicationError x)) (s\<lparr>sq_publication := p', sq_lock := False\<rparr>))\<lparr>sq_progress := True\<rparr>))"
    using runtime_command_runs [OF free env q, of hmac] by (simp add: run split: option.splits)
  show ?thesis
  proof (cases "rq_CommitRuntime request")
    case None
    then have o: "pb_state p' = rs_Version res" "pub_ok p' (hist @ rs_Events res)" "pb_eventBus (sq_publication s) = None \<longrightarrow> err = None"
      using out rq(2) by (auto simp: committed_def)
    have "pb_state p' \<noteq> pb_state (sq_publication s)" using out o(1) by (auto simp: reserved_def)
    then have "err \<noteq> Some ErrCanceled" using publish_canceled p' by blast
    then show ?thesis using exec o None free(2)
      by (cases err) (auto simp: same_health_def failed_with_def fail_sequencer_def)
  next
    case (Some x)
    then have "err = Some x" "p' = sq_publication s" using out rq(2) by auto
    then show ?thesis using exec Some free(2) by (auto simp: failed_with_def fail_sequencer_def)
  qed
qed


subsection \<open>Does the presence follow the connections?\<close>

fun closing_user :: "closing \<Rightarrow> int64" where
  "closing_user (ClCount u) = u" | "closing_user (ClPending u) = u" | "closing_user (ClSend u) = u"

fun worker_waiting :: "offline_worker \<Rightarrow> int64 list" where
  "worker_waiting (OwCollect batch) = batch" | "worker_waiting (OwGate batch) = batch" | "worker_waiting (OwRun batch rest) = rest" | "worker_waiting _ = []"

text \<open>The users whose offline command is still to run.\<close>

definition waiting :: "lifecycle \<Rightarrow> int64 list" where
  "waiting y = lf_queue y @ worker_waiting (lf_worker y)"

text \<open>A closed connection is absorbed when its user is marked pending although the offline command of the user has already run.\<close>

definition absorbs :: "nat \<Rightarrow> lifecycle \<Rightarrow> bool" where
  "absorbs k y \<longleftrightarrow> k < length (lf_closing y) \<and> (\<exists>u. lf_closing y ! k = ClPending u \<and> u \<in> set (lf_pending y) \<and> u \<notin> set (waiting y))"

inductive lifecycle_step :: "bool \<Rightarrow> lifecycle \<Rightarrow> lifecycle \<Rightarrow> bool" for absorbing where
  connect: "connect u y = Some y' \<Longrightarrow> lifecycle_step absorbing y y'"
| disconnect: "disconnect u y = Some y' \<Longrightarrow> lifecycle_step absorbing y y'"
| set_presence: "set_presence u p y = Some y' \<Longrightarrow> lifecycle_step absorbing y y'"
| closed: "\<lbrakk>absorbing \<or> \<not> absorbs k y; connectionClosed k y = Some y'\<rbrakk> \<Longrightarrow> lifecycle_step absorbing y y'"
| offline: "runOfflineBatches another y = Some y' \<Longrightarrow> lifecycle_step absorbing y y'"

definition presence_follows :: "lifecycle \<Rightarrow> bool" where
  "presence_follows y \<longleftrightarrow> lf_failed y \<or>
     (\<forall>u. UserOf (lf_version y) u \<noteq> None \<and> lf_active y u = 0 \<and> PresenceOf (lf_version y) u \<noteq> offline_presence \<longrightarrow>
        u \<in> set (waiting y) \<or> u \<in> closing_user ` set (lf_closing y))"

lemma UserOf_persistent: "sv_persistent v = sv_persistent w \<Longrightarrow> UserOf v u = UserOf w u"
  by (simp add: UserOf_def)

lemma set_others: "k < length xs \<Longrightarrow> set xs = insert (xs ! k) (set (take k xs @ drop (Suc k) xs))"
  by (metis Un_insert_right id_take_nth_drop list.simps(15) set_append)

lemma connect_follows:
  assumes "presence_follows y" "connect u y = Some y'"
  shows "presence_follows y'"
proof -
  obtain changed c where c: "activate_candidate (lf_version y) (lf_active y u) u = Return (changed, c)"
    and y': "y' = y\<lparr>lf_version := sd_version c, lf_active := (lf_active y)(u := Suc (lf_active y u))\<rparr>"
    using assms(2) by (auto simp: connect_def split: if_splits outcome.splits)
  note b = activate_built [OF c]
  show ?thesis using assms(1) b UserOf_persistent [of "sd_version c" "lf_version y"] by (auto simp: presence_follows_def y' waiting_def)
qed

lemma set_presence_follows:
  assumes "presence_follows y" "set_presence u p y = Some y'"
  shows "presence_follows y'"
proof -
  obtain c where c: "SetPresence (BuildRuntimeCandidate (lf_version y)) u p = Return c" "lf_active y u \<noteq> 0" and y': "y' = y\<lparr>lf_version := sd_version c\<rparr>"
    using assms(2) by (auto simp: set_presence_def split: if_splits outcome.splits)
  have "PresenceOf (sd_version c) w = (if w = u then p else PresenceOf (lf_version y) w)" "UserOf (sd_version c) w = UserOf (lf_version y) w" for w
    using c(1) by (auto simp: SetPresence_def upd_runtime_def BuildRuntimeCandidate_def PresenceOf_def UserOf_def split: if_splits)
  then show ?thesis using assms(1) c(2) by (auto simp: presence_follows_def y' waiting_def)
qed

lemma closed_follows:
  assumes inv: "presence_follows y" and step: "connectionClosed k y = Some y'" and ok: "\<not> absorbs k y"
  shows "presence_follows y'"
proof -
  let ?others = "take k (lf_closing y) @ drop (Suc k) (lf_closing y)"
  have k: "k < length (lf_closing y)" using step by (auto simp: connectionClosed_def split: if_splits)
  note set = set_others [OF k]
  show ?thesis
  proof (cases "lf_closing y ! k")
    case (ClCount u)
    then have "y' = y\<lparr>lf_closing := (if lf_active y u \<noteq> 0 then ?others else ?others @ [ClPending u])\<rparr>" using step k by (simp add: connectionClosed_def Let_def)
    then show ?thesis using inv set ClCount by (auto simp: presence_follows_def waiting_def)
  next
    case (ClPending u)
    then have y': "y' = (if u \<in> set (lf_pending y) then y\<lparr>lf_closing := ?others\<rparr> else y\<lparr>lf_pending := u # lf_pending y, lf_closing := ?others @ [ClSend u]\<rparr>)"
      using step k by (simp add: connectionClosed_def Let_def)
    have "u \<in> set (lf_pending y) \<longrightarrow> u \<in> set (waiting y)" using ok k ClPending by (auto simp: absorbs_def)
    then show ?thesis using inv set ClPending unfolding y' by (auto simp: presence_follows_def waiting_def)
  next
    case (ClSend u)
    then have "y' = (if length (lf_queue y) < MaxControlTeardownQueueItems then y\<lparr>lf_queue := lf_queue y @ [u], lf_closing := ?others\<rparr>
        else y\<lparr>lf_pending := filter (\<lambda>i. i \<noteq> u) (lf_pending y), lf_failed := True, lf_closing := ?others\<rparr>)" using step k by (simp add: connectionClosed_def Let_def)
    then show ?thesis using inv set ClSend by (auto simp: presence_follows_def waiting_def)
  qed
qed

lemma run_offline_follows:
  assumes "presence_follows y" "lf_worker y = OwRun batch (u # us)"
  shows "presence_follows ((run_offline u y)\<lparr>lf_worker := OwRun batch us\<rparr>)"
proof (cases "offline_candidate (lf_version y) (lf_active y u) u")
  case (Return x)
  obtain changed c where x: "x = (changed, c)" by (cases x)
  note b = offline_built [OF Return [unfolded x]]
  have "run_offline u y = y\<lparr>lf_version := sd_version c\<rparr>" using Return x by (simp add: run_offline_def)
  then show ?thesis using assms b UserOf_persistent [of "sd_version c" "lf_version y"] by (auto simp: presence_follows_def waiting_def)
qed (simp_all add: run_offline_def presence_follows_def)

lemma offline_follows:
  assumes inv: "presence_follows y" and step: "runOfflineBatches another y = Some y'"
  shows "presence_follows y'"
proof (cases "\<exists>batch u us. lf_worker y = OwRun batch (u # us)")
  case True
  then show ?thesis using step run_offline_follows [OF inv] by (auto simp: runOfflineBatches_def)
next
  case False
  have "lf_version y' = lf_version y \<and> lf_active y' = lf_active y \<and> lf_closing y' = lf_closing y \<and> lf_failed y' = lf_failed y \<and> set (waiting y') = set (waiting y)"
    using step False by (auto simp: runOfflineBatches_def waiting_def split: offline_worker.splits list.splits if_splits)
  then show ?thesis using inv by (simp add: presence_follows_def)
qed

lemma lifecycle_step_follows: "lifecycle_step False y y' \<Longrightarrow> presence_follows y \<Longrightarrow> presence_follows y'"
proof (induction rule: lifecycle_step.induct)
  case (disconnect u y y')
  then show ?case by (fastforce simp: disconnect_def presence_follows_def waiting_def split: if_splits)
qed (auto intro: connect_follows set_presence_follows closed_follows offline_follows)

lemma lifecycle_run_follows: "(lifecycle_step False)\<^sup>*\<^sup>* y y' \<Longrightarrow> presence_follows y \<Longrightarrow> presence_follows y'"
  by (induction rule: rtranclp_induct) (simp_all add: lifecycle_step_follows)

text \<open>Nothing is left to do: no offline command and no closing call is under way.\<close>

definition quiescent :: "lifecycle \<Rightarrow> bool" where
  "quiescent y \<longleftrightarrow> lf_worker y = OwWait \<and> lf_queue y = [] \<and> lf_closing y = []"

text \<open>C35. As long as no closed connection is absorbed by a pending mark whose offline command has already run, presence follows the
  connections: in every quiescent state in which the publisher has not failed, an existing user without an active connection is offline.\<close>

theorem presence_converges:
  assumes start: "\<forall>u. UserOf v u \<noteq> None \<longrightarrow> PresenceOf v u = offline_presence"
    and run: "(lifecycle_step False)\<^sup>*\<^sup>* (lifecycle_start v) y" "quiescent y" "\<not> lf_failed y"
    and user: "UserOf (lf_version y) u \<noteq> None" "lf_active y u = 0"
  shows "PresenceOf (lf_version y) u = offline_presence"
proof -
  have "presence_follows (lifecycle_start v)" using start by (auto simp: presence_follows_def lifecycle_start_def)
  from lifecycle_run_follows [OF run(1) this] have "PresenceOf (lf_version y) u \<noteq> offline_presence \<longrightarrow> u \<in> set (waiting y) \<or> u \<in> closing_user ` set (lf_closing y)"
    using run(3) user unfolding presence_follows_def by blast
  then show ?thesis using run(2) by (auto simp: quiescent_def waiting_def)
qed

text \<open>Scripts of actions, for concrete runs.\<close>

datatype lifecycle_action = AConnect int64 | ADisconnect int64 | AClosed nat | AOffline bool

fun lifecycle_do :: "lifecycle_action \<Rightarrow> lifecycle \<Rightarrow> lifecycle option" where
  "lifecycle_do (AConnect u) y = connect u y" | "lifecycle_do (ADisconnect u) y = disconnect u y"
| "lifecycle_do (AClosed k) y = connectionClosed k y" | "lifecycle_do (AOffline another) y = runOfflineBatches another y"

fun lifecycle_script :: "lifecycle_action list \<Rightarrow> lifecycle \<Rightarrow> lifecycle option" where
  "lifecycle_script [] y = Some y"
| "lifecycle_script (a # as) y = (case lifecycle_do a y of None \<Rightarrow> None | Some y' \<Rightarrow> lifecycle_script as y')"

lemma lifecycle_do_step: "lifecycle_do a y = Some y' \<Longrightarrow> lifecycle_step True y y'"
  by (cases a) (auto intro: lifecycle_step.intros)

lemma lifecycle_script_run: "lifecycle_script as y = Some y' \<Longrightarrow> (lifecycle_step True)\<^sup>*\<^sup>* y y'"
proof (induction as arbitrary: y)
  case (Cons a as)
  then obtain y1 where "lifecycle_do a y = Some y1" "lifecycle_script as y1 = Some y'" by (auto split: option.splits)
  then show ?case using Cons.IH lifecycle_do_step by (meson converse_rtranclp_into_rtranclp)
qed simp

text \<open>A user reconnects while the offline command of an earlier disconnection waits, and leaves again after that command has run but before
  its batch is cleared.\<close>

definition reconnect_script :: "lifecycle_action list" where
  "reconnect_script = [AConnect 1, ADisconnect 1, AClosed 0, AClosed 0, AClosed 0, AOffline False, AOffline False, AConnect 1, AOffline False, AOffline False,
     ADisconnect 1, AClosed 0, AClosed 0, AOffline False, AOffline False]"

definition one_user :: StateVersion where "one_user = example_state 0 fmempty"

lemma one_user_presence: "PresenceOf one_user u = offline_presence" "UserOf one_user 1 \<noteq> None"
  by (simp_all add: one_user_def example_state_def PresenceOf_def emptyRuntime_def offline_presence_def UserOf_def)

lemma reconnect_result:
  "\<exists>y. lifecycle_script reconnect_script (lifecycle_start one_user) = Some y \<and> quiescent y \<and> \<not> lf_failed y \<and> lf_pending y = [] \<and> \<not> lf_gate y \<and>
     lf_active y 1 = 0 \<and> PresenceOf (lf_version y) 1 = online_presence"
  by (simp add: reconnect_script_def lifecycle_start_def connect_def disconnect_def connectionClosed_def runOfflineBatches_def run_offline_def quiescent_def
      activate_candidate_def offline_candidate_def SetPresence_def validPresence_def online_presence_def upd_runtime_def BuildRuntimeCandidate_def
      one_user_def example_state_def emptyPersistent_def UserOf_def PresenceOf_def emptyRuntime_def outcome_bind_def MaxControlTeardownQueueItems_def
      MaxControlPlansPerItem_def Let_def)

text \<open>The publisher can lose a disconnection: there is a run after which a user has no active connection, no offline command, no closing call
  and no pending mark is left, nothing has failed, and the user is still published as online.\<close>

lemma offline_can_be_lost:
  "\<exists>y. (lifecycle_step True)\<^sup>*\<^sup>* (lifecycle_start one_user) y \<and> quiescent y \<and> \<not> lf_failed y \<and> lf_pending y = [] \<and> lf_active y 1 = 0 \<and>
     UserOf one_user 1 \<noteq> None \<and> PresenceOf one_user 1 = offline_presence \<and> PresenceOf (lf_version y) 1 = online_presence"
  using reconnect_result lifecycle_script_run one_user_presence by blast

subsection \<open>Examples\<close>

fun clean_script :: "lifecycle_action list \<Rightarrow> lifecycle \<Rightarrow> lifecycle option" where
  "clean_script [] y = Some y"
| "clean_script (a # as) y =
     (if (case a of AClosed k \<Rightarrow> absorbs k y | _ \<Rightarrow> False) then None else case lifecycle_do a y of None \<Rightarrow> None | Some y' \<Rightarrow> clean_script as y')"

lemma clean_do_step: "lifecycle_do a y = Some y' \<Longrightarrow> (case a of AClosed k \<Rightarrow> \<not> absorbs k y | _ \<Rightarrow> True) \<Longrightarrow> lifecycle_step False y y'"
  by (cases a) (auto intro: lifecycle_step.intros)

lemma clean_script_run: "clean_script as y = Some y' \<Longrightarrow> (lifecycle_step False)\<^sup>*\<^sup>* y y'"
proof (induction as arbitrary: y)
  case (Cons a as)
  then obtain y1 where y1: "lifecycle_do a y = Some y1" "clean_script as y1 = Some y'" "case a of AClosed k \<Rightarrow> \<not> absorbs k y | _ \<Rightarrow> True"
    by (auto split: option.splits if_splits lifecycle_action.splits)
  show ?case using Cons.IH [OF y1(2)] clean_do_step [OF y1(1,3)] by (meson converse_rtranclp_into_rtranclp)
qed simp

definition leave_script :: "lifecycle_action list" where
  "leave_script = [AConnect 1, ADisconnect 1, AClosed 0, AClosed 0, AClosed 0, AOffline False, AOffline False, AOffline False, AOffline False, AOffline False, AOffline False]"

lemma leave_result:
  "\<exists>y. clean_script leave_script (lifecycle_start one_user) = Some y \<and> quiescent y \<and> \<not> lf_failed y \<and> lf_active y 1 = 0 \<and> UserOf (lf_version y) 1 \<noteq> None"
  by (simp add: leave_script_def lifecycle_start_def connect_def disconnect_def connectionClosed_def runOfflineBatches_def run_offline_def quiescent_def
      activate_candidate_def offline_candidate_def SetPresence_def validPresence_def online_presence_def offline_presence_def upd_runtime_def BuildRuntimeCandidate_def
      one_user_def example_state_def emptyPersistent_def UserOf_def PresenceOf_def emptyRuntime_def outcome_bind_def MaxControlTeardownQueueItems_def
      MaxControlPlansPerItem_def absorbs_def waiting_def Let_def)

theorem presence_converges_witness:
  "\<exists>y. (lifecycle_step False)\<^sup>*\<^sup>* (lifecycle_start one_user) y \<and> quiescent y \<and> \<not> lf_failed y \<and> lf_active y 1 = 0 \<and> PresenceOf (lf_version y) 1 = offline_presence"
proof -
  obtain y where y: "clean_script leave_script (lifecycle_start one_user) = Some y" "quiescent y" "\<not> lf_failed y" "lf_active y 1 = 0" "UserOf (lf_version y) 1 \<noteq> None"
    using leave_result by blast
  have run: "(lifecycle_step False)\<^sup>*\<^sup>* (lifecycle_start one_user) y" by (rule clean_script_run [OF y(1)])
  have "\<forall>u. UserOf one_user u \<noteq> None \<longrightarrow> PresenceOf one_user u = offline_presence" using one_user_presence(1) by blast
  from presence_converges [OF this run y(2,3,5,4)] show ?thesis using run y by blast
qed

text \<open>A publication with a bound event bus; user 1 is offline.  In the first coordinator a connection is being opened, in the
  empty one its reservation is gone.\<close>

definition offline_publication :: StatePublication where
  "offline_publication = example_publication\<lparr>pb_eventBus := Some (NewEventBus example_signer)\<rparr>"

definition activation_ref :: ControlConnectionRef where
  "activation_ref = \<lparr>cr_ControlConnectionID = 5, cr_UserID = 1, cr_Generation = 1, cr_LoginSessionID = 1\<rparr>"

definition opening_connection :: ConnectionCoordinator where
  "opening_connection = snd (ReserveConnectFrom NewConnectionCoordinator (Some 5) 1 1 (Addr4 7))"

definition example_lj :: lifecycle_codec where
  "example_lj = \<lparr>lj_user = (\<lambda>_. Some ''{}''), lj_authority = (\<lambda>_ _ _. Some ''{}''), lj_session = (\<lambda>_ _ _. Some ''{}'')\<rparr>"

definition activation_env :: command_env where "activation_env = quiet_env\<lparr>ce_nextID := Some 9\<rparr>"

definition activation_transport :: Transport where "activation_transport = \<lparr>tr_id = 0, tr_authRevocation = False, tr_voiceStats = False\<rparr>"

definition activation_command :: "ConnectionCoordinator \<Rightarrow> queuedCommand" where
  "activation_command coord = \<lparr>qc_id = 1, qc_command = ActivateConnection example_codec example_lj (\<lambda>_. []) 0 9 offline_publication coord activation_ref activation_transport 1000\<rparr>"

lemma activation_runs:
  "fst (ReserveConnectFrom NewConnectionCoordinator (Some 5) 1 1 (Addr4 7)) = Return activation_ref"
  "case fst (activate opening_connection activation_ref activation_transport 1000) of Return _ \<Rightarrow> True | _ \<Rightarrow> False"
  "fst (activate NewConnectionCoordinator activation_ref activation_transport 1000) = Fail ErrConnectionNotOpening"
  "activation_plan example_codec example_lj (\<lambda>_. []) 0 9 offline_publication opening_connection activation_ref activation_transport 1000 \<noteq> None"
  "activation_plan example_codec example_lj (\<lambda>_. []) 0 9 offline_publication NewConnectionCoordinator activation_ref activation_transport 1000 \<noteq> None"
  "fst (UserActiveCount opening_connection 1) = 0" "PresenceOf (pb_state offline_publication) 1 = offline_presence" "cr_UserID activation_ref = 1"
  "case executeAndReply example_codec example_tag (\<lambda>_. []) activation_env (NewPostCommitSequencer offline_publication) (activation_command opening_connection) of
     Some (Return _, _) \<Rightarrow> True | _ \<Rightarrow> False"
  by code_simp+


end
