(* ===== verification/Gates.thy ===== *)
theory Gates
  imports Coordinator
begin

text \<open>
  The locks under which voice state changes: the table of relay gates
  (\<^verbatim>\<open>internal/realtime/relay_gate.go\<close>) and the persistent mutation gate
  (\<^verbatim>\<open>internal/realtime/mutation_gate.go\<close>).  A relay gate is a mutex; a goroutine that calls
  \<^verbatim>\<open>acquire\<close> or \<^verbatim>\<open>acquireMany\<close> takes the mutexes of its list one at a time, runs its critical
  section, and gives them back one at a time.  The steps of different goroutines interleave freely.
  The mutation gate is a channel holding one permit.
\<close>

section \<open>Definitions\<close>

subsection \<open>Gate selection\<close>

definition voiceRelayGateCount :: nat where "voiceRelayGateCount = 4096"

definition gate_index :: "int64 \<Rightarrow> nat" where
  "gate_index userID = unat userID mod voiceRelayGateCount"

definition acquire_plan :: "int64 \<Rightarrow> nat list" where
  "acquire_plan userID = (if sint userID \<le> 0 then [] else [gate_index userID])"

fun distinct_indices :: "int64 list \<Rightarrow> nat set \<Rightarrow> nat list \<Rightarrow> nat list" where
  "distinct_indices [] seen indices = indices"
| "distinct_indices (userID # userIDs) seen indices =
     (if sint userID \<le> 0 \<or> gate_index userID \<in> seen then distinct_indices userIDs seen indices
      else distinct_indices userIDs (insert (gate_index userID) seen) (indices @ [gate_index userID]))"

definition acquireMany_plan :: "int64 list \<Rightarrow> nat list" where
  "acquireMany_plan userIDs = sort (distinct_indices userIDs {} [])"

definition AcquireCurrentVoiceRelayGates :: "ConnectionCoordinator \<Rightarrow> nat list" where
  "AcquireCurrentVoiceRelayGates c = acquireMany_plan (map va_UserID (CoordVoiceAuthorities c))"

subsection \<open>Goroutines at the gates\<close>

datatype gate_phase = Locking | Unlocking

record goroutine =
  gr_indices :: "nat list"
  gr_taken :: nat
  gr_phase :: gate_phase

record gate_table =
  gt_owner :: "(nat, nat) fmap"
  gt_running :: "(nat, goroutine) fmap"

definition no_gates :: gate_table where
  "no_gates = \<lparr>gt_owner = fmempty, gt_running = fmempty\<rparr>"

definition start_acquire :: "gate_table \<Rightarrow> nat \<Rightarrow> nat list \<Rightarrow> gate_table option" where
  "start_acquire s t indices =
     (if fmlookup (gt_running s) t \<noteq> None then None
      else Some (s\<lparr>gt_running := fmupd t \<lparr>gr_indices = indices, gr_taken = 0, gr_phase = Locking\<rparr> (gt_running s)\<rparr>))"

text \<open>\<^verbatim>\<open>g.gates[index].Lock()\<close> of the loop; \<open>None\<close> while another goroutine has the mutex.\<close>

definition lock_next :: "gate_table \<Rightarrow> nat \<Rightarrow> gate_table option" where
  "lock_next s t =
     (case fmlookup (gt_running s) t of None \<Rightarrow> None
      | Some g \<Rightarrow>
          if gr_phase g \<noteq> Locking \<or> length (gr_indices g) \<le> gr_taken g then None
          else let i = gr_indices g ! gr_taken g
               in if fmlookup (gt_owner s) i \<noteq> None then None
                  else Some (s\<lparr>gt_owner := fmupd i t (gt_owner s), gt_running := fmupd t (g\<lparr>gr_taken := Suc (gr_taken g)\<rparr>) (gt_running s)\<rparr>))"

text \<open>The call of the release function, once every mutex is taken.\<close>

definition begin_release :: "gate_table \<Rightarrow> nat \<Rightarrow> gate_table option" where
  "begin_release s t =
     (case fmlookup (gt_running s) t of None \<Rightarrow> None
      | Some g \<Rightarrow>
          if gr_phase g \<noteq> Locking \<or> gr_taken g \<noteq> length (gr_indices g) then None
          else Some (s\<lparr>gt_running := fmupd t (g\<lparr>gr_phase := Unlocking\<rparr>) (gt_running s)\<rparr>))"

definition unlock_next :: "gate_table \<Rightarrow> nat \<Rightarrow> gate_table option" where
  "unlock_next s t =
     (case fmlookup (gt_running s) t of None \<Rightarrow> None
      | Some g \<Rightarrow>
          if gr_phase g \<noteq> Unlocking then None
          else case gr_taken g of
            0 \<Rightarrow> Some (s\<lparr>gt_running := fmdrop t (gt_running s)\<rparr>)
          | Suc k \<Rightarrow> Some (s\<lparr>gt_owner := fmdrop (gr_indices g ! k) (gt_owner s), gt_running := fmupd t (g\<lparr>gr_taken := k\<rparr>) (gt_running s)\<rparr>))"

text \<open>A goroutine goes on; a new one starts with the gates of one user, of several, or of everybody in voice.\<close>

inductive gate_advance :: "gate_table \<Rightarrow> gate_table \<Rightarrow> bool" where
  lock: "lock_next s t = Some s' \<Longrightarrow> gate_advance s s'"
| release: "begin_release s t = Some s' \<Longrightarrow> gate_advance s s'"
| unlock: "unlock_next s t = Some s' \<Longrightarrow> gate_advance s s'"

inductive gate_step :: "gate_table \<Rightarrow> gate_table \<Rightarrow> bool" where
  advance: "gate_advance s s' \<Longrightarrow> gate_step s s'"
| one: "start_acquire s t (acquire_plan u) = Some s' \<Longrightarrow> gate_step s s'"
| many: "start_acquire s t (acquireMany_plan us) = Some s' \<Longrightarrow> gate_step s s'"
| current: "start_acquire s t (AcquireCurrentVoiceRelayGates c) = Some s' \<Longrightarrow> gate_step s s'"

text \<open>A goroutine is in its critical section when it has all its gates.\<close>

definition inside :: "gate_table \<Rightarrow> nat \<Rightarrow> nat list \<Rightarrow> bool" where
  "inside s t indices = (fmlookup (gt_running s) t = Some \<lparr>gr_indices = indices, gr_taken = length indices, gr_phase = Locking\<rparr>)"

section \<open>Theorems\<close>

subsection \<open>Plans\<close>

lemma distinct_indices_set:
  "seen = set indices \<Longrightarrow> distinct indices \<Longrightarrow>
   distinct (distinct_indices us seen indices) \<and> set (distinct_indices us seen indices) = set indices \<union> gate_index ` {u \<in> set us. sint u > 0}"
proof (induction us seen indices rule: distinct_indices.induct)
  case (2 userID userIDs seen indices)
  have split: "{u \<in> set (userID # userIDs). sint u > 0} = (if sint userID \<le> 0 then {} else {userID}) \<union> {u \<in> set userIDs. sint u > 0}" by auto
  show ?case using 2 unfolding split by (cases "sint userID \<le> 0 \<or> gate_index userID \<in> seen") (auto simp: insert_absorb)
qed simp

lemma acquireMany_set: "set (acquireMany_plan us) = gate_index ` {u \<in> set us. sint u > 0}"
  using distinct_indices_set [of "{}" "[]" us] by (simp add: acquireMany_plan_def)

definition ascending :: "nat list \<Rightarrow> bool" where
  "ascending xs \<longleftrightarrow> sorted_wrt (<) xs"

lemma plan_ascending [simp]: "ascending (acquire_plan u)" "ascending (acquireMany_plan us)" "ascending (AcquireCurrentVoiceRelayGates c)"
  using distinct_indices_set [of "{}" "[]"]
  by (simp_all add: ascending_def acquire_plan_def acquireMany_plan_def AcquireCurrentVoiceRelayGates_def strict_sorted_iff)

subsection \<open>The invariant\<close>

definition gates_ok :: "gate_table \<Rightarrow> bool" where
  "gates_ok s \<longleftrightarrow>
     (\<forall>t g. fmlookup (gt_running s) t = Some g \<longrightarrow> ascending (gr_indices g) \<and> gr_taken g \<le> length (gr_indices g)) \<and>
     (\<forall>i t. fmlookup (gt_owner s) i = Some t \<longleftrightarrow>
        (\<exists>g. fmlookup (gt_running s) t = Some g \<and> i \<in> set (take (gr_taken g) (gr_indices g))))"

lemma gates_okD:
  assumes "gates_ok s" "fmlookup (gt_running s) t = Some g"
  shows "ascending (gr_indices g)" "gr_taken g \<le> length (gr_indices g)"
    "fmlookup (gt_owner s) i = Some t \<longleftrightarrow> i \<in> set (take (gr_taken g) (gr_indices g))"
  using assms unfolding gates_ok_def by auto

lemma ascending_fresh:
  assumes "ascending xs" "k < length xs"
  shows "xs ! k \<notin> set (take k xs)" "j \<in> set (take k xs) \<Longrightarrow> j < xs ! k"
  using assms by (auto simp: ascending_def sorted_wrt_iff_nth_less in_set_conv_nth) (metis less_irrefl)

lemma start_acquire_ok:
  assumes ok: "gates_ok s" and "ascending indices" and run: "start_acquire s t indices = Some s'"
  shows "gates_ok s'"
proof -
  have new: "fmlookup (gt_running s) t = None"
    and s': "s' = s\<lparr>gt_running := fmupd t \<lparr>gr_indices = indices, gr_taken = 0, gr_phase = Locking\<rparr> (gt_running s)\<rparr>"
    using run by (auto simp: start_acquire_def split: if_splits)
  have "fmlookup (gt_owner s) i \<noteq> Some t" for i using ok new by (auto simp: gates_ok_def)
  then show ?thesis using ok assms(2) by (auto simp: gates_ok_def s')
qed

lemma put_goroutine_ok:
  assumes ok: "gates_ok s" and g: "fmlookup (gt_running s) t = Some g"
    and g': "gr_indices g' = gr_indices g" "gr_taken g' \<le> length (gr_indices g)"
    and own: "\<And>i t'. fmlookup own i = Some t' \<longleftrightarrow> (if t' = t then i \<in> set (take (gr_taken g') (gr_indices g)) else fmlookup (gt_owner s) i = Some t')"
  shows "gates_ok (s\<lparr>gt_owner := own, gt_running := fmupd t g' (gt_running s)\<rparr>)"
  using ok g g' by (auto simp: gates_ok_def own)

lemma lock_ok:
  assumes ok: "gates_ok s" and run: "lock_next s t = Some s'"
  shows "gates_ok s'"
proof -
  from run obtain g where g: "fmlookup (gt_running s) t = Some g" and k: "gr_taken g < length (gr_indices g)"
    and free: "fmlookup (gt_owner s) (gr_indices g ! gr_taken g) = None"
    and s': "s' = s\<lparr>gt_owner := fmupd (gr_indices g ! gr_taken g) t (gt_owner s), gt_running := fmupd t (g\<lparr>gr_taken := Suc (gr_taken g)\<rparr>) (gt_running s)\<rparr>"
    by (auto simp: lock_next_def Let_def split: option.splits if_splits)
  show ?thesis unfolding s'
    by (rule put_goroutine_ok [OF ok g]) (use k free gates_okD(3) [OF ok g] in \<open>auto simp: take_Suc_conv_app_nth\<close>)
qed

lemma begin_release_ok:
  assumes ok: "gates_ok s" and run: "begin_release s t = Some s'"
  shows "gates_ok s'"
proof -
  from run obtain g where g: "fmlookup (gt_running s) t = Some g" and s': "s' = s\<lparr>gt_running := fmupd t (g\<lparr>gr_phase := Unlocking\<rparr>) (gt_running s)\<rparr>"
    by (auto simp: begin_release_def split: option.splits if_splits)
  show ?thesis unfolding s' using ok g by (auto simp: gates_ok_def)
qed

lemma unlock_ok:
  assumes ok: "gates_ok s" and run: "unlock_next s t = Some s'"
  shows "gates_ok s'"
proof -
  from run obtain g where g: "fmlookup (gt_running s) t = Some g"
    and s': "s' = (case gr_taken g of 0 \<Rightarrow> s\<lparr>gt_running := fmdrop t (gt_running s)\<rparr>
      | Suc k \<Rightarrow> s\<lparr>gt_owner := fmdrop (gr_indices g ! k) (gt_owner s), gt_running := fmupd t (g\<lparr>gr_taken := k\<rparr>) (gt_running s)\<rparr>)"
    by (auto simp: unlock_next_def split: option.splits if_splits nat.splits)
  note D = gates_okD [OF ok g]
  show ?thesis
  proof (cases "gr_taken g")
    case 0
    then have "fmlookup (gt_owner s) i \<noteq> Some t" for i using D(3) by simp
    then show ?thesis using ok 0 by (auto simp: s' gates_ok_def)
  next
    case (Suc k)
    then have k: "k < length (gr_indices g)" using D(2) by simp
    have mine: "fmlookup (gt_owner s) (gr_indices g ! k) = Some t" using D(3) k Suc by (simp add: take_Suc_conv_app_nth)
    then have only: "fmlookup (gt_owner s) (gr_indices g ! k) = Some t' \<Longrightarrow> t' = t" for t' by simp
    have "gates_ok (s\<lparr>gt_owner := fmdrop (gr_indices g ! k) (gt_owner s), gt_running := fmupd t (g\<lparr>gr_taken := k\<rparr>) (gt_running s)\<rparr>)"
      by (rule put_goroutine_ok [OF ok g]) (use k Suc only D(3) ascending_fresh(1) [OF D(1) k] in \<open>auto simp: take_Suc_conv_app_nth\<close>)
    then show ?thesis using Suc by (simp add: s')
  qed
qed

lemma gate_advance_ok: "gate_advance s s' \<Longrightarrow> gates_ok s \<Longrightarrow> gates_ok s'"
  by (induction rule: gate_advance.induct) (blast intro: lock_ok begin_release_ok unlock_ok)+

lemma gate_step_ok: "gate_step s s' \<Longrightarrow> gates_ok s \<Longrightarrow> gates_ok s'"
  by (induction rule: gate_step.induct) (blast intro: gate_advance_ok start_acquire_ok plan_ascending)+

lemma gates_reachable_ok: "gate_step\<^sup>*\<^sup>* no_gates s \<Longrightarrow> gates_ok s"
proof (induction rule: rtranclp_induct)
  case base
  show ?case by (simp add: gates_ok_def no_gates_def)
qed (rule gate_step_ok)

subsection \<open>Progress\<close>

lemma blocked_waits:
  assumes ok: "gates_ok s" and g: "fmlookup (gt_running s) t = Some g" and stuck: "\<And>s'. \<not> gate_advance s s'"
  shows "gr_taken g < length (gr_indices g)" "fmlookup (gt_owner s) (gr_indices g ! gr_taken g) \<noteq> None"
proof -
  have none: "lock_next s t = None" "begin_release s t = None" "unlock_next s t = None" using stuck gate_advance.intros by (metis not_None_eq)+
  have phase: "gr_phase g = Locking" using none(3) g by (cases "gr_phase g") (auto simp: unlock_next_def split: nat.splits)
  then show "gr_taken g < length (gr_indices g)" using none(2) g gates_okD(2) [OF ok g] by (auto simp: begin_release_def split: if_splits)
  then show "fmlookup (gt_owner s) (gr_indices g ! gr_taken g) \<noteq> None" using none(1) g phase by (auto simp: lock_next_def Let_def split: if_splits)
qed

lemma gates_progress:
  assumes ok: "gates_ok s" and some: "gt_running s \<noteq> fmempty"
  shows "\<exists>s'. gate_advance s s'"
proof (rule ccontr)
  assume "\<nexists>s'. gate_advance s s'"
  then have stuck: "\<And>s'. \<not> gate_advance s s'" by blast
  define waits where "waits = (\<lambda>t. let g = the (fmlookup (gt_running s) t) in gr_indices g ! gr_taken g) ` fset (fmdom (gt_running s))"
  have fin: "finite waits" by (simp add: waits_def)
  obtain t0 where "fmlookup (gt_running s) t0 \<noteq> None" using some by (metis fmap_ext fmempty_lookup)
  then have "t0 \<in> fset (fmdom (gt_running s))" by (auto intro: fmdomI)
  then have "waits \<noteq> {}" unfolding waits_def by blast
  then have top: "Max waits \<in> waits" using fin by simp
  then obtain t g where g: "fmlookup (gt_running s) t = Some g" and m: "Max waits = gr_indices g ! gr_taken g"
    by (auto simp: waits_def Let_def fmlookup_dom_iff)
  obtain t' where "fmlookup (gt_owner s) (Max waits) = Some t'" using blocked_waits(2) [OF ok g stuck] m by auto
  then obtain g' where g': "fmlookup (gt_running s) t' = Some g'" and in': "Max waits \<in> set (take (gr_taken g') (gr_indices g'))"
    using ok by (auto simp: gates_ok_def)
  have "Max waits < gr_indices g' ! gr_taken g'"
    by (rule ascending_fresh(2) [OF gates_okD(1) [OF ok g'] blocked_waits(1) [OF ok g' stuck] in'])
  moreover have "gr_indices g' ! gr_taken g' \<in> waits"
    unfolding waits_def using g' by (intro image_eqI [of _ _ t']) (auto simp: fmlookup_dom_iff)
  ultimately show False using fin by (meson Max_ge leD)
qed

subsection \<open>Work\<close>

definition goroutine_work :: "goroutine \<Rightarrow> int" where
  "goroutine_work g = (case gr_phase g of Locking \<Rightarrow> 2 * int (length (gr_indices g)) - int (gr_taken g) + 2 | Unlocking \<Rightarrow> int (gr_taken g) + 1)"

definition gate_work :: "gate_table \<Rightarrow> int" where
  "gate_work s = fmap_sum goroutine_work (gt_running s)"

lemma gate_advance_work: "gate_advance s s' \<Longrightarrow> gates_ok s \<Longrightarrow> gate_work s' = gate_work s - 1"
proof (induction rule: gate_advance.induct)
  case (lock s t s')
  then show ?case by (auto simp: lock_next_def Let_def gate_work_def fmap_sum_upd goroutine_work_def split: option.splits if_splits)
next
  case (release s t s')
  then show ?case by (auto simp: begin_release_def gate_work_def fmap_sum_upd goroutine_work_def split: option.splits if_splits gate_phase.splits)
next
  case (unlock s t s')
  then show ?case
    by (auto simp: unlock_next_def gate_work_def fmap_sum_upd fmap_sum_drop goroutine_work_def split: option.splits if_splits nat.splits gate_phase.splits)
qed

lemma goroutine_work_pos: "gr_taken g \<le> length (gr_indices g) \<Longrightarrow> 0 \<le> goroutine_work g"
  by (simp add: goroutine_work_def split: gate_phase.split)

lemma gate_work_nonneg: "gates_ok s \<Longrightarrow> 0 \<le> gate_work s"
  unfolding gate_work_def fmap_sum_def by (rule sum_nonneg) (auto simp: fmlookup_dom_iff gates_ok_def intro: goroutine_work_pos)

lemma gate_advances_ok: "(gate_advance ^^ k) s s' \<Longrightarrow> gates_ok s \<Longrightarrow> gates_ok s' \<and> gate_work s' = gate_work s - int k"
proof (induction k arbitrary: s')
  case (Suc k)
  then obtain y where "(gate_advance ^^ k) s y" "gate_advance y s'" by auto
  then show ?case using Suc.IH [of y] Suc.prems(2) gate_advance_ok gate_advance_work by force
qed auto

lemma idle_owns_nothing: "gates_ok s \<Longrightarrow> gt_running s = fmempty \<Longrightarrow> gt_owner s = fmempty"
  by (intro fmap_ext) (auto simp: gates_ok_def intro: option.exhaust)

lemma inside_exclusive:
  assumes ok: "gates_ok s" and i: "inside s t is" "inside s t' is'" and common: "i \<in> set is" "i \<in> set is'"
  shows "t = t'"
  using gates_okD(3) [OF ok, of t _ i] gates_okD(3) [OF ok, of t' _ i] i common by (simp add: inside_def)

text \<open>C32. The relay gates exclude and never deadlock.  However the goroutines interleave, two of them are never inside critical
  sections that share a gate; and from every moment on the started goroutines finish: as long as one is running some goroutine can take its next
  step, the number of steps left is bounded, and when all have finished no gate is held.\<close>

theorem relay_gates_live:
  assumes "gate_step\<^sup>*\<^sup>* no_gates s"
  shows "(\<forall>t t' is is'. inside s t is \<and> inside s t' is' \<and> set is \<inter> set is' \<noteq> {} \<longrightarrow> t = t') \<and>
    (\<forall>k s'. (gate_advance ^^ k) s s' \<longrightarrow> int k \<le> gate_work s \<and>
       (if gt_running s' = fmempty then gt_owner s' = fmempty else \<exists>s''. gate_advance s' s''))"
proof -
  have ok: "gates_ok s" by (rule gates_reachable_ok [OF assms])
  have "int k \<le> gate_work s \<and> (if gt_running s' = fmempty then gt_owner s' = fmempty else \<exists>s''. gate_advance s' s'')"
    if "(gate_advance ^^ k) s s'" for k s'
    using gate_advances_ok [OF that ok] gate_work_nonneg [of s'] idle_owns_nothing [of s'] gates_progress [of s'] by auto
  then show ?thesis using inside_exclusive [OF ok] by blast
qed

definition example_gates :: gate_table where
  "example_gates = \<lparr>gt_owner = fmempty, gt_running = fmupd 0 \<lparr>gr_indices = [1, 2], gr_taken = 0, gr_phase = Locking\<rparr> fmempty\<rparr>"

lemma example_plan: "acquireMany_plan [4098, 1, 2] = [1, 2]"
  by (simp add: acquireMany_plan_def gate_index_def voiceRelayGateCount_def)

lemma example_gates_run: "gate_step\<^sup>*\<^sup>* no_gates example_gates"
proof -
  have "start_acquire no_gates 0 (acquireMany_plan [4098, 1, 2]) = Some example_gates"
    by (simp add: example_plan start_acquire_def no_gates_def example_gates_def)
  then show ?thesis by (blast intro: gate_step.many)
qed

theorem relay_gates_live_witness: "gate_step\<^sup>*\<^sup>* no_gates example_gates \<and> (\<exists>s'. gate_advance example_gates s')"
proof -
  have "(gate_advance ^^ 0) example_gates example_gates" by simp
  moreover have "gt_running example_gates \<noteq> fmempty"
    by (metis example_gates_def fmempty_lookup fmupd_lookup gate_table.select_convs(2) option.distinct(1))
  ultimately show ?thesis using relay_gates_live [OF example_gates_run] example_gates_run by presburger
qed

section \<open>The persistent mutation gate\<close>

text \<open>The channel \<^verbatim>\<open>permit\<close> has room for one token.  \<open>None\<close> is a call that blocks; when the context is done and the permit is
  there, \<^verbatim>\<open>select\<close> may take either, so the choice is an argument.\<close>

record MutationGate =
  mg_permit :: nat

datatype gate_error = ContextDone

definition NewMutationGate :: MutationGate where
  "NewMutationGate = \<lparr>mg_permit = 1\<rparr>"

definition AcquireMutation :: "MutationGate \<Rightarrow> bool \<Rightarrow> bool \<Rightarrow> ((gate_error, unit) outcome \<times> MutationGate) option" where
  "AcquireMutation g ctxDone preferDone =
     (if ctxDone \<and> (preferDone \<or> mg_permit g = 0) then Some (Fail ContextDone, g)
      else if mg_permit g = 0 then None else Some (Return (), g\<lparr>mg_permit := mg_permit g - 1\<rparr>))"

definition ReleaseMutation :: "MutationGate \<Rightarrow> MutationGate option" where
  "ReleaseMutation g = (if mg_permit g < 1 then Some (g\<lparr>mg_permit := mg_permit g + 1\<rparr>) else None)"

text \<open>Writers that release once each: \<open>holders\<close> have the permit.\<close>

inductive mutation_step :: "MutationGate \<times> nat set \<Rightarrow> MutationGate \<times> nat set \<Rightarrow> bool" where
  enter: "w \<notin> H \<Longrightarrow> AcquireMutation g ctxDone preferDone = Some (Return (), g') \<Longrightarrow> mutation_step (g, H) (g', insert w H)"
| refuse: "AcquireMutation g ctxDone preferDone = Some (Fail e, g') \<Longrightarrow> mutation_step (g, H) (g', H)"
| leave: "w \<in> H \<Longrightarrow> ReleaseMutation g = Some g' \<Longrightarrow> mutation_step (g, H) (g', H - {w})"

lemma mutation_gate_exclusive:
  assumes "mutation_step\<^sup>*\<^sup>* (NewMutationGate, {}) (g, H)"
  shows "(mg_permit g = 1 \<and> H = {}) \<or> (mg_permit g = 0 \<and> (\<exists>w. H = {w}))"
  using assms
proof (induction rule: rtranclp_induct2)
  case refl
  show ?case by (simp add: NewMutationGate_def)
next
  case (step g H g' H')
  from step(2) show ?case
  proof cases
    case (enter w ctxDone preferDone)
    then have "mg_permit g \<noteq> 0" "g' = g\<lparr>mg_permit := mg_permit g - 1\<rparr>" by (simp_all add: AcquireMutation_def split: if_splits)
    then show ?thesis using step(3) enter(1) by auto
  next
    case (refuse ctxDone preferDone e)
    then have "g' = g" by (simp add: AcquireMutation_def split: if_splits)
    then show ?thesis using step(3) refuse(1) by simp
  next
    case (leave w)
    then have "mg_permit g = 0" "g' = g\<lparr>mg_permit := 1\<rparr>" by (simp_all add: ReleaseMutation_def split: if_splits)
    then show ?thesis using step(3) leave(1,2) by auto
  qed
qed

text \<open>A holder can always leave, and then the gate is free.\<close>

lemma mutation_gate_release:
  assumes "mutation_step\<^sup>*\<^sup>* (NewMutationGate, {}) (g, H)" "w \<in> H"
  shows "ReleaseMutation g = Some NewMutationGate"
  using mutation_gate_exclusive [OF assms(1)] assms(2) by (auto simp: ReleaseMutation_def NewMutationGate_def)

end
