(* ===== verification/Timer.thy ===== *)
theory Timer
  imports Text
begin

text \<open>
  The scheduler of persistent deadlines (\<^verbatim>\<open>internal/realtime/timer.go\<close>): temporary channels and mutes.  The state
  has the slots the code keeps and, beside them, what the Go runtime keeps for it: the timers that are
  armed and the callbacks whose goroutine has started but has not entered the lock yet.  A timer can be
  stopped only while it is armed.  Clock readings are arguments and one clock is used throughout.
\<close>

section \<open>Definitions\<close>

record DeadlineTask =
  dt_Kind :: string
  dt_ID :: int64
  dt_Generation :: uint64
  dt_Deadline :: int64

definition deadlineTaskKey :: "string \<Rightarrow> int64 \<Rightarrow> string" where
  "deadlineTaskKey kind i = kind @ '':'' @ FormatInt i"

record scheduledTimer =
  st_task :: DeadlineTask
  st_timer :: nat

record DeadlineScheduler =
  ds_closed :: bool
  ds_timers :: "(string, scheduledTimer) fmap"
  ds_wg :: nat
  ds_armed :: "(nat, gotime \<times> DeadlineTask) fmap"
  ds_started :: "(nat, DeadlineTask) fmap"
  ds_nextTimer :: nat

definition NewDeadlineScheduler :: DeadlineScheduler where
  "NewDeadlineScheduler = \<lparr>ds_closed = False, ds_timers = fmempty, ds_wg = 0, ds_armed = fmempty, ds_started = fmempty, ds_nextTimer = 0\<rparr>"

definition task_key :: "DeadlineTask \<Rightarrow> string" where
  "task_key task = deadlineTaskKey (dt_Kind task) (dt_ID task)"

definition task_valid :: "DeadlineTask \<Rightarrow> bool" where
  "task_valid task = (dt_Kind task \<noteq> '''' \<and> sint (dt_ID task) > 0 \<and> dt_Generation task \<noteq> 0 \<and> sint (dt_Deadline task) > 0)"

text \<open>\<^verbatim>\<open>timer.Stop()\<close> and \<^verbatim>\<open>time.AfterFunc\<close>.\<close>

definition stop_timer :: "DeadlineScheduler \<Rightarrow> nat \<Rightarrow> DeadlineScheduler" where
  "stop_timer s i = s\<lparr>ds_armed := fmdrop i (ds_armed s)\<rparr>"

definition after_func :: "DeadlineScheduler \<Rightarrow> gotime \<Rightarrow> DeadlineTask \<Rightarrow> DeadlineScheduler" where
  "after_func s due task =
     s\<lparr>ds_armed := fmupd (ds_nextTimer s) (due, task) (ds_armed s), ds_nextTimer := Suc (ds_nextTimer s),
       ds_timers := fmupd (task_key task) \<lparr>st_task = task, st_timer = ds_nextTimer s\<rparr> (ds_timers s)\<rparr>"

definition task_delay :: "DeadlineTask \<Rightarrow> gotime \<Rightarrow> duration" where
  "task_delay task now = max 0 (time_sub (sint (dt_Deadline task) * 1000000) now)"

definition Schedule :: "DeadlineScheduler \<Rightarrow> DeadlineTask \<Rightarrow> gotime \<Rightarrow> bool \<times> DeadlineScheduler" where
  "Schedule s task now =
     (if \<not> task_valid task then (False, s)
      else let due = now + task_delay task now
           in if ds_closed s then (False, s)
              else case fmlookup (ds_timers s) (task_key task) of
                Some active \<Rightarrow>
                  if dt_Generation task \<le> dt_Generation (st_task active) then (False, s)
                  else (True, after_func (stop_timer s (st_timer active)) due task)
              | None \<Rightarrow> (True, after_func s due task))"

text \<open>The runtime starts a due callback; the callback's locked part decides whether it still owns its slot.\<close>

definition timer_fires :: "DeadlineScheduler \<Rightarrow> nat \<Rightarrow> gotime \<Rightarrow> DeadlineScheduler option" where
  "timer_fires s i now =
     (case fmlookup (ds_armed s) i of None \<Rightarrow> None
      | Some (due, task) \<Rightarrow> if now < due then None else Some (s\<lparr>ds_armed := fmdrop i (ds_armed s), ds_started := fmupd i task (ds_started s)\<rparr>))"

definition timer_enter :: "DeadlineScheduler \<Rightarrow> nat \<Rightarrow> (DeadlineTask option \<times> DeadlineScheduler) option" where
  "timer_enter s i =
     (case fmlookup (ds_started s) i of None \<Rightarrow> None
      | Some task \<Rightarrow>
          let s' = s\<lparr>ds_started := fmdrop i (ds_started s)\<rparr>
          in if ds_closed s \<or> map_option st_task (fmlookup (ds_timers s) (task_key task)) \<noteq> Some task then Some (None, s')
             else Some (Some task, s'\<lparr>ds_timers := fmdrop (task_key task) (ds_timers s), ds_wg := ds_wg s + 1\<rparr>))"

definition callback_returns :: "DeadlineScheduler \<Rightarrow> DeadlineScheduler option" where
  "callback_returns s = (if ds_wg s = 0 then None else Some (s\<lparr>ds_wg := ds_wg s - 1\<rparr>))"

definition Cancel :: "DeadlineScheduler \<Rightarrow> string \<Rightarrow> int64 \<Rightarrow> uint64 \<Rightarrow> DeadlineScheduler" where
  "Cancel s kind i generation =
     (if kind = '''' \<or> sint i \<le> 0 \<or> generation = 0 then s
      else case fmlookup (ds_timers s) (deadlineTaskKey kind i) of
        Some active \<Rightarrow>
          if dt_Generation (st_task active) \<le> generation
          then (stop_timer s (st_timer active))\<lparr>ds_timers := fmdrop (deadlineTaskKey kind i) (ds_timers s)\<rparr> else s
      | None \<Rightarrow> s)"

text \<open>The locked part of \<^verbatim>\<open>Close\<close>, and the result of its wait: whether all callbacks returned, \<open>None\<close> while it waits.  When both
  are ready the choice of \<^verbatim>\<open>select\<close> is an argument.\<close>

definition close_stop :: "DeadlineScheduler \<Rightarrow> DeadlineScheduler" where
  "close_stop s =
     (if ds_closed s then s
      else s\<lparr>ds_closed := True, ds_timers := fmempty,
             ds_armed := fmfilter (\<lambda>i. i \<notin> set (map st_timer (map_values (ds_timers s)))) (ds_armed s)\<rparr>)"

definition closeWait :: "DeadlineScheduler \<Rightarrow> bool \<Rightarrow> bool \<Rightarrow> bool option" where
  "closeWait s ctxDone preferDone =
     (if ctxDone \<and> (preferDone \<or> ds_wg s \<noteq> 0) then Some False else if ds_wg s = 0 then Some True else None)"

section \<open>Theorems\<close>

subsection \<open>Slots\<close>

lemma split_colon:
  assumes "a @ CHR '':'' # b = a' @ CHR '':'' # b'" "CHR '':'' \<notin> set b" "CHR '':'' \<notin> set b'"
  shows "a = a' \<and> b = b'"
proof -
  have "rev b @ CHR '':'' # rev a = rev b' @ CHR '':'' # rev a'" using arg_cong [OF assms(1), of rev] by simp
  moreover have "takeWhile (\<lambda>ch. ch \<noteq> CHR '':'') (rev b @ CHR '':'' # rev a) = rev b"
      "takeWhile (\<lambda>ch. ch \<noteq> CHR '':'') (rev b' @ CHR '':'' # rev a') = rev b'"
    by (rule takeWhile_split; use assms(2,3) in simp)+
  ultimately show ?thesis by (metis append_same_eq assms(1) list.inject rev_rev_ident same_append_eq)
qed

lemma FormatInt_no_colon: "0 \<le> sint i \<Longrightarrow> CHR '':'' \<notin> set (FormatInt i)"
  using decimal_digits [of "CHR '':''"] sign_no_digit(3) by (auto simp: FormatInt_nonneg)

lemma task_key_inj:
  assumes "task_valid a" "task_valid b"
  shows "task_key a = task_key b \<longleftrightarrow> dt_Kind a = dt_Kind b \<and> dt_ID a = dt_ID b"
proof
  have pos: "0 \<le> sint (dt_ID a)" "0 \<le> sint (dt_ID b)" using assms by (simp_all add: task_valid_def)
  assume "task_key a = task_key b"
  then have "dt_Kind a = dt_Kind b \<and> FormatInt (dt_ID a) = FormatInt (dt_ID b)"
    using split_colon [OF _ FormatInt_no_colon [OF pos(1)] FormatInt_no_colon [OF pos(2)]] by (simp add: task_key_def deadlineTaskKey_def)
  then show "dt_Kind a = dt_Kind b \<and> dt_ID a = dt_ID b" using FormatInt_inj pos by blast
qed (simp add: task_key_def)

subsection \<open>Runs\<close>

record sched_system =
  sy_clock :: gotime
  sy_sched :: DeadlineScheduler
  sy_accepted :: "DeadlineTask list"
  sy_called :: "(gotime \<times> DeadlineTask) list"

inductive sched_step :: "sched_system \<Rightarrow> sched_system \<Rightarrow> bool" where
  tick: "sy_clock y \<le> now \<Longrightarrow> sched_step y (y\<lparr>sy_clock := now\<rparr>)"
| schedule: "Schedule (sy_sched y) task (sy_clock y) = (ok, s') \<Longrightarrow>
    sched_step y (y\<lparr>sy_sched := s', sy_accepted := sy_accepted y @ (if ok then [task] else [])\<rparr>)"
| fires: "timer_fires (sy_sched y) i (sy_clock y) = Some s' \<Longrightarrow> sched_step y (y\<lparr>sy_sched := s'\<rparr>)"
| enter: "timer_enter (sy_sched y) i = Some (r, s') \<Longrightarrow>
    sched_step y (y\<lparr>sy_sched := s', sy_called := sy_called y @ (case r of None \<Rightarrow> [] | Some task \<Rightarrow> [(sy_clock y, task)])\<rparr>)"
| returns: "callback_returns (sy_sched y) = Some s' \<Longrightarrow> sched_step y (y\<lparr>sy_sched := s'\<rparr>)"
| cancel: "sched_step y (y\<lparr>sy_sched := Cancel (sy_sched y) kind i generation\<rparr>)"
| close: "sched_step y (y\<lparr>sy_sched := close_stop (sy_sched y)\<rparr>)"

definition sched_start :: "gotime \<Rightarrow> sched_system" where
  "sched_start start = \<lparr>sy_clock = start, sy_sched = NewDeadlineScheduler, sy_accepted = [], sy_called = []\<rparr>"

text \<open>Every slot has its timer, armed or started, and its task is the last one accepted for the slot; callbacks and calls are not early;
  a task is not called more often than it was accepted.\<close>

definition slot_ok :: "DeadlineScheduler \<Rightarrow> string \<Rightarrow> scheduledTimer \<Rightarrow> bool" where
  "slot_ok s k st \<longleftrightarrow> k = task_key (st_task st) \<and> task_valid (st_task st) \<and> \<not> ds_closed s \<and>
     ((\<exists>due. fmlookup (ds_armed s) (st_timer st) = Some (due, st_task st)) \<or> fmlookup (ds_started s) (st_timer st) = Some (st_task st))"

definition earliest :: "gotime \<Rightarrow> DeadlineTask \<Rightarrow> gotime" where
  "earliest start task = min (sint (dt_Deadline task) * 1000000) (start + max_int64)"

definition timers_ok :: "gotime \<Rightarrow> gotime \<Rightarrow> DeadlineScheduler \<Rightarrow> bool" where
  "timers_ok start clock s \<longleftrightarrow>
     (\<forall>k st. fmlookup (ds_timers s) k = Some st \<longrightarrow> slot_ok s k st) \<and>
     (\<forall>i due task. fmlookup (ds_armed s) i = Some (due, task) \<longrightarrow> i < ds_nextTimer s \<and> fmlookup (ds_started s) i = None \<and> earliest start task \<le> due) \<and>
     (\<forall>i task. fmlookup (ds_started s) i = Some task \<longrightarrow> i < ds_nextTimer s \<and> earliest start task \<le> clock)"

definition pending :: "DeadlineScheduler \<Rightarrow> DeadlineTask \<Rightarrow> nat" where
  "pending s task = (if map_option st_task (fmlookup (ds_timers s) (task_key task)) = Some task then 1 else 0)"

definition slot_history :: "sched_system \<Rightarrow> string \<Rightarrow> DeadlineTask list" where
  "slot_history y k = filter (\<lambda>t. task_key t = k) (sy_accepted y)"

definition sched_ok :: "gotime \<Rightarrow> sched_system \<Rightarrow> bool" where
  "sched_ok start y \<longleftrightarrow> start \<le> sy_clock y \<and> timers_ok start (sy_clock y) (sy_sched y) \<and>
     (\<forall>n task. (n, task) \<in> set (sy_called y) \<longrightarrow> earliest start task \<le> n) \<and>
     (\<forall>task. count_list (map snd (sy_called y)) task + pending (sy_sched y) task \<le> count_list (sy_accepted y) task) \<and>
     (\<forall>k st. fmlookup (ds_timers (sy_sched y)) k = Some st \<longrightarrow> slot_history y k \<noteq> [] \<and> last (slot_history y k) = st_task st)"

lemma delay_earliest: "start \<le> now \<Longrightarrow> earliest start task \<le> now + task_delay task now"
  by (simp add: earliest_def task_delay_def time_sub_def max_int64_def min_int64_def)

lemma timers_ok_cases:
  assumes "timers_ok start clock s"
  shows "fmlookup (ds_timers s) k = Some st \<Longrightarrow> slot_ok s k st"
    "fmlookup (ds_armed s) i = Some (due, task) \<Longrightarrow> i < ds_nextTimer s \<and> fmlookup (ds_started s) i = None \<and> earliest start task \<le> due"
    "fmlookup (ds_started s) i = Some task \<Longrightarrow> i < ds_nextTimer s \<and> earliest start task \<le> clock"
  using assms unfolding timers_ok_def by blast+

text \<open>Two slots never share a timer.\<close>

lemma slot_timer_unique:
  assumes ok: "timers_ok start clock s" and a: "fmlookup (ds_timers s) k = Some a" and b: "fmlookup (ds_timers s) k' = Some b" and eq: "st_timer a = st_timer b"
  shows "k = k'"
proof -
  have sa: "slot_ok s k a" and sb: "slot_ok s k' b" using timers_ok_cases(1) [OF ok] a b by auto
  have "st_task a = st_task b" using sa sb eq timers_ok_cases(2,3) [OF ok] unfolding slot_ok_def by (metis option.inject prod.inject option.distinct(1))
  then show ?thesis using sa sb by (simp add: slot_ok_def)
qed

lemma stop_drop_ok:
  assumes ok: "timers_ok start clock s" and st: "fmlookup (ds_timers s) k = Some st"
  shows "timers_ok start clock ((stop_timer s (st_timer st))\<lparr>ds_timers := fmdrop k (ds_timers s)\<rparr>)"
proof -
  have "st_timer st' \<noteq> st_timer st" if "fmlookup (ds_timers s) k' = Some st'" "k' \<noteq> k" for k' st'
    using slot_timer_unique [OF ok that(1) st] that(2) by blast
  then show ?thesis using ok unfolding timers_ok_def slot_ok_def stop_timer_def by auto
qed

lemma after_func_ok:
  assumes ok: "timers_ok start clock s" and free: "fmlookup (ds_timers s) (task_key task) = None" and v: "task_valid task" "\<not> ds_closed s" "earliest start task \<le> due"
  shows "timers_ok start clock (after_func s due task)"
proof -
  have new: "fmlookup (ds_armed s) (ds_nextTimer s) = None" "fmlookup (ds_started s) (ds_nextTimer s) = None"
    using timers_ok_cases(2,3) [OF ok] by (metis less_irrefl option.exhaust prod.exhaust)+
  have slots: "slot_ok s k st \<and> st_timer st \<noteq> ds_nextTimer s" if "fmlookup (ds_timers s) k = Some st" for k st
    using timers_ok_cases(1) [OF ok that] new by (auto simp: slot_ok_def)
  show ?thesis unfolding timers_ok_def
  proof (intro conjI allI impI)
    fix k st assume "fmlookup (ds_timers (after_func s due task)) k = Some st"
    then show "slot_ok (after_func s due task) k st"
      using slots [of k st] v by (auto simp: slot_ok_def after_func_def split: if_splits)
  qed (use timers_ok_cases(2,3) [OF ok] v(3) new in \<open>force simp: after_func_def less_Suc_eq split: if_splits\<close>)+
qed

lemma fmupd_drop: "fmupd k v (fmdrop k m) = fmupd k v m"
  by (intro fmap_ext) auto

lemma stop_after_ok:
  assumes ok: "timers_ok start clock s" and st: "fmlookup (ds_timers s) (task_key task) = Some st"
    and v: "task_valid task" "\<not> ds_closed s" "earliest start task \<le> due"
  shows "timers_ok start clock (after_func (stop_timer s (st_timer st)) due task)"
proof -
  let ?s = "(stop_timer s (st_timer st))\<lparr>ds_timers := fmdrop (task_key task) (ds_timers s)\<rparr>"
  have "timers_ok start clock (after_func ?s due task)"
    by (rule after_func_ok [OF stop_drop_ok [OF ok st]]) (use v in \<open>auto simp: stop_timer_def\<close>)
  moreover have "after_func ?s due task = after_func (stop_timer s (st_timer st)) due task"
    by (simp add: after_func_def stop_timer_def fmupd_drop)
  ultimately show ?thesis by simp
qed

lemma Schedule_cases:
  assumes "Schedule s task now = (ok, s')"
  obtains (no) "\<not> ok" "s' = s"
  | (fresh) "ok" "task_valid task" "\<not> ds_closed s" "fmlookup (ds_timers s) (task_key task) = None" "s' = after_func s (now + task_delay task now) task"
  | (newer) st where "ok" "task_valid task" "\<not> ds_closed s" "fmlookup (ds_timers s) (task_key task) = Some st" "dt_Generation (st_task st) < dt_Generation task"
      "s' = after_func (stop_timer s (st_timer st)) (now + task_delay task now) task"
  using assms by (auto simp: Schedule_def Let_def not_le split: if_splits option.splits)

lemma Schedule_ok:
  assumes "timers_ok start clock s" "start \<le> clock" "Schedule s task clock = (ok, s')"
  shows "timers_ok start clock s'"
  using assms(3) by (cases rule: Schedule_cases) (use assms(1,2) in \<open>simp_all add: after_func_ok stop_after_ok delay_earliest\<close>)

lemma accepted_timers: "Schedule s task now = (True, s') \<Longrightarrow>
    (\<exists>n. ds_timers s' = fmupd (task_key task) \<lparr>st_task = task, st_timer = n\<rparr> (ds_timers s))"
  by (erule Schedule_cases) (auto simp: after_func_def stop_timer_def)

lemma timer_fires_ok:
  assumes ok: "timers_ok start clock s" and run: "timer_fires s i clock = Some s'"
  shows "timers_ok start clock s'" "ds_timers s' = ds_timers s"
proof -
  from run obtain due task where a: "fmlookup (ds_armed s) i = Some (due, task)" "due \<le> clock"
    and s': "s' = s\<lparr>ds_armed := fmdrop i (ds_armed s), ds_started := fmupd i task (ds_started s)\<rparr>"
    by (auto simp: timer_fires_def split: option.splits if_splits)
  show "ds_timers s' = ds_timers s" by (simp add: s')
  show "timers_ok start clock s'" unfolding timers_ok_def
  proof (intro conjI allI impI)
    fix k st assume "fmlookup (ds_timers s') k = Some st"
    then show "slot_ok s' k st" using timers_ok_cases(1) [OF ok, of k st] timers_ok_cases(2) [OF ok a(1)] a(1) by (auto simp: s' slot_ok_def)
  qed (use timers_ok_cases(2,3) [OF ok] a in \<open>force simp: s' split: if_splits\<close>)+
qed

lemma timer_enter_cases:
  assumes "timer_enter s i = Some (r, s')"
  obtains (no) task where "fmlookup (ds_started s) i = Some task" "r = None" "ds_closed s \<or> map_option st_task (fmlookup (ds_timers s) (task_key task)) \<noteq> Some task"
      "s' = s\<lparr>ds_started := fmdrop i (ds_started s)\<rparr>"
  | (call) task where "fmlookup (ds_started s) i = Some task" "r = Some task" "\<not> ds_closed s" "map_option st_task (fmlookup (ds_timers s) (task_key task)) = Some task"
      "s' = s\<lparr>ds_started := fmdrop i (ds_started s), ds_timers := fmdrop (task_key task) (ds_timers s), ds_wg := ds_wg s + 1\<rparr>"
  using assms by (auto simp: timer_enter_def Let_def split: option.splits if_splits)

lemma entered_ok:
  assumes ok: "timers_ok start clock s" and "ds_started s' = fmdrop i (ds_started s)" "ds_armed s' = ds_armed s" "ds_nextTimer s' = ds_nextTimer s"
    and "\<And>k st. fmlookup (ds_timers s') k = Some st \<Longrightarrow> slot_ok s' k st"
  shows "timers_ok start clock s'"
  unfolding timers_ok_def assms(2-4) using timers_ok_cases(2,3) [OF ok] assms(5) by (simp split: if_splits) blast

text \<open>A callback that enters without a call is not the one of a slot.\<close>

lemma timer_enter_ok:
  assumes ok: "timers_ok start clock s" and run: "timer_enter s i = Some (r, s')"
  shows "timers_ok start clock s'"
  using run
proof (cases rule: timer_enter_cases)
  case (no task)
  have "slot_ok s' k st" if st: "fmlookup (ds_timers s) k = Some st" for k st
  proof -
    have slot: "slot_ok s k st" by (rule timers_ok_cases(1) [OF ok st])
    have "st_timer st \<noteq> i"
    proof
      assume "st_timer st = i"
      then have "st_task st = task" using slot no(1) timers_ok_cases(2) [OF ok, of i] by (auto simp: slot_ok_def)
      then show False using no(3) slot st by (auto simp: slot_ok_def)
    qed
    then show ?thesis using slot no(4) by (auto simp: slot_ok_def)
  qed
  then show ?thesis by (intro entered_ok [OF ok]) (simp_all add: no(4))
next
  case (call task)
  have "slot_ok s' k st" if "fmlookup (ds_timers s) k = Some st" "k \<noteq> task_key task" for k st
    using timers_ok_cases(1) [OF ok that(1)] call that(2) by (auto simp: slot_ok_def)
  then show ?thesis by (intro entered_ok [OF ok]) (simp_all add: call(5) split: if_splits)
qed

lemma Cancel_ok:
  assumes "timers_ok start clock s"
  shows "timers_ok start clock (Cancel s kind i generation)"
  using assms stop_drop_ok [OF assms] by (auto simp: Cancel_def split: option.splits)

lemma close_stop_ok: "timers_ok start clock s \<Longrightarrow> timers_ok start clock (close_stop s)"
  by (auto simp: close_stop_def timers_ok_def)

subsection \<open>Counting calls\<close>

lemma pending_upd:
  "pending (s\<lparr>ds_timers := fmupd (task_key t) \<lparr>st_task = t, st_timer = n\<rparr> m\<rparr>) u \<le> pending (s\<lparr>ds_timers := m\<rparr>) u + (if u = t then 1 else 0)"
  by (auto simp: pending_def)

lemma pending_cong: "ds_timers s = ds_timers s' \<Longrightarrow> pending s = pending s'"
  by (simp add: pending_def fun_eq_iff)

lemma pending_sub:
  assumes "\<And>k st. fmlookup (ds_timers s') k = Some st \<Longrightarrow> fmlookup (ds_timers s) k = Some st"
  shows "pending s' u \<le> pending s u"
  using assms by (auto simp: pending_def)

definition counts_fine :: "DeadlineScheduler \<Rightarrow> DeadlineTask list \<Rightarrow> (gotime \<times> DeadlineTask) list \<Rightarrow> bool" where
  "counts_fine s accepted called \<longleftrightarrow> (\<forall>task. count_list (map snd called) task + pending s task \<le> count_list accepted task)"

definition history_fine :: "DeadlineScheduler \<Rightarrow> DeadlineTask list \<Rightarrow> bool" where
  "history_fine s accepted \<longleftrightarrow> (\<forall>k st. fmlookup (ds_timers s) k = Some st \<longrightarrow>
     filter (\<lambda>t. task_key t = k) accepted \<noteq> [] \<and> last (filter (\<lambda>t. task_key t = k) accepted) = st_task st)"

lemma sched_ok_alt:
  "sched_ok start y \<longleftrightarrow> start \<le> sy_clock y \<and> timers_ok start (sy_clock y) (sy_sched y) \<and>
     (\<forall>n task. (n, task) \<in> set (sy_called y) \<longrightarrow> earliest start task \<le> n) \<and>
     counts_fine (sy_sched y) (sy_accepted y) (sy_called y) \<and> history_fine (sy_sched y) (sy_accepted y)"
  by (simp add: sched_ok_def counts_fine_def history_fine_def slot_history_def)

lemma fewer_slots:
  assumes "\<And>k st. fmlookup (ds_timers s') k = Some st \<Longrightarrow> fmlookup (ds_timers s) k = Some st"
  shows "counts_fine s accepted called \<Longrightarrow> counts_fine s' accepted called" "history_fine s accepted \<Longrightarrow> history_fine s' accepted"
  using assms pending_sub [OF assms] unfolding counts_fine_def history_fine_def by (meson add_left_mono order_trans)+

lemma schedule_counts:
  assumes run: "Schedule s task now = (True, s')" and c: "counts_fine s accepted called" and h: "history_fine s accepted"
  shows "counts_fine s' (accepted @ [task]) called" "history_fine s' (accepted @ [task])"
proof -
  obtain n where n: "ds_timers s' = fmupd (task_key task) \<lparr>st_task = task, st_timer = n\<rparr> (ds_timers s)" using accepted_timers [OF run] by blast
  have p: "pending s' u \<le> pending s u + (if u = task then 1 else 0)" for u by (auto simp: pending_def n)
  show "counts_fine s' (accepted @ [task]) called"
    unfolding counts_fine_def
  proof
    fix u
    have "count_list (map snd called) u + pending s u \<le> count_list accepted u" using c by (simp add: counts_fine_def)
    then show "count_list (map snd called) u + pending s' u \<le> count_list (accepted @ [task]) u" using p [of u] by (auto simp: count_list_append)
  qed
  show "history_fine s' (accepted @ [task])" using h by (auto simp: history_fine_def n)
qed

lemma enter_counts:
  assumes run: "timer_enter s i = Some (r, s')" and c: "counts_fine s accepted called" and h: "history_fine s accepted"
  shows "counts_fine s' accepted (called @ (case r of None \<Rightarrow> [] | Some task \<Rightarrow> [(now, task)]))" "history_fine s' accepted"
proof -
  have sub: "fmlookup (ds_timers s) k = Some st" if "fmlookup (ds_timers s') k = Some st" for k st
    using run that by (cases rule: timer_enter_cases) (auto split: if_splits)
  show "history_fine s' accepted" by (rule fewer_slots(2) [OF sub h])
  show "counts_fine s' accepted (called @ (case r of None \<Rightarrow> [] | Some task \<Rightarrow> [(now, task)]))"
    using run
  proof (cases rule: timer_enter_cases)
    case (no task)
    have "counts_fine s' accepted called" by (rule fewer_slots(1) [OF sub c])
    then show ?thesis by (simp add: no(2))
  next
    case (call task)
    show ?thesis unfolding counts_fine_def
    proof
      fix u
      have "pending s' u + (if u = task then 1 else 0) \<le> pending s u" using call by (auto simp: pending_def)
      moreover have "count_list (map snd called) u + pending s u \<le> count_list accepted u" using c by (simp add: counts_fine_def)
      ultimately show "count_list (map snd (called @ (case r of None \<Rightarrow> [] | Some task \<Rightarrow> [(now, task)]))) u + pending s' u \<le> count_list accepted u"
        using call(2) by (auto simp: count_list_append)
    qed
  qed
qed

lemma sched_step_ok:
  assumes "sched_step y y'" "sched_ok start y"
  shows "sched_ok start y'"
  using assms
proof (induction rule: sched_step.induct)
  case (tick y now)
  then show ?case unfolding sched_ok_alt timers_ok_def by (auto simp: slot_ok_def) (meson order_trans)
next
  case (schedule y task ok s')
  have t: "timers_ok start (sy_clock y) s'" using schedule(2) by (intro Schedule_ok [OF _ _ schedule(1)]) (simp_all add: sched_ok_alt)
  show ?case
  proof (cases ok)
    case True
    then have ok_True: "ok = True" by simp
    have "counts_fine (sy_sched y) (sy_accepted y) (sy_called y)" "history_fine (sy_sched y) (sy_accepted y)" using schedule(2) by (simp_all add: sched_ok_alt)
    from schedule_counts [OF schedule(1) [unfolded ok_True] this] show ?thesis using schedule(2) t True by (simp add: sched_ok_alt)
  next
    case False
    then have "s' = sy_sched y" using schedule(1) by (auto elim: Schedule_cases)
    then show ?thesis using schedule(2) False by (simp add: sched_ok_alt)
  qed
next
  case (fires y i s')
  then show ?case using timer_fires_ok [of start "sy_clock y" "sy_sched y" i s'] fewer_slots [of s' "sy_sched y"] by (simp add: sched_ok_alt)
next
  case (enter y i r s')
  have e: "earliest start task \<le> sy_clock y" if "r = Some task" for task
    using enter that timers_ok_cases(3) [of start "sy_clock y" "sy_sched y" i] by (auto simp: sched_ok_alt elim!: timer_enter_cases)
  then show ?case using enter timer_enter_ok [of start "sy_clock y" "sy_sched y" i r s'] enter_counts [of "sy_sched y" i r s']
    by (auto simp: sched_ok_alt split: option.splits)
next
  case (returns y s')
  then have s': "s' = (sy_sched y)\<lparr>ds_wg := ds_wg (sy_sched y) - 1\<rparr>" by (auto simp: callback_returns_def split: if_splits)
  show ?case using returns(2) unfolding s' by (simp add: sched_ok_alt timers_ok_def slot_ok_def counts_fine_def history_fine_def pending_def)
next
  case (cancel y kind i generation)
  let ?s = "Cancel (sy_sched y) kind i generation"
  have sub: "fmlookup (ds_timers ?s) k = Some st \<Longrightarrow> fmlookup (ds_timers (sy_sched y)) k = Some st" for k st
    by (auto simp: Cancel_def stop_timer_def split: if_splits option.splits)
  show ?case using cancel fewer_slots [OF sub] Cancel_ok [of start "sy_clock y" "sy_sched y"] by (simp add: sched_ok_alt)
next
  case (close y)
  have sub: "fmlookup (ds_timers (close_stop (sy_sched y))) k = Some st \<Longrightarrow> fmlookup (ds_timers (sy_sched y)) k = Some st" for k st
    by (auto simp: close_stop_def split: if_splits)
  show ?case using close fewer_slots [OF sub] close_stop_ok [of start "sy_clock y" "sy_sched y"] by (simp add: sched_ok_alt)
qed

lemma sched_reachable: "sched_step\<^sup>*\<^sup>* (sched_start start) y \<Longrightarrow> sched_ok start y"
proof (induction rule: rtranclp_induct)
  case base
  show ?case by (simp add: sched_ok_def sched_start_def NewDeadlineScheduler_def timers_ok_def pending_def)
qed (rule sched_step_ok)

lemma sched_step_calls:
  assumes "sched_step y y'"
  shows "sy_called y' = sy_called y \<or> (\<exists>task. sy_called y' = sy_called y @ [(sy_clock y, task)] \<and> \<not> ds_closed (sy_sched y) \<and>
    map_option st_task (fmlookup (ds_timers (sy_sched y)) (task_key task)) = Some task)"
  using assms
proof (induction rule: sched_step.induct)
  case (enter y i r s')
  from enter show ?case by (cases rule: timer_enter_cases) auto
qed auto

text \<open>C37. The deadline scheduler: over any run, however scheduling, cancelling, timer callbacks and closing interleave, no task is called
  more often than it was accepted, no call comes before its deadline (or before the longest delay a Go timer can express), and a task is only
  called while the scheduler is open and while it is the last task that was accepted for its kind and identifier.\<close>

theorem deadline_calls_exact:
  assumes "sched_step\<^sup>*\<^sup>* (sched_start start) y"
  shows "(\<forall>task. count_list (map snd (sy_called y)) task \<le> count_list (sy_accepted y) task) \<and>
    (\<forall>n task. (n, task) \<in> set (sy_called y) \<longrightarrow> min (sint (dt_Deadline task) * 1000000) (start + max_int64) \<le> n) \<and>
    (\<forall>y'. sched_step y y' \<longrightarrow> sy_called y' = sy_called y \<or>
       (\<exists>task. sy_called y' = sy_called y @ [(sy_clock y, task)] \<and> \<not> ds_closed (sy_sched y) \<and>
          last (filter (\<lambda>t. task_key t = task_key task) (sy_accepted y)) = task))"
proof -
  have ok: "sched_ok start y" by (rule sched_reachable [OF assms])
  have last: "last (filter (\<lambda>t. task_key t = task_key task) (sy_accepted y)) = task"
    if "map_option st_task (fmlookup (ds_timers (sy_sched y)) (task_key task)) = Some task" for task
    using ok that by (auto simp: sched_ok_alt history_fine_def)
  show ?thesis
  proof (intro conjI allI impI)
    fix task show "count_list (map snd (sy_called y)) task \<le> count_list (sy_accepted y) task"
      using ok by (meson sched_ok_def add_leD1)
  next
    fix n task assume "(n, task) \<in> set (sy_called y)"
    then show "min (sint (dt_Deadline task) * 1000000) (start + max_int64) \<le> n" using ok by (simp add: sched_ok_def earliest_def)
  next
    fix y' assume "sched_step y y'"
    then show "sy_called y' = sy_called y \<or> (\<exists>task. sy_called y' = sy_called y @ [(sy_clock y, task)] \<and> \<not> ds_closed (sy_sched y) \<and>
        last (filter (\<lambda>t. task_key t = task_key task) (sy_accepted y)) = task)"
      using sched_step_calls last by blast
  qed
qed

subsection \<open>Deadlines are not lost\<close>

lemma enter_pending:
  assumes "fmlookup (ds_started s) i = Some task" "\<not> ds_closed s" "map_option st_task (fmlookup (ds_timers s) (task_key task)) = Some task"
  shows "\<exists>s'. timer_enter s i = Some (Some task, s')"
  using assms by (simp add: timer_enter_def Let_def)

text \<open>A deadline is not lost: over any run, a task that holds a slot is called once its time has come, because its callback has started
  and will call it when it enters the lock, or its timer is armed and, from some moment on, firing leads to that call; and tasks of
  different kinds or identifiers never share a slot.\<close>

theorem deadline_not_lost:
  assumes run: "sched_step\<^sup>*\<^sup>* (sched_start start) y" and slot: "fmlookup (ds_timers (sy_sched y)) k = Some st"
  shows "(\<exists>i s'. timer_enter (sy_sched y) i = Some (Some (st_task st), s')) \<or>
    (\<exists>i due. \<forall>now. due \<le> now \<longrightarrow> (\<exists>s1 s2. timer_fires (sy_sched y) i now = Some s1 \<and> timer_enter s1 i = Some (Some (st_task st), s2)))"
proof -
  have "sched_ok start y" by (rule sched_reachable [OF run])
  then have s: "slot_ok (sy_sched y) k st" using slot timers_ok_cases(1) by (simp add: sched_ok_def) blast
  then have mine: "map_option st_task (fmlookup (ds_timers (sy_sched y)) (task_key (st_task st))) = Some (st_task st)" "\<not> ds_closed (sy_sched y)"
    using slot by (auto simp: slot_ok_def)
  from s consider (armed) due where "fmlookup (ds_armed (sy_sched y)) (st_timer st) = Some (due, st_task st)"
    | (started) "fmlookup (ds_started (sy_sched y)) (st_timer st) = Some (st_task st)" unfolding slot_ok_def by blast
  then show ?thesis
  proof cases
    case armed
    have "\<exists>s1 s2. timer_fires (sy_sched y) (st_timer st) now = Some s1 \<and> timer_enter s1 (st_timer st) = Some (Some (st_task st), s2)"
      if "due \<le> now" for now
      using armed that mine enter_pending [of "(sy_sched y)\<lparr>ds_armed := fmdrop (st_timer st) (ds_armed (sy_sched y)),
          ds_started := fmupd (st_timer st) (st_task st) (ds_started (sy_sched y))\<rparr>" "st_timer st" "st_task st"]
      by (simp add: timer_fires_def)
    then show ?thesis by blast
  next
    case started
    then show ?thesis using enter_pending [OF started mine(2,1)] by blast
  qed
qed

subsection \<open>Examples\<close>

definition example_task :: DeadlineTask where
  "example_task = \<lparr>dt_Kind = ''mute'', dt_ID = 4, dt_Generation = 1, dt_Deadline = 2\<rparr>"

definition example_scheduled :: sched_system where
  "example_scheduled = (sched_start 0)\<lparr>sy_sched := snd (Schedule NewDeadlineScheduler example_task 0), sy_accepted := [example_task]\<rparr>"

lemma example_schedule: "Schedule NewDeadlineScheduler example_task 0 = (True, after_func NewDeadlineScheduler 2000000 example_task)"
  by (simp add: Schedule_def example_task_def NewDeadlineScheduler_def task_valid_def task_delay_def time_sub_def max_int64_def min_int64_def)

lemma example_sched_step: "sched_step (sched_start 0) example_scheduled"
  using sched_step.schedule [of "sched_start 0" example_task True "after_func NewDeadlineScheduler 2000000 example_task"]
  by (simp add: example_scheduled_def example_schedule sched_start_def)

definition example_called :: sched_system where
  "example_called = \<lparr>sy_clock = 2000000, sy_sched = NewDeadlineScheduler\<lparr>ds_wg := 1, ds_nextTimer := 1\<rparr>, sy_accepted = [example_task],
     sy_called = [(2000000, example_task)]\<rparr>"

lemma fmdrop_single [simp]: "fmdrop k (fmupd k v fmempty) = fmempty"
  by (intro fmap_ext) simp

lemma example_called_run: "sched_step\<^sup>*\<^sup>* (sched_start 0) example_called"
proof -
  let ?s = "after_func NewDeadlineScheduler 2000000 example_task"
  let ?fired = "?s\<lparr>ds_armed := fmempty, ds_started := fmupd 0 example_task fmempty\<rparr>"
  let ?y = "example_scheduled\<lparr>sy_clock := 2000000\<rparr>"
  have y: "sy_sched ?y = ?s" "sy_clock example_scheduled = 0" by (simp_all add: example_scheduled_def example_schedule sched_start_def)
  have "sched_step example_scheduled ?y" by (rule sched_step.tick) (simp add: y)
  moreover have "sched_step ?y (?y\<lparr>sy_sched := ?fired\<rparr>)"
    by (rule sched_step.fires [of _ 0]) (simp add: y timer_fires_def after_func_def NewDeadlineScheduler_def)
  moreover have "sched_step (?y\<lparr>sy_sched := ?fired\<rparr>) example_called"
    using sched_step.enter [of "?y\<lparr>sy_sched := ?fired\<rparr>" 0 "Some example_task" "NewDeadlineScheduler\<lparr>ds_wg := 1, ds_nextTimer := 1\<rparr>"]
    by (simp add: timer_enter_def after_func_def NewDeadlineScheduler_def Let_def example_called_def example_scheduled_def sched_start_def)
  ultimately show ?thesis using example_sched_step by (meson r_into_rtranclp rtranclp.rtrancl_into_rtrancl)
qed

theorem deadline_calls_exact_witness:
  "sched_step\<^sup>*\<^sup>* (sched_start 0) example_called \<and> (2000000, example_task) \<in> set (sy_called example_called) \<and>
   min (sint (dt_Deadline example_task) * 1000000) (0 + max_int64) \<le> 2000000"
proof -
  have c: "(2000000, example_task) \<in> set (sy_called example_called)" by (simp add: example_called_def)
  then show ?thesis using deadline_calls_exact [OF example_called_run] example_called_run by blast
qed

theorem deadline_not_lost_witness:
  "sched_step\<^sup>*\<^sup>* (sched_start 0) example_scheduled \<and>
   fmlookup (ds_timers (sy_sched example_scheduled)) (task_key example_task) = Some \<lparr>st_task = example_task, st_timer = 0\<rparr> \<and>
   ((\<exists>i s'. timer_enter (sy_sched example_scheduled) i = Some (Some example_task, s')) \<or>
    (\<exists>i due. \<forall>now. due \<le> now \<longrightarrow> (\<exists>s1 s2. timer_fires (sy_sched example_scheduled) i now = Some s1 \<and> timer_enter s1 i = Some (Some example_task, s2))))"
proof -
  have slot: "fmlookup (ds_timers (sy_sched example_scheduled)) (task_key example_task) = Some \<lparr>st_task = example_task, st_timer = 0\<rparr>"
    by (simp add: example_scheduled_def example_schedule) (simp add: after_func_def NewDeadlineScheduler_def)
  have run: "sched_step\<^sup>*\<^sup>* (sched_start 0) example_scheduled" using example_sched_step by (rule r_into_rtranclp)
  show ?thesis using deadline_not_lost [OF run slot] run slot by simp
qed

end
