(* ===== verification/Identity.thy ===== *)
theory Identity
  imports StateStore "HOL-Library.Multiset"
begin

text \<open>
  What makes two commands the same command (\<^verbatim>\<open>internal/realtime/idempotency.go\<close>): the canonical identity of
  an HTTP mutation, of the first activation and of a registration, the digest stored for it, and the
  canonical result that a retry replays.  Parameters, in one record: the re-encoding of a JSON text
  (\<^verbatim>\<open>encoding/json\<close>, \<open>None\<close> where it is not exactly one JSON value), upper case of a text with non-ASCII
  bytes, and HMAC-SHA-256.
\<close>

section \<open>Definitions\<close>

record identity_env =
  ie_json :: "string \<Rightarrow> string option"
  ie_upper :: "string \<Rightarrow> string"
  ie_mac :: "string \<Rightarrow> string \<Rightarrow> bytes"

datatype identity_error = ErrInvalidRequestIdentity | ErrIdempotencyMismatch | ErrInvalidCommandResult

subsection \<open>Grammars\<close>

definition ascii_digit :: "char \<Rightarrow> bool" where "ascii_digit ch = (let n = of_char ch :: nat in 48 \<le> n \<and> n \<le> 57)"
definition ascii_upper :: "char \<Rightarrow> bool" where "ascii_upper ch = (let n = of_char ch :: nat in 65 \<le> n \<and> n \<le> 90)"
definition ascii_lower :: "char \<Rightarrow> bool" where "ascii_lower ch = (let n = of_char ch :: nat in 97 \<le> n \<and> n \<le> 122)"

definition to_upper_char :: "char \<Rightarrow> char" where "to_upper_char ch = (if ascii_lower ch then char_of ((of_char ch :: nat) - 32) else ch)"
definition to_lower_char :: "char \<Rightarrow> char" where "to_lower_char ch = (if ascii_upper ch then char_of ((of_char ch :: nat) + 32) else ch)"

definition ToUpper :: "identity_env \<Rightarrow> string \<Rightarrow> string" where
  "ToUpper env s = (if list_all (\<lambda>ch. (of_char ch :: nat) < 128) s then map to_upper_char s else ie_upper env s)"

definition IdempotencyKeyValid :: "string \<Rightarrow> bool" where
  "IdempotencyKeyValid key =
     (16 \<le> length key \<and> length key \<le> 64 \<and> list_all (\<lambda>ch. ascii_upper ch \<or> ascii_lower ch \<or> ascii_digit ch \<or> ch = CHR ''_'' \<or> ch = CHR ''-'') key)"

definition installationIdentityPattern :: "string \<Rightarrow> bool" where
  "installationIdentityPattern s = (length s = 32 \<and> list_all hex_lower s)"

definition activationCodeHashPattern :: "string \<Rightarrow> bool" where
  "activationCodeHashPattern s = (length s = 64 \<and> list_all hex_lower s)"

definition hasControlCharacters :: "string \<Rightarrow> bool" where
  "hasControlCharacters s = list_ex (\<lambda>ch. ch = CHR 0x0D \<or> ch = CHR 0x0A) s"

text \<open>\<^verbatim>\<open>hex.DecodeString\<close>, either case.\<close>

definition hex_value :: "char \<Rightarrow> nat option" where
  "hex_value ch = (let n = of_char ch :: nat
     in if 48 \<le> n \<and> n \<le> 57 then Some (n - 48) else if 97 \<le> n \<and> n \<le> 102 then Some (n - 87) else if 65 \<le> n \<and> n \<le> 70 then Some (n - 55) else None)"

fun decode_hex :: "string \<Rightarrow> bytes option" where
  "decode_hex [] = Some []"
| "decode_hex [_] = None"
| "decode_hex (a # b # s) =
     (case (hex_value a, hex_value b, decode_hex s) of
        (Some x, Some y, Some rest) \<Rightarrow> Some (of_nat (16 * x + y) # rest) | _ \<Rightarrow> None)"

definition equalHexDigest :: "string \<Rightarrow> string \<Rightarrow> bool" where
  "equalHexDigest left right = (decode_hex left \<noteq> None \<and> decode_hex right \<noteq> None \<and> decode_hex left = decode_hex right)"

definition validRequestHMAC :: "string \<Rightarrow> bool" where
  "validRequestHMAC value = (length value = 64 \<and> equalHexDigest value value)"

subsection \<open>Identities\<close>

record CanonicalField =
  cf_Name :: string
  cf_Value :: string

record HTTPCommandIdentity =
  hi_PrincipalID :: int64
  hi_Method :: string
  hi_RouteTemplate :: string
  hi_PathIDs :: "CanonicalField list"
  hi_CanonicalDTO :: string
  hi_PreconditionHeaders :: "CanonicalField list"
  hi_ControlConnectionID :: string

record InstallationCommandIdentity =
  ii_InstallationID :: string
  ii_ActivationCodeHash :: string
  ii_Method :: string
  ii_RouteTemplate :: string
  ii_CanonicalDTO :: string

record RegistrationCommandIdentity =
  ri_InstallationID :: string
  ri_Method :: string
  ri_RouteTemplate :: string
  ri_CanonicalDTO :: string

definition canonicalJSONValue :: "identity_env \<Rightarrow> string \<Rightarrow> string option" where
  "canonicalJSONValue env raw = (if raw = [] then None else ie_json env raw)"

fun no_repeated_name :: "CanonicalField list \<Rightarrow> bool" where
  "no_repeated_name (a # b # fs) = (cf_Name a \<noteq> cf_Name b \<and> no_repeated_name (b # fs))"
| "no_repeated_name _ = True"

definition field_key :: "CanonicalField \<Rightarrow> string list" where
  "field_key f = [cf_Name f, cf_Value f]"

definition canonicalFields :: "CanonicalField list \<Rightarrow> (identity_error, CanonicalField list) outcome" where
  "canonicalFields fieldList =
     (if list_ex (\<lambda>f. cf_Name f = '''' \<or> hasControlCharacters (cf_Name f) \<or> hasControlCharacters (cf_Value f)) fieldList then Fail ErrInvalidRequestIdentity
      else let cloned = sort_by field_key fieldList in if no_repeated_name cloned then Return cloned else Fail ErrInvalidRequestIdentity)"

definition header_char :: "char \<Rightarrow> bool" where
  "header_char ch = (ascii_lower ch \<or> ascii_upper ch \<or> ascii_digit ch \<or> ch \<in> set (''!#$%&'' @ [CHR 0x27] @ ''*+-.^_'' @ [CHR 0x60] @ ''|~''))"

definition validHTTPHeaderName :: "string \<Rightarrow> bool" where
  "validHTTPHeaderName name = (name \<noteq> '''' \<and> list_all header_char name)"

text \<open>\<^verbatim>\<open>textproto.CanonicalMIMEHeaderKey\<close> of a valid name: a letter that starts the name or follows a hyphen is upper case, every other lower case.\<close>

fun mime_key :: "bool \<Rightarrow> string \<Rightarrow> string" where
  "mime_key up [] = []"
| "mime_key up (ch # s) = (if up then to_upper_char ch else to_lower_char ch) # mime_key (ch = CHR ''-'') s"

definition CanonicalMIMEHeaderKey :: "string \<Rightarrow> string" where
  "CanonicalMIMEHeaderKey name = mime_key True name"

definition canonicalPreconditionHeaders :: "CanonicalField list \<Rightarrow> (identity_error, CanonicalField list) outcome" where
  "canonicalPreconditionHeaders headers =
     (if list_ex (\<lambda>f. \<not> validHTTPHeaderName (cf_Name f)) headers then Fail ErrInvalidRequestIdentity
      else canonicalFields (map (\<lambda>f. f\<lparr>cf_Name := CanonicalMIMEHeaderKey (cf_Name f)\<rparr>) headers))"

definition appendIdentityPart :: "string \<Rightarrow> string \<Rightarrow> string" where
  "appendIdentityPart name value =
     decimal (length name) @ '':'' @ name @ ''='' @ decimal (length value) @ '':'' @ value @ [CHR 0x0A]"

definition route_invalid :: "identity_env \<Rightarrow> string \<Rightarrow> string \<Rightarrow> bool" where
  "route_invalid env method route =
     (method = '''' \<or> method \<noteq> ToUpper env method \<or> route = '''' \<or> length route > 256 \<or> hasControlCharacters route)"

definition canonicalHTTPCommandIdentity :: "identity_env \<Rightarrow> HTTPCommandIdentity \<Rightarrow> (identity_error, string) outcome" where
  "canonicalHTTPCommandIdentity env identity =
     (if sint (hi_PrincipalID identity) \<le> 0 \<or> route_invalid env (hi_Method identity) (hi_RouteTemplate identity) \<or>
         hasControlCharacters (hi_ControlConnectionID identity) then Fail ErrInvalidRequestIdentity
      else case canonicalJSONValue env (hi_CanonicalDTO identity) of None \<Rightarrow> Fail ErrInvalidRequestIdentity
        | Some dto \<Rightarrow>
            outcome_bind (canonicalFields (hi_PathIDs identity)) (\<lambda>pathIDs.
            outcome_bind (canonicalPreconditionHeaders (hi_PreconditionHeaders identity)) (\<lambda>preconditions.
              Return (appendIdentityPart ''principal'' (FormatInt (hi_PrincipalID identity)) @
                appendIdentityPart ''method'' (hi_Method identity) @
                appendIdentityPart ''route'' (hi_RouteTemplate identity) @
                concat (map (\<lambda>f. appendIdentityPart (''path:'' @ cf_Name f) (cf_Value f)) pathIDs) @
                appendIdentityPart ''dto'' dto @
                concat (map (\<lambda>f. appendIdentityPart (''precondition:'' @ cf_Name f) (cf_Value f)) preconditions) @
                appendIdentityPart ''control_connection'' (hi_ControlConnectionID identity)))))"

definition canonicalInstallationCommandIdentity :: "identity_env \<Rightarrow> InstallationCommandIdentity \<Rightarrow> (identity_error, string) outcome" where
  "canonicalInstallationCommandIdentity env identity =
     (if \<not> installationIdentityPattern (ii_InstallationID identity) \<or> \<not> activationCodeHashPattern (ii_ActivationCodeHash identity) \<or>
         route_invalid env (ii_Method identity) (ii_RouteTemplate identity) then Fail ErrInvalidRequestIdentity
      else case canonicalJSONValue env (ii_CanonicalDTO identity) of None \<Rightarrow> Fail ErrInvalidRequestIdentity
        | Some dto \<Rightarrow>
            Return (appendIdentityPart ''installation'' (ii_InstallationID identity) @
              appendIdentityPart ''activation_code_hash'' (ii_ActivationCodeHash identity) @
              appendIdentityPart ''method'' (ii_Method identity) @
              appendIdentityPart ''route'' (ii_RouteTemplate identity) @
              appendIdentityPart ''dto'' dto))"

definition canonicalRegistrationCommandIdentity :: "identity_env \<Rightarrow> RegistrationCommandIdentity \<Rightarrow> (identity_error, string) outcome" where
  "canonicalRegistrationCommandIdentity env identity =
     (if \<not> installationIdentityPattern (ri_InstallationID identity) \<or> route_invalid env (ri_Method identity) (ri_RouteTemplate identity)
      then Fail ErrInvalidRequestIdentity
      else case canonicalJSONValue env (ri_CanonicalDTO identity) of None \<Rightarrow> Fail ErrInvalidRequestIdentity
        | Some dto \<Rightarrow>
            Return (appendIdentityPart ''installation'' (ri_InstallationID identity) @
              appendIdentityPart ''method'' (ri_Method identity) @
              appendIdentityPart ''route'' (ri_RouteTemplate identity) @
              appendIdentityPart ''dto'' dto))"

subsection \<open>Digests\<close>

record RequestIdentitySigner =
  rs_key :: string

definition NewRequestIdentitySigner :: "string \<Rightarrow> (identity_error, RequestIdentitySigner) outcome" where
  "NewRequestIdentitySigner key = (if length key < 32 then Fail ErrInvalidRequestIdentity else Return \<lparr>rs_key = key\<rparr>)"

definition sum_of :: "identity_env \<Rightarrow> RequestIdentitySigner \<Rightarrow> (identity_error, string) outcome \<Rightarrow> (identity_error, string) outcome" where
  "sum_of env s canonical =
     (if length (rs_key s) < 32 then Fail ErrInvalidRequestIdentity
      else outcome_bind canonical (\<lambda>c. Return (hex_string (ie_mac env (rs_key s) c))))"

definition Sum :: "identity_env \<Rightarrow> RequestIdentitySigner \<Rightarrow> HTTPCommandIdentity \<Rightarrow> (identity_error, string) outcome" where
  "Sum env s identity = sum_of env s (canonicalHTTPCommandIdentity env identity)"

definition SumInstallation :: "identity_env \<Rightarrow> RequestIdentitySigner \<Rightarrow> InstallationCommandIdentity \<Rightarrow> (identity_error, string) outcome" where
  "SumInstallation env s identity = sum_of env s (canonicalInstallationCommandIdentity env identity)"

definition SumRegistration :: "identity_env \<Rightarrow> RequestIdentitySigner \<Rightarrow> RegistrationCommandIdentity \<Rightarrow> (identity_error, string) outcome" where
  "SumRegistration env s identity = sum_of env s (canonicalRegistrationCommandIdentity env identity)"

definition commandEndpoint :: "HTTPCommandIdentity \<Rightarrow> string" where
  "commandEndpoint identity = hi_Method identity @ '' '' @ hi_RouteTemplate identity"

subsection \<open>Results\<close>

record IdempotencyHeaders =
  ih_ETag :: string
  ih_ParentETag :: string
  ih_Location :: string
  ih_CacheControl :: string
  ih_Pragma :: string

record CanonicalCommandResult =
  rr_CommandID :: int64
  rr_Status :: int
  rr_Body :: string
  rr_Headers :: IdempotencyHeaders
  rr_Checkpoint :: Checkpoint
  rr_StateCursor :: string

definition invalidResourceHeaders :: "IdempotencyHeaders \<Rightarrow> bool" where
  "invalidResourceHeaders h =
     (hasControlCharacters (ih_ETag h) \<or> hasControlCharacters (ih_ParentETag h) \<or> hasControlCharacters (ih_Location h) \<or>
      hasControlCharacters (ih_CacheControl h) \<or> hasControlCharacters (ih_Pragma h))"

definition canonical_body :: "identity_env \<Rightarrow> int \<Rightarrow> string \<Rightarrow> string option" where
  "canonical_body env status body = canonicalJSONValue env (if status = 204 \<and> body = [] then ''null'' else body)"

definition canonicalizeCommandResult :: "identity_env \<Rightarrow> CanonicalCommandResult \<Rightarrow> (identity_error, CanonicalCommandResult) outcome" where
  "canonicalizeCommandResult env r =
     (if sint (rr_CommandID r) \<le> 0 \<or> rr_Status r < 100 \<or> rr_Status r > 599 \<or> validateStreamEpoch (cp_StreamEpoch (rr_Checkpoint r)) \<noteq> Return () \<or>
         rr_StateCursor r = '''' \<or> invalidResourceHeaders (rr_Headers r) then Fail ErrInvalidCommandResult
      else case canonical_body env (rr_Status r) (rr_Body r) of None \<Rightarrow> Fail ErrInvalidCommandResult
        | Some body \<Rightarrow> Return (r\<lparr>rr_Body := body\<rparr>))"

definition canonicalizeActivationCommandResult :: "identity_env \<Rightarrow> CanonicalCommandResult \<Rightarrow> (identity_error, CanonicalCommandResult) outcome" where
  "canonicalizeActivationCommandResult env r =
     (if sint (rr_CommandID r) \<le> 0 \<or> rr_Status r < 100 \<or> rr_Status r > 599 \<or> invalidResourceHeaders (rr_Headers r) then Fail ErrInvalidCommandResult
      else if cp_StreamEpoch (rr_Checkpoint r) \<noteq> '''' \<and> (validateStreamEpoch (cp_StreamEpoch (rr_Checkpoint r)) \<noteq> Return () \<or> rr_StateCursor r = '''')
      then Fail ErrInvalidCommandResult
      else if cp_StreamEpoch (rr_Checkpoint r) = '''' \<and> rr_StateCursor r \<noteq> '''' then Fail ErrInvalidCommandResult
      else case canonical_body env (rr_Status r) (rr_Body r) of None \<Rightarrow> Fail ErrInvalidCommandResult
        | Some body \<Rightarrow> Return (r\<lparr>rr_Body := body\<rparr>))"

section \<open>Theorems\<close>

subsection \<open>Length-prefixed parts are unambiguous\<close>

lemma decimal_no_colon: "CHR '':'' \<notin> set (decimal n)"
  using decimal_digits [of "CHR '':''" n] sign_no_digit(3) by blast

lemma prefix_colon:
  assumes "decimal m @ CHR '':'' # r = decimal n @ CHR '':'' # r'"
  shows "m = n \<and> r = r'"
proof -
  have "takeWhile (\<lambda>ch. ch \<noteq> CHR '':'') (decimal k @ CHR '':'' # s) = decimal k" for k s
    by (rule takeWhile_split [OF decimal_no_colon])
  then have "decimal m = decimal n" using assms by metis
  then show ?thesis using assms decimal_inj by auto
qed

lemma part_inj:
  assumes "appendIdentityPart n v @ r = appendIdentityPart n' v' @ r'"
  shows "n = n' \<and> v = v' \<and> r = r'"
proof -
  have "length n = length n' \<and> n @ CHR ''='' # decimal (length v) @ CHR '':'' # v @ CHR 0x0A # r = n' @ CHR ''='' # decimal (length v') @ CHR '':'' # v' @ CHR 0x0A # r'"
    using assms by (intro prefix_colon) (simp add: appendIdentityPart_def)
  then have n: "n = n'" and "decimal (length v) @ CHR '':'' # v @ CHR 0x0A # r = decimal (length v') @ CHR '':'' # v' @ CHR 0x0A # r'" by auto
  then have "length v = length v' \<and> v @ CHR 0x0A # r = v' @ CHR 0x0A # r'" by (intro prefix_colon) simp
  then show ?thesis using n by auto
qed

definition encode_parts :: "(string \<times> string) list \<Rightarrow> string" where
  "encode_parts ps = concat (map (\<lambda>(n, v). appendIdentityPart n v) ps)"

lemma encode_parts_simps [simp]:
  "encode_parts [] = []" "encode_parts (p # ps) = appendIdentityPart (fst p) (snd p) @ encode_parts ps" "encode_parts (ps @ qs) = encode_parts ps @ encode_parts qs"
  by (simp_all add: encode_parts_def case_prod_beta)

lemma part_nonempty [simp]: "appendIdentityPart n v \<noteq> []"
  by (simp add: appendIdentityPart_def)

lemma encode_parts_inj: "encode_parts ps = encode_parts qs \<Longrightarrow> ps = qs"
proof (induction ps arbitrary: qs)
  case Nil
  then show ?case by (cases qs) auto
next
  case (Cons p ps)
  then obtain q qs' where q: "qs = q # qs'" by (cases qs) auto
  with Cons.prems have "fst p = fst q \<and> snd p = snd q \<and> encode_parts ps = encode_parts qs'" by (intro part_inj) simp
  then show ?case using Cons.IH q by (simp add: prod_eq_iff)
qed

definition field_parts :: "string \<Rightarrow> CanonicalField list \<Rightarrow> (string \<times> string) list" where
  "field_parts prefix fs = map (\<lambda>f. (prefix @ cf_Name f, cf_Value f)) fs"

lemma field_parts_inj: "field_parts prefix fs = field_parts prefix gs \<Longrightarrow> fs = gs"
  unfolding field_parts_def by (induction fs arbitrary: gs) (auto simp: map_eq_Cons_conv)

lemma encode_field_parts: "concat (map (\<lambda>f. appendIdentityPart (prefix @ cf_Name f) (cf_Value f)) fs) = encode_parts (field_parts prefix fs)"
  by (induction fs) (auto simp: field_parts_def)

text \<open>The path fields are the longest run of parts whose name starts with \<^verbatim>\<open>path:\<close>, because \<^verbatim>\<open>dto\<close> does not.\<close>

definition http_parts :: "HTTPCommandIdentity \<Rightarrow> string \<Rightarrow> CanonicalField list \<Rightarrow> CanonicalField list \<Rightarrow> (string \<times> string) list" where
  "http_parts i dto pathIDs preconditions =
     [(''principal'', FormatInt (hi_PrincipalID i)), (''method'', hi_Method i), (''route'', hi_RouteTemplate i)] @
     field_parts ''path:'' pathIDs @ [(''dto'', dto)] @ field_parts ''precondition:'' preconditions @ [(''control_connection'', hi_ControlConnectionID i)]"

lemma takeWhile_path: "takeWhile (\<lambda>p. take 5 (fst p) = ''path:'') (field_parts ''path:'' fs @ (''dto'', dto) # rest) = field_parts ''path:'' fs"
  by (induction fs) (auto simp: field_parts_def)

lemma http_parts_inj:
  assumes "http_parts i dto ps qs = http_parts j dto' ps' qs'"
  shows "hi_PrincipalID i = hi_PrincipalID j" "hi_Method i = hi_Method j" "hi_RouteTemplate i = hi_RouteTemplate j" "ps = ps'" "dto = dto'" "qs = qs'"
    "hi_ControlConnectionID i = hi_ControlConnectionID j"
proof -
  let ?tail = "\<lambda>i qs. field_parts ''precondition:'' qs @ [(''control_connection'', hi_ControlConnectionID i)]"
  have eq: "field_parts ''path:'' ps @ (''dto'', dto) # ?tail i qs = field_parts ''path:'' ps' @ (''dto'', dto') # ?tail j qs'"
    and h: "FormatInt (hi_PrincipalID i) = FormatInt (hi_PrincipalID j)" "hi_Method i = hi_Method j" "hi_RouteTemplate i = hi_RouteTemplate j"
    using assms by (simp_all add: http_parts_def)
  from eq have p: "field_parts ''path:'' ps = field_parts ''path:'' ps'" by (metis takeWhile_path)
  with eq have rest: "dto = dto'" "?tail i qs = ?tail j qs'" by simp_all
  show "hi_PrincipalID i = hi_PrincipalID j" by (rule FormatInt_inj [OF h(1)])
  show "hi_Method i = hi_Method j" "hi_RouteTemplate i = hi_RouteTemplate j" by (rule h)+
  show "ps = ps'" by (rule field_parts_inj [OF p])
  show "dto = dto'" by (rule rest)
  show "qs = qs'" using rest(2) field_parts_inj [of "''precondition:''" qs qs'] by simp
  show "hi_ControlConnectionID i = hi_ControlConnectionID j" using rest(2) by simp
qed

subsection \<open>Fields\<close>

lemma field_key_inj: "inj field_key"
  by (rule injI) (simp add: field_key_def)

lemma canonicalFields_mset:
  assumes "mset xs = mset ys"
  shows "canonicalFields xs = canonicalFields ys"
proof -
  have "set xs = set ys" using assms by (metis set_mset_mset)
  moreover have "sort_by field_key xs = sort_by field_key ys"
    unfolding sort_by_def by (rule sort_key_inj_key_eq) (use assms field_key_inj in \<open>auto intro: inj_on_subset\<close>)
  ultimately show ?thesis unfolding canonicalFields_def by (simp add: list_ex_iff)
qed

lemma canonicalFields_Return: "canonicalFields xs = Return ys \<Longrightarrow> ys = sort_by field_key xs"
  by (simp add: canonicalFields_def Let_def split: if_splits)

lemma canonicalFields_eq:
  assumes "canonicalFields xs = Return ys"
  shows "canonicalFields xs' = Return ys \<longleftrightarrow> mset xs' = mset xs"
  using canonicalFields_Return [OF assms] canonicalFields_Return [of xs' ys] canonicalFields_mset [of xs' xs] assms
  by (metis mset_sort sort_by_def)

text \<open>The same command: the parts agree, the body up to its JSON encoding, fields in any order, header names in any case.\<close>

definition named_headers :: "CanonicalField list \<Rightarrow> CanonicalField list" where
  "named_headers hs = map (\<lambda>f. f\<lparr>cf_Name := CanonicalMIMEHeaderKey (cf_Name f)\<rparr>) hs"

definition same_command :: "identity_env \<Rightarrow> HTTPCommandIdentity \<Rightarrow> HTTPCommandIdentity \<Rightarrow> bool" where
  "same_command env a b \<longleftrightarrow>
     hi_PrincipalID a = hi_PrincipalID b \<and> hi_Method a = hi_Method b \<and> hi_RouteTemplate a = hi_RouteTemplate b \<and>
     mset (hi_PathIDs a) = mset (hi_PathIDs b) \<and> canonicalJSONValue env (hi_CanonicalDTO a) = canonicalJSONValue env (hi_CanonicalDTO b) \<and>
     list_all (\<lambda>f. validHTTPHeaderName (cf_Name f)) (hi_PreconditionHeaders b) \<and>
     mset (named_headers (hi_PreconditionHeaders a)) = mset (named_headers (hi_PreconditionHeaders b)) \<and>
     hi_ControlConnectionID a = hi_ControlConnectionID b"

lemma encode_http:
  "encode_parts (http_parts i dto ps qs) =
     appendIdentityPart ''principal'' (FormatInt (hi_PrincipalID i)) @ appendIdentityPart ''method'' (hi_Method i) @
     appendIdentityPart ''route'' (hi_RouteTemplate i) @ concat (map (\<lambda>f. appendIdentityPart (''path:'' @ cf_Name f) (cf_Value f)) ps) @
     appendIdentityPart ''dto'' dto @ concat (map (\<lambda>f. appendIdentityPart (''precondition:'' @ cf_Name f) (cf_Value f)) qs) @
     appendIdentityPart ''control_connection'' (hi_ControlConnectionID i)"
  unfolding encode_field_parts by (simp add: http_parts_def)

lemma canonicalHTTP_Return:
  assumes "canonicalHTTPCommandIdentity env i = Return c"
  obtains dto ps qs where "canonicalJSONValue env (hi_CanonicalDTO i) = Some dto" "canonicalFields (hi_PathIDs i) = Return ps"
    "canonicalPreconditionHeaders (hi_PreconditionHeaders i) = Return qs" "c = encode_parts (http_parts i dto ps qs)"
  using assms unfolding canonicalHTTPCommandIdentity_def encode_http
  by (auto simp: outcome_bind_def split: if_splits option.splits outcome.splits)

lemma precondition_Return:
  "canonicalPreconditionHeaders hs = Return qs \<longleftrightarrow> list_all (\<lambda>f. validHTTPHeaderName (cf_Name f)) hs \<and> canonicalFields (named_headers hs) = Return qs"
  by (auto simp: canonicalPreconditionHeaders_def named_headers_def list_ex_iff list_all_iff)

lemma canonicalHTTP_same:
  assumes a: "canonicalHTTPCommandIdentity env a = Return c" and same: "same_command env a b"
  shows "canonicalHTTPCommandIdentity env b = Return c"
proof -
  obtain dto ps qs where p: "canonicalJSONValue env (hi_CanonicalDTO a) = Some dto" "canonicalFields (hi_PathIDs a) = Return ps"
    "canonicalPreconditionHeaders (hi_PreconditionHeaders a) = Return qs" by (rule canonicalHTTP_Return [OF a])
  have "canonicalFields (hi_PathIDs b) = Return ps" using p(2) canonicalFields_mset [of "hi_PathIDs a" "hi_PathIDs b"] same by (simp add: same_command_def)
  moreover have "canonicalPreconditionHeaders (hi_PreconditionHeaders b) = Return qs"
    using p(3) same canonicalFields_mset [of "named_headers (hi_PreconditionHeaders a)" "named_headers (hi_PreconditionHeaders b)"]
    unfolding precondition_Return same_command_def by metis
  moreover have "canonicalJSONValue env (hi_CanonicalDTO b) = Some dto" "hi_PrincipalID b = hi_PrincipalID a" "hi_Method b = hi_Method a"
      "hi_RouteTemplate b = hi_RouteTemplate a" "hi_ControlConnectionID b = hi_ControlConnectionID a"
    using same p(1) by (simp_all add: same_command_def)
  ultimately show ?thesis using a p unfolding canonicalHTTPCommandIdentity_def by (simp split: if_splits)
qed

lemma canonicalHTTP_inj:
  assumes a: "canonicalHTTPCommandIdentity env a = Return c" and b: "canonicalHTTPCommandIdentity env b = Return c"
  shows "same_command env a b"
proof -
  obtain dto ps qs where p: "canonicalJSONValue env (hi_CanonicalDTO a) = Some dto" "canonicalFields (hi_PathIDs a) = Return ps"
    "canonicalPreconditionHeaders (hi_PreconditionHeaders a) = Return qs" and c: "c = encode_parts (http_parts a dto ps qs)" by (rule canonicalHTTP_Return [OF a])
  obtain dto' ps' qs' where p': "canonicalJSONValue env (hi_CanonicalDTO b) = Some dto'" "canonicalFields (hi_PathIDs b) = Return ps'"
    "canonicalPreconditionHeaders (hi_PreconditionHeaders b) = Return qs'" and c': "c = encode_parts (http_parts b dto' ps' qs')" by (rule canonicalHTTP_Return [OF b])
  have "http_parts a dto ps qs = http_parts b dto' ps' qs'" using c c' encode_parts_inj by blast
  note e = http_parts_inj [OF this]
  have "mset (hi_PathIDs a) = mset (hi_PathIDs b)" using p(2) p'(2) e(4) canonicalFields_eq by metis
  moreover have "mset (named_headers (hi_PreconditionHeaders a)) = mset (named_headers (hi_PreconditionHeaders b))"
      "list_all (\<lambda>f. validHTTPHeaderName (cf_Name f)) (hi_PreconditionHeaders b)"
    using p(3) p'(3) e(6) canonicalFields_eq unfolding precondition_Return by metis+
  ultimately show ?thesis using e(1-3,5,7) p(1) p'(1) by (simp add: same_command_def)
qed

lemma canonicalInstallation_Return:
  assumes "canonicalInstallationCommandIdentity env i = Return c"
  obtains dto where "canonicalJSONValue env (ii_CanonicalDTO i) = Some dto"
    "c = encode_parts [(''installation'', ii_InstallationID i), (''activation_code_hash'', ii_ActivationCodeHash i), (''method'', ii_Method i),
       (''route'', ii_RouteTemplate i), (''dto'', dto)]"
  using assms unfolding canonicalInstallationCommandIdentity_def by (auto split: if_splits option.splits)

lemma canonicalRegistration_Return:
  assumes "canonicalRegistrationCommandIdentity env i = Return c"
  obtains dto where "canonicalJSONValue env (ri_CanonicalDTO i) = Some dto"
    "c = encode_parts [(''installation'', ri_InstallationID i), (''method'', ri_Method i), (''route'', ri_RouteTemplate i), (''dto'', dto)]"
  using assms unfolding canonicalRegistrationCommandIdentity_def by (auto split: if_splits option.splits)

lemma namespaces_differ:
  "canonicalHTTPCommandIdentity env a = Return c \<Longrightarrow> canonicalInstallationCommandIdentity env i \<noteq> Return c"
  "canonicalHTTPCommandIdentity env a = Return c \<Longrightarrow> canonicalRegistrationCommandIdentity env r \<noteq> Return c"
  "canonicalInstallationCommandIdentity env i = Return c \<Longrightarrow> canonicalRegistrationCommandIdentity env r \<noteq> Return c"
  by (auto elim!: canonicalHTTP_Return canonicalInstallation_Return canonicalRegistration_Return simp del: encode_parts_simps
      dest!: encode_parts_inj simp: http_parts_def)

text \<open>C38. The canonical identity is unambiguous: for a command with a valid identity, another command has the same canonical bytes exactly when
  it has the same principal, method, route, control connection, path fields and preconditions (in any order, header names in any case) and a
  body with the same JSON encoding; and the identities of activation and registration are never those of another kind of command.\<close>

theorem identity_unambiguous:
  assumes "canonicalHTTPCommandIdentity env a = Return c"
  shows "(canonicalHTTPCommandIdentity env b = Return c \<longleftrightarrow> same_command env a b) \<and>
    canonicalInstallationCommandIdentity env i \<noteq> Return c \<and> canonicalRegistrationCommandIdentity env r \<noteq> Return c"
  using assms canonicalHTTP_same canonicalHTTP_inj namespaces_differ(1,2) by blast

definition example_env :: identity_env where
  "example_env = \<lparr>ie_json = (\<lambda>s. if s = ''{ }'' then Some ''{}'' else Some s), ie_upper = (\<lambda>s. s), ie_mac = (\<lambda>k m. [of_nat (length m)])\<rparr>"

definition example_identity :: HTTPCommandIdentity where
  "example_identity = \<lparr>hi_PrincipalID = 7, hi_Method = ''PUT'', hi_RouteTemplate = ''/x'', hi_PathIDs = [\<lparr>cf_Name = ''id'', cf_Value = ''3''\<rparr>],
     hi_CanonicalDTO = ''{}'', hi_PreconditionHeaders = [\<lparr>cf_Name = ''if-match'', cf_Value = ''v''\<rparr>], hi_ControlConnectionID = ''''\<rparr>"

definition example_retry :: HTTPCommandIdentity where
  "example_retry = example_identity\<lparr>hi_CanonicalDTO := ''{ }'', hi_PreconditionHeaders := [\<lparr>cf_Name = ''If-Match'', cf_Value = ''v''\<rparr>]\<rparr>"

lemma example_mime: "CanonicalMIMEHeaderKey ''if-match'' = ''If-Match''" "CanonicalMIMEHeaderKey ''If-Match'' = ''If-Match''"
  by code_simp+

lemma example_canonical: "\<exists>c. canonicalHTTPCommandIdentity example_env example_identity = Return c"
  by (simp add: canonicalHTTPCommandIdentity_def example_identity_def example_env_def route_invalid_def ToUpper_def to_upper_char_def ascii_lower_def
      hasControlCharacters_def canonicalJSONValue_def canonicalFields_def canonicalPreconditionHeaders_def validHTTPHeaderName_def header_char_def
      sort_by_def outcome_bind_def example_mime)

theorem identity_unambiguous_witness:
  "\<exists>c. canonicalHTTPCommandIdentity example_env example_identity = Return c \<and>
     canonicalHTTPCommandIdentity example_env example_retry = Return c \<and>
     canonicalHTTPCommandIdentity example_env (example_identity\<lparr>hi_PrincipalID := 8\<rparr>) \<noteq> Return c"
proof -
  obtain c where c: "canonicalHTTPCommandIdentity example_env example_identity = Return c" using example_canonical by blast
  have "same_command example_env example_identity example_retry"
    by (simp add: same_command_def example_retry_def example_identity_def example_env_def canonicalJSONValue_def validHTTPHeaderName_def header_char_def
        ascii_lower_def ascii_upper_def ascii_digit_def named_headers_def example_mime)
  moreover have "\<not> same_command example_env example_identity (example_identity\<lparr>hi_PrincipalID := 8\<rparr>)"
    by (simp add: same_command_def example_identity_def)
  ultimately show ?thesis using identity_unambiguous [OF c] c by blast
qed

end
