(* ===== verification/RuntimeIdem.thy ===== *)
theory RuntimeIdem
  imports Identity
begin

text \<open>
  The in-process retry cache (\<^verbatim>\<open>internal/realtime/runtime_idempotency.go\<close>).  Entries are pointers in the code,
  so they are references into a heap here: a claim keeps its reference after the slot is gone, and a
  slot may later hold another entry.  \<^verbatim>\<open>done\<close> is a channel that is closed once.  Every method holds the
  cache mutex and is one step; the clock reading is an argument.  The opaque value of a result is a number.
\<close>

section \<open>Definitions\<close>

datatype runtime_error = RIdentity identity_error | ErrRuntimeIdempotencyFull | ErrRuntimeIdempotencyAborted | ErrRuntimeIdempotencyOwner | RContext

definition RuntimeIdempotencyTTL :: duration where "RuntimeIdempotencyTTL = 2 * 60 * 1000000000"
definition MaxRuntimeIdempotencyRecords :: int where "MaxRuntimeIdempotencyRecords = 65536"
definition MaxRuntimeIdempotencyRecordsPerUser :: int where "MaxRuntimeIdempotencyRecordsPerUser = 128"

record RuntimeCommandResult =
  ru_Result :: CanonicalCommandResult
  ru_Value :: nat

record runtimeIdempotencyEntry =
  re_requestHMAC :: string
  re_done :: bool
  re_completed :: bool
  re_aborted :: bool
  re_expiresAt :: gotime
  re_result :: "RuntimeCommandResult option"

type_synonym runtimeIdempotencyKey = "int64 \<times> string"

record RuntimeIdempotencyCache =
  ric_entries :: "(runtimeIdempotencyKey, nat) fmap"
  ric_heap :: "(nat, runtimeIdempotencyEntry) fmap"
  ric_next :: nat
  ric_byUser :: "(int64, int) fmap"
  ric_order :: "runtimeIdempotencyKey list"
  ric_ttl :: duration
  ric_maxTotal :: int
  ric_maxUser :: int
  ric_nextExpiry :: "gotime option"

record RuntimeIdempotencyClaim =
  rcl_key :: runtimeIdempotencyKey
  rcl_entry :: nat
  rcl_owner :: bool

definition newRuntimeIdempotencyCache :: "duration \<Rightarrow> int \<Rightarrow> int \<Rightarrow> RuntimeIdempotencyCache" where
  "newRuntimeIdempotencyCache ttl maxTotal maxUser =
     \<lparr>ric_entries = fmempty, ric_heap = fmempty, ric_next = 0, ric_byUser = fmempty, ric_order = [], ric_ttl = ttl, ric_maxTotal = maxTotal,
      ric_maxUser = maxUser, ric_nextExpiry = None\<rparr>"

definition NewRuntimeIdempotencyCache :: RuntimeIdempotencyCache where
  "NewRuntimeIdempotencyCache = newRuntimeIdempotencyCache RuntimeIdempotencyTTL MaxRuntimeIdempotencyRecords MaxRuntimeIdempotencyRecordsPerUser"

definition user_count :: "RuntimeIdempotencyCache \<Rightarrow> int64 \<Rightarrow> int" where
  "user_count c u = (case fmlookup (ric_byUser c) u of None \<Rightarrow> 0 | Some n \<Rightarrow> n)"

definition cacheRemoveLocked :: "RuntimeIdempotencyCache \<Rightarrow> runtimeIdempotencyKey \<Rightarrow> nat \<Rightarrow> RuntimeIdempotencyCache" where
  "cacheRemoveLocked c key e =
     (if fmlookup (ric_entries c) key \<noteq> Some e then c
      else c\<lparr>ric_entries := fmdrop key (ric_entries c), ric_order := remove1 key (ric_order c),
             ric_byUser := (if user_count c (fst key) - 1 = 0 then fmdrop (fst key) (ric_byUser c) else fmupd (fst key) (user_count c (fst key) - 1) (ric_byUser c))\<rparr>)"

definition earlier :: "gotime \<Rightarrow> gotime option \<Rightarrow> gotime option" where
  "earlier t deadline = (case deadline of None \<Rightarrow> Some t | Some n \<Rightarrow> if t < n then Some t else Some n)"

text \<open>The loop of \<^verbatim>\<open>cachePruneLocked\<close> over the order list; a key without an entry would be a nil dereference.\<close>

fun prune_loop :: "gotime \<Rightarrow> runtimeIdempotencyKey list \<Rightarrow> nat \<Rightarrow> gotime option \<Rightarrow> RuntimeIdempotencyCache
    \<Rightarrow> (runtime_error, nat \<times> gotime option \<times> RuntimeIdempotencyCache) outcome" where
  "prune_loop now [] removed deadline c = Return (removed, deadline, c)"
| "prune_loop now (key # keys) removed deadline c =
     (case fmlookup (ric_entries c) key of None \<Rightarrow> Panic
      | Some e \<Rightarrow>
          (case fmlookup (ric_heap c) e of None \<Rightarrow> Panic
           | Some x \<Rightarrow>
               if re_completed x \<and> \<not> now < re_expiresAt x then prune_loop now keys (Suc removed) deadline (cacheRemoveLocked c key e)
               else prune_loop now keys removed (if re_completed x then earlier (re_expiresAt x) deadline else deadline) c))"

definition cachePruneLocked :: "RuntimeIdempotencyCache \<Rightarrow> gotime \<Rightarrow> (runtime_error, nat \<times> RuntimeIdempotencyCache) outcome" where
  "cachePruneLocked c now =
     (if (case ric_nextExpiry c of None \<Rightarrow> True | Some t \<Rightarrow> now < t) then Return (0, c)
      else outcome_bind (prune_loop now (ric_order c) 0 None c) (\<lambda>(removed, deadline, c'). Return (removed, c'\<lparr>ric_nextExpiry := deadline\<rparr>)))"

definition makeRoomLocked :: "RuntimeIdempotencyCache \<Rightarrow> int64 \<Rightarrow> bool" where
  "makeRoomLocked c principalID = (user_count c principalID < ric_maxUser c \<and> int (gm_len (ric_entries c)) < ric_maxTotal c)"

definition newEntry :: "string \<Rightarrow> runtimeIdempotencyEntry" where
  "newEntry requestHMAC = \<lparr>re_requestHMAC = requestHMAC, re_done = False, re_completed = False, re_aborted = False, re_expiresAt = 0, re_result = None\<rparr>"

definition Claim :: "RuntimeIdempotencyCache \<Rightarrow> int64 \<Rightarrow> string \<Rightarrow> string \<Rightarrow> gotime
    \<Rightarrow> (runtime_error, RuntimeIdempotencyClaim) outcome \<times> RuntimeIdempotencyCache" where
  "Claim c principalID key requestHMAC now =
     (if sint principalID \<le> 0 \<or> \<not> IdempotencyKeyValid key \<or> \<not> validRequestHMAC requestHMAC then (Fail (RIdentity ErrInvalidRequestIdentity), c)
      else case cachePruneLocked c now of Panic \<Rightarrow> (Panic, c) | Fail e \<Rightarrow> (Fail e, c)
        | Return (_, c1) \<Rightarrow>
            (case fmlookup (ric_entries c1) (principalID, key) of
               Some e \<Rightarrow>
                 (case fmlookup (ric_heap c1) e of None \<Rightarrow> (Panic, c1)
                  | Some x \<Rightarrow>
                      if \<not> equalHexDigest (re_requestHMAC x) requestHMAC then (Fail (RIdentity ErrIdempotencyMismatch), c1)
                      else (Return \<lparr>rcl_key = (principalID, key), rcl_entry = e, rcl_owner = False\<rparr>, c1))
             | None \<Rightarrow>
                 if \<not> makeRoomLocked c1 principalID then (Fail ErrRuntimeIdempotencyFull, c1)
                 else (Return \<lparr>rcl_key = (principalID, key), rcl_entry = ric_next c1, rcl_owner = True\<rparr>,
                       c1\<lparr>ric_order := ric_order c1 @ [(principalID, key)], ric_entries := fmupd (principalID, key) (ric_next c1) (ric_entries c1),
                          ric_heap := fmupd (ric_next c1) (newEntry requestHMAC) (ric_heap c1), ric_next := Suc (ric_next c1),
                          ric_byUser := fmupd principalID (user_count c1 principalID + 1) (ric_byUser c1)\<rparr>)))"

text \<open>\<open>None\<close> while the owner runs and the context is open; when both are ready \<^verbatim>\<open>select\<close> may take either.\<close>

definition WaitClaim :: "RuntimeIdempotencyCache \<Rightarrow> RuntimeIdempotencyClaim \<Rightarrow> bool \<Rightarrow> bool \<Rightarrow> (runtime_error, RuntimeCommandResult) outcome option" where
  "WaitClaim c cl ctxDone preferDone =
     (if rcl_owner cl then Some (Fail ErrRuntimeIdempotencyOwner)
      else case fmlookup (ric_heap c) (rcl_entry cl) of None \<Rightarrow> Some Panic
        | Some x \<Rightarrow>
            if ctxDone \<and> (preferDone \<or> \<not> re_done x) then Some (Fail RContext)
            else if \<not> re_done x then None
            else if fmlookup (ric_entries c) (rcl_key cl) \<noteq> Some (rcl_entry cl) \<or> re_aborted x \<or> \<not> re_completed x then Some (Fail ErrRuntimeIdempotencyAborted)
            else (case re_result x of None \<Rightarrow> Some Panic | Some r \<Rightarrow> Some (Return r)))"

definition canonicalizeRuntimeCommandResult :: "identity_env \<Rightarrow> RuntimeCommandResult \<Rightarrow> (identity_error, RuntimeCommandResult) outcome" where
  "canonicalizeRuntimeCommandResult env r = outcome_bind (canonicalizeCommandResult env (ru_Result r)) (\<lambda>canonical. Return (r\<lparr>ru_Result := canonical\<rparr>))"

definition CompleteClaim :: "identity_env \<Rightarrow> RuntimeIdempotencyCache \<Rightarrow> RuntimeIdempotencyClaim \<Rightarrow> RuntimeCommandResult \<Rightarrow> gotime
    \<Rightarrow> (runtime_error, unit) outcome \<times> RuntimeIdempotencyCache" where
  "CompleteClaim env c cl result now =
     (if \<not> rcl_owner cl then (Fail ErrRuntimeIdempotencyOwner, c)
      else case canonicalizeRuntimeCommandResult env result of Fail e \<Rightarrow> (Fail (RIdentity e), c) | Panic \<Rightarrow> (Panic, c)
        | Return canonical \<Rightarrow>
            (case fmlookup (ric_heap c) (rcl_entry cl) of None \<Rightarrow> (Panic, c)
             | Some x \<Rightarrow>
                 if fmlookup (ric_entries c) (rcl_key cl) \<noteq> Some (rcl_entry cl) \<or> re_completed x \<or> re_aborted x then (Fail ErrRuntimeIdempotencyOwner, c)
                 else (Return (), c\<lparr>ric_heap := fmupd (rcl_entry cl) (x\<lparr>re_result := Some canonical, re_completed := True,
                                       re_expiresAt := now + ric_ttl c, re_done := True\<rparr>) (ric_heap c),
                                    ric_nextExpiry := earlier (now + ric_ttl c) (ric_nextExpiry c)\<rparr>)))"

definition AbortClaim :: "RuntimeIdempotencyCache \<Rightarrow> RuntimeIdempotencyClaim \<Rightarrow> (runtime_error, unit) outcome \<times> RuntimeIdempotencyCache" where
  "AbortClaim c cl =
     (if \<not> rcl_owner cl then (Fail ErrRuntimeIdempotencyOwner, c)
      else case fmlookup (ric_heap c) (rcl_entry cl) of None \<Rightarrow> (Panic, c)
        | Some x \<Rightarrow>
            if fmlookup (ric_entries c) (rcl_key cl) \<noteq> Some (rcl_entry cl) \<or> re_completed x \<or> re_aborted x then (Fail ErrRuntimeIdempotencyOwner, c)
            else (Return (), cacheRemoveLocked (c\<lparr>ric_heap := fmupd (rcl_entry cl) (x\<lparr>re_aborted := True, re_done := True\<rparr>) (ric_heap c)\<rparr>) (rcl_key cl) (rcl_entry cl)))"

definition DeleteExpiredEntries :: "RuntimeIdempotencyCache \<Rightarrow> gotime \<Rightarrow> (runtime_error, nat \<times> RuntimeIdempotencyCache) outcome" where
  "DeleteExpiredEntries c now = cachePruneLocked c now"

definition LenClaims :: "RuntimeIdempotencyCache \<Rightarrow> gotime \<Rightarrow> (runtime_error, nat \<times> RuntimeIdempotencyCache) outcome" where
  "LenClaims c now = outcome_bind (cachePruneLocked c now) (\<lambda>(_, c'). Return (gm_len (ric_entries c'), c'))"

section \<open>Theorems\<close>

declare split_paired_All [simp del] split_paired_Ex [simp del]

subsection \<open>The invariant\<close>

definition index_ok :: "RuntimeIdempotencyCache \<Rightarrow> bool" where
  "index_ok c \<longleftrightarrow> distinct (ric_order c) \<and> set (ric_order c) = fset (fmdom (ric_entries c)) \<and>
     (\<forall>u. user_count c u = int (length (filter (\<lambda>k. fst k = u) (ric_order c)))) \<and> (\<forall>u n. fmlookup (ric_byUser c) u = Some n \<longrightarrow> n > 0) \<and>
     int (length (ric_order c)) \<le> max 0 (ric_maxTotal c) \<and> (\<forall>u. user_count c u \<le> max 0 (ric_maxUser c))"

definition entry_fine :: "runtimeIdempotencyEntry \<Rightarrow> bool" where
  "entry_fine x \<longleftrightarrow> \<not> re_aborted x \<and> (re_done x \<longleftrightarrow> re_completed x) \<and> (re_completed x \<longrightarrow> re_result x \<noteq> None)"

definition heap_ok :: "RuntimeIdempotencyCache \<Rightarrow> bool" where
  "heap_ok c \<longleftrightarrow>
     (\<forall>k e. fmlookup (ric_entries c) k = Some e \<longrightarrow> (\<exists>x. fmlookup (ric_heap c) e = Some x \<and> entry_fine x)) \<and>
     (\<forall>k k' e. fmlookup (ric_entries c) k = Some e \<and> fmlookup (ric_entries c) k' = Some e \<longrightarrow> k = k') \<and>
     (\<forall>e x. fmlookup (ric_heap c) e = Some x \<longrightarrow> e < ric_next c)"

definition bounded_by :: "gotime option \<Rightarrow> runtimeIdempotencyEntry \<Rightarrow> bool" where
  "bounded_by d x \<longleftrightarrow> (re_completed x \<longrightarrow> (\<exists>t. d = Some t \<and> t \<le> re_expiresAt x))"

definition expiry_ok :: "RuntimeIdempotencyCache \<Rightarrow> runtimeIdempotencyKey set \<Rightarrow> gotime option \<Rightarrow> bool" where
  "expiry_ok c K d \<longleftrightarrow> (\<forall>k e x. k \<in> K \<and> fmlookup (ric_entries c) k = Some e \<and> fmlookup (ric_heap c) e = Some x \<longrightarrow> bounded_by d x)"

definition cache_ok :: "RuntimeIdempotencyCache \<Rightarrow> bool" where
  "cache_ok c \<longleftrightarrow> index_ok c \<and> heap_ok c \<and> expiry_ok c UNIV (ric_nextExpiry c)"

lemma heap_okD:
  assumes "heap_ok c" "fmlookup (ric_entries c) k = Some e"
  obtains x where "fmlookup (ric_heap c) e = Some x" "entry_fine x"
  using assms unfolding heap_ok_def by blast

lemma in_order: "index_ok c \<Longrightarrow> k \<in> set (ric_order c) \<longleftrightarrow> fmlookup (ric_entries c) k \<noteq> None"
  by (auto simp: index_ok_def fmlookup_dom_iff)

lemma length_filter_remove1:
  "length (filter P (remove1 k xs)) = (if k \<in> set xs \<and> P k then length (filter P xs) - 1 else length (filter P xs))"
  by (induction xs) (auto, metis Suc_pred filter_empty_conv length_greater_0_conv)

lemma remove_index_ok:
  assumes ok: "index_ok c" and k: "fmlookup (ric_entries c) k = Some e"
  shows "index_ok (cacheRemoveLocked c k e)"
proof -
  let ?c = "cacheRemoveLocked c k e"
  have mem: "k \<in> set (ric_order c)" using in_order [OF ok] k by simp
  have uc: "user_count ?c u = (if u = fst k then user_count c u - 1 else user_count c u)" for u
    using k by (auto simp: cacheRemoveLocked_def user_count_def)
  have pos: "length (filter (\<lambda>x. fst x = fst k) (ric_order c)) > 0" using mem by (auto simp: length_greater_0_conv filter_empty_conv)
  have ord: "ric_order ?c = remove1 k (ric_order c)" using k by (simp add: cacheRemoveLocked_def)
  have old: "user_count c u = int (length (filter (\<lambda>x. fst x = u) (ric_order c)))" for u using ok by (simp add: index_ok_def)
  have cnt: "user_count ?c u = int (length (filter (\<lambda>x. fst x = u) (ric_order ?c)))" for u
    unfolding uc ord length_filter_remove1 old using mem pos by (simp del: length_greater_0_conv)
  moreover have "\<forall>u n. fmlookup (ric_byUser ?c) u = Some n \<longrightarrow> n > 0"
  proof (intro allI impI)
    fix u n assume n: "fmlookup (ric_byUser ?c) u = Some n"
    show "n > 0"
    proof (cases "u = fst k \<and> user_count c (fst k) - 1 \<noteq> 0")
      case True
      then show ?thesis using n k old [of "fst k"] pos by (simp add: cacheRemoveLocked_def del: length_greater_0_conv)
    next
      case False
      then have "fmlookup (ric_byUser c) u = Some n" using n k by (auto simp: cacheRemoveLocked_def split: if_splits)
      then show ?thesis using ok by (auto simp: index_ok_def)
    qed
  qed
  moreover have "distinct (ric_order ?c)" "set (ric_order ?c) = fset (fmdom (ric_entries ?c))" "length (ric_order ?c) \<le> length (ric_order c)"
    using ok k by (auto simp: cacheRemoveLocked_def index_ok_def length_remove1)
  moreover have "user_count ?c u \<le> user_count c u" for u by (simp add: uc)
  moreover have "ric_maxTotal ?c = ric_maxTotal c" "ric_maxUser ?c = ric_maxUser c" by (simp_all add: cacheRemoveLocked_def)
  ultimately show ?thesis using ok unfolding index_ok_def by (metis (no_types, lifting) dual_order.trans of_nat_mono)
qed

lemma remove_frame:
  "ric_heap (cacheRemoveLocked c k e) = ric_heap c" "ric_next (cacheRemoveLocked c k e) = ric_next c" "ric_ttl (cacheRemoveLocked c k e) = ric_ttl c"
  "ric_maxTotal (cacheRemoveLocked c k e) = ric_maxTotal c" "ric_maxUser (cacheRemoveLocked c k e) = ric_maxUser c"
  "ric_nextExpiry (cacheRemoveLocked c k e) = ric_nextExpiry c"
  "fmlookup (ric_entries c) k = Some e \<Longrightarrow> fmlookup (ric_entries (cacheRemoveLocked c k e)) k' = (if k' = k then None else fmlookup (ric_entries c) k')"
  by (simp_all add: cacheRemoveLocked_def)

lemma remove_heap_ok: "heap_ok c \<Longrightarrow> heap_ok (cacheRemoveLocked c k e)"
  unfolding heap_ok_def by (auto simp: cacheRemoveLocked_def split: if_splits)

subsection \<open>Pruning\<close>

definition expired :: "RuntimeIdempotencyCache \<Rightarrow> gotime \<Rightarrow> runtimeIdempotencyKey \<Rightarrow> bool" where
  "expired c now k \<longleftrightarrow> (\<exists>e x. fmlookup (ric_entries c) k = Some e \<and> fmlookup (ric_heap c) e = Some x \<and> re_completed x \<and> re_expiresAt x \<le> now)"

definition same_store :: "RuntimeIdempotencyCache \<Rightarrow> RuntimeIdempotencyCache \<Rightarrow> bool" where
  "same_store c c' \<longleftrightarrow> ric_heap c' = ric_heap c \<and> ric_next c' = ric_next c \<and> ric_ttl c' = ric_ttl c \<and> ric_maxTotal c' = ric_maxTotal c \<and> ric_maxUser c' = ric_maxUser c"

lemma bounded_earlier: "bounded_by d x \<Longrightarrow> bounded_by (earlier t d) x" "re_completed y \<Longrightarrow> bounded_by (earlier (re_expiresAt y) d) y"
  by (auto simp: bounded_by_def earlier_def split: option.splits)

lemma prune_loop_spec:
  assumes "index_ok c" "heap_ok c" "set keys \<subseteq> set (ric_order c)" "distinct keys" "expiry_ok c (- set keys) d"
  shows "\<exists>n' d' c'. prune_loop now keys n d c = Return (n', d', c') \<and> index_ok c' \<and> heap_ok c' \<and> expiry_ok c' UNIV d' \<and> same_store c c' \<and>
    (\<forall>k. fmlookup (ric_entries c') k = (if k \<in> set keys \<and> expired c now k then None else fmlookup (ric_entries c) k))"
  using assms
proof (induction keys arbitrary: n d c)
  case Nil
  then show ?case by (simp add: same_store_def)
next
  case (Cons key keys)
  have "key \<in> set (ric_order c)" using Cons.prems(3) by simp
  then obtain e where e: "fmlookup (ric_entries c) key = Some e" using in_order [OF Cons.prems(1)] by auto
  obtain x where x: "fmlookup (ric_heap c) e = Some x" by (rule heap_okD [OF Cons.prems(2) e])
  have exp: "expired c now key \<longleftrightarrow> re_completed x \<and> re_expiresAt x \<le> now" using e x by (auto simp: expired_def)
  show ?case
  proof (cases "re_completed x \<and> \<not> now < re_expiresAt x")
    case True
    let ?c = "cacheRemoveLocked c key e"
    have ent: "fmlookup (ric_entries ?c) k = (if k = key then None else fmlookup (ric_entries c) k)" for k by (rule remove_frame(7) [OF e])
    have i: "index_ok ?c" by (rule remove_index_ok [OF Cons.prems(1) e])
    have sub: "set keys \<subseteq> set (ric_order ?c)" using Cons.prems(1,3,4) in_order [OF i] in_order [OF Cons.prems(1)] by (auto simp: ent)
    have ex: "expiry_ok ?c (- set keys) d"
      using Cons.prems(5) unfolding expiry_ok_def by (auto simp: ent remove_frame(1) split: if_splits)
    have "expired ?c now k = (k \<noteq> key \<and> expired c now k)" for k by (auto simp: expired_def ent remove_frame(1))
    moreover have dk: "distinct keys" using Cons.prems(4) by simp
    moreover obtain n' d' c' where l: "prune_loop now keys (Suc n) d ?c = Return (n', d', c')" "index_ok c'" "heap_ok c'" "expiry_ok c' UNIV d'" "same_store ?c c'"
      "\<forall>k. fmlookup (ric_entries c') k = (if k \<in> set keys \<and> expired ?c now k then None else fmlookup (ric_entries ?c) k)"
      using Cons.IH [OF i remove_heap_ok [OF Cons.prems(2)] sub dk ex, of "Suc n"] by blast
    ultimately have "fmlookup (ric_entries c') k = (if k \<in> set (key # keys) \<and> expired c now k then None else fmlookup (ric_entries c) k)" for k
      using True exp by (cases k) (auto simp: ent)
    moreover have "prune_loop now (key # keys) n d c = Return (n', d', c')" using e x True l(1) by simp
    moreover have "same_store c c'" using l(5) by (simp add: same_store_def remove_frame(1-5))
    ultimately show ?thesis using l(2-4) by blast
  next
    case False
    let ?d = "if re_completed x then earlier (re_expiresAt x) d else d"
    have ex: "expiry_ok c (- set keys) ?d"
      unfolding expiry_ok_def
    proof (intro allI impI)
      fix k e' x' assume k: "k \<in> - set keys \<and> fmlookup (ric_entries c) k = Some e' \<and> fmlookup (ric_heap c) e' = Some x'"
      show "bounded_by ?d x'"
      proof (cases "k = key")
        case True
        then have "x' = x" using k e x by simp
        then show ?thesis by (cases "re_completed x") (simp_all add: bounded_earlier(2) bounded_by_def [of d])
      next
        case False
        then have "bounded_by d x'" using Cons.prems(5) k unfolding expiry_ok_def by auto
        then show ?thesis by (simp add: bounded_earlier(1))
      qed
    qed
    have sub: "set keys \<subseteq> set (ric_order c)" and dk: "distinct keys" using Cons.prems(3,4) by simp_all
    have "prune_loop now (key # keys) n d c = prune_loop now keys n ?d c" using e x False by auto
    moreover have "\<not> expired c now key" using False exp by (simp add: not_less)
    ultimately show ?thesis using Cons.IH [OF Cons.prems(1,2) sub dk ex, of n] by (metis set_ConsD list.set_intros(2))
  qed
qed

lemma expiry_cong: "ric_entries c' = ric_entries c \<Longrightarrow> ric_heap c' = ric_heap c \<Longrightarrow> expiry_ok c' K d = expiry_ok c K d"
  by (simp add: expiry_ok_def)

lemma cachePruneLocked_spec:
  assumes ok: "cache_ok c"
  shows "\<exists>n c'. cachePruneLocked c now = Return (n, c') \<and> cache_ok c' \<and> same_store c c' \<and>
    (\<forall>k. fmlookup (ric_entries c') k = (if expired c now k then None else fmlookup (ric_entries c) k))"
proof (cases "case ric_nextExpiry c of None \<Rightarrow> True | Some t \<Rightarrow> now < t")
  case True
  have "bounded_by (ric_nextExpiry c) x" if "fmlookup (ric_entries c) k = Some e" "fmlookup (ric_heap c) e = Some x" for k e x
    using ok that unfolding cache_ok_def expiry_ok_def by blast
  then have "\<not> expired c now k" for k using True unfolding expired_def bounded_by_def by fastforce
  then show ?thesis using ok True by (simp add: cachePruneLocked_def same_store_def)
next
  case False
  have c0: "index_ok c" "heap_ok c" using ok by (simp_all add: cache_ok_def)
  have "expiry_ok c (- set (ric_order c)) None" unfolding expiry_ok_def using in_order [OF c0(1)] by force
  moreover have "distinct (ric_order c)" using c0(1) unfolding index_ok_def by simp
  ultimately have c: "index_ok c" "heap_ok c" "expiry_ok c (- set (ric_order c)) None" "distinct (ric_order c)" using c0 by simp_all
  obtain n d c' where l: "prune_loop now (ric_order c) 0 None c = Return (n, d, c')" "index_ok c'" "heap_ok c'" "expiry_ok c' UNIV d" "same_store c c'"
    "\<forall>k. fmlookup (ric_entries c') k = (if k \<in> set (ric_order c) \<and> expired c now k then None else fmlookup (ric_entries c) k)"
    using prune_loop_spec [OF c(1,2) order_refl c(4,3), of now 0] by blast
  let ?c = "c'\<lparr>ric_nextExpiry := d\<rparr>"
  have "cachePruneLocked c now = Return (n, ?c)" using False l(1) by (simp add: cachePruneLocked_def outcome_bind_def)
  moreover have "index_ok ?c = index_ok c'" "heap_ok ?c = heap_ok c'" "expiry_ok ?c UNIV d = expiry_ok c' UNIV d"
    by (simp_all add: index_ok_def heap_ok_def expiry_ok_def user_count_def)
  then have "cache_ok ?c" using l(2-4) by (simp add: cache_ok_def)
  moreover have "fmlookup (ric_entries ?c) k = (if expired c now k then None else fmlookup (ric_entries c) k)" for k
    using l(6) in_order [OF c(1)] by (auto simp: expired_def)
  moreover have "same_store c ?c" using l(5) by (simp add: same_store_def)
  ultimately show ?thesis by blast
qed

subsection \<open>Operations\<close>

lemma Claim_cases:
  assumes ok: "cache_ok c" and run: "Claim c p key h now = (r, c')"
  obtains (invalid) "sint p \<le> 0 \<or> \<not> IdempotencyKeyValid key \<or> \<not> validRequestHMAC h" "r = Fail (RIdentity ErrInvalidRequestIdentity)" "c' = c"
  | (join) n e x where "cachePruneLocked c now = Return (n, c')" "fmlookup (ric_entries c') (p, key) = Some e" "fmlookup (ric_heap c') e = Some x"
      "r = (if equalHexDigest (re_requestHMAC x) h then Return \<lparr>rcl_key = (p, key), rcl_entry = e, rcl_owner = False\<rparr> else Fail (RIdentity ErrIdempotencyMismatch))"
  | (full) n where "cachePruneLocked c now = Return (n, c')" "fmlookup (ric_entries c') (p, key) = None" "r = Fail ErrRuntimeIdempotencyFull" "\<not> makeRoomLocked c' p"
  | (fresh) n c1 where "cachePruneLocked c now = Return (n, c1)" "fmlookup (ric_entries c1) (p, key) = None" "makeRoomLocked c1 p"
      "r = Return \<lparr>rcl_key = (p, key), rcl_entry = ric_next c1, rcl_owner = True\<rparr>"
      "c' = c1\<lparr>ric_order := ric_order c1 @ [(p, key)], ric_entries := fmupd (p, key) (ric_next c1) (ric_entries c1),
         ric_heap := fmupd (ric_next c1) (newEntry h) (ric_heap c1), ric_next := Suc (ric_next c1), ric_byUser := fmupd p (user_count c1 p + 1) (ric_byUser c1)\<rparr>"
proof -
  obtain n c1 where p: "cachePruneLocked c now = Return (n, c1)" and ok1: "cache_ok c1" using cachePruneLocked_spec [OF ok, of now] by blast
  have heap: "fmlookup (ric_heap c1) e \<noteq> None" if "fmlookup (ric_entries c1) (p, key) = Some e" for e
    using ok1 that unfolding cache_ok_def heap_ok_def by blast
  show ?thesis
  proof (cases "sint p \<le> 0 \<or> \<not> IdempotencyKeyValid key \<or> \<not> validRequestHMAC h")
    case True
    then show ?thesis using invalid run by (auto simp: Claim_def)
  next
    case valid: False
    show ?thesis
    proof (cases "fmlookup (ric_entries c1) (p, key)")
      case None
      then show ?thesis using run valid p full fresh by (auto simp: Claim_def split: if_splits)
    next
      case (Some e)
      then obtain x where x: "fmlookup (ric_heap c1) e = Some x" using heap by blast
      then have "c' = c1" "r = (if equalHexDigest (re_requestHMAC x) h then Return \<lparr>rcl_key = (p, key), rcl_entry = e, rcl_owner = False\<rparr> else Fail (RIdentity ErrIdempotencyMismatch))"
        using run valid p Some by (auto simp: Claim_def split: if_splits)
      then show ?thesis using join p Some x by blast
    qed
  qed
qed

lemma fresh_ok:
  assumes ok: "cache_ok c" and free: "fmlookup (ric_entries c) (p, key) = None" and room: "makeRoomLocked c p"
  shows "cache_ok (c\<lparr>ric_order := ric_order c @ [(p, key)], ric_entries := fmupd (p, key) (ric_next c) (ric_entries c),
         ric_heap := fmupd (ric_next c) (newEntry h) (ric_heap c), ric_next := Suc (ric_next c), ric_byUser := fmupd p (user_count c p + 1) (ric_byUser c)\<rparr>)"
    (is "cache_ok ?c")
proof -
  have i: "index_ok c" and hp: "heap_ok c" and ex: "expiry_ok c UNIV (ric_nextExpiry c)" using ok by (simp_all add: cache_ok_def)
  have new: "(p, key) \<notin> set (ric_order c)" using in_order [OF i] free by simp
  have uc: "user_count ?c u = (if u = p then user_count c u + 1 else user_count c u)" for u by (simp add: user_count_def)
  have nonneg: "user_count c u \<ge> 0" for u using i by (simp add: index_ok_def)
  have len: "int (length (ric_order c)) = int (gm_len (ric_entries c))"
    using i distinct_card [of "ric_order c"] by (simp add: index_ok_def gm_len_def fcard.rep_eq)
  have "index_ok ?c"
    unfolding index_ok_def
  proof (intro conjI allI impI)
    fix u show "user_count ?c u = int (length (filter (\<lambda>k. fst k = u) (ric_order ?c)))" using i by (simp add: uc) (simp add: index_ok_def)
  next
    fix u show "user_count ?c u \<le> max 0 (ric_maxUser ?c)" using i room unfolding index_ok_def makeRoomLocked_def uc by (simp split: if_splits) fastforce
  next
    fix u n assume "fmlookup (ric_byUser ?c) u = Some n"
    then show "n > 0" using i nonneg [of p] by (auto simp: index_ok_def split: if_splits)
  qed (use i new room len in \<open>auto simp: index_ok_def makeRoomLocked_def\<close>)
  moreover have fresh: "e < ric_next c" if "fmlookup (ric_entries c) k = Some e" for k e
    using hp that unfolding heap_ok_def by blast
  have "heap_ok ?c" unfolding heap_ok_def
  proof (intro conjI allI impI)
    fix k e assume "fmlookup (ric_entries ?c) k = Some e"
    then show "\<exists>x. fmlookup (ric_heap ?c) e = Some x \<and> entry_fine x"
      using hp fresh [of k e] by (auto simp: heap_ok_def entry_fine_def newEntry_def split: if_splits)
  next
    fix k k' e assume "fmlookup (ric_entries ?c) k = Some e \<and> fmlookup (ric_entries ?c) k' = Some e"
    then show "k = k'" using hp fresh [of k e] fresh [of k' e] by (auto simp: heap_ok_def split: if_splits)
  next
    fix e x assume "fmlookup (ric_heap ?c) e = Some x"
    then show "e < ric_next ?c" using hp by (auto simp: heap_ok_def less_Suc_eq split: if_splits)
  qed
  moreover have "expiry_ok ?c UNIV (ric_nextExpiry ?c)"
    using ex fresh unfolding expiry_ok_def by (auto simp: bounded_by_def newEntry_def split: if_splits)
  ultimately show ?thesis by (simp add: cache_ok_def)
qed

lemma Claim_ok: "cache_ok c \<Longrightarrow> cache_ok (snd (Claim c p key h now))"
proof -
  assume ok: "cache_ok c"
  obtain r c' where run: "Claim c p key h now = (r, c')" by fastforce
  have "cache_ok c'" if "cachePruneLocked c now = Return (n, c')" for n c' using cachePruneLocked_spec [OF ok, of now] that by auto
  with ok run show ?thesis by (cases rule: Claim_cases [OF ok run]) (auto intro: fresh_ok)
qed

lemma Complete_cases:
  assumes "CompleteClaim env c cl result now = (r, c')"
  obtains (no) "r \<noteq> Return ()" "c' = c"
  | (yes) x canonical where "r = Return ()" "rcl_owner cl" "canonicalizeRuntimeCommandResult env result = Return canonical" "fmlookup (ric_heap c) (rcl_entry cl) = Some x"
      "fmlookup (ric_entries c) (rcl_key cl) = Some (rcl_entry cl)" "\<not> re_completed x" "\<not> re_aborted x"
      "c' = c\<lparr>ric_heap := fmupd (rcl_entry cl) (x\<lparr>re_result := Some canonical, re_completed := True, re_expiresAt := now + ric_ttl c, re_done := True\<rparr>) (ric_heap c),
         ric_nextExpiry := earlier (now + ric_ttl c) (ric_nextExpiry c)\<rparr>"
proof (cases "rcl_owner cl")
  case False
  then show ?thesis using assms no by (auto simp: CompleteClaim_def)
next
  case own: True
  show ?thesis
  proof (cases "canonicalizeRuntimeCommandResult env result")
    case can: (Return canonical)
    show ?thesis
    proof (cases "fmlookup (ric_heap c) (rcl_entry cl)")
      case None
      then show ?thesis using assms own can no by (auto simp: CompleteClaim_def)
    next
      case (Some x)
      show ?thesis
      proof (cases "fmlookup (ric_entries c) (rcl_key cl) \<noteq> Some (rcl_entry cl) \<or> re_completed x \<or> re_aborted x")
        case True
        then have "r = Fail ErrRuntimeIdempotencyOwner" "c' = c" using assms own can Some unfolding CompleteClaim_def by simp_all
        then show ?thesis using no by simp
      next
        case False
        then show ?thesis using assms own can Some yes [of canonical x] unfolding CompleteClaim_def by simp
      qed
    qed
  qed (use assms own no in \<open>auto simp: CompleteClaim_def\<close>)
qed

lemma Complete_ok:
  assumes ok: "cache_ok c"
  shows "cache_ok (snd (CompleteClaim env c cl result now))"
proof -
  obtain r c' where run: "CompleteClaim env c cl result now = (r, c')" by fastforce
  then show ?thesis
  proof (cases rule: Complete_cases)
    case no
    then show ?thesis using ok run by simp
  next
    case (yes x canonical)
    have i: "index_ok c" and hp: "heap_ok c" and ex: "expiry_ok c UNIV (ric_nextExpiry c)" using ok by (simp_all add: cache_ok_def)
    have "index_ok c' = index_ok c" by (simp add: yes(8) index_ok_def user_count_def)
    moreover have "heap_ok c'" unfolding heap_ok_def
    proof (intro conjI allI impI)
      fix k e assume "fmlookup (ric_entries c') k = Some e"
      then show "\<exists>x. fmlookup (ric_heap c') e = Some x \<and> entry_fine x"
        using hp yes(7) by (auto simp: yes(8) heap_ok_def entry_fine_def)
    next
      fix k k' e assume "fmlookup (ric_entries c') k = Some e \<and> fmlookup (ric_entries c') k' = Some e"
      then show "k = k'" using hp by (auto simp: yes(8) heap_ok_def)
    next
      fix e x' assume "fmlookup (ric_heap c') e = Some x'"
      then show "e < ric_next c'" using hp yes(4) by (auto simp: yes(8) heap_ok_def split: if_splits)
    qed
    moreover have "expiry_ok c' UNIV (ric_nextExpiry c')" unfolding expiry_ok_def
    proof (intro allI impI)
      fix k e x' assume a: "k \<in> UNIV \<and> fmlookup (ric_entries c') k = Some e \<and> fmlookup (ric_heap c') e = Some x'"
      show "bounded_by (ric_nextExpiry c') x'"
      proof (cases "e = rcl_entry cl")
        case True
        then have "re_expiresAt x' = now + ric_ttl c" "re_completed x'" using a by (auto simp: yes(8))
        then show ?thesis using bounded_earlier(2) [of x' "ric_nextExpiry c"] by (simp add: yes(8))
      next
        case False
        then have "bounded_by (ric_nextExpiry c) x'" using a ex by (auto simp: yes(8) expiry_ok_def)
        then show ?thesis by (simp add: yes(8) bounded_earlier(1))
      qed
    qed
    ultimately show ?thesis using i run by (simp add: cache_ok_def)
  qed
qed

lemma Abort_cases:
  assumes "AbortClaim c cl = (r, c')"
  obtains (no) "r \<noteq> Return ()" "c' = c"
  | (yes) x where "r = Return ()" "fmlookup (ric_heap c) (rcl_entry cl) = Some x" "fmlookup (ric_entries c) (rcl_key cl) = Some (rcl_entry cl)"
      "\<not> re_completed x" "\<not> re_aborted x" "rcl_owner cl"
      "c' = cacheRemoveLocked (c\<lparr>ric_heap := fmupd (rcl_entry cl) (x\<lparr>re_aborted := True, re_done := True\<rparr>) (ric_heap c)\<rparr>) (rcl_key cl) (rcl_entry cl)"
proof (cases "rcl_owner cl")
  case False
  then show ?thesis using assms no by (auto simp: AbortClaim_def)
next
  case own: True
  show ?thesis
  proof (cases "fmlookup (ric_heap c) (rcl_entry cl)")
    case None
    then show ?thesis using assms own no by (auto simp: AbortClaim_def)
  next
    case (Some x)
    show ?thesis
    proof (cases "fmlookup (ric_entries c) (rcl_key cl) \<noteq> Some (rcl_entry cl) \<or> re_completed x \<or> re_aborted x")
      case True
      then have "r = Fail ErrRuntimeIdempotencyOwner" "c' = c" using assms own Some unfolding AbortClaim_def by simp_all
      then show ?thesis using no by simp
    next
      case False
      then show ?thesis using assms own Some yes [of x] unfolding AbortClaim_def by simp
    qed
  qed
qed

lemma Abort_ok:
  assumes ok: "cache_ok c"
  shows "cache_ok (snd (AbortClaim c cl))"
proof -
  obtain r c' where run: "AbortClaim c cl = (r, c')" by fastforce
  then show ?thesis
  proof (cases rule: Abort_cases)
    case no
    then show ?thesis using ok run by simp
  next
    case (yes x)
    let ?m = "c\<lparr>ric_heap := fmupd (rcl_entry cl) (x\<lparr>re_aborted := True, re_done := True\<rparr>) (ric_heap c)\<rparr>"
    have i: "index_ok c" and hp: "heap_ok c" and ex: "expiry_ok c UNIV (ric_nextExpiry c)" using ok by (simp_all add: cache_ok_def)
    have m: "fmlookup (ric_entries ?m) (rcl_key cl) = Some (rcl_entry cl)" using yes(3) by simp
    have "index_ok ?m = index_ok c" by (simp add: index_ok_def user_count_def)
    then have "index_ok c'" unfolding yes(7) using i by (intro remove_index_ok [OF _ m]) simp
    moreover have ent: "fmlookup (ric_entries c') k = (if k = rcl_key cl then None else fmlookup (ric_entries c) k)" for k
      unfolding yes(7) remove_frame(7) [OF m] by simp
    have heap: "ric_heap c' = ric_heap ?m" "ric_next c' = ric_next c" "ric_nextExpiry c' = ric_nextExpiry c" unfolding yes(7) remove_frame by simp_all
    have other: "e \<noteq> rcl_entry cl" if "fmlookup (ric_entries c') k = Some e" for k e
      using that hp yes(3) by (auto simp: ent heap_ok_def split: if_splits)
    have "heap_ok c'" unfolding heap_ok_def
    proof (intro conjI allI impI)
      fix k e assume a: "fmlookup (ric_entries c') k = Some e"
      then show "\<exists>x. fmlookup (ric_heap c') e = Some x \<and> entry_fine x"
        using hp other [OF a] by (auto simp: ent heap heap_ok_def split: if_splits)
    next
      fix k k' e assume "fmlookup (ric_entries c') k = Some e \<and> fmlookup (ric_entries c') k' = Some e"
      then show "k = k'" using hp by (auto simp: ent heap_ok_def split: if_splits)
    next
      fix e y assume "fmlookup (ric_heap c') e = Some y"
      then show "e < ric_next c'" using hp yes(2) by (auto simp: heap heap_ok_def split: if_splits)
    qed
    moreover have "expiry_ok c' UNIV (ric_nextExpiry c')" unfolding expiry_ok_def
    proof (intro allI impI)
      fix k e y assume a: "k \<in> UNIV \<and> fmlookup (ric_entries c') k = Some e \<and> fmlookup (ric_heap c') e = Some y"
      then have "fmlookup (ric_entries c) k = Some e" "fmlookup (ric_heap c) e = Some y"
        using other [of k e] by (simp_all add: ent heap split: if_splits)
      then show "bounded_by (ric_nextExpiry c') y" using ex by (auto simp: expiry_ok_def heap)
    qed
    ultimately show ?thesis using run by (simp add: cache_ok_def)
  qed
qed

subsection \<open>Runs\<close>

text \<open>Any operations, with any claims, at non-decreasing clock readings below \<open>limit\<close> or without one.\<close>

inductive ric_step :: "gotime \<Rightarrow> RuntimeIdempotencyCache \<Rightarrow> RuntimeIdempotencyCache \<Rightarrow> bool" where
  claim: "ric_step now c (snd (Claim c p key h now))"
| complete: "ric_step now c (snd (CompleteClaim env c cl result now))"
| abort: "ric_step now c (snd (AbortClaim c cl))"
| expire: "DeleteExpiredEntries c now = Return (n, c') \<Longrightarrow> ric_step now c c'"
| len: "LenClaims c now = Return (n, c') \<Longrightarrow> ric_step now c c'"

inductive ric_run :: "(gotime \<Rightarrow> bool) \<Rightarrow> RuntimeIdempotencyCache \<Rightarrow> RuntimeIdempotencyCache \<Rightarrow> bool" for P where
  start: "ric_run P c c"
| more: "ric_run P c c' \<Longrightarrow> P now \<Longrightarrow> ric_step now c' c'' \<Longrightarrow> ric_run P c c''"

lemma ric_step_ok: "ric_step now c c' \<Longrightarrow> cache_ok c \<Longrightarrow> cache_ok c'"
proof (induction rule: ric_step.induct)
  case (expire c now n c')
  then show ?case using cachePruneLocked_spec [of c now] by (auto simp: DeleteExpiredEntries_def)
next
  case (len c now n c')
  then show ?case using cachePruneLocked_spec [of c now] by (auto simp: LenClaims_def outcome_bind_def)
qed (simp_all add: Claim_ok Complete_ok Abort_ok)

lemma ric_run_ok: "ric_run P c c' \<Longrightarrow> cache_ok c \<Longrightarrow> cache_ok c'"
  by (induction rule: ric_run.induct) (auto intro: ric_step_ok)

lemma new_cache_ok: "cache_ok (newRuntimeIdempotencyCache ttl maxTotal maxUser)"
  by (simp add: cache_ok_def index_ok_def heap_ok_def expiry_ok_def newRuntimeIdempotencyCache_def user_count_def)

text \<open>A completed entry keeps its slot and its contents until it expires.\<close>

definition holds :: "RuntimeIdempotencyCache \<Rightarrow> runtimeIdempotencyKey \<Rightarrow> nat \<Rightarrow> runtimeIdempotencyEntry \<Rightarrow> bool" where
  "holds c k e x \<longleftrightarrow> fmlookup (ric_entries c) k = Some e \<and> fmlookup (ric_heap c) e = Some x"

lemma prune_holds:
  assumes "cache_ok c" "holds c k e x" "re_completed x \<Longrightarrow> now < re_expiresAt x" "cachePruneLocked c now = Return (n, c')"
  shows "holds c' k e x"
proof -
  have "\<not> expired c now k" using assms(2,3) by (auto simp: expired_def holds_def)
  then show ?thesis using cachePruneLocked_spec [OF assms(1), of now] assms(2,4) by (auto simp: holds_def same_store_def)
qed

lemma step_holds:
  assumes "ric_step now c c'" "cache_ok c" "holds c k e x" "re_completed x" "now < re_expiresAt x"
  shows "holds c' k e x"
  using assms
proof (induction rule: ric_step.induct)
  case (claim now c p key h)
  obtain r c' where run: "Claim c p key h now = (r, c')" by fastforce
  have pr: "holds c1 k e x" if "cachePruneLocked c now = Return (n, c1)" for n c1 using prune_holds [OF claim(1,2) _ that] claim(4) by blast
  have "holds c' k e x" using claim(1) run
  proof (cases rule: Claim_cases)
    case (fresh n c1)
    have "e \<noteq> ric_next c1" using pr [OF fresh(1)] cachePruneLocked_spec [OF claim(1), of now] fresh(1)
      by (auto simp: holds_def cache_ok_def heap_ok_def)
    then show ?thesis using pr [OF fresh(1)] fresh(2) by (auto simp: fresh(5) holds_def)
  qed (use pr claim(2) in auto)
  then show ?case using run by simp
next
  case (complete now c env cl result)
  obtain r c' where run: "CompleteClaim env c cl result now = (r, c')" by fastforce
  then have "holds c' k e x"
  proof (cases rule: Complete_cases)
    case (yes y canonical)
    then have "rcl_entry cl \<noteq> e" using complete(2,3) by (auto simp: holds_def)
    then show ?thesis using complete(2) by (simp add: yes(8) holds_def)
  qed (use complete(2) in simp)
  then show ?case using run by simp
next
  case (abort now c cl)
  obtain r c' where run: "AbortClaim c cl = (r, c')" by fastforce
  then have "holds c' k e x"
  proof (cases rule: Abort_cases)
    case (yes y)
    then have "rcl_entry cl \<noteq> e" using abort(2,3) by (auto simp: holds_def)
    moreover then have "k \<noteq> rcl_key cl" using abort(2) yes(3) by (auto simp: holds_def)
    ultimately show ?thesis using abort(2) yes(3) by (simp add: yes(7) holds_def cacheRemoveLocked_def)
  qed (use abort(2) in simp)
  then show ?case using run by simp
next
  case (expire c now n c')
  then show ?case using prune_holds by (metis DeleteExpiredEntries_def)
next
  case (len c now n c')
  then show ?case using prune_holds [of c k e x now] by (auto simp: LenClaims_def outcome_bind_def split: outcome.splits)
qed

lemma run_holds:
  assumes "ric_run (\<lambda>t. t < re_expiresAt x) c c'" "cache_ok c" "holds c k e x" "re_completed x"
  shows "holds c' k e x"
  using assms
proof (induction rule: ric_run.induct)
  case (more c c' now c'')
  have "cache_ok c'" by (rule ric_run_ok [OF more.hyps(1) more.prems(1)])
  then show ?case using more by (blast intro: step_holds)
qed

lemma step_limits: "ric_step now c c' \<Longrightarrow> cache_ok c \<Longrightarrow> ric_ttl c' = ric_ttl c \<and> ric_maxTotal c' = ric_maxTotal c \<and> ric_maxUser c' = ric_maxUser c"
proof (induction rule: ric_step.induct)
  case (claim now c p key h)
  obtain r c' where run: "Claim c p key h now = (r, c')" by fastforce
  have pr: "same_store c c1" if "cachePruneLocked c now = Return (n, c1)" for n c1 using cachePruneLocked_spec [OF claim, of now] that by auto
  from claim run show ?case by (cases rule: Claim_cases) (use run in \<open>auto simp: same_store_def dest!: pr\<close>)
next
  case (complete now c env cl result)
  obtain r c' where run: "CompleteClaim env c cl result now = (r, c')" by fastforce
  then show ?case by (cases rule: Complete_cases) (use run in auto)
next
  case (abort now c cl)
  obtain r c' where run: "AbortClaim c cl = (r, c')" by fastforce
  then show ?case by (cases rule: Abort_cases) (use run in \<open>auto simp: remove_frame\<close>)
next
  case (expire c now n c')
  then show ?case using cachePruneLocked_spec [of c now] by (auto simp: DeleteExpiredEntries_def same_store_def)
next
  case (len c now n c')
  then show ?case using cachePruneLocked_spec [of c now] by (auto simp: LenClaims_def outcome_bind_def same_store_def)
qed

lemma run_limits: "ric_run P c c' \<Longrightarrow> cache_ok c \<Longrightarrow> ric_ttl c' = ric_ttl c \<and> ric_maxTotal c' = ric_maxTotal c \<and> ric_maxUser c' = ric_maxUser c"
proof (induction rule: ric_run.induct)
  case (more c c' now c'')
  then show ?case using step_limits [OF more.hyps(3) ric_run_ok [OF more.hyps(1) more.prems]] by simp
qed simp

text \<open>C39. A runtime command is executed once and replayed: in any state a run of the cache reaches, once the owner has completed a claim,
  then for the whole retry window, whatever other claims, completions, aborts and clean-ups happen meanwhile and with whatever claims, a retry
  with the same digest joins the completed entry, never owns it, and is given exactly the canonical result of the owner, while a retry of the
  same key with another digest is refused.  The cache never holds more than its limits.\<close>

theorem runtime_replay_exact:
  assumes run: "ric_run (\<lambda>_. True) (newRuntimeIdempotencyCache ttl maxTotal maxUser) c" and limits: "0 \<le> maxTotal" "0 \<le> maxUser"
    and complete: "CompleteClaim env c cl result now = (Return (), c')"
    and later: "ric_run (\<lambda>t. t < now + ttl) c' c''" "t < now + ttl"
    and retry: "sint (fst (rcl_key cl)) > 0" "IdempotencyKeyValid (snd (rcl_key cl))" "validRequestHMAC h"
  shows "\<exists>canonical x. canonicalizeRuntimeCommandResult env result = Return canonical \<and> fmlookup (ric_heap c) (rcl_entry cl) = Some x \<and>
    (if equalHexDigest (re_requestHMAC x) h
     then \<exists>c3. Claim c'' (fst (rcl_key cl)) (snd (rcl_key cl)) h t = (Return \<lparr>rcl_key = rcl_key cl, rcl_entry = rcl_entry cl, rcl_owner = False\<rparr>, c3) \<and>
       WaitClaim c3 \<lparr>rcl_key = rcl_key cl, rcl_entry = rcl_entry cl, rcl_owner = False\<rparr> False False = Some (Return canonical)
     else fst (Claim c'' (fst (rcl_key cl)) (snd (rcl_key cl)) h t) = Fail (RIdentity ErrIdempotencyMismatch)) \<and>
    int (gm_len (ric_entries c)) \<le> maxTotal \<and> (\<forall>u. user_count c u \<le> maxUser)"
proof -
  have ok: "cache_ok c" by (rule ric_run_ok [OF run new_cache_ok])
  have lim: "ric_ttl c = ttl" "ric_maxTotal c = maxTotal" "ric_maxUser c = maxUser"
    using run_limits [OF run new_cache_ok] by (simp_all add: newRuntimeIdempotencyCache_def)
  from complete obtain x canonical where x: "canonicalizeRuntimeCommandResult env result = Return canonical" "fmlookup (ric_heap c) (rcl_entry cl) = Some x"
    "fmlookup (ric_entries c) (rcl_key cl) = Some (rcl_entry cl)"
    "c' = c\<lparr>ric_heap := fmupd (rcl_entry cl) (x\<lparr>re_result := Some canonical, re_completed := True, re_expiresAt := now + ric_ttl c, re_done := True\<rparr>) (ric_heap c),
       ric_nextExpiry := earlier (now + ric_ttl c) (ric_nextExpiry c)\<rparr>" and ab: "\<not> re_aborted x"
    by (cases rule: Complete_cases) auto
  let ?y = "x\<lparr>re_result := Some canonical, re_completed := True, re_expiresAt := now + ric_ttl c, re_done := True\<rparr>"
  have ok': "cache_ok c'" using Complete_ok [OF ok, of env cl result now] complete by simp
  have "holds c' (rcl_key cl) (rcl_entry cl) ?y" using x(3) by (simp add: holds_def x(4))
  moreover have "ric_run (\<lambda>t. t < re_expiresAt ?y) c' c''" using later(1) lim(1) by simp
  ultimately have h2: "holds c'' (rcl_key cl) (rcl_entry cl) ?y" using run_holds [of ?y c' c''] ok' by simp
  have ok2: "cache_ok c''" by (rule ric_run_ok [OF later(1) ok'])
  obtain r c3 where claim: "Claim c'' (fst (rcl_key cl)) (snd (rcl_key cl)) h t = (r, c3)" by fastforce
  obtain n where pr: "cachePruneLocked c'' t = Return (n, c3)" and r: "r = (if equalHexDigest (re_requestHMAC x) h
      then Return \<lparr>rcl_key = rcl_key cl, rcl_entry = rcl_entry cl, rcl_owner = False\<rparr> else Fail (RIdentity ErrIdempotencyMismatch))"
    and h3: "holds c3 (rcl_key cl) (rcl_entry cl) ?y"
  proof -
    obtain n c1 where p: "cachePruneLocked c'' t = Return (n, c1)" using cachePruneLocked_spec [OF ok2, of t] by blast
    have "holds c1 (rcl_key cl) (rcl_entry cl) ?y" by (rule prune_holds [OF ok2 h2 _ p]) (use later(2) lim(1) in simp)
    then show ?thesis using that p claim retry by (auto simp: Claim_def holds_def split: if_splits)
  qed
  have "WaitClaim c3 \<lparr>rcl_key = rcl_key cl, rcl_entry = rcl_entry cl, rcl_owner = False\<rparr> False False = Some (Return canonical)"
    using h3 ab by (simp add: WaitClaim_def holds_def)
  moreover have "int (gm_len (ric_entries c)) \<le> maxTotal \<and> (\<forall>u. user_count c u \<le> maxUser)"
  proof -
    have i: "index_ok c" using ok by (simp add: cache_ok_def)
    have "length (ric_order c) = gm_len (ric_entries c)"
      using i distinct_card [of "ric_order c"] unfolding index_ok_def by (simp add: gm_len_def fcard.rep_eq)
    moreover have "int (length (ric_order c)) \<le> max 0 maxTotal" "\<And>u. user_count c u \<le> max 0 maxUser"
      using i lim unfolding index_ok_def by metis+
    ultimately show ?thesis using limits by (simp add: max_def split: if_splits)
  qed
  ultimately show ?thesis using claim r x(1,2) by (cases "equalHexDigest (re_requestHMAC x) h") auto
qed

subsection \<open>An example\<close>

definition runtime_result :: RuntimeCommandResult where
  "runtime_result = \<lparr>ru_Result = \<lparr>rr_CommandID = 11, rr_Status = 200, rr_Body = ''{ }'',
     rr_Headers = \<lparr>ih_ETag = '''', ih_ParentETag = '''', ih_Location = '''', ih_CacheControl = '''', ih_Pragma = ''''\<rparr>,
     rr_Checkpoint = \<lparr>cp_StreamEpoch = replicate 32 (CHR ''a''), cp_GEID = 4\<rparr>, rr_StateCursor = ''c''\<rparr>, ru_Value = 9\<rparr>"

definition runtime_key :: string where "runtime_key = replicate 16 (CHR ''a'')"
definition runtime_hmac :: string where "runtime_hmac = replicate 64 (CHR ''0'')"
definition runtime_claim :: RuntimeIdempotencyClaim where "runtime_claim = \<lparr>rcl_key = (7, runtime_key), rcl_entry = 0, rcl_owner = True\<rparr>"
definition claimed_cache :: RuntimeIdempotencyCache where
  "claimed_cache = snd (Claim NewRuntimeIdempotencyCache 7 runtime_key runtime_hmac 5)"

lemma runtime_valid: "IdempotencyKeyValid runtime_key" "validRequestHMAC runtime_hmac" "equalHexDigest runtime_hmac runtime_hmac"
  by code_simp+

lemma runtime_canonical: "canonicalizeRuntimeCommandResult example_env runtime_result = Return (runtime_result\<lparr>ru_Result := (ru_Result runtime_result)\<lparr>rr_Body := ''{}''\<rparr>\<rparr>)"
  by (simp add: canonicalizeRuntimeCommandResult_def canonicalizeCommandResult_def runtime_result_def canonical_body_def canonicalJSONValue_def example_env_def
      invalidResourceHeaders_def hasControlCharacters_def validateStreamEpoch_def streamEpochBytes_def hex_lower_def list_all_iff outcome_bind_def)

lemma claimed_cache_fields:
  "ric_entries claimed_cache = fmupd (7, runtime_key) 0 fmempty" "ric_heap claimed_cache = fmupd 0 (newEntry runtime_hmac) fmempty"
  "ric_ttl claimed_cache = RuntimeIdempotencyTTL"
  using runtime_valid by (simp_all add: claimed_cache_def Claim_def NewRuntimeIdempotencyCache_def newRuntimeIdempotencyCache_def cachePruneLocked_def makeRoomLocked_def
      user_count_def MaxRuntimeIdempotencyRecords_def MaxRuntimeIdempotencyRecordsPerUser_def gm_len_def fcard.rep_eq)

theorem runtime_replay_exact_witness:
  "\<exists>c'. CompleteClaim example_env claimed_cache runtime_claim runtime_result 6 = (Return (), c') \<and>
     (\<exists>c3. Claim c' 7 runtime_key runtime_hmac 8 = (Return \<lparr>rcl_key = (7, runtime_key), rcl_entry = 0, rcl_owner = False\<rparr>, c3) \<and>
        WaitClaim c3 \<lparr>rcl_key = (7, runtime_key), rcl_entry = 0, rcl_owner = False\<rparr> False False =
          Some (Return (runtime_result\<lparr>ru_Result := (ru_Result runtime_result)\<lparr>rr_Body := ''{}''\<rparr>\<rparr>)))"
proof -
  obtain c' where c': "CompleteClaim example_env claimed_cache runtime_claim runtime_result 6 = (Return (), c')"
    using runtime_canonical by (simp add: CompleteClaim_def runtime_claim_def claimed_cache_fields newEntry_def)
  have "ric_run (\<lambda>_. True) NewRuntimeIdempotencyCache claimed_cache"
    unfolding claimed_cache_def by (rule ric_run.more [OF ric_run.start _ ric_step.claim]) simp
  note run = this [unfolded NewRuntimeIdempotencyCache_def]
  have "0 \<le> MaxRuntimeIdempotencyRecords" "0 \<le> MaxRuntimeIdempotencyRecordsPerUser" "(8::gotime) < 6 + RuntimeIdempotencyTTL"
    "sint (fst (rcl_key runtime_claim)) > 0" "IdempotencyKeyValid (snd (rcl_key runtime_claim))"
    using runtime_valid by (simp_all add: MaxRuntimeIdempotencyRecords_def MaxRuntimeIdempotencyRecordsPerUser_def RuntimeIdempotencyTTL_def runtime_claim_def)
  from runtime_replay_exact [OF run this(1,2) c' ric_run.start this(3,4,5) runtime_valid(2)] c' runtime_canonical runtime_valid(3)
  show ?thesis by (auto simp: claimed_cache_fields runtime_claim_def newEntry_def)
qed

end
