(* ===== verification/Etag.thy ===== *)
theory Etag
  imports Cursor
begin

text \<open>
  Strong entity tags of \<^verbatim>\<open>internal/realtime/etag.go\<close>: the tag of a versioned resource, the syntax check of a
  precondition header, and the digest tag of an effective permission configuration.  SHA-256 and the JSON
  codec of a permission map are parameters: \<open>unmarshal\<close> yields \<open>None\<close> for an error and \<open>Some None\<close> for
  \<^verbatim>\<open>null\<close>.  The two regular expressions are written out as predicates on the bytes.  \<^verbatim>\<open>StrongETagValid\<close>
  ranges over the runes of the text; a rune outside ASCII is never one of the four rejected ones, and its
  bytes are all at least 0x80, so the loop over the bytes gives the same answer.
\<close>

section \<open>Definitions\<close>

datatype etag_error = ErrInvalidEntityETag | ErrInvalidConfigETag

type_synonym grants = "(string, string list) fmap"
type_synonym grants_decoder = "string \<Rightarrow> grants option option"
type_synonym grants_encoder = "grants \<Rightarrow> string"

definition lower_letter :: "char \<Rightarrow> bool" where
  "lower_letter c = (97 \<le> (of_char c :: nat) \<and> (of_char c :: nat) \<le> 122)"

definition role_key_char :: "char \<Rightarrow> bool" where
  "role_key_char c = (lower_letter c \<or> digit_value c \<noteq> None \<or> c \<in> {CHR ''_'', CHR ''.'', CHR ''-''})"

definition roleKeyPattern :: "string \<Rightarrow> bool" where
  "roleKeyPattern s = (case s of [] \<Rightarrow> False | c # cs \<Rightarrow> lower_letter c \<and> length cs \<le> 63 \<and> list_all role_key_char cs)"

definition isCanonicalPositiveID :: "string \<Rightarrow> bool" where
  "isCanonicalPositiveID value = (case ParseInt value of None \<Rightarrow> False | Some i \<Rightarrow> sint i > 0 \<and> FormatInt i = value)"

definition entity_tag :: "string \<Rightarrow> string \<Rightarrow> int64 \<Rightarrow> string" where
  "entity_tag kind identity version = ''\"'' @ kind @ '':'' @ identity @ '':'' @ FormatInt version @ ''\"''"

definition EntityETag :: "string \<Rightarrow> string \<Rightarrow> int64 \<Rightarrow> (etag_error, string) outcome" where
  "EntityETag kind identity version =
     (if sint version < 1 then Fail ErrInvalidEntityETag
      else if kind \<in> {''group'', ''channel'', ''mute''}
      then (if \<not> isCanonicalPositiveID identity then Fail ErrInvalidEntityETag else Return (entity_tag kind identity version))
      else if kind = ''role''
      then (if \<not> roleKeyPattern identity then Fail ErrInvalidEntityETag else Return (entity_tag kind identity version))
      else Fail ErrInvalidEntityETag)"

definition NumericEntityETag :: "string \<Rightarrow> int64 \<Rightarrow> int64 \<Rightarrow> (etag_error, string) outcome" where
  "NumericEntityETag kind i version = (if sint i \<le> 0 then Fail ErrInvalidEntityETag else EntityETag kind (FormatInt i) version)"

definition StrongETagValid :: "string \<Rightarrow> bool" where
  "StrongETagValid value =
     (if length value < 3 \<or> hd value \<noteq> CHR ''\"'' \<or> last value \<noteq> CHR ''\"'' \<or> CHR '','' \<in> set value then False
      else list_all (\<lambda>c. \<not> (c = CHR ''\"'' \<or> c = CHR 0x5C \<or> (of_char c :: nat) < 0x20 \<or> (of_char c :: nat) = 0x7F)) (butlast (tl value)))"

record EffectiveConfigETagInput =
  ei_Target :: Scope
  ei_Local :: bool
  ei_Source :: Scope
  ei_SourceVersion :: int64
  ei_Config :: string

definition canonicalJSON :: "grants_decoder \<Rightarrow> grants_encoder \<Rightarrow> string \<Rightarrow> string option" where
  "canonicalJSON unmarshal marshal raw = (case unmarshal raw of Some (Some value) \<Rightarrow> Some (marshal value) | _ \<Rightarrow> None)"

definition config_fact :: "EffectiveConfigETagInput \<Rightarrow> string \<Rightarrow> string" where
  "config_fact i config =
     ''target='' @ ScopeKey (ei_Target i) @ [CHR 0x0A] @ ''local='' @ (if ei_Local i then ''true'' else ''false'') @ [CHR 0x0A] @
     ''source='' @ ScopeKey (ei_Source i) @ [CHR 0x0A] @ ''source_version='' @ FormatInt (ei_SourceVersion i) @ [CHR 0x0A] @
     ''config='' @ config"

definition EffectiveConfigETag :: "(string \<Rightarrow> bytes) \<Rightarrow> grants_decoder \<Rightarrow> grants_encoder \<Rightarrow> EffectiveConfigETagInput \<Rightarrow> (etag_error, string) outcome" where
  "EffectiveConfigETag sha256 unmarshal marshal i =
     (if \<not> ScopeValid (ei_Target i) \<or> \<not> ScopeValid (ei_Source i) \<or> sint (ei_SourceVersion i) < 1 then Fail ErrInvalidConfigETag
      else case canonicalJSON unmarshal marshal (ei_Config i) of None \<Rightarrow> Fail ErrInvalidConfigETag
        | Some config \<Rightarrow>
            Return (''\"'' @ EncodeToString (map (\<lambda>b. char_of (unat b)) (sha256 (config_fact i config))) @ ''\"''))"

section \<open>Theorems\<close>

lemma split_unique:
  assumes "xs @ c # r = ys @ c # r'" "c \<notin> set xs" "c \<notin> set ys"
  shows "xs = ys \<and> r = r'"
proof -
  have "xs = takeWhile (\<lambda>y. y \<noteq> c) (xs @ c # r)" using assms(2) by (simp add: takeWhile_split)
  also have "\<dots> = ys" unfolding assms(1) using assms(3) by (simp add: takeWhile_split)
  finally show ?thesis using assms(1) by simp
qed

text \<open>Characters of the components of a tag.\<close>

definition tag_char :: "char \<Rightarrow> bool" where
  "tag_char c \<longleftrightarrow> c \<noteq> CHR '':'' \<and> c \<noteq> CHR ''\"'' \<and> c \<noteq> CHR '','' \<and> c \<noteq> CHR 0x5C \<and> 0x20 \<le> (of_char c :: nat) \<and> (of_char c :: nat) \<noteq> 0x7F"

lemma tag_char_codes:
  "48 \<le> (of_char c :: nat) \<Longrightarrow> (of_char c :: nat) \<le> 57 \<Longrightarrow> tag_char c" "lower_letter c \<Longrightarrow> tag_char c"
  "c \<in> {CHR ''_'', CHR ''.'', CHR ''-''} \<Longrightarrow> tag_char c"
  by (auto simp: tag_char_def lower_letter_def)

lemma tag_char_digit: "digit_value c \<noteq> None \<Longrightarrow> tag_char c"
  by (rule tag_char_codes(1)) (auto simp: digit_value_def Let_def split: if_splits)

lemma tag_char_role_key: "roleKeyPattern s \<Longrightarrow> list_all tag_char s"
  by (auto simp: roleKeyPattern_def role_key_char_def list_all_iff split: list.splits intro: tag_char_codes tag_char_digit)

lemma tag_char_FormatInt: "0 \<le> sint w \<Longrightarrow> list_all tag_char (FormatInt w)"
  by (auto simp: FormatInt_nonneg list_all_iff intro!: tag_char_digit dest: decimal_digits)

lemma tag_char_id: "isCanonicalPositiveID s \<Longrightarrow> list_all tag_char s"
  using tag_char_FormatInt by (fastforce simp: isCanonicalPositiveID_def split: option.splits)

lemma EntityETag_parts:
  assumes "EntityETag kind identity version = Return t"
  shows "t = entity_tag kind identity version" "list_all tag_char kind" "list_all tag_char identity" "list_all tag_char (FormatInt version)" "0 \<le> sint version"
proof -
  have k: "kind \<in> {''group'', ''channel'', ''mute'', ''role''}" and v: "sint version \<ge> 1" and t: "t = entity_tag kind identity version"
    and i: "isCanonicalPositiveID identity \<or> roleKeyPattern identity"
    using assms by (auto simp: EntityETag_def split: if_splits)
  show "t = entity_tag kind identity version" by (rule t)
  show "list_all tag_char kind" using k by (auto simp: tag_char_def)
  show "list_all tag_char identity" using i tag_char_id tag_char_role_key by blast
  show "0 \<le> sint version" using v by simp
  then show "list_all tag_char (FormatInt version)" by (rule tag_char_FormatInt)
qed

text \<open>What the syntax check rejects between the quotes.\<close>

definition quoted_char :: "char \<Rightarrow> bool" where
  "quoted_char c \<longleftrightarrow> \<not> (c = CHR ''\"'' \<or> c = CHR 0x5C \<or> (of_char c :: nat) < 0x20 \<or> (of_char c :: nat) = 0x7F)"

lemma tag_char_quoted: "tag_char c \<Longrightarrow> quoted_char c \<and> c \<noteq> CHR '',''" "quoted_char (CHR '':'')" "\<not> tag_char (CHR '':'')"
  "\<not> tag_char (CHR 0x0A)"
  by (simp_all add: tag_char_def quoted_char_def)

lemma StrongETagValid_quoted:
  assumes "list_all quoted_char body" "CHR '','' \<notin> set body" "body \<noteq> []"
  shows "StrongETagValid (CHR ''\"'' # body @ ''\"'')"
proof -
  have "\<not> length (CHR ''\"'' # body @ ''\"'') < 3" using assms(3) by (cases body) simp_all
  moreover have "butlast (tl (CHR ''\"'' # body @ ''\"'')) = body" by simp
  ultimately show ?thesis using assms(1,2) unfolding StrongETagValid_def quoted_char_def by simp
qed

lemma entity_etag_strong:
  assumes "EntityETag kind identity version = Return t"
  shows "StrongETagValid t"
proof -
  note p = EntityETag_parts [OF assms]
  define body where "body = kind @ CHR '':'' # identity @ CHR '':'' # FormatInt version"
  have "list_all quoted_char body" using p(2,3,4) tag_char_quoted by (auto simp: body_def list_all_iff)
  moreover have "CHR '','' \<notin> set body" using p(2,3,4) tag_char_quoted(1) by (auto simp: body_def list_all_iff)
  ultimately have "StrongETagValid (CHR ''\"'' # body @ ''\"'')" by (intro StrongETagValid_quoted) (simp_all add: body_def)
  then show ?thesis using p(1) by (simp add: entity_tag_def body_def)
qed

lemma entity_tag_inj:
  assumes "EntityETag k i v = Return t" "EntityETag k' i' v' = Return t"
  shows "k = k' \<and> i = i' \<and> v = v'"
proof -
  note p = EntityETag_parts [OF assms(1)] and q = EntityETag_parts [OF assms(2)]
  have no: "list_all tag_char s \<Longrightarrow> CHR '':'' \<notin> set s" for s using tag_char_quoted(3) by (auto simp: list_all_iff)
  have e: "k @ CHR '':'' # (i @ CHR '':'' # (FormatInt v @ ''\"'')) = k' @ CHR '':'' # (i' @ CHR '':'' # (FormatInt v' @ ''\"''))"
    using p(1) q(1) by (simp add: entity_tag_def)
  from split_unique [OF e no [OF p(2)] no [OF q(2)]] have k: "k = k'"
    and e2: "i @ CHR '':'' # (FormatInt v @ ''\"'') = i' @ CHR '':'' # (FormatInt v' @ ''\"'')" by auto
  from split_unique [OF e2 no [OF p(3)] no [OF q(3)]] have "i = i'" and "FormatInt v = FormatInt v'" by auto
  with k show ?thesis using FormatInt_inj by blast
qed

text \<open>The digest of a configuration tag determines the fact it was computed from.\<close>

lemma no_break_ScopeKey: "ScopeValid s \<Longrightarrow> CHR 0x0A \<notin> set (ScopeKey s)"
proof -
  assume v: "ScopeValid s"
  then have "0 \<le> sint (sc_ID s)" by (auto simp: ScopeValid_def split: if_splits)
  from tag_char_FormatInt [OF this] have "CHR 0x0A \<notin> set (FormatInt (sc_ID s))"
    using tag_char_quoted(4) by (auto simp: list_all_iff)
  with v show ?thesis by (auto simp: ScopeKey_def ScopeValid_def split: if_splits)
qed

lemma config_fact_inj:
  assumes eq: "config_fact a c = config_fact b d"
    and a: "ScopeValid (ei_Target a)" "ScopeValid (ei_Source a)" "0 \<le> sint (ei_SourceVersion a)"
    and b: "ScopeValid (ei_Target b)" "ScopeValid (ei_Source b)" "0 \<le> sint (ei_SourceVersion b)"
  shows "ei_Target a = ei_Target b \<and> ei_Local a = ei_Local b \<and> ei_Source a = ei_Source b \<and> ei_SourceVersion a = ei_SourceVersion b \<and> c = d"
proof -
  have nob: "0 \<le> sint w \<Longrightarrow> CHR 0x0A \<notin> set (FormatInt w)" for w
    using tag_char_FormatInt [of w] tag_char_quoted(4) by (auto simp: list_all_iff)
  define L where "L x = (if x then ''true'' else ''false'')" for x :: bool
  have L: "CHR 0x0A \<notin> set (L x)" "L x = L y \<Longrightarrow> x = y" for x y by (auto simp: L_def split: if_splits)
  define r4 where "r4 x e = FormatInt (ei_SourceVersion x) @ CHR 0x0A # (''config='' @ e)" for x :: EffectiveConfigETagInput and e
  define r3 where "r3 x e = ScopeKey (ei_Source x) @ CHR 0x0A # (''source_version='' @ r4 x e)" for x :: EffectiveConfigETagInput and e
  define r2 where "r2 x e = L (ei_Local x) @ CHR 0x0A # (''source='' @ r3 x e)" for x :: EffectiveConfigETagInput and e
  have f: "config_fact x e = ''target='' @ ScopeKey (ei_Target x) @ CHR 0x0A # (''local='' @ r2 x e)" for x e
    by (simp add: config_fact_def r2_def r3_def r4_def L_def)
  have e1: "ScopeKey (ei_Target a) @ CHR 0x0A # (''local='' @ r2 a c) = ScopeKey (ei_Target b) @ CHR 0x0A # (''local='' @ r2 b d)"
    using eq by (simp add: f)
  from split_unique [OF e1 no_break_ScopeKey [OF a(1)] no_break_ScopeKey [OF b(1)]]
  have t: "ScopeKey (ei_Target a) = ScopeKey (ei_Target b)" and e2: "r2 a c = r2 b d" by auto
  from split_unique [OF e2 [unfolded r2_def] L(1) L(1)] have l: "ei_Local a = ei_Local b" and e3: "r3 a c = r3 b d"
    using L(2) by auto
  from split_unique [OF e3 [unfolded r3_def] no_break_ScopeKey [OF a(2)] no_break_ScopeKey [OF b(2)]]
  have s: "ScopeKey (ei_Source a) = ScopeKey (ei_Source b)" and e4: "r4 a c = r4 b d" by auto
  from split_unique [OF e4 [unfolded r4_def] nob [OF a(3)] nob [OF b(3)]]
  have "FormatInt (ei_SourceVersion a) = FormatInt (ei_SourceVersion b)" "c = d" by auto
  then show ?thesis using l t s a b by (auto intro: ScopeKey_inj FormatInt_inj)
qed

lemma EncodeToString_inj: "EncodeToString s = EncodeToString t \<Longrightarrow> s = t"
  by (metis DecodeString_EncodeToString option.inject)

lemma bytes_text_inj: "map (\<lambda>b. char_of (unat b)) xs = map (\<lambda>b. char_of (unat b)) ys \<Longrightarrow> xs = (ys :: bytes)"
proof (rule map_inj_on [where f = "\<lambda>b. char_of (unat b)"])
  have "inj (\<lambda>b::byte. char_of (unat b) :: char)"
  proof (rule injI)
    fix a b :: byte
    assume "(char_of (unat a) :: char) = char_of (unat b)"
    then have "(of_char (char_of (unat a) :: char) :: nat) = of_char (char_of (unat b) :: char)" by simp
    then show "a = b" using unsigned_less [of a, where 'a = nat] unsigned_less [of b, where 'a = nat] by (simp add: word_unat_eq_iff)
  qed
  then show "inj_on (\<lambda>b::byte. char_of (unat b) :: char) (set xs \<union> set ys)" by (rule inj_on_subset) simp
qed

text \<open>Two effective configurations have the same entity tag only when they are the same fact: same target scope, local or
  inherited alike, the same source scope at the same version, and the same canonical configuration text, unless SHA-256 maps the
  two texts to one digest.\<close>

theorem config_etag_identifies:
  assumes "EffectiveConfigETag sha256 unmarshal marshal a = Return t" "EffectiveConfigETag sha256 unmarshal marshal b = Return t"
    "canonicalJSON unmarshal marshal (ei_Config a) = Some c" "canonicalJSON unmarshal marshal (ei_Config b) = Some d"
    "sha256 (config_fact a c) = sha256 (config_fact b d) \<longrightarrow> config_fact a c = config_fact b d"
  shows "ei_Target a = ei_Target b \<and> ei_Local a = ei_Local b \<and> ei_Source a = ei_Source b \<and> ei_SourceVersion a = ei_SourceVersion b \<and> c = d"
proof -
  have v: "ScopeValid (ei_Target x)" "ScopeValid (ei_Source x)" "0 \<le> sint (ei_SourceVersion x)"
    if "EffectiveConfigETag sha256 unmarshal marshal x = Return t" for x
    using that by (auto simp: EffectiveConfigETag_def split: if_splits)
  have "sha256 (config_fact a c) = sha256 (config_fact b d)"
    using assms(1-4) by (auto simp: EffectiveConfigETag_def split: if_splits dest!: EncodeToString_inj bytes_text_inj)
  with assms(5) have "config_fact a c = config_fact b d" by simp
  then show ?thesis by (rule config_fact_inj) (use v [OF assms(1)] v [OF assms(2)] in auto)
qed

theorem config_etag_identifies_witness:
  "\<exists>t. EffectiveConfigETag (\<lambda>s. map (\<lambda>c. of_nat (of_char c)) s) (\<lambda>_. Some (Some fmempty)) (\<lambda>_. ''{}'')
      \<lparr>ei_Target = \<lparr>sc_Type = ''group'', sc_ID = 7\<rparr>, ei_Local = False, ei_Source = server_scope, ei_SourceVersion = 3, ei_Config = ''{}''\<rparr> = Return t \<and>
    (\<lparr>sc_Type = ''group'', sc_ID = 7\<rparr> :: Scope) = \<lparr>sc_Type = ''group'', sc_ID = 7\<rparr>"
proof -
  let ?e = "EffectiveConfigETag (\<lambda>s. map (\<lambda>c. of_nat (of_char c)) s) (\<lambda>_. Some (Some fmempty)) (\<lambda>_. ''{}'')
      \<lparr>ei_Target = \<lparr>sc_Type = ''group'', sc_ID = 7\<rparr>, ei_Local = False, ei_Source = server_scope, ei_SourceVersion = 3, ei_Config = ''{}''\<rparr>"
  obtain t where t: "?e = Return t" by (auto simp: EffectiveConfigETag_def ScopeValid_def canonicalJSON_def)
  have c: "canonicalJSON (\<lambda>_. Some (Some fmempty)) (\<lambda>_. ''{}'') (ei_Config \<lparr>ei_Target = \<lparr>sc_Type = ''group'', sc_ID = 7\<rparr>, ei_Local = False,
    ei_Source = server_scope, ei_SourceVersion = 3, ei_Config = ''{}''\<rparr>) = Some ''{}''" by (simp add: canonicalJSON_def)
  show ?thesis using t config_etag_identifies [OF t t c c] by simp
qed

end
