(* ===== verification/RoleStore.thy ===== *)
theory RoleStore
  imports Etag
begin

text \<open>
  The persisted side of role administration: the tables of \<^verbatim>\<open>internal/db/schema.sql\<close> with the constraints the
  code relies on, the queries of \<^verbatim>\<open>internal/db/roles.sql.go\<close> and \<^verbatim>\<open>configs.sql.go\<close>, and the stores above them
  (\<^verbatim>\<open>internal/store/role_store.go\<close>, \<^verbatim>\<open>config_store.go\<close>, \<^verbatim>\<open>installation_store.go\<close>, \<^verbatim>\<open>bootstrap.go\<close>,
  \<^verbatim>\<open>state_projection.go\<close>).  A table is a finite map from its primary key; a row that a CHECK rejects fails with
  \<open>ErrCheck\<close> (the driver's error, which \<^verbatim>\<open>mapError\<close> passes on), a UNIQUE or FOREIGN KEY violation with
  \<open>ErrRowConflict\<close>.  A failing operation returns no database: its transaction is rolled back by the caller.
  Failures of the database itself (I/O, a cancelled context) are not modelled.  Parameters, in \<open>store_env\<close>:
  the JSON codec of a permission map and the \<^verbatim>\<open>length\<close> of SQLite, which counts the characters of a text.  The
  clock and the identifiers drawn from the generator (\<open>None\<close>: it failed) are arguments.
\<close>

section \<open>Definitions\<close>

subsection \<open>Tables\<close>

datatype admin_error = ErrRowNotFound | ErrRowConflict | ErrCheck | ErrNextID | ErrOwnerBindingProtected | ErrBuiltinRoleProtected
  | ErrOwnerTransferForbidden | ErrOwnerTransferTarget | ErrInstallationInvariant | ErrInvalidPermissionConfig | ErrInvalidConfigScope
  | ErrDecode | ErrInvalidRoleKey | ErrRankProtected | ErrImmutableRole | ErrBuiltinRole | ErrInvalidScope | ErrManagementLost
  | ErrRoleManageRequired | ErrRealtimeUnavailable | ErrPreconditionFailed | ErrBootstrap

record store_env =
  se_unmarshal :: grants_decoder
  se_marshal :: grants_encoder
  se_length :: "string \<Rightarrow> nat"

record role_db =
  rd_users :: "(int64, db_User) fmap"
  rd_roles :: "(string, db_Role) fmap"
  rd_groups :: "(int64, db_ChannelGroup) fmap"
  rd_channels :: "(int64, db_Channel) fmap"
  rd_groupAccess :: "(int64, db_Access) fmap"
  rd_channelAccess :: "(int64, db_Access) fmap"
  rd_inviteRoles :: "(int64, string) fmap"
  rd_bindings :: "(int64, db_UserRoleBinding) fmap"
  rd_serverConfig :: "db_ScopePermissionConfig option"
  rd_groupConfigs :: "(int64, db_ScopePermissionConfig) fmap"
  rd_channelConfigs :: "(int64, db_ScopePermissionConfig) fmap"
  rd_mutes :: "(int64, db_ModerationMute) fmap"
  rd_installation :: "(string \<times> int64) option"

abbreviation found :: "'a option \<Rightarrow> (admin_error, 'a) outcome" where
  "found x \<equiv> (case x of None \<Rightarrow> Fail ErrRowNotFound | Some a \<Rightarrow> Return a)"

definition ownerRole :: string where "ownerRole = ''owner''"
definition adminRole :: string where "adminRole = ''admin''"
definition memberRole :: string where "memberRole = ''member''"

text \<open>The rows of a table in the order of their identifiers.\<close>

definition id_rows :: "(int64, 'r) fmap \<Rightarrow> 'r list" where
  "id_rows m = List.map_filter (fmlookup m) (sortedIntKeys m)"

definition null_first :: "int64 option \<Rightarrow> int list" where
  "null_first x = (case x of None \<Rightarrow> [] | Some w \<Rightarrow> [sint w])"

definition scope_columns_ok :: "string \<Rightarrow> int64 option \<Rightarrow> int64 option \<Rightarrow> bool" where
  "scope_columns_ok t g c = ((t = ''server'' \<and> g = None \<and> c = None) \<or> (t = ''group'' \<and> g \<noteq> None \<and> c = None) \<or> (t = ''channel'' \<and> g = None \<and> c \<noteq> None))"

definition role_check :: "store_env \<Rightarrow> db_Role \<Rightarrow> bool" where
  "role_check e r = (1 \<le> se_length e (dbr_Key r) \<and> se_length e (dbr_Key r) \<le> 64 \<and> 1 \<le> se_length e (dbr_DisplayName r) \<and> se_length e (dbr_DisplayName r) \<le> 64 \<and>
     0 \<le> sint (dbr_Rank r) \<and> sint (dbr_Rank r) \<le> 1000000 \<and> dbr_Builtin r \<in> {0, 1} \<and> dbr_Immutable r \<in> {0, 1} \<and>
     0 \<le> sint (dbr_CreatedAt r) \<and> 0 \<le> sint (dbr_UpdatedAt r) \<and> 1 \<le> sint (dbr_Version r) \<and>
     ((dbr_Key r = ''owner'' \<and> dbr_Rank r = 1000000 \<and> dbr_Builtin r = 1 \<and> dbr_Immutable r = 1) \<or>
      (dbr_Key r \<noteq> ''owner'' \<and> sint (dbr_Rank r) < 1000000 \<and> dbr_Immutable r = 0)))"

definition binding_check :: "db_UserRoleBinding \<Rightarrow> bool" where
  "binding_check b = (0 < sint (dbb_ID b) \<and> 0 \<le> sint (dbb_CreatedAt b) \<and> scope_columns_ok (dbb_ScopeType b) (dbb_GroupID b) (dbb_ChannelID b) \<and>
     (dbb_RoleKey b \<noteq> ''owner'' \<or> dbb_ScopeType b = ''server''))"

text \<open>The unique indexes of \<^verbatim>\<open>user_role_bindings\<close>: one row per user, role and scope, and one owner row.\<close>

definition binding_clash :: "db_UserRoleBinding \<Rightarrow> db_UserRoleBinding \<Rightarrow> bool" where
  "binding_clash a b = (dbb_ID a = dbb_ID b \<or>
     (dbb_UserID a = dbb_UserID b \<and> dbb_RoleKey a = dbb_RoleKey b \<and> dbb_ScopeType a = dbb_ScopeType b \<and>
       (dbb_ScopeType a = ''server'' \<or> (dbb_ScopeType a = ''group'' \<and> dbb_GroupID a = dbb_GroupID b) \<or>
        (dbb_ScopeType a = ''channel'' \<and> dbb_ChannelID a = dbb_ChannelID b))) \<or>
     (dbb_RoleKey a = ''owner'' \<and> dbb_RoleKey b = ''owner''))"

definition binding_parents :: "role_db \<Rightarrow> db_UserRoleBinding \<Rightarrow> bool" where
  "binding_parents d b = (fmlookup (rd_users d) (dbb_UserID b) \<noteq> None \<and> fmlookup (rd_roles d) (dbb_RoleKey b) \<noteq> None \<and>
     (case dbb_GroupID b of None \<Rightarrow> True | Some g \<Rightarrow> fmlookup (rd_groups d) g \<noteq> None) \<and>
     (case dbb_ChannelID b of None \<Rightarrow> True | Some c \<Rightarrow> fmlookup (rd_channels d) c \<noteq> None))"

definition config_check :: "db_ScopePermissionConfig \<Rightarrow> bool" where
  "config_check c = (scope_columns_ok (dbp_ScopeType c) (dbp_GroupID c) (dbp_ChannelID c) \<and> 0 \<le> sint (dbp_UpdatedAt c) \<and> 1 \<le> sint (dbp_Version c))"

text \<open>The configuration table holds one row per scope: the server row, and rows by group and by channel.\<close>

abbreviation group_scope :: "int64 \<Rightarrow> Scope" where "group_scope i \<equiv> \<lparr>sc_Type = ''group'', sc_ID = i\<rparr>"
abbreviation channel_scope :: "int64 \<Rightarrow> Scope" where "channel_scope i \<equiv> \<lparr>sc_Type = ''channel'', sc_ID = i\<rparr>"

definition config_at :: "role_db \<Rightarrow> Scope \<Rightarrow> db_ScopePermissionConfig option" where
  "config_at d s = (if sc_Type s = ''server'' then rd_serverConfig d
     else if sc_Type s = ''group'' then fmlookup (rd_groupConfigs d) (sc_ID s)
     else if sc_Type s = ''channel'' then fmlookup (rd_channelConfigs d) (sc_ID s) else None)"

definition set_config :: "role_db \<Rightarrow> Scope \<Rightarrow> db_ScopePermissionConfig \<Rightarrow> role_db" where
  "set_config d s row = (if sc_Type s = ''server'' then d\<lparr>rd_serverConfig := Some row\<rparr>
     else if sc_Type s = ''group'' then d\<lparr>rd_groupConfigs := fmupd (sc_ID s) row (rd_groupConfigs d)\<rparr>
     else d\<lparr>rd_channelConfigs := fmupd (sc_ID s) row (rd_channelConfigs d)\<rparr>)"

definition drop_config :: "role_db \<Rightarrow> Scope \<Rightarrow> role_db" where
  "drop_config d s = (if sc_Type s = ''group'' then d\<lparr>rd_groupConfigs := fmdrop (sc_ID s) (rd_groupConfigs d)\<rparr>
     else d\<lparr>rd_channelConfigs := fmdrop (sc_ID s) (rd_channelConfigs d)\<rparr>)"

definition config_rows :: "role_db \<Rightarrow> db_ScopePermissionConfig list" where
  "config_rows d = id_rows (rd_channelConfigs d) @ id_rows (rd_groupConfigs d) @ (case rd_serverConfig d of None \<Rightarrow> [] | Some row \<Rightarrow> [row])"

subsection \<open>Role queries\<close>

definition GetRoleByKey :: "role_db \<Rightarrow> string \<Rightarrow> (admin_error, db_Role) outcome" where
  "GetRoleByKey d key = found (fmlookup (rd_roles d) key)"

definition InsertRoleRow :: "store_env \<Rightarrow> role_db \<Rightarrow> db_Role \<Rightarrow> (admin_error, db_Role \<times> role_db) outcome" where
  "InsertRoleRow e d r =
     (if \<not> role_check e r then Fail ErrCheck
      else if fmlookup (rd_roles d) (dbr_Key r) \<noteq> None then Fail ErrRowConflict
      else Return (r, d\<lparr>rd_roles := fmupd (dbr_Key r) r (rd_roles d)\<rparr>))"

definition UpdateRoleRow :: "store_env \<Rightarrow> role_db \<Rightarrow> int64 \<Rightarrow> string \<Rightarrow> string \<Rightarrow> int64 \<Rightarrow> (admin_error, db_Role \<times> role_db) outcome" where
  "UpdateRoleRow e d now key displayName rank =
     (case fmlookup (rd_roles d) key of None \<Rightarrow> Fail ErrRowNotFound
      | Some r \<Rightarrow>
          let r' = r\<lparr>dbr_DisplayName := displayName, dbr_Rank := rank, dbr_UpdatedAt := now, dbr_Version := dbr_Version r + 1\<rparr>
          in if \<not> role_check e r' then Fail ErrCheck else Return (r', d\<lparr>rd_roles := fmupd key r' (rd_roles d)\<rparr>))"

definition DeleteRoleRow :: "role_db \<Rightarrow> string \<Rightarrow> (admin_error, role_db) outcome" where
  "DeleteRoleRow d key =
     (if fmlookup (rd_roles d) key = None then Fail ErrRowNotFound
      else if \<not> fmpred (\<lambda>_ b. dbb_RoleKey b \<noteq> key) (rd_bindings d) \<or> \<not> fmpred (\<lambda>_ a. dba_RoleKey a \<noteq> Some key) (rd_groupAccess d) \<or>
        \<not> fmpred (\<lambda>_ a. dba_RoleKey a \<noteq> Some key) (rd_channelAccess d) \<or> \<not> fmpred (\<lambda>_ k. k \<noteq> key) (rd_inviteRoles d) then Fail ErrRowConflict
      else Return (d\<lparr>rd_roles := fmdrop key (rd_roles d)\<rparr>))"

definition ListRoleRows :: "role_db \<Rightarrow> db_Role list" where
  "ListRoleRows d = sort_by (\<lambda>r. - sint (dbr_Rank r)) (sort_by dbr_DisplayName (sort_by dbr_Key (map_values (rd_roles d))))"

definition config_mentions :: "store_env \<Rightarrow> string \<Rightarrow> db_ScopePermissionConfig \<Rightarrow> bool" where
  "config_mentions e key c = (case se_unmarshal e (dbp_Config c) of Some (Some g) \<Rightarrow> fmlookup g key \<noteq> None | _ \<Rightarrow> False)"

definition CountRoleReferences :: "store_env \<Rightarrow> role_db \<Rightarrow> string \<Rightarrow> nat" where
  "CountRoleReferences e d key =
     gm_len (gm_filter (\<lambda>_ b. dbb_RoleKey b = key) (rd_bindings d)) + gm_len (gm_filter (\<lambda>_ a. dba_RoleKey a = Some key) (rd_groupAccess d)) +
     gm_len (gm_filter (\<lambda>_ a. dba_RoleKey a = Some key) (rd_channelAccess d)) + gm_len (gm_filter (\<lambda>_ k. k = key) (rd_inviteRoles d)) +
     length (filter (config_mentions e key) (config_rows d))"

subsection \<open>Binding queries\<close>

definition CountOwners :: "role_db \<Rightarrow> nat" where
  "CountOwners d = gm_len (gm_filter (\<lambda>_ b. dbb_RoleKey b = ''owner'') (rd_bindings d))"

definition GetOwnerBinding :: "role_db \<Rightarrow> (admin_error, db_UserRoleBinding) outcome" where
  "GetOwnerBinding d = found (List.find (\<lambda>b. dbb_RoleKey b = ''owner'') (id_rows (rd_bindings d)))"

definition GetRoleBindingByID :: "role_db \<Rightarrow> int64 \<Rightarrow> (admin_error, db_UserRoleBinding) outcome" where
  "GetRoleBindingByID d i = found (fmlookup (rd_bindings d) i)"

definition InsertRoleBinding :: "role_db \<Rightarrow> db_UserRoleBinding \<Rightarrow> (admin_error, db_UserRoleBinding \<times> role_db) outcome" where
  "InsertRoleBinding d b =
     (if \<not> binding_check b then Fail ErrCheck
      else if \<not> fmpred (\<lambda>_ b'. \<not> binding_clash b b') (rd_bindings d) \<or> \<not> binding_parents d b then Fail ErrRowConflict
      else Return (b, d\<lparr>rd_bindings := fmupd (dbb_ID b) b (rd_bindings d)\<rparr>))"

definition DeleteRoleBinding :: "role_db \<Rightarrow> int64 \<Rightarrow> (admin_error, role_db) outcome" where
  "DeleteRoleBinding d i =
     (if fmlookup (rd_bindings d) i = None then Fail ErrRowNotFound else Return (d\<lparr>rd_bindings := fmdrop i (rd_bindings d)\<rparr>))"

definition DeleteServerRoleBindingsForUser :: "role_db \<Rightarrow> int64 \<Rightarrow> role_db" where
  "DeleteServerRoleBindingsForUser d u =
     d\<lparr>rd_bindings := gm_filter (\<lambda>_ b. \<not> (dbb_UserID b = u \<and> dbb_ScopeType b = ''server'')) (rd_bindings d)\<rparr>"

definition ListRoleBindingsForUser :: "role_db \<Rightarrow> int64 \<Rightarrow> db_UserRoleBinding list" where
  "ListRoleBindingsForUser d u =
     sort_by dbb_ScopeType (sort_by (\<lambda>b. null_first (dbb_GroupID b)) (sort_by (\<lambda>b. null_first (dbb_ChannelID b)) (sort_by dbb_RoleKey
       (filter (\<lambda>b. dbb_UserID b = u) (id_rows (rd_bindings d))))))"

text \<open>\<^verbatim>\<open>LIMIT\<close> and \<^verbatim>\<open>OFFSET\<close>: a negative limit is no limit, a negative offset is zero.\<close>

definition ListRoleBindings :: "role_db \<Rightarrow> int64 \<Rightarrow> int64 \<Rightarrow> db_UserRoleBinding list" where
  "ListRoleBindings d limit offset =
     (let rows = drop (nat (sint offset)) (id_rows (rd_bindings d)) in if sint limit < 0 then rows else take (nat (sint limit)) rows)"

definition ListUsersWithRoleBindings :: "role_db \<Rightarrow> int64 list" where
  "ListUsersWithRoleBindings d = sort_by sint (remdups (map dbb_UserID (id_rows (rd_bindings d))))"

subsection \<open>The role store\<close>

definition RoleStore_Create :: "store_env \<Rightarrow> role_db \<Rightarrow> int64 \<Rightarrow> string \<Rightarrow> string \<Rightarrow> int64 \<Rightarrow> (admin_error, db_Role \<times> role_db) outcome" where
  "RoleStore_Create e d now key displayName rank =
     InsertRoleRow e d \<lparr>dbr_Key = key, dbr_DisplayName = displayName, dbr_Rank = rank, dbr_Builtin = 0, dbr_Immutable = 0,
       dbr_CreatedAt = now, dbr_UpdatedAt = now, dbr_Version = 1\<rparr>"

definition RoleStore_Update :: "store_env \<Rightarrow> role_db \<Rightarrow> int64 \<Rightarrow> string \<Rightarrow> string \<Rightarrow> int64 \<Rightarrow> (admin_error, db_Role \<times> role_db) outcome" where
  "RoleStore_Update e d now key displayName rank =
     outcome_bind (GetRoleByKey d key) (\<lambda>current.
       if dbr_Key current = ''owner'' \<and> rank \<noteq> 1000000 then Fail ErrBuiltinRoleProtected
       else UpdateRoleRow e d now key displayName rank)"

definition RoleStore_Delete :: "store_env \<Rightarrow> role_db \<Rightarrow> string \<Rightarrow> (admin_error, role_db) outcome" where
  "RoleStore_Delete e d key =
     outcome_bind (GetRoleByKey d key) (\<lambda>role.
       if dbr_Builtin role \<noteq> 0 then Fail ErrBuiltinRoleProtected
       else if CountRoleReferences e d key \<noteq> 0 then Fail ErrRowConflict
       else DeleteRoleRow d key)"

text \<open>\<^verbatim>\<open>PermissionsForRole\<close>, the permission store of the server authorizer: \<open>Some None\<close> for an unknown role.\<close>

definition PermissionsForRole :: "store_env \<Rightarrow> role_db \<Rightarrow> string \<Rightarrow> (admin_error, Permission list option) outcome" where
  "PermissionsForRole e d key =
     (case fmlookup (rd_roles d) key of None \<Rightarrow> Return None
      | Some role \<Rightarrow>
          if dbr_Key role = ''owner'' then Return (Some [Wildcard])
          else outcome_bind (found (config_at d server_scope)) (\<lambda>config.
            case se_unmarshal e (dbp_Config config) of None \<Rightarrow> Fail ErrDecode
            | Some grants \<Rightarrow>
                (case grants of None \<Rightarrow> Return (Some []) | Some g \<Rightarrow> Return (Some (rows_at g key)))))"

definition insertBinding :: "role_db \<Rightarrow> int64 \<Rightarrow> int64 option \<Rightarrow> int64 \<Rightarrow> string \<Rightarrow> string \<Rightarrow> int64 option \<Rightarrow> int64 option
    \<Rightarrow> (admin_error, db_UserRoleBinding \<times> role_db) outcome" where
  "insertBinding d now nextID userID roleKey scopeType groupID channelID =
     (case nextID of None \<Rightarrow> Fail ErrNextID
      | Some i \<Rightarrow> InsertRoleBinding d \<lparr>dbb_ID = i, dbb_UserID = userID, dbb_RoleKey = roleKey, dbb_ScopeType = scopeType,
          dbb_GroupID = groupID, dbb_ChannelID = channelID, dbb_CreatedAt = now\<rparr>)"

definition InsertBinding :: "role_db \<Rightarrow> int64 \<Rightarrow> int64 option \<Rightarrow> int64 \<Rightarrow> string \<Rightarrow> string \<Rightarrow> int64 option \<Rightarrow> int64 option
    \<Rightarrow> (admin_error, db_UserRoleBinding \<times> role_db) outcome" where
  "InsertBinding d now nextID userID roleKey scopeType groupID channelID =
     (if roleKey = ''owner'' then Fail ErrOwnerBindingProtected else insertBinding d now nextID userID roleKey scopeType groupID channelID)"

definition insertOwnerBinding :: "role_db \<Rightarrow> int64 \<Rightarrow> int64 option \<Rightarrow> int64 \<Rightarrow> (admin_error, db_UserRoleBinding \<times> role_db) outcome" where
  "insertOwnerBinding d now nextID userID = insertBinding d now nextID userID ''owner'' ''server'' None None"

definition RoleStore_DeleteBinding :: "role_db \<Rightarrow> int64 \<Rightarrow> (admin_error, role_db) outcome" where
  "RoleStore_DeleteBinding d i =
     outcome_bind (GetRoleBindingByID d i) (\<lambda>binding.
       if dbb_RoleKey binding = ''owner'' then Fail ErrOwnerBindingProtected else DeleteRoleBinding d i)"

subsection \<open>The configuration store\<close>

record ConfigScope =
  cf_Type :: string
  cf_ID :: "int64 option"

record EffectiveConfig =
  ec_Scope :: ConfigScope
  ec_Local :: "db_ScopePermissionConfig option"
  ec_Source :: db_ScopePermissionConfig

definition ServerRow :: "role_db \<Rightarrow> (admin_error, db_ScopePermissionConfig) outcome" where
  "ServerRow d = found (config_at d server_scope)"

definition ServerConfig :: "role_db \<Rightarrow> (admin_error, string) outcome" where
  "ServerConfig d = outcome_bind (ServerRow d) (\<lambda>row. Return (dbp_Config row))"

definition validateConfigScope :: "ConfigScope \<Rightarrow> (admin_error, unit) outcome" where
  "validateConfigScope s =
     (if cf_Type s = ''server'' \<and> cf_ID s = None then Return ()
      else if (cf_Type s = ''group'' \<or> cf_Type s = ''channel'') \<and> (case cf_ID s of None \<Rightarrow> False | Some i \<Rightarrow> sint i > 0) then Return ()
      else Fail ErrInvalidConfigScope)"

text \<open>One role of a configuration: the role exists, only owner holds the wildcard and owner holds nothing else, every
  other permission is known and allowed at the scope.\<close>

definition role_grants_ok :: "role_db \<Rightarrow> string \<Rightarrow> string \<Rightarrow> string list \<Rightarrow> bool" where
  "role_grants_ok d scopeType roleKey raw =
     (fmlookup (rd_roles d) roleKey \<noteq> None \<and>
      list_all (\<lambda>p. if p = Wildcard then roleKey = ownerRole else IsKnown p \<and> AllowedAtScope scopeType p) raw \<and>
      (roleKey = ownerRole \<longrightarrow> remdups raw = [Wildcard]))"

definition normalizeConfig :: "store_env \<Rightarrow> role_db \<Rightarrow> string \<Rightarrow> string \<Rightarrow> (admin_error, string) outcome" where
  "normalizeConfig e d scopeType raw =
     (case se_unmarshal e raw of Some (Some config) \<Rightarrow>
        if fmpred (role_grants_ok d scopeType) config then Return (se_marshal e (fmmap (\<lambda>ps. sort (remdups ps)) config))
        else Fail ErrInvalidPermissionConfig
      | _ \<Rightarrow> Fail ErrInvalidPermissionConfig)"

definition Canonicalize :: "store_env \<Rightarrow> role_db \<Rightarrow> string \<Rightarrow> string \<Rightarrow> (admin_error, string) outcome" where
  "Canonicalize e d scopeType raw =
     (if scopeType \<noteq> ''server'' \<and> scopeType \<noteq> ''group'' \<and> scopeType \<noteq> ''channel'' then Fail ErrInvalidPermissionConfig
      else normalizeConfig e d scopeType raw)"

definition validateRootConfig :: "store_env \<Rightarrow> string \<Rightarrow> bool" where
  "validateRootConfig e raw =
     (case se_unmarshal e raw of Some (Some config) \<Rightarrow>
        list_all (\<lambda>role. fmlookup config role \<noteq> None) [ownerRole, adminRole, memberRole] \<and> fmlookup config ownerRole = Some [Wildcard]
      | _ \<Rightarrow> False)"

definition put_config :: "role_db \<Rightarrow> Scope \<Rightarrow> db_ScopePermissionConfig \<Rightarrow> (admin_error, db_ScopePermissionConfig \<times> role_db) outcome" where
  "put_config d scope row = (if \<not> config_check row then Fail ErrCheck else Return (row, set_config d scope row))"

definition UpdateServerPermissionConfig :: "role_db \<Rightarrow> int64 \<Rightarrow> string \<Rightarrow> (admin_error, db_ScopePermissionConfig \<times> role_db) outcome" where
  "UpdateServerPermissionConfig d now config =
     outcome_bind (ServerRow d) (\<lambda>row. put_config d server_scope (row\<lparr>dbp_Config := config, dbp_UpdatedAt := now, dbp_Version := dbp_Version row + 1\<rparr>))"

definition PutGroup :: "store_env \<Rightarrow> role_db \<Rightarrow> int64 \<Rightarrow> string \<Rightarrow> int64 \<Rightarrow> int64 \<Rightarrow> (admin_error, db_ScopePermissionConfig \<times> role_db) outcome" where
  "PutGroup e d groupID config version now =
     outcome_bind (normalizeConfig e d ''group'' config) (\<lambda>c.
       if fmlookup (rd_groups d) groupID = None then Fail ErrRowConflict
       else put_config d (group_scope groupID) \<lparr>dbp_ScopeType = ''group'', dbp_GroupID = Some groupID, dbp_ChannelID = None,
         dbp_Config = c, dbp_UpdatedAt = now, dbp_Version = version\<rparr>)"

definition PutChannel :: "store_env \<Rightarrow> role_db \<Rightarrow> int64 \<Rightarrow> string \<Rightarrow> int64 \<Rightarrow> int64 \<Rightarrow> (admin_error, db_ScopePermissionConfig \<times> role_db) outcome" where
  "PutChannel e d channelID config version now =
     outcome_bind (normalizeConfig e d ''channel'' config) (\<lambda>c.
       if fmlookup (rd_channels d) channelID = None then Fail ErrRowConflict
       else put_config d (channel_scope channelID) \<lparr>dbp_ScopeType = ''channel'', dbp_GroupID = None, dbp_ChannelID = Some channelID,
         dbp_Config = c, dbp_UpdatedAt = now, dbp_Version = version\<rparr>)"

definition Effective :: "role_db \<Rightarrow> ConfigScope \<Rightarrow> (admin_error, EffectiveConfig) outcome" where
  "Effective d s =
     outcome_bind (validateConfigScope s) (\<lambda>_.
     outcome_bind (ServerRow d) (\<lambda>root.
       case cf_ID s of None \<Rightarrow> Return \<lparr>ec_Scope = s, ec_Local = Some root, ec_Source = root\<rparr>
       | Some i \<Rightarrow>
           if cf_Type s = ''group''
           then outcome_bind (found (fmlookup (rd_groups d) i)) (\<lambda>_.
             case config_at d (group_scope i) of None \<Rightarrow> Return \<lparr>ec_Scope = s, ec_Local = None, ec_Source = root\<rparr>
             | Some l \<Rightarrow> Return \<lparr>ec_Scope = s, ec_Local = Some l, ec_Source = l\<rparr>)
           else outcome_bind (found (fmlookup (rd_channels d) i)) (\<lambda>channel.
             case config_at d (channel_scope i) of Some l \<Rightarrow> Return \<lparr>ec_Scope = s, ec_Local = Some l, ec_Source = l\<rparr>
             | None \<Rightarrow>
                 (case dbc_GroupID channel of None \<Rightarrow> Return \<lparr>ec_Scope = s, ec_Local = None, ec_Source = root\<rparr>
                  | Some g \<Rightarrow>
                      (case config_at d (group_scope g) of Some p \<Rightarrow> Return \<lparr>ec_Scope = s, ec_Local = None, ec_Source = p\<rparr>
                       | None \<Rightarrow> Return \<lparr>ec_Scope = s, ec_Local = None, ec_Source = root\<rparr>)))))"

definition stored_version :: "role_db \<Rightarrow> Scope \<Rightarrow> int64" where
  "stored_version d scope = (case config_at d scope of None \<Rightarrow> 0 | Some l \<Rightarrow> dbp_Version l)"

definition local_config :: "ConfigScope \<Rightarrow> db_ScopePermissionConfig \<times> role_db \<Rightarrow> (admin_error, EffectiveConfig \<times> role_db) outcome" where
  "local_config s p = Return (\<lparr>ec_Scope = s, ec_Local = Some (fst p), ec_Source = fst p\<rparr>, snd p)"

definition ConfigStore_Update :: "store_env \<Rightarrow> role_db \<Rightarrow> int64 \<Rightarrow> ConfigScope \<Rightarrow> string \<Rightarrow> (admin_error, EffectiveConfig \<times> role_db) outcome" where
  "ConfigStore_Update e d now s raw =
     outcome_bind (validateConfigScope s) (\<lambda>_.
       case cf_ID s of None \<Rightarrow>
         outcome_bind (normalizeConfig e d ''server'' raw) (\<lambda>config.
           if \<not> validateRootConfig e config then Fail ErrInvalidPermissionConfig
           else outcome_bind (UpdateServerPermissionConfig d now config) (local_config s))
       | Some i \<Rightarrow>
         outcome_bind (Effective d s) (\<lambda>_.
           if cf_Type s = ''group'' then outcome_bind (PutGroup e d i raw (stored_version d (group_scope i) + 1) now) (local_config s)
           else outcome_bind (PutChannel e d i raw (stored_version d (channel_scope i) + 1) now) (local_config s)))"

definition DefaultServerPermissionConfig :: "store_env \<Rightarrow> string" where
  "DefaultServerPermissionConfig e = se_marshal e (fmap_of_list defaultServerPermissions)"

definition ConfigStore_Reset :: "store_env \<Rightarrow> role_db \<Rightarrow> int64 \<Rightarrow> ConfigScope \<Rightarrow> (admin_error, EffectiveConfig \<times> role_db) outcome" where
  "ConfigStore_Reset e d now s =
     outcome_bind (validateConfigScope s) (\<lambda>_.
       case cf_ID s of None \<Rightarrow> ConfigStore_Update e d now s (DefaultServerPermissionConfig e)
       | Some i \<Rightarrow>
         outcome_bind (Effective d s) (\<lambda>_.
           let d' = drop_config d (if cf_Type s = ''group'' then group_scope i else channel_scope i)
           in outcome_bind (Effective d' s) (\<lambda>c. Return (c, d'))))"

subsection \<open>The installation\<close>

definition SetInitialized :: "role_db \<Rightarrow> int64 \<Rightarrow> int64 \<Rightarrow> (admin_error, role_db) outcome" where
  "SetInitialized d before after =
     (case rd_installation d of None \<Rightarrow> Fail ErrRowConflict
      | Some (i, flag) \<Rightarrow> if flag \<noteq> before then Fail ErrRowConflict else if after \<notin> {0, 1} then Fail ErrCheck else Return (d\<lparr>rd_installation := Some (i, after)\<rparr>))"

definition ActivateFirstOwner :: "role_db \<Rightarrow> int64 \<Rightarrow> int64 option \<Rightarrow> int64 \<Rightarrow> (admin_error, role_db) outcome" where
  "ActivateFirstOwner d now nextID userID =
     outcome_bind (found (rd_installation d)) (\<lambda>state.
       if snd state \<noteq> 0 \<or> CountOwners d \<noteq> 0 then Fail ErrRowConflict
       else outcome_bind (insertOwnerBinding d now nextID userID) (\<lambda>(_, d1).
            outcome_bind (SetInitialized d1 0 1) (\<lambda>d2.
              if CountOwners d2 \<noteq> 1 then Fail ErrInstallationInvariant else Return d2)))"

definition DeleteMutesForUser :: "role_db \<Rightarrow> int64 \<Rightarrow> role_db" where
  "DeleteMutesForUser d u = d\<lparr>rd_mutes := gm_filter (\<lambda>_ m. dbm_UserID m \<noteq> u) (rd_mutes d)\<rparr>"

definition TransferOwnerInTx :: "role_db \<Rightarrow> int64 \<Rightarrow> int64 option \<Rightarrow> int64 option \<Rightarrow> int64 \<Rightarrow> int64 \<Rightarrow> (admin_error, role_db) outcome" where
  "TransferOwnerInTx d now id1 id2 currentUserID targetUserID =
     (if currentUserID = targetUserID then Fail ErrOwnerTransferTarget
      else outcome_bind (found (rd_installation d)) (\<lambda>state.
        if snd state \<noteq> 1 \<or> CountOwners d \<noteq> 1 then Fail ErrInstallationInvariant
        else outcome_bind (GetOwnerBinding d) (\<lambda>owner.
          if dbb_UserID owner \<noteq> currentUserID then Fail ErrOwnerTransferForbidden
          else outcome_bind (found (fmlookup (rd_users d) targetUserID)) (\<lambda>target.
            if dbu_BannedAt target \<noteq> None then Fail ErrOwnerTransferTarget
            else let d1 = DeleteServerRoleBindingsForUser d targetUserID;
                     d2 = DeleteServerRoleBindingsForUser d1 currentUserID
                 in outcome_bind (insertBinding d2 now id1 currentUserID ''member'' ''server'' None None) (\<lambda>(_, d3).
                    outcome_bind (insertOwnerBinding d3 now id2 targetUserID) (\<lambda>(_, d4).
                      let d5 = DeleteMutesForUser d4 targetUserID
                      in if CountOwners d5 \<noteq> 1 then Fail ErrInstallationInvariant else Return d5))))))"

subsection \<open>The projection of the tables\<close>

definition loadStateProjection :: "role_db \<Rightarrow> StateProjection" where
  "loadStateProjection d =
     \<lparr>sp_Users = id_rows (rd_users d), sp_Roles = ListRoleRows d,
      sp_Groups = sort_by (\<lambda>g. sint (dbg_Position g)) (id_rows (rd_groups d)),
      sp_Channels = sort_by (\<lambda>c. sint (dbc_Position c)) (id_rows (rd_channels d)),
      sp_GroupAccess = id_rows (rd_groupAccess d), sp_ChannelAccess = id_rows (rd_channelAccess d),
      sp_Bindings = id_rows (rd_bindings d), sp_Configs = config_rows d, sp_Mutes = id_rows (rd_mutes d)\<rparr>"

section \<open>Theorems\<close>

lemma set_id_rows: "r \<in> set (id_rows m) \<longleftrightarrow> (\<exists>i. fmlookup m i = Some r)"
  by (auto simp: id_rows_def List.map_filter_def fmlookup_dom_iff intro!: image_eqI [where x = "_ :: int64"] fmdomI)

lemma set_ListRoleBindingsForUser: "b \<in> set (ListRoleBindingsForUser d u) \<longleftrightarrow> dbb_UserID b = u \<and> (\<exists>i. fmlookup (rd_bindings d) i = Some b)"
  by (auto simp: ListRoleBindingsForUser_def set_id_rows)

text \<open>What the constraints of the schema make of the tables.\<close>

definition db_ok :: "store_env \<Rightarrow> role_db \<Rightarrow> bool" where
  "db_ok e d \<longleftrightarrow> keyed_by dbr_Key (rd_roles d) \<and> keyed_by dbb_ID (rd_bindings d) \<and>
     (\<forall>k r. fmlookup (rd_roles d) k = Some r \<longrightarrow> role_check e r) \<and>
     (\<forall>i b. fmlookup (rd_bindings d) i = Some b \<longrightarrow> binding_check b \<and> binding_parents d b) \<and>
     (\<forall>i j a b. fmlookup (rd_bindings d) i = Some a \<and> fmlookup (rd_bindings d) j = Some b \<and> i \<noteq> j \<longrightarrow> \<not> binding_clash a b)"

lemma db_okD:
  assumes "db_ok e d"
  shows "fmlookup (rd_roles d) k = Some r \<Longrightarrow> dbr_Key r = k" "fmlookup (rd_bindings d) i = Some b \<Longrightarrow> dbb_ID b = i"
    "fmlookup (rd_roles d) k = Some r \<Longrightarrow> role_check e r" "fmlookup (rd_bindings d) i = Some b \<Longrightarrow> binding_check b"
    "fmlookup (rd_bindings d) i = Some b \<Longrightarrow> binding_parents d b"
    "\<lbrakk>fmlookup (rd_bindings d) i = Some a; fmlookup (rd_bindings d) j = Some b; binding_clash a b\<rbrakk> \<Longrightarrow> i = j"
  using assms unfolding db_ok_def keyed_by_def by blast+

lemma binding_clash_sym: "binding_clash a b = binding_clash b a"
  unfolding binding_clash_def by metis

lemma binding_parents_mono:
  assumes "binding_parents d b" "\<And>k. fmlookup (rd_roles d) k \<noteq> None \<Longrightarrow> k = dbb_RoleKey b \<Longrightarrow> fmlookup (rd_roles d') k \<noteq> None"
    "rd_users d' = rd_users d" "rd_groups d' = rd_groups d" "rd_channels d' = rd_channels d"
  shows "binding_parents d' b"
  using assms unfolding binding_parents_def by (simp cong: option.case_cong)

text \<open>Inserting and deleting bindings.\<close>

lemma InsertRoleBinding_Return:
  assumes "InsertRoleBinding d b = Return p"
  shows "p = (b, d\<lparr>rd_bindings := fmupd (dbb_ID b) b (rd_bindings d)\<rparr>)" "binding_check b" "binding_parents d b"
    "fmlookup (rd_bindings d) i = Some b' \<Longrightarrow> \<not> binding_clash b b'"
  using assms by (auto simp: InsertRoleBinding_def fmpred_iff split: if_splits)

lemma db_ok_insert:
  assumes "db_ok e d" "InsertRoleBinding d b = Return (b', d')"
  shows "db_ok e d'"
proof -
  note I = InsertRoleBinding_Return [OF assms(2)]
  have d': "d' = d\<lparr>rd_bindings := fmupd (dbb_ID b) b (rd_bindings d)\<rparr>" using I(1) by simp
  have P: "binding_parents d' x = binding_parents d x" for x by (simp add: d' binding_parents_def cong: option.case_cong)
  have K: "keyed_by dbb_ID (rd_bindings d')" using assms(1) by (auto simp: d' db_ok_def intro: keyed_by_upd)
  have C: "\<not> binding_clash x y"
    if "fmlookup (rd_bindings d') i = Some x" "fmlookup (rd_bindings d') j = Some y" "i \<noteq> j" for i j x y
    using that I(4) [of i x] I(4) [of j y] db_okD(6) [OF assms(1), of i x j y] binding_clash_sym [of x y] by (auto simp: d' split: if_splits)
  show ?thesis unfolding db_ok_def P
  proof (intro conjI allI impI K)
    fix i x assume "fmlookup (rd_bindings d') i = Some x"
    then show "binding_check x" "binding_parents d x"
      using I(2,3) db_okD(4,5) [OF assms(1)] by (auto simp: d' split: if_splits)
  qed (use assms(1) C in \<open>auto simp: d' db_ok_def\<close>)
qed

lemma db_ok_subset:
  assumes "db_ok e d" "\<And>i b. fmlookup m i = Some b \<Longrightarrow> fmlookup (rd_bindings d) i = Some b"
  shows "db_ok e (d\<lparr>rd_bindings := m\<rparr>)"
proof -
  have P: "binding_parents (d\<lparr>rd_bindings := m\<rparr>) x = binding_parents d x" for x by (simp add: binding_parents_def cong: option.case_cong)
  have K: "keyed_by dbb_ID m" using db_okD(2) [OF assms(1)] assms(2) by (auto simp: keyed_by_def)
  show ?thesis unfolding db_ok_def P
  proof (intro conjI allI impI)
    fix i j a b
    assume "fmlookup (rd_bindings (d\<lparr>rd_bindings := m\<rparr>)) i = Some a \<and> fmlookup (rd_bindings (d\<lparr>rd_bindings := m\<rparr>)) j = Some b \<and> i \<noteq> j"
    then show "\<not> binding_clash a b" using db_okD(6) [OF assms(1), of i a j b] assms(2) by auto
  next
    fix i b assume "fmlookup (rd_bindings (d\<lparr>rd_bindings := m\<rparr>)) i = Some b"
    then have "fmlookup (rd_bindings d) i = Some b" using assms(2) by simp
    then show "binding_check b" "binding_parents d b" by (fact db_okD(4) [OF assms(1)], fact db_okD(5) [OF assms(1)])
  qed (use assms(1) K in \<open>auto simp: db_ok_def\<close>)
qed

lemma db_ok_other_tables:
  assumes "db_ok e d" "rd_roles d' = rd_roles d" "rd_bindings d' = rd_bindings d" "rd_users d' = rd_users d"
    "rd_groups d' = rd_groups d" "rd_channels d' = rd_channels d"
  shows "db_ok e d'"
  using assms unfolding db_ok_def binding_parents_def by (simp cong: option.case_cong)

lemma insertBinding_Return:
  assumes "insertBinding d now i u k t g c = Return (b, d')"
  shows "InsertRoleBinding d b = Return (b, d')" "dbb_UserID b = u" "dbb_RoleKey b = k" "dbb_ScopeType b = t"
    "i = Some (dbb_ID b)"
  using assms InsertRoleBinding_Return(1) by (fastforce simp: insertBinding_def split: option.splits)+

text \<open>Roles.\<close>

lemma db_ok_role_update:
  assumes "db_ok e d" "role_check e r" "dbr_Key r = k"
  shows "db_ok e (d\<lparr>rd_roles := fmupd k r (rd_roles d)\<rparr>)"
proof -
  have P: "binding_parents d b \<Longrightarrow> binding_parents (d\<lparr>rd_roles := fmupd k r (rd_roles d)\<rparr>) b" for b
    by (erule binding_parents_mono) auto
  then show ?thesis using assms unfolding db_ok_def by (auto intro: keyed_by_upd split: if_splits)
qed

lemma gm_len_0: "gm_len (gm_filter P m) = 0 \<longleftrightarrow> (\<forall>k v. fmlookup m k = Some v \<longrightarrow> \<not> P k v)"
proof -
  have "gm_len (gm_filter P m) = 0 \<longleftrightarrow> fset (fmdom (gm_filter P m)) = {}" by (simp add: gm_len_def fcard.rep_eq)
  also have "\<dots> \<longleftrightarrow> (\<forall>k. fmlookup (gm_filter P m) k = None)" by (metis equals0D equals0I fmdomI fmlookup_dom_iff not_None_eq)
  finally show ?thesis by (auto split: option.splits)
qed

end
