(* ===== verification/RoleAdmin.thy ===== *)
theory RoleAdmin
  imports RoleStore
begin

text \<open>
  Role administration, \<^verbatim>\<open>internal/rbac/control\<close>: the policy of \<^verbatim>\<open>service.go\<close> above the stores, the scope and
  configuration views of \<^verbatim>\<open>state_config.go\<close>, and the helpers of \<^verbatim>\<open>sequencer.go\<close>.  Each mutation is the
  function \<^verbatim>\<open>runMutation\<close> runs in its transaction: it reads and writes the transaction's database and returns a
  \<open>mutationResult\<close> with the new database, or fails, in which case the transaction is rolled back.  The published
  version that a mutation reads is an argument, as are the clock and the identifiers drawn.  Parameters: those of
  \<open>RoleStore\<close> and SHA-256.
\<close>

section \<open>Definitions\<close>

subsection \<open>Data\<close>

record StateChange =
  sg_EventType :: string
  sg_RoleKey :: string
  sg_UserIDs :: "int64 list"
  sg_Scope :: Scope
  sg_PreviousOwnerID :: int64
  sg_NewOwnerID :: int64
  sg_ModerationScopes :: "Scope list"

abbreviation zero_scope :: Scope where "zero_scope \<equiv> \<lparr>sc_Type = [], sc_ID = 0\<rparr>"

abbreviation zero_change :: StateChange where
  "zero_change \<equiv> \<lparr>sg_EventType = [], sg_RoleKey = [], sg_UserIDs = [], sg_Scope = zero_scope, sg_PreviousOwnerID = 0, sg_NewOwnerID = 0, sg_ModerationScopes = []\<rparr>"

datatype mutation_value = NoValue | RoleValue db_Role | BindingValue db_UserRoleBinding bool | ConfigValue EffectiveConfig string

record mutationResult =
  mr_value :: mutation_value
  mr_change :: StateChange
  mr_noop :: bool

type_synonym mutation = "(admin_error, mutationResult \<times> role_db) outcome"

definition changed :: "mutation_value \<Rightarrow> StateChange \<Rightarrow> role_db \<Rightarrow> mutation" where
  "changed v c d = Return (\<lparr>mr_value = v, mr_change = c, mr_noop = False\<rparr>, d)"

definition unchanged :: "mutation_value \<Rightarrow> role_db \<Rightarrow> mutation" where
  "unchanged v d = Return (\<lparr>mr_value = v, mr_change = zero_change, mr_noop = True\<rparr>, d)"

record BindingInput =
  bi_UserID :: int64
  bi_RoleKey :: string
  bi_ScopeType :: string
  bi_ScopeID :: "int64 option"

record authority =
  at_rank :: int
  at_owner :: bool

subsection \<open>Authority and permissions\<close>

fun authority_loop :: "role_db \<Rightarrow> authority \<Rightarrow> db_UserRoleBinding list \<Rightarrow> (admin_error, authority) outcome" where
  "authority_loop d a [] = Return a"
| "authority_loop d a (b # bs) =
     (if dbb_ScopeType b \<noteq> ''server'' then authority_loop d a bs
      else outcome_bind (GetRoleByKey d (dbb_RoleKey b)) (\<lambda>role.
        authority_loop d \<lparr>at_rank = (if sint (dbr_Rank role) > at_rank a then sint (dbr_Rank role) else at_rank a),
          at_owner = (if dbr_Key role = ''owner'' then True else at_owner a)\<rparr> bs))"

definition authority_of :: "role_db \<Rightarrow> int64 \<Rightarrow> (admin_error, authority) outcome" where
  "authority_of d userID =
     outcome_bind (found (fmlookup (rd_users d) userID)) (\<lambda>_.
       authority_loop d \<lparr>at_rank = - 1, at_owner = False\<rparr> (ListRoleBindingsForUser d userID))"

fun permission_loop :: "grants \<Rightarrow> string list \<Rightarrow> db_UserRoleBinding list \<Rightarrow> string list \<times> bool" where
  "permission_loop g ps [] = (ps, False)"
| "permission_loop g ps (b # bs) =
     (if dbb_ScopeType b \<noteq> ''server'' then permission_loop g ps bs
      else if dbb_RoleKey b = ''owner'' then (ps, True)
      else permission_loop g (foldl (\<lambda>ps p. List.insert p ps) ps (rows_at g (dbb_RoleKey b))) bs)"

definition decoded_grants :: "store_env \<Rightarrow> string \<Rightarrow> (admin_error, grants) outcome" where
  "decoded_grants e raw = (case se_unmarshal e raw of None \<Rightarrow> Fail ErrDecode | Some None \<Rightarrow> Return fmempty | Some (Some g) \<Rightarrow> Return g)"

definition actorPermissionsForConfig :: "store_env \<Rightarrow> role_db \<Rightarrow> int64 \<Rightarrow> string \<Rightarrow> (admin_error, string list \<times> bool) outcome" where
  "actorPermissionsForConfig e d userID raw =
     outcome_bind (decoded_grants e raw) (\<lambda>g. Return (permission_loop g [] (ListRoleBindingsForUser d userID)))"

definition actorPermissions :: "store_env \<Rightarrow> role_db \<Rightarrow> int64 \<Rightarrow> (admin_error, string list \<times> bool) outcome" where
  "actorPermissions e d userID = outcome_bind (ServerConfig d) (actorPermissionsForConfig e d userID)"

definition requireRoleManage :: "store_env \<Rightarrow> role_db \<Rightarrow> int64 \<Rightarrow> (admin_error, unit) outcome" where
  "requireRoleManage e d userID =
     outcome_bind (actorPermissions e d userID) (\<lambda>(permissions, owner).
       if owner then Return () else if PermRoleManage \<notin> set permissions then Fail ErrRoleManageRequired else Return ())"

definition ensureManagementRetained :: "store_env \<Rightarrow> role_db \<Rightarrow> int64 \<Rightarrow> string list \<Rightarrow> (admin_error, unit) outcome" where
  "ensureManagementRetained e d actorID before =
     outcome_bind (actorPermissions e d actorID) (\<lambda>(after, owner).
       if owner then Return ()
       else if list_ex (\<lambda>p. p \<in> set before \<and> p \<notin> set after) [PermRoleManage, PermServerManage] then Fail ErrManagementLost
       else Return ())"

definition validateGrantedPermissions :: "store_env \<Rightarrow> string \<Rightarrow> string list \<Rightarrow> bool \<Rightarrow> (admin_error, unit) outcome" where
  "validateGrantedPermissions e raw allowed owner =
     (if owner then Return ()
      else outcome_bind (decoded_grants e raw) (\<lambda>config.
        if fmpred (\<lambda>roleKey permissions. list_all (\<lambda>p. (roleKey = ''owner'' \<and> p = Wildcard) \<or> p \<in> set allowed) permissions) config
        then Return () else Fail ErrRankProtected))"

subsection \<open>Roles\<close>

definition CreateRole :: "store_env \<Rightarrow> role_db \<Rightarrow> int64 \<Rightarrow> int64 \<Rightarrow> string \<Rightarrow> string \<Rightarrow> int64 \<Rightarrow> mutation" where
  "CreateRole e d now actorID key displayName rank =
     (if \<not> roleKeyPattern key \<or> key = ''owner'' \<or> key = ''admin'' \<or> key = ''member'' then Fail ErrInvalidRoleKey
      else outcome_bind (requireRoleManage e d actorID) (\<lambda>_.
           outcome_bind (authority_of d actorID) (\<lambda>a.
             if sint rank < 0 \<or> sint rank \<ge> at_rank a \<or> sint rank \<ge> 1000000 then Fail ErrRankProtected
             else outcome_bind (RoleStore_Create e d now key displayName rank) (\<lambda>(role, d').
               changed (RoleValue role) (zero_change\<lparr>sg_EventType := ''rbac.role.created'', sg_RoleKey := dbr_Key role\<rparr>) d'))))"

definition uniqueUserIDs :: "int64 list \<Rightarrow> int64 list" where
  "uniqueUserIDs userIDs = sort_by sint (remdups (filter (\<lambda>u. \<not> sint u \<le> 0) userIDs))"

definition usersWithBindings :: "role_db \<Rightarrow> int64 \<Rightarrow> int64 list" where
  "usersWithBindings d actorID = uniqueUserIDs (ListUsersWithRoleBindings d @ [actorID])"

definition UpdateRole :: "store_env \<Rightarrow> role_db \<Rightarrow> int64 \<Rightarrow> int64 list \<Rightarrow> int64 \<Rightarrow> string \<Rightarrow> string option \<Rightarrow> int64 option \<Rightarrow> mutation" where
  "UpdateRole e d now userIDs actorID key displayName rank =
     outcome_bind (requireRoleManage e d actorID) (\<lambda>_.
     outcome_bind (GetRoleByKey d key) (\<lambda>role.
     outcome_bind (authority_of d actorID) (\<lambda>a.
       if dbr_Key role = ''owner'' \<and> (\<not> at_owner a \<or> rank \<noteq> None) then Fail ErrImmutableRole
       else if dbr_Key role \<noteq> ''owner'' \<and> sint (dbr_Rank role) \<ge> at_rank a then Fail ErrRankProtected
       else let newDisplayName = (case displayName of None \<Rightarrow> dbr_DisplayName role | Some n \<Rightarrow> n);
                newRank = (case rank of None \<Rightarrow> dbr_Rank role | Some r \<Rightarrow> r)
            in if sint newRank < 0 \<or> sint newRank \<ge> 1000000 \<or> (dbr_Key role \<noteq> ''owner'' \<and> sint newRank \<ge> at_rank a) then Fail ErrRankProtected
               else if newDisplayName = dbr_DisplayName role \<and> newRank = dbr_Rank role then unchanged (RoleValue role) d
               else outcome_bind (RoleStore_Update e d now key newDisplayName newRank) (\<lambda>(updated, d').
                 changed (RoleValue updated) (zero_change\<lparr>sg_EventType := ''rbac.role.updated'', sg_RoleKey := dbr_Key updated, sg_UserIDs := userIDs\<rparr>) d'))))"

definition DeleteRole :: "store_env \<Rightarrow> role_db \<Rightarrow> int64 list \<Rightarrow> int64 \<Rightarrow> string \<Rightarrow> mutation" where
  "DeleteRole e d userIDs actorID key =
     outcome_bind (requireRoleManage e d actorID) (\<lambda>_.
     outcome_bind (GetRoleByKey d key) (\<lambda>role.
       if dbr_Builtin role \<noteq> 0 then Fail ErrBuiltinRole
       else outcome_bind (authority_of d actorID) (\<lambda>a.
         if sint (dbr_Rank role) \<ge> at_rank a then Fail ErrRankProtected
         else outcome_bind (RoleStore_Delete e d key) (\<lambda>d'.
           changed NoValue (zero_change\<lparr>sg_EventType := ''rbac.role.deleted'', sg_RoleKey := key, sg_UserIDs := userIDs\<rparr>) d'))))"

subsection \<open>Bindings\<close>

fun visible_bindings :: "role_db \<Rightarrow> authority \<Rightarrow> db_UserRoleBinding list \<Rightarrow> (admin_error, db_UserRoleBinding list) outcome" where
  "visible_bindings d actor [] = Return []"
| "visible_bindings d actor (b # bs) =
     outcome_bind (authority_of d (dbb_UserID b)) (\<lambda>target.
     outcome_bind (visible_bindings d actor bs) (\<lambda>rest. Return (if at_rank actor > at_rank target then b # rest else rest)))"

definition ListBindings :: "role_db \<Rightarrow> int64 \<Rightarrow> int64 \<Rightarrow> int64 \<Rightarrow> (admin_error, db_UserRoleBinding list) outcome" where
  "ListBindings d actorID limit offset =
     outcome_bind (authority_of d actorID) (\<lambda>actor.
       let bindings = ListRoleBindings d limit offset
       in if at_owner actor then Return bindings else visible_bindings d actor bindings)"

definition validateScopeShape :: "BindingInput \<Rightarrow> (admin_error, unit) outcome" where
  "validateScopeShape i =
     (if bi_ScopeType i = ''server'' then (if bi_ScopeID i \<noteq> None then Fail ErrInvalidScope else Return ())
      else if bi_ScopeType i = ''group'' \<or> bi_ScopeType i = ''channel''
      then (case bi_ScopeID i of None \<Rightarrow> Fail ErrInvalidScope | Some w \<Rightarrow> if sint w \<le> 0 then Fail ErrInvalidScope else Return ())
      else Fail ErrInvalidScope)"

text \<open>A nil scope identifier would be dereferenced: the shape check that runs before rules it out.\<close>

definition validateScope :: "role_db \<Rightarrow> BindingInput \<Rightarrow> (admin_error, unit) outcome" where
  "validateScope d i =
     (if bi_ScopeType i = ''group''
      then (case bi_ScopeID i of None \<Rightarrow> Panic | Some w \<Rightarrow> outcome_bind (found (fmlookup (rd_groups d) w)) (\<lambda>_. Return ()))
      else if bi_ScopeType i = ''channel''
      then (case bi_ScopeID i of None \<Rightarrow> Panic | Some w \<Rightarrow> outcome_bind (found (fmlookup (rd_channels d) w)) (\<lambda>_. Return ()))
      else Return ())"

definition checkBindingAuthority :: "role_db \<Rightarrow> int64 \<Rightarrow> BindingInput \<Rightarrow> (admin_error, unit) outcome" where
  "checkBindingAuthority d actorID i =
     outcome_bind (authority_of d actorID) (\<lambda>actor.
     outcome_bind (authority_of d (bi_UserID i)) (\<lambda>target.
     outcome_bind (GetRoleByKey d (bi_RoleKey i)) (\<lambda>role.
       if at_rank actor \<le> at_rank target \<or> at_rank actor \<le> sint (dbr_Rank role) then Fail ErrRankProtected else Return ())))"

definition binding_matches :: "BindingInput \<Rightarrow> db_UserRoleBinding \<Rightarrow> bool" where
  "binding_matches i b =
     (if dbb_RoleKey b \<noteq> bi_RoleKey i \<or> dbb_ScopeType b \<noteq> bi_ScopeType i then False
      else if bi_ScopeType i = ''server'' then True
      else if bi_ScopeType i = ''group'' then dbb_GroupID b \<noteq> None \<and> dbb_GroupID b = bi_ScopeID i
      else bi_ScopeType i = ''channel'' \<and> dbb_ChannelID b \<noteq> None \<and> dbb_ChannelID b = bi_ScopeID i)"

definition matchingBinding :: "role_db \<Rightarrow> BindingInput \<Rightarrow> db_UserRoleBinding option" where
  "matchingBinding d i = List.find (binding_matches i) (ListRoleBindingsForUser d (bi_UserID i))"

definition scopeIDs :: "BindingInput \<Rightarrow> int64 option \<times> int64 option" where
  "scopeIDs i = (if bi_ScopeType i = ''group'' then (bi_ScopeID i, None) else if bi_ScopeType i = ''channel'' then (None, bi_ScopeID i) else (None, None))"

definition bindingScopeFromInput :: "BindingInput \<Rightarrow> Scope" where
  "bindingScopeFromInput i =
     (if bi_ScopeType i = ''server'' then server_scope
      else case bi_ScopeID i of None \<Rightarrow> zero_scope | Some w \<Rightarrow> \<lparr>sc_Type = bi_ScopeType i, sc_ID = w\<rparr>)"

definition bindingScope :: "db_UserRoleBinding \<Rightarrow> Scope" where
  "bindingScope b =
     (if dbb_ScopeType b = ''server'' then server_scope
      else case (dbb_GroupID b, dbb_ChannelID b) of
        (Some g, c) \<Rightarrow> if dbb_ScopeType b = ''group'' then group_scope g
                       else (case c of Some ch \<Rightarrow> if dbb_ScopeType b = ''channel'' then channel_scope ch else zero_scope | None \<Rightarrow> zero_scope)
      | (None, Some ch) \<Rightarrow> if dbb_ScopeType b = ''channel'' then channel_scope ch else zero_scope
      | (None, None) \<Rightarrow> zero_scope)"

definition CreateBinding :: "store_env \<Rightarrow> role_db \<Rightarrow> int64 \<Rightarrow> int64 option \<Rightarrow> int64 \<Rightarrow> BindingInput \<Rightarrow> mutation" where
  "CreateBinding e d now nextID actorID i =
     outcome_bind (validateScopeShape i) (\<lambda>_.
       if bi_RoleKey i = ''owner'' then Fail ErrOwnerBindingProtected
       else outcome_bind (requireRoleManage e d actorID) (\<lambda>_.
            outcome_bind (validateScope d i) (\<lambda>_.
            outcome_bind (checkBindingAuthority d actorID i) (\<lambda>_.
              case matchingBinding d i of Some b \<Rightarrow> unchanged (BindingValue b False) d
              | None \<Rightarrow>
                  (case InsertBinding d now nextID (bi_UserID i) (bi_RoleKey i) (bi_ScopeType i) (fst (scopeIDs i)) (snd (scopeIDs i)) of
                     Return (b, d') \<Rightarrow>
                       changed (BindingValue b True)
                         (zero_change\<lparr>sg_EventType := ''rbac.binding.updated'', sg_UserIDs := [bi_UserID i], sg_Scope := bindingScopeFromInput i\<rparr>) d'
                   | Fail err \<Rightarrow>
                       if err \<noteq> ErrRowConflict then Fail err
                       else (case matchingBinding d i of None \<Rightarrow> Fail err | Some b \<Rightarrow> unchanged (BindingValue b False) d)
                   | Panic \<Rightarrow> Panic)))))"

definition DeleteBinding :: "store_env \<Rightarrow> role_db \<Rightarrow> int64 \<Rightarrow> int64 \<Rightarrow> mutation" where
  "DeleteBinding e d actorID bindingID =
     outcome_bind (requireRoleManage e d actorID) (\<lambda>_.
     outcome_bind (GetRoleBindingByID d bindingID) (\<lambda>current.
       if dbb_RoleKey current = ''owner'' then Fail ErrOwnerBindingProtected
       else outcome_bind (authority_of d actorID) (\<lambda>actor.
            outcome_bind (authority_of d (dbb_UserID current)) (\<lambda>target.
              if at_rank actor \<le> at_rank target then Fail ErrRankProtected
              else outcome_bind (GetRoleByKey d (dbb_RoleKey current)) (\<lambda>role.
                if at_rank actor \<le> sint (dbr_Rank role) then Fail ErrRankProtected
                else outcome_bind (RoleStore_DeleteBinding d bindingID) (\<lambda>d'.
                  changed NoValue (zero_change\<lparr>sg_EventType := ''rbac.binding.updated'', sg_UserIDs := [dbb_UserID current], sg_Scope := bindingScope current\<rparr>) d'))))))"

subsection \<open>Owner transfer\<close>

definition muteScopesForUser :: "StateVersion \<Rightarrow> int64 \<Rightarrow> Scope list" where
  "muteScopesForUser v userID =
     (if sint userID \<le> 0 then [] else rev (remdups (rev (map mt_Scope (filter (\<lambda>m. mt_UserID m = userID) (Mutes v))))))"

definition TransferOwner :: "StateVersion option \<Rightarrow> role_db \<Rightarrow> int64 \<Rightarrow> int64 option \<Rightarrow> int64 option \<Rightarrow> int64 \<Rightarrow> int64 \<Rightarrow> mutation" where
  "TransferOwner version d now id1 id2 currentUserID targetUserID =
     (case version of None \<Rightarrow> Fail ErrRealtimeUnavailable
      | Some v \<Rightarrow>
          outcome_bind (TransferOwnerInTx d now id1 id2 currentUserID targetUserID) (\<lambda>d'.
            changed NoValue \<lparr>sg_EventType = ''owner.transferred'', sg_RoleKey = [], sg_UserIDs = [currentUserID, targetUserID], sg_Scope = server_scope,
              sg_PreviousOwnerID = currentUserID, sg_NewOwnerID = targetUserID, sg_ModerationScopes = muteScopesForUser v targetUserID\<rparr> d'))"

subsection \<open>Configurations\<close>

definition rbac_unmarshal :: "store_env \<Rightarrow> unmarshal" where
  "rbac_unmarshal e raw = (case se_unmarshal e raw of Some (Some g) \<Rightarrow> Some g | _ \<Rightarrow> None)"

definition configScopeToRealtime :: "ConfigScope \<Rightarrow> Scope option" where
  "configScopeToRealtime s =
     (case cf_ID s of None \<Rightarrow> if cf_Type s = ''server'' then Some server_scope else None
      | Some i \<Rightarrow> if (cf_Type s = ''group'' \<or> cf_Type s = ''channel'') \<and> sint i > 0 then Some \<lparr>sc_Type = cf_Type s, sc_ID = i\<rparr> else None)"

definition realtimeScope :: "ConfigScope \<Rightarrow> Scope" where
  "realtimeScope s =
     (if cf_Type s = ''server'' then server_scope
      else case cf_ID s of None \<Rightarrow> zero_scope | Some i \<Rightarrow> \<lparr>sc_Type = cf_Type s, sc_ID = i\<rparr>)"

definition from_rbac :: "(rbac_error, 'a) outcome \<Rightarrow> (admin_error, 'a) outcome" where
  "from_rbac x = (case x of Return a \<Rightarrow> Return a | Fail _ \<Rightarrow> Fail ErrDecode | Panic \<Rightarrow> Panic)"

definition visibleConfigScope :: "store_env \<Rightarrow> int64 \<Rightarrow> ConfigScope \<Rightarrow> StateVersion \<Rightarrow> (admin_error, Authority) outcome" where
  "visibleConfigScope e actorID s v =
     (case configScopeToRealtime s of None \<Rightarrow> Fail ErrInvalidScope
      | Some target \<Rightarrow>
          if (case UserOf v actorID of None \<Rightarrow> True | Some user \<Rightarrow> usr_Banned user) then Fail ErrRoleManageRequired
          else outcome_bind (from_rbac (AuthorityOf (rbac_unmarshal e) actorID server_scope v)) (\<lambda>a.
            if \<not> au_Owner a \<and> sc_Type target = ''group'' \<and> \<not> CanSeeGroup actorID (sc_ID target) v then Fail ErrRowNotFound
            else if \<not> au_Owner a \<and> sc_Type target = ''channel'' \<and> \<not> CanAccessChannel actorID (sc_ID target) v then Fail ErrRowNotFound
            else Return a))"

definition authorizeConfigScope :: "store_env \<Rightarrow> int64 \<Rightarrow> ConfigScope \<Rightarrow> StateVersion \<Rightarrow> (admin_error, unit) outcome" where
  "authorizeConfigScope e actorID s v =
     outcome_bind (visibleConfigScope e actorID s v) (\<lambda>_.
     outcome_bind (from_rbac (Decide (rbac_unmarshal e) actorID server_scope PermRoleManage v)) (\<lambda>decision.
       if \<not> sd_Allow decision then Fail ErrRoleManageRequired else Return ()))"

definition configRowFromState :: "PermissionConfig \<Rightarrow> db_ScopePermissionConfig" where
  "configRowFromState c =
     \<lparr>dbp_ScopeType = sc_Type (pc_Scope c), dbp_GroupID = (if sc_Type (pc_Scope c) = ''group'' then Some (sc_ID (pc_Scope c)) else None),
      dbp_ChannelID = (if sc_Type (pc_Scope c) = ''channel'' then Some (sc_ID (pc_Scope c)) else None),
      dbp_Config = pc_Config c, dbp_UpdatedAt = pc_UpdatedAt c, dbp_Version = pc_Version c\<rparr>"

definition effectiveConfigFromState :: "ConfigScope \<Rightarrow> StateVersion \<Rightarrow> (admin_error, EffectiveConfig) outcome" where
  "effectiveConfigFromState s v =
     (case configScopeToRealtime s of None \<Rightarrow> Fail ErrInvalidScope
      | Some target \<Rightarrow>
          if sc_Type target = ''group'' \<and> GroupOf v (sc_ID target) = None then Fail ErrRowNotFound
          else if sc_Type target = ''channel'' \<and> ChannelOf v (sc_ID target) = None then Fail ErrRowNotFound
          else case ConfigOf v server_scope of None \<Rightarrow> Fail ErrRealtimeUnavailable
            | Some rootConfig \<Rightarrow>
                (let inherit = (\<lambda>c. Return \<lparr>ec_Scope = s, ec_Local = None, ec_Source = configRowFromState c\<rparr>)
                 in case ConfigOf v target of
                   Some l \<Rightarrow> Return \<lparr>ec_Scope = s, ec_Local = Some (configRowFromState l), ec_Source = configRowFromState l\<rparr>
                 | None \<Rightarrow>
                     if sc_Type target = ''channel''
                     then (case ChannelOf v (sc_ID target) of None \<Rightarrow> inherit rootConfig
                           | Some channel \<Rightarrow>
                               (case ch_GroupID channel of None \<Rightarrow> inherit rootConfig
                                | Some g \<Rightarrow> (case ConfigOf v (group_scope g) of Some parent \<Rightarrow> inherit parent | None \<Rightarrow> inherit rootConfig)))
                     else inherit rootConfig))"

definition configRowScope :: "db_ScopePermissionConfig \<Rightarrow> (admin_error, Scope) outcome" where
  "configRowScope c =
     (if dbp_ScopeType c = ''server'' \<and> dbp_GroupID c = None \<and> dbp_ChannelID c = None then Return server_scope
      else case (dbp_GroupID c, dbp_ChannelID c) of
        (Some g, None) \<Rightarrow> if dbp_ScopeType c = ''group'' \<and> sint g > 0 then Return (group_scope g) else Fail ErrRealtimeUnavailable
      | (None, Some ch) \<Rightarrow> if dbp_ScopeType c = ''channel'' \<and> sint ch > 0 then Return (channel_scope ch) else Fail ErrRealtimeUnavailable
      | _ \<Rightarrow> Fail ErrRealtimeUnavailable)"

definition effectiveConfigETag :: "(string \<Rightarrow> bytes) \<Rightarrow> store_env \<Rightarrow> EffectiveConfig \<Rightarrow> (admin_error, string) outcome" where
  "effectiveConfigETag sha256 e c =
     (case configScopeToRealtime (ec_Scope c) of None \<Rightarrow> Fail ErrInvalidScope
      | Some target \<Rightarrow>
          outcome_bind (configRowScope (ec_Source c)) (\<lambda>source.
            case EffectiveConfigETag sha256 (se_unmarshal e) (se_marshal e)
                \<lparr>ei_Target = target, ei_Local = (ec_Local c \<noteq> None), ei_Source = source, ei_SourceVersion = dbp_Version (ec_Source c),
                 ei_Config = dbp_Config (ec_Source c)\<rparr> of
              Return t \<Rightarrow> Return t | Fail _ \<Rightarrow> Fail ErrDecode | Panic \<Rightarrow> Panic))"

definition GetConfig :: "(string \<Rightarrow> bytes) \<Rightarrow> store_env \<Rightarrow> StateVersion option \<Rightarrow> int64 \<Rightarrow> ConfigScope \<Rightarrow> (admin_error, EffectiveConfig \<times> string) outcome" where
  "GetConfig sha256 e version actorID s =
     (case version of None \<Rightarrow> Fail ErrRealtimeUnavailable
      | Some v \<Rightarrow>
          outcome_bind (authorizeConfigScope e actorID s v) (\<lambda>_.
          outcome_bind (effectiveConfigFromState s v) (\<lambda>config.
          outcome_bind (effectiveConfigETag sha256 e config) (\<lambda>etag. Return (config, etag)))))"

text \<open>The steps \<^verbatim>\<open>UpdateConfig\<close> and \<^verbatim>\<open>ResetConfig\<close> share: the privacy boundary, the permission, the precondition, and the
  permissions of the actor.\<close>

definition config_admission :: "(string \<Rightarrow> bytes) \<Rightarrow> store_env \<Rightarrow> StateVersion option \<Rightarrow> role_db \<Rightarrow> int64 \<Rightarrow> string \<Rightarrow> ConfigScope
    \<Rightarrow> (admin_error, EffectiveConfig \<times> string \<times> string list \<times> bool) outcome" where
  "config_admission sha256 e version d actorID expectedETag s =
     (case version of None \<Rightarrow> Fail ErrRealtimeUnavailable
      | Some v \<Rightarrow>
          outcome_bind (visibleConfigScope e actorID s v) (\<lambda>_.
          outcome_bind (requireRoleManage e d actorID) (\<lambda>_.
          outcome_bind (effectiveConfigFromState s v) (\<lambda>current.
          outcome_bind (effectiveConfigETag sha256 e current) (\<lambda>currentETag.
            if expectedETag \<noteq> currentETag then Fail ErrPreconditionFailed
            else outcome_bind (actorPermissions e d actorID) (\<lambda>(allowed, owner). Return (current, currentETag, allowed, owner)))))))"

definition retained :: "store_env \<Rightarrow> role_db \<Rightarrow> int64 \<Rightarrow> ConfigScope \<Rightarrow> string list \<Rightarrow> bool \<Rightarrow> (admin_error, unit) outcome" where
  "retained e d actorID s allowed owner =
     (if cf_Type s = ''server'' \<and> \<not> owner then ensureManagementRetained e d actorID allowed else Return ())"

definition config_changed :: "(string \<Rightarrow> bytes) \<Rightarrow> store_env \<Rightarrow> role_db \<Rightarrow> int64 list \<Rightarrow> ConfigScope \<Rightarrow> EffectiveConfig \<Rightarrow> mutation" where
  "config_changed sha256 e d userIDs s config =
     outcome_bind (effectiveConfigETag sha256 e config) (\<lambda>etag.
       changed (ConfigValue config etag) (zero_change\<lparr>sg_EventType := ''rbac.config.updated'', sg_UserIDs := userIDs, sg_Scope := realtimeScope s\<rparr>) d)"

definition UpdateConfig :: "(string \<Rightarrow> bytes) \<Rightarrow> store_env \<Rightarrow> StateVersion option \<Rightarrow> role_db \<Rightarrow> int64 \<Rightarrow> int64 list \<Rightarrow> int64 \<Rightarrow> string \<Rightarrow> ConfigScope \<Rightarrow> string \<Rightarrow> mutation" where
  "UpdateConfig sha256 e version d now userIDs actorID expectedETag s raw =
     outcome_bind (config_admission sha256 e version d actorID expectedETag s) (\<lambda>(current, currentETag, allowed, owner).
     outcome_bind (validateGrantedPermissions e raw allowed owner) (\<lambda>_.
     outcome_bind (Canonicalize e d (cf_Type s) raw) (\<lambda>canonical.
       if (case ec_Local current of None \<Rightarrow> False | Some l \<Rightarrow> dbp_Config l = canonical) then unchanged (ConfigValue current currentETag) d
       else outcome_bind (ConfigStore_Update e d now s raw) (\<lambda>(config, d').
            outcome_bind (retained e d' actorID s allowed owner) (\<lambda>_. config_changed sha256 e d' userIDs s config)))))"

definition ResetConfig :: "(string \<Rightarrow> bytes) \<Rightarrow> store_env \<Rightarrow> StateVersion option \<Rightarrow> role_db \<Rightarrow> int64 \<Rightarrow> int64 list \<Rightarrow> int64 \<Rightarrow> string \<Rightarrow> ConfigScope \<Rightarrow> mutation" where
  "ResetConfig sha256 e version d now userIDs actorID expectedETag s =
     outcome_bind (config_admission sha256 e version d actorID expectedETag s) (\<lambda>(current, currentETag, allowed, owner).
       if cf_Type s \<noteq> ''server'' \<and> ec_Local current = None then unchanged (ConfigValue current currentETag) d
       else outcome_bind (ConfigStore_Reset e d now s) (\<lambda>(config, d').
            outcome_bind (validateGrantedPermissions e (dbp_Config (ec_Source config)) allowed owner) (\<lambda>_.
            outcome_bind (retained e d' actorID s allowed owner) (\<lambda>_. config_changed sha256 e d' userIDs s config))))"

subsection \<open>All mutations\<close>

text \<open>One administrative request, and the mutation that serves it.\<close>

datatype request =
    ReqCreateRole string string int64
  | ReqUpdateRole string "string option" "int64 option"
  | ReqDeleteRole string
  | ReqCreateBinding BindingInput
  | ReqDeleteBinding int64
  | ReqTransferOwner int64
  | ReqUpdateConfig string ConfigScope string
  | ReqResetConfig string ConfigScope

record request_env =
  re_sha256 :: "string \<Rightarrow> bytes"
  re_store :: store_env

record request_inputs =
  ri_version :: "StateVersion option"
  ri_now :: int64
  ri_id1 :: "int64 option"
  ri_id2 :: "int64 option"
  ri_userIDs :: "int64 list"

fun mutate :: "request_env \<Rightarrow> request_inputs \<Rightarrow> role_db \<Rightarrow> int64 \<Rightarrow> request \<Rightarrow> mutation" where
  "mutate re ri d actorID (ReqCreateRole key displayName rank) = CreateRole (re_store re) d (ri_now ri) actorID key displayName rank"
| "mutate re ri d actorID (ReqUpdateRole key displayName rank) = UpdateRole (re_store re) d (ri_now ri) (ri_userIDs ri) actorID key displayName rank"
| "mutate re ri d actorID (ReqDeleteRole key) = DeleteRole (re_store re) d (ri_userIDs ri) actorID key"
| "mutate re ri d actorID (ReqCreateBinding i) = CreateBinding (re_store re) d (ri_now ri) (ri_id1 ri) actorID i"
| "mutate re ri d actorID (ReqDeleteBinding i) = DeleteBinding (re_store re) d actorID i"
| "mutate re ri d actorID (ReqTransferOwner target) = TransferOwner (ri_version ri) d (ri_now ri) (ri_id1 ri) (ri_id2 ri) actorID target"
| "mutate re ri d actorID (ReqUpdateConfig etag s raw) =
     UpdateConfig (re_sha256 re) (re_store re) (ri_version ri) d (ri_now ri) (ri_userIDs ri) actorID etag s raw"
| "mutate re ri d actorID (ReqResetConfig etag s) =
     ResetConfig (re_sha256 re) (re_store re) (ri_version ri) d (ri_now ri) (ri_userIDs ri) actorID etag s"

section \<open>Theorems\<close>

subsection \<open>Ranks\<close>

text \<open>The rank of a user: the highest rank of the roles bound to the user at server scope, \<open>- 1\<close> without one.\<close>

definition server_ranks :: "role_db \<Rightarrow> int64 \<Rightarrow> int set" where
  "server_ranks d u = {sint (dbr_Rank r) | r b i. fmlookup (rd_bindings d) i = Some b \<and> dbb_UserID b = u \<and> dbb_ScopeType b = ''server'' \<and>
     fmlookup (rd_roles d) (dbb_RoleKey b) = Some r}"

definition user_rank :: "role_db \<Rightarrow> int64 \<Rightarrow> int" where
  "user_rank d u = Max (insert (- 1) (server_ranks d u))"

definition is_owner :: "role_db \<Rightarrow> int64 \<Rightarrow> bool" where
  "is_owner d u \<longleftrightarrow> (\<exists>i b. fmlookup (rd_bindings d) i = Some b \<and> dbb_RoleKey b = ''owner'' \<and> dbb_UserID b = u)"

definition list_ranks :: "role_db \<Rightarrow> db_UserRoleBinding list \<Rightarrow> int set" where
  "list_ranks d bs = {sint (dbr_Rank r) | r b. b \<in> set bs \<and> dbb_ScopeType b = ''server'' \<and> fmlookup (rd_roles d) (dbb_RoleKey b) = Some r}"

lemma list_ranks_Cons:
  "list_ranks d (b # bs) = (if dbb_ScopeType b = ''server'' then (case fmlookup (rd_roles d) (dbb_RoleKey b) of None \<Rightarrow> {} | Some r \<Rightarrow> {sint (dbr_Rank r)}) else {})
     \<union> list_ranks d bs"
  by (auto simp: list_ranks_def split: option.splits)

lemma finite_list_ranks [simp]: "finite (list_ranks d bs)"
  by (induction bs) (auto simp: list_ranks_Cons list_ranks_def [of d "[]"] split: option.splits)

lemma server_ranks_list: "server_ranks d u = list_ranks d (ListRoleBindingsForUser d u)"
  unfolding server_ranks_def list_ranks_def set_ListRoleBindingsForUser by blast

lemma finite_server_ranks [simp]: "finite (server_ranks d u)"
  by (simp add: server_ranks_list)

lemma user_rank_less: "user_rank d u < k \<longleftrightarrow> - 1 < k \<and> (\<forall>n \<in> server_ranks d u. n < k)"
  by (simp add: user_rank_def)

lemma user_rank_le: "user_rank d u \<le> k \<longleftrightarrow> - 1 \<le> k \<and> (\<forall>n \<in> server_ranks d u. n \<le> k)"
  by (simp add: user_rank_def)

lemma user_rank_ge: "k \<le> user_rank d u \<longleftrightarrow> k \<le> - 1 \<or> (\<exists>n \<in> server_ranks d u. k \<le> n)"
  by (simp add: user_rank_def Max_ge_iff)

lemma user_rank_least [simp]: "- 1 \<le> user_rank d u"
  by (simp add: user_rank_ge)

lemma authority_loop_rank:
  "authority_loop d a bs = Return a' \<Longrightarrow> at_rank a' = Max (insert (at_rank a) (list_ranks d bs)) \<and>
     at_owner a' = (at_owner a \<or> (\<exists>b \<in> set bs. dbb_ScopeType b = ''server'' \<and> (\<exists>r. fmlookup (rd_roles d) (dbb_RoleKey b) = Some r \<and> dbr_Key r = ''owner'')))"
proof (induction bs arbitrary: a)
  case Nil
  then show ?case by (simp add: list_ranks_def)
next
  case (Cons b bs)
  show ?case
  proof (cases "dbb_ScopeType b = ''server''")
    case True
    with Cons.prems obtain r where r: "fmlookup (rd_roles d) (dbb_RoleKey b) = Some r"
      "authority_loop d \<lparr>at_rank = (if sint (dbr_Rank r) > at_rank a then sint (dbr_Rank r) else at_rank a), at_owner = (if dbr_Key r = ''owner'' then True else at_owner a)\<rparr> bs = Return a'"
      by (auto simp: GetRoleByKey_def outcome_bind_Return split: option.splits)
    have m: "(if sint (dbr_Rank r) > at_rank a then sint (dbr_Rank r) else at_rank a) = max (at_rank a) (sint (dbr_Rank r))" by (simp add: max_def)
    from Cons.IH [OF r(2)] have "at_rank a' = Max (insert (max (at_rank a) (sint (dbr_Rank r))) (list_ranks d bs))" by (simp add: m)
    also have "\<dots> = Max (insert (at_rank a) (insert (sint (dbr_Rank r)) (list_ranks d bs)))"
      by (cases "list_ranks d bs = {}") (simp_all add: max.assoc)
    finally show ?thesis using True r Cons.IH [OF r(2)] by (auto simp: list_ranks_Cons split: if_splits)
  next
    case False
    with Cons.IH [of a] Cons.prems show ?thesis by (simp add: list_ranks_Cons)
  qed
qed

lemma authority_of_rank:
  assumes "authority_of d u = Return a"
  shows "at_rank a = user_rank d u"
  using assms authority_loop_rank by (fastforce simp: authority_of_def outcome_bind_Return user_rank_def server_ranks_list)

lemma is_owner_server:
  assumes "db_ok e d" "fmlookup (rd_bindings d) i = Some b" "dbb_RoleKey b = ''owner''"
  shows "dbb_ScopeType b = ''server''"
  using db_okD(4) [OF assms(1,2)] assms(3) by (simp add: binding_check_def)

lemma authority_of_owner:
  assumes "db_ok e d" "authority_of d u = Return a"
  shows "at_owner a = is_owner d u"
proof -
  from assms(2) have l: "authority_loop d \<lparr>at_rank = - 1, at_owner = False\<rparr> (ListRoleBindingsForUser d u) = Return a"
    by (auto simp: authority_of_def outcome_bind_Return)
  have "at_owner a \<longleftrightarrow> (\<exists>b \<in> set (ListRoleBindingsForUser d u). dbb_ScopeType b = ''server'' \<and> (\<exists>r. fmlookup (rd_roles d) (dbb_RoleKey b) = Some r \<and> dbr_Key r = ''owner''))"
    using authority_loop_rank [OF l] by simp
  also have "\<dots> \<longleftrightarrow> is_owner d u"
  proof
    assume "is_owner d u"
    then obtain i b where b: "fmlookup (rd_bindings d) i = Some b" "dbb_RoleKey b = ''owner''" "dbb_UserID b = u" by (auto simp: is_owner_def)
    obtain r where r: "fmlookup (rd_roles d) ''owner'' = Some r" using db_okD(5) [OF assms(1) b(1)] b(2) by (auto simp: binding_parents_def)
    have "dbr_Key r = ''owner''" by (rule db_okD(1) [OF assms(1) r])
    then show "\<exists>b \<in> set (ListRoleBindingsForUser d u). dbb_ScopeType b = ''server'' \<and> (\<exists>r. fmlookup (rd_roles d) (dbb_RoleKey b) = Some r \<and> dbr_Key r = ''owner'')"
      using b r is_owner_server [OF assms(1) b(1,2)] by (intro bexI [of _ b]) (auto simp: set_ListRoleBindingsForUser)
  qed (use db_okD(1) [OF assms(1)] in \<open>fastforce simp: is_owner_def set_ListRoleBindingsForUser\<close>)
  finally show ?thesis .
qed

subsection \<open>What a mutation does to the tables\<close>

definition same_tables :: "role_db \<Rightarrow> role_db \<Rightarrow> bool" where
  "same_tables d d' \<longleftrightarrow> rd_roles d' = rd_roles d \<and> rd_bindings d' = rd_bindings d \<and> rd_users d' = rd_users d \<and> rd_groups d' = rd_groups d \<and>
     rd_channels d' = rd_channels d \<and> rd_installation d' = rd_installation d"

lemma same_tables_configs: "same_tables d d" "same_tables d (set_config d s row)" "same_tables d (drop_config d s)"
  by (simp_all add: same_tables_def set_config_def drop_config_def)

lemma put_config_tables: "put_config d s row = Return (row', d') \<Longrightarrow> same_tables d d' \<and> row' = row \<and> d' = set_config d s row"
  by (auto simp: put_config_def same_tables_configs split: if_splits)

lemma ConfigStore_Update_tables: "ConfigStore_Update e d now s raw = Return (c, d') \<Longrightarrow> same_tables d d'"
  by (auto simp: ConfigStore_Update_def UpdateServerPermissionConfig_def PutGroup_def PutChannel_def local_config_def outcome_bind_Return
      split: option.splits if_splits dest!: put_config_tables)

lemma ConfigStore_Reset_tables: "ConfigStore_Reset e d now s = Return (c, d') \<Longrightarrow> same_tables d d'"
  by (auto simp: ConfigStore_Reset_def outcome_bind_Return Let_def same_tables_configs split: option.splits if_splits dest: ConfigStore_Update_tables)

lemmas result_defs = changed_def unchanged_def config_changed_def

lemma UpdateConfig_tables: "UpdateConfig h e v d now us a tag s raw = Return (res, d') \<Longrightarrow> same_tables d d'"
  by (auto simp: UpdateConfig_def result_defs outcome_bind_Return same_tables_configs split: if_splits dest!: ConfigStore_Update_tables)

lemma ResetConfig_tables: "ResetConfig h e v d now us a tag s = Return (res, d') \<Longrightarrow> same_tables d d'"
  by (auto simp: ResetConfig_def result_defs outcome_bind_Return same_tables_configs split: if_splits dest!: ConfigStore_Reset_tables)

lemma CreateRole_Return:
  assumes "CreateRole e d now actorID key displayName rank = Return (res, d')"
  obtains r where "d' = d\<lparr>rd_roles := fmupd (dbr_Key r) r (rd_roles d)\<rparr>" "fmlookup (rd_roles d) (dbr_Key r) = None" "role_check e r"
    "sint (dbr_Rank r) < user_rank d actorID"
proof -
  from assms obtain a role where a: "authority_of d actorID = Return a" "sint rank < at_rank a"
    and s: "RoleStore_Create e d now key displayName rank = Return (role, d')"
    by (auto simp: CreateRole_def result_defs outcome_bind_Return split: if_splits)
  from s have "d' = d\<lparr>rd_roles := fmupd (dbr_Key role) role (rd_roles d)\<rparr>" "fmlookup (rd_roles d) (dbr_Key role) = None" "role_check e role"
    "dbr_Rank role = rank" by (auto simp: RoleStore_Create_def InsertRoleRow_def split: if_splits)
  with a show thesis using authority_of_rank [OF a(1)] by (intro that [of role]) simp_all
qed

lemma owner_role_rank: "\<lbrakk>db_ok e d; fmlookup (rd_roles d) k = Some r; dbr_Key r = ''owner''\<rbrakk> \<Longrightarrow> dbr_Rank r = 1000000"
  using db_okD(3) [of e d k r] by (simp add: role_check_def)

lemma UpdateRole_Return:
  assumes "db_ok e d" "UpdateRole e d now us actorID key displayName rank = Return (res, d')"
  obtains "d' = d"
  | r r' where "d' = d\<lparr>rd_roles := fmupd key r' (rd_roles d)\<rparr>" "fmlookup (rd_roles d) key = Some r" "dbr_Key r' = key" "key \<noteq> ''owner''"
      "role_check e r'" "sint (dbr_Rank r) < user_rank d actorID" "sint (dbr_Rank r') < user_rank d actorID"
proof -
  define newRank where "newRank role = (case rank of None \<Rightarrow> dbr_Rank role | Some r \<Rightarrow> r)" for role :: db_Role
  from assms(2) obtain role a where r: "fmlookup (rd_roles d) key = Some role" and a: "authority_of d actorID = Return a"
    and g: "\<not> (dbr_Key role = ''owner'' \<and> (\<not> at_owner a \<or> rank \<noteq> None))" "\<not> (dbr_Key role \<noteq> ''owner'' \<and> sint (dbr_Rank role) \<ge> at_rank a)"
      "\<not> sint (newRank role) \<ge> 1000000" "\<not> (dbr_Key role \<noteq> ''owner'' \<and> sint (newRank role) \<ge> at_rank a)"
    and e: "d' = d \<or> (\<exists>n u. RoleStore_Update e d now key n (newRank role) = Return (u, d'))"
    by (auto simp: UpdateRole_def GetRoleByKey_def result_defs outcome_bind_Return Let_def newRank_def split: if_splits option.splits)
  have key: "dbr_Key role = key" by (rule db_okD(1) [OF assms(1) r])
  have no: "key \<noteq> ''owner''"
  proof
    assume "key = ''owner''"
    with key g(1) have "newRank role = dbr_Rank role" by (simp add: newRank_def)
    then show False using g(3) owner_role_rank [OF assms(1) r] key \<open>key = ''owner''\<close> by simp
  qed
  from e show thesis
  proof
    assume "\<exists>n u. RoleStore_Update e d now key n (newRank role) = Return (u, d')"
    then obtain n u where "RoleStore_Update e d now key n (newRank role) = Return (u, d')" by blast
    then have "d' = d\<lparr>rd_roles := fmupd key u (rd_roles d)\<rparr>" "dbr_Key u = key" "role_check e u" "dbr_Rank u = newRank role"
      using r key by (auto simp: RoleStore_Update_def GetRoleByKey_def UpdateRoleRow_def Let_def split: if_splits)
    then show thesis using r no g(2,4) key authority_of_rank [OF a] by (intro that(2) [of u role]) simp_all
  qed (rule that(1))
qed

lemma DeleteRole_Return:
  assumes "DeleteRole e d us actorID key = Return (res, d')"
  shows "d' = d\<lparr>rd_roles := fmdrop key (rd_roles d)\<rparr>" "fmlookup (rd_bindings d) i = Some b \<Longrightarrow> dbb_RoleKey b \<noteq> key"
proof -
  from assms have "RoleStore_Delete e d key = Return d'"
    by (auto simp: DeleteRole_def result_defs outcome_bind_Return split: if_splits)
  then have s: "CountRoleReferences e d key = 0" "DeleteRoleRow d key = Return d'" by (auto simp: RoleStore_Delete_def outcome_bind_Return split: if_splits)
  from s(2) show "d' = d\<lparr>rd_roles := fmdrop key (rd_roles d)\<rparr>" by (auto simp: DeleteRoleRow_def split: if_splits)
  from s(1) show "fmlookup (rd_bindings d) i = Some b \<Longrightarrow> dbb_RoleKey b \<noteq> key" by (auto simp: CountRoleReferences_def gm_len_0)
qed

lemma CreateBinding_Return:
  assumes "CreateBinding e d now nextID actorID i = Return (res, d')"
  obtains "d' = d"
  | b r where "InsertRoleBinding d b = Return (b, d')" "dbb_RoleKey b \<noteq> ''owner''" "fmlookup (rd_roles d) (dbb_RoleKey b) = Some r"
      "user_rank d (dbb_UserID b) < user_rank d actorID" "sint (dbr_Rank r) < user_rank d actorID"
proof -
  from assms have c: "checkBindingAuthority d actorID i = Return ()" and no: "bi_RoleKey i \<noteq> ''owner''"
    and r: "d' = d \<or> (\<exists>b. InsertBinding d now nextID (bi_UserID i) (bi_RoleKey i) (bi_ScopeType i) (fst (scopeIDs i)) (snd (scopeIDs i)) = Return (b, d'))"
    by (auto simp: CreateBinding_def result_defs outcome_bind_Return split: if_splits option.splits outcome.splits)
  from c obtain a t role where "authority_of d actorID = Return a" "authority_of d (bi_UserID i) = Return t" "fmlookup (rd_roles d) (bi_RoleKey i) = Some role"
    "at_rank t < at_rank a" "sint (dbr_Rank role) < at_rank a"
    by (auto simp: checkBindingAuthority_def GetRoleByKey_def outcome_bind_Return split: if_splits option.splits)
  note a = this(3) this(4,5) [unfolded authority_of_rank [OF this(1)] authority_of_rank [OF this(2)]]
  from r show thesis
  proof
    assume "\<exists>b. InsertBinding d now nextID (bi_UserID i) (bi_RoleKey i) (bi_ScopeType i) (fst (scopeIDs i)) (snd (scopeIDs i)) = Return (b, d')"
    then obtain b where "insertBinding d now nextID (bi_UserID i) (bi_RoleKey i) (bi_ScopeType i) (fst (scopeIDs i)) (snd (scopeIDs i)) = Return (b, d')"
      by (auto simp: InsertBinding_def split: if_splits)
    note b = insertBinding_Return [OF this]
    show thesis using b no a by (intro that(2) [of b role]) simp_all
  qed (rule that(1))
qed

lemma DeleteBinding_Return:
  assumes "DeleteBinding e d actorID bindingID = Return (res, d')"
  obtains b where "d' = d\<lparr>rd_bindings := fmdrop bindingID (rd_bindings d)\<rparr>" "fmlookup (rd_bindings d) bindingID = Some b" "dbb_RoleKey b \<noteq> ''owner''"
    "user_rank d (dbb_UserID b) < user_rank d actorID"
proof -
  from assms obtain b a t where b: "fmlookup (rd_bindings d) bindingID = Some b" "dbb_RoleKey b \<noteq> ''owner''"
    and a: "authority_of d actorID = Return a" "authority_of d (dbb_UserID b) = Return t" "at_rank t < at_rank a"
    and s: "RoleStore_DeleteBinding d bindingID = Return d'"
    by (auto simp: DeleteBinding_def GetRoleBindingByID_def result_defs outcome_bind_Return split: if_splits option.splits)
  from s b have "d' = d\<lparr>rd_bindings := fmdrop bindingID (rd_bindings d)\<rparr>"
    by (auto simp: RoleStore_DeleteBinding_def DeleteRoleBinding_def outcome_bind_Return split: if_splits)
  then show thesis using that b a authority_of_rank [OF a(1)] authority_of_rank [OF a(2)] by simp
qed

lemma mutate_cases:
  assumes ok: "db_ok (re_store re) d" and m: "mutate re ri d actorID req = Return (res, d')"
  obtains (frame) "same_tables d d'"
  | (created) r where "d' = d\<lparr>rd_roles := fmupd (dbr_Key r) r (rd_roles d)\<rparr>" "fmlookup (rd_roles d) (dbr_Key r) = None" "role_check (re_store re) r"
      "sint (dbr_Rank r) < user_rank d actorID"
  | (updated) k r r' where "d' = d\<lparr>rd_roles := fmupd k r' (rd_roles d)\<rparr>" "fmlookup (rd_roles d) k = Some r" "dbr_Key r' = k" "k \<noteq> ''owner''"
      "role_check (re_store re) r'" "sint (dbr_Rank r) < user_rank d actorID" "sint (dbr_Rank r') < user_rank d actorID"
  | (deleted) k where "d' = d\<lparr>rd_roles := fmdrop k (rd_roles d)\<rparr>" "\<And>i b. fmlookup (rd_bindings d) i = Some b \<Longrightarrow> dbb_RoleKey b \<noteq> k" "req = ReqDeleteRole k"
  | (bound) b r where "InsertRoleBinding d b = Return (b, d')" "dbb_RoleKey b \<noteq> ''owner''" "fmlookup (rd_roles d) (dbb_RoleKey b) = Some r"
      "user_rank d (dbb_UserID b) < user_rank d actorID" "sint (dbr_Rank r) < user_rank d actorID"
  | (unbound) i b where "d' = d\<lparr>rd_bindings := fmdrop i (rd_bindings d)\<rparr>" "fmlookup (rd_bindings d) i = Some b" "dbb_RoleKey b \<noteq> ''owner''"
      "user_rank d (dbb_UserID b) < user_rank d actorID"
  | (transferred) t where "req = ReqTransferOwner t" "TransferOwnerInTx d (ri_now ri) (ri_id1 ri) (ri_id2 ri) actorID t = Return d'"
proof (cases req)
  case (ReqCreateRole key name rank)
  with m have "CreateRole (re_store re) d (ri_now ri) actorID key name rank = Return (res, d')" by simp
  from CreateRole_Return [OF this] show thesis using created .
next
  case (ReqUpdateRole key name rank)
  with m have "UpdateRole (re_store re) d (ri_now ri) (ri_userIDs ri) actorID key name rank = Return (res, d')" by simp
  from UpdateRole_Return [OF ok this] show thesis using updated frame same_tables_configs(1) by metis
next
  case (ReqDeleteRole key)
  with m have "DeleteRole (re_store re) d (ri_userIDs ri) actorID key = Return (res, d')" by simp
  from DeleteRole_Return [OF this] ReqDeleteRole show thesis by (intro deleted)
next
  case (ReqCreateBinding i)
  with m have "CreateBinding (re_store re) d (ri_now ri) (ri_id1 ri) actorID i = Return (res, d')" by simp
  from CreateBinding_Return [OF this] show thesis using bound frame same_tables_configs(1) by metis
next
  case (ReqDeleteBinding i)
  with m have "DeleteBinding (re_store re) d actorID i = Return (res, d')" by simp
  from DeleteBinding_Return [OF this] show thesis using unbound by metis
next
  case (ReqTransferOwner t)
  with m have "TransferOwnerInTx d (ri_now ri) (ri_id1 ri) (ri_id2 ri) actorID t = Return d'"
    by (auto simp: TransferOwner_def result_defs outcome_bind_Return split: option.splits)
  with ReqTransferOwner show thesis by (rule transferred)
next
  case (ReqUpdateConfig tag s raw)
  with m show thesis by (intro frame UpdateConfig_tables) auto
next
  case (ReqResetConfig tag s)
  with m show thesis by (intro frame ResetConfig_tables) auto
qed

lemma gm_filter_twice: "gm_filter P (gm_filter Q m) = gm_filter (\<lambda>k v. Q k v \<and> P k v) m"
  by (rule fmap_ext) (simp split: option.splits)

lemma TransferOwnerInTx_Return:
  assumes "TransferOwnerInTx d now id1 id2 u t = Return d'"
  obtains d2 d3 d4 b1 b2 b0 row where "u \<noteq> t" "CountOwners d = 1" "CountOwners d' = 1" "map_option snd (rd_installation d) = Some 1"
    "List.find (\<lambda>b. dbb_RoleKey b = ''owner'') (id_rows (rd_bindings d)) = Some b0" "dbb_UserID b0 = u"
    "fmlookup (rd_users d) t = Some row" "dbu_BannedAt row = None"
    "d2 = d\<lparr>rd_bindings := gm_filter (\<lambda>_ b. \<not> ((dbb_UserID b = u \<or> dbb_UserID b = t) \<and> dbb_ScopeType b = ''server'')) (rd_bindings d)\<rparr>"
    "InsertRoleBinding d2 b1 = Return (b1, d3)" "InsertRoleBinding d3 b2 = Return (b2, d4)" "d' = DeleteMutesForUser d4 t"
    "dbb_UserID b1 = u" "dbb_RoleKey b1 = ''member''" "dbb_ScopeType b1 = ''server''"
    "dbb_UserID b2 = t" "dbb_RoleKey b2 = ''owner''" "dbb_ScopeType b2 = ''server''"
proof -
  let ?d1 = "DeleteServerRoleBindingsForUser (DeleteServerRoleBindingsForUser d t) u"
  define rest where "rest = outcome_bind (insertBinding ?d1 now id1 u ''member'' ''server'' None None) (\<lambda>(_, d3).
    outcome_bind (insertOwnerBinding d3 now id2 t) (\<lambda>(_, d4). let d5 = DeleteMutesForUser d4 t
      in if CountOwners d5 \<noteq> 1 then Fail ErrInstallationInvariant else Return d5))"
  obtain inst where a: "u \<noteq> t" "rd_installation d = Some inst"
    using assms by (cases "rd_installation d") (auto simp: TransferOwnerInTx_def split: if_splits)
  have b: "snd inst = 1" "CountOwners d = 1" using assms a by (auto simp: TransferOwnerInTx_def split: if_splits)
  obtain b0 where c: "List.find (\<lambda>b. dbb_RoleKey b = ''owner'') (id_rows (rd_bindings d)) = Some b0" "dbb_UserID b0 = u"
    using assms a b by (cases "List.find (\<lambda>b. dbb_RoleKey b = ''owner'') (id_rows (rd_bindings d))") (auto simp: TransferOwnerInTx_def GetOwnerBinding_def split: if_splits)
  obtain row where r: "fmlookup (rd_users d) t = Some row" "dbu_BannedAt row = None" "rest = Return d'"
    using assms a b c by (cases "fmlookup (rd_users d) t") (auto simp: TransferOwnerInTx_def GetOwnerBinding_def rest_def Let_def split: if_splits)
  obtain b1 d3 b2 d4 where h': "insertBinding ?d1 now id1 u ''member'' ''server'' None None = Return (b1, d3)" "insertOwnerBinding d3 now id2 t = Return (b2, d4)"
    "d' = DeleteMutesForUser d4 t" "CountOwners d' = 1"
    using r(3) by (auto simp: rest_def outcome_bind_Return Let_def split: if_splits)
  note h = a b h'(4) c r(1,2) h'(1-3)
  have d1: "?d1 = d\<lparr>rd_bindings := gm_filter (\<lambda>_ b. \<not> ((dbb_UserID b = u \<or> dbb_UserID b = t) \<and> dbb_ScopeType b = ''server'')) (rd_bindings d)\<rparr>"
    unfolding DeleteServerRoleBindingsForUser_def by (simp add: gm_filter_twice)
      (rule arg_cong [where f = "\<lambda>P. d\<lparr>rd_bindings := gm_filter P (rd_bindings d)\<rparr>"], auto)
  note i1 = insertBinding_Return [OF h(10)] and i2 = insertBinding_Return [OF h(11) [unfolded insertOwnerBinding_def]]
  show thesis by (rule that [OF h(1,4,5) _ h(6,7,8,9) d1 i1(1) i2(1) h(12)]) (use h i1 i2 in simp_all)
qed

lemma db_ok_transfer:
  assumes "db_ok e d" "TransferOwnerInTx d now id1 id2 u t = Return d'"
  shows "db_ok e d'"
  using assms(2)
proof (rule TransferOwnerInTx_Return)
  fix d2 d3 d4 b1 b2
  assume d2: "d2 = d\<lparr>rd_bindings := gm_filter (\<lambda>_ b. \<not> ((dbb_UserID b = u \<or> dbb_UserID b = t) \<and> dbb_ScopeType b = ''server'')) (rd_bindings d)\<rparr>"
    and i: "InsertRoleBinding d2 b1 = Return (b1, d3)" "InsertRoleBinding d3 b2 = Return (b2, d4)" and d': "d' = DeleteMutesForUser d4 t"
  have "db_ok e d2" unfolding d2 by (rule db_ok_subset [OF assms(1)]) (auto split: option.splits if_splits)
  then have "db_ok e d4" using db_ok_insert i by blast
  then show "db_ok e d'" unfolding d' by (rule db_ok_other_tables) (simp_all add: DeleteMutesForUser_def)
qed

lemma db_ok_drop_role:
  assumes "db_ok e d" "\<And>i b. fmlookup (rd_bindings d) i = Some b \<Longrightarrow> dbb_RoleKey b \<noteq> k"
  shows "db_ok e (d\<lparr>rd_roles := fmdrop k (rd_roles d)\<rparr>)"
proof -
  have "binding_parents (d\<lparr>rd_roles := fmdrop k (rd_roles d)\<rparr>) b" if "fmlookup (rd_bindings d) i = Some b" for i b
    using db_okD(5) [OF assms(1) that] by (rule binding_parents_mono) (use assms(2) [OF that] in auto)
  then show ?thesis using assms(1) unfolding db_ok_def by (auto simp: keyed_by_def split: if_splits)
qed

lemma mutate_db_ok:
  assumes "db_ok (re_store re) d" "mutate re ri d actorID req = Return (res, d')"
  shows "db_ok (re_store re) d'"
  using assms
proof (cases rule: mutate_cases)
  case frame
  then show ?thesis using assms(1) by (auto simp: same_tables_def intro: db_ok_other_tables)
next
  case (created r)
  then show ?thesis using assms(1) by (simp add: db_ok_role_update)
next
  case (updated k r r')
  then show ?thesis using assms(1) by (simp add: db_ok_role_update)
next
  case (deleted k)
  show ?thesis unfolding deleted(1) by (rule db_ok_drop_role [OF assms(1) deleted(2)])
next
  case (bound b r)
  then show ?thesis using assms(1) db_ok_insert by blast
next
  case (unbound i b)
  show ?thesis unfolding unbound(1) by (rule db_ok_subset [OF assms(1)]) (auto split: if_splits)
next
  case (transferred t)
  then show ?thesis using assms(1) db_ok_transfer by blast
qed

subsection \<open>Nobody rises past the actor\<close>

lemma server_ranks_cong:
  assumes "\<And>i b. dbb_UserID b = u \<Longrightarrow> dbb_ScopeType b = ''server'' \<Longrightarrow> fmlookup (rd_bindings d') i = Some b \<longleftrightarrow> fmlookup (rd_bindings d) i = Some b"
    "\<And>i b. fmlookup (rd_bindings d) i = Some b \<Longrightarrow> fmlookup (rd_roles d') (dbb_RoleKey b) = fmlookup (rd_roles d) (dbb_RoleKey b)"
  shows "user_rank d' u = user_rank d u"
proof -
  have "server_ranks d' u = server_ranks d u" unfolding server_ranks_def using assms by (metis (no_types, opaque_lifting))
  then show ?thesis by (simp add: user_rank_def)
qed

text \<open>A rank is kept, or it stays below \<open>k\<close>.\<close>

definition kept_below :: "int \<Rightarrow> role_db \<Rightarrow> role_db \<Rightarrow> int64 \<Rightarrow> bool" where
  "kept_below k d d' v \<longleftrightarrow> user_rank d' v = user_rank d v \<or> user_rank d v < k \<and> user_rank d' v < k"

lemma kept_below_update:
  assumes "db_ok e d" "fmlookup (rd_roles d) key = Some r" "sint (dbr_Rank r) < k" "sint (dbr_Rank r') < k"
    "d' = d\<lparr>rd_roles := fmupd key r' (rd_roles d)\<rparr>" "- 1 < k"
  shows "kept_below k d d' v"
proof -
  have sub: "n < k \<or> n \<in> server_ranks d v" if "n \<in> server_ranks d' v" for n
    using that assms(4,5) by (auto simp: server_ranks_def split: if_splits)
  have sub2: "n < k \<or> n \<in> server_ranks d' v" if "n \<in> server_ranks d v" for n
    using that assms(2,3,5) unfolding server_ranks_def by (auto split: if_splits) (metis assms(2) option.inject)
  show ?thesis
  proof (cases "user_rank d v < k")
    case True
    then have "user_rank d' v < k" using sub by (fastforce simp: user_rank_less)
    with True show ?thesis by (simp add: kept_below_def)
  next
    case False
    then have ge: "k \<le> user_rank d v" by simp
    then have ge': "k \<le> user_rank d' v" using sub2 assms(6) by (fastforce simp: user_rank_ge)
    have "user_rank d' v \<le> user_rank d v" unfolding user_rank_le [of d' v]
      using sub ge user_rank_least [of d v] by (fastforce simp: user_rank_ge)
    moreover have "user_rank d v \<le> user_rank d' v" unfolding user_rank_le [of d v]
      using sub2 ge' user_rank_least [of d' v] by (fastforce simp: user_rank_ge)
    ultimately show ?thesis by (simp add: kept_below_def)
  qed
qed

lemma kept_below_mono: "\<lbrakk>kept_below k d d' v; k \<le> m\<rbrakk> \<Longrightarrow> kept_below m d d' v"
  by (auto simp: kept_below_def)

lemma kept_below_trans: "\<lbrakk>kept_below k d d1 v; kept_below k d1 d2 v\<rbrakk> \<Longrightarrow> kept_below k d d2 v"
  by (auto simp: kept_below_def)

lemma kept_below_shrink:
  assumes "server_ranks d' v \<subseteq> insert n (server_ranks d v)" "n < k" "user_rank d v < k"
  shows "kept_below k d d' v"
  using assms by (fastforce simp: kept_below_def user_rank_less)

lemma role_check_rank: "role_check e r \<Longrightarrow> 0 \<le> sint (dbr_Rank r)"
  by (simp add: role_check_def)

lemma mutate_ranks:
  assumes ok: "db_ok (re_store re) d" and m: "mutate re ri d actorID req = Return (res, d')" and nt: "\<And>t. req \<noteq> ReqTransferOwner t"
  shows "kept_below (user_rank d actorID) d d' v"
  using ok m
proof (cases rule: mutate_cases)
  case frame
  then have "user_rank d' v = user_rank d v" by (intro server_ranks_cong) (auto simp: same_tables_def)
  then show ?thesis by (simp add: kept_below_def)
next
  case (created r)
  have "dbb_RoleKey b \<noteq> dbr_Key r" if "fmlookup (rd_bindings d) i = Some b" for i b
    using db_okD(5) [OF ok that] created(2) by (auto simp: binding_parents_def)
  then have "fmlookup (rd_roles d') (dbb_RoleKey b) = fmlookup (rd_roles d) (dbb_RoleKey b)" if "fmlookup (rd_bindings d) i = Some b" for i b
    unfolding created(1) using that by fastforce
  then have "user_rank d' v = user_rank d v" by (intro server_ranks_cong) (simp_all add: created(1))
  then show ?thesis by (simp add: kept_below_def)
next
  case (updated k r r')
  have "- 1 < user_rank d actorID" using updated(6) role_check_rank [OF db_okD(3) [OF ok updated(2)]] by simp
  then show ?thesis using kept_below_update [OF ok updated(2,6,7,1)] by simp
next
  case (deleted k)
  have "user_rank d' v = user_rank d v"
    by (rule server_ranks_cong) (use deleted in auto)
  then show ?thesis by (simp add: kept_below_def)
next
  case (bound b r)
  note d' = InsertRoleBinding_Return(1) [OF bound(1)]
  show ?thesis
  proof (cases "v = dbb_UserID b")
    case True
    have "server_ranks d' v \<subseteq> insert (sint (dbr_Rank r)) (server_ranks d v)"
      using d' bound(3) by (auto simp: server_ranks_def split: if_splits)
    then show ?thesis using bound(4,5) True by (intro kept_below_shrink [where n = "sint (dbr_Rank r)"]) simp_all
  next
    case False
    have "\<not> binding_clash b x" if "fmlookup (rd_bindings d) i = Some x" for i x by (rule InsertRoleBinding_Return(4) [OF bound(1) that])
    then have "fmlookup (rd_bindings d) (dbb_ID b) = None"
      using db_okD(2) [OF ok] by (metis binding_clash_def not_None_eq)
    then have "user_rank d' v = user_rank d v" by (intro server_ranks_cong) (use d' False in auto)
    then show ?thesis by (simp add: kept_below_def)
  qed
next
  case (unbound i b)
  show ?thesis
  proof (cases "v = dbb_UserID b")
    case True
    have "server_ranks d' v \<subseteq> insert (- 1) (server_ranks d v)" unfolding unbound(1) by (auto simp: server_ranks_def split: if_splits)
    moreover have "- 1 < user_rank d actorID" using unbound(4) user_rank_least [of d "dbb_UserID b"] by linarith
    ultimately show ?thesis using unbound(4) True by (intro kept_below_shrink [where n = "- 1"]) simp_all
  next
    case False
    then have "user_rank d' v = user_rank d v" by (intro server_ranks_cong) (use unbound(1,2) in auto)
    then show ?thesis by (simp add: kept_below_def)
  qed
next
  case (transferred t)
  then show ?thesis using nt by blast
qed

subsection \<open>The owner\<close>

lemma mutate_owner:
  assumes ok: "db_ok (re_store re) d" and m: "mutate re ri d actorID req = Return (res, d')" and nt: "\<And>t. req \<noteq> ReqTransferOwner t"
  shows "is_owner d' v = is_owner d v"
  using ok m
proof (cases rule: mutate_cases)
  case (bound b r)
  note d' = InsertRoleBinding_Return(1) [OF bound(1)]
  have "\<not> binding_clash b x" if "fmlookup (rd_bindings d) i = Some x" for i x by (rule InsertRoleBinding_Return(4) [OF bound(1) that])
  then have "fmlookup (rd_bindings d) (dbb_ID b) = None"
    using db_okD(2) [OF ok] by (metis binding_clash_def not_None_eq)
  then have "fmlookup (rd_bindings d') i = Some x \<longleftrightarrow> fmlookup (rd_bindings d) i = Some x" if "dbb_RoleKey x = ''owner''" for i x
    using d' bound(2) that by auto
  then show ?thesis unfolding is_owner_def by blast
next
  case (unbound i b)
  then show ?thesis by (auto simp: is_owner_def)
qed (use nt in \<open>auto simp: is_owner_def same_tables_def\<close>)

lemma is_owner_unique: "\<lbrakk>db_ok e d; is_owner d u; is_owner d v\<rbrakk> \<Longrightarrow> u = v"
  unfolding is_owner_def using db_okD(6) by (metis binding_clash_def option.inject)

lemma find_owner: "List.find (\<lambda>b. dbb_RoleKey b = ''owner'') (id_rows (rd_bindings d)) = Some b \<Longrightarrow> is_owner d (dbb_UserID b)"
  by (auto simp: find_Some_iff is_owner_def) (metis nth_mem set_id_rows)

lemma transfer_owner:
  assumes ok: "db_ok e d" and t: "TransferOwnerInTx d now id1 id2 u t = Return d'"
  shows "is_owner d u" "is_owner d' v \<longleftrightarrow> v = t" "CountOwners d' = 1" "fmlookup (rd_users d) t \<noteq> None"
    "rd_installation d' = rd_installation d" "map_option snd (rd_installation d) = Some 1"
    "user_rank d' u = (case fmlookup (rd_roles d) ''member'' of Some r \<Rightarrow> sint (dbr_Rank r) | None \<Rightarrow> - 1)"
    "fmlookup (rd_mutes d') i = Some m \<Longrightarrow> dbm_UserID m \<noteq> t"
proof -
  from t obtain d2 d3 d4 b1 b2 b0 row where h: "u \<noteq> t" "CountOwners d = 1" "CountOwners d' = 1" "map_option snd (rd_installation d) = Some 1"
    "List.find (\<lambda>b. dbb_RoleKey b = ''owner'') (id_rows (rd_bindings d)) = Some b0" "dbb_UserID b0 = u"
    "fmlookup (rd_users d) t = Some row" "dbu_BannedAt row = None"
    and d2: "d2 = d\<lparr>rd_bindings := gm_filter (\<lambda>_ b. \<not> ((dbb_UserID b = u \<or> dbb_UserID b = t) \<and> dbb_ScopeType b = ''server'')) (rd_bindings d)\<rparr>"
    and i: "InsertRoleBinding d2 b1 = Return (b1, d3)" "InsertRoleBinding d3 b2 = Return (b2, d4)" and d': "d' = DeleteMutesForUser d4 t"
    and b: "dbb_UserID b1 = u" "dbb_RoleKey b1 = ''member''" "dbb_ScopeType b1 = ''server''"
    "dbb_UserID b2 = t" "dbb_RoleKey b2 = ''owner''" "dbb_ScopeType b2 = ''server''"
    by (rule TransferOwnerInTx_Return)
  have e: "rd_bindings d' = fmupd (dbb_ID b2) b2 (fmupd (dbb_ID b1) b1 (rd_bindings d2))" "rd_roles d' = rd_roles d" "rd_installation d' = rd_installation d"
    using InsertRoleBinding_Return(1) [OF i(1)] InsertRoleBinding_Return(1) [OF i(2)] by (simp_all add: d' d2 DeleteMutesForUser_def)
  have ok': "db_ok e d'" by (rule db_ok_transfer [OF ok t])
  show "is_owner d u" using find_owner [OF h(5)] h(6) by simp
  have "is_owner d' t" using e(1) b(4,5) unfolding is_owner_def by (metis fmupd_lookup)
  then show "is_owner d' v \<longleftrightarrow> v = t" using is_owner_unique [OF ok'] by blast
  show "CountOwners d' = 1" "fmlookup (rd_users d) t \<noteq> None" "rd_installation d' = rd_installation d" "map_option snd (rd_installation d) = Some 1"
    using h e by auto
  show "fmlookup (rd_mutes d') i = Some m \<Longrightarrow> dbm_UserID m \<noteq> t" for i m
    by (auto simp: d' DeleteMutesForUser_def split: option.splits if_splits)
  have only: "x = b1" if "fmlookup (rd_bindings d') i = Some x" "dbb_UserID x = u" "dbb_ScopeType x = ''server''" for i x
    using that h(1) b(4) by (auto simp: e(1) d2 split: if_splits option.splits)
  have ne: "dbb_ID b2 \<noteq> dbb_ID b1"
    using InsertRoleBinding_Return(4) [OF i(2), of "dbb_ID b1" b1] InsertRoleBinding_Return(1) [OF i(1)] by (auto simp: binding_clash_def)
  then have mem: "fmlookup (rd_bindings d') (dbb_ID b1) = Some b1" by (simp add: e(1))
  from ok' mem obtain r where r: "fmlookup (rd_roles d) ''member'' = Some r" using db_okD(5) [OF ok' mem] b(2) e(2) by (auto simp: binding_parents_def)
  have "n \<in> server_ranks d' u \<longleftrightarrow> n = sint (dbr_Rank r)" for n
  proof
    assume "n \<in> server_ranks d' u"
    then obtain r' x i where x: "n = sint (dbr_Rank r')" "fmlookup (rd_bindings d') i = Some x" "dbb_UserID x = u" "dbb_ScopeType x = ''server''"
      "fmlookup (rd_roles d') (dbb_RoleKey x) = Some r'" by (auto simp: server_ranks_def)
    with only [OF x(2-4)] b(2) r e(2) show "n = sint (dbr_Rank r)" by simp
  next
    assume "n = sint (dbr_Rank r)"
    then show "n \<in> server_ranks d' u" unfolding server_ranks_def using mem b(1-3) r e(2) by (intro CollectI exI [of _ r] exI [of _ b1]) auto
  qed
  then have "server_ranks d' u = {sint (dbr_Rank r)}" by blast
  then show "user_rank d' u = (case fmlookup (rd_roles d) ''member'' of Some r \<Rightarrow> sint (dbr_Rank r) | None \<Rightarrow> - 1)"
    using role_check_rank [OF db_okD(3) [OF ok r]] r by (simp add: user_rank_def)
qed

subsection \<open>Sequences of requests\<close>

text \<open>A request that fails leaves the database as it was: its transaction is rolled back.\<close>

definition admin_step :: "request_env \<Rightarrow> role_db \<Rightarrow> request_inputs \<times> int64 \<times> request \<Rightarrow> role_db" where
  "admin_step re d x = (case mutate re (fst x) d (fst (snd x)) (snd (snd x)) of Return (_, d') \<Rightarrow> d' | _ \<Rightarrow> d)"

definition admin_run :: "request_env \<Rightarrow> role_db \<Rightarrow> (request_inputs \<times> int64 \<times> request) list \<Rightarrow> role_db" where
  "admin_run re = foldl (admin_step re)"

lemma admin_step_coalition:
  assumes ok: "db_ok (re_store re) d" and S: "fst (snd x) \<in> S" "\<And>s. s \<in> S \<Longrightarrow> \<not> is_owner d s \<and> user_rank d s \<le> k"
  shows "db_ok (re_store re) (admin_step re d x) \<and> kept_below k d (admin_step re d x) v \<and> is_owner (admin_step re d x) u = is_owner d u"
proof (cases "\<exists>p. mutate re (fst x) d (fst (snd x)) (snd (snd x)) = Return p")
  case True
  then obtain res d' where m: "mutate re (fst x) d (fst (snd x)) (snd (snd x)) = Return (res, d')" by fastforce
  then have s: "admin_step re d x = d'" by (simp add: admin_step_def)
  have nt: "snd (snd x) \<noteq> ReqTransferOwner t" for t
  proof
    assume "snd (snd x) = ReqTransferOwner t"
    with m have "TransferOwnerInTx d (ri_now (fst x)) (ri_id1 (fst x)) (ri_id2 (fst x)) (fst (snd x)) t = Return d'"
      by (auto simp: TransferOwner_def result_defs outcome_bind_Return split: option.splits)
    from transfer_owner(1) [OF ok this] S show False by blast
  qed
  show ?thesis unfolding s
    using mutate_db_ok [OF ok m] mutate_owner [OF ok m nt] kept_below_mono [OF mutate_ranks [OF ok m nt]] S by blast
next
  case False
  then have "admin_step re d x = d" by (auto simp: admin_step_def split: outcome.splits)
  then show ?thesis using ok by (simp add: kept_below_def)
qed

lemma admin_run_coalition:
  assumes "db_ok (re_store re) d" "\<forall>x \<in> set xs. fst (snd x) \<in> S" "\<And>s. s \<in> S \<Longrightarrow> \<not> is_owner d s \<and> user_rank d s \<le> k"
  shows "kept_below k d (admin_run re d xs) v \<and> is_owner (admin_run re d xs) u = is_owner d u"
  using assms
proof (induction xs arbitrary: d)
  case Nil
  then show ?case by (simp add: admin_run_def kept_below_def)
next
  case (Cons x xs)
  have x: "fst (snd x) \<in> S" using Cons.prems(2) by simp
  note step = admin_step_coalition [OF Cons.prems(1) x Cons.prems(3)]
  define d1 where "d1 = admin_step re d x"
  have d1: "db_ok (re_store re) d1" "\<And>v. kept_below k d d1 v" "\<And>u. is_owner d1 u = is_owner d u" using step unfolding d1_def by blast+
  have "\<not> is_owner d1 s \<and> user_rank d1 s \<le> k" if "s \<in> S" for s
    using Cons.prems(3) [OF that] d1(2) [of s] d1(3) [of s] by (auto simp: kept_below_def)
  from Cons.IH [OF d1(1) _ this] have "kept_below k d1 (admin_run re d1 xs) v \<and> is_owner (admin_run re d1 xs) u = is_owner d1 u"
    using Cons.prems(2) by simp
  moreover have "admin_run re d (x # xs) = admin_run re d1 xs" by (simp add: admin_run_def d1_def)
  ultimately show ?case using kept_below_trans [OF d1(2) [of v]] d1(3) by metis
qed

text \<open>C5. No escalation of rank.  Let a group of users, none of them the owner and none ranked above \<open>k\<close>, send any sequence of
  administrative requests, with any arguments and in any order, failed ones included.  Then every user of the server keeps the
  rank it had, or had a rank below \<open>k\<close> and has one below \<open>k\<close> afterwards: the group cannot lift anybody, inside or outside, to
  rank \<open>k\<close> or above, and cannot touch anybody who is there.  Ownership stays where it was.\<close>

theorem coalition_rank_ceiling:
  assumes "db_ok (re_store re) d" "\<forall>x \<in> set xs. fst (snd x) \<in> S" "\<forall>s \<in> S. \<not> is_owner d s \<and> user_rank d s \<le> k"
  shows "(user_rank (admin_run re d xs) v = user_rank d v \<or> user_rank d v < k \<and> user_rank (admin_run re d xs) v < k) \<and>
    is_owner (admin_run re d xs) u = is_owner d u"
  using admin_run_coalition [OF assms(1,2)] assms(3) unfolding kept_below_def by blast

text \<open>C6. One owner.  A committed request keeps the schema's constraints and leaves exactly one owner.  The owner changes only
  when the request is an owner transfer sent by the owner; then the target exists, is the owner afterwards and has no mute left, and
  the rank of the former owner is the one of the member role.\<close>

theorem owner_transfer_only:
  assumes "db_ok (re_store re) d" "mutate re ri d actorID req = Return (res, d')" "is_owner d w"
  shows "db_ok (re_store re) d' \<and> (\<exists>!u. is_owner d' u) \<and>
    (is_owner d' w \<or>
     (\<exists>t. req = ReqTransferOwner t \<and> actorID = w \<and> is_owner d' t \<and> t \<noteq> w \<and> fmlookup (rd_users d) t \<noteq> None \<and>
       (\<forall>i m. fmlookup (rd_mutes d') i = Some m \<longrightarrow> dbm_UserID m \<noteq> t) \<and>
       (\<forall>r. fmlookup (rd_roles d) ''member'' = Some r \<longrightarrow> user_rank d' w = sint (dbr_Rank r))))"
proof -
  have ok': "db_ok (re_store re) d'" by (rule mutate_db_ok [OF assms(1,2)])
  show ?thesis
  proof (cases "\<exists>t. req = ReqTransferOwner t")
    case True
    then obtain t where t: "req = ReqTransferOwner t" by blast
    with assms(2) have tr: "TransferOwnerInTx d (ri_now ri) (ri_id1 ri) (ri_id2 ri) actorID t = Return d'"
      by (auto simp: TransferOwner_def result_defs outcome_bind_Return split: option.splits)
    note T = transfer_owner [OF assms(1) tr]
    have w: "actorID = w" using is_owner_unique [OF assms(1) T(1) assms(3)] .
    have "actorID \<noteq> t" using tr by (auto simp: TransferOwnerInTx_def)
    then show ?thesis using ok' t w T(2,4,7,8) by auto
  next
    case False
    then have "is_owner d' u = is_owner d u" for u using mutate_owner [OF assms(1,2)] by blast
    then show ?thesis using ok' assms(3) is_owner_unique [OF assms(1) assms(3)] by blast
  qed
qed

subsection \<open>Configurations\<close>

lemma permission_loop_owner: "snd (permission_loop g ps bs) \<longleftrightarrow> (\<exists>b \<in> set bs. dbb_ScopeType b = ''server'' \<and> dbb_RoleKey b = ''owner'')"
  by (induction bs arbitrary: ps) auto

lemma actorPermissions_owner:
  assumes "db_ok e d" "actorPermissions e d u = Return (ps, owner)"
  shows "owner = is_owner d u"
proof -
  from assms(2) obtain g where "permission_loop g [] (ListRoleBindingsForUser d u) = (ps, owner)"
    by (auto simp: actorPermissions_def actorPermissionsForConfig_def outcome_bind_Return)
  then have "owner \<longleftrightarrow> (\<exists>b \<in> set (ListRoleBindingsForUser d u). dbb_ScopeType b = ''server'' \<and> dbb_RoleKey b = ''owner'')"
    by (metis permission_loop_owner snd_conv)
  also have "\<dots> \<longleftrightarrow> is_owner d u"
    unfolding is_owner_def Bex_def set_ListRoleBindingsForUser using is_owner_server [OF assms(1)] by blast
  finally show ?thesis .
qed

lemma config_at_set_config: "ScopeValid s \<Longrightarrow> config_at (set_config d s row) t = (if s = t then Some row else config_at d t)" if "ScopeValid t"
  using that by (cases s, cases t) (auto simp: config_at_def set_config_def ScopeValid_def split: if_splits)

lemma realtimeScope_config: "configScopeToRealtime s = Some t \<Longrightarrow> t = realtimeScope s \<and> ScopeValid t"
  by (auto simp: configScopeToRealtime_def realtimeScope_def ScopeValid_def split: option.splits if_splits)

lemma normalizeConfig_Return:
  assumes "normalizeConfig e d t raw = Return c"
  obtains g where "se_unmarshal e raw = Some (Some g)" "fmpred (role_grants_ok d t) g" "c = se_marshal e (fmmap (\<lambda>ps. sort (remdups ps)) g)"
  using assms by (auto simp: normalizeConfig_def split: option.splits if_splits)

lemma ConfigStore_Update_Return:
  assumes "ConfigStore_Update e d now s raw = Return (c, d')"
  obtains g row where "se_unmarshal e raw = Some (Some g)" "fmpred (role_grants_ok d (cf_Type s)) g" "d' = set_config d (realtimeScope s) row"
    "dbp_Config row = se_marshal e (fmmap (\<lambda>ps. sort (remdups ps)) g)" "c = \<lparr>ec_Scope = s, ec_Local = Some row, ec_Source = row\<rparr>"
proof (cases "cf_ID s")
  case None
  with assms have t: "cf_Type s = ''server''" by (auto simp: ConfigStore_Update_def validateConfigScope_def outcome_bind_Return split: if_splits)
  from assms None obtain config row root0 where n: "normalizeConfig e d ''server'' raw = Return config"
    and p: "put_config d server_scope (root0\<lparr>dbp_Config := config, dbp_UpdatedAt := now, dbp_Version := dbp_Version root0 + 1\<rparr>) = Return (row, d')"
    and c: "c = \<lparr>ec_Scope = s, ec_Local = Some row, ec_Source = row\<rparr>"
    by (auto simp: ConfigStore_Update_def UpdateServerPermissionConfig_def local_config_def outcome_bind_Return split: if_splits)
  from n obtain g where g: "se_unmarshal e raw = Some (Some g)" "fmpred (role_grants_ok d ''server'') g" "config = se_marshal e (fmmap (\<lambda>ps. sort (remdups ps)) g)"
    by (rule normalizeConfig_Return)
  show thesis using put_config_tables [OF p] g c t by (intro that [of g row]) (auto simp: realtimeScope_def)
next
  case (Some i)
  with assms have t: "cf_Type s = ''group'' \<or> cf_Type s = ''channel''"
    by (auto simp: ConfigStore_Update_def validateConfigScope_def outcome_bind_Return split: if_splits)
  from assms Some obtain row where c: "c = \<lparr>ec_Scope = s, ec_Local = Some row, ec_Source = row\<rparr>"
    and p: "if cf_Type s = ''group'' then PutGroup e d i raw (stored_version d (group_scope i) + 1) now = Return (row, d')
      else PutChannel e d i raw (stored_version d (channel_scope i) + 1) now = Return (row, d')"
    by (auto simp: ConfigStore_Update_def local_config_def outcome_bind_Return split: if_splits)
  from p t obtain config where n: "normalizeConfig e d (cf_Type s) raw = Return config" and row: "dbp_Config row = config" and d': "d' = set_config d (realtimeScope s) row"
    using Some by (auto simp: PutGroup_def PutChannel_def outcome_bind_Return realtimeScope_def split: if_splits dest!: put_config_tables)
  from n obtain g where "se_unmarshal e raw = Some (Some g)" "fmpred (role_grants_ok d (cf_Type s)) g" "config = se_marshal e (fmmap (\<lambda>ps. sort (remdups ps)) g)"
    by (rule normalizeConfig_Return)
  then show thesis using row d' c by (intro that [of g row]) auto
qed

lemma ensureManagementRetained_Return:
  assumes "ensureManagementRetained e d a before = Return ()"
  obtains after owner where "actorPermissions e d a = Return (after, owner)"
    "owner \<or> (\<forall>p \<in> {PermRoleManage, PermServerManage}. p \<in> set before \<longrightarrow> p \<in> set after)"
  using assms by (auto simp: ensureManagementRetained_def outcome_bind_Return split: if_splits)

lemma config_admission_Return:
  assumes "config_admission h e version d actorID tag s = Return (current, currentETag, allowed, owner)"
  obtains v where "version = Some v" "tag = currentETag" "effectiveConfigFromState s v = Return current" "effectiveConfigETag h e current = Return tag"
    "actorPermissions e d actorID = Return (allowed, owner)" "owner \<or> PermRoleManage \<in> set allowed" "configScopeToRealtime s \<noteq> None"
  using assms
  by (auto simp: config_admission_def requireRoleManage_def visibleConfigScope_def outcome_bind_Return split: option.splits if_splits)

text \<open>C21. No escalation through a configuration.  When a user who is not the owner replaces the configuration of a scope, the request
  named the tag of the configuration in force, the user holds \<^verbatim>\<open>role.manage\<close>, and the stored text encodes a map in which every role
  exists, every permission is one the user holds itself (the owner's wildcard apart), and all are known and allowed at the scope.
  No other scope changes, and after a change of the server configuration the user still holds the management permissions it
  held.\<close>

theorem config_no_elevation:
  assumes "db_ok e d" "UpdateConfig h e version d now us actorID tag s raw = Return (res, d')" "\<not> is_owner d actorID" "\<not> mr_noop res"
  shows "\<exists>v current allowed g row. version = Some v \<and> effectiveConfigFromState s v = Return current \<and> effectiveConfigETag h e current = Return tag \<and>
    actorPermissions e d actorID = Return (allowed, False) \<and> PermRoleManage \<in> set allowed \<and>
    config_at d' (realtimeScope s) = Some row \<and> dbp_Config row = se_marshal e g \<and>
    (\<forall>k ps. fmlookup g k = Some ps \<longrightarrow> fmlookup (rd_roles d) k \<noteq> None \<and>
      (\<forall>p \<in> set ps. k = ''owner'' \<and> p = Wildcard \<or> p \<in> set allowed \<and> IsKnown p \<and> AllowedAtScope (cf_Type s) p)) \<and>
    (\<forall>t. ScopeValid t \<and> t \<noteq> realtimeScope s \<longrightarrow> config_at d' t = config_at d t) \<and>
    (cf_Type s = ''server'' \<longrightarrow> (\<exists>after. actorPermissions e d' actorID = Return (after, False) \<and>
      (\<forall>p \<in> {PermRoleManage, PermServerManage}. p \<in> set allowed \<longrightarrow> p \<in> set after)))"
proof -
  from assms(2,4) obtain current currentETag allowed owner config where
    adm: "config_admission h e version d actorID tag s = Return (current, currentETag, allowed, owner)"
    and val: "validateGrantedPermissions e raw allowed owner = Return ()"
    and upd: "ConfigStore_Update e d now s raw = Return (config, d')"
    and ret: "retained e d' actorID s allowed owner = Return ()"
    by (auto simp: UpdateConfig_def result_defs outcome_bind_Return split: if_splits)
  from adm obtain v where v: "version = Some v" "tag = currentETag" "effectiveConfigFromState s v = Return current" "effectiveConfigETag h e current = Return tag"
    "actorPermissions e d actorID = Return (allowed, owner)" "owner \<or> PermRoleManage \<in> set allowed" "configScopeToRealtime s \<noteq> None"
    by (rule config_admission_Return)
  have no: "owner = False" using actorPermissions_owner [OF assms(1) v(5)] assms(3) by simp
  from upd obtain g row where g: "se_unmarshal e raw = Some (Some g)" "fmpred (role_grants_ok d (cf_Type s)) g" "d' = set_config d (realtimeScope s) row"
    "dbp_Config row = se_marshal e (fmmap (\<lambda>ps. sort (remdups ps)) g)" "config = \<lparr>ec_Scope = s, ec_Local = Some row, ec_Source = row\<rparr>"
    by (rule ConfigStore_Update_Return)
  let ?g = "fmmap (\<lambda>ps. sort (remdups ps)) g"
  have sv: "ScopeValid (realtimeScope s)" using v(7) realtimeScope_config by fastforce
  have gr: "fmlookup (rd_roles d) k \<noteq> None \<and> (\<forall>p \<in> set ps. k = ''owner'' \<and> p = Wildcard \<or> p \<in> set allowed \<and> IsKnown p \<and> AllowedAtScope (cf_Type s) p)"
    if "fmlookup ?g k = Some ps" for k ps
  proof -
    from that obtain qs where q: "fmlookup g k = Some qs" "ps = sort (remdups qs)" by auto
    have "role_grants_ok d (cf_Type s) k qs" using g(2) q(1) by (simp add: fmpred_iff)
    moreover have "list_all (\<lambda>p. (k = ''owner'' \<and> p = Wildcard) \<or> p \<in> set allowed) qs"
      using val no g(1) q(1) by (auto simp: validateGrantedPermissions_def decoded_grants_def fmpred_iff split: if_splits)
    ultimately show ?thesis using q(2) by (auto simp: role_grants_ok_def list_all_iff ownerRole_def split: if_splits)
  qed
  have same: "config_at d' t = config_at d t" if "ScopeValid t" "t \<noteq> realtimeScope s" for t
    unfolding g(3) using config_at_set_config [OF that(1) sv] that(2) by auto
  have here: "config_at d' (realtimeScope s) = Some row" unfolding g(3) using config_at_set_config [OF sv sv] by simp
  have tables: "same_tables d d'" by (rule ConfigStore_Update_tables [OF upd])
  have mg: "\<exists>after. actorPermissions e d' actorID = Return (after, False) \<and> (\<forall>p \<in> {PermRoleManage, PermServerManage}. p \<in> set allowed \<longrightarrow> p \<in> set after)"
    if "cf_Type s = ''server''"
  proof -
    from ret that no have "ensureManagementRetained e d' actorID allowed = Return ()" by (simp add: retained_def)
    then obtain after o' where a: "actorPermissions e d' actorID = Return (after, o')" "o' \<or> (\<forall>p \<in> {PermRoleManage, PermServerManage}. p \<in> set allowed \<longrightarrow> p \<in> set after)"
      by (rule ensureManagementRetained_Return)
    have "db_ok e d'" using assms(1) tables by (auto simp: same_tables_def intro: db_ok_other_tables)
    then have "o' = is_owner d' actorID" by (rule actorPermissions_owner) (rule a(1))
    also have "\<dots> = is_owner d actorID" using tables by (simp add: is_owner_def same_tables_def)
    finally show ?thesis using a assms(3) by auto
  qed
  show ?thesis using v no here g(4) gr same mg by blast
qed

subsection \<open>The owner role\<close>

lemma authority_loop_total: "(\<And>b. b \<in> set bs \<Longrightarrow> fmlookup (rd_roles d) (dbb_RoleKey b) \<noteq> None) \<Longrightarrow> \<exists>a'. authority_loop d a bs = Return a'"
proof (induction bs arbitrary: a)
  case (Cons b bs)
  have "fmlookup (rd_roles d) (dbb_RoleKey b) \<noteq> None" using Cons.prems by simp
  then obtain r where r: "fmlookup (rd_roles d) (dbb_RoleKey b) = Some r" by blast
  show ?case using r Cons.IH Cons.prems by (simp add: GetRoleByKey_def)
qed simp

lemma authority_of_total:
  assumes "db_ok e d" "fmlookup (rd_users d) u \<noteq> None"
  obtains a where "authority_of d u = Return a"
proof -
  have "fmlookup (rd_roles d) (dbb_RoleKey b) \<noteq> None" if "b \<in> set (ListRoleBindingsForUser d u)" for b
    using that db_okD(5) [OF assms(1)] unfolding set_ListRoleBindingsForUser binding_parents_def by blast
  from authority_loop_total [OF this] assms(2) that show thesis by (fastforce simp: authority_of_def)
qed

lemma owner_role_row:
  assumes "db_ok e d" "fmlookup (rd_roles d) ''owner'' = Some r"
  shows "dbr_Key r = ''owner''" "dbr_Builtin r = 1" "sint (dbr_Rank r) = 1000000"
  using db_okD(1,3) [OF assms] by (auto simp: role_check_def)

lemma requireRoleManage_user:
  assumes "db_ok e d" "requireRoleManage e d u = Return x"
  shows "fmlookup (rd_users d) u \<noteq> None"
proof -
  have "ListRoleBindingsForUser d u \<noteq> []"
    using assms(2) by (auto simp: requireRoleManage_def actorPermissions_def actorPermissionsForConfig_def outcome_bind_Return split: if_splits)
  then obtain b where "b \<in> set (ListRoleBindingsForUser d u)" by (meson last_in_set)
  then show ?thesis using db_okD(5) [OF assms(1)] unfolding set_ListRoleBindingsForUser binding_parents_def by blast
qed

lemma update_owner_role:
  assumes "db_ok e d" "fmlookup (rd_roles d) ''owner'' = Some r"
  shows "UpdateRole e d now us actorID ''owner'' name rank =
    (case requireRoleManage e d actorID of
       Return _ \<Rightarrow> Fail (if is_owner d actorID \<and> rank = None then ErrRankProtected else ErrImmutableRole) | Fail x \<Rightarrow> Fail x | Panic \<Rightarrow> Panic)"
proof (cases "requireRoleManage e d actorID")
  case (Return u)
  obtain a where a: "authority_of d actorID = Return a" by (rule authority_of_total [OF assms(1) requireRoleManage_user [OF assms(1) Return]])
  have "at_owner a = is_owner d actorID" by (rule authority_of_owner [OF assms(1) a])
  then show ?thesis using Return assms(2) a owner_role_row [OF assms] by (simp add: UpdateRole_def GetRoleByKey_def)
qed (simp_all add: UpdateRole_def)

lemma delete_owner_role:
  assumes "db_ok e d" "fmlookup (rd_roles d) ''owner'' = Some r"
  shows "DeleteRole e d us actorID ''owner'' =
    (case requireRoleManage e d actorID of Return _ \<Rightarrow> Fail ErrBuiltinRole | Fail x \<Rightarrow> Fail x | Panic \<Rightarrow> Panic)"
  using assms(2) owner_role_row [OF assms] by (cases "requireRoleManage e d actorID") (simp_all add: DeleteRole_def GetRoleByKey_def)

lemma mutate_owner_role:
  assumes ok: "db_ok (re_store re) d" and m: "mutate re ri d actorID req = Return (res, d')" and r: "fmlookup (rd_roles d) ''owner'' = Some r"
  shows "fmlookup (rd_roles d') ''owner'' = Some r"
  using ok m
proof (cases rule: mutate_cases)
  case (created x)
  then show ?thesis using r by auto
next
  case (deleted k)
  then have "k \<noteq> ''owner''" using m delete_owner_role [OF ok r] by (auto split: outcome.splits)
  then show ?thesis using deleted(1) r by simp
next
  case (transferred t)
  from transferred(2) show ?thesis
    by (rule TransferOwnerInTx_Return) (use r in \<open>auto simp: InsertRoleBinding_def DeleteMutesForUser_def split: if_splits\<close>)
qed (use r in \<open>auto simp: same_tables_def InsertRoleBinding_def split: if_splits\<close>)

lemma admin_run_owner_role:
  assumes "db_ok (re_store re) d" "fmlookup (rd_roles d) ''owner'' = Some r"
  shows "db_ok (re_store re) (admin_run re d xs) \<and> fmlookup (rd_roles (admin_run re d xs)) ''owner'' = Some r"
  using assms
proof (induction xs arbitrary: d)
  case (Cons x xs)
  have "db_ok (re_store re) (admin_step re d x) \<and> fmlookup (rd_roles (admin_step re d x)) ''owner'' = Some r"
    using Cons.prems mutate_db_ok mutate_owner_role [OF Cons.prems(1) _ Cons.prems(2)]
    by (auto simp: admin_step_def split: outcome.splits)
  with Cons.IH [of "admin_step re d x"] show ?case by (simp add: admin_run_def)
qed (simp add: admin_run_def)


subsection \<open>A small server\<close>

definition example_grants :: grants where "example_grants = fmap_of_list defaultServerPermissions"

definition example_env :: store_env where
  "example_env = \<lparr>se_unmarshal = (\<lambda>raw. if raw = ''{}'' then Some (Some fmempty) else Some (Some example_grants)), se_marshal = (\<lambda>_. ''default''),
     se_length = length\<rparr>"

definition example_role :: "string \<Rightarrow> int64 \<Rightarrow> int64 \<Rightarrow> int64 \<Rightarrow> db_Role" where
  "example_role key rank builtin immutable = \<lparr>dbr_Key = key, dbr_DisplayName = key, dbr_Rank = rank, dbr_Builtin = builtin, dbr_Immutable = immutable,
     dbr_CreatedAt = 0, dbr_UpdatedAt = 0, dbr_Version = 1\<rparr>"

definition example_account :: "int64 \<Rightarrow> db_User" where
  "example_account i = \<lparr>dbu_ID = i, dbu_Username = ''u'', dbu_PasswordHash = [], dbu_Nickname = ''u'', dbu_Avatar = None, dbu_AuthVersion = 0, dbu_BannedAt = None,
     dbu_LastLoginAt = None, dbu_CreatedAt = 0, dbu_UpdatedAt = 0\<rparr>"

definition example_bind :: "int64 \<Rightarrow> int64 \<Rightarrow> string \<Rightarrow> db_UserRoleBinding" where
  "example_bind i u key = \<lparr>dbb_ID = i, dbb_UserID = u, dbb_RoleKey = key, dbb_ScopeType = ''server'', dbb_GroupID = None, dbb_ChannelID = None, dbb_CreatedAt = 0\<rparr>"

text \<open>Three users: 1 is the owner, 2 an administrator, 3 has no role.\<close>

definition example_db :: role_db where
  "example_db = \<lparr>rd_users = fmupd 1 (example_account 1) (fmupd 2 (example_account 2) (fmupd 3 (example_account 3) fmempty)),
     rd_roles = fmupd ''owner'' (example_role ''owner'' 1000000 1 1) (fmupd ''admin'' (example_role ''admin'' 1000 1 0) (fmupd ''member'' (example_role ''member'' 0 1 0) fmempty)),
     rd_groups = fmempty, rd_channels = fmempty, rd_groupAccess = fmempty, rd_channelAccess = fmempty, rd_inviteRoles = fmempty,
     rd_bindings = fmupd 10 (example_bind 10 1 ''owner'') (fmupd 11 (example_bind 11 2 ''admin'') fmempty),
     rd_serverConfig = Some \<lparr>dbp_ScopeType = ''server'', dbp_GroupID = None, dbp_ChannelID = None, dbp_Config = ''old'', dbp_UpdatedAt = 0, dbp_Version = 1\<rparr>,
     rd_groupConfigs = fmempty, rd_channelConfigs = fmempty, rd_mutes = fmempty, rd_installation = Some (''i'', 1)\<rparr>"

definition example_request_env :: request_env where
  "example_request_env = \<lparr>re_sha256 = (\<lambda>_. []), re_store = example_env\<rparr>"

definition example_inputs :: request_inputs where
  "example_inputs = \<lparr>ri_version = None, ri_now = 5, ri_id1 = Some 20, ri_id2 = Some 21, ri_userIDs = [1, 2, 3]\<rparr>"

definition bind_member :: request where
  "bind_member = ReqCreateBinding \<lparr>bi_UserID = 3, bi_RoleKey = ''member'', bi_ScopeType = ''server'', bi_ScopeID = None\<rparr>"

lemma example_roles: "fmlookup (rd_roles example_db) k = Some r \<longleftrightarrow>
    (k = ''owner'' \<and> r = example_role ''owner'' 1000000 1 1) \<or> (k = ''admin'' \<and> r = example_role ''admin'' 1000 1 0) \<or> (k = ''member'' \<and> r = example_role ''member'' 0 1 0)"
  by (auto simp: example_db_def)

lemma example_bindings: "fmlookup (rd_bindings example_db) i = Some b \<longleftrightarrow>
    (i = 10 \<and> b = example_bind 10 1 ''owner'') \<or> (i = 11 \<and> b = example_bind 11 2 ''admin'')"
  by (auto simp: example_db_def)

lemma example_role_checks: "role_check example_env (example_role ''owner'' 1000000 1 1)" "role_check example_env (example_role ''admin'' 1000 1 0)"
  "role_check example_env (example_role ''member'' 0 1 0)"
  by (simp_all add: role_check_def example_role_def example_env_def)

lemma example_binding_ok: "binding_check (example_bind 10 1 ''owner'')" "binding_check (example_bind 11 2 ''admin'')"
  "binding_parents example_db (example_bind 10 1 ''owner'')" "binding_parents example_db (example_bind 11 2 ''admin'')"
  "\<not> binding_clash (example_bind 10 1 ''owner'') (example_bind 11 2 ''admin'')" "\<not> binding_clash (example_bind 11 2 ''admin'') (example_bind 10 1 ''owner'')"
  by (simp_all add: binding_check_def binding_parents_def binding_clash_def scope_columns_ok_def example_bind_def example_db_def)

lemma example_db_ok: "db_ok example_env example_db"
  unfolding db_ok_def keyed_by_def example_roles example_bindings
  using example_role_checks example_binding_ok by (auto simp: example_role_def example_bind_def)

lemma example_ranks: "user_rank example_db 2 \<le> 1000" "\<not> is_owner example_db 2"
  by (auto simp: user_rank_le server_ranks_def is_owner_def example_bindings example_roles) (auto simp: example_bind_def example_role_def)

lemma example_owner: "is_owner example_db 1"
  unfolding is_owner_def by (intro exI [of _ 10] exI [of _ "example_bind 10 1 ''owner''"]) (simp add: example_bindings, simp add: example_bind_def)

theorem coalition_rank_ceiling_witness:
  "db_ok example_env example_db \<and> user_rank example_db 2 \<le> 1000 \<and>
   is_owner (admin_run example_request_env example_db [(example_inputs, 2, bind_member), (example_inputs, 2, ReqCreateRole ''boss'' ''Boss'' 5000)]) 1 =
   is_owner example_db 1 \<and>
   (user_rank (admin_run example_request_env example_db [(example_inputs, 2, bind_member), (example_inputs, 2, ReqCreateRole ''boss'' ''Boss'' 5000)]) 3 = user_rank example_db 3 \<or>
    user_rank (admin_run example_request_env example_db [(example_inputs, 2, bind_member), (example_inputs, 2, ReqCreateRole ''boss'' ''Boss'' 5000)]) 3 < 1000)"
  using coalition_rank_ceiling [of example_request_env example_db "[(example_inputs, 2, bind_member), (example_inputs, 2, ReqCreateRole ''boss'' ''Boss'' 5000)]" "{2}" 1000 3 1]
    example_db_ok example_ranks(1,2) by (auto simp: example_request_env_def)

text \<open>After the administrator renamed the member role, the owner tries to rename the owner role, the administrator tries to change its rank, and a
  user without a role tries to rename it.\<close>

abbreviation renamed_db :: role_db where
  "renamed_db \<equiv> admin_run example_request_env example_db [(example_inputs, 2, ReqUpdateRole ''member'' (Some ''Guest'') None)]"

lemma renamed_facts:
  "requireRoleManage example_env renamed_db 1 = Return ()" "requireRoleManage example_env renamed_db 2 = Return ()"
  "requireRoleManage example_env renamed_db 3 = Fail ErrRoleManageRequired"
  "case fmlookup (rd_roles renamed_db) ''member'' of None \<Rightarrow> False | Some r \<Rightarrow> dbr_DisplayName r = ''Guest''"
  by code_simp+


text \<open>The version published from these tables.\<close>

definition example_published :: StateVersion where
  "example_published = example_version\<lparr>sv_persistent :=
     (case newPersistentState (Some (loadStateProjection example_db)) of Return st \<Rightarrow> st | _ \<Rightarrow> emptyPersistent)\<rparr>"

definition returns :: "('e, 'a) outcome \<Rightarrow> bool" where
  "returns x = (case x of Return _ \<Rightarrow> True | _ \<Rightarrow> False)"

lemma returnsE: "returns x \<Longrightarrow> (\<And>a. x = Return a \<Longrightarrow> P) \<Longrightarrow> P"
  by (cases x) (auto simp: returns_def)

theorem owner_transfer_only_witness:
  "\<exists>res d'. mutate example_request_env (example_inputs\<lparr>ri_version := Some example_published\<rparr>) example_db 1 (ReqTransferOwner 2) = Return (res, d') \<and>
     (\<exists>!u. is_owner d' u) \<and> (is_owner d' 1 \<or> is_owner d' 2)"
proof -
  have "returns (mutate example_request_env (example_inputs\<lparr>ri_version := Some example_published\<rparr>) example_db 1 (ReqTransferOwner 2))" by code_simp
  then obtain p where p: "mutate example_request_env (example_inputs\<lparr>ri_version := Some example_published\<rparr>) example_db 1 (ReqTransferOwner 2) = Return p" by (rule returnsE)
  then show ?thesis
    using owner_transfer_only [of example_request_env example_db "example_inputs\<lparr>ri_version := Some example_published\<rparr>" 1 "ReqTransferOwner 2" "fst p" "snd p" 1]
      example_db_ok example_owner by (cases p) (auto simp: example_request_env_def)
qed

theorem config_no_elevation_witness:
  "\<exists>res d' allowed. UpdateConfig (\<lambda>_. []) example_env (Some example_published) example_db 5 [] 2 ''\"\"'' \<lparr>cf_Type = ''server'', cf_ID = None\<rparr> ''new'' = Return (res, d') \<and>
     actorPermissions example_env example_db 2 = Return (allowed, False) \<and> PermRoleManage \<in> set allowed"
proof -
  let ?u = "UpdateConfig (\<lambda>_. []) example_env (Some example_published) example_db 5 [] 2 ''\"\"'' \<lparr>cf_Type = ''server'', cf_ID = None\<rparr> ''new''"
  have "case ?u of Return (res, _) \<Rightarrow> \<not> mr_noop res | _ \<Rightarrow> False" by code_simp
  then obtain res d' where u: "?u = Return (res, d')" "\<not> mr_noop res" by (cases ?u) auto
  then show ?thesis using config_no_elevation [OF example_db_ok u(1) example_ranks(2) u(2)] by blast
qed

end
