(* ===== verification/RoleView.thy ===== *)
theory RoleView
  imports RoleAdmin
begin

text \<open>
  The published state projection against the database it was loaded from.  \<^verbatim>\<open>LoadStateProjection\<close> reads the tables,
  \<^verbatim>\<open>newPersistentState\<close> indexes the rows (\<open>StateStore\<close>), and role administration then answers from the published version
  (\<open>effectiveConfigFromState\<close>, the scoped authorizer) what its transactions answer from the tables
  (\<open>Effective\<close>, \<open>authority_of\<close>).  This theory holds no definitions of the program, only the lemmas that the two views agree.
\<close>

section \<open>Theorems\<close>

subsection \<open>Published state and database\<close>

lemma fold_insert_iff:
  assumes "fold_outcome f st rows = Return st'"
    "\<And>st r st1. f st r = Return st1 \<Longrightarrow> \<exists>x. c r = Return x \<and> fmlookup (G st) (K x) = None \<and> G st1 = fmupd (K x) x (G st)"
  shows "fmlookup (G st') k = Some y \<longleftrightarrow> fmlookup (G st) k = Some y \<or> (K y = k \<and> (\<exists>r \<in> set rows. c r = Return y))"
  using assms(1)
proof (induction rows arbitrary: st)
  case (Cons r rows)
  from Cons.prems obtain st1 where s: "f st r = Return st1" "fold_outcome f st1 rows = Return st'" by (auto simp: outcome_bind_Return split: outcome.splits)
  from assms(2) [OF s(1)] obtain x where x: "c r = Return x" "fmlookup (G st) (K x) = None" "G st1 = fmupd (K x) x (G st)" by blast
  show ?case unfolding Cons.IH [OF s(2)] using x by auto
qed simp

lemma fold_frame:
  assumes "fold_outcome f st rows = Return st'" "\<And>st r st1. f st r = Return st1 \<Longrightarrow> H st1 = H st"
  shows "H st' = H st"
  using assms(1)
proof (rule fold_outcome_invariant [where P = "\<lambda>s. H s = H st"])
qed (use assms(2) in auto)


lemma newPersistentState_steps:
  assumes "newPersistentState (Some p) = Return st"
  obtains s1 s2 s3 s4 s5 s6 s7 s8 s9 where "fold_outcome addUser emptyPersistent (sp_Users p) = Return s1" "fold_outcome addRole s1 (sp_Roles p) = Return s2"
    "fold_outcome addGroup s2 (sp_Groups p) = Return s3" "fold_outcome addChannel s3 (sp_Channels p) = Return s4"
    "fold_outcome addGroupAccess s4 (sp_GroupAccess p) = Return s5" "fold_outcome addChannelAccess s5 (sp_ChannelAccess p) = Return s6"
    "fold_outcome addBinding s6 (sp_Bindings p) = Return s7" "fold_outcome addConfig s7 (sp_Configs p) = Return s8"
    "fold_outcome addMute s8 (sp_Mutes p) = Return s9" "st = sortRows s9"
  using assms by (simp add: newPersistentState_def outcome_bind_Return) blast

text \<open>Each step writes its own table only.\<close>

lemma addUser_frame: "addUser s r = Return s' \<Longrightarrow> ps_roles s' = ps_roles s \<and> ps_groups s' = ps_groups s \<and> ps_channels s' = ps_channels s \<and> ps_bindings s' = ps_bindings s \<and> ps_configs s' = ps_configs s"
  by (auto simp: addUser_def split: if_splits)
lemma addRole_frame: "addRole s r = Return s' \<Longrightarrow> ps_users s' = ps_users s \<and> ps_groups s' = ps_groups s \<and> ps_channels s' = ps_channels s \<and> ps_bindings s' = ps_bindings s \<and> ps_configs s' = ps_configs s"
  by (auto simp: addRole_def split: if_splits)
lemma addGroup_frame: "addGroup s r = Return s' \<Longrightarrow> ps_users s' = ps_users s \<and> ps_roles s' = ps_roles s \<and> ps_channels s' = ps_channels s \<and> ps_bindings s' = ps_bindings s \<and> ps_configs s' = ps_configs s"
  by (auto simp: addGroup_def split: if_splits)
lemma addChannel_frame: "addChannel s r = Return s' \<Longrightarrow> ps_users s' = ps_users s \<and> ps_roles s' = ps_roles s \<and> ps_groups s' = ps_groups s \<and> ps_bindings s' = ps_bindings s \<and> ps_configs s' = ps_configs s"
  by (auto simp: addChannel_def split: if_splits)

definition index_tables :: "persistentState \<Rightarrow> (int64, User) fmap \<times> (string, Role) fmap \<times> (int64, Group) fmap \<times> (int64, Channel) fmap" where
  "index_tables s = (ps_users s, ps_roles s, ps_groups s, ps_channels s)"

lemma access_frame:
  "addGroupAccess s r = Return s' \<Longrightarrow> index_tables s' = index_tables s \<and> ps_bindings s' = ps_bindings s \<and> ps_configs s' = ps_configs s"
  "addChannelAccess s r = Return s' \<Longrightarrow> index_tables s' = index_tables s \<and> ps_bindings s' = ps_bindings s \<and> ps_configs s' = ps_configs s"
  by (auto simp: addGroupAccess_def addChannelAccess_def index_tables_def)
lemma addBinding_frame: "addBinding s r = Return s' \<Longrightarrow> index_tables s' = index_tables s \<and> ps_configs s' = ps_configs s"
  by (auto simp: addBinding_def index_tables_def outcome_bind_Return)
lemma addConfig_frame: "addConfig s r = Return s' \<Longrightarrow> index_tables s' = index_tables s \<and> ps_bindings s' = ps_bindings s"
  by (auto simp: addConfig_def index_tables_def outcome_bind_Return split: if_splits)
lemma addMute_frame: "addMute s r = Return s' \<Longrightarrow> index_tables s' = index_tables s \<and> ps_bindings s' = ps_bindings s \<and> ps_configs s' = ps_configs s"
  by (auto simp: addMute_def index_tables_def outcome_bind_Return split: if_splits)

lemma addUser_step: "addUser s r = Return s' \<Longrightarrow>
    \<exists>x. (Return (userFromDB r) :: (state_error, User) outcome) = Return x \<and> fmlookup (ps_users s) (usr_ID x) = None \<and> ps_users s' = fmupd (usr_ID x) x (ps_users s)"
  by (auto simp: addUser_def userFromDB_def split: if_splits)
lemma addRole_step: "addRole s r = Return s' \<Longrightarrow>
    \<exists>x. (Return (roleFromDB r) :: (state_error, Role) outcome) = Return x \<and> fmlookup (ps_roles s) (role_Key x) = None \<and> ps_roles s' = fmupd (role_Key x) x (ps_roles s)"
  by (auto simp: addRole_def roleFromDB_def split: if_splits)
lemma addGroup_step: "addGroup s r = Return s' \<Longrightarrow>
    \<exists>x. (Return (groupFromDB r) :: (state_error, Group) outcome) = Return x \<and> fmlookup (ps_groups s) (grp_ID x) = None \<and> ps_groups s' = fmupd (grp_ID x) x (ps_groups s)"
  by (auto simp: addGroup_def groupFromDB_def split: if_splits)
lemma addChannel_step: "addChannel s r = Return s' \<Longrightarrow>
    \<exists>x. (Return (channelFromDB r) :: (state_error, Channel) outcome) = Return x \<and> fmlookup (ps_channels s) (ch_ID x) = None \<and> ps_channels s' = fmupd (ch_ID x) x (ps_channels s)"
  by (auto simp: addChannel_def channelFromDB_def split: if_splits)
lemma addConfig_step: "addConfig s r = Return s' \<Longrightarrow>
    \<exists>x. configFromDB r = Return x \<and> fmlookup (ps_configs s) (pc_Scope x) = None \<and> ps_configs s' = fmupd (pc_Scope x) x (ps_configs s)"
  by (auto simp: addConfig_def outcome_bind_Return split: if_splits)

lemma rows_iff:
  assumes "newPersistentState (Some p) = Return st"
  shows "fmlookup (ps_users st) i = Some u \<longleftrightarrow> usr_ID u = i \<and> (\<exists>r \<in> set (sp_Users p). userFromDB r = u)"
    "fmlookup (ps_roles st) k = Some ro \<longleftrightarrow> role_Key ro = k \<and> (\<exists>r \<in> set (sp_Roles p). roleFromDB r = ro)"
    "fmlookup (ps_groups st) i = Some g \<longleftrightarrow> grp_ID g = i \<and> (\<exists>r \<in> set (sp_Groups p). groupFromDB r = g)"
    "fmlookup (ps_channels st) i = Some c \<longleftrightarrow> ch_ID c = i \<and> (\<exists>r \<in> set (sp_Channels p). channelFromDB r = c)"
    "fmlookup (ps_configs st) s = Some cf \<longleftrightarrow> pc_Scope cf = s \<and> (\<exists>r \<in> set (sp_Configs p). configFromDB r = Return cf)"
proof -
  from assms obtain s1 s2 s3 s4 s5 s6 s7 s8 s9 where h: "fold_outcome addUser emptyPersistent (sp_Users p) = Return s1" "fold_outcome addRole s1 (sp_Roles p) = Return s2"
    "fold_outcome addGroup s2 (sp_Groups p) = Return s3" "fold_outcome addChannel s3 (sp_Channels p) = Return s4"
    "fold_outcome addGroupAccess s4 (sp_GroupAccess p) = Return s5" "fold_outcome addChannelAccess s5 (sp_ChannelAccess p) = Return s6"
    "fold_outcome addBinding s6 (sp_Bindings p) = Return s7" "fold_outcome addConfig s7 (sp_Configs p) = Return s8"
    "fold_outcome addMute s8 (sp_Mutes p) = Return s9" "st = sortRows s9"
    by (rule newPersistentState_steps)
  have e: "ps_users emptyPersistent = fmempty" "ps_roles emptyPersistent = fmempty" "ps_groups emptyPersistent = fmempty" "ps_channels emptyPersistent = fmempty" "ps_configs emptyPersistent = fmempty"
    by (simp_all add: emptyPersistent_def)
  have f1: "(ps_roles s1, ps_groups s1, ps_channels s1, ps_configs s1) = (ps_roles emptyPersistent, ps_groups emptyPersistent, ps_channels emptyPersistent, ps_configs emptyPersistent)"
    by (rule fold_frame [OF h(1), where H = "\<lambda>s. (ps_roles s, ps_groups s, ps_channels s, ps_configs s)"]) (drule addUser_frame, simp)
  have f2: "(ps_users s2, ps_groups s2, ps_channels s2, ps_configs s2) = (ps_users s1, ps_groups s1, ps_channels s1, ps_configs s1)"
    by (rule fold_frame [OF h(2), where H = "\<lambda>s. (ps_users s, ps_groups s, ps_channels s, ps_configs s)"]) (drule addRole_frame, simp)
  have f3: "(ps_users s3, ps_roles s3, ps_channels s3, ps_configs s3) = (ps_users s2, ps_roles s2, ps_channels s2, ps_configs s2)"
    by (rule fold_frame [OF h(3), where H = "\<lambda>s. (ps_users s, ps_roles s, ps_channels s, ps_configs s)"]) (drule addGroup_frame, simp)
  have f4: "(ps_users s4, ps_roles s4, ps_groups s4, ps_configs s4) = (ps_users s3, ps_roles s3, ps_groups s3, ps_configs s3)"
    by (rule fold_frame [OF h(4), where H = "\<lambda>s. (ps_users s, ps_roles s, ps_groups s, ps_configs s)"]) (drule addChannel_frame, simp)
  have f5: "(index_tables s5, ps_configs s5) = (index_tables s4, ps_configs s4)"
    by (rule fold_frame [OF h(5), where H = "\<lambda>s. (index_tables s, ps_configs s)"]) (drule access_frame(1), simp)
  have f6: "(index_tables s6, ps_configs s6) = (index_tables s5, ps_configs s5)"
    by (rule fold_frame [OF h(6), where H = "\<lambda>s. (index_tables s, ps_configs s)"]) (drule access_frame(2), simp)
  have f7: "(index_tables s7, ps_configs s7) = (index_tables s6, ps_configs s6)"
    by (rule fold_frame [OF h(7), where H = "\<lambda>s. (index_tables s, ps_configs s)"]) (drule addBinding_frame, simp)
  have f8: "index_tables s8 = index_tables s7"
    by (rule fold_frame [OF h(8), where H = "index_tables"]) (drule addConfig_frame, simp)
  have f9: "(index_tables s9, ps_configs s9) = (index_tables s8, ps_configs s8)"
    by (rule fold_frame [OF h(9), where H = "\<lambda>s. (index_tables s, ps_configs s)"]) (drule addMute_frame, simp)
  have t: "index_tables st = index_tables s4" "ps_configs st = ps_configs s8" using f5 f6 f7 f8 f9 h(10) by (simp_all add: sortRows_def index_tables_def)
  have u: "ps_users st = ps_users s1" and r: "ps_roles st = ps_roles s2" "ps_roles s1 = fmempty" and g: "ps_groups st = ps_groups s3" "ps_groups s2 = fmempty"
    and c: "ps_channels st = ps_channels s4" "ps_channels s3 = fmempty" and cf: "ps_configs s7 = fmempty"
    using t(1) f1 f2 f3 f4 f5 f6 f7 e by (simp_all add: index_tables_def)
  show "fmlookup (ps_users st) i = Some u \<longleftrightarrow> usr_ID u = i \<and> (\<exists>r \<in> set (sp_Users p). userFromDB r = u)" for i u
    unfolding u using fold_insert_iff [where c = "\<lambda>r. (Return (userFromDB r) :: (state_error, User) outcome)" and G = ps_users and K = usr_ID and k = i and y = u, OF h(1) addUser_step] by (simp add: e(1))
  show "fmlookup (ps_roles st) k = Some ro \<longleftrightarrow> role_Key ro = k \<and> (\<exists>r \<in> set (sp_Roles p). roleFromDB r = ro)" for k ro
    unfolding r(1) using fold_insert_iff [where c = "\<lambda>r. (Return (roleFromDB r) :: (state_error, Role) outcome)" and G = ps_roles and K = role_Key and k = k and y = ro, OF h(2) addRole_step] by (simp add: r(2))
  show "fmlookup (ps_groups st) i = Some g \<longleftrightarrow> grp_ID g = i \<and> (\<exists>r \<in> set (sp_Groups p). groupFromDB r = g)" for i g
    unfolding g(1) using fold_insert_iff [where c = "\<lambda>r. (Return (groupFromDB r) :: (state_error, Group) outcome)" and G = ps_groups and K = grp_ID and k = i and y = g, OF h(3) addGroup_step] by (simp add: g(2))
  show "fmlookup (ps_channels st) i = Some c \<longleftrightarrow> ch_ID c = i \<and> (\<exists>r \<in> set (sp_Channels p). channelFromDB r = c)" for i c
    unfolding c(1) using fold_insert_iff [where c = "\<lambda>r. (Return (channelFromDB r) :: (state_error, Channel) outcome)" and G = ps_channels and K = ch_ID and k = i and y = c, OF h(4) addChannel_step] by (simp add: c(2))
  show "fmlookup (ps_configs st) s = Some cf \<longleftrightarrow> pc_Scope cf = s \<and> (\<exists>r \<in> set (sp_Configs p). configFromDB r = Return cf)" for s cf
    unfolding t(2) using fold_insert_iff [where c = configFromDB and G = ps_configs and K = pc_Scope and k = s and y = cf, OF h(8) addConfig_step] by (simp add: cf)
qed

text \<open>Rows are stored under their own key, and the columns of a configuration name its scope.\<close>

definition config_columns :: "Scope \<Rightarrow> db_ScopePermissionConfig \<Rightarrow> bool" where
  "config_columns s row \<longleftrightarrow> dbp_ScopeType row = sc_Type s \<and> dbp_GroupID row = (if sc_Type s = ''group'' then Some (sc_ID s) else None) \<and>
     dbp_ChannelID row = (if sc_Type s = ''channel'' then Some (sc_ID s) else None) \<and> ScopeValid s"

definition rows_ok :: "role_db \<Rightarrow> bool" where
  "rows_ok d \<longleftrightarrow> keyed_by dbu_ID (rd_users d) \<and> keyed_by dbr_Key (rd_roles d) \<and> keyed_by dbg_ID (rd_groups d) \<and> keyed_by dbc_ID (rd_channels d) \<and>
     (\<forall>row. rd_serverConfig d = Some row \<longrightarrow> config_columns server_scope row) \<and>
     (\<forall>i row. fmlookup (rd_groupConfigs d) i = Some row \<longrightarrow> config_columns (group_scope i) row) \<and>
     (\<forall>i row. fmlookup (rd_channelConfigs d) i = Some row \<longrightarrow> config_columns (channel_scope i) row)"

lemma lookup_from:
  assumes "\<And>y. fmlookup m k = Some y \<longleftrightarrow> key y = k \<and> (\<exists>r \<in> set rows. conv r = y)" "\<And>r. r \<in> set rows \<longleftrightarrow> (\<exists>i. fmlookup t i = Some r)"
    "keyed_by K t" "\<And>r. key (conv r) = K r"
  shows "fmlookup m k = map_option conv (fmlookup t k)"
proof -
  have in_t: "r \<in> set rows \<and> K r = k \<longleftrightarrow> fmlookup t k = Some r" for r using assms(2,3) unfolding keyed_by_def by metis
  have iff: "fmlookup m k = Some y \<longleftrightarrow> (\<exists>r. fmlookup t k = Some r \<and> conv r = y)" for y
    unfolding assms(1) using in_t assms(4) by metis
  show ?thesis
  proof (cases "fmlookup t k")
    case None
    then have "fmlookup m k = None" using iff by (metis option.distinct(1) option.exhaust)
    then show ?thesis using None by simp
  next
    case (Some r)
    then show ?thesis using iff [of "conv r"] by simp
  qed
qed

lemma set_ListRoleRows: "r \<in> set (ListRoleRows d) \<longleftrightarrow> (\<exists>k. fmlookup (rd_roles d) k = Some r)"
  by (simp add: ListRoleRows_def set_map_values)

lemma set_config_rows: "row \<in> set (config_rows d) \<longleftrightarrow> (\<exists>s. ScopeValid s \<and> config_at d s = Some row)" if "rows_ok d"
proof
  assume "row \<in> set (config_rows d)"
  then consider i where "fmlookup (rd_channelConfigs d) i = Some row" | i where "fmlookup (rd_groupConfigs d) i = Some row" | "rd_serverConfig d = Some row"
    by (auto simp: config_rows_def set_id_rows split: option.splits)
  then show "\<exists>s. ScopeValid s \<and> config_at d s = Some row"
  proof cases
    case 1
    then show ?thesis using that by (intro exI [of _ "channel_scope i"]) (auto simp: rows_ok_def config_columns_def config_at_def)
  next
    case 2
    then show ?thesis using that by (intro exI [of _ "group_scope i"]) (auto simp: rows_ok_def config_columns_def config_at_def)
  next
    case 3
    then show ?thesis by (intro exI [of _ server_scope]) (simp add: config_at_def ScopeValid_def)
  qed
qed (auto simp: config_rows_def set_id_rows config_at_def split: if_splits option.splits)

lemma config_columns_at: "\<lbrakk>rows_ok d; config_at d s = Some row; ScopeValid s\<rbrakk> \<Longrightarrow> config_columns s row"
  by (cases s) (auto simp: rows_ok_def config_at_def ScopeValid_def split: if_splits)

lemma config_columns_convert:
  assumes "config_columns s row"
  obtains c where "configFromDB row = Return c" "pc_Scope c = s" "configRowFromState c = row"
proof -
  have "scopeFromNullable (dbp_ScopeType row) (dbp_GroupID row) (dbp_ChannelID row) = Return s"
    using assms by (cases s) (auto simp: config_columns_def scopeFromNullable_def ScopeValid_def split: if_splits)
  then have c: "configFromDB row = Return \<lparr>pc_Scope = s, pc_Config = dbp_Config row, pc_UpdatedAt = dbp_UpdatedAt row, pc_Version = dbp_Version row\<rparr>"
    by (simp add: configFromDB_def)
  show thesis by (rule that [OF c]) (use assms in \<open>auto simp: config_columns_def configRowFromState_def\<close>)
qed

lemma projected_tables:
  assumes "newPersistentState (Some (loadStateProjection d)) = Return st" "rows_ok d"
  shows "fmlookup (ps_users st) i = map_option userFromDB (fmlookup (rd_users d) i)" "fmlookup (ps_roles st) k = map_option roleFromDB (fmlookup (rd_roles d) k)"
    "fmlookup (ps_groups st) i = map_option groupFromDB (fmlookup (rd_groups d) i)" "fmlookup (ps_channels st) i = map_option channelFromDB (fmlookup (rd_channels d) i)"
proof -
  note R = rows_iff [OF assms(1)]
  have keyed: "keyed_by dbu_ID (rd_users d)" "keyed_by dbr_Key (rd_roles d)" "keyed_by dbg_ID (rd_groups d)" "keyed_by dbc_ID (rd_channels d)"
    using assms(2) by (simp_all add: rows_ok_def)
  show "fmlookup (ps_users st) i = map_option userFromDB (fmlookup (rd_users d) i)"
    by (rule lookup_from [OF R(1) _ keyed(1)]) (simp_all add: loadStateProjection_def set_id_rows userFromDB_def)
  show "fmlookup (ps_roles st) k = map_option roleFromDB (fmlookup (rd_roles d) k)"
    by (rule lookup_from [OF R(2) _ keyed(2)]) (simp_all add: loadStateProjection_def set_ListRoleRows roleFromDB_def)
  show "fmlookup (ps_groups st) i = map_option groupFromDB (fmlookup (rd_groups d) i)"
    by (rule lookup_from [OF R(3) _ keyed(3)]) (simp_all add: loadStateProjection_def set_id_rows groupFromDB_def)
  show "fmlookup (ps_channels st) i = map_option channelFromDB (fmlookup (rd_channels d) i)"
    by (rule lookup_from [OF R(4) _ keyed(4)]) (simp_all add: loadStateProjection_def set_id_rows channelFromDB_def)
qed

lemma projected_config:
  assumes "newPersistentState (Some (loadStateProjection d)) = Return st" "rows_ok d" "ScopeValid s"
  shows "config_at d s = map_option configRowFromState (fmlookup (ps_configs st) s)"
proof (cases "config_at d s")
  case (Some row)
  from config_columns_at [OF assms(2) Some assms(3)] obtain c where c: "configFromDB row = Return c" "pc_Scope c = s" "configRowFromState c = row"
    by (rule config_columns_convert)
  have "row \<in> set (config_rows d)" unfolding set_config_rows [OF assms(2)] using Some assms(3) by blast
  then have "fmlookup (ps_configs st) s = Some c" unfolding rows_iff(5) [OF assms(1)] using c by (auto simp: loadStateProjection_def)
  then show ?thesis using Some c(3) by simp
next
  case None
  have "fmlookup (ps_configs st) s \<noteq> Some c" for c
  proof
    assume "fmlookup (ps_configs st) s = Some c"
    then obtain row where row: "row \<in> set (config_rows d)" "configFromDB row = Return c" "pc_Scope c = s"
      unfolding rows_iff(5) [OF assms(1)] by (auto simp: loadStateProjection_def)
    then obtain t where t: "ScopeValid t" "config_at d t = Some row" using set_config_rows [OF assms(2)] by blast
    from config_columns_at [OF assms(2) t(2,1)] obtain c' where "configFromDB row = Return c'" "pc_Scope c' = t" by (rule config_columns_convert)
    then show False using row t None by simp
  qed
  then show ?thesis using None by (cases "fmlookup (ps_configs st) s") auto
qed

text \<open>C23. What \<^verbatim>\<open>GET\<close> shows is what a transaction would read.  The effective configuration of a scope computed from a published version
  (local row, else the row of the parent group, else the server row) is the one the configuration store computes from the database the
  version was loaded from, for every scope and also when the group or channel does not exist.\<close>

theorem config_view_agrees:
  assumes "newPersistentState (Some (loadStateProjection d)) = Return (sv_persistent v)" "rows_ok d" "rd_serverConfig d \<noteq> None" "configScopeToRealtime s \<noteq> None"
  shows "effectiveConfigFromState s v = Effective d s"
proof -
  note T = projected_tables [OF assms(1,2)]
  have cfg: "ScopeValid t \<Longrightarrow> config_at d t = map_option configRowFromState (ConfigOf v t)" for t
    unfolding ConfigOf_def by (rule projected_config [OF assms(1,2)])
  obtain row where row: "rd_serverConfig d = Some row" using assms(3) by blast
  have sv: "ScopeValid server_scope" by (simp add: ScopeValid_def)
  obtain r where r: "ConfigOf v server_scope = Some r" "configRowFromState r = row"
    using cfg [OF sv] row by (cases "ConfigOf v server_scope") (simp_all add: config_at_def)
  have val: "validateConfigScope s = Return ()" using assms(4) by (auto simp: configScopeToRealtime_def validateConfigScope_def split: option.splits if_splits)
  have root: "ServerRow d = Return row" by (simp add: ServerRow_def config_at_def row)
  show ?thesis
  proof (cases "cf_ID s")
    case None
    then have "configScopeToRealtime s = Some server_scope" using assms(4) by (auto simp: configScopeToRealtime_def split: if_splits)
    then show ?thesis using None val root r by (simp add: effectiveConfigFromState_def Effective_def Let_def)
  next
    case (Some i)
    then have t: "cf_Type s = ''group'' \<or> cf_Type s = ''channel''" "sint i > 0" "configScopeToRealtime s = Some \<lparr>sc_Type = cf_Type s, sc_ID = i\<rparr>"
      using assms(4) by (auto simp: configScopeToRealtime_def split: if_splits)
    show ?thesis
    proof (cases "cf_Type s = ''group''")
      case True
      have "config_at d (group_scope i) = map_option configRowFromState (ConfigOf v (group_scope i))" using t(2) by (intro cfg) (simp add: ScopeValid_def)
      then show ?thesis using True Some val root r t T(3) [of i]
        by (cases "fmlookup (rd_groups d) i"; cases "ConfigOf v (group_scope i)") (simp_all add: effectiveConfigFromState_def Effective_def GroupOf_def Let_def)
    next
      case False
      with t(1) have ch: "cf_Type s = ''channel''" by simp
      have c: "config_at d (channel_scope i) = map_option configRowFromState (ConfigOf v (channel_scope i))" using t(2) by (intro cfg) (simp add: ScopeValid_def)
      have grp: "config_at d (group_scope g) = map_option configRowFromState (ConfigOf v (group_scope g))" for g
      proof (cases "sint g > 0")
        case True
        then show ?thesis by (intro cfg) (simp add: ScopeValid_def)
      next
        case False
        have "ConfigOf v (group_scope g) = None"
          using False newPersistentState_ok [OF assms(1)] by (cases "ConfigOf v (group_scope g)") (auto simp: persistent_ok_def ConfigOf_def ScopeValid_def)
        moreover have "config_at d (group_scope g) = None"
          using False assms(2) by (cases "config_at d (group_scope g)") (auto simp: rows_ok_def config_columns_def config_at_def ScopeValid_def)
        ultimately show ?thesis by simp
      qed
      show ?thesis
      proof (cases "fmlookup (rd_channels d) i")
        case None
        then show ?thesis using ch Some val root t T(4) [of i] by (simp add: effectiveConfigFromState_def Effective_def ChannelOf_def)
      next
        case chan: (Some row')
        then have co: "ChannelOf v i = Some (channelFromDB row')" using T(4) [of i] by (simp add: ChannelOf_def)
        have gid: "ch_GroupID (channelFromDB row') = dbc_GroupID row'" by (simp add: channelFromDB_def)
        show ?thesis
        proof (cases "ConfigOf v (channel_scope i)")
          case None
          then show ?thesis using ch Some val root r t c chan co gid grp
            by (cases "dbc_GroupID row'"; cases "ConfigOf v (group_scope (the (dbc_GroupID row')))") (simp_all add: effectiveConfigFromState_def Effective_def Let_def)
        qed (use ch Some val root r t c chan co in \<open>simp add: effectiveConfigFromState_def Effective_def Let_def\<close>)
      qed
    qed
  qed
qed

subsection \<open>Authority\<close>

definition applied_ranks :: "Scope \<Rightarrow> StateVersion \<Rightarrow> RoleBinding list \<Rightarrow> int set" where
  "applied_ranks target v bs = {sint (role_Rank r) | r b. b \<in> set bs \<and> bindingApplies b target v \<and> RoleOf v (rb_RoleKey b) = Some r}"

lemma applied_ranks_Cons:
  "applied_ranks target v (b # bs) =
     (if bindingApplies b target v then (case RoleOf v (rb_RoleKey b) of None \<Rightarrow> {} | Some r \<Rightarrow> {sint (role_Rank r)}) else {}) \<union> applied_ranks target v bs"
  by (auto simp: applied_ranks_def split: option.splits)

lemma finite_applied_ranks [simp]: "finite (applied_ranks target v bs)"
  by (induction bs) (auto simp: applied_ranks_Cons applied_ranks_def [of target v "[]"] split: option.splits)

lemma authorityLoop_rank:
  "authorityLoop grants target v a bs = Return a' \<Longrightarrow> au_Rank a' = Max (insert (au_Rank a) (applied_ranks target v bs))"
proof (induction bs arbitrary: a)
  case Nil
  then show ?case by (simp add: applied_ranks_def)
next
  case (Cons b bs)
  show ?case
  proof (cases "bindingApplies b target v")
    case True
    then obtain r where r: "RoleOf v (rb_RoleKey b) = Some r" "authorityLoop grants target v (grantStep grants target a (role_Rank r) b) bs = Return a'"
      using Cons.prems unfolding authorityLoop_Cons by (auto split: option.splits)
    have "au_Rank (grantStep grants target a (role_Rank r) b) = max (au_Rank a) (sint (role_Rank r))" by (simp add: grantStep_def Let_def)
    with Cons.IH [OF r(2)] have "au_Rank a' = Max (insert (max (au_Rank a) (sint (role_Rank r))) (applied_ranks target v bs))" by simp
    also have "\<dots> = Max (insert (au_Rank a) (insert (sint (role_Rank r)) (applied_ranks target v bs)))"
      by (cases "applied_ranks target v bs = {}") (simp_all add: max.assoc)
    finally show ?thesis using True r(1) by (simp add: applied_ranks_Cons)
  next
    case False
    then show ?thesis using Cons by (simp add: applied_ranks_Cons)
  qed
qed

lemma binding_rows_iff:
  "fold_outcome addBinding st rows = Return st' \<Longrightarrow>
     b \<in> set (rows_at (ps_bindings st') u) \<longleftrightarrow> b \<in> set (rows_at (ps_bindings st) u) \<or> (\<exists>r \<in> set rows. dbb_UserID r = u \<and> bindingFromDB r = Return b)"
proof (induction rows arbitrary: st)
  case (Cons r rows)
  then obtain st1 where s: "addBinding st r = Return st1" "fold_outcome addBinding st1 rows = Return st'" by (auto simp: outcome_bind_Return)
  then obtain x where x: "bindingFromDB r = Return x" "st1 = st\<lparr>ps_bindings := push_row (ps_bindings st) (dbb_UserID r) x\<rparr>"
    by (auto simp: addBinding_def outcome_bind_Return)
  show ?case unfolding Cons.IH [OF s(2)] using x by auto
qed simp

lemma projected_bindings:
  assumes "newPersistentState (Some (loadStateProjection d)) = Return (sv_persistent v)"
  shows "b \<in> set (Bindings v u) \<longleftrightarrow> (\<exists>i r. fmlookup (rd_bindings d) i = Some r \<and> dbb_UserID r = u \<and> bindingFromDB r = Return b)"
proof -
  let ?p = "loadStateProjection d"
  from assms obtain s1 s2 s3 s4 s5 s6 s7 s8 s9 where h: "fold_outcome addUser emptyPersistent (sp_Users ?p) = Return s1" "fold_outcome addRole s1 (sp_Roles ?p) = Return s2"
    "fold_outcome addGroup s2 (sp_Groups ?p) = Return s3" "fold_outcome addChannel s3 (sp_Channels ?p) = Return s4"
    "fold_outcome addGroupAccess s4 (sp_GroupAccess ?p) = Return s5" "fold_outcome addChannelAccess s5 (sp_ChannelAccess ?p) = Return s6"
    "fold_outcome addBinding s6 (sp_Bindings ?p) = Return s7" "fold_outcome addConfig s7 (sp_Configs ?p) = Return s8"
    "fold_outcome addMute s8 (sp_Mutes ?p) = Return s9" "sv_persistent v = sortRows s9"
    by (rule newPersistentState_steps)
  have "ps_bindings s1 = ps_bindings emptyPersistent" by (rule fold_frame [OF h(1), where H = ps_bindings]) (drule addUser_frame, simp)
  moreover have "ps_bindings s2 = ps_bindings s1" by (rule fold_frame [OF h(2), where H = ps_bindings]) (drule addRole_frame, simp)
  moreover have "ps_bindings s3 = ps_bindings s2" by (rule fold_frame [OF h(3), where H = ps_bindings]) (drule addGroup_frame, simp)
  moreover have "ps_bindings s4 = ps_bindings s3" by (rule fold_frame [OF h(4), where H = ps_bindings]) (drule addChannel_frame, simp)
  moreover have "ps_bindings s5 = ps_bindings s4" by (rule fold_frame [OF h(5), where H = ps_bindings]) (drule access_frame(1), simp)
  moreover have "ps_bindings s6 = ps_bindings s5" by (rule fold_frame [OF h(6), where H = ps_bindings]) (drule access_frame(2), simp)
  ultimately have empty: "ps_bindings s6 = fmempty" by (simp add: emptyPersistent_def)
  have "ps_bindings s8 = ps_bindings s7" by (rule fold_frame [OF h(8), where H = ps_bindings]) (drule addConfig_frame, simp)
  moreover have "ps_bindings s9 = ps_bindings s8" by (rule fold_frame [OF h(9), where H = ps_bindings]) (drule addMute_frame, simp)
  ultimately have "set (Bindings v u) = set (rows_at (ps_bindings s7) u)" by (simp add: Bindings_def h(10) sortRows_def)
  moreover have "rows_at (ps_bindings s6) u = []" by (simp add: empty rows_at_def)
  ultimately have "b \<in> set (Bindings v u) \<longleftrightarrow> (\<exists>r \<in> set (id_rows (rd_bindings d)). dbb_UserID r = u \<and> bindingFromDB r = Return b)"
    using binding_rows_iff [OF h(7), of b u] by (simp add: loadStateProjection_def)
  then show ?thesis unfolding Bex_def set_id_rows by blast
qed

lemma server_binding_from_db:
  assumes "bindingFromDB r = Return b"
  shows "bindingApplies b server_scope v \<longleftrightarrow> dbb_ScopeType r = ''server''" "rb_RoleKey b = dbb_RoleKey r"
    "dbb_ScopeType r = ''server'' \<Longrightarrow> rb_Scope b = server_scope"
  using assms
  by (auto simp: bindingFromDB_def scopeFromNullable_def bindingApplies_def split: outcome.splits if_splits option.splits)

lemma server_binding_converts: "\<lbrakk>binding_check r; dbb_ScopeType r = ''server''\<rbrakk> \<Longrightarrow> \<exists>b. bindingFromDB r = Return b"
  by (auto simp: bindingFromDB_def scopeFromNullable_def binding_check_def scope_columns_ok_def)

text \<open>C22. The two computations of authority agree.  The server rank and the owner flag that role administration computes inside its
  transaction are those the scoped authorizer computes from the version published from the same rows.\<close>

theorem authority_view_agrees:
  assumes "newPersistentState (Some (loadStateProjection d)) = Return (sv_persistent v)" "rows_ok d" "db_ok e d"
    "authority_of d u = Return a" "AuthorityOf unmarshal u server_scope v = Return b"
  shows "at_rank a = au_Rank b \<and> at_owner a = au_Owner b"
proof -
  have usr: "UserOf v u \<noteq> None"
    using assms(4) projected_tables(1) [OF assms(1,2), of u] by (auto simp: authority_of_def outcome_bind_Return UserOf_def split: option.splits)
  obtain grants a0 where a0: "authorityLoop grants server_scope v (zeroAuthority\<lparr>au_Rank := - 1\<rparr>) (Bindings v u) = Return a0" "au_Rank b = au_Rank a0"
    using assms(5) usr by (auto simp: AuthorityOf_def outcome_bind_Return targetExists_def split: if_splits option.splits)
  have B: "x \<in> set (Bindings v u) \<longleftrightarrow> (\<exists>i r. fmlookup (rd_bindings d) i = Some r \<and> dbb_UserID r = u \<and> bindingFromDB r = Return x)" for x
    by (rule projected_bindings [OF assms(1)])
  have role: "RoleOf v k = map_option roleFromDB (fmlookup (rd_roles d) k)" for k
    unfolding RoleOf_def by (rule projected_tables(2) [OF assms(1,2)])
  have "applied_ranks server_scope v (Bindings v u) = server_ranks d u"
  proof (rule set_eqI)
    fix n
    show "n \<in> applied_ranks server_scope v (Bindings v u) \<longleftrightarrow> n \<in> server_ranks d u"
    proof
      assume "n \<in> applied_ranks server_scope v (Bindings v u)"
      then obtain r x where x: "n = sint (role_Rank r)" "x \<in> set (Bindings v u)" "bindingApplies x server_scope v" "RoleOf v (rb_RoleKey x) = Some r"
        by (auto simp: applied_ranks_def)
      then obtain i w where w: "fmlookup (rd_bindings d) i = Some w" "dbb_UserID w = u" "bindingFromDB w = Return x" using B by blast
      from x(4) role obtain y where "fmlookup (rd_roles d) (dbb_RoleKey w) = Some y" "r = roleFromDB y"
        using server_binding_from_db(2) [OF w(3)] by auto
      then show "n \<in> server_ranks d u" using x w server_binding_from_db(1) [OF w(3)] by (auto simp: server_ranks_def roleFromDB_def)
    next
      assume "n \<in> server_ranks d u"
      then obtain y i w where w: "n = sint (dbr_Rank y)" "fmlookup (rd_bindings d) i = Some w" "dbb_UserID w = u" "dbb_ScopeType w = ''server''"
        "fmlookup (rd_roles d) (dbb_RoleKey w) = Some y" by (auto simp: server_ranks_def)
      obtain x where x: "bindingFromDB w = Return x" using server_binding_converts [OF db_okD(4) [OF assms(3) w(2)] w(4)] by blast
      then have "x \<in> set (Bindings v u)" using B w by blast
      then show "n \<in> applied_ranks server_scope v (Bindings v u)" unfolding applied_ranks_def
        using w server_binding_from_db(1,2) [OF x] role by (intro CollectI exI [of _ "roleFromDB y"] exI [of _ x]) (auto simp: roleFromDB_def)
    qed
  qed
  then have rank: "at_rank a = au_Rank b"
    using authorityLoop_rank [OF a0(1)] a0(2) authority_of_rank [OF assms(4)] by (simp add: user_rank_def)
  have tgt: "targetExists server_scope v" by (simp add: targetExists_def)
  obtain config grants' where "au_Owner b \<longleftrightarrow> (\<exists>x \<in> set (Bindings v u). ownerBinding x)" by (rule AuthorityOf_spec [OF assms(5) usr tgt])
  also have "\<dots> \<longleftrightarrow> is_owner d u"
  proof
    assume "is_owner d u"
    then obtain i w where w: "fmlookup (rd_bindings d) i = Some w" "dbb_RoleKey w = ''owner''" "dbb_UserID w = u" by (auto simp: is_owner_def)
    have s: "dbb_ScopeType w = ''server''" by (rule is_owner_server [OF assms(3) w(1,2)])
    obtain x where x: "bindingFromDB w = Return x" using server_binding_converts [OF db_okD(4) [OF assms(3) w(1)] s] by blast
    then show "\<exists>x \<in> set (Bindings v u). ownerBinding x"
      using B w s server_binding_from_db(2,3) [OF x] by (intro bexI [of _ x]) (auto simp: ownerBinding_def)
  next
    assume "\<exists>x \<in> set (Bindings v u). ownerBinding x"
    then obtain x where x: "x \<in> set (Bindings v u)" "rb_RoleKey x = ''owner''" by (auto simp: ownerBinding_def)
    then obtain i w where "fmlookup (rd_bindings d) i = Some w" "dbb_UserID w = u" "bindingFromDB w = Return x" using B by blast
    then show "is_owner d u" using x(2) server_binding_from_db(2) unfolding is_owner_def by metis
  qed
  finally show ?thesis using rank authority_of_owner [OF assms(3,4)] by simp
qed

subsection \<open>Witnesses\<close>

lemma example_view_loads: "newPersistentState (Some (loadStateProjection example_db)) = Return (sv_persistent example_published)"
proof -
  have "returns (newPersistentState (Some (loadStateProjection example_db)))" by code_simp
  then show ?thesis by (rule returnsE) (simp add: example_published_def)
qed

lemma example_rows_ok: "rows_ok example_db"
  by (auto simp: rows_ok_def keyed_by_def example_db_def example_account_def example_role_def config_columns_def ScopeValid_def split: if_splits)

theorem config_view_agrees_witness:
  "effectiveConfigFromState \<lparr>cf_Type = ''server'', cf_ID = None\<rparr> example_published = Effective example_db \<lparr>cf_Type = ''server'', cf_ID = None\<rparr>"
  by (rule config_view_agrees [OF example_view_loads example_rows_ok]) (simp_all add: example_db_def configScopeToRealtime_def)

theorem authority_view_agrees_witness:
  "\<exists>a b. authority_of example_db 2 = Return a \<and> AuthorityOf (rbac_unmarshal example_env) 2 server_scope example_published = Return b \<and>
     at_rank a = au_Rank b \<and> at_owner a = au_Owner b"
proof -
  have "returns (authority_of example_db 2)" "returns (AuthorityOf (rbac_unmarshal example_env) 2 server_scope example_published)" by code_simp+
  then obtain a b where ab: "authority_of example_db 2 = Return a" "AuthorityOf (rbac_unmarshal example_env) 2 server_scope example_published = Return b"
    by (auto elim!: returnsE)
  then show ?thesis using authority_view_agrees [OF example_view_loads example_rows_ok example_db_ok ab] by blast
qed

end
