(* ===== verification/Durable.thy ===== *)
theory Durable
  imports Identity
begin

text \<open>
  Retries that survive a restart: the durable tables of completed commands
  (\<^verbatim>\<open>internal/store/idempotency_store.go\<close>, \<^verbatim>\<open>activation_idempotency_store.go\<close>,
  \<^verbatim>\<open>registration_idempotency_store.go\<close>) and the layer that compares identities and rebuilds the response
  (\<^verbatim>\<open>internal/realtime/idempotency.go\<close>).  A table is a finite map from its primary key to its rows; the queries
  of \<^verbatim>\<open>internal/db/idempotency.sql.go\<close> are lookups, filters and inserts on it, with the constraints of the
  schema.  An absent header and an empty one are the same column value.  The reading of the clock is an
  argument.  Parameters beside those of \<open>Identity\<close>: which texts are valid JSON, and the wrapping of an
  activation result with its checkpoint.
\<close>

section \<open>Definitions\<close>

subsection \<open>Tables\<close>

datatype store_error = ErrNotFound | ErrConflict | ErrInvalidIdempotencyRecord | ErrCommandIdempotencyFull | ErrCommandIdempotencyAdmission | ErrConstraintCheck

definition CommandIdempotencyTTL :: int64 where "CommandIdempotencyTTL = 86400000"
definition MaxCommandIdempotencyRecords :: nat where "MaxCommandIdempotencyRecords = 100000"

record CommandIdempotencyRecord =
  ci_PrincipalID :: int64
  ci_IdempotencyKey :: string
  ci_Endpoint :: string
  ci_RequestHMAC :: string
  ci_CommandID :: int64
  ci_Status :: int
  ci_ResultBody :: string
  ci_Headers :: IdempotencyHeaders
  ci_StreamEpoch :: string
  ci_GEID :: uint64
  ci_StateCursor :: string
  ci_CreatedAt :: int64
  ci_ExpiresAt :: int64

record RegistrationIdempotencyRecord =
  gi_InstallationID :: string
  gi_IdempotencyKey :: string
  gi_RequestHMAC :: string
  gi_CommandID :: int64
  gi_Status :: int
  gi_ResultBody :: string
  gi_Headers :: IdempotencyHeaders
  gi_StreamEpoch :: string
  gi_GEID :: uint64
  gi_StateCursor :: string
  gi_CreatedAt :: int64
  gi_ExpiresAt :: int64

record ActivationIdempotencyRecord =
  ai_InstallationID :: string
  ai_IdempotencyKey :: string
  ai_ActivationCodeHash :: string
  ai_RequestHMAC :: string
  ai_CommandID :: int64
  ai_Status :: int
  ai_ResultBody :: string
  ai_Headers :: IdempotencyHeaders
  ai_CreatedAt :: int64
  ai_ExpiresAt :: int64

record durable_db =
  dd_users :: "int64 fset"
  dd_installations :: "string fset"
  dd_commands :: "(int64 \<times> string, CommandIdempotencyRecord) fmap"
  dd_activations :: "(string \<times> string, ActivationIdempotencyRecord) fmap"
  dd_registrations :: "(string \<times> string, RegistrationIdempotencyRecord) fmap"

definition live_row :: "('r \<Rightarrow> int64) \<Rightarrow> ('k, 'r) fmap \<Rightarrow> 'k \<Rightarrow> int64 \<Rightarrow> 'r option" where
  "live_row expires m k now = (case fmlookup m k of None \<Rightarrow> None | Some r \<Rightarrow> if sint (expires r) > sint now then Some r else None)"

definition delete_expired :: "('r \<Rightarrow> int64) \<Rightarrow> ('k, 'r) fmap \<Rightarrow> int64 \<Rightarrow> ('k, 'r) fmap" where
  "delete_expired expires m now = gm_filter (\<lambda>k r. sint (expires r) > sint now) m"

definition insert_row :: "bool \<Rightarrow> ('r \<Rightarrow> int64) \<Rightarrow> bool \<Rightarrow> ('k, 'r) fmap \<Rightarrow> 'k \<Rightarrow> 'r \<Rightarrow> (store_error, ('k, 'r) fmap) outcome" where
  "insert_row parent command checks m k r =
     (if \<not> checks then Fail ErrConstraintCheck
      else if fmlookup m k \<noteq> None \<or> \<not> fmpred (\<lambda>_ r'. command r' \<noteq> command r) m \<or> \<not> parent then Fail ErrConflict
      else Return (fmupd k r m))"

definition CountDurableIdempotency :: "durable_db \<Rightarrow> nat" where
  "CountDurableIdempotency d = gm_len (dd_commands d) + gm_len (dd_activations d) + gm_len (dd_registrations d)"

definition prune_tables :: "durable_db \<Rightarrow> int64 \<Rightarrow> durable_db" where
  "prune_tables d now = d\<lparr>dd_commands := delete_expired ci_ExpiresAt (dd_commands d) now,
     dd_activations := delete_expired ai_ExpiresAt (dd_activations d) now,
     dd_registrations := delete_expired gi_ExpiresAt (dd_registrations d) now\<rparr>"

definition Prune :: "durable_db \<Rightarrow> int64 \<Rightarrow> nat \<times> durable_db" where
  "Prune d now = (CountDurableIdempotency d - CountDurableIdempotency (prune_tables d now), prune_tables d now)"

subsection \<open>Stores\<close>

record IdempotencyStore =
  is_transactional :: bool
  is_admitted :: bool
  is_saved :: bool

definition admitDurableIdempotency :: "durable_db \<Rightarrow> int64 \<Rightarrow> IdempotencyStore \<Rightarrow> (store_error, unit) outcome \<times> durable_db" where
  "admitDurableIdempotency d now s =
     (if \<not> is_transactional s \<or> is_admitted s \<or> is_saved s then (Fail ErrCommandIdempotencyAdmission, d)
      else let d' = prune_tables d now
           in if CountDurableIdempotency d' \<ge> MaxCommandIdempotencyRecords then (Fail ErrCommandIdempotencyFull, d') else (Return (), d'))"

definition Admit :: "durable_db \<Rightarrow> int64 \<Rightarrow> IdempotencyStore \<Rightarrow> (store_error, unit) outcome \<times> durable_db \<times> IdempotencyStore" where
  "Admit d now s =
     (case admitDurableIdempotency d now s of
        (Return _, d') \<Rightarrow> (Return (), d', s\<lparr>is_admitted := True\<rparr>) | (Fail e, d') \<Rightarrow> (Fail e, d', s) | (Panic, d') \<Rightarrow> (Panic, d', s))"

definition max_geid :: uint64 where "max_geid = 9223372036854775807"

definition headers_valid :: "IdempotencyHeaders \<Rightarrow> bool" where
  "headers_valid h = (\<not> invalidResourceHeaders h)"

definition validCommandIdempotencyRecord :: "(string \<Rightarrow> bool) \<Rightarrow> CommandIdempotencyRecord \<Rightarrow> bool" where
  "validCommandIdempotencyRecord json_valid r =
     (sint (ci_PrincipalID r) > 0 \<and> IdempotencyKeyValid (ci_IdempotencyKey r) \<and> ci_Endpoint r \<noteq> '''' \<and> length (ci_Endpoint r) \<le> 256 \<and>
      \<not> hasControlCharacters (ci_Endpoint r) \<and> sint (ci_CommandID r) > 0 \<and> 100 \<le> ci_Status r \<and> ci_Status r \<le> 599 \<and>
      installationIdentityPattern (ci_StreamEpoch r) \<and> ci_StateCursor r \<noteq> '''' \<and> sint (ci_CreatedAt r) \<ge> 0 \<and>
      ci_ExpiresAt r = ci_CreatedAt r + CommandIdempotencyTTL \<and>
      length (ci_RequestHMAC r) = 64 \<and> decode_hex (ci_RequestHMAC r) \<noteq> None \<and> json_valid (ci_ResultBody r) \<and> headers_valid (ci_Headers r) \<and>
      ci_GEID r \<le> max_geid)"

definition validHex :: "string \<Rightarrow> nat \<Rightarrow> bool" where
  "validHex value n = (length value = n * 2 \<and> list_all (\<lambda>ch. \<not> ascii_upper ch) value \<and> decode_hex value \<noteq> None)"

definition validRegistrationRecord :: "(string \<Rightarrow> bool) \<Rightarrow> RegistrationIdempotencyRecord \<Rightarrow> bool" where
  "validRegistrationRecord json_valid r =
     (installationIdentityPattern (gi_InstallationID r) \<and> IdempotencyKeyValid (gi_IdempotencyKey r) \<and> validHex (gi_RequestHMAC r) 32 \<and>
      sint (gi_CommandID r) > 0 \<and> 100 \<le> gi_Status r \<and> gi_Status r \<le> 599 \<and> installationIdentityPattern (gi_StreamEpoch r) \<and>
      gi_StateCursor r \<noteq> '''' \<and> sint (gi_CreatedAt r) \<ge> 0 \<and> gi_ExpiresAt r = gi_CreatedAt r + CommandIdempotencyTTL \<and>
      json_valid (gi_ResultBody r) \<and> gi_GEID r \<le> max_geid \<and> headers_valid (gi_Headers r))"

definition validActivationRecord :: "(string \<Rightarrow> bool) \<Rightarrow> ActivationIdempotencyRecord \<Rightarrow> bool" where
  "validActivationRecord json_valid r =
     (installationIdentityPattern (ai_InstallationID r) \<and> IdempotencyKeyValid (ai_IdempotencyKey r) \<and> validHex (ai_ActivationCodeHash r) 32 \<and>
      validHex (ai_RequestHMAC r) 32 \<and> sint (ai_CommandID r) > 0 \<and> 100 \<le> ai_Status r \<and> ai_Status r \<le> 599 \<and> sint (ai_CreatedAt r) \<ge> 0 \<and>
      ai_ExpiresAt r = ai_CreatedAt r + CommandIdempotencyTTL \<and> json_valid (ai_ResultBody r) \<and>
      \<not> hasControlCharacters (ih_ETag (ai_Headers r)) \<and> \<not> hasControlCharacters (ih_Location (ai_Headers r)) \<and>
      \<not> hasControlCharacters (ih_CacheControl (ai_Headers r)) \<and> \<not> hasControlCharacters (ih_Pragma (ai_Headers r)))"

text \<open>\<^verbatim>\<open>Save\<close> stamps a record that has no times yet.\<close>

definition stamp :: "int64 \<Rightarrow> int64 \<Rightarrow> int64 \<Rightarrow> int64 \<times> int64" where
  "stamp now created expires =
     (let c = (if created = 0 then now else created) in (c, if expires = 0 then c + CommandIdempotencyTTL else expires))"

definition save_guard :: "IdempotencyStore \<Rightarrow> bool" where
  "save_guard s = (is_transactional s \<and> is_admitted s \<and> \<not> is_saved s)"

definition SaveCommand :: "(string \<Rightarrow> bool) \<Rightarrow> durable_db \<Rightarrow> int64 \<Rightarrow> IdempotencyStore \<Rightarrow> CommandIdempotencyRecord
    \<Rightarrow> (store_error, unit) outcome \<times> durable_db \<times> IdempotencyStore" where
  "SaveCommand json_valid d now s r0 =
     (if \<not> save_guard s then (Fail ErrCommandIdempotencyAdmission, d, s)
      else let r = (case stamp now (ci_CreatedAt r0) (ci_ExpiresAt r0) of (c, e) \<Rightarrow> r0\<lparr>ci_CreatedAt := c, ci_ExpiresAt := e\<rparr>)
           in if \<not> validCommandIdempotencyRecord json_valid r then (Fail ErrInvalidIdempotencyRecord, d, s)
              else case insert_row (ci_PrincipalID r |\<in>| dd_users d) ci_CommandID (sint (ci_ExpiresAt r) > sint (ci_CreatedAt r)) (dd_commands d)
                     (ci_PrincipalID r, ci_IdempotencyKey r) r of
                Return m \<Rightarrow> (Return (), d\<lparr>dd_commands := m\<rparr>, s\<lparr>is_saved := True\<rparr>) | Fail e \<Rightarrow> (Fail e, d, s) | Panic \<Rightarrow> (Panic, d, s))"

definition SaveRegistration :: "(string \<Rightarrow> bool) \<Rightarrow> durable_db \<Rightarrow> int64 \<Rightarrow> IdempotencyStore \<Rightarrow> RegistrationIdempotencyRecord
    \<Rightarrow> (store_error, unit) outcome \<times> durable_db \<times> IdempotencyStore" where
  "SaveRegistration json_valid d now s r0 =
     (if \<not> save_guard s then (Fail ErrCommandIdempotencyAdmission, d, s)
      else let r = (case stamp now (gi_CreatedAt r0) (gi_ExpiresAt r0) of (c, e) \<Rightarrow> r0\<lparr>gi_CreatedAt := c, gi_ExpiresAt := e\<rparr>)
           in if \<not> validRegistrationRecord json_valid r then (Fail ErrInvalidIdempotencyRecord, d, s)
              else case insert_row (gi_InstallationID r |\<in>| dd_installations d) gi_CommandID (sint (gi_ExpiresAt r) > sint (gi_CreatedAt r)) (dd_registrations d)
                     (gi_InstallationID r, gi_IdempotencyKey r) r of
                Return m \<Rightarrow> (Return (), d\<lparr>dd_registrations := m\<rparr>, s\<lparr>is_saved := True\<rparr>) | Fail e \<Rightarrow> (Fail e, d, s) | Panic \<Rightarrow> (Panic, d, s))"

text \<open>The activation table has no column for the parent tag.\<close>

definition SaveActivation :: "(string \<Rightarrow> bool) \<Rightarrow> durable_db \<Rightarrow> int64 \<Rightarrow> IdempotencyStore \<Rightarrow> ActivationIdempotencyRecord
    \<Rightarrow> (store_error, unit) outcome \<times> durable_db \<times> IdempotencyStore" where
  "SaveActivation json_valid d now s r0 =
     (if \<not> save_guard s then (Fail ErrCommandIdempotencyAdmission, d, s)
      else let r = (case stamp now (ai_CreatedAt r0) (ai_ExpiresAt r0) of (c, e) \<Rightarrow> r0\<lparr>ai_CreatedAt := c, ai_ExpiresAt := e\<rparr>)
           in if \<not> validActivationRecord json_valid r then (Fail ErrInvalidIdempotencyRecord, d, s)
              else case insert_row (ai_InstallationID r |\<in>| dd_installations d) ai_CommandID (sint (ai_ExpiresAt r) > sint (ai_CreatedAt r)) (dd_activations d)
                     (ai_InstallationID r, ai_IdempotencyKey r) (r\<lparr>ai_Headers := (ai_Headers r)\<lparr>ih_ParentETag := ''''\<rparr>\<rparr>) of
                Return m \<Rightarrow> (Return (), d\<lparr>dd_activations := m\<rparr>, s\<lparr>is_saved := True\<rparr>) | Fail e \<Rightarrow> (Fail e, d, s) | Panic \<Rightarrow> (Panic, d, s))"

definition LookupCommand :: "durable_db \<Rightarrow> int64 \<Rightarrow> int64 \<Rightarrow> string \<Rightarrow> (store_error, CommandIdempotencyRecord) outcome" where
  "LookupCommand d now principalID key =
     (if sint principalID \<le> 0 \<or> \<not> IdempotencyKeyValid key then Fail ErrInvalidIdempotencyRecord
      else case live_row ci_ExpiresAt (dd_commands d) (principalID, key) now of None \<Rightarrow> Fail ErrNotFound
        | Some r \<Rightarrow> if sint (ci_GEID r) < 0 then Fail ErrInvalidIdempotencyRecord else Return r)"

definition LookupRegistration :: "(string \<Rightarrow> bool) \<Rightarrow> durable_db \<Rightarrow> int64 \<Rightarrow> string \<Rightarrow> string \<Rightarrow> (store_error, RegistrationIdempotencyRecord) outcome" where
  "LookupRegistration json_valid d now installationID key =
     (if \<not> installationIdentityPattern installationID \<or> \<not> IdempotencyKeyValid key then Fail ErrInvalidIdempotencyRecord
      else case live_row gi_ExpiresAt (dd_registrations d) (installationID, key) now of None \<Rightarrow> Fail ErrNotFound
        | Some r \<Rightarrow> if sint (gi_GEID r) < 0 \<or> \<not> validRegistrationRecord json_valid r then Fail ErrInvalidIdempotencyRecord else Return r)"

definition LookupActivation :: "(string \<Rightarrow> bool) \<Rightarrow> durable_db \<Rightarrow> int64 \<Rightarrow> string \<Rightarrow> string \<Rightarrow> (store_error, ActivationIdempotencyRecord) outcome" where
  "LookupActivation json_valid d now installationID key =
     (if \<not> installationIdentityPattern installationID \<or> \<not> IdempotencyKeyValid key then Fail ErrInvalidIdempotencyRecord
      else case live_row ai_ExpiresAt (dd_activations d) (installationID, key) now of None \<Rightarrow> Fail ErrNotFound
        | Some r \<Rightarrow> if \<not> validActivationRecord json_valid r then Fail ErrInvalidIdempotencyRecord else Return r)"

subsection \<open>Replays\<close>

datatype durable_error = DIdentity identity_error | DStore store_error

record DurableReplay =
  dr_CommandID :: int64
  dr_Status :: int
  dr_Body :: string
  dr_Headers :: IdempotencyHeaders
  dr_Checkpoint :: Checkpoint
  dr_StateCursor :: string
  dr_SyncRequired :: bool

definition no_checkpoint :: Checkpoint where
  "no_checkpoint = \<lparr>cp_StreamEpoch = '''', cp_GEID = 0\<rparr>"

definition no_headers :: IdempotencyHeaders where
  "no_headers = \<lparr>ih_ETag = '''', ih_ParentETag = '''', ih_Location = '''', ih_CacheControl = '''', ih_Pragma = ''''\<rparr>"

text \<open>\<^verbatim>\<open>{"code":9,"message":"idempotency key reused with different request","data":null}\<close>\<close>

definition mismatch_body :: string where
  "mismatch_body = [CHR 0x7B, CHR 0x22] @ ''code'' @ [CHR 0x22] @ '':9,'' @ [CHR 0x22] @ ''message'' @ [CHR 0x22] @ '':'' @ [CHR 0x22] @
     ''idempotency key reused with different request'' @ [CHR 0x22] @ '','' @ [CHR 0x22] @ ''data'' @ [CHR 0x22] @ '':null'' @ [CHR 0x7D]"

definition IdempotencyMismatchReplay :: DurableReplay where
  "IdempotencyMismatchReplay = \<lparr>dr_CommandID = 0, dr_Status = 409, dr_Body = mismatch_body, dr_Headers = no_headers, dr_Checkpoint = no_checkpoint,
     dr_StateCursor = '''', dr_SyncRequired = False\<rparr>"

definition replay_of :: "CanonicalCommandResult \<Rightarrow> string \<Rightarrow> DurableReplay" where
  "replay_of r currentEpoch =
     (let same = (cp_StreamEpoch (rr_Checkpoint r) = currentEpoch)
      in \<lparr>dr_CommandID = rr_CommandID r, dr_Status = rr_Status r, dr_Body = rr_Body r, dr_Headers = rr_Headers r,
          dr_Checkpoint = (if same then rr_Checkpoint r else no_checkpoint), dr_StateCursor = (if same then rr_StateCursor r else ''''),
          dr_SyncRequired = (\<not> same)\<rparr>)"

definition canonicalCommandResultFromRecord :: "identity_env \<Rightarrow> CommandIdempotencyRecord \<Rightarrow> (identity_error, CanonicalCommandResult) outcome" where
  "canonicalCommandResultFromRecord env r =
     canonicalizeCommandResult env \<lparr>rr_CommandID = ci_CommandID r, rr_Status = ci_Status r, rr_Body = ci_ResultBody r, rr_Headers = ci_Headers r,
       rr_Checkpoint = \<lparr>cp_StreamEpoch = ci_StreamEpoch r, cp_GEID = ci_GEID r\<rparr>, rr_StateCursor = ci_StateCursor r\<rparr>"

definition canonicalCommandResultFromRegistrationRecord :: "identity_env \<Rightarrow> RegistrationIdempotencyRecord \<Rightarrow> (identity_error, CanonicalCommandResult) outcome" where
  "canonicalCommandResultFromRegistrationRecord env r =
     canonicalizeCommandResult env \<lparr>rr_CommandID = gi_CommandID r, rr_Status = gi_Status r, rr_Body = gi_ResultBody r, rr_Headers = gi_Headers r,
       rr_Checkpoint = \<lparr>cp_StreamEpoch = gi_StreamEpoch r, cp_GEID = gi_GEID r\<rparr>, rr_StateCursor = gi_StateCursor r\<rparr>"

text \<open>A lookup reports whether a row was found beside its result.\<close>

definition finish_lookup :: "bool \<Rightarrow> (identity_error, CanonicalCommandResult) outcome \<Rightarrow> string \<Rightarrow> (durable_error, DurableReplay) outcome" where
  "finish_lookup matches result currentEpoch =
     (if \<not> matches then Fail (DIdentity ErrIdempotencyMismatch)
      else case result of Return r \<Rightarrow> Return (replay_of r currentEpoch) | Fail e \<Rightarrow> Fail (DIdentity e) | Panic \<Rightarrow> Panic)"

definition DurableLookup :: "identity_env \<Rightarrow> RequestIdentitySigner \<Rightarrow> durable_db \<Rightarrow> int64 \<Rightarrow> HTTPCommandIdentity \<Rightarrow> string \<Rightarrow> string
    \<Rightarrow> (durable_error, DurableReplay) outcome option" where
  "DurableLookup env s d now identity key currentEpoch =
     (if \<not> IdempotencyKeyValid key \<or> validateStreamEpoch currentEpoch \<noteq> Return () then Some (Fail (DIdentity ErrInvalidRequestIdentity))
      else case Sum env s identity of Fail e \<Rightarrow> Some (Fail (DIdentity e)) | Panic \<Rightarrow> Some Panic
        | Return requestHMAC \<Rightarrow>
            (case LookupCommand d now (hi_PrincipalID identity) key of
               Fail e \<Rightarrow> if e = ErrNotFound then None else Some (Fail (DStore e)) | Panic \<Rightarrow> Some Panic
             | Return r \<Rightarrow>
                 Some (finish_lookup (ci_Endpoint r = commandEndpoint identity \<and> equalHexDigest (ci_RequestHMAC r) requestHMAC)
                   (canonicalCommandResultFromRecord env r) currentEpoch)))"

definition DurableRegistrationLookup :: "identity_env \<Rightarrow> (string \<Rightarrow> bool) \<Rightarrow> RequestIdentitySigner \<Rightarrow> durable_db \<Rightarrow> int64 \<Rightarrow> RegistrationCommandIdentity
    \<Rightarrow> string \<Rightarrow> string \<Rightarrow> (durable_error, DurableReplay) outcome option" where
  "DurableRegistrationLookup env json_valid s d now identity key currentEpoch =
     (if \<not> IdempotencyKeyValid key \<or> validateStreamEpoch currentEpoch \<noteq> Return () then Some (Fail (DIdentity ErrInvalidRequestIdentity))
      else case SumRegistration env s identity of Fail e \<Rightarrow> Some (Fail (DIdentity e)) | Panic \<Rightarrow> Some Panic
        | Return requestHMAC \<Rightarrow>
            (case LookupRegistration json_valid d now (ri_InstallationID identity) key of
               Fail e \<Rightarrow> if e = ErrNotFound then None else Some (Fail (DStore e)) | Panic \<Rightarrow> Some Panic
             | Return r \<Rightarrow>
                 Some (finish_lookup (equalHexDigest (gi_RequestHMAC r) requestHMAC) (canonicalCommandResultFromRegistrationRecord env r) currentEpoch)))"

definition lift_store :: "(store_error, unit) outcome \<Rightarrow> (durable_error, unit) outcome" where
  "lift_store r = (case r of Return _ \<Rightarrow> Return () | Fail e \<Rightarrow> Fail (DStore e) | Panic \<Rightarrow> Panic)"

definition DurableSave :: "identity_env \<Rightarrow> (string \<Rightarrow> bool) \<Rightarrow> RequestIdentitySigner \<Rightarrow> durable_db \<Rightarrow> int64 \<Rightarrow> IdempotencyStore \<Rightarrow> HTTPCommandIdentity
    \<Rightarrow> string \<Rightarrow> CanonicalCommandResult \<Rightarrow> (durable_error, unit) outcome \<times> durable_db \<times> IdempotencyStore" where
  "DurableSave env json_valid s d now st identity key result =
     (if \<not> IdempotencyKeyValid key then (Fail (DIdentity ErrInvalidRequestIdentity), d, st)
      else case Sum env s identity of Fail e \<Rightarrow> (Fail (DIdentity e), d, st) | Panic \<Rightarrow> (Panic, d, st)
        | Return requestHMAC \<Rightarrow>
            (case canonicalizeCommandResult env result of Fail e \<Rightarrow> (Fail (DIdentity e), d, st) | Panic \<Rightarrow> (Panic, d, st)
             | Return r \<Rightarrow>
                 (case SaveCommand json_valid d now st
                        \<lparr>ci_PrincipalID = hi_PrincipalID identity, ci_IdempotencyKey = key, ci_Endpoint = commandEndpoint identity,
                         ci_RequestHMAC = requestHMAC, ci_CommandID = rr_CommandID r, ci_Status = rr_Status r, ci_ResultBody = rr_Body r,
                         ci_Headers = rr_Headers r, ci_StreamEpoch = cp_StreamEpoch (rr_Checkpoint r), ci_GEID = cp_GEID (rr_Checkpoint r),
                         ci_StateCursor = rr_StateCursor r, ci_CreatedAt = 0, ci_ExpiresAt = 0\<rparr> of (res, d', st') \<Rightarrow> (lift_store res, d', st'))))"

definition DurableRegistrationSave :: "identity_env \<Rightarrow> (string \<Rightarrow> bool) \<Rightarrow> RequestIdentitySigner \<Rightarrow> durable_db \<Rightarrow> int64 \<Rightarrow> IdempotencyStore
    \<Rightarrow> RegistrationCommandIdentity \<Rightarrow> string \<Rightarrow> CanonicalCommandResult \<Rightarrow> (durable_error, unit) outcome \<times> durable_db \<times> IdempotencyStore" where
  "DurableRegistrationSave env json_valid s d now st identity key result =
     (if \<not> IdempotencyKeyValid key then (Fail (DIdentity ErrInvalidRequestIdentity), d, st)
      else case SumRegistration env s identity of Fail e \<Rightarrow> (Fail (DIdentity e), d, st) | Panic \<Rightarrow> (Panic, d, st)
        | Return requestHMAC \<Rightarrow>
            (case canonicalizeCommandResult env result of Fail e \<Rightarrow> (Fail (DIdentity e), d, st) | Panic \<Rightarrow> (Panic, d, st)
             | Return r \<Rightarrow>
                 (case SaveRegistration json_valid d now st
                        \<lparr>gi_InstallationID = ri_InstallationID identity, gi_IdempotencyKey = key, gi_RequestHMAC = requestHMAC,
                         gi_CommandID = rr_CommandID r, gi_Status = rr_Status r, gi_ResultBody = rr_Body r, gi_Headers = rr_Headers r,
                         gi_StreamEpoch = cp_StreamEpoch (rr_Checkpoint r), gi_GEID = cp_GEID (rr_Checkpoint r), gi_StateCursor = rr_StateCursor r,
                         gi_CreatedAt = 0, gi_ExpiresAt = 0\<rparr> of (res, d', st') \<Rightarrow> (lift_store res, d', st'))))"

text \<open>An activation result is stored with its checkpoint wrapped around the body when it has one.  \<open>wrap\<close> is the JSON encoding of that
  structure (\<open>None\<close> where it cannot be encoded) and \<open>unwrap\<close> its decoding, \<open>None\<close> where the text is not such a structure or has no body.\<close>

record activation_codec =
  ac_wrap :: "string \<Rightarrow> Checkpoint \<Rightarrow> string \<Rightarrow> string option"
  ac_unwrap :: "string \<Rightarrow> (string \<times> Checkpoint \<times> string) option"

definition activationResultFromStoredBody :: "identity_env \<Rightarrow> activation_codec \<Rightarrow> CanonicalCommandResult \<Rightarrow> (identity_error, CanonicalCommandResult) outcome" where
  "activationResultFromStoredBody env ac r =
     canonicalizeActivationCommandResult env
       (case ac_unwrap ac (rr_Body r) of None \<Rightarrow> r | Some (body, cp, cursor) \<Rightarrow> r\<lparr>rr_Body := body, rr_Checkpoint := cp, rr_StateCursor := cursor\<rparr>)"

definition DurableActivationLookup :: "identity_env \<Rightarrow> activation_codec \<Rightarrow> (string \<Rightarrow> bool) \<Rightarrow> RequestIdentitySigner \<Rightarrow> durable_db \<Rightarrow> int64
    \<Rightarrow> InstallationCommandIdentity \<Rightarrow> string \<Rightarrow> (durable_error, CanonicalCommandResult) outcome option" where
  "DurableActivationLookup env ac json_valid s d now identity key =
     (if \<not> IdempotencyKeyValid key then Some (Fail (DIdentity ErrInvalidRequestIdentity))
      else case SumInstallation env s identity of Fail e \<Rightarrow> Some (Fail (DIdentity e)) | Panic \<Rightarrow> Some Panic
        | Return requestHMAC \<Rightarrow>
            (case LookupActivation json_valid d now (ii_InstallationID identity) key of
               Fail e \<Rightarrow> if e = ErrNotFound then None else Some (Fail (DStore e)) | Panic \<Rightarrow> Some Panic
             | Return r \<Rightarrow>
                 if \<not> equalHexDigest (ai_ActivationCodeHash r) (ii_ActivationCodeHash identity) \<or> \<not> equalHexDigest (ai_RequestHMAC r) requestHMAC
                 then Some (Fail (DIdentity ErrIdempotencyMismatch))
                 else (case activationResultFromStoredBody env ac \<lparr>rr_CommandID = ai_CommandID r, rr_Status = ai_Status r, rr_Body = ai_ResultBody r,
                           rr_Headers = ai_Headers r, rr_Checkpoint = no_checkpoint, rr_StateCursor = ''''\<rparr> of
                         Return res \<Rightarrow> Some (Return res) | Fail e \<Rightarrow> Some (Fail (DIdentity e)) | Panic \<Rightarrow> Some Panic)))"

definition DurableActivationSave :: "identity_env \<Rightarrow> activation_codec \<Rightarrow> (string \<Rightarrow> bool) \<Rightarrow> RequestIdentitySigner \<Rightarrow> durable_db \<Rightarrow> int64 \<Rightarrow> IdempotencyStore
    \<Rightarrow> InstallationCommandIdentity \<Rightarrow> string \<Rightarrow> CanonicalCommandResult \<Rightarrow> (durable_error, unit) outcome \<times> durable_db \<times> IdempotencyStore" where
  "DurableActivationSave env ac json_valid s d now st identity key result =
     (if \<not> IdempotencyKeyValid key then (Fail (DIdentity ErrInvalidRequestIdentity), d, st)
      else case SumInstallation env s identity of Fail e \<Rightarrow> (Fail (DIdentity e), d, st) | Panic \<Rightarrow> (Panic, d, st)
        | Return requestHMAC \<Rightarrow>
            (case canonicalizeActivationCommandResult env result of Fail e \<Rightarrow> (Fail (DIdentity e), d, st) | Panic \<Rightarrow> (Panic, d, st)
             | Return r \<Rightarrow>
                 (case (if rr_StateCursor r \<noteq> '''' \<or> cp_StreamEpoch (rr_Checkpoint r) \<noteq> ''''
                        then ac_wrap ac (rr_Body r) (rr_Checkpoint r) (rr_StateCursor r) else Some (rr_Body r)) of
                    None \<Rightarrow> (Fail (DIdentity ErrInvalidCommandResult), d, st)
                  | Some body \<Rightarrow>
                      (case SaveActivation json_valid d now st
                             \<lparr>ai_InstallationID = ii_InstallationID identity, ai_IdempotencyKey = key, ai_ActivationCodeHash = ii_ActivationCodeHash identity,
                              ai_RequestHMAC = requestHMAC, ai_CommandID = rr_CommandID r, ai_Status = rr_Status r, ai_ResultBody = body,
                              ai_Headers = rr_Headers r, ai_CreatedAt = 0, ai_ExpiresAt = 0\<rparr> of (res, d', st') \<Rightarrow> (lift_store res, d', st')))))"

section \<open>Theorems\<close>

subsection \<open>Digests\<close>

lemma hex_value_digit: "n < 16 \<Longrightarrow> hex_value (hex_digit n) = Some n"
  by (simp add: hex_value_def hex_digit_def Let_def of_char_of)

lemma decode_hex_string [simp]: "decode_hex (hex_string bs) = Some bs"
proof (induction bs)
  case (Cons b bs)
  have "unat b < 256" using unsigned_less [where ?'a = nat and w = b] by simp
  then have "unat b div 16 < 16" by (simp add: div_less_iff_less_mult)
  moreover have "(of_nat (16 * (unat b div 16) + unat b mod 16) :: 8 word) = b" by simp
  ultimately show ?case using Cons.IH hex_value_digit [of "unat b div 16"] hex_value_digit [of "unat b mod 16"] by simp
qed simp

lemma equalHexDigest_hex [simp]: "equalHexDigest (hex_string a) (hex_string b) \<longleftrightarrow> a = b"
  by (auto simp: equalHexDigest_def)

subsection \<open>Canonical results\<close>

text \<open>Re-encoding a JSON text twice gives the same text, and never nothing.\<close>

definition json_stable :: "identity_env \<Rightarrow> bool" where
  "json_stable env \<longleftrightarrow> (\<forall>b c. ie_json env b = Some c \<longrightarrow> c \<noteq> [] \<and> ie_json env c = Some c)"

lemma result_eta:
  "\<lparr>rr_CommandID = rr_CommandID r, rr_Status = rr_Status r, rr_Body = rr_Body r, rr_Headers = rr_Headers r,
     rr_Checkpoint = \<lparr>cp_StreamEpoch = cp_StreamEpoch (rr_Checkpoint r), cp_GEID = cp_GEID (rr_Checkpoint r)\<rparr>, rr_StateCursor = rr_StateCursor r\<rparr> = r"
  by (cases r, cases "rr_Checkpoint r") simp

lemma canonicalize_again:
  assumes "json_stable env" "canonicalizeCommandResult env r0 = Return r"
  shows "canonicalizeCommandResult env r = Return r"
proof -
  obtain body where b: "canonical_body env (rr_Status r0) (rr_Body r0) = Some body" and r: "r = r0\<lparr>rr_Body := body\<rparr>"
    using assms(2) by (auto simp: canonicalizeCommandResult_def split: if_splits option.splits)
  have "canonical_body env (rr_Status r0) body = Some body"
    using b assms(1) by (auto simp: canonical_body_def canonicalJSONValue_def json_stable_def split: if_splits)
  then show ?thesis using assms(2) by (simp add: canonicalizeCommandResult_def r split: if_splits)
qed

subsection \<open>Rows stay until they expire\<close>

inductive durable_step :: "int64 \<Rightarrow> durable_db \<Rightarrow> durable_db \<Rightarrow> bool" for limit where
  admit: "sint now < sint limit \<Longrightarrow> durable_step limit d (snd (admitDurableIdempotency d now st))"
| prune: "sint now < sint limit \<Longrightarrow> durable_step limit d (snd (Prune d now))"
| command: "durable_step limit d (fst (snd (SaveCommand jv d now st r)))"
| registration: "durable_step limit d (fst (snd (SaveRegistration jv d now st g)))"
| activation: "durable_step limit d (fst (snd (SaveActivation jv d now st a)))"

lemma insert_row_keeps: "insert_row parent command checks m k r = Return m' \<Longrightarrow> fmlookup m k' = Some r' \<Longrightarrow> fmlookup m' k' = Some r'"
  by (auto simp: insert_row_def split: if_splits)

lemma save_commands:
  "dd_commands (fst (snd (SaveCommand jv d now st r))) = dd_commands d \<or>
     (\<exists>p c q k r'. insert_row p c q (dd_commands d) k r' = Return (dd_commands (fst (snd (SaveCommand jv d now st r)))))"
  "dd_commands (fst (snd (SaveRegistration jv d now st g))) = dd_commands d"
  "dd_commands (fst (snd (SaveActivation jv d now st a))) = dd_commands d"
  by (auto simp: SaveCommand_def SaveRegistration_def SaveActivation_def Let_def split: outcome.splits)

lemma prune_keeps: "fmlookup (dd_commands d) k = Some r \<Longrightarrow> sint now < sint (ci_ExpiresAt r) \<Longrightarrow> fmlookup (dd_commands (prune_tables d now)) k = Some r"
  by (simp add: prune_tables_def delete_expired_def fmlookup_gm_filter)

lemma durable_step_keeps:
  assumes "durable_step limit d d'" "fmlookup (dd_commands d) k = Some r" "sint limit \<le> sint (ci_ExpiresAt r)"
  shows "fmlookup (dd_commands d') k = Some r"
  using assms
proof (induction rule: durable_step.induct)
  case (admit now d st)
  then show ?case by (simp add: admitDurableIdempotency_def Let_def prune_keeps)
next
  case (prune now d)
  then show ?case by (simp add: Prune_def prune_keeps)
next
  case (command d jv now st r')
  then show ?case using save_commands(1) [of jv d now st r'] insert_row_keeps by metis
next
  case (registration d jv now st g)
  then show ?case by (simp add: save_commands(2))
next
  case (activation d jv now st a)
  then show ?case by (simp add: save_commands(3))
qed

lemma durable_run_keeps:
  assumes "(durable_step limit)\<^sup>*\<^sup>* d d'" "fmlookup (dd_commands d) k = Some r" "sint limit \<le> sint (ci_ExpiresAt r)"
  shows "fmlookup (dd_commands d') k = Some r"
  using assms by (induction rule: rtranclp_induct) (auto intro: durable_step_keeps)

subsection \<open>What a successful save leaves\<close>

lemma DurableSave_Return:
  assumes "DurableSave env jv s d now st a key result = (Return (), d', st')"
  obtains r ca row where "canonicalizeCommandResult env result = Return r" "canonicalHTTPCommandIdentity env a = Return ca" "IdempotencyKeyValid key"
    "\<not> length (rs_key s) < 32" "validCommandIdempotencyRecord jv row" "fmlookup (dd_commands d') (hi_PrincipalID a, key) = Some row"
    "row = \<lparr>ci_PrincipalID = hi_PrincipalID a, ci_IdempotencyKey = key, ci_Endpoint = commandEndpoint a,
       ci_RequestHMAC = hex_string (ie_mac env (rs_key s) ca), ci_CommandID = rr_CommandID r, ci_Status = rr_Status r, ci_ResultBody = rr_Body r,
       ci_Headers = rr_Headers r, ci_StreamEpoch = cp_StreamEpoch (rr_Checkpoint r), ci_GEID = cp_GEID (rr_Checkpoint r),
       ci_StateCursor = rr_StateCursor r, ci_CreatedAt = now, ci_ExpiresAt = now + CommandIdempotencyTTL\<rparr>"
proof -
  obtain h where h: "Sum env s a = Return h" and k: "IdempotencyKeyValid key"
    using assms by (auto simp: DurableSave_def split: if_splits outcome.splits)
  then obtain ca where ca: "canonicalHTTPCommandIdentity env a = Return ca" "h = hex_string (ie_mac env (rs_key s) ca)" "\<not> length (rs_key s) < 32"
    by (auto simp: Sum_def sum_of_def outcome_bind_def split: if_splits outcome.splits)
  obtain r where r: "canonicalizeCommandResult env result = Return r"
    using assms h k by (auto simp: DurableSave_def split: outcome.splits)
  let ?r0 = "\<lparr>ci_PrincipalID = hi_PrincipalID a, ci_IdempotencyKey = key, ci_Endpoint = commandEndpoint a, ci_RequestHMAC = h,
       ci_CommandID = rr_CommandID r, ci_Status = rr_Status r, ci_ResultBody = rr_Body r, ci_Headers = rr_Headers r,
       ci_StreamEpoch = cp_StreamEpoch (rr_Checkpoint r), ci_GEID = cp_GEID (rr_Checkpoint r), ci_StateCursor = rr_StateCursor r, ci_CreatedAt = 0, ci_ExpiresAt = 0\<rparr>"
  let ?row = "?r0\<lparr>ci_CreatedAt := now, ci_ExpiresAt := now + CommandIdempotencyTTL\<rparr>"
  obtain res where s: "SaveCommand jv d now st ?r0 = (res, d', st')" and "lift_store res = Return ()"
    using assms h k r by (cases "SaveCommand jv d now st ?r0") (auto simp: DurableSave_def)
  then have s: "SaveCommand jv d now st ?r0 = (Return (), d', st')" by (cases res) (auto simp: lift_store_def)
  have st: "stamp now 0 0 = (now, now + CommandIdempotencyTTL)" by (simp add: stamp_def)
  have v: "validCommandIdempotencyRecord jv ?row" using s by (simp add: SaveCommand_def st Let_def split: if_splits)
  obtain m where "insert_row (hi_PrincipalID a |\<in>| dd_users d) ci_CommandID (sint (now + CommandIdempotencyTTL) > sint now) (dd_commands d)
      (hi_PrincipalID a, key) ?row = Return m" "d' = d\<lparr>dd_commands := m\<rparr>"
    using s v by (auto simp: SaveCommand_def st Let_def split: if_splits outcome.splits)
  then have "fmlookup (dd_commands d') (hi_PrincipalID a, key) = Some ?row" by (auto simp: insert_row_def split: if_splits)
  then show ?thesis using that [of r ca ?row] r ca k v by simp
qed

lemma geid_nonneg: "(w :: uint64) \<le> max_geid \<Longrightarrow> 0 \<le> sint w"
proof -
  assume "w \<le> max_geid"
  then have "uint w \<le> 9223372036854775807" by (simp add: max_geid_def word_le_def)
  moreover have "- 9223372036854775808 \<le> uint w" by (rule order_trans [of _ 0]) simp_all
  ultimately have "sint w = uint w" unfolding sint_uint by (intro signed_take_bit_int_eq_self) simp_all
  then show ?thesis by simp
qed

lemma DurableLookup_row:
  assumes row: "live_row ci_ExpiresAt (dd_commands d) (hi_PrincipalID b, key) now = Some row" and v: "validCommandIdempotencyRecord jv row"
    and k: "IdempotencyKeyValid key" "validateStreamEpoch epoch = Return ()" "\<not> length (rs_key s) < 32" "sint (hi_PrincipalID b) > 0"
    and cb: "canonicalHTTPCommandIdentity env b = Return cb"
  shows "DurableLookup env s d now b key epoch =
    Some (finish_lookup (ci_Endpoint row = commandEndpoint b \<and> equalHexDigest (ci_RequestHMAC row) (hex_string (ie_mac env (rs_key s) cb)))
      (canonicalCommandResultFromRecord env row) epoch)"
proof -
  have "0 \<le> sint (ci_GEID row)" using v by (simp add: validCommandIdempotencyRecord_def geid_nonneg)
  then have "LookupCommand d now (hi_PrincipalID b) key = Return row" using row k by (simp add: LookupCommand_def)
  then show ?thesis using k cb by (simp add: DurableLookup_def Sum_def sum_of_def outcome_bind_def)
qed

text \<open>C12. A completed command is replayed, not repeated: once a result has been saved under a retry key, then for the 24 hours of its
  window, whatever is admitted, saved or pruned meanwhile, the same command with that key gets exactly the saved canonical result (with the
  checkpoint and cursor only if the stream epoch is still the same, otherwise a request to synchronize), and a command of that principal whose
  endpoint or digest differs gets a mismatch.\<close>

theorem durable_replay:
  assumes json: "json_stable env" and saved: "DurableSave env jv s d now st a key result = (Return (), d', st')"
    and run: "(durable_step limit)\<^sup>*\<^sup>* d' d''" and window: "sint limit \<le> sint (now + CommandIdempotencyTTL)" "sint t < sint limit"
    and epoch: "validateStreamEpoch epoch = Return ()"
  shows "\<exists>r ca. canonicalizeCommandResult env result = Return r \<and> canonicalHTTPCommandIdentity env a = Return ca \<and>
    (\<forall>b. same_command env a b \<longrightarrow> DurableLookup env s d'' t b key epoch = Some (Return (replay_of r epoch))) \<and>
    (\<forall>b cb. canonicalHTTPCommandIdentity env b = Return cb \<and> hi_PrincipalID b = hi_PrincipalID a \<and>
       (commandEndpoint b \<noteq> commandEndpoint a \<or> ie_mac env (rs_key s) cb \<noteq> ie_mac env (rs_key s) ca) \<longrightarrow>
       DurableLookup env s d'' t b key epoch = Some (Fail (DIdentity ErrIdempotencyMismatch)))"
proof -
  obtain r ca row where r: "canonicalizeCommandResult env result = Return r" and ca: "canonicalHTTPCommandIdentity env a = Return ca"
    and k: "IdempotencyKeyValid key" "\<not> length (rs_key s) < 32" and v: "validCommandIdempotencyRecord jv row"
    and at: "fmlookup (dd_commands d') (hi_PrincipalID a, key) = Some row"
    and row: "row = \<lparr>ci_PrincipalID = hi_PrincipalID a, ci_IdempotencyKey = key, ci_Endpoint = commandEndpoint a,
       ci_RequestHMAC = hex_string (ie_mac env (rs_key s) ca), ci_CommandID = rr_CommandID r, ci_Status = rr_Status r, ci_ResultBody = rr_Body r,
       ci_Headers = rr_Headers r, ci_StreamEpoch = cp_StreamEpoch (rr_Checkpoint r), ci_GEID = cp_GEID (rr_Checkpoint r),
       ci_StateCursor = rr_StateCursor r, ci_CreatedAt = now, ci_ExpiresAt = now + CommandIdempotencyTTL\<rparr>"
    by (rule DurableSave_Return [OF saved])
  have "fmlookup (dd_commands d'') (hi_PrincipalID a, key) = Some row" by (rule durable_run_keeps [OF run at]) (simp add: row window(1))
  then have live: "live_row ci_ExpiresAt (dd_commands d'') (hi_PrincipalID a, key) t = Some row" using window by (simp add: live_row_def row)
  have pos: "sint (hi_PrincipalID a) > 0" using v by (simp add: validCommandIdempotencyRecord_def row)
  have res: "canonicalCommandResultFromRecord env row = Return r"
    using canonicalize_again [OF json r] by (simp add: canonicalCommandResultFromRecord_def row result_eta)
  have look: "DurableLookup env s d'' t b key epoch =
      Some (finish_lookup (commandEndpoint a = commandEndpoint b \<and> ie_mac env (rs_key s) ca = ie_mac env (rs_key s) cb) (Return r) epoch)"
    if "canonicalHTTPCommandIdentity env b = Return cb" "hi_PrincipalID b = hi_PrincipalID a" for b cb
    using DurableLookup_row [OF live [folded that(2)] v k(1) epoch k(2) _ that(1)] pos that(2) res by (simp add: row)
  have "DurableLookup env s d'' t b key epoch = Some (Return (replay_of r epoch))" if "same_command env a b" for b
    using look [OF canonicalHTTP_same [OF ca that]] that by (simp add: same_command_def commandEndpoint_def finish_lookup_def)
  moreover have "DurableLookup env s d'' t b key epoch = Some (Fail (DIdentity ErrIdempotencyMismatch))"
    if "canonicalHTTPCommandIdentity env b = Return cb" "hi_PrincipalID b = hi_PrincipalID a"
      "commandEndpoint b \<noteq> commandEndpoint a \<or> ie_mac env (rs_key s) cb \<noteq> ie_mac env (rs_key s) ca" for b cb
    using look [OF that(1,2)] that(3) by (auto simp: finish_lookup_def)
  ultimately show ?thesis using r ca by blast
qed

subsection \<open>Capacity\<close>

text \<open>A transaction reserves one slot and fills at most one: the store refuses a second save.\<close>

lemma gm_len_delete: "gm_len (delete_expired f m now) \<le> gm_len m"
  unfolding delete_expired_def by (rule gm_len_filter_le)

lemma prune_count: "CountDurableIdempotency (prune_tables d now) \<le> CountDurableIdempotency d"
  unfolding CountDurableIdempotency_def prune_tables_def by (simp add: add_mono gm_len_delete)

lemma Admit_count:
  assumes "Admit d now st = (Return (), d', st')"
  shows "CountDurableIdempotency d' < MaxCommandIdempotencyRecords" "st' = st\<lparr>is_admitted := True\<rparr>" "\<not> is_saved st"
  using assms by (auto simp: Admit_def admitDurableIdempotency_def Let_def split: if_splits)

lemma insert_row_len: "insert_row p c q m k r = Return m' \<Longrightarrow> gm_len m' = Suc (gm_len m)"
  by (auto simp: insert_row_def golen split: if_splits)

lemma save_count:
  "CountDurableIdempotency (fst (snd (SaveCommand jv d now st r))) \<le> Suc (CountDurableIdempotency d)"
  "CountDurableIdempotency (fst (snd (SaveRegistration jv d now st g))) \<le> Suc (CountDurableIdempotency d)"
  "CountDurableIdempotency (fst (snd (SaveActivation jv d now st a))) \<le> Suc (CountDurableIdempotency d)"
  by (auto simp: SaveCommand_def SaveRegistration_def SaveActivation_def CountDurableIdempotency_def Let_def insert_row_len split: outcome.splits)

inductive durable_tx :: "durable_db \<Rightarrow> durable_db \<Rightarrow> bool" where
  prune: "durable_tx d (snd (Prune d now))"
| full: "Admit d now st = (Fail e, d', st') \<Longrightarrow> durable_tx d d'"
| command: "Admit d now st = (Return (), d', st') \<Longrightarrow> durable_tx d (fst (snd (SaveCommand jv d' now' st' r)))"
| registration: "Admit d now st = (Return (), d', st') \<Longrightarrow> durable_tx d (fst (snd (SaveRegistration jv d' now' st' g)))"
| activation: "Admit d now st = (Return (), d', st') \<Longrightarrow> durable_tx d (fst (snd (SaveActivation jv d' now' st' a)))"

lemma durable_tx_count:
  assumes "durable_tx d d'" "CountDurableIdempotency d \<le> MaxCommandIdempotencyRecords"
  shows "CountDurableIdempotency d' \<le> MaxCommandIdempotencyRecords"
  using assms
proof (induction rule: durable_tx.induct)
  case (prune d now)
  then show ?case using prune_count [of d now] by (simp add: Prune_def)
next
  case (full d now st e d' st')
  then show ?case using prune_count [of d now] by (auto simp: Admit_def admitDurableIdempotency_def Let_def split: if_splits)
next
  case (command d now st d' st' jv now' r)
  then show ?case using Admit_count(1) [OF command(1)] save_count(1) [of jv d' now' st' r] by linarith
next
  case (registration d now st d' st' jv now' g)
  then show ?case using Admit_count(1) [OF registration(1)] save_count(2) [of jv d' now' st' g] by linarith
next
  case (activation d now st d' st' jv now' a)
  then show ?case using Admit_count(1) [OF activation(1)] save_count(3) [of jv d' now' st' a] by linarith
qed

lemma second_save_refused: "SaveCommand jv d now st r = (Return (), d', st') \<Longrightarrow> fst (SaveCommand jv d' now' st' r') = Fail ErrCommandIdempotencyAdmission"
  by (auto simp: SaveCommand_def save_guard_def Let_def split: if_splits outcome.splits)

subsection \<open>Examples\<close>

definition durable_env :: identity_env where
  "durable_env = example_env\<lparr>ie_json := (\<lambda>s. if s = [] then None else if s = ''{ }'' then Some ''{}'' else Some s), ie_mac := (\<lambda>k m. replicate 32 (of_nat (length m)))\<rparr>"

lemma durable_json_stable: "json_stable durable_env"
  by (auto simp: json_stable_def durable_env_def split: if_splits)

lemma length_hex_string [simp]: "length (hex_string bs) = 2 * length bs"
  by (induction bs) auto

definition example_result :: CanonicalCommandResult where
  "example_result = \<lparr>rr_CommandID = 11, rr_Status = 200, rr_Body = ''{ }'', rr_Headers = no_headers,
     rr_Checkpoint = \<lparr>cp_StreamEpoch = replicate 32 (CHR ''a''), cp_GEID = 4\<rparr>, rr_StateCursor = ''c''\<rparr>"

definition example_db :: durable_db where
  "example_db = \<lparr>dd_users = {|7|}, dd_installations = {||}, dd_commands = fmempty, dd_activations = fmempty, dd_registrations = fmempty\<rparr>"

definition example_signer :: RequestIdentitySigner where "example_signer = \<lparr>rs_key = replicate 32 (CHR ''k'')\<rparr>"
definition example_key :: string where "example_key = replicate 16 (CHR ''a'')"

lemma durable_canonical: "\<exists>c. canonicalHTTPCommandIdentity durable_env example_identity = Return c"
  by (simp add: canonicalHTTPCommandIdentity_def example_identity_def durable_env_def route_invalid_def ToUpper_def to_upper_char_def ascii_lower_def
      hasControlCharacters_def canonicalJSONValue_def canonicalFields_def canonicalPreconditionHeaders_def validHTTPHeaderName_def header_char_def
      sort_by_def outcome_bind_def example_mime)

lemma example_epoch: "validateStreamEpoch (replicate 32 (CHR ''a'')) = Return ()"
  by (simp add: validateStreamEpoch_def streamEpochBytes_def hex_lower_def list_all_iff)

lemma example_canonicalize: "canonicalizeCommandResult durable_env example_result = Return (example_result\<lparr>rr_Body := ''{}''\<rparr>)"
  using example_epoch
  by (simp add: canonicalizeCommandResult_def example_result_def canonical_body_def canonicalJSONValue_def durable_env_def invalidResourceHeaders_def
      no_headers_def hasControlCharacters_def)

lemma example_save:
  "\<exists>d'. DurableSave durable_env (\<lambda>_. True) example_signer example_db 5 \<lparr>is_transactional = True, is_admitted = True, is_saved = False\<rparr>
     example_identity example_key example_result = (Return (), d', \<lparr>is_transactional = True, is_admitted = True, is_saved = True\<rparr>)"
proof -
  obtain c where c: "canonicalHTTPCommandIdentity durable_env example_identity = Return c" using durable_canonical by blast
  have sum: "Sum durable_env example_signer example_identity = Return (hex_string (ie_mac durable_env (rs_key example_signer) c))"
    using c by (simp add: Sum_def sum_of_def outcome_bind_def example_signer_def)
  have mac: "length (ie_mac durable_env k m) = 32" for k m by (simp add: durable_env_def)
  have key: "IdempotencyKeyValid example_key" by (simp add: IdempotencyKeyValid_def example_key_def ascii_lower_def list_all_iff)
  show ?thesis using sum key mac example_canonicalize
    by (simp add: DurableSave_def SaveCommand_def save_guard_def stamp_def validCommandIdempotencyRecord_def example_identity_def commandEndpoint_def
        hasControlCharacters_def example_result_def installationIdentityPattern_def hex_lower_def CommandIdempotencyTTL_def headers_valid_def
        invalidResourceHeaders_def no_headers_def max_geid_def insert_row_def example_db_def Let_def lift_store_def list_all_iff)
qed

theorem durable_replay_witness:
  "json_stable durable_env \<and>
   (\<exists>d'. DurableSave durable_env (\<lambda>_. True) example_signer example_db 5 \<lparr>is_transactional = True, is_admitted = True, is_saved = False\<rparr>
        example_identity example_key example_result = (Return (), d', \<lparr>is_transactional = True, is_admitted = True, is_saved = True\<rparr>) \<and>
      DurableLookup durable_env example_signer d' 6 example_identity example_key (replicate 32 (CHR ''a'')) =
        Some (Return (replay_of (example_result\<lparr>rr_Body := ''{}''\<rparr>) (replicate 32 (CHR ''a'')))))"
proof -
  obtain d' where d': "DurableSave durable_env (\<lambda>_. True) example_signer example_db 5 \<lparr>is_transactional = True, is_admitted = True, is_saved = False\<rparr>
     example_identity example_key example_result = (Return (), d', \<lparr>is_transactional = True, is_admitted = True, is_saved = True\<rparr>)" using example_save by blast
  have same: "same_command durable_env example_identity example_identity"
    by (simp add: same_command_def example_identity_def validHTTPHeaderName_def header_char_def ascii_lower_def ascii_upper_def ascii_digit_def)
  have "sint (7 :: int64) \<le> sint (5 + CommandIdempotencyTTL)" "sint (6 :: int64) < sint (7 :: int64)" by (simp_all add: CommandIdempotencyTTL_def)
  from durable_replay [OF durable_json_stable d' rtranclp.rtrancl_refl this example_epoch] same example_canonicalize
  show ?thesis using d' durable_json_stable by auto
qed

end
