(* ===== verification/AdminCommand.thy ===== *)
theory AdminCommand
  imports RoleView Sequencer Durable
begin

text \<open>
  Role administration as sequenced commands, \<^verbatim>\<open>internal/rbac/control/sequencer.go\<close> and \<^verbatim>\<open>events.go\<close>: the events of a committed
  change, and \<^verbatim>\<open>runMutation\<close>, which runs one mutation of \<open>RoleAdmin\<close> in a database transaction, builds the candidate version from the
  transaction's own view, reserves the publication, stores the durable result of a retryable request and commits.  The body of
  \<^verbatim>\<open>Execute\<close> is computed against the sequencer it runs in (\<open>Sequencer\<close>): the calls it makes on its execution, how it ends, and the
  tables it leaves.  Parameters: the JSON texts of payloads and bodies, the codecs of the components it uses, the outcome of the
  transaction's commit, and the hook \<^verbatim>\<open>VoiceAccessLossPreparation\<close>, which the assembly installs: it may extend the candidate and
  returns events and the outcome of the staged runtime transition.  The installed hook is \<^verbatim>\<open>PrepareVoiceAccessLoss\<close> of
  \<^verbatim>\<open>internal/channel/voice.go\<close>, part of the channel service, which changes only the runtime half of the candidate (\<open>hook_ok\<close>).  A commit that
  returns an error is taken to have left the tables unchanged: SQLite rolls the transaction back.  A failing \<^verbatim>\<open>BeginTx\<close> is not modelled.
\<close>

section \<open>Definitions\<close>

subsection \<open>Events\<close>

record stateScope =
  ssc_Type :: string
  ssc_ID :: string

definition stateScopeFrom :: "Scope \<Rightarrow> stateScope" where
  "stateScopeFrom s = (if sc_Type s = ''server'' then \<lparr>ssc_Type = ''server'', ssc_ID = []\<rparr> else \<lparr>ssc_Type = sc_Type s, ssc_ID = FormatInt (sc_ID s)\<rparr>)"

datatype admin_payload = PayRole SnapshotRole | PayRoleDeleted string | PayInvalidation stateScope string | PayTransfer string string
  | PayMuteRemoved stateScope string | PaySelf SnapshotSelf

definition plain_template :: "string \<Rightarrow> Scope \<Rightarrow> string \<Rightarrow> StateEventTemplate" where
  "plain_template eventType scope data =
     \<lparr>tp_EventType = eventType, tp_Scope = scope, tp_CausationID = 0, tp_Data = Some data, tp_DeliveryPolicy = StateDeliveryUnset, tp_VisibleBeforeUserIDs = [],
      tp_RecipientUserID = 0, tp_SubjectUserID = 0, tp_CursorVisibilityEpoch = 0, tp_HasCursorVisibilityEpoch = False\<rparr>"

definition event_of :: "(admin_payload \<Rightarrow> string option) \<Rightarrow> string \<Rightarrow> Scope \<Rightarrow> admin_payload \<Rightarrow> StateEventTemplate option" where
  "event_of marshal eventType scope payload = map_option (plain_template eventType scope) (marshal payload)"

definition moderationMuteRemovedData :: "Scope \<Rightarrow> uint64 \<Rightarrow> admin_payload" where
  "moderationMuteRemovedData scope epoch = PayMuteRemoved (stateScopeFrom scope) (FormatUint epoch)"

definition uniqueScopes :: "Scope list \<Rightarrow> Scope list" where
  "uniqueScopes scopes = rev (remdups (rev scopes))"

definition snapshotRoleOf :: "Role \<Rightarrow> SnapshotRole" where
  "snapshotRoleOf r = \<lparr>sr_Key = role_Key r, sr_DisplayName = role_DisplayName r, sr_Rank = role_Rank r, sr_Builtin = role_Builtin r\<rparr>"

definition change_events :: "(admin_payload \<Rightarrow> string option) \<Rightarrow> StateChange \<Rightarrow> StateVersion \<Rightarrow> StateEventTemplate list option" where
  "change_events marshal c v =
     (let scope = (if ScopeValid (sg_Scope c) then sg_Scope c else server_scope);
          invalidation = (\<lambda>s. PayInvalidation (stateScopeFrom s) (FormatUint (sv_number v)))
      in if sg_EventType c = ''rbac.role.created'' \<or> sg_EventType c = ''rbac.role.updated''
         then (case RoleOf v (sg_RoleKey c) of None \<Rightarrow> None
               | Some role \<Rightarrow> those [event_of marshal (sg_EventType c) server_scope (PayRole (snapshotRoleOf role))])
         else if sg_EventType c = ''rbac.role.deleted'' then those [event_of marshal (sg_EventType c) server_scope (PayRoleDeleted (sg_RoleKey c))]
         else if sg_EventType c = ''rbac.binding.updated'' \<or> sg_EventType c = ''rbac.config.updated''
         then those [event_of marshal (sg_EventType c) scope (invalidation scope)]
         else if sg_EventType c = ''owner.transferred''
         then (if sint (sg_PreviousOwnerID c) \<le> 0 \<or> sint (sg_NewOwnerID c) \<le> 0 then None
               else those ([event_of marshal ''owner.transferred'' server_scope (PayTransfer (FormatInt (sg_PreviousOwnerID c)) (FormatInt (sg_NewOwnerID c))),
                            event_of marshal ''rbac.binding.updated'' server_scope (invalidation server_scope)] @
                 map (\<lambda>s. event_of marshal ''moderation.mute.removed'' s (moderationMuteRemovedData s (ModerationEpoch v))) (uniqueScopes (sg_ModerationScopes c))))
         else None)"

definition self_event :: "(admin_payload \<Rightarrow> string option) \<Rightarrow> unmarshal \<Rightarrow> StateVersion \<Rightarrow> int64 \<Rightarrow> StateEventTemplate option" where
  "self_event marshal unmarshal v u =
     map_option (\<lambda>t. t\<lparr>tp_DeliveryPolicy := StateDeliveryUserTargeted, tp_RecipientUserID := u\<rparr>)
       (event_of marshal ''self.updated'' server_scope (PaySelf (snapshotSelf unmarshal u v)))"

definition StateEventTemplates :: "(admin_payload \<Rightarrow> string option) \<Rightarrow> unmarshal \<Rightarrow> StateChange \<Rightarrow> StateVersion \<Rightarrow> StateEventTemplate list option" where
  "StateEventTemplates marshal unmarshal c v =
     (case change_events marshal c v of None \<Rightarrow> None
      | Some events \<Rightarrow>
          map_option (\<lambda>selves. events @ selves)
            (those (map (self_event marshal unmarshal v) (filter (\<lambda>u. UserOf v u \<noteq> None) (uniqueUserIDs (sg_UserIDs c))))))"

subsection \<open>Responses\<close>

text \<open>The data of a successful response, and the callbacks that build it from the value of a mutation: each asserts the type of the value it
  is given, and panics on another one.\<close>

datatype response_data = NilData | RoleData db_Role | BindingData db_UserRoleBinding | OwnerTransferData int64 int64 | ConfigData EffectiveConfig

definition newPermissionConfigResponse :: "store_env \<Rightarrow> EffectiveConfig \<Rightarrow> response_data option" where
  "newPermissionConfigResponse se c =
     (if se_unmarshal se (dbp_Config (ec_Source c)) = None then None
      else case ec_Local c of None \<Rightarrow> Some (ConfigData c)
           | Some row \<Rightarrow> if se_unmarshal se (dbp_Config row) = None then None else Some (ConfigData c))"

definition config_response :: "store_env \<Rightarrow> mutation_value \<Rightarrow> ('e, int \<times> response_data \<times> IdempotencyHeaders) outcome" where
  "config_response se value =
     (case value of ConfigValue config etag \<Rightarrow>
        (case newPermissionConfigResponse se config of None \<Rightarrow> Return (500, NilData, no_headers)
         | Some data \<Rightarrow> Return (200, data, no_headers\<lparr>ih_ETag := etag\<rparr>))
      | _ \<Rightarrow> Panic)"

fun mutationResponse :: "store_env \<Rightarrow> int64 \<Rightarrow> request \<Rightarrow> mutation_value \<Rightarrow> ('e, int \<times> response_data \<times> IdempotencyHeaders) outcome" where
  "mutationResponse se actorID (ReqCreateRole _ _ _) value = (case value of RoleValue role \<Rightarrow> Return (201, RoleData role, no_headers) | _ \<Rightarrow> Panic)"
| "mutationResponse se actorID (ReqUpdateRole _ _ _) value = (case value of RoleValue role \<Rightarrow> Return (200, RoleData role, no_headers) | _ \<Rightarrow> Panic)"
| "mutationResponse se actorID (ReqDeleteRole _) value = Return (204, NilData, no_headers)"
| "mutationResponse se actorID (ReqCreateBinding _) value =
     (case value of BindingValue binding created \<Rightarrow> Return (if created then 201 else 200, BindingData binding, no_headers) | _ \<Rightarrow> Panic)"
| "mutationResponse se actorID (ReqDeleteBinding _) value = Return (204, NilData, no_headers)"
| "mutationResponse se actorID (ReqTransferOwner target) value = Return (200, OwnerTransferData actorID target, no_headers)"
| "mutationResponse se actorID (ReqUpdateConfig _ _ _) value = config_response se value"
| "mutationResponse se actorID (ReqResetConfig _ _) value = config_response se value"

subsection \<open>The command\<close>

datatype command_error = CmdAdmin admin_error | CmdDurable durable_error | CmdState state_error | CmdCursor stream_error | CmdSequencer seq_error
  | CmdStateSync | CmdEvents | CmdVoice | CmdBody | CmdMissingChange

record http_command =
  hc_Identity :: HTTPCommandIdentity
  hc_IdempotencyKey :: string

record mutationCompletion =
  mc_value :: mutation_value
  mc_CommandID :: int64
  mc_Cursor :: string
  mc_Checkpoint :: Checkpoint
  mc_Replay :: "DurableReplay option"

record mutation_env =
  mv_request :: request_env
  mv_marshal :: "admin_payload \<Rightarrow> string option"
  mv_body :: "response_data \<Rightarrow> string option"
  mv_identity :: identity_env
  mv_json_valid :: "string \<Rightarrow> bool"
  mv_signer :: RequestIdentitySigner
  mv_codec :: codec
  mv_tag :: tag_function
  mv_digest :: digest_function
  mv_cursors :: "CursorSigner option"
  mv_voice :: "(StateCandidate \<Rightarrow> (StateEventTemplate list \<times> stream_error option \<times> StateCandidate) option) option"

text \<open>The readings of the clock in one run, and the outcome of committing its transaction.\<close>

record command_inputs =
  cn_inputs :: request_inputs
  cn_lookupNow :: int64
  cn_admitNow :: int64
  cn_saveNow :: int64
  cn_reserveNow :: int64
  cn_tx :: tx_outcome

record executed =
  xd_calls :: "exec_call list"
  xd_end :: execute_end
  xd_result :: "(command_error, mutationCompletion) outcome"
  xd_db :: role_db
  xd_durable :: durable_db
  xd_invalidated :: "int64 list"

definition plain_output :: CommandOutput where
  "plain_output = \<lparr>co_Value = 0, co_BeforePublish = None, co_AfterPublish = None\<rparr>"

definition failed_run :: "exec_call list \<Rightarrow> command_error \<Rightarrow> role_db \<Rightarrow> durable_db \<Rightarrow> executed" where
  "failed_run calls err d dd = \<lparr>xd_calls = calls, xd_end = ExecuteFails 0, xd_result = Fail err, xd_db = d, xd_durable = dd, xd_invalidated = []\<rparr>"

definition panicked_run :: "exec_call list \<Rightarrow> role_db \<Rightarrow> durable_db \<Rightarrow> executed" where
  "panicked_run calls d dd = \<lparr>xd_calls = calls, xd_end = ExecutePanics, xd_result = Panic, xd_db = d, xd_durable = dd, xd_invalidated = []\<rparr>"

definition finished_run :: "exec_call list \<Rightarrow> mutationCompletion \<Rightarrow> role_db \<Rightarrow> durable_db \<Rightarrow> int64 list \<Rightarrow> executed" where
  "finished_run calls c d dd us =
     \<lparr>xd_calls = calls, xd_end = ExecuteReturns plain_output, xd_result = Return c, xd_db = d, xd_durable = dd, xd_invalidated = us\<rparr>"

definition replay_completion :: "DurableReplay \<Rightarrow> mutationCompletion" where
  "replay_completion r = \<lparr>mc_value = NoValue, mc_CommandID = 0, mc_Cursor = [], mc_Checkpoint = no_checkpoint, mc_Replay = Some r\<rparr>"

definition IssueStateCursor :: "mutation_env \<Rightarrow> int64 \<Rightarrow> StateVersion \<Rightarrow> (command_error, string) outcome" where
  "IssueStateCursor env userID v =
     (case mv_cursors env of None \<Rightarrow> Fail (CmdAdmin ErrRealtimeUnavailable)
      | Some signer \<Rightarrow>
          if sint userID \<le> 0 \<or> UserOf v userID = None then Fail CmdStateSync
          else case Issue (mv_codec env) (mv_tag env) signer userID (sv_checkpoint v) (VisibilityEpoch v userID) of
                 Return cursor \<Rightarrow> Return cursor | Fail e \<Rightarrow> Fail (CmdCursor e) | Panic \<Rightarrow> Panic)"

definition durableBody :: "mutation_env \<Rightarrow> int \<Rightarrow> response_data \<Rightarrow> (command_error, string) outcome" where
  "durableBody env status data =
     (if status = 204 then Return [] else case mv_body env data of None \<Rightarrow> Fail CmdBody | Some body \<Rightarrow> Return body)"

text \<open>Storing the result of a retryable request: its cursor, its body, and the row of the durable table.\<close>

definition save_result :: "mutation_env \<Rightarrow> command_inputs \<Rightarrow> http_command \<Rightarrow> durable_db \<Rightarrow> IdempotencyStore \<Rightarrow> int64 \<Rightarrow> StateVersion \<Rightarrow> int64 \<Rightarrow> mutation_value \<Rightarrow> request
    \<Rightarrow> (command_error, string \<times> durable_db) outcome" where
  "save_result env cn http dd st commandID v actorID value req =
     outcome_bind (IssueStateCursor env (hi_PrincipalID (hc_Identity http)) v) (\<lambda>cursor.
     outcome_bind (mutationResponse (re_store (mv_request env)) actorID req value) (\<lambda>(status, data, headers).
     outcome_bind (durableBody env status data) (\<lambda>body.
       case DurableSave (mv_identity env) (mv_json_valid env) (mv_signer env) dd (cn_saveNow cn) st (hc_Identity http) (hc_IdempotencyKey http)
           \<lparr>rr_CommandID = commandID, rr_Status = status, rr_Body = body, rr_Headers = headers,
            rr_Checkpoint = sv_checkpoint v, rr_StateCursor = cursor\<rparr> of
         (Return _, dd', _) \<Rightarrow> Return (cursor, dd') | (Fail e, _, _) \<Rightarrow> Fail (CmdDurable e) | (Panic, _, _) \<Rightarrow> Panic)))"

definition completion_of :: "mutation_value \<Rightarrow> int64 \<Rightarrow> string \<Rightarrow> Checkpoint \<Rightarrow> mutationCompletion" where
  "completion_of value commandID cursor checkpoint =
     \<lparr>mc_value = value, mc_CommandID = commandID, mc_Cursor = cursor, mc_Checkpoint = checkpoint, mc_Replay = None\<rparr>"

definition noop_run :: "mutation_env \<Rightarrow> command_inputs \<Rightarrow> http_command option \<Rightarrow> StateVersion \<Rightarrow> role_db \<Rightarrow> role_db \<Rightarrow> durable_db \<Rightarrow> durable_db \<Rightarrow> IdempotencyStore \<Rightarrow> int64
    \<Rightarrow> int64 \<Rightarrow> mutationResult \<Rightarrow> request \<Rightarrow> executed" where
  "noop_run env cn http v d d' dd dd1 st commandID actorID res req =
     (case http of None \<Rightarrow> finished_run [CallMarkNoop] (completion_of (mr_value res) commandID [] no_checkpoint) d dd []
      | Some h \<Rightarrow>
          (case save_result env cn h dd1 st commandID v actorID (mr_value res) req of Fail e \<Rightarrow> failed_run [] e d dd | Panic \<Rightarrow> panicked_run [] d dd
           | Return (cursor, dd2) \<Rightarrow>
               (case cn_tx cn of TxCommitted \<Rightarrow> finished_run [CallCommitNoop TxCommitted] (completion_of (mr_value res) commandID cursor (sv_checkpoint v)) d' dd2 []
                | TxFailed n \<Rightarrow> failed_run [CallCommitNoop (TxFailed n)] (CmdSequencer (CallbackError n)) d dd
                | TxPanicked \<Rightarrow> panicked_run [CallCommitNoop TxPanicked] d dd)))"

text \<open>The publication request of a change, built from the tables the transaction sees.\<close>

definition change_request :: "mutation_env \<Rightarrow> StateVersion \<Rightarrow> role_db \<Rightarrow> StateChange \<Rightarrow> (command_error, PublicationRequest) outcome" where
  "change_request env v d' change =
     (case BuildPersistentCandidateFrom v (Some (Return (Some (loadStateProjection d')))) of Fail e \<Rightarrow> Fail (CmdState e) | Panic \<Rightarrow> Panic
      | Return candidate \<Rightarrow>
          let candidate1 = (if sg_EventType change = ''owner.transferred'' \<and> sg_ModerationScopes change \<noteq> [] then IncrementModerationEpoch candidate else candidate)
          in case StateEventTemplates (mv_marshal env) (js_grants (mv_codec env)) change (sd_version candidate1) of None \<Rightarrow> Fail CmdEvents
             | Some events \<Rightarrow>
                 let request = (\<lambda>c es commit. Return \<lparr>rq_Candidate = Some c, rq_Events = es, rq_VisibilityUserIDs = map usr_ID (Users (sd_version c)),
                       rq_CommitRuntime = commit\<rparr>)
                 in (case mv_voice env of None \<Rightarrow> request candidate1 events None
                     | Some hook \<Rightarrow>
                         (case hook candidate1 of None \<Rightarrow> Fail CmdVoice
                          | Some (voiceEvents, commit, candidate2) \<Rightarrow> request candidate2 (voiceEvents @ events) commit)))"

definition change_run :: "mutation_env \<Rightarrow> command_inputs \<Rightarrow> http_command option \<Rightarrow> PostCommitSequencer \<Rightarrow> role_db \<Rightarrow> role_db \<Rightarrow> durable_db \<Rightarrow> durable_db \<Rightarrow> IdempotencyStore
    \<Rightarrow> int64 \<Rightarrow> int64 \<Rightarrow> mutationResult \<Rightarrow> request \<Rightarrow> executed" where
  "change_run env cn http s d d' dd dd1 st commandID actorID res req =
     (if sg_EventType (mr_change res) = [] then failed_run [] CmdMissingChange d dd
      else case change_request env (pb_state (sq_publication s)) d' (mr_change res) of Fail e \<Rightarrow> failed_run [] e d dd | Panic \<Rightarrow> panicked_run [] d dd
      | Return request \<Rightarrow>
          let reserve = CallReserve (cn_reserveNow cn) request;
              commit = (\<lambda>calls completion dd2.
                case cn_tx cn of TxCommitted \<Rightarrow> finished_run (calls @ [CallCommit TxCommitted]) completion d' dd2 (sg_UserIDs (mr_change res))
                | TxFailed n \<Rightarrow> failed_run (calls @ [CallCommit (TxFailed n)]) (CmdSequencer (CallbackError n)) d dd
                | TxPanicked \<Rightarrow> panicked_run (calls @ [CallCommit TxPanicked]) d dd)
          in case ReserveExecution (mv_codec env) (mv_digest env) (cn_reserveNow cn) s (new_execution\<lparr>ex_commandID := commandID\<rparr>) request of
               None \<Rightarrow> panicked_run [reserve] d dd
             | Some (Fail e, _, _) \<Rightarrow> failed_run [reserve] (CmdSequencer e) d dd
             | Some (Panic, _, _) \<Rightarrow> panicked_run [reserve] d dd
             | Some (Return rsv, _, _) \<Rightarrow>
                 (case http of None \<Rightarrow> commit [reserve] (completion_of (mr_value res) commandID [] no_checkpoint) dd
                  | Some h \<Rightarrow>
                      (case save_result env cn h dd1 st commandID (rs_Version rsv) actorID (mr_value res) req of
                         Fail e \<Rightarrow> failed_run [reserve, CallReservedResult] e d dd
                       | Panic \<Rightarrow> panicked_run [reserve, CallReservedResult] d dd
                       | Return (cursor, dd2) \<Rightarrow> commit [reserve, CallReservedResult] (completion_of (mr_value res) commandID cursor (rs_Checkpoint rsv)) dd2)))"

definition transaction_store :: IdempotencyStore where
  "transaction_store = \<lparr>is_transactional = True, is_admitted = False, is_saved = False\<rparr>"

text \<open>The body of \<^verbatim>\<open>Execute\<close>: replay, admission, mutation, and the two ways to finish.\<close>

definition execute_mutation :: "mutation_env \<Rightarrow> command_inputs \<Rightarrow> http_command option \<Rightarrow> PostCommitSequencer \<Rightarrow> int64 \<Rightarrow> role_db \<Rightarrow> durable_db \<Rightarrow> int64 \<Rightarrow> request \<Rightarrow> executed" where
  "execute_mutation env cn http s commandID d dd actorID req =
     (let v = pb_state (sq_publication s);
          looked = (case http of None \<Rightarrow> None
            | Some h \<Rightarrow> DurableLookup (mv_identity env) (mv_signer env) dd (cn_lookupNow cn) (hc_Identity h) (hc_IdempotencyKey h) (cp_StreamEpoch (sv_checkpoint v)))
      in case looked of
           Some (Return replay) \<Rightarrow> finished_run [CallMarkNoop] (replay_completion replay) d dd []
         | Some (Fail e) \<Rightarrow>
             if e = DIdentity ErrIdempotencyMismatch then finished_run [CallMarkNoop] (replay_completion IdempotencyMismatchReplay) d dd []
             else failed_run [] (CmdDurable e) d dd
         | Some Panic \<Rightarrow> panicked_run [] d dd
         | None \<Rightarrow>
             (case (case http of None \<Rightarrow> (Return (), dd, transaction_store) | Some _ \<Rightarrow> Admit dd (cn_admitNow cn) transaction_store) of
                (Fail e, _, _) \<Rightarrow> failed_run [] (CmdDurable (DStore e)) d dd
              | (Panic, _, _) \<Rightarrow> panicked_run [] d dd
              | (Return _, dd1, st) \<Rightarrow>
                  (case mutate (mv_request env) ((cn_inputs cn)\<lparr>ri_version := Some v\<rparr>) d actorID req of
                     Fail e \<Rightarrow> failed_run [] (CmdAdmin e) d dd
                   | Panic \<Rightarrow> panicked_run [] d dd
                   | Return (res, d') \<Rightarrow>
                       if mr_noop res then noop_run env cn http v d d' dd dd1 st commandID actorID res req
                       else change_run env cn http s d d' dd dd1 st commandID actorID res req)))"

text \<open>The command \<^verbatim>\<open>runMutation\<close> submits; \<open>acquired\<close> is the outcome of taking the mutation gate.\<close>

definition admin_command :: "executed \<Rightarrow> acquire_outcome \<Rightarrow> nat \<Rightarrow> queuedCommand" where
  "admin_command x acquired i =
     \<lparr>qc_id = i, qc_command = \<lparr>pc_QueueBytes = 1, pc_CommandID = 0, pc_Acquire = Some acquired, pc_calls = xd_calls x, pc_end = xd_end x\<rparr>\<rparr>"

definition mutation_admissible :: "mutation_env \<Rightarrow> http_command option \<Rightarrow> bool" where
  "mutation_admissible env http = (case http of None \<Rightarrow> True | Some h \<Rightarrow> mv_cursors env \<noteq> None \<and> \<not> sint (hi_PrincipalID (hc_Identity h)) \<le> 0)"

text \<open>What \<^verbatim>\<open>runMutation\<close> returns once its command has been executed.\<close>

definition completed_result :: "mutationCompletion \<Rightarrow> CommandCompletion \<Rightarrow> mutationCompletion" where
  "completed_result m c =
     (if cp_StreamEpoch (mc_Checkpoint m) \<noteq> [] then m
      else case cc_Publication c of None \<Rightarrow> m | Some p \<Rightarrow> m\<lparr>mc_Checkpoint := rs_Checkpoint p\<rparr>)"

text \<open>The whole of \<^verbatim>\<open>runMutation\<close>, from the point where its command is the one the worker executes.  The tables are those the command's
  transaction leaves; a command that is not started leaves them alone.  The error of \<^verbatim>\<open>Execute\<close> is passed through the sequencer.\<close>

record admin_input =
  an_env :: command_env
  an_acquire :: acquire_outcome
  an_inputs :: command_inputs
  an_http :: "http_command option"
  an_actor :: int64
  an_request :: request
  an_id :: nat

record admin_state =
  aw_db :: role_db
  aw_durable :: durable_db
  aw_seq :: PostCommitSequencer

definition command_result :: "(seq_error, CommandCompletion) outcome \<Rightarrow> executed \<Rightarrow> (command_error, mutationCompletion) outcome" where
  "command_result reply x =
     (case reply of
        Return c \<Rightarrow> (case xd_result x of Return m \<Rightarrow> Return (completed_result m c) | r \<Rightarrow> r)
      | Fail e \<Rightarrow> (case xd_result x of Fail err \<Rightarrow> if e = CallbackError 0 then Fail err else Fail (CmdSequencer e) | _ \<Rightarrow> Fail (CmdSequencer e))
      | Panic \<Rightarrow> Panic)"

definition runMutation :: "mutation_env \<Rightarrow> admin_input \<Rightarrow> admin_state \<Rightarrow> ((command_error, mutationCompletion) outcome \<times> admin_state) option" where
  "runMutation env a w =
     (if \<not> mutation_admissible env (an_http a) then Some (Fail (CmdAdmin ErrRealtimeUnavailable), w)
      else let s = aw_seq w;
               idle = panicked_run [] (aw_db w) (aw_durable w);
               x = (case ce_nextID (an_env a) of None \<Rightarrow> idle
                    | Some commandID \<Rightarrow> execute_mutation env (an_inputs a) (an_http a) s commandID (aw_db w) (aw_durable w) (an_actor a) (an_request a));
               q = admin_command x (an_acquire a) (an_id a)
           in map_option (\<lambda>(reply, s').
                if sq_failure s = None \<and> ce_nextID (an_env a) \<noteq> None \<and> command_started (an_env a) (qc_command q)
                then (command_result reply x, \<lparr>aw_db = xd_db x, aw_durable = xd_durable x, aw_seq = s'\<rparr>)
                else (command_result reply idle, w\<lparr>aw_seq := s'\<rparr>))
              (executeAndReply (mv_codec env) (mv_tag env) (mv_digest env) (an_env a) s q))"

section \<open>Theorems\<close>

subsection \<open>One command\<close>

text \<open>The database and the published version agree: loading the tables gives the persistent part of the version.\<close>

definition in_sync :: "role_db \<Rightarrow> PostCommitSequencer \<Rightarrow> bool" where
  "in_sync d s \<longleftrightarrow> newPersistentState (Some (loadStateProjection d)) = Return (sv_persistent (pb_state (sq_publication s)))"

text \<open>What is asked of the hook: it may stage runtime changes, but leaves the persistent part of the candidate alone.\<close>

definition hook_ok :: "mutation_env \<Rightarrow> bool" where
  "hook_ok env \<longleftrightarrow> (\<forall>hook c es commit c'. mv_voice env = Some hook \<longrightarrow> hook c = Some (es, commit, c') \<longrightarrow> sv_persistent (sd_version c') = sv_persistent (sd_version c))"

lemma mutate_noop:
  assumes "mutate re ri d actorID req = Return (res, d')" "mr_noop res"
  shows "d' = d"
  using assms
  by (cases req) (auto simp: CreateRole_def UpdateRole_def DeleteRole_def CreateBinding_def DeleteBinding_def TransferOwner_def UpdateConfig_def ResetConfig_def
    config_changed_def changed_def unchanged_def outcome_bind_Return Let_def split: if_splits option.splits prod.splits outcome.splits)

lemma change_request_persistent:
  assumes "change_request env v d' change = Return request" "hook_ok env"
  obtains c where "rq_Candidate request = Some c" "newPersistentState (Some (loadStateProjection d')) = Return (sv_persistent (sd_version c))"
proof -
  from assms(1) obtain c0 where c0: "BuildPersistentCandidateFrom v (Some (Return (Some (loadStateProjection d')))) = Return c0"
    by (auto simp: change_request_def split: outcome.splits)
  then have base: "newPersistentState (Some (loadStateProjection d')) = Return (sv_persistent (sd_version c0))"
    by (auto simp: BuildPersistentCandidateFrom_def outcome_bind_Return Let_def)
  define c1 where "c1 = (if sg_EventType change = ''owner.transferred'' \<and> sg_ModerationScopes change \<noteq> [] then IncrementModerationEpoch c0 else c0)"
  have c1: "sv_persistent (sd_version c1) = sv_persistent (sd_version c0)" by (simp add: c1_def IncrementModerationEpoch_def upd_runtime_def)
  from assms(1) c0 obtain c where "rq_Candidate request = Some c" "c = c1 \<or> (\<exists>hook es commit. mv_voice env = Some hook \<and> hook c1 = Some (es, commit, c))"
    by (auto simp: change_request_def Let_def c1_def [symmetric] split: option.splits)
  moreover from this(2) have "sv_persistent (sd_version c) = sv_persistent (sd_version c1)" using assms(2) unfolding hook_ok_def by blast
  ultimately show thesis using that base c1 by metis
qed

lemma publish_state:
  assumes "publish js hmac canceled commit p result = (None, p')"
  shows "pb_state p' = rs_Version result"
  using assms by (auto simp: publish_def Let_def split: if_splits option.splits outcome.splits prod.splits)

text \<open>The answer to a started command, from the calls its body makes.\<close>

definition answer :: "bool \<Rightarrow> exec_result \<Rightarrow> (seq_error, CommandCompletion) outcome \<times> PostCommitSequencer" where
  "answer panics = (\<lambda>x. case recovered (released panics x) of (r, s') \<Rightarrow> (r, signalProgress s'))"

lemma answer_started:
  assumes "sq_failure s = None" "\<not> ce_startCanceled ce" "ce_nextID ce = Some commandID"
  shows "executeAndReply (mv_codec env) (mv_tag env) (mv_digest env) ce s (admin_command x (Acquired panics) i) =
    map_option (answer panics)
      (execute_phase (mv_codec env) (mv_tag env) (mv_digest env) ce s (new_execution\<lparr>ex_commandID := commandID\<rparr>) (qc_command (admin_command x (Acquired panics) i)))"
  using assms by (simp add: executeAndReply_def execute_def identified_phase_def command_id_def admin_command_def option.map_comp comp_def answer_def)

text \<open>The answers that end a command well or with an ordinary error; every other answer fails the sequencer.\<close>

definition reserves :: "executed \<Rightarrow> bool" where
  "reserves x \<longleftrightarrow> (\<exists>now request. CallReserve now request \<in> set (xd_calls x))"

definition published_by :: "PostCommitSequencer \<Rightarrow> executed \<Rightarrow> PostCommitSequencer \<Rightarrow> bool" where
  "published_by s x s' \<longleftrightarrow>
     (if reserves x then sv_number (pb_state (sq_publication s')) = sv_number (pb_state (sq_publication s)) + 1 else sq_publication s' = sq_publication s)"

definition answered :: "PostCommitSequencer \<Rightarrow> executed \<Rightarrow> (seq_error, CommandCompletion) outcome \<times> PostCommitSequencer \<Rightarrow> bool" where
  "answered s x = (\<lambda>(r, s'). sq_failure s' \<noteq> None \<or> (\<not> sq_lock s' \<and> in_sync (xd_db x) s' \<and>
     (case xd_result x of Return m \<Rightarrow> (\<exists>c. r = Return c) \<and> published_by s x s' | Fail e \<Rightarrow> r = Fail (CallbackError 0) \<and> sq_publication s' = sq_publication s | Panic \<Rightarrow> False)))"

lemma answer_failed: "sq_failure s1 \<noteq> None \<Longrightarrow> answered s x (answer panics (r, s1, e1))"
  by (auto simp: answered_def answer_def recovered_def released_def signalProgress_def fail_sequencer_def abort_execution_def AbortReservation_def Let_def
    split: outcome.splits option.splits if_splits prod.splits)

lemma answer_panic: "answered s x (answer panics (Panic, s1, e1))"
  by (auto simp: answered_def answer_def recovered_def released_def signalProgress_def fail_sequencer_def split: outcome.splits)

lemma answer_ordinary:
  assumes "\<not> panics \<longrightarrow> \<not> sq_lock s1 \<and> in_sync (xd_db x) s1 \<and>
     (case xd_result x of Return m \<Rightarrow> (\<exists>c. r = Return c) \<and> published_by s x s1 | Fail e \<Rightarrow> r = Fail (CallbackError 0) \<and> sq_publication s1 = sq_publication s | Panic \<Rightarrow> False)"
  shows "answered s x (answer panics (r, s1, e1))"
proof (cases panics)
  case True
  then show ?thesis using answer_panic [of s x False s1 e1] by (simp add: answer_def released_def)
next
  case False
  then have "r \<noteq> Panic" using assms by (auto split: outcome.splits)
  then show ?thesis using assms False by (cases r) (auto simp: answered_def answer_def recovered_def released_def signalProgress_def in_sync_def published_by_def split: outcome.splits)
qed

definition body_answered :: "mutation_env \<Rightarrow> command_env \<Rightarrow> PostCommitSequencer \<Rightarrow> int64 \<Rightarrow> bool \<Rightarrow> nat \<Rightarrow> executed \<Rightarrow> bool" where
  "body_answered env ce s commandID panics i x \<longleftrightarrow>
     (\<exists>y. execute_phase (mv_codec env) (mv_tag env) (mv_digest env) ce s (new_execution\<lparr>ex_commandID := commandID\<rparr>) (qc_command (admin_command x (Acquired panics) i)) = Some y \<and>
        answered s x (answer panics y))"

lemma calls_not_persistent:
  assumes "exec_calls js sha256 s e calls = Some (b, s1, e1)" "CallCommit TxCommitted \<notin> set calls" "\<not> ex_persistent e"
  shows "\<not> ex_persistent e1"
  using assms
proof (induction calls arbitrary: s e)
  case (Cons call calls)
  from Cons.prems(1) obtain b' s' e' where step: "exec_call js sha256 s e call = Some (b', s', e')" by (auto split: option.splits)
  have "\<not> ex_persistent e'"
    using step Cons.prems(2,3) by (cases call) (auto simp: exec_call_def ReserveExecution_def CommitExecution_def CommitNoop_def MarkRuntimeReady_def MarkNoop_def Let_def
      split: if_splits option.splits outcome.splits tx_outcome.splits)
  then show ?case using Cons step by (cases b') auto
qed simp

lemma new_exec_ok: "\<not> sq_lock s \<Longrightarrow> exec_ok js sha256 (sq_publication s) [] False (sq_lock s) (new_execution\<lparr>ex_commandID := i\<rparr>)"
  by (simp add: exec_ok_def new_execution_def)

lemma failed_answered:
  assumes "\<not> sq_lock s" "in_sync d s" "CallCommit TxCommitted \<notin> set calls"
  shows "body_answered env ce s commandID panics i (failed_run calls err d dd)"
proof -
  from new_exec_ok [OF assms(1)] obtain b l e where run:
    "exec_calls (mv_codec env) (mv_digest env) s (new_execution\<lparr>ex_commandID := commandID\<rparr>) calls = Some (b, s\<lparr>sq_lock := l\<rparr>, e)"
    and ok: "exec_ok (mv_codec env) (mv_digest env) (sq_publication s) ([] @ calls) b l e" by (rule exec_calls_ok)
  have np: "\<not> ex_persistent e" using calls_not_persistent [OF run assms(3)] by (simp add: new_execution_def)
  show ?thesis
  proof (cases b)
    case True
    then show ?thesis using run answer_panic by (simp add: body_answered_def execute_phase_def admin_command_def failed_run_def)
  next
    case False
    obtain s1 e1 where ab: "abort_execution (s\<lparr>sq_lock := l\<rparr>) e = (s1, e1)" by (cases "abort_execution (s\<lparr>sq_lock := l\<rparr>) e")
    then have "\<not> sq_lock s1" "sq_publication s1 = sq_publication s"
      using ok False by (auto simp: abort_execution_def AbortReservation_def exec_ok_def Let_def split: option.splits if_splits prod.splits)
    moreover from this assms(2) have "in_sync d s1" by (simp add: in_sync_def)
    ultimately have "answered s (failed_run calls err d dd) (answer panics (Fail (CallbackError 0), s1, e1))"
      by (intro answer_ordinary) (simp add: failed_run_def)
    then show ?thesis using run False np ab by (simp add: body_answered_def execute_phase_def admin_command_def failed_run_def aborted_def)
  qed
qed

lemma panicked_answered:
  assumes "\<not> sq_lock s"
  shows "body_answered env ce s commandID panics i (panicked_run calls d dd)"
proof -
  from new_exec_ok [OF assms] obtain b l e where
    "exec_calls (mv_codec env) (mv_digest env) s (new_execution\<lparr>ex_commandID := commandID\<rparr>) calls = Some (b, s\<lparr>sq_lock := l\<rparr>, e)" by (rule exec_calls_ok)
  then show ?thesis using answer_panic by (cases b) (simp_all add: body_answered_def execute_phase_def admin_command_def panicked_run_def)
qed

lemma noop_answered:
  assumes "\<not> sq_lock s" "in_sync d s" "calls = [CallMarkNoop] \<or> calls = [CallCommitNoop TxCommitted]"
  shows "body_answered env ce s commandID panics i (finished_run calls m d dd us)"
proof -
  have "answered s (finished_run calls m d dd us)
      (answer panics (Return \<lparr>cc_CommandID = commandID, cc_Publication = None, cc_Value = 0\<rparr>, s, new_execution\<lparr>ex_commandID := commandID, ex_noop := True\<rparr>))"
    using assms by (intro answer_ordinary) (auto simp: finished_run_def published_by_def reserves_def)
  then show ?thesis using assms(3)
    by (auto simp: body_answered_def execute_phase_def admin_command_def finished_run_def plain_output_def exec_call_def MarkNoop_def CommitNoop_def new_execution_def complete_phase_def Let_def)
qed

lemma change_answered:
  assumes "\<not> sq_lock s" "reserveLocked (mv_codec env) (mv_digest env) now (sq_publication s) (with_causation commandID request) = Return rsv"
    and "newPersistentState (Some (loadStateProjection d')) = Return (sv_persistent (rs_Version rsv))"
    and "mid = [] \<or> mid = [CallReservedResult]"
  shows "body_answered env ce s commandID panics i (finished_run ((CallReserve now request # mid) @ [CallCommit TxCommitted]) m d' dd us)" (is "body_answered env ce s commandID panics i ?x")
proof -
  define e where "e = new_execution\<lparr>ex_commandID := commandID, ex_persistent := True,
    ex_reservation := Some \<lparr>rv_result = rsv, rv_runtimeCommit = rq_CommitRuntime request, rv_completed = False\<rparr>\<rparr>"
  have run: "execute_phase (mv_codec env) (mv_tag env) (mv_digest env) ce s (new_execution\<lparr>ex_commandID := commandID\<rparr>) (qc_command (admin_command ?x (Acquired panics) i)) =
      Some (complete_phase (mv_codec env) (mv_tag env) ce (s\<lparr>sq_lock := True\<rparr>) e plain_output)"
    using assms(1,2,4) by (auto simp: execute_phase_def admin_command_def finished_run_def exec_call_def ReserveExecution_def ReservedResult_def CommitExecution_def new_execution_def e_def Let_def)
  obtain err p where pub: "publish (mv_codec env) (mv_tag env) False (rq_CommitRuntime request) (sq_publication s) rsv = (err, p)" by force
  show ?thesis
  proof (cases err)
    case None
    then have "in_sync d' (s\<lparr>sq_publication := p, sq_lock := False\<rparr>)" using publish_state [OF pub [unfolded None]] assms(3) by (simp add: in_sync_def)
    then have "answered s ?x (answer panics (Return \<lparr>cc_CommandID = commandID, cc_Publication = Some rsv, cc_Value = 0\<rparr>, s\<lparr>sq_publication := p, sq_lock := False\<rparr>, e'))" for e'
      using publish_state [OF pub [unfolded None]] reserve_reserved [OF assms(2)]
      by (intro answer_ordinary) (auto simp: finished_run_def published_by_def reserves_def reserved_def)
    then show ?thesis unfolding body_answered_def run
      by (simp add: complete_phase_def publish_phase_def publish_reservation_def e_def new_execution_def plain_output_def Let_def pub None)
  next
    case (Some x)
    then show ?thesis unfolding body_answered_def run
      by (simp add: complete_phase_def publish_phase_def publish_reservation_def e_def new_execution_def plain_output_def Let_def pub fatal_def)
        (intro answer_failed, simp add: fail_sequencer_def)
  qed
qed

lemma noop_run_answered:
  assumes "mutate re ri d a r = Return (res, d')" "mr_noop res" "\<not> sq_lock s" "in_sync d s"
  shows "body_answered env ce s commandID panics i (noop_run env cn http v d d' dd dd1 st cid actorID res req)"
  unfolding mutate_noop [OF assms(1,2)] using assms(3,4) by (auto simp: noop_run_def split: option.splits outcome.splits tx_outcome.splits intro!: noop_answered failed_answered panicked_answered)

lemma change_run_answered:
  assumes "\<not> sq_lock s" "in_sync d s" "hook_ok env"
  shows "body_answered env ce s commandID panics i (change_run env cn http s d d' dd dd1 st commandID actorID res req)"
proof (cases "sg_EventType (mr_change res) = []")
  case True
  then show ?thesis using assms by (simp add: change_run_def failed_answered)
next
  case False
  show ?thesis
  proof (cases "change_request env (pb_state (sq_publication s)) d' (mr_change res)")
    case (Return request)
    let ?reserve = "reserveLocked (mv_codec env) (mv_digest env) (cn_reserveNow cn) (sq_publication s) (with_causation commandID request)"
    have ans: "body_answered env ce s commandID panics i (finished_run ((CallReserve (cn_reserveNow cn) request # mid) @ [CallCommit TxCommitted]) m d' dd2 us)"
      if "?reserve = Return rsv" "mid = [] \<or> mid = [CallReservedResult]" for rsv mid m dd2 us
    proof (rule change_answered [OF assms(1) that(1) _ that(2)])
      from Return assms(3) obtain c where "rq_Candidate request = Some c" "newPersistentState (Some (loadStateProjection d')) = Return (sv_persistent (sd_version c))"
        by (rule change_request_persistent)
      then show "newPersistentState (Some (loadStateProjection d')) = Return (sv_persistent (rs_Version rsv))"
        using reserve_reserved [OF that(1)] by (auto simp: reserved_def with_causation_def)
    qed
    have "body_answered env ce s commandID panics i (finished_run [CallReserve (cn_reserveNow cn) request, CallCommit TxCommitted] m d' dd2 us)"
      "body_answered env ce s commandID panics i (finished_run [CallReserve (cn_reserveNow cn) request, CallReservedResult, CallCommit TxCommitted] m d' dd2 us)"
      if "?reserve = Return rsv" for rsv m dd2 us
      using ans [OF that, of "[]"] ans [OF that, of "[CallReservedResult]"] by simp_all
    then show ?thesis using False Return assms(1,2)
      by (auto simp: change_run_def ReserveExecution_def new_execution_def Let_def split: outcome.splits option.splits tx_outcome.splits intro!: failed_answered panicked_answered)
  qed (use False assms in \<open>simp_all add: change_run_def failed_answered panicked_answered\<close>)
qed

text \<open>A result is a replay that changed nothing, or the value of the mutation whose tables are the ones left behind.\<close>

definition result_of :: "mutation_env \<Rightarrow> command_inputs \<Rightarrow> StateVersion \<Rightarrow> role_db \<Rightarrow> durable_db \<Rightarrow> int64 \<Rightarrow> request \<Rightarrow> executed \<Rightarrow> mutationCompletion \<Rightarrow> bool" where
  "result_of env cn v d dd actorID req x m \<longleftrightarrow>
     (mc_Replay m \<noteq> None \<and> \<not> reserves x \<and> xd_db x = d \<and> xd_durable x = dd) \<or>
     (\<exists>res. mutate (mv_request env) ((cn_inputs cn)\<lparr>ri_version := Some v\<rparr>) d actorID req = Return (res, xd_db x) \<and> mc_Replay m = None \<and>
        mc_value m = mr_value res \<and> reserves x = (\<not> mr_noop res))"

lemma noop_result:
  assumes "xd_result (noop_run env cn http v' d d' dd dd1 st commandID actorID res req) = Return m" "mr_noop res"
    and "mutate (mv_request env) ((cn_inputs cn)\<lparr>ri_version := Some v\<rparr>) d actorID req = Return (res, d')"
  shows "result_of env cn v d dd actorID req (noop_run env cn http v' d d' dd dd1 st commandID actorID res req) m"
  using assms(1,2,3) unfolding mutate_noop [OF assms(3,2)]
  by (auto simp: result_of_def noop_run_def finished_run_def failed_run_def panicked_run_def completion_of_def reserves_def split: option.splits outcome.splits prod.splits tx_outcome.splits)

lemma change_result:
  assumes "xd_result (change_run env cn http s d d' dd dd1 st commandID actorID res req) = Return m" "\<not> mr_noop res"
    and "mutate (mv_request env) ((cn_inputs cn)\<lparr>ri_version := Some v\<rparr>) d actorID req = Return (res, d')"
  shows "result_of env cn v d dd actorID req (change_run env cn http s d d' dd dd1 st commandID actorID res req) m"
  using assms
  by (auto simp: result_of_def change_run_def finished_run_def failed_run_def panicked_run_def completion_of_def reserves_def Let_def
    split: option.splits outcome.splits prod.splits tx_outcome.splits if_splits)

lemma execute_shape:
  fixes env cn http s commandID d dd actorID req
  defines "x \<equiv> execute_mutation env cn http s commandID d dd actorID req" and "v \<equiv> pb_state (sq_publication s)"
  shows "(\<exists>r. x = finished_run [CallMarkNoop] (replay_completion r) d dd []) \<or> (\<exists>err. x = failed_run [] err d dd) \<or> x = panicked_run [] d dd \<or>
     (\<exists>res d' dd1 st. mutate (mv_request env) ((cn_inputs cn)\<lparr>ri_version := Some v\<rparr>) d actorID req = Return (res, d') \<and>
        x = (if mr_noop res then noop_run env cn http v d d' dd dd1 st commandID actorID res req else change_run env cn http s d d' dd dd1 st commandID actorID res req))"
proof -
  define looked where "looked = (case http of None \<Rightarrow> None
    | Some h \<Rightarrow> DurableLookup (mv_identity env) (mv_signer env) dd (cn_lookupNow cn) (hc_Identity h) (hc_IdempotencyKey h) (cp_StreamEpoch (sv_checkpoint v)))"
  obtain a dd1 st where adm: "(case http of None \<Rightarrow> (Return (), dd, transaction_store) | Some _ \<Rightarrow> Admit dd (cn_admitNow cn) transaction_store) = (a, dd1, st)"
    by (rule prod_cases3)
  note run = x_def [unfolded execute_mutation_def Let_def, folded v_def, folded looked_def, unfolded adm]
  show ?thesis
  proof (cases looked)
    case None
    note run = run [unfolded None option.case]
    show ?thesis
    proof (cases a)
      case (Return u)
      note run = run [unfolded Return prod.case outcome.case]
      show ?thesis
      proof (cases "mutate (mv_request env) ((cn_inputs cn)\<lparr>ri_version := Some v\<rparr>) d actorID req")
        case (Return y)
        obtain res d' where y: "y = (res, d')" by force
        note run = run [unfolded Return y prod.case outcome.case]
        show ?thesis using Return y run by blast
      qed (use run in auto)
    qed (use run in auto)
  next
    case (Some r)
    then show ?thesis using run by (cases r) auto
  qed
qed

lemma execute_cases:
  obtains (replay) r where "execute_mutation env cn http s commandID d dd actorID req = finished_run [CallMarkNoop] (replay_completion r) d dd []"
  | (failed) err where "execute_mutation env cn http s commandID d dd actorID req = failed_run [] err d dd"
  | (panicked) "execute_mutation env cn http s commandID d dd actorID req = panicked_run [] d dd"
  | (noop) res d' dd1 st where
      "mutate (mv_request env) ((cn_inputs cn)\<lparr>ri_version := Some (pb_state (sq_publication s))\<rparr>) d actorID req = Return (res, d')" "mr_noop res"
      "execute_mutation env cn http s commandID d dd actorID req = noop_run env cn http (pb_state (sq_publication s)) d d' dd dd1 st commandID actorID res req"
  | (change) res d' dd1 st where
      "mutate (mv_request env) ((cn_inputs cn)\<lparr>ri_version := Some (pb_state (sq_publication s))\<rparr>) d actorID req = Return (res, d')" "\<not> mr_noop res"
      "execute_mutation env cn http s commandID d dd actorID req = change_run env cn http s d d' dd dd1 st commandID actorID res req"
  using execute_shape [of env cn http s commandID d dd actorID req] by (metis (full_types))

lemma execute_result:
  assumes "xd_result (execute_mutation env cn http s commandID d dd actorID req) = Return m"
  shows "result_of env cn (pb_state (sq_publication s)) d dd actorID req (execute_mutation env cn http s commandID d dd actorID req) m"
proof (cases rule: execute_cases [of env cn http s commandID d dd actorID req])
  case (replay r)
  then show ?thesis using assms by (auto simp: result_of_def finished_run_def replay_completion_def reserves_def)
next
  case (noop res d' dd1 st)
  show ?thesis unfolding noop(3) by (rule noop_result [OF _ noop(2,1)]) (use assms noop(3) in simp)
next
  case (change res d' dd1 st)
  show ?thesis unfolding change(3) by (rule change_result [OF _ change(2,1)]) (use assms change(3) in simp)
qed (use assms in \<open>auto simp: failed_run_def panicked_run_def\<close>)

lemma execute_rollback:
  assumes "xd_result (execute_mutation env cn http s commandID d dd actorID req) = Fail err"
  shows "xd_db (execute_mutation env cn http s commandID d dd actorID req) = d \<and> xd_durable (execute_mutation env cn http s commandID d dd actorID req) = dd"
proof (cases rule: execute_cases [of env cn http s commandID d dd actorID req])
  case (noop res d' dd1 st)
  then show ?thesis using assms by (auto simp: noop_run_def failed_run_def finished_run_def panicked_run_def split: option.splits outcome.splits prod.splits tx_outcome.splits)
next
  case (change res d' dd1 st)
  then show ?thesis using assms by (auto simp: change_run_def failed_run_def finished_run_def panicked_run_def Let_def split: option.splits outcome.splits prod.splits tx_outcome.splits if_splits)
qed (use assms in \<open>auto simp: failed_run_def finished_run_def panicked_run_def\<close>)

lemma execute_answered:
  assumes "\<not> sq_lock s" "in_sync d s" "hook_ok env"
  shows "body_answered env ce s commandID panics i (execute_mutation env cn http s commandID d dd actorID req)"
proof (cases rule: execute_cases [of env cn http s commandID d dd actorID req])
  case (noop res d' dd1 st)
  then show ?thesis using noop_run_answered [OF noop(1,2) assms(1,2)] by simp
next
  case (change res d' dd1 st)
  then show ?thesis using change_run_answered [OF assms] by simp
qed (use assms in \<open>simp_all add: noop_answered failed_answered panicked_answered\<close>)

subsection \<open>Any sequence of commands\<close>

text \<open>Unless the sequencer has failed, no publication is under way and the published version shows what the tables hold.\<close>

definition coherent :: "admin_state \<Rightarrow> bool" where
  "coherent w \<longleftrightarrow> sq_failure (aw_seq w) \<noteq> None \<or> (\<not> sq_lock (aw_seq w) \<and> in_sync (aw_db w) (aw_seq w))"

lemma not_started:
  assumes "sq_failure s = None" "ce_nextID ce = None \<or> \<not> command_started ce (qc_command (admin_command x acquired i))"
  shows "\<exists>e s'. executeAndReply js hmac sha256 ce s (admin_command x acquired i) = Some (Fail e, s') \<and>
    (sq_failure s' \<noteq> None \<or> (sq_lock s' = sq_lock s \<and> sq_publication s' = sq_publication s))"
  using assms
  by (cases acquired; cases "ce_startCanceled ce"; cases "ce_nextID ce"; cases "case acquired of Acquired panics \<Rightarrow> panics | _ \<Rightarrow> False")
    (simp_all add: executeAndReply_def execute_def command_started_def admin_command_def identified_phase_def command_id_def recovered_def released_def signalProgress_def
      new_execution_def abort_execution_def fail_sequencer_def)

text \<open>What a returned value says about the state left behind.\<close>

definition committed_result :: "mutation_env \<Rightarrow> admin_input \<Rightarrow> admin_state \<Rightarrow> mutationCompletion \<Rightarrow> admin_state \<Rightarrow> bool" where
  "committed_result env a w m w' \<longleftrightarrow>
     (let v = pb_state (sq_publication (aw_seq w)); p = sq_publication (aw_seq w)
      in (mc_Replay m \<noteq> None \<and> aw_db w' = aw_db w \<and> aw_durable w' = aw_durable w \<and> sq_publication (aw_seq w') = p) \<or>
         (mc_Replay m = None \<and> (\<exists>res. mutate (mv_request env) ((cn_inputs (an_inputs a))\<lparr>ri_version := Some v\<rparr>) (aw_db w) (an_actor a) (an_request a) = Return (res, aw_db w') \<and>
            mc_value m = mr_value res \<and>
            (if mr_noop res then sq_publication (aw_seq w') = p else sv_number (pb_state (sq_publication (aw_seq w'))) = sv_number v + 1))))"

lemma completed_result_simps [simp]: "mc_Replay (completed_result m c) = mc_Replay m" "mc_value (completed_result m c) = mc_value m"
  by (simp_all add: completed_result_def split: option.splits)

lemma committed_resultI:
  assumes "result_of env (an_inputs a) (pb_state (sq_publication (aw_seq w))) (aw_db w) (aw_durable w) (an_actor a) (an_request a) x m" "published_by (aw_seq w) x s'"
  shows "committed_result env a w (completed_result m c) \<lparr>aw_db = xd_db x, aw_durable = xd_durable x, aw_seq = s'\<rparr>"
  using assms(1) unfolding result_of_def
proof
  assume "\<exists>res. mutate (mv_request env) ((cn_inputs (an_inputs a))\<lparr>ri_version := Some (pb_state (sq_publication (aw_seq w)))\<rparr>) (aw_db w) (an_actor a) (an_request a) =
      Return (res, xd_db x) \<and> mc_Replay m = None \<and> mc_value m = mr_value res \<and> reserves x = (\<not> mr_noop res)"
  then obtain res where "mutate (mv_request env) ((cn_inputs (an_inputs a))\<lparr>ri_version := Some (pb_state (sq_publication (aw_seq w)))\<rparr>) (aw_db w) (an_actor a) (an_request a) =
      Return (res, xd_db x)" "mc_Replay m = None" "mc_value m = mr_value res" "reserves x = (\<not> mr_noop res)" by blast
  then show ?thesis using assms(2) unfolding committed_result_def Let_def
    by (intro disjI2 conjI exI [of _ res]) (simp_all add: published_by_def)
qed (use assms(2) in \<open>simp add: committed_result_def published_by_def\<close>)

lemma runMutation_started:
  assumes "mutation_admissible env (an_http a)" "sq_failure (aw_seq w) = None" "ce_nextID (an_env a) = Some commandID" "\<not> ce_startCanceled (an_env a)"
    "an_acquire a = Acquired panics"
    "x = execute_mutation env (an_inputs a) (an_http a) (aw_seq w) commandID (aw_db w) (aw_durable w) (an_actor a) (an_request a)"
    "executeAndReply (mv_codec env) (mv_tag env) (mv_digest env) (an_env a) (aw_seq w) (admin_command x (Acquired panics) (an_id a)) = Some (reply, s')"
  shows "runMutation env a w = Some (command_result reply x, \<lparr>aw_db = xd_db x, aw_durable = xd_durable x, aw_seq = s'\<rparr>)"
proof -
  have "command_started (an_env a) (qc_command (admin_command x (Acquired panics) (an_id a)))" using assms(4) by (simp add: command_started_def admin_command_def)
  then show ?thesis unfolding runMutation_def Let_def assms(3,5) option.case assms(6) [symmetric] assms(7) option.map prod.case using assms(1,2) by simp
qed

lemma started_outcome:
  assumes hook: "hook_ok env" and free: "\<not> sq_lock (aw_seq w)" "in_sync (aw_db w) (aw_seq w)" "sq_failure (aw_seq w) = None"
    and id: "ce_nextID (an_env a) = Some commandID" and ok: "mutation_admissible env (an_http a)"
    and start: "\<not> ce_startCanceled (an_env a)" "an_acquire a = Acquired panics"
  obtains r w' where "runMutation env a w = Some (r, w')" "coherent w'"
    "sq_failure (aw_seq w') = None \<Longrightarrow> case r of Return m \<Rightarrow> committed_result env a w m w'
       | _ \<Rightarrow> aw_db w' = aw_db w \<and> aw_durable w' = aw_durable w \<and> sq_publication (aw_seq w') = sq_publication (aw_seq w)"
proof -
  let ?s = "aw_seq w"
  define x where "x = execute_mutation env (an_inputs a) (an_http a) ?s commandID (aw_db w) (aw_durable w) (an_actor a) (an_request a)"
  from execute_answered [OF free(1,2) hook] obtain y where y:
    "execute_phase (mv_codec env) (mv_tag env) (mv_digest env) (an_env a) ?s (new_execution\<lparr>ex_commandID := commandID\<rparr>) (qc_command (admin_command x (Acquired panics) (an_id a))) = Some y"
    "answered ?s x (answer panics y)" unfolding body_answered_def x_def by blast
  obtain reply s' where ans: "answer panics y = (reply, s')" by force
  have E: "executeAndReply (mv_codec env) (mv_tag env) (mv_digest env) (an_env a) ?s (admin_command x (Acquired panics) (an_id a)) = Some (reply, s')"
    unfolding answer_started [OF free(3) start(1) id] y(1) option.map ans ..
  have run: "runMutation env a w = Some (command_result reply x, \<lparr>aw_db = xd_db x, aw_durable = xd_durable x, aw_seq = s'\<rparr>)"
    by (rule runMutation_started [OF ok free(3) id start x_def E])
  have good: "sq_failure s' \<noteq> None \<or> (\<not> sq_lock s' \<and> in_sync (xd_db x) s' \<and>
     (case xd_result x of Return m \<Rightarrow> (\<exists>c. reply = Return c) \<and> published_by ?s x s' | Fail e \<Rightarrow> reply = Fail (CallbackError 0) \<and> sq_publication s' = sq_publication ?s | Panic \<Rightarrow> False))"
    using y(2) ans by (simp add: answered_def)
  show thesis
  proof (rule that [OF run])
    show "coherent \<lparr>aw_db = xd_db x, aw_durable = xd_durable x, aw_seq = s'\<rparr>" using good by (auto simp: coherent_def)
    assume "sq_failure (aw_seq \<lparr>aw_db = xd_db x, aw_durable = xd_durable x, aw_seq = s'\<rparr>) = None"
    with good have g: "case xd_result x of Return m \<Rightarrow> (\<exists>c. reply = Return c) \<and> published_by ?s x s' | Fail e \<Rightarrow> reply = Fail (CallbackError 0) \<and> sq_publication s' = sq_publication ?s
        | Panic \<Rightarrow> False" by simp
    show "case command_result reply x of Return m \<Rightarrow> committed_result env a w m \<lparr>aw_db = xd_db x, aw_durable = xd_durable x, aw_seq = s'\<rparr>
       | _ \<Rightarrow> aw_db \<lparr>aw_db = xd_db x, aw_durable = xd_durable x, aw_seq = s'\<rparr> = aw_db w \<and> aw_durable \<lparr>aw_db = xd_db x, aw_durable = xd_durable x, aw_seq = s'\<rparr> = aw_durable w \<and>
           sq_publication (aw_seq \<lparr>aw_db = xd_db x, aw_durable = xd_durable x, aw_seq = s'\<rparr>) = sq_publication ?s"
    proof (cases "xd_result x")
      case (Return m)
      then obtain c where c: "reply = Return c" "published_by ?s x s'" using g by auto
      have "result_of env (an_inputs a) (pb_state (sq_publication ?s)) (aw_db w) (aw_durable w) (an_actor a) (an_request a) x m"
        unfolding x_def by (rule execute_result) (use Return in \<open>simp add: x_def\<close>)
      from committed_resultI [OF this c(2)] show ?thesis using Return c(1) by (simp add: command_result_def)
    next
      case (Fail e)
      then have "xd_db x = aw_db w \<and> xd_durable x = aw_durable w" unfolding x_def by (rule execute_rollback)
      then show ?thesis using Fail g by (simp add: command_result_def)
    qed (use g in simp)
  qed
qed

lemma runMutation_idle:
  assumes "mutation_admissible env (an_http a)" "sq_failure (aw_seq w) = None" "coherent w"
    "ce_nextID (an_env a) = None \<or> \<not> (\<not> ce_startCanceled (an_env a) \<and> (\<exists>p. an_acquire a = Acquired p))"
  shows "\<exists>r w'. runMutation env a w = Some (Fail r, w') \<and> coherent w' \<and>
    (sq_failure (aw_seq w') = None \<longrightarrow> aw_db w' = aw_db w \<and> aw_durable w' = aw_durable w \<and> sq_publication (aw_seq w') = sq_publication (aw_seq w))"
proof -
  define idle where "idle = panicked_run [] (aw_db w) (aw_durable w)"
  define x where "x = (case ce_nextID (an_env a) of None \<Rightarrow> idle
    | Some commandID \<Rightarrow> execute_mutation env (an_inputs a) (an_http a) (aw_seq w) commandID (aw_db w) (aw_durable w) (an_actor a) (an_request a))"
  have off: "ce_nextID (an_env a) = None \<or> \<not> command_started (an_env a) (qc_command (admin_command x (an_acquire a) (an_id a)))"
    using assms(4) by (auto simp: command_started_def admin_command_def split: acquire_outcome.splits)
  from not_started [OF assms(2) off] obtain e s' where
    E: "executeAndReply (mv_codec env) (mv_tag env) (mv_digest env) (an_env a) (aw_seq w) (admin_command x (an_acquire a) (an_id a)) = Some (Fail e, s')"
    and s': "sq_failure s' \<noteq> None \<or> (sq_lock s' = sq_lock (aw_seq w) \<and> sq_publication s' = sq_publication (aw_seq w))" by blast
  have run: "runMutation env a w = Some (command_result (Fail e) idle, w\<lparr>aw_seq := s'\<rparr>)"
    unfolding runMutation_def Let_def idle_def [symmetric] x_def [symmetric] E option.map prod.case using assms(1,2) off by auto
  have "command_result (Fail e) idle = Fail (CmdSequencer e)" by (simp add: command_result_def idle_def panicked_run_def)
  moreover have "coherent (w\<lparr>aw_seq := s'\<rparr>)" using s' assms(2,3) by (auto simp: coherent_def in_sync_def)
  ultimately show ?thesis using run s' by auto
qed

text \<open>C4. Administrative commands are atomic and keep the published state in step with the database.  Whatever request is sent, by whomever, a call of
  \<^verbatim>\<open>runMutation\<close> ends; unless the sequencer fails, the persistent part of the published version is afterwards again exactly what loading
  the tables gives, and no publication is left half done.  A returned value is either a replay, with nothing changed, or the value of
  the mutation whose tables were committed, published as the next version unless it was a no-op; an error leaves the role tables, the durable results and the publication as they were.\<close>

theorem admin_command_atomic:
  assumes "hook_ok env" "coherent w"
  shows "\<exists>r w'. runMutation env a w = Some (r, w') \<and> coherent w' \<and>
    (sq_failure (aw_seq w') = None \<longrightarrow>
      (case r of Return m \<Rightarrow> committed_result env a w m w'
       | _ \<Rightarrow> aw_db w' = aw_db w \<and> aw_durable w' = aw_durable w \<and> sq_publication (aw_seq w') = sq_publication (aw_seq w)))"
proof -
  consider (refused) "\<not> mutation_admissible env (an_http a)" | (failed) failure where "mutation_admissible env (an_http a)" "sq_failure (aw_seq w) = Some failure"
    | (idle) "mutation_admissible env (an_http a)" "sq_failure (aw_seq w) = None" "ce_nextID (an_env a) = None \<or> \<not> (\<not> ce_startCanceled (an_env a) \<and> (\<exists>p. an_acquire a = Acquired p))"
    | (run) commandID panics where "mutation_admissible env (an_http a)" "sq_failure (aw_seq w) = None" "ce_nextID (an_env a) = Some commandID" "\<not> ce_startCanceled (an_env a)"
        "an_acquire a = Acquired panics" by (cases "sq_failure (aw_seq w)"; cases "ce_nextID (an_env a)") blast+
  then show ?thesis
  proof cases
    case refused
    then show ?thesis using assms(2) by (simp add: runMutation_def)
  next
    case failed
    then show ?thesis by (simp add: runMutation_def executeAndReply_def coherent_def Let_def)
  next
    case idle
    from runMutation_idle [OF idle(1,2) assms(2) idle(3)] obtain e w' where "runMutation env a w = Some (Fail e, w')" "coherent w'"
      "sq_failure (aw_seq w') = None \<longrightarrow> aw_db w' = aw_db w \<and> aw_durable w' = aw_durable w \<and> sq_publication (aw_seq w') = sq_publication (aw_seq w)" by (elim exE conjE)
    then show ?thesis by (intro exI [of _ "Fail e"] exI [of _ w']) simp
  next
    case run
    then have "\<not> sq_lock (aw_seq w)" "in_sync (aw_db w) (aw_seq w)" using assms(2) by (auto simp: coherent_def)
    from assms(1) this run(2,3,1,4,5) show ?thesis by (rule started_outcome) iprover
  qed
qed

definition command_example_env :: mutation_env where
  "command_example_env = \<lparr>mv_request = example_request_env, mv_marshal = (\<lambda>_. Some ''{}''), mv_body = (\<lambda>_. Some ''{}''), mv_identity = durable_env,
     mv_json_valid = (\<lambda>_. True), mv_signer = example_signer, mv_codec = example_codec, mv_tag = example_tag, mv_digest = (\<lambda>_. []), mv_cursors = None, mv_voice = None\<rparr>"

definition command_example_state :: admin_state where
  "command_example_state = \<lparr>aw_db = RoleAdmin.example_db, aw_durable = \<lparr>dd_users = fempty, dd_installations = fempty, dd_commands = fmempty, dd_activations = fmempty, dd_registrations = fmempty\<rparr>,
     aw_seq = NewPostCommitSequencer \<lparr>pb_state = example_published, pb_ring = \<lparr>rg_events = [], rg_bytes = 0, rg_highWater = 0, rg_maxEvents = MaxStateRingEntries, rg_maxBytes = MaxStateRingBytes\<rparr>, pb_eventBus = None\<rparr>\<rparr>"

definition command_example_input :: admin_input where
  "command_example_input = \<lparr>an_env = quiet_env\<lparr>ce_nextID := Some 9\<rparr>, an_acquire = Acquired False,
     an_inputs = \<lparr>cn_inputs = example_inputs, cn_lookupNow = 5, cn_admitNow = 5, cn_saveNow = 5, cn_reserveNow = 5, cn_tx = TxCommitted\<rparr>,
     an_http = None, an_actor = 2, an_request = bind_member, an_id = 0\<rparr>"

lemma command_example_runs:
  "case runMutation command_example_env command_example_input command_example_state of
     Some (Return m, w') \<Rightarrow> sq_failure (aw_seq w') = None \<and> sv_number (pb_state (sq_publication (aw_seq w'))) = 1 | _ \<Rightarrow> False"
  by code_simp

lemma command_example_start: "hook_ok command_example_env" "coherent command_example_state"
proof -
  show "hook_ok command_example_env" by (simp add: hook_ok_def command_example_env_def)
  have "in_sync (aw_db command_example_state) (aw_seq command_example_state)"
    using example_view_loads by (simp add: in_sync_def command_example_state_def NewPostCommitSequencer_def)
  then show "coherent command_example_state" by (simp add: coherent_def command_example_state_def NewPostCommitSequencer_def)
qed

theorem admin_command_atomic_witness:
  "hook_ok command_example_env \<and> coherent command_example_state \<and>
   (\<exists>m w'. runMutation command_example_env command_example_input command_example_state = Some (Return m, w') \<and> coherent w' \<and>
      committed_result command_example_env command_example_input command_example_state m w' \<and> sv_number (pb_state (sq_publication (aw_seq w'))) = 1)"
proof -
  let ?r = "runMutation command_example_env command_example_input command_example_state"
  obtain r w' where run: "?r = Some (r, w')" and ok: "coherent w'"
    and out: "sq_failure (aw_seq w') = None \<longrightarrow> (case r of Return m \<Rightarrow> committed_result command_example_env command_example_input command_example_state m w'
       | _ \<Rightarrow> aw_db w' = aw_db command_example_state \<and> aw_durable w' = aw_durable command_example_state \<and>
             sq_publication (aw_seq w') = sq_publication (aw_seq command_example_state))"
    using admin_command_atomic [OF command_example_start, of command_example_input] by (elim exE conjE)
  from command_example_runs [unfolded run] obtain m where "r = Return m" "sq_failure (aw_seq w') = None" "sv_number (pb_state (sq_publication (aw_seq w'))) = 1"
    by (cases r) simp_all
  then show ?thesis using run ok out command_example_start by (intro conjI exI [of _ m] exI [of _ w']) simp_all
qed

end
