(* ===== verification/Spec2Isabelle.thy ===== *)
theory Spec2Isabelle
  imports Udp RelayCore Snowflake Cache Delivery Lifecycle Gates Timer RuntimeIdem AdminCommand
begin

text \<open>
  A model of the ZephyrVox community server (Go, module \<^verbatim>\<open>src/\<close>) and the properties that make its core
  correct.  The server has two planes.  The voice plane receives encrypted datagrams, admits them, and
  relays frames to the other members of a voice channel.  The control plane keeps one immutable state
  projection, publishes every change as numbered events, and delivers to each connected user exactly
  the events that user may see.

  \<^bold>\<open>Theories and the code they model\<close> (paths under \<^verbatim>\<open>src/internal\<close>)

  \<^item> \<open>Prelude\<close>: words, big-endian bytes, IEEE doubles, Go time, Go maps, the \<open>outcome\<close> type (a value, an
    error, or a panic).  \<open>Text\<close>: decimal and hexadecimal text of \<^verbatim>\<open>strconv\<close> and \<^verbatim>\<open>encoding/hex\<close>, sorting.
  \<^item> \<open>Packet\<close>: \<^verbatim>\<open>protocol/packet.go\<close>, \<^verbatim>\<open>protocol/crypto.go\<close>.  \<open>Replay\<close>: \<^verbatim>\<open>protocol/replay.go\<close>.
    \<open>RateLimit\<close>: \<^verbatim>\<open>protocol/ratelimit.go\<close>.  \<open>Ingress\<close>: \<^verbatim>\<open>protocol/ingress.go\<close> and
    \<^verbatim>\<open>realtime/upgrade_limiter.go\<close>.  \<open>Session\<close>: \<^verbatim>\<open>protocol/session.go\<close>.  \<open>Registry\<close>: \<^verbatim>\<open>protocol/channel.go\<close>.
    \<open>Udp\<close>: \<^verbatim>\<open>protocol/udp.go\<close>.
  \<^item> \<open>RelayQueue\<close>: \<^verbatim>\<open>relay/queue.go\<close>.  \<open>RelayLoad\<close>: \<^verbatim>\<open>relay/load.go\<close>.  \<open>RelayCore\<close>: \<^verbatim>\<open>relay/relay.go\<close>,
    \<^verbatim>\<open>relay/admission.go\<close>.
  \<^item> \<open>Snowflake\<close>: \<^verbatim>\<open>snowflake/snowflake.go\<close>.  \<open>Cache\<close>: \<^verbatim>\<open>cache/cache.go\<close>.
  \<^item> \<open>StateStore\<close>: \<^verbatim>\<open>realtime/state.go\<close> with the rows of \<^verbatim>\<open>db/models.go\<close>.  \<open>Visibility\<close>:
    \<^verbatim>\<open>realtime/visibility.go\<close>.  \<open>Rbac\<close>: \<^verbatim>\<open>rbac/permissions.go\<close>, \<^verbatim>\<open>rbac/rbac.go\<close>, \<^verbatim>\<open>rbac/scope/authorizer.go\<close>.
    \<open>Snapshot\<close>: the recipient view of \<^verbatim>\<open>realtime/sync.go\<close>.
  \<^item> \<open>Ring\<close>: \<^verbatim>\<open>realtime/ring.go\<close>.  \<open>Cursor\<close>: \<^verbatim>\<open>realtime/cursor.go\<close>.  \<open>Lane\<close>: the outbound lanes of
    \<^verbatim>\<open>realtime/websocket.go\<close>.  \<open>EventBus\<close>: \<^verbatim>\<open>realtime/eventbus.go\<close>.  \<open>Publication\<close>, \<open>Commit\<close>:
    \<^verbatim>\<open>realtime/publication.go\<close>.  \<open>Delivery\<close>: the bus, its lanes and the publication together.
  \<^item> \<open>Coordinator\<close>: \<^verbatim>\<open>realtime/connection.go\<close> and the voice part of \<^verbatim>\<open>realtime/relay_gate.go\<close>.  \<open>Gates\<close>: the gate table of
    \<^verbatim>\<open>realtime/relay_gate.go\<close> and \<^verbatim>\<open>realtime/mutation_gate.go\<close>.  \<open>Timer\<close>: \<^verbatim>\<open>realtime/timer.go\<close>.  \<open>Lifecycle\<close>:
    \<^verbatim>\<open>realtime/lifecycle.go\<close>.
  \<^item> \<open>Sequencer\<close>: \<^verbatim>\<open>realtime/sequencer.go\<close>.  \<open>Identity\<close>, \<open>Durable\<close>: \<^verbatim>\<open>realtime/idempotency.go\<close> with the three
    idempotency stores of \<^verbatim>\<open>store/\<close> and \<^verbatim>\<open>db/idempotency.sql.go\<close>.  \<open>RuntimeIdem\<close>: \<^verbatim>\<open>realtime/runtime_idempotency.go\<close>.
  \<^item> \<open>Etag\<close>: \<^verbatim>\<open>realtime/etag.go\<close>.  \<open>RoleStore\<close>: \<^verbatim>\<open>store/role_store.go\<close>, \<^verbatim>\<open>store/config_store.go\<close>,
    \<^verbatim>\<open>store/installation_store.go\<close>, \<^verbatim>\<open>store/state_projection.go\<close> over the queries of \<^verbatim>\<open>db/roles.sql.go\<close> and
    \<^verbatim>\<open>db/configs.sql.go\<close>.  \<open>RoleAdmin\<close>, \<open>RoleView\<close>: \<^verbatim>\<open>rbac/control/service.go\<close>, \<^verbatim>\<open>state_config.go\<close>.
    \<open>AdminCommand\<close>: \<^verbatim>\<open>rbac/control/sequencer.go\<close>, \<^verbatim>\<open>events.go\<close>.

  \<^bold>\<open>How the parts interact.\<close>  An HTTP or WebSocket mutation becomes a command of the sequencer.  Its body runs one database
  transaction (\<open>RoleStore\<close>, \<open>RoleAdmin\<close>), builds a candidate version from the transaction's own view (\<open>StateStore\<close>), reserves the
  publication (\<open>Publication\<close>), stores a durable result for retries (\<open>Identity\<close>, \<open>Durable\<close>) and commits; the sequencer then publishes:
  the ring takes the events (\<open>Ring\<close>), the event bus hands each connection what its user may see (\<open>Visibility\<close>, \<open>EventBus\<close>, \<open>Lane\<close>), and a
  reconnecting client resumes from a signed cursor (\<open>Cursor\<close>).  Connections, presence and voice authority are runtime state
  (\<open>Coordinator\<close>, \<open>Lifecycle\<close>); a voice authority owns a UDP session (\<open>Session\<close>) whose datagrams pass \<open>Udp\<close> and the relay.

  \<^bold>\<open>What is shown.\<close>  Voice plane: nonces are never reused, only authenticated fresh traffic moves a session, removed sessions stay
  dead, the bitmap window refines a window that remembers everything, frames of one stream keep their order through the relay, a fanned-out frame
  reaches only members of the channel and decodes to the original.  State plane: every commit keeps the invariant of
  the published version and its replay log; transitions of visibility end with their completion event; snapshots reveal
  nothing the recipient may not see, and payload waiting for delivery is withdrawn when its scope is revoked; hand-over from replay to live delivery neither loses nor repeats an event; the ring refines an
  append-only log.  Commands: every command ends in one of three ways, queues are served in order, a closed sequencer drains, retries get
  the stored result.  Administration: no coalition raises its own rank, ownership moves only by transfer, the owner role never changes, a configuration never grants
  more than its author holds, and the tables and the published version never diverge.

  \<^bold>\<open>Conventions.\<close>  Machine integers are words of their width; times and clock readings, random bytes, drawn identifiers and the outcome of
  a context check are arguments.  AES-GCM, HKDF, HMAC, SHA-256, JSON and Unicode case mapping are parameters, with the laws a theorem needs
  as named hypotheses.  A Go map is a finite map, a panic the value \<open>Panic\<close>, a call that blocks the value \<open>None\<close>.  Code under a mutex is
  one step; goroutines that interact are steps of a transition relation.  No definition uses fuel: every loop is structural or has a
  termination proof, and the worker loops are step relations with a measure.

  \<^bold>\<open>Not modelled.\<close>  The channel service with its voice part, moderation, authentication, bootstrap and the remaining stores and queries are
  orchestration of the same stores, publication and sequencer that role administration shows in full; HTTP handlers, middleware, configuration,
  certificates, logging, object storage, images and the assembly in \<^verbatim>\<open>cmd/\<close> are I/O around them.  Of the modelled files: socket pumps of
  \<^verbatim>\<open>websocket.go\<close>, the hello exchange of \<^verbatim>\<open>sync.go\<close>, ticker loops, waiting for goroutines to stop, and metrics.
\<close>

section \<open>Definitions\<close>

subsection \<open>The relay on the UDP transport\<close>

text \<open>\<^verbatim>\<open>newApplicationRelay\<close> installs the UDP server as the relay's sender.  The state of the sender is the
  server, the effects it has produced and the number of calls so far; \<open>io n\<close> is what the outside gives the call number \<open>n\<close>: its clock reading and
  whether its socket write succeeds.\<close>

definition udp_sender :: "(nat \<Rightarrow> gotime \<times> bool) \<Rightarrow> (UDPServer \<times> udp_effect list \<times> nat) sender" where
  "udp_sender io = (\<lambda>(srv, es, n) sid ct speaker cs payload.
     case io n of (now, ok) \<Rightarrow>
       (case Send srv sid ct speaker cs payload now ok of (res, es', srv') \<Rightarrow> (res = Return (), (srv', es @ es', Suc n))))"

section \<open>Theorems\<close>

lemma udp_sender_simp:
  "Send srv sid ct speaker cs payload (fst (io n)) (snd (io n)) = (res, es', srv') \<Longrightarrow>
   udp_sender io (srv, es, n) sid ct speaker cs payload = (res = Return (), (srv', es @ es', Suc n))"
  by (simp add: udp_sender_def split_beta)

interpretation udp_media: media_sender "udp_sender io" "\<lambda>(srv, es, n). table_ok (u_manager srv)" for io
proof
  fix st :: "UDPServer \<times> udp_effect list \<times> nat" and sid ct speaker cs payload
  obtain srv es n where st: "st = (srv, es, n)" by (metis prod_cases3)
  obtain res es' srv' where s: "Send srv sid ct speaker cs payload (fst (io n)) (snd (io n)) = (res, es', srv')" by (metis prod_cases3)
  assume "case st of (srv, es, n) \<Rightarrow> table_ok (u_manager srv)"
  then show "case snd (udp_sender io st sid ct speaker cs payload) of (srv, es, n) \<Rightarrow> table_ok (u_manager srv)"
    using Send_evolves [OF _ s] by (simp add: st udp_sender_simp [where io = io and n = n, OF s])
qed

text \<open>What a datagram written during a fan-out is, in terms of the sessions the fan-out started with.\<close>

definition voice_copy :: "Manager \<Rightarrow> Frame \<Rightarrow> id16 \<Rightarrow> bytes \<Rightarrow> UDPAddr \<Rightarrow> bool" where
  "voice_copy m frame sid pkt peer \<longleftrightarrow>
     (\<exists>r s. lookupSession m sid = Some (r, s) \<and> sRemote s = Some peer \<and>
       (\<forall>gcm key. (sEncrypted s \<longrightarrow> sS2C s = Some (gcm key) \<and> aead_ok (gcm key) \<and> length key = masterKeySize) \<longrightarrow>
          (\<exists>seq. seq \<noteq> 0 \<and> DecodePacket gcm pkt (sEncrypted s) (Some key) =
             Some (sid, seq, \<lparr>ChannelType = f_ChannelType frame, ChannelSeq = f_ChannelSeq frame, Flags = 0,
                              SpeakerID = src_UserID (f_Source frame)\<rparr>, f_Payload frame, True))))"

lemma Send_voice_copy:
  assumes ok: "table_ok (u_manager srv)" and ev: "send_evolves m (u_manager srv)"
    and s: "Send srv sid (f_ChannelType frame) (src_UserID (f_Source frame)) (f_ChannelSeq frame) (f_Payload frame) now wok = (res, es, srv')"
    and w: "(pkt, peer) \<in> set (writes es)"
  shows "voice_copy m frame sid pkt peer"
proof -
  obtain u where "res = Return u" using Send_result [OF s] w by (cases res) auto
  with Send_result [OF s] w obtain r v where v: "lookupSession (u_manager srv) sid = Some (r, v)" "sRemote v = Some peer" "sSendSeq v + 1 \<noteq> 0"
    and d: "\<And>gcm key. (sEncrypted v \<longrightarrow> sS2C v = Some (gcm key) \<and> aead_ok (gcm key) \<and> length key = masterKeySize) \<longrightarrow>
           DecodePacket gcm pkt (sEncrypted v) (Some key) =
             Some (sid, sSendSeq v + 1, \<lparr>ChannelType = f_ChannelType frame, ChannelSeq = f_ChannelSeq frame, Flags = 0,
                     SpeakerID = src_UserID (f_Source frame)\<rparr>, f_Payload frame, True)"
    by auto
  note l = lookupSession_SomeD [OF v(1)]
  then have e: "fmlookup (sessions m) sid = Some r" using ev by (auto simp: send_evolves_def)
  obtain t where t: "fmlookup (heap m) r = Some t" "sEncrypted v = sEncrypted t" "sS2C v = sS2C t" "sRemote v = sRemote t"
    using ev l unfolding send_evolves_def by blast
  then have "lookupSession m sid = Some (r, t)" using e by (simp add: lookupSession_def)
  then show ?thesis
    unfolding voice_copy_def using v d t by (intro exI [of _ r] exI [of _ t]) auto
qed

lemma fanout_copies:
  assumes "table_ok (u_manager srv)" "send_evolves m (u_manager srv)"
    and "\<forall>(pkt, peer) \<in> set (writes es). \<exists>sid \<in> S. voice_copy m frame sid pkt peer" "set sends \<subseteq> S"
  shows "case foldl (\<lambda>st sid. snd (udp_sender io st sid (f_ChannelType frame) (src_UserID (f_Source frame)) (f_ChannelSeq frame) (f_Payload frame)))
           (srv, es, n) sends of (srv', es', n') \<Rightarrow> \<forall>(pkt, peer) \<in> set (writes es'). \<exists>sid \<in> S. voice_copy m frame sid pkt peer"
  using assms
proof (induction sends arbitrary: srv es n)
  case (Cons sid sends)
  obtain res es' srv' where s: "Send srv sid (f_ChannelType frame) (src_UserID (f_Source frame)) (f_ChannelSeq frame) (f_Payload frame) (fst (io n)) (snd (io n))
      = (res, es', srv')" by (metis prod_cases3)
  note ev = Send_evolves [OF Cons.prems(1) s]
  have "\<forall>(pkt, peer) \<in> set (writes (es @ es')). \<exists>sid \<in> S. voice_copy m frame sid pkt peer"
    using Cons.prems(3,4) Send_voice_copy [OF Cons.prems(1,2) s] by auto
  with Cons.IH [of srv' "es @ es'" "Suc n"] ev Cons.prems send_evolves_trans show ?case
    by (simp add: udp_sender_simp [where io = io and n = n, OF s])
qed simp

text \<open>C17. Voice, end to end: when a relay worker fans a frame out over the UDP transport, whatever the clock shows and whichever writes fail,
  the session tables stay consistent; sends are attempted, in membership order, exactly for the first 256 other members if the speaker's authority is current and
  the speaker not muted; and every datagram written goes to the learned address of the published session of a
  current member of the speaker's channel, never to the speaker's own session, and decodes there to
  the speaker's id, the original stream type, channel sequence and payload under a non-zero sequence
  number.\<close>

theorem voice_end_to_end:
  assumes "table_ok (u_manager srv)"
    and "process (udp_sender io) mute members before held frame r (srv, [], n) = (sends, r', (srv', es, n'))"
  shows "table_ok (u_manager srv') \<and>
    sends = (if before = Some (f_Source frame) \<and> held = Some (f_Source frame) \<and> \<not> mute (f_Source frame) (f_ChannelType frame) \<and>
               ms_ChannelID (members (src_ChannelID (f_Source frame))) = src_ChannelID (f_Source frame)
             then take 256 (map rc_SessionID (filter (\<lambda>m. sint (rc_UserID m) > 0 \<and> rc_SessionID m \<noteq> 0 \<and> rc_SessionID m \<noteq> src_SessionID (f_Source frame))
                    (ms_Members (members (src_ChannelID (f_Source frame))))))
             else []) \<and>
    (\<forall>(pkt, peer) \<in> set (writes es). \<exists>sid \<in> set sends. sid \<noteq> src_SessionID (f_Source frame) \<and>
       (\<exists>m \<in> set (ms_Members (members (src_ChannelID (f_Source frame)))). rc_SessionID m = sid) \<and>
       voice_copy (u_manager srv) frame sid pkt peer)"
proof -
  let ?src = "f_Source frame"
  let ?ms = "ms_Members (members (src_ChannelID ?src))"
  have t: "table_ok (u_manager srv')"
    using udp_media.process_inv [of "(srv, [], n)" io mute members before held frame r] assms by simp
  note fan = process_fanout [of "udp_sender io" mute members before held frame r "(srv, [], n)", unfolded Let_def assms(2) fst_conv snd_conv]
  then have w: "\<forall>(pkt, peer) \<in> set (writes es). \<exists>sid \<in> set sends. voice_copy (u_manager srv) frame sid pkt peer"
    using fanout_copies [OF assms(1) send_evolves_refl _ subset_refl, where es = "[]" and frame = frame and sends = sends and io = io and n = n] by (auto split: prod.splits)
  have m: "sid \<noteq> src_SessionID ?src \<and> (\<exists>m \<in> set ?ms. rc_SessionID m = sid)" if "sid \<in> set sends" for sid
    using that fan by (auto split: if_splits dest!: in_set_takeD)
  show ?thesis using t fan w m by fast
qed

text \<open>User 8 speaks; user 7 listens in the encrypted session 1 at a learned address.\<close>

definition demo_members :: "int64 \<Rightarrow> MembershipSnapshot" where
  "demo_members c = \<lparr>ms_ChannelID = c, ms_Members = [\<lparr>rc_UserID = 7, rc_SessionID = 1\<rparr>, \<lparr>rc_UserID = 8, rc_SessionID = 2\<rparr>]\<rparr>"

definition demo_speaker :: Source where "demo_speaker = demo_source\<lparr>src_UserID := 8, src_SessionID := 2\<rparr>"
definition demo_voice :: Frame where "demo_voice = demo_media\<lparr>f_Source := demo_speaker\<rparr>"

abbreviation demo_fanout :: "id16 list \<times> Relay \<times> UDPServer \<times> udp_effect list \<times> nat" where
  "demo_fanout \<equiv> process (udp_sender (\<lambda>n. (int n, True))) (\<lambda>_ _. False) demo_members (Some demo_speaker) (Some demo_speaker) demo_voice demo_relay (keyed_server, [], 0)"

lemma demo_fanout_writes: "\<exists>sends r' srv' pkt es n'. demo_fanout = (sends, r', srv', es, n') \<and> writes es = [(pkt, demo_addr)]"
proof -
  have get: "getSession (u_manager keyed_server) 1 0 = (Some 0, [], u_manager keyed_server)"
    using keyed_session_facts by (simp add: getSession_def getSessionStaged_def expiredLocked_def)
  have res: "reserveSendSeq keyed_session = (Return (1, True, Some (toy_gcm demo_key), Some demo_addr), keyed_session\<lparr>sSendSeq := 1\<rparr>)"
    by (simp add: reserveSendSeq_def keyed_session_def newSession_def)
  obtain pkt where pkt: "buildPacket 1 1 True (Some (toy_gcm demo_key)) \<lparr>ChannelType = 1, ChannelSeq = 9, Flags = 0, SpeakerID = 8\<rparr> [1, 2, 3] = Return pkt"
    by (simp add: buildPacket_eq size_consts)
  have "\<exists>es srv'. Send keyed_server 1 1 8 9 [1, 2, 3] 0 True = (Return (), es, srv') \<and> writes es = [(pkt, demo_addr)]"
    using get res pkt keyed_session_facts(9)
    by (simp add: Send_def keyed_manager HeartbeatChannelType_def size_consts packetConn_def Let_def) (simp add: keyed_server_def demo_server_def)
  then obtain es srv' where s: "Send keyed_server 1 1 8 9 [1, 2, 3] 0 True = (Return (), es, srv')" "writes es = [(pkt, demo_addr)]" by blast
  have "demo_fanout = ([1], bump CSent demo_relay, srv', es, 1)"
    using s(1) by (simp add: process_def demo_voice_def demo_speaker_def demo_media_def demo_source_def demo_members_def skipped_def udp_sender_def MaxFanout_def)
  then show ?thesis using s(2) by blast
qed

theorem voice_end_to_end_witness:
  "\<exists>sends r' srv' pkt es n'. demo_fanout = (sends, r', srv', es, n') \<and> writes es = [(pkt, demo_addr)] \<and> sends = [1] \<and> table_ok (u_manager srv') \<and>
    (\<exists>seq. seq \<noteq> 0 \<and> DecodePacket toy_gcm pkt True (Some demo_key) =
       Some (1, seq, \<lparr>ChannelType = 1, ChannelSeq = 9, Flags = 0, SpeakerID = 8\<rparr>, [1, 2, 3], True))"
proof -
  obtain sends r' srv' pkt es n' where p: "demo_fanout = (sends, r', srv', es, n')" "writes es = [(pkt, demo_addr)]"
    using demo_fanout_writes by blast
  note v = voice_end_to_end [OF keyed_server_ok(1) p(1)]
  have sends: "sends = [1]" using v by (simp add: demo_members_def demo_voice_def demo_speaker_def)
  have "voice_copy (u_manager keyed_server) demo_voice 1 pkt demo_addr" using v p(2) sends by simp
  then have "\<exists>seq. seq \<noteq> 0 \<and> DecodePacket toy_gcm pkt True (Some demo_key) =
       Some (1, seq, \<lparr>ChannelType = 1, ChannelSeq = 9, Flags = 0, SpeakerID = 8\<rparr>, [1, 2, 3], True)"
    using keyed_session_facts(1,2)
    by (auto simp: voice_copy_def toy_gcm_ok demo_key_def masterKeySize_def demo_voice_def demo_media_def demo_speaker_def keyed_session_def newSession_def
        dest!: spec [of _ toy_gcm] spec [of _ demo_key])
  with p sends v show ?thesis by blast
qed

end
